(* ===== verification/PyNum.thy ===== *)
theory PyNum
  imports Complex_Main "HOL-Library.Log_Nat" "HOL-Library.Code_Target_Numeral"
begin

text \<open>
  Python's two inexact number types, as rationals with a rounding step after every operation.

  A \<open>float\<close> is an IEEE-754 binary64 value: 53 significant binary digits, exponents down to
  \<open>-1074\<close>. A \<open>Decimal\<close> in the default context has 28 significant decimal digits, exponents
  down to \<open>-1000026\<close> (\<open>Etiny\<close>). Both round to nearest, ties to even, so one rounding function
  \<open>rnd b p emin\<close> serves both: the locale \<open>rounding\<close> proves its laws once (monotone, odd,
  sign-preserving, idempotent, exact on \<open>p\<close>-digit values) and is interpreted for each format.

  The values modelled are the finite ones. Infinities, NaN, signed zeros and overflow past the
  largest exponent are not represented: a theory that uses these types says where the source could
  meet one.
\<close>

section \<open>Rounding to nearest, ties to even\<close>

definition round_half_even :: "rat \<Rightarrow> int" where
  "round_half_even x =
     (let f = \<lfloor>x\<rfloor>; d = x - of_int f
      in if d < 1 / 2 then f else if 1 / 2 < d then f + 1 else if even f then f else f + 1)"

definition ilog :: "nat \<Rightarrow> rat \<Rightarrow> int" where
  "ilog b x =
     (let (n, d) = quotient_of x; k = int (floorlog b (nat n)) - int (floorlog b (nat d))
      in if (of_nat b :: rat) powi k \<le> x then k else k - 1)"

definition ulp_exp :: "nat \<Rightarrow> int \<Rightarrow> int \<Rightarrow> rat \<Rightarrow> int" where
  "ulp_exp b p emin x = max emin (ilog b \<bar>x\<bar> - (p - 1))"

definition rnd :: "nat \<Rightarrow> int \<Rightarrow> int \<Rightarrow> rat \<Rightarrow> rat" where
  "rnd b p emin x =
     (if x = 0 then 0
      else let u = (of_nat b :: rat) powi (ulp_exp b p emin x)
           in of_int (round_half_even (x / u)) * u)"

lemma round_half_even_of_int [simp]: "round_half_even (of_int n) = n"
  by (simp add: round_half_even_def)

lemma round_half_even_floor_le: "\<lfloor>x\<rfloor> \<le> round_half_even x"
  by (simp add: round_half_even_def Let_def)

lemma round_half_even_le_floor1: "round_half_even x \<le> \<lfloor>x\<rfloor> + 1"
  by (simp add: round_half_even_def Let_def)

lemma round_half_even_mono:
  assumes "x \<le> y" shows "round_half_even x \<le> round_half_even y"
proof (cases "\<lfloor>x\<rfloor> = \<lfloor>y\<rfloor>")
  case True
  with assms show ?thesis by (simp add: round_half_even_def Let_def)
next
  case False
  with assms have "\<lfloor>x\<rfloor> + 1 \<le> \<lfloor>y\<rfloor>" using floor_mono [OF assms] by linarith
  then show ?thesis using round_half_even_le_floor1 [of x] round_half_even_floor_le [of y] by linarith
qed

lemma round_half_even_minus: "round_half_even (- x) = - round_half_even x"
proof (cases "x = of_int \<lfloor>x\<rfloor>")
  case True
  then show ?thesis by (metis of_int_minus round_half_even_of_int)
next
  case False
  have lt: "of_int \<lfloor>x\<rfloor> < x" using False of_int_floor_le [of x] by linarith
  have ub: "x < of_int \<lfloor>x\<rfloor> + 1" by linarith
  have fl: "\<lfloor>- x\<rfloor> = - \<lfloor>x\<rfloor> - 1"
    by (rule floor_unique) (use lt ub in auto)
  have od: "even (- \<lfloor>x\<rfloor> - 1) \<longleftrightarrow> odd \<lfloor>x\<rfloor>" by simp
  show ?thesis
    unfolding round_half_even_def Let_def fl od by (auto; linarith)
qed

lemma ilog_bounds:
  assumes b: "2 \<le> b" and x: "0 < x"
  shows "(of_nat b :: rat) powi (ilog b x) \<le> x \<and> x < (of_nat b :: rat) powi (ilog b x + 1)"
proof -
  obtain n d where q: "quotient_of x = (n, d)" by force
  have d: "0 < d" using quotient_of_denom_pos [OF q] .
  have xq: "x = of_int n / of_int d" using quotient_of_div [OF q] .
  have n: "0 < n" using x d unfolding xq by (simp add: zero_less_divide_iff)
  define dn where "dn = floorlog b (nat n)"
  define dd where "dd = floorlog b (nat d)"
  let ?b = "of_nat b :: rat"
  have bp: "1 < ?b" "?b \<noteq> 0" using b by auto
  have fn: "b ^ (dn - 1) \<le> nat n" "nat n < b ^ dn"
    using floorlog_bounds [of "nat n" b] n b by (auto simp: dn_def)
  have fd: "b ^ (dd - 1) \<le> nat d" "nat d < b ^ dd"
    using floorlog_bounds [of "nat d" b] d b by (auto simp: dd_def)
  have dn1: "1 \<le> dn" and dd1: "1 \<le> dd"
    using n d b floorlog_eq_zero_iff [of b "nat n"] floorlog_eq_zero_iff [of b "nat d"]
    by (auto simp: dn_def dd_def Suc_le_eq)
  have rn: "(of_int n :: rat) = of_nat (nat n)" and rd: "(of_int d :: rat) = of_nat (nat d)"
    using n d by auto
  have n1: "?b powi (int dn - 1) \<le> of_int n"
    using fn(1) dn1 unfolding rn
    by (metis of_nat_1 of_nat_diff of_nat_le_iff of_nat_power power_int_of_nat)
  have n2: "of_int n < ?b powi int dn"
    using fn(2) unfolding rn by (metis of_nat_less_iff of_nat_power power_int_of_nat)
  have d1: "?b powi (int dd - 1) \<le> of_int d"
    using fd(1) dd1 unfolding rd
    by (metis of_nat_1 of_nat_diff of_nat_le_iff of_nat_power power_int_of_nat)
  have d2: "of_int d < ?b powi int dd"
    using fd(2) unfolding rd by (metis of_nat_less_iff of_nat_power power_int_of_nat)
  have lo: "?b powi (int dn - int dd - 1) < x"
  proof -
    have "?b powi (int dn - int dd - 1) * of_int d < ?b powi (int dn - int dd - 1) * ?b powi int dd"
      using d2 bp by (intro mult_strict_left_mono) auto
    also have "\<dots> = ?b powi (int dn - int dd - 1 + int dd)" using bp by (subst power_int_add) auto
    also have "\<dots> = ?b powi (int dn - 1)" by (simp add: algebra_simps)
    also have "\<dots> \<le> of_int n" by (rule n1)
    finally show ?thesis using d unfolding xq by (simp add: pos_less_divide_eq)
  qed
  have hi: "x < ?b powi (int dn - int dd + 1)"
  proof -
    have "of_int n < ?b powi int dn" by (rule n2)
    also have "?b powi int dn = ?b powi (int dn - int dd + 1 + (int dd - 1))" by (simp add: algebra_simps)
    also have "\<dots> = ?b powi (int dn - int dd + 1) * ?b powi (int dd - 1)"
      using bp by (subst power_int_add) auto
    also have "\<dots> \<le> ?b powi (int dn - int dd + 1) * of_int d"
      using d1 bp by (intro mult_left_mono) auto
    finally show ?thesis using d unfolding xq by (simp add: pos_divide_less_eq)
  qed
  have "ilog b x = (if ?b powi (int dn - int dd) \<le> x then int dn - int dd else int dn - int dd - 1)"
    by (simp add: ilog_def q dn_def dd_def Let_def)
  then show ?thesis using lo hi by auto
qed

section \<open>The laws of a rounding format\<close>

locale rounding =
  fixes b :: nat and p :: int and emin :: int
  assumes base: "2 \<le> b" and prec: "1 \<le> p"
begin

lemma base_gt1: "(1::rat) < of_nat b"
  using base by auto

lemma base_pos: "(0::rat) < of_nat b"
  using base by auto

lemma powi_pos: "(0::rat) < of_nat b powi k"
  using base_pos by auto

lemma powi_int_multiple:
  assumes "e \<le> k" shows "\<exists>m. (of_nat b :: rat) powi k / of_nat b powi e = of_int m"
proof -
  have "(of_nat b :: rat) powi k / of_nat b powi e = of_nat b powi (k - e)"
    using base_pos by (simp add: power_int_diff)
  also have "\<dots> = of_int (int b ^ nat (k - e))"
    using assms by (simp add: power_int_nonneg_exp)
  finally show ?thesis by blast
qed

lemma ilog_mono:
  assumes "0 < x" "x \<le> y" shows "ilog b x \<le> ilog b y"
proof (rule ccontr)
  assume "\<not> ilog b x \<le> ilog b y"
  then have "(of_nat b :: rat) powi (ilog b y + 1) \<le> of_nat b powi (ilog b x)"
    using base_gt1 by (intro power_int_increasing) auto
  also have "\<dots> \<le> x" using ilog_bounds [OF base \<open>0 < x\<close>] by simp
  finally show False using ilog_bounds [OF base, of y] assms by simp
qed

lemma ulp_exp_mono:
  assumes "0 < x" "x \<le> y" shows "ulp_exp b p emin x \<le> ulp_exp b p emin y"
  using ilog_mono [OF assms] assms by (auto simp: ulp_exp_def)

lemma rnd_eq: "x \<noteq> 0 \<Longrightarrow> rnd b p emin x =
    of_int (round_half_even (x / of_nat b powi ulp_exp b p emin x)) * of_nat b powi ulp_exp b p emin x"
  by (simp add: rnd_def Let_def)

lemma rnd_0 [simp]: "rnd b p emin 0 = 0"
  by (simp add: rnd_def)

lemma rnd_minus: "rnd b p emin (- x) = - rnd b p emin x"
  by (simp add: rnd_def ulp_exp_def Let_def round_half_even_minus)

text \<open>A power of the base that is not below the unit in the last place bounds the result.\<close>

lemma rnd_le_powi:
  assumes "0 < x" "x \<le> of_nat b powi k" "ulp_exp b p emin x \<le> k"
  shows "rnd b p emin x \<le> of_nat b powi k"
proof -
  let ?u = "of_nat b powi ulp_exp b p emin x :: rat"
  obtain m where m: "of_nat b powi k / ?u = of_int m" using powi_int_multiple [OF assms(3)] by blast
  have "x / ?u \<le> of_int m" using assms(2) powi_pos unfolding m [symmetric] by (intro divide_right_mono) auto
  then have "round_half_even (x / ?u) \<le> m" using round_half_even_mono [of "x / ?u" "of_int m"] by simp
  then have "of_int (round_half_even (x / ?u)) * ?u \<le> of_int m * ?u"
    using powi_pos [of "ulp_exp b p emin x"] by simp
  also have "\<dots> = of_nat b powi k" using base powi_pos [of "ulp_exp b p emin x"] by (simp flip: m)
  finally show ?thesis using assms(1) by (simp add: rnd_eq)
qed

lemma rnd_ge_powi:
  assumes "of_nat b powi k \<le> x" "ulp_exp b p emin x \<le> k"
  shows "of_nat b powi k \<le> rnd b p emin x"
proof -
  let ?u = "of_nat b powi ulp_exp b p emin x :: rat"
  have x: "0 < x" using assms(1) powi_pos [of k] by linarith
  obtain m where m: "of_nat b powi k / ?u = of_int m" using powi_int_multiple [OF assms(2)] by blast
  have "of_int m \<le> x / ?u" using assms(1) powi_pos unfolding m [symmetric] by (intro divide_right_mono) auto
  then have "m \<le> round_half_even (x / ?u)" using round_half_even_mono [of "of_int m" "x / ?u"] by simp
  then have "of_int m * ?u \<le> of_int (round_half_even (x / ?u)) * ?u"
    using powi_pos [of "ulp_exp b p emin x"] by simp
  moreover have "of_int m * ?u = of_nat b powi k"
    using base powi_pos [of "ulp_exp b p emin x"] by (simp flip: m)
  ultimately show ?thesis using x by (simp add: rnd_eq)
qed

lemma rnd_nonneg: "0 \<le> x \<Longrightarrow> 0 \<le> rnd b p emin x"
  using round_half_even_mono [of 0 "x / of_nat b powi ulp_exp b p emin x"] round_half_even_of_int [of 0]
    powi_pos [of "ulp_exp b p emin x"]
  by (cases "x = 0") (auto simp: rnd_eq)

lemma rnd_nonpos: "x \<le> 0 \<Longrightarrow> rnd b p emin x \<le> 0"
  using rnd_nonneg [of "- x"] by (simp add: rnd_minus)

lemma rnd_mono_pos:
  assumes "0 < x" "x \<le> y" shows "rnd b p emin x \<le> rnd b p emin y"
proof (cases "ulp_exp b p emin x = ulp_exp b p emin y")
  case True
  have "round_half_even (x / of_nat b powi ulp_exp b p emin y)
      \<le> round_half_even (y / of_nat b powi ulp_exp b p emin y)"
    using assms powi_pos by (intro round_half_even_mono divide_right_mono) (auto simp: less_imp_le)
  then show ?thesis using True assms powi_pos [of "ulp_exp b p emin y"] by (simp add: rnd_eq)
next
  case False
  then have lt: "ulp_exp b p emin x < ulp_exp b p emin y" using ulp_exp_mono [OF assms] by simp
  let ?k = "ilog b y"
  have uy: "ulp_exp b p emin y = ?k - (p - 1)" using lt assms by (auto simp: ulp_exp_def)
  then have uyk: "ulp_exp b p emin y \<le> ?k" using prec by simp
  have ux: "ilog b x + 1 \<le> ?k" using lt uy assms by (auto simp: ulp_exp_def)
  have "x \<le> of_nat b powi (ilog b x + 1)" using ilog_bounds [OF base assms(1)] by simp
  also have "\<dots> \<le> of_nat b powi ?k" using ux base_gt1 by (intro power_int_increasing) auto
  finally have "rnd b p emin x \<le> of_nat b powi ?k"
    using lt uyk assms(1) by (intro rnd_le_powi) auto
  also have "\<dots> \<le> rnd b p emin y"
    using ilog_bounds [OF base, of y] assms uyk by (intro rnd_ge_powi) auto
  finally show ?thesis .
qed

lemma rnd_mono: "x \<le> y \<Longrightarrow> rnd b p emin x \<le> rnd b p emin y"
proof (cases "0 < x")
  case True
  then show "x \<le> y \<Longrightarrow> ?thesis" by (rule rnd_mono_pos)
next
  case False
  assume le: "x \<le> y"
  show ?thesis
  proof (cases "0 \<le> y")
    case True
    with False show ?thesis using rnd_nonneg [of y] rnd_nonpos [of x] by simp
  next
    case neg: False
    then have "rnd b p emin (- y) \<le> rnd b p emin (- x)" using le by (intro rnd_mono_pos) auto
    then show ?thesis by (simp add: rnd_minus)
  qed
qed

text \<open>A value with at most \<open>p\<close> significant digits is not changed.\<close>

lemma rnd_exact:
  assumes "x = of_int m * of_nat b powi e" "emin \<le> e" "\<bar>m\<bar> < int b ^ nat p"
  shows "rnd b p emin x = x"
proof (cases "x = 0")
  case False
  then have m: "m \<noteq> 0" using assms(1) by auto
  have "\<bar>x\<bar> < of_nat b powi p * of_nat b powi e"
  proof -
    have "(of_int \<bar>m\<bar> :: rat) < of_int (int b ^ nat p)" using assms(3) by (subst of_int_less_iff)
    also have "\<dots> = of_nat b powi p" using prec by (simp add: power_int_nonneg_exp)
    finally show ?thesis using powi_pos [of e] by (simp add: assms(1) abs_mult)
  qed
  also have "\<dots> = of_nat b powi (p + e)" using base_pos by (simp add: power_int_add)
  finally have xlt: "\<bar>x\<bar> < of_nat b powi (p + e)" .
  have "ilog b \<bar>x\<bar> < p + e"
  proof (rule ccontr)
    assume "\<not> ilog b \<bar>x\<bar> < p + e"
    then have "(of_nat b :: rat) powi (p + e) \<le> of_nat b powi (ilog b \<bar>x\<bar>)"
      using base_gt1 by (intro power_int_increasing) auto
    also have "\<dots> \<le> \<bar>x\<bar>" using ilog_bounds [OF base, of "\<bar>x\<bar>"] False by simp
    finally show False using xlt by simp
  qed
  then have ule: "ulp_exp b p emin x \<le> e" using assms(2) by (simp add: ulp_exp_def)
  obtain k where k: "(of_nat b :: rat) powi e / of_nat b powi ulp_exp b p emin x = of_int k"
    using powi_int_multiple [OF ule] by blast
  have "x / of_nat b powi ulp_exp b p emin x
      = of_int m * (of_nat b powi e / of_nat b powi ulp_exp b p emin x)"
    by (simp add: assms(1))
  then have q: "x / of_nat b powi ulp_exp b p emin x = of_int (m * k)" by (simp only: k of_int_mult)
  have "rnd b p emin x = of_int (m * k) * of_nat b powi ulp_exp b p emin x"
    using False by (simp only: rnd_eq q round_half_even_of_int not_False_eq_True)
  also have "\<dots> = x / of_nat b powi ulp_exp b p emin x * of_nat b powi ulp_exp b p emin x"
    by (simp only: q)
  finally show ?thesis using base powi_pos [of "ulp_exp b p emin x"] by simp
qed simp

lemma rnd_of_int:
  assumes "emin \<le> 0" "\<bar>m\<bar> < int b ^ nat p" shows "rnd b p emin (of_int m) = of_int m"
  using rnd_exact [of "of_int m" m 0] assms by simp

lemma rnd_significand_bound:
  assumes "0 < x"
  shows "round_half_even (x / of_nat b powi ulp_exp b p emin x) \<le> int b ^ nat p"
proof -
  let ?e = "ulp_exp b p emin x"
  have "x < of_nat b powi (ilog b x + 1)" using ilog_bounds [OF base assms] by simp
  also have "\<dots> \<le> of_nat b powi (p + ?e)"
    using assms base_gt1 by (intro power_int_increasing) (auto simp: ulp_exp_def)
  also have "\<dots> = of_nat b powi p * of_nat b powi ?e" using base_pos by (simp add: power_int_add)
  also have "of_nat b powi p = (of_int (int b ^ nat p) :: rat)" using prec by (simp add: power_int_nonneg_exp)
  finally have "x / of_nat b powi ?e \<le> of_int (int b ^ nat p)"
    using powi_pos [of ?e] by (simp add: pos_divide_le_eq)
  from round_half_even_mono [OF this] show ?thesis by (simp only: round_half_even_of_int)
qed

lemma rnd_idem_pos:
  assumes "0 < x" shows "rnd b p emin (rnd b p emin x) = rnd b p emin x"
proof -
  let ?e = "ulp_exp b p emin x" let ?m = "round_half_even (x / of_nat b powi ?e)"
  have r: "rnd b p emin x = of_int ?m * of_nat b powi ?e" using assms by (simp add: rnd_eq)
  have e: "emin \<le> ?e" by (simp add: ulp_exp_def)
  have "0 \<le> ?m" using round_half_even_mono [of 0 "x / of_nat b powi ?e"] round_half_even_of_int [of 0]
      assms powi_pos [of ?e] by simp
  then consider "\<bar>?m\<bar> < int b ^ nat p" | "?m = int b ^ nat p"
    using rnd_significand_bound [OF assms] by force
  then show ?thesis
  proof cases
    case 1
    then show ?thesis using rnd_exact [OF r e] by simp
  next
    case 2
    have "rnd b p emin x = of_int 1 * of_nat b powi (p + ?e)"
      using prec base_pos by (simp add: r 2 power_int_add power_int_nonneg_exp)
    moreover have "emin \<le> p + ?e" using e prec by simp
    moreover have "1 < int b ^ nat p" using base prec by (intro one_less_power) auto
    ultimately show ?thesis by (intro rnd_exact) auto
  qed
qed

lemma rnd_idem: "rnd b p emin (rnd b p emin x) = rnd b p emin x"
proof (cases "0 < x \<or> x = 0")
  case True
  then show ?thesis using rnd_idem_pos by auto
next
  case False
  then have "rnd b p emin (rnd b p emin (- x)) = rnd b p emin (- x)" by (intro rnd_idem_pos) auto
  then show ?thesis by (simp add: rnd_minus)
qed

end

section \<open>binary64 and the default Decimal context\<close>

type_synonym pyfloat = rat
type_synonym decimal = rat

definition fl :: "rat \<Rightarrow> pyfloat" where
  "fl = rnd 2 53 (-1074)"

definition dc :: "rat \<Rightarrow> decimal" where
  "dc = rnd 10 28 (-1000026)"

interpretation f64: rounding 2 53 "-1074"
  by unfold_locales auto

interpretation d28: rounding 10 28 "-1000026"
  by unfold_locales auto

text \<open>The operators of \<open>float\<close>: the exact result, rounded. Division by zero is an exception in
  Python, so the callers check the divisor first.\<close>

definition fadd :: "pyfloat \<Rightarrow> pyfloat \<Rightarrow> pyfloat" where "fadd x y = fl (x + y)"
definition fsub :: "pyfloat \<Rightarrow> pyfloat \<Rightarrow> pyfloat" where "fsub x y = fl (x - y)"
definition fmul :: "pyfloat \<Rightarrow> pyfloat \<Rightarrow> pyfloat" where "fmul x y = fl (x * y)"
definition fdiv :: "pyfloat \<Rightarrow> pyfloat \<Rightarrow> pyfloat" where "fdiv x y = fl (x / y)"

text \<open>The operators of \<open>Decimal\<close>.\<close>

definition dadd :: "decimal \<Rightarrow> decimal \<Rightarrow> decimal" where "dadd x y = dc (x + y)"
definition dsub :: "decimal \<Rightarrow> decimal \<Rightarrow> decimal" where "dsub x y = dc (x - y)"
definition dmul :: "decimal \<Rightarrow> decimal \<Rightarrow> decimal" where "dmul x y = dc (x * y)"
definition ddiv :: "decimal \<Rightarrow> decimal \<Rightarrow> decimal" where "ddiv x y = dc (x / y)"

text \<open>\<open>int / int\<close> is the correctly rounded quotient.\<close>

definition idiv :: "int \<Rightarrow> int \<Rightarrow> pyfloat" where
  "idiv a b = fl (of_int a / of_int b)"

text \<open>The representable values.\<close>

definition is_float :: "rat \<Rightarrow> bool" where "is_float x \<longleftrightarrow> fl x = x"
definition is_decimal :: "rat \<Rightarrow> bool" where "is_decimal x \<longleftrightarrow> dc x = x"

lemma fl_0 [simp]: "fl 0 = 0" and dc_0 [simp]: "dc 0 = 0"
  by (simp_all add: fl_def dc_def)

lemma fl_mono: "x \<le> y \<Longrightarrow> fl x \<le> fl y"
  unfolding fl_def by (rule f64.rnd_mono)

lemma dc_mono: "x \<le> y \<Longrightarrow> dc x \<le> dc y"
  unfolding dc_def by (rule d28.rnd_mono)

lemma fl_nonneg [intro, simp]: "0 \<le> x \<Longrightarrow> 0 \<le> fl x"
  unfolding fl_def by (rule f64.rnd_nonneg)

lemma dc_nonneg [intro, simp]: "0 \<le> x \<Longrightarrow> 0 \<le> dc x"
  unfolding dc_def by (rule d28.rnd_nonneg)

lemma fl_minus: "fl (- x) = - fl x"
  unfolding fl_def by (rule f64.rnd_minus)

lemma dc_minus: "dc (- x) = - dc x"
  unfolding dc_def by (rule d28.rnd_minus)

lemma fl_idem [simp]: "fl (fl x) = fl x"
  unfolding fl_def by (rule f64.rnd_idem)

lemma dc_idem [simp]: "dc (dc x) = dc x"
  unfolding dc_def by (rule d28.rnd_idem)

lemma is_float_fl [simp]: "is_float (fl x)"
  by (simp add: is_float_def)

lemma is_float_0 [simp]: "is_float 0"
  by (simp add: is_float_def)

lemma fl_of_int: "\<bar>n\<bar> < 2 ^ 53 \<Longrightarrow> fl (of_int n) = of_int n"
  unfolding fl_def by (rule f64.rnd_of_int) auto

lemma dc_of_int: "\<bar>n\<bar> < 10 ^ 28 \<Longrightarrow> dc (of_int n) = of_int n"
  unfolding dc_def by (rule d28.rnd_of_int) auto

lemma fl_numeral [simp]: "(numeral n :: int) < 2 ^ 53 \<Longrightarrow> fl (numeral n) = numeral n"
  using fl_of_int [of "numeral n"] by simp

lemma dc_numeral [simp]: "(numeral n :: int) < 10 ^ 28 \<Longrightarrow> dc (numeral n) = numeral n"
  using dc_of_int [of "numeral n"] by simp

lemma fl_1 [simp]: "fl 1 = 1" and dc_1 [simp]: "dc 1 = 1"
  using fl_of_int [of 1] dc_of_int [of 1] by simp_all

lemma fadd_0 [simp]: "is_float x \<Longrightarrow> fadd 0 x = x" "is_float x \<Longrightarrow> fadd x 0 = x"
  by (simp_all add: fadd_def is_float_def)

lemma fsub_self [simp]: "fsub x x = 0"
  by (simp add: fsub_def)

lemma fsub_nonneg: "y \<le> x \<Longrightarrow> 0 \<le> fsub x y"
  by (simp add: fsub_def)

lemma fadd_nonneg: "0 \<le> x \<Longrightarrow> 0 \<le> y \<Longrightarrow> 0 \<le> fadd x y"
  by (simp add: fadd_def)

lemma fadd_mono: "x \<le> x' \<Longrightarrow> y \<le> y' \<Longrightarrow> fadd x y \<le> fadd x' y'"
  by (simp add: fadd_def fl_mono add_mono)

lemma fmul_nonneg: "0 \<le> x \<Longrightarrow> 0 \<le> y \<Longrightarrow> 0 \<le> fmul x y"
  by (simp add: fmul_def)

lemma dadd_nonneg: "0 \<le> x \<Longrightarrow> 0 \<le> y \<Longrightarrow> 0 \<le> dadd x y"
  by (simp add: dadd_def)

lemma dmul_nonneg: "0 \<le> x \<Longrightarrow> 0 \<le> y \<Longrightarrow> 0 \<le> dmul x y"
  by (simp add: dmul_def)

text \<open>Adding a non-negative amount never lowers a representable value.\<close>

lemma fadd_ge: "is_float x \<Longrightarrow> 0 \<le> y \<Longrightarrow> x \<le> fadd x y"
  using fl_mono [of x "x + y"] by (simp add: fadd_def is_float_def)

lemma dadd_ge: "is_decimal x \<Longrightarrow> 0 \<le> y \<Longrightarrow> x \<le> dadd x y"
  using dc_mono [of x "x + y"] by (simp add: dadd_def is_decimal_def)

text \<open>\<open>int(x)\<close> of a float: towards zero.\<close>

definition int_of_float :: "pyfloat \<Rightarrow> int" where
  "int_of_float x = (if 0 \<le> x then \<lfloor>x\<rfloor> else \<lceil>x\<rceil>)"

lemma int_of_float_of_int [simp]: "int_of_float (of_int n) = n"
  by (simp add: int_of_float_def)

lemma int_of_float_numeral [simp]: "int_of_float (numeral n) = numeral n" "int_of_float 0 = 0" "int_of_float 1 = 1"
  by (simp_all add: int_of_float_def)

section \<open>How far a rounded value is from the exact one\<close>

lemma round_half_even_error: "\<bar>of_int (round_half_even x) - x\<bar> \<le> 1 / 2"
proof -
  have "of_int \<lfloor>x\<rfloor> \<le> x" "x < of_int \<lfloor>x\<rfloor> + 1" by linarith+
  then show ?thesis unfolding round_half_even_def Let_def by (auto split: if_splits)
qed

lemma rnd2_error_pos:
  assumes "0 < x"
  shows "\<bar>rnd 2 53 emin x - x\<bar> \<le> x / 2 ^ 53 + (2 :: rat) powi emin / 2"
proof -
  let ?e = "ulp_exp 2 53 emin x" let ?u = "(2 :: rat) powi ?e"
  have u: "0 < ?u" by simp
  have "rnd 2 53 emin x - x = (of_int (round_half_even (x / ?u)) - x / ?u) * ?u"
    using assms u by (simp add: rnd_def Let_def left_diff_distrib)
  then have "\<bar>rnd 2 53 emin x - x\<bar> = \<bar>of_int (round_half_even (x / ?u)) - x / ?u\<bar> * ?u"
    using u by (simp add: abs_mult)
  also have "\<dots> \<le> (1 / 2) * ?u" using round_half_even_error [of "x / ?u"] u by (intro mult_right_mono) auto
  also have "\<dots> \<le> x / 2 ^ 53 + 2 powi emin / 2"
  proof (cases "emin \<le> ilog 2 x - 52")
    case True
    then have "?u = 2 powi ilog 2 x / 2 ^ 52" using assms by (simp add: ulp_exp_def power_int_diff)
    also have "\<dots> \<le> x / 2 ^ 52" using ilog_bounds [of 2 x] assms by (intro divide_right_mono) auto
    finally have "(1 / 2) * ?u \<le> x / 2 ^ 53" by simp
    also have "\<dots> \<le> x / 2 ^ 53 + 2 powi emin / 2" by simp
    finally show ?thesis .
  next
    case False
    then have "?u = 2 powi emin" using assms by (simp add: ulp_exp_def)
    then show ?thesis using assms by simp
  qed
  finally show ?thesis .
qed

text \<open>Half of the smallest positive float.\<close>

definition tiny :: rat where "tiny = 2 powi (- 1075)"

lemma tiny_pos: "0 < tiny" by (simp add: tiny_def)

lemma tiny_le: "tiny \<le> 1 / 2 ^ 100"
proof -
  have "(2 :: rat) powi (- 1075) \<le> 2 powi (- 100)" by (rule power_int_increasing) simp_all
  also have "\<dots> = 1 / 2 ^ 100" by (simp add: power_int_minus field_simps)
  finally show ?thesis by (simp add: tiny_def)
qed

lemma fl_error: "\<bar>fl x - x\<bar> \<le> \<bar>x\<bar> / 2 ^ 53 + tiny"
proof -
  have h: "(2 :: rat) powi (- 1074) / 2 = tiny" unfolding tiny_def by (simp add: power_int_minus field_simps)
  have p: "\<bar>fl y - y\<bar> \<le> y / 2 ^ 53 + tiny" if "0 < y" for y
    using rnd2_error_pos [OF that, of "- 1074"] unfolding fl_def h .
  consider "0 < x" | "x = 0" | "0 < - x" by linarith
  then show ?thesis
  proof cases
    case 3
    then show ?thesis using p [OF 3] by (simp add: fl_minus)
  qed (use p tiny_pos in \<open>simp_all add: less_imp_le\<close>)
qed

lemma fl_le: "0 \<le> x \<Longrightarrow> fl x \<le> x + x / 2 ^ 53 + tiny"
  using fl_error [of x] by simp

lemma fl_ge: "0 \<le> x \<Longrightarrow> x - x / 2 ^ 53 - tiny \<le> fl x"
  using fl_error [of x] by simp

text \<open>A float is the result of rounding when it is the nearest multiple of the unit in the last place.\<close>

lemma ilog_eqI:
  assumes "2 powi k \<le> x" "x < (2 :: rat) powi (k + 1)"
  shows "ilog 2 x = k"
proof -
  have "0 < x" using assms(1) less_le_trans [of 0 "2 powi k" x] by simp
  then have b: "2 powi ilog 2 x \<le> x" "x < 2 powi (ilog 2 x + 1)" using ilog_bounds [of 2 x] by simp_all
  have lt: "i < j" if "(2 :: rat) powi i < 2 powi j" for i j
  proof (rule ccontr)
    assume "\<not> i < j"
    then have "(2 :: rat) powi j \<le> 2 powi i" by (intro power_int_increasing) simp_all
    with that show False by simp
  qed
  have "ilog 2 x < k + 1" by (rule lt) (use b assms in linarith)
  moreover have "k < ilog 2 x + 1" by (rule lt) (use b assms in linarith)
  ultimately show ?thesis by simp
qed

lemma round_half_even_eqI: "\<bar>x - of_int k\<bar> < 1 / 2 \<Longrightarrow> round_half_even x = k"
proof -
  assume "\<bar>x - of_int k\<bar> < 1 / 2"
  then have "\<bar>(of_int (round_half_even x) :: rat) - of_int k\<bar> < 1" using round_half_even_error [of x] by linarith
  then show ?thesis by linarith
qed

lemma fl_eqI:
  assumes "2 powi (e + 52) \<le> x" "x < 2 powi (e + 53)" "- 1074 \<le> e" "\<bar>x - of_int k * 2 powi e\<bar> < 2 powi e / 2"
  shows "fl x = of_int k * 2 powi e"
proof -
  have x: "0 < x" using assms(1) less_le_trans [of 0 "2 powi (e + 52)" x] by simp
  have "ilog 2 x = e + 52" using assms(1,2) by (intro ilog_eqI) (simp_all add: algebra_simps)
  then have u: "ulp_exp 2 53 (- 1074) x = e" using x assms(3) by (simp add: ulp_exp_def)
  have p: "(0 :: rat) < 2 powi e" by simp
  have "\<bar>x / 2 powi e - of_int k\<bar> = \<bar>x - of_int k * 2 powi e\<bar> / 2 powi e"
  proof -
    have "x / 2 powi e - of_int k = (x - of_int k * 2 powi e) / 2 powi e" using p by (simp add: diff_divide_distrib)
    then show ?thesis using p by simp
  qed
  also have "\<dots> < 1 / 2" using assms(4) p by (simp add: pos_divide_less_eq)
  finally have "round_half_even (x / 2 powi e) = k" by (rule round_half_even_eqI)
  then show ?thesis using x by (simp add: fl_def rnd_def u Let_def)
qed

end
