(* ===== verification/Prelude.thy ===== *)
theory Prelude
  imports PyNum "HOL-Library.AList"
begin

text \<open>
  What the components share: the outcome of a Python call (a value, a raised exception, an
  \<open>await\<close> that never completes), dictionaries with their insertion order, list slices, the string
  methods the code uses, and the locale \<open>op_machine\<close> that lifts "every operation keeps the
  invariant" to any sequence of operations.
\<close>

section \<open>Automation\<close>

text \<open>\<open>inv_intros\<close>: each component's lemmas "operation \<open>f\<close> keeps the invariant".\<close>

named_theorems inv_intros

section \<open>Outcomes of a call\<close>

text \<open>The exceptions the modelled code raises itself or meets.\<close>

datatype exn =
    ValueError
  | RuntimeError
  | TimeoutError
  | KeyError
  | IndexError
  | ZeroDivisionError
  | StopIteration
  | OtherError string

text \<open>A coroutine call either returns or waits for ever on a lock nobody will release.\<close>

datatype 'a call = Returns 'a | Blocks

text \<open>Values of type \<open>Any\<close> that the code only stores, compares or serialises.\<close>

datatype json =
    JNull
  | JBool bool
  | JInt int
  | JFloat pyfloat
  | JStr string
  | JList "json list"
  | JDict "(string \<times> json) list"

text \<open>An expression whose parts may raise: the first exception ends it.\<close>

definition bind :: "exn + 'a \<Rightarrow> ('a \<Rightarrow> exn + 'b) \<Rightarrow> exn + 'b" where
  "bind x f = (case x of Inl e \<Rightarrow> Inl e | Inr a \<Rightarrow> f a)"

lemma bind_simps [simp]: "bind (Inl e) f = Inl e" "bind (Inr a) f = f a"
  by (simp_all add: bind_def)

lemma bind_InrE:
  assumes "bind x f = Inr y"
  obtains a where "x = Inr a" "f a = Inr y"
  using assms by (cases x) (auto simp: bind_def)

section \<open>Decimals that may raise\<close>

text \<open>\<open>-x\<close> and \<open>abs(x)\<close> of a decimal round like every operation.\<close>

definition dneg :: "decimal \<Rightarrow> decimal" where "dneg x = dc (- x)"
definition dabs :: "decimal \<Rightarrow> decimal" where "dabs x = dc \<bar>x\<bar>"

text \<open>\<open>x.quantize(p, rounding=ROUND_DOWN)\<close>: towards zero; more than 28 digits are an \<open>InvalidOperation\<close>.\<close>

definition quantize_down :: "decimal \<Rightarrow> decimal \<Rightarrow> exn + decimal" where
  "quantize_down p x =
     (let n = (if 0 \<le> x then \<lfloor>x / p\<rfloor> else \<lceil>x / p\<rceil>)
      in if \<bar>n\<bar> < 10 ^ 28 then Inr (of_int n * p) else Inl (OtherError ''InvalidOperation''))"

lemma dabs_decimal: "is_decimal x \<Longrightarrow> dabs x = \<bar>x\<bar>"
  by (cases "0 \<le> x") (auto simp: dabs_def is_decimal_def dc_minus)

lemma quantize_down_le:
  assumes "quantize_down p x = Inr q" "0 < p" "0 \<le> x"
  shows "0 \<le> q \<and> q \<le> x"
proof -
  have q: "q = of_int \<lfloor>x / p\<rfloor> * p" using assms by (auto simp: quantize_down_def Let_def split: if_splits)
  have "0 \<le> \<lfloor>x / p\<rfloor>" using assms(2,3) by simp
  moreover have "of_int \<lfloor>x / p\<rfloor> * p \<le> x" using assms(2) by (simp add: pos_le_divide_eq[symmetric])
  ultimately show ?thesis using assms(2) by (simp add: q)
qed

section \<open>Dictionaries\<close>

text \<open>
  A \<open>dict\<close> keeps its keys in insertion order and assigning to a present key keeps its place:
  \<^const>\<open>AList.update\<close> does exactly that. Lookup is \<^const>\<open>map_of\<close>, \<open>pop(k, None)\<close> is
  \<^const>\<open>AList.delete\<close>, \<open>values()\<close> is \<open>map snd\<close>.
\<close>

type_synonym ('k, 'v) dict = "('k \<times> 'v) list"

abbreviation dict_get :: "('k, 'v) dict \<Rightarrow> 'k \<Rightarrow> 'v option" where
  "dict_get d k \<equiv> map_of d k"

abbreviation dict_set :: "'k \<Rightarrow> 'v \<Rightarrow> ('k, 'v) dict \<Rightarrow> ('k, 'v) dict" where
  "dict_set k v d \<equiv> AList.update k v d"

abbreviation dict_pop :: "'k \<Rightarrow> ('k, 'v) dict \<Rightarrow> ('k, 'v) dict" where
  "dict_pop k d \<equiv> AList.delete k d"

abbreviation dict_keys :: "('k, 'v) dict \<Rightarrow> 'k list" where
  "dict_keys d \<equiv> map fst d"

abbreviation dict_values :: "('k, 'v) dict \<Rightarrow> 'v list" where
  "dict_values d \<equiv> map snd d"

definition wf_dict :: "('k, 'v) dict \<Rightarrow> bool" where
  "wf_dict d \<longleftrightarrow> distinct (map fst d)"

lemma wf_dict_Nil [simp]: "wf_dict []"
  by (simp add: wf_dict_def)

lemma wf_dict_set [simp, intro]: "wf_dict d \<Longrightarrow> wf_dict (dict_set k v d)"
  by (simp add: wf_dict_def distinct_update)

lemma wf_dict_pop [simp, intro]: "wf_dict d \<Longrightarrow> wf_dict (dict_pop k d)"
  by (simp add: wf_dict_def distinct_delete)

lemma dict_get_set: "dict_get (dict_set k v d) k' = (if k' = k then Some v else dict_get d k')"
  by (simp add: update_conv')

lemma dict_get_pop: "dict_get (dict_pop k d) k' = (if k' = k then None else dict_get d k')"
  by (auto simp: delete_conv')

lemma wf_dict_mem: "wf_dict d \<Longrightarrow> (k, v) \<in> set d \<longleftrightarrow> dict_get d k = Some v"
  by (auto simp: wf_dict_def)

lemma wf_dict_values: "wf_dict d \<Longrightarrow> v \<in> set (dict_values d) \<longleftrightarrow> (\<exists>k. dict_get d k = Some v)"
  by (force simp: wf_dict_def)

lemma dict_get_values: "dict_get d k = Some v \<Longrightarrow> v \<in> set (dict_values d)"
  by (force dest: map_of_SomeD)

lemma length_dict_set:
  "length (dict_set k v d) = (if k \<in> fst ` set d then length d else Suc (length d))"
  by (induction d) auto

lemma length_dict_pop_le: "length (dict_pop k d) \<le> length d"
  by (rule length_delete_le)

lemma length_dict_pop:
  "wf_dict d \<Longrightarrow> length (dict_pop k d) = (if k \<in> fst ` set d then length d - 1 else length d)"
proof (induction d)
  case (Cons a d)
  show ?case
  proof (cases "fst a = k")
    case True
    with Cons.prems have "k \<notin> fst ` set d" by (auto simp: wf_dict_def)
    then have "dict_pop k d = d" by (rule delete_id)
    with True show ?thesis by (cases a) simp
  next
    case False
    with Cons have "length (dict_pop k d) = (if k \<in> fst ` set d then length d - 1 else length d)"
      by (simp add: wf_dict_def)
    with False show ?thesis by (cases a; cases d) auto
  qed
qed simp

lemma wf_dict_Cons: "wf_dict ((k, v) # d) \<longleftrightarrow> k \<notin> fst ` set d \<and> wf_dict d"
  by (simp add: wf_dict_def)

lemma dict_pop_absent: "k \<notin> fst ` set d \<Longrightarrow> dict_pop k d = d"
  by (rule delete_id)

lemma dict_set_last: "k \<notin> fst ` set d \<Longrightarrow> dict_set k v (d @ [(k, w)]) = d @ [(k, v)]"
  by (induction d) auto

lemma dict_set_new: "k \<notin> fst ` set d \<Longrightarrow> dict_set k v d = d @ [(k, v)]"
  by (induction d) auto

lemma fold_dict_pop_get: "dict_get (fold dict_pop ks d) k = (if k \<in> set ks then None else dict_get d k)"
  by (induction ks arbitrary: d) (auto simp: dict_get_pop)

lemma sum_dict_set:
  fixes f :: "'k \<Rightarrow> 'v \<Rightarrow> 'n::ab_group_add"
  shows "wf_dict d \<Longrightarrow> (\<Sum>(k, v) \<leftarrow> dict_set k v d. f k v) =
    (\<Sum>(k, v) \<leftarrow> d. f k v) - (case dict_get d k of None \<Rightarrow> 0 | Some w \<Rightarrow> f k w) + f k v"
proof (induction d)
  case (Cons e d)
  obtain k' w where e: "e = (k', w)" by (cases e)
  have "wf_dict d" using Cons.prems by (simp add: e wf_dict_Cons)
  then show ?case using Cons.IH by (cases "k' = k") (simp_all add: e)
qed simp

text \<open>An index dictionary whose values are keys of the main one: no dangling entry.\<close>

definition index_into :: "('i, 'k) dict \<Rightarrow> ('k, 'v) dict \<Rightarrow> bool" where
  "index_into ix d \<longleftrightarrow> (\<forall>i k. dict_get ix i = Some k \<longrightarrow> dict_get d k \<noteq> None)"

lemma index_into_Nil [simp]: "index_into [] d"
  by (simp add: index_into_def)

lemma index_into_set [intro]: "index_into ix d \<Longrightarrow> index_into ix (dict_set k v d)"
  by (auto simp: index_into_def dict_get_set)

lemma index_into_add:
  "index_into ix d \<Longrightarrow> dict_get d k \<noteq> None \<Longrightarrow> index_into (dict_set i k ix) d"
  by (auto simp: index_into_def dict_get_set)

lemma index_into_get: "index_into ix d \<Longrightarrow> dict_get ix i = Some k \<Longrightarrow> \<exists>v. dict_get d k = Some v"
  by (auto simp: index_into_def)

text \<open>\<open>{key(x): x for x in xs}\<close>.\<close>

definition dict_of :: "('v \<Rightarrow> 'k) \<Rightarrow> 'v list \<Rightarrow> ('k, 'v) dict" where
  "dict_of key xs = fold (\<lambda>x d. dict_set (key x) x d) xs []"

lemma wf_dict_of [simp, intro]: "wf_dict (dict_of key xs)"
proof -
  have "wf_dict d \<Longrightarrow> wf_dict (fold (\<lambda>x d. dict_set (key x) x d) xs d)" for d
    by (induction xs arbitrary: d) auto
  then show ?thesis by (simp add: dict_of_def)
qed

lemma dict_of_get:
  "dict_get (dict_of key xs) k = (case filter (\<lambda>x. key x = k) (rev xs) of [] \<Rightarrow> None | x # _ \<Rightarrow> Some x)"
proof -
  have "dict_get (fold (\<lambda>x d. dict_set (key x) x d) xs []) k =
      (case filter (\<lambda>x. key x = k) (rev xs) of [] \<Rightarrow> None | x # _ \<Rightarrow> Some x)"
    by (induction xs rule: rev_induct) (auto simp: dict_get_set)
  then show ?thesis by (simp add: dict_of_def)
qed

text \<open>The elements of a set in the order Python happens to iterate it: a function that lists finite sets.\<close>

definition lists_sets :: "('a set \<Rightarrow> 'a list) \<Rightarrow> bool" where
  "lists_sets ord \<longleftrightarrow> (\<forall>S. finite S \<longrightarrow> set (ord S) = S \<and> distinct (ord S))"

lemma lists_setsD: "lists_sets ord \<Longrightarrow> finite S \<Longrightarrow> set (ord S) = S"
  by (simp add: lists_sets_def)

lemma lists_sets_sorted [simp]: "lists_sets sorted_list_of_set"
  by (simp add: lists_sets_def)

text \<open>A loop that appends one finding per element in violation finds nothing iff there is none.\<close>

lemma findings_Nil: "concat (map (\<lambda>s. if P s then [f s] else []) xs) = [] \<longleftrightarrow> (\<forall>s \<in> set xs. \<not> P s)"
  by (induction xs) auto

lemma findings_set: "set (concat (map (\<lambda>s. if P s then [f s] else []) xs)) = f ` {s \<in> set xs. P s}"
  by (induction xs) auto

section \<open>Slices\<close>

text \<open>\<open>xs[i:]\<close>: a negative start counts from the end and is clamped at the beginning, and
  \<open>xs[-0:]\<close> is the whole list.\<close>

definition slice_from :: "int \<Rightarrow> 'a list \<Rightarrow> 'a list" where
  "slice_from i xs = (if 0 \<le> i then drop (nat i) xs else drop (length xs - nat (- i)) xs)"

lemma length_slice_last: "0 < n \<Longrightarrow> length (slice_from (- int n) xs) = min n (length xs)"
  by (simp add: slice_from_def)

lemma length_slice_le: "0 < n \<Longrightarrow> int (length (slice_from (- n) xs)) \<le> n"
  by (auto simp: slice_from_def)

lemma length_slice_from [simp]: "length (slice_from i xs) \<le> length xs"
  by (simp add: slice_from_def)

lemma set_slice_from: "set (slice_from i xs) \<subseteq> set xs"
  by (auto simp: slice_from_def dest: in_set_dropD)

text \<open>Python's \<open>if x:\<close> on an optional string: absent and empty are both false.\<close>

definition truthy_str :: "string option \<Rightarrow> bool" where
  "truthy_str s = (case s of None \<Rightarrow> False | Some t \<Rightarrow> t \<noteq> [])"

section \<open>Strings\<close>

text \<open>\<open>str.upper\<close> and \<open>str.lower\<close> on ASCII text; \<open>needle in s\<close>; \<open>str\<close> of an int.\<close>

definition upper_char :: "char \<Rightarrow> char" where
  "upper_char c = (let n = (of_char c :: nat) in if 97 \<le> n \<and> n \<le> 122 then char_of (n - 32) else c)"

definition lower_char :: "char \<Rightarrow> char" where
  "lower_char c = (let n = (of_char c :: nat) in if 65 \<le> n \<and> n \<le> 90 then char_of (n + 32) else c)"

definition py_upper :: "string \<Rightarrow> string" where "py_upper = map upper_char"
definition py_lower :: "string \<Rightarrow> string" where "py_lower = map lower_char"

fun contains :: "string \<Rightarrow> string \<Rightarrow> bool" where
  "contains p [] = (p = [])"
| "contains p (c # cs) = (take (length p) (c # cs) = p \<or> contains p cs)"

lemma upper_char_idem [simp]: "upper_char (upper_char c) = upper_char c"
proof (cases "97 \<le> (of_char c :: nat) \<and> (of_char c :: nat) \<le> 122")
  case True
  then have "(of_char c :: nat) - 32 < 256" by linarith
  then have "(of_char (char_of ((of_char c :: nat) - 32) :: char) :: nat) = of_char c - 32"
    by simp
  moreover have "\<not> 97 \<le> (of_char c :: nat) - 32" using True by linarith
  ultimately show ?thesis using True by (simp add: upper_char_def Let_def)
qed (auto simp: upper_char_def Let_def)

lemma py_upper_idem [simp]: "py_upper (py_upper s) = py_upper s"
  by (simp add: py_upper_def comp_def)

text \<open>\<open>s.replace(w, '')\<close> for a word that is not empty.\<close>

fun delete_word :: "string \<Rightarrow> string \<Rightarrow> string" where
  "delete_word w [] = []"
| "delete_word w (c # cs) =
     (if take (length w) (c # cs) = w then delete_word w (drop (length w - 1) cs) else c # delete_word w cs)"

fun digits10 :: "nat \<Rightarrow> string" where
  "digits10 n = (if n < 10 then [char_of (48 + n)] else digits10 (n div 10) @ [char_of (48 + n mod 10)])"

declare digits10.simps [simp del]

definition int_str :: "int \<Rightarrow> string" where
  "int_str i = (if i < 0 then CHR ''-'' # digits10 (nat (- i)) else digits10 (nat i))"

text \<open>Reading the digits back shows that \<open>str\<close> of an int determines the int.\<close>

definition digit_val :: "char \<Rightarrow> nat" where
  "digit_val c = of_char c - 48"

lemma digit_val_char: "d < 10 \<Longrightarrow> digit_val (char_of (48 + d)) = d"
  by (simp add: digit_val_def of_char_of)

lemma read_digits10: "foldl (\<lambda>a c. 10 * a + digit_val c) 0 (digits10 n) = n"
proof (induction n rule: digits10.induct)
  case (1 n)
  show ?case
    by (cases "n < 10") (subst digits10.simps, simp add: 1 digit_val_char)+
qed

lemma digits10_inj: "digits10 m = digits10 n \<Longrightarrow> m = n"
  by (metis read_digits10)

lemma digits10_hd: "\<exists>d cs. digits10 n = char_of (48 + d) # cs \<and> d < (10::nat)"
proof (induction n rule: digits10.induct)
  case (1 n)
  show ?case by (cases "n < 10") (subst digits10.simps, use 1 in force)+
qed

lemma digits10_not_minus: "digits10 n \<noteq> CHR ''-'' # cs"
proof
  assume a: "digits10 n = CHR ''-'' # cs"
  obtain d ds where d: "digits10 n = char_of (48 + d) # ds" "d < (10::nat)" using digits10_hd by blast
  with a have "(of_char (char_of (48 + d) :: char) :: nat) = of_char (CHR ''-'')" by simp
  with d(2) show False by (simp add: of_char_of)
qed

lemma int_str_inj: "int_str i = int_str j \<Longrightarrow> i = j"
  by (auto simp: int_str_def digits10_not_minus digits10_not_minus [symmetric] split: if_splits
      dest!: digits10_inj)

text \<open>\<open>int(s)\<close> of ASCII text: white space around, a sign, digits with single underscores between them.\<close>

definition is_space :: "char \<Rightarrow> bool" where
  "is_space c \<longleftrightarrow> (let n = (of_char c :: nat) in 9 \<le> n \<and> n \<le> 13 \<or> 28 \<le> n \<and> n \<le> 32)"

definition is_digit :: "char \<Rightarrow> bool" where
  "is_digit c \<longleftrightarrow> (let n = (of_char c :: nat) in 48 \<le> n \<and> n \<le> 57)"

definition py_strip :: "string \<Rightarrow> string" where
  "py_strip s = rev (dropWhile is_space (rev (dropWhile is_space s)))"

fun digits_from :: "nat \<Rightarrow> string \<Rightarrow> nat option" where
  "digits_from acc [] = Some acc"
| "digits_from acc [c] = (if is_digit c then Some (10 * acc + digit_val c) else None)"
| "digits_from acc (c # d # cs) =
     (if is_digit c then digits_from (10 * acc + digit_val c) (d # cs)
      else if c = CHR ''_'' \<and> is_digit d then digits_from (10 * acc + digit_val d) cs else None)"

definition read_digits :: "string \<Rightarrow> nat option" where
  "read_digits s = (case s of c # cs \<Rightarrow> if is_digit c then digits_from (digit_val c) cs else None | [] \<Rightarrow> None)"

definition py_int :: "string \<Rightarrow> exn + int" where
  "py_int s =
     (case (case py_strip s of
              [] \<Rightarrow> None
            | c # cs \<Rightarrow>
                if c = CHR ''-'' then map_option (\<lambda>n. - int n) (read_digits cs)
                else if c = CHR ''+'' then map_option int (read_digits cs)
                else map_option int (read_digits (c # cs))) of
        None \<Rightarrow> Inl ValueError | Some i \<Rightarrow> Inr i)"

section \<open>Sequences of operations\<close>

text \<open>
  A component is driven by the operations its callers invoke, in any order. Once every operation
  keeps \<open>inv\<close>, every run keeps it, and what every operation keeps of one state to the next
  (a reflexive and transitive \<open>rel\<close>) relates the ends of every run.
\<close>

locale op_machine =
  fixes step :: "'op \<Rightarrow> 's \<Rightarrow> 's" and inv :: "'s \<Rightarrow> bool"
  assumes step_inv: "inv s \<Longrightarrow> inv (step x s)"
begin

lemma run_inv: "inv s \<Longrightarrow> inv (fold step xs s)"
  by (induction xs arbitrary: s) (auto intro: step_inv)

lemma run_rel:
  assumes "inv s" "\<forall>x \<in> set xs. ok x" "\<And>s. rel s s" "\<And>a b c. rel a b \<Longrightarrow> rel b c \<Longrightarrow> rel a c"
    "\<And>x s. inv s \<Longrightarrow> ok x \<Longrightarrow> rel s (step x s)"
  shows "rel s (fold step xs s)"
  using assms(1,2)
proof (induction xs arbitrary: s)
  case Nil
  show ?case by (simp add: assms(3))
next
  case (Cons x xs)
  then have "rel (step x s) (fold step xs (step x s))" by (auto intro: step_inv)
  moreover have "rel s (step x s)" using Cons.prems by (intro assms(5)) auto
  ultimately show ?case by (auto intro: assms(4))
qed

end

text \<open>The same for a step relation, where threads interleave.\<close>

locale step_system =
  fixes step :: "'s \<Rightarrow> 's \<Rightarrow> bool" and inv :: "'s \<Rightarrow> bool"
  assumes step_keeps: "inv s \<Longrightarrow> step s s' \<Longrightarrow> inv s'"
begin

lemma reach_inv: "step\<^sup>*\<^sup>* s s' \<Longrightarrow> inv s \<Longrightarrow> inv s'"
  by (induction rule: rtranclp_induct) (auto intro: step_keeps)

end

end
