(* ===== verification/OrderManager.thy ===== *)
theory OrderManager
  imports Prelude
begin

text \<open>
  \<open>backend/execution/order_manager.py\<close>: the order lifecycle. \<open>Order\<close> and \<open>Fill\<close> are
  records, \<open>OrderStateMachine\<close> is the record \<open>osm\<close> (its asyncio lock, its soul logger and what was
  logged), \<open>OrderManager\<close> is the record \<open>mgr\<close> of its dictionaries and its state machine. Clock
  readings and \<open>os.urandom\<close> are arguments of the operations that take them.

  An asyncio lock is not reentrant. \<open>OrderStateMachine.add_fill\<close> awaits \<open>transition\<close> while it holds
  the lock that \<open>transition\<close> takes, so the call never returns; a call is therefore a value of
  type \<^typ>\<open>bool call\<close>, and the lock stays taken in the state that follows.

  The lemmas: every transition is an edge of \<open>VALID_TRANSITIONS\<close>, what each operation does on every
  branch, the index invariant, and which fills block.
\<close>

section \<open>Data\<close>

datatype OrderState =
    CREATED | SUBMITTED | ACKNOWLEDGED | PARTIALLY_FILLED | FILLED | CANCELLED | REJECTED | EXPIRED

fun VALID_TRANSITIONS :: "OrderState \<Rightarrow> OrderState list" where
  "VALID_TRANSITIONS CREATED = [SUBMITTED, CANCELLED]"
| "VALID_TRANSITIONS SUBMITTED = [ACKNOWLEDGED, REJECTED, CANCELLED]"
| "VALID_TRANSITIONS ACKNOWLEDGED = [PARTIALLY_FILLED, FILLED, CANCELLED, EXPIRED]"
| "VALID_TRANSITIONS PARTIALLY_FILLED = [PARTIALLY_FILLED, FILLED, CANCELLED]"
| "VALID_TRANSITIONS FILLED = []"
| "VALID_TRANSITIONS CANCELLED = []"
| "VALID_TRANSITIONS REJECTED = []"
| "VALID_TRANSITIONS EXPIRED = []"

record Fill =
  fill_id :: string
  fill_order_id :: string
  fill_price :: decimal
  fill_quantity :: decimal
  commission :: decimal
  commission_asset :: string
  fill_timestamp :: int
  trade_id :: "int option"

definition notional_value :: "Fill \<Rightarrow> decimal" where
  "notional_value f = dmul (fill_price f) (fill_quantity f)"

record Order =
  order_id :: string
  client_order_id :: string
  symbol :: string
  side :: string
  order_type :: string
  quantity :: decimal
  price :: "decimal option"
  time_in_force :: string
  state :: OrderState
  filled_quantity :: decimal
  avg_fill_price :: "decimal option"
  fills :: "Fill list"
  created_at :: int
  submitted_at :: "int option"
  acknowledged_at :: "int option"
  updated_at :: int
  exchange_order_id :: "string option"
  reject_reason :: "string option"
  metadata :: "(string, json) dict"

definition remaining_quantity :: "Order \<Rightarrow> decimal" where
  "remaining_quantity ord = dsub (quantity ord) (filled_quantity ord)"

definition is_active :: "Order \<Rightarrow> bool" where
  "is_active ord \<longleftrightarrow> state ord \<notin> set [FILLED, CANCELLED, REJECTED, EXPIRED]"

definition fill_pct :: "Order \<Rightarrow> pyfloat" where
  "fill_pct ord =
     (if quantity ord = 0 then 0
      else fl (dmul (ddiv (filled_quantity ord) (quantity ord)) 100))"

text \<open>\<open>sum\<close> starts from the int 0 and adds from the left.\<close>

definition dsum :: "decimal list \<Rightarrow> decimal" where
  "dsum xs = foldl dadd 0 xs"

definition total_commission :: "Order \<Rightarrow> decimal" where
  "total_commission ord = dsum (map commission (fills ord))"

text \<open>\<open>to_dict\<close>: the values it renders, before \<open>str\<close>. A zero price is falsy, so it is left out.\<close>

record order_view =
  v_order_id :: string
  v_client_order_id :: string
  v_symbol :: string
  v_side :: string
  v_order_type :: string
  v_quantity :: decimal
  v_price :: "decimal option"
  v_time_in_force :: string
  v_state :: OrderState
  v_filled_quantity :: decimal
  v_avg_fill_price :: "decimal option"
  v_fill_pct :: pyfloat
  v_remaining_quantity :: decimal
  v_created_at :: int
  v_exchange_order_id :: "string option"
  v_reject_reason :: "string option"

definition truthy_dec :: "decimal option \<Rightarrow> decimal option" where
  "truthy_dec d = (case d of None \<Rightarrow> None | Some x \<Rightarrow> if x = 0 then None else Some x)"

definition to_dict :: "Order \<Rightarrow> order_view" where
  "to_dict ord =
     \<lparr>v_order_id = order_id ord, v_client_order_id = client_order_id ord, v_symbol = symbol ord,
      v_side = side ord, v_order_type = order_type ord, v_quantity = quantity ord,
      v_price = truthy_dec (price ord), v_time_in_force = time_in_force ord,
      v_state = state ord, v_filled_quantity = filled_quantity ord,
      v_avg_fill_price = truthy_dec (avg_fill_price ord), v_fill_pct = fill_pct ord,
      v_remaining_quantity = remaining_quantity ord, v_created_at = created_at ord,
      v_exchange_order_id = exchange_order_id ord, v_reject_reason = reject_reason ord\<rparr>"

section \<open>The state machine\<close>

text \<open>The learning point: the fixed sentences by name, the last one by the values it shows.\<close>

datatype learning =
    Reduce_Size_Or_Timing
  | Check_Depth
  | Tighten_Slippage
  | Review_Parameters string string decimal

definition extract_learning :: "Order \<Rightarrow> string \<Rightarrow> learning" where
  "extract_learning ord reason =
     (if contains ''latency'' (py_lower reason) then Reduce_Size_Or_Timing
      else if contains ''liquidity'' (py_lower reason) then Check_Depth
      else if contains ''slippage'' (py_lower reason) then Tighten_Slippage
      else Review_Parameters (symbol ord) (side ord) (quantity ord))"

record lesson =
  lesson_timestamp :: int
  lesson_order :: order_view
  lesson_reason :: string
  lesson_learning :: learning

text \<open>\<open>sm_logger\<close>: whether a soul logger was given; \<open>sm_lessons\<close>: what it was called with. An
  exception of the logger is caught, so the call has no other effect here.\<close>

record osm =
  sm_locked :: bool
  sm_logger :: bool
  sm_lessons :: "lesson list"

definition log_to_soul :: "int \<Rightarrow> Order \<Rightarrow> string \<Rightarrow> osm \<Rightarrow> osm" where
  "log_to_soul now ord reason m =
     (if sm_logger m
      then m\<lparr>sm_lessons := sm_lessons m @
               [\<lparr>lesson_timestamp = now, lesson_order = to_dict ord, lesson_reason = reason,
                 lesson_learning = extract_learning ord reason\<rparr>]\<rparr>
      else m)"

text \<open>\<open>transition\<close>: \<open>now\<close> is the clock at the change, \<open>now'\<close> at the lesson. \<open>reason or "..."\<close> takes the
  default for an absent or empty reason. The lock is taken on entry and released on return.\<close>

definition transition ::
  "osm \<Rightarrow> Order \<Rightarrow> OrderState \<Rightarrow> string option \<Rightarrow> int \<Rightarrow> int \<Rightarrow> bool call \<times> Order \<times> osm" where
  "transition m ord new_state reason now now' =
     (if sm_locked m then (Blocks, ord, m)
      else if new_state \<notin> set (VALID_TRANSITIONS (state ord)) then (Returns False, ord, m)
      else
        let ord1 = ord\<lparr>state := new_state, updated_at := now\<rparr>
        in if new_state = SUBMITTED then (Returns True, ord1\<lparr>submitted_at := Some now\<rparr>, m)
           else if new_state = ACKNOWLEDGED then (Returns True, ord1\<lparr>acknowledged_at := Some now\<rparr>, m)
           else if new_state = REJECTED then
             (let ord2 = ord1\<lparr>reject_reason := reason\<rparr>
              in (Returns True, ord2,
                  log_to_soul now' ord2 (if truthy_str reason then the reason else ''Order rejected'') m))
           else if new_state = CANCELLED then
             (if truthy_str reason
              then let ord2 = ord1\<lparr>reject_reason := reason\<rparr>
                   in (Returns True, ord2, log_to_soul now' ord2 (''Order cancelled: '' @ the reason) m)
              else (Returns True, ord1, m))
           else (Returns True, ord1, m))"

text \<open>\<open>add_fill\<close>: the fill and the quantities are written before the state is touched.\<close>

definition record_fill :: "Order \<Rightarrow> Fill \<Rightarrow> Order" where
  "record_fill ord f =
     (let ord1 = ord\<lparr>fills := fills ord @ [f], filled_quantity := dadd (filled_quantity ord) (fill_quantity f)\<rparr>;
          total_notional = dsum (map notional_value (fills ord1))
      in if 0 < filled_quantity ord1
         then ord1\<lparr>avg_fill_price := Some (ddiv total_notional (filled_quantity ord1))\<rparr>
         else ord1)"

definition finish_fill :: "bool call \<times> Order \<times> osm \<Rightarrow> int \<Rightarrow> bool call \<times> Order \<times> osm" where
  "finish_fill res now =
     (case res of
        (Blocks, ord, m) \<Rightarrow> (Blocks, ord, m)
      | (Returns _, ord, m) \<Rightarrow> (Returns True, ord\<lparr>updated_at := now\<rparr>, m\<lparr>sm_locked := False\<rparr>))"

definition sm_add_fill :: "osm \<Rightarrow> Order \<Rightarrow> Fill \<Rightarrow> int \<Rightarrow> int \<Rightarrow> int \<Rightarrow> bool call \<times> Order \<times> osm" where
  "sm_add_fill m ord f now now' now'' =
     (if sm_locked m then (Blocks, ord, m)
      else if \<not> is_active ord then (Returns False, ord, m)
      else
        let m1 = m\<lparr>sm_locked := True\<rparr>; old_filled = filled_quantity ord; ord1 = record_fill ord f
        in if filled_quantity ord1 \<ge> quantity ord1 then
             finish_fill (transition m1 ord1 FILLED None now now') now''
           else if filled_quantity ord1 > old_filled \<and> state ord1 \<noteq> PARTIALLY_FILLED then
             finish_fill (transition m1 ord1 PARTIALLY_FILLED None now now') now''
           else finish_fill (Returns True, ord1, m1) now'')"

section \<open>The manager\<close>

record mgr =
  orders :: "(string, Order) dict"
  by_exchange_id :: "(string, string) dict"
  by_client_id :: "(string, string) dict"
  machine :: osm

definition init_mgr :: "bool \<Rightarrow> mgr" where
  "init_mgr has_logger =
     \<lparr>orders = [], by_exchange_id = [], by_client_id = [],
      machine = \<lparr>sm_locked = False, sm_logger = has_logger, sm_lessons = []\<rparr>\<rparr>"

text \<open>\<open>create_order\<close>: \<open>t1\<close>, \<open>t2\<close>, \<open>t3\<close> are its three clock readings in milliseconds, \<open>hex\<close> the four
  random bytes in hexadecimal.\<close>

definition new_order_id :: "int \<Rightarrow> string \<Rightarrow> string" where
  "new_order_id t hex = ''ORD_'' @ int_str t @ ''_'' @ hex"

definition new_client_id :: "int \<Rightarrow> string" where
  "new_client_id t = ''CLI_'' @ int_str t"

definition create_order ::
  "int \<Rightarrow> int \<Rightarrow> int \<Rightarrow> string \<Rightarrow> string \<Rightarrow> string \<Rightarrow> decimal \<Rightarrow> string \<Rightarrow> decimal option \<Rightarrow> string
   \<Rightarrow> (string, json) dict option \<Rightarrow> mgr \<Rightarrow> Order \<times> mgr" where
  "create_order t1 t2 t3 hex smb sd qty otyp prc tif meta s =
     (let oid = new_order_id t1 hex; cid = new_client_id t2;
          ord = \<lparr>order_id = oid, client_order_id = cid, symbol = py_upper smb, side = py_upper sd,
                 order_type = py_upper otyp, quantity = qty, price = prc,
                 time_in_force = py_upper tif, state = CREATED, filled_quantity = 0,
                 avg_fill_price = None, fills = [], created_at = t3, submitted_at = None,
                 acknowledged_at = None, updated_at = 0, exchange_order_id = None,
                 reject_reason = None, metadata = (case meta of None \<Rightarrow> [] | Some d \<Rightarrow> d)\<rparr>
      in (ord, s\<lparr>orders := dict_set oid ord (orders s), by_client_id := dict_set cid oid (by_client_id s)\<rparr>))"

text \<open>Run a state-machine call on a stored order and store what it leaves.\<close>

definition on_order ::
  "string \<Rightarrow> Order \<Rightarrow> (osm \<Rightarrow> Order \<Rightarrow> bool call \<times> Order \<times> osm) \<Rightarrow> mgr \<Rightarrow> bool call \<times> mgr" where
  "on_order oid ord f s =
     (case f (machine s) ord of
        (r, ord', m') \<Rightarrow> (r, s\<lparr>orders := dict_set oid ord' (orders s), machine := m'\<rparr>))"

definition submit_order :: "string \<Rightarrow> string \<Rightarrow> int \<Rightarrow> int \<Rightarrow> mgr \<Rightarrow> bool call \<times> mgr" where
  "submit_order oid xid now now' s =
     (case dict_get (orders s) oid of
        None \<Rightarrow> (Returns False, s)
      | Some ord \<Rightarrow>
          let ord1 = ord\<lparr>exchange_order_id := Some xid\<rparr>;
              s1 = s\<lparr>orders := dict_set oid ord1 (orders s), by_exchange_id := dict_set xid oid (by_exchange_id s)\<rparr>
          in on_order oid ord1 (\<lambda>m ord. transition m ord SUBMITTED None now now') s1)"

definition acknowledge_order :: "string \<Rightarrow> int \<Rightarrow> int \<Rightarrow> mgr \<Rightarrow> bool call \<times> mgr" where
  "acknowledge_order oid now now' s =
     (case dict_get (orders s) oid of
        None \<Rightarrow> (Returns False, s)
      | Some ord \<Rightarrow> on_order oid ord (\<lambda>m ord. transition m ord ACKNOWLEDGED None now now') s)"

definition add_fill ::
  "string \<Rightarrow> decimal \<Rightarrow> decimal \<Rightarrow> decimal \<Rightarrow> string \<Rightarrow> int option \<Rightarrow> int \<Rightarrow> string \<Rightarrow> int \<Rightarrow> int \<Rightarrow> int \<Rightarrow> int
   \<Rightarrow> mgr \<Rightarrow> bool call \<times> mgr" where
  "add_fill oid prc qty com asset tid t1 hex t2 now now' now'' s =
     (case dict_get (orders s) oid of
        None \<Rightarrow> (Returns False, s)
      | Some ord \<Rightarrow>
          let f = \<lparr>fill_id = ''FILL_'' @ int_str t1 @ ''_'' @ hex, fill_order_id = oid,
                   fill_price = prc, fill_quantity = qty, commission = com,
                   commission_asset = asset, fill_timestamp = t2, trade_id = tid\<rparr>
          in on_order oid ord (\<lambda>m ord. sm_add_fill m ord f now now' now'') s)"

definition cancel_order :: "string \<Rightarrow> string \<Rightarrow> int \<Rightarrow> int \<Rightarrow> mgr \<Rightarrow> bool call \<times> mgr" where
  "cancel_order oid reason now now' s =
     (case dict_get (orders s) oid of
        None \<Rightarrow> (Returns False, s)
      | Some ord \<Rightarrow>
          if \<not> is_active ord then (Returns False, s)
          else on_order oid ord (\<lambda>m ord. transition m ord CANCELLED (Some reason) now now') s)"

definition reject_order :: "string \<Rightarrow> string \<Rightarrow> int \<Rightarrow> int \<Rightarrow> mgr \<Rightarrow> bool call \<times> mgr" where
  "reject_order oid reason now now' s =
     (case dict_get (orders s) oid of
        None \<Rightarrow> (Returns False, s)
      | Some ord \<Rightarrow> on_order oid ord (\<lambda>m ord. transition m ord REJECTED (Some reason) now now') s)"

text \<open>Queries. \<open>if order_id\<close> is false for the empty string.\<close>

definition get_order :: "mgr \<Rightarrow> string \<Rightarrow> Order option" where
  "get_order s oid = dict_get (orders s) oid"

definition get_order_by_exchange_id :: "mgr \<Rightarrow> string \<Rightarrow> Order option" where
  "get_order_by_exchange_id s xid =
     (let oid = dict_get (by_exchange_id s) xid
      in if truthy_str oid then dict_get (orders s) (the oid) else None)"

definition get_order_by_client_id :: "mgr \<Rightarrow> string \<Rightarrow> Order option" where
  "get_order_by_client_id s cid =
     (let oid = dict_get (by_client_id s) cid
      in if truthy_str oid then dict_get (orders s) (the oid) else None)"

definition get_active_orders :: "mgr \<Rightarrow> string option \<Rightarrow> Order list" where
  "get_active_orders s smb =
     (let os = filter is_active (dict_values (orders s))
      in if truthy_str smb then filter (\<lambda>ord. symbol ord = py_upper (the smb)) os else os)"

definition get_all_orders :: "mgr \<Rightarrow> (string, Order) dict" where
  "get_all_orders s = orders s"

record order_statistics =
  total_orders :: nat
  active_orders :: nat
  filled_orders :: nat
  cancelled_orders :: nat
  rejected_orders :: nat
  fill_rate :: pyfloat

definition get_order_statistics :: "mgr \<Rightarrow> order_statistics" where
  "get_order_statistics s =
     (let os = dict_values (orders s); total = length os;
          filled = length (filter (\<lambda>ord. state ord = FILLED) os)
      in \<lparr>total_orders = total, active_orders = length (filter is_active os), filled_orders = filled,
          cancelled_orders = length (filter (\<lambda>ord. state ord = CANCELLED) os),
          rejected_orders = length (filter (\<lambda>ord. state ord = REJECTED) os),
          fill_rate = (if total > 0 then idiv (int filled) (int total) else 0)\<rparr>)"

section \<open>A manager driven by its callers\<close>

text \<open>One constructor per coroutine a caller may await; \<open>mgr_step\<close> is the state it leaves, whether
  the call returned or blocked.\<close>

datatype mgr_op =
    Create int int int string string string decimal string "decimal option" string
      "(string, json) dict option"
  | Submit string string int int
  | Acknowledge string int int
  | Add_Fill string decimal decimal decimal string "int option" int string int int int int
  | Cancel string string int int
  | Reject string string int int

fun mgr_step :: "mgr_op \<Rightarrow> mgr \<Rightarrow> mgr" where
  "mgr_step (Create t1 t2 t3 hex smb sd qty otyp prc tif meta) s =
     snd (create_order t1 t2 t3 hex smb sd qty otyp prc tif meta s)"
| "mgr_step (Submit oid xid now now') s = snd (submit_order oid xid now now' s)"
| "mgr_step (Acknowledge oid now now') s = snd (acknowledge_order oid now now' s)"
| "mgr_step (Add_Fill oid prc qty com asset tid t1 hex t2 now now' now'') s =
     snd (add_fill oid prc qty com asset tid t1 hex t2 now now' now'' s)"
| "mgr_step (Cancel oid reason now now') s = snd (cancel_order oid reason now now' s)"
| "mgr_step (Reject oid reason now now') s = snd (reject_order oid reason now now' s)"

definition mgr_run :: "mgr_op list \<Rightarrow> mgr \<Rightarrow> mgr" where
  "mgr_run xs s = fold mgr_step xs s"

text \<open>The contract of the lifecycle, as a step relation: the edges an order may take.\<close>

inductive lifecycle :: "OrderState \<Rightarrow> OrderState \<Rightarrow> bool" where
  submit: "lifecycle CREATED SUBMITTED"
| cancel: "s \<in> {CREATED, SUBMITTED, ACKNOWLEDGED, PARTIALLY_FILLED} \<Longrightarrow> lifecycle s CANCELLED"
| acknowledge: "lifecycle SUBMITTED ACKNOWLEDGED"
| reject: "lifecycle SUBMITTED REJECTED"
| partial_fill: "s \<in> {ACKNOWLEDGED, PARTIALLY_FILLED} \<Longrightarrow> lifecycle s PARTIALLY_FILLED"
| fill: "s \<in> {ACKNOWLEDGED, PARTIALLY_FILLED} \<Longrightarrow> lifecycle s FILLED"
| expire: "lifecycle ACKNOWLEDGED EXPIRED"

inductive_simps lifecycle_simps: "lifecycle s t"

lemma VALID_TRANSITIONS_lifecycle: "t \<in> set (VALID_TRANSITIONS s) \<longleftrightarrow> lifecycle s t"
  by (cases s; cases t) (auto simp: lifecycle_simps)

lemma is_active_iff: "is_active ord \<longleftrightarrow> (\<exists>t. lifecycle (state ord) t)"
  by (cases "state ord") (auto simp: is_active_def lifecycle_simps)

section \<open>What a transition and a fill do\<close>

lemmas transition_cases = transition_def Let_def log_to_soul_def truthy_str_def

lemma transition_locked: "sm_locked m \<Longrightarrow> transition m ord t reason now now' = (Blocks, ord, m)"
  by (simp add: transition_def)

lemma transition_result:
  "fst (transition m ord t reason now now') =
     (if sm_locked m then Blocks else Returns (lifecycle (state ord) t))"
  by (auto simp: transition_cases VALID_TRANSITIONS_lifecycle)

lemma transition_state:
  "state (fst (snd (transition m ord t reason now now'))) =
     (if \<not> sm_locked m \<and> lifecycle (state ord) t then t else state ord)"
  by (auto simp: transition_cases VALID_TRANSITIONS_lifecycle)

lemma transition_lock: "sm_locked (snd (snd (transition m ord t reason now now'))) = sm_locked m"
  by (auto simp: transition_cases)

text \<open>What no call of the state machine changes in an order.\<close>

definition same_order :: "Order \<Rightarrow> Order \<Rightarrow> bool" where
  "same_order ord ord' \<longleftrightarrow>
     order_id ord' = order_id ord \<and> client_order_id ord' = client_order_id ord \<and>
     symbol ord' = symbol ord \<and> side ord' = side ord \<and> order_type ord' = order_type ord \<and>
     quantity ord' = quantity ord \<and> price ord' = price ord \<and> created_at ord' = created_at ord \<and>
     (\<exists>fs. fills ord' = fills ord @ fs)"

lemma same_order_refl [simp]: "same_order ord ord"
  by (simp add: same_order_def)

lemma same_order_trans: "same_order a b \<Longrightarrow> same_order b c \<Longrightarrow> same_order a c"
  by (auto simp: same_order_def)

lemma transition_frame:
  "(r, ord', m') = transition m ord t reason now now' \<Longrightarrow>
     same_order ord ord' \<and> fills ord' = fills ord \<and> filled_quantity ord' = filled_quantity ord \<and>
     avg_fill_price ord' = avg_fill_price ord \<and> exchange_order_id ord' = exchange_order_id ord"
  by (auto simp: transition_cases same_order_def split: if_splits)

lemma record_fill_simps [simp]:
  "fills (record_fill ord f) = fills ord @ [f]"
  "filled_quantity (record_fill ord f) = dadd (filled_quantity ord) (fill_quantity f)"
  "state (record_fill ord f) = state ord"
  "quantity (record_fill ord f) = quantity ord"
  "order_id (record_fill ord f) = order_id ord"
  "client_order_id (record_fill ord f) = client_order_id ord"
  "exchange_order_id (record_fill ord f) = exchange_order_id ord"
  "same_order ord (record_fill ord f)"
  by (auto simp: record_fill_def Let_def same_order_def)

text \<open>The nested \<open>transition\<close> runs under the lock, so it always blocks: the whole call in one equation.\<close>

definition fill_moves_state :: "Order \<Rightarrow> Fill \<Rightarrow> bool" where
  "fill_moves_state ord f \<longleftrightarrow>
     filled_quantity (record_fill ord f) \<ge> quantity ord \<or>
     filled_quantity (record_fill ord f) > filled_quantity ord \<and> state ord \<noteq> PARTIALLY_FILLED"

lemma sm_add_fill_eq:
  "sm_add_fill m ord f now now' now'' =
     (if sm_locked m then (Blocks, ord, m)
      else if \<not> is_active ord then (Returns False, ord, m)
      else if fill_moves_state ord f then (Blocks, record_fill ord f, m\<lparr>sm_locked := True\<rparr>)
      else (Returns True, (record_fill ord f)\<lparr>updated_at := now''\<rparr>, m))"
  by (auto simp: sm_add_fill_def fill_moves_state_def finish_fill_def Let_def transition_locked)

lemma sm_add_fill_frame:
  "(r, ord', m') = sm_add_fill m ord f now now' now'' \<Longrightarrow>
     same_order ord ord' \<and> state ord' = state ord \<and> exchange_order_id ord' = exchange_order_id ord"
  using record_fill_simps(8) [of ord f]
  by (auto simp: sm_add_fill_eq same_order_def split: if_splits)

section \<open>Fill accounting\<close>

text \<open>The aggregates of an order agree with its fills, and the fills are its own.\<close>

definition fills_ok :: "Order \<Rightarrow> bool" where
  "fills_ok ord \<longleftrightarrow>
     filled_quantity ord = dsum (map fill_quantity (fills ord)) \<and>
     (\<forall>f \<in> set (fills ord). fill_order_id f = order_id ord) \<and>
     (0 < filled_quantity ord \<longrightarrow>
        avg_fill_price ord = Some (ddiv (dsum (map notional_value (fills ord))) (filled_quantity ord)))"

lemma dsum_Nil [simp]: "dsum [] = 0"
  by (simp add: dsum_def)

lemma dsum_snoc [simp]: "dsum (xs @ [x]) = dadd (dsum xs) x"
  by (simp add: dsum_def)

lemma record_fill_ok:
  "fills_ok ord \<Longrightarrow> fill_order_id f = order_id ord \<Longrightarrow> fills_ok (record_fill ord f)"
  by (auto simp: fills_ok_def record_fill_def Let_def)

lemma fills_ok_updated_at [simp]: "fills_ok (ord\<lparr>updated_at := t\<rparr>) = fills_ok ord"
  and fills_ok_exchange_order_id [simp]: "fills_ok (ord\<lparr>exchange_order_id := x\<rparr>) = fills_ok ord"
  by (simp_all add: fills_ok_def)

lemma sm_add_fill_ok:
  assumes "(r, ord', m') = sm_add_fill m ord f now now' now''" "fills_ok ord" "fill_order_id f = order_id ord"
  shows "fills_ok ord'"
  using assms by (auto simp: sm_add_fill_eq record_fill_ok split: if_splits)

lemma transition_fills_ok:
  assumes "(r, ord', m') = transition m ord t reason now now'" "fills_ok ord"
  shows "fills_ok ord'"
  using transition_frame [OF assms(1)] assms(2) by (auto simp: fills_ok_def same_order_def)

section \<open>The invariant of the manager\<close>

text \<open>What one call does to a stored order.\<close>

definition order_step :: "Order \<Rightarrow> Order \<Rightarrow> bool" where
  "order_step ord ord' \<longleftrightarrow>
     same_order ord ord' \<and> (state ord' = state ord \<or> lifecycle (state ord) (state ord')) \<and>
     (fills_ok ord \<longrightarrow> fills_ok ord') \<and> exchange_order_id ord' = exchange_order_id ord \<and>
     (state ord' \<in> {FILLED, PARTIALLY_FILLED} \<longrightarrow> state ord \<in> {FILLED, PARTIALLY_FILLED})"

lemma transition_step:
  assumes "t \<notin> {FILLED, PARTIALLY_FILLED}"
  shows "order_step ord (fst (snd (transition m ord t reason now now')))"
proof -
  obtain r ord' m' where e: "transition m ord t reason now now' = (r, ord', m')" by (metis prod_cases3)
  then have "state ord' = state ord \<or> state ord' = t \<and> lifecycle (state ord) t"
    using transition_state [of m ord t reason now now'] by (auto split: if_splits)
  with assms show ?thesis
    using transition_frame [OF e [symmetric]] transition_fills_ok [OF e [symmetric]]
    by (auto simp: order_step_def e)
qed

lemma sm_add_fill_step:
  "fill_order_id f = order_id ord \<Longrightarrow> order_step ord (fst (snd (sm_add_fill m ord f now now' now'')))"
  using sm_add_fill_frame [of _ _ _ m ord f now now' now''] sm_add_fill_ok [of _ _ _ m ord f now now' now'']
  by (cases "sm_add_fill m ord f now now' now''") (simp add: order_step_def)

text \<open>\<open>order_ok s oid ord\<close>: what holds of the order stored under \<open>oid\<close>.\<close>

definition order_ok :: "(string, string) dict \<Rightarrow> string \<Rightarrow> Order \<Rightarrow> bool" where
  "order_ok ix oid ord \<longleftrightarrow>
     order_id ord = oid \<and> fills_ok ord \<and> state ord \<notin> {FILLED, PARTIALLY_FILLED} \<and>
     (\<forall>xid. exchange_order_id ord = Some xid \<longrightarrow> dict_get ix xid \<noteq> None)"

definition mgr_inv :: "mgr \<Rightarrow> bool" where
  "mgr_inv s \<longleftrightarrow>
     wf_dict (orders s) \<and>
     (\<forall>oid ord. dict_get (orders s) oid = Some ord \<longrightarrow> order_ok (by_exchange_id s) oid ord) \<and>
     index_into (by_exchange_id s) (orders s) \<and> index_into (by_client_id s) (orders s)"

lemma mgr_invD:
  assumes "mgr_inv s" "dict_get (orders s) oid = Some ord"
  shows "order_id ord = oid" "fills_ok ord" "state ord \<notin> {FILLED, PARTIALLY_FILLED}"
    "order_ok (by_exchange_id s) oid ord"
  using assms by (auto simp: mgr_inv_def order_ok_def)

lemma order_ok_step: "order_ok ix oid ord \<Longrightarrow> order_step ord ord' \<Longrightarrow> order_ok ix oid ord'"
  unfolding order_ok_def order_step_def same_order_def by simp

lemma order_ok_index: "order_ok ix oid ord \<Longrightarrow> order_ok (dict_set k v ix) oid ord"
  by (auto simp: order_ok_def dict_get_set)

lemma on_order_state:
  "snd (on_order oid ord f s) =
     s\<lparr>orders := dict_set oid (fst (snd (f (machine s) ord))) (orders s),
       machine := snd (snd (f (machine s) ord))\<rparr>"
  by (simp add: on_order_def split: prod.splits)

lemma mgr_inv_update:
  assumes "mgr_inv s" "order_ok (by_exchange_id s) oid ord'"
  shows "mgr_inv (s\<lparr>orders := dict_set oid ord' (orders s), machine := m\<rparr>)"
  using assms by (auto simp: mgr_inv_def dict_get_set)

lemma on_order_inv:
  assumes "mgr_inv s" "order_ok (by_exchange_id s) oid ord" "order_step ord (fst (snd (f (machine s) ord)))"
  shows "mgr_inv (snd (on_order oid ord f s))"
  unfolding on_order_state using assms order_ok_step mgr_inv_update by blast

lemma mgr_inv_init: "mgr_inv (init_mgr l)"
  by (simp add: mgr_inv_def init_mgr_def)

lemma mgr_inv_create: "mgr_inv s \<Longrightarrow> mgr_inv (snd (create_order t1 t2 t3 hex smb sd qty otyp prc tif meta s))"
  unfolding create_order_def Let_def mgr_inv_def
  by (auto simp: dict_get_set order_ok_def fills_ok_def intro!: index_into_add)

text \<open>\<open>submit_order\<close> writes the exchange id and its index first.\<close>

lemma order_ok_exchange_id:
  "order_ok ix oid ord \<Longrightarrow> order_ok (dict_set xid oid ix) oid (ord\<lparr>exchange_order_id := Some xid\<rparr>)"
  by (simp add: order_ok_def dict_get_set)

lemma mgr_inv_exchange_id:
  assumes "mgr_inv s" "dict_get (orders s) oid = Some ord"
  shows "mgr_inv (s\<lparr>orders := dict_set oid (ord\<lparr>exchange_order_id := Some xid\<rparr>) (orders s),
                    by_exchange_id := dict_set xid oid (by_exchange_id s)\<rparr>)"
  using assms order_ok_exchange_id [OF mgr_invD(4) [OF assms], of xid] unfolding mgr_inv_def
  by (auto simp: dict_get_set intro: index_into_add order_ok_index)

lemma mgr_step_inv [inv_intros]: "mgr_inv s \<Longrightarrow> mgr_inv (mgr_step x s)"
proof (cases x)
  case (Submit oid xid now now')
  assume "mgr_inv s"
  then show ?thesis unfolding Submit
    by (auto simp: submit_order_def Let_def split: option.split dest: mgr_invD(4)
        intro!: on_order_inv mgr_inv_exchange_id transition_step order_ok_exchange_id)
next
  case (Add_Fill oid prc qty com asset tid t1 hex t2 now now' now'')
  assume "mgr_inv s"
  then show ?thesis unfolding Add_Fill
    by (auto simp: add_fill_def mgr_invD split: option.split intro!: on_order_inv sm_add_fill_step)
qed (auto simp: mgr_inv_create acknowledge_order_def cancel_order_def reject_order_def
    split: option.split dest: mgr_invD(4) intro!: on_order_inv transition_step)

interpretation om: op_machine mgr_step mgr_inv
  by unfold_locales (rule mgr_step_inv)

lemma mgr_run_inv: "mgr_inv (mgr_run xs (init_mgr l))"
  unfolding mgr_run_def by (rule om.run_inv) (rule mgr_inv_init)

section \<open>Steps and runs seen from one order\<close>

fun creates :: "string \<Rightarrow> mgr_op \<Rightarrow> bool" where
  "creates oid (Create t1 t2 t3 hex smb sd qty otyp prc tif meta) = (new_order_id t1 hex = oid)"
| "creates oid _ = False"

text \<open>Where a step leaves the order stored under \<open>oid\<close>.\<close>

lemma on_order_get:
  "dict_get (orders (snd (on_order oid ord f s))) oid' =
     (if oid' = oid then Some (fst (snd (f (machine s) ord))) else dict_get (orders s) oid')"
  by (simp add: on_order_state dict_get_set)

definition order_moves :: "Order \<Rightarrow> Order \<Rightarrow> bool" where
  "order_moves ord ord' \<longleftrightarrow> same_order ord ord' \<and> (state ord' = state ord \<or> lifecycle (state ord) (state ord'))"

lemma order_moves_refl [simp]: "order_moves ord ord"
  by (simp add: order_moves_def)

lemma order_step_moves: "order_step ord ord' \<Longrightarrow> order_moves ord ord'"
  by (simp add: order_step_def order_moves_def)

lemma order_moves_exchange_id: "order_moves (ord\<lparr>exchange_order_id := x\<rparr>) ord' \<Longrightarrow> order_moves ord ord'"
  by (simp add: order_moves_def same_order_def)

lemma transition_moves: "order_moves ord (fst (snd (transition m ord t reason now now')))"
proof -
  obtain r ord' m' where e: "transition m ord t reason now now' = (r, ord', m')" by (metis prod_cases3)
  then show ?thesis
    using transition_frame [OF e [symmetric]] transition_state [of m ord t reason now now']
    by (auto simp: order_moves_def split: if_splits)
qed

lemmas transition_moves_exchange_id = order_moves_exchange_id [OF transition_moves]

lemma sm_add_fill_moves: "order_moves ord (fst (snd (sm_add_fill m ord f now now' now'')))"
  using sm_add_fill_frame [of _ _ _ m ord f now now' now'']
  by (cases "sm_add_fill m ord f now now' now''") (simp add: order_moves_def)

lemma mgr_step_moves:
  assumes "dict_get (orders s) oid = Some ord" "\<not> creates oid x"
  shows "\<exists>ord'. dict_get (orders (mgr_step x s)) oid = Some ord' \<and> order_moves ord ord'"
proof (cases x)
  case (Create t1 t2 t3 hex smb sd qty otyp prc tif meta)
  with assms show ?thesis by (auto simp: create_order_def Let_def dict_get_set)
next
  case (Submit oid' xid now now')
  with assms show ?thesis
    by (auto simp: submit_order_def on_order_get dict_get_set Let_def split: option.split
        intro: transition_moves_exchange_id)
next
  case (Add_Fill oid' prc qty com asset tid t1 hex t2 now now' now'')
  with assms show ?thesis
    by (auto simp: add_fill_def on_order_get split: option.split intro: sm_add_fill_moves)
qed (use assms in \<open>auto simp: acknowledge_order_def cancel_order_def reject_order_def on_order_get
      split: option.split intro: transition_moves\<close>)

text \<open>The relation a run keeps: the order is still stored and went along lifecycle edges.\<close>

definition follows :: "string \<Rightarrow> mgr \<Rightarrow> mgr \<Rightarrow> bool" where
  "follows oid s s' \<longleftrightarrow>
     (\<forall>ord. dict_get (orders s) oid = Some ord \<longrightarrow>
        (\<exists>ord'. dict_get (orders s') oid = Some ord' \<and> same_order ord ord' \<and>
               lifecycle\<^sup>*\<^sup>* (state ord) (state ord')))"

lemma follows_refl: "follows oid s s"
  by (simp add: follows_def)

lemma follows_trans: "follows oid a b \<Longrightarrow> follows oid b c \<Longrightarrow> follows oid a c"
  unfolding follows_def by (meson same_order_trans rtranclp_trans)

lemma mgr_step_follows: "\<not> creates oid x \<Longrightarrow> follows oid s (mgr_step x s)"
  unfolding follows_def using mgr_step_moves [of s oid _ x]
  by (force simp: order_moves_def)

text \<open>With the lock taken nothing moves.\<close>

definition frozen :: "string \<Rightarrow> mgr \<Rightarrow> mgr \<Rightarrow> bool" where
  "frozen oid s s' \<longleftrightarrow>
     (sm_locked (machine s) \<longrightarrow> sm_locked (machine s') \<and>
        (\<forall>ord. dict_get (orders s) oid = Some ord \<longrightarrow>
           (\<exists>ord'. dict_get (orders s') oid = Some ord' \<and> state ord' = state ord \<and>
              fills ord' = fills ord \<and> filled_quantity ord' = filled_quantity ord)))"

lemma frozen_refl: "frozen oid s s"
  by (simp add: frozen_def)

lemma frozen_trans: "frozen oid a b \<Longrightarrow> frozen oid b c \<Longrightarrow> frozen oid a c"
  unfolding frozen_def by (meson | metis)+

lemma mgr_step_frozen: "\<not> creates oid x \<Longrightarrow> frozen oid s (mgr_step x s)"
proof (cases x)
  case (Create t1 t2 t3 hex smb sd qty otyp prc tif meta)
  then show "\<not> creates oid x \<Longrightarrow> ?thesis"
    by (auto simp: frozen_def create_order_def Let_def dict_get_set)
next
  case (Submit oid' xid now now')
  then show ?thesis
    by (auto simp: frozen_def submit_order_def on_order_state dict_get_set Let_def transition_locked
        split: option.split)
next
  case (Add_Fill oid' prc qty com asset tid t1 hex t2 now now' now'')
  then show ?thesis
    by (auto simp: frozen_def add_fill_def on_order_state dict_get_set sm_add_fill_eq Let_def split: option.split)
qed (auto simp: frozen_def acknowledge_order_def cancel_order_def reject_order_def on_order_state
      dict_get_set transition_locked split: option.split)

section \<open>Properties\<close>

text \<open>C1: Lifecycle refinement. Take any history of calls and any order it left in the manager. Whatever
  calls follow (as long as no later \<open>create_order\<close> draws the same order id), the order is still
  stored, its identity, quantity and price are unchanged, no recorded fill is dropped, and its state
  has moved only along the edges of the lifecycle. A terminal order therefore never changes state again.\<close>
theorem orders_follow_lifecycle:
  assumes "dict_get (orders (mgr_run xs (init_mgr l))) oid = Some ord"
    and "\<forall>x \<in> set ys. \<not> creates oid x"
  shows "\<exists>ord'. dict_get (orders (mgr_run ys (mgr_run xs (init_mgr l)))) oid = Some ord' \<and>
     same_order ord ord' \<and> lifecycle\<^sup>*\<^sup>* (state ord) (state ord')"
proof -
  have "follows oid (mgr_run xs (init_mgr l)) (mgr_run ys (mgr_run xs (init_mgr l)))"
    unfolding mgr_run_def [of ys]
    by (rule om.run_rel [OF mgr_run_inv assms(2)])
      (auto intro: follows_refl follows_trans mgr_step_follows)
  with assms(1) show ?thesis by (simp add: follows_def)
qed

text \<open>The lifecycle theorem on a submitted order that is then cancelled, acknowledged and filled.\<close>

lemma orders_follow_lifecycle_witness:
  "let s = mgr_run [Create 1 1 1 ''a'' ''btc'' ''buy'' 2 ''limit'' None ''gtc'' None,
                    Submit ''ORD_1_a'' ''X1'' 2 2] (init_mgr False);
       s' = mgr_run [Cancel ''ORD_1_a'' ''risk'' 3 3, Acknowledge ''ORD_1_a'' 4 4] s
   in \<exists>ord ord'. dict_get (orders s) ''ORD_1_a'' = Some ord \<and> dict_get (orders s') ''ORD_1_a'' = Some ord' \<and>
        same_order ord ord' \<and> lifecycle\<^sup>*\<^sup>* (state ord) (state ord')"
proof -
  let ?xs = "[Create 1 1 1 ''a'' ''btc'' ''buy'' 2 ''limit'' None ''gtc'' None,
              Submit ''ORD_1_a'' ''X1'' 2 2]"
  have id: "new_order_id 1 ''a'' = ''ORD_1_a''" by code_simp
  then have "\<exists>ord. dict_get (orders (mgr_run ?xs (init_mgr False))) ''ORD_1_a'' = Some ord"
    by (simp add: mgr_run_def create_order_def submit_order_def init_mgr_def Let_def on_order_get)
  then show ?thesis
    using orders_follow_lifecycle [of ?xs False "''ORD_1_a''" _
      "[Cancel ''ORD_1_a'' ''risk'' 3 3, Acknowledge ''ORD_1_a'' 4 4]"]
    by (auto simp: Let_def)
qed

text \<open>C23: Fill accounting and index integrity. After any history of calls every stored order is stored
  under its own id; its filled quantity is the running (rounded) sum of its fills, all of which carry
  its id; its average price is their notional sum over that quantity as soon as something is filled;
  and every entry of the client-id and exchange-id indexes leads to a stored order.\<close>
theorem order_accounting:
  "index_into (by_client_id (mgr_run xs (init_mgr l))) (orders (mgr_run xs (init_mgr l))) \<and>
   index_into (by_exchange_id (mgr_run xs (init_mgr l))) (orders (mgr_run xs (init_mgr l))) \<and>
   (\<forall>oid ord. dict_get (orders (mgr_run xs (init_mgr l))) oid = Some ord \<longrightarrow>
       order_id ord = oid \<and>
       filled_quantity ord = dsum (map fill_quantity (fills ord)) \<and>
       (\<forall>f \<in> set (fills ord). fill_order_id f = oid) \<and>
       (0 < filled_quantity ord \<longrightarrow>
          avg_fill_price ord = Some (ddiv (dsum (map notional_value (fills ord))) (filled_quantity ord))))"
  using mgr_run_inv [of xs l] mgr_invD(1,2) [OF mgr_run_inv [of xs l]]
  by (auto simp: mgr_inv_def fills_ok_def)

definition filled_history :: "mgr_op list" where
  "filled_history =
     [Create 1 1 1 ''a'' ''btc'' ''buy'' 2 ''limit'' None ''gtc'' None,
      Submit ''ORD_1_a'' ''X1'' 2 2, Acknowledge ''ORD_1_a'' 3 3,
      Add_Fill ''ORD_1_a'' 5 1 0 ''BTC'' None 4 ''f'' 4 4 4 4]"

lemmas mgr_eval =
  mgr_run_def init_mgr_def create_order_def submit_order_def acknowledge_order_def add_fill_def
  on_order_def transition_cases sm_add_fill_eq fill_moves_state_def is_active_def record_fill_def
  dsum_def dadd_def dmul_def ddiv_def notional_value_def

lemma filled_history_result:
  "sm_locked (machine (mgr_run filled_history (init_mgr False)))"
  "\<exists>ord. dict_get (orders (mgr_run filled_history (init_mgr False))) ''ORD_1_a'' = Some ord \<and>
     length (fills ord) = 1 \<and> filled_quantity ord = 1 \<and> state ord = ACKNOWLEDGED"
proof -
  have id: "new_order_id 1 ''a'' = ''ORD_1_a''" by code_simp
  show "sm_locked (machine (mgr_run filled_history (init_mgr False)))"
    by (simp add: filled_history_def mgr_eval id)
  show "\<exists>ord. dict_get (orders (mgr_run filled_history (init_mgr False))) ''ORD_1_a'' = Some ord \<and>
     length (fills ord) = 1 \<and> filled_quantity ord = 1 \<and> state ord = ACKNOWLEDGED"
    by (simp add: filled_history_def mgr_eval id)
qed

lemma order_accounting_witness:
  "\<exists>ord. dict_get (orders (mgr_run filled_history (init_mgr False))) ''ORD_1_a'' = Some ord \<and>
     length (fills ord) = 1 \<and> 0 < filled_quantity ord \<and>
     filled_quantity ord = dsum (map fill_quantity (fills ord)) \<and>
     avg_fill_price ord = Some (ddiv (dsum (map notional_value (fills ord))) (filled_quantity ord))"
  using order_accounting [of filled_history False] filled_history_result(2) by fastforce

text \<open>An acknowledged order for two units and a fill of one.\<close>

definition acked_order :: Order where
  "acked_order = (fst (create_order 1 1 1 ''a'' ''btc'' ''buy'' 2 ''limit'' None ''gtc'' None (init_mgr False)))
     \<lparr>state := ACKNOWLEDGED\<rparr>"

definition acked_fill :: Fill where
  "acked_fill = \<lparr>fill_id = ''FILL_4_f'', fill_order_id = ''ORD_1_a'', fill_price = 5, fill_quantity = 1,
     commission = 0, commission_asset = ''BTC'', fill_timestamp = 4, trade_id = None\<rparr>"

text \<open>When a fill blocks. \<open>OrderStateMachine.add_fill\<close> never returns exactly when the lock is already
  taken, or the order is active and the fill would change its state: it completes the order, or it
  raises the filled quantity of an order that is not partially filled yet. The nested \<open>transition\<close>
  then waits for the lock its own caller holds; the fill and the quantities are already written, the
  state is not, and the lock stays taken.\<close>
theorem add_fill_blocks_iff:
  assumes "sm_add_fill m ord f now now' now'' = (r, ord', m')"
  shows "(r = Blocks \<longleftrightarrow>
     sm_locked m \<or>
     is_active ord \<and>
       (dadd (filled_quantity ord) (fill_quantity f) \<ge> quantity ord \<or>
        dadd (filled_quantity ord) (fill_quantity f) > filled_quantity ord \<and> state ord \<noteq> PARTIALLY_FILLED)) \<and>
   (r = Blocks \<and> \<not> sm_locked m \<longrightarrow>
     fills ord' = fills ord @ [f] \<and> filled_quantity ord' = dadd (filled_quantity ord) (fill_quantity f) \<and>
     state ord' = state ord \<and> sm_locked m')"
  using assms by (auto simp: sm_add_fill_eq fill_moves_state_def record_fill_def Let_def split: if_splits)

lemma add_fill_blocks_iff_witness:
  "\<exists>r ord' m'. sm_add_fill (machine (init_mgr False)) acked_order acked_fill 4 4 4 = (r, ord', m') \<and>
     r = Blocks \<and> fills ord' = [acked_fill] \<and> filled_quantity ord' = 1 \<and> state ord' = ACKNOWLEDGED \<and> sm_locked m'"
proof -
  obtain r ord' m' where e: "sm_add_fill (machine (init_mgr False)) acked_order acked_fill 4 4 4 = (r, ord', m')"
    by (metis prod_cases3)
  show ?thesis
    using e add_fill_blocks_iff [OF e]
    by (simp add: acked_order_def acked_fill_def create_order_def Let_def init_mgr_def is_active_def dadd_def)
qed

text \<open>No order is ever filled. In every history of calls to the manager no stored order reaches
  FILLED or PARTIALLY_FILLED, since the only code that moves an order there blocks first: the
  statistics always report zero filled orders.\<close>
theorem no_order_is_ever_filled:
  "filled_orders (get_order_statistics (mgr_run xs (init_mgr l))) = 0 \<and>
   (\<forall>ord \<in> set (dict_values (orders (mgr_run xs (init_mgr l)))). state ord \<notin> {FILLED, PARTIALLY_FILLED})"
proof -
  let ?s = "mgr_run xs (init_mgr l)"
  have wf: "wf_dict (orders ?s)" using mgr_run_inv [of xs l] by (simp add: mgr_inv_def)
  have st: "\<forall>ord \<in> set (dict_values (orders ?s)). state ord \<notin> {FILLED, PARTIALLY_FILLED}"
    using mgr_invD(3) [OF mgr_run_inv] wf_dict_values [OF wf] by blast
  then have "filter (\<lambda>ord. state ord = FILLED) (dict_values (orders ?s)) = []"
    by (auto simp: filter_empty_conv)
  with st show ?thesis by (simp add: get_order_statistics_def Let_def del: filter_map)
qed

lemma no_order_is_ever_filled_witness:
  "\<exists>ord \<in> set (dict_values (orders (mgr_run filled_history (init_mgr False)))).
     fills ord \<noteq> [] \<and> state ord \<notin> {FILLED, PARTIALLY_FILLED}"
proof -
  obtain ord where o: "dict_get (orders (mgr_run filled_history (init_mgr False))) ''ORD_1_a'' = Some ord"
    "length (fills ord) = 1" using filled_history_result(2) by auto
  then have "ord \<in> set (dict_values (orders (mgr_run filled_history (init_mgr False))))"
    by (blast intro: dict_get_values)
  moreover have "fills ord \<noteq> []" using o(2) by auto
  ultimately show ?thesis using no_order_is_ever_filled [of filled_history False] by blast
qed

text \<open>One blocked fill stops the order manager. Once the state machine's lock is held by a call that
  never returns, no later sequence of calls changes the state, the fills or the filled quantity of any
  stored order, and the lock is still held afterwards (orders whose id is drawn again aside).\<close>
theorem blocked_manager_is_frozen:
  assumes "sm_locked (machine (mgr_run xs (init_mgr l)))"
    and "dict_get (orders (mgr_run xs (init_mgr l))) oid = Some ord"
    and "\<forall>x \<in> set ys. \<not> creates oid x"
  shows "\<exists>ord'. dict_get (orders (mgr_run ys (mgr_run xs (init_mgr l)))) oid = Some ord' \<and>
     state ord' = state ord \<and> fills ord' = fills ord \<and> filled_quantity ord' = filled_quantity ord \<and>
     sm_locked (machine (mgr_run ys (mgr_run xs (init_mgr l))))"
proof -
  have "frozen oid (mgr_run xs (init_mgr l)) (mgr_run ys (mgr_run xs (init_mgr l)))"
    unfolding mgr_run_def [of ys]
    by (rule om.run_rel [OF mgr_run_inv assms(3)])
      (auto intro: frozen_refl frozen_trans mgr_step_frozen)
  with assms show ?thesis by (simp add: frozen_def)
qed

lemma blocked_manager_is_frozen_witness:
  "\<exists>ord ord'. dict_get (orders (mgr_run filled_history (init_mgr False))) ''ORD_1_a'' = Some ord \<and>
     dict_get (orders (mgr_run [Cancel ''ORD_1_a'' ''risk'' 5 5] (mgr_run filled_history (init_mgr False))))
       ''ORD_1_a'' = Some ord' \<and> state ord = ACKNOWLEDGED \<and> state ord' = ACKNOWLEDGED"
  using blocked_manager_is_frozen [of filled_history False "''ORD_1_a''" _ "[Cancel ''ORD_1_a'' ''risk'' 5 5]"]
    filled_history_result by fastforce

text \<open>Two orders created in one millisecond share their client order id, so looking the first one up
  by its client id returns the second.\<close>
theorem client_id_collision:
  "let (ord1, s1) = create_order t1 t t3 hex smb sd qty otyp prc tif meta s;
       (ord2, s2) = create_order t1' t t3' hex' smb' sd' qty' otyp' prc' tif' meta' s1
   in client_order_id ord1 = client_order_id ord2 \<and>
      get_order_by_client_id s2 (client_order_id ord1) = Some ord2"
  by (simp add: create_order_def Let_def get_order_by_client_id_def truthy_str_def dict_get_set new_order_id_def)

end
