(* ===== verification/RingBuffer.thy ===== *)
theory RingBuffer
  imports Prelude "HOL-Library.Word"
begin

unbundle bit_operations_syntax

text \<open>
  \<open>backend/ipc/ring_buffer.py\<close>: the byte ring buffer between the Rust engine and Python, its tick
  stream, and the multi-producer variant. \<open>AtomicCounter\<close> is a \<open>ctypes.c_longlong\<close>, a signed 64-bit
  word that wraps; Python reads it back as a signed int. Bytes are \<^typ>\<open>8 word\<close>s. Clock readings
  (\<open>time.time_ns\<close>) are arguments.

  The lemmas: the locale \<open>bounded_fifo\<close> is what a client of a bounded queue relies on (an accepted
  item goes to the back, the front comes out, a full queue refuses), with the batch operations proved
  once inside it; \<open>LockFreeRingBuffer\<close> is interpreted in it, across counter wrap-around and a storage
  array that starts shorter than the ring.
\<close>

section \<open>Counters\<close>

type_synonym counter = "64 word"
type_synonym bytes = "8 word list"

definition counter_load :: "counter \<Rightarrow> int" where
  "counter_load c = sint c"

definition counter_store :: "int \<Rightarrow> counter" where
  "counter_store v = word_of_int v"

definition fetch_add :: "int \<Rightarrow> counter \<Rightarrow> int \<times> counter" where
  "fetch_add delta c = (let old = counter_load c in (old, counter_store (old + delta)))"

definition fetch_sub :: "int \<Rightarrow> counter \<Rightarrow> int \<times> counter" where
  "fetch_sub delta c = (let old = counter_load c in (old, counter_store (old - delta)))"

definition compare_exchange :: "int \<Rightarrow> int \<Rightarrow> counter \<Rightarrow> bool \<times> counter" where
  "compare_exchange expected desired c =
     (if counter_load c = expected then (True, counter_store desired) else (False, c))"

lemma fetch_add_1 [simp]: "snd (fetch_add 1 c) = c + 1"
  by (simp add: fetch_add_def counter_load_def counter_store_def Let_def)

lemma fetch_sub_1 [simp]: "snd (fetch_sub 1 c) = c - 1"
  by (simp add: fetch_sub_def counter_load_def counter_store_def Let_def)

section \<open>The ring buffer\<close>

datatype BufferState = EMPTY | RUNNING | FULL | WRAPPING | SHUTDOWN

record ring_stats =
  total_writes :: int
  total_reads :: int
  dropped_items :: int
  wrap_count :: int
  high_water_mark :: int
  last_write_ts :: int
  last_read_ts :: int
  avg_latency_ns :: pyfloat

definition new_stats :: ring_stats where
  "new_stats = \<lparr>total_writes = 0, total_reads = 0, dropped_items = 0, wrap_count = 0,
     high_water_mark = 0, last_write_ts = 0, last_read_ts = 0, avg_latency_ns = 0\<rparr>"

record ring =
  rcapacity :: int
  element_size :: int
  rmask :: int
  head :: counter
  tail :: counter
  storage :: bytes
  rstate :: BufferState
  rstats :: ring_stats

text \<open>\<open>int.bit_length\<close>, the rounding of the capacity, and \<open>bytearray(n)\<close> (a negative \<open>n\<close> raises).\<close>

definition bit_length :: "int \<Rightarrow> nat" where
  "bit_length n = floorlog 2 (nat \<bar>n\<bar>)"

definition round_capacity :: "int \<Rightarrow> int" where
  "round_capacity c = 2 ^ bit_length (c - 1)"

definition ring_init :: "int \<Rightarrow> int \<Rightarrow> exn + ring" where
  "ring_init c es =
     (if c * es < 0 then Inl ValueError
      else Inr \<lparr>rcapacity = round_capacity c, element_size = es, rmask = round_capacity c - 1,
                head = counter_store 0, tail = counter_store 0,
                storage = replicate (nat (c * es)) 0, rstate = EMPTY, rstats = new_stats\<rparr>)"

definition ring_size :: "ring \<Rightarrow> int" where
  "ring_size r = (counter_load (head r) - counter_load (tail r)) AND rmask r"

definition is_empty :: "ring \<Rightarrow> bool" where
  "is_empty r \<longleftrightarrow> counter_load (head r) = counter_load (tail r)"

definition is_full :: "ring \<Rightarrow> bool" where
  "is_full r \<longleftrightarrow> ring_size r = rcapacity r"

definition get_offset :: "ring \<Rightarrow> int \<Rightarrow> int" where
  "get_offset r index = (index AND rmask r) * element_size r"

text \<open>\<open>b[i:j]\<close> and \<open>b[i:j] = data\<close> on a bytearray with \<open>0 \<le> i \<le> j\<close>: bounds past the end are clamped,
  so an assignment that starts at the end appends.\<close>

definition slice :: "int \<Rightarrow> int \<Rightarrow> bytes \<Rightarrow> bytes" where
  "slice i j b = take (nat j - nat i) (drop (nat i) b)"

definition slice_set :: "int \<Rightarrow> int \<Rightarrow> bytes \<Rightarrow> bytes \<Rightarrow> bytes" where
  "slice_set i j data b = take (nat i) b @ data @ drop (nat j) b"

definition push :: "int \<Rightarrow> bytes \<Rightarrow> ring \<Rightarrow> exn + bool \<times> ring" where
  "push now data r =
     (if int (length data) \<noteq> element_size r then Inl ValueError
      else if (counter_load (head r) + 1) AND rmask r = counter_load (tail r) AND rmask r then
        Inr (False, r\<lparr>rstate := FULL,
                      rstats := (rstats r)\<lparr>dropped_items := dropped_items (rstats r) + 1\<rparr>\<rparr>)
      else
        let offset = get_offset r (counter_load (head r));
            r1 = r\<lparr>storage := slice_set offset (offset + element_size r) data (storage r),
                   head := snd (fetch_add 1 (head r))\<rparr>;
            st1 = (rstats r)\<lparr>total_writes := total_writes (rstats r) + 1, last_write_ts := now\<rparr>;
            st2 = (if ring_size r1 > high_water_mark st1 then st1\<lparr>high_water_mark := ring_size r1\<rparr> else st1)
        in Inr (True, r1\<lparr>rstats := st2, rstate := (if rstate r = EMPTY then RUNNING else rstate r)\<rparr>))"

text \<open>The latency average: \<open>0.9 * avg + 0.1 * max(0, latency)\<close> in floats.\<close>

definition ema_latency :: "pyfloat \<Rightarrow> int \<Rightarrow> pyfloat" where
  "ema_latency avg latency =
     fadd (fmul (fl (9 / 10)) avg) (fmul (fl (1 / 10)) (fl (of_int (max 0 latency))))"

definition pop :: "int \<Rightarrow> ring \<Rightarrow> bytes option \<times> ring" where
  "pop now r =
     (if counter_load (head r) = counter_load (tail r) then (None, r\<lparr>rstate := EMPTY\<rparr>)
      else
        let offset = get_offset r (counter_load (tail r));
            data = slice offset (offset + element_size r) (storage r);
            st1 = (rstats r)\<lparr>total_reads := total_reads (rstats r) + 1, last_read_ts := now\<rparr>;
            st2 = (if last_write_ts st1 > 0
                   then st1\<lparr>avg_latency_ns := ema_latency (avg_latency_ns st1) (now - last_write_ts st1)\<rparr>
                   else st1)
        in (Some data, r\<lparr>tail := snd (fetch_add 1 (tail r)), rstats := st2\<rparr>))"

definition peek :: "ring \<Rightarrow> bytes option" where
  "peek r =
     (if counter_load (head r) = counter_load (tail r) then None
      else let offset = get_offset r (counter_load (tail r))
           in Some (slice offset (offset + element_size r) (storage r)))"

text \<open>Batches: each item with the clock at its push; each pop with the clock at it. A wrong item size
  raises out of the batch; what was pushed before it stays.\<close>

fun push_batch_with :: "(int \<Rightarrow> 'a \<Rightarrow> 'q \<Rightarrow> exn + bool \<times> 'q) \<Rightarrow> (int \<times> 'a) list \<Rightarrow> 'q \<Rightarrow> (exn + int) \<times> 'q" where
  "push_batch_with pushf [] q = (Inr 0, q)"
| "push_batch_with pushf ((now, x) # xs) q =
     (case pushf now x q of
        Inl e \<Rightarrow> (Inl e, q)
      | Inr (True, q') \<Rightarrow> (case push_batch_with pushf xs q' of (res, q'') \<Rightarrow> (map_sum id (\<lambda>w. w + 1) res, q''))
      | Inr (False, q') \<Rightarrow> (Inr 0, q'))"

fun pop_batch_with :: "(int \<Rightarrow> 'q \<Rightarrow> 'a option \<times> 'q) \<Rightarrow> int list \<Rightarrow> 'q \<Rightarrow> 'a list \<times> 'q" where
  "pop_batch_with popf [] q = ([], q)"
| "pop_batch_with popf (now # nows) q =
     (case popf now q of
        (None, q') \<Rightarrow> ([], q')
      | (Some x, q') \<Rightarrow> (case pop_batch_with popf nows q' of (xs, q'') \<Rightarrow> (x # xs, q'')))"

definition push_batch :: "(int \<times> bytes) list \<Rightarrow> ring \<Rightarrow> (exn + int) \<times> ring" where
  "push_batch = push_batch_with push"

definition pop_batch :: "int list \<Rightarrow> ring \<Rightarrow> bytes list \<times> ring" where
  "pop_batch = pop_batch_with pop"

text \<open>\<open>__iter__\<close> drains: pops until \<open>None\<close>. \<open>clk\<close> gives the clock of the \<open>n\<close>-th pop. Each pop brings
  the tail one step closer to the head, so the loop ends.\<close>

lemma pop_Some_measure:
  "pop now r = (Some d, r') \<Longrightarrow> unat (head r' - tail r') < unat (head r - tail r)"
proof -
  assume p: "pop now r = (Some d, r')"
  then have ne: "head r - tail r \<noteq> 0" and r': "head r' = head r" "tail r' = tail r + 1"
    by (auto simp: pop_def Let_def counter_load_def split: if_splits)
  have "head r' - tail r' = (head r - tail r) - 1" by (simp add: r')
  with ne show ?thesis by (metis measure_unat)
qed

function drain :: "(nat \<Rightarrow> int) \<Rightarrow> nat \<Rightarrow> ring \<Rightarrow> bytes list \<times> ring" where
  "drain clk n r =
     (case pop (clk n) r of
        (None, r') \<Rightarrow> ([], r')
      | (Some item, r') \<Rightarrow> (case drain clk (Suc n) r' of (items, r'') \<Rightarrow> (item # items, r'')))"
  by pat_completeness auto
termination
  by (relation "measure (\<lambda>(clk, n, r). unat (head r - tail r))") (auto dest: sym intro: pop_Some_measure)

declare drain.simps [simp del]

text \<open>\<open>clear\<close>: pops while the buffer is not empty, and counts.\<close>

lemma not_empty_pop: "\<not> is_empty r \<Longrightarrow> \<exists>d r'. pop now r = (Some d, r')"
  by (simp add: is_empty_def pop_def Let_def)

function clear_loop :: "(nat \<Rightarrow> int) \<Rightarrow> nat \<Rightarrow> ring \<Rightarrow> nat \<times> ring" where
  "clear_loop clk cleared r =
     (if is_empty r then (cleared, r)
      else case pop (clk cleared) r of
             (Some item, r') \<Rightarrow> clear_loop clk (Suc cleared) r'
           | (None, r') \<Rightarrow> (cleared, r'))"
  by pat_completeness auto
termination
  by (relation "measure (\<lambda>(clk, n, r). unat (head r - tail r))") (auto dest: sym intro: pop_Some_measure)

declare clear_loop.simps [simp del]

definition clear :: "(nat \<Rightarrow> int) \<Rightarrow> ring \<Rightarrow> nat \<times> ring" where
  "clear clk r = (case clear_loop clk 0 r of (cleared, r') \<Rightarrow> (cleared, r'\<lparr>rstate := EMPTY\<rparr>))"

definition reset_stats :: "ring \<Rightarrow> ring" where
  "reset_stats r = r\<lparr>rstats := new_stats\<rparr>"

definition shutdown :: "ring \<Rightarrow> ring" where
  "shutdown r = r\<lparr>rstate := SHUTDOWN\<rparr>"

definition is_shutdown :: "ring \<Rightarrow> bool" where
  "is_shutdown r \<longleftrightarrow> rstate r = SHUTDOWN"

section \<open>The tick stream\<close>

definition TICK_DATA_SIZE :: int where "TICK_DATA_SIZE = 48"

definition tick_stream_init :: "int \<Rightarrow> exn + ring" where
  "tick_stream_init c = ring_init c TICK_DATA_SIZE"

definition push_tick :: "int \<Rightarrow> bytes \<Rightarrow> ring \<Rightarrow> exn + bool \<times> ring" where
  "push_tick now tick r = push now tick r"

definition pop_tick :: "int \<Rightarrow> ring \<Rightarrow> bytes option \<times> ring" where
  "pop_tick now r = pop now r"

definition get_throughput :: "ring \<Rightarrow> pyfloat" where
  "get_throughput r =
     (let st = rstats r; span = last_read_ts st - last_write_ts st
      in if last_read_ts st = 0 \<or> last_write_ts st = 0 then 0
         else if span \<le> 0 then fl (of_int (total_reads st))
         else fdiv (fmul (fl (of_int (total_reads st))) (10 ^ 9)) (fl (of_int span)))"

section \<open>The multi-producer buffer\<close>

record mring =
  mcapacity :: int
  melement_size :: int
  mmask :: int
  mhead :: counter
  mtail :: counter
  mstorage :: bytes
  mslots :: "counter list"
  mstats :: ring_stats

definition mring_init :: "int \<Rightarrow> int \<Rightarrow> exn + mring" where
  "mring_init c es =
     (if round_capacity c * es < 0 then Inl ValueError
      else Inr \<lparr>mcapacity = round_capacity c, melement_size = es, mmask = round_capacity c - 1,
                mhead = counter_store 0, mtail = counter_store 0,
                mstorage = replicate (nat (round_capacity c * es)) 0,
                mslots = replicate (nat (round_capacity c)) (counter_store 0), mstats = new_stats\<rparr>)"

text \<open>One producer at a time: the calls are not interleaved. The slot index is masked with
  \<open>capacity - 1\<close>, so it is within \<open>mslots\<close>.\<close>

definition mpush :: "bytes \<Rightarrow> mring \<Rightarrow> bool \<times> mring" where
  "mpush data r =
     (if int (length data) \<noteq> melement_size r then (False, r)
      else
        let (hd_pos, hd') = fetch_add 1 (mhead r);
            slot_index = hd_pos AND mmask r;
            slot_seq = counter_load (mslots r ! nat slot_index)
        in if slot_seq < hd_pos
           then (False, r\<lparr>mhead := snd (fetch_sub 1 hd'),
                          mstats := (mstats r)\<lparr>dropped_items := dropped_items (mstats r) + 1\<rparr>\<rparr>)
           else
             let offset = slot_index * melement_size r
             in (True, r\<lparr>mhead := hd', mstorage := slice_set offset (offset + melement_size r) data (mstorage r),
                         mslots := (mslots r)[nat slot_index := counter_store (hd_pos + 1)],
                         mstats := (mstats r)\<lparr>total_writes := total_writes (mstats r) + 1\<rparr>\<rparr>))"

definition mpop :: "mring \<Rightarrow> bytes option \<times> mring" where
  "mpop r =
     (let tl_pos = counter_load (mtail r);
          slot_index = tl_pos AND mmask r;
          slot_seq = counter_load (mslots r ! nat slot_index)
      in if slot_seq < tl_pos + 1 then (None, r)
         else
           let offset = slot_index * melement_size r;
               data = slice offset (offset + melement_size r) (mstorage r)
           in (Some data, r\<lparr>mslots := (mslots r)[nat slot_index := counter_store (tl_pos + mcapacity r)],
                            mtail := snd (fetch_add 1 (mtail r)),
                            mstats := (mstats r)\<lparr>total_reads := total_reads (mstats r) + 1\<rparr>\<rparr>))"

section \<open>Positions, slots and blocks\<close>

lemma and_mask_pow: "x AND (2 ^ k - 1) = x mod (2 ^ k :: int)"
  by (simp add: take_bit_eq_mod flip: mask_eq_exp_minus_1 take_bit_eq_mask)

lemma uint_mod_pow: "uint c mod 2 ^ k = int (unat c mod 2 ^ k)"
  by (simp add: of_nat_mod)

lemma counter_mod:
  assumes "k \<le> 64" shows "counter_load c mod 2 ^ k = int (unat c mod 2 ^ k)"
proof -
  have "take_bit k (sint c) = take_bit k (take_bit 64 (sint c))" using assms by (simp add: take_bit_take_bit min_def)
  also have "take_bit 64 (sint c) = uint c" by (simp add: uint_sint)
  finally show ?thesis
    by (simp only: counter_load_def take_bit_eq_mod uint_mod_pow)
qed

lemma counter_diff_mod:
  assumes "k \<le> 64" shows "(counter_load a - counter_load b) mod 2 ^ k = int (unat (a - b) mod 2 ^ k)"
proof -
  let ?d = "counter_load a - counter_load b"
  have "word_of_int ?d = a - b" by (simp add: counter_load_def)
  moreover have "uint (word_of_int ?d :: counter) = take_bit 64 ?d"
    by (subst uint_word_of_int_eq) (simp del: of_int_diff)
  ultimately have "take_bit k ?d = take_bit k (uint (a - b))"
    using assms by (simp add: take_bit_take_bit min_def)
  then show ?thesis by (simp only: take_bit_eq_mod uint_mod_pow)
qed

lemma counter_load_eq [simp]: "counter_load a = counter_load b \<longleftrightarrow> a = b"
  by (auto simp: counter_load_def dest: arg_cong [where f = "word_of_int :: int \<Rightarrow> counter"])

lemma unat_add_mod:
  assumes "k \<le> 64" shows "unat (c + of_nat i :: counter) mod 2 ^ k = (unat c + i) mod 2 ^ k"
proof -
  have d: "(2::nat) ^ k dvd 2 ^ 64" using assms by (rule le_imp_power_dvd)
  have "unat (c + of_nat i :: counter) mod 2 ^ k = (unat c + i) mod 2 ^ 64 mod 2 ^ k"
    by (simp add: unat_word_ariths unat_of_nat mod_simps)
  also have "\<dots> = (unat c + i) mod 2 ^ k" by (rule mod_mod_cancel [OF d])
  finally show ?thesis .
qed

text \<open>The storage seen as blocks of \<open>w\<close> bytes.\<close>

definition block :: "nat \<Rightarrow> nat \<Rightarrow> bytes \<Rightarrow> bytes" where
  "block w i b = take w (drop (i * w) b)"

lemma slice_block: "slice (int i * int w) (int i * int w + int w) b = block w i b"
  by (simp add: slice_def block_def nat_add_distrib flip: of_nat_mult)

lemma slice_set_block:
  "slice_set (int i * int w) (int i * int w + int w) data b = take (i * w) b @ data @ drop (Suc i * w) b"
  by (simp add: slice_set_def nat_add_distrib add.commute flip: of_nat_mult)

lemma block_set_same:
  assumes "length data = w" "i * w \<le> length b"
  shows "block w i (take (i * w) b @ data @ drop (Suc i * w) b) = data"
  using assms by (simp add: block_def)

lemma block_set_other:
  assumes "length data = w" "i * w \<le> length b" "j \<noteq> i"
  shows "block w j (take (i * w) b @ data @ drop (Suc i * w) b) = block w j b"
proof (cases "j < i")
  case True
  then have "Suc j * w \<le> i * w" by (intro mult_right_mono) auto
  then have "w + j * w \<le> i * w" by simp
  then show ?thesis using assms(2) by (simp add: block_def take_drop min_absorb1)
next
  case False
  with assms(3) have "Suc i \<le> j" by simp
  then obtain d where j: "j = Suc i + d" using le_Suc_ex by blast
  have "drop (j * w) (take (i * w) b @ data @ drop (Suc i * w) b) = drop (d * w) (drop (Suc i * w) b)"
    using assms(1,2) by (simp add: j algebra_simps)
  also have "\<dots> = drop (j * w) b" by (simp add: j algebra_simps)
  finally show ?thesis by (simp add: block_def)
qed

lemma length_slice_set_block:
  assumes "length data = w" "i * w \<le> length b"
  shows "length (take (i * w) b @ data @ drop (Suc i * w) b) = max (length b) (Suc i * w)"
  using assms by (simp add: max_def)

section \<open>The invariant and the queue a ring stands for\<close>

text \<open>
  \<open>ring_ok k n w r\<close>: the ring has \<open>2 ^ k\<close> slots of \<open>w\<close> bytes, \<open>n\<close> blocks of storage so far, and fewer
  than \<open>2 ^ k\<close> items. Until the storage has all its blocks the counters have not passed its end.
\<close>

definition ring_ok :: "nat \<Rightarrow> nat \<Rightarrow> nat \<Rightarrow> ring \<Rightarrow> bool" where
  "ring_ok k n w r \<longleftrightarrow>
     k < 64 \<and> rcapacity r = 2 ^ k \<and> rmask r = 2 ^ k - 1 \<and> element_size r = int w \<and>
     length (storage r) = n * w \<and> n \<le> 2 ^ k \<and> unat (head r - tail r) < 2 ^ k \<and>
     (n < 2 ^ k \<longrightarrow> unat (tail r) \<le> unat (head r) \<and> unat (head r) \<le> n)"

definition items :: "ring \<Rightarrow> nat" where
  "items r = unat (head r - tail r)"

definition slot :: "nat \<Rightarrow> ring \<Rightarrow> nat \<Rightarrow> nat" where
  "slot k r i = (unat (tail r) + i) mod 2 ^ k"

definition contents_at :: "nat \<Rightarrow> nat \<Rightarrow> ring \<Rightarrow> bytes list" where
  "contents_at k w r = map (\<lambda>i. block w (slot k r i) (storage r)) [0..<items r]"

lemma ring_size_items: "ring_ok k n w r \<Longrightarrow> ring_size r = int (items r)"
  by (simp add: ring_ok_def ring_size_def and_mask_pow counter_diff_mod items_def)

lemma offset_head: "ring_ok k n w r \<Longrightarrow> get_offset r (counter_load (head r)) = int (unat (head r) mod 2 ^ k) * int w"
  by (simp add: ring_ok_def get_offset_def and_mask_pow counter_mod)

lemma offset_tail: "ring_ok k n w r \<Longrightarrow> get_offset r (counter_load (tail r)) = int (slot k r 0) * int w"
  by (simp add: ring_ok_def get_offset_def and_mask_pow counter_mod slot_def)

lemma slot_items: "ring_ok k n w r \<Longrightarrow> slot k r (items r) = unat (head r) mod 2 ^ k"
  using unat_add_mod [of k "tail r" "items r"] by (simp add: ring_ok_def slot_def items_def)

lemma slot_distinct:
  assumes "i < j" "j < 2 ^ k" shows "slot k r i \<noteq> slot k r j"
proof
  assume "slot k r i = slot k r j"
  then have "2 ^ k dvd (unat (tail r) + j) - (unat (tail r) + i)"
    using mod_eq_dvd_iff_nat [of "unat (tail r) + i" "unat (tail r) + j" "2 ^ k"] assms
    by (simp add: slot_def)
  then show False using assms by (auto dest: dvd_imp_le)
qed

lemma head_slot_stored:
  assumes "ring_ok k n w r"
  shows "unat (head r) mod 2 ^ k \<le> n" "n < 2 ^ k \<Longrightarrow> unat (head r) mod 2 ^ k = unat (head r)"
  using assms by (auto simp: ring_ok_def less_imp_le intro: le_trans [OF mod_less_eq_dividend])

section \<open>Push and pop refine the queue\<close>

lemma items_bound: "ring_ok k n w r \<Longrightarrow> items r < 2 ^ k"
  by (simp add: ring_ok_def items_def)

lemma length_contents_at [simp]: "length (contents_at k w r) = items r"
  by (simp add: contents_at_def)

lemma full_test:
  assumes "ring_ok k n w r"
  shows "(counter_load (head r) + 1) AND rmask r = counter_load (tail r) AND rmask r \<longleftrightarrow> items r = 2 ^ k - 1"
proof -
  have k: "k \<le> 64" and m: "rmask r = 2 ^ k - 1" using assms by (auto simp: ring_ok_def)
  have "(counter_load (head r) + 1) mod 2 ^ k = (counter_load (head r) mod 2 ^ k + 1) mod 2 ^ k"
    by (simp add: mod_simps)
  also have "\<dots> = int ((unat (head r) mod 2 ^ k + 1) mod 2 ^ k)"
    by (simp only: counter_mod [OF k] of_nat_mod of_nat_add of_nat_1 of_nat_power of_nat_numeral)
  also have "unat (head r) mod 2 ^ k = (unat (tail r) + items r) mod 2 ^ k"
    using slot_items [OF assms] by (simp add: slot_def)
  also have "(\<dots> + 1) mod 2 ^ k = (unat (tail r) + (items r + 1)) mod 2 ^ k"
    by (simp add: mod_simps add.assoc)
  finally have "(counter_load (head r) + 1) AND rmask r = counter_load (tail r) AND rmask r \<longleftrightarrow>
      (unat (tail r) + (items r + 1)) mod 2 ^ k = unat (tail r) mod 2 ^ k"
    by (simp only: m and_mask_pow counter_mod [OF k] of_nat_eq_iff)
  also have "\<dots> \<longleftrightarrow> 2 ^ k dvd items r + 1"
    using mod_eq_dvd_iff_nat [of "unat (tail r)" "unat (tail r) + (items r + 1)" "2 ^ k"] by simp
  also have "\<dots> \<longleftrightarrow> items r = 2 ^ k - 1"
    using items_bound [OF assms] by (auto dest: dvd_imp_le)
  finally show ?thesis .
qed

lemma unat_Suc: "unat c < 2 ^ 64 - 1 \<Longrightarrow> unat (c + 1 :: counter) = unat c + 1"
  by (simp add: unat_word_ariths)

lemma pow_less_64: "k < 64 \<Longrightarrow> (2::nat) ^ k \<le> 2 ^ 63"
  by (rule power_increasing) auto

text \<open>What a successful push leaves, field by field.\<close>

lemma push_accepts:
  assumes ok: "ring_ok k n w r" and data: "length data = w" and room: "items r < 2 ^ k - 1"
    and h: "head r' = head r + 1" and t: "tail r' = tail r"
    and b: "storage r' = take (unat (head r) mod 2 ^ k * w) (storage r) @ data @
              drop (Suc (unat (head r) mod 2 ^ k) * w) (storage r)"
    and cfg: "rcapacity r' = rcapacity r" "rmask r' = rmask r" "element_size r' = element_size r"
  shows "ring_ok k (max n (Suc (unat (head r) mod 2 ^ k))) w r' \<and>
         contents_at k w r' = contents_at k w r @ [data]"
proof -
  let ?s = "unat (head r) mod 2 ^ k"
  have k: "k < 64" and len: "length (storage r) = n * w" using ok by (auto simp: ring_ok_def)
  have sn: "?s \<le> n" using head_slot_stored [OF ok] by simp
  then have snw: "?s * w \<le> length (storage r)" unfolding len by (rule mult_right_mono) simp
  have i': "items r' = items r + 1"
  proof -
    have "items r < 2 ^ 64 - 1" using room pow_less_64 [OF k] by simp
    then have "unat (head r - tail r + 1) = items r + 1" unfolding items_def by (rule unat_Suc)
    moreover have "head r + 1 - tail r = head r - tail r + 1" by simp
    ultimately show ?thesis by (simp only: items_def h t)
  qed
  have "unat (head r') = unat (head r) + 1" if "n < 2 ^ k"
  proof -
    have "unat (head r) \<le> n" using ok that by (simp add: ring_ok_def)
    then show ?thesis using that pow_less_64 [OF k] unfolding h by (intro unat_Suc) simp
  qed
  moreover have "length (storage r') = max n (Suc ?s) * w"
    unfolding b length_slice_set_block [OF data snw] len by (simp only: nat_mult_max_left)
  moreover have "Suc ?s \<le> 2 ^ k" by (simp add: Suc_le_eq)
  ultimately have ok': "ring_ok k (max n (Suc ?s)) w r'"
    using ok i' room head_slot_stored(2) [OF ok] by (auto simp: ring_ok_def cfg items_def t)
  have slots: "slot k r' = slot k r" by (simp add: slot_def t fun_eq_iff)
  have "contents_at k w r' = map (\<lambda>i. block w (slot k r i) (storage r')) [0..<items r] @
      [block w (slot k r (items r)) (storage r')]"
    by (simp add: contents_at_def i' slots)
  also have "block w (slot k r (items r)) (storage r') = data"
    unfolding slot_items [OF ok] b by (rule block_set_same [OF data snw])
  also have "map (\<lambda>i. block w (slot k r i) (storage r')) [0..<items r] = contents_at k w r"
  proof -
    have "block w (slot k r i) (storage r') = block w (slot k r i) (storage r)" if "i < items r" for i
      unfolding b using slot_distinct [OF that items_bound [OF ok], of r] slot_items [OF ok]
      by (intro block_set_other [OF data snw]) simp
    then show ?thesis by (simp add: contents_at_def)
  qed
  finally show ?thesis using ok' by blast
qed

lemma push_cases:
  assumes ok: "ring_ok k n w r" and data: "length data = w"
  shows "\<exists>r'. push now data r = Inr (items r < 2 ^ k - 1, r') \<and>
     (\<exists>n'. ring_ok k n' w r') \<and> is_shutdown r' = (is_shutdown r \<and> items r < 2 ^ k - 1) \<and>
     contents_at k w r' = (if items r < 2 ^ k - 1 then contents_at k w r @ [data] else contents_at k w r)"
proof (cases "items r = 2 ^ k - 1")
  case True
  let ?r = "r\<lparr>rstate := FULL, rstats := (rstats r)\<lparr>dropped_items := dropped_items (rstats r) + 1\<rparr>\<rparr>"
  have "push now data r = Inr (False, ?r)"
    using ok data True full_test [OF ok] by (simp add: push_def ring_ok_def)
  moreover have "ring_ok k n w ?r" "contents_at k w ?r = contents_at k w r"
    using ok by (auto simp: ring_ok_def contents_at_def slot_def items_def)
  ultimately show ?thesis using True by (auto simp: is_shutdown_def)
next
  case False
  with items_bound [OF ok] have room: "items r < 2 ^ k - 1" by simp
  have size: "element_size r = int w" using ok by (simp add: ring_ok_def)
  obtain r' where r': "push now data r = Inr (True, r')" "head r' = head r + 1" "tail r' = tail r"
    "storage r' = slice_set (get_offset r (counter_load (head r)))
       (get_offset r (counter_load (head r)) + element_size r) data (storage r)"
    "rcapacity r' = rcapacity r" "rmask r' = rmask r" "element_size r' = element_size r"
    "is_shutdown r' = is_shutdown r"
    using data False full_test [OF ok] size by (auto simp: push_def Let_def is_shutdown_def)
  have "storage r' = take (unat (head r) mod 2 ^ k * w) (storage r) @ data @
      drop (Suc (unat (head r) mod 2 ^ k) * w) (storage r)"
    unfolding r'(4) offset_head [OF ok] size slice_set_block ..
  from push_accepts [OF ok data room r'(2,3) this r'(5-7)] r'(1,8) room show ?thesis by auto
qed

lemma pop_cases:
  assumes ok: "ring_ok k n w r"
  shows "\<exists>r'. pop now r = ((case contents_at k w r of [] \<Rightarrow> None | d # _ \<Rightarrow> Some d), r') \<and>
     ring_ok k n w r' \<and> contents_at k w r' = tl (contents_at k w r)"
proof (cases "head r = tail r")
  case True
  then have "contents_at k w r = []" by (simp add: contents_at_def items_def)
  moreover have "ring_ok k n w (r\<lparr>rstate := EMPTY\<rparr>)" "contents_at k w (r\<lparr>rstate := EMPTY\<rparr>) = contents_at k w r"
    using ok by (auto simp: ring_ok_def contents_at_def slot_def items_def)
  ultimately show ?thesis using True by (auto simp: pop_def)
next
  case False
  have size: "element_size r = int w" and k: "k < 64" using ok by (auto simp: ring_ok_def)
  obtain r' where r': "pop now r = (Some (slice (get_offset r (counter_load (tail r)))
       (get_offset r (counter_load (tail r)) + element_size r) (storage r)), r')"
    "head r' = head r" "tail r' = tail r + 1" "storage r' = storage r"
    "rcapacity r' = rcapacity r" "rmask r' = rmask r" "element_size r' = element_size r"
    using False by (auto simp: pop_def Let_def)
  have ne: "head r - tail r \<noteq> 0" using False by simp
  have d: "head r' - tail r' = head r - tail r - 1" by (simp add: r')
  have i': "items r = Suc (items r')" 
    unfolding items_def d using unat_minus_one [OF ne] unat_gt_0 [THEN iffD2, OF ne] by linarith
  have slots: "slot k r' i = slot k r (Suc i)" for i
    using unat_add_mod [of k "tail r" 1] k by (simp add: slot_def r' mod_simps) (metis add.commute add_Suc_right mod_add_left_eq plus_1_eq_Suc)
  have "[0..<items r] = 0 # map Suc [0..<items r']" by (simp add: i' map_Suc_upt upt_conv_Cons)
  then have c: "contents_at k w r = block w (slot k r 0) (storage r) # contents_at k w r'"
    by (simp add: contents_at_def slots r'(4) comp_def)
  have "unat (tail r') = unat (tail r) + 1" if "n < 2 ^ k"
  proof -
    have "unat (tail r) \<le> n" using ok that by (auto simp: ring_ok_def)
    then show ?thesis using that pow_less_64 [OF k] unfolding r' by (intro unat_Suc) simp
  qed
  moreover have "unat (tail r) \<noteq> unat (head r)" using False by (metis word_unat_eq_iff)
  ultimately have "ring_ok k n w r'"
    using ok i' r' by (auto simp: ring_ok_def items_def)
  then show ?thesis using r'(1) c unfolding offset_tail [OF ok] size slice_block by auto
qed

section \<open>The interface: a bounded first-in first-out queue\<close>

locale bounded_fifo =
  fixes fpush :: "int \<Rightarrow> 'a \<Rightarrow> 'q \<Rightarrow> exn + bool \<times> 'q"
    and fpop :: "int \<Rightarrow> 'q \<Rightarrow> 'a option \<times> 'q"
    and contents :: "'q \<Rightarrow> 'a list"
    and room :: "'q \<Rightarrow> nat"
    and fits :: "'q \<Rightarrow> 'a \<Rightarrow> bool"
    and inv :: "'q \<Rightarrow> bool"
  assumes push_law: "inv q \<Longrightarrow> fits q x \<Longrightarrow>
      \<exists>q'. fpush now x q = Inr (length (contents q) < room q, q') \<and> inv q' \<and> room q' = room q \<and> fits q' = fits q \<and>
        contents q' = (if length (contents q) < room q then contents q @ [x] else contents q)"
    and pop_law: "inv q \<Longrightarrow>
      \<exists>q'. fpop now q = ((case contents q of [] \<Rightarrow> None | x # _ \<Rightarrow> Some x), q') \<and> inv q' \<and> room q' = room q \<and>
        fits q' = fits q \<and> contents q' = tl (contents q)"
begin

lemma push_batch_prefix:
  assumes "inv q" "\<forall>(now, x) \<in> set its. fits q x"
  shows "\<exists>q'. push_batch_with fpush its q = (Inr (int (min (length its) (room q - length (contents q)))), q') \<and>
     inv q' \<and> room q' = room q \<and> fits q' = fits q \<and>
     contents q' = contents q @ take (room q - length (contents q)) (map snd its)"
  using assms
proof (induction its arbitrary: q)
  case (Cons a its)
  obtain now x where a: "a = (now, x)" by (cases a)
  have x: "fits q x" using Cons.prems(2) by (auto simp: a)
  obtain q1 where q1: "fpush now x q = Inr (length (contents q) < room q, q1)" "inv q1" "room q1 = room q"
    "fits q1 = fits q" "contents q1 = (if length (contents q) < room q then contents q @ [x] else contents q)"
    using push_law [OF Cons.prems(1) x] by blast
  show ?case
  proof (cases "length (contents q) < room q")
    case True
    then obtain d where d: "room q - length (contents q) = Suc d" by (metis Suc_diff_Suc)
    have "room q1 - length (contents q1) = d" using True d q1 by simp
    with Cons.IH [OF q1(2)] Cons.prems(2) True d q1 show ?thesis by (auto simp: a)
  qed (use q1 in \<open>auto simp: a\<close>)
qed auto

lemma pop_batch_take:
  assumes "inv q"
  shows "\<exists>q'. pop_batch_with fpop nows q = (take (length nows) (contents q), q') \<and> inv q' \<and>
     contents q' = drop (length nows) (contents q)"
  using assms
proof (induction nows arbitrary: q)
  case (Cons now nows)
  obtain q1 where q1: "fpop now q = ((case contents q of [] \<Rightarrow> None | x # _ \<Rightarrow> Some x), q1)" "inv q1"
    "contents q1 = tl (contents q)" using pop_law [OF Cons.prems] by blast
  show ?case
    using Cons.IH [OF q1(2)] q1 by (cases "contents q") auto
qed auto

text \<open>Round trip: what a batch put into an empty queue comes out in order, up to its room.\<close>

lemma batch_roundtrip:
  assumes "inv q" "contents q = []" "\<forall>(now, x) \<in> set its. fits q x" "room q \<le> length nows"
  shows "fst (pop_batch_with fpop nows (snd (push_batch_with fpush its q))) = take (room q) (map snd its)"
proof -
  obtain q' where "push_batch_with fpush its q = (Inr (int (min (length its) (room q))), q')" "inv q'"
    "contents q' = take (room q) (map snd its)"
    using push_batch_prefix [OF assms(1,3)] assms(2) by auto
  with pop_batch_take [of q' nows] assms(4) show ?thesis by auto
qed

end

section \<open>The ring buffer is a bounded queue\<close>

text \<open>The items a ring holds, read slot by slot from the tail; the invariant; the room (one slot less
  than the capacity).\<close>

definition ring_contents :: "ring \<Rightarrow> bytes list" where
  "ring_contents r =
     map (\<lambda>i. slice (get_offset r (counter_load (tail r + of_nat i)))
                    (get_offset r (counter_load (tail r + of_nat i)) + element_size r) (storage r))
       [0..<nat (ring_size r)]"

definition ring_inv :: "ring \<Rightarrow> bool" where
  "ring_inv r \<longleftrightarrow> (\<exists>k n w. ring_ok k n w r)"

definition ring_room :: "ring \<Rightarrow> nat" where
  "ring_room r = nat (rcapacity r) - 1"

definition ring_fits :: "ring \<Rightarrow> bytes \<Rightarrow> bool" where
  "ring_fits r d \<longleftrightarrow> int (length d) = element_size r"

lemma ring_contents_at: "ring_ok k n w r \<Longrightarrow> ring_contents r = contents_at k w r"
proof -
  assume ok: "ring_ok k n w r"
  then have k: "k \<le> 64" and m: "rmask r = 2 ^ k - 1" and es: "element_size r = int w"
    by (auto simp: ring_ok_def)
  have "get_offset r (counter_load (tail r + of_nat i)) = int (slot k r i) * int w" for i
    by (simp only: get_offset_def m es and_mask_pow counter_mod [OF k] unat_add_mod [OF k] slot_def)
  then show ?thesis
    by (simp add: ring_contents_def contents_at_def es slice_block ring_size_items [OF ok])
qed

lemma ring_room_ok: "ring_ok k n w r \<Longrightarrow> ring_room r = 2 ^ k - 1"
  by (simp add: ring_room_def ring_ok_def nat_power_eq)

lemma ring_fits_ok: "ring_ok k n w r \<Longrightarrow> ring_fits r d \<longleftrightarrow> length d = w"
  by (auto simp: ring_fits_def ring_ok_def)

lemma ring_push_law:
  assumes "ring_inv r" "ring_fits r d"
  shows "\<exists>r'. push now d r = Inr (length (ring_contents r) < ring_room r, r') \<and> ring_inv r' \<and>
     ring_room r' = ring_room r \<and> ring_fits r' = ring_fits r \<and>
     ring_contents r' = (if length (ring_contents r) < ring_room r then ring_contents r @ [d] else ring_contents r)"
proof -
  obtain k n w where ok: "ring_ok k n w r" using assms(1) by (auto simp: ring_inv_def)
  then have d: "length d = w" using assms(2) by (simp add: ring_fits_ok)
  obtain r' n' where r': "push now d r = Inr (items r < 2 ^ k - 1, r')" "ring_ok k n' w r'"
    "contents_at k w r' = (if items r < 2 ^ k - 1 then contents_at k w r @ [d] else contents_at k w r)"
    using push_cases [OF ok d] by blast
  have "ring_fits r' = ring_fits r" using ring_fits_ok [OF ok] ring_fits_ok [OF r'(2)] by auto
  with r' show ?thesis
    using ring_room_ok [OF ok] ring_room_ok [OF r'(2)] ring_contents_at [OF ok] ring_contents_at [OF r'(2)]
    by (auto simp: ring_inv_def)
qed

lemma ring_pop_law:
  assumes "ring_inv r"
  shows "\<exists>r'. pop now r = ((case ring_contents r of [] \<Rightarrow> None | d # _ \<Rightarrow> Some d), r') \<and> ring_inv r' \<and>
     ring_room r' = ring_room r \<and> ring_fits r' = ring_fits r \<and> ring_contents r' = tl (ring_contents r)"
proof -
  obtain k n w where ok: "ring_ok k n w r" using assms by (auto simp: ring_inv_def)
  obtain r' where r': "pop now r = ((case contents_at k w r of [] \<Rightarrow> None | d # _ \<Rightarrow> Some d), r')"
    "ring_ok k n w r'" "contents_at k w r' = tl (contents_at k w r)" using pop_cases [OF ok] by blast
  have "ring_fits r' = ring_fits r" using ring_fits_ok [OF ok] ring_fits_ok [OF r'(2)] by auto
  with r' show ?thesis
    using ring_room_ok [OF ok] ring_room_ok [OF r'(2)] ring_contents_at [OF ok] ring_contents_at [OF r'(2)]
    by (auto simp: ring_inv_def)
qed

interpretation rb: bounded_fifo push pop ring_contents ring_room ring_fits ring_inv
  by unfold_locales (rule ring_push_law ring_pop_law; assumption)+

text \<open>A new ring is empty and well formed when its rounded capacity fits the counters.\<close>

lemma bit_length_less: "n \<le> 2 ^ 62 \<Longrightarrow> 0 \<le> n \<Longrightarrow> bit_length (n - 1) < 64"
proof -
  assume n: "0 \<le> n" "n \<le> 2 ^ 62"
  then have "\<bar>n - 1\<bar> < 2 ^ 63" by (simp add: abs_less_iff)
  then have "nat \<bar>n - 1\<bar> < 2 ^ 63" by (simp add: nat_less_iff)
  then have "bit_length (n - 1) \<le> 63" unfolding bit_length_def by (intro floorlog_leI) auto
  then show ?thesis by simp
qed

lemma le_pow_floorlog: "0 < n \<Longrightarrow> n \<le> 2 ^ floorlog 2 (n - 1)"
proof (cases "n = 1")
  case False
  assume "0 < n"
  with False have "n - 1 < 2 ^ floorlog 2 (n - 1)" using floorlog_bounds [of "n - 1" 2] by auto
  then show ?thesis by simp
qed (simp add: floorlog_def)

lemma le_round_capacity: "0 \<le> c \<Longrightarrow> c \<le> round_capacity c"
proof (cases "c = 0")
  case False
  assume "0 \<le> c"
  then have "nat c \<le> 2 ^ floorlog 2 (nat c - 1)" using False by (intro le_pow_floorlog) auto
  then have "int (nat c) \<le> int (2 ^ floorlog 2 (nat c - 1))" by (rule of_nat_mono)
  moreover have "nat \<bar>c - 1\<bar> = nat c - 1" using \<open>0 \<le> c\<close> False by linarith
  ultimately show ?thesis using \<open>0 \<le> c\<close> by (simp only: round_capacity_def bit_length_def) simp
qed (simp add: round_capacity_def)

lemma ring_init_ok:
  assumes "ring_init c es = Inr r" "0 \<le> c" "c \<le> 2 ^ 62" "0 \<le> es"
  shows "ring_ok (bit_length (c - 1)) (nat c) (nat es) r" "ring_contents r = []" "head r = 0" "tail r = 0"
proof -
  have r: "r = \<lparr>rcapacity = round_capacity c, element_size = es, rmask = round_capacity c - 1,
      head = 0, tail = 0, storage = replicate (nat (c * es)) 0, rstate = EMPTY, rstats = new_stats\<rparr>"
    using assms(1) by (simp add: ring_init_def counter_store_def split: if_splits)
  then show z: "head r = 0" "tail r = 0" by simp_all
  have "c \<le> 2 ^ bit_length (c - 1)" using le_round_capacity [OF assms(2)] by (simp add: round_capacity_def)
  then have cap: "nat c \<le> 2 ^ bit_length (c - 1)" by (simp add: nat_le_iff)
  with assms show ok: "ring_ok (bit_length (c - 1)) (nat c) (nat es) r"
    using bit_length_less [of c] by (simp add: r ring_ok_def round_capacity_def nat_mult_distrib)
  show "ring_contents r = []"
    unfolding ring_contents_at [OF ok] by (simp add: contents_at_def items_def z)
qed

lemma ring_init_inv:
  assumes "ring_init c es = Inr r" "0 \<le> c" "c \<le> 2 ^ 62" "0 \<le> es"
  shows "ring_inv r" "ring_contents r = []" "ring_room r = nat (round_capacity c) - 1"
    "ring_fits r d \<longleftrightarrow> int (length d) = es"
proof -
  note ok = ring_init_ok [OF assms]
  show "ring_inv r" using ok(1) by (auto simp: ring_inv_def)
  show "ring_contents r = []" by (rule ok(2))
  show "ring_room r = nat (round_capacity c) - 1"
    using ring_room_ok [OF ok(1)] by (simp add: round_capacity_def nat_power_eq)
  show "ring_fits r d \<longleftrightarrow> int (length d) = es" using ok(1) by (simp add: ring_fits_def ring_ok_def assms(4))
qed

text \<open>Draining returns the contents.\<close>

lemma drain_contents:
  assumes "ring_inv r"
  shows "fst (drain clk n r) = ring_contents r \<and> ring_inv (snd (drain clk n r)) \<and> ring_contents (snd (drain clk n r)) = []"
  using assms
proof (induction "ring_contents r" arbitrary: r n)
  case Nil
  obtain r' where "pop (clk n) r = (None, r')" "ring_inv r'" "ring_contents r' = []"
    using rb.pop_law [OF Nil.prems, of "clk n"] Nil.hyps by (auto split: list.splits)
  with Nil.hyps show ?case by (subst (1 2 3) drain.simps) simp
next
  case (Cons d ds)
  then obtain r' where r': "pop (clk n) r = (Some d, r')" "ring_inv r'" "ring_contents r' = ds"
    using rb.pop_law [OF Cons.prems, of "clk n"] by (metis list.sel(3) list.simps(5))
  with Cons.hyps(1) [of r' "Suc n"] Cons.hyps(2) [symmetric] show ?case
    by (subst (1 2 3) drain.simps) (auto split: prod.splits)
qed

lemma clear_loop_counts:
  assumes "ring_inv r"
  shows "fst (clear_loop clk n r) = n + length (ring_contents r) \<and> ring_inv (snd (clear_loop clk n r)) \<and>
     ring_contents (snd (clear_loop clk n r)) = []"
  using assms
proof (induction "ring_contents r" arbitrary: r n)
  case Nil
  obtain r' where "pop (clk n) r = (None, r')" using rb.pop_law [OF Nil.prems, of "clk n"] Nil.hyps by (auto split: list.splits)
  then have "is_empty r" using not_empty_pop [of r "clk n"] by auto
  with Nil show ?case by (subst (1 2 3) clear_loop.simps) simp
next
  case (Cons d ds)
  then obtain r' where r': "pop (clk n) r = (Some d, r')" "ring_inv r'" "ring_contents r' = ds"
    using rb.pop_law [OF Cons.prems, of "clk n"] by (metis list.sel(3) list.simps(5))
  then have "\<not> is_empty r" by (auto simp: is_empty_def pop_def)
  with r' Cons.hyps(1) [of r' "Suc n"] Cons.hyps(2) [symmetric] show ?case
    by (subst (1 2 3) clear_loop.simps) simp
qed

lemma peek_contents:
  assumes "ring_inv r"
  shows "peek r = (case ring_contents r of [] \<Rightarrow> None | d # _ \<Rightarrow> Some d)"
proof -
  have "peek r = fst (pop 0 r)" by (simp add: peek_def pop_def Let_def)
  with rb.pop_law [OF assms, of 0] show ?thesis by auto
qed

section \<open>Runs of the ring and of the queue it stands for\<close>

datatype ring_op =
    Op_Push int bytes
  | Op_Pop int
  | Op_Peek
  | Op_Clear "nat \<Rightarrow> int"
  | Op_Reset_Stats
  | Op_Shutdown

datatype ring_out = Raised exn | Pushed bool | Item "bytes option" | Cleared nat | Done

fun ring_step :: "ring_op \<Rightarrow> ring \<Rightarrow> ring_out \<times> ring" where
  "ring_step (Op_Push now d) r = (case push now d r of Inl e \<Rightarrow> (Raised e, r) | Inr (b, r') \<Rightarrow> (Pushed b, r'))"
| "ring_step (Op_Pop now) r = (case pop now r of (d, r') \<Rightarrow> (Item d, r'))"
| "ring_step Op_Peek r = (Item (peek r), r)"
| "ring_step (Op_Clear clk) r = (case clear clk r of (n, r') \<Rightarrow> (Cleared n, r'))"
| "ring_step Op_Reset_Stats r = (Done, reset_stats r)"
| "ring_step Op_Shutdown r = (Done, shutdown r)"

text \<open>The specification: a list with a bound, nothing else.\<close>

fun queue_step :: "nat \<Rightarrow> int \<Rightarrow> ring_op \<Rightarrow> bytes list \<Rightarrow> ring_out \<times> bytes list" where
  "queue_step room w (Op_Push now d) q =
     (if int (length d) \<noteq> w then (Raised ValueError, q)
      else if length q < room then (Pushed True, q @ [d]) else (Pushed False, q))"
| "queue_step room w (Op_Pop now) q = (case q of [] \<Rightarrow> (Item None, []) | d # q' \<Rightarrow> (Item (Some d), q'))"
| "queue_step room w Op_Peek q = (Item (case q of [] \<Rightarrow> None | d # _ \<Rightarrow> Some d), q)"
| "queue_step room w (Op_Clear clk) q = (Cleared (length q), [])"
| "queue_step room w Op_Reset_Stats q = (Done, q)"
| "queue_step room w Op_Shutdown q = (Done, q)"

fun run_outs :: "('op \<Rightarrow> 's \<Rightarrow> 'o \<times> 's) \<Rightarrow> 'op list \<Rightarrow> 's \<Rightarrow> 'o list" where
  "run_outs f [] s = []"
| "run_outs f (x # xs) s = (case f x s of (out, s') \<Rightarrow> out # run_outs f xs s')"

text \<open>Fields outside the queue do not matter.\<close>

lemma same_queue:
  assumes "ring_inv r" "head r' = head r" "tail r' = tail r" "storage r' = storage r"
    "rcapacity r' = rcapacity r" "rmask r' = rmask r" "element_size r' = element_size r"
  shows "ring_inv r' \<and> ring_contents r' = ring_contents r \<and> ring_room r' = ring_room r"
  using assms
  by (simp add: ring_inv_def ring_ok_def ring_contents_def ring_size_def get_offset_def ring_room_def)

lemma ring_frame_pop:
  "rcapacity (snd (pop now r)) = rcapacity r" "element_size (snd (pop now r)) = element_size r"
  by (simp_all add: pop_def Let_def)

lemma clear_loop_frame:
  "rcapacity (snd (clear_loop clk n r)) = rcapacity r \<and> element_size (snd (clear_loop clk n r)) = element_size r"
proof (induction clk n r rule: clear_loop.induct)
  case (1 clk n r)
  show ?case
    using 1 ring_frame_pop [of "clk n" r]
    by (subst (1 2) clear_loop.simps) (auto split: prod.splits option.splits)
qed

lemma ring_step_queue:
  assumes inv: "ring_inv r"
  shows "\<exists>r'. ring_step x r = (fst (queue_step (ring_room r) (element_size r) x (ring_contents r)), r') \<and>
     ring_inv r' \<and> ring_room r' = ring_room r \<and> element_size r' = element_size r \<and>
     ring_contents r' = snd (queue_step (ring_room r) (element_size r) x (ring_contents r))"
proof (cases x)
  case (Op_Push now d)
  show ?thesis
  proof (cases "ring_fits r d")
    case True
    obtain r' where r': "push now d r = Inr (length (ring_contents r) < ring_room r, r')" "ring_inv r'"
      "ring_room r' = ring_room r" "ring_fits r' = ring_fits r"
      "ring_contents r' = (if length (ring_contents r) < ring_room r then ring_contents r @ [d] else ring_contents r)"
      using rb.push_law [OF inv True] by blast
    moreover have "element_size r' = element_size r" using True r'(4) by (metis ring_fits_def)
    ultimately show ?thesis using True by (auto simp: Op_Push ring_fits_def)
  next
    case False
    then show ?thesis using inv by (auto simp: Op_Push ring_fits_def push_def)
  qed
next
  case (Op_Pop now)
  obtain r' where "pop now r = ((case ring_contents r of [] \<Rightarrow> None | d # _ \<Rightarrow> Some d), r')" "ring_inv r'"
    "ring_room r' = ring_room r" "ring_contents r' = tl (ring_contents r)"
    using rb.pop_law [OF inv] by blast
  then show ?thesis using ring_frame_pop(2) [of now r] by (auto simp: Op_Pop split: list.splits)
next
  case (Op_Clear clk)
  obtain n r1 where c: "clear_loop clk 0 r = (n, r1)" by force
  let ?r = "r1\<lparr>rstate := EMPTY\<rparr>"
  have r1: "ring_inv r1" "ring_contents r1 = []" "n = length (ring_contents r)" "ring_room r1 = ring_room r"
    "element_size r1 = element_size r"
    using clear_loop_counts [OF inv, of clk 0] clear_loop_frame [of clk 0 r] by (auto simp: c ring_room_def)
  moreover have "ring_inv ?r \<and> ring_contents ?r = ring_contents r1 \<and> ring_room ?r = ring_room r1"
    by (rule same_queue [OF r1(1)]) auto
  ultimately show ?thesis by (simp add: Op_Clear clear_def c)
next
  case Op_Reset_Stats
  have "ring_inv (reset_stats r) \<and> ring_contents (reset_stats r) = ring_contents r \<and> ring_room (reset_stats r) = ring_room r"
    by (rule same_queue [OF inv]) (auto simp: reset_stats_def)
  then show ?thesis by (simp add: Op_Reset_Stats) (simp add: reset_stats_def)
next
  case Op_Shutdown
  have "ring_inv (shutdown r) \<and> ring_contents (shutdown r) = ring_contents r \<and> ring_room (shutdown r) = ring_room r"
    by (rule same_queue [OF inv]) (auto simp: shutdown_def)
  then show ?thesis by (simp add: Op_Shutdown) (simp add: shutdown_def)
qed (use inv peek_contents in auto)

lemma ring_run_queue:
  "ring_inv r \<Longrightarrow> run_outs ring_step xs r = run_outs (queue_step (ring_room r) (element_size r)) xs (ring_contents r)"
proof (induction xs arbitrary: r)
  case (Cons x xs)
  obtain r' where "ring_step x r = (fst (queue_step (ring_room r) (element_size r) x (ring_contents r)), r')"
    "ring_inv r'" "ring_room r' = ring_room r" "element_size r' = element_size r"
    "ring_contents r' = snd (queue_step (ring_room r) (element_size r) x (ring_contents r))"
    using ring_step_queue [OF Cons.prems, of x] by blast
  with Cons.IH [of r'] show ?case by (simp add: split_beta)
qed simp

section \<open>The multi-producer buffer in sequential use\<close>

text \<open>Every slot starts with sequence number 0, so only position 0 can ever be claimed.\<close>

definition mring_stuck :: "mring \<Rightarrow> bool" where
  "mring_stuck r \<longleftrightarrow>
     (\<exists>k. 0 < k \<and> mmask r = 2 ^ k - 1 \<and> length (mslots r) = 2 ^ k) \<and> mslots r ! 1 = 0 \<and>
     (mhead r = 0 \<and> mtail r = 0 \<and> mslots r ! 0 = 0 \<and> total_writes (mstats r) = 0 \<or>
      mhead r = 1 \<and> mtail r \<in> {0, 1} \<and> total_writes (mstats r) = 1)"

datatype mring_op = Op_MPush bytes | Op_MPop

fun mring_step :: "mring_op \<Rightarrow> mring \<Rightarrow> mring" where
  "mring_step (Op_MPush d) r = snd (mpush d r)"
| "mring_step Op_MPop r = snd (mpop r)"

lemma one_and_mask: "0 < k \<Longrightarrow> (1::int) AND (2 ^ k - 1) = 1"
  by (simp add: and_mask_pow mod_pos_pos_trivial)

lemma mring_step_stuck [inv_intros]: "mring_stuck r \<Longrightarrow> mring_stuck (mring_step x r)"
proof -
  assume st: "mring_stuck r"
  then obtain k where k: "0 < k" "mmask r = 2 ^ k - 1" "length (mslots r) = 2 ^ k" by (auto simp: mring_stuck_def)
  have len: "1 < length (mslots r)" "0 < length (mslots r)" using k one_less_power [of "2::nat" k] by simp_all
  have s: "(0::int) AND mmask r = 0" "(1::int) AND mmask r = 1" using one_and_mask [OF k(1)] by (simp_all add: k(2))
  have one: "sint (1 :: counter) = 1" "counter_load (0 :: counter) = 0" "counter_load (1 :: counter) = 1"
    "word_of_int (counter_load c) = c" for c :: counter
    by (simp_all add: counter_load_def)
  show ?thesis
  proof (cases x)
    case (Op_MPush d)
    show ?thesis using st k len s one
      by (auto simp: Op_MPush mpush_def mring_stuck_def Let_def fetch_add_def fetch_sub_def counter_store_def
          nth_list_update)
  next
    case Op_MPop
    show ?thesis using st k len s one
      by (auto simp: Op_MPop mpop_def mring_stuck_def Let_def fetch_add_def counter_store_def nth_list_update)
  qed
qed

interpretation mp: op_machine mring_step mring_stuck
  by unfold_locales (rule mring_step_stuck)

lemma mring_init_stuck:
  assumes "mring_init c es = Inr r" "2 \<le> c"
  shows "mring_stuck r"
proof -
  have r: "r = \<lparr>mcapacity = round_capacity c, melement_size = es, mmask = round_capacity c - 1,
      mhead = 0, mtail = 0, mstorage = replicate (nat (round_capacity c * es)) 0,
      mslots = replicate (nat (round_capacity c)) 0, mstats = new_stats\<rparr>"
    using assms(1) by (simp add: mring_init_def counter_store_def split: if_splits)
  let ?k = "bit_length (c - 1)"
  have "c \<le> 2 ^ ?k" using le_round_capacity [of c] assms(2) by (simp add: round_capacity_def)
  with assms(2) have k: "0 < ?k" by (cases "?k = 0") auto
  then have "1 < (2::nat) ^ ?k" by (rule one_less_power [rotated]) simp
  then have "mslots r ! 1 = 0 \<and> mslots r ! 0 = 0"
    by (simp add: r round_capacity_def nat_power_eq)
  with k show ?thesis by (auto simp: mring_stuck_def r round_capacity_def nat_power_eq new_stats_def)
qed

text \<open>Every run of the ring keeps the invariant and the capacity.\<close>

abbreviation ring_next :: "ring_op \<Rightarrow> ring \<Rightarrow> ring" where
  "ring_next x r \<equiv> snd (ring_step x r)"

lemma ring_next_inv [inv_intros]: "ring_inv r \<Longrightarrow> ring_inv (ring_next x r)"
  using ring_step_queue [of r x] by auto

interpretation rg: op_machine ring_next ring_inv
  by unfold_locales (rule ring_next_inv)

lemma ring_next_capacity: "ring_inv r \<Longrightarrow> rcapacity (ring_next x r) = rcapacity r"
proof -
  assume r: "ring_inv r"
  have pos: "rcapacity q = int (ring_room q) + 1" if "ring_inv q" for q
    using that by (auto simp: ring_inv_def ring_ok_def ring_room_def nat_diff_distrib' nat_power_eq of_nat_diff)
  have "ring_room (ring_next x r) = ring_room r" using ring_step_queue [OF r, of x] by auto
  then show ?thesis using pos [OF r] pos [OF ring_next_inv [OF r]] by simp
qed

lemma ring_run_capacity:
  "ring_inv r \<Longrightarrow> rcapacity (fold ring_next xs r) = rcapacity r"
  by (rule rg.run_rel [where ok = "\<lambda>_. True" and rel = "\<lambda>a b. rcapacity b = rcapacity a"])
     (auto simp: ring_next_capacity)

lemma ring_size_less: "ring_inv r \<Longrightarrow> ring_size r < rcapacity r"
proof -
  assume "ring_inv r"
  then obtain k n w where ok: "ring_ok k n w r" by (auto simp: ring_inv_def)
  have "ring_size r < 2 ^ k" using items_bound [OF ok] by (simp add: ring_size_items [OF ok])
  with ok show ?thesis by (simp add: ring_ok_def)
qed

section \<open>Properties\<close>

text \<open>C2: a ring buffer is a bounded queue. Whatever is called on a well-formed ring, in any order -
  push, pop, peek, clear, reset of the statistics, shutdown - every call returns what the
  same calls return on a plain list with room for \<open>capacity - 1\<close> items of \<open>element_size\<close> bytes, across
  wrap-around of the 64-bit counters and of the byte storage.\<close>

theorem ring_refines_queue:
  "ring_inv r \<Longrightarrow>
     run_outs ring_step xs r = run_outs (queue_step (ring_room r) (element_size r)) xs (ring_contents r)"
  by (rule ring_run_queue)

text \<open>A ring of four slots, three of them usable.\<close>

definition ring4 :: ring where
  "ring4 = \<lparr>rcapacity = 4, element_size = 2, rmask = 3, head = 0, tail = 0,
     storage = replicate 6 0, rstate = EMPTY, rstats = new_stats\<rparr>"

lemma ring4_init: "ring_init 3 2 = Inr ring4"
  by (simp add: ring_init_def ring4_def round_capacity_def bit_length_def compute_floorlog counter_store_def)

theorem ring_refines_queue_witness:
  "run_outs ring_step [Op_Push 5 [1, 2], Op_Push 6 [3], Op_Push 7 [4, 5], Op_Shutdown, Op_Push 8 [6, 7],
      Op_Push 9 [8, 9], Op_Pop 10, Op_Push 11 [8, 9], Op_Peek, Op_Clear (\<lambda>_. 0), Op_Pop 12] ring4 =
   [Pushed True, Raised ValueError, Pushed True, Done, Pushed True, Pushed False, Item (Some [1, 2]),
    Pushed True, Item (Some [4, 5]), Cleared 3, Item None]"
proof -
  note i = ring_init_inv [OF ring4_init]
  have "ring_room ring4 = 3" "element_size ring4 = 2" by (simp_all add: ring_room_def ring4_def)
  then show ?thesis by (simp add: ring_refines_queue [OF i(1)] i(2) del: ring_step.simps run_outs.simps) simp
qed

text \<open>a new ring of requested capacity \<open>c\<close> gives back what a batch wrote, in order: of the items of the
  right size the first \<open>round_capacity c - 1\<close> are kept, counted and returned, the rest is refused.\<close>

theorem ring_batch_roundtrip:
  assumes "ring_init c es = Inr r" "0 \<le> c" "c \<le> 2 ^ 62" "0 \<le> es"
    "\<forall>x \<in> set xs. int (length (snd x)) = es"
  shows "\<exists>r'. push_batch xs r = (Inr (int (min (length xs) (nat (round_capacity c) - 1))), r') \<and>
     fst (drain clk 0 r') = take (nat (round_capacity c) - 1) (map snd xs)"
proof -
  note i = ring_init_inv [OF assms(1-4)]
  obtain r' where "push_batch xs r = (Inr (int (min (length xs) (ring_room r - length (ring_contents r)))), r')"
    "ring_inv r'" "ring_contents r' = ring_contents r @ take (ring_room r - length (ring_contents r)) (map snd xs)"
    using rb.push_batch_prefix [OF i(1), of xs] assms(5) i(4) unfolding push_batch_def
    by (auto simp: split_beta)
  then show ?thesis using drain_contents [of r' clk 0] by (auto simp: i(2,3))
qed

theorem ring_batch_roundtrip_witness:
  "\<exists>r'. push_batch [(1, [1, 2]), (2, [3, 4]), (3, [5, 6]), (4, [7, 8])] ring4 = (Inr 3, r') \<and>
     fst (drain (\<lambda>_. 9) 0 r') = [[1, 2], [3, 4], [5, 6]]"
  using ring_batch_roundtrip [OF ring4_init, of "[(1, [1, 2]), (2, [3, 4]), (3, [5, 6]), (4, [7, 8])]" "\<lambda>_. 9"]
  by (simp add: round_capacity_def bit_length_def compute_floorlog)

text \<open>no sequence of operations fills a new ring to its capacity: \<open>is_full\<close> answers \<open>False\<close> after every
  run, also right after a push was refused for lack of room, because \<open>push\<close> keeps one slot free
  and the size is taken modulo the capacity.\<close>

theorem ring_never_full:
  assumes "ring_init c es = Inr r" "0 \<le> c" "c \<le> 2 ^ 62" "0 \<le> es"
  shows "\<not> is_full (fold ring_next xs r) \<and> ring_size (fold ring_next xs r) < round_capacity c"
proof -
  note r = ring_init_inv(1) [OF assms]
  have "ring_size (fold ring_next xs r) < rcapacity (fold ring_next xs r)"
    by (rule ring_size_less [OF rg.run_inv [OF r]])
  moreover have "rcapacity r = round_capacity c" using assms(1) by (auto simp: ring_init_def split: if_splits)
  ultimately show ?thesis by (simp add: is_full_def ring_run_capacity [OF r])
qed

theorem ring_never_full_witness:
  "\<not> is_full (fold ring_next [Op_Push 5 [1, 2], Op_Push 6 [3, 4], Op_Push 7 [5, 6], Op_Push 8 [7, 8]] ring4)"
  by (rule ring_never_full [OF ring4_init, THEN conjunct1]) simp_all

text \<open>a shut-down ring goes on serving: after \<open>shutdown\<close> every call returns what it would have returned
  without it, pushes included (the comment there says "no more writes accepted"), and one \<open>pop\<close> on the
  empty ring makes it forget that it was shut down.\<close>

theorem shutdown_is_ignored:
  "ring_inv r \<Longrightarrow>
     run_outs ring_step (Op_Shutdown # xs) r = Done # run_outs ring_step xs r \<and>
     is_shutdown (shutdown r) \<and> (ring_contents r = [] \<longrightarrow> \<not> is_shutdown (snd (pop now (shutdown r))))"
proof -
  assume r: "ring_inv r"
  have s: "ring_inv (shutdown r) \<and> ring_contents (shutdown r) = ring_contents r \<and> ring_room (shutdown r) = ring_room r"
    by (rule same_queue [OF r]) (auto simp: shutdown_def)
  moreover have "element_size (shutdown r) = element_size r" by (simp add: shutdown_def)
  ultimately have "run_outs ring_step xs (shutdown r) = run_outs ring_step xs r"
    using ring_run_queue [OF r] ring_run_queue [of "shutdown r"] by simp
  moreover have "\<not> is_shutdown (snd (pop now (shutdown r)))" if "ring_contents r = []"
  proof -
    have "fst (pop now r) = None" using rb.pop_law [OF r, of now] that by auto
    then show ?thesis by (auto simp: pop_def shutdown_def is_shutdown_def Let_def split: if_splits)
  qed
  ultimately show ?thesis by (simp add: is_shutdown_def shutdown_def)
qed

theorem shutdown_is_ignored_witness:
  "is_shutdown (shutdown ring4) \<and> \<not> is_shutdown (snd (pop 1 (shutdown ring4)))"
  using shutdown_is_ignored [OF ring_init_inv(1) [OF ring4_init]] ring_init_inv(2) [OF ring4_init] by simp

text \<open>the multi-producer buffer takes one item in its life. Its slots all start with sequence number 0
  where position \<open>i\<close> needs slot \<open>i\<close> to hold at least \<open>i\<close>, so of any sequence of pushes and pops on a
  new buffer of two or more slots at most one push is accepted.\<close>

theorem multi_producer_accepts_one:
  assumes "mring_init c es = Inr r" "2 \<le> c"
  shows "total_writes (mstats (fold mring_step xs r)) \<le> 1"
  using mp.run_inv [OF mring_init_stuck [OF assms], of xs] by (auto simp: mring_stuck_def)

theorem multi_producer_accepts_one_witness:
  "\<exists>r. mring_init 4 1 = Inr r \<and>
     total_writes (mstats (fold mring_step [Op_MPush [1], Op_MPop, Op_MPush [2], Op_MPush [3]] r)) \<le> 1"
proof -
  obtain r where r: "mring_init 4 1 = Inr r" by (simp add: mring_init_def round_capacity_def)
  show ?thesis by (intro exI [of _ r] conjI r multi_producer_accepts_one [OF r]) simp
qed

end
