(* ===== verification/OCO.thy ===== *)
theory OCO
  imports Prelude
begin

text \<open>
  \<open>backend/oms/oco_manager.py\<close>: one-cancels-other order pairs. A group has two legs; a full fill of one
  leg is meant to cancel the other. Clock readings are a function argument \<open>t\<close> (the \<open>i\<close>-th reading of
  the call), the random part of a group id is an argument, the asynchronous cancellation queue is a list
  the background task takes from. A callback is only recorded (the code catches what it raises); what it
  does to other objects is not modelled.

  The lemmas: the invariant of the manager over any sequence of calls, what a full fill does, and two
  consequences of states the code never enters.
\<close>

section \<open>Legs and groups\<close>

datatype OCOState =
    PENDING | ACTIVE | LEG_A_FILLED | LEG_B_FILLED | LEG_A_CANCELLED | LEG_B_CANCELLED
  | FULLY_FILLED | FULLY_CANCELLED | PARTIAL_FILL_A | PARTIAL_FILL_B | ERROR

record OCOLeg =
  leg_id :: string
  leg_order_id :: "string option"
  leg_symbol :: string
  leg_side :: string
  leg_order_type :: string
  leg_price :: pyfloat
  leg_stop_price :: "pyfloat option"
  leg_quantity :: pyfloat
  filled_quantity :: pyfloat
  remaining_quantity :: pyfloat
  leg_status :: string
  leg_created_at :: pyfloat
  leg_updated_at :: pyfloat

definition is_fully_filled :: "OCOLeg \<Rightarrow> bool" where
  "is_fully_filled l \<longleftrightarrow> remaining_quantity l \<le> 0 \<and> leg_status l = ''FILLED''"

definition is_cancelled :: "OCOLeg \<Rightarrow> bool" where
  "is_cancelled l \<longleftrightarrow> leg_status l \<in> {''CANCELLED'', ''EXPIRED''}"

definition has_partial_fill :: "OCOLeg \<Rightarrow> bool" where
  "has_partial_fill l \<longleftrightarrow> 0 < filled_quantity l \<and> filled_quantity l < leg_quantity l"

record OCOGroup =
  group_id :: string
  leg_a :: OCOLeg
  leg_b :: OCOLeg
  group_state :: OCOState
  group_created_at :: pyfloat
  group_updated_at :: pyfloat
  has_callback :: bool

text \<open>\<open>__post_init__\<close>.\<close>

definition post_init :: "OCOGroup \<Rightarrow> exn + OCOGroup" where
  "post_init g =
     (if leg_symbol (leg_a g) \<noteq> leg_symbol (leg_b g) then Inl ValueError
      else if leg_side (leg_a g) = leg_side (leg_b g) then Inl ValueError
      else Inr g)"

definition is_active :: "OCOGroup \<Rightarrow> bool" where
  "is_active g \<longleftrightarrow>
     group_state g \<in> {ACTIVE, LEG_A_FILLED, LEG_B_FILLED, PARTIAL_FILL_A, PARTIAL_FILL_B}"

definition get_risk_exposure :: "OCOGroup \<Rightarrow> pyfloat" where
  "get_risk_exposure g =
     (if group_state g = FULLY_FILLED then 0
      else if is_fully_filled (leg_a g) \<or> is_fully_filled (leg_b g) then 0
      else max (remaining_quantity (leg_a g)) (remaining_quantity (leg_b g)))"

section \<open>The manager\<close>

record oco_mgr =
  max_groups :: int
  ttl_seconds :: int
  groups :: "(string, OCOGroup) dict"
  order_index :: "(string, string) dict"
  symbol_index :: "(string, string set) dict"
  cancellation_queue :: "(string \<times> string) list option"
  callback_calls :: "(string \<times> string) list"

definition oco_init :: "int \<Rightarrow> int \<Rightarrow> oco_mgr" where
  "oco_init mg ttl = \<lparr>max_groups = mg, ttl_seconds = ttl, groups = [], order_index = [],
     symbol_index = [], cancellation_queue = None, callback_calls = []\<rparr>"

definition initialize_async :: "oco_mgr \<Rightarrow> oco_mgr" where
  "initialize_async m = m\<lparr>cancellation_queue := Some []\<rparr>"

text \<open>One round of \<open>_cancellation_processor\<close>: it takes the oldest entry and drops it (the exchange call is
  a comment in the code).\<close>

definition cancellation_processor :: "oco_mgr \<Rightarrow> oco_mgr" where
  "cancellation_processor m = m\<lparr>cancellation_queue := map_option tl (cancellation_queue m)\<rparr>"

text \<open>A leg configuration: a dict whose keys may be absent.\<close>

record leg_config =
  cfg_symbol :: "string option"
  cfg_side :: "string option"
  cfg_order_type :: "string option"
  cfg_price :: "pyfloat option"
  cfg_stop_price :: "pyfloat option"
  cfg_quantity :: "pyfloat option"

definition make_leg :: "string \<Rightarrow> leg_config \<Rightarrow> pyfloat \<Rightarrow> pyfloat \<Rightarrow> exn + OCOLeg" where
  "make_leg lid c t1 t2 =
     (case (cfg_symbol c, cfg_side c, cfg_quantity c) of
        (Some s, Some sd, Some q) \<Rightarrow>
          Inr \<lparr>leg_id = lid, leg_order_id = None, leg_symbol = s, leg_side = sd,
               leg_order_type = (case cfg_order_type c of None \<Rightarrow> ''LIMIT'' | Some v \<Rightarrow> v),
               leg_price = (case cfg_price c of None \<Rightarrow> 0 | Some v \<Rightarrow> v),
               leg_stop_price = cfg_stop_price c, leg_quantity = q, filled_quantity = 0,
               remaining_quantity = q, leg_status = ''NEW'', leg_created_at = t1, leg_updated_at = t2\<rparr>
      | _ \<Rightarrow> Inl KeyError)"

definition symbol_ids :: "oco_mgr \<Rightarrow> string \<Rightarrow> string set" where
  "symbol_ids m s = (case dict_get (symbol_index m) s of None \<Rightarrow> {} | Some ids \<Rightarrow> ids)"

text \<open>\<open>_cleanup_expired_groups\<close>: the groups in insertion order, the indices cleaned on the way, the
  groups removed at the end.\<close>

definition expired :: "pyfloat \<Rightarrow> oco_mgr \<Rightarrow> OCOGroup \<Rightarrow> bool" where
  "expired now m g \<longleftrightarrow>
     fsub now (group_created_at g) > of_int (ttl_seconds m) \<and>
     group_state g \<in> {FULLY_FILLED, FULLY_CANCELLED, ERROR}"

definition pop_order_id :: "string option \<Rightarrow> (string, string) dict \<Rightarrow> (string, string) dict" where
  "pop_order_id oid ix = (case oid of Some i \<Rightarrow> if truthy_str oid then dict_pop i ix else ix | None \<Rightarrow> ix)"

fun clean_indices :: "(string \<times> OCOGroup) list \<Rightarrow> oco_mgr \<Rightarrow> oco_mgr" where
  "clean_indices [] m = m"
| "clean_indices ((gid, g) # gs) m =
     clean_indices gs
       (m\<lparr>order_index := pop_order_id (leg_order_id (leg_b g)) (pop_order_id (leg_order_id (leg_a g)) (order_index m)),
          symbol_index := dict_set (leg_symbol (leg_a g)) (symbol_ids m (leg_symbol (leg_a g)) - {gid})
            (symbol_index m)\<rparr>)"

definition cleanup_expired_groups :: "pyfloat \<Rightarrow> oco_mgr \<Rightarrow> oco_mgr" where
  "cleanup_expired_groups now m =
     (let gone = filter (\<lambda>p. expired now m (snd p)) (groups m);
          m' = clean_indices gone m
      in m'\<lparr>groups := fold dict_pop (map fst gone) (groups m')\<rparr>)"

definition create_oco_group ::
    "string \<Rightarrow> leg_config \<Rightarrow> leg_config \<Rightarrow> bool \<Rightarrow> (nat \<Rightarrow> pyfloat) \<Rightarrow> oco_mgr \<Rightarrow> (exn + OCOGroup) \<times> oco_mgr" where
  "create_oco_group hex ca cb cback t m =
     (let m1 = (if int (length (groups m)) \<ge> max_groups m then cleanup_expired_groups (t 0) m else m)
      in if int (length (groups m)) \<ge> max_groups m \<and> int (length (groups m1)) \<ge> max_groups m1
         then (Inl RuntimeError, m1)
         else case make_leg ''A'' ca (t 1) (t 2) of
                Inl e \<Rightarrow> (Inl e, m1)
              | Inr la \<Rightarrow>
                  (case make_leg ''B'' cb (t 3) (t 4) of
                     Inl e \<Rightarrow> (Inl e, m1)
                   | Inr lb \<Rightarrow>
                       (let gid = ''OCO_'' @ hex in
                        case post_init \<lparr>group_id = gid, leg_a = la, leg_b = lb, group_state = PENDING,
                               group_created_at = t 5, group_updated_at = t 6, has_callback = cback\<rparr> of
                          Inl e \<Rightarrow> (Inl e, m1)
                        | Inr g \<Rightarrow>
                            (let g' = g\<lparr>group_state := ACTIVE\<rparr>
                             in (Inr g',
                                 m1\<lparr>groups := dict_set gid g' (groups m1),
                                    symbol_index := dict_set (leg_symbol la) (insert gid (symbol_ids m1 (leg_symbol la)))
                                      (symbol_index m1)\<rparr>)))))"

definition assign_order_ids :: "string \<Rightarrow> string \<Rightarrow> string \<Rightarrow> pyfloat \<Rightarrow> oco_mgr \<Rightarrow> bool \<times> oco_mgr" where
  "assign_order_ids gid oa ob now m =
     (case dict_get (groups m) gid of
        None \<Rightarrow> (False, m)
      | Some g \<Rightarrow>
          (True, m\<lparr>groups := dict_set gid
                     (g\<lparr>leg_a := (leg_a g)\<lparr>leg_order_id := Some oa\<rparr>,
                        leg_b := (leg_b g)\<lparr>leg_order_id := Some ob\<rparr>, group_updated_at := now\<rparr>) (groups m),
                   order_index := dict_set ob gid (dict_set oa gid (order_index m))\<rparr>))"

text \<open>\<open>_cancel_counterpart_leg\<close>: the new status of the leg, and what goes to the queue.\<close>

definition cancel_counterpart_leg :: "OCOLeg \<Rightarrow> string \<Rightarrow> oco_mgr \<Rightarrow> OCOLeg \<times> oco_mgr" where
  "cancel_counterpart_leg l reason m =
     (if is_cancelled l \<or> is_fully_filled l then (l, m)
      else (l\<lparr>leg_status := ''PENDING_CANCEL''\<rparr>,
            (case (leg_order_id l, cancellation_queue m) of
               (Some oid, Some q) \<Rightarrow> if oid \<noteq> [] then m\<lparr>cancellation_queue := Some (q @ [(oid, reason)])\<rparr> else m
             | _ \<Rightarrow> m)))"

text \<open>The leg an order id belongs to: leg A first. \<open>None\<close> when neither matches.\<close>

definition find_leg :: "OCOGroup \<Rightarrow> string \<Rightarrow> bool option" where
  "find_leg g oid =
     (if leg_order_id (leg_a g) = Some oid then Some True
      else if leg_order_id (leg_b g) = Some oid then Some False else None)"

text \<open>The update of the group by a fill of the leg on side \<open>a\<close> (\<open>True\<close> is leg A).\<close>

definition fill_group ::
    "bool \<Rightarrow> pyfloat \<Rightarrow> pyfloat \<Rightarrow> string \<Rightarrow> (nat \<Rightarrow> pyfloat) \<Rightarrow> OCOGroup \<Rightarrow> oco_mgr \<Rightarrow> string \<times> OCOGroup \<times> oco_mgr" where
  "fill_group a fq rq st t g m =
     (let filled = (if a then leg_a g else leg_b g)\<lparr>filled_quantity := fq, remaining_quantity := rq,
                      leg_status := st, leg_updated_at := t 0\<rparr>;
          other = (if a then leg_b g else leg_a g);
          (other', m') = (if rq \<le> 0 then cancel_counterpart_leg other ''counterpart_filled'' m else (other, m));
          new_state = (if rq \<le> 0 then (if leg_id filled = ''A'' then LEG_A_FILLED else LEG_B_FILLED)
                       else (if leg_id filled = ''A'' then PARTIAL_FILL_A else PARTIAL_FILL_B))
      in (leg_id filled,
          g\<lparr>leg_a := (if a then filled else other'), leg_b := (if a then other' else filled),
            group_state := new_state, group_updated_at := t 1\<rparr>, m'))"

definition handle_leg_fill ::
    "string \<Rightarrow> pyfloat \<Rightarrow> pyfloat \<Rightarrow> string \<Rightarrow> (nat \<Rightarrow> pyfloat) \<Rightarrow> oco_mgr \<Rightarrow> string option \<times> oco_mgr" where
  "handle_leg_fill oid fq rq st t m =
     (case dict_get (order_index m) oid of
        None \<Rightarrow> (None, m)
      | Some gid \<Rightarrow>
          if gid = [] then (None, m)
          else case dict_get (groups m) gid of
            None \<Rightarrow> (None, m)
          | Some g \<Rightarrow>
              (case find_leg g oid of
                 None \<Rightarrow> (None, m)
               | Some a \<Rightarrow>
                   (case fill_group a fq rq st t g m of
                      (lid, g', m') \<Rightarrow>
                        (Some gid,
                         m'\<lparr>groups := dict_set gid g' (groups m'),
                            callback_calls := callback_calls m' @ (if has_callback g then [(gid, lid)] else [])\<rparr>))))"

definition cancel_group :: "bool \<Rightarrow> (nat \<Rightarrow> pyfloat) \<Rightarrow> OCOGroup \<Rightarrow> OCOGroup" where
  "cancel_group a t g =
     (let cancelled = (if a then leg_a g else leg_b g)\<lparr>leg_status := ''CANCELLED'', remaining_quantity := 0,
                        leg_updated_at := t 0\<rparr>
      in g\<lparr>leg_a := (if a then cancelled else leg_a g), leg_b := (if a then leg_b g else cancelled),
           group_state := (if leg_id cancelled = ''A'' then LEG_A_CANCELLED else LEG_B_CANCELLED),
           group_updated_at := t 1\<rparr>)"

definition handle_leg_cancel :: "string \<Rightarrow> (nat \<Rightarrow> pyfloat) \<Rightarrow> oco_mgr \<Rightarrow> string option \<times> oco_mgr" where
  "handle_leg_cancel oid t m =
     (case dict_get (order_index m) oid of
        None \<Rightarrow> (None, m)
      | Some gid \<Rightarrow>
          if gid = [] then (None, m)
          else case dict_get (groups m) gid of
            None \<Rightarrow> (None, m)
          | Some g \<Rightarrow>
              (case find_leg g oid of
                 None \<Rightarrow> (None, m)
               | Some a \<Rightarrow> (Some gid, m\<lparr>groups := dict_set gid (cancel_group a t g) (groups m)\<rparr>)))"

definition get_oco_group :: "string \<Rightarrow> oco_mgr \<Rightarrow> OCOGroup option" where
  "get_oco_group gid m = dict_get (groups m) gid"

definition get_group_by_order_id :: "string \<Rightarrow> oco_mgr \<Rightarrow> OCOGroup option" where
  "get_group_by_order_id oid m =
     (case dict_get (order_index m) oid of
        None \<Rightarrow> None
      | Some gid \<Rightarrow> if gid = [] then None else dict_get (groups m) gid)"

text \<open>A Python set is iterated in an order of its own: \<open>ord\<close> lists a set.\<close>

definition get_active_groups_for_symbol :: "(string set \<Rightarrow> string list) \<Rightarrow> string \<Rightarrow> oco_mgr \<Rightarrow> OCOGroup list" where
  "get_active_groups_for_symbol ord s m =
     filter is_active (List.map_filter (dict_get (groups m)) (ord (symbol_ids m s)))"

definition get_total_risk_exposure :: "(string set \<Rightarrow> string list) \<Rightarrow> string option \<Rightarrow> oco_mgr \<Rightarrow> pyfloat" where
  "get_total_risk_exposure ord s m =
     foldl (\<lambda>total g. fadd total (get_risk_exposure g)) 0
       (case s of
          Some smb \<Rightarrow> if truthy_str s then get_active_groups_for_symbol ord smb m
                      else filter is_active (dict_values (groups m))
        | None \<Rightarrow> filter is_active (dict_values (groups m)))"

definition cleanup_all :: "oco_mgr \<Rightarrow> oco_mgr" where
  "cleanup_all m = m\<lparr>groups := [], order_index := [], symbol_index := []\<rparr>"

section \<open>Operations in any order\<close>

datatype oco_op =
    Op_Create string leg_config leg_config bool "nat \<Rightarrow> pyfloat"
  | Op_Assign string string string pyfloat
  | Op_Fill string pyfloat pyfloat string "nat \<Rightarrow> pyfloat"
  | Op_Cancel string "nat \<Rightarrow> pyfloat"
  | Op_Initialize_Async
  | Op_Processor
  | Op_Cleanup_All

fun oco_step :: "oco_op \<Rightarrow> oco_mgr \<Rightarrow> oco_mgr" where
  "oco_step (Op_Create hex ca cb cback t) m = snd (create_oco_group hex ca cb cback t m)"
| "oco_step (Op_Assign gid oa ob now) m = snd (assign_order_ids gid oa ob now m)"
| "oco_step (Op_Fill oid fq rq st t) m = snd (handle_leg_fill oid fq rq st t m)"
| "oco_step (Op_Cancel oid t) m = snd (handle_leg_cancel oid t m)"
| "oco_step Op_Initialize_Async m = initialize_async m"
| "oco_step Op_Processor m = cancellation_processor m"
| "oco_step Op_Cleanup_All m = cleanup_all m"

section \<open>Invariant\<close>

text \<open>
  A group never enters \<open>PENDING\<close> once registered, and no operation assigns \<open>FULLY_FILLED\<close>,
  \<open>FULLY_CANCELLED\<close> or \<open>ERROR\<close>. Index entries lead to groups; every group is in the index of its symbol.
\<close>

definition group_ok :: "string \<Rightarrow> OCOGroup \<Rightarrow> bool" where
  "group_ok gid g \<longleftrightarrow>
     group_id g = gid \<and> leg_id (leg_a g) = ''A'' \<and> leg_id (leg_b g) = ''B'' \<and>
     leg_symbol (leg_a g) = leg_symbol (leg_b g) \<and> leg_side (leg_a g) \<noteq> leg_side (leg_b g) \<and>
     group_state g \<in> {ACTIVE, LEG_A_FILLED, LEG_B_FILLED, LEG_A_CANCELLED, LEG_B_CANCELLED,
                      PARTIAL_FILL_A, PARTIAL_FILL_B}"

definition oco_inv :: "oco_mgr \<Rightarrow> bool" where
  "oco_inv m \<longleftrightarrow>
     wf_dict (groups m) \<and> index_into (order_index m) (groups m) \<and>
     int (length (groups m)) \<le> max 0 (max_groups m) \<and>
     (\<forall>gid g. dict_get (groups m) gid = Some g \<longrightarrow>
        group_ok gid g \<and> gid \<in> symbol_ids m (leg_symbol (leg_a g)))"

lemma oco_init_inv [inv_intros]: "oco_inv (oco_init mg ttl)"
  by (simp add: oco_inv_def oco_init_def)

lemma oco_inv_group:
  "oco_inv m \<Longrightarrow> dict_get (groups m) gid = Some g \<Longrightarrow> group_ok gid g \<and> gid \<in> symbol_ids m (leg_symbol (leg_a g))"
  by (simp add: oco_inv_def)

text \<open>Cleanup finds nothing to remove.\<close>

lemma cleanup_expired_groups_idle:
  assumes "oco_inv m" shows "cleanup_expired_groups now m = m"
proof -
  have "\<not> expired now m (snd p)" if "p \<in> set (groups m)" for p
  proof -
    have "dict_get (groups m) (fst p) = Some (snd p)"
      using that assms by (intro iffD1 [OF wf_dict_mem]) (auto simp: oco_inv_def)
    with assms show ?thesis by (auto simp: expired_def group_ok_def dest: oco_inv_group)
  qed
  then have "filter (\<lambda>p. expired now m (snd p)) (groups m) = []" by (simp add: filter_empty_conv)
  then show ?thesis by (simp add: cleanup_expired_groups_def)
qed

lemma create_full:
  "oco_inv m \<Longrightarrow> max_groups m \<le> int (length (groups m)) \<Longrightarrow>
     create_oco_group hex ca cb cback t m = (Inl RuntimeError, m)"
  by (simp add: create_oco_group_def cleanup_expired_groups_idle)

lemma make_leg_fields:
  "make_leg lid c t1 t2 = Inr l \<Longrightarrow>
     leg_id l = lid \<and> leg_order_id l = None \<and> leg_status l = ''NEW'' \<and> remaining_quantity l = leg_quantity l \<and>
     filled_quantity l = 0"
  by (auto simp: make_leg_def split: option.splits)

text \<open>With room, a group is made from two configurations that have the required keys, one symbol and
  opposite sides, and only then.\<close>

lemma create_cases:
  assumes "oco_inv m" "int (length (groups m)) < max_groups m"
  shows "(\<exists>e. create_oco_group hex ca cb cback t m = (Inl e, m)) \<or>
    (\<exists>la lb g. make_leg ''A'' ca (t 1) (t 2) = Inr la \<and> make_leg ''B'' cb (t 3) (t 4) = Inr lb \<and>
       g = \<lparr>group_id = ''OCO_'' @ hex, leg_a = la, leg_b = lb, group_state = ACTIVE,
            group_created_at = t 5, group_updated_at = t 6, has_callback = cback\<rparr> \<and>
       leg_symbol la = leg_symbol lb \<and> leg_side la \<noteq> leg_side lb \<and>
       create_oco_group hex ca cb cback t m =
         (Inr g, m\<lparr>groups := dict_set (''OCO_'' @ hex) g (groups m),
                   symbol_index := dict_set (leg_symbol la) (insert (''OCO_'' @ hex) (symbol_ids m (leg_symbol la)))
                     (symbol_index m)\<rparr>))"
  using assms by (simp add: create_oco_group_def post_init_def Let_def split: sum.splits)

lemma symbol_ids_set:
  "symbol_ids (m\<lparr>groups := gs, symbol_index := dict_set s X (symbol_index m)\<rparr>) s' =
     (if s' = s then X else symbol_ids m s')"
  by (simp add: symbol_ids_def dict_get_set)

lemma create_inv [inv_intros]:
  assumes m: "oco_inv m" shows "oco_inv (snd (create_oco_group hex ca cb cback t m))"
proof (cases "int (length (groups m)) < max_groups m")
  case True
  from create_cases [OF m True, of hex ca cb cback t] show ?thesis
  proof (elim disjE exE conjE)
    fix e assume "create_oco_group hex ca cb cback t m = (Inl e, m)"
    then show ?thesis using m by simp
  next
    fix la lb g
    let ?gid = "''OCO_'' @ hex"
    assume la: "make_leg ''A'' ca (t 1) (t 2) = Inr la" and lb: "make_leg ''B'' cb (t 3) (t 4) = Inr lb"
      and g: "g = \<lparr>group_id = ?gid, leg_a = la, leg_b = lb, group_state = ACTIVE,
            group_created_at = t 5, group_updated_at = t 6, has_callback = cback\<rparr>"
      and ok: "leg_symbol la = leg_symbol lb" "leg_side la \<noteq> leg_side lb"
      and c: "create_oco_group hex ca cb cback t m =
         (Inr g, m\<lparr>groups := dict_set ?gid g (groups m),
                   symbol_index := dict_set (leg_symbol la) (insert ?gid (symbol_ids m (leg_symbol la)))
                     (symbol_index m)\<rparr>)"
    have "group_ok ?gid g" using make_leg_fields [OF la] make_leg_fields [OF lb] ok by (simp add: group_ok_def g)
    moreover have "index_into (order_index m) (dict_set ?gid g (groups m))"
      using m by (auto simp: oco_inv_def)
    moreover have "leg_symbol (leg_a g) = leg_symbol la" by (simp add: g)
    ultimately show ?thesis using m True
      by (auto simp: c oco_inv_def symbol_ids_set dict_get_set length_dict_set) metis
  qed
qed (simp add: create_full m)

text \<open>Updating a registered group in place.\<close>

lemma update_group_inv:
  assumes "oco_inv m" "dict_get (groups m) gid = Some g" "group_ok gid g'"
    "leg_symbol (leg_a g') = leg_symbol (leg_a g)" "groups m' = dict_set gid g' (groups m)"
    "index_into (order_index m') (dict_set gid g' (groups m))"
    "symbol_index m' = symbol_index m" "max_groups m' = max_groups m"
  shows "oco_inv m'"
proof -
  have "gid \<in> fst ` set (groups m)" using assms(2) by (force dest: map_of_SomeD)
  with assms show ?thesis
    using oco_inv_group [OF assms(1,2)]
    by (auto simp: oco_inv_def symbol_ids_def dict_get_set length_dict_set)
qed

lemma assign_inv [inv_intros]:
  assumes m: "oco_inv m" shows "oco_inv (snd (assign_order_ids gid oa ob now m))"
proof (cases "dict_get (groups m) gid")
  case (Some g)
  let ?g = "g\<lparr>leg_a := (leg_a g)\<lparr>leg_order_id := Some oa\<rparr>, leg_b := (leg_b g)\<lparr>leg_order_id := Some ob\<rparr>,
              group_updated_at := now\<rparr>"
  have "group_ok gid ?g" using oco_inv_group [OF m Some] by (simp add: group_ok_def)
  moreover have "index_into (dict_set ob gid (dict_set oa gid (order_index m))) (dict_set gid ?g (groups m))"
    using m by (intro index_into_add index_into_set) (auto simp: oco_inv_def dict_get_set)
  ultimately show ?thesis
    by (intro update_group_inv [OF m Some]) (auto simp: assign_order_ids_def Some)
qed (simp add: assign_order_ids_def m)

abbreviation side :: "bool \<Rightarrow> OCOGroup \<Rightarrow> OCOLeg" where
  "side a g \<equiv> (if a then leg_a g else leg_b g)"

lemma cancel_counterpart_frame:
  "groups (snd (cancel_counterpart_leg l r m)) = groups m \<and>
   order_index (snd (cancel_counterpart_leg l r m)) = order_index m \<and>
   symbol_index (snd (cancel_counterpart_leg l r m)) = symbol_index m \<and>
   max_groups (snd (cancel_counterpart_leg l r m)) = max_groups m"
  by (auto simp: cancel_counterpart_leg_def split: option.splits)

lemma cancel_counterpart_leg_fst:
  "fst (cancel_counterpart_leg l r m) =
     (if is_cancelled l \<or> is_fully_filled l then l else l\<lparr>leg_status := ''PENDING_CANCEL''\<rparr>)"
  by (simp add: cancel_counterpart_leg_def)

lemma fill_group_frame:
  assumes "fill_group a fq rq st t g m = (lid, g', m')"
  shows "groups m' = groups m" "order_index m' = order_index m" "symbol_index m' = symbol_index m"
    "max_groups m' = max_groups m"
  using assms cancel_counterpart_frame [of "side (\<not> a) g" "''counterpart_filled''" m]
  by (auto simp: fill_group_def split_beta Let_def split: if_splits)

lemma fill_group_ok:
  assumes "fill_group a fq rq st t g m = (lid, g', m')" "group_ok gid g"
  shows "group_ok gid g' \<and> leg_symbol (leg_a g') = leg_symbol (leg_a g)"
  using assms
  by (auto simp: fill_group_def group_ok_def split_beta Let_def cancel_counterpart_leg_fst split: if_splits)

text \<open>The two ways a fill event goes.\<close>

lemma fill_cases:
  assumes m: "oco_inv m"
  shows "handle_leg_fill oid fq rq st t m = (None, m) \<or>
    (\<exists>gid g a lid g' m1. dict_get (order_index m) oid = Some gid \<and> dict_get (groups m) gid = Some g \<and>
       find_leg g oid = Some a \<and> fill_group a fq rq st t g m = (lid, g', m1) \<and>
       handle_leg_fill oid fq rq st t m =
         (Some gid, m1\<lparr>groups := dict_set gid g' (groups m1),
            callback_calls := callback_calls m1 @ (if has_callback g then [(gid, lid)] else [])\<rparr>))"
  by (auto simp: handle_leg_fill_def split: option.splits if_splits prod.splits)

lemma fill_inv [inv_intros]:
  assumes m: "oco_inv m" shows "oco_inv (snd (handle_leg_fill oid fq rq st t m))"
  using fill_cases [OF m, of oid fq rq st t]
proof (elim disjE exE conjE)
  fix gid g a lid g' m1
  assume g: "dict_get (groups m) gid = Some g" and f: "fill_group a fq rq st t g m = (lid, g', m1)"
    and h: "handle_leg_fill oid fq rq st t m =
         (Some gid, m1\<lparr>groups := dict_set gid g' (groups m1),
            callback_calls := callback_calls m1 @ (if has_callback g then [(gid, lid)] else [])\<rparr>)"
  have "group_ok gid g' \<and> leg_symbol (leg_a g') = leg_symbol (leg_a g)"
    using fill_group_ok [OF f] oco_inv_group [OF m g] by blast
  moreover have "index_into (order_index m) (dict_set gid g' (groups m))" using m by (auto simp: oco_inv_def)
  ultimately show ?thesis
    by (intro update_group_inv [OF m g]) (auto simp: h fill_group_frame [OF f])
qed (simp add: m)

lemma cancel_group_ok:
  "group_ok gid g \<Longrightarrow> group_ok gid (cancel_group a t g) \<and> leg_symbol (leg_a (cancel_group a t g)) = leg_symbol (leg_a g)"
  by (auto simp: group_ok_def cancel_group_def Let_def)

lemma cancel_cases:
  "handle_leg_cancel oid t m = (None, m) \<or>
    (\<exists>gid g a. dict_get (order_index m) oid = Some gid \<and> dict_get (groups m) gid = Some g \<and>
       find_leg g oid = Some a \<and>
       handle_leg_cancel oid t m = (Some gid, m\<lparr>groups := dict_set gid (cancel_group a t g) (groups m)\<rparr>))"
  by (auto simp: handle_leg_cancel_def split: option.splits if_splits)

lemma cancel_inv [inv_intros]:
  assumes m: "oco_inv m" shows "oco_inv (snd (handle_leg_cancel oid t m))"
  using cancel_cases [of oid t m]
proof (elim disjE exE conjE)
  fix gid g a
  assume g: "dict_get (groups m) gid = Some g"
    and h: "handle_leg_cancel oid t m = (Some gid, m\<lparr>groups := dict_set gid (cancel_group a t g) (groups m)\<rparr>)"
  note k = cancel_group_ok [OF conjunct1 [OF oco_inv_group [OF m g]], of a t]
  have "index_into (order_index m) (dict_set gid (cancel_group a t g) (groups m))"
    using m by (auto simp: oco_inv_def)
  with k show ?thesis by (intro update_group_inv [OF m g]) (auto simp: h)
qed (simp add: m)

lemma queue_inv [inv_intros]:
  "oco_inv m \<Longrightarrow> oco_inv (initialize_async m)" "oco_inv m \<Longrightarrow> oco_inv (cancellation_processor m)"
  "oco_inv (cleanup_all m)"
  by (simp_all add: oco_inv_def symbol_ids_def initialize_async_def cancellation_processor_def cleanup_all_def)

lemma oco_step_inv [inv_intros]: "oco_inv m \<Longrightarrow> oco_inv (oco_step x m)"
  by (cases x) (auto intro: inv_intros)

interpretation oco: op_machine oco_step oco_inv
  by unfold_locales (rule oco_step_inv)

section \<open>What the events do\<close>

definition leaves_groups :: "oco_op \<Rightarrow> bool" where
  "leaves_groups x \<longleftrightarrow> x \<noteq> Op_Cleanup_All"

text \<open>No operation but the full cleanup makes the number of groups smaller.\<close>

lemma oco_step_length:
  "oco_inv m \<Longrightarrow> leaves_groups x \<Longrightarrow>
     length (groups m) \<le> length (groups (oco_step x m)) \<and> max_groups (oco_step x m) = max_groups m"
proof (cases x)
  case (Op_Create hex ca cb cback t)
  assume m: "oco_inv m"
  show ?thesis
  proof (cases "int (length (groups m)) < max_groups m")
    case True
    from create_cases [OF m True, of hex ca cb cback t] show ?thesis by (auto simp: Op_Create length_dict_set)
  qed (simp add: Op_Create create_full m)
next
  case (Op_Fill oid fq rq st t)
  assume m: "oco_inv m"
  from fill_cases [OF m, of oid fq rq st t] show ?thesis
    by (auto simp: Op_Fill length_dict_set dest: fill_group_frame)
next
  case (Op_Cancel oid t)
  from cancel_cases [of oid t m] show ?thesis by (auto simp: Op_Cancel length_dict_set)
qed (auto simp: leaves_groups_def assign_order_ids_def length_dict_set initialize_async_def
      cancellation_processor_def split: option.splits)

lemma max_groups_step: "oco_inv m \<Longrightarrow> max_groups (oco_step x m) = max_groups m"
  by (cases "leaves_groups x") (auto simp: oco_step_length leaves_groups_def cleanup_all_def)

lemma oco_run_length:
  assumes "oco_inv m" "\<forall>x \<in> set xs. leaves_groups x"
  shows "length (groups m) \<le> length (groups (fold oco_step xs m)) \<and> max_groups (fold oco_step xs m) = max_groups m"
  by (rule oco.run_rel [OF assms, where rel = "\<lambda>a b. length (groups a) \<le> length (groups b) \<and> max_groups b = max_groups a"])
     (auto simp: oco_step_length)

lemma fill_event:
  assumes m: "oco_inv m" and g: "get_group_by_order_id oid m = Some g" and a: "find_leg g oid = Some a"
  shows "\<exists>lid g' m1. fill_group a fq rq st t g m = (lid, g', m1) \<and>
     handle_leg_fill oid fq rq st t m =
       (Some (group_id g), m1\<lparr>groups := dict_set (group_id g) g' (groups m),
          callback_calls := callback_calls m1 @ (if has_callback g then [(group_id g, lid)] else [])\<rparr>)"
proof -
  obtain gid where gid: "dict_get (order_index m) oid = Some gid" "gid \<noteq> []" "dict_get (groups m) gid = Some g"
    using g by (auto simp: get_group_by_order_id_def split: option.splits if_splits)
  moreover have "group_id g = gid" using oco_inv_group [OF m gid(3)] by (simp add: group_ok_def)
  moreover obtain lid g' m1 where "fill_group a fq rq st t g m = (lid, g', m1)" by (metis prod_cases3)
  ultimately show ?thesis using a by (simp add: handle_leg_fill_def fill_group_frame(1))
qed

lemma group_of_order:
  "oco_inv m \<Longrightarrow> get_group_by_order_id oid m = Some g \<Longrightarrow>
     dict_get (order_index m) oid = Some (group_id g) \<and> group_id g \<noteq> [] \<and>
     dict_get (groups m) (group_id g) = Some g \<and> group_ok (group_id g) g"
  by (auto simp: get_group_by_order_id_def group_ok_def split: option.splits if_splits dest!: oco_inv_group)

section \<open>Properties\<close>

text \<open>C33: what every sequence of calls on a new manager keeps: group ids, leg ids and the pairing of the legs (one
  symbol, opposite sides), no entry of the order index that leads nowhere, every group in the index
  of its symbol, no more groups than allowed, and states among the seven the code assigns.\<close>

theorem oco_run_invariant:
  "oco_inv (fold oco_step xs (oco_init mg ttl))"
  by (rule oco.run_inv [OF oco_init_inv])

text \<open>C3: a full fill of a leg marks the counterpart for cancellation. The filled leg is closed with what the event
  says, the group moves to the state of that leg, the counterpart becomes \<open>PENDING_CANCEL\<close> unless it was
  already over and its order id goes to the back of the queue, the exposure of the group is 0, and every
  other group is untouched.\<close>

theorem full_fill_cancels_counterpart:
  assumes "m = fold oco_step xs (oco_init mg ttl)" "get_group_by_order_id oid m = Some g"
    "find_leg g oid = Some a" "rq \<le> 0" "handle_leg_fill oid fq rq ''FILLED'' t m = (res, m')"
  shows "res = Some (group_id g) \<and>
    (\<exists>g'. get_oco_group (group_id g) m' = Some g' \<and> get_risk_exposure g' = 0 \<and> is_active g' \<and>
       group_state g' = (if a then LEG_A_FILLED else LEG_B_FILLED) \<and>
       is_fully_filled (side a g') \<and> filled_quantity (side a g') = fq \<and>
       (if is_cancelled (side (\<not> a) g) \<or> is_fully_filled (side (\<not> a) g)
        then side (\<not> a) g' = side (\<not> a) g \<and> cancellation_queue m' = cancellation_queue m
        else leg_status (side (\<not> a) g') = ''PENDING_CANCEL'' \<and>
             (\<forall>i q. leg_order_id (side (\<not> a) g) = Some i \<and> i \<noteq> [] \<and> cancellation_queue m = Some q \<longrightarrow>
                cancellation_queue m' = Some (q @ [(i, ''counterpart_filled'')])))) \<and>
    (\<forall>k. k \<noteq> group_id g \<longrightarrow> get_oco_group k m' = get_oco_group k m)"
proof -
  have m: "oco_inv m" unfolding assms(1) by (rule oco.run_inv [OF oco_init_inv])
  note ids = group_of_order [OF m assms(2)]
  obtain lid g' m1 where f: "fill_group a fq rq ''FILLED'' t g m = (lid, g', m1)"
    and h: "res = Some (group_id g)" "m' = m1\<lparr>groups := dict_set (group_id g) g' (groups m),
          callback_calls := callback_calls m1 @ (if has_callback g then [(group_id g, lid)] else [])\<rparr>"
    using fill_event [OF m assms(2,3), of fq rq "''FILLED''" t] assms(5) by auto
  let ?o = "side (\<not> a) g"
  let ?c = "cancel_counterpart_leg ?o ''counterpart_filled'' m"
  have s: "side a g' = (side a g)\<lparr>filled_quantity := fq, remaining_quantity := rq, leg_status := ''FILLED'', leg_updated_at := t 0\<rparr>"
    "side (\<not> a) g' = fst ?c" "m1 = snd ?c"
    using f assms(4) by (auto simp: fill_group_def Let_def split_beta split: if_splits)
  have full: "is_fully_filled (side a g')" using assms(4) by (simp only: s) (simp add: is_fully_filled_def)
  then have "get_risk_exposure g' = 0" by (auto simp: get_risk_exposure_def split: if_splits)
  moreover have st: "group_state g' = (if a then LEG_A_FILLED else LEG_B_FILLED)"
    using f assms(4) ids by (auto simp: fill_group_def Let_def split_beta group_ok_def split: if_splits)
  moreover have "is_active g'" using st by (simp add: is_active_def)
  moreover have "get_oco_group k m' = (if k = group_id g then Some g' else get_oco_group k m)" for k
    by (simp add: h get_oco_group_def dict_get_set)
  moreover have "filled_quantity (side a g') = fq" by (simp only: s) simp
  moreover have "cancellation_queue m' = cancellation_queue (snd ?c)" by (simp add: h s)
  ultimately show ?thesis using full h(1)
    by (simp add: s(2) cancel_counterpart_leg_def)
qed

text \<open>A manager with room for one group, with that group in it: a buy and a sell leg for one coin.\<close>

definition demo_leg :: "string \<Rightarrow> leg_config" where
  "demo_leg sd = \<lparr>cfg_symbol = Some ''BTC'', cfg_side = Some sd, cfg_order_type = None, cfg_price = None,
     cfg_stop_price = None, cfg_quantity = Some 1\<rparr>"

definition demo_ops :: "oco_op list" where
  "demo_ops = [Op_Initialize_Async, Op_Create ''a'' (demo_leg ''BUY'') (demo_leg ''SELL'') False (\<lambda>_. 0),
     Op_Assign ''OCO_a'' ''A1'' ''B1'' 0]"

definition demo_open :: "string \<Rightarrow> string \<Rightarrow> string \<Rightarrow> OCOLeg" where
  "demo_open lid oid sd = \<lparr>leg_id = lid, leg_order_id = Some oid, leg_symbol = ''BTC'', leg_side = sd,
     leg_order_type = ''LIMIT'', leg_price = 0, leg_stop_price = None, leg_quantity = 1, filled_quantity = 0,
     remaining_quantity = 1, leg_status = ''NEW'', leg_created_at = 0, leg_updated_at = 0\<rparr>"

definition demo_group :: OCOGroup where
  "demo_group = \<lparr>group_id = ''OCO_a'', leg_a = demo_open ''A'' ''A1'' ''BUY'', leg_b = demo_open ''B'' ''B1'' ''SELL'',
     group_state = ACTIVE, group_created_at = 0, group_updated_at = 0, has_callback = False\<rparr>"

definition demo_mgr :: oco_mgr where
  "demo_mgr = \<lparr>max_groups = 1, ttl_seconds = 60, groups = [(''OCO_a'', demo_group)],
     order_index = [(''A1'', ''OCO_a''), (''B1'', ''OCO_a'')], symbol_index = [(''BTC'', {''OCO_a''})],
     cancellation_queue = Some [], callback_calls = []\<rparr>"

lemma demo_run: "fold oco_step demo_ops (oco_init 1 60) = demo_mgr"
  by (simp add: demo_ops_def oco_init_def initialize_async_def create_oco_group_def make_leg_def demo_leg_def
      post_init_def Let_def assign_order_ids_def demo_mgr_def demo_group_def demo_open_def symbol_ids_def)

lemma demo_found:
  "get_group_by_order_id ''A1'' demo_mgr = Some demo_group" "get_group_by_order_id ''B1'' demo_mgr = Some demo_group"
  "find_leg demo_group ''A1'' = Some True" "find_leg demo_group ''B1'' = Some False"
  by (simp_all add: get_group_by_order_id_def demo_mgr_def find_leg_def demo_group_def demo_open_def)

theorem full_fill_cancels_counterpart_witness:
  "fst (handle_leg_fill ''A1'' 1 0 ''FILLED'' (\<lambda>_. 5) demo_mgr) = Some ''OCO_a'' \<and>
   cancellation_queue (snd (handle_leg_fill ''A1'' 1 0 ''FILLED'' (\<lambda>_. 5) demo_mgr)) = Some [(''B1'', ''counterpart_filled'')]"
  using full_fill_cancels_counterpart [OF demo_run [symmetric] demo_found(1,3) order_refl prod.collapse [symmetric],
      of 1 "\<lambda>_. 5"]
  by (auto simp: demo_group_def demo_open_def demo_mgr_def is_cancelled_def is_fully_filled_def)

text \<open>once the manager holds \<open>max_groups\<close> groups it refuses every new one for ever, whatever fills and cancels
  happen and however much time passes, until \<open>cleanup_all\<close> drops everything: the automatic cleanup looks for
  terminal states no operation assigns, so completed groups are never removed.\<close>

theorem group_limit_is_permanent:
  assumes "m = fold oco_step xs (oco_init mg ttl)" "mg \<le> int (length (groups m))"
    "\<forall>x \<in> set ys. x \<noteq> Op_Cleanup_All"
  shows "fst (create_oco_group hex ca cb cback t (fold oco_step ys m)) = Inl RuntimeError"
proof -
  have m: "oco_inv m" unfolding assms(1) by (rule oco.run_inv [OF oco_init_inv])
  have "max_groups m = mg"
  proof -
    have "max_groups (fold oco_step xs (oco_init mg ttl)) = max_groups (oco_init mg ttl)"
      by (induction xs rule: rev_induct) (simp_all add: max_groups_step oco.run_inv [OF oco_init_inv])
    then show ?thesis by (simp add: assms(1) oco_init_def)
  qed
  moreover have "length (groups m) \<le> length (groups (fold oco_step ys m)) \<and> max_groups (fold oco_step ys m) = max_groups m"
    using assms(3) by (intro oco_run_length [OF m]) (simp add: leaves_groups_def)
  ultimately show ?thesis using assms(2) by (simp add: create_full oco.run_inv [OF m])
qed

theorem group_limit_is_permanent_witness:
  "fst (create_oco_group ''b'' (demo_leg ''BUY'') (demo_leg ''SELL'') False (\<lambda>_. 10 ^ 9)
     (fold oco_step [Op_Fill ''A1'' 1 0 ''FILLED'' (\<lambda>_. 5), Op_Cancel ''B1'' (\<lambda>_. 6), Op_Processor] demo_mgr)) = Inl RuntimeError"
  by (rule group_limit_is_permanent [OF demo_run [symmetric]]) (simp_all add: demo_mgr_def)

text \<open>the second leg can execute too. When both legs of a group are open, a full fill of leg A and then of leg B
  are both accepted: both legs end up fully filled for their quantities, the group reports just
  \<open>LEG_B_FILLED\<close>, and its exposure is still given as 0, so nothing in the group's state tells a double
  execution from a normal one.\<close>

theorem both_legs_can_fill:
  assumes "m = fold oco_step xs (oco_init mg ttl)"
    "get_group_by_order_id oa m = Some g" "find_leg g oa = Some True"
    "get_group_by_order_id ob m = Some g" "find_leg g ob = Some False"
    "handle_leg_fill oa qa 0 ''FILLED'' t m = (ra, ma)" "handle_leg_fill ob qb 0 ''FILLED'' u ma = (rb, mb)"
  shows "ra = Some (group_id g) \<and> rb = Some (group_id g) \<and>
    (\<exists>g'. get_oco_group (group_id g) mb = Some g' \<and> is_fully_filled (leg_a g') \<and> is_fully_filled (leg_b g') \<and>
       filled_quantity (leg_a g') = qa \<and> filled_quantity (leg_b g') = qb \<and>
       group_state g' = LEG_B_FILLED \<and> get_risk_exposure g' = 0)"
proof -
  have m: "oco_inv m" unfolding assms(1) by (rule oco.run_inv [OF oco_init_inv])
  note ids = group_of_order [OF m assms(2)] group_of_order [OF m assms(4)]
  obtain la ga m1 where fa: "fill_group True qa 0 ''FILLED'' t g m = (la, ga, m1)"
    and ha: "ra = Some (group_id g)" "ma = m1\<lparr>groups := dict_set (group_id g) ga (groups m),
          callback_calls := callback_calls m1 @ (if has_callback g then [(group_id g, la)] else [])\<rparr>"
    using fill_event [OF m assms(2,3), of qa 0 "''FILLED''" t] unfolding assms(6) prod.inject by blast
  have ma: "oco_inv ma" using fill_inv [OF m, of oa qa 0 "''FILLED''" t] assms(6) by simp
  have ga: "group_id ga = group_id g" "leg_a ga = (leg_a g)\<lparr>filled_quantity := qa, remaining_quantity := 0,
      leg_status := ''FILLED'', leg_updated_at := t 0\<rparr>"
    "leg_order_id (leg_b ga) = leg_order_id (leg_b g)" "leg_id (leg_b ga) = leg_id (leg_b g)"
    using fa by (auto simp: fill_group_def Let_def split_beta cancel_counterpart_leg_def)
  have "get_group_by_order_id ob ma = Some ga"
    using ids fill_group_frame [OF fa] by (simp add: get_group_by_order_id_def ha dict_get_set)
  moreover have "find_leg ga ob = Some False"
    using assms(5) ga by (auto simp: find_leg_def split: if_splits)
  ultimately obtain lb gb m2 where fb: "fill_group False qb 0 ''FILLED'' u ga ma = (lb, gb, m2)"
    and hb: "rb = Some (group_id ga)" "mb = m2\<lparr>groups := dict_set (group_id ga) gb (groups ma),
          callback_calls := callback_calls m2 @ (if has_callback ga then [(group_id ga, lb)] else [])\<rparr>"
    using fill_event [OF ma, of ob ga False qb 0 "''FILLED''" u] unfolding assms(7) prod.inject by blast
  have full: "is_fully_filled (leg_a ga)" by (simp add: ga is_fully_filled_def)
  then have a: "leg_a gb = leg_a ga"
    using fb by (auto simp: fill_group_def Let_def split_beta cancel_counterpart_leg_def)
  have b: "leg_b gb = (leg_b ga)\<lparr>filled_quantity := qb, remaining_quantity := 0, leg_status := ''FILLED'',
      leg_updated_at := u 0\<rparr>" "group_state gb = LEG_B_FILLED"
    using fb ids ga(4) by (auto simp: fill_group_def Let_def split_beta group_ok_def)
  have "get_oco_group (group_id g) mb = Some gb" by (simp add: hb ga get_oco_group_def dict_get_set)
  moreover have "is_fully_filled (leg_b gb)" by (simp add: b is_fully_filled_def)
  ultimately show ?thesis using full ha hb
    by (auto simp: get_risk_exposure_def a b ga)
qed

theorem both_legs_can_fill_witness:
  "\<exists>ma. handle_leg_fill ''A1'' 1 0 ''FILLED'' (\<lambda>_. 5) demo_mgr = (Some ''OCO_a'', ma) \<and>
     fst (handle_leg_fill ''B1'' 1 0 ''FILLED'' (\<lambda>_. 6) ma) = Some ''OCO_a''"
proof -
  obtain ra ma where a: "handle_leg_fill ''A1'' 1 0 ''FILLED'' (\<lambda>_. 5) demo_mgr = (ra, ma)" by fastforce
  obtain rb mb where b: "handle_leg_fill ''B1'' 1 0 ''FILLED'' (\<lambda>_. 6) ma = (rb, mb)" by fastforce
  have "group_id demo_group = ''OCO_a''" by (simp add: demo_group_def)
  with both_legs_can_fill [OF demo_run [symmetric] demo_found(1,3,2,4) a b] a b show ?thesis by simp
qed

text \<open>cancelling one leg hides the other from the risk figures. The other leg keeps its remaining quantity and
  stays with the exchange as a standalone order, and the group's own exposure still says so, but the group
  is no longer "active": it is left out of the active groups of every symbol and of the total exposure.\<close>

theorem cancelled_leg_hides_other:
  assumes "m = fold oco_step xs (oco_init mg ttl)" "get_group_by_order_id oid m = Some g"
    "find_leg g oid = Some a" "\<not> is_fully_filled (side (\<not> a) g)" "handle_leg_cancel oid t m = (res, m')"
  shows "res = Some (group_id g) \<and>
    (\<exists>g'. get_oco_group (group_id g) m' = Some g' \<and> side (\<not> a) g' = side (\<not> a) g \<and>
       get_risk_exposure g' = max 0 (remaining_quantity (side (\<not> a) g)) \<and> \<not> is_active g' \<and>
       (\<forall>ord s. g' \<notin> set (get_active_groups_for_symbol ord s m')))"
proof -
  have m: "oco_inv m" unfolding assms(1) by (rule oco.run_inv [OF oco_init_inv])
  note ids = group_of_order [OF m assms(2)]
  let ?g = "cancel_group a t g"
  have "res = Some (group_id g)" "m' = m\<lparr>groups := dict_set (group_id g) ?g (groups m)\<rparr>"
    using ids assms(3,5) by (auto simp: handle_leg_cancel_def)
  moreover have "\<not> is_active ?g"
    by (simp add: is_active_def cancel_group_def Let_def)
  moreover have "side (\<not> a) ?g = side (\<not> a) g" by (simp add: cancel_group_def Let_def)
  moreover have "get_risk_exposure ?g = max 0 (remaining_quantity (side (\<not> a) g))"
    using assms(4) by (auto simp: get_risk_exposure_def cancel_group_def Let_def is_fully_filled_def max.commute)
  ultimately show ?thesis by (auto simp: get_oco_group_def dict_get_set get_active_groups_for_symbol_def)
qed

theorem cancelled_leg_hides_other_witness:
  "\<exists>g'. get_oco_group ''OCO_a'' (snd (handle_leg_cancel ''A1'' (\<lambda>_. 5) demo_mgr)) = Some g' \<and>
     get_risk_exposure g' = 1 \<and> \<not> is_active g'"
  using cancelled_leg_hides_other [OF demo_run [symmetric] demo_found(1,3) _ prod.collapse [symmetric], of "\<lambda>_. 5"]
  by (simp add: demo_group_def demo_open_def is_fully_filled_def) blast

end
