(* ===== verification/RWLocks.thy ===== *)
theory RWLocks
  imports Prelude "HOL-Library.Multiset"
begin

text \<open>
  \<open>backend/concurrency/rw_locks.py\<close>: the read-write lock, its reentrant subclass and the cache that uses
  it. A lock method runs under one mutex from entry to return except inside \<open>Condition.wait\<close>, so a method
  is modelled by its regions between waits: entering, waking up notified, waking up by timeout. The step
  relation \<open>rw_step\<close> interleaves the regions of any number of threads that release only what they hold;
  a waiter whose \<open>wait\<close> has timed out may be overtaken by other threads before it has the mutex again.
  Clock readings are arguments.
\<close>

section \<open>The lock and its regions\<close>

record LockStats =
  total_read_locks :: int
  total_write_locks :: int
  read_wait_count :: int
  write_wait_count :: int
  total_read_wait_time_ns :: int
  total_write_wait_time_ns :: int
  max_read_hold_time_ns :: int
  max_write_hold_time_ns :: int
  contention_events :: int
  deadlock_preventions :: int

definition new_lock_stats :: LockStats where
  "new_lock_stats = \<lparr>total_read_locks = 0, total_write_locks = 0, read_wait_count = 0, write_wait_count = 0,
     total_read_wait_time_ns = 0, total_write_wait_time_ns = 0,
     max_read_hold_time_ns = 0, max_write_hold_time_ns = 0, contention_events = 0, deadlock_preventions = 0\<rparr>"

record rwlock =
  readers :: int
  writers_waiting :: int
  writer_active :: bool
  writer_preference :: bool
  max_read_timeout_s :: pyfloat
  stats :: LockStats

definition rwlock_init :: "bool \<Rightarrow> rwlock" where
  "rwlock_init wp = \<lparr>readers = 0, writers_waiting = 0, writer_active = False, writer_preference = wp,
     max_read_timeout_s = 5, stats = new_lock_stats\<rparr>"

text \<open>A region ends with the method's result or in \<open>wait\<close>.\<close>

datatype region = Got bool | Waiting

definition prevented :: "'a rwlock_scheme \<Rightarrow> 'a rwlock_scheme" where
  "prevented l = l\<lparr>stats := (stats l)\<lparr>deadlock_preventions := deadlock_preventions (stats l) + 1\<rparr>\<rparr>"

definition deadline_of :: "pyfloat option \<Rightarrow> pyfloat \<Rightarrow> 'a rwlock_scheme \<Rightarrow> pyfloat" where
  "deadline_of timeout now l =
     fadd now (case timeout of None \<Rightarrow> max_read_timeout_s l | Some x \<Rightarrow> x)"

definition read_blocked :: "'a rwlock_scheme \<Rightarrow> bool" where
  "read_blocked l \<longleftrightarrow>
     writer_active l \<or> (writer_preference l \<and> writers_waiting l > 0 \<and> readers l = 0)"

text \<open>The \<open>while\<close> of \<open>acquire_read\<close> up to the next \<open>wait\<close> and what follows it. \<open>now\<close> is the reading the loop
  takes, \<open>wait_time\<close> the difference the code records.\<close>

definition read_loop :: "pyfloat \<Rightarrow> pyfloat \<Rightarrow> int \<Rightarrow> 'a rwlock_scheme \<Rightarrow> region \<times> 'a rwlock_scheme" where
  "read_loop deadline now wait_time l =
     (if read_blocked l then
        if fsub deadline now \<le> 0 then (Got False, prevented l) else (Waiting, l)
      else
        (Got True, l\<lparr>readers := readers l + 1,
           stats := (stats l)\<lparr>total_read_locks := total_read_locks (stats l) + 1,
             total_read_wait_time_ns := total_read_wait_time_ns (stats l) + wait_time,
             contention_events := contention_events (stats l) + (if wait_time > 0 then 1 else 0)\<rparr>\<rparr>))"

definition acquire_read :: "pyfloat \<Rightarrow> pyfloat \<Rightarrow> int \<Rightarrow> 'a rwlock_scheme \<Rightarrow> region \<times> 'a rwlock_scheme" where
  "acquire_read deadline now wait_time l =
     read_loop deadline now wait_time
       (if writer_preference l \<and> writers_waiting l > 0
        then l\<lparr>stats := (stats l)\<lparr>read_wait_count := read_wait_count (stats l) + 1\<rparr>\<rparr> else l)"

text \<open>The second component: whether the method notifies.\<close>

definition release_read :: "'a rwlock_scheme \<Rightarrow> exn + 'a rwlock_scheme \<times> bool" where
  "release_read l =
     (if readers l \<le> 0 then Inl RuntimeError
      else Inr (l\<lparr>readers := readers l - 1\<rparr>, readers l - 1 = 0))"

definition write_loop :: "pyfloat \<Rightarrow> pyfloat \<Rightarrow> int \<Rightarrow> 'a rwlock_scheme \<Rightarrow> region \<times> 'a rwlock_scheme" where
  "write_loop deadline now wait_time l =
     (if readers l > 0 \<or> writer_active l then
        if fsub deadline now \<le> 0 then (Got False, (prevented l)\<lparr>writers_waiting := writers_waiting l - 1\<rparr>)
        else (Waiting, l)
      else
        (Got True, l\<lparr>writer_active := True, writers_waiting := writers_waiting l - 1,
           stats := (stats l)\<lparr>total_write_locks := total_write_locks (stats l) + 1,
             total_write_wait_time_ns := total_write_wait_time_ns (stats l) + wait_time,
             contention_events := contention_events (stats l) + (if wait_time > 0 then 1 else 0)\<rparr>\<rparr>))"

definition acquire_write :: "pyfloat \<Rightarrow> pyfloat \<Rightarrow> int \<Rightarrow> 'a rwlock_scheme \<Rightarrow> region \<times> 'a rwlock_scheme" where
  "acquire_write deadline now wait_time l =
     write_loop deadline now wait_time
       (l\<lparr>writers_waiting := writers_waiting l + 1,
          stats := (stats l)\<lparr>write_wait_count := write_wait_count (stats l) + 1\<rparr>\<rparr>)"

text \<open>\<open>wait\<close> returned \<open>False\<close>: the reader gives up, the writer also leaves the count (the \<open>finally\<close>).\<close>

definition read_timed_out :: "'a rwlock_scheme \<Rightarrow> 'a rwlock_scheme" where
  "read_timed_out l = prevented l"

definition write_timed_out :: "'a rwlock_scheme \<Rightarrow> 'a rwlock_scheme" where
  "write_timed_out l = (prevented l)\<lparr>writers_waiting := writers_waiting l - 1\<rparr>"

definition release_write :: "'a rwlock_scheme \<Rightarrow> exn + 'a rwlock_scheme \<times> bool" where
  "release_write l =
     (if \<not> writer_active l then Inl RuntimeError
      else Inr (l\<lparr>writer_active := False\<rparr>, True))"

definition reset_stats :: "'a rwlock_scheme \<Rightarrow> 'a rwlock_scheme" where
  "reset_stats l = l\<lparr>stats := new_lock_stats\<rparr>"

section \<open>Threads\<close>

text \<open>A thread inside \<open>wait\<close>: who, when its call began, its deadline, whether it has been notified.\<close>

record waiter =
  w_tid :: nat
  w_start :: int
  w_deadline :: pyfloat
  w_notified :: bool

text \<open>The lock, the threads waiting in it, and who holds it (one entry per acquisition).\<close>

record rw_sys =
  lock :: rwlock
  read_waiters :: "waiter multiset"
  write_waiters :: "waiter multiset"
  read_holders :: "nat multiset"
  write_holders :: "nat multiset"

definition rw_start :: "bool \<Rightarrow> rw_sys" where
  "rw_start wp = \<lparr>lock = rwlock_init wp, read_waiters = {#}, write_waiters = {#}, read_holders = {#},
     write_holders = {#}\<rparr>"

definition waits :: "nat \<Rightarrow> rw_sys \<Rightarrow> bool" where
  "waits t s \<longleftrightarrow> t \<in># image_mset w_tid (read_waiters s + write_waiters s)"

definition notify_all :: "bool \<Rightarrow> rw_sys \<Rightarrow> rw_sys" where
  "notify_all b s = (if b then s\<lparr>read_waiters := image_mset (w_notified_update (\<lambda>_. True)) (read_waiters s),
     write_waiters := image_mset (w_notified_update (\<lambda>_. True)) (write_waiters s)\<rparr> else s)"

fun after_read :: "region \<Rightarrow> waiter \<Rightarrow> rw_sys \<Rightarrow> rw_sys" where
  "after_read (Got True) w s = s\<lparr>read_holders := add_mset (w_tid w) (read_holders s)\<rparr>"
| "after_read (Got False) w s = s"
| "after_read Waiting w s = s\<lparr>read_waiters := add_mset (w\<lparr>w_notified := False\<rparr>) (read_waiters s)\<rparr>"

fun after_write :: "region \<Rightarrow> waiter \<Rightarrow> rw_sys \<Rightarrow> rw_sys" where
  "after_write (Got True) w s = s\<lparr>write_holders := add_mset (w_tid w) (write_holders s)\<rparr>"
| "after_write (Got False) w s = s"
| "after_write Waiting w s = s\<lparr>write_waiters := add_mset (w\<lparr>w_notified := False\<rparr>) (write_waiters s)\<rparr>"

inductive rw_step :: "rw_sys \<Rightarrow> rw_sys \<Rightarrow> bool" where
  start_read:
    "\<not> waits (w_tid w) s \<Longrightarrow> acquire_read (w_deadline w) now (ns - w_start w) (lock s) = (r, l) \<Longrightarrow>
       rw_step s (after_read r w (s\<lparr>lock := l\<rparr>))"
| wake_read:
    "w \<in># read_waiters s \<Longrightarrow> w_notified w \<Longrightarrow>
       read_loop (w_deadline w) now (ns - w_start w) (lock s) = (r, l) \<Longrightarrow>
       rw_step s (after_read r w (s\<lparr>lock := l, read_waiters := read_waiters s - {#w#}\<rparr>))"
| timeout_read:
    "w \<in># read_waiters s \<Longrightarrow>
       rw_step s (s\<lparr>lock := read_timed_out (lock s), read_waiters := read_waiters s - {#w#}\<rparr>)"
| end_read:
    "t \<in># read_holders s \<Longrightarrow> \<not> waits t s \<Longrightarrow> release_read (lock s) = Inr (l, b) \<Longrightarrow>
       rw_step s (notify_all b (s\<lparr>lock := l, read_holders := read_holders s - {#t#}\<rparr>))"
| start_write:
    "\<not> waits (w_tid w) s \<Longrightarrow> acquire_write (w_deadline w) now (ns - w_start w) (lock s) = (r, l) \<Longrightarrow>
       rw_step s (after_write r w (s\<lparr>lock := l\<rparr>))"
| wake_write:
    "w \<in># write_waiters s \<Longrightarrow> w_notified w \<Longrightarrow>
       write_loop (w_deadline w) now (ns - w_start w) (lock s) = (r, l) \<Longrightarrow>
       rw_step s (after_write r w (s\<lparr>lock := l, write_waiters := write_waiters s - {#w#}\<rparr>))"
| timeout_write:
    "w \<in># write_waiters s \<Longrightarrow>
       rw_step s (s\<lparr>lock := write_timed_out (lock s), write_waiters := write_waiters s - {#w#}\<rparr>)"
| end_write:
    "t \<in># write_holders s \<Longrightarrow> \<not> waits t s \<Longrightarrow> release_write (lock s) = Inr (l, b) \<Longrightarrow>
       rw_step s (notify_all b (s\<lparr>lock := l, write_holders := write_holders s - {#t#}\<rparr>))"

section \<open>Mutual exclusion\<close>

text \<open>The counters say who holds and who waits, and readers and a writer exclude each other.\<close>

definition rw_inv :: "rw_sys \<Rightarrow> bool" where
  "rw_inv s \<longleftrightarrow>
     readers (lock s) = int (size (read_holders s)) \<and>
     writers_waiting (lock s) = int (size (write_waiters s)) \<and>
     (writer_active (lock s) \<longleftrightarrow> write_holders s \<noteq> {#}) \<and> size (write_holders s) \<le> 1 \<and>
     (read_holders s = {#} \<or> write_holders s = {#})"

lemma rw_start_inv: "rw_inv (rw_start wp)"
  by (simp add: rw_inv_def rw_start_def rwlock_init_def)

lemma notify_all_inv [simp]: "rw_inv (notify_all b s) = rw_inv s"
  by (simp add: rw_inv_def notify_all_def)

lemma size_remove: "x \<in># M \<Longrightarrow> int (size (M - {#x#})) = int (size M) - 1"
  by (metis One_nat_def Suc_pred' nonempty_has_size of_nat_diff of_nat_1 size_Diff_singleton empty_iff set_mset_empty
      Suc_leI)

lemma read_region_inv:
  assumes "rw_inv s" "read_loop dl now wt l0 = (r, l)" "readers l0 = readers (lock s)"
    "writers_waiting l0 = writers_waiting (lock s)" "writer_active l0 = writer_active (lock s)"
  shows "rw_inv (after_read r w (s\<lparr>lock := l, read_waiters := W\<rparr>))"
  using assms by (auto simp: rw_inv_def read_loop_def read_blocked_def prevented_def split: if_splits)

lemma write_region_inv:
  assumes "rw_inv (s\<lparr>lock := l0, write_waiters := add_mset w' W\<rparr>)" "write_loop dl now wt l0 = (r, l)"
  shows "rw_inv (after_write r w (s\<lparr>lock := l, write_waiters := W\<rparr>))"
  using assms by (auto simp: rw_inv_def write_loop_def prevented_def split: if_splits)

lemma rw_step_inv [inv_intros]: "rw_inv s \<Longrightarrow> rw_step s s' \<Longrightarrow> rw_inv s'"
proof -
  assume inv: "rw_inv s" and "rw_step s s'"
  from this(2) show ?thesis
  proof cases
    case (start_read w now ns r l)
    have "rw_inv (after_read r w (s\<lparr>lock := l, read_waiters := read_waiters s\<rparr>))"
      by (rule read_region_inv [OF inv start_read(3) [unfolded acquire_read_def]]) auto
    then show ?thesis using start_read(1) by simp
  next
    case (wake_read w now ns r l)
    show ?thesis unfolding wake_read(1) by (rule read_region_inv [OF inv wake_read(4)]) auto
  next
    case (timeout_read w)
    then show ?thesis using inv by (simp add: rw_inv_def read_timed_out_def prevented_def)
  next
    case (end_read t l b)
    then show ?thesis unfolding end_read(1) notify_all_inv
      using inv by (auto simp: rw_inv_def release_read_def size_remove split: if_splits)
  next
    case (start_write w now ns r l)
    have "rw_inv (after_write r w (s\<lparr>lock := l, write_waiters := write_waiters s\<rparr>))"
      using inv by (intro write_region_inv [OF _ start_write(3) [unfolded acquire_write_def], where w' = w])
        (auto simp: rw_inv_def)
    then show ?thesis using start_write(1) by simp
  next
    case (wake_write w now ns r l)
    have "s\<lparr>lock := lock s, write_waiters := add_mset w (write_waiters s - {#w#})\<rparr> = s"
      using wake_write(2) by simp
    then show ?thesis unfolding wake_write(1) using inv
      by (intro write_region_inv [OF _ wake_write(4), where w' = w]) simp
  next
    case (timeout_write w)
    then show ?thesis using inv by (auto simp: rw_inv_def write_timed_out_def prevented_def size_remove)
  next
    case (end_write t l b)
    have "size (write_holders s - {#t#}) = 0"
      using end_write(2) inv by (simp add: rw_inv_def size_Diff_singleton)
    then have "write_holders s - {#t#} = {#}" by (simp only: size_eq_0_iff_empty)
    with end_write inv show ?thesis unfolding end_write(1) notify_all_inv
      by (auto simp: rw_inv_def release_write_def split: if_splits)
  qed
qed

interpretation rwl: step_system rw_step rw_inv
  by unfold_locales (rule rw_step_inv)

text \<open>Small steps for building runs.\<close>

lemma rw_step_then: "rw_step s s' \<Longrightarrow> rw_step\<^sup>*\<^sup>* s' s'' \<Longrightarrow> rw_step\<^sup>*\<^sup>* s s''"
  by (rule converse_rtranclp_into_rtranclp)

section \<open>Properties of the lock\<close>

text \<open>C4: mutual exclusion. Whatever the threads do, readers and a writer never hold the lock together, two writers
  never do, \<open>reader_count\<close>, \<open>has_writer\<close> and \<open>writers_waiting_count\<close> tell the truth, and so a thread that
  holds the lock can release it without a \<open>RuntimeError\<close>.\<close>

theorem rw_lock_exclusion:
  "rw_step\<^sup>*\<^sup>* (rw_start wp) s \<Longrightarrow>
     (write_holders s = {#} \<or> (size (write_holders s) = 1 \<and> read_holders s = {#})) \<and>
     readers (lock s) = int (size (read_holders s)) \<and>
     (writer_active (lock s) \<longleftrightarrow> write_holders s \<noteq> {#}) \<and>
     writers_waiting (lock s) = int (size (write_waiters s)) \<and>
     (read_holders s \<noteq> {#} \<longrightarrow> release_read (lock s) \<noteq> Inl RuntimeError) \<and>
     (write_holders s \<noteq> {#} \<longrightarrow> release_write (lock s) \<noteq> Inl RuntimeError)"
proof -
  assume "rw_step\<^sup>*\<^sup>* (rw_start wp) s"
  then have inv: "rw_inv s" by (rule rwl.reach_inv [OF _ rw_start_inv])
  then have "read_holders s \<noteq> {#} \<Longrightarrow> 0 < readers (lock s)"
    by (simp add: rw_inv_def nonempty_has_size)
  with inv show ?thesis
    by (auto simp: rw_inv_def release_read_def release_write_def le_Suc_eq)
qed

theorem rw_lock_exclusion_witness:
  "\<exists>s. rw_step\<^sup>*\<^sup>* (rw_start True) s \<and> write_holders s = {#7#} \<and> read_holders s = {#}"
proof -
  let ?w = "\<lparr>w_tid = 7, w_start = 0, w_deadline = 5, w_notified = False\<rparr>"
  obtain r l where a: "acquire_write (w_deadline ?w) 0 (0 - w_start ?w) (lock (rw_start True)) = (r, l)" by fastforce
  have r: "r = Got True" using a
    by (simp add: acquire_write_def write_loop_def rw_start_def rwlock_init_def)
  have "rw_step (rw_start True) (after_write r ?w ((rw_start True)\<lparr>lock := l\<rparr>))"
    by (rule rw_step.start_write [OF _ a]) (simp add: waits_def rw_start_def)
  then have run: "rw_step\<^sup>*\<^sup>* (rw_start True) (after_write r ?w ((rw_start True)\<lparr>lock := l\<rparr>))" by blast
  moreover have w: "write_holders (after_write r ?w ((rw_start True)\<lparr>lock := l\<rparr>)) = {#7#}"
    by (simp add: r rw_start_def)
  ultimately show ?thesis using rw_lock_exclusion [OF run] by auto
qed

text \<open>A call of thread \<open>t\<close> that started at 0 and may wait until 5.\<close>

abbreviation call :: "nat \<Rightarrow> waiter" where
  "call t \<equiv> \<lparr>w_tid = t, w_start = 0, w_deadline = 5, w_notified = False\<rparr>"

text \<open>The state in which thread \<open>t\<close> reads and thread 2 waits to write.\<close>

definition reader_and_waiting_writer :: "nat \<Rightarrow> int \<Rightarrow> rw_sys \<Rightarrow> bool" where
  "reader_and_waiting_writer t n s \<longleftrightarrow>
     readers (lock s) = 1 \<and> writers_waiting (lock s) = 1 \<and> \<not> writer_active (lock s) \<and>
     total_read_locks (stats (lock s)) = n \<and> read_waiters s = {#} \<and> write_waiters s = {#call 2#} \<and>
     read_holders s = {#t#} \<and> write_holders s = {#}"

lemma acquire_read_beside_reader:
  "acquire_read d now wt l = (r, l') \<Longrightarrow> 0 < readers l \<Longrightarrow> \<not> writer_active l \<Longrightarrow>
     r = Got True \<and> readers l' = readers l + 1 \<and> writers_waiting l' = writers_waiting l \<and> \<not> writer_active l' \<and>
     total_read_locks (stats l') = total_read_locks (stats l) + 1"
  by (auto simp: acquire_read_def read_loop_def read_blocked_def split: if_splits)

lemma hand_over:
  assumes s: "reader_and_waiting_writer t n s" and t: "t \<noteq> 2" "t' \<noteq> 2" "t \<noteq> t'"
  shows "\<exists>s'. rw_step\<^sup>*\<^sup>* s s' \<and> reader_and_waiting_writer t' (n + 1) s'"
proof -
  obtain r l where a: "acquire_read (w_deadline (call t')) 0 (0 - w_start (call t')) (lock s) = (r, l)" by fastforce
  have l: "r = Got True" "readers l = 2" "writers_waiting l = 1" "\<not> writer_active l" "total_read_locks (stats l) = n + 1"
    using s acquire_read_beside_reader [OF a] by (auto simp: reader_and_waiting_writer_def)
  let ?s1 = "after_read r (call t') (s\<lparr>lock := l\<rparr>)"
  have nw: "\<not> waits u s" "\<not> waits u ?s1" if "u \<noteq> 2" for u
    using s that by (auto simp: waits_def reader_and_waiting_writer_def l(1))
  have 1: "rw_step s ?s1" by (rule rw_step.start_read [OF _ a]) (simp add: nw t)
  let ?s2 = "notify_all False (?s1\<lparr>lock := l\<lparr>readers := 1\<rparr>, read_holders := read_holders ?s1 - {#t#}\<rparr>)"
  have 2: "rw_step ?s1 ?s2"
    using s t l nw(2) [OF t(1)]
    by (intro rw_step.end_read) (auto simp: release_read_def reader_and_waiting_writer_def)
  have "reader_and_waiting_writer t' (n + 1) ?s2"
    using s t l by (auto simp: reader_and_waiting_writer_def notify_all_def)
  with 1 2 show ?thesis by (meson rtranclp.rtrancl_refl rw_step_then)
qed

lemma hand_over_many:
  "reader_and_waiting_writer t n s \<Longrightarrow> t \<in> {0, 1} \<Longrightarrow>
     \<exists>s' t'. rw_step\<^sup>*\<^sup>* s s' \<and> reader_and_waiting_writer t' (n + int k) s' \<and> t' \<in> {0, 1}"
proof (induction k arbitrary: t n s)
  case (Suc k)
  obtain s1 where s1: "rw_step\<^sup>*\<^sup>* s s1" "reader_and_waiting_writer (1 - t) (n + 1) s1"
    using hand_over [OF Suc.prems(1), of "1 - t"] Suc.prems(2) by auto
  moreover have "1 - t \<in> {0, 1}" using Suc.prems(2) by auto
  then obtain s' t' where "rw_step\<^sup>*\<^sup>* s1 s'" "reader_and_waiting_writer t' (n + 1 + int k) s'" "t' \<in> {0, 1}"
    using Suc.IH [OF s1(2)] by blast
  moreover have "n + 1 + int k = n + int (Suc k)" by simp
  ultimately show ?case by (metis rtranclp_trans)
qed (auto)

lemma writer_waits_state:
  "\<exists>s. rw_step\<^sup>*\<^sup>* (rw_start True) s \<and> reader_and_waiting_writer 0 1 s"
proof -
  let ?s = "rw_start True"
  obtain r l where a: "acquire_read (w_deadline (call 0)) 0 (0 - w_start (call 0)) (lock ?s) = (r, l)" by fastforce
  have l: "r = Got True" "readers l = 1" "writers_waiting l = 0" "\<not> writer_active l" "total_read_locks (stats l) = 1"
    using a by (auto simp: rw_start_def rwlock_init_def acquire_read_def read_loop_def read_blocked_def new_lock_stats_def)
  let ?s1 = "after_read r (call 0) (?s\<lparr>lock := l\<rparr>)"
  have 1: "rw_step ?s ?s1" by (rule rw_step.start_read [OF _ a]) (simp add: waits_def rw_start_def)
  obtain r' l' where b: "acquire_write (w_deadline (call 2)) 0 (0 - w_start (call 2)) (lock ?s1) = (r', l')" by fastforce
  have l': "r' = Waiting" "readers l' = 1" "writers_waiting l' = 1" "\<not> writer_active l'" "total_read_locks (stats l') = 1"
    using b l by (auto simp: acquire_write_def write_loop_def fsub_def)
  have 2: "rw_step ?s1 (after_write r' (call 2) (?s1\<lparr>lock := l'\<rparr>))"
    by (rule rw_step.start_write [OF _ b]) (simp add: waits_def rw_start_def l)
  have "reader_and_waiting_writer 0 1 (after_write r' (call 2) (?s1\<lparr>lock := l'\<rparr>))"
    by (simp add: reader_and_waiting_writer_def l l' rw_start_def)
  with 1 2 show ?thesis by (meson rtranclp.rtrancl_refl rw_step_then)
qed

lemma after_region_lock [simp]: "lock (after_read r w s) = lock s" "lock (after_write r w s) = lock s"
  by (cases r; cases "r = Got True"; auto elim: after_read.elims after_write.elims)+

lemma writer_preference_stays: "rw_step\<^sup>*\<^sup>* (rw_start wp) s \<Longrightarrow> writer_preference (lock s) = wp"
proof (induction rule: rtranclp_induct)
  case (step s s')
  from step(2,3) show ?case
    by cases (auto simp: acquire_read_def read_loop_def acquire_write_def write_loop_def prevented_def read_timed_out_def
        write_timed_out_def release_read_def release_write_def notify_all_def split: if_splits)
qed (simp add: rw_start_def rwlock_init_def)

text \<open>writer preference does not keep readers out. With \<open>writer_preference\<close> on, a state is reachable in which a
  writer waits, and from there two readers who hand the lock over to each other can take any number of
  further read locks while that writer sits in the same \<open>wait\<close>, never even notified: the guard of
  \<open>acquire_read\<close> lets waiting writers block a new reader only when nobody is reading.\<close>

theorem writer_preference_starves_writer:
  "\<exists>s. rw_step\<^sup>*\<^sup>* (rw_start True) s \<and> write_waiters s = {#call 2#} \<and>
     (\<forall>k. \<exists>s'. rw_step\<^sup>*\<^sup>* s s' \<and> write_waiters s' = {#call 2#} \<and> write_holders s' = {#} \<and>
        total_read_locks (stats (lock s')) = total_read_locks (stats (lock s)) + int k)"
proof -
  obtain s where s: "rw_step\<^sup>*\<^sup>* (rw_start True) s" "reader_and_waiting_writer 0 1 s"
    using writer_waits_state by blast
  have "\<exists>s'. rw_step\<^sup>*\<^sup>* s s' \<and> write_waiters s' = {#call 2#} \<and> write_holders s' = {#} \<and>
        total_read_locks (stats (lock s')) = total_read_locks (stats (lock s)) + int k" for k
    using hand_over_many [OF s(2), of k] s(2) by (auto simp: reader_and_waiting_writer_def)
  with s show ?thesis by (auto simp: reader_and_waiting_writer_def)
qed

text \<open>a writer that gives up can leave a reader asleep on a free lock. Reachable: nobody holds the lock, no
  writer waits, the guard of \<open>acquire_read\<close> is open, and a reader is in \<open>wait\<close> without having been
  notified, so that only its own timeout ends its call, with \<open>False\<close>. The writer's timeout lowers
  \<open>_writers_waiting\<close>, which the reader was waiting for, without a notify.\<close>

theorem reader_sleeps_on_free_lock:
  "\<exists>s w. rw_step\<^sup>*\<^sup>* (rw_start True) s \<and> read_holders s = {#} \<and> write_holders s = {#} \<and>
     write_waiters s = {#} \<and> read_waiters s = {#w#} \<and> \<not> w_notified w \<and> \<not> read_blocked (lock s)"
proof -
  obtain s where s: "rw_step\<^sup>*\<^sup>* (rw_start True) s" "reader_and_waiting_writer 0 1 s"
    using writer_waits_state by blast
  let ?s1 = "notify_all True (s\<lparr>lock := (lock s)\<lparr>readers := 0\<rparr>, read_holders := read_holders s - {#0#}\<rparr>)"
  have 1: "rw_step s ?s1"
    using s(2) by (intro rw_step.end_read) (auto simp: release_read_def reader_and_waiting_writer_def waits_def)
  have s1: "readers (lock ?s1) = 0" "writers_waiting (lock ?s1) = 1" "\<not> writer_active (lock ?s1)"
    "read_holders ?s1 = {#}" "write_holders ?s1 = {#}" "read_waiters ?s1 = {#}"
    "write_waiters ?s1 = {#(call 2)\<lparr>w_notified := True\<rparr>#}"
    "writer_preference (lock ?s1) = writer_preference (lock s)"
    using s(2) by (simp_all add: reader_and_waiting_writer_def notify_all_def)
  have wp: "writer_preference (lock s)" using writer_preference_stays [OF s(1)] by simp
  obtain r l where a: "acquire_read (w_deadline (call 1)) 0 (0 - w_start (call 1)) (lock ?s1) = (r, l)" by fastforce
  have l: "r = Waiting" "readers l = 0" "writers_waiting l = 1" "\<not> writer_active l"
    using a s1 wp by (auto simp: acquire_read_def read_loop_def read_blocked_def fsub_def split: if_splits)
  let ?s2 = "after_read r (call 1) (?s1\<lparr>lock := l\<rparr>)"
  have 2: "rw_step ?s1 ?s2" by (rule rw_step.start_read [OF _ a]) (simp add: waits_def s1)
  let ?w = "(call 2)\<lparr>w_notified := True\<rparr>"
  let ?s3 = "?s2\<lparr>lock := write_timed_out (lock ?s2), write_waiters := write_waiters ?s2 - {#?w#}\<rparr>"
  have 3: "rw_step ?s2 ?s3" using s1 by (intro rw_step.timeout_write) (simp add: l)
  have "rw_step\<^sup>*\<^sup>* (rw_start True) ?s3" using s(1) 1 2 3 by (meson rtranclp.rtrancl_into_rtrancl)
  moreover have "read_holders ?s3 = {#} \<and> write_holders ?s3 = {#} \<and> write_waiters ?s3 = {#} \<and>
     read_waiters ?s3 = {#call 1#} \<and> \<not> read_blocked (lock ?s3)"
    using s1 l by (simp add: read_blocked_def write_timed_out_def prevented_def)
  ultimately show ?thesis by (intro exI [of _ ?s3] exI [of _ "call 1"]) simp
qed

section \<open>The reentrant lock\<close>

text \<open>\<open>ReentrantRWLock\<close> in calls that run to their end or to a \<open>wait\<close>; \<open>tid\<close> is \<open>threading.get_ident()\<close>. When a
  call waits, \<open>re_read_return\<close> is what follows once the inherited method has returned.\<close>

record rerwlock = rwlock +
  reader_threads :: "(int, int) dict"
  writer_thread :: "int option"

definition rerwlock_init :: "bool \<Rightarrow> rerwlock" where
  "rerwlock_init wp = rwlock.extend (rwlock_init wp) \<lparr>reader_threads = [], writer_thread = None\<rparr>"

definition re_read_return :: "int \<Rightarrow> region \<times> rerwlock \<Rightarrow> region \<times> rerwlock" where
  "re_read_return tid p =
     (case p of (Got True, l) \<Rightarrow> (Got True, l\<lparr>reader_threads := dict_set tid 1 (reader_threads l)\<rparr>) | (r, l) \<Rightarrow> (r, l))"

definition re_acquire_read ::
    "int \<Rightarrow> pyfloat \<Rightarrow> pyfloat \<Rightarrow> int \<Rightarrow> rerwlock \<Rightarrow> exn + region \<times> rerwlock" where
  "re_acquire_read tid deadline now wait_time l =
     (case dict_get (reader_threads l) tid of
        Some n \<Rightarrow> Inr (Got True, l\<lparr>reader_threads := dict_set tid (n + 1) (reader_threads l),
                    stats := (stats l)\<lparr>total_read_locks := total_read_locks (stats l) + 1\<rparr>\<rparr>)
      | None \<Rightarrow>
          if writer_thread l = Some tid then Inl RuntimeError
          else Inr (re_read_return tid (acquire_read deadline now wait_time l)))"

definition re_release_read :: "int \<Rightarrow> rerwlock \<Rightarrow> exn + rerwlock \<times> bool" where
  "re_release_read tid l =
     (case dict_get (reader_threads l) tid of
        None \<Rightarrow> Inl RuntimeError
      | Some n \<Rightarrow>
          let l1 = l\<lparr>reader_threads := dict_set tid (n - 1) (reader_threads l),
                     stats := (stats l)\<lparr>total_read_locks := total_read_locks (stats l) - 1\<rparr>\<rparr>;
              l2 = (if n - 1 = 0 then l1\<lparr>reader_threads := dict_pop tid (reader_threads l1)\<rparr> else l1)
          in Inr (if readers l2 > 0 then (l2\<lparr>readers := readers l2 - 1\<rparr>, readers l2 - 1 = 0) else (l2, False)))"

definition re_write_return :: "int \<Rightarrow> region \<times> rerwlock \<Rightarrow> region \<times> rerwlock" where
  "re_write_return tid p =
     (case p of (Got True, l) \<Rightarrow> (Got True, l\<lparr>writer_thread := Some tid\<rparr>) | (r, l) \<Rightarrow> (r, l))"

definition re_acquire_write ::
    "int \<Rightarrow> pyfloat \<Rightarrow> pyfloat \<Rightarrow> int \<Rightarrow> rerwlock \<Rightarrow> exn + region \<times> rerwlock" where
  "re_acquire_write tid deadline now wait_time l =
     (if writer_thread l = Some tid then Inl RuntimeError
      else Inr (re_write_return tid (acquire_write deadline now wait_time l)))"

definition re_release_write :: "int \<Rightarrow> rerwlock \<Rightarrow> exn + rerwlock \<times> bool" where
  "re_release_write tid l =
     (if writer_thread l \<noteq> Some tid then Inl RuntimeError
      else release_write (l\<lparr>writer_thread := None\<rparr>))"

text \<open>reentrant use breaks the exclusion. A thread that takes the read lock twice, in a lock nobody uses, and
  releases it once still holds it by the lock's own books (one entry in \<open>_reader_threads\<close>), but the reader
  count is back to 0, because re-entering does not raise it and every release lowers it: a writer gets in
  at once.\<close>

theorem reentrant_read_lets_writer_in:
  assumes "readers l = 0" "writers_waiting l = 0" "\<not> writer_active l" "writer_thread l = None"
    "dict_get (reader_threads l) t = None" "t \<noteq> u"
  shows "\<exists>l1 l2 l3 l4 b. re_acquire_read t d1 n1 w1 l = Inr (Got True, l1) \<and>
     re_acquire_read t d2 n2 w2 l1 = Inr (Got True, l2) \<and> re_release_read t l2 = Inr (l3, b) \<and>
     dict_get (reader_threads l3) t = Some 1 \<and> readers l3 = 0 \<and>
     re_acquire_write u d3 n3 w3 l3 = Inr (Got True, l4) \<and> writer_active l4 \<and>
     dict_get (reader_threads l4) t = Some 1"
  using assms
  by (simp add: re_acquire_read_def re_read_return_def acquire_read_def read_loop_def read_blocked_def
      re_release_read_def re_acquire_write_def re_write_return_def acquire_write_def write_loop_def dict_get_set Let_def)
    blast

theorem reentrant_read_lets_writer_in_witness:
  "\<exists>l1 l2 l3 l4 b. re_acquire_read 1 5 0 0 (rerwlock_init True) = Inr (Got True, l1) \<and>
     re_acquire_read 1 5 0 0 l1 = Inr (Got True, l2) \<and> re_release_read 1 l2 = Inr (l3, b) \<and>
     re_acquire_write 2 5 0 0 l3 = Inr (Got True, l4) \<and> dict_get (reader_threads l4) 1 = Some 1"
proof -
  have "readers (rerwlock_init True) = 0" "writers_waiting (rerwlock_init True) = 0"
    "\<not> writer_active (rerwlock_init True)" "writer_thread (rerwlock_init True) = None"
    "dict_get (reader_threads (rerwlock_init True)) 1 = None"
    by (simp_all add: rerwlock_init_def rwlock_init_def rwlock.defs)
  from reentrant_read_lets_writer_in [OF this, of 2 5 0 0 5 0 0 5 0 0] show ?thesis by auto
qed

section \<open>The cache\<close>

record 'v entry =
  entry_value :: 'v
  created_at_ns :: int
  last_accessed_ns :: int
  access_count :: int
  expires_at_ns :: "int option"

definition is_expired :: "int \<Rightarrow> 'v entry \<Rightarrow> bool" where
  "is_expired now e = (case expires_at_ns e of None \<Rightarrow> False | Some x \<Rightarrow> now > x)"

record ('k, 'v) cache =
  entries :: "('k, 'v entry) dict"
  cache_lock :: rerwlock
  max_size :: int
  default_ttl_ns :: int

definition cache_init :: "int \<Rightarrow> pyfloat \<Rightarrow> bool \<Rightarrow> ('k, 'v) cache" where
  "cache_init ms ttl wp = \<lparr>entries = [], cache_lock = rerwlock_init wp, max_size = ms,
     default_ttl_ns = int_of_float (fmul ttl (10 ^ 9))\<rparr>"

text \<open>The clock of a call: the time its lock acquisition took, and the readings of \<open>time_ns\<close> its body
  makes, in order. The calling thread is \<open>tid\<close>; with nobody else running, a \<open>wait\<close> can only time out.\<close>

record clock =
  ck_tid :: int
  ck_wait :: int
  ck_ns :: "nat \<Rightarrow> int"

definition with_read_lock :: "clock \<Rightarrow> (('k, 'v) cache \<Rightarrow> 'a \<times> ('k, 'v) cache) \<Rightarrow> ('k, 'v) cache \<Rightarrow> (exn + 'a) \<times> ('k, 'v) cache" where
  "with_read_lock ck body c =
     (case re_acquire_read (ck_tid ck) 1 0 (ck_wait ck) (cache_lock c) of
        Inl e \<Rightarrow> (Inl e, c)
      | Inr (Waiting, l) \<Rightarrow> (Inl TimeoutError, c\<lparr>cache_lock := read_timed_out l\<rparr>)
      | Inr (Got False, l) \<Rightarrow> (Inl TimeoutError, c\<lparr>cache_lock := l\<rparr>)
      | Inr (Got True, l) \<Rightarrow>
          (case body (c\<lparr>cache_lock := l\<rparr>) of
             (x, c') \<Rightarrow> (case re_release_read (ck_tid ck) (cache_lock c') of
                          Inl e \<Rightarrow> (Inl e, c') | Inr (l', b) \<Rightarrow> (Inr x, c'\<lparr>cache_lock := l'\<rparr>))))"

definition with_write_lock :: "clock \<Rightarrow> (('k, 'v) cache \<Rightarrow> 'a \<times> ('k, 'v) cache) \<Rightarrow> ('k, 'v) cache \<Rightarrow> (exn + 'a) \<times> ('k, 'v) cache" where
  "with_write_lock ck body c =
     (case re_acquire_write (ck_tid ck) 1 0 (ck_wait ck) (cache_lock c) of
        Inl e \<Rightarrow> (Inl e, c)
      | Inr (Waiting, l) \<Rightarrow> (Inl TimeoutError, c\<lparr>cache_lock := write_timed_out l\<rparr>)
      | Inr (Got False, l) \<Rightarrow> (Inl TimeoutError, c\<lparr>cache_lock := l\<rparr>)
      | Inr (Got True, l) \<Rightarrow>
          (case body (c\<lparr>cache_lock := l\<rparr>) of
             (x, c') \<Rightarrow> (case re_release_write (ck_tid ck) (cache_lock c') of
                          Inl e \<Rightarrow> (Inl e, c') | Inr (l', b) \<Rightarrow> (Inr x, c'\<lparr>cache_lock := l'\<rparr>))))"

definition get_body :: "(nat \<Rightarrow> int) \<Rightarrow> 'k \<Rightarrow> ('k, 'v) cache \<Rightarrow> 'v option \<times> ('k, 'v) cache" where
  "get_body ns k c =
     (case dict_get (entries c) k of
        None \<Rightarrow> (None, c)
      | Some e \<Rightarrow>
          if is_expired (ns 0) e then (None, c)
          else (Some (entry_value e),
                c\<lparr>entries := dict_set k
                    (e\<lparr>last_accessed_ns := ns (if expires_at_ns e = None then 0 else 1),
                       access_count := access_count e + 1\<rparr>) (entries c)\<rparr>))"

definition cache_get :: "clock \<Rightarrow> 'k \<Rightarrow> ('k, 'v) cache \<Rightarrow> (exn + 'v option) \<times> ('k, 'v) cache" where
  "cache_get ck k = with_read_lock ck (get_body (ck_ns ck) k)"

text \<open>The scan of \<open>_evict_one\<close>: the first expired entry, else the least recently accessed one. A reading is
  made for each entry that has an expiry; \<open>None\<close> as the oldest access stands for \<open>inf\<close>.\<close>

fun evict_scan :: "(nat \<Rightarrow> int) \<Rightarrow> nat \<Rightarrow> ('k, 'v entry) dict \<Rightarrow> 'k option \<Rightarrow> int option \<Rightarrow> 'k option" where
  "evict_scan ns i [] oldest_key oldest_access = oldest_key"
| "evict_scan ns i ((k, e) # es) oldest_key oldest_access =
     (if is_expired (ns i) e then Some k
      else let i' = (if expires_at_ns e = None then i else Suc i) in
           if (case oldest_access of None \<Rightarrow> True | Some a \<Rightarrow> last_accessed_ns e < a)
           then evict_scan ns i' es (Some k) (Some (last_accessed_ns e))
           else evict_scan ns i' es oldest_key oldest_access)"

definition evict_one :: "(nat \<Rightarrow> int) \<Rightarrow> nat \<Rightarrow> ('k, 'v) cache \<Rightarrow> ('k, 'v) cache" where
  "evict_one ns i c =
     (case evict_scan ns i (entries c) None None of
        None \<Rightarrow> c | Some k \<Rightarrow> c\<lparr>entries := dict_pop k (entries c)\<rparr>)"

definition set_body :: "(nat \<Rightarrow> int) \<Rightarrow> int \<Rightarrow> 'k \<Rightarrow> 'v \<Rightarrow> ('k, 'v) cache \<Rightarrow> unit \<times> ('k, 'v) cache" where
  "set_body ns ttl_ns k v c =
     (let c1 = (if int (length (entries c)) \<ge> max_size c \<and> dict_get (entries c) k = None then evict_one ns 1 c else c);
          e = \<lparr>entry_value = v, created_at_ns = ns 0, last_accessed_ns = ns 0, access_count = 0,
               expires_at_ns = (if ttl_ns > 0 then Some (ns 0 + ttl_ns) else None)\<rparr>
      in ((), c1\<lparr>entries := dict_set k e (entries c1)\<rparr>))"

definition cache_set :: "clock \<Rightarrow> 'k \<Rightarrow> 'v \<Rightarrow> pyfloat option \<Rightarrow> ('k, 'v) cache \<Rightarrow> (exn + unit) \<times> ('k, 'v) cache" where
  "cache_set ck k v ttl_s c =
     (let ttl_ns = (case ttl_s of Some x \<Rightarrow> int_of_float x | None \<Rightarrow> default_ttl_ns c)
      in with_write_lock ck (set_body (ck_ns ck) ttl_ns k v) c)"

definition delete_body :: "'k \<Rightarrow> ('k, 'v) cache \<Rightarrow> bool \<times> ('k, 'v) cache" where
  "delete_body k c =
     (if dict_get (entries c) k \<noteq> None then (True, c\<lparr>entries := dict_pop k (entries c)\<rparr>) else (False, c))"

definition cache_delete :: "clock \<Rightarrow> 'k \<Rightarrow> ('k, 'v) cache \<Rightarrow> (exn + bool) \<times> ('k, 'v) cache" where
  "cache_delete ck k = with_write_lock ck (delete_body k)"

fun expired_keys :: "(nat \<Rightarrow> int) \<Rightarrow> nat \<Rightarrow> ('k, 'v entry) dict \<Rightarrow> 'k list" where
  "expired_keys ns i [] = []"
| "expired_keys ns i ((k, e) # es) =
     (if is_expired (ns i) e then [k] else []) @ expired_keys ns (if expires_at_ns e = None then i else Suc i) es"

definition clear_body :: "(nat \<Rightarrow> int) \<Rightarrow> ('k, 'v) cache \<Rightarrow> int \<times> ('k, 'v) cache" where
  "clear_body ns c =
     (let ks = expired_keys ns 0 (entries c)
      in (int (length ks), c\<lparr>entries := fold dict_pop ks (entries c)\<rparr>))"

definition clear_expired :: "clock \<Rightarrow> ('k, 'v) cache \<Rightarrow> (exn + int) \<times> ('k, 'v) cache" where
  "clear_expired ck = with_write_lock ck (clear_body (ck_ns ck))"

definition size_body :: "('k, 'v) cache \<Rightarrow> int \<times> ('k, 'v) cache" where
  "size_body c = (int (length (entries c)), c)"

definition cache_size :: "clock \<Rightarrow> ('k, 'v) cache \<Rightarrow> (exn + int) \<times> ('k, 'v) cache" where
  "cache_size ck = with_read_lock ck size_body"

text \<open>\<open>get_stats\<close>: size, maximal size, read locks, write locks, contention events.\<close>

definition stats_body :: "('k, 'v) cache \<Rightarrow> (int \<times> int \<times> int \<times> int \<times> int) \<times> ('k, 'v) cache" where
  "stats_body c =
     (let st = stats (cache_lock c)
      in ((int (length (entries c)), max_size c, total_read_locks st, total_write_locks st, contention_events st), c))"

definition cache_get_stats :: "clock \<Rightarrow> ('k, 'v) cache \<Rightarrow> (exn + int \<times> int \<times> int \<times> int \<times> int) \<times> ('k, 'v) cache" where
  "cache_get_stats ck = with_read_lock ck stats_body"

datatype ('k, 'v) cache_op =
    Op_Get clock 'k
  | Op_Set clock 'k 'v "pyfloat option"
  | Op_Delete clock 'k
  | Op_Clear_Expired clock
  | Op_Size clock
  | Op_Get_Stats clock

fun cache_step :: "('k, 'v) cache_op \<Rightarrow> ('k, 'v) cache \<Rightarrow> ('k, 'v) cache" where
  "cache_step (Op_Get ck k) c = snd (cache_get ck k c)"
| "cache_step (Op_Set ck k v ttl) c = snd (cache_set ck k v ttl c)"
| "cache_step (Op_Delete ck k) c = snd (cache_delete ck k c)"
| "cache_step (Op_Clear_Expired ck) c = snd (clear_expired ck c)"
| "cache_step (Op_Size ck) c = snd (cache_size ck c)"
| "cache_step (Op_Get_Stats ck) c = snd (cache_get_stats ck c)"

text \<open>Between calls the lock is idle; a call on an idle lock runs its body and leaves the lock idle.\<close>

definition lock_idle :: "rerwlock \<Rightarrow> bool" where
  "lock_idle l \<longleftrightarrow> readers l = 0 \<and> writers_waiting l = 0 \<and> \<not> writer_active l \<and> reader_threads l = [] \<and>
     writer_thread l = None \<and> total_read_locks (stats l) = 0"

lemma read_lock_idle:
  assumes "lock_idle (cache_lock c)" "\<And>c. cache_lock (snd (body c)) = cache_lock c"
  shows "\<exists>l l'. with_read_lock ck body c =
      (Inr (fst (body (c\<lparr>cache_lock := l\<rparr>))), (snd (body (c\<lparr>cache_lock := l\<rparr>)))\<lparr>cache_lock := l'\<rparr>) \<and>
     total_read_locks (stats l) = 1 \<and> lock_idle l'"
proof -
  obtain l where a: "re_acquire_read (ck_tid ck) 1 0 (ck_wait ck) (cache_lock c) = Inr (Got True, l)"
    and l: "readers l = 1" "writers_waiting l = 0" "\<not> writer_active l" "reader_threads l = [(ck_tid ck, 1)]"
      "writer_thread l = None" "total_read_locks (stats l) = 1"
    using assms(1)
    by (simp add: lock_idle_def re_acquire_read_def re_read_return_def acquire_read_def read_loop_def read_blocked_def)
  moreover obtain l' b where "re_release_read (ck_tid ck) l = Inr (l', b)" "lock_idle l'"
    using l by (simp add: re_release_read_def lock_idle_def Let_def)
  ultimately show ?thesis
    by (intro exI [of _ l] exI [of _ l']) (simp add: with_read_lock_def assms(2) split_beta)
qed

lemma write_lock_idle:
  assumes "lock_idle (cache_lock c)" "\<And>c. cache_lock (snd (body c)) = cache_lock c"
  shows "\<exists>l l'. with_write_lock ck body c =
      (Inr (fst (body (c\<lparr>cache_lock := l\<rparr>))), (snd (body (c\<lparr>cache_lock := l\<rparr>)))\<lparr>cache_lock := l'\<rparr>) \<and>
     lock_idle l'"
proof -
  obtain l where a: "re_acquire_write (ck_tid ck) 1 0 (ck_wait ck) (cache_lock c) = Inr (Got True, l)"
    and l: "readers l = 0" "writers_waiting l = 0" "writer_active l" "reader_threads l = []"
      "writer_thread l = Some (ck_tid ck)" "total_read_locks (stats l) = 0"
    using assms(1)
    by (simp add: lock_idle_def re_acquire_write_def re_write_return_def acquire_write_def write_loop_def)
  moreover obtain l' b where "re_release_write (ck_tid ck) l = Inr (l', b)" "lock_idle l'"
    using l by (simp add: re_release_write_def release_write_def lock_idle_def)
  ultimately show ?thesis
    by (intro exI [of _ l] exI [of _ l']) (simp add: with_write_lock_def assms(2) split_beta)
qed

text \<open>The bodies leave lock and capacity alone, and keep the entries within the capacity.\<close>

lemma body_frame [simp]:
  "cache_lock (snd (get_body ns k c)) = cache_lock c" "max_size (snd (get_body ns k c)) = max_size c"
  "cache_lock (snd (set_body ns n k v c)) = cache_lock c" "max_size (snd (set_body ns n k v c)) = max_size c"
  by (simp_all add: get_body_def set_body_def evict_one_def Let_def split: option.split)

definition cache_inv :: "('k, 'v) cache \<Rightarrow> bool" where
  "cache_inv c \<longleftrightarrow> lock_idle (cache_lock c) \<and> wf_dict (entries c) \<and> int (length (entries c)) \<le> max 1 (max_size c)"

lemma cache_inv_with_lock:
  "cache_inv c \<Longrightarrow> lock_idle l' \<Longrightarrow> wf_dict es \<Longrightarrow> int (length es) \<le> max 1 (max_size c) \<Longrightarrow> max_size c' = max_size c \<Longrightarrow>
     entries c' = es \<Longrightarrow> cache_inv (c'\<lparr>cache_lock := l'\<rparr>)"
  by (simp add: cache_inv_def)

lemma evict_scan_key:
  "es \<noteq> [] \<or> ok \<noteq> None \<Longrightarrow> (oa = None) = (ok = None) \<Longrightarrow>
     \<exists>k. evict_scan ns i es ok oa = Some k \<and> (k \<in> fst ` set es \<or> ok = Some k)"
proof (induction es arbitrary: i ok oa)
  case (Cons p es)
  obtain k e where p: "p = (k, e)" by (cases p)
  have IH: "ok \<noteq> None \<Longrightarrow> oa \<noteq> None \<Longrightarrow>
      \<exists>k'. evict_scan ns j es ok oa = Some k' \<and> (k' \<in> fst ` set es \<or> ok = Some k')" for j ok oa
    using Cons.IH [of ok oa j] by auto
  show ?case
    using IH [of "Some k" "Some (last_accessed_ns e)"] IH [of ok oa] Cons.prems(2)
    by (cases oa) (force simp: p Let_def)+
qed auto

lemma evict_one_length:
  assumes "wf_dict (entries c)"
  shows "wf_dict (entries (evict_one ns i c)) \<and> length (entries (evict_one ns i c)) = length (entries c) - 1"
proof (cases "entries c = []")
  case False
  then obtain k where "evict_scan ns i (entries c) None None = Some k" "k \<in> fst ` set (entries c)"
    using evict_scan_key [of "entries c" None None ns i] by auto
  with assms show ?thesis by (simp add: evict_one_def length_dict_pop)
qed (use assms in \<open>simp add: evict_one_def\<close>)

lemma set_body_size:
  assumes "wf_dict (entries c)" "int (length (entries c)) \<le> max 1 (max_size c)"
  shows "wf_dict (entries (snd (set_body ns n k v c))) \<and>
     int (length (entries (snd (set_body ns n k v c)))) \<le> max 1 (max_size c)"
proof (cases "dict_get (entries c) k = None")
  case True
  then show ?thesis using assms evict_one_length [OF assms(1), of ns 1]
    by (auto simp: set_body_def Let_def length_dict_set)
next
  case False
  then have "k \<in> fst ` set (entries c)" by (metis map_of_eq_None_iff)
  then show ?thesis using assms False by (auto simp: set_body_def Let_def length_dict_set)
qed

lemma get_body_size:
  assumes "wf_dict (entries c)"
  shows "wf_dict (entries (snd (get_body ns k c))) \<and> length (entries (snd (get_body ns k c))) = length (entries c)"
proof (cases "dict_get (entries c) k")
  case (Some e)
  then have "k \<in> fst ` set (entries c)" by (force dest: map_of_SomeD)
  with Some assms show ?thesis by (simp add: get_body_def length_dict_set)
qed (use assms in \<open>simp add: get_body_def\<close>)

lemma fold_pop_size:
  "wf_dict d \<Longrightarrow> wf_dict (fold dict_pop ks d) \<and> length (fold dict_pop ks d) \<le> length d"
proof (induction ks arbitrary: d)
  case (Cons k ks)
  from Cons.IH [of "dict_pop k d"] Cons.prems length_dict_pop_le [of k d] show ?case by simp
qed simp

lemma pop_within: "int (length d) \<le> n \<Longrightarrow> int (length (dict_pop k d)) \<le> n"
  using length_dict_pop_le [of k d] by linarith

lemma fold_pop_within: "wf_dict d \<Longrightarrow> int (length d) \<le> n \<Longrightarrow> int (length (fold dict_pop ks d)) \<le> n"
  using fold_pop_size [of d ks] by linarith

text \<open>A body that leaves lock and capacity alone and keeps the entries within the capacity.\<close>

definition body_ok :: "(('k, 'v) cache \<Rightarrow> 'a \<times> ('k, 'v) cache) \<Rightarrow> bool" where
  "body_ok body \<longleftrightarrow>
     (\<forall>c. cache_lock (snd (body c)) = cache_lock c \<and> max_size (snd (body c)) = max_size c \<and>
        (wf_dict (entries c) \<and> int (length (entries c)) \<le> max 1 (max_size c) \<longrightarrow>
           wf_dict (entries (snd (body c))) \<and> int (length (entries (snd (body c)))) \<le> max 1 (max_size c)))"

lemma with_lock_inv:
  assumes "cache_inv c" "body_ok body"
  shows "cache_inv (snd (with_read_lock ck body c))" "cache_inv (snd (with_write_lock ck body c))"
proof -
  have idle: "lock_idle (cache_lock c)" and c: "wf_dict (entries c)" "int (length (entries c)) \<le> max 1 (max_size c)"
    using assms(1) by (auto simp: cache_inv_def)
  have frame: "cache_lock (snd (body c)) = cache_lock c" for c using assms(2) by (simp add: body_ok_def)
  have keeps: "cache_inv ((snd (body (c\<lparr>cache_lock := l\<rparr>)))\<lparr>cache_lock := l'\<rparr>)" if "lock_idle l'" for l l'
    using assms(2) [unfolded body_ok_def, rule_format, of "c\<lparr>cache_lock := l\<rparr>"] c that by (simp add: cache_inv_def)
  obtain l l' where "with_read_lock ck body c =
      (Inr (fst (body (c\<lparr>cache_lock := l\<rparr>))), (snd (body (c\<lparr>cache_lock := l\<rparr>)))\<lparr>cache_lock := l'\<rparr>)" "lock_idle l'"
    using read_lock_idle [OF idle frame] by blast
  then show "cache_inv (snd (with_read_lock ck body c))" by (simp add: keeps)
  obtain l l' where "with_write_lock ck body c =
      (Inr (fst (body (c\<lparr>cache_lock := l\<rparr>))), (snd (body (c\<lparr>cache_lock := l\<rparr>)))\<lparr>cache_lock := l'\<rparr>)" "lock_idle l'"
    using write_lock_idle [OF idle frame] by blast
  then show "cache_inv (snd (with_write_lock ck body c))" by (simp add: keeps)
qed

lemma bodies_ok:
  "body_ok (get_body ns k)" "body_ok (set_body ns n k v)" "body_ok (delete_body k)" "body_ok (clear_body ns)"
  "body_ok size_body" "body_ok stats_body"
  by (simp_all add: body_ok_def get_body_size set_body_size delete_body_def clear_body_def size_body_def stats_body_def
      Let_def fold_pop_size pop_within fold_pop_within)

lemma cache_step_inv [inv_intros]: "cache_inv c \<Longrightarrow> cache_inv (cache_step x c)"
  by (cases x)
     (simp_all add: cache_get_def cache_set_def cache_delete_def clear_expired_def cache_size_def cache_get_stats_def
       with_lock_inv bodies_ok Let_def)

interpretation rwc: op_machine cache_step cache_inv
  by unfold_locales (rule cache_step_inv)

lemma cache_init_inv: "cache_inv (cache_init ms ttl wp)"
  by (simp add: cache_inv_def cache_init_def lock_idle_def rerwlock_init_def rwlock_init_def rwlock.defs new_lock_stats_def)

section \<open>Properties of the cache\<close>

text \<open>the cache never outgrows its capacity (or one entry, when the capacity is less), whatever sequence of
  operations threads run on it one after the other, and its lock statistics report one read lock ever: each
  release of a reentrant read lock takes the acquisition out of \<open>total_read_locks\<close> again, so the figure
  counts the read lock \<open>get_stats\<close> itself holds and nothing of what was read before.\<close>

theorem cache_bounded_and_read_count_lost:
  "\<exists>w n. fst (cache_get_stats ck (fold cache_step xs (cache_init ms ttl wp))) =
     Inr (int (length (entries (fold cache_step xs (cache_init ms ttl wp)))),
          max_size (fold cache_step xs (cache_init ms ttl wp)), 1, w, n) \<and>
   int (length (entries (fold cache_step xs (cache_init ms ttl wp)))) \<le>
     max 1 (max_size (fold cache_step xs (cache_init ms ttl wp)))"
proof -
  let ?c = "fold cache_step xs (cache_init ms ttl wp)"
  have inv: "cache_inv ?c" by (rule rwc.run_inv [OF cache_init_inv])
  have frame: "cache_lock (snd (stats_body c)) = cache_lock c" for c :: "('a, 'b) cache"
    by (simp add: stats_body_def Let_def)
  obtain l l' where "with_read_lock ck stats_body ?c =
      (Inr (fst (stats_body (?c\<lparr>cache_lock := l\<rparr>))), (snd (stats_body (?c\<lparr>cache_lock := l\<rparr>)))\<lparr>cache_lock := l'\<rparr>)"
    "total_read_locks (stats l) = 1"
    using read_lock_idle [where body = stats_body and c = ?c and ck = ck, OF _ frame] inv by (auto simp: cache_inv_def)
  with inv show ?thesis by (simp add: cache_get_stats_def stats_body_def Let_def cache_inv_def)
qed

text \<open>a time to live given in seconds is counted in nanoseconds. After \<open>set(k, v, ttl_s)\<close> at clock \<open>n\<close>, a
  \<open>get(k)\<close> at clock \<open>t\<close> returns \<open>v\<close> when \<open>int(ttl_s)\<close> is not positive (for ever: 0.5 seconds never expires)
  or \<open>t <= n + int(ttl_s)\<close>, and nothing otherwise: 60 seconds are over after 60 nanoseconds.\<close>

theorem cache_ttl_in_nanoseconds:
  assumes "c = fold cache_step xs (cache_init ms ttl wp)" "cache_set ck k v (Some ttl_s) c = (r, c')"
  shows "r = Inr () \<and>
     fst (cache_get ck' k c') =
       Inr (if int_of_float ttl_s \<le> 0 \<or> ck_ns ck' 0 \<le> ck_ns ck 0 + int_of_float ttl_s then Some v else None)"
proof -
  have inv: "cache_inv c" unfolding assms(1) by (rule rwc.run_inv [OF cache_init_inv])
  then have "lock_idle (cache_lock c)" by (simp add: cache_inv_def)
  then obtain l l' where s: "cache_set ck k v (Some ttl_s) c =
      (Inr (), (snd (set_body (ck_ns ck) (int_of_float ttl_s) k v (c\<lparr>cache_lock := l\<rparr>)))\<lparr>cache_lock := l'\<rparr>)" "lock_idle l'"
    using write_lock_idle [of c "set_body (ck_ns ck) (int_of_float ttl_s) k v" ck] by (auto simp: cache_set_def)
  have e: "dict_get (entries c') k = Some \<lparr>entry_value = v, created_at_ns = ck_ns ck 0, last_accessed_ns = ck_ns ck 0,
      access_count = 0, expires_at_ns = (if int_of_float ttl_s > 0 then Some (ck_ns ck 0 + int_of_float ttl_s) else None)\<rparr>"
    using s(1) assms(2) by (auto simp: set_body_def Let_def dict_get_set)
  have "lock_idle (cache_lock c')" using s assms(2) by auto
  then obtain m m' where "cache_get ck' k c' =
      (Inr (fst (get_body (ck_ns ck') k (c'\<lparr>cache_lock := m\<rparr>))), (snd (get_body (ck_ns ck') k (c'\<lparr>cache_lock := m\<rparr>)))\<lparr>cache_lock := m'\<rparr>)"
    using read_lock_idle [of c' "get_body (ck_ns ck') k" ck'] by (auto simp: cache_get_def)
  then show ?thesis using s(1) assms(2) e by (auto simp: get_body_def is_expired_def)
qed

theorem cache_ttl_in_nanoseconds_witness:
  "\<exists>c'. cache_set \<lparr>ck_tid = 1, ck_wait = 0, ck_ns = \<lambda>_. 1000\<rparr> ''BTC'' (5 :: int) (Some 60) (cache_init 10 60 True) = (Inr (), c') \<and>
     fst (cache_get \<lparr>ck_tid = 1, ck_wait = 0, ck_ns = \<lambda>_. 1060\<rparr> ''BTC'' c') = Inr (Some 5) \<and>
     fst (cache_get \<lparr>ck_tid = 1, ck_wait = 0, ck_ns = \<lambda>_. 1061\<rparr> ''BTC'' c') = Inr None"
proof -
  let ?k = "\<lambda>t. \<lparr>ck_tid = 1, ck_wait = 0, ck_ns = \<lambda>_. t\<rparr>"
  obtain r c' where s: "cache_set (?k 1000) ''BTC'' (5 :: int) (Some 60) (cache_init 10 60 True) = (r, c')" by fastforce
  have c: "cache_init 10 60 True = fold cache_step [] (cache_init 10 60 True)" by simp
  from cache_ttl_in_nanoseconds [OF c s, of "?k 1060"] cache_ttl_in_nanoseconds [OF c s, of "?k 1061"] s
  show ?thesis by simp
qed

end
