(* ===== verification/Reconciliation.thy ===== *)
theory Reconciliation
  imports Prelude "HOL-Library.List_Lexorder" "HOL-Library.Char_ord"
begin

text \<open>
  \<open>backend/oms/reconciliation_engine.py\<close>: the check of the order manager's picture of orders, positions and
  balances against the exchange's, and the automatic flattening of positions. The exchange adapter is an
  abstract class in the code: a record of functions over the exchange's state here, whose calls may
  raise; the contract a client may rely on is the locale \<open>exchange_contract\<close>, interpreted for the mock
  adapter the module has. Clock readings in milliseconds are arguments; \<open>ord\<close> lists a set in the order
  Python iterates it. Descriptions are the values they are formatted from.
\<close>

section \<open>Snapshots\<close>

datatype ReconciliationStatus = MATCHED | MINOR_DRIFT | MAJOR_DRIFT | FATAL_DESYNC | UNABLE_TO_VERIFY

datatype DesyncType =
    MISSING_ORDER | EXTRA_ORDER | STATE_MISMATCH | SIZE_MISMATCH | PRICE_MISMATCH | POSITION_MISMATCH
  | BALANCE_MISMATCH

record OrderSnapshot =
  os_id :: string
  os_symbol :: string
  os_side :: string
  os_type :: string
  os_size :: pyfloat
  os_filled :: pyfloat
  os_price :: "pyfloat option"
  os_status :: string
  os_timestamp :: int

definition matches_state :: "OrderSnapshot \<Rightarrow> OrderSnapshot \<Rightarrow> bool" where
  "matches_state a b \<longleftrightarrow>
     os_symbol a = os_symbol b \<and> os_side a = os_side b \<and> os_status a = os_status b \<and>
     \<bar>fsub (os_size a) (os_size b)\<bar> < fl (1 / 10000) \<and> \<bar>fsub (os_filled a) (os_filled b)\<bar> < fl (1 / 10000)"

record PositionSnapshot =
  ps_symbol :: string
  ps_side :: string
  ps_size :: pyfloat
  ps_entry_price :: pyfloat
  ps_unrealized_pnl :: pyfloat
  ps_timestamp :: int

record BalanceSnapshot =
  bs_asset :: string
  bs_free :: pyfloat
  bs_locked :: pyfloat
  bs_total :: pyfloat
  bs_timestamp :: int

datatype severity = LOW | MEDIUM | HIGH | CRITICAL

datatype drift_value = No_Value | Order_Value OrderSnapshot | State_Value string pyfloat | Size_Value pyfloat

datatype description =
    In_OMS_Only string
  | On_Exchange_Only string
  | Order_State string
  | Position_Of string pyfloat pyfloat
  | Balance_Of string pyfloat pyfloat
  | Error_Raised exn
  | Flatten_Triggered nat

record DriftRecord =
  desync_type :: DesyncType
  drift_severity :: severity
  drift_description :: description
  oms_value :: drift_value
  exchange_value :: drift_value
  drift_timestamp :: int
  resolved :: bool

record ReconciliationResult =
  result_status :: ReconciliationStatus
  result_timestamp :: int
  oms_order_count :: int
  exchange_order_count :: int
  drifts :: "DriftRecord list"
  action_taken :: "nat option"
  latency_ms :: pyfloat

record ReconciliationConfig =
  check_interval_ms :: int
  full_reconcile_interval_s :: int
  minor_drift_threshold :: int
  major_drift_threshold :: int
  auto_flatten_on_fatal :: bool
  max_drift_history :: int
  position_tolerance :: pyfloat
  balance_tolerance :: pyfloat

definition default_config :: ReconciliationConfig where
  "default_config = \<lparr>check_interval_ms = 1000, full_reconcile_interval_s = 60, minor_drift_threshold = 2,
     major_drift_threshold = 5, auto_flatten_on_fatal = True, max_drift_history = 1000,
     position_tolerance = fl (1 / 1000), balance_tolerance = fl (1 / 100)\<rparr>"

definition validate :: "ReconciliationConfig \<Rightarrow> bool" where
  "validate c \<longleftrightarrow>
     check_interval_ms c > 0 \<and> full_reconcile_interval_s c > 0 \<and> minor_drift_threshold c > 0 \<and>
     major_drift_threshold c \<ge> minor_drift_threshold c \<and> max_drift_history c > 0 \<and>
     position_tolerance c > 0 \<and> balance_tolerance c > 0"

section \<open>The exchange adapter\<close>

record 'x ExchangeAdapter =
  get_open_orders :: "string option \<Rightarrow> 'x \<Rightarrow> exn + OrderSnapshot list"
  get_position :: "string \<Rightarrow> 'x \<Rightarrow> exn + PositionSnapshot option"
  get_balances :: "'x \<Rightarrow> exn + BalanceSnapshot list"
  flatten_position :: "int \<Rightarrow> string \<Rightarrow> 'x \<Rightarrow> (exn + bool) \<times> 'x"
  cancel_all_orders :: "string \<Rightarrow> 'x \<Rightarrow> (exn + bool) \<times> 'x"

record mock_exchange =
  mock_orders :: "(string, OrderSnapshot) dict"
  mock_positions :: "(string, PositionSnapshot) dict"
  mock_balances :: "(string, BalanceSnapshot) dict"

definition mock_init :: mock_exchange where
  "mock_init = \<lparr>mock_orders = [], mock_positions = [], mock_balances = []\<rparr>"

definition set_orders :: "OrderSnapshot list \<Rightarrow> mock_exchange \<Rightarrow> mock_exchange" where
  "set_orders os x = x\<lparr>mock_orders := dict_of os_id os\<rparr>"

definition set_position :: "string \<Rightarrow> PositionSnapshot \<Rightarrow> mock_exchange \<Rightarrow> mock_exchange" where
  "set_position s p x = x\<lparr>mock_positions := dict_set s p (mock_positions x)\<rparr>"

definition set_balance :: "string \<Rightarrow> BalanceSnapshot \<Rightarrow> mock_exchange \<Rightarrow> mock_exchange" where
  "set_balance a b x = x\<lparr>mock_balances := dict_set a b (mock_balances x)\<rparr>"

definition mock_get_open_orders :: "string option \<Rightarrow> mock_exchange \<Rightarrow> OrderSnapshot list" where
  "mock_get_open_orders s x =
     (case s of None \<Rightarrow> dict_values (mock_orders x)
      | Some smb \<Rightarrow> filter (\<lambda>o'. os_symbol o' = smb) (dict_values (mock_orders x)))"

definition flat_position :: "int \<Rightarrow> string \<Rightarrow> PositionSnapshot" where
  "flat_position now s = \<lparr>ps_symbol = s, ps_side = ''NONE'', ps_size = 0, ps_entry_price = 0,
     ps_unrealized_pnl = 0, ps_timestamp = now\<rparr>"

definition mock_flatten_position :: "int \<Rightarrow> string \<Rightarrow> mock_exchange \<Rightarrow> bool \<times> mock_exchange" where
  "mock_flatten_position now s x =
     (case dict_get (mock_positions x) s of
        Some pos \<Rightarrow> (True, x\<lparr>mock_positions := dict_set s (flat_position now s) (mock_positions x)\<rparr>)
      | None \<Rightarrow> (False, x))"

definition mock_cancel_all_orders :: "string \<Rightarrow> mock_exchange \<Rightarrow> bool \<times> mock_exchange" where
  "mock_cancel_all_orders s x =
     (let to_remove = map fst (filter (\<lambda>p. os_symbol (snd p) = s) (mock_orders x))
      in (to_remove \<noteq> [], x\<lparr>mock_orders := fold dict_pop to_remove (mock_orders x)\<rparr>))"

definition mock_adapter :: "mock_exchange ExchangeAdapter" where
  "mock_adapter = \<lparr>get_open_orders = \<lambda>s x. Inr (mock_get_open_orders s x),
     get_position = \<lambda>s x. Inr (dict_get (mock_positions x) s),
     get_balances = \<lambda>x. Inr (dict_values (mock_balances x)),
     flatten_position = \<lambda>now s x. map_prod Inr id (mock_flatten_position now s x),
     cancel_all_orders = \<lambda>s x. map_prod Inr id (mock_cancel_all_orders s x)\<rparr>"

section \<open>The order manager's state\<close>

record OmsStateProvider =
  oms_orders :: "(string, OrderSnapshot) dict"
  oms_positions :: "(string, PositionSnapshot) dict"
  oms_balances :: "(string, BalanceSnapshot) dict"

definition oms_empty :: OmsStateProvider where
  "oms_empty = \<lparr>oms_orders = [], oms_positions = [], oms_balances = []\<rparr>"

definition update_order :: "OrderSnapshot \<Rightarrow> OmsStateProvider \<Rightarrow> OmsStateProvider" where
  "update_order r m =
     (if os_status r \<in> {''FILLED'', ''CANCELED'', ''REJECTED'', ''EXPIRED''}
      then m\<lparr>oms_orders := dict_pop (os_id r) (oms_orders m)\<rparr>
      else m\<lparr>oms_orders := dict_set (os_id r) r (oms_orders m)\<rparr>)"

definition remove_order :: "string \<Rightarrow> OmsStateProvider \<Rightarrow> OmsStateProvider" where
  "remove_order oid m = m\<lparr>oms_orders := dict_pop oid (oms_orders m)\<rparr>"

definition update_position :: "PositionSnapshot \<Rightarrow> OmsStateProvider \<Rightarrow> OmsStateProvider" where
  "update_position p m =
     (if ps_size p = 0 then m\<lparr>oms_positions := dict_pop (ps_symbol p) (oms_positions m)\<rparr>
      else m\<lparr>oms_positions := dict_set (ps_symbol p) p (oms_positions m)\<rparr>)"

definition update_balance :: "BalanceSnapshot \<Rightarrow> OmsStateProvider \<Rightarrow> OmsStateProvider" where
  "update_balance b m = m\<lparr>oms_balances := dict_set (bs_asset b) b (oms_balances m)\<rparr>"

section \<open>The engine\<close>

record engine =
  config :: ReconciliationConfig
  oms :: OmsStateProvider
  drift_history :: "DriftRecord list"
  last_reconcile_ms :: int
  last_full_reconcile_s :: int
  running :: bool
  consecutive_failures :: int
  total_checks :: int
  total_drifts :: int
  flattens_triggered :: int

definition engine_init :: "ReconciliationConfig option \<Rightarrow> OmsStateProvider option \<Rightarrow> exn + engine" where
  "engine_init cfg prov =
     (let c = (case cfg of None \<Rightarrow> default_config | Some c \<Rightarrow> c)
      in if \<not> validate c then Inl ValueError
         else Inr \<lparr>config = c, oms = (case prov of None \<Rightarrow> oms_empty | Some m \<Rightarrow> m), drift_history = [],
                   last_reconcile_ms = 0, last_full_reconcile_s = 0, running = False, consecutive_failures = 0,
                   total_checks = 0, total_drifts = 0, flattens_triggered = 0\<rparr>)"

definition start :: "engine \<Rightarrow> engine" where
  "start e = (if running e then e else e\<lparr>running := True\<rparr>)"

definition stop :: "engine \<Rightarrow> engine" where
  "stop e = e\<lparr>running := False\<rparr>"

definition new_drift :: "DesyncType \<Rightarrow> severity \<Rightarrow> description \<Rightarrow> drift_value \<Rightarrow> drift_value \<Rightarrow> int \<Rightarrow> DriftRecord" where
  "new_drift t s d ov ev now = \<lparr>desync_type = t, drift_severity = s, drift_description = d, oms_value = ov,
     exchange_value = ev, drift_timestamp = now, resolved = False\<rparr>"

definition check_orders ::
    "(string set \<Rightarrow> string list) \<Rightarrow> int \<Rightarrow> (string, OrderSnapshot) dict \<Rightarrow> (string, OrderSnapshot) dict \<Rightarrow> DriftRecord list" where
  "check_orders ord now om ex =
     map (\<lambda>(k, v). new_drift MISSING_ORDER HIGH (In_OMS_Only k) (Order_Value v) No_Value now)
       (filter (\<lambda>(k, v). dict_get ex k = None) om) @
     map (\<lambda>(k, v). new_drift EXTRA_ORDER MEDIUM (On_Exchange_Only k) No_Value (Order_Value v) now)
       (filter (\<lambda>(k, v). dict_get om k = None) ex) @
     concat (map (\<lambda>k. case (dict_get om k, dict_get ex k) of
         (Some a, Some b) \<Rightarrow>
           if matches_state a b then []
           else [new_drift STATE_MISMATCH HIGH (Order_State k) (State_Value (os_status a) (os_filled a))
                   (State_Value (os_status b) (os_filled b)) now]
       | _ \<Rightarrow> []) (ord (set (dict_keys om) \<inter> set (dict_keys ex))))"

definition size_of :: "PositionSnapshot option \<Rightarrow> pyfloat" where
  "size_of p = (case p of None \<Rightarrow> 0 | Some q \<Rightarrow> ps_size q)"

definition total_of :: "BalanceSnapshot option \<Rightarrow> pyfloat" where
  "total_of b = (case b of None \<Rightarrow> 0 | Some c \<Rightarrow> bs_total c)"

definition check_positions ::
    "(string set \<Rightarrow> string list) \<Rightarrow> int \<Rightarrow> pyfloat \<Rightarrow> (string, PositionSnapshot) dict \<Rightarrow>
     (string, PositionSnapshot) dict \<Rightarrow> DriftRecord list" where
  "check_positions ord now tolerance om ex =
     concat (map (\<lambda>s. let a = size_of (dict_get om s); b = size_of (dict_get ex s)
                      in if \<bar>fsub a b\<bar> > tolerance
                         then [new_drift POSITION_MISMATCH CRITICAL (Position_Of s a b) (Size_Value a) (Size_Value b) now]
                         else []) (ord (set (dict_keys om) \<union> set (dict_keys ex))))"

definition check_balances ::
    "(string set \<Rightarrow> string list) \<Rightarrow> int \<Rightarrow> pyfloat \<Rightarrow> (string, BalanceSnapshot) dict \<Rightarrow>
     (string, BalanceSnapshot) dict \<Rightarrow> DriftRecord list" where
  "check_balances ord now tolerance om ex =
     concat (map (\<lambda>s. let a = total_of (dict_get om s); b = total_of (dict_get ex s)
                      in if \<bar>fsub a b\<bar> > tolerance
                         then [new_drift BALANCE_MISMATCH HIGH (Balance_Of s a b) (Size_Value a) (Size_Value b) now]
                         else []) (ord (set (dict_keys om) \<union> set (dict_keys ex))))"

definition get_exchange_positions :: "PositionSnapshot list" where
  "get_exchange_positions = []"

definition determine_status :: "ReconciliationConfig \<Rightarrow> DriftRecord list \<Rightarrow> ReconciliationStatus" where
  "determine_status c ds =
     (let critical_count = int (length (filter (\<lambda>d. drift_severity d = CRITICAL) ds));
          high_count = int (length (filter (\<lambda>d. drift_severity d = HIGH) ds))
      in if ds = [] then MATCHED
         else if critical_count > 0 \<or> high_count \<ge> major_drift_threshold c then FATAL_DESYNC
         else if high_count > 0 \<or> int (length ds) \<ge> major_drift_threshold c then MAJOR_DRIFT
         else if int (length ds) \<ge> minor_drift_threshold c then MINOR_DRIFT
         else MINOR_DRIFT)"

definition record_drift :: "DriftRecord \<Rightarrow> engine \<Rightarrow> engine" where
  "record_drift d e =
     (let h = drift_history e @ [d]
      in e\<lparr>drift_history := (if int (length h) > max_drift_history (config e)
                             then slice_from (- max_drift_history (config e)) h else h),
           total_drifts := total_drifts e + 1\<rparr>)"

text \<open>\<open>reconcile\<close>. \<open>t\<close> gives the millisecond readings: on entry and in the three checks; \<open>lat\<close> the elapsed
  seconds at the end. What an adapter call raises leaves the method.\<close>

definition reconcile ::
    "(string set \<Rightarrow> string list) \<Rightarrow> 'x ExchangeAdapter \<Rightarrow> (nat \<Rightarrow> int) \<Rightarrow> pyfloat \<Rightarrow> 'x \<Rightarrow> engine \<Rightarrow>
     (exn + ReconciliationResult) \<times> engine" where
  "reconcile ord ad t lat x e =
     (let e1 = e\<lparr>total_checks := total_checks e + 1, last_reconcile_ms := t 0\<rparr>
      in case get_open_orders ad None x of
           Inl err \<Rightarrow> (Inl err, e1)
         | Inr eos \<Rightarrow>
             (case get_balances ad x of
                Inl err \<Rightarrow> (Inl err, e1)
              | Inr ebs \<Rightarrow>
                  (let exo = dict_of os_id eos;
                       exp = dict_of ps_symbol get_exchange_positions;
                       exb = dict_of bs_asset ebs;
                       ds = check_orders ord (t 1) (oms_orders (oms e)) exo @
                            check_positions ord (t 2) (position_tolerance (config e)) (oms_positions (oms e)) exp @
                            check_balances ord (t 3) (balance_tolerance (config e)) (oms_balances (oms e)) exb
                   in (Inr \<lparr>result_status = determine_status (config e) ds, result_timestamp = t 0,
                            oms_order_count = int (length (oms_orders (oms e))),
                            exchange_order_count = int (length exo), drifts = ds, action_taken = None,
                            latency_ms = fmul lat 1000\<rparr>,
                       fold record_drift ds e1))))"

text \<open>The two loops of \<open>_handle_fatal_desync\<close>. \<open>None\<close> when nothing was raised.\<close>

fun flatten_all :: "'x ExchangeAdapter \<Rightarrow> (nat \<Rightarrow> int) \<Rightarrow> nat \<Rightarrow> string list \<Rightarrow> OmsStateProvider \<Rightarrow> 'x \<Rightarrow>
    exn option \<times> OmsStateProvider \<times> 'x" where
  "flatten_all ad t n [] m x = (None, m, x)"
| "flatten_all ad t n (s # ss) m x =
     (case flatten_position ad (t n) s x of
        (Inl err, x') \<Rightarrow> (Some err, m, x')
      | (Inr True, x') \<Rightarrow> flatten_all ad t (n + 2) ss (update_position (flat_position (t (n + 1)) s) m) x'
      | (Inr False, x') \<Rightarrow> flatten_all ad t (n + 1) ss m x')"

fun cancel_everywhere :: "'x ExchangeAdapter \<Rightarrow> string list \<Rightarrow> 'x \<Rightarrow> exn option \<times> 'x" where
  "cancel_everywhere ad [] x = (None, x)"
| "cancel_everywhere ad (s # ss) x =
     (case cancel_all_orders ad s x of
        (Inl err, x') \<Rightarrow> (Some err, x')
      | (Inr b, x') \<Rightarrow> cancel_everywhere ad ss x')"

definition handle_fatal_desync ::
    "(string set \<Rightarrow> string list) \<Rightarrow> 'x ExchangeAdapter \<Rightarrow> (nat \<Rightarrow> int) \<Rightarrow> ReconciliationResult \<Rightarrow> 'x \<Rightarrow> engine \<Rightarrow>
     exn option \<times> ReconciliationResult \<times> engine \<times> 'x" where
  "handle_fatal_desync ord ad t r x e =
     (if \<not> auto_flatten_on_fatal (config e) then (None, r, e, x)
      else
        let e1 = record_drift (new_drift STATE_MISMATCH CRITICAL (Flatten_Triggered (length (drifts r))) No_Value No_Value
                   (result_timestamp r)) (e\<lparr>flattens_triggered := flattens_triggered e + 1\<rparr>);
            ps = oms_positions (oms e1)
        in case flatten_all ad t 0 (dict_keys ps) (oms e1) x of
             (Some err, m, x') \<Rightarrow> (Some err, r, e1\<lparr>oms := m\<rparr>, x')
           | (None, m, x') \<Rightarrow>
               (case cancel_everywhere ad (ord (set (dict_keys ps))) x' of
                  (Some err, x'') \<Rightarrow> (Some err, r, e1\<lparr>oms := m\<rparr>, x'')
                | (None, x'') \<Rightarrow> (None, r\<lparr>action_taken := Some (length ps)\<rparr>, e1\<lparr>oms := m\<rparr>, x'')))"

text \<open>One round of \<open>_reconciliation_loop\<close>; \<open>t_err\<close> stamps the record of an error.\<close>

definition loop_round ::
    "(string set \<Rightarrow> string list) \<Rightarrow> 'x ExchangeAdapter \<Rightarrow> (nat \<Rightarrow> int) \<Rightarrow> pyfloat \<Rightarrow> (nat \<Rightarrow> int) \<Rightarrow> int \<Rightarrow> engine \<times> 'x \<Rightarrow>
     engine \<times> 'x" where
  "loop_round ord ad t lat t2 t_err p =
     (let failed = (\<lambda>err e. record_drift (new_drift STATE_MISMATCH CRITICAL (Error_Raised err) No_Value No_Value t_err)
                       (e\<lparr>consecutive_failures := consecutive_failures e + 1\<rparr>));
          counted = (\<lambda>r e. if result_status r = UNABLE_TO_VERIFY
                           then e\<lparr>consecutive_failures := consecutive_failures e + 1\<rparr>
                           else e\<lparr>consecutive_failures := 0\<rparr>);
          (e, x) = p
      in case reconcile ord ad t lat x e of
           (Inl err, e1) \<Rightarrow> (failed err e1, x)
         | (Inr r, e1) \<Rightarrow>
             if result_status r = FATAL_DESYNC
             then (case handle_fatal_desync ord ad t2 r x e1 of
                     (Some err, r', e2, x') \<Rightarrow> (failed err e2, x')
                   | (None, r', e2, x') \<Rightarrow> (counted r' e2, x'))
             else (counted r e1, x))"

definition get_statistics :: "engine \<Rightarrow> int \<times> int \<times> int \<times> int \<times> int \<times> int \<times> bool" where
  "get_statistics e = (total_checks e, total_drifts e, consecutive_failures e, flattens_triggered e,
     last_reconcile_ms e, int (length (drift_history e)), running e)"

definition get_drift_history :: "int \<Rightarrow> engine \<Rightarrow> DriftRecord list" where
  "get_drift_history limit e = slice_from (- limit) (drift_history e)"

definition resolve_drift :: "int \<Rightarrow> engine \<Rightarrow> bool \<times> engine" where
  "resolve_drift i e =
     (if 0 \<le> i \<and> i < int (length (drift_history e))
      then (True, e\<lparr>drift_history := (drift_history e)[nat i := (drift_history e ! nat i)\<lparr>resolved := True\<rparr>]\<rparr>)
      else (False, e))"

section \<open>What the checks find\<close>

text \<open>The specification: the two sides agree.\<close>

definition orders_agree :: "(string, OrderSnapshot) dict \<Rightarrow> (string, OrderSnapshot) dict \<Rightarrow> bool" where
  "orders_agree om ex \<longleftrightarrow>
     (\<forall>k. case (dict_get om k, dict_get ex k) of
            (None, None) \<Rightarrow> True | (Some a, Some b) \<Rightarrow> matches_state a b | _ \<Rightarrow> False)"

definition balances_agree :: "pyfloat \<Rightarrow> (string, BalanceSnapshot) dict \<Rightarrow> (string, BalanceSnapshot) dict \<Rightarrow> bool" where
  "balances_agree tol om ex \<longleftrightarrow> (\<forall>k. \<bar>fsub (total_of (dict_get om k)) (total_of (dict_get ex k))\<bar> \<le> tol)"

definition oms_ok :: "OmsStateProvider \<Rightarrow> bool" where
  "oms_ok m \<longleftrightarrow> wf_dict (oms_orders m) \<and> wf_dict (oms_positions m) \<and> wf_dict (oms_balances m)"

lemma oms_update_ok [inv_intros]:
  "oms_ok m \<Longrightarrow> oms_ok (update_order r m)" "oms_ok m \<Longrightarrow> oms_ok (remove_order oid m)"
  "oms_ok m \<Longrightarrow> oms_ok (update_position p m)" "oms_ok m \<Longrightarrow> oms_ok (update_balance b m)"
  by (auto simp: oms_ok_def update_order_def remove_order_def update_position_def update_balance_def)

lemma dict_all_keys: "wf_dict d \<Longrightarrow> (\<forall>p \<in> set d. P (fst p)) \<longleftrightarrow> (\<forall>k. dict_get d k \<noteq> None \<longrightarrow> P k)"
  by (metis domIff dom_map_of_conv_image_fst image_iff)

lemma dict_keys_get: "k \<in> set (dict_keys d) \<longleftrightarrow> dict_get d k \<noteq> None"
  by (metis domIff dom_map_of_conv_image_fst list.set_map)

lemma check_orders_Nil:
  assumes "wf_dict om" "wf_dict ex" "lists_sets ord"
  shows "check_orders ord now om ex = [] \<longleftrightarrow> orders_agree om ex"
proof -
  define f where "f k = (case (dict_get om k, dict_get ex k) of
         (Some a, Some b) \<Rightarrow>
           if matches_state a b then []
           else [new_drift STATE_MISMATCH HIGH (Order_State k) (State_Value (os_status a) (os_filled a))
                   (State_Value (os_status b) (os_filled b)) now]
       | _ \<Rightarrow> [])" for k
  have K: "set (ord (set (dict_keys om) \<inter> set (dict_keys ex))) = set (dict_keys om) \<inter> set (dict_keys ex)"
    by (rule lists_setsD [OF assms(3)]) simp
  have "check_orders ord now om ex = [] \<longleftrightarrow>
      (\<forall>p \<in> set om. dict_get ex (fst p) \<noteq> None) \<and> (\<forall>p \<in> set ex. dict_get om (fst p) \<noteq> None) \<and>
      (\<forall>k \<in> set (ord (set (dict_keys om) \<inter> set (dict_keys ex))). f k = [])"
    unfolding check_orders_def f_def [symmetric] append_is_Nil_conv map_is_Nil_conv filter_empty_conv concat_eq_Nil_conv
    by (auto simp: split_beta)
  also have "\<dots> \<longleftrightarrow> (\<forall>k. (dict_get om k \<noteq> None \<longrightarrow> dict_get ex k \<noteq> None) \<and> (dict_get ex k \<noteq> None \<longrightarrow> dict_get om k \<noteq> None) \<and>
      (dict_get om k \<noteq> None \<and> dict_get ex k \<noteq> None \<longrightarrow> f k = []))"
    unfolding dict_all_keys [OF assms(1), of "\<lambda>k. dict_get ex k \<noteq> None"]
      dict_all_keys [OF assms(2), of "\<lambda>k. dict_get om k \<noteq> None"] K
    unfolding Int_iff Ball_def dict_keys_get by blast
  also have "\<dots> \<longleftrightarrow> orders_agree om ex"
    unfolding orders_agree_def f_def by (intro iff_allI) (auto split: option.splits)
  finally show ?thesis .
qed

lemma check_positions_Nil:
  assumes "lists_sets ord" "0 \<le> tol"
  shows "check_positions ord now tol om ex = [] \<longleftrightarrow> (\<forall>k. \<bar>fsub (size_of (dict_get om k)) (size_of (dict_get ex k))\<bar> \<le> tol)"
proof -
  let ?K = "set (dict_keys om) \<union> set (dict_keys ex)"
  have "set (ord ?K) = ?K" by (rule lists_setsD [OF assms(1)]) simp
  then have "check_positions ord now tol om ex = [] \<longleftrightarrow>
      (\<forall>k \<in> ?K. \<bar>fsub (size_of (dict_get om k)) (size_of (dict_get ex k))\<bar> \<le> tol)"
    unfolding check_positions_def Let_def findings_Nil by (auto simp: not_less)
  moreover have "size_of (dict_get om k) = 0 \<and> size_of (dict_get ex k) = 0" if "k \<notin> ?K" for k
    using that by (simp add: size_of_def map_of_eq_None_iff [THEN iffD2])
  ultimately show ?thesis using assms(2) by (metis abs_zero fsub_self)
qed

lemma check_balances_Nil:
  assumes "lists_sets ord" "0 \<le> tol"
  shows "check_balances ord now tol om ex = [] \<longleftrightarrow> balances_agree tol om ex"
proof -
  let ?K = "set (dict_keys om) \<union> set (dict_keys ex)"
  have "set (ord ?K) = ?K" by (rule lists_setsD [OF assms(1)]) simp
  then have "check_balances ord now tol om ex = [] \<longleftrightarrow>
      (\<forall>k \<in> ?K. \<bar>fsub (total_of (dict_get om k)) (total_of (dict_get ex k))\<bar> \<le> tol)"
    unfolding check_balances_def Let_def findings_Nil by (auto simp: not_less)
  moreover have "total_of (dict_get om k) = 0 \<and> total_of (dict_get ex k) = 0" if "k \<notin> ?K" for k
    using that by (simp add: total_of_def map_of_eq_None_iff [THEN iffD2])
  ultimately show ?thesis using assms(2) unfolding balances_agree_def by (metis abs_zero fsub_self)
qed

lemma dict_of_Nil [simp]: "dict_of f [] = []"
  by (simp add: dict_of_def)

lemma determine_status_matched: "determine_status c ds = MATCHED \<longleftrightarrow> ds = []"
  by (simp add: determine_status_def Let_def)

text \<open>An open position is a drift of critical severity, since nothing is read from the exchange to compare
  it with.\<close>

lemma open_position_critical:
  assumes "lists_sets ord" "dict_get om s = Some p" "is_float (ps_size p)" "\<bar>ps_size p\<bar> > tol"
  shows "\<exists>d \<in> set (check_positions ord now tol om []). drift_severity d = CRITICAL"
proof -
  have "set (ord (set (dict_keys om))) = set (dict_keys om)" by (rule lists_setsD [OF assms(1)]) simp
  moreover have "s \<in> set (dict_keys om)" using assms(2) by (force dest: map_of_SomeD)
  moreover have "fsub (ps_size p) 0 = ps_size p" using assms(3) by (simp add: fsub_def is_float_def)
  ultimately have "s \<in> {s \<in> set (ord (set (dict_keys om) \<union> set (dict_keys []))). tol < \<bar>fsub (size_of (dict_get om s)) (size_of (dict_get [] s))\<bar>}"
    using assms(2,4) by (simp add: size_of_def)
  then show ?thesis unfolding check_positions_def Let_def findings_set by (auto simp: new_drift_def)
qed

lemma critical_is_fatal: "\<exists>d \<in> set ds. drift_severity d = CRITICAL \<Longrightarrow> determine_status c ds = FATAL_DESYNC"
  by (auto simp: determine_status_def Let_def filter_empty_conv)

section \<open>The history\<close>

definition engine_inv :: "engine \<Rightarrow> bool" where
  "engine_inv e \<longleftrightarrow>
     validate (config e) \<and> oms_ok (oms e) \<and> int (length (drift_history e)) \<le> max_drift_history (config e) \<and>
     int (length (drift_history e)) \<le> total_drifts e \<and> 0 \<le> consecutive_failures e \<and> 0 \<le> flattens_triggered e"

lemma engine_inv_fields:
  "engine_inv e \<Longrightarrow> engine_inv (e\<lparr>total_checks := a, last_reconcile_ms := b\<rparr>)"
  "engine_inv e \<Longrightarrow> 0 \<le> n \<Longrightarrow> engine_inv (e\<lparr>consecutive_failures := n\<rparr>)"
  "engine_inv e \<Longrightarrow> 0 \<le> n \<Longrightarrow> engine_inv (e\<lparr>flattens_triggered := n\<rparr>)"
  "engine_inv e \<Longrightarrow> oms_ok m \<Longrightarrow> engine_inv (e\<lparr>oms := m\<rparr>)"
  "engine_inv e \<Longrightarrow> engine_inv (e\<lparr>running := r\<rparr>)"
  by (simp_all add: engine_inv_def)

lemma record_drift_frame [simp]:
  "config (record_drift d e) = config e" "oms (record_drift d e) = oms e"
  "flattens_triggered (record_drift d e) = flattens_triggered e"
  "consecutive_failures (record_drift d e) = consecutive_failures e"
  by (simp_all add: record_drift_def Let_def)

lemma record_drift_inv [inv_intros]: "engine_inv e \<Longrightarrow> engine_inv (record_drift d e)"
proof -
  assume e: "engine_inv e"
  let ?n = "max_drift_history (config e)" and ?h = "drift_history e @ [d]"
  have "0 < ?n" using e by (simp add: engine_inv_def validate_def)
  then have s: "int (length (slice_from (- ?n) ?h)) \<le> ?n" by (rule length_slice_le)
  have l: "length (slice_from (- ?n) ?h) \<le> length ?h" by (rule length_slice_from)
  show ?thesis using s l e by (auto simp: record_drift_def engine_inv_def Let_def simp del: length_slice_from)
qed

lemma record_drifts:
  "engine_inv e \<Longrightarrow> engine_inv (fold record_drift ds e)"
  "config (fold record_drift ds e) = config e \<and> oms (fold record_drift ds e) = oms e \<and>
     flattens_triggered (fold record_drift ds e) = flattens_triggered e"
  by (induction ds arbitrary: e) (auto intro: inv_intros)

lemma reconcile_inv:
  assumes "engine_inv e" "reconcile ord ad t lat x e = (res, e1)"
  shows "engine_inv e1 \<and> config e1 = config e \<and> oms e1 = oms e \<and> flattens_triggered e1 = flattens_triggered e"
  using assms engine_inv_fields(1) [OF assms(1)]
  by (auto simp: reconcile_def Let_def record_drifts split: sum.splits)

lemma flatten_all_ok:
  "oms_ok m \<Longrightarrow> oms_ok (fst (snd (flatten_all ad t n ss m x)))"
proof (induction ss arbitrary: n m x)
  case (Cons s ss)
  obtain r x' where f: "flatten_position ad (t n) s x = (r, x')" by fastforce
  show ?case
  proof (cases r)
    case (Inr b)
    then show ?thesis using Cons.IH Cons.prems oms_update_ok(3) [OF Cons.prems]
      by (cases b) (simp_all add: f)
  qed (simp add: f Cons.prems)
qed simp

lemma handle_fatal_inv:
  assumes "engine_inv e" "handle_fatal_desync ord ad t r x e = (err, r', e', x')"
  shows "engine_inv e' \<and> config e' = config e"
proof -
  let ?e = "record_drift (new_drift STATE_MISMATCH CRITICAL (Flatten_Triggered (length (drifts r))) No_Value No_Value
                   (result_timestamp r)) (e\<lparr>flattens_triggered := flattens_triggered e + 1\<rparr>)"
  have "0 \<le> flattens_triggered e + 1" using assms(1) by (simp add: engine_inv_def)
  then have e: "engine_inv ?e" by (intro inv_intros engine_inv_fields assms(1))
  have "oms_ok (oms ?e)" using assms(1) by (simp add: engine_inv_def)
  then have "engine_inv (?e\<lparr>oms := m\<rparr>)" if "flatten_all ad t 0 ks (oms ?e) x = (er, m, y)" for ks er m y
    using flatten_all_ok [of "oms ?e" ad t 0 ks x] that by (intro engine_inv_fields(4) [OF e]) simp
  then show ?thesis using assms
    by (auto simp: handle_fatal_desync_def Let_def split: if_splits prod.splits option.splits)
qed

section \<open>The contract of an exchange adapter\<close>

text \<open>Cancelling a symbol leaves exactly the orders of the other symbols open; flattening does not touch
  orders. \<open>okx\<close> is whatever the adapter needs of its own state for that.\<close>

locale exchange_contract =
  fixes ad :: "'x ExchangeAdapter" and okx :: "'x \<Rightarrow> bool"
  assumes flatten_law: "okx x \<Longrightarrow> flatten_position ad now s x = (r, x') \<Longrightarrow>
      okx x' \<and> get_open_orders ad None x' = get_open_orders ad None x"
    and cancel_law: "okx x \<Longrightarrow> cancel_all_orders ad s x = (r, x') \<Longrightarrow>
      okx x' \<and> (\<forall>b os. r = Inr b \<longrightarrow> get_open_orders ad None x = Inr os \<longrightarrow>
        get_open_orders ad None x' = Inr (filter (\<lambda>w. os_symbol w \<noteq> s) os))"
begin

lemma flatten_all_orders:
  "okx x \<Longrightarrow> flatten_all ad t n ss m x = (err, m', x') \<Longrightarrow>
     okx x' \<and> get_open_orders ad None x' = get_open_orders ad None x"
proof (induction ss arbitrary: n m x)
  case (Cons s ss)
  obtain r x1 where f: "flatten_position ad (t n) s x = (r, x1)" by fastforce
  note law = flatten_law [OF Cons.prems(1) f]
  show ?case
  proof (cases r)
    case (Inl e)
    with Cons.prems(2) law show ?thesis by (auto simp: f)
  next
    case (Inr b)
    with Cons.IH [of x1] Cons.prems(2) law show ?thesis by (cases b) (auto simp: f)
  qed
qed auto

lemma cancel_everywhere_orders:
  "okx x \<Longrightarrow> get_open_orders ad None x = Inr os \<Longrightarrow> cancel_everywhere ad ss x = (None, x') \<Longrightarrow>
     get_open_orders ad None x' = Inr (filter (\<lambda>w. os_symbol w \<notin> set ss) os)"
proof (induction ss arbitrary: x os)
  case (Cons s ss)
  obtain r x1 where c: "cancel_all_orders ad s x = (r, x1)" by fastforce
  then obtain b where b: "r = Inr b" "cancel_everywhere ad ss x1 = (None, x')"
    using Cons.prems(3) by (auto split: sum.splits)
  with cancel_law [OF Cons.prems(1) c] Cons.prems(2) Cons.IH [of x1 "filter (\<lambda>w. os_symbol w \<noteq> s) os"]
  show ?case by (simp add: filter_filter conj_commute)
qed simp

lemma fatal_desync_orders:
  assumes "okx x" "lists_sets ord" "auto_flatten_on_fatal (config e)" "get_open_orders ad None x = Inr os"
    "handle_fatal_desync ord ad t r x e = (None, r', e', x')"
  shows "get_open_orders ad None x' = Inr (filter (\<lambda>w. dict_get (oms_positions (oms e)) (os_symbol w) = None) os)"
proof -
  let ?K = "dict_keys (oms_positions (oms e))"
  obtain m x1 where f: "flatten_all ad t 0 ?K (oms e) x = (None, m, x1)"
    and c: "cancel_everywhere ad (ord (set ?K)) x1 = (None, x')"
    using assms(3,5) by (auto simp: handle_fatal_desync_def Let_def split: prod.splits option.splits)
  have "set (ord (set ?K)) = set ?K" by (rule lists_setsD [OF assms(2)]) simp
  moreover have "k \<notin> set ?K \<longleftrightarrow> dict_get (oms_positions (oms e)) k = None" for k by (metis dict_keys_get)
  ultimately show ?thesis
    using cancel_everywhere_orders [OF _ _ c, of os] flatten_all_orders [OF assms(1) f] assms(4) by simp
qed

end

lemma fold_pop_filter:
  "fold dict_pop ks d = filter (\<lambda>p. fst p \<notin> set ks) d"
proof (induction ks arbitrary: d)
  case (Cons k ks)
  have "dict_pop k d = filter (\<lambda>p. fst p \<noteq> k) d" by (auto simp: AList.delete_eq intro: filter_cong)
  with Cons show ?case by (auto simp: conj_commute intro: filter_cong)
qed simp

definition mock_ok :: "mock_exchange \<Rightarrow> bool" where
  "mock_ok x \<longleftrightarrow> wf_dict (mock_orders x)"

lemma mock_cancel_orders:
  assumes "mock_ok x" "mock_cancel_all_orders s x = (b, x')"
  shows "mock_ok x' \<and> mock_get_open_orders None x' = filter (\<lambda>w. os_symbol w \<noteq> s) (mock_get_open_orders None x)"
proof -
  let ?d = "mock_orders x"
  let ?ks = "map fst (filter (\<lambda>p. os_symbol (snd p) = s) ?d)"
  have x': "mock_orders x' = filter (\<lambda>p. fst p \<notin> set ?ks) ?d"
    using assms(2) by (auto simp: mock_cancel_all_orders_def Let_def fold_pop_filter)
  have "fst p \<in> set ?ks \<longleftrightarrow> os_symbol (snd p) = s" if "p \<in> set ?d" for p
  proof -
    have "q = p" if "q \<in> set ?d" "fst q = fst p" for q
      using assms(1) that \<open>p \<in> set ?d\<close> by (simp add: mock_ok_def wf_dict_def distinct_map inj_on_def)
    with that show ?thesis by fastforce
  qed
  then have "mock_orders x' = filter (\<lambda>p. os_symbol (snd p) \<noteq> s) ?d" unfolding x' by (intro filter_cong) auto
  moreover have "wf_dict (filter P d)" if "wf_dict d" for P and d :: "(string, OrderSnapshot) dict"
    using that by (simp add: wf_dict_def distinct_map inj_on_def)
  ultimately show ?thesis using assms(1) by (simp add: mock_ok_def mock_get_open_orders_def filter_map comp_def)
qed

interpretation mock: exchange_contract mock_adapter mock_ok
proof
  show "mock_ok x' \<and> get_open_orders mock_adapter None x' = get_open_orders mock_adapter None x"
    if "mock_ok x" "flatten_position mock_adapter now s x = (r, x')" for x now s r x'
    using that by (auto simp: mock_adapter_def mock_flatten_position_def mock_ok_def mock_get_open_orders_def
        split: option.splits)
  show "mock_ok x' \<and> (\<forall>b os. r = Inr b \<longrightarrow> get_open_orders mock_adapter None x = Inr os \<longrightarrow>
        get_open_orders mock_adapter None x' = Inr (filter (\<lambda>w. os_symbol w \<noteq> s) os))"
    if x: "mock_ok x" and c: "cancel_all_orders mock_adapter s x = (r, x')" for x s r x'
  proof -
    obtain b where b: "mock_cancel_all_orders s x = (b, x')" using c
      by (cases "mock_cancel_all_orders s x") (auto simp: mock_adapter_def)
    show ?thesis using mock_cancel_orders [OF x b] by (simp add: mock_adapter_def)
  qed
qed

text \<open>Flattening on the mock exchange: what the exchange holds is closed and leaves the order manager; what the
  exchange has never heard of stays in the order manager.\<close>

lemma flatten_all_mock:
  "\<exists>m' x'. flatten_all mock_adapter t n ss m x = (None, m', x') \<and>
     (\<forall>s. dict_get (oms_positions m') s =
        (if s \<in> set ss \<and> dict_get (mock_positions x) s \<noteq> None then None else dict_get (oms_positions m) s)) \<and>
     (\<forall>s. dict_get (mock_positions x') s = None \<longleftrightarrow> dict_get (mock_positions x) s = None) \<and>
     (\<forall>s. size_of (dict_get (mock_positions x) s) = 0 \<or> s \<in> set ss \<longrightarrow> size_of (dict_get (mock_positions x') s) = 0)"
proof (induction ss arbitrary: n m x)
  case (Cons s ss)
  show ?case
  proof (cases "dict_get (mock_positions x) s")
    case None
    then have f: "flatten_position mock_adapter (t n) s x = (Inr False, x)"
      by (simp add: mock_adapter_def mock_flatten_position_def)
    from Cons.IH [of "n + 1" m x] None show ?thesis by (auto simp: f size_of_def)
  next
    case (Some p)
    let ?x = "x\<lparr>mock_positions := dict_set s (flat_position (t n) s) (mock_positions x)\<rparr>"
    have f: "flatten_position mock_adapter (t n) s x = (Inr True, ?x)"
      using Some by (simp add: mock_adapter_def mock_flatten_position_def)
    have u: "oms_positions (update_position (flat_position (t (Suc n)) s) m) = dict_pop s (oms_positions m)"
      by (simp add: update_position_def flat_position_def)
    have z: "ps_size (flat_position (t n) s) = 0" by (simp add: flat_position_def)
    from Cons.IH [of "Suc (Suc n)" "update_position (flat_position (t (Suc n)) s) m" ?x] Some show ?thesis
      by (auto simp: f u z dict_get_set dict_get_pop size_of_def)
  qed
qed auto

lemma mock_cancel_everywhere:
  "fst (cancel_everywhere mock_adapter ss x) = None \<and> mock_positions (snd (cancel_everywhere mock_adapter ss x)) = mock_positions x"
proof (induction ss arbitrary: x)
  case (Cons s ss)
  have "cancel_all_orders mock_adapter s x = (Inr (fst (mock_cancel_all_orders s x)), snd (mock_cancel_all_orders s x))"
    by (simp add: mock_adapter_def map_prod_def split_beta)
  moreover have "mock_positions (snd (mock_cancel_all_orders s x)) = mock_positions x"
    by (simp add: mock_cancel_all_orders_def Let_def)
  ultimately show ?case using Cons by simp
qed simp

section \<open>Calls in any order\<close>

datatype 'x engine_op =
    Op_Round "nat \<Rightarrow> int" pyfloat "nat \<Rightarrow> int" int
  | Op_Update_Order OrderSnapshot
  | Op_Remove_Order string
  | Op_Update_Position PositionSnapshot
  | Op_Update_Balance BalanceSnapshot
  | Op_Resolve int
  | Op_Start
  | Op_Stop
  | Op_Exchange "'x \<Rightarrow> 'x"

fun engine_step :: "(string set \<Rightarrow> string list) \<Rightarrow> 'x ExchangeAdapter \<Rightarrow> 'x engine_op \<Rightarrow> engine \<times> 'x \<Rightarrow> engine \<times> 'x" where
  "engine_step ord ad (Op_Round t lat t2 te) (e, x) = loop_round ord ad t lat t2 te (e, x)"
| "engine_step ord ad (Op_Update_Order r) (e, x) = (e\<lparr>oms := update_order r (oms e)\<rparr>, x)"
| "engine_step ord ad (Op_Remove_Order i) (e, x) = (e\<lparr>oms := remove_order i (oms e)\<rparr>, x)"
| "engine_step ord ad (Op_Update_Position p) (e, x) = (e\<lparr>oms := update_position p (oms e)\<rparr>, x)"
| "engine_step ord ad (Op_Update_Balance b) (e, x) = (e\<lparr>oms := update_balance b (oms e)\<rparr>, x)"
| "engine_step ord ad (Op_Resolve i) (e, x) = (snd (resolve_drift i e), x)"
| "engine_step ord ad Op_Start (e, x) = (start e, x)"
| "engine_step ord ad Op_Stop (e, x) = (stop e, x)"
| "engine_step ord ad (Op_Exchange f) (e, x) = (e, f x)"

lemma loop_round_inv [inv_intros]: "engine_inv e \<Longrightarrow> engine_inv (fst (loop_round ord ad t lat t2 te (e, x)))"
proof -
  assume e: "engine_inv e"
  obtain res e1 where r: "reconcile ord ad t lat x e = (res, e1)" by fastforce
  have e1: "engine_inv e1" using reconcile_inv [OF e r] by simp
  have n: "0 \<le> consecutive_failures e' + 1" if "engine_inv e'" for e' using that by (simp add: engine_inv_def)
  have failed: "engine_inv (record_drift d (e'\<lparr>consecutive_failures := consecutive_failures e' + 1\<rparr>))"
    if "engine_inv e'" for d e' by (intro inv_intros engine_inv_fields that n)
  have counted: "engine_inv (e'\<lparr>consecutive_failures := consecutive_failures e' + 1\<rparr>) \<and>
      engine_inv (e'\<lparr>consecutive_failures := 0\<rparr>)" if "engine_inv e'" for e'
    by (intro conjI engine_inv_fields that n) simp
  show ?thesis
  proof (cases res)
    case (Inr result)
    obtain err r' e2 x' where h: "handle_fatal_desync ord ad t2 result x e1 = (err, r', e2, x')" by (metis prod_cases4)
    have "engine_inv e2" using handle_fatal_inv [OF e1 h] by simp
    with e1 show ?thesis by (auto simp: loop_round_def Let_def r Inr h failed counted split: option.splits)
  qed (simp add: loop_round_def Let_def r failed e1)
qed

lemma engine_step_inv [inv_intros]: "engine_inv (fst p) \<Longrightarrow> engine_inv (fst (engine_step ord ad op p))"
proof -
  assume inv: "engine_inv (fst p)"
  obtain e x where p: "p = (e, x)" by (cases p)
  have e: "engine_inv e" and m: "oms_ok (oms e)" using inv by (simp_all add: p engine_inv_def)
  have "engine_inv (snd (resolve_drift i e))" for i using e by (simp add: resolve_drift_def engine_inv_def)
  then show ?thesis
    by (cases op) (simp_all add: p e m loop_round_inv oms_update_ok engine_inv_fields start_def stop_def)
qed

interpretation rec: op_machine "engine_step ord ad" "\<lambda>p. engine_inv (fst p)" for ord ad
  by unfold_locales (rule engine_step_inv)

lemma engine_init_inv: "engine_init cfg None = Inr e \<Longrightarrow> engine_inv e"
  by (auto simp: engine_init_def engine_inv_def Let_def oms_ok_def oms_empty_def validate_def split: if_splits)

section \<open>Properties\<close>

text \<open>C8: \<open>reconcile\<close> reports \<open>MATCHED\<close> exactly when the two sides agree: the same open orders in matching states,
  balances within the tolerance for every asset - and no position in the order manager beyond the
  tolerance, whatever the exchange holds.\<close>

theorem reconcile_matched_iff:
  assumes "engine_init cfg None = Inr e0" "(e, x) = fold (engine_step ord ad) ops (e0, x0)" "lists_sets ord"
    "reconcile ord ad t lat x e = (Inr r, e')" "get_open_orders ad None x = Inr eos" "get_balances ad x = Inr ebs"
  shows "result_status r = MATCHED \<longleftrightarrow>
     orders_agree (oms_orders (oms e)) (dict_of os_id eos) \<and>
     (\<forall>s. \<bar>fsub (size_of (dict_get (oms_positions (oms e)) s)) 0\<bar> \<le> position_tolerance (config e)) \<and>
     balances_agree (balance_tolerance (config e)) (oms_balances (oms e)) (dict_of bs_asset ebs)"
proof -
  have inv: "engine_inv e"
    using rec.run_inv [of "(e0, x0)" ord ad ops] engine_init_inv [OF assms(1)] by (simp add: assms(2) [symmetric])
  then have w: "wf_dict (oms_orders (oms e))" "0 \<le> position_tolerance (config e)" "0 \<le> balance_tolerance (config e)"
    by (auto simp: engine_inv_def oms_ok_def validate_def)
  let ?ds = "check_orders ord (t 1) (oms_orders (oms e)) (dict_of os_id eos) @
      check_positions ord (t 2) (position_tolerance (config e)) (oms_positions (oms e)) [] @
      check_balances ord (t 3) (balance_tolerance (config e)) (oms_balances (oms e)) (dict_of bs_asset ebs)"
  have "result_status r = determine_status (config e) ?ds"
    using assms(4) by (auto simp: reconcile_def Let_def assms(5,6) get_exchange_positions_def)
  then show ?thesis
    by (simp add: determine_status_matched check_orders_Nil [OF w(1) wf_dict_of assms(3)]
        check_positions_Nil [OF assms(3) w(2)] check_balances_Nil [OF assms(3) w(3)] size_of_def [of None])
qed

text \<open>An engine over the mock exchange: one open order on both sides, and one open long position on both.\<close>

definition demo_order :: OrderSnapshot where
  "demo_order = \<lparr>os_id = ''o1'', os_symbol = ''BTC'', os_side = ''BUY'', os_type = ''LIMIT'', os_size = 1, os_filled = 0,
     os_price = None, os_status = ''NEW'', os_timestamp = 0\<rparr>"

definition demo_position :: PositionSnapshot where
  "demo_position = \<lparr>ps_symbol = ''BTC'', ps_side = ''LONG'', ps_size = 2, ps_entry_price = 100, ps_unrealized_pnl = 0,
     ps_timestamp = 0\<rparr>"

definition demo_engine :: engine where
  "demo_engine = \<lparr>config = default_config, oms = oms_empty, drift_history = [], last_reconcile_ms = 0,
     last_full_reconcile_s = 0, running = False, consecutive_failures = 0, total_checks = 0, total_drifts = 0,
     flattens_triggered = 0\<rparr>"

lemma fl_small_pos: "0 < fl (1 / 1000)" "0 < fl (1 / 100)" "fl (1 / 1000) \<le> 1"
proof -
  show "0 < fl (1 / 1000)" "0 < fl (1 / 100)" by code_simp+
  have "fl (1 / 1000) \<le> fl 1" by (rule fl_mono) simp
  then show "fl (1 / 1000) \<le> 1" by simp
qed

lemma demo_engine_init: "engine_init None None = Inr demo_engine"
  by (simp add: engine_init_def demo_engine_def validate_def default_config_def fl_small_pos)

theorem reconcile_matched_iff_witness:
  "\<exists>r e'. reconcile sorted_list_of_set mock_adapter (\<lambda>_. 7) 0 (set_orders [demo_order] mock_init)
       (demo_engine\<lparr>oms := update_order demo_order oms_empty\<rparr>) = (Inr r, e') \<and> result_status r = MATCHED"
proof -
  let ?ops = "[Op_Update_Order demo_order, Op_Exchange (set_orders [demo_order])]"
  let ?e = "demo_engine\<lparr>oms := update_order demo_order oms_empty\<rparr>" and ?x = "set_orders [demo_order] mock_init"
  have f: "(?e, ?x) = fold (engine_step sorted_list_of_set mock_adapter) ?ops (demo_engine, mock_init)"
    by (simp add: demo_engine_def)
  have l: "lists_sets (sorted_list_of_set :: string set \<Rightarrow> string list)" by (simp add: lists_sets_def)
  have o1: "get_open_orders mock_adapter None ?x = Inr [demo_order]" and b: "get_balances mock_adapter ?x = Inr []"
    by (simp_all add: mock_adapter_def mock_get_open_orders_def set_orders_def mock_init_def dict_of_def)
  obtain r e' where r: "reconcile sorted_list_of_set mock_adapter (\<lambda>_. 7) 0 ?x ?e = (Inr r, e')"
    by (simp add: reconcile_def o1 b Let_def)
  have "0 < fl (1 / 10000)" by code_simp
  then have "matches_state demo_order demo_order" by (simp add: matches_state_def)
  then have "result_status r = MATCHED"
    unfolding reconcile_matched_iff [OF demo_engine_init f l r o1 b]
    by (auto simp: orders_agree_def balances_agree_def update_order_def demo_order_def oms_empty_def dict_of_def
        demo_engine_def default_config_def size_of_def total_of_def fl_small_pos less_imp_le)
  with r show ?thesis by blast
qed

text \<open>the automatic flattening closes positions the exchange agrees with. In every reachable state in which the
  order manager has an open position (a float beyond the tolerance), the next round of the loop on the
  mock exchange is a fatal desync, even if the exchange holds that very position: it flattens every position
  of the order manager there, cancels the open orders of their symbols and no others, and drops from the
  order manager exactly the positions the exchange knew.\<close>

theorem open_position_is_flattened:
  assumes "engine_init cfg None = Inr e0" "auto_flatten_on_fatal (config e)"
    "(e, x) = fold (engine_step ord mock_adapter) ops (e0, x0)" "lists_sets ord" "wf_dict (mock_orders x)"
    "dict_get (oms_positions (oms e)) s = Some p" "is_float (ps_size p)" "\<bar>ps_size p\<bar> > position_tolerance (config e)"
    "loop_round ord mock_adapter t lat t2 te (e, x) = (e', x')"
  shows "flattens_triggered e' = flattens_triggered e + 1 \<and>
    (\<forall>k. dict_get (oms_positions (oms e)) k \<noteq> None \<longrightarrow> size_of (dict_get (mock_positions x') k) = 0) \<and>
    (\<forall>k. dict_get (oms_positions (oms e')) k =
       (if dict_get (mock_positions x) k \<noteq> None then None else dict_get (oms_positions (oms e)) k)) \<and>
    mock_get_open_orders None x' =
      filter (\<lambda>w. dict_get (oms_positions (oms e)) (os_symbol w) = None) (mock_get_open_orders None x)"
proof -
  have inv: "engine_inv e"
    using rec.run_inv [of "(e0, x0)" ord mock_adapter ops] engine_init_inv [OF assms(1)] by (simp add: assms(3) [symmetric])
  obtain r e1 where r: "reconcile ord mock_adapter t lat x e = (Inr r, e1)"
    by (simp add: reconcile_def mock_adapter_def Let_def)
  note e1 = reconcile_inv [OF inv r]
  obtain A B where "result_status r = determine_status (config e)
      (A @ check_positions ord (t 2) (position_tolerance (config e)) (oms_positions (oms e)) [] @ B)"
    using r by (auto simp: reconcile_def mock_adapter_def Let_def get_exchange_positions_def)
  moreover have "determine_status (config e)
      (A @ check_positions ord (t 2) (position_tolerance (config e)) (oms_positions (oms e)) [] @ B) = FATAL_DESYNC"
    using open_position_critical [OF assms(4,6-8), of "t 2"] by (intro critical_is_fatal) auto
  ultimately have "result_status r = FATAL_DESYNC" by simp
  moreover obtain err r' e2 x2 where h: "handle_fatal_desync ord mock_adapter t2 r x e1 = (err, r', e2, x2)"
    by (metis prod_cases4)
  let ?K = "dict_keys (oms_positions (oms e))"
  obtain m x1 where f: "flatten_all mock_adapter t2 0 ?K (oms e) x = (None, m, x1)"
    and p: "\<forall>s. dict_get (oms_positions m) s =
        (if s \<in> set ?K \<and> dict_get (mock_positions x) s \<noteq> None then None else dict_get (oms_positions (oms e)) s)"
    and z: "\<forall>s. s \<in> set ?K \<longrightarrow> size_of (dict_get (mock_positions x1) s) = 0"
    using flatten_all_mock [of t2 0 ?K "oms e" x] by blast
  obtain x3 where c: "cancel_everywhere mock_adapter (ord (set ?K)) x1 = (None, x3)" "mock_positions x3 = mock_positions x1"
    using mock_cancel_everywhere [of "ord (set ?K)" x1] by (metis prod.collapse)
  have h': "err = None" "x2 = x3" "oms e2 = m" "flattens_triggered e2 = flattens_triggered e + 1"
    using h e1 assms(2) by (auto simp: handle_fatal_desync_def Let_def f c(1) [unfolded list.set_map])
  ultimately have l: "x' = x3" "oms e' = m" "flattens_triggered e' = flattens_triggered e + 1"
    using assms(9) r h by (auto simp: loop_round_def Let_def split: if_splits)
  have "get_open_orders mock_adapter None x' =
      Inr (filter (\<lambda>w. dict_get (oms_positions (oms e1)) (os_symbol w) = None) (mock_get_open_orders None x))"
    using assms(2,5) h h' e1 l(1)
    by (intro mock.fatal_desync_orders [OF _ assms(4)]) (auto simp: mock_ok_def mock_adapter_def)
  moreover have "get_open_orders mock_adapter None x' = Inr (mock_get_open_orders None x')" by (simp add: mock_adapter_def)
  ultimately show ?thesis using l p z c(2) e1 dict_keys_get [of _ "oms_positions (oms e)"]
    by (auto simp del: list.set_map)
qed

theorem open_position_is_flattened_witness:
  "\<exists>e' x'. loop_round sorted_list_of_set mock_adapter (\<lambda>_. 7) 0 (\<lambda>_. 8) 9
       (demo_engine\<lparr>oms := update_position demo_position oms_empty\<rparr>, set_position ''BTC'' demo_position mock_init) = (e', x') \<and>
     flattens_triggered e' = 1 \<and> size_of (dict_get (mock_positions x') ''BTC'') = 0 \<and>
     dict_get (oms_positions (oms e')) ''BTC'' = None"
proof -
  let ?ops = "[Op_Update_Position demo_position, Op_Exchange (set_position ''BTC'' demo_position)]"
  let ?e = "demo_engine\<lparr>oms := update_position demo_position oms_empty\<rparr>"
  let ?x = "set_position ''BTC'' demo_position mock_init"
  have f: "(?e, ?x) = fold (engine_step sorted_list_of_set mock_adapter) ?ops (demo_engine, mock_init)"
    by (simp add: demo_engine_def)
  have l: "lists_sets (sorted_list_of_set :: string set \<Rightarrow> string list)" by (simp add: lists_sets_def)
  have a: "auto_flatten_on_fatal (config ?e)" and w: "wf_dict (mock_orders ?x)"
    by (simp_all add: demo_engine_def default_config_def set_position_def mock_init_def)
  have p: "dict_get (oms_positions (oms ?e)) ''BTC'' = Some demo_position" "is_float (ps_size demo_position)"
    by (simp_all add: update_position_def demo_position_def oms_empty_def is_float_def)
  have b: "\<bar>ps_size demo_position\<bar> > position_tolerance (config ?e)"
    using fl_small_pos(3) by (simp add: demo_engine_def default_config_def demo_position_def)
  obtain e' x' where r: "loop_round sorted_list_of_set mock_adapter (\<lambda>_. 7) 0 (\<lambda>_. 8) 9 (?e, ?x) = (e', x')" by fastforce
  from open_position_is_flattened [OF demo_engine_init a f l w p b r] p(1) r show ?thesis
    by (simp add: demo_engine_def set_position_def mock_init_def)
qed

text \<open>whatever rounds, updates of the order manager and events at the exchange happen, the drift history never
  exceeds its limit, and \<open>total_drifts\<close> counts at least what it holds.\<close>

theorem drift_history_bounded:
  assumes "engine_init cfg None = Inr e0" "(e, x) = fold (engine_step ord ad) ops (e0, x0)"
  shows "int (length (drift_history e)) \<le> max_drift_history (config e) \<and> int (length (drift_history e)) \<le> total_drifts e"
proof -
  have "engine_inv e"
    using rec.run_inv [of "(e0, x0)" ord ad ops] engine_init_inv [OF assms(1)] by (simp add: assms(2) [symmetric])
  then show ?thesis by (simp add: engine_inv_def)
qed

theorem drift_history_bounded_witness:
  "\<exists>e x. (e, x) = fold (engine_step sorted_list_of_set mock_adapter) [Op_Start, Op_Resolve 3, Op_Stop] (demo_engine, mock_init) \<and>
     int (length (drift_history e)) \<le> 1000"
proof -
  obtain e x where f: "(e, x) = fold (engine_step sorted_list_of_set mock_adapter) [Op_Start, Op_Resolve 3, Op_Stop] (demo_engine, mock_init)"
    by (metis prod.collapse)
  then have "max_drift_history (config e) = 1000"
    by (simp add: start_def stop_def resolve_drift_def demo_engine_def default_config_def)
  with drift_history_bounded [OF demo_engine_init f] f show ?thesis by auto
qed

end
