(* ===== verification/CommandBus.thy ===== *)
theory CommandBus
  imports Prelude
begin

text \<open>
  \<open>backend/cqrs/command_bus.py\<close>: validation, hooks, handler, metrics and history of a command. Validators,
  hooks, handlers and the execution engine are callers' code: functions that may change the world \<open>'w\<close>
  and may raise. They get the command by value (a callee that mutates the command object is not modelled),
  and calls run one after the other, as the bus's lock makes them. Elapsed times are arguments;
  messages are what they are formatted from.

  The locale \<open>guarded_command\<close> is what registering a validator gives: a command the validator's rule does
  not allow never reaches the handler. It is interpreted for \<open>RiskLimitValidator\<close>.
\<close>

section \<open>Commands\<close>

datatype CommandType =
    PLACE_ORDER | CANCEL_ORDER | MODIFY_ORDER | REPLACE_ORDER | CLOSE_POSITION | ADJUST_POSITION
  | REBALANCE_PORTFOLIO | SET_RISK_LIMIT | HALT_TRADING | RESUME_TRADING | SUBSCRIBE_SYMBOL
  | UNSUBSCRIBE_SYMBOL | REFRESH_ORDERBOOK | FLUSH_EVENT_STORE | CREATE_SNAPSHOT | SHUTDOWN

fun command_type_name :: "CommandType \<Rightarrow> string" where
  "command_type_name PLACE_ORDER = ''PLACE_ORDER''"
| "command_type_name CANCEL_ORDER = ''CANCEL_ORDER''"
| "command_type_name MODIFY_ORDER = ''MODIFY_ORDER''"
| "command_type_name REPLACE_ORDER = ''REPLACE_ORDER''"
| "command_type_name CLOSE_POSITION = ''CLOSE_POSITION''"
| "command_type_name ADJUST_POSITION = ''ADJUST_POSITION''"
| "command_type_name REBALANCE_PORTFOLIO = ''REBALANCE_PORTFOLIO''"
| "command_type_name SET_RISK_LIMIT = ''SET_RISK_LIMIT''"
| "command_type_name HALT_TRADING = ''HALT_TRADING''"
| "command_type_name RESUME_TRADING = ''RESUME_TRADING''"
| "command_type_name SUBSCRIBE_SYMBOL = ''SUBSCRIBE_SYMBOL''"
| "command_type_name UNSUBSCRIBE_SYMBOL = ''UNSUBSCRIBE_SYMBOL''"
| "command_type_name REFRESH_ORDERBOOK = ''REFRESH_ORDERBOOK''"
| "command_type_name FLUSH_EVENT_STORE = ''FLUSH_EVENT_STORE''"
| "command_type_name CREATE_SNAPSHOT = ''CREATE_SNAPSHOT''"
| "command_type_name SHUTDOWN = ''SHUTDOWN''"

datatype CommandStatus = PENDING | VALIDATING | EXECUTING | COMPLETED | FAILED | ROLLED_BACK

fun status_value :: "CommandStatus \<Rightarrow> string" where
  "status_value PENDING = ''pending''"
| "status_value VALIDATING = ''validating''"
| "status_value EXECUTING = ''executing''"
| "status_value COMPLETED = ''completed''"
| "status_value FAILED = ''failed''"
| "status_value ROLLED_BACK = ''rolled_back''"

record OrderPayload =
  pl_symbol :: string
  pl_side :: string
  pl_quantity :: pyfloat
  pl_price :: "pyfloat option"
  pl_order_type :: string
  pl_time_in_force :: string

record PositionPayload =
  pp_symbol :: string
  pp_action :: string
  pp_quantity :: "pyfloat option"
  pp_reason :: string

datatype payload = Order_Payload OrderPayload | Position_Payload PositionPayload | Other_Payload json

datatype message =
    Text string
  | Str_Of exn
  | No_Handler CommandType
  | Quantity_Exceeds pyfloat
  | Value_Exceeds pyfloat
  | Order_Placed "string option"
  | Order_Failed exn

record CommandResult =
  success :: bool
  result_message :: message
  result_command_id :: string
  execution_time_ms :: pyfloat
  result_data :: "(string \<times> json) list option"
  error_code :: "string option"
  rollback_performed :: bool

record Command =
  command_type :: CommandType
  cmd_payload :: payload
  command_id :: string
  correlation_id :: "string option"
  timestamp :: string
  source :: string
  priority :: int
  status :: CommandStatus

text \<open>\<open>Command(...)\<close> with \<open>__post_init__\<close>: the id is a fresh UUID unless given, the timestamp its ISO text.\<close>

definition new_command ::
    "CommandType \<Rightarrow> payload \<Rightarrow> string \<Rightarrow> string option \<Rightarrow> string \<Rightarrow> string \<Rightarrow> int \<Rightarrow> Command" where
  "new_command ct p cid corr ts src prio =
     \<lparr>command_type = ct, cmd_payload = p, command_id = cid,
      correlation_id = (case corr of None \<Rightarrow> Some cid | Some c \<Rightarrow> Some c),
      timestamp = ts, source = src, priority = prio, status = PENDING\<rparr>"

definition get_hash :: "(string \<Rightarrow> string) \<Rightarrow> Command \<Rightarrow> string" where
  "get_hash sha256 c =
     sha256 (command_id c @ '':CommandType.'' @ command_type_name (command_type c) @ '':'' @ timestamp c)"

definition command_to_dict :: "(payload \<Rightarrow> json) \<Rightarrow> Command \<Rightarrow> (string \<times> json) list" where
  "command_to_dict payload_json c =
     [(''command_id'', JStr (command_id c)),
      (''correlation_id'', case correlation_id c of None \<Rightarrow> JNull | Some s \<Rightarrow> JStr s),
      (''command_type'', JStr (command_type_name (command_type c))),
      (''payload'', payload_json (cmd_payload c)), (''timestamp'', JStr (timestamp c)),
      (''source'', JStr (source c)), (''priority'', JInt (priority c)),
      (''status'', JStr (status_value (status c)))]"

section \<open>The bus\<close>

type_synonym 'w validator = "Command \<Rightarrow> 'w \<Rightarrow> (exn + bool \<times> message) \<times> 'w"
type_synonym 'w handler = "Command \<Rightarrow> 'w \<Rightarrow> (exn + CommandResult) \<times> 'w"
type_synonym 'w pre_hook = "Command \<Rightarrow> 'w \<Rightarrow> exn option \<times> 'w"
type_synonym 'w post_hook = "Command \<Rightarrow> CommandResult \<Rightarrow> 'w \<Rightarrow> exn option \<times> 'w"

record 'w bus =
  validators :: "(CommandType, 'w validator list) dict"
  handlers :: "(CommandType, 'w handler) dict"
  pre_hooks :: "'w pre_hook list"
  post_hooks :: "'w post_hook list"
  command_history :: "Command list"
  is_running :: bool
  total_commands :: int
  successful_commands :: int
  failed_commands :: int
  total_execution_time_ms :: pyfloat

definition bus_init :: "'w bus" where
  "bus_init = \<lparr>validators = [], handlers = [], pre_hooks = [], post_hooks = [], command_history = [],
     is_running = True, total_commands = 0, successful_commands = 0, failed_commands = 0,
     total_execution_time_ms = 0\<rparr>"

definition validators_of :: "CommandType \<Rightarrow> 'w bus \<Rightarrow> 'w validator list" where
  "validators_of ct b = (case dict_get (validators b) ct of None \<Rightarrow> [] | Some vs \<Rightarrow> vs)"

definition register_validator :: "CommandType \<Rightarrow> 'w validator \<Rightarrow> 'w bus \<Rightarrow> 'w bus" where
  "register_validator ct v b = b\<lparr>validators := dict_set ct (validators_of ct b @ [v]) (validators b)\<rparr>"

definition register_handler :: "CommandType \<Rightarrow> 'w handler \<Rightarrow> 'w bus \<Rightarrow> 'w bus" where
  "register_handler ct h b = b\<lparr>handlers := dict_set ct h (handlers b)\<rparr>"

definition add_pre_hook :: "'w pre_hook \<Rightarrow> 'w bus \<Rightarrow> 'w bus" where
  "add_pre_hook h b = b\<lparr>pre_hooks := pre_hooks b @ [h]\<rparr>"

definition add_post_hook :: "'w post_hook \<Rightarrow> 'w bus \<Rightarrow> 'w bus" where
  "add_post_hook h b = b\<lparr>post_hooks := post_hooks b @ [h]\<rparr>"

fun validate_command :: "'w validator list \<Rightarrow> Command \<Rightarrow> 'w \<Rightarrow> (exn + bool \<times> message) \<times> 'w" where
  "validate_command [] c w = (Inr (True, Text ''''), w)"
| "validate_command (v # vs) c w =
     (case v c w of
        (Inl e, w') \<Rightarrow> (Inl e, w')
      | (Inr (False, msg), w') \<Rightarrow> (Inr (False, msg), w')
      | (Inr (True, msg), w') \<Rightarrow> validate_command vs c w')"

fun run_pre_hooks :: "'w pre_hook list \<Rightarrow> Command \<Rightarrow> 'w \<Rightarrow> exn option \<times> 'w" where
  "run_pre_hooks [] c w = (None, w)"
| "run_pre_hooks (h # hs) c w = (case h c w of (Some e, w') \<Rightarrow> (Some e, w') | (None, w') \<Rightarrow> run_pre_hooks hs c w')"

fun run_post_hooks :: "'w post_hook list \<Rightarrow> Command \<Rightarrow> CommandResult \<Rightarrow> 'w \<Rightarrow> exn option \<times> 'w" where
  "run_post_hooks [] c r w = (None, w)"
| "run_post_hooks (h # hs) c r w =
     (case h c r w of (Some e, w') \<Rightarrow> (Some e, w') | (None, w') \<Rightarrow> run_post_hooks hs c r w')"

definition failure :: "message \<Rightarrow> string \<Rightarrow> pyfloat \<Rightarrow> Command \<Rightarrow> CommandResult" where
  "failure msg code ms c = \<lparr>success = False, result_message = msg, result_command_id = command_id c,
     execution_time_ms = ms, result_data = None, error_code = Some code, rollback_performed = False\<rparr>"

text \<open>The body of the \<open>try\<close>: what the validators, hooks and handler give. \<open>Inr (Inl r)\<close> is the early return of
  a failed validation.\<close>

definition try_dispatch ::
    "Command \<Rightarrow> 'w bus \<Rightarrow> 'w \<Rightarrow> ((exn \<times> message) + (CommandResult + CommandResult)) \<times> 'w" where
  "try_dispatch c b w =
     (case validate_command (validators_of (command_type c) b) (c\<lparr>status := VALIDATING\<rparr>) w of
        (Inl e, w1) \<Rightarrow> (Inl (e, Str_Of e), w1)
      | (Inr (False, msg), w1) \<Rightarrow> (Inr (Inl (failure msg ''VALIDATION_FAILED'' 0 c)), w1)
      | (Inr (True, msg), w1) \<Rightarrow>
          (let c1 = c\<lparr>status := EXECUTING\<rparr> in
           case run_pre_hooks (pre_hooks b) c1 w1 of
             (Some e, w2) \<Rightarrow> (Inl (e, Str_Of e), w2)
           | (None, w2) \<Rightarrow>
               (case dict_get (handlers b) (command_type c) of
                  None \<Rightarrow> (Inl (OtherError ''ExecutionError'', No_Handler (command_type c)), w2)
                | Some h \<Rightarrow>
                    (case h c1 w2 of
                       (Inl e, w3) \<Rightarrow> (Inl (e, Str_Of e), w3)
                     | (Inr r, w3) \<Rightarrow>
                         (case run_post_hooks (post_hooks b) c1 r w3 of
                            (Some e, w4) \<Rightarrow> (Inl (e, Str_Of e), w4)
                          | (None, w4) \<Rightarrow> (Inr (Inr r), w4))))))"

definition append_history :: "Command \<Rightarrow> Command list \<Rightarrow> Command list" where
  "append_history c h = (let h' = h @ [c] in if length h' > 1000 then tl h' else h')"

text \<open>\<open>dispatch\<close>: the result, the command as it is left, the bus and the world. \<open>elapsed\<close> is in seconds.\<close>

definition dispatch :: "pyfloat \<Rightarrow> Command \<Rightarrow> 'w bus \<Rightarrow> 'w \<Rightarrow> CommandResult \<times> Command \<times> 'w bus \<times> 'w" where
  "dispatch elapsed c b w =
     (if \<not> is_running b then (failure (Text ''Command bus is not running'') ''BUS_NOT_RUNNING'' 0 c, c, b, w)
      else
        let ms = fmul elapsed 1000 in
        case try_dispatch c b w of
          (Inl (e, msg), w') \<Rightarrow>
            (failure msg ''EXECUTION_ERROR'' ms c, c\<lparr>status := FAILED\<rparr>,
             b\<lparr>total_commands := total_commands b + 1, failed_commands := failed_commands b + 1,
               total_execution_time_ms := fadd (total_execution_time_ms b) ms\<rparr>, w')
        | (Inr (Inl r), w') \<Rightarrow> (r, c\<lparr>status := FAILED\<rparr>, b, w')
        | (Inr (Inr r), w') \<Rightarrow>
            (let c' = c\<lparr>status := (if success r then COMPLETED else FAILED)\<rparr>
             in (r, c',
                 b\<lparr>total_commands := total_commands b + 1,
                   total_execution_time_ms := fadd (total_execution_time_ms b) ms,
                   successful_commands := successful_commands b + (if success r then 1 else 0),
                   failed_commands := failed_commands b + (if success r then 0 else 1),
                   command_history := append_history c' (command_history b)\<rparr>, w')))"

definition get_command_history :: "int \<Rightarrow> 'w bus \<Rightarrow> Command list" where
  "get_command_history limit b = slice_from (- limit) (command_history b)"

record metrics =
  m_total :: int
  m_successful :: int
  m_failed :: int
  m_success_rate :: pyfloat
  m_avg_execution_time :: pyfloat
  m_handlers :: int
  m_validators :: int

definition get_metrics :: "'w bus \<Rightarrow> metrics" where
  "get_metrics b =
     \<lparr>m_total = total_commands b, m_successful = successful_commands b, m_failed = failed_commands b,
      m_success_rate = (if total_commands b > 0 then idiv (successful_commands b) (total_commands b) else 0),
      m_avg_execution_time =
        (if total_commands b > 0 then fdiv (total_execution_time_ms b) (fl (of_int (total_commands b))) else 0),
      m_handlers = int (length (handlers b)),
      m_validators = sum_list (map (\<lambda>v. int (length v)) (dict_values (validators b)))\<rparr>"

definition shutdown :: "'w bus \<Rightarrow> 'w bus" where
  "shutdown b = b\<lparr>is_running := False\<rparr>"

section \<open>The risk validator and the order handler\<close>

record RiskLimitValidator =
  max_position_size :: pyfloat
  max_order_value :: pyfloat

definition risk_validate :: "RiskLimitValidator \<Rightarrow> 'w validator" where
  "risk_validate v c w =
     (case (command_type c, cmd_payload c) of
        (PLACE_ORDER, Order_Payload p) \<Rightarrow>
          if pl_quantity p > max_position_size v then (Inr (False, Quantity_Exceeds (max_position_size v)), w)
          else (case pl_price p of
                  Some price \<Rightarrow>
                    if price \<noteq> 0 \<and> fmul (pl_quantity p) price > max_order_value v
                    then (Inr (False, Value_Exceeds (max_order_value v)), w) else (Inr (True, Text ''''), w)
                | None \<Rightarrow> (Inr (True, Text ''''), w))
      | _ \<Rightarrow> (Inr (True, Text ''''), w))"

text \<open>\<open>OrderExecutionHandler\<close> over an execution engine's \<open>place_order\<close>. A payload without the order fields
  raises \<open>AttributeError\<close> inside the \<open>try\<close>.\<close>

definition order_handler :: "(OrderPayload \<Rightarrow> 'w \<Rightarrow> (exn + string option) \<times> 'w) \<Rightarrow> 'w handler" where
  "order_handler place_order c w =
     (let failed = (\<lambda>e. \<lparr>success = False, result_message = Order_Failed e, result_command_id = command_id c,
                 execution_time_ms = 0, result_data = None, error_code = Some ''ORDER_EXECUTION_FAILED'',
                 rollback_performed = False\<rparr>)
      in case cmd_payload c of
           Order_Payload p \<Rightarrow>
             (case place_order p w of
                (Inl e, w') \<Rightarrow> (Inr (failed e), w')
              | (Inr oid, w') \<Rightarrow>
                  (Inr \<lparr>success = True, result_message = Order_Placed oid, result_command_id = command_id c,
                        execution_time_ms = 0,
                        result_data = (case oid of None \<Rightarrow> None
                                       | Some i \<Rightarrow> if truthy_str oid then Some [(''order_id'', JStr i)] else None),
                        error_code = None, rollback_performed = False\<rparr>, w'))
         | _ \<Rightarrow> (Inr (failed (OtherError ''AttributeError'')), w))"

section \<open>What a validator guarantees\<close>

lemma validate_command_accepts:
  "validate_command vs c w = (Inr (True, msg), w') \<Longrightarrow> v \<in> set vs \<Longrightarrow> \<exists>w1 m w2. v c w1 = (Inr (True, m), w2)"
proof (induction vs arbitrary: w)
  case (Cons u vs)
  then obtain m w1 where u: "u c w = (Inr (True, m), w1)" "validate_command vs c w1 = (Inr (True, msg), w')"
    by (auto split: prod.splits sum.splits bool.splits)
  with Cons show ?case by auto
qed simp

locale guarded_command =
  fixes v :: "'w validator" and ct :: CommandType and allowed :: "payload \<Rightarrow> bool"
  assumes accepts: "command_type c = ct \<Longrightarrow> v c w = (Inr (True, msg), w') \<Longrightarrow> allowed (cmd_payload c)"
begin

text \<open>A command outside the rule ends in the validation: the hooks and the handler are not called.\<close>

lemma refused_in_validation:
  assumes "v \<in> set (validators_of ct b)" "command_type c = ct" "\<not> allowed (cmd_payload c)" "is_running b"
    "dispatch el c b w = (r, c', b', w')"
  shows "\<not> success r \<and> status c' = FAILED \<and> command_history b' = command_history b \<and>
     w' = snd (validate_command (validators_of ct b) (c\<lparr>status := VALIDATING\<rparr>) w)"
proof -
  obtain res w1 where val: "validate_command (validators_of ct b) (c\<lparr>status := VALIDATING\<rparr>) w = (res, w1)" by fastforce
  have "res \<noteq> Inr (True, msg)" for msg
    using validate_command_accepts [OF _ assms(1), of "c\<lparr>status := VALIDATING\<rparr>" w msg w1] accepts assms(2,3) val
    by (metis Command.select_convs(1,2) Command.surjective Command.update_convs(8))
  then consider e where "res = Inl e" | msg where "res = Inr (False, msg)"
    by (metis (full_types) sum.exhaust prod.exhaust)
  moreover have "validate_command (validators_of (command_type c) b) (c\<lparr>status := VALIDATING\<rparr>) w = (res, w1)"
    using val assms(2) by simp
  ultimately show ?thesis
    using assms(4,5) val by cases (auto simp: dispatch_def try_dispatch_def failure_def Let_def)
qed

end

definition within_limits :: "RiskLimitValidator \<Rightarrow> payload \<Rightarrow> bool" where
  "within_limits v p =
     (case p of Order_Payload q \<Rightarrow>
        pl_quantity q \<le> max_position_size v \<and>
        (case pl_price q of None \<Rightarrow> True | Some x \<Rightarrow> x = 0 \<or> fmul (pl_quantity q) x \<le> max_order_value v)
      | _ \<Rightarrow> True)"

lemma risk_validate_iff:
  "command_type c = PLACE_ORDER \<Longrightarrow>
     (\<exists>m. risk_validate v c w = (Inr (True, m), w)) = within_limits v (cmd_payload c)"
  by (auto simp: risk_validate_def within_limits_def split: payload.splits option.splits)

interpretation risk: guarded_command "risk_validate v" PLACE_ORDER "within_limits v" for v
proof
  show "within_limits v (cmd_payload c)"
    if "command_type c = PLACE_ORDER" "risk_validate v c w = (Inr (True, msg), w')" for c msg and w w' :: 'a
    using that by (auto simp: risk_validate_def within_limits_def split: payload.splits option.splits if_splits)
qed

section \<open>Calls in any order\<close>

datatype 'w bus_op =
    Op_Dispatch pyfloat Command
  | Op_Register_Validator CommandType "'w validator"
  | Op_Register_Handler CommandType "'w handler"
  | Op_Add_Pre_Hook "'w pre_hook"
  | Op_Add_Post_Hook "'w post_hook"
  | Op_Shutdown

fun bus_step :: "'w bus_op \<Rightarrow> 'w bus \<times> 'w \<Rightarrow> 'w bus \<times> 'w" where
  "bus_step (Op_Dispatch el c) (b, w) = (case dispatch el c b w of (r, c', b', w') \<Rightarrow> (b', w'))"
| "bus_step (Op_Register_Validator ct v) (b, w) = (register_validator ct v b, w)"
| "bus_step (Op_Register_Handler ct h) (b, w) = (register_handler ct h b, w)"
| "bus_step (Op_Add_Pre_Hook h) (b, w) = (add_pre_hook h b, w)"
| "bus_step (Op_Add_Post_Hook h) (b, w) = (add_post_hook h b, w)"
| "bus_step Op_Shutdown (b, w) = (shutdown b, w)"

definition bus_inv :: "'w bus \<Rightarrow> bool" where
  "bus_inv b \<longleftrightarrow>
     total_commands b = successful_commands b + failed_commands b \<and>
     0 \<le> successful_commands b \<and> 0 \<le> failed_commands b \<and>
     length (command_history b) \<le> 1000 \<and> int (length (command_history b)) \<le> total_commands b \<and>
     (\<forall>c \<in> set (command_history b). status c \<in> {COMPLETED, FAILED})"

lemma append_history_length:
  "length h \<le> 1000 \<Longrightarrow> length (append_history c h) \<le> 1000 \<and> length (append_history c h) \<le> length h + 1"
  by (auto simp: append_history_def Let_def)

lemma append_history_all: "\<forall>x \<in> set h. P x \<Longrightarrow> P c \<Longrightarrow> \<forall>x \<in> set (append_history c h). P x"
  by (cases h) (auto simp: append_history_def Let_def)

lemma dispatch_inv:
  assumes "bus_inv b" "dispatch el c b w = (r, c', b', w')"
  shows "bus_inv b'"
proof (cases "is_running b")
  case True
  obtain res w1 where t: "try_dispatch c b w = (res, w1)" by fastforce
  show ?thesis
  proof (cases res)
    case (Inl p)
    then show ?thesis using assms t True by (cases p) (auto simp: dispatch_def Let_def bus_inv_def)
  next
    case (Inr q)
    show ?thesis
    proof (cases q)
      case q: (Inr x)
      let ?h = "append_history (c\<lparr>status := (if success x then COMPLETED else FAILED)\<rparr>) (command_history b)"
      have "length ?h \<le> 1000 \<and> length ?h \<le> length (command_history b) + 1"
        using assms(1) by (intro append_history_length) (simp add: bus_inv_def)
      moreover have "\<forall>c \<in> set ?h. status c \<in> {COMPLETED, FAILED}"
        using assms(1) by (intro append_history_all) (auto simp: bus_inv_def)
      moreover have "command_history b' = ?h" "total_commands b' = total_commands b + 1"
        "successful_commands b' = successful_commands b + (if success x then 1 else 0)"
        "failed_commands b' = failed_commands b + (if success x then 0 else 1)"
        using assms(2) t True Inr q by (auto simp: dispatch_def Let_def)
      ultimately show ?thesis using assms(1) by (auto simp: bus_inv_def simp del: insert_iff)
    qed (use assms t True Inr in \<open>auto simp: dispatch_def Let_def\<close>)
  qed
qed (use assms in \<open>auto simp: dispatch_def\<close>)

lemma bus_step_inv [inv_intros]: "bus_inv (fst p) \<Longrightarrow> bus_inv (fst (bus_step x p))"
  by (cases p; cases x)
     (auto simp: register_validator_def register_handler_def add_pre_hook_def add_post_hook_def shutdown_def bus_inv_def
       split: prod.splits dest: dispatch_inv [unfolded bus_inv_def, rotated])

interpretation cb: op_machine bus_step "\<lambda>p. bus_inv (fst p)"
  by unfold_locales (rule bus_step_inv)

lemma validators_stay: "set (validators_of ct (fst p)) \<subseteq> set (validators_of ct (fst (bus_step x p)))"
proof -
  obtain b w where p: "p = (b, w)" by (cases p)
  have d: "validators (fst (snd (snd (dispatch el c b w)))) = validators b" for el c
    by (auto simp: dispatch_def Let_def split: sum.splits prod.splits)
  show ?thesis
  proof (cases x)
    case (Op_Dispatch el c)
    then show ?thesis using d [of el c] by (simp add: p validators_of_def split_beta)
  qed (auto simp: p register_validator_def register_handler_def add_pre_hook_def add_post_hook_def shutdown_def
        validators_of_def dict_get_set split: option.splits)
qed

lemma validators_stay_run: "set (validators_of ct (fst p)) \<subseteq> set (validators_of ct (fst (fold bus_step xs p)))"
proof (induction xs arbitrary: p)
  case (Cons x xs)
  have "set (validators_of ct (fst p)) \<subseteq> set (validators_of ct (fst (bus_step x p)))" by (rule validators_stay)
  also have "\<dots> \<subseteq> set (validators_of ct (fst (fold bus_step xs (bus_step x p))))" by (rule Cons.IH)
  finally show ?case by simp
qed simp

section \<open>Properties\<close>

text \<open>C5: once \<open>RiskLimitValidator\<close> is registered for orders, no order beyond its limits gets past validation,
  whatever is registered, dispatched or hooked in afterwards: the dispatch fails, nothing but the
  validators has acted on the world, no handler ran, and the history does not record the command.\<close>

theorem risk_limits_guard_orders:
  assumes "(b, w) = fold bus_step xs (register_validator PLACE_ORDER (risk_validate v) b0, w0)" "is_running b"
    "command_type c = PLACE_ORDER" "\<not> within_limits v (cmd_payload c)" "dispatch el c b w = (r, c', b', w')"
  shows "\<not> success r \<and> status c' = FAILED \<and> command_history b' = command_history b \<and>
     w' = snd (validate_command (validators_of PLACE_ORDER b) (c\<lparr>status := VALIDATING\<rparr>) w)"
proof (rule risk.refused_in_validation [OF _ assms(3,4,2,5)])
  have "risk_validate v \<in> set (validators_of PLACE_ORDER (register_validator PLACE_ORDER (risk_validate v) b0))"
    by (simp add: register_validator_def validators_of_def [of _ "validators_update _ _"] dict_get_set)
  then show "risk_validate v \<in> set (validators_of PLACE_ORDER b)"
    using validators_stay_run [of PLACE_ORDER "(register_validator PLACE_ORDER (risk_validate v) b0, w0)" xs]
    by (auto simp: assms(1) [symmetric])
qed

text \<open>An order, a handler that counts the quantity it executes in an integer world, and a bus with both.\<close>

definition demo_cmd :: "rat \<Rightarrow> rat option \<Rightarrow> Command" where
  "demo_cmd q p = new_command PLACE_ORDER
     (Order_Payload \<lparr>pl_symbol = ''BTC'', pl_side = ''buy'', pl_quantity = q, pl_price = p, pl_order_type = ''market'',
        pl_time_in_force = ''GTC''\<rparr>) ''c1'' None ''t'' ''demo'' 0"

definition demo_limits :: RiskLimitValidator where
  "demo_limits = \<lparr>max_position_size = 10, max_order_value = 100\<rparr>"

definition demo_handler :: "int handler" where
  "demo_handler = order_handler (\<lambda>p w. (Inr (Some ''x''), w + \<lfloor>pl_quantity p\<rfloor>))"

theorem risk_limits_guard_orders_witness:
  "\<exists>r c' b' w'. dispatch 0 (demo_cmd 11 None)
      (register_handler PLACE_ORDER demo_handler (register_validator PLACE_ORDER (risk_validate demo_limits) bus_init)) 5 =
      (r, c', b', w') \<and> \<not> success r \<and> w' = 5"
proof -
  let ?b = "register_handler PLACE_ORDER demo_handler (register_validator PLACE_ORDER (risk_validate demo_limits) bus_init)"
  have f: "(?b, 5) = fold bus_step [Op_Register_Handler PLACE_ORDER demo_handler]
      (register_validator PLACE_ORDER (risk_validate demo_limits) bus_init, 5)" by simp
  have b: "is_running ?b" "command_type (demo_cmd 11 None) = PLACE_ORDER"
    "\<not> within_limits demo_limits (cmd_payload (demo_cmd 11 None))"
    by (simp_all add: register_handler_def register_validator_def bus_init_def demo_cmd_def new_command_def
        within_limits_def demo_limits_def)
  obtain r c' b' w' where d: "dispatch 0 (demo_cmd 11 None) ?b 5 = (r, c', b', w')" by (metis prod_cases4)
  from risk_limits_guard_orders [OF f b d] d show ?thesis
    by (simp add: register_handler_def register_validator_def bus_init_def validators_of_def risk_validate_def
        demo_cmd_def new_command_def demo_limits_def)
qed

text \<open>an order without a price is never checked against \<open>max_order_value\<close>. A market order, or one with price
  0, or one with a negative quantity, that passes the quantity check is executed whatever its value: the
  result and the world are the handler's.\<close>

theorem unpriced_order_escapes_value_limit:
  assumes "command_type c = PLACE_ORDER" "cmd_payload c = Order_Payload p"
    "pl_quantity p \<le> max_position_size v"
    "pl_price p \<in> {None, Some 0} \<or> (pl_quantity p \<le> 0 \<and> 0 \<le> the (pl_price p) \<and> 0 \<le> max_order_value v)"
    "h (c\<lparr>status := EXECUTING\<rparr>) w = (Inr r, w')"
  shows "\<exists>c' b'. dispatch el c (register_handler PLACE_ORDER h (register_validator PLACE_ORDER (risk_validate v) bus_init)) w =
     (r, c', b', w')"
proof -
  have "fmul (pl_quantity p) x \<le> 0" if "pl_quantity p \<le> 0" "0 \<le> x" for x
    using fmul_nonneg [of "- pl_quantity p" x] that by (simp add: fmul_def fl_minus)
  then have "risk_validate v (c\<lparr>status := VALIDATING\<rparr>) w = (Inr (True, Text ''''), w)"
    using assms(1-4) by (force simp: risk_validate_def split: option.splits)
  then show ?thesis using assms(1,5)
    by (simp add: dispatch_def try_dispatch_def register_handler_def register_validator_def bus_init_def validators_of_def Let_def)
qed

theorem unpriced_order_escapes_value_limit_witness:
  "\<exists>r c' b'. dispatch 0 (demo_cmd 10 None)
      (register_handler PLACE_ORDER demo_handler (register_validator PLACE_ORDER (risk_validate demo_limits) bus_init)) 5 =
      (r, c', b', 15)"
proof -
  obtain p where p: "cmd_payload (demo_cmd 10 None) = Order_Payload p" "pl_quantity p = 10" "pl_price p = None"
    by (simp add: demo_cmd_def new_command_def)
  obtain r where h: "demo_handler ((demo_cmd 10 None)\<lparr>status := EXECUTING\<rparr>) 5 = (Inr r, 15)"
    by (simp add: demo_handler_def order_handler_def demo_cmd_def new_command_def)
  have c: "command_type (demo_cmd 10 None) = PLACE_ORDER" "pl_quantity p \<le> max_position_size demo_limits"
    "pl_price p \<in> {None, Some 0} \<or> (pl_quantity p \<le> 0 \<and> 0 \<le> the (pl_price p) \<and> 0 \<le> max_order_value demo_limits)"
    using p by (simp_all add: demo_cmd_def new_command_def demo_limits_def)
  from unpriced_order_escapes_value_limit [where h = demo_handler and w = 5, OF c(1) p(1) c(2,3) h] show ?thesis by blast
qed

text \<open>metrics and history after any sequence of calls: every counted command succeeded or failed, the history
  holds at most 1000 commands, never more than were counted, all of them finished.\<close>

theorem bus_metrics_consistent:
  "let b = fst (fold bus_step xs (bus_init, w)); m = get_metrics b
   in m_total m = m_successful m + m_failed m \<and> 0 \<le> m_successful m \<and> 0 \<le> m_failed m \<and>
      length (command_history b) \<le> 1000 \<and> int (length (command_history b)) \<le> m_total m \<and>
      set (map status (command_history b)) \<subseteq> {COMPLETED, FAILED}"
proof -
  have "bus_inv (fst (bus_init, w))" by (simp add: bus_inv_def bus_init_def)
  then have "bus_inv (fst (fold bus_step xs (bus_init, w)))" by (rule cb.run_inv)
  then show ?thesis by (auto simp: bus_inv_def get_metrics_def Let_def)
qed

text \<open>a post-hook that raises turns an executed command into a failed one. The handler succeeded and what it
  did to the world stays, but the caller gets \<open>EXECUTION_ERROR\<close> with \<open>rollback_performed\<close> false, the
  metrics count a failure, and the history does not have the command.\<close>

theorem post_hook_failure_hides_success:
  assumes "is_running b" "validate_command (validators_of (command_type c) b) (c\<lparr>status := VALIDATING\<rparr>) w = (Inr (True, msg), w1)"
    "run_pre_hooks (pre_hooks b) (c\<lparr>status := EXECUTING\<rparr>) w1 = (None, w2)"
    "dict_get (handlers b) (command_type c) = Some h" "h (c\<lparr>status := EXECUTING\<rparr>) w2 = (Inr r, w3)" "success r"
    "run_post_hooks (post_hooks b) (c\<lparr>status := EXECUTING\<rparr>) r w3 = (Some e, w4)"
  shows "\<exists>r' c' b'. dispatch el c b w = (r', c', b', w4) \<and> \<not> success r' \<and> error_code r' = Some ''EXECUTION_ERROR'' \<and>
     \<not> rollback_performed r' \<and> status c' = FAILED \<and> failed_commands b' = failed_commands b + 1 \<and>
     successful_commands b' = successful_commands b \<and> command_history b' = command_history b"
  using assms by (simp add: dispatch_def try_dispatch_def failure_def Let_def)

theorem post_hook_failure_hides_success_witness:
  "\<exists>r' c' b'. dispatch 0 (demo_cmd 10 None)
      (add_post_hook (\<lambda>c r w. (Some ValueError, w)) (register_handler PLACE_ORDER demo_handler bus_init)) 5 = (r', c', b', 15) \<and>
     \<not> success r'"
proof -
  let ?b = "add_post_hook (\<lambda>c r w. (Some ValueError, w)) (register_handler PLACE_ORDER demo_handler bus_init)"
  let ?c = "demo_cmd 10 None"
  obtain r where h: "demo_handler (?c\<lparr>status := EXECUTING\<rparr>) 5 = (Inr r, 15)" "success r"
    by (simp add: demo_handler_def order_handler_def demo_cmd_def new_command_def)
  have b: "is_running ?b" "validate_command (validators_of (command_type ?c) ?b) (?c\<lparr>status := VALIDATING\<rparr>) 5 = (Inr (True, Text ''''), 5)"
    "run_pre_hooks (pre_hooks ?b) (?c\<lparr>status := EXECUTING\<rparr>) 5 = (None, 5)"
    "dict_get (handlers ?b) (command_type ?c) = Some demo_handler"
    "run_post_hooks (post_hooks ?b) (?c\<lparr>status := EXECUTING\<rparr>) r 15 = (Some ValueError, 15)"
    by (simp_all add: add_post_hook_def register_handler_def bus_init_def validators_of_def demo_cmd_def new_command_def)
  from post_hook_failure_hides_success [OF b(1-4) h b(5)] show ?thesis by blast
qed

end
