(* ===== verification/AuditTrail.thy ===== *)
theory AuditTrail
  imports Prelude
begin

unbundle bit_operations_syntax

text \<open>
  \<open>backend/cqrs/audit_trail.py\<close>: the hash chain over events and its Merkle trees. The digest functions of
  \<open>hashlib\<close> and \<open>hmac\<close> and the text \<open>json.dumps\<close> gives are parameters (a record \<open>crypto\<close>); nothing is
  assumed of them but the length of a digest where a theorem says so, and collisions are exhibited, never
  excluded. Hex digests are strings; \<open>encode\<close> of such text is the identity.

  The lemmas: every chain built by the code verifies; what a chain that verifies with a given last hash
  can differ in; what the verification does not see; when a Merkle proof leads to the root.
\<close>

datatype HashAlgorithm = SHA256 | SHA384 | SHA512 | BLAKE2B

fun algorithm_value :: "HashAlgorithm \<Rightarrow> string" where
  "algorithm_value SHA256 = ''sha256''"
| "algorithm_value SHA384 = ''sha384''"
| "algorithm_value SHA512 = ''sha512''"
| "algorithm_value BLAKE2B = ''blake2b''"

record crypto =
  digest :: "HashAlgorithm \<Rightarrow> string \<Rightarrow> string"
  hmac_sha256 :: "string \<Rightarrow> string \<Rightarrow> string"
  dumps :: "json \<Rightarrow> string"

record HashChainNode =
  sequence :: int
  event_hash :: string
  previous_hash :: string
  cumulative_hash :: string
  node_timestamp :: string

definition node_to_dict :: "HashChainNode \<Rightarrow> (string \<times> json) list" where
  "node_to_dict n =
     [(''sequence'', JInt (sequence n)), (''event_hash'', JStr (event_hash n)),
      (''previous_hash'', JStr (previous_hash n)), (''cumulative_hash'', JStr (cumulative_hash n)),
      (''timestamp'', JStr (node_timestamp n))]"

datatype verify_error = Previous_Mismatch int | Corrupted_Cumulative int

record VerificationResult =
  is_valid :: bool
  verified_count :: int
  first_invalid_sequence :: "int option"
  error_message :: "verify_error option"
  verification_time_ms :: pyfloat

record trail =
  algorithm :: HashAlgorithm
  chain :: "HashChainNode list"
  hash_index :: "(int, HashChainNode) dict"
  genesis_hash :: string
  last_cumulative_hash :: string
  total_events :: int
  verification_count :: int

definition compute_hash :: "crypto \<Rightarrow> HashAlgorithm \<Rightarrow> string \<Rightarrow> string" where
  "compute_hash cr alg data = digest cr alg data"

definition compute_hmac :: "crypto \<Rightarrow> string \<Rightarrow> string \<Rightarrow> string" where
  "compute_hmac cr data key = hmac_sha256 cr key data"

definition trail_init :: "crypto \<Rightarrow> HashAlgorithm \<Rightarrow> trail" where
  "trail_init cr alg =
     (let g = compute_hash cr alg ''GENESIS_BLOCK_ZAID_TRADING_BOT''
      in \<lparr>algorithm = alg, chain = [], hash_index = [], genesis_hash = g, last_cumulative_hash = g,
          total_events = 0, verification_count = 0\<rparr>)"

definition hash_event :: "crypto \<Rightarrow> HashAlgorithm \<Rightarrow> json \<Rightarrow> string option \<Rightarrow> string" where
  "hash_event cr alg data key =
     (let event_bytes = dumps cr data; h = compute_hash cr alg event_bytes
      in case key of
           Some k \<Rightarrow> if truthy_str key then compute_hash cr alg (h @ compute_hmac cr event_bytes k) else h
         | None \<Rightarrow> h)"

text \<open>What a node's cumulative hash is taken of: \<open>f"{previous_hash}{event_hash}{sequence}"\<close>.\<close>

definition cumulative_input :: "string \<Rightarrow> string \<Rightarrow> int \<Rightarrow> string" where
  "cumulative_input prev ev s = prev @ ev @ int_str s"

definition append_event :: "crypto \<Rightarrow> int \<Rightarrow> json \<Rightarrow> string option \<Rightarrow> string \<Rightarrow> trail \<Rightarrow> HashChainNode \<times> trail" where
  "append_event cr s data key now t =
     (let ev = hash_event cr (algorithm t) data key;
          prev = last_cumulative_hash t;
          cum = compute_hash cr (algorithm t) (cumulative_input prev ev s);
          node = \<lparr>sequence = s, event_hash = ev, previous_hash = prev, cumulative_hash = cum, node_timestamp = now\<rparr>
      in (node, t\<lparr>chain := chain t @ [node], hash_index := dict_set s node (hash_index t),
                 last_cumulative_hash := cum, total_events := total_events t + 1\<rparr>))"

text \<open>The index the verification starts from: the first node with a sequence not below \<open>from_sequence\<close>, and 0
  when there is none.\<close>

fun find_from :: "int \<Rightarrow> nat \<Rightarrow> HashChainNode list \<Rightarrow> nat" where
  "find_from s i [] = 0"
| "find_from s i (n # ns) = (if sequence n \<ge> s then i else find_from s (Suc i) ns)"

fun verify_nodes :: "(string \<Rightarrow> string) \<Rightarrow> string \<Rightarrow> int \<Rightarrow> HashChainNode list \<Rightarrow> int \<times> (int \<times> verify_error) option" where
  "verify_nodes H prev count [] = (count, None)"
| "verify_nodes H prev count (n # ns) =
     (if previous_hash n \<noteq> prev then (count, Some (sequence n, Previous_Mismatch (sequence n)))
      else if cumulative_hash n \<noteq> H (cumulative_input (previous_hash n) (event_hash n) (sequence n))
      then (count, Some (sequence n, Corrupted_Cumulative (sequence n)))
      else verify_nodes H (cumulative_hash n) (count + 1) ns)"

definition verify_chain :: "crypto \<Rightarrow> int \<Rightarrow> pyfloat \<Rightarrow> trail \<Rightarrow> VerificationResult \<times> trail" where
  "verify_chain cr from_sequence elapsed t =
     (if chain t = [] then
        (\<lparr>is_valid = True, verified_count = 0, first_invalid_sequence = None, error_message = None,
          verification_time_ms = 0\<rparr>, t)
      else
        let start_idx = find_from from_sequence 0 (chain t);
            prev = (if start_idx = 0 then genesis_hash t else cumulative_hash (chain t ! (start_idx - 1)));
            (count, bad) = verify_nodes (compute_hash cr (algorithm t)) prev 0 (drop start_idx (chain t));
            t' = t\<lparr>verification_count := verification_count t + 1\<rparr>
        in case bad of
             None \<Rightarrow> (\<lparr>is_valid = True, verified_count = count, first_invalid_sequence = None, error_message = None,
                      verification_time_ms = fmul elapsed 1000\<rparr>, t')
           | Some (s, err) \<Rightarrow> (\<lparr>is_valid = False, verified_count = count, first_invalid_sequence = Some s,
                      error_message = Some err, verification_time_ms = fmul elapsed 1000\<rparr>, t'))"

definition verify_event :: "crypto \<Rightarrow> int \<Rightarrow> json \<Rightarrow> string option \<Rightarrow> trail \<Rightarrow> bool" where
  "verify_event cr s data key t =
     (case dict_get (hash_index t) s of
        None \<Rightarrow> False
      | Some n \<Rightarrow> hash_event cr (algorithm t) data key = event_hash n)"

section \<open>Merkle trees\<close>

fun next_level :: "(string \<Rightarrow> string) \<Rightarrow> string list \<Rightarrow> string list" where
  "next_level H [] = []"
| "next_level H [x] = [H (x @ x)]"
| "next_level H (x # y # zs) = H (x @ y) # next_level H zs"

lemma length_next_level: "length (next_level H xs) = (length xs + 1) div 2"
  by (induction H xs rule: next_level.induct) auto

function merkle_loop :: "(string \<Rightarrow> string) \<Rightarrow> string list \<Rightarrow> string list" where
  "merkle_loop H leaves = (if length leaves > 1 then merkle_loop H (next_level H leaves) else leaves)"
  by pat_completeness auto
termination
  by (relation "measure (\<lambda>(H, xs). length xs)") (auto simp: length_next_level)

declare merkle_loop.simps [simp del]

definition get_merkle_root :: "crypto \<Rightarrow> int list option \<Rightarrow> trail \<Rightarrow> string" where
  "get_merkle_root cr seqs t =
     (let H = compute_hash cr (algorithm t);
          ss = (case seqs of None \<Rightarrow> map sequence (chain t) | Some l \<Rightarrow> l);
          leaves = map event_hash (List.map_filter (dict_get (hash_index t)) (sort ss))
      in if ss = [] \<or> leaves = [] then H ''EMPTY_MERKLE_TREE'' else hd (merkle_loop H leaves))"

text \<open>A step of a proof: the sibling's hash and whether it stands to the left.\<close>

type_synonym proof_step = "string \<times> bool"

function proof_loop :: "(string \<Rightarrow> string) \<Rightarrow> string list \<Rightarrow> int \<Rightarrow> proof_step list \<times> string list" where
  "proof_loop H level index =
     (if length level > 1 then
        let sibling = index XOR 1;
            here = (if sibling < int (length level) then [(level ! nat sibling, sibling < index)] else []);
            (path, top) = proof_loop H (next_level H level) (index div 2)
        in (here @ path, top)
      else ([], level))"
  by pat_completeness auto
termination
  by (relation "measure (\<lambda>(H, xs, i). length xs)") (auto simp: length_next_level)

declare proof_loop.simps [simp del]

record merkle_proof =
  proof_sequence :: int
  proof_event_hash :: string
  proof_root :: string
  proof_path :: "proof_step list"
  chain_position :: nat

fun position_of :: "int \<Rightarrow> HashChainNode list \<Rightarrow> nat" where
  "position_of s [] = 0"
| "position_of s (n # ns) = (if sequence n = s then 0 else Suc (position_of s ns))"

text \<open>\<open>None\<close> is the answer \<open>{"error": "Event not found"}\<close>.\<close>

definition generate_proof :: "crypto \<Rightarrow> int \<Rightarrow> trail \<Rightarrow> merkle_proof option" where
  "generate_proof cr s t =
     (case dict_get (hash_index t) s of
        None \<Rightarrow> None
      | Some n \<Rightarrow>
          (let target = position_of s (chain t);
               (path, top) = proof_loop (compute_hash cr (algorithm t)) (map event_hash (chain t)) (int target)
           in Some \<lparr>proof_sequence = s, proof_event_hash = event_hash n, proof_root = (if top = [] then '''' else hd top),
                    proof_path = path, chain_position = target\<rparr>))"

definition get_chain_summary :: "trail \<Rightarrow> (string \<times> json) list" where
  "get_chain_summary t =
     (if chain t = [] then
        [(''total_events'', JInt 0), (''algorithm'', JStr (algorithm_value (algorithm t))),
         (''genesis_hash'', JStr (genesis_hash t))]
      else
        [(''total_events'', JInt (total_events t)), (''algorithm'', JStr (algorithm_value (algorithm t))),
         (''genesis_hash'', JStr (genesis_hash t)), (''latest_sequence'', JInt (sequence (last (chain t)))),
         (''latest_cumulative_hash'', JStr (last_cumulative_hash t)),
         (''verification_count'', JInt (verification_count t)),
         (''first_event_time'', JStr (node_timestamp (hd (chain t)))),
         (''last_event_time'', JStr (node_timestamp (last (chain t))))])"

definition export_chain :: "trail \<Rightarrow> (string \<times> json) list list" where
  "export_chain t = map node_to_dict (chain t)"

definition clear :: "trail \<Rightarrow> trail" where
  "clear t = t\<lparr>chain := [], hash_index := [], last_cumulative_hash := genesis_hash t, total_events := 0\<rparr>"

section \<open>Chains\<close>

text \<open>A chain is linked from \<open>prev\<close> when every node carries the hash of its predecessor and its own hash.\<close>

fun linked :: "(string \<Rightarrow> string) \<Rightarrow> string \<Rightarrow> HashChainNode list \<Rightarrow> bool" where
  "linked H prev [] \<longleftrightarrow> True"
| "linked H prev (n # ns) \<longleftrightarrow>
     previous_hash n = prev \<and> cumulative_hash n = H (cumulative_input prev (event_hash n) (sequence n)) \<and>
     linked H (cumulative_hash n) ns"

definition end_hash :: "string \<Rightarrow> HashChainNode list \<Rightarrow> string" where
  "end_hash prev ns = (if ns = [] then prev else cumulative_hash (last ns))"

lemma verify_nodes_linked:
  "verify_nodes H prev c ns = (k, None) \<longleftrightarrow> linked H prev ns \<and> k = c + int (length ns)"
  by (induction ns arbitrary: prev c) auto

lemma verify_nodes_None: "snd (verify_nodes H prev c ns) = None \<longleftrightarrow> linked H prev ns"
  using verify_nodes_linked [of H prev c ns "fst (verify_nodes H prev c ns)"]
  by (induction ns arbitrary: prev c) auto

lemma linked_append:
  "linked H prev (xs @ ys) \<longleftrightarrow> linked H prev xs \<and> linked H (end_hash prev xs) ys"
  by (induction xs arbitrary: prev) (auto simp: end_hash_def)

lemma end_hash_append: "end_hash prev (xs @ ys) = end_hash (end_hash prev xs) ys"
  by (simp add: end_hash_def)

definition trail_inv :: "crypto \<Rightarrow> trail \<Rightarrow> bool" where
  "trail_inv cr t \<longleftrightarrow>
     linked (compute_hash cr (algorithm t)) (genesis_hash t) (chain t) \<and>
     last_cumulative_hash t = end_hash (genesis_hash t) (chain t) \<and> wf_dict (hash_index t) \<and>
     (\<forall>s n. dict_get (hash_index t) s = Some n \<longrightarrow> n \<in> set (chain t) \<and> sequence n = s) \<and>
     (\<forall>n \<in> set (chain t). dict_get (hash_index t) (sequence n) \<noteq> None) \<and>
     total_events t = int (length (chain t))"

lemma trail_init_inv: "trail_inv cr (trail_init cr alg)"
  by (simp add: trail_inv_def trail_init_def end_hash_def Let_def)

lemma append_event_inv [inv_intros]: "trail_inv cr t \<Longrightarrow> trail_inv cr (snd (append_event cr s data key now t))"
  by (auto simp: trail_inv_def append_event_def Let_def linked_append end_hash_def dict_get_set split: if_splits)

lemma clear_inv [inv_intros]: "trail_inv cr t \<Longrightarrow> trail_inv cr (clear t)"
  by (simp add: trail_inv_def clear_def end_hash_def)

lemma verify_chain_inv [inv_intros]: "trail_inv cr t \<Longrightarrow> trail_inv cr (snd (verify_chain cr s el t))"
  by (auto simp: trail_inv_def verify_chain_def Let_def split: prod.splits option.splits)

datatype trail_op = Op_Append int json "string option" string | Op_Verify int pyfloat | Op_Clear

fun trail_step :: "crypto \<Rightarrow> trail_op \<Rightarrow> trail \<Rightarrow> trail" where
  "trail_step cr (Op_Append s data key now) t = snd (append_event cr s data key now t)"
| "trail_step cr (Op_Verify s el) t = snd (verify_chain cr s el t)"
| "trail_step cr Op_Clear t = clear t"

lemma trail_step_inv [inv_intros]: "trail_inv cr t \<Longrightarrow> trail_inv cr (trail_step cr x t)"
  by (cases x) (auto intro: inv_intros)

interpretation audit: op_machine "trail_step cr" "trail_inv cr" for cr
  by unfold_locales (rule trail_step_inv)

lemma find_from_bound: "find_from s i ns = 0 \<or> find_from s i ns < i + length ns"
  by (induction s i ns rule: find_from.induct) auto

lemma find_from_all: "\<forall>n \<in> set ns. s \<le> sequence n \<Longrightarrow> find_from s 0 ns = 0"
  by (cases ns) auto

lemma linked_drop:
  assumes "linked H g ns" "k \<le> length ns"
  shows "linked H (if k = 0 then g else cumulative_hash (ns ! (k - 1))) (drop k ns)"
proof -
  have "linked H (end_hash g (take k ns)) (drop k ns)"
    using assms(1) linked_append [of H g "take k ns" "drop k ns"] by simp
  moreover have "end_hash g (take k ns) = (if k = 0 then g else cumulative_hash (ns ! (k - 1)))"
    using assms(2) by (cases k) (auto simp: end_hash_def take_Suc_conv_app_nth)
  ultimately show ?thesis by simp
qed

text \<open>A linked chain verifies from any starting sequence; a chain that verifies from its beginning is linked.\<close>

lemma verify_chain_linked:
  assumes "linked (compute_hash cr (algorithm t)) (genesis_hash t) (chain t)"
  shows "is_valid (fst (verify_chain cr s el t)) \<and>
     verified_count (fst (verify_chain cr s el t)) = int (length (chain t) - find_from s 0 (chain t))"
proof (cases "chain t = []")
  case False
  let ?k = "find_from s 0 (chain t)" and ?H = "compute_hash cr (algorithm t)"
  let ?prev = "if ?k = 0 then genesis_hash t else cumulative_hash (chain t ! (?k - 1))"
  have "?k \<le> length (chain t)" using find_from_bound [of s 0 "chain t"] by auto
  then have "linked ?H ?prev (drop ?k (chain t))" by (rule linked_drop [OF assms])
  then have "verify_nodes ?H ?prev 0 (drop ?k (chain t)) = (int (length (chain t) - ?k), None)"
    by (simp only: verify_nodes_linked) simp
  then show ?thesis using False by (simp add: verify_chain_def Let_def)
qed (simp add: verify_chain_def)

lemma verify_chain_valid:
  assumes "is_valid (fst (verify_chain cr s el t))" "\<forall>n \<in> set (chain t). s \<le> sequence n"
  shows "linked (compute_hash cr (algorithm t)) (genesis_hash t) (chain t)"
proof (cases "chain t = []")
  case False
  obtain k bad where v: "verify_nodes (compute_hash cr (algorithm t)) (genesis_hash t) 0 (chain t) = (k, bad)" by fastforce
  then have "bad = None" using assms False
    by (auto simp: verify_chain_def Let_def find_from_all split: option.splits)
  with v show ?thesis using verify_nodes_linked by blast
qed simp

section \<open>Merkle proofs\<close>

text \<open>What a verifier of a proof computes from the leaf.\<close>

definition fold_proof :: "(string \<Rightarrow> string) \<Rightarrow> proof_step list \<Rightarrow> string \<Rightarrow> string" where
  "fold_proof H path leaf = fold (\<lambda>(h, left) acc. if left then H (h @ acc) else H (acc @ h)) path leaf"

lemma next_level_nth:
  "2 * i + 1 < length xs \<Longrightarrow> next_level H xs ! i = H (xs ! (2 * i) @ xs ! (2 * i + 1))"
proof (induction H xs arbitrary: i rule: next_level.induct)
  case (3 H x y zs)
  then show ?case by (cases i) auto
qed auto

lemma int_xor_1: "(int i XOR 1) = (if even i then int i + 1 else int i - 1)"
  by (simp add: xor_one_eq)

lemma proof_folds_to_root:
  "length level = 2 ^ k \<Longrightarrow> i < 2 ^ k \<Longrightarrow>
     fold_proof H (fst (proof_loop H level (int i))) (level ! i) = hd (snd (proof_loop H level (int i))) \<and>
     snd (proof_loop H level (int i)) \<noteq> []"
proof (induction k arbitrary: level i)
  case 0
  then show ?case by (subst (1 2 3) proof_loop.simps) (cases level; auto simp: fold_proof_def)
next
  case (Suc k)
  let ?next = "next_level H level" and ?j = "i div 2"
  have len: "length ?next = 2 ^ k" using Suc.prems(1) by (simp add: length_next_level)
  have j: "?j < 2 ^ k" using Suc.prems(2) by auto
  note IH = Suc.IH [OF len j]
  have "2 * ?j + 1 < length level" using j Suc.prems(1) by simp
  then have n: "?next ! ?j = H (level ! (2 * ?j) @ level ! (2 * ?j + 1))" by (rule next_level_nth)
  have "(1::nat) < 2 ^ Suc k" by (rule one_less_power) simp_all
  then have l1: "1 < length level" using Suc.prems(1) by simp
  obtain path top where p: "proof_loop H ?next (int ?j) = (path, top)" by fastforce
  have dv: "int i div 2 = int ?j" by simp
  show ?case
  proof (cases "even i")
    case True
    then have i: "i = 2 * ?j" by simp
    then have "int i + 1 < int (length level)" using \<open>2 * ?j + 1 < length level\<close> by linarith
    then have "proof_loop H level (int i) = ((level ! Suc i, False) # path, top)"
      using l1 True p by (subst proof_loop.simps) (simp add: Let_def int_xor_1 dv nat_add_distrib)
    moreover have "?next ! ?j = H (level ! i @ level ! Suc i)" using n i by simp
    ultimately show ?thesis using IH p by (simp add: fold_proof_def)
  next
    case False
    then have i: "i = 2 * ?j + 1" by presburger
    have "i < length level" using Suc.prems by simp
    with i have "int i - 1 < int (length level)" "nat (int i - 1) = 2 * ?j" by linarith+
    then have "proof_loop H level (int i) = ((level ! (2 * ?j), True) # path, top)"
      using l1 False p by (subst proof_loop.simps) (simp add: Let_def int_xor_1 dv)
    moreover have "?next ! ?j = H (level ! (2 * ?j) @ level ! i)" using n i by simp
    ultimately show ?thesis using IH p by (simp add: fold_proof_def)
  qed
qed

lemma proof_loop_root: "snd (proof_loop H level i) = merkle_loop H level"
proof (induction H level i rule: proof_loop.induct)
  case (1 H level i)
  show ?case
    using 1 by (subst proof_loop.simps, subst merkle_loop.simps) (auto simp: Let_def split: prod.splits)
qed

lemma proof_loop_three:
  "proof_loop H [a, b, c] 2 = ([(H (a @ b), True)], [H (H (a @ b) @ H (c @ c))])"
  by (simp add: proof_loop.simps Let_def)

section \<open>Two chains with the same last hash\<close>

definition node_input :: "HashChainNode \<Rightarrow> string" where
  "node_input n = cumulative_input (previous_hash n) (event_hash n) (sequence n)"

definition node_content :: "HashChainNode \<Rightarrow> int \<times> string \<times> string \<times> string" where
  "node_content n = (sequence n, event_hash n, previous_hash n, cumulative_hash n)"

text \<open>With hashes of one length the input of a digest determines the node.\<close>

lemma node_input_inj:
  assumes "node_input m = node_input n" "length (previous_hash m) = length (previous_hash n)"
    "length (event_hash m) = length (event_hash n)"
  shows "sequence m = sequence n \<and> event_hash m = event_hash n \<and> previous_hash m = previous_hash n"
  using assms by (auto simp: node_input_def cumulative_input_def dest: int_str_inj)

lemma linked_prev_length:
  "linked H g ns \<Longrightarrow> (\<And>x. length (H x) = L) \<Longrightarrow> length g = L \<Longrightarrow> n \<in> set ns \<Longrightarrow> length (previous_hash n) = L"
  by (induction ns arbitrary: g) auto

lemma linked_cumulative:
  "linked H g ns \<Longrightarrow> n \<in> set ns \<Longrightarrow> cumulative_hash n = H (node_input n)"
  by (induction ns arbitrary: g) (auto simp: node_input_def)

lemma same_end_same_chain:
  assumes "linked H g ns" "linked H g ms" "length ns = length ms" "end_hash g ns = end_hash g ms"
    "\<And>x. length (H x) = L" "length g = L" "\<forall>n \<in> set (ns @ ms). length (event_hash n) = L"
  shows "map node_content ns = map node_content ms \<or>
     (\<exists>i < length ns. node_input (ns ! i) \<noteq> node_input (ms ! i) \<and> H (node_input (ns ! i)) = H (node_input (ms ! i)))"
  using assms(1-4,7)
proof (induction ns arbitrary: ms rule: rev_induct)
  case (snoc n ns)
  then obtain m ms' where ms: "ms = ms' @ [m]" "length ms' = length ns"
    by (metis length_append_singleton length_Suc_conv_rev)
  have cn: "cumulative_hash n = H (node_input n)" "cumulative_hash m = H (node_input m)"
    using snoc.prems(1,2) by (auto intro: linked_cumulative simp: ms(1))
  have eq: "cumulative_hash n = cumulative_hash m" using snoc.prems(4) by (simp add: ms end_hash_def)
  have pl: "length (previous_hash n) = L" "length (previous_hash m) = L"
    using linked_prev_length [OF snoc.prems(1) assms(5,6)] linked_prev_length [OF snoc.prems(2) assms(5,6)] by (auto simp: ms(1))
  show ?case
  proof (cases "node_input n = node_input m")
    case True
    then have same: "sequence n = sequence m \<and> event_hash n = event_hash m \<and> previous_hash n = previous_hash m"
      using pl snoc.prems(5) by (intro node_input_inj) (auto simp: ms(1))
    have l: "linked H g ns" "previous_hash n = end_hash g ns" "linked H g ms'" "previous_hash m = end_hash g ms'"
      using snoc.prems(1,2) by (auto simp: ms(1) linked_append)
    have "map node_content ns = map node_content ms' \<or>
       (\<exists>i < length ns. node_input (ns ! i) \<noteq> node_input (ms' ! i) \<and> H (node_input (ns ! i)) = H (node_input (ms' ! i)))"
      using snoc.prems(5) l same by (intro snoc.IH) (auto simp: ms)
    then show ?thesis
    proof
      assume "map node_content ns = map node_content ms'"
      moreover have "node_content n = node_content m" using same eq by (simp add: node_content_def)
      ultimately show ?thesis by (simp add: ms(1))
    next
      assume "\<exists>i < length ns. node_input (ns ! i) \<noteq> node_input (ms' ! i) \<and> H (node_input (ns ! i)) = H (node_input (ms' ! i))"
      then obtain i where i: "i < length ns" "node_input (ns ! i) \<noteq> node_input (ms' ! i)"
        "H (node_input (ns ! i)) = H (node_input (ms' ! i))" by blast
      then show ?thesis using ms by (intro disjI2 exI [of _ i]) (simp add: nth_append)
    qed
  next
    case False
    then show ?thesis using cn eq ms by (intro disjI2 exI [of _ "length ns"]) (simp add: nth_append)
  qed
qed simp

section \<open>Properties\<close>

text \<open>a trail the code built verifies. After any sequence of appends (signed or not, in any order of
  sequence numbers), verifications and clears, \<open>verify_chain\<close> from any sequence number finds the chain
  valid and counts the nodes from the starting one to the end.\<close>

theorem built_chain_verifies:
  "is_valid (fst (verify_chain cr s el (fold (trail_step cr) xs (trail_init cr alg)))) \<and>
   verified_count (fst (verify_chain cr s el (fold (trail_step cr) xs (trail_init cr alg)))) =
     int (length (chain (fold (trail_step cr) xs (trail_init cr alg))) -
          find_from s 0 (chain (fold (trail_step cr) xs (trail_init cr alg))))"
  by (rule verify_chain_linked)
     (use audit.run_inv [OF trail_init_inv, of cr xs alg] in \<open>simp add: trail_inv_def\<close>)

text \<open>C7: tamper evidence, for event hashes of the digest's length. Take two trails with one algorithm and one genesis, as many events (at
  least one) and the same last cumulative hash. If both pass \<open>verify_chain\<close> from a sequence number \<open>s\<close> that no event of either is below,
  so that the verification covers every event, and if every event hash of both, the genesis and every digest have one and the same length,
  then they agree in every sequence number and hash - or at some position the two trails exhibit a collision of the digest. The condition on
  the event hashes is needed, for the code does not check it: \<open>tampering_not_detected\<close> moves digits between hash and sequence number.\<close>

theorem tamper_evidence:
  assumes "is_valid (fst (verify_chain cr s e1 t))" "is_valid (fst (verify_chain cr s e2 t'))"
    "\<forall>n \<in> set (chain t @ chain t'). s \<le> sequence n \<and> length (event_hash n) = L"
    "\<And>x. length (compute_hash cr (algorithm t) x) = L" "length (genesis_hash t) = L"
    "algorithm t' = algorithm t" "genesis_hash t' = genesis_hash t" "length (chain t) = length (chain t')"
    "chain t \<noteq> []" "cumulative_hash (last (chain t)) = cumulative_hash (last (chain t'))"
  shows "map node_content (chain t) = map node_content (chain t') \<or>
     (\<exists>i < length (chain t). node_input (chain t ! i) \<noteq> node_input (chain t' ! i) \<and>
        compute_hash cr (algorithm t) (node_input (chain t ! i)) = compute_hash cr (algorithm t) (node_input (chain t' ! i)))"
proof (rule same_end_same_chain)
  show "linked (compute_hash cr (algorithm t)) (genesis_hash t) (chain t)"
    using verify_chain_valid [OF assms(1)] assms(3) by auto
  show "linked (compute_hash cr (algorithm t)) (genesis_hash t) (chain t')"
    using verify_chain_valid [OF assms(2)] assms(3,6,7) by auto
  show "end_hash (genesis_hash t) (chain t) = end_hash (genesis_hash t) (chain t')"
    using assms(8-10) by (auto simp: end_hash_def)
qed (use assms in auto)

text \<open>A digest of length one, and the trail of one event under it.\<close>

definition demo_crypto :: crypto where
  "demo_crypto = \<lparr>digest = \<lambda>alg x. [CHR ''h''], hmac_sha256 = \<lambda>k x. [CHR ''m''], dumps = \<lambda>j. ''{}''\<rparr>"

definition demo_trail :: "string \<Rightarrow> trail" where
  "demo_trail now = fold (trail_step demo_crypto) [Op_Append 12 JNull None now] (trail_init demo_crypto SHA256)"

lemma demo_trail_fields:
  "chain (demo_trail now) = [\<lparr>sequence = 12, event_hash = ''h'', previous_hash = ''h'', cumulative_hash = ''h'',
     node_timestamp = now\<rparr>]" "genesis_hash (demo_trail now) = ''h''" "algorithm (demo_trail now) = SHA256"
  by (simp_all add: demo_trail_def append_event_def Let_def trail_init_def demo_crypto_def hash_event_def compute_hash_def)

theorem tamper_evidence_witness:
  "map node_content (chain (demo_trail ''a'')) = map node_content (chain (demo_trail ''b'')) \<or>
     (\<exists>i < 1. node_input (chain (demo_trail ''a'') ! i) \<noteq> node_input (chain (demo_trail ''b'') ! i))"
proof -
  have v: "is_valid (fst (verify_chain demo_crypto 0 0 (demo_trail x)))" for x
    by (simp add: verify_chain_def demo_trail_fields compute_hash_def demo_crypto_def)
  show ?thesis
    using tamper_evidence [where L = 1, OF v [of "''a''"] v [of "''b''"]]
    by (auto simp: demo_trail_fields compute_hash_def demo_crypto_def)
qed

text \<open>what \<open>verify_chain\<close> does not detect. Cutting off any number of the last events, changing every timestamp, and
  moving digits between the end of an event's hash and the front of its sequence number (their texts are
  only concatenated) leave a built trail valid, although the last cumulative hash the trail itself
  remembers may no longer be that of the chain.\<close>

theorem tampering_not_detected:
  assumes "t = fold (trail_step cr) xs (trail_init cr alg)"
    "list_all2 (\<lambda>m n. previous_hash m = previous_hash n \<and> cumulative_hash m = cumulative_hash n \<and>
       event_hash m @ int_str (sequence m) = event_hash n @ int_str (sequence n)) ns (chain t)"
  shows "is_valid (fst (verify_chain cr s el (t\<lparr>chain := take k ns\<rparr>)))"
proof -
  have "linked H g ms" if "list_all2 (\<lambda>m n. previous_hash m = previous_hash n \<and> cumulative_hash m = cumulative_hash n \<and>
       event_hash m @ int_str (sequence m) = event_hash n @ int_str (sequence n)) ms ns" "linked H g ns" for H g ms ns
    using that by (induction arbitrary: g rule: list_all2_induct) (auto simp: cumulative_input_def)
  moreover have "linked (compute_hash cr (algorithm t)) (genesis_hash t) (chain t)"
    using audit.run_inv [OF trail_init_inv, of cr xs alg] assms(1) by (simp add: trail_inv_def)
  ultimately have "linked (compute_hash cr (algorithm t)) (genesis_hash t) ns" using assms(2) by blast
  then have "linked (compute_hash cr (algorithm t)) (genesis_hash t) (take k ns)"
    using linked_append [of _ _ "take k ns" "drop k ns"] by simp
  then show ?thesis using verify_chain_linked [of cr "t\<lparr>chain := take k ns\<rparr>"] by simp
qed

theorem tampering_not_detected_witness:
  "is_valid (fst (verify_chain demo_crypto 0 0 ((demo_trail ''a'')\<lparr>chain := take 1
     [\<lparr>sequence = 2, event_hash = ''h1'', previous_hash = ''h'', cumulative_hash = ''h'', node_timestamp = ''z''\<rparr>]\<rparr>)))"
proof -
  have "int_str 12 = ''12''" "int_str 2 = ''2''" by code_simp+
  then show ?thesis by (intro tampering_not_detected [OF demo_trail_def]) (simp add: demo_trail_fields)
qed

text \<open>C31: a Merkle proof leads to the root when the number of events is a power of two. For a built trail of
  that size with distinct sequence numbers, \<open>generate_proof\<close> gives the event's own hash, its position and a
  path that folds to the root, and that root is the one the tree over the chain has.\<close>

theorem merkle_proof_folds:
  assumes "t = fold (trail_step cr) xs (trail_init cr alg)" "length (chain t) = 2 ^ k"
    "distinct (map sequence (chain t))" "i < 2 ^ k" "s = sequence (chain t ! i)"
  shows "\<exists>p. generate_proof cr s t = Some p \<and> proof_event_hash p = event_hash (chain t ! i) \<and> chain_position p = i \<and>
     fold_proof (compute_hash cr (algorithm t)) (proof_path p) (proof_event_hash p) = proof_root p \<and>
     proof_root p = hd (merkle_loop (compute_hash cr (algorithm t)) (map event_hash (chain t)))"
proof -
  let ?H = "compute_hash cr (algorithm t)" and ?l = "map event_hash (chain t)"
  have inv: "trail_inv cr t" unfolding assms(1) by (rule audit.run_inv [OF trail_init_inv])
  have i: "i < length (chain t)" using assms(2,4) by simp
  then have mem: "chain t ! i \<in> set (chain t)" by simp
  then obtain n where n: "dict_get (hash_index t) s = Some n" "n \<in> set (chain t)" "sequence n = s"
    using inv assms(5) unfolding trail_inv_def by (metis not_None_eq)
  have "n = chain t ! i" using n(2,3) mem assms(3,5) by (simp add: distinct_map inj_on_def)
  moreover have "position_of s ns = j" if "j < length ns" "distinct (map sequence ns)" "s = sequence (ns ! j)" for ns j
    using that by (induction ns arbitrary: j) (auto simp: nth_Cons split: nat.splits)
  then have "position_of s (chain t) = i" using i assms(3,5) by blast
  moreover obtain path top where p: "proof_loop ?H ?l (int i) = (path, top)" by fastforce
  have "fold_proof ?H path (?l ! i) = hd top \<and> top \<noteq> []"
    using proof_folds_to_root [of ?l k i ?H] assms(2,4) p by simp
  moreover have "top = merkle_loop ?H ?l" using proof_loop_root [of ?H ?l "int i"] p by simp
  ultimately show ?thesis using n(1) p i by (simp add: generate_proof_def Let_def)
qed

theorem merkle_proof_folds_witness:
  "\<exists>p. generate_proof demo_crypto 12 (demo_trail ''a'') = Some p \<and> chain_position p = 0 \<and> proof_event_hash p = ''h''"
  using merkle_proof_folds [where k = 0 and i = 0, OF demo_trail_def] by (auto simp: demo_trail_fields)

text \<open>with an odd number of events the proof of the last one is incomplete. In a built trail of three events with
  distinct sequence numbers the root hashes the third leaf with itself first, but its proof has
  one step only, so folding it from the leaf gives the root just when two different texts have the same
  digest, or the leaf is its own doubled digest.\<close>

theorem odd_merkle_proof_incomplete:
  assumes "t = fold (trail_step cr) xs (trail_init cr alg)" "chain t = [a, b, c]"
    "distinct [sequence a, sequence b, sequence c]" "H = compute_hash cr (algorithm t)"
  shows "\<exists>p. generate_proof cr (sequence c) t = Some p \<and>
     proof_path p = [(H (event_hash a @ event_hash b), True)] \<and>
     proof_root p = H (H (event_hash a @ event_hash b) @ H (event_hash c @ event_hash c)) \<and>
     fold_proof H (proof_path p) (proof_event_hash p) = H (H (event_hash a @ event_hash b) @ event_hash c)"
proof -
  have inv: "trail_inv cr t" unfolding assms(1) by (rule audit.run_inv [OF trail_init_inv])
  have "c \<in> set (chain t)" by (simp add: assms(2))
  then obtain n where n: "dict_get (hash_index t) (sequence c) = Some n" "n \<in> set (chain t)" "sequence n = sequence c"
    using inv unfolding trail_inv_def by (metis not_None_eq)
  have "n = c" using n(2,3) assms(2,3) by auto
  moreover have "proof_loop H (map event_hash (chain t)) 2 =
      ([(H (event_hash a @ event_hash b), True)], [H (H (event_hash a @ event_hash b) @ H (event_hash c @ event_hash c))])"
    by (simp add: assms(2) proof_loop_three)
  moreover have "position_of (sequence c) (chain t) = 2" using assms(3) by (simp add: assms(2))
  ultimately show ?thesis using n(1)
    by (simp add: generate_proof_def Let_def fold_proof_def assms(4) [symmetric])
qed

theorem odd_merkle_proof_incomplete_witness:
  "\<exists>p. generate_proof demo_crypto 3 (fold (trail_step demo_crypto)
       [Op_Append 1 JNull None ''a'', Op_Append 2 JNull None ''b'', Op_Append 3 JNull None ''c''] (trail_init demo_crypto SHA256)) = Some p \<and>
     proof_path p = [(''h'', True)]"
proof -
  let ?t = "fold (trail_step demo_crypto)
       [Op_Append 1 JNull None ''a'', Op_Append 2 JNull None ''b'', Op_Append 3 JNull None ''c''] (trail_init demo_crypto SHA256)"
  let ?n = "\<lambda>i ts. \<lparr>sequence = i, event_hash = ''h'', previous_hash = ''h'', cumulative_hash = ''h'', node_timestamp = ts\<rparr>"
  have c: "chain ?t = [?n 1 ''a'', ?n 2 ''b'', ?n 3 ''c'']"
    by (simp add: append_event_def Let_def trail_init_def demo_crypto_def hash_event_def compute_hash_def)
  have d: "distinct [sequence (?n 1 ''a''), sequence (?n 2 ''b''), sequence (?n 3 ''c'')]" by simp
  from odd_merkle_proof_incomplete [OF refl c d refl] show ?thesis by (auto simp: compute_hash_def demo_crypto_def)
qed

end
