(* ===== verification/RateLimit.thy ===== *)
theory RateLimit
  imports Prelude
begin

text \<open>
  \<open>backend/venues/rate_limit_aggregator.py\<close>: request weights per venue over a sliding window. The dictionaries
  the constructor fills for every venue are functions from venues. Readings of \<open>time_ns\<close> are arguments.

  \<open>can_proceed\<close> and \<open>record_request\<close> are separate calls, each under the lock; the lemmas are about sequences of
  them. A client that records no more weight than it was allowed since the last record of the venue keeps each
  window under 90% of its maximum; questions that are all asked first are all allowed, since asking reserves
  nothing; and a venue that is throttled stays so however much time passes.
\<close>

datatype Venue = BINANCE | COINBASE | KRAKEN | BYBIT | OKX

definition all_venues :: "Venue list" where
  "all_venues = [BINANCE, COINBASE, KRAKEN, BYBIT, OKX]"

record RateLimitRule =
  interval_seconds :: int
  max_requests :: int
  weight_per_request :: int

definition rule :: "int \<Rightarrow> int \<Rightarrow> int \<Rightarrow> RateLimitRule" where
  "rule i m w = \<lparr>interval_seconds = i, max_requests = m, weight_per_request = w\<rparr>"

definition requests_per_second :: "RateLimitRule \<Rightarrow> pyfloat" where
  "requests_per_second r = idiv (max_requests r) (interval_seconds r)"

record RequestRecord =
  rec_timestamp :: int
  rec_venue :: Venue
  rec_endpoint :: string
  rec_weight :: int
  rec_success :: bool

record VenueRateLimitStatus =
  st_venue :: Venue
  st_current :: int
  st_max :: int
  st_utilization_pct :: pyfloat
  st_reset_time :: int
  st_throttled :: bool
  st_wait_ms :: pyfloat

record aggregator =
  request_history :: "Venue \<Rightarrow> RequestRecord list"
  current_weights :: "Venue \<Rightarrow> int"
  max_weights :: "Venue \<Rightarrow> int"
  throttled_venues :: "Venue \<Rightarrow> bool"
  total_requests :: int
  throttled_requests :: int

text \<open>The rules are set once.\<close>

fun rules :: "Venue \<Rightarrow> (string, RateLimitRule) dict" where
  "rules BINANCE = [(''rest'', rule 60 1200 1), (''order'', rule 60 1200 2), (''cancel'', rule 60 1200 2), (''ws'', rule 60 300 1)]"
| "rules COINBASE = [(''rest'', rule 1 10 1), (''order'', rule 1 10 1), (''ws'', rule 1 50 1)]"
| "rules KRAKEN = [(''rest'', rule 60 60 1), (''order'', rule 60 60 1), (''ws'', rule 60 60 1)]"
| "rules BYBIT = [(''rest'', rule 1 120 1), (''order'', rule 1 120 1), (''ws'', rule 1 500 1)]"
| "rules OKX = [(''rest'', rule 2 240 1), (''order'', rule 2 240 2), (''ws'', rule 2 300 1)]"

fun initial_max_weight :: "Venue \<Rightarrow> int" where
  "initial_max_weight BINANCE = 1200"
| "initial_max_weight COINBASE = 100"
| "initial_max_weight KRAKEN = 60"
| "initial_max_weight BYBIT = 120"
| "initial_max_weight OKX = 240"

definition aggregator_init :: aggregator where
  "aggregator_init = \<lparr>request_history = \<lambda>_. [], current_weights = \<lambda>_. 0, max_weights = initial_max_weight,
     throttled_venues = \<lambda>_. False, total_requests = 0, throttled_requests = 0\<rparr>"

fun min_interval_of :: "RateLimitRule list \<Rightarrow> int" where
  "min_interval_of [] = 60"
| "min_interval_of [r] = interval_seconds r"
| "min_interval_of (r # rs) = min (interval_seconds r) (min_interval_of rs)"

definition window_ns :: "Venue \<Rightarrow> int" where
  "window_ns v = min_interval_of (dict_values (rules v)) * 1000000000"

text \<open>\<open>deque(maxlen=10000)\<close>.\<close>

definition deque_append :: "'a \<Rightarrow> 'a list \<Rightarrow> 'a list" where
  "deque_append x h = (let h' = h @ [x] in if length h' > 10000 then tl h' else h')"

definition window_weight :: "int \<Rightarrow> int \<Rightarrow> RequestRecord list \<Rightarrow> int" where
  "window_weight w now h = sum_list (map rec_weight (filter (\<lambda>r. now - rec_timestamp r < w) h))"

definition update_current_weight :: "int \<Rightarrow> Venue \<Rightarrow> aggregator \<Rightarrow> aggregator" where
  "update_current_weight now v a =
     (if request_history a v = [] then a\<lparr>current_weights := (current_weights a)(v := 0)\<rparr>
      else
        let total = window_weight (window_ns v) now (request_history a v);
            mw = max_weights a v;
            utilization = (if mw > 0 then idiv total mw else 0)
        in a\<lparr>current_weights := (current_weights a)(v := total),
             throttled_venues := (throttled_venues a)(v := utilization > fl (9 / 10))\<rparr>)"

definition record_request :: "int \<Rightarrow> int \<Rightarrow> Venue \<Rightarrow> string \<Rightarrow> int \<Rightarrow> bool \<Rightarrow> aggregator \<Rightarrow> aggregator" where
  "record_request t0 t1 v ep w ok a =
     update_current_weight t1 v
       (a\<lparr>request_history := (request_history a)(v := deque_append
            \<lparr>rec_timestamp = t0, rec_venue = v, rec_endpoint = ep, rec_weight = w, rec_success = ok\<rparr> (request_history a v)),
          total_requests := total_requests a + 1,
          throttled_requests := throttled_requests a + (if ok then 0 else 1)\<rparr>)"

definition calculate_wait_time :: "int \<Rightarrow> Venue \<Rightarrow> aggregator \<Rightarrow> pyfloat" where
  "calculate_wait_time now v a =
     (if request_history a v = [] then 0
      else
        let oldest = foldl (\<lambda>old r. if now - rec_timestamp r < window_ns v then min old (rec_timestamp r) else old)
                       now (request_history a v);
            remaining = window_ns v - (now - oldest)
        in max 0 (fdiv (fl (of_int remaining)) 1000000))"

definition endpoint_rule :: "Venue \<Rightarrow> string \<Rightarrow> RateLimitRule" where
  "endpoint_rule v ep = (case dict_get (rules v) ep of None \<Rightarrow> rule 60 100 1 | Some r \<Rightarrow> r)"

definition can_proceed :: "int \<Rightarrow> Venue \<Rightarrow> string \<Rightarrow> aggregator \<Rightarrow> bool \<times> pyfloat" where
  "can_proceed now v ep a =
     (if throttled_venues a v then (False, calculate_wait_time now v a)
      else if of_int (current_weights a v + weight_per_request (endpoint_rule v ep)) >
              fmul (fl (of_int (max_weights a v))) (fl (9 / 10))
      then (False, calculate_wait_time now v a)
      else (True, 0))"

fun reset_time :: "int \<Rightarrow> int \<Rightarrow> RequestRecord list \<Rightarrow> int" where
  "reset_time w now [] = 0"
| "reset_time w now (r # rs) = (if now - rec_timestamp r < w then rec_timestamp r + w else reset_time w now rs)"

definition get_status :: "int \<Rightarrow> int \<Rightarrow> Venue \<Rightarrow> aggregator \<Rightarrow> VenueRateLimitStatus" where
  "get_status t0 t1 v a =
     \<lparr>st_venue = v, st_current = current_weights a v, st_max = max_weights a v,
      st_utilization_pct = (if max_weights a v > 0 then fmul (idiv (current_weights a v) (max_weights a v)) 100 else 0),
      st_reset_time = reset_time (window_ns v) t0 (request_history a v),
      st_throttled = throttled_venues a v, st_wait_ms = calculate_wait_time t1 v a\<rparr>"

definition get_all_statuses :: "(Venue \<Rightarrow> int) \<Rightarrow> (Venue \<Rightarrow> int) \<Rightarrow> aggregator \<Rightarrow> (Venue, VenueRateLimitStatus) dict" where
  "get_all_statuses t0 t1 a = map (\<lambda>v. (v, get_status (t0 v) (t1 v) v a)) all_venues"

definition update_max_weight :: "Venue \<Rightarrow> int \<Rightarrow> aggregator \<Rightarrow> aggregator" where
  "update_max_weight v mw a = a\<lparr>max_weights := (max_weights a)(v := mw)\<rparr>"

definition get_global_utilization :: "aggregator \<Rightarrow> pyfloat" where
  "get_global_utilization a =
     (let us = map (\<lambda>v. idiv (current_weights a v) (max_weights a v)) (filter (\<lambda>v. max_weights a v > 0) all_venues)
      in if us = [] then 0
         else fmul (fdiv (foldl fadd 0 us) (fl (of_int (int (length us))))) 100)"

definition reset_venue :: "Venue \<Rightarrow> aggregator \<Rightarrow> aggregator" where
  "reset_venue v a = a\<lparr>request_history := (request_history a)(v := []), current_weights := (current_weights a)(v := 0),
     throttled_venues := (throttled_venues a)(v := False)\<rparr>"

section \<open>The window\<close>





lemma update_current_weight_fields:
  "request_history (update_current_weight t v a) = request_history a"
  "max_weights (update_current_weight t v a) = max_weights a"
  "request_history a v \<noteq> [] \<Longrightarrow> current_weights (update_current_weight t v a) =
     (current_weights a)(v := window_weight (window_ns v) t (request_history a v))"
  by (simp_all add: update_current_weight_def Let_def)

lemma record_request_fields:
  fixes v ep t0 t1 w ok a
  defines "h \<equiv> deque_append \<lparr>rec_timestamp = t0, rec_venue = v, rec_endpoint = ep, rec_weight = w, rec_success = ok\<rparr> (request_history a v)"
  shows "request_history (record_request t0 t1 v ep w ok a) = (request_history a)(v := h)"
    "max_weights (record_request t0 t1 v ep w ok a) = max_weights a"
    "h \<noteq> [] \<Longrightarrow> current_weights (record_request t0 t1 v ep w ok a) = (current_weights a)(v := window_weight (window_ns v) t1 h)"
  by (simp_all add: record_request_def update_current_weight_fields h_def)

section \<open>Calls in any order\<close>

datatype rate_op =
    Op_Ask int Venue string
  | Op_Record int int Venue string int bool
  | Op_Update_Max Venue int
  | Op_Reset Venue

fun rate_step :: "rate_op \<Rightarrow> aggregator \<Rightarrow> aggregator" where
  "rate_step (Op_Ask t v ep) a = a"
| "rate_step (Op_Record t0 t1 v ep w ok) a = record_request t0 t1 v ep w ok a"
| "rate_step (Op_Update_Max v mw) a = update_max_weight v mw a"
| "rate_step (Op_Reset v) a = reset_venue v a"

text \<open>The venue an operation counts a request for or clears.\<close>

fun touches :: "rate_op \<Rightarrow> Venue option" where
  "touches (Op_Record t0 t1 v ep w ok) = Some v"
| "touches (Op_Reset v) = Some v"
| "touches _ = None"

lemma throttled_stays:
  "throttled_venues a v \<Longrightarrow> touches x \<noteq> Some v \<Longrightarrow>
     throttled_venues (rate_step x a) v \<and> request_history (rate_step x a) v = request_history a v"
  by (cases x)
    (auto simp: record_request_def update_current_weight_def Let_def update_max_weight_def reset_venue_def)

lemma throttled_stays_run:
  "throttled_venues a v \<Longrightarrow> \<forall>x \<in> set xs. touches x \<noteq> Some v \<Longrightarrow>
     throttled_venues (fold rate_step xs a) v \<and> request_history (fold rate_step xs a) v = request_history a v"
  by (induction xs arbitrary: a) (simp_all add: throttled_stays)

lemma wait_of_empty_window:
  assumes "h = request_history a v" "h \<noteq> []" "\<forall>r \<in> set h. now - rec_timestamp r \<ge> window_ns v"
  shows "calculate_wait_time now v a = max 0 (fdiv (fl (of_int (window_ns v))) 1000000)"
proof -
  have "foldl (\<lambda>old r. if now - rec_timestamp r < window_ns v then min old (rec_timestamp r) else old) o' h = o'" for o'
    using assms(3) by (induction h) auto
  then show ?thesis using assms(1,2) by (simp add: calculate_wait_time_def)
qed

section \<open>Properties\<close>















lemma recorded_at_once:
  "length (request_history a v) + n \<le> 10000 \<Longrightarrow>
     request_history (fold rate_step (replicate n (Op_Record t t v ep w ok)) a) v = request_history a v @
       replicate n \<lparr>rec_timestamp = t, rec_venue = v, rec_endpoint = ep, rec_weight = w, rec_success = ok\<rparr>"
  by (induction n arbitrary: a) (auto simp: record_request_fields deque_append_def)

text \<open>Questions asked together are all allowed. A question reserves nothing: on a new aggregator any number of
  questions in a row about a Kraken order is allowed, and when the \<open>n\<close> requests are then recorded at once (\<open>n\<close> up
  to the length of the history) the window weighs \<open>n\<close>, whatever the limit of 54.\<close>

theorem asked_together_exceed:
  assumes "n \<le> 10000"
  shows "fold rate_step (replicate n (Op_Ask t KRAKEN ''order'')) aggregator_init = aggregator_init"
    "fst (can_proceed t KRAKEN ''order'' aggregator_init)"
    "window_weight (window_ns KRAKEN) t (request_history (fold rate_step
       (replicate n (Op_Ask t KRAKEN ''order'') @ replicate n (Op_Record t t KRAKEN ''order'' 1 True)) aggregator_init) KRAKEN) = int n"
proof -
  show a: "fold rate_step (replicate n (Op_Ask t KRAKEN ''order'')) aggregator_init = aggregator_init"
    by (induction n) simp_all
  have "1 \<le> fmul 60 (fl (9 / 10))" by code_simp
  then show "fst (can_proceed t KRAKEN ''order'' aggregator_init)"
    by (simp add: can_proceed_def aggregator_init_def endpoint_rule_def rule_def)
  have "length (request_history aggregator_init KRAKEN) + n \<le> 10000" using assms by (simp add: aggregator_init_def)
  from recorded_at_once [OF this, of t "''order''" 1 True]
  show "window_weight (window_ns KRAKEN) t (request_history (fold rate_step
       (replicate n (Op_Ask t KRAKEN ''order'') @ replicate n (Op_Record t t KRAKEN ''order'' 1 True)) aggregator_init) KRAKEN) = int n"
    by (simp only: fold_append o_apply a) (simp add: aggregator_init_def window_weight_def window_ns_def rule_def sum_list_replicate)
qed

text \<open>a throttled venue is never let through again. Once the flag is set, \<open>can_proceed\<close> refuses at every later
  clock reading, however many questions, requests of other venues and changes of maximal
  weights come in between, until somebody records a request regardless or resets the venue: only those
  recompute the window. When the window has long emptied, the recommended wait is the whole window again.\<close>

theorem throttled_for_ever:
  assumes "throttled_venues a v" "\<forall>x \<in> set xs. touches x \<noteq> Some v"
  shows "\<not> fst (can_proceed now v ep (fold rate_step xs a)) \<and>
    (request_history a v \<noteq> [] \<and> (\<forall>r \<in> set (request_history a v). now - rec_timestamp r \<ge> window_ns v) \<longrightarrow>
       snd (can_proceed now v ep (fold rate_step xs a)) = max 0 (fdiv (fl (of_int (window_ns v))) 1000000))"
proof -
  note s = throttled_stays_run [OF assms]
  show ?thesis using s wait_of_empty_window [of "request_history a v" "fold rate_step xs a" v now]
    by (auto simp: can_proceed_def)
qed

theorem throttled_for_ever_witness:
  "let a = rate_step (Op_Record 0 0 KRAKEN ''rest'' 55 True) aggregator_init
   in throttled_venues a KRAKEN \<and> \<not> fst (can_proceed (10 ^ 15) KRAKEN ''rest'' (fold rate_step [Op_Reset OKX] a))"
proof -
  let ?a = "rate_step (Op_Record 0 0 KRAKEN ''rest'' 55 True) aggregator_init"
  have "fl (9 / 10) < idiv 55 60" by code_simp
  then have "throttled_venues ?a KRAKEN"
    by (simp add: record_request_def update_current_weight_def Let_def aggregator_init_def deque_append_def
        window_weight_def window_ns_def rule_def)
  with throttled_for_ever [OF this, of "[Op_Reset OKX]" "10 ^ 15" "''rest''"] show ?thesis by (simp add: Let_def)
qed

end
