(* ===== verification/OrderBook.thy ===== *)
theory OrderBook
  imports Prelude
begin

text \<open>
  \<open>backend/websockets/orderbook_manager.py\<close>: local order books kept from a snapshot and incremental updates.
  The sorted dictionaries come from the third-party package \<open>sortedcontainers\<close>: a record \<open>sd\<close> of the
  operations the code calls, with their documented laws in the locale \<open>sorted_dict\<close> (a map whose items are
  listed by increasing key); an association list kept sorted is an instance. \<open>Decimal(text)\<close> is a function
  \<open>dec\<close> with \<open>None\<close> for text that raises \<open>InvalidOperation\<close>; the decimal itself is exact. Clock readings
  are arguments.

  The lemmas: an accepted update is the update of a plain map followed by keeping the best levels; the best
  bid and ask; what a gap in the update ids leaves behind.
\<close>

datatype OrderBookState = DISCONNECTED | INITIALIZING | SYNCHRONIZING | READY | STALE

fun state_value :: "OrderBookState \<Rightarrow> string" where
  "state_value DISCONNECTED = ''disconnected''"
| "state_value INITIALIZING = ''initializing''"
| "state_value SYNCHRONIZING = ''synchronizing''"
| "state_value READY = ''ready''"
| "state_value STALE = ''stale''"

record PriceLevel =
  lv_price :: decimal
  lv_quantity :: decimal
  lv_order_count :: int

definition price_level :: "decimal \<Rightarrow> decimal \<Rightarrow> PriceLevel" where
  "price_level p q = \<lparr>lv_price = p, lv_quantity = q, lv_order_count = 1\<rparr>"

record OrderBookSnapshot =
  sn_symbol :: string
  sn_bids :: "(decimal \<times> decimal) list"
  sn_asks :: "(decimal \<times> decimal) list"
  sn_timestamp :: int
  sn_last_update_id :: int

section \<open>The sorted dictionary\<close>

record 'm SortedDict =
  sd_new :: 'm
  sd_set :: "pyfloat \<Rightarrow> PriceLevel \<Rightarrow> 'm \<Rightarrow> 'm"
  sd_pop :: "pyfloat \<Rightarrow> 'm \<Rightarrow> 'm"
  sd_len :: "'m \<Rightarrow> int"
  sd_get :: "'m \<Rightarrow> pyfloat \<Rightarrow> PriceLevel option"
  sd_peekitem :: "'m \<Rightarrow> nat \<Rightarrow> pyfloat \<times> PriceLevel"
  sd_pop_last :: "'m \<Rightarrow> 'm"

section \<open>One book\<close>

record 'm LocalOrderBook =
  symbol :: string
  max_depth :: int
  bids :: 'm
  asks :: 'm
  last_update_id :: int
  first_update_id :: "int option"
  book_timestamp :: int
  book_state :: OrderBookState
  update_count :: int
  snapshot_count :: int
  last_message_time :: pyfloat

definition book_init :: "'m SortedDict \<Rightarrow> string \<Rightarrow> int \<Rightarrow> 'm LocalOrderBook" where
  "book_init sd smb d = \<lparr>symbol = smb, max_depth = d, bids = sd_new sd, asks = sd_new sd, last_update_id = 0,
     first_update_id = None, book_timestamp = 0, book_state = DISCONNECTED, update_count = 0, snapshot_count = 0,
     last_message_time = 0\<rparr>"

text \<open>The key of a price: its float, negated on the bid side.\<close>

definition price_key :: "bool \<Rightarrow> decimal \<Rightarrow> pyfloat" where
  "price_key bid p = (if bid then - fl p else fl p)"

definition load_levels :: "'m SortedDict \<Rightarrow> bool \<Rightarrow> (decimal \<times> decimal) list \<Rightarrow> 'm" where
  "load_levels sd bid ls = fold (\<lambda>(p, q). sd_set sd (price_key bid p) (price_level p q)) ls (sd_new sd)"

definition set_snapshot :: "'m SortedDict \<Rightarrow> pyfloat \<Rightarrow> OrderBookSnapshot \<Rightarrow> 'm LocalOrderBook \<Rightarrow> 'm LocalOrderBook" where
  "set_snapshot sd now s b =
     b\<lparr>bids := load_levels sd True (sn_bids s), asks := load_levels sd False (sn_asks s),
       last_update_id := sn_last_update_id s, first_update_id := Some (sn_last_update_id s),
       book_timestamp := sn_timestamp s, last_message_time := now, book_state := READY\<rparr>"

text \<open>The updates of one side in their order; an unreadable text raises with the levels before it applied.\<close>

fun apply_levels :: "'m SortedDict \<Rightarrow> (string \<Rightarrow> decimal option) \<Rightarrow> bool \<Rightarrow> (string \<times> string) list \<Rightarrow> 'm \<Rightarrow> exn option \<times> 'm" where
  "apply_levels sd dec bid [] m = (None, m)"
| "apply_levels sd dec bid ((ps, qs) # ls) m =
     (case (dec ps, dec qs) of
        (Some p, Some q) \<Rightarrow>
          apply_levels sd dec bid ls
            (if q = 0 then sd_pop sd (price_key bid p) m else sd_set sd (price_key bid p) (price_level p q) m)
      | _ \<Rightarrow> (Some (OtherError ''InvalidOperation''), m))"

text \<open>\<open>while len(levels) > max_depth: levels.popitem(index=-1)\<close>, with the number of items left: popping from an
  empty dictionary (a negative \<open>max_depth\<close>) raises.\<close>

fun trim_loop :: "'m SortedDict \<Rightarrow> int \<Rightarrow> nat \<Rightarrow> 'm \<Rightarrow> exn option \<times> 'm" where
  "trim_loop sd d 0 m = (if sd_len sd m > d then (Some KeyError, m) else (None, m))"
| "trim_loop sd d (Suc n) m = (if sd_len sd m > d then trim_loop sd d n (sd_pop_last sd m) else (None, m))"

definition trim_depth :: "'m SortedDict \<Rightarrow> int \<Rightarrow> 'm \<Rightarrow> exn option \<times> 'm" where
  "trim_depth sd d m = trim_loop sd d (nat (sd_len sd m)) m"

definition apply_delta ::
    "'m SortedDict \<Rightarrow> (string \<Rightarrow> decimal option) \<Rightarrow> pyfloat \<Rightarrow> (string \<times> string) list \<Rightarrow> (string \<times> string) list \<Rightarrow> int \<Rightarrow> int \<Rightarrow>
     'm LocalOrderBook \<Rightarrow> (exn + bool) \<times> 'm LocalOrderBook" where
  "apply_delta sd dec now dbids dasks update_id ts b =
     (if first_update_id b \<noteq> None \<and> update_id \<le> last_update_id b then (Inr False, b)
      else
        let b0 = (if first_update_id b \<noteq> None \<and> update_id > last_update_id b + 1 then b\<lparr>book_state := STALE\<rparr> else b);
            (e1, m1) = apply_levels sd dec True dbids (bids b0);
            b1 = b0\<lparr>bids := m1\<rparr>
        in case e1 of Some e \<Rightarrow> (Inl e, b1) | None \<Rightarrow>
        let (e2, m2) = apply_levels sd dec False dasks (asks b1);
            b2 = b1\<lparr>asks := m2\<rparr>
        in case e2 of Some e \<Rightarrow> (Inl e, b2) | None \<Rightarrow>
        let (e3, m3) = trim_depth sd (max_depth b2) (bids b2);
            b3 = b2\<lparr>bids := m3\<rparr>
        in case e3 of Some e \<Rightarrow> (Inl e, b3) | None \<Rightarrow>
        let (e4, m4) = trim_depth sd (max_depth b3) (asks b3);
            b4 = b3\<lparr>asks := m4\<rparr>
        in case e4 of Some e \<Rightarrow> (Inl e, b4) | None \<Rightarrow>
        (Inr True, b4\<lparr>last_update_id := update_id, book_timestamp := ts, last_message_time := now,
                      update_count := update_count b4 + 1, book_state := READY\<rparr>))"

definition best :: "'m SortedDict \<Rightarrow> 'm \<Rightarrow> PriceLevel option" where
  "best sd m = (if sd_len sd m > 0 then Some (snd (sd_peekitem sd m 0)) else None)"

definition get_best_bid :: "'m SortedDict \<Rightarrow> 'm LocalOrderBook \<Rightarrow> PriceLevel option" where
  "get_best_bid sd b = best sd (bids b)"

definition get_best_ask :: "'m SortedDict \<Rightarrow> 'm LocalOrderBook \<Rightarrow> PriceLevel option" where
  "get_best_ask sd b = best sd (asks b)"

definition get_mid_price :: "'m SortedDict \<Rightarrow> 'm LocalOrderBook \<Rightarrow> decimal option" where
  "get_mid_price sd b =
     (case (get_best_bid sd b, get_best_ask sd b) of
        (Some x, Some y) \<Rightarrow> Some (ddiv (dadd (lv_price x) (lv_price y)) 2) | _ \<Rightarrow> None)"

definition get_spread :: "'m SortedDict \<Rightarrow> 'm LocalOrderBook \<Rightarrow> decimal option" where
  "get_spread sd b =
     (case (get_best_bid sd b, get_best_ask sd b) of
        (Some x, Some y) \<Rightarrow> Some (dsub (lv_price y) (lv_price x)) | _ \<Rightarrow> None)"

definition get_spread_bps :: "'m SortedDict \<Rightarrow> 'm LocalOrderBook \<Rightarrow> pyfloat option" where
  "get_spread_bps sd b =
     (case (get_mid_price sd b, get_spread sd b) of
        (Some mid, Some spread) \<Rightarrow>
          if mid \<noteq> 0 \<and> spread \<noteq> 0 \<and> mid > 0 then Some (fl (dmul (ddiv spread mid) 10000)) else None
      | _ \<Rightarrow> None)"

definition top_levels :: "'m SortedDict \<Rightarrow> int \<Rightarrow> 'm \<Rightarrow> (decimal \<times> decimal) list" where
  "top_levels sd depth m =
     map (\<lambda>i. let l = snd (sd_peekitem sd m i) in (lv_price l, lv_quantity l)) [0..<nat (min depth (sd_len sd m))]"

definition get_bids :: "'m SortedDict \<Rightarrow> int \<Rightarrow> 'm LocalOrderBook \<Rightarrow> (decimal \<times> decimal) list" where
  "get_bids sd depth b = top_levels sd depth (bids b)"

definition get_asks :: "'m SortedDict \<Rightarrow> int \<Rightarrow> 'm LocalOrderBook \<Rightarrow> (decimal \<times> decimal) list" where
  "get_asks sd depth b = top_levels sd depth (asks b)"

definition get_volume_at_price :: "'m SortedDict \<Rightarrow> decimal \<Rightarrow> string \<Rightarrow> 'm LocalOrderBook \<Rightarrow> decimal" where
  "get_volume_at_price sd p sd_side b =
     (case (if sd_side = ''bid'' then sd_get sd (bids b) (price_key True p) else sd_get sd (asks b) (price_key False p)) of
        None \<Rightarrow> 0 | Some l \<Rightarrow> lv_quantity l)"

definition get_cumulative_volume :: "'m SortedDict \<Rightarrow> string \<Rightarrow> int \<Rightarrow> 'm LocalOrderBook \<Rightarrow> decimal" where
  "get_cumulative_volume sd sd_side depth b =
     (let m = (if sd_side = ''bid'' then bids b else asks b)
      in foldl dadd 0 (map (\<lambda>i. lv_quantity (snd (sd_peekitem sd m i))) [0..<nat (min depth (sd_len sd m))]))"

definition is_stale :: "pyfloat \<Rightarrow> int \<Rightarrow> 'm LocalOrderBook \<Rightarrow> bool" where
  "is_stale now max_age_ms b \<longleftrightarrow>
     fmul (fsub now (last_message_time b)) 1000 > of_int max_age_ms \<or> book_state b = STALE"

text \<open>\<open>get_order_book_state\<close>; decimals are kept as such where the code prints them.\<close>

record book_report =
  rp_symbol :: string
  rp_state :: string
  rp_last_update_id :: int
  rp_timestamp :: int
  rp_bid_count :: int
  rp_ask_count :: int
  rp_update_count :: int
  rp_last_message_age_ms :: int
  rp_best_bid :: "decimal option"
  rp_best_ask :: "decimal option"
  rp_mid_price :: "decimal option"
  rp_spread_bps :: "pyfloat option"

definition get_order_book_state :: "'m SortedDict \<Rightarrow> pyfloat \<Rightarrow> 'm LocalOrderBook \<Rightarrow> book_report" where
  "get_order_book_state sd now b =
     \<lparr>rp_symbol = symbol b, rp_state = state_value (book_state b), rp_last_update_id = last_update_id b,
      rp_timestamp = book_timestamp b, rp_bid_count = sd_len sd (bids b), rp_ask_count = sd_len sd (asks b),
      rp_update_count = update_count b,
      rp_last_message_age_ms = int_of_float (fmul (fsub now (last_message_time b)) 1000),
      rp_best_bid = map_option lv_price (get_best_bid sd b), rp_best_ask = map_option lv_price (get_best_ask sd b),
      rp_mid_price = (case get_mid_price sd b of Some x \<Rightarrow> if x \<noteq> 0 then Some x else None | None \<Rightarrow> None),
      rp_spread_bps = get_spread_bps sd b\<rparr>"

section \<open>The manager\<close>

type_synonym 'm OrderBookManager = "(string, 'm LocalOrderBook) dict"

definition manager_init :: "'m SortedDict \<Rightarrow> string list \<Rightarrow> int \<Rightarrow> 'm OrderBookManager" where
  "manager_init sd symbols d = fold (\<lambda>s. dict_set (py_upper s) (book_init sd (py_upper s) d)) symbols []"

definition get_book :: "string \<Rightarrow> 'm OrderBookManager \<Rightarrow> 'm LocalOrderBook option" where
  "get_book s m = dict_get m (py_upper s)"

definition update_snapshot :: "'m SortedDict \<Rightarrow> pyfloat \<Rightarrow> string \<Rightarrow> OrderBookSnapshot \<Rightarrow> 'm OrderBookManager \<Rightarrow> 'm OrderBookManager" where
  "update_snapshot sd now s sn m =
     (case get_book s m of None \<Rightarrow> m | Some b \<Rightarrow> dict_set (py_upper s) (set_snapshot sd now sn b) m)"

definition manager_apply_delta ::
    "'m SortedDict \<Rightarrow> (string \<Rightarrow> decimal option) \<Rightarrow> pyfloat \<Rightarrow> string \<Rightarrow> (string \<times> string) list \<Rightarrow> (string \<times> string) list \<Rightarrow>
     int \<Rightarrow> int \<Rightarrow> 'm OrderBookManager \<Rightarrow> (exn + bool) \<times> 'm OrderBookManager" where
  "manager_apply_delta sd dec now s dbids dasks update_id ts m =
     (case get_book s m of
        None \<Rightarrow> (Inr False, m)
      | Some b \<Rightarrow> (case apply_delta sd dec now dbids dasks update_id ts b of (r, b') \<Rightarrow> (r, dict_set (py_upper s) b' m)))"

definition get_best_prices :: "'m SortedDict \<Rightarrow> 'm OrderBookManager \<Rightarrow> (string, decimal option \<times> decimal option) dict" where
  "get_best_prices sd m = map (\<lambda>(s, b). (s, (map_option lv_price (get_best_bid sd b), map_option lv_price (get_best_ask sd b)))) m"

text \<open>\<open>get_health_status\<close>: symbols, ready books, stale books, the report of each; \<open>clk\<close> is the clock at each book.\<close>

definition get_health_status ::
    "'m SortedDict \<Rightarrow> (string \<Rightarrow> pyfloat) \<Rightarrow> 'm OrderBookManager \<Rightarrow> nat \<times> nat \<times> nat \<times> (string, book_report) dict" where
  "get_health_status sd clk m =
     (length m, length (filter (\<lambda>b. book_state b = READY) (dict_values m)),
      length (filter (\<lambda>b. book_state b = STALE) (dict_values m)),
      map (\<lambda>(s, b). (s, get_order_book_state sd (clk s) b)) m)"

section \<open>Updates of a plain map\<close>

text \<open>The specification of \<open>apply_delta\<close>: a level per key, an update sets it or, with quantity 0, removes it.\<close>

fun map_updates :: "(string \<Rightarrow> decimal option) \<Rightarrow> bool \<Rightarrow> (string \<times> string) list \<Rightarrow> (pyfloat \<rightharpoonup> PriceLevel) \<Rightarrow>
    exn option \<times> (pyfloat \<rightharpoonup> PriceLevel)" where
  "map_updates dec bid [] f = (None, f)"
| "map_updates dec bid ((ps, qs) # ls) f =
     (case (dec ps, dec qs) of
        (Some p, Some q) \<Rightarrow>
          map_updates dec bid ls
            (if q = 0 then f(price_key bid p := None) else f(price_key bid p \<mapsto> price_level p q))
      | _ \<Rightarrow> (Some (OtherError ''InvalidOperation''), f))"

text \<open>Every level is under the key of its own price.\<close>

definition keyed :: "bool \<Rightarrow> (pyfloat \<rightharpoonup> PriceLevel) \<Rightarrow> bool" where
  "keyed bid f \<longleftrightarrow> (\<forall>k l. f k = Some l \<longrightarrow> k = price_key bid (lv_price l))"

lemma keyed_empty [simp]: "keyed bid Map.empty" "keyed bid (\<lambda>_. None)"
  by (simp_all add: keyed_def)

lemma keyed_set: "keyed bid f \<Longrightarrow> keyed bid (f(price_key bid p \<mapsto> price_level p q))"
  by (simp add: keyed_def price_level_def)

lemma keyed_pop: "keyed bid f \<Longrightarrow> keyed bid (f(k := None))"
  by (simp add: keyed_def)

lemma map_of_take: "map_of (take n xs) k = Some v \<Longrightarrow> map_of xs k = Some v"
  by (metis append_take_drop_id map_add_find_right map_of_append)

lemma keyed_take: "keyed bid (map_of xs) \<Longrightarrow> keyed bid (map_of (take n xs))"
  unfolding keyed_def by (blast dest: map_of_take)

lemma map_updates_keyed: "keyed bid f \<Longrightarrow> keyed bid (snd (map_updates dec bid ls f))"
proof (induction dec bid ls f rule: map_updates.induct)
  case (2 dec bid ps qs ls f)
  show ?case
  proof (cases "dec ps = None \<or> dec qs = None")
    case False
    then obtain p q where pq: "dec ps = Some p" "dec qs = Some q" by auto
    have "keyed bid (if q = 0 then f(price_key bid p := None) else f(price_key bid p \<mapsto> price_level p q))"
      using 2(2) by (simp add: keyed_set keyed_pop)
    from 2(1) [OF refl pq this] pq show ?thesis by simp
  qed (use 2(2) in \<open>auto split: option.splits\<close>)
qed simp

datatype book_op =
    Op_Snapshot pyfloat OrderBookSnapshot
  | Op_Delta pyfloat "(string \<times> string) list" "(string \<times> string) list" int int

fun book_step :: "'m SortedDict \<Rightarrow> (string \<Rightarrow> decimal option) \<Rightarrow> book_op \<Rightarrow> 'm LocalOrderBook \<Rightarrow> 'm LocalOrderBook" where
  "book_step sd dec (Op_Snapshot now s) b = set_snapshot sd now s b"
| "book_step sd dec (Op_Delta now db da u ts) b = snd (apply_delta sd dec now db da u ts b)"

section \<open>The contract of a sorted dictionary\<close>

locale sorted_dict =
  fixes sd :: "'m SortedDict" and ok :: "'m \<Rightarrow> bool" and items :: "'m \<Rightarrow> (pyfloat \<times> PriceLevel) list"
  assumes new_law: "ok (sd_new sd)" "items (sd_new sd) = []"
    and sorted_law: "ok m \<Longrightarrow> sorted_wrt (<) (map fst (items m))"
    and len_law: "ok m \<Longrightarrow> sd_len sd m = int (length (items m))"
    and set_law: "ok m \<Longrightarrow> ok (sd_set sd k v m)" "ok m \<Longrightarrow> map_of (items (sd_set sd k v m)) = (map_of (items m))(k \<mapsto> v)"
    and pop_law: "ok m \<Longrightarrow> ok (sd_pop sd k m)" "ok m \<Longrightarrow> map_of (items (sd_pop sd k m)) = (map_of (items m))(k := None)"
    and get_law: "ok m \<Longrightarrow> sd_get sd m k = map_of (items m) k"
    and peek_law: "ok m \<Longrightarrow> i < length (items m) \<Longrightarrow> sd_peekitem sd m i = items m ! i"
    and pop_last_law: "ok m \<Longrightarrow> items m \<noteq> [] \<Longrightarrow> ok (sd_pop_last sd m)"
      "ok m \<Longrightarrow> items m \<noteq> [] \<Longrightarrow> items (sd_pop_last sd m) = butlast (items m)"
begin

lemma trim_loop_take:
  "ok m \<Longrightarrow> n = length (items m) \<Longrightarrow> 0 \<le> d \<Longrightarrow>
     \<exists>m'. trim_loop sd d n m = (None, m') \<and> ok m' \<and> items m' = take (nat d) (items m)"
proof (induction n arbitrary: m)
  case (Suc n)
  show ?case
  proof (cases "sd_len sd m > d")
    case True
    have ne: "items m \<noteq> []" using Suc.prems(2) by auto
    have l: "length (items (sd_pop_last sd m)) = n" using pop_last_law(2) [OF Suc.prems(1) ne] Suc.prems(2) by simp
    have "nat d < length (items m)" using True len_law [OF Suc.prems(1)] Suc.prems(3) by linarith
    then have "take (nat d) (butlast (items m)) = take (nat d) (items m)" by (simp add: take_butlast)
    with Suc.IH [OF pop_last_law(1) [OF Suc.prems(1) ne] l [symmetric] Suc.prems(3)] True
    show ?thesis by (simp add: pop_last_law(2) [OF Suc.prems(1) ne])
  next
    case False
    then have "length (items m) \<le> nat d" using len_law [OF Suc.prems(1)] Suc.prems(3) by linarith
    with False Suc.prems(1) show ?thesis by simp
  qed
qed (use len_law in auto)

lemma trim_depth_take:
  "ok m \<Longrightarrow> 0 \<le> d \<Longrightarrow> \<exists>m'. trim_depth sd d m = (None, m') \<and> ok m' \<and> items m' = take (nat d) (items m)"
  unfolding trim_depth_def by (rule trim_loop_take) (simp_all add: len_law)

lemma best_head:
  "ok m \<Longrightarrow> best sd m = (case items m of [] \<Rightarrow> None | p # _ \<Rightarrow> Some (snd p))"
  using peek_law [of m 0] by (auto simp: best_def len_law split: list.splits)

lemma load_levels_ok: "ok (load_levels sd bid ls)"
proof -
  have "ok m \<Longrightarrow> ok (fold (\<lambda>(p, q). sd_set sd (price_key bid p) (price_level p q)) ls m)" for m
    by (induction ls arbitrary: m) (auto intro: set_law(1))
  then show ?thesis by (simp add: load_levels_def new_law)
qed

lemma apply_levels_map:
  "ok m \<Longrightarrow> apply_levels sd dec bid ls m = (e, m') \<Longrightarrow>
     ok m' \<and> map_updates dec bid ls (map_of (items m)) = (e, map_of (items m'))"
proof (induction ls arbitrary: m)
  case (Cons l ls)
  obtain ps qs where l: "l = (ps, qs)" by (cases l)
  show ?case
  proof (cases "dec ps = None \<or> dec qs = None")
    case True
    with Cons.prems show ?thesis by (auto simp: l split: option.splits)
  next
    case False
    then obtain p q where pq: "dec ps = Some p" "dec qs = Some q" by auto
    show ?thesis
    proof (cases "q = 0")
      case True
      then have "apply_levels sd dec bid ls (sd_pop sd (price_key bid p) m) = (e, m')"
        using Cons.prems(2) pq by (simp add: l)
      from Cons.IH [OF pop_law(1) [OF Cons.prems(1)] this] show ?thesis
        unfolding pop_law(2) [OF Cons.prems(1)] using pq True by (simp add: l fun_upd_def)
    next
      case False
      then have "apply_levels sd dec bid ls (sd_set sd (price_key bid p) (price_level p q) m) = (e, m')"
        using Cons.prems(2) pq by (simp add: l)
      from Cons.IH [OF set_law(1) [OF Cons.prems(1)] this] show ?thesis
        unfolding set_law(2) [OF Cons.prems(1)] using pq False by (simp add: l fun_upd_def)
    qed
  qed
qed auto

definition book_ok :: "'m LocalOrderBook \<Rightarrow> bool" where
  "book_ok b \<longleftrightarrow> ok (bids b) \<and> ok (asks b) \<and>
     keyed True (map_of (items (bids b))) \<and> keyed False (map_of (items (asks b)))"

text \<open>Trimming leaves the levels with the smallest keys, an update of the map those it names.\<close>

lemma trim_depth_cases:
  assumes "ok m"
  shows "ok (snd (trim_depth sd d m)) \<and> (\<exists>n. items (snd (trim_depth sd d m)) = take n (items m))"
proof -
  have "ok m \<Longrightarrow> n \<le> length (items m) \<Longrightarrow> ok (snd (trim_loop sd d n m)) \<and> (\<exists>j. items (snd (trim_loop sd d n m)) = take j (items m))" for n m
  proof (induction n arbitrary: m)
    case (Suc n)
    show ?case
    proof (cases "sd_len sd m > d")
      case True
      have ne: "items m \<noteq> []" using Suc.prems(2) by auto
      note p = pop_last_law [OF Suc.prems(1) ne]
      have "n \<le> length (items (sd_pop_last sd m))" using Suc.prems(2) by (simp add: p(2))
      from Suc.IH [OF p(1) this] True show ?thesis by (auto simp: p(2) take_butlast butlast_conv_take min_def)
    next
      case False
      have "items m = take (length (items m)) (items m)" by simp
      with False Suc.prems(1) show ?thesis by (auto intro: exI [of _ "length (items m)"])
    qed
  next
    case 0
    have "items m = take (length (items m)) (items m)" by simp
    with 0 show ?case by (auto intro: exI [of _ "length (items m)"])
  qed
  from this [OF assms, of "nat (sd_len sd m)"] show ?thesis by (simp add: trim_depth_def len_law [OF assms])
qed

lemma delta_parts:
  assumes b: "book_ok b"
  shows "book_ok (snd (apply_delta sd dec now db da u ts b))"
proof -
  have side: "ok m' \<and> keyed bid (map_of (items m'))"
    if "ok m" "keyed bid (map_of (items m))" "apply_levels sd dec bid ls m = (e, m')" for m m' e bid ls
    using apply_levels_map [OF that(1,3)] map_updates_keyed [OF that(2), of dec ls] by simp
  have trim: "ok m' \<and> keyed bid (map_of (items m'))"
    if "ok m" "keyed bid (map_of (items m))" "trim_depth sd d m = (e, m')" for m m' e bid d
    using trim_depth_cases [OF that(1), of d] that(2,3) by (auto intro: keyed_take)
  obtain e1 m1 where 1: "apply_levels sd dec True db (bids b) = (e1, m1)" by fastforce
  obtain e2 m2 where 2: "apply_levels sd dec False da (asks b) = (e2, m2)" by fastforce
  obtain e3 m3 where 3: "trim_depth sd (max_depth b) m1 = (e3, m3)" by fastforce
  obtain e4 m4 where 4: "trim_depth sd (max_depth b) m2 = (e4, m4)" by fastforce
  note b' = b [unfolded book_ok_def]
  have s1: "ok m1 \<and> keyed True (map_of (items m1))"
    using b' by (intro side [OF _ _ 1]) auto
  have s2: "ok m2 \<and> keyed False (map_of (items m2))"
    using b' by (intro side [OF _ _ 2]) auto
  have s3: "ok m3 \<and> keyed True (map_of (items m3))"
    using s1 by (intro trim [OF _ _ 3]) auto
  have s4: "ok m4 \<and> keyed False (map_of (items m4))"
    using s2 by (intro trim [OF _ _ 4]) auto
  show ?thesis
  proof (cases "first_update_id b \<noteq> None \<and> u \<le> last_update_id b")
    case False
    let ?r = "snd (apply_delta sd dec now db da u ts b)"
    have "bids ?r \<in> {bids b, m1, m3}" "asks ?r \<in> {asks b, m2, m4}"
      using False 1 2 3 4 by (auto simp: apply_delta_def Let_def split: option.splits)
    then show ?thesis using b' s1 s2 s3 s4 unfolding book_ok_def by auto
  qed (use b in \<open>simp add: apply_delta_def\<close>)
qed

lemma load_levels_keyed: "keyed bid (map_of (items (load_levels sd bid ls)))"
proof -
  have "keyed bid (map_of (items (fold (\<lambda>(p, q). sd_set sd (price_key bid p) (price_level p q)) ls m)))"
    if "ok m" "keyed bid (map_of (items m))" for m
    using that by (induction ls arbitrary: m) (auto simp: set_law keyed_set)
  then show ?thesis by (simp add: load_levels_def new_law)
qed

lemma snapshot_ok: "book_ok b \<Longrightarrow> book_ok (set_snapshot sd now s b)"
  by (simp add: book_ok_def set_snapshot_def load_levels_ok load_levels_keyed)

lemma book_init_ok: "book_ok (book_init sd smb d)"
  by (simp add: book_ok_def book_init_def new_law)

lemma book_run_ok: "book_ok b \<Longrightarrow> book_ok (fold (book_step sd dec) xs b)"
proof (induction xs arbitrary: b)
  case (Cons x xs)
  then show ?case by (cases x) (auto intro: snapshot_ok delta_parts)
qed simp

lemma book_run_depth: "max_depth (fold (book_step sd dec) xs b) = max_depth b"
proof (induction xs arbitrary: b)
  case (Cons x xs)
  have "max_depth (book_step sd dec x b) = max_depth b"
    by (cases x) (auto simp: set_snapshot_def apply_delta_def Let_def split: prod.splits option.splits)
  with Cons show ?case by simp
qed simp

text \<open>An accepted update, side by side.\<close>

lemma delta_side:
  assumes "ok m" "0 \<le> d" "apply_levels sd dec bid ls m = (None, m1)" "trim_depth sd d m1 = (None, m2)"
  shows "\<exists>L. sorted_wrt (<) (map fst L) \<and> map_updates dec bid ls (map_of (items m)) = (None, map_of L) \<and>
     items m2 = take (nat d) L"
proof -
  note m1 = apply_levels_map [OF assms(1,3)]
  obtain m' where "trim_depth sd d m1 = (None, m')" "items m' = take (nat d) (items m1)"
    using trim_depth_take [of m1 d] m1 assms(2) by blast
  then show ?thesis using m1 assms(4) sorted_law [of m1] by (intro exI [of _ "items m1"]) simp
qed

lemma delta_accepted:
  assumes "book_ok b" "0 \<le> max_depth b" "apply_delta sd dec now db da u ts b = (Inr True, b')"
  shows "(\<exists>L. sorted_wrt (<) (map fst L) \<and> map_updates dec True db (map_of (items (bids b))) = (None, map_of L) \<and>
       items (bids b') = take (nat (max_depth b)) L) \<and>
    (\<exists>L. sorted_wrt (<) (map fst L) \<and> map_updates dec False da (map_of (items (asks b))) = (None, map_of L) \<and>
       items (asks b') = take (nat (max_depth b)) L)"
proof -
  obtain m1 m2 m3 m4 where "apply_levels sd dec True db (bids b) = (None, m1)" "trim_depth sd (max_depth b) m1 = (None, m3)"
    "bids b' = m3" "apply_levels sd dec False da (asks b) = (None, m2)" "trim_depth sd (max_depth b) m2 = (None, m4)" "asks b' = m4"
    using assms(3) by (auto simp: apply_delta_def Let_def split: if_splits prod.splits option.splits)
  with delta_side [of "bids b"] delta_side [of "asks b"] assms(1,2) show ?thesis by (simp add: book_ok_def)
qed

lemma best_extreme:
  assumes "ok m" "best sd m = Some l" "(k', l') \<in> set (items m)"
  shows "\<exists>k. (k, l) \<in> set (items m) \<and> k \<le> k'"
proof -
  obtain k ls where i: "items m = (k, l) # ls" using assms(1,2) by (auto simp: best_head split: list.splits)
  with sorted_law [OF assms(1)] assms(3) show ?thesis by (intro exI [of _ k]) (auto intro: less_imp_le)
qed

end

section \<open>An association list kept sorted\<close>

type_synonym levels = "(pyfloat \<times> PriceLevel) list"

fun sl_set :: "pyfloat \<Rightarrow> PriceLevel \<Rightarrow> levels \<Rightarrow> levels" where
  "sl_set k v [] = [(k, v)]"
| "sl_set k v ((k', v') # m) =
     (if k < k' then (k, v) # (k', v') # m else if k = k' then (k, v) # m else (k', v') # sl_set k v m)"

definition sorted_list :: "levels SortedDict" where
  "sorted_list = \<lparr>sd_new = [], sd_set = sl_set, sd_pop = \<lambda>k. filter (\<lambda>p. fst p \<noteq> k), sd_len = \<lambda>m. int (length m),
     sd_get = map_of, sd_peekitem = \<lambda>m i. m ! i, sd_pop_last = butlast\<rparr>"

definition by_key :: "levels \<Rightarrow> bool" where
  "by_key m \<longleftrightarrow> sorted_wrt (<) (map fst m)"

lemma sl_set_keys: "set (map fst (sl_set k v m)) = insert k (set (map fst m))"
proof (induction m)
  case (Cons a m)
  then show ?case by (cases a) (simp add: insert_commute)
qed simp

lemma sl_set_sorted: "by_key m \<Longrightarrow> by_key (sl_set k v m)"
proof (induction m)
  case (Cons a m)
  obtain k' v' where a: "a = (k', v')" by (cases a)
  show ?case using Cons sl_set_keys [of k v m] by (auto simp: a by_key_def)
qed (simp add: by_key_def)

lemma sl_set_map: "by_key m \<Longrightarrow> map_of (sl_set k v m) = (map_of m)(k \<mapsto> v)"
proof (induction m)
  case (Cons a m)
  obtain k' v' where a: "a = (k', v')" by (cases a)
  show ?case using Cons by (auto simp: a by_key_def fun_eq_iff)
qed auto

lemma filter_by_key: "by_key m \<Longrightarrow> by_key (filter P m)"
  by (induction m) (auto simp: by_key_def)

lemma butlast_by_key: "by_key m \<Longrightarrow> by_key (butlast m)"
  unfolding by_key_def by (induction m) (auto dest: in_set_butlastD split: if_splits)

lemma filter_map_of: "map_of (filter (\<lambda>p. fst p \<noteq> k) m) = (map_of m)(k := None)"
  by (induction m) (auto simp: fun_eq_iff)

interpretation sl: sorted_dict sorted_list by_key "\<lambda>m. m"
  by unfold_locales
     (auto simp: sorted_list_def by_key_def [of "[]"] sl_set_sorted sl_set_map filter_by_key butlast_by_key filter_map_of,
      simp add: by_key_def)

section \<open>Properties\<close>

text \<open>C13: an accepted update is the update of a plain map. For every book reached from a new one by snapshots and
  updates (whatever raised or was skipped in between), when \<open>apply_delta\<close> returns \<open>True\<close> each side holds, sorted
  by key, the \<open>max_depth\<close> best levels of the map that results from setting and removing the
  named levels one after the other.\<close>

theorem delta_refines_map_update:
  assumes "sorted_dict sd ok items" "b = fold (book_step sd dec) xs (book_init sd smb d)" "0 \<le> d"
    "apply_delta sd dec now db da u ts b = (Inr True, b')"
  shows "(\<exists>L. sorted_wrt (<) (map fst L) \<and> map_updates dec True db (map_of (items (bids b))) = (None, map_of L) \<and>
       items (bids b') = take (nat d) L) \<and>
    (\<exists>L. sorted_wrt (<) (map fst L) \<and> map_updates dec False da (map_of (items (asks b))) = (None, map_of L) \<and>
       items (asks b') = take (nat d) L)"
proof -
  have "sorted_dict.book_ok ok items b" unfolding assms(2)
    by (rule sorted_dict.book_run_ok [OF assms(1)] sorted_dict.book_init_ok [OF assms(1)])+
  moreover have "max_depth b = d" unfolding assms(2) sorted_dict.book_run_depth [OF assms(1)] by (simp add: book_init_def)
  ultimately show ?thesis using sorted_dict.delta_accepted [OF assms(1) _ _ assms(4)] assms(3) by simp
qed

text \<open>Decimal texts of the example.\<close>

definition demo_dec :: "string \<Rightarrow> decimal option" where
  "demo_dec s = (if s = ''0'' then Some 0 else if s = ''1'' then Some 1 else if s = ''2'' then Some 2
     else if s = ''3'' then Some 3 else None)"

definition demo_snapshot :: OrderBookSnapshot where
  "demo_snapshot = \<lparr>sn_symbol = ''BTCUSDT'', sn_bids = [(1, 5), (2, 7)], sn_asks = [(3, 4)], sn_timestamp = 0, sn_last_update_id = 10\<rparr>"

theorem delta_refines_map_update_witness:
  "\<exists>b'. apply_delta sorted_list demo_dec 0 [(''3'', ''1'')] [] 12 0
       (fold (book_step sorted_list demo_dec) [Op_Snapshot 0 demo_snapshot] (book_init sorted_list ''BTCUSDT'' 1)) = (Inr True, b') \<and>
     length (bids b') \<le> 1"
proof -
  let ?b = "fold (book_step sorted_list demo_dec) [Op_Snapshot 0 demo_snapshot] (book_init sorted_list ''BTCUSDT'' 1)"
  obtain b' where d: "apply_delta sorted_list demo_dec 0 [(''3'', ''1'')] [] 12 0 ?b = (Inr True, b')"
    by (simp add: apply_delta_def sorted_list_def demo_dec_def Let_def set_snapshot_def book_init_def demo_snapshot_def
        load_levels_def price_key_def trim_depth_def)
  from delta_refines_map_update [OF sl.sorted_dict_axioms refl _ d] d show ?thesis by auto
qed

text \<open>\<open>get_best_bid\<close> and \<open>get_best_ask\<close> return the extreme prices. In every reachable book no bid level
  has a higher price than the best bid and no ask level a lower one than the best ask, as floats,
  and the best level is one of the side's levels.\<close>

theorem best_prices_are_extreme:
  assumes "sorted_dict sd ok items" "b = fold (book_step sd dec) xs (book_init sd smb d)"
  shows "(\<forall>l k l'. get_best_bid sd b = Some l \<longrightarrow> (k, l') \<in> set (items (bids b)) \<longrightarrow>
       l \<in> snd ` set (items (bids b)) \<and> fl (lv_price l') \<le> fl (lv_price l)) \<and>
    (\<forall>l k l'. get_best_ask sd b = Some l \<longrightarrow> (k, l') \<in> set (items (asks b)) \<longrightarrow>
       l \<in> snd ` set (items (asks b)) \<and> fl (lv_price l) \<le> fl (lv_price l'))"
proof -
  have b: "sorted_dict.book_ok ok items b" unfolding assms(2)
    by (rule sorted_dict.book_run_ok [OF assms(1)] sorted_dict.book_init_ok [OF assms(1)])+
  note ok = b [unfolded sorted_dict.book_ok_def [OF assms(1)]]
  have key: "k = price_key bid (lv_price l)" if "(k, l) \<in> set (items m)" "ok m" "keyed bid (map_of (items m))" for k l m bid
  proof -
    have "distinct (map fst (items m))"
      using sorted_dict.sorted_law [OF assms(1) that(2)] by (simp add: strict_sorted_iff)
    then have "map_of (items m) k = Some l" using that(1) by simp
    with that(3) show ?thesis by (simp add: keyed_def)
  qed
  have "l \<in> snd ` set (items m) \<and> price_key bid (lv_price l) \<le> price_key bid (lv_price l')"
    if m: "ok m" "keyed bid (map_of (items m))" "best sd m = Some l" "(k, l') \<in> set (items m)" for m bid l k l'
  proof -
    obtain k0 where k0: "(k0, l) \<in> set (items m)" "k0 \<le> k"
      using sorted_dict.best_extreme [OF assms(1) m(1,3,4)] by blast
    with key [OF k0(1) m(1,2)] key [OF m(4,1,2)] show ?thesis by force
  qed
  from this [of "bids b" True] this [of "asks b" False] show ?thesis using ok
    by (auto simp: get_best_bid_def get_best_ask_def price_key_def)
qed

theorem best_prices_are_extreme_witness:
  "\<exists>b l. b = fold (book_step sorted_list demo_dec) [Op_Snapshot 0 demo_snapshot] (book_init sorted_list ''BTCUSDT'' 5) \<and>
     get_best_bid sorted_list b = Some l \<and> 1 \<le> fl (lv_price l)"
proof -
  let ?b = "fold (book_step sorted_list demo_dec) [Op_Snapshot 0 demo_snapshot] (book_init sorted_list ''BTCUSDT'' 5)"
  have i: "bids ?b = [(- 2, price_level 2 7), (- 1, price_level 1 5)]"
    by (simp add: set_snapshot_def book_init_def demo_snapshot_def load_levels_def price_key_def sorted_list_def)
  obtain l where l: "get_best_bid sorted_list ?b = Some l"
    unfolding get_best_bid_def best_def i by (simp add: sorted_list_def)
  have "(- 1, price_level 1 5) \<in> set (bids ?b)" unfolding i by simp
  then have "fl (lv_price (price_level 1 5)) \<le> fl (lv_price l)"
    using best_prices_are_extreme [OF sl.sorted_dict_axioms refl, of demo_dec "[Op_Snapshot 0 demo_snapshot]" "''BTCUSDT''" 5] l
    by blast
  with l show ?thesis by (auto simp: price_level_def)
qed

text \<open>a gap in the update ids is forgotten at once. After a snapshot, an update that skips ids is applied all the same:
  the call returns \<open>True\<close>, the book is \<open>READY\<close> and not stale, and continues from the new id, so
  the missing updates are never asked for; the \<open>STALE\<close> mark set on the way is overwritten. Only an update
  that is not newer is refused, and changes nothing.\<close>

theorem gap_is_forgotten:
  assumes "first_update_id b = Some f" "apply_delta sd dec now db da u ts b = (Inr r, b')"
    "0 \<le> max_age"
  shows "if u \<le> last_update_id b then \<not> r \<and> b' = b
     else r \<and> book_state b' = READY \<and> last_update_id b' = u \<and> \<not> is_stale now max_age b'"
proof (cases "u \<le> last_update_id b")
  case False
  have "r \<and> book_state b' = READY \<and> last_update_id b' = u \<and> last_message_time b' = now"
    using assms(1,2) False by (auto simp: apply_delta_def Let_def split: if_splits prod.splits option.splits)
  with False assms(3) show ?thesis by (simp add: is_stale_def fmul_def)
qed (use assms(1,2) in \<open>auto simp: apply_delta_def\<close>)

theorem gap_is_forgotten_witness:
  "\<exists>r b'. apply_delta sorted_list demo_dec 7 [(''3'', ''1'')] [] 99 0 (set_snapshot sorted_list 0 demo_snapshot (book_init sorted_list ''BTCUSDT'' 5)) =
     (Inr r, b') \<and> r \<and> \<not> is_stale 7 5000 b'"
proof -
  let ?b = "set_snapshot sorted_list 0 demo_snapshot (book_init sorted_list ''BTCUSDT'' 5)"
  have f: "first_update_id ?b = Some 10" "last_update_id ?b = 10" by (simp_all add: set_snapshot_def demo_snapshot_def)
  obtain r b' where d: "apply_delta sorted_list demo_dec 7 [(''3'', ''1'')] [] 99 0 ?b = (Inr r, b')"
    by (simp add: apply_delta_def sorted_list_def demo_dec_def Let_def set_snapshot_def book_init_def demo_snapshot_def
        load_levels_def price_key_def trim_depth_def)
  from gap_is_forgotten [OF f(1) d, of 5000] f(2) d show ?thesis by auto
qed

end
