(* ===== verification/CircuitBreaker.thy ===== *)
theory CircuitBreaker
  imports Prelude
begin

text \<open>
  \<open>backend/alerts/circuit_breaker_telemetry.py\<close>: the circuit breaker (\<open>breaker\<close>), its state machine
  CLOSED, OPEN, HALF_OPEN, its sliding window of results, and the registry of breakers by name.

  Every method runs under the breaker's re-entrant lock, so a run is a sequence of calls. A call may read
  the clock up to five times: \<open>ck 0\<close> in \<open>_check_timeout\<close>, \<open>ck 1\<close> for the record of a timeout's transition,
  \<open>ck 2\<close> for \<open>_last_failure_time\<close>, \<open>ck 3\<close> for the record of any other transition and \<open>ck 4\<close> for \<open>_opened_at\<close>.
  The transition callback belongs to the caller and its exceptions are swallowed: it is a flag here.
\<close>

section \<open>States, transitions, configuration\<close>

datatype CircuitState = CLOSED | OPEN | HALF_OPEN

fun circuit_value :: "CircuitState \<Rightarrow> string" where
  "circuit_value CLOSED = ''closed''"
| "circuit_value OPEN = ''open''"
| "circuit_value HALF_OPEN = ''half_open''"

text \<open>The reasons, one constructor per format string.\<close>

datatype reason =
    Timeout_Elapsed pyfloat pyfloat
  | Success_Threshold int int
  | Half_Open_Testing_Failed
  | Failure_Threshold int int
  | Failure_Rate pyfloat pyfloat
  | Failure_During_Half_Open
  | Manual_Reset

record StateTransition =
  tr_timestamp :: pyfloat
  from_state :: CircuitState
  to_state :: CircuitState
  tr_reason :: reason
  tr_failure_count :: int
  tr_success_count :: int

record CircuitBreakerConfig =
  cfg_name :: string
  failure_threshold :: int
  success_threshold :: int
  timeout_seconds :: pyfloat
  half_open_max_calls :: int
  window_size :: int
  failure_rate_threshold :: pyfloat

definition breaker_config :: "string \<Rightarrow> CircuitBreakerConfig" where
  "breaker_config n =
     \<lparr>cfg_name = n, failure_threshold = 5, success_threshold = 3, timeout_seconds = 30,
      half_open_max_calls = 3, window_size = 100, failure_rate_threshold = 1 / 2\<rparr>"

section \<open>The breaker\<close>

record breaker =
  config :: CircuitBreakerConfig
  state :: CircuitState
  failure_count :: int
  success_count :: int
  half_open_calls :: int
  recent_results :: "bool list"
  transitions :: "StateTransition list"
  last_failure_time :: "pyfloat option"
  opened_at :: "pyfloat option"
  created_at :: pyfloat
  on_transition :: bool
  total_transitions :: int
  total_operations :: int
  total_failures :: int
  total_successes :: int

text \<open>\<open>deque(maxlen=n)\<close> raises \<open>ValueError\<close> for a negative length.\<close>

definition breaker_init :: "pyfloat \<Rightarrow> CircuitBreakerConfig \<Rightarrow> exn + breaker" where
  "breaker_init now cfg =
     (if window_size cfg < 0 then Inl ValueError
      else Inr \<lparr>config = cfg, state = CLOSED, failure_count = 0, success_count = 0, half_open_calls = 0,
                recent_results = [], transitions = [], last_failure_time = None, opened_at = None,
                created_at = now, on_transition = False, total_transitions = 0, total_operations = 0,
                total_failures = 0, total_successes = 0\<rparr>)"

text \<open>\<open>append\<close> on a deque of length at most \<open>n\<close>.\<close>

definition window_append :: "int \<Rightarrow> 'a \<Rightarrow> 'a list \<Rightarrow> 'a list" where
  "window_append n x xs = drop (length xs + 1 - nat n) (xs @ [x])"

definition transition_to :: "pyfloat \<Rightarrow> pyfloat \<Rightarrow> CircuitState \<Rightarrow> reason \<Rightarrow> breaker \<Rightarrow> breaker" where
  "transition_to now now' s why b =
     (if state b = s then b
      else
        let tr = \<lparr>tr_timestamp = now, from_state = state b, to_state = s, tr_reason = why,
                  tr_failure_count = failure_count b, tr_success_count = success_count b\<rparr>;
            b1 = b\<lparr>state := s, transitions := transitions b @ [tr], total_transitions := total_transitions b + 1\<rparr>
        in (case s of
              HALF_OPEN \<Rightarrow> b1\<lparr>half_open_calls := 0, success_count := 0\<rparr>
            | CLOSED \<Rightarrow> b1\<lparr>failure_count := 0, success_count := 0, half_open_calls := 0, recent_results := []\<rparr>
            | OPEN \<Rightarrow> b1\<lparr>opened_at := Some now'\<rparr>))"

definition check_timeout :: "(nat \<Rightarrow> pyfloat) \<Rightarrow> breaker \<Rightarrow> breaker" where
  "check_timeout ck b =
     (case (state b, opened_at b) of
        (OPEN, Some t) \<Rightarrow>
          let elapsed = fsub (ck 0) t
          in if elapsed \<ge> timeout_seconds (config b)
             then transition_to (ck 1) (ck 1) HALF_OPEN (Timeout_Elapsed elapsed (timeout_seconds (config b))) b
             else b
      | _ \<Rightarrow> b)"

definition get_state :: "(nat \<Rightarrow> pyfloat) \<Rightarrow> breaker \<Rightarrow> CircuitState \<times> breaker" where
  "get_state ck b = (let b1 = check_timeout ck b in (state b1, b1))"

definition is_closed :: "(nat \<Rightarrow> pyfloat) \<Rightarrow> breaker \<Rightarrow> bool \<times> breaker" where
  "is_closed ck b = (let (s, b1) = get_state ck b in (s = CLOSED, b1))"

definition is_open :: "(nat \<Rightarrow> pyfloat) \<Rightarrow> breaker \<Rightarrow> bool \<times> breaker" where
  "is_open ck b = (let (s, b1) = get_state ck b in (s = OPEN, b1))"

definition is_half_open :: "(nat \<Rightarrow> pyfloat) \<Rightarrow> breaker \<Rightarrow> bool \<times> breaker" where
  "is_half_open ck b = (let (s, b1) = get_state ck b in (s = HALF_OPEN, b1))"

definition record_success :: "(nat \<Rightarrow> pyfloat) \<Rightarrow> breaker \<Rightarrow> bool \<times> breaker" where
  "record_success ck b =
     (let b0 = check_timeout ck b
      in if state b0 = OPEN then (False, b0)
         else
           let b1 = b0\<lparr>success_count := success_count b0 + 1, total_successes := total_successes b0 + 1,
                       total_operations := total_operations b0 + 1,
                       recent_results := window_append (window_size (config b0)) True (recent_results b0)\<rparr>
           in if state b1 = HALF_OPEN then
                let b2 = b1\<lparr>half_open_calls := half_open_calls b1 + 1\<rparr>
                in if success_count b2 \<ge> success_threshold (config b2) then
                     (True, transition_to (ck 3) (ck 4) CLOSED
                        (Success_Threshold (success_count b2) (success_threshold (config b2))) b2)
                   else if half_open_calls b2 \<ge> half_open_max_calls (config b2)
                        \<and> success_count b2 < half_open_calls b2 div 2 then
                     (True, transition_to (ck 3) (ck 4) OPEN Half_Open_Testing_Failed b2)
                   else (True, b2)
              else (True, b1))"

definition get_failure_rate :: "breaker \<Rightarrow> pyfloat" where
  "get_failure_rate b =
     (if recent_results b = [] then 0
      else idiv (int (length (filter Not (recent_results b)))) (int (length (recent_results b))))"

definition record_failure :: "(nat \<Rightarrow> pyfloat) \<Rightarrow> breaker \<Rightarrow> bool \<times> breaker" where
  "record_failure ck b =
     (let b0 = check_timeout ck b;
          b1 = b0\<lparr>failure_count := failure_count b0 + 1, total_failures := total_failures b0 + 1,
                  total_operations := total_operations b0 + 1, last_failure_time := Some (ck 2),
                  recent_results := window_append (window_size (config b0)) False (recent_results b0)\<rparr>;
          b2 = (case state b1 of
                  CLOSED \<Rightarrow>
                    if failure_count b1 \<ge> failure_threshold (config b1) then
                      transition_to (ck 3) (ck 4) OPEN
                        (Failure_Threshold (failure_count b1) (failure_threshold (config b1))) b1
                    else if get_failure_rate b1 \<ge> failure_rate_threshold (config b1) then
                      transition_to (ck 3) (ck 4) OPEN
                        (Failure_Rate (get_failure_rate b1) (failure_rate_threshold (config b1))) b1
                    else b1
                | HALF_OPEN \<Rightarrow>
                    transition_to (ck 3) (ck 4) OPEN Failure_During_Half_Open
                      (b1\<lparr>half_open_calls := half_open_calls b1 + 1\<rparr>)
                | OPEN \<Rightarrow> b1)
      in (state b2 \<noteq> OPEN, b2))"

definition can_execute :: "(nat \<Rightarrow> pyfloat) \<Rightarrow> breaker \<Rightarrow> bool \<times> breaker" where
  "can_execute ck b =
     (let b0 = check_timeout ck b
      in (case state b0 of
            OPEN \<Rightarrow> False
          | HALF_OPEN \<Rightarrow> half_open_calls b0 < half_open_max_calls (config b0)
          | CLOSED \<Rightarrow> True, b0))"

text \<open>\<open>execute(func)\<close>: \<open>func\<close> acts on its caller's world \<open>'w\<close>; \<open>ck\<close> is the clock of \<open>can_execute\<close>, \<open>ck'\<close> that of
  the record made after the call.\<close>

definition execute ::
  "(nat \<Rightarrow> pyfloat) \<Rightarrow> (nat \<Rightarrow> pyfloat) \<Rightarrow> ('w \<Rightarrow> (exn + 'r) \<times> 'w) \<Rightarrow> breaker \<Rightarrow> 'w \<Rightarrow> (exn + 'r) \<times> breaker \<times> 'w" where
  "execute ck ck' func b w =
     (let (ok, b0) = can_execute ck b
      in if \<not> ok then (Inl (OtherError ''CircuitOpenError''), b0, w)
         else
           (case func w of
              (Inr res, w1) \<Rightarrow> (Inr res, snd (record_success ck' b0), w1)
            | (Inl e, w1) \<Rightarrow> (Inl e, snd (record_failure ck' b0), w1)))"

definition set_transition_callback :: "breaker \<Rightarrow> breaker" where
  "set_transition_callback b = b\<lparr>on_transition := True\<rparr>"

definition get_transition_history :: "int \<Rightarrow> breaker \<Rightarrow> StateTransition list" where
  "get_transition_history n b = slice_from (- n) (transitions b)"

record breaker_statistics =
  bs_name :: string
  bs_state :: string
  bs_uptime :: pyfloat
  bs_failure_count :: int
  bs_success_count :: int
  bs_failure_rate :: pyfloat
  bs_total_transitions :: int
  bs_total_operations :: int
  bs_total_failures :: int
  bs_total_successes :: int
  bs_half_open_calls :: int
  bs_last_failure_time :: "pyfloat option"
  bs_opened_at :: "pyfloat option"
  bs_failure_threshold :: int
  bs_success_threshold :: int
  bs_timeout_seconds :: pyfloat
  bs_failure_rate_threshold :: pyfloat

definition get_statistics :: "pyfloat \<Rightarrow> breaker \<Rightarrow> breaker_statistics" where
  "get_statistics now b =
     \<lparr>bs_name = cfg_name (config b), bs_state = circuit_value (state b), bs_uptime = fsub now (created_at b),
      bs_failure_count = failure_count b, bs_success_count = success_count b,
      bs_failure_rate = get_failure_rate b, bs_total_transitions = total_transitions b,
      bs_total_operations = total_operations b, bs_total_failures = total_failures b,
      bs_total_successes = total_successes b, bs_half_open_calls = half_open_calls b,
      bs_last_failure_time = last_failure_time b, bs_opened_at = opened_at b,
      bs_failure_threshold = failure_threshold (config b), bs_success_threshold = success_threshold (config b),
      bs_timeout_seconds = timeout_seconds (config b),
      bs_failure_rate_threshold = failure_rate_threshold (config b)\<rparr>"

definition reset :: "(nat \<Rightarrow> pyfloat) \<Rightarrow> breaker \<Rightarrow> breaker" where
  "reset ck b =
     (if state b \<noteq> CLOSED then transition_to (ck 3) (ck 4) CLOSED Manual_Reset b
      else b\<lparr>failure_count := 0, success_count := 0, recent_results := []\<rparr>)"

section \<open>The registry\<close>

text \<open>\<open>CircuitBreakerRegistry\<close>: breakers by name. A breaker handed out is the registered object, so calls on it
  are calls on its entry.\<close>

type_synonym registry = "(string, breaker) dict"

definition create_breaker :: "pyfloat \<Rightarrow> CircuitBreakerConfig \<Rightarrow> registry \<Rightarrow> (exn + breaker) \<times> registry" where
  "create_breaker now cfg r =
     (case dict_get r (cfg_name cfg) of
        Some b \<Rightarrow> (Inr b, r)
      | None \<Rightarrow>
          (case breaker_init now cfg of
             Inl e \<Rightarrow> (Inl e, r)
           | Inr b \<Rightarrow> (Inr b, dict_set (cfg_name cfg) b r)))"

definition get_breaker :: "string \<Rightarrow> registry \<Rightarrow> breaker option" where
  "get_breaker n r = dict_get r n"

definition get_all_statistics :: "(string \<Rightarrow> pyfloat) \<Rightarrow> registry \<Rightarrow> (string, breaker_statistics) dict" where
  "get_all_statistics now r = map (\<lambda>(n, b). (n, get_statistics (now n) b)) r"

text \<open>\<open>breaker.is_open\<close> may move a breaker to HALF_OPEN, so listing the open ones changes the registry.\<close>

definition get_open_breakers :: "(string \<Rightarrow> nat \<Rightarrow> pyfloat) \<Rightarrow> registry \<Rightarrow> string list \<times> registry" where
  "get_open_breakers ck r =
     (map fst (filter (\<lambda>(n, b). fst (is_open (ck n) b)) r), map (\<lambda>(n, b). (n, snd (is_open (ck n) b))) r)"

definition reset_all :: "(string \<Rightarrow> nat \<Rightarrow> pyfloat) \<Rightarrow> registry \<Rightarrow> registry" where
  "reset_all ck r = map (\<lambda>(n, b). (n, reset (ck n) b)) r"

text \<open>The global registry, made on first use, and the two factories.\<close>

definition get_registry :: "registry option \<Rightarrow> registry" where
  "get_registry g = (case g of None \<Rightarrow> [] | Some r \<Rightarrow> r)"

definition create_trading_circuit_breaker :: "pyfloat \<Rightarrow> string \<Rightarrow> registry option \<Rightarrow> (exn + breaker) \<times> registry" where
  "create_trading_circuit_breaker now n g =
     create_breaker now ((breaker_config n)\<lparr>failure_threshold := 3, success_threshold := 2, timeout_seconds := 60,
       failure_rate_threshold := fl (4 / 10)\<rparr>) (get_registry g)"

definition create_exchange_circuit_breaker :: "pyfloat \<Rightarrow> string \<Rightarrow> registry option \<Rightarrow> (exn + breaker) \<times> registry" where
  "create_exchange_circuit_breaker now ex g =
     create_breaker now ((breaker_config (''exchange_'' @ ex))\<lparr>failure_threshold := 5, success_threshold := 3,
       timeout_seconds := 30, failure_rate_threshold := 1 / 2\<rparr>) (get_registry g)"

section \<open>Runs\<close>

text \<open>The calls on one breaker. \<open>Op_Execute\<close> carries the outcome of the protected function.\<close>

datatype breaker_op =
    Op_State "nat \<Rightarrow> pyfloat"
  | Op_Success "nat \<Rightarrow> pyfloat"
  | Op_Failure "nat \<Rightarrow> pyfloat"
  | Op_Can "nat \<Rightarrow> pyfloat"
  | Op_Execute "nat \<Rightarrow> pyfloat" "nat \<Rightarrow> pyfloat" "exn + json"
  | Op_Callback
  | Op_Reset "nat \<Rightarrow> pyfloat"

fun breaker_step :: "breaker_op \<Rightarrow> breaker \<Rightarrow> breaker" where
  "breaker_step (Op_State ck) b = snd (get_state ck b)"
| "breaker_step (Op_Success ck) b = snd (record_success ck b)"
| "breaker_step (Op_Failure ck) b = snd (record_failure ck b)"
| "breaker_step (Op_Can ck) b = snd (can_execute ck b)"
| "breaker_step (Op_Execute ck ck' res) b = fst (snd (execute ck ck' (\<lambda>w. (res, w)) b ()))"
| "breaker_step Op_Callback b = set_transition_callback b"
| "breaker_step (Op_Reset ck) b = reset ck b"

text \<open>The edges the documentation draws, each with the reasons the code gives for it.\<close>

fun lawful :: "CircuitState \<Rightarrow> reason \<Rightarrow> CircuitState \<Rightarrow> bool" where
  "lawful CLOSED (Failure_Threshold n k) OPEN = (n \<ge> k)"
| "lawful CLOSED (Failure_Rate r k) OPEN = (r \<ge> k)"
| "lawful OPEN (Timeout_Elapsed e k) HALF_OPEN = (e \<ge> k)"
| "lawful HALF_OPEN (Success_Threshold n k) CLOSED = (n \<ge> k)"
| "lawful HALF_OPEN Failure_During_Half_Open OPEN = True"
| "lawful s Manual_Reset CLOSED = (s \<noteq> CLOSED)"
| "lawful _ _ _ = False"

fun history_path :: "CircuitState \<Rightarrow> StateTransition list \<Rightarrow> CircuitState \<Rightarrow> bool" where
  "history_path s [] t = (s = t)"
| "history_path s (x # xs) t = (from_state x = s \<and> lawful s (tr_reason x) (to_state x) \<and> history_path (to_state x) xs t)"

lemma history_path_snoc:
  "history_path s (xs @ [x]) t \<longleftrightarrow> history_path s xs (from_state x) \<and> lawful (from_state x) (tr_reason x) t \<and> to_state x = t"
  by (induction xs arbitrary: s) auto

definition books :: "breaker \<Rightarrow> bool" where
  "books b \<longleftrightarrow>
     history_path CLOSED (transitions b) (state b) \<and>
     total_transitions b = int (length (transitions b)) \<and>
     total_operations b = total_failures b + total_successes b \<and>
     0 \<le> window_size (config b) \<and> int (length (recent_results b)) \<le> window_size (config b)"

definition breaker_inv :: "breaker \<Rightarrow> bool" where
  "breaker_inv b \<longleftrightarrow> books b \<and>
     (state b = OPEN \<longrightarrow> opened_at b \<noteq> None) \<and>
     (state b = HALF_OPEN \<longrightarrow> 0 \<le> half_open_calls b \<and> success_count b = half_open_calls b) \<and>
     (state b = CLOSED \<longrightarrow> half_open_calls b = 0)"

lemma length_window_append: "0 \<le> n \<Longrightarrow> int (length (window_append n x xs)) \<le> n"
  by (simp add: window_append_def)

lemma breaker_init_inv: "breaker_init now cfg = Inr b \<Longrightarrow> breaker_inv b \<and> config b = cfg \<and> state b = CLOSED"
  by (auto simp: breaker_init_def breaker_inv_def books_def split: if_splits)

lemma lawful_moves: "lawful s why t \<Longrightarrow> s \<noteq> t"
  by (cases s; cases why; cases t) auto

text \<open>A transition along a lawful edge keeps the invariant.\<close>

lemma transition_to_inv:
  "books b \<Longrightarrow> lawful (state b) why s \<Longrightarrow> breaker_inv (transition_to now now' s why b)"
  by (frule lawful_moves)
    (cases s; auto simp: transition_to_def Let_def breaker_inv_def books_def history_path_snoc)

lemma transition_to_state [simp]: "state (transition_to now now' s why b) = s"
  by (cases s) (simp_all add: transition_to_def Let_def)

lemma transition_to_config [simp]: "config (transition_to now now' s why b) = config b"
  by (cases s) (simp_all add: transition_to_def Let_def)

lemma check_timeout_inv [inv_intros]: "breaker_inv b \<Longrightarrow> breaker_inv (check_timeout ck b)"
proof (cases "state b")
  case OPEN
  assume i: "breaker_inv b"
  then have "books b" by (simp add: breaker_inv_def)
  then show ?thesis
    using OPEN i by (auto simp: check_timeout_def Let_def intro!: transition_to_inv split: option.split)
qed (simp_all add: check_timeout_def)

lemma check_timeout_config [simp]: "config (check_timeout ck b) = config b"
  by (simp add: check_timeout_def Let_def split: CircuitState.split option.split)

text \<open>The counters a call writes before it looks at the state.\<close>

definition count_success :: "breaker \<Rightarrow> breaker" where
  "count_success b = b\<lparr>success_count := success_count b + 1, total_successes := total_successes b + 1,
     total_operations := total_operations b + 1,
     recent_results := window_append (window_size (config b)) True (recent_results b)\<rparr>"

definition count_failure :: "pyfloat \<Rightarrow> breaker \<Rightarrow> breaker" where
  "count_failure now b = b\<lparr>failure_count := failure_count b + 1, total_failures := total_failures b + 1,
     total_operations := total_operations b + 1, last_failure_time := Some now,
     recent_results := window_append (window_size (config b)) False (recent_results b)\<rparr>"

lemma count_success_simps [simp]:
  "state (count_success b) = state b" "config (count_success b) = config b"
  "half_open_calls (count_success b) = half_open_calls b" "success_count (count_success b) = success_count b + 1"
  "opened_at (count_success b) = opened_at b" "failure_count (count_success b) = failure_count b"
  by (simp_all add: count_success_def)

lemma count_failure_simps [simp]:
  "state (count_failure now b) = state b" "config (count_failure now b) = config b"
  "half_open_calls (count_failure now b) = half_open_calls b" "failure_count (count_failure now b) = failure_count b + 1"
  "opened_at (count_failure now b) = opened_at b" "success_count (count_failure now b) = success_count b"
  by (simp_all add: count_failure_def)

lemma books_count [simp]: "books b \<Longrightarrow> books (count_success b)" "books b \<Longrightarrow> books (count_failure now b)"
  "books (b\<lparr>half_open_calls := n\<rparr>) = books b"
  by (auto simp: books_def count_success_def count_failure_def length_window_append)

lemma breaker_inv_books: "breaker_inv b \<Longrightarrow> books b"
  by (simp add: breaker_inv_def)

text \<open>In HALF_OPEN every counted call was a success, so the branch for a failed test is never taken.\<close>

lemma record_success_eq:
  assumes "breaker_inv b" "b0 = check_timeout ck b"
  shows "record_success ck b =
    (case state b0 of
       OPEN \<Rightarrow> (False, b0)
     | CLOSED \<Rightarrow> (True, count_success b0)
     | HALF_OPEN \<Rightarrow>
         (True, if half_open_calls b0 + 1 \<ge> success_threshold (config b)
                then transition_to (ck 3) (ck 4) CLOSED
                  (Success_Threshold (half_open_calls b0 + 1) (success_threshold (config b)))
                  ((count_success b0)\<lparr>half_open_calls := half_open_calls b0 + 1\<rparr>)
                else (count_success b0)\<lparr>half_open_calls := half_open_calls b0 + 1\<rparr>))"
proof -
  have i: "breaker_inv b0" using assms by (simp add: inv_intros)
  have c: "config b0 = config b" using assms by simp
  show ?thesis
    unfolding record_success_def assms(2) [symmetric] Let_def
    using i by (cases "state b0") (auto simp: breaker_inv_def c count_success_def)
qed

lemma record_failure_eq:
  assumes "b0 = check_timeout ck b" "b1 = count_failure (ck 2) b0"
  shows "snd (record_failure ck b) =
    (case state b0 of
       OPEN \<Rightarrow> b1
     | CLOSED \<Rightarrow>
         if failure_count b1 \<ge> failure_threshold (config b) then
           transition_to (ck 3) (ck 4) OPEN (Failure_Threshold (failure_count b1) (failure_threshold (config b))) b1
         else if get_failure_rate b1 \<ge> failure_rate_threshold (config b) then
           transition_to (ck 3) (ck 4) OPEN (Failure_Rate (get_failure_rate b1) (failure_rate_threshold (config b))) b1
         else b1
     | HALF_OPEN \<Rightarrow>
         transition_to (ck 3) (ck 4) OPEN Failure_During_Half_Open (b1\<lparr>half_open_calls := half_open_calls b1 + 1\<rparr>))"
proof -
  have c: "config b0 = config b" using assms by simp
  show ?thesis
    unfolding record_failure_def assms(1) [symmetric] Let_def count_failure_def [symmetric] assms(2) [symmetric]
    by (simp add: assms(2) c split: CircuitState.split)
qed

lemma record_success_inv [inv_intros]:
  assumes "breaker_inv b" shows "breaker_inv (snd (record_success ck b))"
proof -
  define b0 where "b0 = check_timeout ck b"
  have i: "breaker_inv b0" "config b0 = config b" using assms by (simp_all add: b0_def inv_intros)
  have k: "books (count_success b0)" using i by (simp add: breaker_inv_books)
  have c: "breaker_inv (count_success b0)" if "state b0 = CLOSED"
    using i k that by (simp add: breaker_inv_def)
  have h: "breaker_inv ((count_success b0)\<lparr>half_open_calls := half_open_calls b0 + 1\<rparr>)" if "state b0 = HALF_OPEN"
    using i k that by (simp add: breaker_inv_def)
  show ?thesis
    unfolding record_success_eq [OF assms b0_def]
    using i k c h by (cases "state b0") (auto intro!: transition_to_inv)
qed

lemma record_failure_inv [inv_intros]:
  assumes "breaker_inv b" shows "breaker_inv (snd (record_failure ck b))"
proof -
  define b0 where "b0 = check_timeout ck b"
  have i: "breaker_inv b0" "config b0 = config b" using assms by (simp_all add: b0_def inv_intros)
  have k: "books (count_failure (ck 2) b0)" using i by (simp add: breaker_inv_books)
  have c: "breaker_inv (count_failure (ck 2) b0)" if "state b0 \<noteq> HALF_OPEN"
    using i k that by (cases "state b0") (simp_all add: breaker_inv_def)
  show ?thesis
    unfolding record_failure_eq [OF b0_def refl]
    using i k c by (cases "state b0") (auto intro!: transition_to_inv)
qed

lemma can_execute_state: "snd (can_execute ck b) = check_timeout ck b"
  by (simp add: can_execute_def Let_def)

lemma execute_inv [inv_intros]: "breaker_inv b \<Longrightarrow> breaker_inv (fst (snd (execute ck ck' f b w)))"
  unfolding execute_def Let_def
  by (auto simp: case_prod_unfold can_execute_state inv_intros split: sum.split)

lemma reset_inv [inv_intros]: "breaker_inv b \<Longrightarrow> breaker_inv (reset ck b)"
proof (cases "state b = CLOSED")
  case True
  then show "breaker_inv b \<Longrightarrow> ?thesis" by (simp add: reset_def breaker_inv_def books_def)
next
  case False
  assume "breaker_inv b"
  with False show ?thesis
    by (cases "state b") (auto simp: reset_def dest!: breaker_inv_books intro!: transition_to_inv)
qed

lemma breaker_step_inv: "breaker_inv b \<Longrightarrow> breaker_inv (breaker_step x b)"
proof (cases x)
  case Op_Callback
  assume "breaker_inv b"
  with Op_Callback show ?thesis by (simp add: set_transition_callback_def breaker_inv_def books_def)
qed (simp_all add: get_state_def Let_def can_execute_state inv_intros)

interpretation cbr: op_machine breaker_step breaker_inv
  by unfold_locales (rule breaker_step_inv)

section \<open>Facts about runs\<close>

lemma breaker_step_config [simp]: "breaker_inv b \<Longrightarrow> config (breaker_step x b) = config b"
proof (cases x)
  case (Op_Success ck)
  assume "breaker_inv b"
  with Op_Success show ?thesis
    by (simp add: record_success_eq [OF _ refl] split: CircuitState.split)
next
  case (Op_Failure ck)
  then show ?thesis by (simp add: record_failure_eq [OF refl refl] split: CircuitState.split)
next
  case (Op_Execute ck ck' res)
  assume i: "breaker_inv b"
  have j: "breaker_inv (check_timeout ck b)" using i by (rule check_timeout_inv)
  have "config (snd (record_success ck' (check_timeout ck b))) = config b"
    by (simp add: record_success_eq [OF j refl] split: CircuitState.split)
  moreover have "config (snd (record_failure ck' (check_timeout ck b))) = config b"
    by (simp add: record_failure_eq [OF refl refl] split: CircuitState.split)
  ultimately show ?thesis
    unfolding Op_Execute by (simp add: execute_def case_prod_unfold can_execute_state Let_def split: sum.split)
qed (simp_all add: get_state_def Let_def can_execute_state set_transition_callback_def reset_def)

lemma run_config: "breaker_inv b \<Longrightarrow> config (fold breaker_step xs b) = config b"
  by (induction xs arbitrary: b) (simp_all add: breaker_step_inv)

lemma history_reasons: "history_path s xs t \<Longrightarrow> x \<in> set xs \<Longrightarrow> tr_reason x \<noteq> Half_Open_Testing_Failed"
proof (induction xs arbitrary: s)
  case (Cons y ys)
  have "lawful s (tr_reason y) (to_state y) \<Longrightarrow> tr_reason y \<noteq> Half_Open_Testing_Failed"
    by (cases s; cases "to_state y"; cases "tr_reason y") auto
  with Cons show ?case by auto
qed simp

text \<open>Before the timeout an open breaker stays as it is, but for its counters.\<close>

definition too_early :: "pyfloat \<Rightarrow> pyfloat \<Rightarrow> (nat \<Rightarrow> pyfloat) \<Rightarrow> bool" where
  "too_early t limit ck \<longleftrightarrow> fsub (ck 0) t < limit"

fun waits_for :: "pyfloat \<Rightarrow> pyfloat \<Rightarrow> breaker_op \<Rightarrow> bool" where
  "waits_for t limit (Op_State ck) = too_early t limit ck"
| "waits_for t limit (Op_Success ck) = too_early t limit ck"
| "waits_for t limit (Op_Failure ck) = too_early t limit ck"
| "waits_for t limit (Op_Can ck) = too_early t limit ck"
| "waits_for t limit (Op_Execute ck ck' res) = too_early t limit ck"
| "waits_for t limit Op_Callback = True"
| "waits_for t limit (Op_Reset ck) = False"

lemma check_timeout_early:
  "state b = OPEN \<Longrightarrow> opened_at b = Some t \<Longrightarrow> too_early t (timeout_seconds (config b)) ck \<Longrightarrow> check_timeout ck b = b"
  by (simp add: check_timeout_def too_early_def Let_def)

lemma execute_early:
  "state b = OPEN \<Longrightarrow> opened_at b = Some t \<Longrightarrow> too_early t (timeout_seconds (config b)) ck \<Longrightarrow>
   execute ck ck' f b w = (Inl (OtherError ''CircuitOpenError''), b, w)"
  by (simp add: execute_def can_execute_def check_timeout_early)

lemma open_step:
  assumes "state b = OPEN" "opened_at b = Some t" "waits_for t (timeout_seconds (config b)) x"
  shows "state (breaker_step x b) = OPEN \<and> opened_at (breaker_step x b) = Some t \<and> config (breaker_step x b) = config b"
  using assms
  by (cases x) (auto simp: get_state_def Let_def can_execute_state check_timeout_early execute_early
      record_success_def record_failure_eq [OF refl refl] set_transition_callback_def)

lemma open_run:
  assumes "state b = OPEN" "opened_at b = Some t" "\<forall>x \<in> set xs. waits_for t (timeout_seconds (config b)) x"
  shows "state (fold breaker_step xs b) = OPEN \<and> opened_at (fold breaker_step xs b) = Some t \<and>
    config (fold breaker_step xs b) = config b"
  using assms
proof (induction xs arbitrary: b)
  case (Cons x xs)
  then show ?case using open_step [of b t x] by auto
qed simp

text \<open>Clients that go through \<open>execute\<close> only.\<close>

fun via_execute :: "breaker_op \<Rightarrow> bool" where
  "via_execute (Op_Success ck) = False"
| "via_execute (Op_Failure ck) = False"
| "via_execute (Op_Reset ck) = False"
| "via_execute _ = True"

definition closings :: "breaker \<Rightarrow> StateTransition list" where
  "closings b = filter (\<lambda>x. to_state x = CLOSED) (transitions b)"

lemma closings_transition [simp]: "s \<noteq> CLOSED \<Longrightarrow> closings (transition_to now now' s why b) = closings b"
  by (cases s) (simp_all add: closings_def transition_to_def Let_def)

lemma closings_count [simp]: "closings (count_success b) = closings b" "closings (count_failure now b) = closings b"
  "closings (b\<lparr>half_open_calls := n\<rparr>) = closings b"
  by (simp_all add: closings_def count_success_def count_failure_def)

lemma closings_check [simp]: "closings (check_timeout ck b) = closings b"
  by (simp add: check_timeout_def Let_def split: CircuitState.split option.split)

lemma closings_failure: "closings (snd (record_failure ck b)) = closings b"
  by (simp add: record_failure_eq [OF refl refl] split: CircuitState.split)

lemma closings_execute:
  assumes i: "breaker_inv b" and c: "half_open_max_calls (config b) < success_threshold (config b)"
  shows "closings (fst (snd (execute ck ck' f b w))) = closings b"
proof -
  define b0 where "b0 = check_timeout ck b"
  have j: "breaker_inv b0" "config b0 = config b" "closings b0 = closings b"
    using i by (simp_all add: b0_def inv_intros)
  have s: "closings (snd (record_success ck' b0)) = closings b" if "fst (can_execute ck b)"
  proof -
    have st: "check_timeout ck' b0 = b0"
      using that unfolding can_execute_def b0_def [symmetric] by (cases "state b0") (simp_all add: check_timeout_def)
    have "half_open_calls b0 < half_open_max_calls (config b)" if "state b0 = HALF_OPEN"
      using \<open>fst (can_execute ck b)\<close> that j unfolding can_execute_def b0_def [symmetric] by simp
    then show ?thesis
      unfolding record_success_eq [OF j(1) refl] st using j c by (cases "state b0") auto
  qed
  show ?thesis
    unfolding execute_def Let_def
    using s j(3) by (auto simp: case_prod_unfold can_execute_state closings_failure b0_def split: sum.split)
qed

lemma closings_step:
  "breaker_inv b \<Longrightarrow> half_open_max_calls (config b) < success_threshold (config b) \<Longrightarrow> via_execute x \<Longrightarrow>
   closings (breaker_step x b) = closings b"
  by (cases x) (simp_all add: get_state_def Let_def can_execute_state closings_execute,
      simp add: set_transition_callback_def closings_def)

lemma history_last: "history_path s xs t \<Longrightarrow> xs \<noteq> [] \<Longrightarrow> to_state (last xs) = t"
  by (induction xs arbitrary: s) auto

section \<open>Properties\<close>

lemma breaker_run_inv:
  "breaker_init now cfg = Inr b0 \<Longrightarrow> breaker_inv (fold breaker_step xs b0) \<and> config (fold breaker_step xs b0) = cfg"
  using breaker_init_inv [of now cfg b0] cbr.run_inv [of b0 xs] run_config [of b0 xs] by simp

text \<open>C16: the breaker keeps to its state diagram. After any sequence of calls on a new breaker the recorded transitions
  lead from CLOSED to the present state along CLOSED to OPEN (on reaching a threshold), OPEN to HALF_OPEN (on a
  timeout that has elapsed), HALF_OPEN to CLOSED (on reaching the success threshold), HALF_OPEN to OPEN
  (on a failure) and manual resets; the counters agree with the record, the window is within its
  size, and the transition for a failed half-open test never happens.\<close>
theorem breaker_keeps_diagram:
  assumes "breaker_init now cfg = Inr b0" "b = fold breaker_step xs b0"
  shows "history_path CLOSED (transitions b) (state b) \<and>
    total_transitions b = int (length (transitions b)) \<and> total_operations b = total_failures b + total_successes b \<and>
    int (length (recent_results b)) \<le> window_size cfg \<and>
    (\<forall>x \<in> set (transitions b). tr_reason x \<noteq> Half_Open_Testing_Failed)"
proof -
  have i: "breaker_inv b" "config b = cfg" using breaker_run_inv [OF assms(1)] assms(2) by simp_all
  then have "history_path CLOSED (transitions b) (state b)" by (simp add: breaker_inv_def books_def)
  with i show ?thesis by (auto simp: breaker_inv_def books_def dest: history_reasons)
qed

lemmas breaker_eval =
  record_failure_def record_success_def check_timeout_def transition_to_def can_execute_def execute_def get_state_def
  get_failure_rate_def window_append_def idiv_def fsub_def Let_def

definition demo_config :: CircuitBreakerConfig where
  "demo_config = (breaker_config ''db'')\<lparr>success_threshold := 4\<rparr>"

definition demo_breaker :: breaker where
  "demo_breaker = \<lparr>config = demo_config, state = CLOSED, failure_count = 0, success_count = 0, half_open_calls = 0,
     recent_results = [], transitions = [], last_failure_time = None, opened_at = None, created_at = 0,
     on_transition = False, total_transitions = 0, total_operations = 0, total_failures = 0, total_successes = 0\<rparr>"

lemmas demo_eval = breaker_eval demo_breaker_def demo_config_def breaker_config_def

lemma demo_breaker_init: "breaker_init 0 demo_config = Inr demo_breaker"
  by (simp add: breaker_init_def demo_breaker_def demo_config_def breaker_config_def)

lemma breaker_keeps_diagram_witness:
  "let b = fold breaker_step [Op_Failure (\<lambda>_. 1), Op_State (\<lambda>_. 40), Op_Failure (\<lambda>_. 41)] demo_breaker
   in state b = OPEN \<and> length (transitions b) = 3 \<and> history_path CLOSED (transitions b) OPEN"
  using breaker_keeps_diagram [OF demo_breaker_init refl, of "[Op_Failure (\<lambda>_. 1), Op_State (\<lambda>_. 40), Op_Failure (\<lambda>_. 41)]"]
  by (simp add: demo_eval)

text \<open>an open breaker blocks until its timeout. From any reachable OPEN state, whatever calls but a reset follow, as long
  as their clock readings are before the timeout the breaker stays open, \<open>execute\<close> raises
  \<open>CircuitOpenError\<close> without calling the protected function and changes nothing; at the first reading at or
  after the timeout it is HALF_OPEN.\<close>
theorem open_breaker_blocks:
  assumes "breaker_init now cfg = Inr b0" "b = fold breaker_step xs b0" "state b = OPEN" "opened_at b = Some t"
    "\<forall>x \<in> set ys. waits_for t (timeout_seconds cfg) x" "b' = fold breaker_step ys b"
  shows "state b' = OPEN \<and>
    (if fsub (ck 0) t < timeout_seconds cfg
     then execute ck ck' func b' w = (Inl (OtherError ''CircuitOpenError''), b', w)
     else fst (get_state ck b') = HALF_OPEN)"
proof -
  have c: "config b = cfg" using breaker_run_inv [OF assms(1)] assms(2) by simp
  have r: "state b' = OPEN" "opened_at b' = Some t" "config b' = cfg"
    using open_run [OF assms(3,4), of ys] assms(5,6) c by auto
  then show ?thesis
    using execute_early [of b' t ck ck' func w] by (auto simp: too_early_def get_state_def check_timeout_def Let_def)
qed

lemma open_breaker_blocks_witness:
  "execute (\<lambda>_. 20) (\<lambda>_. 20) (\<lambda>w. (Inr (), w + 1))
     (fold breaker_step [Op_Success (\<lambda>_. 10)] (fold breaker_step [Op_Failure (\<lambda>_. 1)] demo_breaker)) (7::int) =
     (Inl (OtherError ''CircuitOpenError''),
      fold breaker_step [Op_Success (\<lambda>_. 10)] (fold breaker_step [Op_Failure (\<lambda>_. 1)] demo_breaker), 7)"
proof -
  have o: "state (fold breaker_step [Op_Failure (\<lambda>_. 1)] demo_breaker) = OPEN"
    "opened_at (fold breaker_step [Op_Failure (\<lambda>_. 1)] demo_breaker) = Some 1" by (simp_all add: demo_eval)
  have "\<forall>x \<in> set [Op_Success (\<lambda>_. 10)]. waits_for 1 (timeout_seconds demo_config) x"
    and "fsub 20 1 < timeout_seconds demo_config" by (simp_all add: demo_eval too_early_def)
  then show ?thesis
    using open_breaker_blocks [OF demo_breaker_init refl o _ refl, of "[Op_Success (\<lambda>_. 10)]" "\<lambda>_. 20" "\<lambda>_. 20"
        "\<lambda>w. (Inr (), w + 1)" "7::int"] by simp
qed

text \<open>one failure trips a breaker that has seen no success. In every reachable CLOSED state whose window holds no success -
  a new breaker in particular - the next failure opens the breaker whatever \<open>failure_threshold\<close> asks for, as
  long as the window has room for one result and the rate threshold is at most 1: the failure rate of the
  window is 1 then.\<close>
theorem first_failure_trips:
  assumes "breaker_init now cfg = Inr b0" "b = fold breaker_step xs b0" "state b = CLOSED"
    "1 \<le> window_size cfg" "True \<notin> set (recent_results b)" "failure_rate_threshold cfg \<le> 1"
    "record_failure ck b = (ok, b')"
  shows "\<not> ok \<and> state b' = OPEN"
proof -
  have c: "config b = cfg" using breaker_run_inv [OF assms(1)] assms(2) by simp
  have t: "check_timeout ck b = b" using assms(3) by (simp add: check_timeout_def)
  have w: "window_append (window_size cfg) False (recent_results b) \<noteq> []"
    using assms(4) by (auto simp: window_append_def)
  have f: "\<forall>x \<in> set (window_append (window_size cfg) False (recent_results b)). \<not> x"
    using assms(5) by (auto simp: window_append_def dest!: in_set_dropD split: if_splits)
  let ?n = "int (length (window_append (window_size cfg) False (recent_results b)))"
  have "get_failure_rate (count_failure (ck 2) b) = idiv ?n ?n"
    using w f c by (simp add: get_failure_rate_def count_failure_def filter_True)
  also have "\<dots> = 1" using w by (simp add: idiv_def)
  finally have r: "get_failure_rate (count_failure (ck 2) b) = 1" .
  have "state (snd (record_failure ck b)) = OPEN"
    unfolding record_failure_eq [OF refl refl] t using assms(3,6) c r by simp
  moreover have "fst (record_failure ck b) = (state (snd (record_failure ck b)) \<noteq> OPEN)"
    by (simp add: record_failure_def Let_def)
  ultimately show ?thesis using assms(7) by simp
qed

lemma first_failure_trips_witness:
  "failure_threshold (config demo_breaker) = 5 \<and> state (snd (record_failure (\<lambda>_. 1) demo_breaker)) = OPEN"
proof -
  obtain ok b' where r: "record_failure (\<lambda>_. 1) demo_breaker = (ok, b')" by force
  have "state b' = OPEN"
    using first_failure_trips [OF demo_breaker_init, of demo_breaker "[]", OF _ _ _ _ _ r]
    by (simp add: demo_breaker_def demo_config_def breaker_config_def)
  with r show ?thesis by (simp add: demo_breaker_def demo_config_def breaker_config_def)
qed

text \<open>with a success threshold above \<open>half_open_max_calls\<close> an opened breaker never closes again for clients that
  go through \<open>execute\<close>: half-open lets too few calls through to reach the threshold, and no timeout
  leads out of it. No transition back to CLOSED is ever recorded, so the breaker is CLOSED only as long as it
  never opened.\<close>
theorem opened_breaker_never_closes:
  assumes "breaker_init now cfg = Inr b0" "half_open_max_calls cfg < success_threshold cfg"
    "\<forall>x \<in> set xs. via_execute x" "b = fold breaker_step xs b0"
  shows "(\<forall>x \<in> set (transitions b). to_state x \<noteq> CLOSED) \<and> (state b = CLOSED \<longrightarrow> transitions b = [])"
proof -
  have i: "breaker_inv b0" "config b0 = cfg" and e: "transitions b0 = []"
    using breaker_init_inv [OF assms(1)] arg_cong [OF assms(1), of "case_sum (\<lambda>_. []) transitions"]
    by (auto simp: breaker_init_def split: if_splits)
  have "config b0 = cfg \<longrightarrow> config b = cfg \<and> closings b = closings b0" unfolding assms(4)
    by (rule cbr.run_rel [where rel = "\<lambda>b b'. config b = cfg \<longrightarrow> config b' = cfg \<and> closings b' = closings b"
          and ok = via_execute, OF i(1) assms(3)])
      (use assms(2) in \<open>auto simp: closings_step\<close>)
  then have n: "\<forall>x \<in> set (transitions b). to_state x \<noteq> CLOSED"
    using i(2) e by (auto simp: closings_def filter_empty_conv)
  have "history_path CLOSED (transitions b) (state b)"
    using cbr.run_inv [OF i(1), of xs] assms(4) by (simp add: breaker_inv_def books_def)
  then show ?thesis using n history_last [of CLOSED "transitions b" "state b"] by (metis last_in_set)
qed

lemma opened_breaker_never_closes_witness:
  "let run = [Op_Execute (\<lambda>_. 1) (\<lambda>_. 1) (Inl ValueError), Op_Execute (\<lambda>_. 40) (\<lambda>_. 40) (Inr JNull),
       Op_Execute (\<lambda>_. 41) (\<lambda>_. 41) (Inr JNull), Op_Execute (\<lambda>_. 42) (\<lambda>_. 42) (Inr JNull)];
       b = fold breaker_step run demo_breaker
   in state b = HALF_OPEN \<and> \<not> fst (can_execute (\<lambda>_. 1000000) b) \<and> (\<forall>x \<in> set (transitions b). to_state x \<noteq> CLOSED)"
  unfolding Let_def
proof (intro conjI)
  let ?run = "[Op_Execute (\<lambda>_. 1) (\<lambda>_. 1) (Inl ValueError), Op_Execute (\<lambda>_. 40) (\<lambda>_. 40) (Inr JNull),
       Op_Execute (\<lambda>_. 41) (\<lambda>_. 41) (Inr JNull), Op_Execute (\<lambda>_. 42) (\<lambda>_. 42) (Inr JNull)]"
  show "state (fold breaker_step ?run demo_breaker) = HALF_OPEN" by (simp add: demo_eval)
  show "\<not> fst (can_execute (\<lambda>_. 1000000) (fold breaker_step ?run demo_breaker))" by (simp add: demo_eval)
  show "\<forall>x \<in> set (transitions (fold breaker_step ?run demo_breaker)). to_state x \<noteq> CLOSED"
    using opened_breaker_never_closes [OF demo_breaker_init _ _ refl, of ?run]
    by (simp add: demo_config_def breaker_config_def)
qed

end
