(* ===== verification/BellmanFord.thy ===== *)
theory BellmanFord
  imports Prelude "HOL-Library.List_Lexorder" "HOL-Library.Char_ord"
begin

text \<open>
  \<open>backend/arbitrage/bellman_ford_solver.py\<close>: the search for arbitrage as negative cycles in the graph of
  exchange rates (\<open>solver\<close> for \<open>BellmanFordSolver\<close>), and the detector around it (\<open>detector\<close> for
  \<open>RealTimeArbDetector\<close>).

  A distance of \<open>float('inf')\<close> is \<open>None\<close>, a predecessor of \<open>-1\<close> is \<open>None\<close>. \<open>math.log\<close> and \<open>math.exp\<close> have no
  prescribed rounding and the decimal that \<open>str\<close> of a float prints is the shortest that reads back:
  the three are the fields of \<open>mathlib\<close>, of which nothing is assumed. The order in which the set of relaxable
  vertices is enumerated is the parameter \<open>ord\<close>.
\<close>

section \<open>Edges and cycles\<close>

record mathlib =
  m_log :: "pyfloat \<Rightarrow> pyfloat"
  m_exp :: "pyfloat \<Rightarrow> exn + pyfloat"
  m_dec :: "pyfloat \<Rightarrow> decimal"

record Edge =
  from_symbol :: string
  to_symbol :: string
  rate :: decimal
  fee_bps :: decimal
  log_weight :: pyfloat

text \<open>\<open>math.log\<close> of a number that is not positive is a \<open>ValueError\<close>.\<close>

definition edge_create :: "mathlib \<Rightarrow> string \<Rightarrow> string \<Rightarrow> decimal \<Rightarrow> decimal \<Rightarrow> exn + Edge" where
  "edge_create ml a b r fee =
     (let rate_after_fee = dmul r (dsub 1 (ddiv fee 10000)); x = fl rate_after_fee
      in if x \<le> 0 then Inl ValueError
         else Inr \<lparr>from_symbol = a, to_symbol = b, rate = r, fee_bps = fee, log_weight = - m_log ml x\<rparr>)"

record ArbCycle =
  cycle_symbols :: "string list"
  total_log_weight :: pyfloat
  profit_bps :: decimal
  cycle_edges :: "Edge list"
  detection_time_ns :: int
  confidence_score :: pyfloat

section \<open>The solver\<close>

record solver =
  edges :: "Edge list"
  symbols :: "string set"
  symbol_to_idx :: "(string, nat) dict"
  idx_to_symbol :: "(nat, string) dict"
  dist :: "pyfloat option list"
  predecessor :: "nat option list"
  detection_count :: int
  last_detection_time_ns :: int
  total_scans :: int
  min_profit :: decimal

definition solver_init :: solver where
  "solver_init = \<lparr>edges = [], symbols = {}, symbol_to_idx = [], idx_to_symbol = [], dist = [], predecessor = [],
     detection_count = 0, last_detection_time_ns = 0, total_scans = 0, min_profit = 1\<rparr>"

text \<open>The loop of \<open>update_graph\<close>: an edge whose rate has no logarithm ends it half way.\<close>

fun add_edges :: "mathlib \<Rightarrow> (string \<times> string \<times> decimal \<times> decimal) list \<Rightarrow> solver \<Rightarrow> exn option \<times> solver" where
  "add_edges ml [] s = (None, s)"
| "add_edges ml ((a, b, r, fee) # es) s =
     (let s1 = s\<lparr>symbols := insert b (insert a (symbols s))\<rparr>
      in case edge_create ml a b r fee of
           Inl e \<Rightarrow> (Some e, s1)
         | Inr ed \<Rightarrow> add_edges ml es (s1\<lparr>edges := edges s1 @ [ed]\<rparr>))"

definition index_symbols :: "solver \<Rightarrow> solver" where
  "index_symbols s =
     (let names = sorted_list_of_set (symbols s); n = card (symbols s)
      in s\<lparr>symbol_to_idx := zip names [0..<length names], idx_to_symbol := zip [0..<length names] names,
           dist := replicate n None, predecessor := replicate n None\<rparr>)"

definition update_graph :: "mathlib \<Rightarrow> (string \<times> string \<times> decimal \<times> decimal) list \<Rightarrow> solver \<Rightarrow> exn option \<times> solver" where
  "update_graph ml es s =
     (case add_edges ml es (s\<lparr>edges := [], symbols := {}\<rparr>) of
        (Some e, s1) \<Rightarrow> (Some e, s1)
      | (None, s1) \<Rightarrow> (None, index_symbols s1))"

section \<open>Relaxation\<close>

type_synonym table = "pyfloat option list \<times> nat option list"

definition epsilon :: pyfloat where
  "epsilon = fl (1 / 10 ^ 10)"

text \<open>\<open>dist[v] > dist[u] + weight + 1e-10\<close>, with infinity on either side.\<close>

definition can_relax :: "pyfloat option list \<Rightarrow> nat \<Rightarrow> nat \<Rightarrow> pyfloat \<Rightarrow> bool" where
  "can_relax ds u v w =
     (case ds ! u of
        None \<Rightarrow> False
      | Some du \<Rightarrow> (case ds ! v of None \<Rightarrow> True | Some dv \<Rightarrow> dv > fadd (fadd du w) epsilon))"

definition relax_edge :: "nat \<Rightarrow> nat \<Rightarrow> pyfloat \<Rightarrow> table \<Rightarrow> bool \<times> table" where
  "relax_edge u v w t =
     (let (ds, ps) = t
      in if can_relax ds u v w
         then (True, ds[v := map_option (\<lambda>d. fadd d w) (ds ! u)], ps[v := Some u])
         else (False, t))"

text \<open>Where an edge leads, as indexes: \<open>KeyError\<close> for a symbol without one, \<open>IndexError\<close> for one past the
  table. Neither can happen on a graph that was updated without an exception.\<close>

definition edge_ends :: "(string, nat) dict \<Rightarrow> nat \<Rightarrow> Edge \<Rightarrow> exn + nat \<times> nat" where
  "edge_ends ix n e =
     (case (dict_get ix (from_symbol e), dict_get ix (to_symbol e)) of
        (Some u, Some v) \<Rightarrow> if u < n \<and> v < n then Inr (u, v) else Inl IndexError
      | _ \<Rightarrow> Inl KeyError)"

fun relax_pass :: "(string, nat) dict \<Rightarrow> nat \<Rightarrow> Edge list \<Rightarrow> bool \<times> table \<Rightarrow> exn option \<times> bool \<times> table" where
  "relax_pass ix n [] (updated, t) = (None, updated, t)"
| "relax_pass ix n (e # es) (updated, t) =
     (case edge_ends ix n e of
        Inl err \<Rightarrow> (Some err, updated, t)
      | Inr (u, v) \<Rightarrow>
          (let (changed, t1) = relax_edge u v (log_weight e) t
           in relax_pass ix n es (updated \<or> changed, t1)))"

text \<open>The \<open>n - 1\<close> rounds, left early when a round changes nothing.\<close>

fun rounds :: "(string, nat) dict \<Rightarrow> nat \<Rightarrow> Edge list \<Rightarrow> nat \<Rightarrow> table \<Rightarrow> exn option \<times> table" where
  "rounds ix n es 0 t = (None, t)"
| "rounds ix n es (Suc k) t =
     (case relax_pass ix n es (False, t) of
        (Some err, _, t1) \<Rightarrow> (Some err, t1)
      | (None, updated, t1) \<Rightarrow> if updated then rounds ix n es k t1 else (None, t1))"

text \<open>The vertices that a further round would still change.\<close>

fun relaxable :: "(string, nat) dict \<Rightarrow> nat \<Rightarrow> pyfloat option list \<Rightarrow> Edge list \<Rightarrow> exn + nat set" where
  "relaxable ix n ds [] = Inr {}"
| "relaxable ix n ds (e # es) =
     (case edge_ends ix n e of
        Inl err \<Rightarrow> Inl err
      | Inr (u, v) \<Rightarrow>
          (case relaxable ix n ds es of
             Inl err \<Rightarrow> Inl err
           | Inr vs \<Rightarrow> Inr (if can_relax ds u v (log_weight e) then insert v vs else vs)))"

section \<open>Extracting a cycle\<close>

fun step_back :: "nat option list \<Rightarrow> nat \<Rightarrow> nat \<Rightarrow> exn + nat option" where
  "step_back ps 0 cur = Inr (Some cur)"
| "step_back ps (Suc k) cur =
     (if cur \<ge> length ps then Inl IndexError
      else case ps ! cur of None \<Rightarrow> Inr None | Some p \<Rightarrow> step_back ps k p)"

text \<open>The walk that marks vertices until it meets a marked one; \<open>vs\<close> are the marked ones in order.\<close>

function trace :: "nat option list \<Rightarrow> nat list \<Rightarrow> nat \<Rightarrow> exn + nat list option" where
  "trace ps vs cur =
     (if cur \<in> set vs then Inr (Some (dropWhile (\<lambda>v. v \<noteq> cur) vs))
      else if cur \<ge> length ps then Inl IndexError
      else case ps ! cur of None \<Rightarrow> Inr None | Some p \<Rightarrow> trace ps (vs @ [cur]) p)"
  by pat_completeness auto
termination
proof (relation "measure (\<lambda>(ps, vs, cur). card ({..<length ps} - set vs))")
  fix ps :: "nat option list" and vs :: "nat list" and cur p
  assume "cur \<notin> set vs" "\<not> length ps \<le> cur"
  then have "cur \<in> {..<length ps} - set vs" "cur \<notin> {..<length ps} - set (vs @ [cur])" by simp_all
  moreover have "{..<length ps} - set (vs @ [cur]) \<subseteq> {..<length ps} - set vs" by (rule Diff_mono) auto
  ultimately have "{..<length ps} - set (vs @ [cur]) \<subset> {..<length ps} - set vs" by blast
  then show "((ps, vs @ [cur], p), (ps, vs, cur)) \<in> measure (\<lambda>(ps, vs, cur). card ({..<length ps} - set vs))"
    by (simp add: psubset_card_mono)
qed simp

declare trace.simps [simp del]

text \<open>The first edge between two symbols.\<close>

definition find_edge :: "Edge list \<Rightarrow> string \<Rightarrow> string \<Rightarrow> Edge option" where
  "find_edge es a b = find (\<lambda>e. from_symbol e = a \<and> to_symbol e = b) es"

fun walk_edges :: "Edge list \<Rightarrow> string list \<Rightarrow> Edge list" where
  "walk_edges es (a # b # cs) = (case find_edge es a b of Some e \<Rightarrow> [e] | None \<Rightarrow> []) @ walk_edges es (b # cs)"
| "walk_edges es cs = []"

fun symbols_of :: "(nat, string) dict \<Rightarrow> nat list \<Rightarrow> exn + string list" where
  "symbols_of ix [] = Inr []"
| "symbols_of ix (v # vs) =
     (case dict_get ix v of
        None \<Rightarrow> Inl KeyError
      | Some a \<Rightarrow> (case symbols_of ix vs of Inl e \<Rightarrow> Inl e | Inr as \<Rightarrow> Inr (a # as)))"

text \<open>\<open>quantize(Decimal('0.01'), ROUND_DOWN)\<close>: towards zero; more than 28 digits are an \<open>InvalidOperation\<close>.\<close>

definition quantize_cents :: "decimal \<Rightarrow> exn + decimal" where
  "quantize_cents x =
     (let c = (if 0 \<le> x then \<lfloor>x * 100\<rfloor> else \<lceil>x * 100\<rceil>)
      in if \<bar>c\<bar> < 10 ^ 28 then Inr (of_int c / 100) else Inl (OtherError ''InvalidOperation''))"

definition make_cycle :: "mathlib \<Rightarrow> int \<Rightarrow> string list \<Rightarrow> Edge list \<Rightarrow> exn + ArbCycle" where
  "make_cycle ml now syms es =
     (let total = foldl (\<lambda>a e. fadd a (log_weight e)) 0 es
      in case m_exp ml (- total) of
           Inl e \<Rightarrow> Inl e
         | Inr factor \<Rightarrow>
             (let profit = m_dec ml (fmul (fsub factor 1) 10000);
                  confidence = fmul (min 1 (fdiv (fl profit) 100)) (fdiv 3 (of_nat (length syms)))
              in case quantize_cents profit of
                   Inl e \<Rightarrow> Inl e
                 | Inr q \<Rightarrow> Inr \<lparr>cycle_symbols = syms, total_log_weight = total, profit_bps = q, cycle_edges = es,
                              detection_time_ns = now, confidence_score = confidence\<rparr>))"

definition extract_cycle :: "mathlib \<Rightarrow> int \<Rightarrow> solver \<Rightarrow> nat option list \<Rightarrow> nat \<Rightarrow> nat \<Rightarrow> exn + ArbCycle option" where
  "extract_cycle ml now s ps n start =
     (case step_back ps n start of
        Inl e \<Rightarrow> Inl e
      | Inr None \<Rightarrow> Inr None
      | Inr (Some cur) \<Rightarrow>
          (case trace ps [] cur of
             Inl e \<Rightarrow> Inl e
           | Inr None \<Rightarrow> Inr None
           | Inr (Some vs) \<Rightarrow>
               (case symbols_of (idx_to_symbol s) vs of
                  Inl e \<Rightarrow> Inl e
                | Inr as \<Rightarrow>
                    (let syms = as @ [hd as]; es = walk_edges (edges s) syms
                     in if es = [] then Inr None
                        else case make_cycle ml now syms es of Inl e \<Rightarrow> Inl e | Inr c \<Rightarrow> Inr (Some c)))))"

fun extract_all :: "mathlib \<Rightarrow> (nat \<Rightarrow> int) \<Rightarrow> solver \<Rightarrow> nat option list \<Rightarrow> nat \<Rightarrow> nat list \<Rightarrow> exn + ArbCycle list" where
  "extract_all ml clk s ps n [] = Inr []"
| "extract_all ml clk s ps n (v # vs) =
     (case extract_cycle ml (clk v) s ps n v of
        Inl e \<Rightarrow> Inl e
      | Inr c \<Rightarrow> (case extract_all ml clk s ps n vs of
                    Inl e \<Rightarrow> Inl e
                  | Inr cs \<Rightarrow> Inr (case c of None \<Rightarrow> cs | Some x \<Rightarrow> x # cs)))"

text \<open>The cycles with a set of symbols not seen before.\<close>

fun deduplicate_cycles :: "string set set \<Rightarrow> ArbCycle list \<Rightarrow> ArbCycle list" where
  "deduplicate_cycles seen [] = []"
| "deduplicate_cycles seen (c # cs) =
     (let k = set (butlast (cycle_symbols c))
      in if k \<in> seen then deduplicate_cycles seen cs else c # deduplicate_cycles (insert k seen) cs)"

section \<open>The scan\<close>

text \<open>Clock readings: \<open>clk v\<close> when the cycle of vertex \<open>v\<close> is built, \<open>now\<close> at the end.\<close>

definition start_index :: "string option \<Rightarrow> solver \<Rightarrow> nat" where
  "start_index start s =
     (case start of
        None \<Rightarrow> 0
      | Some a \<Rightarrow> if a = [] then 0 else (case dict_get (symbol_to_idx s) a of None \<Rightarrow> 0 | Some i \<Rightarrow> i))"

definition find_arbitrage_cycles ::
  "mathlib \<Rightarrow> (nat set \<Rightarrow> nat list) \<Rightarrow> (nat \<Rightarrow> int) \<Rightarrow> int \<Rightarrow> string option \<Rightarrow> solver \<Rightarrow> (exn + ArbCycle list) \<times> solver" where
  "find_arbitrage_cycles ml ord clk now start s =
     (let s0 = s\<lparr>total_scans := total_scans s + 1\<rparr>; n = card (symbols s); i = start_index start s
      in if symbols s = {} \<or> edges s = [] then (Inr [], s0)
         else if i \<ge> n then (Inl IndexError, s0\<lparr>dist := replicate n None\<rparr>)
         else
           (case rounds (symbol_to_idx s) n (edges s) (n - 1) ((replicate n None)[i := Some 0], replicate n None) of
              (Some e, ds, ps) \<Rightarrow> (Inl e, s0\<lparr>dist := ds, predecessor := ps\<rparr>)
            | (None, ds, ps) \<Rightarrow>
                (let s1 = s0\<lparr>dist := ds, predecessor := ps\<rparr>
                 in case relaxable (symbol_to_idx s) n ds (edges s) of
                      Inl e \<Rightarrow> (Inl e, s1)
                    | Inr vs \<Rightarrow>
                        (case extract_all ml clk s ps n (ord vs) of
                           Inl e \<Rightarrow> (Inl e, s1)
                         | Inr cycles \<Rightarrow>
                             (let found = filter (\<lambda>c. profit_bps c \<ge> min_profit s) (deduplicate_cycles {} cycles)
                              in (Inr found,
                                  if found = [] then s1
                                  else s1\<lparr>detection_count := detection_count s1 + int (length found),
                                          last_detection_time_ns := now\<rparr>))))))"

text \<open>\<open>max(cycles, key=...)\<close>: the first of the most profitable ones.\<close>

fun best_cycle :: "ArbCycle \<Rightarrow> ArbCycle list \<Rightarrow> ArbCycle" where
  "best_cycle c [] = c"
| "best_cycle c (d # ds) = best_cycle (if profit_bps d > profit_bps c then d else c) ds"

definition find_best_arbitrage ::
  "mathlib \<Rightarrow> (nat set \<Rightarrow> nat list) \<Rightarrow> (nat \<Rightarrow> int) \<Rightarrow> int \<Rightarrow> solver \<Rightarrow> (exn + ArbCycle option) \<times> solver" where
  "find_best_arbitrage ml ord clk now s =
     (case find_arbitrage_cycles ml ord clk now None s of
        (Inl e, s1) \<Rightarrow> (Inl e, s1)
      | (Inr [], s1) \<Rightarrow> (Inr None, s1)
      | (Inr (c # cs), s1) \<Rightarrow> (Inr (Some (best_cycle c cs)), s1))"

record solver_metrics =
  sm_symbol_count :: int
  sm_edge_count :: int
  sm_detection_count :: int
  sm_total_scans :: int
  sm_detection_rate :: pyfloat
  sm_last_detection :: int

definition get_metrics :: "solver \<Rightarrow> solver_metrics" where
  "get_metrics s =
     \<lparr>sm_symbol_count = int (card (symbols s)), sm_edge_count = int (length (edges s)),
      sm_detection_count = detection_count s, sm_total_scans = total_scans s,
      sm_detection_rate = idiv (detection_count s) (max 1 (total_scans s)),
      sm_last_detection = last_detection_time_ns s\<rparr>"

section \<open>The detector\<close>

text \<open>Callbacks act on the world of whoever registered them; an exception is logged and dropped.\<close>

record 'w detector =
  det_solver :: solver
  min_profit_bps :: decimal
  arb_callbacks :: "(ArbCycle \<Rightarrow> 'w \<Rightarrow> 'w) list"
  running :: bool

definition detector_init :: "decimal \<Rightarrow> 'w detector" where
  "detector_init mp = \<lparr>det_solver = solver_init\<lparr>min_profit := mp\<rparr>, min_profit_bps = mp, arb_callbacks = [], running = False\<rparr>"

definition register_callback :: "(ArbCycle \<Rightarrow> 'w \<Rightarrow> 'w) \<Rightarrow> 'w detector \<Rightarrow> 'w detector" where
  "register_callback cb d = d\<lparr>arb_callbacks := arb_callbacks d @ [cb]\<rparr>"

definition update_rates ::
  "mathlib \<Rightarrow> (string \<times> string, decimal \<times> decimal) dict \<Rightarrow> 'w detector \<Rightarrow> exn option \<times> 'w detector" where
  "update_rates ml rates d =
     (let (r, s) = update_graph ml (map (\<lambda>((a, b), (x, fee)). (a, b, x, fee)) rates) (det_solver d)
      in (r, d\<lparr>det_solver := s\<rparr>))"

definition scan_for_arbitrage ::
  "mathlib \<Rightarrow> (nat set \<Rightarrow> nat list) \<Rightarrow> (nat \<Rightarrow> int) \<Rightarrow> int \<Rightarrow> 'w detector \<Rightarrow> 'w \<Rightarrow> (exn + ArbCycle list) \<times> 'w detector \<times> 'w" where
  "scan_for_arbitrage ml ord clk now d w =
     (let (r, s) = find_arbitrage_cycles ml ord clk now None (det_solver d); d1 = d\<lparr>det_solver := s\<rparr>
      in (r, d1,
          case r of
            Inl e \<Rightarrow> w
          | Inr cs \<Rightarrow> fold (\<lambda>c. fold (\<lambda>cb. cb c) (arb_callbacks d)) cs w))"

text \<open>One round of \<open>run_continuous\<close>, which logs an exception of the scan and goes on while \<open>_running\<close>.\<close>

definition continuous_round ::
  "mathlib \<Rightarrow> (nat set \<Rightarrow> nat list) \<Rightarrow> (nat \<Rightarrow> int) \<Rightarrow> int \<Rightarrow> 'w detector \<times> 'w \<Rightarrow> 'w detector \<times> 'w" where
  "continuous_round ml ord clk now = (\<lambda>(d, w). if running d then snd (scan_for_arbitrage ml ord clk now d w) else (d, w))"

definition start_continuous :: "'w detector \<Rightarrow> 'w detector" where
  "start_continuous d = d\<lparr>running := True\<rparr>"

definition stop :: "'w detector \<Rightarrow> 'w detector" where
  "stop d = d\<lparr>running := False\<rparr>"

definition detector_metrics :: "'w detector \<Rightarrow> solver_metrics \<times> pyfloat \<times> bool" where
  "detector_metrics d = (get_metrics (det_solver d), fl (min_profit_bps d), running d)"

section \<open>Graphs that were updated without an exception\<close>

definition names_of :: "solver \<Rightarrow> string list" where
  "names_of s = sorted_list_of_set (symbols s)"

definition graph_ok :: "solver \<Rightarrow> bool" where
  "graph_ok s \<longleftrightarrow>
     symbols s = from_symbol ` set (edges s) \<union> to_symbol ` set (edges s) \<and>
     symbol_to_idx s = zip (names_of s) [0..<length (names_of s)] \<and>
     idx_to_symbol s = zip [0..<length (names_of s)] (names_of s)"

lemma edge_create_ends: "edge_create ml a b r fee = Inr e \<Longrightarrow> from_symbol e = a \<and> to_symbol e = b"
  by (auto simp: edge_create_def Let_def split: if_splits)

lemma add_edges_ok:
  assumes "add_edges ml es s = (None, s')" "symbols s = from_symbol ` set (edges s) \<union> to_symbol ` set (edges s)"
  shows "symbols s' = from_symbol ` set (edges s') \<union> to_symbol ` set (edges s')"
  using assms
proof (induction ml es s rule: add_edges.induct)
  case (2 ml a b r fee es s)
  then show ?case
    by (auto simp: Let_def edge_create_ends split: sum.splits)
qed simp

lemma names_of_simps:
  assumes "graph_ok s"
  shows "set (names_of s) = symbols s" "distinct (names_of s)" "length (names_of s) = card (symbols s)"
proof -
  have "finite (symbols s)" using assms by (simp add: graph_ok_def)
  then show "set (names_of s) = symbols s" "distinct (names_of s)" "length (names_of s) = card (symbols s)"
    by (simp_all add: names_of_def)
qed

lemma update_graph_ok:
  assumes "update_graph ml es s0 = (None, s)" shows "graph_ok s"
proof -
  obtain s1 where a: "add_edges ml es (s0\<lparr>edges := [], symbols := {}\<rparr>) = (None, s1)" and s: "s = index_symbols s1"
    using assms by (auto simp: update_graph_def split: prod.splits option.splits)
  have "symbols s1 = from_symbol ` set (edges s1) \<union> to_symbol ` set (edges s1)"
    using add_edges_ok [OF a] by simp
  then show ?thesis by (simp add: s graph_ok_def index_symbols_def names_of_def Let_def)
qed

lemma idx_to_symbol_get:
  assumes "graph_ok s" "i < card (symbols s)"
  shows "dict_get (idx_to_symbol s) i = Some (names_of s ! i)"
proof -
  have "i < length (names_of s)" using assms names_of_simps by simp
  then show ?thesis
    using assms(1) by (simp add: graph_ok_def map_of_zip_nth [of "[0..<length (names_of s)]" "names_of s" i, simplified])
qed

lemma symbol_to_idx_get:
  assumes "graph_ok s" "a \<in> symbols s"
  shows "\<exists>i < card (symbols s). dict_get (symbol_to_idx s) a = Some i \<and> names_of s ! i = a"
proof -
  obtain i where i: "i < length (names_of s)" "names_of s ! i = a"
    using assms names_of_simps [OF assms(1)] by (metis in_set_conv_nth)
  have "dict_get (symbol_to_idx s) a = Some i"
    using assms(1) i names_of_simps(2) [OF assms(1)]
    map_of_zip_nth [of "names_of s" "[0..<length (names_of s)]" i] by (simp add: graph_ok_def)
  with i names_of_simps(3) [OF assms(1)] show ?thesis by auto
qed

lemma edge_ends_ok:
  assumes "graph_ok s" "e \<in> set (edges s)"
  shows "\<exists>u v. edge_ends (symbol_to_idx s) (card (symbols s)) e = Inr (u, v) \<and> u < card (symbols s) \<and>
    v < card (symbols s) \<and> names_of s ! u = from_symbol e \<and> names_of s ! v = to_symbol e"
proof -
  have m: "from_symbol e \<in> symbols s" "to_symbol e \<in> symbols s" using assms by (auto simp: graph_ok_def)
  show ?thesis
    using symbol_to_idx_get [OF assms(1) m(1)] symbol_to_idx_get [OF assms(1) m(2)] by (auto simp: edge_ends_def)
qed

text \<open>Predecessors are ends of edges: \<open>ps ! v = Some u\<close> only for an edge from \<open>u\<close> to \<open>v\<close>.\<close>

definition preds_ok :: "solver \<Rightarrow> Edge list \<Rightarrow> table \<Rightarrow> bool" where
  "preds_ok s es = (\<lambda>(ds, ps).
     length ds = card (symbols s) \<and> length ps = card (symbols s) \<and>
     (\<forall>v < card (symbols s). \<forall>u. ps ! v = Some u \<longrightarrow>
        u < card (symbols s) \<and> (\<exists>e \<in> set es. from_symbol e = names_of s ! u \<and> to_symbol e = names_of s ! v)))"

lemma relax_edge_preds:
  assumes "preds_ok s es t" "e \<in> set es" "u < card (symbols s)" "v < card (symbols s)"
    "names_of s ! u = from_symbol e" "names_of s ! v = to_symbol e"
  shows "preds_ok s es (snd (relax_edge u v w t))"
proof (cases "can_relax (fst t) u v w")
  case True
  then show ?thesis using assms
    by (cases t) (auto simp: preds_ok_def relax_edge_def Let_def nth_list_update split: if_splits)
next
  case False
  then show ?thesis using assms(1) by (cases t) (simp add: relax_edge_def)
qed

lemma relax_pass_ok:
  assumes "graph_ok s" "set es \<subseteq> set (edges s)" "preds_ok s (edges s) t"
  shows "\<exists>up t'. relax_pass (symbol_to_idx s) (card (symbols s)) es (b, t) = (None, up, t') \<and>
    preds_ok s (edges s) t' \<and> (\<not> up \<longrightarrow> \<not> b \<and> t' = t)"
  using assms(2,3)
proof (induction es arbitrary: b t)
  case (Cons e es)
  then obtain u v where e: "edge_ends (symbol_to_idx s) (card (symbols s)) e = Inr (u, v)" "u < card (symbols s)"
    "v < card (symbols s)" "names_of s ! u = from_symbol e" "names_of s ! v = to_symbol e"
    using edge_ends_ok [OF assms(1), of e] by auto
  obtain ch t1 where r: "relax_edge u v (log_weight e) t = (ch, t1)" by (cases "relax_edge u v (log_weight e) t")
  have "preds_ok s (edges s) t1"
    using relax_edge_preds [OF Cons.prems(2) _ e(2-5), of "log_weight e"] Cons.prems(1) r by simp
  moreover have "\<not> ch \<Longrightarrow> t1 = t" using r by (auto simp: relax_edge_def Let_def split: prod.splits if_splits)
  ultimately show ?case using Cons.IH [of t1 "b \<or> ch"] Cons.prems(1) e(1) r by auto
qed simp

lemma rounds_ok:
  assumes "graph_ok s" "preds_ok s (edges s) t"
  shows "\<exists>t'. rounds (symbol_to_idx s) (card (symbols s)) (edges s) k t = (None, t') \<and> preds_ok s (edges s) t'"
  using assms(2)
proof (induction k arbitrary: t)
  case (Suc k)
  show ?case
    using relax_pass_ok [OF assms(1) subset_refl Suc.prems, of False] Suc.IH by (force split: prod.split)
qed simp

lemma relaxable_ok:
  assumes "graph_ok s" "set es \<subseteq> set (edges s)"
  shows "\<exists>vs. relaxable (symbol_to_idx s) (card (symbols s)) ds es = Inr vs \<and> vs \<subseteq> {..<card (symbols s)}"
  using assms(2)
proof (induction es)
  case (Cons e es)
  then show ?case using edge_ends_ok [OF assms(1), of e] by fastforce
qed simp

text \<open>The walk back over predecessors.\<close>

definition pred_in :: "nat option list \<Rightarrow> bool" where
  "pred_in ps \<longleftrightarrow> (\<forall>v < length ps. \<forall>u. ps ! v = Some u \<longrightarrow> u < length ps)"

lemma step_back_ok:
  assumes "pred_in ps" "cur < length ps"
  shows "step_back ps k cur = Inr None \<or> (\<exists>p < length ps. step_back ps k cur = Inr (Some p))"
  using assms(2)
proof (induction k arbitrary: cur)
  case (Suc k)
  then show ?case using assms(1) by (cases "ps ! cur") (auto simp: pred_in_def)
qed simp

lemma successively_dropWhile: "successively P (xs @ ys) \<Longrightarrow> successively P (dropWhile Q xs @ ys)"
  by (induction xs) (auto simp: successively_Cons)

lemma trace_stop: "cur \<in> set vs \<Longrightarrow> trace ps vs cur = Inr (Some (dropWhile (\<lambda>v. v \<noteq> cur) vs))"
  by (subst trace.simps) simp

lemma trace_out: "cur \<notin> set vs \<Longrightarrow> length ps \<le> cur \<Longrightarrow> trace ps vs cur = Inl IndexError"
  by (subst trace.simps) simp

lemma trace_next:
  "cur \<notin> set vs \<Longrightarrow> cur < length ps \<Longrightarrow>
    trace ps vs cur = (case ps ! cur of None \<Rightarrow> Inr None | Some p \<Rightarrow> trace ps (vs @ [cur]) p)"
  by (subst trace.simps) simp

lemma trace_ok:
  assumes "pred_in ps" "cur < length ps"
  shows "trace ps vs cur = Inr None \<or> (\<exists>c. trace ps vs cur = Inr (Some c))"
  using assms
proof (induction ps vs cur rule: trace.induct)
  case (1 ps vs cur)
  show ?case
  proof (cases "cur \<in> set vs")
    case False
    then show ?thesis
      using 1 by (cases "ps ! cur") (auto simp: pred_in_def trace_next)
  qed (simp add: trace_stop)
qed

lemma trace_cycle:
  assumes "trace ps vs cur = Inr (Some c)" "successively (\<lambda>a b. ps ! a = Some b) (vs @ [cur])" "distinct vs"
    "set vs \<subseteq> {..<length ps}"
  shows "c \<noteq> [] \<and> distinct c \<and> set c \<subseteq> {..<length ps} \<and> successively (\<lambda>a b. ps ! a = Some b) (c @ [hd c])"
  using assms
proof (induction ps vs cur rule: trace.induct)
  case (1 ps vs cur)
  show ?case
  proof (cases "cur \<in> set vs")
    case True
    let ?c = "dropWhile (\<lambda>v. v \<noteq> cur) vs"
    have c: "c = ?c" using 1(2) True by (simp add: trace_stop)
    have ne: "?c \<noteq> []" using True by simp
    moreover have "hd ?c = cur" using hd_dropWhile [OF ne] by simp
    moreover have "set ?c \<subseteq> {..<length ps}" using 1(5) by (meson set_dropWhileD subset_iff)
    ultimately show ?thesis
      using successively_dropWhile [OF 1(3), of "\<lambda>v. v \<noteq> cur"] 1(4) by (simp add: c)
  next
    case False
    have l: "cur < length ps"
    proof (rule ccontr)
      assume "\<not> cur < length ps"
      with 1(2) False show False by (simp add: trace_out)
    qed
    obtain p where p: "ps ! cur = Some p" "trace ps (vs @ [cur]) p = Inr (Some c)"
      using 1(2) False l by (cases "ps ! cur") (simp_all add: trace_next)
    have "successively (\<lambda>a b. ps ! a = Some b) ((vs @ [cur]) @ [p])"
      using 1(3) p(1) by (simp add: successively_append_iff)
    moreover have "distinct (vs @ [cur])" "set (vs @ [cur]) \<subseteq> {..<length ps}" using 1(4,5) l False by simp_all
    ultimately show ?thesis using 1(1) [OF False _ p] l by simp
  qed
qed

lemma symbols_of_ok:
  assumes "graph_ok s" "set vs \<subseteq> {..<card (symbols s)}"
  shows "symbols_of (idx_to_symbol s) vs = Inr (map ((!) (names_of s)) vs)"
  using assms(2) by (induction vs) (simp_all add: idx_to_symbol_get [OF assms(1)])

lemma preds_ok_in: "preds_ok s es (ds, ps) \<Longrightarrow> pred_in ps"
  by (auto simp: preds_ok_def pred_in_def)

text \<open>One symbol list reported by the extraction, read against the edges.\<close>

definition backward_walk :: "solver \<Rightarrow> string list \<Rightarrow> bool" where
  "backward_walk s syms \<longleftrightarrow>
     2 \<le> length syms \<and> hd syms = last syms \<and> distinct (butlast syms) \<and>
     successively (\<lambda>a b. \<exists>e \<in> set (edges s). from_symbol e = b \<and> to_symbol e = a) syms"

lemma walk_of_trace:
  assumes g: "graph_ok s" and p: "preds_ok s (edges s) (ds, ps)"
    and c: "c \<noteq> []" "distinct c" "set c \<subseteq> {..<card (symbols s)}" "successively (\<lambda>a b. ps ! a = Some b) (c @ [hd c])"
  shows "backward_walk s (map ((!) (names_of s)) c @ [names_of s ! hd c])"
proof -
  let ?R = "\<lambda>a b. \<exists>e \<in> set (edges s). from_symbol e = b \<and> to_symbol e = a"
  have "inj_on ((!) (names_of s)) (set c)"
    using c(3) names_of_simps [OF g] inj_on_nth [of "names_of s" "set c"] by auto
  then have "distinct (map ((!) (names_of s)) c)" using c(2) by (simp add: distinct_map)
  moreover have "successively (\<lambda>a b. ?R (names_of s ! a) (names_of s ! b)) (c @ [hd c])"
  proof (rule successively_mono [OF c(4)])
    fix a b assume "a \<in> set (c @ [hd c])" "ps ! a = Some b"
    then have "a < card (symbols s)" using hd_in_set [OF c(1)] subsetD [OF c(3)] by auto
    with p \<open>ps ! a = Some b\<close> show "?R (names_of s ! a) (names_of s ! b)" by (auto simp: preds_ok_def)
  qed
  then have "successively ?R (map ((!) (names_of s)) (c @ [hd c]))" by (simp only: successively_map)
  moreover have "hd (map ((!) (names_of s)) c @ [names_of s ! hd c]) = names_of s ! hd c" using c(1) by (cases c) simp_all
  ultimately show ?thesis using c(1) by (auto simp: backward_walk_def Suc_le_eq)
qed

lemma extract_cycle_ok:
  assumes g: "graph_ok s" and p: "preds_ok s (edges s) (ds, ps)" and v: "v < card (symbols s)"
  shows "extract_cycle ml now s ps (card (symbols s)) v = Inr None \<or>
    (\<exists>syms. backward_walk s syms \<and> walk_edges (edges s) syms \<noteq> [] \<and>
       extract_cycle ml now s ps (card (symbols s)) v =
         (case make_cycle ml now syms (walk_edges (edges s) syms) of Inl e \<Rightarrow> Inl e | Inr c \<Rightarrow> Inr (Some c)))"
proof -
  have l: "length ps = card (symbols s)" using p by (simp add: preds_ok_def)
  note i = preds_ok_in [OF p]
  consider (none) "step_back ps (card (symbols s)) v = Inr None"
    | (some) cur where "step_back ps (card (symbols s)) v = Inr (Some cur)" "cur < length ps"
    using step_back_ok [OF i, of v] v l by auto
  then show ?thesis
  proof cases
    case some
    consider (n) "trace ps [] cur = Inr None" | (c) c where "trace ps [] cur = Inr (Some c)"
      using trace_ok [OF i some(2)] by blast
    then show ?thesis
    proof cases
      case c
      from trace_cycle [OF c] have t: "c \<noteq> []" "distinct c" "set c \<subseteq> {..<card (symbols s)}"
        "successively (\<lambda>a b. ps ! a = Some b) (c @ [hd c])" by (simp_all add: l)
      have "hd (map ((!) (names_of s)) c) = names_of s ! hd c" using t(1) by (rule hd_map)
      with c show ?thesis
        using walk_of_trace [OF g p t] some(1) by (auto simp: extract_cycle_def symbols_of_ok [OF g t(3)] Let_def)
    qed (simp add: extract_cycle_def some(1))
  qed (simp add: extract_cycle_def)
qed

lemma extract_cycle_some:
  assumes "graph_ok s" "preds_ok s (edges s) (ds, ps)" "v < card (symbols s)"
    "extract_cycle ml now s ps (card (symbols s)) v = Inr (Some c)"
  shows "\<exists>syms. backward_walk s syms \<and> walk_edges (edges s) syms \<noteq> [] \<and>
    make_cycle ml now syms (walk_edges (edges s) syms) = Inr c"
proof -
  obtain syms where "backward_walk s syms" "walk_edges (edges s) syms \<noteq> []"
    "(case make_cycle ml now syms (walk_edges (edges s) syms) of Inl e \<Rightarrow> Inl e | Inr c \<Rightarrow> Inr (Some c)) = Inr (Some c)"
    using extract_cycle_ok [OF assms(1-3), of ml now] assms(4) by auto
  then show ?thesis by (cases "make_cycle ml now syms (walk_edges (edges s) syms)") auto
qed

lemma extract_cycle_error:
  assumes "graph_ok s" "preds_ok s (edges s) (ds, ps)" "v < card (symbols s)"
    "extract_cycle ml now s ps (card (symbols s)) v = Inl e"
  shows "\<exists>syms es. make_cycle ml now syms es = Inl e"
proof -
  obtain syms where
    "(case make_cycle ml now syms (walk_edges (edges s) syms) of Inl e \<Rightarrow> Inl e | Inr c \<Rightarrow> Inr (Some c)) = Inl e"
    using extract_cycle_ok [OF assms(1-3), of ml now] assms(4) by auto
  then have "make_cycle ml now syms (walk_edges (edges s) syms) = Inl e"
    by (cases "make_cycle ml now syms (walk_edges (edges s) syms)") auto
  then show ?thesis by blast
qed

lemma extract_all_member:
  "extract_all ml clk s ps n vs = Inr cs \<Longrightarrow> c \<in> set cs \<Longrightarrow> \<exists>v \<in> set vs. extract_cycle ml (clk v) s ps n v = Inr (Some c)"
  by (induction vs arbitrary: cs) (auto split: sum.splits option.splits)

lemma extract_all_error:
  "extract_all ml clk s ps n vs = Inl e \<Longrightarrow> \<exists>v \<in> set vs. extract_cycle ml (clk v) s ps n v = Inl e"
  by (induction vs) (auto split: sum.splits option.splits)

lemma extract_all_none:
  "\<forall>v \<in> set vs. extract_cycle ml (clk v) s ps n v = Inr None \<Longrightarrow> extract_all ml clk s ps n vs = Inr []"
  by (induction vs) auto

lemma extract_cycle_range:
  assumes "length ps = n" "0 < n" "n \<le> v" shows "extract_cycle ml now s ps n v = Inl IndexError"
  using assms by (cases n) (simp_all add: extract_cycle_def)

lemma deduplicate_subset: "set (deduplicate_cycles seen cs) \<subseteq> set cs"
  by (induction seen cs rule: deduplicate_cycles.induct) (auto simp: Let_def)

lemma make_cycle_parts:
  "make_cycle ml now syms es = Inr c \<Longrightarrow> cycle_symbols c = syms \<and> cycle_edges c = es"
  by (auto simp: make_cycle_def Let_def split: sum.splits)

lemma make_cycle_error:
  "make_cycle ml now syms es = Inl e \<Longrightarrow> (\<exists>x. m_exp ml x = Inl e) \<or> e = OtherError ''InvalidOperation''"
  by (auto simp: make_cycle_def quantize_cents_def Let_def split: sum.splits if_splits)

lemma start_index_ok:
  assumes "graph_ok s" "edges s \<noteq> []" shows "start_index start s < card (symbols s)"
proof -
  have "set (names_of s) \<noteq> {}" using assms names_of_simps(1) [OF assms(1)] by (cases "edges s") (auto simp: graph_ok_def)
  then have "0 < length (names_of s)" by simp
  then have "0 < card (symbols s)" using names_of_simps(3) [OF assms(1)] by simp
  moreover have "i < card (symbols s)" if "dict_get (symbol_to_idx s) a = Some i" for a i
  proof -
    have "(a, i) \<in> set (symbol_to_idx s)" using that by (auto dest: map_of_SomeD)
    then have "i < length (names_of s)" using assms(1) by (auto simp: graph_ok_def dest: set_zip_rightD)
    then show ?thesis using names_of_simps(3) [OF assms(1)] by simp
  qed
  ultimately show ?thesis by (auto simp: start_index_def split: option.splits)
qed

text \<open>A scan of an updated graph comes down to the extraction.\<close>

lemma find_extracts:
  assumes g: "graph_ok s" and ne: "edges s \<noteq> []"
  obtains ds ps vs where "preds_ok s (edges s) (ds, ps)" "vs \<subseteq> {..<card (symbols s)}" "0 < card (symbols s)"
    "fst (find_arbitrage_cycles ml ord clk now start s) =
       (case extract_all ml clk s ps (card (symbols s)) (ord vs) of
          Inl e \<Rightarrow> Inl e
        | Inr cycles \<Rightarrow> Inr (filter (\<lambda>c. profit_bps c \<ge> min_profit s) (deduplicate_cycles {} cycles)))"
proof -
  let ?n = "card (symbols s)" and ?i = "start_index start s"
  let ?t = "((replicate ?n None)[?i := Some 0], replicate ?n None) :: table"
  have i: "?i < ?n" by (rule start_index_ok [OF g ne])
  have "symbols s \<noteq> {}" using i by auto
  have "preds_ok s (edges s) ?t" by (simp add: preds_ok_def)
  then obtain ds ps where r: "rounds (symbol_to_idx s) ?n (edges s) (?n - 1) ?t = (None, ds, ps)"
    and p: "preds_ok s (edges s) (ds, ps)" using rounds_ok [OF g] by (metis surj_pair)
  obtain vs where vs: "relaxable (symbol_to_idx s) ?n ds (edges s) = Inr vs" "vs \<subseteq> {..<?n}"
    using relaxable_ok [OF g subset_refl] by blast
  have "fst (find_arbitrage_cycles ml ord clk now start s) =
       (case extract_all ml clk s ps (card (symbols s)) (ord vs) of
          Inl e \<Rightarrow> Inl e
        | Inr cycles \<Rightarrow> Inr (filter (\<lambda>c. profit_bps c \<ge> min_profit s) (deduplicate_cycles {} cycles)))"
    using i r vs ne \<open>symbols s \<noteq> {}\<close>
    by (simp add: find_arbitrage_cycles_def Let_def not_le split: sum.split)
  with p vs(2) show thesis using i by (intro that) auto
qed

lemma walk_edges_none:
  "successively (\<lambda>a b. find_edge es a b = None) syms \<Longrightarrow> walk_edges es syms = []"
  by (induction es syms rule: walk_edges.induct) simp_all

lemma find_edge_some: "find_edge es a b = Some e \<Longrightarrow> e \<in> set es \<and> from_symbol e = a \<and> to_symbol e = b"
  by (auto simp: find_edge_def find_Some_iff)

section \<open>Properties\<close>

definition sample_math :: mathlib where
  "sample_math = \<lparr>m_log = (\<lambda>x. x - 1), m_exp = (\<lambda>x. Inr (1 + x)), m_dec = id\<rparr>"

text \<open>Every cycle that a scan reports is at least as profitable as the threshold, closed and without a
  repeated vertex, but it runs against the edges: each step of the reported list is the reverse of an edge of
  the graph, because the walk over predecessors is not turned round, and the edges and the profit of the cycle are
  those found for that reverse direction.\<close>
theorem cycles_run_backwards:
  assumes "update_graph ml es s0 = (None, s)" "find_arbitrage_cycles ml ord clk now start s = (Inr cs, s')" "c \<in> set cs"
  shows "min_profit s \<le> profit_bps c \<and> 2 \<le> length (cycle_symbols c) \<and>
    hd (cycle_symbols c) = last (cycle_symbols c) \<and> distinct (butlast (cycle_symbols c)) \<and>
    successively (\<lambda>a b. \<exists>e \<in> set (edges s). from_symbol e = b \<and> to_symbol e = a) (cycle_symbols c) \<and>
    cycle_edges c = walk_edges (edges s) (cycle_symbols c) \<and> cycle_edges c \<noteq> []"
proof -
  have g: "graph_ok s" by (rule update_graph_ok [OF assms(1)])
  have ne: "edges s \<noteq> []" using assms(2,3) by (auto simp: find_arbitrage_cycles_def Let_def)
  obtain ds ps vs where p: "preds_ok s (edges s) (ds, ps)" and n: "0 < card (symbols s)"
    and f: "fst (find_arbitrage_cycles ml ord clk now start s) =
       (case extract_all ml clk s ps (card (symbols s)) (ord vs) of
          Inl e \<Rightarrow> Inl e
        | Inr cycles \<Rightarrow> Inr (filter (\<lambda>c. profit_bps c \<ge> min_profit s) (deduplicate_cycles {} cycles)))"
    by (rule find_extracts [OF g ne])
  obtain cycles where x: "extract_all ml clk s ps (card (symbols s)) (ord vs) = Inr cycles"
    and cs: "cs = filter (\<lambda>c. profit_bps c \<ge> min_profit s) (deduplicate_cycles {} cycles)"
    using f assms(2) by (auto split: sum.splits)
  have c: "c \<in> set cycles" "min_profit s \<le> profit_bps c" using assms(3) deduplicate_subset by (auto simp: cs)
  obtain v where v: "extract_cycle ml (clk v) s ps (card (symbols s)) v = Inr (Some c)"
    using extract_all_member [OF x c(1)] by blast
  have "v < card (symbols s)"
    using v extract_cycle_range [of ps "card (symbols s)" v] p n by (cases "v < card (symbols s)") (auto simp: preds_ok_def)
  then obtain syms where "backward_walk s syms" "walk_edges (edges s) syms \<noteq> []"
    "make_cycle ml (clk v) syms (walk_edges (edges s) syms) = Inr c"
    using extract_cycle_some [OF g p _ v] by blast
  then show ?thesis using make_cycle_parts [of ml "clk v" syms _ c] c(2) by (auto simp: backward_walk_def)
qed

definition sample_order :: "nat set \<Rightarrow> nat list" where
  "sample_order vs = sorted_list_of_set vs"

lemma sample_order_set: "vs \<subseteq> {..<n} \<Longrightarrow> set (sample_order vs) = vs"
  using finite_subset [of vs "{..<n}"] by (simp add: sample_order_def)

lemma epsilon_bounds: "0 \<le> epsilon" "epsilon \<le> 1"
  using fl_mono [of "1 / 10 ^ 10" 1] by (simp_all add: epsilon_def)

lemma fl_neg_numeral: "(numeral n :: int) < 2 ^ 53 \<Longrightarrow> fl (- numeral n) = - numeral n"
  by (simp add: fl_minus)

lemma relax_samples: "fl (epsilon - 2) < 0" "fl (epsilon - 4) < - 2" "\<not> fl (epsilon - 2) < - 2"
proof -
  have "fl (epsilon - 2) \<le> fl (- 1)" "fl (epsilon - 4) \<le> fl (- 3)" "fl (- 2) \<le> fl (epsilon - 2)"
    using epsilon_bounds by (auto intro!: fl_mono)
  then show "fl (epsilon - 2) < 0" "fl (epsilon - 4) < - 2" "\<not> fl (epsilon - 2) < - 2"
    by (simp_all add: fl_minus)
qed

lemma index_two:
  assumes "symbols s = {''A'', ''B''}"
  shows "index_symbols s = s\<lparr>symbol_to_idx := [(''A'', 0), (''B'', 1)], idx_to_symbol := [(0, ''A''), (1, ''B'')],
    dist := [None, None], predecessor := [None, None]\<rparr>"
proof -
  have "sorted_list_of_set (symbols s) = [''A'', ''B'']" unfolding assms by code_simp
  moreover have "card (symbols s) = 2" by (simp add: assms)
  ultimately show ?thesis by (simp add: index_symbols_def Let_def numeral_2_eq_2)
qed

lemma index_three:
  assumes "symbols s = {''A'', ''B'', ''C''}"
  shows "index_symbols s = s\<lparr>symbol_to_idx := [(''A'', 0), (''B'', 1), (''C'', 2)],
    idx_to_symbol := [(0, ''A''), (1, ''B''), (2, ''C'')], dist := [None, None, None], predecessor := [None, None, None]\<rparr>"
proof -
  have "sorted_list_of_set (symbols s) = [''A'', ''B'', ''C'']" unfolding assms by code_simp
  moreover have "card (symbols s) = 3" by (simp add: assms)
  ultimately show ?thesis by (simp add: index_symbols_def Let_def numeral_3_eq_3 numeral_2_eq_2)
qed

definition two_way :: solver where
  "two_way = \<lparr>edges =
       [\<lparr>from_symbol = ''A'', to_symbol = ''B'', rate = 3, fee_bps = 0, log_weight = - 2\<rparr>,
        \<lparr>from_symbol = ''B'', to_symbol = ''A'', rate = 1, fee_bps = 0, log_weight = 0\<rparr>],
     symbols = {''A'', ''B''}, symbol_to_idx = [(''A'', 0), (''B'', 1)], idx_to_symbol = [(0, ''A''), (1, ''B'')],
     dist = [None, None], predecessor = [None, None], detection_count = 0, last_detection_time_ns = 0,
     total_scans = 0, min_profit = 1\<rparr>"

definition one_way :: solver where
  "one_way = \<lparr>edges =
       [\<lparr>from_symbol = ''A'', to_symbol = ''B'', rate = 3, fee_bps = 0, log_weight = - 2\<rparr>,
        \<lparr>from_symbol = ''B'', to_symbol = ''C'', rate = 3, fee_bps = 0, log_weight = - 2\<rparr>,
        \<lparr>from_symbol = ''C'', to_symbol = ''A'', rate = 3, fee_bps = 0, log_weight = - 2\<rparr>],
     symbols = {''A'', ''B'', ''C''}, symbol_to_idx = [(''A'', 0), (''B'', 1), (''C'', 2)],
     idx_to_symbol = [(0, ''A''), (1, ''B''), (2, ''C'')],
     dist = [None, None, None], predecessor = [None, None, None], detection_count = 0, last_detection_time_ns = 0,
     total_scans = 0, min_profit = 1\<rparr>"

lemmas edge_eval = edge_create_def sample_math_def dmul_def dsub_def ddiv_def fl_neg_numeral

lemma two_way_graph:
  "m_log ml = m_log sample_math \<Longrightarrow>
    update_graph ml [(''A'', ''B'', 3, 0), (''B'', ''A'', 1, 0)] solver_init = (None, two_way)"
  by (simp add: update_graph_def solver_init_def two_way_def edge_eval insert_commute index_two)

lemma one_way_graph:
  "update_graph sample_math [(''A'', ''B'', 3, 0), (''B'', ''C'', 3, 0), (''C'', ''A'', 3, 0)] solver_init = (None, one_way)"
  by (simp add: update_graph_def solver_init_def one_way_def edge_eval insert_commute index_three)

lemmas scan_eval = find_arbitrage_cycles_def start_index_def two_way_def can_relax_def relax_edge_def edge_ends_def
  extract_cycle_def trace_stop trace_next find_edge_def make_cycle_def quantize_cents_def sample_math_def sample_order_def
  relax_samples fl_neg_numeral Let_def fadd_def fsub_def fmul_def fdiv_def

theorem cycles_run_backwards_witness:
  "\<exists>c s'. find_arbitrage_cycles sample_math sample_order (\<lambda>v. 0) 0 None two_way = (Inr [c], s') \<and>
    cycle_symbols c = [''B'', ''A'', ''B''] \<and> min_profit two_way \<le> profit_bps c \<and>
    successively (\<lambda>a b. \<exists>e \<in> set (edges two_way). from_symbol e = b \<and> to_symbol e = a) [''B'', ''A'', ''B'']"
proof -
  have "map_sum id (map cycle_symbols) (fst (find_arbitrage_cycles sample_math sample_order (\<lambda>v. 0) 0 None two_way)) =
    Inr [[''B'', ''A'', ''B'']]"
    by (simp add: scan_eval)
  then obtain c s' where f: "find_arbitrage_cycles sample_math sample_order (\<lambda>v. 0) 0 None two_way = (Inr [c], s')"
    and c: "cycle_symbols c = [''B'', ''A'', ''B'']"
    by (cases "find_arbitrage_cycles sample_math sample_order (\<lambda>v. 0) 0 None two_way";
      cases "fst (find_arbitrage_cycles sample_math sample_order (\<lambda>v. 0) 0 None two_way)") auto
  show ?thesis using f c cycles_run_backwards [OF two_way_graph [OF refl] f, of c] by auto
qed

text \<open>A graph in which no edge has a counterpart in the opposite direction never yields a cycle, however
  profitable the cycles of the graph are.\<close>
theorem one_way_cycles_missed:
  assumes "update_graph ml es s0 = (None, s)"
    "\<forall>e \<in> set (edges s). \<forall>f \<in> set (edges s). \<not> (from_symbol f = to_symbol e \<and> to_symbol f = from_symbol e)"
    "\<And>vs. vs \<subseteq> {..<card (symbols s)} \<Longrightarrow> set (ord vs) = vs"
  shows "fst (find_arbitrage_cycles ml ord clk now start s) = Inr []"
proof (cases "edges s = []")
  case False
  have g: "graph_ok s" by (rule update_graph_ok [OF assms(1)])
  obtain ds ps vs where p: "preds_ok s (edges s) (ds, ps)" and vs: "vs \<subseteq> {..<card (symbols s)}"
    and f: "fst (find_arbitrage_cycles ml ord clk now start s) =
       (case extract_all ml clk s ps (card (symbols s)) (ord vs) of
          Inl e \<Rightarrow> Inl e
        | Inr cycles \<Rightarrow> Inr (filter (\<lambda>c. profit_bps c \<ge> min_profit s) (deduplicate_cycles {} cycles)))"
    by (rule find_extracts [OF g False])
  have "walk_edges (edges s) syms = []" if "backward_walk s syms" for syms
  proof (rule walk_edges_none, rule successively_mono)
    show "successively (\<lambda>a b. \<exists>e \<in> set (edges s). from_symbol e = b \<and> to_symbol e = a) syms"
      using that by (simp add: backward_walk_def)
    fix a b assume "\<exists>e \<in> set (edges s). from_symbol e = b \<and> to_symbol e = a"
    then show "find_edge (edges s) a b = None"
      using assms(2) find_edge_some [of "edges s" a b] by (cases "find_edge (edges s) a b") auto
  qed
  then have "extract_cycle ml (clk v) s ps (card (symbols s)) v = Inr None" if "v \<in> vs" for v
    using extract_cycle_ok [OF g p, of v] that vs by blast
  then have "extract_all ml clk s ps (card (symbols s)) (ord vs) = Inr []"
    using assms(3) [OF vs] by (intro extract_all_none) simp
  then show ?thesis by (simp add: f)
qed (simp add: find_arbitrage_cycles_def Let_def)

theorem one_way_cycles_missed_witness:
  "(\<forall>e \<in> set (edges one_way). rate e = 3) \<and>
    fst (find_arbitrage_cycles sample_math sample_order (\<lambda>v. 0) 0 None one_way) = Inr []"
  using one_way_cycles_missed [OF one_way_graph _ sample_order_set] by (simp add: one_way_def)

text \<open>The rounds without the early exit.\<close>

fun full_rounds :: "(string, nat) dict \<Rightarrow> nat \<Rightarrow> Edge list \<Rightarrow> nat \<Rightarrow> table \<Rightarrow> exn option \<times> table" where
  "full_rounds ix n es 0 t = (None, t)"
| "full_rounds ix n es (Suc k) t =
     (case relax_pass ix n es (False, t) of
        (Some err, _, t1) \<Rightarrow> (Some err, t1)
      | (None, _, t1) \<Rightarrow> full_rounds ix n es k t1)"

lemma relax_edge_same: "relax_edge u v w t = (False, t1) \<Longrightarrow> t1 = t"
  by (auto simp: relax_edge_def Let_def split: prod.splits if_splits)

lemma relax_pass_same: "relax_pass ix n es (b, t) = (None, False, t1) \<Longrightarrow> \<not> b \<and> t1 = t"
proof (induction es arbitrary: b t)
  case (Cons e es)
  obtain u v where e: "edge_ends ix n e = Inr (u, v)" using Cons.prems by (auto split: sum.splits)
  obtain ch t2 where r: "relax_edge u v (log_weight e) t = (ch, t2)" by (cases "relax_edge u v (log_weight e) t")
  have "\<not> (b \<or> ch) \<and> t1 = t2" using Cons.IH [of "b \<or> ch" t2] Cons.prems e r by simp
  then show ?case using r relax_edge_same by auto
qed simp

lemma full_rounds_stable:
  "relax_pass ix n es (False, t) = (None, False, t) \<Longrightarrow> full_rounds ix n es k t = (None, t)"
  by (induction k) simp_all

text \<open>Leaving the relaxation as soon as a round changes nothing gives the distances, the predecessors and
  the exceptions of all \<open>n - 1\<close> rounds.\<close>
theorem early_exit_is_sound: "rounds ix n es k t = full_rounds ix n es k t"
proof (induction k arbitrary: t)
  case (Suc k)
  show ?case
  proof (cases "relax_pass ix n es (False, t)")
    case (fields r up ds ps)
    then show ?thesis
      using Suc.IH relax_pass_same [of ix n es False t "(ds, ps)"] full_rounds_stable [of ix n es t k]
      by (cases r; cases up) auto
  qed
qed simp

text \<open>A scan of an updated graph always ends; it raises only what \<open>math.exp\<close> raises on a
  weight, or when a profit has too many digits to be rounded to cents.\<close>
theorem scan_errors:
  assumes "update_graph ml es s0 = (None, s)" "\<And>vs. vs \<subseteq> {..<card (symbols s)} \<Longrightarrow> set (ord vs) = vs"
    "fst (find_arbitrage_cycles ml ord clk now start s) = Inl e"
  shows "(\<exists>x. m_exp ml x = Inl e) \<or> e = OtherError ''InvalidOperation''"
proof (cases "edges s = []")
  case True
  then show ?thesis using assms(3) by (simp add: find_arbitrage_cycles_def Let_def)
next
  case False
  have g: "graph_ok s" by (rule update_graph_ok [OF assms(1)])
  obtain ds ps vs where p: "preds_ok s (edges s) (ds, ps)" and vs: "vs \<subseteq> {..<card (symbols s)}"
    and f: "fst (find_arbitrage_cycles ml ord clk now start s) =
       (case extract_all ml clk s ps (card (symbols s)) (ord vs) of
          Inl e \<Rightarrow> Inl e
        | Inr cycles \<Rightarrow> Inr (filter (\<lambda>c. profit_bps c \<ge> min_profit s) (deduplicate_cycles {} cycles)))"
    by (rule find_extracts [OF g False])
  have "extract_all ml clk s ps (card (symbols s)) (ord vs) = Inl e"
    using f assms(3) by (auto split: sum.splits)
  then obtain v where "v \<in> vs" "extract_cycle ml (clk v) s ps (card (symbols s)) v = Inl e"
    using extract_all_error [of ml clk s ps "card (symbols s)" "ord vs" e] assms(2) [OF vs] by auto
  then show ?thesis using extract_cycle_error [OF g p] vs make_cycle_error by blast
qed

definition bounded_math :: mathlib where
  "bounded_math = sample_math\<lparr>m_exp := \<lambda>x. if x > 0 then Inl (OtherError ''OverflowError'') else Inr 1\<rparr>"

theorem scan_errors_witness:
  "fst (find_arbitrage_cycles bounded_math sample_order (\<lambda>v. 0) 0 None two_way) = Inl (OtherError ''OverflowError'') \<and>
    (\<exists>x. m_exp bounded_math x = Inl (OtherError ''OverflowError''))"
proof -
  have f: "fst (find_arbitrage_cycles bounded_math sample_order (\<lambda>v. 0) 0 None two_way) =
    Inl (OtherError ''OverflowError'')"
    by (simp add: scan_eval bounded_math_def)
  have "m_log bounded_math = m_log sample_math" by (simp add: bounded_math_def)
  then show ?thesis using f scan_errors [OF two_way_graph sample_order_set f] by simp
qed

end
