(* ===== verification/Encoding.thy ===== *)
theory Encoding
  imports Prelude "HOL-Library.Word"
begin

text \<open>
  What the protocol code uses of Python's standard library: the byte strings of \<open>struct\<close> (integers of a fixed size,
  IEEE-754 numbers), \<open>bytes.reverse\<close>, slices with negative bounds and UTF-8. The bit patterns of a floating point
  format are related to \<^const>\<open>rnd\<close>, the rounding used throughout the development.
\<close>

section \<open>Integers as bytes\<close>

type_synonym bytes = "8 word list"

text \<open>The \<open>k\<close> low bytes of an integer, least significant first.\<close>

primrec le_bytes :: "nat \<Rightarrow> int \<Rightarrow> bytes" where
  "le_bytes 0 n = []"
| "le_bytes (Suc k) n = word_of_int n # le_bytes k (n div 256)"

primrec le_int :: "bytes \<Rightarrow> int" where
  "le_int [] = 0"
| "le_int (b # bs) = uint b + 256 * le_int bs"

definition signed_int :: "bytes \<Rightarrow> int" where
  "signed_int bs =
     (let n = le_int bs in if n < 2 ^ (8 * length bs - 1) then n else n - 2 ^ (8 * length bs))"

lemma length_le_bytes [simp]: "length (le_bytes k n) = k"
  by (induction k arbitrary: n) simp_all

lemma uint_byte: "uint (word_of_int n :: 8 word) = n mod 256"
  by (simp add: unsigned_of_int take_bit_eq_mod)

lemma byte_eqI: "m mod 256 = n mod 256 \<Longrightarrow> (word_of_int m :: 8 word) = word_of_int n"
  by (metis uint_byte word_uint_eq_iff)

lemma le_int_bytes: "le_int (le_bytes k n) = n mod 256 ^ k"
proof (induction k arbitrary: n)
  case (Suc k)
  then show ?case by (simp add: uint_byte zmod_zmult2_eq)
qed simp

lemma le_int_range: "0 \<le> le_int bs \<and> le_int bs < 256 ^ length bs"
proof (induction bs)
  case (Cons b bs)
  have "uint b < 256" "0 \<le> uint b" using uint_lt2p [of b] by simp_all
  with Cons show ?case by simp
qed simp

lemma le_bytes_int: "le_bytes (length bs) (le_int bs) = bs"
proof (induction bs)
  case (Cons b bs)
  have b: "uint b < 256" "0 \<le> uint b" using uint_lt2p [of b] by simp_all
  have "word_of_int (uint b + 256 * le_int bs) = (word_of_int (uint b) :: 8 word)" by (rule byte_eqI) simp
  then have "word_of_int (uint b + 256 * le_int bs) = b" by (simp only: word_of_int_uint)
  moreover have "(uint b + 256 * le_int bs) div 256 = le_int bs" using b by simp
  ultimately show ?case using Cons by simp
qed simp

lemma signed_int_bytes:
  assumes "0 < k" "- (2 ^ (8 * k - 1)) \<le> n" "n < 2 ^ (8 * k - 1)"
  shows "signed_int (le_bytes k n) = n"
proof -
  have p: "(256::int) ^ k = 2 ^ (8 * k)" by (simp add: power_mult)
  have h: "(2::int) ^ (8 * k) = 2 * 2 ^ (8 * k - 1)" using assms(1) by (simp flip: power_Suc)
  show ?thesis
  proof (cases "0 \<le> n")
    case True
    then have "n mod 2 ^ (8 * k) = n" using assms h by (intro mod_pos_pos_trivial) auto
    then show ?thesis using assms by (simp add: signed_int_def Let_def le_int_bytes p)
  next
    case False
    have "n mod 2 ^ (8 * k) = (n + 2 ^ (8 * k)) mod 2 ^ (8 * k)" by simp
    also have "\<dots> = n + 2 ^ (8 * k)" using False assms h by (intro mod_pos_pos_trivial) auto
    finally show ?thesis using assms h by (simp add: signed_int_def Let_def le_int_bytes p)
  qed
qed

lemma signed_int_range:
  assumes "bs \<noteq> []"
  shows "- (2 ^ (8 * length bs - 1)) \<le> signed_int bs \<and> signed_int bs < 2 ^ (8 * length bs - 1)"
proof -
  have "(2::int) ^ (8 * length bs) = 2 * 2 ^ (8 * length bs - 1)" using assms by (simp flip: power_Suc)
  moreover have "(256::int) ^ length bs = 2 ^ (8 * length bs)" by (simp add: power_mult)
  ultimately show ?thesis using le_int_range [of bs] by (simp add: signed_int_def Let_def)
qed

lemma le_bytes_mod: "le_bytes k (n + m * 256 ^ k) = le_bytes k n"
proof (induction k arbitrary: n)
  case (Suc k)
  have "(word_of_int (n + m * 256 ^ Suc k) :: 8 word) = word_of_int n"
    by (rule byte_eqI) (simp add: mult.left_commute [of m 256])
  moreover have "(n + m * 256 ^ Suc k) div 256 = n div 256 + m * 256 ^ k" by (simp add: algebra_simps)
  ultimately show ?case using Suc by simp
qed simp

lemma le_bytes_signed: "bs \<noteq> [] \<Longrightarrow> le_bytes (length bs) (signed_int bs) = bs"
  using le_bytes_mod [of "length bs" "le_int bs" "- 1"] le_bytes_int [of bs]
  by (simp add: signed_int_def Let_def power_mult)

section \<open>Bit patterns of floating point numbers\<close>

text \<open>
  The pattern of a number that is not negative, without its sign: the exponent field above \<open>p - 1\<close> bits of
  fraction. A significand that is rounded up to \<open>2 ^ p\<close> carries into the exponent. Patterns from
  \<open>inf_bits\<close> on are infinities and NaN.
\<close>

definition sig_bits :: "int \<Rightarrow> int \<Rightarrow> rat \<Rightarrow> int" where
  "sig_bits p emin x =
     (if x = 0 then 0
      else let q = ulp_exp 2 p emin x in (q - emin) * 2 ^ nat (p - 1) + round_half_even (x / 2 powi q))"

definition sig_val :: "int \<Rightarrow> int \<Rightarrow> int \<Rightarrow> rat" where
  "sig_val p emin b =
     (let h = 2 ^ nat (p - 1)
      in if b < h then of_int b * 2 powi emin else of_int (h + b mod h) * 2 powi (emin + b div h - 1))"

lemma powi_less: "(2::rat) powi a < 2 powi b \<Longrightarrow> a < b"
  using power_int_increasing [of b a "2 :: rat"] by (meson linorder_not_less one_le_numeral)

locale binary_format = rounding 2 p emin for p emin
begin

abbreviation half :: int where "half \<equiv> 2 ^ nat (p - 1)"

lemma twice_half: "2 ^ nat p = 2 * half"
  using prec by (simp flip: power_Suc add: Suc_nat_eq_nat_zadd1)

lemma sig_val_carry:
  assumes "0 \<le> d" "0 \<le> n" "n \<le> 2 * half" "d = 0 \<or> half \<le> n"
  shows "sig_val p emin (d * half + n) = of_int n * 2 powi (emin + d)"
proof -
  have h: "0 < half" by simp
  consider "d = 0 \<and> n < half" | "half \<le> n" "n < 2 * half" | "n = 2 * half" using assms by linarith
  then show ?thesis
  proof cases
    case 1
    then show ?thesis by (simp add: sig_val_def)
  next
    case 2
    have "(d * half + n) div half = d + 1"
      using 2 div_pos_geq [of half n] div_pos_pos_trivial [of "n - half" half] by simp
    moreover have "(d * half + n) mod half = n - half"
      using 2 mod_pos_geq [of half n] mod_pos_pos_trivial [of "n - half" half] by simp
    moreover have "\<not> d * half + n < half" using 2 mult_nonneg_nonneg [of d half] assms(1) by (simp add: not_less add_increasing)
    ultimately show ?thesis by (simp add: sig_val_def Let_def)
  next
    case 3
    have "d * half + n = (d + 2) * half" by (simp add: 3 algebra_simps)
    moreover have "\<not> (d + 2) * half < half" using assms(1) by simp
    ultimately show ?thesis by (simp add: sig_val_def Let_def 3 power_int_add)
  qed
qed

lemma significand_ge:
  assumes "0 < x" "emin < ulp_exp 2 p emin x"
  shows "half \<le> round_half_even (x / 2 powi ulp_exp 2 p emin x)"
proof -
  let ?e = "ulp_exp 2 p emin x"
  have e: "ilog 2 x = (p - 1) + ?e" using assms by (simp add: ulp_exp_def)
  have "(of_int half :: rat) * 2 powi ?e = 2 powi (p - 1) * 2 powi ?e" using prec by (simp add: power_int_nonneg_exp)
  also have "\<dots> = 2 powi ilog 2 x" by (simp add: e power_int_add)
  also have "\<dots> \<le> x" using ilog_bounds [of 2 x] assms(1) by simp
  finally have "of_int half \<le> x / 2 powi ?e" by (simp add: pos_le_divide_eq)
  from round_half_even_mono [OF this] show ?thesis by (simp only: round_half_even_of_int)
qed

text \<open>Reading back the pattern of a number rounds the number.\<close>

lemma sig_val_bits:
  assumes "0 \<le> x" shows "sig_val p emin (sig_bits p emin x) = rnd 2 p emin x"
proof (cases "x = 0")
  case True
  then show ?thesis by (simp add: sig_bits_def sig_val_def)
next
  case False
  let ?e = "ulp_exp 2 p emin x" let ?n = "round_half_even (x / 2 powi ?e)"
  have x: "0 < x" using False assms by simp
  have "?n \<le> 2 * half" using rnd_significand_bound [OF x] by (simp add: twice_half)
  moreover have "0 \<le> ?n"
    using round_half_even_mono [of 0 "x / 2 powi ?e"] round_half_even_of_int [of 0] x by simp
  moreover have e: "emin \<le> ?e" by (simp add: ulp_exp_def)
  then have "0 \<le> ?e - emin" "?e - emin = 0 \<or> half \<le> ?n" using significand_ge [OF x] by linarith+
  ultimately have "sig_val p emin ((?e - emin) * half + ?n) = of_int ?n * 2 powi ?e"
    using sig_val_carry [of "?e - emin" ?n] by simp
  then show ?thesis using False by (simp add: sig_bits_def rnd_def Let_def)
qed

lemma sig_bits_nonneg: "0 \<le> x \<Longrightarrow> 0 \<le> sig_bits p emin x"
  using round_half_even_mono [of 0 "x / 2 powi ulp_exp 2 p emin x"] round_half_even_of_int [of 0]
  by (simp add: sig_bits_def Let_def ulp_exp_def)

lemma sig_bits_le:
  assumes "0 < x" "x < 2 powi k"
  shows "sig_bits p emin x \<le> (max emin (k - p) - emin) * half + 2 * half"
proof -
  let ?e = "ulp_exp 2 p emin x"
  have "(2::rat) powi ilog 2 x < 2 powi k" using ilog_bounds [of 2 x] assms by auto
  then have "ilog 2 x < k" by (rule powi_less)
  then have "?e \<le> max emin (k - p)" using assms(1) by (simp add: ulp_exp_def)
  then have "(?e - emin) * half \<le> (max emin (k - p) - emin) * half" by (intro mult_right_mono) auto
  moreover have "round_half_even (x / 2 powi ?e) \<le> 2 * half"
    using rnd_significand_bound [OF assms(1)] by (simp add: twice_half)
  ultimately have "(?e - emin) * half + round_half_even (x / 2 powi ?e) \<le> (max emin (k - p) - emin) * half + 2 * half"
    by (rule add_mono)
  then show ?thesis using assms(1) by (simp only: sig_bits_def Let_def) simp
qed

lemma ulp_exp_of_pattern:
  assumes "0 \<le> d" "0 < n" "n < 2 * half" "d = 0 \<or> half \<le> n"
  shows "ulp_exp 2 p emin (of_int n * 2 powi (emin + d)) = emin + d"
proof -
  let ?x = "of_int n * 2 powi (emin + d) :: rat"
  have x: "0 < ?x" using assms(2) by simp
  have h: "(of_int half :: rat) = 2 powi (p - 1)" using prec by (simp add: power_int_nonneg_exp)
  have "(of_int n :: rat) < of_int (2 * half)" using assms(3) by (simp only: of_int_less_iff)
  also have "\<dots> = 2 powi p" using h by (simp add: power_int_diff)
  finally have "?x < 2 powi p * 2 powi (emin + d)" by simp
  then have "?x < 2 powi (p + (emin + d))" by (simp add: power_int_add)
  then have "(2::rat) powi ilog 2 ?x < 2 powi (p + (emin + d))" using ilog_bounds [of 2 ?x] x by auto
  from powi_less [OF this] have up: "ilog 2 ?x \<le> p - 1 + (emin + d)" by simp
  show ?thesis
  proof (cases "d = 0")
    case True
    then show ?thesis using up x by (simp add: ulp_exp_def)
  next
    case False
    then have "(of_int half :: rat) \<le> of_int n" using assms(4) by (simp only: of_int_le_iff) simp
    then have "2 powi (p - 1) * 2 powi (emin + d) \<le> ?x" unfolding h by simp
    then have "2 powi (p - 1 + (emin + d)) \<le> ?x" by (simp add: power_int_add)
    then have "(2::rat) powi (p - 1 + (emin + d)) < 2 powi (ilog 2 ?x + 1)" using ilog_bounds [of 2 ?x] x by auto
    from powi_less [OF this] have "p - 1 + (emin + d) \<le> ilog 2 ?x" by simp
    with up show ?thesis using x assms(1) by (simp add: ulp_exp_def)
  qed
qed

text \<open>The pattern of the value of a pattern is that pattern.\<close>

lemma sig_bits_val:
  assumes "0 \<le> b" shows "sig_bits p emin (sig_val p emin b) = b"
proof (cases "b = 0")
  case True
  then show ?thesis by (simp add: sig_bits_def sig_val_def)
next
  case False
  obtain d n where dn: "b = d * half + n" "0 \<le> d" "0 < n" "n < 2 * half" "d = 0 \<or> half \<le> n"
  proof (cases "b < half")
    case True
    then show thesis using that [of 0 b] assms False by simp
  next
    case big: False
    have "0 \<le> b div half - 1" using big pos_imp_zdiv_pos_iff [of half b] by simp
    moreover have "0 \<le> b mod half" "b mod half < half" by simp_all
    moreover have "b = (b div half - 1) * half + (half + b mod half)" using div_mult_mod_eq [of b half] by (simp add: algebra_simps)
    ultimately show thesis using that [of "b div half - 1" "half + b mod half"] by linarith
  qed
  have v: "sig_val p emin b = of_int n * 2 powi (emin + d)" using dn by (simp add: dn(1) sig_val_carry)
  show ?thesis
    using dn(3) unfolding v sig_bits_def ulp_exp_of_pattern [OF dn(2-5)] by (simp add: Let_def dn(1))
qed

lemma sig_val_nonneg: "0 \<le> b \<Longrightarrow> 0 \<le> sig_val p emin b"
  by (simp add: sig_val_def Let_def)

lemma sig_val_less:
  assumes "0 \<le> b" "b < m * half" "1 \<le> m" shows "sig_val p emin b < 2 powi (emin + m + p - 2)"
proof (cases "b < half")
  case True
  have h: "(of_int half :: rat) = 2 powi (p - 1)" using prec by (simp add: power_int_nonneg_exp)
  have "(of_int b :: rat) < of_int half" using True by (simp only: of_int_less_iff)
  then have "sig_val p emin b < 2 powi (p - 1) * 2 powi emin" using True unfolding h by (simp add: sig_val_def)
  also have "\<dots> = 2 powi (p - 1 + emin)" by (simp add: power_int_add)
  also have "\<dots> \<le> 2 powi (emin + m + p - 2)" using assms(3) by (intro power_int_increasing) auto
  finally show ?thesis .
next
  case False
  have "half + b mod half < 2 * half" by simp
  then have "(of_int (half + b mod half) :: rat) < of_int (2 * half)" by (simp only: of_int_less_iff)
  also have "\<dots> = 2 powi p" using prec by (simp add: power_int_nonneg_exp flip: twice_half)
  finally have "sig_val p emin b < 2 powi p * 2 powi (emin + b div half - 1)"
    using False by (simp add: sig_val_def Let_def)
  also have "\<dots> = 2 powi (p + (emin + b div half - 1))" by (simp add: power_int_add)
  also have "\<dots> \<le> 2 powi (emin + m + p - 2)"
  proof (rule power_int_increasing)
    have "b div half < m"
    proof (rule ccontr)
      assume "\<not> b div half < m"
      then have "m * half \<le> b div half * half" by (intro mult_right_mono) auto
      moreover have "0 \<le> b mod half" by simp
      ultimately show False using assms(2) div_mult_mod_eq [of b half] by linarith
    qed
    then show "p + (emin + b div half - 1) \<le> emin + m + p - 2" by simp
  qed simp
  finally show ?thesis .
qed

end

interpretation f64_bits: binary_format 53 "-1074"
  by unfold_locales auto

interpretation f32_bits: binary_format 24 "-149"
  by unfold_locales auto

section \<open>binary64 and binary32 numbers\<close>

type_synonym float64 = "64 word"

definition inf64 :: int where "inf64 = 2047 * 2 ^ 52"
definition inf32 :: int where "inf32 = 255 * 2 ^ 23"

text \<open>A pattern without its sign, and a pattern with the sign put back.\<close>

definition mag64 :: "float64 \<Rightarrow> int" where
  "mag64 w = uint w mod 2 ^ 63"

definition neg64 :: "float64 \<Rightarrow> bool" where
  "neg64 w \<longleftrightarrow> 2 ^ 63 \<le> uint w"

definition make64 :: "bool \<Rightarrow> int \<Rightarrow> float64" where
  "make64 neg m = word_of_int ((if neg then 2 ^ 63 else 0) + m)"

definition finite64 :: "float64 \<Rightarrow> bool" where
  "finite64 w \<longleftrightarrow> mag64 w < inf64"

definition value64 :: "float64 \<Rightarrow> rat" where
  "value64 w = (if neg64 w then - 1 else 1) * sig_val 53 (-1074) (mag64 w)"

text \<open>\<open>float(n)\<close>; \<open>None\<close> is an \<open>OverflowError\<close>.\<close>

definition float_of_int :: "int \<Rightarrow> float64 option" where
  "float_of_int n =
     (let m = sig_bits 53 (-1074) (of_int \<bar>n\<bar>) in if m < inf64 then Some (make64 (n < 0) m) else None)"

text \<open>
  The two conversions of \<open>struct\<close> format \<open>f\<close>. Narrowing rounds to nearest, and a number too large for the format
  is an \<open>OverflowError\<close>; a NaN keeps the top of its payload and is quiet on both ways.
\<close>

definition quiet32 :: "int \<Rightarrow> int" where
  "quiet32 f = (if f < 2 ^ 22 then f + 2 ^ 22 else f)"

definition single_of_double :: "float64 \<Rightarrow> int option" where
  "single_of_double w =
     (let m = mag64 w; sgn = (if neg64 w then 2 ^ 31 else 0)
      in if inf64 < m then Some (sgn + inf32 + quiet32 ((m - inf64) div 2 ^ 29))
         else if m = inf64 then Some (sgn + inf32)
         else (let b = sig_bits 24 (-149) (sig_val 53 (-1074) m)
               in if b < inf32 then Some (sgn + b) else None))"

definition double_of_single :: "int \<Rightarrow> float64" where
  "double_of_single s =
     (let m = s mod 2 ^ 31; neg = (2 ^ 31 \<le> s)
      in if inf32 < m then make64 neg (inf64 + quiet32 (m - inf32) * 2 ^ 29)
         else if m = inf32 then make64 neg inf64
         else make64 neg (sig_bits 53 (-1074) (sig_val 24 (-149) m)))"

lemma mag64_range: "0 \<le> mag64 w \<and> mag64 w < 2 ^ 63"
  by (simp add: mag64_def)

lemma make64_parts:
  assumes "0 \<le> m" "m < 2 ^ 63" shows "mag64 (make64 neg m) = m" "neg64 (make64 neg m) = neg"
proof -
  let ?x = "(if neg then 2 ^ 63 else 0) + m"
  have "uint (make64 neg m) = ?x mod 2 ^ 64" by (simp only: make64_def unsigned_of_int take_bit_eq_mod) simp
  also have "\<dots> = ?x" using assms by (intro mod_pos_pos_trivial) auto
  finally have u: "uint (make64 neg m) = ?x" .
  show "mag64 (make64 neg m) = m" using assms by (simp add: mag64_def u)
  show "neg64 (make64 neg m) = neg" using assms by (simp add: neg64_def u)
qed

lemma make64_surj: "make64 (neg64 w) (mag64 w) = w"
proof -
  have w: "0 \<le> uint w" "uint w < 2 ^ 64" using uint_lt2p [of w] by simp_all
  have "(if neg64 w then 2 ^ 63 else 0) + mag64 w = uint w"
  proof (cases "neg64 w")
    case True
    then have "(uint w - 2 ^ 63) mod 2 ^ 63 = uint w - 2 ^ 63"
      using w by (intro mod_pos_pos_trivial) (simp_all add: neg64_def)
    then have "uint w mod 2 ^ 63 = uint w - 2 ^ 63" by (simp only: minus_mod_self2)
    then show ?thesis using True by (simp add: mag64_def)
  next
    case False
    then show ?thesis using w by (simp add: neg64_def mag64_def)
  qed
  then show ?thesis by (simp only: make64_def word_of_int_uint)
qed

text \<open>A number that fits binary32 fits binary64 unchanged.\<close>

lemma single_in_double: "sig_val 53 (-1074) (sig_bits 53 (-1074) (sig_val 24 (-149) b)) = sig_val 24 (-149) b"
  if "0 \<le> b"
proof -
  let ?h = "2 ^ 23 :: int"
  obtain n k where nk: "sig_val 24 (-149) b = of_int n * 2 powi k" "-149 \<le> k" "0 \<le> n" "n < 2 ^ 24"
  proof (cases "b < ?h")
    case True
    then show thesis using that \<open>0 \<le> b\<close> by (intro that [of b "-149"]) (auto simp: sig_val_def)
  next
    case False
    then have "1 \<le> b div ?h" using pos_imp_zdiv_pos_iff [of ?h b] by simp
    moreover have "b mod ?h < ?h" "0 \<le> b mod ?h" by simp_all
    ultimately show thesis
      using False by (intro that [of "?h + b mod ?h" "-149 + b div ?h - 1"]) (auto simp: sig_val_def Let_def)
  qed
  have "rnd 2 53 (-1074) (sig_val 24 (-149) b) = sig_val 24 (-149) b"
    using nk by (intro f64.rnd_exact [of _ n k]) auto
  then show ?thesis using f64_bits.sig_val_bits [OF f32_bits.sig_val_nonneg [OF that]] by simp
qed

lemma widened_pattern:
  assumes "0 \<le> b" "b < inf32"
  shows "0 \<le> sig_bits 53 (-1074) (sig_val 24 (-149) b) \<and> sig_bits 53 (-1074) (sig_val 24 (-149) b) < inf64"
proof (cases "sig_val 24 (-149) b = 0")
  case True
  then show ?thesis by (simp add: sig_bits_def inf64_def)
next
  case False
  then have x: "0 < sig_val 24 (-149) b" using f32_bits.sig_val_nonneg [OF assms(1)] by simp
  have "sig_val 24 (-149) b < 2 powi (-149 + 255 + 24 - 2)"
    using assms by (intro f32_bits.sig_val_less) (simp_all add: inf32_def)
  then have "sig_val 24 (-149) b < 2 powi 128" by simp
  from f64_bits.sig_bits_le [OF x this] have "sig_bits 53 (-1074) (sig_val 24 (-149) b) < inf64" by (simp add: inf64_def)
  then show ?thesis using f64_bits.sig_bits_nonneg [of "sig_val 24 (-149) b"] x by simp
qed

section \<open>Slices\<close>

definition slice_index :: "int \<Rightarrow> nat \<Rightarrow> nat" where
  "slice_index i n = nat (if i < 0 then i + int n else min i (int n))"

text \<open>\<open>xs[i:j]\<close>.\<close>

definition py_slice :: "int \<Rightarrow> int \<Rightarrow> 'a list \<Rightarrow> 'a list" where
  "py_slice i j xs = drop (slice_index i (length xs)) (take (slice_index j (length xs)) xs)"

lemma py_slice_middle [simp]: "py_slice (int (length a)) (int (length a) + int (length b)) (a @ b @ c) = b"
  by (simp add: py_slice_def slice_index_def nat_add_distrib)

lemma py_slice_past_end:
  "length b \<le> k \<Longrightarrow> py_slice (int (length a)) (int (length a) + int k) (a @ b) = b"
  by (simp add: py_slice_def slice_index_def nat_add_distrib min_def)

section \<open>UTF-8\<close>

text \<open>A string is the list of its code points; a surrogate has no encoding.\<close>

definition surrogate :: "nat \<Rightarrow> bool" where
  "surrogate c \<longleftrightarrow> 55296 \<le> c \<and> c \<le> 57343"

definition encode_char :: "nat \<Rightarrow> nat list option" where
  "encode_char c =
     (if c < 128 then Some [c]
      else if c < 2048 then Some [192 + c div 64, 128 + c mod 64]
      else if c < 65536 then
        (if surrogate c then None else Some [224 + c div 4096, 128 + c div 64 mod 64, 128 + c mod 64])
      else if c < 1114112 then
        Some [240 + c div 262144, 128 + c div 4096 mod 64, 128 + c div 64 mod 64, 128 + c mod 64]
      else None)"

definition cont_byte :: "nat \<Rightarrow> bool" where
  "cont_byte b \<longleftrightarrow> 128 \<le> b \<and> b < 192"

fun next_char :: "nat list \<Rightarrow> (nat \<times> nat list) option" where
  "next_char [] = None"
| "next_char (b # bs) =
     (if b < 128 then Some (b, bs)
      else if 194 \<le> b \<and> b < 224 then
        (case bs of
           c1 # r \<Rightarrow> if cont_byte c1 then Some ((b - 192) * 64 + (c1 - 128), r) else None
         | _ \<Rightarrow> None)
      else if 224 \<le> b \<and> b < 240 then
        (case bs of
           c1 # c2 # r \<Rightarrow>
             (let c = (b - 224) * 4096 + (c1 - 128) * 64 + (c2 - 128)
              in if cont_byte c1 \<and> cont_byte c2 \<and> 2048 \<le> c \<and> \<not> surrogate c then Some (c, r) else None)
         | _ \<Rightarrow> None)
      else if 240 \<le> b \<and> b < 245 then
        (case bs of
           c1 # c2 # c3 # r \<Rightarrow>
             (let c = (b - 240) * 262144 + (c1 - 128) * 4096 + (c2 - 128) * 64 + (c3 - 128)
              in if cont_byte c1 \<and> cont_byte c2 \<and> cont_byte c3 \<and> 65536 \<le> c \<and> c < 1114112 then Some (c, r) else None)
         | _ \<Rightarrow> None)
      else None)"

lemma next_char_shorter: "next_char bs = Some (c, r) \<Longrightarrow> length r < length bs"
  by (cases bs) (auto simp: Let_def split: if_splits list.splits)

fun utf8_encode :: "nat list \<Rightarrow> nat list option" where
  "utf8_encode [] = Some []"
| "utf8_encode (c # cs) =
     (case (encode_char c, utf8_encode cs) of (Some bs, Some r) \<Rightarrow> Some (bs @ r) | _ \<Rightarrow> None)"

function utf8_decode :: "nat list \<Rightarrow> nat list option" where
  "utf8_decode bs =
     (if bs = [] then Some []
      else case next_char bs of None \<Rightarrow> None | Some (c, r) \<Rightarrow> map_option (\<lambda>cs. c # cs) (utf8_decode r))"
  by pat_completeness auto
termination by (relation "measure length") (auto dest: next_char_shorter)

declare utf8_decode.simps [simp del]

lemma next_char_encode:
  assumes "encode_char c = Some bs" shows "next_char (bs @ r) = Some (c, r)"
proof -
  have d1: "c div 64 * 64 + c mod 64 = c" by simp
  have d2: "c div 4096 * 64 + c div 64 mod 64 = c div 64"
    using div_mult_mod_eq [of "c div 64" 64] by (simp flip: div_mult2_eq)
  have d3: "c div 262144 * 64 + c div 4096 mod 64 = c div 4096"
    using div_mult_mod_eq [of "c div 4096" 64] by (simp flip: div_mult2_eq)
  have e2: "c div 4096 * 4096 + c div 64 mod 64 * 64 + c mod 64 = c" using d1 d2 by linarith
  have e3: "c div 262144 * 262144 + c div 4096 mod 64 * 4096 + c div 64 mod 64 * 64 + c mod 64 = c"
    using e2 d3 by linarith
  consider "c < 128" | "128 \<le> c" "c < 2048" | "2048 \<le> c" "c < 65536" "\<not> surrogate c" | "65536 \<le> c" "c < 1114112"
    using assms by (auto simp: encode_char_def split: if_splits)
  then show ?thesis
  proof cases
    case 2
    then have "2 \<le> c div 64" "c div 64 < 32" by (simp_all add: div_less_iff_less_mult less_eq_div_iff_mult_less_eq)
    then show ?thesis using assms 2 d1 by (auto simp: encode_char_def cont_byte_def)
  next
    case 3
    then have "c div 4096 < 16" by (simp add: div_less_iff_less_mult)
    then show ?thesis using assms 3 e2 by (auto simp: encode_char_def cont_byte_def Let_def)
  next
    case 4
    then have "c div 262144 < 5" by (simp add: div_less_iff_less_mult)
    then show ?thesis using assms 4 e3 by (auto simp: encode_char_def cont_byte_def Let_def)
  qed (use assms in \<open>auto simp: encode_char_def\<close>)
qed

lemma encode_char_bytes:
  "encode_char c = Some bs \<Longrightarrow> bs \<noteq> [] \<and> (\<forall>b \<in> set bs. b < 256)"
  by (auto simp: encode_char_def div_less_iff_less_mult split: if_splits intro: less_trans [of _ "128 + 64"])

lemma utf8_roundtrip: "utf8_encode cs = Some bs \<Longrightarrow> utf8_decode bs = Some cs"
proof (induction cs arbitrary: bs)
  case Nil
  then show ?case by (simp add: utf8_decode.simps)
next
  case (Cons c cs)
  then obtain b r where "encode_char c = Some b" "utf8_encode cs = Some r" "bs = b @ r"
    by (auto split: option.splits)
  then show ?case
    using Cons.IH next_char_encode [of c b r] encode_char_bytes [of c b] by (simp add: utf8_decode.simps [of "b @ r"])
qed

lemma utf8_bytes: "utf8_encode cs = Some bs \<Longrightarrow> \<forall>b \<in> set bs. b < 256"
  by (induction cs arbitrary: bs) (auto split: option.splits dest!: encode_char_bytes)

lemma unat_of_bytes: "\<forall>b \<in> set bs. b < 256 \<Longrightarrow> map unat (map of_nat bs :: bytes) = bs"
  by (induction bs) (simp_all add: unat_of_nat)

end
