(* ===== verification/Endianness.thy ===== *)
theory Endianness
  imports Encoding
begin

text \<open>
  \<open>backend/protocols/endianness_handler.py\<close>: packing numbers in a chosen byte order (\<open>EndiannessHandler\<close>) and
  the message buffer on top of it (\<open>protocol\<close> for \<open>BinaryProtocolHandler\<close>). The byte order of the machine,
  \<open>sys.byteorder\<close>, is a parameter. A number is a Python \<open>int\<close> or the 64 bits of a \<open>float\<close>, NaN and infinities
  included.
\<close>

section \<open>The struct module on one number\<close>

datatype pynum = PInt int | PFloat float64

abbreviation struct_error :: exn where "struct_error \<equiv> OtherError ''struct.error''"

definition code_size :: "char \<Rightarrow> nat" where
  "code_size c =
     (if c \<in> {CHR ''b'', CHR ''B''} then 1 else if c \<in> {CHR ''h'', CHR ''H''} then 2
      else if c \<in> {CHR ''i'', CHR ''I'', CHR ''f''} then 4 else 8)"

definition code_signed :: "char \<Rightarrow> bool" where
  "code_signed c \<longleftrightarrow> c \<in> {CHR ''b'', CHR ''h'', CHR ''i'', CHR ''q''}"

definition code_range :: "char \<Rightarrow> int \<Rightarrow> bool" where
  "code_range c n \<longleftrightarrow>
     (if code_signed c then - (2 ^ (8 * code_size c - 1)) \<le> n \<and> n < 2 ^ (8 * code_size c - 1)
      else 0 \<le> n \<and> n < 2 ^ (8 * code_size c))"

definition as_double :: "pynum \<Rightarrow> float64 option" where
  "as_double v = (case v of PFloat w \<Rightarrow> Some w | PInt n \<Rightarrow> float_of_int n)"

definition pack_pattern :: "char \<Rightarrow> pynum \<Rightarrow> exn + int" where
  "pack_pattern c v =
     (if c = CHR ''d'' then (case as_double v of None \<Rightarrow> Inl struct_error | Some w \<Rightarrow> Inr (uint w))
      else if c = CHR ''f'' then
        (case as_double v of
           None \<Rightarrow> Inl struct_error
         | Some w \<Rightarrow> (case single_of_double w of None \<Rightarrow> Inl (OtherError ''OverflowError'') | Some s \<Rightarrow> Inr s))
      else (case v of PFloat w \<Rightarrow> Inl struct_error | PInt n \<Rightarrow> if code_range c n then Inr n else Inl struct_error))"

definition struct_pack :: "bool \<Rightarrow> char \<Rightarrow> pynum \<Rightarrow> exn + bytes" where
  "struct_pack big c v =
     (case pack_pattern c v of
        Inl e \<Rightarrow> Inl e
      | Inr n \<Rightarrow> Inr ((if big then rev else id) (le_bytes (code_size c) n)))"

definition struct_unpack :: "bool \<Rightarrow> char \<Rightarrow> bytes \<Rightarrow> pynum" where
  "struct_unpack big c data =
     (let bs = (if big then rev else id) data
      in if c = CHR ''d'' then PFloat (word_of_int (le_int bs))
         else if c = CHR ''f'' then PFloat (double_of_single (le_int bs))
         else PInt (if code_signed c then signed_int bs else le_int bs))"

section \<open>The handler\<close>

datatype ByteOrder = LITTLE_ENDIAN | BIG_ENDIAN

definition get_system_byte_order :: "bool \<Rightarrow> ByteOrder" where
  "get_system_byte_order sys_little = (if sys_little then LITTLE_ENDIAN else BIG_ENDIAN)"

definition FORMAT_MAP :: "(string, char) dict" where
  "FORMAT_MAP =
     [(''int8'', CHR ''b''), (''uint8'', CHR ''B''), (''int16'', CHR ''h''), (''uint16'', CHR ''H''),
      (''int32'', CHR ''i''), (''uint32'', CHR ''I''), (''int64'', CHR ''q''), (''uint64'', CHR ''Q''),
      (''float32'', CHR ''f''), (''float64'', CHR ''d'')]"

definition SIZE_MAP :: "(string, nat) dict" where
  "SIZE_MAP =
     [(''int8'', 1), (''uint8'', 1), (''int16'', 2), (''uint16'', 2), (''int32'', 4), (''uint32'', 4),
      (''int64'', 8), (''uint64'', 8), (''float32'', 4), (''float64'', 8)]"

record EndiannessHandler =
  target_order :: ByteOrder
  is_native_little :: bool
  format_prefix :: char

definition handler_init :: "bool \<Rightarrow> ByteOrder \<Rightarrow> EndiannessHandler" where
  "handler_init sys_little order =
     \<lparr>target_order = order, is_native_little = (get_system_byte_order sys_little = LITTLE_ENDIAN),
      format_prefix = (if order = BIG_ENDIAN then CHR ''>'' else CHR ''<'')\<rparr>"

definition needs_conversion :: "EndiannessHandler \<Rightarrow> bool" where
  "needs_conversion h =
     (if target_order h = BIG_ENDIAN then is_native_little h else \<not> is_native_little h)"

definition big_prefix :: "EndiannessHandler \<Rightarrow> bool" where
  "big_prefix h \<longleftrightarrow> format_prefix h = CHR ''>''"

text \<open>\<open>struct.error\<close> becomes a \<open>ValueError\<close>; an \<open>OverflowError\<close> passes.\<close>

definition as_value_error :: "exn \<Rightarrow> exn" where
  "as_value_error e = (if e = struct_error then ValueError else e)"

definition pack :: "EndiannessHandler \<Rightarrow> pynum \<Rightarrow> string \<Rightarrow> exn + bytes" where
  "pack h v dtype =
     (case dict_get FORMAT_MAP dtype of
        None \<Rightarrow> Inl ValueError
      | Some c \<Rightarrow> (case struct_pack (big_prefix h) c v of Inl e \<Rightarrow> Inl (as_value_error e) | Inr bs \<Rightarrow> Inr bs))"

definition unpack :: "EndiannessHandler \<Rightarrow> bytes \<Rightarrow> string \<Rightarrow> exn + pynum" where
  "unpack h data dtype =
     (case (dict_get FORMAT_MAP dtype, dict_get SIZE_MAP dtype) of
        (Some c, Some n) \<Rightarrow> if length data \<noteq> n then Inl ValueError else Inr (struct_unpack (big_prefix h) c data)
      | _ \<Rightarrow> Inl ValueError)"

fun pack_elements :: "bool \<Rightarrow> char \<Rightarrow> pynum list \<Rightarrow> exn + bytes" where
  "pack_elements big c [] = Inr []"
| "pack_elements big c (v # vs) =
     (case struct_pack big c v of
        Inl e \<Rightarrow> Inl e
      | Inr bs \<Rightarrow> (case pack_elements big c vs of Inl e \<Rightarrow> Inl e | Inr r \<Rightarrow> Inr (bs @ r)))"

definition pack_array :: "EndiannessHandler \<Rightarrow> pynum list \<Rightarrow> string \<Rightarrow> exn + bytes" where
  "pack_array h vs dtype =
     (if vs = [] then Inr []
      else case dict_get FORMAT_MAP dtype of
             None \<Rightarrow> Inl ValueError
           | Some c \<Rightarrow> (case pack_elements (big_prefix h) c vs of Inl e \<Rightarrow> Inl (as_value_error e) | Inr bs \<Rightarrow> Inr bs))"

primrec unpack_elements :: "bool \<Rightarrow> char \<Rightarrow> nat \<Rightarrow> bytes \<Rightarrow> pynum list" where
  "unpack_elements big c 0 data = []"
| "unpack_elements big c (Suc k) data =
     struct_unpack big c (take (code_size c) data) # unpack_elements big c k (drop (code_size c) data)"

definition unpack_array :: "EndiannessHandler \<Rightarrow> bytes \<Rightarrow> string \<Rightarrow> int \<Rightarrow> exn + pynum list" where
  "unpack_array h data dtype count =
     (if count = 0 then Inr []
      else case (dict_get FORMAT_MAP dtype, dict_get SIZE_MAP dtype) of
             (Some c, Some n) \<Rightarrow>
               if int (length data) \<noteq> int n * count then Inl ValueError
               else Inr (unpack_elements (big_prefix h) c (nat count) data)
           | _ \<Rightarrow> Inl ValueError)"

text \<open>The loop over elements of \<open>k\<close> bytes; sizes are positive, so \<open>k = 0\<close> does not occur.\<close>

function reverse_elements :: "nat \<Rightarrow> bytes \<Rightarrow> bytes" where
  "reverse_elements k data =
     (if data = [] \<or> k = 0 then [] else rev (take k data) @ reverse_elements k (drop k data))"
  by pat_completeness auto
termination by (relation "measure (\<lambda>(k, data). length data)") auto

declare reverse_elements.simps [simp del]

definition convert_to_network_order :: "EndiannessHandler \<Rightarrow> bytes \<Rightarrow> string \<Rightarrow> exn + bytes" where
  "convert_to_network_order h data dtype =
     (if target_order h \<noteq> BIG_ENDIAN then Inl ValueError
      else if \<not> is_native_little h then Inr data
      else case dict_get SIZE_MAP dtype of None \<Rightarrow> Inl KeyError | Some k \<Rightarrow> Inr (reverse_elements k data))"

definition convert_from_network_order :: "EndiannessHandler \<Rightarrow> bytes \<Rightarrow> string \<Rightarrow> exn + bytes" where
  "convert_from_network_order h data dtype =
     (if \<not> is_native_little h then Inr data
      else case dict_get SIZE_MAP dtype of None \<Rightarrow> Inl KeyError | Some k \<Rightarrow> Inr (reverse_elements k data))"

section \<open>The message buffer\<close>

record protocol =
  endianness :: EndiannessHandler
  buffer :: bytes

definition protocol_init :: "bool \<Rightarrow> protocol" where
  "protocol_init sys_little = \<lparr>endianness = handler_init sys_little BIG_ENDIAN, buffer = []\<rparr>"

definition write_num :: "string \<Rightarrow> pynum \<Rightarrow> protocol \<Rightarrow> exn option \<times> protocol" where
  "write_num dtype v p =
     (case pack (endianness p) v dtype of
        Inl e \<Rightarrow> (Some e, p)
      | Inr bs \<Rightarrow> (None, p\<lparr>buffer := buffer p @ bs\<rparr>))"

definition write_uint8 :: "pynum \<Rightarrow> protocol \<Rightarrow> exn option \<times> protocol" where
  "write_uint8 v p = write_num ''uint8'' v p"

definition write_uint16 :: "pynum \<Rightarrow> protocol \<Rightarrow> exn option \<times> protocol" where
  "write_uint16 v p = write_num ''uint16'' v p"

definition write_uint32 :: "pynum \<Rightarrow> protocol \<Rightarrow> exn option \<times> protocol" where
  "write_uint32 v p = write_num ''uint32'' v p"

definition write_uint64 :: "pynum \<Rightarrow> protocol \<Rightarrow> exn option \<times> protocol" where
  "write_uint64 v p = write_num ''uint64'' v p"

definition write_int64 :: "pynum \<Rightarrow> protocol \<Rightarrow> exn option \<times> protocol" where
  "write_int64 v p = write_num ''int64'' v p"

definition write_float64 :: "pynum \<Rightarrow> protocol \<Rightarrow> exn option \<times> protocol" where
  "write_float64 v p = write_num ''float64'' v p"

definition write_string :: "nat list \<Rightarrow> protocol \<Rightarrow> exn option \<times> protocol" where
  "write_string s p =
     (case utf8_encode s of
        None \<Rightarrow> (Some (OtherError ''UnicodeEncodeError''), p)
      | Some bs \<Rightarrow>
          (case write_uint32 (PInt (int (length bs))) p of
             (Some e, p1) \<Rightarrow> (Some e, p1)
           | (None, p1) \<Rightarrow> (None, p1\<lparr>buffer := buffer p1 @ map of_nat bs\<rparr>)))"

definition read_num :: "string \<Rightarrow> int \<Rightarrow> int \<Rightarrow> protocol \<Rightarrow> exn + pynum \<times> int" where
  "read_num dtype k offset p =
     (case unpack (endianness p) (py_slice offset (offset + k) (buffer p)) dtype of
        Inl e \<Rightarrow> Inl e
      | Inr v \<Rightarrow> Inr (v, offset + k))"

definition read_uint8 :: "int \<Rightarrow> protocol \<Rightarrow> exn + pynum \<times> int" where
  "read_uint8 offset p = read_num ''uint8'' 1 offset p"

definition read_uint16 :: "int \<Rightarrow> protocol \<Rightarrow> exn + pynum \<times> int" where
  "read_uint16 offset p = read_num ''uint16'' 2 offset p"

definition read_uint32 :: "int \<Rightarrow> protocol \<Rightarrow> exn + pynum \<times> int" where
  "read_uint32 offset p = read_num ''uint32'' 4 offset p"

definition read_uint64 :: "int \<Rightarrow> protocol \<Rightarrow> exn + pynum \<times> int" where
  "read_uint64 offset p = read_num ''uint64'' 8 offset p"

definition read_int64 :: "int \<Rightarrow> protocol \<Rightarrow> exn + pynum \<times> int" where
  "read_int64 offset p = read_num ''int64'' 8 offset p"

definition read_float64 :: "int \<Rightarrow> protocol \<Rightarrow> exn + pynum \<times> int" where
  "read_float64 offset p = read_num ''float64'' 8 offset p"

text \<open>The length that was read is an \<open>int\<close>; the slice is cut at the end of the buffer.\<close>

definition read_string :: "int \<Rightarrow> protocol \<Rightarrow> exn + nat list \<times> int" where
  "read_string offset p =
     (case read_uint32 offset p of
        Inl e \<Rightarrow> Inl e
      | Inr (PFloat w, off) \<Rightarrow> Inl (OtherError ''TypeError'')
      | Inr (PInt n, off) \<Rightarrow>
          (case utf8_decode (map unat (py_slice off (off + n) (buffer p))) of
             None \<Rightarrow> Inl (OtherError ''UnicodeDecodeError'')
           | Some s \<Rightarrow> Inr (s, off + n)))"

definition get_buffer :: "protocol \<Rightarrow> bytes" where
  "get_buffer p = buffer p"

definition clear :: "protocol \<Rightarrow> protocol" where
  "clear p = p\<lparr>buffer := []\<rparr>"

definition buffer_len :: "protocol \<Rightarrow> nat" where
  "buffer_len p = length (buffer p)"

text \<open>The self-test of the module: \<open>None\<close> when its three assertions hold.\<close>

definition max_survives :: "EndiannessHandler \<Rightarrow> int \<Rightarrow> string \<Rightarrow> bool" where
  "max_survives h n dtype =
     (case pack h (PInt n) dtype of
        Inl e \<Rightarrow> False
      | Inr bs \<Rightarrow> unpack h bs dtype = Inr (PInt n))"

definition test_sign_extension_prevention :: "bool \<Rightarrow> exn option" where
  "test_sign_extension_prevention sys_little =
     (let h = handler_init sys_little BIG_ENDIAN
      in if max_survives h 0xFFFF ''uint16'' \<and> max_survives h 0xFFFFFFFF ''uint32'' \<and>
            max_survives h 0xFFFFFFFFFFFFFFFF ''uint64''
         then None else Some (OtherError ''AssertionError''))"

section \<open>Packing and unpacking\<close>

text \<open>What comes back: integers unchanged, a \<open>float64\<close> field as its 64 bits, a \<open>float32\<close> field narrowed.\<close>

definition norm_num :: "char \<Rightarrow> pynum \<Rightarrow> pynum" where
  "norm_num c v =
     (if c = CHR ''d'' then (case as_double v of None \<Rightarrow> v | Some w \<Rightarrow> PFloat w)
      else if c = CHR ''f'' then
        (case as_double v of None \<Rightarrow> v
         | Some w \<Rightarrow> (case single_of_double w of None \<Rightarrow> v | Some s \<Rightarrow> PFloat (double_of_single s)))
      else v)"

lemma SIZE_MAP_FORMAT: "map_option code_size (dict_get FORMAT_MAP dtype) = dict_get SIZE_MAP dtype"
  by (simp add: FORMAT_MAP_def SIZE_MAP_def code_size_def)

lemma FORMAT_MAP_codes:
  "dict_get FORMAT_MAP dtype = Some c \<Longrightarrow>
    c \<in> {CHR ''b'', CHR ''B'', CHR ''h'', CHR ''H'', CHR ''i'', CHR ''I'', CHR ''q'', CHR ''Q'', CHR ''f'', CHR ''d''}"
  by (auto simp: FORMAT_MAP_def split: if_splits)

lemma quiet32_range: "0 \<le> f \<Longrightarrow> f < 2 ^ 23 \<Longrightarrow> 2 ^ 22 \<le> quiet32 f \<and> quiet32 f < 2 ^ 23"
  by (simp add: quiet32_def)

lemma single_of_double_range:
  assumes "single_of_double w = Some s" shows "0 \<le> s \<and> s < 2 ^ 32"
proof -
  have m: "0 \<le> mag64 w" "mag64 w < 2 ^ 63" using mag64_range by simp_all
  then have f: "0 \<le> (mag64 w - inf64) div 2 ^ 29" "(mag64 w - inf64) div 2 ^ 29 < 2 ^ 23" if "inf64 < mag64 w"
    using that by (auto simp: inf64_def div_less_iff_less_mult pos_imp_zdiv_nonneg_iff)
  have "0 \<le> sig_bits 24 (-149) (sig_val 53 (-1074) (mag64 w))"
    using m by (intro f32_bits.sig_bits_nonneg f64_bits.sig_val_nonneg)
  then show ?thesis
    using assms f quiet32_range [of "(mag64 w - inf64) div 2 ^ 29"]
    by (auto simp: single_of_double_def Let_def inf32_def split: if_splits)
qed

lemma rev_rev_if: "(if big then rev else id) ((if big then rev else id) xs) = xs"
  by simp

lemma struct_roundtrip:
  assumes "struct_pack big c v = Inr bs" shows "length bs = code_size c \<and> struct_unpack big c bs = norm_num c v"
proof -
  obtain n where n: "pack_pattern c v = Inr n" and bs: "bs = (if big then rev else id) (le_bytes (code_size c) n)"
    using assms by (auto simp: struct_pack_def split: sum.splits)
  have l: "(if big then rev else id) bs = le_bytes (code_size c) n" by (simp only: bs rev_rev_if)
  have "struct_unpack big c bs = norm_num c v"
  proof -
    consider (d) "c = CHR ''d''" | (f) "c = CHR ''f''" | (int) "c \<noteq> CHR ''d''" "c \<noteq> CHR ''f''" by blast
    then show ?thesis
    proof cases
      case d
      then obtain w where w: "as_double v = Some w" "n = uint w" using n by (auto simp: pack_pattern_def split: option.splits)
      have "uint w mod 256 ^ 8 = uint w" using uint_lt2p [of w] by (intro mod_pos_pos_trivial) simp_all
      then show ?thesis using d w l by (simp add: struct_unpack_def norm_num_def code_size_def le_int_bytes)
    next
      case f
      then obtain w where w: "as_double v = Some w" "single_of_double w = Some n"
        using n by (auto simp: pack_pattern_def split: option.splits)
      have "n mod 256 ^ 4 = n" using single_of_double_range [OF w(2)] by (intro mod_pos_pos_trivial) simp_all
      then show ?thesis using f w l by (simp add: struct_unpack_def norm_num_def code_size_def le_int_bytes)
    next
    case int
    then obtain i where v: "v = PInt i" "n = i" "code_range c i"
      using n by (auto simp: pack_pattern_def split: pynum.splits if_splits)
    have k: "0 < code_size c" by (simp add: code_size_def)
    show ?thesis
    proof (cases "code_signed c")
      case True
      then show ?thesis
        using int l v signed_int_bytes [OF k] by (simp add: struct_unpack_def norm_num_def code_range_def Let_def)
    next
      case unsigned: False
      then have "i mod 256 ^ code_size c = i"
        using v by (intro mod_pos_pos_trivial) (simp_all add: code_range_def power_mult)
      then show ?thesis
        using int unsigned l v by (simp add: struct_unpack_def norm_num_def le_int_bytes Let_def)
    qed
    qed
  qed
  moreover have "length bs = code_size c" by (simp add: bs)
  ultimately show ?thesis by simp
qed

lemma pack_unpack:
  assumes "pack h v dtype = Inr bs" "dict_get FORMAT_MAP dtype = Some c"
  shows "length bs = code_size c \<and> unpack h bs dtype = Inr (norm_num c v)"
proof -
  have "dict_get SIZE_MAP dtype = Some (code_size c)" using SIZE_MAP_FORMAT [of dtype] assms(2) by simp
  moreover have "struct_pack (big_prefix h) c v = Inr bs" using assms by (auto simp: pack_def split: sum.splits)
  ultimately show ?thesis using assms(2) struct_roundtrip [of "big_prefix h" c v bs] by (simp add: unpack_def)
qed

section \<open>Messages\<close>

datatype item =
    UInt8 pynum | UInt16 pynum | UInt32 pynum | UInt64 pynum | Int64 pynum | Float64 pynum | Str "nat list"

fun write_item :: "item \<Rightarrow> protocol \<Rightarrow> exn option \<times> protocol" where
  "write_item (UInt8 v) = write_uint8 v"
| "write_item (UInt16 v) = write_uint16 v"
| "write_item (UInt32 v) = write_uint32 v"
| "write_item (UInt64 v) = write_uint64 v"
| "write_item (Int64 v) = write_int64 v"
| "write_item (Float64 v) = write_float64 v"
| "write_item (Str s) = write_string s"

text \<open>Reading an item of the same kind.\<close>

fun read_item :: "item \<Rightarrow> int \<Rightarrow> protocol \<Rightarrow> exn + item \<times> int" where
  "read_item (UInt8 _) off p = map_sum id (map_prod UInt8 id) (read_uint8 off p)"
| "read_item (UInt16 _) off p = map_sum id (map_prod UInt16 id) (read_uint16 off p)"
| "read_item (UInt32 _) off p = map_sum id (map_prod UInt32 id) (read_uint32 off p)"
| "read_item (UInt64 _) off p = map_sum id (map_prod UInt64 id) (read_uint64 off p)"
| "read_item (Int64 _) off p = map_sum id (map_prod Int64 id) (read_int64 off p)"
| "read_item (Float64 _) off p = map_sum id (map_prod Float64 id) (read_float64 off p)"
| "read_item (Str _) off p = map_sum id (map_prod Str id) (read_string off p)"

fun write_items :: "item list \<Rightarrow> protocol \<Rightarrow> exn option \<times> protocol" where
  "write_items [] p = (None, p)"
| "write_items (x # xs) p = (case write_item x p of (Some e, p1) \<Rightarrow> (Some e, p1) | (None, p1) \<Rightarrow> write_items xs p1)"

fun read_items :: "item list \<Rightarrow> int \<Rightarrow> protocol \<Rightarrow> exn + item list \<times> int" where
  "read_items [] off p = Inr ([], off)"
| "read_items (x # xs) off p =
     (case read_item x off p of
        Inl e \<Rightarrow> Inl e
      | Inr (y, off1) \<Rightarrow> map_sum id (map_prod (\<lambda>ys. y # ys) id) (read_items xs off1 p))"

fun norm_item :: "item \<Rightarrow> item" where
  "norm_item (Float64 v) = Float64 (norm_num (CHR ''d'') v)"
| "norm_item x = x"

lemma write_num_appends:
  assumes "write_num dtype v p = (None, p1)" "dict_get FORMAT_MAP dtype = Some c"
  shows "\<exists>bs. length bs = code_size c \<and> p1 = p\<lparr>buffer := buffer p @ bs\<rparr> \<and>
    unpack (endianness p) bs dtype = Inr (norm_num c v)"
  using assms pack_unpack [OF _ assms(2), of "endianness p" v] by (auto simp: write_num_def split: sum.splits)

lemma read_num_at:
  assumes "buffer p = a @ bs @ z" "length bs = k" "unpack (endianness p) bs dtype = Inr v"
  shows "read_num dtype (int k) (int (length a)) p = Inr (v, int (length a) + int k)"
  using assms py_slice_middle [of a bs z] by (simp add: read_num_def)

lemma write_num_read:
  assumes "write_num dtype v p = (None, p1)" "dict_get FORMAT_MAP dtype = Some c"
    "q = p1\<lparr>buffer := buffer p1 @ z\<rparr>" "int (code_size c) = k"
  shows "\<exists>bs. p1 = p\<lparr>buffer := buffer p @ bs\<rparr> \<and>
    read_num dtype k (int (length (buffer p))) q = Inr (norm_num c v, int (length (buffer p1)))"
proof -
  obtain bs where bs: "length bs = code_size c" "p1 = p\<lparr>buffer := buffer p @ bs\<rparr>"
    "unpack (endianness p) bs dtype = Inr (norm_num c v)" using write_num_appends [OF assms(1,2)] by blast
  then have "read_num dtype k (int (length (buffer p))) q = Inr (norm_num c v, int (length (buffer p)) + k)"
    using assms(3,4) read_num_at [of q "buffer p" bs z "code_size c" dtype] by simp
  with bs assms(4) show ?thesis by auto
qed

text \<open>Reading an item where it was written gives it back and goes on behind it, whatever was written later.\<close>

lemma write_item_read:
  assumes "write_item x p = (None, p1)" "q = p1\<lparr>buffer := buffer p1 @ z\<rparr>"
  shows "(\<exists>bs. p1 = p\<lparr>buffer := buffer p @ bs\<rparr>) \<and>
    read_item x (int (length (buffer p))) q = Inr (norm_item x, int (length (buffer p1)))"
proof (cases x)
  case (Str s)
  then obtain bs p0 where e: "utf8_encode s = Some bs" and w: "write_uint32 (PInt (int (length bs))) p = (None, p0)"
    and p1: "p1 = p0\<lparr>buffer := buffer p0 @ map of_nat bs\<rparr>"
    using assms(1) by (auto simp: write_string_def split: option.splits prod.splits)
  have "q = p0\<lparr>buffer := buffer p0 @ (map of_nat bs @ z)\<rparr>" by (simp add: assms(2) p1)
  then obtain ls where l: "p0 = p\<lparr>buffer := buffer p @ ls\<rparr>"
    "read_uint32 (int (length (buffer p))) q = Inr (PInt (int (length bs)), int (length (buffer p0)))"
    using write_num_read [OF w [unfolded write_uint32_def], of "CHR ''I''" q "map of_nat bs @ z" 4]
    by (auto simp: read_uint32_def FORMAT_MAP_def code_size_def norm_num_def)
  have "py_slice (int (length (buffer p0))) (int (length (buffer p0)) + int (length bs)) (buffer q) = map of_nat bs"
    using py_slice_middle [of "buffer p0" "map of_nat bs" z] by (simp add: assms(2) p1)
  then show ?thesis
    using l utf8_roundtrip [OF e] unat_of_bytes [OF utf8_bytes [OF e]]
    by (auto simp: Str read_string_def p1)
qed (use assms write_num_read [of _ _ p p1 _ q z] in
  \<open>force simp: write_uint8_def write_uint16_def write_uint32_def write_uint64_def write_int64_def write_float64_def
    read_uint8_def read_uint16_def read_uint32_def read_uint64_def read_int64_def read_float64_def
    FORMAT_MAP_def code_size_def norm_num_def\<close>)+

lemma write_items_appends: "write_items xs p = (None, p1) \<Longrightarrow> \<exists>bs. p1 = p\<lparr>buffer := buffer p @ bs\<rparr>"
proof (induction xs arbitrary: p)
  case (Cons x xs)
  then obtain p0 where w: "write_item x p = (None, p0)" "write_items xs p0 = (None, p1)"
    by (auto split: prod.splits option.splits)
  obtain a b where "p0 = p\<lparr>buffer := buffer p @ a\<rparr>" "p1 = p0\<lparr>buffer := buffer p0 @ b\<rparr>"
    using Cons.IH [OF w(2)] write_item_read [OF w(1) refl] by blast
  then show ?case by (intro exI [of _ "a @ b"]) simp
qed (intro exI [of _ "[]"], simp)

text \<open>C19: A message that was written is read back: whatever the order of the fields and whatever the buffer held before, the
  same sequence of read calls from the offset where writing began returns the values, with integers given to
  \<open>write_float64\<close> as floats, and ends at the end of the buffer.\<close>
theorem message_roundtrip:
  assumes "write_items xs p = (None, p1)"
  shows "read_items xs (int (length (buffer p))) p1 = Inr (map norm_item xs, int (length (buffer p1)))"
  using assms
proof (induction xs arbitrary: p)
  case (Cons x xs)
  then obtain p0 where w: "write_item x p = (None, p0)" "write_items xs p0 = (None, p1)"
    by (auto split: prod.splits option.splits)
  obtain z where z: "p1 = p0\<lparr>buffer := buffer p0 @ z\<rparr>" using write_items_appends [OF w(2)] by blast
  show ?case using write_item_read [OF w(1) z] Cons.IH [OF w(2)] by simp
qed simp

definition demo_message :: "item list" where
  "demo_message = [UInt16 (PInt 513), Int64 (PInt (- 2)), Str [66, 8364], UInt8 (PInt 7)]"

theorem message_roundtrip_witness:
  "\<exists>p1. write_items demo_message (protocol_init True) = (None, p1) \<and>
    get_buffer p1 = [2, 1, 255, 255, 255, 255, 255, 255, 255, 254, 0, 0, 0, 4, 66, 226, 130, 172, 7] \<and>
    read_items demo_message 0 p1 = Inr (demo_message, 19)"
proof -
  have "fst (write_items demo_message (protocol_init True)) = None"
    "buffer (snd (write_items demo_message (protocol_init True))) =
      [2, 1, 255, 255, 255, 255, 255, 255, 255, 254, 0, 0, 0, 4, 66, 226, 130, 172, 7]"
    by code_simp+
  then obtain p1 where p: "write_items demo_message (protocol_init True) = (None, p1)"
    "buffer p1 = [2, 1, 255, 255, 255, 255, 255, 255, 255, 254, 0, 0, 0, 4, 66, 226, 130, 172, 7]"
    by (metis prod.collapse)
  have "map norm_item demo_message = demo_message" by (simp add: demo_message_def)
  then show ?thesis using p message_roundtrip [OF p(1)] by (simp add: get_buffer_def protocol_init_def)
qed

text \<open>A finite \<open>float\<close> that goes through a \<open>float32\<close> field comes back as the nearest number of 24
  significant bits (ties to even, gradual underflow), with its sign; packing it fails only if that
  number is too large.\<close>
theorem float32_rounds_once:
  assumes "finite64 w"
  shows "case pack h (PFloat w) ''float32'' of
      Inl e \<Rightarrow> e = OtherError ''OverflowError'' \<and> inf32 \<le> sig_bits 24 (-149) \<bar>value64 w\<bar>
    | Inr bs \<Rightarrow> \<exists>v. unpack h bs ''float32'' = Inr (PFloat v) \<and> finite64 v \<and> neg64 v = neg64 w \<and>
        value64 v = rnd 2 24 (-149) (value64 w)"
proof -
  let ?x = "sig_val 53 (-1074) (mag64 w)" let ?b = "sig_bits 24 (-149) ?x"
  have x: "0 \<le> ?x" using mag64_range by (intro f64_bits.sig_val_nonneg) simp
  have b: "0 \<le> ?b" by (rule f32_bits.sig_bits_nonneg [OF x])
  have a: "\<bar>value64 w\<bar> = ?x" using x by (simp add: value64_def abs_mult)
  have f: "dict_get FORMAT_MAP ''float32'' = Some (CHR ''f'')" by (simp add: FORMAT_MAP_def)
  have s: "single_of_double w = (if ?b < inf32 then Some ((if neg64 w then 2 ^ 31 else 0) + ?b) else None)"
    using assms by (simp add: single_of_double_def finite64_def Let_def)
  show ?thesis
  proof (cases "?b < inf32")
    case False
    then show ?thesis
      using s f a by (simp add: pack_def struct_pack_def pack_pattern_def as_double_def as_value_error_def)
  next
    case True
    let ?s = "(if neg64 w then 2 ^ 31 else 0) + ?b" let ?B = "sig_bits 53 (-1074) (sig_val 24 (-149) ?b)"
    have B: "0 \<le> ?B" "?B < inf64" using widened_pattern [OF b True] by simp_all
    have "?s mod 2 ^ 31 = ?b" "(2 ^ 31 \<le> ?s) = neg64 w" using b True by (simp_all add: inf32_def)
    then have d: "double_of_single ?s = make64 (neg64 w) ?B" using True by (simp add: double_of_single_def Let_def)
    have "?B < 2 ^ 63" using B(2) by (simp add: inf64_def)
    note parts = make64_parts [OF B(1) this]
    have "sig_val 53 (-1074) ?B = rnd 2 24 (-149) ?x"
      using single_in_double [OF b] f32_bits.sig_val_bits [OF x] by simp
    then have v: "value64 (double_of_single ?s) = rnd 2 24 (-149) (value64 w)"
      by (simp add: value64_def d parts f32_bits.rnd_minus)
    obtain bs where p: "pack h (PFloat w) ''float32'' = Inr bs"
      using s True f by (auto simp: pack_def struct_pack_def pack_pattern_def as_double_def)
    have "unpack h bs ''float32'' = Inr (PFloat (double_of_single ?s))"
      using pack_unpack [OF p f] s True by (simp add: norm_num_def as_double_def)
    then show ?thesis using p v B(2) by (simp add: d parts finite64_def)
  qed
qed

theorem float32_rounds_once_witness:
  "\<exists>bs v. pack (handler_init True BIG_ENDIAN) (PFloat 0xBFF8000000000000) ''float32'' = Inr bs \<and>
    unpack (handler_init True BIG_ENDIAN) bs ''float32'' = Inr (PFloat v) \<and>
    value64 v = rnd 2 24 (-149) (- 3 / 2)"
proof -
  have f: "finite64 0xBFF8000000000000" and v: "value64 0xBFF8000000000000 = - 3 / 2" by code_simp+
  have "sig_bits 24 (-149) (3 / 2) < inf32"
    using f32_bits.sig_bits_le [of "3 / 2" 1] by (simp add: inf32_def)
  then show ?thesis
    using float32_rounds_once [OF f, of "handler_init True BIG_ENDIAN"] by (auto simp: v split: sum.splits)
qed

text \<open>Unpacking loses nothing for the integer types and \<open>float64\<close>: any byte string of the size of the type unpacks
  to a value, and packing that value gives the same bytes, for either byte order. Any other length is a \<open>ValueError\<close>.\<close>
theorem unpack_pack_bytes:
  assumes "dtype \<in> set (dict_keys FORMAT_MAP)" "dtype \<noteq> ''float32''"
  shows "case unpack h bs dtype of
      Inl e \<Rightarrow> e = ValueError \<and> dict_get SIZE_MAP dtype \<noteq> Some (length bs)
    | Inr v \<Rightarrow> dict_get SIZE_MAP dtype = Some (length bs) \<and> pack h v dtype = Inr bs"
proof -
  obtain c where c: "dict_get FORMAT_MAP dtype = Some c"
    using assms(1) by (auto simp: FORMAT_MAP_def split: if_splits)
  have z: "dict_get SIZE_MAP dtype = Some (code_size c)" using SIZE_MAP_FORMAT [of dtype] c by simp
  have nf: "c \<noteq> CHR ''f''" using c assms(2) by (auto simp: FORMAT_MAP_def split: if_splits)
  have "struct_pack (big_prefix h) c (struct_unpack (big_prefix h) c bs) = Inr bs" if l: "length bs = code_size c"
  proof -
    let ?bs = "(if big_prefix h then rev else id) bs"
    have ne: "?bs \<noteq> []" and lb: "length ?bs = code_size c" using l by (auto simp: code_size_def split: if_splits)
    have r: "(if big_prefix h then rev else id) ?bs = bs" by simp
    consider (d) "c = CHR ''d''" | (s) "c \<noteq> CHR ''d''" "code_signed c" | (u) "c \<noteq> CHR ''d''" "\<not> code_signed c" by blast
    then show ?thesis
    proof cases
      case d
      have "uint (word_of_int (le_int ?bs) :: 64 word) = le_int ?bs mod 2 ^ 64"
        by (simp only: unsigned_of_int take_bit_eq_mod) simp
      also have "\<dots> = le_int ?bs"
        using le_int_range [of ?bs] lb d by (intro mod_pos_pos_trivial) (simp_all add: code_size_def)
      finally show ?thesis
        using d r lb le_bytes_int [of ?bs] by (simp add: struct_pack_def struct_unpack_def pack_pattern_def as_double_def Let_def)
    next
      case s
      then show ?thesis
        using nf r lb le_bytes_signed [OF ne] signed_int_range [OF ne]
        by (simp add: struct_pack_def struct_unpack_def pack_pattern_def code_range_def Let_def)
    next
      case u
      then show ?thesis
        using nf r lb le_bytes_int [of ?bs] le_int_range [of ?bs]
        by (simp add: struct_pack_def struct_unpack_def pack_pattern_def code_range_def power_mult Let_def)
    qed
  qed
  then show ?thesis using c z by (simp add: unpack_def pack_def)
qed

theorem unpack_pack_bytes_witness:
  "unpack (handler_init True LITTLE_ENDIAN) [254, 255] ''int16'' = Inr (PInt (- 2)) \<and>
    pack (handler_init True LITTLE_ENDIAN) (PInt (- 2)) ''int16'' = Inr [254, 255]"
proof -
  have "unpack (handler_init True LITTLE_ENDIAN) [254, 255] ''int16'' = Inr (PInt (- 2))" by code_simp
  moreover have "''int16'' \<in> set (dict_keys FORMAT_MAP)" "''int16'' \<noteq> ''float32''" by (simp_all add: FORMAT_MAP_def)
  ultimately show ?thesis using unpack_pack_bytes [of "''int16''" "[254, 255]" "handler_init True LITTLE_ENDIAN"] by simp
qed

lemma reverse_elements_Cons:
  assumes "length a = k" "0 < k" shows "reverse_elements k (a @ b) = rev a @ reverse_elements k b"
  using assms by (subst reverse_elements.simps) auto

lemma reverse_elements_Nil [simp]: "reverse_elements k [] = []"
  by (subst reverse_elements.simps) simp

lemma code_size_pos: "0 < code_size c"
  by (simp add: code_size_def)

lemma pack_elements_both_orders:
  assumes "pack_elements False c vs = Inr host"
  shows "pack_elements True c vs = Inr (reverse_elements (code_size c) host) \<and>
    reverse_elements (code_size c) (reverse_elements (code_size c) host) = host"
  using assms
proof (induction vs arbitrary: host)
  case (Cons v vs)
  then obtain bs r where p: "struct_pack False c v = Inr bs" "pack_elements False c vs = Inr r" "host = bs @ r"
    by (auto split: sum.splits)
  have l: "length bs = code_size c" using struct_roundtrip [OF p(1)] by simp
  have "struct_pack True c v = Inr (rev bs)" using p(1) by (auto simp: struct_pack_def split: sum.splits)
  then show ?case
    using Cons.IH [OF p(2)] p(3) l reverse_elements_Cons [OF _ code_size_pos] by simp
qed simp

text \<open>Converting what was packed in the order of the host into network order gives exactly what a big-endian handler
  packs from the same values, and converting that back restores the bytes of the host, on machines of either byte order.\<close>
theorem network_order_is_big_endian:
  assumes "pack_array (handler_init little (get_system_byte_order little)) vs dtype = Inr host"
    "dtype \<in> set (dict_keys SIZE_MAP)"
  shows "\<exists>net. pack_array (handler_init little BIG_ENDIAN) vs dtype = Inr net \<and>
    convert_to_network_order (handler_init little BIG_ENDIAN) host dtype = Inr net \<and>
    convert_from_network_order (handler_init little order) net dtype = Inr host"
proof (cases little)
  case False
  then show ?thesis
    using assms(1) by (simp add: convert_to_network_order_def convert_from_network_order_def handler_init_def
        get_system_byte_order_def)
next
  case True
  obtain c where c: "dict_get FORMAT_MAP dtype = Some c"
    using assms(2) by (auto simp: FORMAT_MAP_def SIZE_MAP_def split: if_splits)
  have z: "dict_get SIZE_MAP dtype = Some (code_size c)" using SIZE_MAP_FORMAT [of dtype] c by simp
  have "pack_elements False c vs = Inr host"
    using assms(1) True c
    by (auto simp: pack_array_def handler_init_def big_prefix_def get_system_byte_order_def split: if_splits sum.splits)
  from pack_elements_both_orders [OF this] show ?thesis
    using True c z by (auto simp: pack_array_def convert_to_network_order_def convert_from_network_order_def
        handler_init_def big_prefix_def get_system_byte_order_def)
qed

theorem network_order_is_big_endian_witness:
  "pack_array (handler_init True LITTLE_ENDIAN) [PInt 1, PInt 258] ''uint16'' = Inr [1, 0, 2, 1] \<and>
    convert_to_network_order (handler_init True BIG_ENDIAN) [1, 0, 2, 1] ''uint16'' =
      pack_array (handler_init True BIG_ENDIAN) [PInt 1, PInt 258] ''uint16''"
proof -
  have "pack_array (handler_init True (get_system_byte_order True)) [PInt 1, PInt 258] ''uint16'' = Inr [1, 0, 2, 1]"
    by code_simp
  moreover have "''uint16'' \<in> set (dict_keys SIZE_MAP)" by (simp add: SIZE_MAP_def)
  ultimately obtain net where "pack_array (handler_init True BIG_ENDIAN) [PInt 1, PInt 258] ''uint16'' = Inr net"
    "convert_to_network_order (handler_init True BIG_ENDIAN) [1, 0, 2, 1] ''uint16'' = Inr net"
    "pack_array (handler_init True LITTLE_ENDIAN) [PInt 1, PInt 258] ''uint16'' = Inr [1, 0, 2, 1]"
    using network_order_is_big_endian [of True "[PInt 1, PInt 258]" "''uint16''" "[1, 0, 2, 1]" BIG_ENDIAN]
    by (auto simp: get_system_byte_order_def)
  then show ?thesis by simp
qed

text \<open>A string whose length prefix exceeds what is left in the buffer is not refused: the rest of the buffer comes back as the
  string and the new offset points past the end.\<close>
theorem truncated_string_accepted:
  assumes "pack (endianness p) (PInt (int n)) ''uint32'' = Inr ls" "buffer p = a @ ls @ rest" "length rest < n"
    "utf8_decode (map unat rest) = Some s"
  shows "read_string (int (length a)) p = Inr (s, int (length a) + 4 + int n) \<and>
    int (buffer_len p) < int (length a) + 4 + int n"
proof -
  have f: "dict_get FORMAT_MAP ''uint32'' = Some (CHR ''I'')" by (simp add: FORMAT_MAP_def)
  have u: "length ls = 4" "unpack (endianness p) ls ''uint32'' = Inr (PInt (int n))"
    using pack_unpack [OF assms(1) f] by (simp_all add: code_size_def norm_num_def)
  then have "read_uint32 (int (length a)) p = Inr (PInt (int n), int (length a) + 4)"
    using read_num_at [OF assms(2) u(1)] by (simp add: read_uint32_def)
  moreover have "py_slice (int (length a) + 4) (int (length a) + 4 + int n) (buffer p) = rest"
    using py_slice_past_end [of rest n "a @ ls"] assms(2,3) u(1) by (simp add: add.assoc)
  ultimately show ?thesis using assms(2-4) u(1) by (simp add: read_string_def buffer_len_def)
qed

theorem truncated_string_accepted_witness:
  "\<exists>p1. write_string [66, 84, 67] (protocol_init True) = (None, p1) \<and>
    read_string 0 (p1\<lparr>buffer := take 5 (buffer p1)\<rparr>) = Inr ([66], 7)"
proof -
  have "fst (write_string [66, 84, 67] (protocol_init True)) = None"
    "buffer (snd (write_string [66, 84, 67] (protocol_init True))) = [0, 0, 0, 3, 66, 84, 67]"
    "endianness (snd (write_string [66, 84, 67] (protocol_init True))) = handler_init True BIG_ENDIAN"
    "pack (handler_init True BIG_ENDIAN) (PInt (int 3)) ''uint32'' = Inr [0, 0, 0, 3]"
    "utf8_decode (map unat [66 :: 8 word]) = Some [66]"
    by code_simp+
  then obtain p1 where p: "write_string [66, 84, 67] (protocol_init True) = (None, p1)"
    "buffer p1 = [0, 0, 0, 3, 66, 84, 67]" "endianness p1 = handler_init True BIG_ENDIAN"
    "pack (handler_init True BIG_ENDIAN) (PInt (int 3)) ''uint32'' = Inr [0, 0, 0, 3]"
    "utf8_decode (map unat [66 :: 8 word]) = Some [66]"
    by (metis prod.collapse)
  let ?q = "p1\<lparr>buffer := take 5 (buffer p1)\<rparr>"
  have "read_string (int (length ([] :: bytes))) ?q = Inr ([66], int (length ([] :: bytes)) + 4 + int 3)"
    using p by (intro truncated_string_accepted [of ?q 3 "[0, 0, 0, 3]" "[]" "[66]", THEN conjunct1]) simp_all
  with p(1) show ?thesis by auto
qed

lemma max_survives_int:
  assumes "dict_get FORMAT_MAP dtype = Some c" "c \<notin> {CHR ''f'', CHR ''d''}" "code_range c n"
  shows "max_survives h n dtype"
proof -
  obtain bs where p: "pack h (PInt n) dtype = Inr bs"
    using assms by (simp add: pack_def struct_pack_def pack_pattern_def)
  show ?thesis using pack_unpack [OF p assms(1)] p assms(2) by (simp add: max_survives_def norm_num_def)
qed

text \<open>The self-test of the module never fails.\<close>

lemma sign_extension_self_test: "test_sign_extension_prevention sys_little = None"
  using max_survives_int [of "''uint16''" "CHR ''H''" "0xFFFF"] max_survives_int [of "''uint32''" "CHR ''I''" "0xFFFFFFFF"]
    max_survives_int [of "''uint64''" "CHR ''Q''" "0xFFFFFFFFFFFFFFFF"]
  by (simp add: test_sign_extension_prevention_def FORMAT_MAP_def code_range_def code_signed_def code_size_def)

end
