(* ===== verification/ReadModel.thy ===== *)
theory ReadModel
  imports Prelude "HOL-Library.Multiset"
begin

text \<open>
  \<open>backend/cqrs/read_model_builder.py\<close>: the read side of the CQRS part. \<open>positions_view\<close> and
  \<open>orders_view\<close> are the two views, \<open>builder\<close> is \<open>ReadModelBuilder\<close>; \<open>store_from\<close> is the query of
  \<open>cqrs/event_store.rs\<close> a rebuild uses.

  The payload of an event has the keys the views read; symbols, order ids and sides are strings or
  absent, quantities and prices are any JSON value. \<open>float\<close> of a string is the parameter \<open>parse\<close>. Each call
  may read the clock several times: \<open>clk i\<close> is reading \<open>i\<close>. A payload in the store is a byte string, decoded by the
  parameter \<open>decode\<close>. The locks make each call atomic.
\<close>

section \<open>Events\<close>

record payload =
  p_symbol :: "string option"
  p_order_id :: "string option"
  p_side :: "string option"
  p_quantity :: "json option"
  p_price :: "json option"

record event =
  event_type :: "string option"
  e_payload :: payload
  sequence :: int

definition empty_payload :: payload where
  "empty_payload = \<lparr>p_symbol = None, p_order_id = None, p_side = None, p_quantity = None, p_price = None\<rparr>"

text \<open>\<open>float(x)\<close>\<close>

fun to_float :: "(string \<Rightarrow> exn + pyfloat) \<Rightarrow> json \<Rightarrow> exn + pyfloat" where
  "to_float parse (JInt n) = Inr (fl (of_int n))"
| "to_float parse (JFloat x) = Inr x"
| "to_float parse (JBool b) = Inr (if b then 1 else 0)"
| "to_float parse (JStr s) = parse s"
| "to_float parse _ = Inl (OtherError ''TypeError'')"

definition float_field :: "(string \<Rightarrow> exn + pyfloat) \<Rightarrow> json option \<Rightarrow> exn + pyfloat" where
  "float_field parse x = (case x of None \<Rightarrow> Inr 0 | Some j \<Rightarrow> to_float parse j)"

datatype ViewType = POSITIONS | ORDERS | PNLEDGER | PORTFOLIO | RISK_METRICS | MARKET_STATE

fun view_type_value :: "ViewType \<Rightarrow> string" where
  "view_type_value POSITIONS = ''positions''"
| "view_type_value ORDERS = ''orders''"
| "view_type_value PNLEDGER = ''pnl_ledger''"
| "view_type_value PORTFOLIO = ''portfolio''"
| "view_type_value RISK_METRICS = ''risk_metrics''"
| "view_type_value MARKET_STATE = ''market_state''"

record ViewMetadata =
  meta_view_type :: ViewType
  last_event_sequence :: int
  meta_last_updated :: int
  event_count :: int
  rebuild_time_ms :: pyfloat

definition new_metadata :: "ViewType \<Rightarrow> int \<Rightarrow> ViewMetadata" where
  "new_metadata vt now = \<lparr>meta_view_type = vt, last_event_sequence = 0, meta_last_updated = now, event_count = 0, rebuild_time_ms = 0\<rparr>"

section \<open>The positions view\<close>

record PositionState =
  symbol :: string
  quantity :: pyfloat
  average_price :: pyfloat
  unrealized_pnl :: pyfloat
  realized_pnl :: pyfloat
  last_price :: pyfloat
  open_orders_count :: int
  last_updated :: int

definition new_position :: "string \<Rightarrow> int \<Rightarrow> PositionState" where
  "new_position sy now =
     \<lparr>symbol = sy, quantity = 0, average_price = 0, unrealized_pnl = 0, realized_pnl = 0, last_price = 0,
      open_orders_count = 0, last_updated = now\<rparr>"

definition position_to_dict :: "(int \<Rightarrow> string) \<Rightarrow> PositionState \<Rightarrow> (string, json) dict" where
  "position_to_dict fmt p =
     [(''symbol'', JStr (symbol p)), (''quantity'', JFloat (quantity p)), (''average_price'', JFloat (average_price p)),
      (''unrealized_pnl'', JFloat (unrealized_pnl p)), (''realized_pnl'', JFloat (realized_pnl p)),
      (''last_price'', JFloat (last_price p)), (''open_orders_count'', JInt (open_orders_count p)),
      (''last_updated'', JStr (fmt (last_updated p)))]"

record positions_view =
  positions :: "(string, PositionState) dict"
  p_metadata :: ViewMetadata

definition positions_init :: "int \<Rightarrow> positions_view" where
  "positions_init now = \<lparr>positions = [], p_metadata = new_metadata POSITIONS now\<rparr>"

definition fill_position :: "string \<Rightarrow> pyfloat \<Rightarrow> pyfloat \<Rightarrow> int \<Rightarrow> PositionState \<Rightarrow> PositionState" where
  "fill_position side q x now p =
     (let p1 =
        (if side = ''buy'' then
           (let total_cost = fadd (fmul (quantity p) (average_price p)) (fmul q x); q1 = fadd (quantity p) q
            in p\<lparr>quantity := q1, average_price := if q1 > 0 then fdiv total_cost q1 else average_price p\<rparr>)
         else if quantity p > 0 then
           (let sell_quantity = min q (quantity p); pnl = fmul (fsub x (average_price p)) sell_quantity
            in p\<lparr>realized_pnl := fadd (realized_pnl p) pnl, quantity := fsub (quantity p) sell_quantity\<rparr>)
         else p)
      in p1\<lparr>last_price := x, last_updated := now\<rparr>)"

definition handle_fill ::
  "(string \<Rightarrow> exn + pyfloat) \<Rightarrow> (nat \<Rightarrow> int) \<Rightarrow> payload \<Rightarrow> positions_view \<Rightarrow> exn option \<times> positions_view" where
  "handle_fill parse clk pl v =
     (if \<not> truthy_str (p_symbol pl) then (None, v)
      else
        (let sy = the (p_symbol pl); side = (case p_side pl of None \<Rightarrow> ''buy'' | Some s \<Rightarrow> s)
         in case float_field parse (p_quantity pl) of
              Inl e \<Rightarrow> (Some e, v)
            | Inr q \<Rightarrow>
                (case float_field parse (p_price pl) of
                   Inl e \<Rightarrow> (Some e, v)
                 | Inr x \<Rightarrow>
                     (let p = (case dict_get (positions v) sy of None \<Rightarrow> new_position sy (clk 0) | Some p \<Rightarrow> p)
                      in (None, v\<lparr>positions := dict_set sy (fill_position side q x (clk 1) p) (positions v)\<rparr>)))))"

text \<open>An update of the position of the symbol, when there is one.\<close>

definition on_position :: "payload \<Rightarrow> (PositionState \<Rightarrow> PositionState) \<Rightarrow> positions_view \<Rightarrow> positions_view" where
  "on_position pl f v =
     (if \<not> truthy_str (p_symbol pl) then v
      else case dict_get (positions v) (the (p_symbol pl)) of
             None \<Rightarrow> v
           | Some p \<Rightarrow> v\<lparr>positions := dict_set (the (p_symbol pl)) (f p) (positions v)\<rparr>)"

definition handle_close :: "(nat \<Rightarrow> int) \<Rightarrow> payload \<Rightarrow> positions_view \<Rightarrow> positions_view" where
  "handle_close clk pl v = on_position pl (\<lambda>p. p\<lparr>quantity := 0, unrealized_pnl := 0, last_updated := clk 1\<rparr>) v"

definition tick_position :: "pyfloat \<Rightarrow> int \<Rightarrow> PositionState \<Rightarrow> PositionState" where
  "tick_position x now p =
     p\<lparr>last_price := x,
       unrealized_pnl := if quantity p \<noteq> 0 then fmul (fsub x (average_price p)) (quantity p) else unrealized_pnl p,
       last_updated := now\<rparr>"

definition handle_tick ::
  "(string \<Rightarrow> exn + pyfloat) \<Rightarrow> (nat \<Rightarrow> int) \<Rightarrow> payload \<Rightarrow> positions_view \<Rightarrow> exn option \<times> positions_view" where
  "handle_tick parse clk pl v =
     (case float_field parse (p_price pl) of
        Inl e \<Rightarrow> (Some e, v)
      | Inr x \<Rightarrow> (None, on_position pl (tick_position x (clk 1)) v))"

definition handle_order_placed :: "payload \<Rightarrow> positions_view \<Rightarrow> positions_view" where
  "handle_order_placed pl v = on_position pl (\<lambda>p. p\<lparr>open_orders_count := open_orders_count p + 1\<rparr>) v"

definition handle_order_cancelled :: "payload \<Rightarrow> positions_view \<Rightarrow> positions_view" where
  "handle_order_cancelled pl v = on_position pl (\<lambda>p. p\<lparr>open_orders_count := max 0 (open_orders_count p - 1)\<rparr>) v"

definition positions_dispatch ::
  "(string \<Rightarrow> exn + pyfloat) \<Rightarrow> (nat \<Rightarrow> int) \<Rightarrow> event \<Rightarrow> positions_view \<Rightarrow> exn option \<times> positions_view" where
  "positions_dispatch parse clk ev v =
     (let pl = e_payload ev
      in if event_type ev \<in> {Some ''OrderFilled'', Some ''PositionOpened''} then handle_fill parse clk pl v
         else if event_type ev = Some ''PositionClosed'' then (None, handle_close clk pl v)
         else if event_type ev = Some ''TickReceived'' then handle_tick parse clk pl v
         else if event_type ev = Some ''OrderPlaced'' then (None, handle_order_placed pl v)
         else if event_type ev = Some ''OrderCancelled'' then (None, handle_order_cancelled pl v)
         else (None, v))"

definition count_event :: "int \<Rightarrow> ViewMetadata \<Rightarrow> ViewMetadata" where
  "count_event now m = m\<lparr>event_count := event_count m + 1, meta_last_updated := now\<rparr>"

definition positions_apply_event ::
  "(string \<Rightarrow> exn + pyfloat) \<Rightarrow> (nat \<Rightarrow> int) \<Rightarrow> event \<Rightarrow> positions_view \<Rightarrow> exn option \<times> positions_view" where
  "positions_apply_event parse clk ev v =
     (case positions_dispatch parse clk ev v of
        (Some e, v1) \<Rightarrow> (Some e, v1)
      | (None, v1) \<Rightarrow> (None, v1\<lparr>p_metadata := count_event (clk 2) (p_metadata v1)\<rparr>))"

definition positions_get_state :: "(int \<Rightarrow> string) \<Rightarrow> positions_view \<Rightarrow> (string, (string, json) dict) dict" where
  "positions_get_state fmt v = map (map_prod id (position_to_dict fmt)) (positions v)"

definition get_position :: "string \<Rightarrow> positions_view \<Rightarrow> PositionState option" where
  "get_position sy v = dict_get (positions v) sy"

definition positions_clear :: "int \<Rightarrow> positions_view \<Rightarrow> positions_view" where
  "positions_clear now v =
     v\<lparr>positions := [], p_metadata := (p_metadata v)\<lparr>event_count := 0, meta_last_updated := now\<rparr>\<rparr>"

section \<open>The orders view\<close>

record OrderState =
  order_id :: string
  o_symbol :: string
  o_side :: string
  o_quantity :: pyfloat
  filled_quantity :: pyfloat
  o_price :: json
  status :: string
  created_at :: int
  updated_at :: int

definition order_to_dict :: "(int \<Rightarrow> string) \<Rightarrow> OrderState \<Rightarrow> (string, json) dict" where
  "order_to_dict fmt ord =
     [(''order_id'', JStr (order_id ord)), (''symbol'', JStr (o_symbol ord)), (''side'', JStr (o_side ord)),
      (''quantity'', JFloat (o_quantity ord)), (''filled_quantity'', JFloat (filled_quantity ord)),
      (''price'', o_price ord), (''status'', JStr (status ord)), (''created_at'', JStr (fmt (created_at ord))),
      (''updated_at'', JStr (fmt (updated_at ord)))]"

record orders_view =
  orders :: "(string, OrderState) dict"
  orders_by_symbol :: "(string, string set) dict"
  o_metadata :: ViewMetadata

definition orders_init :: "int \<Rightarrow> orders_view" where
  "orders_init now = \<lparr>orders = [], orders_by_symbol = [], o_metadata = new_metadata ORDERS now\<rparr>"

definition symbol_orders :: "orders_view \<Rightarrow> string \<Rightarrow> string set" where
  "symbol_orders v sy = (case dict_get (orders_by_symbol v) sy of None \<Rightarrow> {} | Some S \<Rightarrow> S)"

definition handle_placed ::
  "(string \<Rightarrow> exn + pyfloat) \<Rightarrow> (nat \<Rightarrow> int) \<Rightarrow> payload \<Rightarrow> orders_view \<Rightarrow> exn option \<times> orders_view" where
  "handle_placed parse clk pl v =
     (if \<not> truthy_str (p_order_id pl) then (None, v)
      else case float_field parse (p_quantity pl) of
             Inl e \<Rightarrow> (Some e, v)
           | Inr q \<Rightarrow>
               (let oid = the (p_order_id pl); sy = (case p_symbol pl of None \<Rightarrow> [] | Some s \<Rightarrow> s);
                    ord = \<lparr>order_id = oid, o_symbol = sy, o_side = (case p_side pl of None \<Rightarrow> ''buy'' | Some s \<Rightarrow> s),
                           o_quantity = q, filled_quantity = 0,
                           o_price = (case p_price pl of None \<Rightarrow> JNull | Some j \<Rightarrow> j), status = ''open'',
                           created_at = clk 3, updated_at = clk 4\<rparr>
                in (None, v\<lparr>orders := dict_set oid ord (orders v),
                            orders_by_symbol := dict_set sy (insert oid (symbol_orders v sy)) (orders_by_symbol v)\<rparr>)))"

definition known_order :: "payload \<Rightarrow> orders_view \<Rightarrow> OrderState option" where
  "known_order pl v = (if truthy_str (p_order_id pl) then dict_get (orders v) (the (p_order_id pl)) else None)"

definition store_order :: "payload \<Rightarrow> OrderState \<Rightarrow> orders_view \<Rightarrow> orders_view" where
  "store_order pl ord v = v\<lparr>orders := dict_set (the (p_order_id pl)) ord (orders v)\<rparr>"

definition handle_filled ::
  "(string \<Rightarrow> exn + pyfloat) \<Rightarrow> (nat \<Rightarrow> int) \<Rightarrow> payload \<Rightarrow> orders_view \<Rightarrow> exn option \<times> orders_view" where
  "handle_filled parse clk pl v =
     (case known_order pl v of
        None \<Rightarrow> (None, v)
      | Some ord \<Rightarrow>
          (case float_field parse (p_quantity pl) of
             Inl e \<Rightarrow> (Some e, v)
           | Inr q \<Rightarrow>
               (let f = fadd (filled_quantity ord) q
                in (None, store_order pl
                      (ord\<lparr>filled_quantity := f, status := if f \<ge> o_quantity ord then ''filled'' else ''partially_filled'',
                           updated_at := clk 5\<rparr>) v))))"

definition handle_cancelled :: "(nat \<Rightarrow> int) \<Rightarrow> payload \<Rightarrow> orders_view \<Rightarrow> orders_view" where
  "handle_cancelled clk pl v =
     (case known_order pl v of
        None \<Rightarrow> v
      | Some ord \<Rightarrow> store_order pl (ord\<lparr>status := ''cancelled'', updated_at := clk 5\<rparr>) v)"

definition handle_modified ::
  "(string \<Rightarrow> exn + pyfloat) \<Rightarrow> (nat \<Rightarrow> int) \<Rightarrow> payload \<Rightarrow> orders_view \<Rightarrow> exn option \<times> orders_view" where
  "handle_modified parse clk pl v =
     (case known_order pl v of
        None \<Rightarrow> (None, v)
      | Some ord \<Rightarrow>
          (case (case p_quantity pl of None \<Rightarrow> Inr (o_quantity ord) | Some j \<Rightarrow> to_float parse j) of
             Inl e \<Rightarrow> (Some e, v)
           | Inr q \<Rightarrow>
               (None, store_order pl
                  (ord\<lparr>o_quantity := q, o_price := (case p_price pl of None \<Rightarrow> o_price ord | Some j \<Rightarrow> j),
                       updated_at := clk 5\<rparr>) v)))"

definition orders_dispatch ::
  "(string \<Rightarrow> exn + pyfloat) \<Rightarrow> (nat \<Rightarrow> int) \<Rightarrow> event \<Rightarrow> orders_view \<Rightarrow> exn option \<times> orders_view" where
  "orders_dispatch parse clk ev v =
     (let pl = e_payload ev
      in if event_type ev = Some ''OrderPlaced'' then handle_placed parse clk pl v
         else if event_type ev = Some ''OrderFilled'' then handle_filled parse clk pl v
         else if event_type ev = Some ''OrderCancelled'' then (None, handle_cancelled clk pl v)
         else if event_type ev = Some ''OrderModified'' then handle_modified parse clk pl v
         else (None, v))"

definition orders_apply_event ::
  "(string \<Rightarrow> exn + pyfloat) \<Rightarrow> (nat \<Rightarrow> int) \<Rightarrow> event \<Rightarrow> orders_view \<Rightarrow> exn option \<times> orders_view" where
  "orders_apply_event parse clk ev v =
     (case orders_dispatch parse clk ev v of
        (Some e, v1) \<Rightarrow> (Some e, v1)
      | (None, v1) \<Rightarrow> (None, v1\<lparr>o_metadata := count_event (clk 6) (o_metadata v1)\<rparr>))"

definition orders_get_state :: "(int \<Rightarrow> string) \<Rightarrow> orders_view \<Rightarrow> (string, (string, json) dict) dict" where
  "orders_get_state fmt v = map (map_prod id (order_to_dict fmt)) (orders v)"

definition get_order :: "string \<Rightarrow> orders_view \<Rightarrow> OrderState option" where
  "get_order oid v = dict_get (orders v) oid"

definition get_orders_by_symbol :: "(string set \<Rightarrow> string list) \<Rightarrow> string \<Rightarrow> orders_view \<Rightarrow> OrderState list" where
  "get_orders_by_symbol ord sy v = List.map_filter (dict_get (orders v)) (ord (symbol_orders v sy))"

definition get_active_orders :: "orders_view \<Rightarrow> OrderState list" where
  "get_active_orders v = filter (\<lambda>ord. status ord \<in> {''open'', ''partially_filled''}) (dict_values (orders v))"

definition orders_clear :: "orders_view \<Rightarrow> orders_view" where
  "orders_clear v = v\<lparr>orders := [], orders_by_symbol := [], o_metadata := (o_metadata v)\<lparr>event_count := 0\<rparr>\<rparr>"

section \<open>The builder\<close>

datatype view = Positions positions_view | Orders orders_view

fun view_kind :: "view \<Rightarrow> ViewType" where
  "view_kind (Positions _) = POSITIONS"
| "view_kind (Orders _) = ORDERS"

fun view_metadata :: "view \<Rightarrow> ViewMetadata" where
  "view_metadata (Positions v) = p_metadata v"
| "view_metadata (Orders v) = o_metadata v"

fun set_rebuild_time :: "pyfloat \<Rightarrow> view \<Rightarrow> view" where
  "set_rebuild_time t (Positions v) = Positions (v\<lparr>p_metadata := (p_metadata v)\<lparr>rebuild_time_ms := t\<rparr>\<rparr>)"
| "set_rebuild_time t (Orders v) = Orders (v\<lparr>o_metadata := (o_metadata v)\<lparr>rebuild_time_ms := t\<rparr>\<rparr>)"

fun apply_event :: "(string \<Rightarrow> exn + pyfloat) \<Rightarrow> (nat \<Rightarrow> int) \<Rightarrow> event \<Rightarrow> view \<Rightarrow> exn option \<times> view" where
  "apply_event parse clk ev (Positions v) = map_prod id Positions (positions_apply_event parse clk ev v)"
| "apply_event parse clk ev (Orders v) = map_prod id Orders (orders_apply_event parse clk ev v)"

fun clear_view :: "int \<Rightarrow> view \<Rightarrow> view" where
  "clear_view now (Positions v) = Positions (positions_clear now v)"
| "clear_view now (Orders v) = Orders (orders_clear v)"

record builder =
  views :: "(ViewType, view) dict"
  last_sequence :: int
  is_running :: bool

definition register_view :: "view \<Rightarrow> builder \<Rightarrow> builder" where
  "register_view v b = b\<lparr>views := dict_set (view_kind v) v (views b)\<rparr>"

definition builder_init :: "int \<Rightarrow> int \<Rightarrow> builder" where
  "builder_init now1 now2 =
     register_view (Orders (orders_init now2))
       (register_view (Positions (positions_init now1)) \<lparr>views = [], last_sequence = 0, is_running = False\<rparr>)"

definition get_view :: "ViewType \<Rightarrow> builder \<Rightarrow> view option" where
  "get_view vt b = dict_get (views b) vt"

definition get_positions_view :: "builder \<Rightarrow> positions_view option" where
  "get_positions_view b = (case get_view POSITIONS b of Some (Positions v) \<Rightarrow> Some v | _ \<Rightarrow> None)"

definition get_orders_view :: "builder \<Rightarrow> orders_view option" where
  "get_orders_view b = (case get_view ORDERS b of Some (Orders v) \<Rightarrow> Some v | _ \<Rightarrow> None)"

text \<open>Every view gets the event until one raises; the views before it keep what they did.\<close>

fun apply_to_views ::
  "(string \<Rightarrow> exn + pyfloat) \<Rightarrow> (nat \<Rightarrow> int) \<Rightarrow> event \<Rightarrow> (ViewType, view) dict \<Rightarrow> exn option \<times> (ViewType, view) dict" where
  "apply_to_views parse clk ev [] = (None, [])"
| "apply_to_views parse clk ev ((vt, v) # vs) =
     (case apply_event parse clk ev v of
        (Some e, v1) \<Rightarrow> (Some e, (vt, v1) # vs)
      | (None, v1) \<Rightarrow> (case apply_to_views parse clk ev vs of (r, vs1) \<Rightarrow> (r, (vt, v1) # vs1)))"

definition project_event ::
  "(string \<Rightarrow> exn + pyfloat) \<Rightarrow> (nat \<Rightarrow> int) \<Rightarrow> event \<Rightarrow> builder \<Rightarrow> exn option \<times> builder" where
  "project_event parse clk ev b =
     (if sequence ev \<le> last_sequence b then (None, b)
      else case apply_to_views parse clk ev (views b) of
             (Some e, vs) \<Rightarrow> (Some e, b\<lparr>views := vs\<rparr>)
           | (None, vs) \<Rightarrow> (None, b\<lparr>views := vs, last_sequence := sequence ev\<rparr>))"

text \<open>The loop over events; \<open>clk s\<close> are the clock readings while the event with sequence number \<open>s\<close> is projected.\<close>

fun project_all ::
  "(string \<Rightarrow> exn + pyfloat) \<Rightarrow> (int \<Rightarrow> nat \<Rightarrow> int) \<Rightarrow> event list \<Rightarrow> builder \<Rightarrow> exn option \<times> builder" where
  "project_all parse clk [] b = (None, b)"
| "project_all parse clk (ev # evs) b =
     (case project_event parse (clk (sequence ev)) ev b of
        (Some e, b1) \<Rightarrow> (Some e, b1)
      | (None, b1) \<Rightarrow> project_all parse clk evs b1)"

definition project_events_batch ::
  "(string \<Rightarrow> exn + pyfloat) \<Rightarrow> (int \<Rightarrow> nat \<Rightarrow> int) \<Rightarrow> event list \<Rightarrow> builder \<Rightarrow> (exn + int) \<times> builder" where
  "project_events_batch parse clk evs b =
     (case project_all parse clk (sort_key sequence evs) b of
        (Some e, b1) \<Rightarrow> (Inl e, b1)
      | (None, b1) \<Rightarrow> (Inr (int (length evs)), b1))"

text \<open>The events of \<open>event_store.rs\<close> from a sequence number on, that one included.\<close>

record 'b stored =
  st_sequence :: int
  st_type :: string
  st_payload :: "'b list"

definition store_from :: "int \<Rightarrow> 'b stored list \<Rightarrow> 'b stored list" where
  "store_from start es = filter (\<lambda>e. start \<le> st_sequence e) es"

definition stored_event :: "('b list \<Rightarrow> exn + payload) \<Rightarrow> 'b stored \<Rightarrow> exn + event" where
  "stored_event decode e =
     (case (if st_payload e = [] then Inr empty_payload else decode (st_payload e)) of
        Inl err \<Rightarrow> Inl err
      | Inr pl \<Rightarrow> Inr \<lparr>event_type = Some (st_type e), e_payload = pl, sequence = st_sequence e\<rparr>)"

fun project_stored ::
  "(string \<Rightarrow> exn + pyfloat) \<Rightarrow> ('b list \<Rightarrow> exn + payload) \<Rightarrow> (int \<Rightarrow> nat \<Rightarrow> int) \<Rightarrow> 'b stored list \<Rightarrow> builder \<Rightarrow> exn option \<times> builder" where
  "project_stored parse decode clk [] b = (None, b)"
| "project_stored parse decode clk (e # es) b =
     (case stored_event decode e of
        Inl err \<Rightarrow> (Some err, b)
      | Inr ev \<Rightarrow>
          (case project_event parse (clk (sequence ev)) ev b of
             (Some err, b1) \<Rightarrow> (Some err, b1)
           | (None, b1) \<Rightarrow> project_stored parse decode clk es b1))"

definition rebuild_from_events ::
  "(string \<Rightarrow> exn + pyfloat) \<Rightarrow> ('b list \<Rightarrow> exn + payload) \<Rightarrow> int \<Rightarrow> (int \<Rightarrow> nat \<Rightarrow> int) \<Rightarrow> pyfloat \<Rightarrow> 'b stored list \<Rightarrow> int \<Rightarrow>
   builder \<Rightarrow> (exn + pyfloat) \<times> builder" where
  "rebuild_from_events parse decode now clk time store start b =
     (let b1 = b\<lparr>views := map (map_prod id (clear_view now)) (views b), last_sequence := start\<rparr>
      in case project_stored parse decode clk (store_from start store) b1 of
           (Some e, b2) \<Rightarrow> (Inl e, b2)
         | (None, b2) \<Rightarrow> (Inr time, b2\<lparr>views := map (map_prod id (set_rebuild_time time)) (views b2)\<rparr>))"

fun view_state :: "(int \<Rightarrow> string) \<Rightarrow> view \<Rightarrow> (string, (string, json) dict) dict" where
  "view_state fmt (Positions v) = positions_get_state fmt v"
| "view_state fmt (Orders v) = orders_get_state fmt v"

definition get_all_states :: "(int \<Rightarrow> string) \<Rightarrow> builder \<Rightarrow> (string \<times> (string, (string, json) dict) dict) list" where
  "get_all_states fmt b = map (map_prod view_type_value (view_state fmt)) (views b)"

datatype query_result =
    Q_Nothing
  | Q_Position PositionState
  | Q_Order OrderState
  | Q_Orders "OrderState list"
  | Q_State "(string, (string, json) dict) dict"

text \<open>The parameters of a query: a symbol and an order id, \<open>None\<close> when not given.\<close>

definition get_query_result :: "(int \<Rightarrow> string) \<Rightarrow> string \<Rightarrow> string option \<Rightarrow> string option \<Rightarrow> builder \<Rightarrow> query_result" where
  "get_query_result fmt query sy oid b =
     (if query = ''get_position'' then
        (case (get_positions_view b, sy) of
           (Some v, Some a) \<Rightarrow> (case get_position a v of None \<Rightarrow> Q_Nothing | Some p \<Rightarrow> Q_Position p)
         | _ \<Rightarrow> Q_Nothing)
      else if query = ''get_order'' then
        (case (get_orders_view b, oid) of
           (Some v, Some a) \<Rightarrow> (case get_order a v of None \<Rightarrow> Q_Nothing | Some p \<Rightarrow> Q_Order p)
         | _ \<Rightarrow> Q_Nothing)
      else if query = ''get_active_orders'' then
        (case get_orders_view b of Some v \<Rightarrow> Q_Orders (get_active_orders v) | None \<Rightarrow> Q_Nothing)
      else if query = ''get_all_positions'' then
        (case get_positions_view b of Some v \<Rightarrow> Q_State (positions_get_state fmt v) | None \<Rightarrow> Q_Nothing)
      else Q_Nothing)"

definition get_metadata :: "builder \<Rightarrow> (string \<times> ViewMetadata) list" where
  "get_metadata b = map (map_prod view_type_value view_metadata) (views b)"

definition shutdown :: "builder \<Rightarrow> builder" where
  "shutdown b = b\<lparr>is_running := False\<rparr>"

section \<open>Equal up to time stamps\<close>

definition erase_position :: "PositionState \<Rightarrow> PositionState" where
  "erase_position p = p\<lparr>last_updated := 0\<rparr>"

definition erase_order :: "OrderState \<Rightarrow> OrderState" where
  "erase_order ord = ord\<lparr>created_at := 0, updated_at := 0\<rparr>"

definition erase_metadata :: "ViewMetadata \<Rightarrow> ViewMetadata" where
  "erase_metadata m = m\<lparr>meta_last_updated := 0, rebuild_time_ms := 0\<rparr>"

definition erase_positions :: "positions_view \<Rightarrow> positions_view" where
  "erase_positions v = v\<lparr>positions := map (map_prod id erase_position) (positions v), p_metadata := erase_metadata (p_metadata v)\<rparr>"

definition erase_orders :: "orders_view \<Rightarrow> orders_view" where
  "erase_orders v = v\<lparr>orders := map (map_prod id erase_order) (orders v), o_metadata := erase_metadata (o_metadata v)\<rparr>"

fun erase_view :: "view \<Rightarrow> view" where
  "erase_view (Positions v) = Positions (erase_positions v)"
| "erase_view (Orders v) = Orders (erase_orders v)"

definition erase_views :: "(ViewType, view) dict \<Rightarrow> (ViewType, view) dict" where
  "erase_views vs = map (map_prod id erase_view) vs"

lemma dict_get_map: "dict_get (map (map_prod id f) d) k = map_option f (dict_get d k)"
  by (induction d) auto

lemma dict_set_map: "map (map_prod id f) (dict_set k v d) = dict_set k (f v) (map (map_prod id f) d)"
  by (induction d) auto

lemma erase_idem [simp]:
  "erase_position (erase_position p) = erase_position p" "erase_order (erase_order d) = erase_order d"
  "erase_metadata (erase_metadata m) = erase_metadata m"
  by (simp_all add: erase_position_def erase_order_def erase_metadata_def)

lemma erase_entry [simp]:
  "map_prod id erase_position (map_prod id erase_position x) = map_prod id erase_position x"
  "map_prod id erase_order (map_prod id erase_order y) = map_prod id erase_order y"
  by (cases x; cases y; simp)+

lemmas erase_simps = erase_positions_def erase_orders_def dict_get_map dict_set_map comp_def Let_def

lemma erase_on_position:
  assumes "\<And>p. erase_position (f p) = erase_position (g (erase_position p))"
  shows "erase_positions (on_position pl f v) = erase_positions (on_position pl g (erase_positions v))"
  by (cases "dict_get (positions v) (the (p_symbol pl))") (simp_all add: on_position_def assms erase_simps)

lemma erase_fill:
  "erase_position (fill_position side q x now p) = erase_position (fill_position side q x 0 (erase_position p))"
  by (simp add: fill_position_def erase_position_def Let_def)

lemma erase_fill_new:
  "erase_position (fill_position side q x now (new_position y t)) = erase_position (fill_position side q x 0 (new_position y 0))"
  by (simp add: fill_position_def erase_position_def new_position_def Let_def)

lemma erase_handle_fill:
  "map_prod id erase_positions (handle_fill parse clk pl v) =
    map_prod id erase_positions (handle_fill parse (\<lambda>_. 0) pl (erase_positions v))"
  using erase_fill_new [of _ _ _ "clk 1" _ "clk 0"] erase_fill [of _ _ _ "clk 1"]
  by (cases "dict_get (positions v) (the (p_symbol pl))") (auto simp: handle_fill_def erase_simps split: sum.split)

lemma erase_positions_dispatch:
  "map_prod id erase_positions (positions_dispatch parse clk ev v) =
    map_prod id erase_positions (positions_dispatch parse (\<lambda>_. 0) ev (erase_positions v))"
  using erase_handle_fill [of parse clk "e_payload ev" v]
  by (auto simp: positions_dispatch_def handle_close_def handle_tick_def handle_order_placed_def handle_order_cancelled_def
      Let_def tick_position_def erase_position_def intro!: erase_on_position split: sum.split)
     (simp_all add: erase_positions_def comp_def)

lemma erase_known_order: "known_order pl (erase_orders v) = map_option erase_order (known_order pl v)"
  by (simp add: known_order_def erase_simps)

lemma erase_store_order:
  "erase_order d = erase_order d' \<Longrightarrow> erase_orders (store_order pl d v) = erase_orders (store_order pl d' (erase_orders v))"
  by (simp add: store_order_def erase_simps)

lemma erase_orders_self: "erase_orders v = erase_orders (erase_orders v)"
  by (simp add: erase_simps)

lemma erase_orders_dispatch:
  "map_prod id erase_orders (orders_dispatch parse clk ev v) =
    map_prod id erase_orders (orders_dispatch parse (\<lambda>_. 0) ev (erase_orders v))"
proof -
  let ?pl = "e_payload ev"
  have a: "map_prod id erase_orders (handle_placed parse clk ?pl v) =
      map_prod id erase_orders (handle_placed parse (\<lambda>_. 0) ?pl (erase_orders v))"
    by (auto simp: handle_placed_def erase_simps symbol_orders_def erase_order_def split: sum.split)
  have b: "map_prod id erase_orders (handle_filled parse clk ?pl v) =
      map_prod id erase_orders (handle_filled parse (\<lambda>_. 0) ?pl (erase_orders v))"
    by (auto simp: handle_filled_def erase_known_order Let_def erase_order_def split: sum.split option.split
        intro: erase_orders_self intro!: erase_store_order)
  have c: "erase_orders (handle_cancelled clk ?pl v) = erase_orders (handle_cancelled (\<lambda>_. 0) ?pl (erase_orders v))"
    by (auto simp: handle_cancelled_def erase_known_order erase_order_def split: option.split
        intro: erase_orders_self intro!: erase_store_order)
  have d: "map_prod id erase_orders (handle_modified parse clk ?pl v) =
      map_prod id erase_orders (handle_modified parse (\<lambda>_. 0) ?pl (erase_orders v))"
    by (auto simp: handle_modified_def erase_known_order erase_order_def split: sum.split option.split
        intro: erase_orders_self intro!: erase_store_order)
  show ?thesis using a b c d erase_orders_self [of v] by (simp add: orders_dispatch_def Let_def)
qed

lemma erase_count: "erase_metadata (count_event now m) = erase_metadata (count_event 0 (erase_metadata m))"
  by (simp add: erase_metadata_def count_event_def)

lemma erase_positions_iff:
  "erase_positions v = erase_positions w \<longleftrightarrow>
    map (map_prod id erase_position) (positions v) = map (map_prod id erase_position) (positions w) \<and>
    erase_metadata (p_metadata v) = erase_metadata (p_metadata w)"
  by (cases v; cases w) (simp add: erase_positions_def)

lemma erase_orders_iff:
  "erase_orders v = erase_orders w \<longleftrightarrow>
    map (map_prod id erase_order) (orders v) = map (map_prod id erase_order) (orders w) \<and>
    orders_by_symbol v = orders_by_symbol w \<and> erase_metadata (o_metadata v) = erase_metadata (o_metadata w)"
  by (cases v; cases w) (simp add: erase_orders_def)

lemma erase_count_eq:
  "erase_metadata m = erase_metadata n \<Longrightarrow> erase_metadata (count_event t m) = erase_metadata (count_event t' n)"
  using erase_count [of t m] erase_count [of t' n] by simp

lemma erase_positions_apply:
  "map_prod id erase_positions (positions_apply_event parse clk ev v) =
    map_prod id erase_positions (positions_apply_event parse (\<lambda>_. 0) ev (erase_positions v))"
proof -
  obtain r v1 where a: "positions_dispatch parse clk ev v = (r, v1)" by force
  obtain r' v2 where b: "positions_dispatch parse (\<lambda>_. 0) ev (erase_positions v) = (r', v2)" by force
  have "r' = r" "erase_positions v1 = erase_positions v2" using erase_positions_dispatch [of parse clk ev v] by (simp_all add: a b)
  then show ?thesis
    by (cases r) (simp_all add: positions_apply_event_def a b erase_positions_iff erase_count_eq)
qed

lemma erase_orders_apply:
  "map_prod id erase_orders (orders_apply_event parse clk ev v) =
    map_prod id erase_orders (orders_apply_event parse (\<lambda>_. 0) ev (erase_orders v))"
proof -
  obtain r v1 where a: "orders_dispatch parse clk ev v = (r, v1)" by force
  obtain r' v2 where b: "orders_dispatch parse (\<lambda>_. 0) ev (erase_orders v) = (r', v2)" by force
  have "r' = r" "erase_orders v1 = erase_orders v2" using erase_orders_dispatch [of parse clk ev v] by (simp_all add: a b)
  then show ?thesis
    by (cases r) (simp_all add: orders_apply_event_def a b erase_orders_iff erase_count_eq)
qed

lemma erase_apply_event:
  "map_prod id erase_view (apply_event parse clk ev v) = map_prod id erase_view (apply_event parse (\<lambda>_. 0) ev (erase_view v))"
proof (cases v)
  case (Positions p)
  then show ?thesis
    using erase_positions_apply [of parse clk ev p]
    by (cases "positions_apply_event parse clk ev p"; cases "positions_apply_event parse (\<lambda>_. 0) ev (erase_positions p)") simp
next
  case (Orders p)
  then show ?thesis
    using erase_orders_apply [of parse clk ev p]
    by (cases "orders_apply_event parse clk ev p"; cases "orders_apply_event parse (\<lambda>_. 0) ev (erase_orders p)") simp
qed

lemma erase_apply_to_views:
  "map_prod id erase_views (apply_to_views parse clk ev vs) =
    map_prod id erase_views (apply_to_views parse (\<lambda>_. 0) ev (erase_views vs))"
proof (induction vs)
  case (Cons x vs)
  obtain vt v where x: "x = (vt, v)" by force
  obtain r v1 where a: "apply_event parse clk ev v = (r, v1)" by force
  obtain r' v2 where b: "apply_event parse (\<lambda>_. 0) ev (erase_view v) = (r', v2)" by force
  have e: "r' = r" "erase_view v1 = erase_view v2" using erase_apply_event [of parse clk ev v] by (simp_all add: a b)
  have idem: "erase_views (erase_views vs) = erase_views vs" for vs
  proof -
    have "erase_view (erase_view w) = erase_view w" for w by (cases w) (simp_all add: erase_simps)
    then show ?thesis by (auto simp: erase_views_def)
  qed
  show ?case
    using Cons e idem [of vs] by (cases r) (auto simp: x a b erase_views_def split: prod.splits)
qed (simp add: erase_views_def)

text \<open>Builders that agree up to time stamps and the events they saw.\<close>

definition same_model :: "builder \<Rightarrow> builder \<Rightarrow> bool" where
  "same_model b c \<longleftrightarrow> erase_views (views b) = erase_views (views c) \<and> last_sequence b = last_sequence c"

lemma project_event_same:
  assumes "same_model b c"
  shows "fst (project_event parse clk ev b) = fst (project_event parse clk' ev c) \<and>
    same_model (snd (project_event parse clk ev b)) (snd (project_event parse clk' ev c))"
proof -
  obtain r vs where a: "apply_to_views parse clk ev (views b) = (r, vs)" by force
  obtain r' ws where b: "apply_to_views parse clk' ev (views c) = (r', ws)" by force
  have "erase_views (views b) = erase_views (views c)" using assms by (simp add: same_model_def)
  then have "map_prod id erase_views (apply_to_views parse clk ev (views b)) =
      map_prod id erase_views (apply_to_views parse clk' ev (views c))"
    using erase_apply_to_views [of parse clk ev "views b"] erase_apply_to_views [of parse clk' ev "views c"]
    by (simp only:)
  then have "r' = r" "erase_views vs = erase_views ws" by (simp_all add: a b)
  then show ?thesis using assms by (cases r) (auto simp: project_event_def same_model_def a b)
qed

lemma project_stored_same:
  assumes "list_all2 (\<lambda>e ev. stored_event decode e = Inr ev) es evs" "same_model b c"
  shows "fst (project_stored parse decode clk es b) = fst (project_all parse clk' evs c) \<and>
    same_model (snd (project_stored parse decode clk es b)) (snd (project_all parse clk' evs c))"
  using assms
proof (induction es evs arbitrary: b c rule: list_all2_induct)
  case (Cons e es ev evs)
  obtain r b1 where a: "project_event parse (clk (sequence ev)) ev b = (r, b1)" by force
  obtain r' c1 where d: "project_event parse (clk' (sequence ev)) ev c = (r', c1)" by force
  have "r' = r" "same_model b1 c1"
    using project_event_same [OF Cons.prems, of parse "clk (sequence ev)" ev "clk' (sequence ev)"] by (simp_all add: a d)
  then show ?case using Cons by (cases r) (simp_all add: a d)
qed simp

section \<open>The invariant of a builder\<close>

definition positions_ok :: "positions_view \<Rightarrow> bool" where
  "positions_ok v \<longleftrightarrow>
     wf_dict (positions v) \<and>
     (\<forall>k p. dict_get (positions v) k = Some p \<longrightarrow> symbol p = k \<and> k \<noteq> [] \<and> 0 \<le> open_orders_count p) \<and>
     meta_view_type (p_metadata v) = POSITIONS \<and> last_event_sequence (p_metadata v) = 0"

definition orders_ok :: "orders_view \<Rightarrow> bool" where
  "orders_ok v \<longleftrightarrow>
     wf_dict (orders v) \<and>
     (\<forall>k d. dict_get (orders v) k = Some d \<longrightarrow>
        order_id d = k \<and> k \<noteq> [] \<and> k \<in> symbol_orders v (o_symbol d) \<and>
        status d \<in> {''open'', ''partially_filled'', ''filled'', ''cancelled''}) \<and>
     (\<forall>sy. \<forall>k \<in> symbol_orders v sy. dict_get (orders v) k \<noteq> None) \<and>
     meta_view_type (o_metadata v) = ORDERS \<and> last_event_sequence (o_metadata v) = 0"

definition builder_ok :: "builder \<Rightarrow> bool" where
  "builder_ok b \<longleftrightarrow>
     (\<exists>v w. views b = [(POSITIONS, Positions v), (ORDERS, Orders w)] \<and> positions_ok v \<and> orders_ok w)"

lemma truthy_strD: "truthy_str x \<Longrightarrow> the x \<noteq> []"
  by (auto simp: truthy_str_def split: option.splits)

lemma on_position_ok:
  assumes "positions_ok v" "\<And>p. symbol (f p) = symbol p" "\<And>p. 0 \<le> open_orders_count p \<Longrightarrow> 0 \<le> open_orders_count (f p)"
  shows "positions_ok (on_position pl f v)"
  using assms truthy_strD [of "p_symbol pl"]
  by (auto simp: on_position_def positions_ok_def dict_get_set split: option.split)

lemma positions_dispatch_ok:
  assumes "positions_ok v" shows "positions_ok (snd (positions_dispatch parse clk ev v))"
proof -
  have "positions_ok (snd (handle_fill parse clk pl v))" for pl
    using assms truthy_strD [of "p_symbol pl"]
    by (auto simp: handle_fill_def positions_ok_def dict_get_set fill_position_def new_position_def Let_def
        split: sum.split option.split)
  moreover have "positions_ok (snd (handle_tick parse clk pl v))" for pl
    using assms by (auto simp: handle_tick_def tick_position_def intro: on_position_ok split: sum.split)
  ultimately show ?thesis
    using assms by (auto simp: positions_dispatch_def handle_close_def handle_order_placed_def handle_order_cancelled_def
        Let_def intro!: on_position_ok)
qed

lemma positions_apply_ok:
  assumes "positions_ok v" shows "positions_ok (snd (positions_apply_event parse clk ev v))"
  using positions_dispatch_ok [OF assms, of parse clk ev]
  by (auto simp: positions_apply_event_def positions_ok_def count_event_def split: prod.splits option.splits)

lemma store_order_ok:
  assumes "orders_ok v" "known_order pl v = Some d" "order_id d' = order_id d" "o_symbol d' = o_symbol d"
    "status d' \<in> {''open'', ''partially_filled'', ''filled'', ''cancelled''}"
  shows "orders_ok (store_order pl d' v)"
  using assms by (auto simp: orders_ok_def store_order_def known_order_def symbol_orders_def dict_get_set split: if_splits)

lemma known_order_status:
  "orders_ok v \<Longrightarrow> known_order pl v = Some d \<Longrightarrow> status d \<in> {''open'', ''partially_filled'', ''filled'', ''cancelled''}"
  by (auto simp: orders_ok_def known_order_def split: if_splits)

lemma symbol_orders_metadata [simp]: "symbol_orders (v\<lparr>o_metadata := m\<rparr>) = symbol_orders v"
  by (simp add: symbol_orders_def fun_eq_iff)

lemma symbol_orders_insert:
  "symbol_orders (v\<lparr>orders := d, orders_by_symbol := dict_set sy (insert k (symbol_orders v sy)) (orders_by_symbol v)\<rparr>) sy' =
    (if sy' = sy then insert k (symbol_orders v sy) else symbol_orders v sy')"
  by (simp add: symbol_orders_def dict_get_set)

lemma handle_placed_ok:
  assumes "orders_ok v" shows "orders_ok (snd (handle_placed parse clk pl v))"
  using assms truthy_strD [of "p_order_id pl"] unfolding handle_placed_def orders_ok_def
  by (auto simp: symbol_orders_insert dict_get_set Let_def split: sum.split if_splits) metis

lemma orders_dispatch_ok:
  assumes "orders_ok v" shows "orders_ok (snd (orders_dispatch parse clk ev v))"
proof -
  have "orders_ok (snd (handle_filled parse clk pl v))" for pl
    using assms by (auto simp: handle_filled_def Let_def split: option.split sum.split intro: store_order_ok)
  moreover have "orders_ok (handle_cancelled clk pl v)" for pl
    using assms by (auto simp: handle_cancelled_def split: option.split intro: store_order_ok)
  moreover have "orders_ok (snd (handle_modified parse clk pl v))" for pl
    using assms known_order_status [OF assms, of pl]
    by (auto simp: handle_modified_def split: option.split sum.split intro!: store_order_ok)
  ultimately show ?thesis
    using assms handle_placed_ok [OF assms] by (auto simp: orders_dispatch_def Let_def)
qed

lemma orders_apply_ok:
  assumes "orders_ok v" shows "orders_ok (snd (orders_apply_event parse clk ev v))"
  using orders_dispatch_ok [OF assms, of parse clk ev]
  by (auto simp: orders_apply_event_def orders_ok_def count_event_def split: prod.splits option.splits)

lemma project_event_ok [inv_intros]:
  assumes "builder_ok b" shows "builder_ok (snd (project_event parse clk ev b))"
proof -
  obtain v w where b: "views b = [(POSITIONS, Positions v), (ORDERS, Orders w)]" "positions_ok v" "orders_ok w"
    using assms by (auto simp: builder_ok_def)
  obtain r v1 where p: "positions_apply_event parse clk ev v = (r, v1)" by force
  obtain r' w1 where q: "orders_apply_event parse clk ev w = (r', w1)" by force
  have "positions_ok v1" "orders_ok w1"
    using positions_apply_ok [OF b(2), of parse clk ev] orders_apply_ok [OF b(3), of parse clk ev] by (simp_all add: p q)
  then show ?thesis
    using b by (cases r; cases r') (auto simp: project_event_def builder_ok_def p q)
qed

lemma project_all_ok [inv_intros]: "builder_ok b \<Longrightarrow> builder_ok (snd (project_all parse clk evs b))"
proof (induction evs arbitrary: b)
  case (Cons ev evs)
  have "builder_ok (snd (project_event parse (clk (sequence ev)) ev b))" by (rule project_event_ok [OF Cons.prems])
  then show ?case using Cons.IH by (auto split: prod.split option.split)
qed simp

lemma project_stored_ok [inv_intros]: "builder_ok b \<Longrightarrow> builder_ok (snd (project_stored parse decode clk es b))"
proof (induction es arbitrary: b)
  case (Cons e es)
  have "builder_ok (snd (project_event parse (clk (sequence ev)) ev b))" for ev by (rule project_event_ok [OF Cons.prems])
  then show ?case using Cons by (auto split: prod.split option.split sum.split) (metis snd_conv)+
qed simp

lemma clear_ok:
  assumes "builder_ok b"
  shows "builder_ok (b\<lparr>views := map (map_prod id (clear_view now)) (views b), last_sequence := start\<rparr>)"
  using assms by (auto simp: builder_ok_def positions_ok_def orders_ok_def positions_clear_def orders_clear_def symbol_orders_def)

lemma set_rebuild_time_ok:
  "builder_ok b \<Longrightarrow> builder_ok (b\<lparr>views := map (map_prod id (set_rebuild_time t)) (views b)\<rparr>)"
  by (auto simp: builder_ok_def positions_ok_def orders_ok_def)

lemma builder_init_ok: "builder_ok (builder_init now1 now2)"
  by (simp add: builder_ok_def builder_init_def register_view_def positions_init_def orders_init_def positions_ok_def
      orders_ok_def new_metadata_def symbol_orders_def)

section \<open>Runs\<close>

datatype 'b builder_op =
    Op_Project "nat \<Rightarrow> int" event
  | Op_Batch "int \<Rightarrow> nat \<Rightarrow> int" "event list"
  | Op_Rebuild int "int \<Rightarrow> nat \<Rightarrow> int" pyfloat "'b stored list" int
  | Op_Shutdown

fun builder_step ::
  "(string \<Rightarrow> exn + pyfloat) \<Rightarrow> ('b list \<Rightarrow> exn + payload) \<Rightarrow> 'b builder_op \<Rightarrow> builder \<Rightarrow> builder" where
  "builder_step parse decode (Op_Project clk ev) b = snd (project_event parse clk ev b)"
| "builder_step parse decode (Op_Batch clk evs) b = snd (project_events_batch parse clk evs b)"
| "builder_step parse decode (Op_Rebuild now clk t store start) b =
     snd (rebuild_from_events parse decode now clk t store start b)"
| "builder_step parse decode Op_Shutdown b = shutdown b"

lemma builder_step_ok: "builder_ok b \<Longrightarrow> builder_ok (builder_step parse decode x b)"
proof (cases x)
  case (Op_Project clk ev)
  then show "builder_ok b \<Longrightarrow> ?thesis" by (simp add: project_event_ok)
next
  case (Op_Batch clk evs)
  assume "builder_ok b"
  then have "builder_ok (snd (project_all parse clk (sort_key sequence evs) b))" by (rule project_all_ok)
  then show ?thesis by (auto simp: Op_Batch project_events_batch_def split: prod.split option.split)
next
  case (Op_Rebuild now clk t store start)
  assume "builder_ok b"
  from project_stored_ok [OF clear_ok [OF this], of parse decode clk "store_from start store"]
  show ?thesis
    by (auto simp: Op_Rebuild rebuild_from_events_def Let_def split: prod.split option.split intro!: set_rebuild_time_ok)
      (metis snd_conv)+
next
  case Op_Shutdown
  then show "builder_ok b \<Longrightarrow> ?thesis" by (simp add: builder_ok_def shutdown_def)
qed

interpretation rm: op_machine "builder_step parse decode" builder_ok for parse decode
  by unfold_locales (rule builder_step_ok)

section \<open>Properties\<close>

text \<open>The read models keep their indexes: after any sequence of projections, batches, rebuilds and shutdowns, failed ones
  included, both views are there, every position and order is stored under its own symbol or id, an order is indexed
  under its symbol and the index names only stored orders, the count of open orders is not negative, a status is one of the
  four values the handlers assign, and \<open>last_event_sequence\<close> is still 0.\<close>
theorem read_model_invariant: "builder_ok (fold (builder_step parse decode) xs (builder_init now1 now2))"
  by (rule rm.run_inv) (rule builder_init_ok)

lemma same_model_cleared:
  assumes "builder_ok b"
  shows "same_model (b\<lparr>views := map (map_prod id (clear_view now)) (views b), last_sequence := 0\<rparr>) (builder_init now1 now2)"
proof -
  obtain v w where b: "views b = [(POSITIONS, Positions v), (ORDERS, Orders w)]" "positions_ok v" "orders_ok w"
    using assms by (auto simp: builder_ok_def)
  have "erase_metadata ((p_metadata v)\<lparr>event_count := 0, meta_last_updated := now\<rparr>) = erase_metadata (new_metadata POSITIONS now1)"
    "erase_metadata ((o_metadata w)\<lparr>event_count := 0\<rparr>) = erase_metadata (new_metadata ORDERS now2)"
    using b by (simp_all add: positions_ok_def orders_ok_def erase_metadata_def new_metadata_def)
  then show ?thesis
    by (simp add: same_model_def b(1) builder_init_def register_view_def erase_views_def positions_clear_def orders_clear_def
        positions_init_def orders_init_def erase_positions_iff erase_orders_iff)
qed

lemma same_model_rebuild_time:
  "same_model b c \<Longrightarrow> same_model (b\<lparr>views := map (map_prod id (set_rebuild_time t)) (views b)\<rparr>) c"
proof -
  have "erase_view (set_rebuild_time t v) = erase_view v" for v
    by (cases v) (simp_all add: erase_positions_iff erase_orders_iff erase_metadata_def)
  then have "erase_views (map (map_prod id (set_rebuild_time t)) vs) = erase_views vs" for vs
    by (induction vs) (auto simp: erase_views_def)
  then show "same_model b c \<Longrightarrow> ?thesis" by (simp add: same_model_def)
qed

text \<open>C6: A rebuild from the event store gives the read model of live projection: whatever the builder went through before,
  rebuilding from a store of numbered events ends exactly when projecting these events one by one on a new builder does, with the same exception
  or none, and the views agree in everything but their time stamps.\<close>
theorem rebuild_equals_live:
  assumes "list_all2 (\<lambda>e ev. stored_event decode e = Inr ev) store evs" "\<forall>e \<in> set store. 0 \<le> st_sequence e"
    "b = fold (builder_step parse decode) xs (builder_init now1 now2)"
    "rebuild_from_events parse decode now clk t store 0 b = (r, b')"
    "project_all parse clk' evs (builder_init now1' now2') = (r', live)"
  shows "same_model b' live \<and> r = (case r' of None \<Rightarrow> Inr t | Some e \<Rightarrow> Inl e)"
proof -
  have ok: "builder_ok b" unfolding assms(3) by (rule rm.run_inv) (rule builder_init_ok)
  have f: "store_from 0 store = store" using assms(2) by (simp add: store_from_def)
  let ?b1 = "b\<lparr>views := map (map_prod id (clear_view now)) (views b), last_sequence := 0\<rparr>"
  obtain r2 b2 where p: "project_stored parse decode clk store ?b1 = (r2, b2)" by force
  have "same_model ?b1 (builder_init now1' now2')" by (rule same_model_cleared [OF ok])
  from project_stored_same [OF assms(1) this] have
    "fst (project_stored parse decode clk store ?b1) = fst (project_all parse clk' evs (builder_init now1' now2'))"
    "same_model (snd (project_stored parse decode clk store ?b1)) (snd (project_all parse clk' evs (builder_init now1' now2')))"
    by blast+
  then have s: "r2 = r'" "same_model b2 live" by (simp_all add: p assms(5))
  show ?thesis
  proof (cases r')
    case None
    then show ?thesis
      using assms(4) s same_model_rebuild_time [OF s(2), of t] by (auto simp: rebuild_from_events_def f p)
  next
    case (Some e)
    then show ?thesis using assms(4) s by (auto simp: rebuild_from_events_def f p)
  qed
qed

text \<open>A batch does not depend on the order in which its events arrive, as long as their sequence numbers differ: any rearrangement
  gives the same result and the same read models.\<close>
theorem batch_order_irrelevant:
  assumes "mset evs = mset evs'" "distinct (map sequence evs)"
  shows "project_events_batch parse clk evs b = project_events_batch parse clk evs' b"
proof -
  have "inj_on sequence (set evs)" using assms(2) by (simp add: distinct_map)
  then have "sort_key sequence evs = sort_key sequence evs'"
    using assms(1) by (intro sort_key_inj_key_eq) simp_all
  moreover have "length evs = length evs'" using assms(1) by (metis size_mset)
  ultimately show ?thesis by (simp only: project_events_batch_def)
qed

definition demo_parse :: "string \<Rightarrow> exn + pyfloat" where
  "demo_parse s = Inl ValueError"

definition demo_order :: "string \<Rightarrow> json \<Rightarrow> payload" where
  "demo_order oid q = \<lparr>p_symbol = Some ''BTC'', p_order_id = Some oid, p_side = None, p_quantity = Some q, p_price = Some (JInt 4)\<rparr>"

definition demo_event :: "string \<Rightarrow> string \<Rightarrow> int \<Rightarrow> event" where
  "demo_event t oid n = \<lparr>event_type = Some t, e_payload = demo_order oid (JInt 2), sequence = n\<rparr>"

definition demo_store :: "unit stored list" where
  "demo_store = [\<lparr>st_sequence = 1, st_type = ''OrderPlaced'', st_payload = [()]\<rparr>,
     \<lparr>st_sequence = 2, st_type = ''OrderFilled'', st_payload = [()]\<rparr>]"

definition demo_decode :: "unit list \<Rightarrow> exn + payload" where
  "demo_decode _ = Inr (demo_order ''o1'' (JInt 2))"

theorem rebuild_equals_live_witness:
  "\<exists>r b' live.
    rebuild_from_events demo_parse demo_decode 9 (\<lambda>_ _. 9) 5 demo_store 0
      (fold (builder_step demo_parse demo_decode) [Op_Shutdown] (builder_init 0 0)) = (r, b') \<and>
    project_all demo_parse (\<lambda>_ _. 1) [demo_event ''OrderPlaced'' ''o1'' 1, demo_event ''OrderFilled'' ''o1'' 2]
      (builder_init 0 0) = (None, live) \<and>
    r = Inr 5 \<and> same_model b' live"
proof -
  have e: "list_all2 (\<lambda>e ev. stored_event demo_decode e = Inr ev) demo_store
      [demo_event ''OrderPlaced'' ''o1'' 1, demo_event ''OrderFilled'' ''o1'' 2]" "\<forall>e \<in> set demo_store. 0 \<le> st_sequence e"
    by (simp_all add: demo_store_def stored_event_def demo_decode_def demo_event_def)
  obtain r b' where r: "rebuild_from_events demo_parse demo_decode 9 (\<lambda>_ _. 9) 5 demo_store 0
      (fold (builder_step demo_parse demo_decode) [Op_Shutdown] (builder_init 0 0)) = (r, b')" by force
  obtain live where l: "project_all demo_parse (\<lambda>_ _. 1) [demo_event ''OrderPlaced'' ''o1'' 1, demo_event ''OrderFilled'' ''o1'' 2]
      (builder_init 0 0) = (None, live)"
    by (simp add: builder_init_def register_view_def positions_init_def orders_init_def demo_event_def demo_order_def
        project_event_def positions_apply_event_def positions_dispatch_def handle_order_placed_def on_position_def
        handle_fill_def orders_apply_event_def orders_dispatch_def handle_placed_def handle_filled_def known_order_def
        truthy_str_def float_field_def Let_def)
  show ?thesis using r l rebuild_equals_live [OF e refl r l] by simp
qed

theorem batch_order_irrelevant_witness:
  "project_events_batch demo_parse (\<lambda>_ _. 1) [demo_event ''OrderFilled'' ''o1'' 2, demo_event ''OrderPlaced'' ''o1'' 1] (builder_init 0 0) =
    project_events_batch demo_parse (\<lambda>_ _. 1) [demo_event ''OrderPlaced'' ''o1'' 1, demo_event ''OrderFilled'' ''o1'' 2] (builder_init 0 0)"
  by (rule batch_order_irrelevant) (simp_all add: demo_event_def)

text \<open>An event that a later view refuses is not undone in the earlier ones: when \<open>float\<close> raises on the quantity of a
  placed order, the position of its symbol has counted one more open order, the event is not marked as seen, and each retry counts it again.\<close>
theorem failed_event_counts_again:
  assumes "builder_ok b" "get_positions_view b = Some v" "get_position sy v = Some p"
    "event_type ev = Some ''OrderPlaced''" "p_symbol (e_payload ev) = Some sy" "truthy_str (p_order_id (e_payload ev))"
    "float_field parse (p_quantity (e_payload ev)) = Inl e" "last_sequence b < sequence ev"
  shows "\<exists>b' v' p'. project_event parse clk ev b = (Some e, b') \<and> last_sequence b' = last_sequence b \<and>
    get_positions_view b' = Some v' \<and> get_position sy v' = Some p' \<and>
    open_orders_count p' = open_orders_count p + 1 \<and> get_orders_view b' = get_orders_view b"
proof -
  obtain w where b: "views b = [(POSITIONS, Positions v), (ORDERS, Orders w)]" "positions_ok v"
    using assms(1,2) by (auto simp: builder_ok_def get_positions_view_def get_view_def)
  have "sy \<noteq> []" using b(2) assms(3) by (auto simp: positions_ok_def get_position_def)
  then show ?thesis
    using assms b
    by (simp add: project_event_def positions_apply_event_def positions_dispatch_def handle_order_placed_def on_position_def
        truthy_str_def get_position_def orders_apply_event_def orders_dispatch_def handle_placed_def Let_def
        get_positions_view_def get_orders_view_def get_view_def dict_get_set split: option.splits)
qed

theorem failed_event_counts_again_witness:
  "\<exists>b p b' v' p'. get_position ''BTC'' (the (get_positions_view b)) = Some p \<and> open_orders_count p = 0 \<and>
    project_event demo_parse (\<lambda>_. 1)
      \<lparr>event_type = Some ''OrderPlaced'', e_payload = demo_order ''o1'' (JStr ''many''), sequence = 2\<rparr> b = (Some ValueError, b') \<and>
    get_positions_view b' = Some v' \<and> get_position ''BTC'' v' = Some p' \<and> open_orders_count p' = 1"
proof -
  let ?b = "snd (project_event demo_parse (\<lambda>_. 1) (demo_event ''PositionOpened'' ''o0'' 1) (builder_init 0 0))"
  let ?e = "\<lparr>event_type = Some ''OrderPlaced'', e_payload = demo_order ''o1'' (JStr ''many''), sequence = 2\<rparr>"
  have ok: "builder_ok ?b" by (rule project_event_ok) (rule builder_init_ok)
  obtain v p where v: "get_positions_view ?b = Some v" "get_position ''BTC'' v = Some p" "open_orders_count p = 0" "last_sequence ?b < 2"
    by (simp add: builder_init_def register_view_def positions_init_def orders_init_def demo_event_def demo_order_def
        project_event_def positions_apply_event_def positions_dispatch_def handle_fill_def orders_apply_event_def
        orders_dispatch_def truthy_str_def float_field_def Let_def get_positions_view_def get_view_def get_position_def
        fill_position_def new_position_def)
  have "\<exists>b' v' p'. project_event demo_parse (\<lambda>_. 1) ?e ?b = (Some ValueError, b') \<and> last_sequence b' = last_sequence ?b \<and>
    get_positions_view b' = Some v' \<and> get_position ''BTC'' v' = Some p' \<and>
    open_orders_count p' = open_orders_count p + 1 \<and> get_orders_view b' = get_orders_view ?b"
    by (rule failed_event_counts_again [OF ok v(1,2)])
      (use v(4) in \<open>simp_all add: demo_order_def truthy_str_def float_field_def demo_parse_def\<close>)
  then obtain b' v' p' where "project_event demo_parse (\<lambda>_. 1) ?e ?b = (Some ValueError, b')"
    "get_positions_view b' = Some v'" "get_position ''BTC'' v' = Some p'" "open_orders_count p' = open_orders_count p + 1" by blast
  moreover have "get_position ''BTC'' (the (get_positions_view ?b)) = Some p" using v(1,2) by (simp only: option.sel)
  ultimately show ?thesis
    using v(3) by (intro exI [of _ ?b] exI [of _ p] exI [of _ b'] exI [of _ v'] exI [of _ p'] conjI) linarith+
qed

definition nonneg_field :: "(string \<Rightarrow> exn + pyfloat) \<Rightarrow> json option \<Rightarrow> bool" where
  "nonneg_field parse x \<longleftrightarrow> (case float_field parse x of Inl e \<Rightarrow> True | Inr q \<Rightarrow> 0 \<le> q)"

definition nonneg_payload :: "(string \<Rightarrow> exn + pyfloat) \<Rightarrow> payload \<Rightarrow> bool" where
  "nonneg_payload parse pl \<longleftrightarrow> nonneg_field parse (p_quantity pl) \<and> nonneg_field parse (p_price pl)"

fun nonneg_op :: "(string \<Rightarrow> exn + pyfloat) \<Rightarrow> ('b list \<Rightarrow> exn + payload) \<Rightarrow> 'b builder_op \<Rightarrow> bool" where
  "nonneg_op parse decode (Op_Project clk ev) = nonneg_payload parse (e_payload ev)"
| "nonneg_op parse decode (Op_Batch clk evs) = (\<forall>ev \<in> set evs. nonneg_payload parse (e_payload ev))"
| "nonneg_op parse decode (Op_Rebuild now clk t store start) =
     (\<forall>e \<in> set store. case decode (st_payload e) of Inl err \<Rightarrow> True | Inr pl \<Rightarrow> nonneg_payload parse pl)"
| "nonneg_op parse decode Op_Shutdown = True"

definition long_view :: "positions_view \<Rightarrow> bool" where
  "long_view v \<longleftrightarrow> (\<forall>k p. dict_get (positions v) k = Some p \<longrightarrow> 0 \<le> quantity p \<and> 0 \<le> average_price p)"

definition long_builder :: "builder \<Rightarrow> bool" where
  "long_builder b \<longleftrightarrow> (\<forall>v. Positions v \<in> snd ` set (views b) \<longrightarrow> long_view v)"

lemma fill_position_long:
  assumes "0 \<le> quantity p" "0 \<le> average_price p" "0 \<le> q" "0 \<le> x"
  shows "0 \<le> quantity (fill_position side q x now p) \<and> 0 \<le> average_price (fill_position side q x now p)"
proof -
  have "0 \<le> fadd (quantity p) q" by (intro fadd_nonneg assms)
  moreover have "0 \<le> fadd (fmul (quantity p) (average_price p)) (fmul q x)" by (intro fadd_nonneg fmul_nonneg assms)
  ultimately show ?thesis
    using assms by (simp add: fill_position_def Let_def fdiv_def fsub_nonneg)
qed

lemma on_position_long:
  assumes "long_view v" "\<And>p. 0 \<le> quantity p \<Longrightarrow> 0 \<le> quantity (f p)" "\<And>p. average_price (f p) = average_price p"
  shows "long_view (on_position pl f v)"
  using assms by (auto simp: long_view_def on_position_def dict_get_set split: option.split)

lemma positions_dispatch_long:
  assumes "long_view v" "nonneg_payload parse (e_payload ev)"
  shows "long_view (snd (positions_dispatch parse clk ev v))"
proof -
  have "long_view (snd (handle_fill parse clk (e_payload ev) v))"
    using assms fill_position_long by (auto simp: handle_fill_def long_view_def nonneg_payload_def nonneg_field_def Let_def
        dict_get_set new_position_def split: sum.split option.split)
  moreover have "long_view (snd (handle_tick parse clk (e_payload ev) v))"
    using assms by (auto simp: handle_tick_def tick_position_def intro!: on_position_long split: sum.split)
  ultimately show ?thesis
    using assms by (auto simp: positions_dispatch_def handle_close_def handle_order_placed_def handle_order_cancelled_def
        Let_def intro!: on_position_long)
qed

lemma positions_apply_long:
  assumes "long_view v" "nonneg_payload parse (e_payload ev)"
  shows "long_view (snd (positions_apply_event parse clk ev v))"
  using positions_dispatch_long [OF assms, of clk]
  by (auto simp: positions_apply_event_def long_view_def split: prod.splits option.splits)

lemma project_event_long:
  assumes "builder_ok b" "long_builder b" "nonneg_payload parse (e_payload ev)"
  shows "long_builder (snd (project_event parse clk ev b))"
proof -
  obtain v w where b: "views b = [(POSITIONS, Positions v), (ORDERS, Orders w)]"
    using assms by (auto simp: builder_ok_def)
  obtain r v1 where p: "positions_apply_event parse clk ev v = (r, v1)" by force
  obtain r' w1 where q: "orders_apply_event parse clk ev w = (r', w1)" by force
  have "long_view v" using assms(2) by (simp add: long_builder_def b)
  from positions_apply_long [OF this assms(3), of clk] have "long_view v1" by (simp add: p)
  then show ?thesis using \<open>long_view v\<close> by (cases r; cases r') (auto simp: project_event_def long_builder_def b p q)
qed

lemma project_all_long:
  "builder_ok b \<Longrightarrow> long_builder b \<Longrightarrow> \<forall>ev \<in> set evs. nonneg_payload parse (e_payload ev) \<Longrightarrow>
    long_builder (snd (project_all parse clk evs b))"
proof (induction evs arbitrary: b)
  case (Cons ev evs)
  have "builder_ok (snd (project_event parse (clk (sequence ev)) ev b))"
    "long_builder (snd (project_event parse (clk (sequence ev)) ev b))"
    using Cons.prems project_event_ok project_event_long by auto
  then show ?case using Cons.IH Cons.prems(3) by (auto split: prod.split option.split)
qed simp

lemma empty_payload_nonneg: "nonneg_payload parse empty_payload"
  by (simp add: nonneg_payload_def nonneg_field_def float_field_def empty_payload_def)

lemma project_stored_long:
  "builder_ok b \<Longrightarrow> long_builder b \<Longrightarrow>
    \<forall>e \<in> set es. case decode (st_payload e) of Inl err \<Rightarrow> True | Inr pl \<Rightarrow> nonneg_payload parse pl \<Longrightarrow>
    long_builder (snd (project_stored parse decode clk es b))"
proof (induction es arbitrary: b)
  case (Cons e es)
  show ?case
  proof (cases "stored_event decode e")
    case (Inr ev)
    then have n: "nonneg_payload parse (e_payload ev)"
      using Cons.prems(3) empty_payload_nonneg by (auto simp: stored_event_def split: if_splits sum.splits)
    have "builder_ok (snd (project_event parse (clk (sequence ev)) ev b))"
      "long_builder (snd (project_event parse (clk (sequence ev)) ev b))"
      using Cons.prems n project_event_ok project_event_long by auto
    then show ?thesis using Cons.IH Cons.prems(3) Inr by (auto split: prod.split option.split)
  qed (use Cons.prems in simp)
qed simp

lemma clear_long: "long_builder (b\<lparr>views := map (map_prod id (clear_view now)) (views b), last_sequence := start\<rparr>)"
proof -
  have "long_view v" if "Positions v = clear_view now w" for v w
    using that by (cases w) (simp_all add: positions_clear_def long_view_def)
  then show ?thesis by (auto simp: long_builder_def image_iff)
qed

lemma rebuild_time_long:
  assumes "long_builder b" shows "long_builder (b\<lparr>views := map (map_prod id (set_rebuild_time t)) (views b)\<rparr>)"
proof -
  have "long_view v" if "Positions v = set_rebuild_time t w" "w \<in> snd ` set (views b)" for v w
    using that assms by (cases w) (auto simp: long_builder_def long_view_def)
  then show ?thesis by (fastforce simp: long_builder_def image_iff)
qed

lemma builder_step_long:
  assumes "builder_ok b" "nonneg_op parse decode x" "long_builder b" shows "long_builder (builder_step parse decode x b)"
proof (cases x)
  case (Op_Project clk ev)
  then show ?thesis using assms by (simp add: project_event_long)
next
  case (Op_Batch clk evs)
  then have "long_builder (snd (project_all parse clk (sort_key sequence evs) b))" using assms by (intro project_all_long) simp_all
  then show ?thesis by (auto simp: Op_Batch project_events_batch_def split: prod.split option.split)
next
  case (Op_Rebuild now clk t store start)
  have "\<forall>e \<in> set (store_from start store). case decode (st_payload e) of Inl err \<Rightarrow> True | Inr pl \<Rightarrow> nonneg_payload parse pl"
    using assms(2) Op_Rebuild by (auto simp: store_from_def)
  then have "long_builder (snd (project_stored parse decode clk (store_from start store)
      (b\<lparr>views := map (map_prod id (clear_view now)) (views b), last_sequence := start\<rparr>)))"
    by (intro project_stored_long clear_ok clear_long assms(1))
  then show ?thesis
    by (auto simp: Op_Rebuild rebuild_from_events_def Let_def split: prod.split option.split intro!: rebuild_time_long)
next
  case Op_Shutdown
  then show ?thesis using assms by (simp add: long_builder_def shutdown_def)
qed

text \<open>The read model cannot show a short position: as long as no event carries a negative quantity or price, every
  quantity and average price of the positions view is at least 0 after any run, whatever was sold or opened on the sell side.\<close>
theorem positions_never_short:
  assumes "b = fold (builder_step parse decode) xs (builder_init now1 now2)" "\<forall>x \<in> set xs. nonneg_op parse decode x"
    "get_positions_view b = Some v" "get_position sy v = Some p"
  shows "0 \<le> quantity p \<and> 0 \<le> average_price p"
proof -
  let ?b0 = "builder_init now1 now2"
  have "long_builder ?b0 \<longrightarrow> long_builder b"
    unfolding assms(1)
    by (rule rm.run_rel [where rel = "\<lambda>s t. long_builder s \<longrightarrow> long_builder t", OF builder_init_ok assms(2)])
      (auto simp: builder_step_long)
  moreover have "long_builder ?b0"
    by (simp add: long_builder_def builder_init_def register_view_def positions_init_def long_view_def)
  ultimately have l: "long_builder b" by simp
  have "Positions v \<in> snd ` set (views b)"
    using assms(3) by (force simp: get_positions_view_def get_view_def split: option.splits view.splits dest: map_of_SomeD)
  then show ?thesis using l assms(4) by (auto simp: long_builder_def long_view_def get_position_def)
qed

definition short_sale :: event where
  "short_sale = \<lparr>event_type = Some ''PositionOpened'',
     e_payload = (demo_order ''o1'' (JInt 2))\<lparr>p_side := Some ''sell''\<rparr>, sequence = 1\<rparr>"

theorem positions_never_short_witness:
  "\<exists>v p. get_positions_view (fold (builder_step demo_parse demo_decode) [Op_Project (\<lambda>_. 1) short_sale] (builder_init 0 0)) = Some v \<and>
    get_position ''BTC'' v = Some p \<and> quantity p = 0 \<and> last_price p = 4 \<and> 0 \<le> average_price p"
proof -
  obtain v p where v: "get_positions_view (fold (builder_step demo_parse demo_decode) [Op_Project (\<lambda>_. 1) short_sale] (builder_init 0 0)) = Some v"
    "get_position ''BTC'' v = Some p" "quantity p = 0" "last_price p = 4"
    by (simp add: builder_init_def register_view_def positions_init_def orders_init_def short_sale_def demo_order_def
        project_event_def positions_apply_event_def positions_dispatch_def handle_fill_def orders_apply_event_def
        orders_dispatch_def truthy_str_def float_field_def Let_def get_positions_view_def get_view_def get_position_def
        fill_position_def new_position_def)
  have "\<forall>x \<in> set [Op_Project (\<lambda>_. 1) short_sale :: unit builder_op]. nonneg_op demo_parse demo_decode x"
    by (simp add: short_sale_def nonneg_payload_def nonneg_field_def float_field_def demo_order_def)
  from positions_never_short [OF refl this v(1,2)] v show ?thesis by blast
qed

end
