(* ===== verification/MessageBroker.thy ===== *)
theory MessageBroker
  imports Prelude
begin

text \<open>
  \<open>backend/events/message_broker.py\<close>: messages and their JSON form, the dead letter queue (\<open>dlq\<close>), the broker
  (\<open>broker\<close> for \<open>MessageBroker\<close>) with its processing loops, and the adapter for Nautilus events.

  Callbacks, filters and Ray actors act on the world \<open>'w\<close> of the subscribers and may raise; the text of an
  exception (\<open>str(e)\<close>) is the parameter \<open>msg\<close>. Clock readings and the fresh \<open>uuid\<close> are arguments. JSON text stands for the JSON
  value it denotes. Routing is one step: with Ray off it never gives control away.
\<close>

section \<open>Messages\<close>

datatype MessageType = TICK | ORDER | FILL | CANCEL | POSITION | PNL | SIGNAL | RISK | SYSTEM | NAUTILUS_EVENT

definition message_types :: "(string, MessageType) dict" where
  "message_types =
     [(''tick'', TICK), (''order'', ORDER), (''fill'', FILL), (''cancel'', CANCEL), (''position'', POSITION),
      (''pnl'', PNL), (''signal'', SIGNAL), (''risk'', RISK), (''system'', SYSTEM), (''nautilus_event'', NAUTILUS_EVENT)]"

fun type_value :: "MessageType \<Rightarrow> string" where
  "type_value TICK = ''tick''"
| "type_value ORDER = ''order''"
| "type_value FILL = ''fill''"
| "type_value CANCEL = ''cancel''"
| "type_value POSITION = ''position''"
| "type_value PNL = ''pnl''"
| "type_value SIGNAL = ''signal''"
| "type_value RISK = ''risk''"
| "type_value SYSTEM = ''system''"
| "type_value NAUTILUS_EVENT = ''nautilus_event''"

datatype MessagePriority = LOW | NORMAL | HIGH | CRITICAL

fun priority_value :: "MessagePriority \<Rightarrow> int" where
  "priority_value LOW = 0"
| "priority_value NORMAL = 1"
| "priority_value HIGH = 2"
| "priority_value CRITICAL = 3"

definition message_priorities :: "(int, MessagePriority) dict" where
  "message_priorities = [(0, LOW), (1, NORMAL), (2, HIGH), (3, CRITICAL)]"

record Message =
  m_id :: string
  message_type :: MessageType
  priority :: MessagePriority
  timestamp_ns :: int
  source :: string
  payload :: "(string, json) dict"
  correlation_id :: "string option"
  reply_to :: "string option"
  ttl_ms :: int
  headers :: "(string, string) dict"

definition message_create ::
  "string \<Rightarrow> int \<Rightarrow> MessageType \<Rightarrow> (string, json) dict \<Rightarrow> string \<Rightarrow> MessagePriority \<Rightarrow> string option \<Rightarrow> int \<Rightarrow> Message" where
  "message_create uuid now mt pl src prio cid ttl =
     \<lparr>m_id = uuid, message_type = mt, priority = prio, timestamp_ns = now, source = src, payload = pl,
      correlation_id = cid, reply_to = None, ttl_ms = ttl, headers = []\<rparr>"

definition message_expired :: "int \<Rightarrow> Message \<Rightarrow> bool" where
  "message_expired now m \<longleftrightarrow> now > timestamp_ns m + ttl_ms m * 1000000"

definition json_opt :: "string option \<Rightarrow> json" where
  "json_opt x = (case x of None \<Rightarrow> JNull | Some s \<Rightarrow> JStr s)"

definition to_json :: "Message \<Rightarrow> json" where
  "to_json m = JDict
     [(''id'', JStr (m_id m)), (''message_type'', JStr (type_value (message_type m))),
      (''priority'', JInt (priority_value (priority m))), (''timestamp_ns'', JInt (timestamp_ns m)),
      (''source'', JStr (source m)), (''payload'', JDict (payload m)), (''correlation_id'', json_opt (correlation_id m)),
      (''reply_to'', json_opt (reply_to m)), (''ttl_ms'', JInt (ttl_ms m)),
      (''headers'', JDict (map (map_prod id JStr) (headers m)))]"

text \<open>
  Reading a message back. Python does not check the types of the fields; a JSON value the declared type of a field
  excludes is outside the model and read as a \<open>TypeError\<close>. An \<open>Enum\<close> looks its argument up by equality, so \<open>1.0\<close> and
  \<open>True\<close> are priorities.
\<close>

fun as_string :: "json \<Rightarrow> exn + string" where
  "as_string (JStr s) = Inr s"
| "as_string _ = Inl (OtherError ''TypeError'')"

fun as_int :: "json \<Rightarrow> exn + int" where
  "as_int (JInt i) = Inr i"
| "as_int _ = Inl (OtherError ''TypeError'')"

fun as_dict :: "json \<Rightarrow> exn + (string, json) dict" where
  "as_dict (JDict d) = Inr d"
| "as_dict _ = Inl (OtherError ''TypeError'')"

fun as_opt_string :: "json \<Rightarrow> exn + string option" where
  "as_opt_string JNull = Inr None"
| "as_opt_string (JStr s) = Inr (Some s)"
| "as_opt_string _ = Inl (OtherError ''TypeError'')"

fun as_headers :: "(string, json) dict \<Rightarrow> exn + (string, string) dict" where
  "as_headers [] = Inr []"
| "as_headers ((k, v) # d) =
     (case (as_string v, as_headers d) of (Inr s, Inr r) \<Rightarrow> Inr ((k, s) # r) | _ \<Rightarrow> Inl (OtherError ''TypeError''))"

definition need :: "(string, json) dict \<Rightarrow> string \<Rightarrow> exn + json" where
  "need d k = (case dict_get d k of None \<Rightarrow> Inl KeyError | Some v \<Rightarrow> Inr v)"

definition get_or :: "(string, json) dict \<Rightarrow> string \<Rightarrow> json \<Rightarrow> exn + json" where
  "get_or d k v = Inr (case dict_get d k of None \<Rightarrow> v | Some x \<Rightarrow> x)"

definition enum_of :: "('a, 'b) dict \<Rightarrow> 'a \<Rightarrow> exn + 'b" where
  "enum_of d k = (case dict_get d k of None \<Rightarrow> Inl ValueError | Some v \<Rightarrow> Inr v)"

definition type_of_json :: "json \<Rightarrow> exn + MessageType" where
  "type_of_json j = (case j of JStr s \<Rightarrow> enum_of message_types s | _ \<Rightarrow> Inl ValueError)"

definition priority_of_json :: "json \<Rightarrow> exn + MessagePriority" where
  "priority_of_json j =
     (case j of
        JInt i \<Rightarrow> enum_of message_priorities i
      | JBool b \<Rightarrow> enum_of message_priorities (if b then 1 else 0)
      | JFloat x \<Rightarrow> if x = of_int \<lfloor>x\<rfloor> then enum_of message_priorities \<lfloor>x\<rfloor> else Inl ValueError
      | _ \<Rightarrow> Inl ValueError)"

definition from_json :: "json \<Rightarrow> exn + Message" where
  "from_json j =
     bind (as_dict j) (\<lambda>d.
     bind (bind (need d ''id'') as_string) (\<lambda>i.
     bind (bind (need d ''message_type'') type_of_json) (\<lambda>mt.
     bind (bind (need d ''priority'') priority_of_json) (\<lambda>prio.
     bind (bind (need d ''timestamp_ns'') as_int) (\<lambda>ts.
     bind (bind (need d ''source'') as_string) (\<lambda>src.
     bind (bind (need d ''payload'') as_dict) (\<lambda>pl.
     bind (bind (get_or d ''correlation_id'' JNull) as_opt_string) (\<lambda>cid.
     bind (bind (get_or d ''reply_to'' JNull) as_opt_string) (\<lambda>rt.
     bind (bind (get_or d ''ttl_ms'' (JInt 30000)) as_int) (\<lambda>ttl.
     bind (bind (bind (get_or d ''headers'' (JDict [])) as_dict) as_headers) (\<lambda>hs.
     Inr \<lparr>m_id = i, message_type = mt, priority = prio, timestamp_ns = ts, source = src, payload = pl,
          correlation_id = cid, reply_to = rt, ttl_ms = ttl, headers = hs\<rparr>)))))))))))"

section \<open>The dead letter queue\<close>

record dlq =
  dlq_max_size :: int
  dlq_queue :: "(Message \<times> string \<times> pyfloat) list"

definition dlq_init :: "int \<Rightarrow> dlq" where
  "dlq_init n = \<lparr>dlq_max_size = n, dlq_queue = []\<rparr>"

definition dlq_add :: "pyfloat \<Rightarrow> Message \<Rightarrow> string \<Rightarrow> dlq \<Rightarrow> dlq" where
  "dlq_add now m reason q =
     (let l = dlq_queue q @ [(m, reason, now)]
      in q\<lparr>dlq_queue := if int (length l) > dlq_max_size q then slice_from (- dlq_max_size q) l else l\<rparr>)"

definition dlq_get_recent :: "int \<Rightarrow> dlq \<Rightarrow> (Message \<times> string \<times> pyfloat) list" where
  "dlq_get_recent count q = slice_from (- count) (dlq_queue q)"

definition dlq_clear :: "dlq \<Rightarrow> int \<times> dlq" where
  "dlq_clear q = (int (length (dlq_queue q)), q\<lparr>dlq_queue := []\<rparr>)"

definition dlq_size :: "dlq \<Rightarrow> int" where
  "dlq_size q = int (length (dlq_queue q))"

section \<open>The broker\<close>

record 'w Subscription =
  subscriber_id :: string
  topics :: "MessageType set"
  callback :: "(Message \<Rightarrow> 'w \<Rightarrow> exn option \<times> 'w) option"
  filter_fn :: "(Message \<Rightarrow> 'w \<Rightarrow> (exn + bool) \<times> 'w) option"
  max_queue_size :: int
  sub_active :: bool

record BrokerStats =
  total_messages_published :: int
  total_messages_delivered :: int
  total_messages_dropped :: int
  total_messages_expired :: int
  active_subscribers :: int
  avg_latency_ms :: pyfloat
  p99_latency_ms :: pyfloat
  queue_depth :: int
  throughput_per_sec :: pyfloat

definition empty_stats :: BrokerStats where
  "empty_stats = \<lparr>total_messages_published = 0, total_messages_delivered = 0, total_messages_dropped = 0,
     total_messages_expired = 0, active_subscribers = 0, avg_latency_ms = 0, p99_latency_ms = 0, queue_depth = 0,
     throughput_per_sec = 0\<rparr>"

text \<open>A processing task is at the test of \<open>_running\<close> or waits for a message.\<close>

datatype loop_state = At_Test | Waiting

text \<open>A Ray actor is what a call of \<open>process.remote\<close> with the JSON of a message does.\<close>

record 'w broker =
  subscribers :: "(MessageType, 'w Subscription list) dict"
  subscriber_by_id :: "(string, 'w Subscription) dict"
  pending_messages :: "Message list"
  dead_letters :: dlq
  stats :: BrokerStats
  latency_samples :: "pyfloat list"
  running :: bool
  enable_ray :: bool
  ray_actors :: "(string, json \<Rightarrow> 'w \<Rightarrow> exn option \<times> 'w) dict"
  loops :: "loop_state list"

definition broker_init :: "bool \<Rightarrow> bool \<Rightarrow> 'w broker" where
  "broker_init ray_available want_ray =
     \<lparr>subscribers = [], subscriber_by_id = [], pending_messages = [], dead_letters = dlq_init 10000, stats = empty_stats,
      latency_samples = [], running = False, enable_ray = (want_ray \<and> ray_available), ray_actors = [], loops = []\<rparr>"

text \<open>\<open>ray_ok\<close>: \<open>ray.init\<close> did not raise.\<close>

definition start :: "bool \<Rightarrow> 'w broker \<Rightarrow> 'w broker" where
  "start ray_ok b =
     (if running b then b
      else b\<lparr>running := True, enable_ray := enable_ray b \<and> ray_ok, loops := loops b @ [At_Test]\<rparr>)"

definition stop :: "'w broker \<Rightarrow> 'w broker" where
  "stop b = b\<lparr>running := False\<rparr>"

text \<open>\<open>await put\<close> waits while 100000 messages are pending; \<open>QueueFull\<close> is raised by \<open>put_nowait\<close> only.\<close>

definition publish :: "int \<Rightarrow> pyfloat \<Rightarrow> Message \<Rightarrow> 'w broker \<Rightarrow> bool call \<times> 'w broker" where
  "publish now_ns now m b =
     (if message_expired now_ns m then
        (Returns False,
         b\<lparr>dead_letters := dlq_add now m ''Message expired before publishing'' (dead_letters b),
           stats := (stats b)\<lparr>total_messages_expired := total_messages_expired (stats b) + 1\<rparr>\<rparr>)
      else if length (pending_messages b) \<ge> 100000 then (Blocks, b)
      else
        (let q = pending_messages b @ [m]
         in (Returns True,
             b\<lparr>pending_messages := q,
               stats := (stats b)\<lparr>total_messages_published := total_messages_published (stats b) + 1,
                                  queue_depth := int (length q)\<rparr>\<rparr>)))"

definition topic_subscribers :: "'w broker \<Rightarrow> MessageType \<Rightarrow> 'w Subscription list" where
  "topic_subscribers b t = (case dict_get (subscribers b) t of None \<Rightarrow> [] | Some l \<Rightarrow> l)"

text \<open>\<open>for topic in topics\<close>; \<open>ord\<close> enumerates the set.\<close>

definition subscribe ::
  "(MessageType set \<Rightarrow> MessageType list) \<Rightarrow> string \<Rightarrow> MessageType set \<Rightarrow> (Message \<Rightarrow> 'w \<Rightarrow> exn option \<times> 'w) option \<Rightarrow>
   (Message \<Rightarrow> 'w \<Rightarrow> (exn + bool) \<times> 'w) option \<Rightarrow> 'w broker \<Rightarrow> string \<times> 'w broker" where
  "subscribe ord sid ts cb flt b =
     (let sub = \<lparr>subscriber_id = sid, topics = ts, callback = cb, filter_fn = flt, max_queue_size = 10000, sub_active = True\<rparr>;
          b1 = fold (\<lambda>t b. b\<lparr>subscribers := dict_set t (topic_subscribers b t @ [sub]) (subscribers b)\<rparr>) (ord ts) b;
          ids = dict_set sid sub (subscriber_by_id b1)
      in (sid, b1\<lparr>subscriber_by_id := ids, stats := (stats b1)\<lparr>active_subscribers := int (length ids)\<rparr>\<rparr>))"

definition unsubscribe ::
  "(MessageType set \<Rightarrow> MessageType list) \<Rightarrow> string \<Rightarrow> 'w broker \<Rightarrow> bool \<times> 'w broker" where
  "unsubscribe ord sid b =
     (case dict_get (subscriber_by_id b) sid of
        None \<Rightarrow> (False, b)
      | Some sub \<Rightarrow>
          (let ids = dict_pop sid (subscriber_by_id b);
               b1 = fold (\<lambda>t b. b\<lparr>subscribers := dict_set t (filter (\<lambda>s. subscriber_id s \<noteq> sid) (topic_subscribers b t))
                            (subscribers b)\<rparr>) (ord (topics sub)) (b\<lparr>subscriber_by_id := ids\<rparr>)
           in (True, b1\<lparr>stats := (stats b1)\<lparr>active_subscribers := int (length ids)\<rparr>\<rparr>)))"

text \<open>The exceptions of an actor are logged and dropped.\<close>

definition invoke_ray_actor :: "'w broker \<Rightarrow> Message \<Rightarrow> string \<Rightarrow> 'w \<Rightarrow> 'w" where
  "invoke_ray_actor b m sid w =
     (if \<not> enable_ray b then w
      else case dict_get (ray_actors b) sid of None \<Rightarrow> w | Some actor \<Rightarrow> snd (actor (to_json m) w))"

definition delivery_failed :: "(exn \<Rightarrow> string) \<Rightarrow> string \<Rightarrow> exn \<Rightarrow> string" where
  "delivery_failed msg sid e = ''Delivery failed to '' @ sid @ '': '' @ msg e"

text \<open>The loop over the subscriptions of a message. A filter is called outside the \<open>try\<close>: what it raises ends the loop.\<close>

fun deliver ::
  "(exn \<Rightarrow> string) \<Rightarrow> pyfloat \<Rightarrow> 'w broker \<Rightarrow> Message \<Rightarrow> 'w Subscription list \<Rightarrow> dlq \<Rightarrow> 'w \<Rightarrow> exn option \<times> dlq \<times> 'w" where
  "deliver msg now b m [] q w = (None, q, w)"
| "deliver msg now b m (s # ss) q w =
     (if \<not> sub_active s then deliver msg now b m ss q w
      else
        (case (case filter_fn s of None \<Rightarrow> (Inr True, w) | Some f \<Rightarrow> f m w) of
           (Inl e, w1) \<Rightarrow> (Some e, q, w1)
         | (Inr False, w1) \<Rightarrow> deliver msg now b m ss q w1
         | (Inr True, w1) \<Rightarrow>
             (case (case callback s of None \<Rightarrow> (None, w1) | Some cb \<Rightarrow> cb m w1) of
                (Some e, w2) \<Rightarrow> deliver msg now b m ss (dlq_add now m (delivery_failed msg (subscriber_id s) e) q) w2
              | (None, w2) \<Rightarrow> deliver msg now b m ss q (invoke_ray_actor b m (subscriber_id s) w2))))"

definition route_message ::
  "(exn \<Rightarrow> string) \<Rightarrow> pyfloat \<Rightarrow> Message \<Rightarrow> 'w broker \<Rightarrow> 'w \<Rightarrow> exn option \<times> 'w broker \<times> 'w" where
  "route_message msg now m b w =
     (case deliver msg now b m (topic_subscribers b (message_type m)) (dead_letters b) w of
        (r, q, w1) \<Rightarrow> (r, b\<lparr>dead_letters := q\<rparr>, w1))"

text \<open>Taking and processing one message; \<open>t0\<close> and \<open>t1\<close> are the clock before and after routing.\<close>

definition process_one ::
  "(exn \<Rightarrow> string) \<Rightarrow> pyfloat \<Rightarrow> pyfloat \<Rightarrow> pyfloat \<Rightarrow> 'w broker \<Rightarrow> 'w \<Rightarrow> 'w broker \<times> 'w" where
  "process_one msg t0 now t1 b w =
     (case pending_messages b of
        [] \<Rightarrow> (b, w)
      | m # ms \<Rightarrow>
          (case route_message msg now m (b\<lparr>pending_messages := ms\<rparr>) w of
             (Some e, b1, w1) \<Rightarrow> (b1, w1)
           | (None, b1, w1) \<Rightarrow>
               (let l = latency_samples b1 @ [fmul (fsub t1 t0) 1000]
                in (b1\<lparr>latency_samples := if length l > 1000 then slice_from (- 1000) l else l,
                       stats := (stats b1)\<lparr>total_messages_delivered := total_messages_delivered (stats b1) + 1\<rparr>\<rparr>, w1))))"

text \<open>One step of processing task \<open>i\<close>: it tests \<open>_running\<close> and ends or waits, or it takes the next message, or times out.\<close>

definition remove_at :: "nat \<Rightarrow> 'a list \<Rightarrow> 'a list" where
  "remove_at i xs = take i xs @ drop (Suc i) xs"

definition loop_step ::
  "(exn \<Rightarrow> string) \<Rightarrow> pyfloat \<Rightarrow> pyfloat \<Rightarrow> pyfloat \<Rightarrow> nat \<Rightarrow> 'w broker \<times> 'w \<Rightarrow> 'w broker \<times> 'w" where
  "loop_step msg t0 now t1 i = (\<lambda>(b, w).
     if i \<ge> length (loops b) then (b, w)
     else case loops b ! i of
            At_Test \<Rightarrow>
              (if running b then (b\<lparr>loops := (loops b)[i := Waiting]\<rparr>, w) else (b\<lparr>loops := remove_at i (loops b)\<rparr>, w))
          | Waiting \<Rightarrow>
              (case process_one msg t0 now t1 b w of (b1, w1) \<Rightarrow> (b1\<lparr>loops := (loops b1)[i := At_Test]\<rparr>, w1)))"

definition register_ray_actor :: "string \<Rightarrow> (json \<Rightarrow> 'w \<Rightarrow> exn option \<times> 'w) \<Rightarrow> 'w broker \<Rightarrow> 'w broker" where
  "register_ray_actor sid actor b = b\<lparr>ray_actors := dict_set sid actor (ray_actors b)\<rparr>"

definition get_stats :: "'w broker \<Rightarrow> BrokerStats \<times> 'w broker" where
  "get_stats b =
     (let xs = sort (latency_samples b); n = length xs;
          st = (if latency_samples b = [] then stats b
                else
                  (let i = nat (int_of_float (fmul (of_nat n) (fl (99 / 100))))
                   in (stats b)\<lparr>avg_latency_ms := fdiv (foldl fadd 0 xs) (of_nat n),
                                p99_latency_ms := if i < n then xs ! i else 0\<rparr>));
          st1 = st\<lparr>queue_depth := int (length (pending_messages b))\<rparr>
      in (st1, b\<lparr>stats := st1\<rparr>))"

definition get_dlq_messages :: "int \<Rightarrow> 'w broker \<Rightarrow> (Message \<times> string \<times> pyfloat) list" where
  "get_dlq_messages count b = dlq_get_recent count (dead_letters b)"

definition clear_dlq :: "'w broker \<Rightarrow> int \<times> 'w broker" where
  "clear_dlq b = (let (n, q) = dlq_clear (dead_letters b) in (n, b\<lparr>dead_letters := q\<rparr>))"

section \<open>Nautilus events\<close>

definition type_mapping :: "(string, MessageType) dict" where
  "type_mapping =
     [(''OrderSubmitted'', ORDER), (''OrderAccepted'', ORDER), (''OrderRejected'', ORDER), (''OrderFilled'', FILL),
      (''OrderCancelled'', CANCEL), (''PositionOpened'', POSITION), (''PositionClosed'', POSITION), (''AccountState'', PNL)]"

definition adapt_event :: "string \<Rightarrow> int \<Rightarrow> string \<Rightarrow> (string, json) dict \<Rightarrow> Message" where
  "adapt_event uuid now event_type event_data =
     message_create uuid now
       (case dict_get type_mapping event_type of None \<Rightarrow> NAUTILUS_EVENT | Some t \<Rightarrow> t)
       event_data ''nautilus''
       (if event_type \<in> {''OrderRejected'', ''RiskAlert''} then HIGH
        else if event_type = ''SystemEvent'' then CRITICAL else NORMAL)
       None 30000"

section \<open>The JSON form\<close>

lemma as_headers_strings: "as_headers (map (map_prod id JStr) d) = Inr d"
  by (induction d) auto

text \<open>A message survives its JSON form: reading what \<open>to_json\<close> wrote gives back every field, absent correlation and reply ids included.\<close>
theorem message_json_roundtrip: "from_json (to_json m) = Inr m"
proof -
  have "type_of_json (JStr (type_value (message_type m))) = Inr (message_type m)"
    by (cases "message_type m") (simp_all add: type_of_json_def enum_of_def message_types_def)
  moreover have "priority_of_json (JInt (priority_value (priority m))) = Inr (priority m)"
    by (cases "priority m") (simp_all add: priority_of_json_def enum_of_def message_priorities_def)
  moreover have "as_opt_string (json_opt x) = Inr x" for x by (cases x) (simp_all add: json_opt_def)
  ultimately show ?thesis
    by (simp add: from_json_def to_json_def bind_def need_def get_or_def as_headers_strings)
qed

section \<open>Routing\<close>

text \<open>What one subscription does with a message when its filter does not raise and Ray is off.\<close>

definition handle_by :: "Message \<Rightarrow> 'w Subscription \<Rightarrow> 'w \<Rightarrow> 'w" where
  "handle_by m s w =
     (if \<not> sub_active s then w
      else
        (case (case filter_fn s of None \<Rightarrow> (Inr True, w) | Some f \<Rightarrow> f m w) of
           (Inr True, w1) \<Rightarrow> (case callback s of None \<Rightarrow> w1 | Some cb \<Rightarrow> snd (cb m w1))
         | (_, w1) \<Rightarrow> w1))"

definition quiet_filter :: "'w Subscription \<Rightarrow> bool" where
  "quiet_filter s \<longleftrightarrow> (\<forall>f m w. filter_fn s = Some f \<longrightarrow> (\<exists>r w'. f m w = (Inr r, w')))"

lemma quiet_filterE:
  assumes "quiet_filter s"
  obtains r w' where "(case filter_fn s of None \<Rightarrow> (Inr True, w) | Some f \<Rightarrow> f m w) = (Inr r, w')"
proof (cases "filter_fn s")
  case None
  then show thesis using that [of True w] by simp
next
  case (Some f)
  then have "\<exists>r w'. f m w = (Inr r, w')" using assms unfolding quiet_filter_def by blast
  then obtain r w' where "f m w = (Inr r, w')" by blast
  then show thesis using that Some by simp
qed

lemma deliver_all:
  assumes "\<not> enable_ray b" "\<forall>s \<in> set ss. quiet_filter s"
  shows "\<exists>q'. deliver msg now b m ss q w = (None, q', fold (handle_by m) ss w)"
  using assms(2)
proof (induction ss arbitrary: q w)
  case (Cons s ss)
  obtain r w1 where f: "(case filter_fn s of None \<Rightarrow> (Inr True, w) | Some f \<Rightarrow> f m w) = (Inr r, w1)"
    by (rule quiet_filterE [of s w m]) (use Cons.prems in simp_all)
  obtain e w2 where c: "(case callback s of None \<Rightarrow> (None, w1) | Some cb \<Rightarrow> cb m w1) = (e, w2)"
    by (cases "case callback s of None \<Rightarrow> (None, w1) | Some cb \<Rightarrow> cb m w1") 
  have h: "sub_active s \<Longrightarrow> handle_by m s w = (if r then w2 else w1)"
    using f c by (auto simp: handle_by_def split: option.splits)
  show ?case
    using Cons f c h assms(1) by (cases "sub_active s"; cases r; cases e) (auto simp: invoke_ray_actor_def handle_by_def)
qed simp

definition quiet_broker :: "'w broker \<Rightarrow> bool" where
  "quiet_broker b \<longleftrightarrow> \<not> enable_ray b \<and> (\<forall>t. \<forall>s \<in> set (topic_subscribers b t). quiet_filter s)"

lemma process_one_quiet:
  assumes "quiet_broker b" "pending_messages b = m # ms"
  shows "\<exists>b'. process_one msg t0 now t1 b w = (b', fold (handle_by m) (topic_subscribers b (message_type m)) w) \<and>
    pending_messages b' = ms \<and> subscribers b' = subscribers b \<and> enable_ray b' = enable_ray b \<and> running b' = running b \<and>
    loops b' = loops b \<and> total_messages_delivered (stats b') = total_messages_delivered (stats b) + 1"
proof -
  let ?b = "b\<lparr>pending_messages := ms\<rparr>"
  have t: "topic_subscribers ?b = topic_subscribers b" by (simp add: topic_subscribers_def fun_eq_iff)
  obtain q' where "deliver msg now ?b m (topic_subscribers b (message_type m)) (dead_letters b) w =
      (None, q', fold (handle_by m) (topic_subscribers b (message_type m)) w)"
    using deliver_all [of ?b "topic_subscribers b (message_type m)" msg now m "dead_letters b" w] assms(1)
    by (auto simp: quiet_broker_def)
  then show ?thesis by (simp add: process_one_def assms(2) route_message_def t Let_def)
qed

text \<open>C12: Every published message reaches every subscriber of its type once, in the order of publication: with Ray off and filters
  that do not raise, a processing task works through the pending messages in two steps each, and what the subscribers have
  seen is what calling the accepting ones on each message in turn does.\<close>
theorem messages_delivered_in_order:
  assumes "quiet_broker b" "running b" "loops b = [At_Test]" "length ts = 2 * length (pending_messages b)"
    "fold (\<lambda>(t0, now, t1). loop_step msg t0 now t1 0) ts (b, w) = (b', w')"
  shows "w' = fold (\<lambda>m. fold (handle_by m) (topic_subscribers b (message_type m))) (pending_messages b) w \<and>
    pending_messages b' = [] \<and> loops b' = [At_Test] \<and>
    total_messages_delivered (stats b') = total_messages_delivered (stats b) + int (length (pending_messages b))"
  using assms
proof (induction "pending_messages b" arbitrary: b ts w)
  case Nil
  then show ?case by simp
next
  case (Cons m ms)
  have p: "pending_messages b = m # ms" using Cons.hyps(2) by simp
  obtain x y us where ts: "ts = x # y # us" "length us = 2 * length ms"
    using Cons.prems(4) unfolding p by (cases ts; cases "tl ts") auto
  obtain t0 now t1 u0 now' u1 where xy: "x = (t0, now, t1)" "y = (u0, now', u1)" by (cases x; cases y) auto
  let ?w1 = "fold (handle_by m) (topic_subscribers b (message_type m)) w"
  have q: "quiet_broker (b\<lparr>loops := [Waiting]\<rparr>)" using Cons.prems(1) by (simp add: quiet_broker_def topic_subscribers_def)
  have t: "topic_subscribers (b\<lparr>loops := [Waiting]\<rparr>) = topic_subscribers b" by (simp add: topic_subscribers_def fun_eq_iff)
  obtain b1 where b1: "process_one msg u0 now' u1 (b\<lparr>loops := [Waiting]\<rparr>) w = (b1, ?w1)" "pending_messages b1 = ms"
    "subscribers b1 = subscribers b" "enable_ray b1 = enable_ray b" "running b1 = running b" "loops b1 = [Waiting]"
    "total_messages_delivered (stats b1) = total_messages_delivered (stats b) + 1"
    using process_one_quiet [OF q, of m ms msg u0 now' u1 w] p by (auto simp: t)
  let ?b2 = "b1\<lparr>loops := [At_Test]\<rparr>"
  have s: "topic_subscribers ?b2 = topic_subscribers b" using b1(3) by (simp add: topic_subscribers_def fun_eq_iff)
  have "fold (\<lambda>(t0, now, t1). loop_step msg t0 now t1 0) us (?b2, ?w1) = (b', w')"
    using Cons.prems(2,3,5) b1(1,6) by (simp add: ts xy loop_step_def)
  moreover have "quiet_broker ?b2" using Cons.prems(1) b1(4) s by (simp add: quiet_broker_def)
  ultimately show ?case
    using Cons.hyps(1) [of ?b2 us ?w1] ts(2) b1 Cons.prems(2) s p by simp
qed

definition demo_message :: "string \<Rightarrow> Message" where
  "demo_message i = message_create i 1000 TICK [] ''test'' NORMAL None 30000"

definition demo_broker :: "string list broker" where
  "demo_broker =
     (let b = start True (broker_init False False);
          b1 = snd (subscribe (\<lambda>_. [TICK]) ''s1'' {TICK} (Some (\<lambda>m w. (None, w @ [m_id m]))) None b);
          b2 = snd (subscribe (\<lambda>_. [TICK]) ''s2'' {TICK} (Some (\<lambda>m w. (Some RuntimeError, w @ [''seen'' @ m_id m]))) None b1)
      in snd (publish 1000 1 (demo_message ''b'') (snd (publish 1000 1 (demo_message ''a'') b2))))"

lemmas demo_eval = demo_broker_def start_def broker_init_def subscribe_def topic_subscribers_def publish_def
  demo_message_def message_create_def message_expired_def empty_stats_def Let_def

theorem messages_delivered_in_order_witness:
  "snd (fold (\<lambda>(t0, now, t1). loop_step (\<lambda>_. []) t0 now t1 0) (replicate 4 (1, 1, 1)) (demo_broker, [])) =
    [''a'', ''seena'', ''b'', ''seenb'']"
proof -
  obtain b' w' where r: "fold (\<lambda>(t0, now, t1). loop_step (\<lambda>_. []) t0 now t1 0) (replicate 4 (1, 1, 1)) (demo_broker, []) = (b', w')"
    by force
  have "quiet_broker demo_broker" "running demo_broker" "loops demo_broker = [At_Test]"
    "length (replicate 4 (1 :: pyfloat, 1 :: pyfloat, 1 :: pyfloat)) = 2 * length (pending_messages demo_broker)"
    by (simp_all add: demo_eval quiet_broker_def quiet_filter_def split: if_splits)
  from messages_delivered_in_order [OF this r]
  have "w' = fold (\<lambda>m. fold (handle_by m) (topic_subscribers demo_broker (message_type m))) (pending_messages demo_broker) []" by simp
  also have "\<dots> = [''a'', ''seena'', ''b'', ''seenb'']" by (simp add: demo_eval handle_by_def)
  finally show ?thesis by (simp only: r snd_conv)
qed

text \<open>A filter that raises takes the message away from everyone: it is gone from the queue, no later subscriber sees it, it is not in the
  dead letter queue and not counted as delivered, although the exception is logged and the loop goes on.\<close>
theorem filter_error_loses_message:
  assumes "pending_messages b = m # ms" "topic_subscribers b (message_type m) = s # ss" "sub_active s"
    "filter_fn s = Some f" "f m w = (Inl e, w1)" "loops b ! i = Waiting" "i < length (loops b)"
  shows "\<exists>b'. loop_step msg t0 now t1 i (b, w) = (b', w1) \<and> pending_messages b' = ms \<and>
    dead_letters b' = dead_letters b \<and> stats b' = stats b \<and> loops b' = (loops b)[i := At_Test]"
proof -
  have "topic_subscribers (b\<lparr>pending_messages := ms\<rparr>) (message_type m) = s # ss"
    using assms(2) by (simp add: topic_subscribers_def)
  then show ?thesis using assms by (simp add: loop_step_def process_one_def route_message_def)
qed

definition demo_filtered :: "string list broker" where
  "demo_filtered = demo_broker\<lparr>loops := [Waiting], subscribers := dict_set TICK
     (\<lparr>subscriber_id = ''s0'', topics = {TICK}, callback = None, filter_fn = Some (\<lambda>m w. (Inl KeyError, w)),
       max_queue_size = 10000, sub_active = True\<rparr> # topic_subscribers demo_broker TICK) (subscribers demo_broker)\<rparr>"

theorem filter_error_loses_message_witness:
  "\<exists>b'. loop_step (\<lambda>_. []) 1 1 1 0 (demo_filtered, []) = (b', []) \<and> map m_id (pending_messages demo_filtered) = [''a'', ''b''] \<and>
    map m_id (pending_messages b') = [''b''] \<and> dlq_size (dead_letters b') = 0"
proof -
  have p: "pending_messages demo_filtered = [demo_message ''a'', demo_message ''b'']" "dead_letters demo_filtered = dlq_init 10000"
    by (simp_all add: demo_filtered_def demo_eval)
  obtain s ss f where s: "topic_subscribers demo_filtered TICK = s # ss" "sub_active s" "filter_fn s = Some f"
    "f (demo_message ''a'') [] = (Inl KeyError, [])"
    by (simp add: demo_filtered_def topic_subscribers_def dict_get_set)
  have "message_type (demo_message ''a'') = TICK" by (simp add: demo_message_def message_create_def)
  from filter_error_loses_message [OF p(1), unfolded this, OF s, of 0 "\<lambda>_. []" 1 1 1] show ?thesis
    using p by (auto simp: demo_filtered_def dlq_size_def dlq_init_def demo_message_def message_create_def)
qed

section \<open>Accounting\<close>

datatype 'w broker_op =
    Op_Start bool
  | Op_Stop
  | Op_Publish int pyfloat Message
  | Op_Subscribe "MessageType set \<Rightarrow> MessageType list" string "MessageType set"
      "(Message \<Rightarrow> 'w \<Rightarrow> exn option \<times> 'w) option" "(Message \<Rightarrow> 'w \<Rightarrow> (exn + bool) \<times> 'w) option"
  | Op_Unsubscribe "MessageType set \<Rightarrow> MessageType list" string
  | Op_Loop "exn \<Rightarrow> string" pyfloat pyfloat pyfloat nat
  | Op_Actor string "json \<Rightarrow> 'w \<Rightarrow> exn option \<times> 'w"
  | Op_Stats
  | Op_Clear_DLQ

fun broker_step :: "'w broker_op \<Rightarrow> 'w broker \<times> 'w \<Rightarrow> 'w broker \<times> 'w" where
  "broker_step (Op_Start ok) (b, w) = (start ok b, w)"
| "broker_step Op_Stop (b, w) = (stop b, w)"
| "broker_step (Op_Publish ns now m) (b, w) = (snd (publish ns now m b), w)"
| "broker_step (Op_Subscribe ord sid ts cb flt) (b, w) = (snd (subscribe ord sid ts cb flt b), w)"
| "broker_step (Op_Unsubscribe ord sid) (b, w) = (snd (unsubscribe ord sid b), w)"
| "broker_step (Op_Loop msg t0 now t1 i) (b, w) = loop_step msg t0 now t1 i (b, w)"
| "broker_step (Op_Actor sid a) (b, w) = (register_ray_actor sid a b, w)"
| "broker_step Op_Stats (b, w) = (snd (get_stats b), w)"
| "broker_step Op_Clear_DLQ (b, w) = (snd (clear_dlq b), w)"

definition broker_inv :: "'w broker \<Rightarrow> bool" where
  "broker_inv b \<longleftrightarrow>
     dlq_max_size (dead_letters b) = 10000 \<and> length (dlq_queue (dead_letters b)) \<le> 10000 \<and>
     length (pending_messages b) \<le> 100000 \<and> length (latency_samples b) \<le> 1000 \<and>
     0 \<le> total_messages_delivered (stats b) \<and>
     total_messages_delivered (stats b) + int (length (pending_messages b)) \<le> total_messages_published (stats b) \<and>
     total_messages_dropped (stats b) = 0 \<and> 0 \<le> total_messages_expired (stats b) \<and>
     active_subscribers (stats b) = int (length (subscriber_by_id b)) \<and> wf_dict (subscriber_by_id b)"

lemma dlq_add_bound:
  assumes "dlq_max_size q = 10000" "length (dlq_queue q) \<le> 10000"
  shows "dlq_max_size (dlq_add now m r q) = 10000 \<and> length (dlq_queue (dlq_add now m r q)) \<le> 10000"
  using assms length_slice_le [of 10000 "dlq_queue q @ [(m, r, now)]"] by (auto simp: dlq_add_def Let_def)

lemma deliver_dlq:
  assumes "dlq_max_size q = 10000" "length (dlq_queue q) \<le> 10000"
  shows "dlq_max_size (fst (snd (deliver msg now b m ss q w))) = 10000 \<and>
    length (dlq_queue (fst (snd (deliver msg now b m ss q w)))) \<le> 10000"
  using assms
proof (induction ss arbitrary: q w)
  case (Cons s ss)
  show ?case
  proof (cases "sub_active s")
    case True
    obtain r w1 where f: "(case filter_fn s of None \<Rightarrow> (Inr True, w) | Some f \<Rightarrow> f m w) = (r, w1)" by force
    obtain e w2 where c: "(case callback s of None \<Rightarrow> (None, w1) | Some cb \<Rightarrow> cb m w1) = (e, w2)" by force
    show ?thesis
    proof (cases r)
      case (Inr ok)
      then show ?thesis
        using True f c Cons.IH Cons.prems dlq_add_bound [OF Cons.prems] by (cases ok; cases e) simp_all
    qed (use True f Cons.prems in simp)
  qed (use Cons in simp)
qed simp

lemma process_one_inv:
  assumes "broker_inv b" "process_one msg t0 now t1 b w = (b', w')" shows "broker_inv b' \<and> loops b' = loops b"
proof (cases "pending_messages b")
  case Nil
  then show ?thesis using assms by (simp add: process_one_def)
next
  case (Cons m ms)
  let ?b = "b\<lparr>pending_messages := ms\<rparr>"
  obtain r q w1 where d: "deliver msg now ?b m (topic_subscribers ?b (message_type m)) (dead_letters b) w = (r, q, w1)"
    using prod_cases3 by blast
  have "dlq_max_size q = 10000 \<and> length (dlq_queue q) \<le> 10000"
    using assms(1) deliver_dlq [of "dead_letters b" msg now ?b m "topic_subscribers ?b (message_type m)" w] d
    by (simp add: broker_inv_def)
  moreover have "length (slice_from (- 1000) l) \<le> 1000" for l :: "pyfloat list" using length_slice_le [of 1000 l] by simp
  ultimately show ?thesis
    using assms d Cons
    by (cases r) (auto simp: process_one_def route_message_def broker_inv_def Let_def split: if_splits)
qed

lemma fold_subscribers:
  "\<exists>sb. fold (\<lambda>t b. b\<lparr>subscribers := f t b\<rparr>) ts b = b\<lparr>subscribers := sb\<rparr>"
proof (induction ts arbitrary: b)
  case Nil
  show ?case by (intro exI [of _ "subscribers b"]) simp
next
  case (Cons t ts)
  obtain sb where "fold (\<lambda>t b. b\<lparr>subscribers := f t b\<rparr>) ts (b\<lparr>subscribers := f t b\<rparr>) = b\<lparr>subscribers := f t b\<rparr>\<lparr>subscribers := sb\<rparr>"
    using Cons by blast
  then show ?case by auto
qed

lemma broker_step_inv:
  assumes "broker_inv (fst p)" shows "broker_inv (fst (broker_step x p))"
proof -
  obtain b w where p: "p = (b, w)" by force
  have b: "broker_inv b" using assms p by simp
  show ?thesis
  proof (cases x)
    case (Op_Publish ns now m)
    then show ?thesis
      using b dlq_add_bound [of "dead_letters b" now m "''Message expired before publishing''"]
      by (auto simp: p publish_def broker_inv_def Let_def)
  next
    case (Op_Subscribe ord sid ts cb flt)
    let ?sub = "\<lparr>subscriber_id = sid, topics = ts, callback = cb, filter_fn = flt, max_queue_size = 10000, sub_active = True\<rparr>"
    obtain sb where "fold (\<lambda>t b. b\<lparr>subscribers := dict_set t (topic_subscribers b t @ [?sub]) (subscribers b)\<rparr>) (ord ts) b =
        b\<lparr>subscribers := sb\<rparr>" using fold_subscribers [of "\<lambda>t b. dict_set t (topic_subscribers b t @ [?sub]) (subscribers b)"] by blast
    then show ?thesis using b by (simp add: p Op_Subscribe subscribe_def broker_inv_def Let_def)
  next
    case (Op_Unsubscribe ord sid)
    show ?thesis
    proof (cases "dict_get (subscriber_by_id b) sid")
      case (Some sub)
      let ?f = "\<lambda>t b. dict_set t (filter (\<lambda>s. subscriber_id s \<noteq> sid) (topic_subscribers b t)) (subscribers b)"
      obtain sb where "fold (\<lambda>t b. b\<lparr>subscribers := ?f t b\<rparr>) (ord (topics sub))
          (b\<lparr>subscriber_by_id := dict_pop sid (subscriber_by_id b)\<rparr>) =
          b\<lparr>subscriber_by_id := dict_pop sid (subscriber_by_id b)\<rparr>\<lparr>subscribers := sb\<rparr>" using fold_subscribers [of ?f] by blast
      then show ?thesis using b Some by (simp add: p Op_Unsubscribe unsubscribe_def broker_inv_def Let_def)
    qed (use b in \<open>simp add: p Op_Unsubscribe unsubscribe_def\<close>)
  next
    case (Op_Loop msg t0 now t1 i)
    obtain b' w' where o: "process_one msg t0 now t1 b w = (b', w')" by force
    have "broker_inv (b\<lparr>loops := l\<rparr>)" for l using b by (simp add: broker_inv_def)
    moreover have "broker_inv (b'\<lparr>loops := l\<rparr>)" for l using process_one_inv [OF b o] by (simp add: broker_inv_def)
    ultimately show ?thesis using b by (auto simp: p Op_Loop loop_step_def o split: loop_state.split)
  next
    case Op_Stats
    then show ?thesis using b by (simp add: p get_stats_def broker_inv_def Let_def)
  qed (use b in \<open>simp_all add: p start_def stop_def register_ray_actor_def clear_dlq_def dlq_clear_def broker_inv_def\<close>)
qed

interpretation mb: op_machine broker_step "\<lambda>p. broker_inv (fst p)"
  by unfold_locales (rule broker_step_inv)

text \<open>The books of a broker: after any sequence of calls and steps of its processing tasks, a message that was accepted
  is still pending, counted as delivered, or was lost to a filter that raised; the queues and samples stay within their
  limits, the number of active subscribers is right, and nothing is ever counted as dropped, because a full queue makes
  \<open>publish\<close> wait.\<close>
theorem broker_accounting:
  "broker_inv (fst (fold broker_step xs (broker_init ray_available want_ray, w)))"
proof -
  have "broker_inv (fst (broker_init ray_available want_ray, w))"
    by (simp add: broker_inv_def broker_init_def dlq_init_def empty_stats_def)
  then show ?thesis by (rule mb.run_inv)
qed

lemma topic_subscribers_fold:
  assumes "distinct ts"
  shows "topic_subscribers (fold (\<lambda>t b. b\<lparr>subscribers := dict_set t (f (topic_subscribers b t)) (subscribers b)\<rparr>) ts b) t =
    (if t \<in> set ts then f (topic_subscribers b t) else topic_subscribers b t)"
  using assms
proof (induction ts arbitrary: b)
  case (Cons u ts)
  have "topic_subscribers (b\<lparr>subscribers := dict_set u x (subscribers b)\<rparr>) t = (if t = u then x else topic_subscribers b t)" for x
    by (simp add: topic_subscribers_def dict_get_set)
  then show ?case using Cons by auto
qed simp

text \<open>Subscribing an id again replaces its entry but not its old subscriptions: unsubscribing then removes only the second set of
  topics, the old callback keeps being called for the first ones, and no further call of \<open>unsubscribe\<close> can stop it.\<close>
theorem stale_subscription:
  assumes "lists_sets ord" "t \<in> ts" "t \<notin> ts'"
    "snd (subscribe ord sid ts (Some cb) flt b) = b1" "snd (subscribe ord sid ts' cb' flt' b1) = b2"
    "unsubscribe ord sid b2 = (r, b3)"
  shows "r \<and> (\<exists>s \<in> set (topic_subscribers b3 t). subscriber_id s = sid \<and> callback s = Some cb \<and> sub_active s) \<and>
    unsubscribe ord sid b3 = (False, b3)"
proof -
  have o: "set (ord S) = S" "distinct (ord S)" for S :: "MessageType set"
  proof -
    have "finite S" by (rule finite_subset [of _ "{TICK, ORDER, FILL, CANCEL, POSITION, PNL, SIGNAL, RISK, SYSTEM, NAUTILUS_EVENT}"])
      (auto intro: MessageType.exhaust)
    then show "set (ord S) = S" "distinct (ord S)" using assms(1) by (simp_all add: lists_sets_def)
  qed
  let ?s1 = "\<lparr>subscriber_id = sid, topics = ts, callback = Some cb, filter_fn = flt, max_queue_size = 10000, sub_active = True\<rparr>"
  let ?s2 = "\<lparr>subscriber_id = sid, topics = ts', callback = cb', filter_fn = flt', max_queue_size = 10000, sub_active = True\<rparr>"
  have ts: "topic_subscribers (c\<lparr>subscriber_by_id := d, stats := e\<rparr>) = topic_subscribers c"
    "topic_subscribers (c\<lparr>subscriber_by_id := d\<rparr>) = topic_subscribers c"
    "topic_subscribers (c\<lparr>stats := e\<rparr>) = topic_subscribers c" for c :: "'a broker" and d e
    by (simp_all add: topic_subscribers_def fun_eq_iff)
  have b1: "topic_subscribers b1 t = topic_subscribers b t @ [?s1]"
    using assms(2,4) topic_subscribers_fold [OF o(2), of "\<lambda>l. l @ [?s1]" ts b t] by (auto simp: subscribe_def Let_def ts o)
  have b2: "topic_subscribers b2 t = topic_subscribers b t @ [?s1]" "dict_get (subscriber_by_id b2) sid = Some ?s2"
    using assms(3,5) topic_subscribers_fold [OF o(2), of "\<lambda>l. l @ [?s2]" ts' b1 t] by (auto simp: subscribe_def Let_def ts o b1 dict_get_set)
  let ?f = "\<lambda>t b. dict_set t (filter (\<lambda>s. subscriber_id s \<noteq> sid) (topic_subscribers b t)) (subscribers b)"
  let ?c = "b2\<lparr>subscriber_by_id := dict_pop sid (subscriber_by_id b2)\<rparr>"
  obtain sb where sb: "fold (\<lambda>t b. b\<lparr>subscribers := ?f t b\<rparr>) (ord ts') ?c = ?c\<lparr>subscribers := sb\<rparr>"
    using fold_subscribers [of ?f] by blast
  have "topic_subscribers (fold (\<lambda>t b. b\<lparr>subscribers := ?f t b\<rparr>) (ord ts') ?c) t = topic_subscribers b t @ [?s1]"
    using topic_subscribers_fold [OF o(2), of "filter (\<lambda>s. subscriber_id s \<noteq> sid)" ts' ?c t] assms(3) by (simp add: o ts b2)
  moreover have "r" "topic_subscribers b3 = topic_subscribers (fold (\<lambda>t b. b\<lparr>subscribers := ?f t b\<rparr>) (ord ts') ?c)"
    "dict_get (subscriber_by_id b3) sid = None"
    using assms(6) b2(2) sb by (auto simp: unsubscribe_def Let_def ts dict_get_pop)
  ultimately show ?thesis by (simp add: unsubscribe_def)
qed

definition all_types :: "MessageType list" where
  "all_types = [TICK, ORDER, FILL, CANCEL, POSITION, PNL, SIGNAL, RISK, SYSTEM, NAUTILUS_EVENT]"

lemma all_types: "set all_types = UNIV" "distinct all_types"
proof -
  have "t \<in> set all_types" for t by (cases t) (simp_all add: all_types_def)
  then show "set all_types = UNIV" by blast
qed (simp add: all_types_def)

definition type_order :: "MessageType set \<Rightarrow> MessageType list" where
  "type_order S = filter (\<lambda>t. t \<in> S) all_types"

lemma type_order_lists: "lists_sets type_order"
  by (simp add: lists_sets_def type_order_def all_types)

theorem stale_subscription_witness:
  "\<exists>b3 :: string list broker.
    unsubscribe type_order ''s'' (snd (subscribe type_order ''s'' {FILL} None None
      (snd (subscribe type_order ''s'' {TICK} (Some (\<lambda>m w. (None, w @ [m_id m]))) None (broker_init False False))))) = (True, b3) \<and>
    (\<exists>s \<in> set (topic_subscribers b3 TICK). subscriber_id s = ''s'' \<and> sub_active s) \<and> subscriber_by_id b3 = []"
proof -
  let ?b = "broker_init False False :: string list broker"
  let ?b2 = "snd (subscribe type_order ''s'' {FILL} None None
      (snd (subscribe type_order ''s'' {TICK} (Some (\<lambda>m w. (None, w @ [m_id m]))) None ?b)))"
  obtain r b3 where u: "unsubscribe type_order ''s'' ?b2 = (r, b3)" by force
  have "subscriber_by_id (snd (unsubscribe type_order ''s'' ?b2)) = []"
    by (simp add: unsubscribe_def subscribe_def broker_init_def type_order_def all_types_def topic_subscribers_def Let_def)
  then show ?thesis
    using stale_subscription [OF type_order_lists _ _ refl refl u, of TICK] by (auto simp: u)
qed

end
