(* ===== verification/ProcessSupervisor.thy ===== *)
theory ProcessSupervisor
  imports Prelude
begin

text \<open>
  \<open>backend/orchestration/process_supervisor.py\<close>: child processes (\<open>handle\<close> for \<open>ProcessHandle\<close>) and their
  supervisor (\<open>supervisor\<close> for \<open>ProcessSupervisor\<close>) with its monitor thread and the restart threads it spawns.

  A child process is its pid and its exit code once it has ended; it may end at any time (\<open>process_exits\<close>). What the
  operating system answers is an argument: \<open>spawn\<close> for \<open>Popen\<close>, \<open>wait\<close> for \<open>wait(timeout)\<close> (\<open>None\<close> is
  \<open>TimeoutExpired\<close>), \<open>mem\<close> for the memory \<open>psutil\<close> reports. A handle shares its
  configuration with the dictionary \<open>_configs\<close>, so the operations of a handle take it as an argument. Callbacks act on the
  field \<open>world\<close>. The supervisor's lock makes each operation one step; a restart thread that waits for the lock is an
  entry of \<open>pending_restarts\<close>.
\<close>

section \<open>Data\<close>

datatype ProcessState = STOPPED | STARTING | RUNNING | RESTARTING | STOPPING | CRASHED | UNKNOWN

datatype ProcessType = RUST_ENGINE | PYTHON_ORCHESTRATOR | RAY_ACTOR | DATA_FEED | EXECUTION_ENGINE

record ProcessConfig =
  cfg_name :: string
  process_type :: ProcessType
  command :: "string list"
  working_dir :: string
  environment :: "(string, string) dict"
  restart_on_crash :: bool
  max_restarts :: int
  restart_delay_s :: pyfloat
  cfg_health_check_interval_s :: pyfloat
  health_check_timeout_s :: pyfloat
  graceful_shutdown_timeout_s :: pyfloat
  memory_limit_mb :: int
  cpu_limit_percent :: pyfloat

definition process_config :: "string \<Rightarrow> ProcessType \<Rightarrow> string list \<Rightarrow> ProcessConfig" where
  "process_config nm ty cmd =
     \<lparr>cfg_name = nm, process_type = ty, command = cmd, working_dir = ''.'', environment = [], restart_on_crash = True,
      max_restarts = 5, restart_delay_s = 1, cfg_health_check_interval_s = 5, health_check_timeout_s = 2,
      graceful_shutdown_timeout_s = 10, memory_limit_mb = 2048, cpu_limit_percent = 100\<rparr>"

record proc =
  pid :: int
  ended :: "int option"

record handle =
  process :: "proc option"
  state :: ProcessState
  start_time :: "pyfloat option"
  last_heartbeat :: "pyfloat option"
  restart_count :: int
  exit_code :: "int option"
  error_message :: string

definition handle_init :: handle where
  "handle_init = \<lparr>process = None, state = STOPPED, start_time = None, last_heartbeat = None, restart_count = 0,
     exit_code = None, error_message = []\<rparr>"

record ProcessInfo =
  i_config :: ProcessConfig
  i_state :: ProcessState
  i_pid :: "int option"
  i_start_time :: "pyfloat option"
  i_last_heartbeat :: "pyfloat option"
  i_restart_count :: int
  i_exit_code :: "int option"
  i_error_message :: string
  i_memory_usage_mb :: pyfloat
  i_cpu_usage_percent :: pyfloat

record SupervisorStats =
  total_processes :: int
  running_processes :: int
  crashed_processes :: int
  restarting_processes :: int
  total_restarts :: int
  total_crashes :: int
  uptime_seconds :: pyfloat
  last_check_time :: pyfloat

section \<open>A child process\<close>

definition poll :: "handle \<Rightarrow> int option" where
  "poll h = (case process h of None \<Rightarrow> None | Some p \<Rightarrow> ended p)"

text \<open>The answer of \<open>Popen\<close>: an exception with its text, or the pid.\<close>

definition handle_start :: "(ProcessConfig \<Rightarrow> string + int) \<Rightarrow> (nat \<Rightarrow> pyfloat) \<Rightarrow> ProcessConfig \<Rightarrow> handle \<Rightarrow> bool \<times> handle" where
  "handle_start spawn clk cfg h =
     (if process h \<noteq> None \<and> poll h = None then (False, h)
      else case spawn cfg of
             Inl msg \<Rightarrow> (False, h\<lparr>error_message := msg, state := CRASHED\<rparr>)
           | Inr n \<Rightarrow> (True, h\<lparr>process := Some \<lparr>pid = n, ended = None\<rparr>, state := RUNNING, start_time := Some (clk 0),
                               last_heartbeat := Some (clk 1), error_message := []\<rparr>))"

text \<open>\<open>timeout or graceful_shutdown_timeout_s\<close>; a process that does not end in time is killed, with exit code \<open>-9\<close>.\<close>

definition effective_timeout :: "pyfloat option \<Rightarrow> ProcessConfig \<Rightarrow> pyfloat" where
  "effective_timeout timeout cfg =
     (case timeout of None \<Rightarrow> graceful_shutdown_timeout_s cfg | Some t \<Rightarrow> if t = 0 then graceful_shutdown_timeout_s cfg else t)"

definition handle_stop :: "(pyfloat \<Rightarrow> int option) \<Rightarrow> pyfloat option \<Rightarrow> ProcessConfig \<Rightarrow> handle \<Rightarrow> bool \<times> handle" where
  "handle_stop wait timeout cfg h =
     (case process h of
        None \<Rightarrow> (True, h)
      | Some p \<Rightarrow>
          if poll h = None then
            (case wait (effective_timeout timeout cfg) of
               Some code \<Rightarrow> (True, h\<lparr>process := Some (p\<lparr>ended := Some code\<rparr>), state := STOPPED\<rparr>)
             | None \<Rightarrow> (True, h\<lparr>process := Some (p\<lparr>ended := Some (- 9)\<rparr>), state := STOPPED\<rparr>))
          else (True, h\<lparr>state := STOPPED\<rparr>))"

definition send_heartbeat :: "pyfloat \<Rightarrow> handle \<Rightarrow> handle" where
  "send_heartbeat now h = h\<lparr>last_heartbeat := Some now\<rparr>"

definition is_healthy :: "pyfloat \<Rightarrow> ProcessConfig \<Rightarrow> handle \<Rightarrow> bool" where
  "is_healthy now cfg h =
     (if process h = None \<or> poll h \<noteq> None then False
      else case last_heartbeat h of None \<Rightarrow> True | Some t \<Rightarrow> fsub now t < health_check_timeout_s cfg)"

definition get_memory_usage :: "(int \<Rightarrow> pyfloat) \<Rightarrow> handle \<Rightarrow> pyfloat" where
  "get_memory_usage mem h =
     (case process h of None \<Rightarrow> 0 | Some p \<Rightarrow> if ended p \<noteq> None then 0 else mem (pid p))"

section \<open>The supervisor\<close>

record 'w supervisor =
  processes :: "(string, handle) dict"
  configs :: "(string, ProcessConfig) dict"
  running :: bool
  max_total_memory_mb :: int
  health_check_interval_s :: pyfloat
  stats :: SupervisorStats
  sup_start_time :: "pyfloat option"
  callbacks :: "(string, (string \<Rightarrow> ProcessState \<Rightarrow> 'w \<Rightarrow> 'w) list) dict"
  monitor_thread :: bool
  pending_restarts :: "string list"
  world :: 'w

definition supervisor_init :: "int \<Rightarrow> pyfloat \<Rightarrow> 'w \<Rightarrow> 'w supervisor" where
  "supervisor_init mem_limit interval w =
     \<lparr>processes = [], configs = [], running = False, max_total_memory_mb = mem_limit, health_check_interval_s = interval,
      stats = \<lparr>total_processes = 0, running_processes = 0, crashed_processes = 0, restarting_processes = 0, total_restarts = 0,
               total_crashes = 0, uptime_seconds = 0, last_check_time = 0\<rparr>,
      sup_start_time = None, callbacks = [], monitor_thread = False, pending_restarts = [], world = w\<rparr>"

definition add_total :: "int \<Rightarrow> 'w supervisor \<Rightarrow> 'w supervisor" where
  "add_total n s = s\<lparr>stats := (stats s)\<lparr>total_processes := total_processes (stats s) + n\<rparr>\<rparr>"

definition register_process :: "ProcessConfig \<Rightarrow> 'w supervisor \<Rightarrow> bool \<times> 'w supervisor" where
  "register_process cfg s =
     (if dict_get (configs s) (cfg_name cfg) \<noteq> None then (False, s)
      else (True, add_total 1 (s\<lparr>configs := dict_set (cfg_name cfg) cfg (configs s),
                                 processes := dict_set (cfg_name cfg) handle_init (processes s)\<rparr>)))"

text \<open>The stopped process leaves the supervisor together with its handle.\<close>

definition unregister_process :: "string \<Rightarrow> 'w supervisor \<Rightarrow> bool \<times> 'w supervisor" where
  "unregister_process nm s =
     (if dict_get (configs s) nm = None then (False, s)
      else (True, add_total (- 1) (s\<lparr>configs := dict_pop nm (configs s), processes := dict_pop nm (processes s)\<rparr>)))"

definition set_handle :: "string \<Rightarrow> handle \<Rightarrow> 'w supervisor \<Rightarrow> 'w supervisor" where
  "set_handle nm h s = s\<lparr>processes := dict_set nm h (processes s)\<rparr>"

definition start_process ::
  "(ProcessConfig \<Rightarrow> string + int) \<Rightarrow> (nat \<Rightarrow> pyfloat) \<Rightarrow> string \<Rightarrow> 'w supervisor \<Rightarrow> bool \<times> 'w supervisor" where
  "start_process spawn clk nm s =
     (case (dict_get (processes s) nm, dict_get (configs s) nm) of
        (Some h, Some cfg) \<Rightarrow> (let (ok, h1) = handle_start spawn clk cfg h in (ok, set_handle nm h1 s))
      | _ \<Rightarrow> (False, s))"

definition stop_process :: "(pyfloat \<Rightarrow> int option) \<Rightarrow> string \<Rightarrow> 'w supervisor \<Rightarrow> bool \<times> 'w supervisor" where
  "stop_process wait nm s =
     (case (dict_get (processes s) nm, dict_get (configs s) nm) of
        (Some h, Some cfg) \<Rightarrow>
          (let (ok, h1) = handle_stop wait None cfg h
           in (ok, set_handle nm h1 (s\<lparr>configs := dict_set nm (cfg\<lparr>restart_on_crash := False\<rparr>) (configs s)\<rparr>)))
      | _ \<Rightarrow> (False, s))"

text \<open>\<open>start_all\<close> starts every name of the dictionary, in order.\<close>

definition start_all ::
  "(ProcessConfig \<Rightarrow> string + int) \<Rightarrow> (string \<Rightarrow> nat \<Rightarrow> pyfloat) \<Rightarrow> 'w supervisor \<Rightarrow> bool \<times> 'w supervisor" where
  "start_all spawn clk s =
     fold (\<lambda>nm (ok, s). let (r, s1) = start_process spawn (clk nm) nm s in (ok \<and> r, s1)) (dict_keys (configs s)) (True, s)"

definition all_timeout :: "pyfloat option \<Rightarrow> 'w supervisor \<Rightarrow> pyfloat option" where
  "all_timeout timeout s =
     (if timeout = None \<and> configs s \<noteq> []
      then Some (fadd (Max (set (map graceful_shutdown_timeout_s (dict_values (configs s))))) 5) else timeout)"

definition stop_handles ::
  "(string \<Rightarrow> pyfloat \<Rightarrow> int option) \<Rightarrow> pyfloat option \<Rightarrow> (string, ProcessConfig) dict \<Rightarrow> (string, handle) dict \<Rightarrow> (string, handle) dict" where
  "stop_handles wait timeout cfgs =
     map (\<lambda>(nm, h). (nm, case dict_get cfgs nm of None \<Rightarrow> h | Some cfg \<Rightarrow> snd (handle_stop (wait nm) timeout cfg h)))"

definition stop_all ::
  "(string \<Rightarrow> pyfloat \<Rightarrow> int option) \<Rightarrow> pyfloat option \<Rightarrow> 'w supervisor \<Rightarrow> bool \<times> 'w supervisor" where
  "stop_all wait timeout s =
     (True, s\<lparr>running := False, processes := stop_handles wait (all_timeout timeout s) (configs s) (processes s)\<rparr>)"

text \<open>\<open>register_callback\<close> files an empty list under the id of the callback.\<close>

definition register_callback :: "string \<Rightarrow> (string \<Rightarrow> ProcessState \<Rightarrow> 'w \<Rightarrow> 'w) \<Rightarrow> 'w supervisor \<Rightarrow> 'w supervisor" where
  "register_callback cid cb s = s\<lparr>callbacks := dict_set (''cb_'' @ cid) [] (callbacks s)\<rparr>"

definition notify_state_change :: "string \<Rightarrow> ProcessState \<Rightarrow> 'w supervisor \<Rightarrow> 'w supervisor" where
  "notify_state_change nm st s =
     s\<lparr>world := fold (\<lambda>cbs. fold (\<lambda>cb. cb nm st) cbs) (dict_values (callbacks s)) (world s)\<rparr>"

text \<open>A process that was running may end while \<open>restart_process\<close> sleeps: \<open>exits\<close>.\<close>

definition let_end :: "int option \<Rightarrow> handle \<Rightarrow> handle" where
  "let_end exits h =
     (case (process h, exits) of
        (Some p, Some c) \<Rightarrow> if ended p = None then h\<lparr>process := Some (p\<lparr>ended := Some c\<rparr>)\<rparr> else h
      | _ \<Rightarrow> h)"

definition restart_process ::
  "(ProcessConfig \<Rightarrow> string + int) \<Rightarrow> (nat \<Rightarrow> pyfloat) \<Rightarrow> int option \<Rightarrow> string \<Rightarrow> 'w supervisor \<Rightarrow> bool \<times> 'w supervisor" where
  "restart_process spawn clk exits nm s =
     (case (dict_get (processes s) nm, dict_get (configs s) nm) of
        (Some h, Some cfg) \<Rightarrow>
          (if restart_count h \<ge> max_restarts cfg
           then (False, notify_state_change nm CRASHED (set_handle nm (h\<lparr>state := CRASHED\<rparr>) s))
           else
             (let h1 = let_end exits (h\<lparr>state := RESTARTING, restart_count := restart_count h + 1\<rparr>);
                  (ok, h2) = handle_start spawn clk cfg h1;
                  s1 = set_handle nm h2 (s\<lparr>stats := (stats s)\<lparr>total_restarts := total_restarts (stats s) + 1\<rparr>\<rparr>)
              in (ok, notify_state_change nm (if ok then RUNNING else CRASHED) s1)))
      | _ \<Rightarrow> (False, s))"

definition get_process_info :: "(int \<Rightarrow> pyfloat) \<Rightarrow> string \<Rightarrow> 'w supervisor \<Rightarrow> ProcessInfo option" where
  "get_process_info mem nm s =
     (case dict_get (processes s) nm of
        None \<Rightarrow> None
      | Some h \<Rightarrow>
          Some \<lparr>i_config = (case dict_get (configs s) nm of None \<Rightarrow> process_config nm PYTHON_ORCHESTRATOR [] | Some c \<Rightarrow> c),
                i_state = state h, i_pid = map_option pid (process h), i_start_time = start_time h,
                i_last_heartbeat = last_heartbeat h, i_restart_count = restart_count h, i_exit_code = exit_code h,
                i_error_message = error_message h, i_memory_usage_mb = get_memory_usage mem h, i_cpu_usage_percent = 0\<rparr>)"

definition count_state :: "ProcessState \<Rightarrow> 'w supervisor \<Rightarrow> int" where
  "count_state st s = int (length (filter (\<lambda>h. state h = st) (dict_values (processes s))))"

definition get_stats :: "(nat \<Rightarrow> pyfloat) \<Rightarrow> 'w supervisor \<Rightarrow> SupervisorStats \<times> 'w supervisor" where
  "get_stats clk s =
     (let st = (stats s)\<lparr>running_processes := count_state RUNNING s, crashed_processes := count_state CRASHED s,
                         restarting_processes := count_state RESTARTING s,
                         uptime_seconds := (case sup_start_time s of
                                              None \<Rightarrow> uptime_seconds (stats s)
                                            | Some t \<Rightarrow> if t = 0 then uptime_seconds (stats s) else fsub (clk 0) t),
                         last_check_time := clk 1\<rparr>
      in (st, s\<lparr>stats := st\<rparr>))"

text \<open>One process in a round of \<open>_monitor_loop\<close>. Logging its memory use is left out.\<close>

definition monitor_one :: "(string \<Rightarrow> nat \<Rightarrow> pyfloat) \<Rightarrow> string \<Rightarrow> 'w supervisor \<Rightarrow> 'w supervisor" where
  "monitor_one clk nm s =
     (case (dict_get (processes s) nm, dict_get (configs s) nm) of
        (Some h, Some cfg) \<Rightarrow>
          (if state h = STOPPED then s
           else case poll h of
                  Some code \<Rightarrow>
                    (let s1 = set_handle nm (h\<lparr>exit_code := Some code, state := CRASHED\<rparr>)
                                (s\<lparr>stats := (stats s)\<lparr>total_crashes := total_crashes (stats s) + 1\<rparr>\<rparr>)
                     in if restart_on_crash cfg
                        then (let s2 = notify_state_change nm CRASHED s1 in s2\<lparr>pending_restarts := pending_restarts s2 @ [nm]\<rparr>)
                        else s1)
                | None \<Rightarrow>
                    (let h1 = (if is_healthy (clk nm 0) cfg h then h else h\<lparr>error_message := ''Health check timeout''\<rparr>);
                         h2 = (if state h1 = RUNNING then send_heartbeat (clk nm 1) h1 else h1)
                     in set_handle nm h2 s))
      | _ \<Rightarrow> s)"

definition monitor_round :: "(string \<Rightarrow> nat \<Rightarrow> pyfloat) \<Rightarrow> 'w supervisor \<Rightarrow> 'w supervisor" where
  "monitor_round clk s = fold (monitor_one clk) (dict_keys (processes s)) s"

definition start_monitoring :: "pyfloat \<Rightarrow> 'w supervisor \<Rightarrow> 'w supervisor" where
  "start_monitoring now s =
     (if monitor_thread s then s else s\<lparr>running := True, sup_start_time := Some now, monitor_thread := True\<rparr>)"

definition stop_monitoring :: "'w supervisor \<Rightarrow> 'w supervisor" where
  "stop_monitoring s = s\<lparr>running := False, monitor_thread := False\<rparr>"

text \<open>A restart thread gets the lock.\<close>

definition run_restart ::
  "(ProcessConfig \<Rightarrow> string + int) \<Rightarrow> (nat \<Rightarrow> pyfloat) \<Rightarrow> int option \<Rightarrow> nat \<Rightarrow> 'w supervisor \<Rightarrow> 'w supervisor" where
  "run_restart spawn clk exits i s =
     (if i < length (pending_restarts s)
      then snd (restart_process spawn clk exits (pending_restarts s ! i)
             (s\<lparr>pending_restarts := take i (pending_restarts s) @ drop (Suc i) (pending_restarts s)\<rparr>))
      else s)"

text \<open>A running process ends by itself.\<close>

definition process_exits :: "string \<Rightarrow> int \<Rightarrow> 'w supervisor \<Rightarrow> 'w supervisor" where
  "process_exits nm code s =
     (case dict_get (processes s) nm of None \<Rightarrow> s | Some h \<Rightarrow> set_handle nm (let_end (Some code) h) s)"

text \<open>One look of \<open>wait_for_all\<close> at the processes, and its loop over the successive states and clock readings it meets: \<open>None\<close> when it
  is still waiting after all of them.\<close>

definition all_done :: "'w supervisor \<Rightarrow> bool" where
  "all_done s \<longleftrightarrow> (\<forall>h \<in> set (dict_values (processes s)). poll h \<noteq> None)"

fun wait_for_all :: "pyfloat option \<Rightarrow> pyfloat \<Rightarrow> ('w supervisor \<times> pyfloat) list \<Rightarrow> bool option" where
  "wait_for_all timeout t0 [] = None"
| "wait_for_all timeout t0 ((s, now) # xs) =
     (if all_done s then Some True
      else case timeout of
             None \<Rightarrow> wait_for_all timeout t0 xs
           | Some t \<Rightarrow> if fsub now t0 > t then Some False else wait_for_all timeout t0 xs)"

section \<open>The default processes\<close>

definition create_default_configs :: "string \<Rightarrow> ProcessConfig list" where
  "create_default_configs executable =
     [(process_config ''rust_engine'' RUST_ENGINE [''./target/release/zaid_engine''])
        \<lparr>working_dir := ''/workspace/backend'', max_restarts := 3, memory_limit_mb := 2048\<rparr>,
      (process_config ''python_orchestrator'' PYTHON_ORCHESTRATOR [executable, ''-m'', ''backend.orchestration.main''])
        \<lparr>working_dir := ''/workspace'', max_restarts := 5, memory_limit_mb := 1024\<rparr>,
      (process_config ''data_feed_btc'' DATA_FEED [executable, ''-m'', ''backend.feeds.btc_feed''])
        \<lparr>working_dir := ''/workspace'', max_restarts := 10, memory_limit_mb := 512\<rparr>,
      (process_config ''execution_engine'' EXECUTION_ENGINE [executable, ''-m'', ''backend.execution.executor''])
        \<lparr>working_dir := ''/workspace'', max_restarts := 5, memory_limit_mb := 1024\<rparr>]"

section \<open>The invariant\<close>

datatype 'w supervisor_op =
    Op_Register ProcessConfig
  | Op_Unregister string
  | Op_Start "ProcessConfig \<Rightarrow> string + int" "nat \<Rightarrow> pyfloat" string
  | Op_Stop "pyfloat \<Rightarrow> int option" string
  | Op_Start_All "ProcessConfig \<Rightarrow> string + int" "string \<Rightarrow> nat \<Rightarrow> pyfloat"
  | Op_Stop_All "string \<Rightarrow> pyfloat \<Rightarrow> int option" "pyfloat option"
  | Op_Restart "ProcessConfig \<Rightarrow> string + int" "nat \<Rightarrow> pyfloat" "int option" string
  | Op_Restart_Thread "ProcessConfig \<Rightarrow> string + int" "nat \<Rightarrow> pyfloat" "int option" nat
  | Op_Callback string "string \<Rightarrow> ProcessState \<Rightarrow> 'w \<Rightarrow> 'w"
  | Op_Monitor "string \<Rightarrow> nat \<Rightarrow> pyfloat"
  | Op_Start_Monitoring pyfloat
  | Op_Stop_Monitoring
  | Op_Stats "nat \<Rightarrow> pyfloat"
  | Op_Exits string int

fun supervisor_step :: "'w supervisor_op \<Rightarrow> 'w supervisor \<Rightarrow> 'w supervisor" where
  "supervisor_step (Op_Register cfg) s = snd (register_process cfg s)"
| "supervisor_step (Op_Unregister nm) s = snd (unregister_process nm s)"
| "supervisor_step (Op_Start sp clk nm) s = snd (start_process sp clk nm s)"
| "supervisor_step (Op_Stop wt nm) s = snd (stop_process wt nm s)"
| "supervisor_step (Op_Start_All sp clk) s = snd (start_all sp clk s)"
| "supervisor_step (Op_Stop_All wt t) s = snd (stop_all wt t s)"
| "supervisor_step (Op_Restart sp clk ex nm) s = snd (restart_process sp clk ex nm s)"
| "supervisor_step (Op_Restart_Thread sp clk ex i) s = run_restart sp clk ex i s"
| "supervisor_step (Op_Callback cid cb) s = register_callback cid cb s"
| "supervisor_step (Op_Monitor clk) s = monitor_round clk s"
| "supervisor_step (Op_Start_Monitoring now) s = start_monitoring now s"
| "supervisor_step Op_Stop_Monitoring s = stop_monitoring s"
| "supervisor_step (Op_Stats clk) s = snd (get_stats clk s)"
| "supervisor_step (Op_Exits nm code) s = process_exits nm code s"

definition handle_ok :: "ProcessConfig \<Rightarrow> handle \<Rightarrow> bool" where
  "handle_ok cfg h \<longleftrightarrow>
     0 \<le> restart_count h \<and> restart_count h \<le> max 0 (max_restarts cfg) \<and>
     state h \<in> {STOPPED, RUNNING, RESTARTING, CRASHED} \<and>
     (state h \<in> {RUNNING, RESTARTING} \<longrightarrow> process h \<noteq> None)"

definition supervisor_inv :: "'w supervisor \<Rightarrow> bool" where
  "supervisor_inv s \<longleftrightarrow>
     wf_dict (configs s) \<and> dict_keys (processes s) = dict_keys (configs s) \<and>
     total_processes (stats s) = int (length (configs s)) \<and>
     (\<forall>nm h cfg. dict_get (processes s) nm = Some h \<longrightarrow> dict_get (configs s) nm = Some cfg \<longrightarrow> handle_ok cfg h) \<and>
     (\<forall>cbs \<in> set (dict_values (callbacks s)). cbs = [])"

lemma keys_update_present: "k \<in> set (dict_keys d) \<Longrightarrow> dict_keys (dict_set k v d) = dict_keys d"
  by (induction d) auto

lemma keys_update_new: "k \<notin> set (dict_keys d) \<Longrightarrow> dict_keys (dict_set k v d) = dict_keys d @ [k]"
  by (induction d) auto

lemma keys_delete: "dict_keys (dict_pop k d) = filter (\<lambda>x. x \<noteq> k) (dict_keys d)"
  by (induction d) (auto simp: AList.delete_eq)

lemma dict_get_iff_keys: "dict_get d k \<noteq> None \<longleftrightarrow> k \<in> set (dict_keys d)"
  by (auto simp: map_of_eq_None_iff)

lemma supervisor_both:
  "supervisor_inv s \<Longrightarrow> dict_get (processes s) nm = None \<longleftrightarrow> dict_get (configs s) nm = None"
  unfolding supervisor_inv_def by (metis dict_get_iff_keys)

text \<open>Storing a handle that is in order keeps the invariant.\<close>

lemma set_handle_inv:
  assumes "supervisor_inv s" "dict_get (configs s) nm = Some cfg" "handle_ok cfg h"
  shows "supervisor_inv (set_handle nm h s)"
proof -
  have "nm \<in> set (dict_keys (processes s))" using assms(1,2) dict_get_iff_keys [of "configs s" nm] by (simp add: supervisor_inv_def)
  then have "dict_keys (dict_set nm h (processes s)) = dict_keys (processes s)" by (rule keys_update_present)
  then show ?thesis using assms by (simp add: supervisor_inv_def set_handle_def dict_get_set)
qed

lemma notify_inv [simp]: "supervisor_inv (notify_state_change nm st s) = supervisor_inv s"
  by (simp add: notify_state_change_def supervisor_inv_def)

lemma handle_start_ok: "handle_ok cfg h \<Longrightarrow> handle_ok cfg (snd (handle_start sp clk cfg' h))"
  by (auto simp: handle_start_def handle_ok_def split: sum.split)

lemma handle_stop_ok: "handle_ok cfg h \<Longrightarrow> handle_ok cfg (snd (handle_stop wt t cfg' h))"
  by (auto simp: handle_stop_def handle_ok_def split: option.split)

lemma let_end_ok: "handle_ok cfg (let_end ex h) = handle_ok cfg h"
  by (auto simp: let_end_def handle_ok_def split: option.split)

lemma inv_handle: "supervisor_inv s \<Longrightarrow> dict_get (processes s) nm = Some h \<Longrightarrow> dict_get (configs s) nm = Some cfg \<Longrightarrow> handle_ok cfg h"
  by (simp add: supervisor_inv_def)

lemma register_inv: "supervisor_inv s \<Longrightarrow> supervisor_inv (snd (register_process cfg s))"
  by (auto simp: register_process_def supervisor_inv_def add_total_def keys_update_new dict_get_set handle_ok_def handle_init_def
      length_dict_set map_of_eq_None_iff)

lemma unregister_inv:
  assumes "supervisor_inv s" shows "supervisor_inv (snd (unregister_process nm s))"
proof (cases "dict_get (configs s) nm")
  case (Some cfg)
  have "nm \<in> fst ` set (configs s)" using Some by (force dest: map_of_SomeD)
  then have "length (dict_pop nm (configs s)) = length (configs s) - 1"
    using assms by (simp add: supervisor_inv_def length_dict_pop)
  moreover have "0 < length (configs s)" using Some by (cases "configs s") simp_all
  ultimately have "int (length (dict_pop nm (configs s))) = int (length (configs s)) - 1" by linarith
  then show ?thesis
    using assms Some by (auto simp: unregister_process_def supervisor_inv_def add_total_def keys_delete dict_get_pop)
qed (use assms in \<open>simp add: unregister_process_def\<close>)

lemma values_update: "set (dict_values (dict_set k v d)) \<subseteq> insert v (set (dict_values d))"
  by (induction d) auto

lemma start_process_inv: "supervisor_inv s \<Longrightarrow> supervisor_inv (snd (start_process sp clk nm s))"
  by (auto simp: start_process_def case_prod_unfold Let_def inv_handle split: option.split
      intro!: set_handle_inv handle_start_ok)

lemma config_restart_inv:
  assumes "supervisor_inv s" "dict_get (configs s) nm = Some cfg"
  shows "supervisor_inv (s\<lparr>configs := dict_set nm (cfg\<lparr>restart_on_crash := b\<rparr>) (configs s)\<rparr>)"
proof -
  have "nm \<in> set (dict_keys (configs s))" using assms(2) dict_get_iff_keys [of "configs s" nm] by simp
  moreover have "length (dict_set nm c (configs s)) = length (configs s)" for c
    using keys_update_present [OF calculation, of c] by (metis length_map)
  ultimately show ?thesis using assms by (auto simp: supervisor_inv_def keys_update_present dict_get_set handle_ok_def)
qed

lemma stop_process_inv:
  assumes "supervisor_inv s" shows "supervisor_inv (snd (stop_process wt nm s))"
proof (cases "dict_get (processes s) nm = None \<or> dict_get (configs s) nm = None")
  case False
  then obtain h cfg where h: "dict_get (processes s) nm = Some h" "dict_get (configs s) nm = Some cfg" by auto
  have "handle_ok (cfg\<lparr>restart_on_crash := False\<rparr>) (snd (handle_stop wt None cfg h))"
    using handle_stop_ok [OF inv_handle [OF assms h], of wt None cfg] by (simp add: handle_ok_def)
  then show ?thesis
    using config_restart_inv [OF assms h(2), of False]
    by (auto simp: stop_process_def h case_prod_unfold Let_def dict_get_set intro: set_handle_inv)
qed (use assms in \<open>auto simp: stop_process_def split: option.split\<close>)

lemma restart_process_inv:
  assumes "supervisor_inv s" shows "supervisor_inv (snd (restart_process sp clk ex nm s))"
proof (cases "dict_get (processes s) nm = None \<or> dict_get (configs s) nm = None")
  case False
  then obtain h cfg where h: "dict_get (processes s) nm = Some h" "dict_get (configs s) nm = Some cfg" by auto
  have ok: "handle_ok cfg h" by (rule inv_handle [OF assms h])
  let ?h1 = "let_end ex (h\<lparr>state := RESTARTING, restart_count := restart_count h + 1\<rparr>)"
  have "handle_ok cfg (snd (handle_start sp clk cfg ?h1))" if "restart_count h < max_restarts cfg"
    using ok that by (auto simp: handle_start_def let_end_def handle_ok_def poll_def split: sum.split option.split)
  moreover have "supervisor_inv (s\<lparr>stats := (stats s)\<lparr>total_restarts := n\<rparr>\<rparr>)" for n
    using assms by (simp add: supervisor_inv_def)
  ultimately show ?thesis
    using ok assms h by (auto simp: restart_process_def case_prod_unfold Let_def handle_ok_def intro!: set_handle_inv)
qed (use assms in \<open>auto simp: restart_process_def split: option.split\<close>)

lemma monitor_one_inv:
  assumes "supervisor_inv s" shows "supervisor_inv (monitor_one clk nm s)"
proof (cases "dict_get (processes s) nm = None \<or> dict_get (configs s) nm = None")
  case False
  then obtain h cfg where h: "dict_get (processes s) nm = Some h" "dict_get (configs s) nm = Some cfg" by auto
  have ok: "handle_ok cfg h" by (rule inv_handle [OF assms h])
  have "supervisor_inv (s\<lparr>stats := (stats s)\<lparr>total_crashes := n\<rparr>\<rparr>)" for n using assms by (simp add: supervisor_inv_def)
  then have a: "supervisor_inv (set_handle nm g (s\<lparr>stats := (stats s)\<lparr>total_crashes := n\<rparr>\<rparr>))" if "handle_ok cfg g" for g n
    using that h by (intro set_handle_inv) auto
  have "supervisor_inv (u\<lparr>pending_restarts := p\<rparr>) = supervisor_inv u" for u :: "'a supervisor" and p by (simp add: supervisor_inv_def)
  then show ?thesis
    using ok assms h a by (auto simp: monitor_one_def Let_def handle_ok_def send_heartbeat_def split: option.split intro!: set_handle_inv)
qed (use assms in \<open>auto simp: monitor_one_def split: option.split\<close>)

lemma monitor_round_inv: "supervisor_inv s \<Longrightarrow> supervisor_inv (monitor_round clk s)"
proof -
  have "supervisor_inv s \<Longrightarrow> supervisor_inv (fold (monitor_one clk) ns s)" for ns
    by (induction ns arbitrary: s) (simp_all add: monitor_one_inv)
  then show "supervisor_inv s \<Longrightarrow> ?thesis" by (simp add: monitor_round_def)
qed

lemma start_all_fold_inv:
  "supervisor_inv s \<Longrightarrow>
    supervisor_inv (snd (fold (\<lambda>nm (ok, s). let (r, s1) = start_process sp (clk nm) nm s in (ok \<and> r, s1)) ns (b, s)))"
proof (induction ns arbitrary: b s)
  case (Cons nm ns)
  then show ?case using start_process_inv [OF Cons.prems, of sp "clk nm" nm] by (simp add: case_prod_unfold Let_def)
qed simp

lemma start_all_inv: "supervisor_inv s \<Longrightarrow> supervisor_inv (snd (start_all sp clk s))"
  unfolding start_all_def by (rule start_all_fold_inv)

lemma stop_handles_keys: "dict_keys (stop_handles wt t c ps) = dict_keys ps"
  by (simp add: stop_handles_def comp_def case_prod_unfold)

lemma stop_handles_get:
  "dict_get (stop_handles wt t c ps) nm =
    map_option (\<lambda>h. case dict_get c nm of None \<Rightarrow> h | Some cfg \<Rightarrow> snd (handle_stop (wt nm) t cfg h)) (dict_get ps nm)"
  unfolding stop_handles_def by (induction ps) (auto split: option.split)

lemma stop_all_inv: "supervisor_inv s \<Longrightarrow> supervisor_inv (snd (stop_all wt t s))"
  by (auto simp: stop_all_def supervisor_inv_def stop_handles_keys stop_handles_get handle_stop_ok)

lemma supervisor_step_inv:
  assumes "supervisor_inv s" shows "supervisor_inv (supervisor_step x s)"
proof (cases x)
  case (Op_Restart_Thread sp clk ex i)
  have "supervisor_inv (s\<lparr>pending_restarts := p\<rparr>)" for p using assms by (simp add: supervisor_inv_def)
  then show ?thesis using assms by (simp add: Op_Restart_Thread run_restart_def restart_process_inv)
next
  case (Op_Callback cid cb)
  have "\<forall>cbs \<in> set (dict_values (dict_set (''cb_'' @ cid) [] (callbacks s))). cbs = []"
    using assms values_update [of "''cb_'' @ cid" "[]" "callbacks s"] unfolding supervisor_inv_def by blast
  then show ?thesis using assms by (simp add: Op_Callback register_callback_def supervisor_inv_def)
next
  case (Op_Exits nm code)
  show ?thesis
  proof (cases "dict_get (processes s) nm")
    case (Some h)
    then obtain cfg where "dict_get (configs s) nm = Some cfg" using supervisor_both [OF assms, of nm] by auto
    then show ?thesis using assms Some inv_handle by (auto simp: Op_Exits process_exits_def let_end_ok intro!: set_handle_inv)
  qed (use assms in \<open>simp add: Op_Exits process_exits_def\<close>)
next
  case (Op_Start_Monitoring now)
  then show ?thesis using assms by (simp add: start_monitoring_def supervisor_inv_def)
next
  case Op_Stop_Monitoring
  then show ?thesis using assms by (simp add: stop_monitoring_def supervisor_inv_def)
next
  case (Op_Stats clk)
  then show ?thesis using assms by (simp add: get_stats_def supervisor_inv_def Let_def)
qed (use assms in \<open>simp_all add: register_inv unregister_inv start_process_inv stop_process_inv start_all_inv stop_all_inv
    restart_process_inv monitor_round_inv\<close>)

interpretation ps: op_machine supervisor_step supervisor_inv
  by unfold_locales (rule supervisor_step_inv)

section \<open>Properties\<close>

lemma init_inv: "supervisor_inv (supervisor_init mem_limit interval w)"
  by (simp add: supervisor_inv_def supervisor_init_def)

text \<open>C37: In every history of calls, process ends, monitor rounds and restart threads, configurations and handles stay in step, no
  process is restarted more often than its \<open>max_restarts\<close> allows, and a process shown as RUNNING or RESTARTING has been spawned.\<close>
theorem supervisor_invariant: "supervisor_inv (fold supervisor_step xs (supervisor_init mem_limit interval w))"
  by (rule ps.run_inv) (rule init_inv)

definition no_callbacks :: "'w supervisor \<Rightarrow> bool" where
  "no_callbacks s \<longleftrightarrow> (\<forall>cbs \<in> set (dict_values (callbacks s)). cbs = [])"

lemma inv_no_callbacks: "supervisor_inv s \<Longrightarrow> no_callbacks s"
  unfolding supervisor_inv_def no_callbacks_def by blast

lemma no_callbacks_simps [simp]:
  "no_callbacks (set_handle nm h s) = no_callbacks s" "no_callbacks (s\<lparr>stats := st\<rparr>) = no_callbacks s"
  "no_callbacks (s\<lparr>pending_restarts := p\<rparr>) = no_callbacks s"
  by (simp_all add: no_callbacks_def set_handle_def)

lemma fold_no_callbacks: "\<forall>cbs \<in> set ls. cbs = [] \<Longrightarrow> fold (\<lambda>cbs. fold f cbs) ls w = w"
  by (induction ls) auto

lemma notify_nothing: "no_callbacks s \<Longrightarrow> notify_state_change nm st s = s"
  using fold_no_callbacks [of "dict_values (callbacks s)" "\<lambda>cb. cb nm st" "world s"]
  by (simp only: notify_state_change_def no_callbacks_def) (cases s, simp)

lemma set_handle_world [simp]: "world (set_handle nm h s) = world s"
  by (simp add: set_handle_def)

lemma restart_process_world: "no_callbacks s \<Longrightarrow> world (snd (restart_process sp clk ex nm s)) = world s"
  by (simp add: restart_process_def notify_nothing case_prod_unfold Let_def split: option.split)

lemma monitor_one_world: "no_callbacks s \<Longrightarrow> world (monitor_one clk nm s) = world s \<and> no_callbacks (monitor_one clk nm s)"
  by (simp add: monitor_one_def notify_nothing Let_def split: option.split)

lemma supervisor_step_world:
  assumes "supervisor_inv s" shows "world (supervisor_step x s) = world s"
proof -
  note n = inv_no_callbacks [OF assms]
  have m: "world (fold (monitor_one clk) ns u) = world u" if "no_callbacks u" for clk ns and u :: "'a supervisor"
    using that by (induction ns arbitrary: u) (simp_all add: monitor_one_world)
  have p: "world (snd (start_process sp clk nm u)) = world u" for sp clk nm and u :: "'a supervisor"
    by (simp add: start_process_def case_prod_unfold Let_def split: option.split)
  have a: "world (snd (fold (\<lambda>nm (ok, s). let (r, s1) = start_process sp (clk nm) nm s in (ok \<and> r, s1)) ns (b, u))) = world u"
    for sp clk ns b and u :: "'a supervisor"
    by (induction ns arbitrary: b u) (simp_all add: case_prod_unfold Let_def p)
  have "world (snd (start_all sp clk s)) = world s" for sp clk unfolding start_all_def by (rule a)
  then show ?thesis
    using n by (cases x) (auto simp: register_process_def unregister_process_def add_total_def p stop_process_def
        stop_all_def restart_process_world run_restart_def register_callback_def monitor_round_def m start_monitoring_def
        stop_monitoring_def get_stats_def process_exits_def case_prod_unfold Let_def split: option.split)
qed

text \<open>A registered callback is never called: whatever happens, nothing but the supervisor's own state changes, because
  \<open>register_callback\<close> stores an empty list in place of the callback.\<close>
theorem callbacks_never_called: "world (fold supervisor_step xs (supervisor_init mem_limit interval w)) = w"
proof -
  have "world (supervisor_init mem_limit interval w) = world (fold supervisor_step xs (supervisor_init mem_limit interval w))"
    by (rule ps.run_rel [where rel = "\<lambda>s t. world s = world t" and ok = "\<lambda>_. True", OF init_inv])
      (simp_all add: supervisor_step_world)
  then show ?thesis by (simp add: supervisor_init_def)
qed

text \<open>A monitor round leaves every other process alone and never forgets a queued restart.\<close>

lemma monitor_one_frame:
  assumes "nm \<noteq> k"
  shows "dict_get (processes (monitor_one clk k s)) nm = dict_get (processes s) nm"
    and "configs (monitor_one clk k s) = configs s"
    and "set (pending_restarts s) \<subseteq> set (pending_restarts (monitor_one clk k s))"
  using assms
  by (auto simp: monitor_one_def set_handle_def notify_state_change_def dict_get_set Let_def split: option.split)

lemma monitor_fold_frame:
  "nm \<notin> set ns \<Longrightarrow>
    dict_get (processes (fold (monitor_one clk) ns s)) nm = dict_get (processes s) nm \<and>
    configs (fold (monitor_one clk) ns s) = configs s \<and>
    set (pending_restarts s) \<subseteq> set (pending_restarts (fold (monitor_one clk) ns s))"
proof (induction ns arbitrary: s)
  case (Cons k ns)
  have n: "nm \<noteq> k" using Cons.prems by simp
  show ?case using Cons monitor_one_frame [OF n, where clk = clk and s = s] by fastforce
qed simp

lemma monitor_round_crash:
  assumes "supervisor_inv s" "dict_get (processes s) nm = Some h" "dict_get (configs s) nm = Some cfg"
    "state h \<noteq> STOPPED" "poll h = Some code" "restart_on_crash cfg"
  shows "dict_get (processes (monitor_round clk s)) nm = Some (h\<lparr>exit_code := Some code, state := CRASHED\<rparr>)"
    and "dict_get (configs (monitor_round clk s)) nm = Some cfg"
    and "nm \<in> set (pending_restarts (monitor_round clk s))"
proof -
  have "nm \<in> set (dict_keys (processes s))" using assms(2) dict_get_iff_keys [of "processes s" nm] by simp
  then obtain as bs where k: "dict_keys (processes s) = as @ nm # bs" by (meson split_list)
  have "distinct (dict_keys (processes s))" using assms(1) by (simp add: supervisor_inv_def wf_dict_def)
  then have ab: "nm \<notin> set as" "nm \<notin> set bs" unfolding k by auto
  let ?a = "fold (monitor_one clk) as s"
  let ?b = "monitor_one clk nm ?a"
  have a: "dict_get (processes ?a) nm = Some h" "dict_get (configs ?a) nm = Some cfg"
    using monitor_fold_frame [OF ab(1), of clk s] assms by simp_all
  have b: "dict_get (processes ?b) nm = Some (h\<lparr>exit_code := Some code, state := CRASHED\<rparr>)"
    "dict_get (configs ?b) nm = Some cfg" "nm \<in> set (pending_restarts ?b)"
    using a assms(4-6) by (simp_all add: monitor_one_def Let_def notify_state_change_def set_handle_def dict_get_set)
  have "monitor_round clk s = fold (monitor_one clk) bs ?b" by (simp add: monitor_round_def k)
  then show "dict_get (processes (monitor_round clk s)) nm = Some (h\<lparr>exit_code := Some code, state := CRASHED\<rparr>)"
    "dict_get (configs (monitor_round clk s)) nm = Some cfg" "nm \<in> set (pending_restarts (monitor_round clk s))"
    using monitor_fold_frame [OF ab(2), of clk ?b] b by auto
qed

text \<open>C22: A crash is repaired where the configuration asks for it: when a running process whose configuration has \<open>restart_on_crash\<close> set and that
  has restarts left ends, the next monitor round notices it and queues a restart thread, and once that thread gets the lock and the process
  can be spawned, it runs again under its new pid, one restart further, with the exit code of the crash on record. \<open>stop_process\<close> clears
  that flag for good: \<open>started_again_unwatched\<close>.\<close>
theorem crash_is_repaired:
  assumes "supervisor_inv s" "dict_get (processes s) nm = Some h" "dict_get (configs s) nm = Some cfg"
    "state h = RUNNING" "poll h = Some code" "restart_on_crash cfg" "restart_count h < max_restarts cfg" "spawn cfg = Inr n"
    "s1 = monitor_round clk s"
  shows "nm \<in> set (pending_restarts s1) \<and>
    (\<forall>i < length (pending_restarts s1). pending_restarts s1 ! i = nm \<longrightarrow>
       (\<exists>g. dict_get (processes (run_restart spawn clk' ex i s1)) nm = Some g \<and> state g = RUNNING \<and>
          process g = Some \<lparr>pid = n, ended = None\<rparr> \<and> restart_count g = restart_count h + 1 \<and> exit_code g = Some code))"
proof -
  have s: "state h \<noteq> STOPPED" using assms(4) by simp
  note c = monitor_round_crash [OF assms(1-3) s assms(5,6), of clk, folded assms(9)]
  obtain p where p: "process h = Some p" "ended p = Some code" using assms(5) by (auto simp: poll_def split: option.splits)
  show ?thesis
    using c p assms(7,8) by (auto simp: run_restart_def restart_process_def handle_start_def let_end_def poll_def set_handle_def
        notify_state_change_def dict_get_set Let_def split: option.split)
qed

definition crashed_example :: "unit supervisor" where
  "crashed_example =
     (supervisor_init 8192 5 ())
       \<lparr>processes := [(''a'', handle_init), (''b'', handle_init\<lparr>process := Some \<lparr>pid = 7, ended = Some 1\<rparr>, state := RUNNING\<rparr>)],
        configs := [(''a'', process_config ''a'' DATA_FEED []), (''b'', process_config ''b'' RAY_ACTOR [])],
        stats := (stats (supervisor_init 8192 5 ()))\<lparr>total_processes := 2\<rparr>\<rparr>"

lemma crashed_example_inv: "supervisor_inv crashed_example"
  by (auto simp: crashed_example_def supervisor_inv_def supervisor_init_def wf_dict_def handle_ok_def handle_init_def process_config_def
      split: if_splits)

lemma crashed_example_facts:
  "dict_get (processes crashed_example) ''b'' = Some (handle_init\<lparr>process := Some \<lparr>pid = 7, ended = Some 1\<rparr>, state := RUNNING\<rparr>)"
  "dict_get (configs crashed_example) ''b'' = Some (process_config ''b'' RAY_ACTOR [])"
  by (simp_all add: crashed_example_def)

theorem crash_is_repaired_witness:
  "''b'' \<in> set (pending_restarts (monitor_round (\<lambda>_ _. 3) crashed_example))"
  using crash_is_repaired [OF crashed_example_inv crashed_example_facts, of 1 "\<lambda>_. Inr 8" 8 "monitor_round (\<lambda>_ _. 3) crashed_example"]
  by (simp add: handle_init_def process_config_def poll_def)

lemma monitor_one_unwatched:
  assumes "dict_get (configs s) nm = Some cfg" "\<not> restart_on_crash cfg" "nm \<notin> set (pending_restarts s)"
  shows "nm \<notin> set (pending_restarts (monitor_one clk k s)) \<and> configs (monitor_one clk k s) = configs s"
  using assms by (cases "k = nm")
    (auto simp: monitor_one_def set_handle_def notify_state_change_def Let_def split: option.split)

lemma monitor_round_unwatched:
  assumes "dict_get (configs s) nm = Some cfg" "\<not> restart_on_crash cfg" "nm \<notin> set (pending_restarts s)"
  shows "nm \<notin> set (pending_restarts (monitor_round clk s))"
proof -
  have "nm \<notin> set (pending_restarts (fold (monitor_one clk) ks s))" for ks
    using assms by (induction ks arbitrary: s) (simp_all add: monitor_one_unwatched)
  then show ?thesis by (simp add: monitor_round_def)
qed

text \<open>A process that was stopped and started again is not watched any more: \<open>start_process\<close> does not set the flag that \<open>stop_process\<close> has
  cleared, so the process runs, and when it ends no restart is queued, however many it has left.\<close>
theorem started_again_unwatched:
  assumes "dict_get (processes s) nm = Some h" "dict_get (configs s) nm = Some cfg" "nm \<notin> set (pending_restarts s)"
    "spawn (cfg\<lparr>restart_on_crash := False\<rparr>) = Inr n" "s1 = snd (start_process spawn clk nm (snd (stop_process wait nm s)))"
  shows "(\<exists>g. dict_get (processes s1) nm = Some g \<and> state g = RUNNING \<and> process g = Some \<lparr>pid = n, ended = None\<rparr>) \<and>
    nm \<notin> set (pending_restarts (monitor_round clk' (process_exits nm code s1)))"
proof -
  let ?c = "cfg\<lparr>restart_on_crash := False\<rparr>"
  obtain g where g: "snd (handle_stop wait None cfg h) = g" "process g \<noteq> None \<longrightarrow> poll g \<noteq> None"
    by (auto simp: handle_stop_def poll_def split: option.split)
  let ?r = "g\<lparr>process := Some \<lparr>pid = n, ended = None\<rparr>, state := RUNNING, start_time := Some (clk 0), last_heartbeat := Some (clk 1),
    error_message := []\<rparr>"
  have "snd (stop_process wait nm s) = set_handle nm g (s\<lparr>configs := dict_set nm ?c (configs s)\<rparr>)"
    using g(1) by (simp add: stop_process_def assms(1,2) case_prod_unfold Let_def)
  moreover have "handle_start spawn clk ?c g = (True, ?r)" using g(2) assms(4) by (auto simp: handle_start_def)
  ultimately have s1: "s1 = set_handle nm ?r (set_handle nm g (s\<lparr>configs := dict_set nm ?c (configs s)\<rparr>))"
    by (simp add: assms(5) start_process_def set_handle_def dict_get_set)
  have r: "dict_get (processes s1) nm = Some ?r" by (simp add: s1 set_handle_def dict_get_set)
  have "nm \<notin> set (pending_restarts (monitor_round clk' (process_exits nm code s1)))"
    by (rule monitor_round_unwatched [where cfg = ?c])
      (use assms(3) in \<open>simp_all add: process_exits_def r, simp_all add: s1 set_handle_def dict_get_set\<close>)
  then show ?thesis using r by simp
qed

text \<open>A process the operator has stopped comes back to life: \<open>stop_process\<close> does not cancel a restart thread that is already
  waiting for the lock, and that thread starts the process again although auto-restart is now off.\<close>
theorem stopped_process_revived:
  assumes "dict_get (processes s) nm = Some h" "dict_get (configs s) nm = Some cfg" "process h = Some p"
    "i < length (pending_restarts s)" "pending_restarts s ! i = nm" "restart_count h < max_restarts cfg"
    "spawn (cfg\<lparr>restart_on_crash := False\<rparr>) = Inr n" "s1 = snd (stop_process wait nm s)"
  shows "(\<exists>g. dict_get (processes s1) nm = Some g \<and> state g = STOPPED \<and> poll g \<noteq> None) \<and>
    (\<exists>c. dict_get (configs s1) nm = Some c \<and> \<not> restart_on_crash c) \<and>
    (\<exists>g. dict_get (processes (run_restart spawn clk ex i s1)) nm = Some g \<and> state g = RUNNING \<and>
       process g = Some \<lparr>pid = n, ended = None\<rparr>)"
proof -
  obtain g where g: "snd (handle_stop wait None cfg h) = g" "state g = STOPPED" "poll g \<noteq> None" "restart_count g = restart_count h"
    using assms(3) by (auto simp: handle_stop_def poll_def split: option.split)
  then have s1: "s1 = set_handle nm g (s\<lparr>configs := dict_set nm (cfg\<lparr>restart_on_crash := False\<rparr>) (configs s)\<rparr>)"
    by (simp add: assms(8) stop_process_def assms(1,2) case_prod_unfold Let_def)
  have p: "pending_restarts s1 = pending_restarts s" by (simp add: s1 set_handle_def)
  have d: "dict_get (processes s1) nm = Some g" "dict_get (configs s1) nm = Some (cfg\<lparr>restart_on_crash := False\<rparr>)"
    by (simp_all add: s1 set_handle_def dict_get_set)
  obtain q c where q: "process g = Some q" "ended q = Some c" using g(3) by (auto simp: poll_def split: option.splits)
  then have "let_end e (g\<lparr>state := RESTARTING, restart_count := m\<rparr>) = g\<lparr>state := RESTARTING, restart_count := m\<rparr>" for e m
    by (simp add: let_end_def split: option.split)
  then have "dict_get (processes (run_restart spawn clk ex i s1)) nm =
      Some (g\<lparr>restart_count := restart_count h + 1, process := Some \<lparr>pid = n, ended = None\<rparr>, state := RUNNING,
               start_time := Some (clk 0), last_heartbeat := Some (clk 1), error_message := []\<rparr>)"
    using assms(4-7) d g(4) q
    by (simp add: run_restart_def p restart_process_def handle_start_def poll_def Let_def notify_state_change_def set_handle_def dict_get_set)
  then show ?thesis using d g by simp
qed

theorem stopped_process_revived_witness:
  "\<exists>g. dict_get (processes (run_restart (\<lambda>_. Inr 8) (\<lambda>_. 4) None 0
      (snd (stop_process (\<lambda>_. Some 0) ''b'' (crashed_example\<lparr>pending_restarts := [''b'']\<rparr>))))) ''b'' = Some g \<and> state g = RUNNING"
proof -
  let ?s = "crashed_example\<lparr>pending_restarts := [''b'']\<rparr>"
  have "dict_get (processes ?s) ''b'' = Some (handle_init\<lparr>process := Some \<lparr>pid = 7, ended = Some 1\<rparr>, state := RUNNING\<rparr>)"
    "dict_get (configs ?s) ''b'' = Some (process_config ''b'' RAY_ACTOR [])" by (simp_all add: crashed_example_facts)
  from stopped_process_revived [where i = 0 and spawn = "\<lambda>_. Inr 8" and n = 8 and wait = "\<lambda>_. Some 0" and clk = "\<lambda>_. 4"
      and ex = None and p = "\<lparr>pid = 7, ended = Some 1\<rparr>", OF this _ _ _ _ _ refl]
  show ?thesis by (auto simp: handle_init_def process_config_def)
qed

end
