(* ===== verification/TokenBucket.thy ===== *)
theory TokenBucket
  imports Prelude
begin

text \<open>
  \<open>exchanges/rate_limiter.py\<close>: token buckets (\<open>TokenBucket\<close>), the limiter over them (\<open>limiter\<close> for
  \<open>BinanceRateLimiter\<close>) and its extension that reads response headers (\<open>adaptive\<close>, an extended record, so every
  operation of the limiter applies to it).

  Readings of the clock are arguments. A coroutine that sleeps lets others run: what they do to the limiter
  before a round of its loop is the argument \<open>env\<close>. \<open>lock_type\<close> says whether \<open>threading.Lock\<close> is a type (Python 3.13 and
  later) or a function (before).
\<close>

section \<open>Buckets\<close>

datatype RateLimitType = REQUESTS_WEIGHT | ORDERS | RAW_REQUESTS

definition all_limit_types :: "RateLimitType list" where
  "all_limit_types = [REQUESTS_WEIGHT, ORDERS, RAW_REQUESTS]"

record RateLimitConfig =
  cfg_limit_type :: RateLimitType
  cfg_max_value :: int
  cfg_window_seconds :: int
  weight_per_request :: int

record TokenBucket =
  tokens :: pyfloat
  max_tokens :: pyfloat
  refill_rate :: pyfloat
  last_refill :: pyfloat

text \<open>\<open>__post_init__\<close> asks whether the lock is an instance of \<open>threading.Lock\<close>, which must be a type for that.\<close>

definition new_bucket :: "bool \<Rightarrow> pyfloat \<Rightarrow> pyfloat \<Rightarrow> pyfloat \<Rightarrow> pyfloat \<Rightarrow> exn + TokenBucket" where
  "new_bucket lock_type t m r now =
     (if lock_type then Inr \<lparr>tokens = t, max_tokens = m, refill_rate = r, last_refill = now\<rparr> else Inl (OtherError ''TypeError''))"

definition refill :: "pyfloat \<Rightarrow> TokenBucket \<Rightarrow> TokenBucket" where
  "refill now b =
     b\<lparr>tokens := min (max_tokens b) (fadd (tokens b) (fmul (fsub now (last_refill b)) (refill_rate b))), last_refill := now\<rparr>"

definition consume :: "pyfloat \<Rightarrow> pyfloat \<Rightarrow> TokenBucket \<Rightarrow> bool \<times> TokenBucket" where
  "consume now n b =
     (let b1 = refill now b
      in if tokens b1 \<ge> n then (True, b1\<lparr>tokens := fsub (tokens b1) n\<rparr>) else (False, b1))"

definition time_until_tokens :: "pyfloat \<Rightarrow> pyfloat \<Rightarrow> TokenBucket \<Rightarrow> (exn + pyfloat) \<times> TokenBucket" where
  "time_until_tokens now n b =
     (let b1 = refill now b
      in if tokens b1 \<ge> n then (Inr 0, b1)
         else if refill_rate b1 = 0 then (Inl ZeroDivisionError, b1)
         else (Inr (fdiv (fsub n (tokens b1)) (refill_rate b1)), b1))"

record RateLimitState =
  limit_type :: RateLimitType
  current_value :: int
  max_value :: int
  window_seconds :: int
  reset_time :: pyfloat
  is_exceeded :: bool

section \<open>The limiter\<close>

record limiter =
  safety_factor :: pyfloat
  buckets :: "(RateLimitType, TokenBucket) dict"
  endpoint_weights :: "(string, int) dict"
  backoff_count :: int
  max_backoff_count :: int
  base_backoff_seconds :: pyfloat

definition default_weights :: "(string, int) dict" where
  "default_weights =
     [(''/api/v3/order'', 1), (''/api/v3/order/test'', 1), (''/api/v3/openOrders'', 3), (''/api/v3/allOrders'', 10),
      (''/api/v3/account'', 10), (''/api/v3/myTrades'', 10), (''/api/v3/depth'', 50), (''/api/v3/trades'', 50),
      (''/api/v3/klines'', 50), (''/api/v3/ticker/price'', 2), (''/api/v3/ticker/bookTicker'', 2),
      (''/api/v3/exchangeInfo'', 10), (''/api/v3/time'', 1)]"

text \<open>\<open>int((limit or default) * safety_factor)\<close>.\<close>

definition effective_limit :: "int option \<Rightarrow> int \<Rightarrow> pyfloat \<Rightarrow> int" where
  "effective_limit limit dflt f =
     int_of_float (fmul (fl (of_int (case limit of None \<Rightarrow> dflt | Some n \<Rightarrow> if n = 0 then dflt else n))) f)"

definition limiter_init ::
  "bool \<Rightarrow> (nat \<Rightarrow> pyfloat) \<Rightarrow> int option \<Rightarrow> int option \<Rightarrow> pyfloat \<Rightarrow> exn + limiter" where
  "limiter_init lock_type clk weight ops factor =
     (let w = fl (of_int (effective_limit weight 1200 factor)); n = fl (of_int (effective_limit ops 10 factor))
      in case new_bucket lock_type w w (fdiv w 60) (clk 0) of
           Inl e \<Rightarrow> Inl e
         | Inr b0 \<Rightarrow>
             (case new_bucket lock_type n n n (clk 1) of
                Inl e \<Rightarrow> Inl e
              | Inr b1 \<Rightarrow>
                  Inr \<lparr>safety_factor = factor, buckets = [(REQUESTS_WEIGHT, b0), (ORDERS, b1)],
                       endpoint_weights = default_weights, backoff_count = 0, max_backoff_count = 5,
                       base_backoff_seconds = 1\<rparr>))"

definition set_endpoint_weight :: "string \<Rightarrow> int \<Rightarrow> 'a limiter_scheme \<Rightarrow> 'a limiter_scheme" where
  "set_endpoint_weight ep w s = s\<lparr>endpoint_weights := dict_set ep w (endpoint_weights s)\<rparr>"

definition get_endpoint_weight :: "string \<Rightarrow> 'a limiter_scheme \<Rightarrow> int" where
  "get_endpoint_weight ep s = (case dict_get (endpoint_weights s) ep of None \<Rightarrow> 1 | Some w \<Rightarrow> w)"

text \<open>The tokens a request needs and the bucket that holds them.\<close>

definition demand :: "string option \<Rightarrow> bool \<Rightarrow> 'a limiter_scheme \<Rightarrow> pyfloat \<times> RateLimitType" where
  "demand ep order s =
     (if order then (1, ORDERS)
      else if truthy_str ep then (fl (of_int (get_endpoint_weight (the ep) s)), REQUESTS_WEIGHT)
      else (1, REQUESTS_WEIGHT))"

definition put_bucket :: "RateLimitType \<Rightarrow> TokenBucket \<Rightarrow> 'a limiter_scheme \<Rightarrow> 'a limiter_scheme" where
  "put_bucket k b s = s\<lparr>buckets := dict_set k b (buckets s)\<rparr>"

definition take_tokens :: "pyfloat \<Rightarrow> pyfloat \<Rightarrow> RateLimitType \<Rightarrow> 'a limiter_scheme \<Rightarrow> (exn + bool) \<times> 'a limiter_scheme" where
  "take_tokens now n k s =
     (case dict_get (buckets s) k of
        None \<Rightarrow> (Inl KeyError, s)
      | Some b \<Rightarrow> (let (ok, b1) = consume now n b in (Inr ok, put_bucket k b1 s)))"

definition try_acquire :: "pyfloat \<Rightarrow> string option \<Rightarrow> bool \<Rightarrow> 'a limiter_scheme \<Rightarrow> (exn + bool) \<times> 'a limiter_scheme" where
  "try_acquire now ep order s = (let (n, k) = demand ep order s in take_tokens now n k s)"

text \<open>One round of the loop of \<open>acquire\<close>, with its three readings of the clock: it returns, raises, or sleeps
  (\<open>None\<close>) for the time it has computed.\<close>

definition acquire_round ::
  "pyfloat option \<Rightarrow> pyfloat \<Rightarrow> (nat \<Rightarrow> pyfloat) \<Rightarrow> pyfloat \<Rightarrow> RateLimitType \<Rightarrow> 'a limiter_scheme \<Rightarrow>
   (exn + bool) option \<times> 'a limiter_scheme" where
  "acquire_round timeout start clk n k s =
     (case dict_get (buckets s) k of
        None \<Rightarrow> (Some (Inl KeyError), s)
      | Some b \<Rightarrow>
          (case consume (clk 0) n b of
             (True, b1) \<Rightarrow> (Some (Inr True), put_bucket k b1 s)
           | (False, b1) \<Rightarrow>
               (case time_until_tokens (clk 1) n b1 of
                  (Inl e, b2) \<Rightarrow> (Some (Inl e), put_bucket k b2 s)
                | (Inr wait, b2) \<Rightarrow>
                    (case timeout of
                       None \<Rightarrow> (None, put_bucket k b2 s)
                     | Some t \<Rightarrow>
                         if fsub t (fsub (clk 2) start) \<le> 0 then (Some (Inr False), put_bucket k b2 s)
                         else (None, put_bucket k b2 s)))))"

text \<open>The loop: at most \<open>fuel\<close> rounds, before each of which others have used the limiter.\<close>

fun acquire_loop ::
  "nat \<Rightarrow> (nat \<Rightarrow> 'a limiter_scheme \<Rightarrow> 'a limiter_scheme) \<Rightarrow> (nat \<Rightarrow> nat \<Rightarrow> pyfloat) \<Rightarrow> pyfloat option \<Rightarrow> pyfloat \<Rightarrow>
   pyfloat \<Rightarrow> RateLimitType \<Rightarrow> nat \<Rightarrow> 'a limiter_scheme \<Rightarrow> (exn + bool) option \<times> 'a limiter_scheme" where
  "acquire_loop 0 env clk timeout start n k i s = (None, s)"
| "acquire_loop (Suc fuel) env clk timeout start n k i s =
     (case acquire_round timeout start (clk i) n k (env i s) of
        (Some r, s1) \<Rightarrow> (Some r, s1)
      | (None, s1) \<Rightarrow> acquire_loop fuel env clk timeout start n k (Suc i) s1)"

definition acquire ::
  "nat \<Rightarrow> (nat \<Rightarrow> 'a limiter_scheme \<Rightarrow> 'a limiter_scheme) \<Rightarrow> (nat \<Rightarrow> nat \<Rightarrow> pyfloat) \<Rightarrow> pyfloat \<Rightarrow> string option \<Rightarrow> bool \<Rightarrow>
   pyfloat option \<Rightarrow> 'a limiter_scheme \<Rightarrow> (exn + bool) option \<times> 'a limiter_scheme" where
  "acquire fuel env clk start ep order timeout s =
     (let (n, k) = demand ep order s in acquire_loop fuel env clk timeout start n k 0 s)"

text \<open>\<open>acquire_with_backoff\<close>, with the seconds it sleeps after each failed attempt.\<close>

fun backoff_loop ::
  "(nat \<Rightarrow> 'a limiter_scheme \<Rightarrow> 'a limiter_scheme) \<Rightarrow> (nat \<Rightarrow> pyfloat) \<Rightarrow> string option \<Rightarrow> bool \<Rightarrow> nat \<Rightarrow> nat \<Rightarrow> pyfloat list \<Rightarrow>
   'a limiter_scheme \<Rightarrow> (exn + bool) \<times> pyfloat list \<times> 'a limiter_scheme" where
  "backoff_loop env clk ep order 0 i sl s = (Inr False, sl, s\<lparr>backoff_count := backoff_count s + 1\<rparr>)"
| "backoff_loop env clk ep order (Suc retries) i sl s =
     (case try_acquire (clk i) ep order (env i s) of
        (Inl e, s1) \<Rightarrow> (Inl e, sl, s1)
      | (Inr True, s1) \<Rightarrow> (Inr True, sl, s1\<lparr>backoff_count := 0\<rparr>)
      | (Inr False, s1) \<Rightarrow>
          backoff_loop env clk ep order retries (Suc i) (sl @ [fmul (base_backoff_seconds s1) (2 ^ i)]) s1)"

definition acquire_with_backoff ::
  "(nat \<Rightarrow> 'a limiter_scheme \<Rightarrow> 'a limiter_scheme) \<Rightarrow> (nat \<Rightarrow> pyfloat) \<Rightarrow> string option \<Rightarrow> bool \<Rightarrow> int \<Rightarrow>
   'a limiter_scheme \<Rightarrow> (exn + bool) \<times> pyfloat list \<times> 'a limiter_scheme" where
  "acquire_with_backoff env clk ep order max_retries s = backoff_loop env clk ep order (nat max_retries) 0 [] s"

definition get_rate_limit_state ::
  "pyfloat \<Rightarrow> RateLimitType \<Rightarrow> 'a limiter_scheme \<Rightarrow> (exn + RateLimitState) \<times> 'a limiter_scheme" where
  "get_rate_limit_state now k s =
     (case dict_get (buckets s) k of
        None \<Rightarrow> (Inl KeyError, s)
      | Some b \<Rightarrow>
          (let b1 = refill now b
           in (if refill_rate b1 = 0 then Inl ZeroDivisionError
               else Inr \<lparr>limit_type = k, current_value = int_of_float (tokens b1), max_value = int_of_float (max_tokens b1),
                         window_seconds = (if k = REQUESTS_WEIGHT then 60 else 1),
                         reset_time = fadd (last_refill b1) (fdiv (fsub (max_tokens b1) (tokens b1)) (refill_rate b1)),
                         is_exceeded = tokens b1 < 1\<rparr>, put_bucket k b1 s)))"

fun states_of ::
  "(nat \<Rightarrow> pyfloat) \<Rightarrow> RateLimitType list \<Rightarrow> nat \<Rightarrow> (RateLimitType, RateLimitState) dict \<Rightarrow> 'a limiter_scheme \<Rightarrow>
   (exn + (RateLimitType, RateLimitState) dict) \<times> 'a limiter_scheme" where
  "states_of clk [] i acc s = (Inr acc, s)"
| "states_of clk (k # ks) i acc s =
     (case get_rate_limit_state (clk i) k s of
        (Inl e, s1) \<Rightarrow> (Inl e, s1)
      | (Inr r, s1) \<Rightarrow> states_of clk ks (Suc i) (dict_set k r acc) s1)"

definition get_all_states ::
  "(nat \<Rightarrow> pyfloat) \<Rightarrow> 'a limiter_scheme \<Rightarrow> (exn + (RateLimitType, RateLimitState) dict) \<times> 'a limiter_scheme" where
  "get_all_states clk s = states_of clk all_limit_types 0 [] s"

definition reset_backoff :: "'a limiter_scheme \<Rightarrow> 'a limiter_scheme" where
  "reset_backoff s = s\<lparr>backoff_count := 0\<rparr>"

definition current_backoff_count :: "'a limiter_scheme \<Rightarrow> int" where
  "current_backoff_count s = backoff_count s"

section \<open>The adaptive limiter\<close>

record adaptive = limiter +
  response_headers :: "(string, string) dict"
  adjustment_factor :: pyfloat

definition adaptive_init :: "limiter \<Rightarrow> adaptive" where
  "adaptive_init s = limiter.extend s \<lparr>response_headers = [], adjustment_factor = 1\<rparr>"

text \<open>A failed \<open>int\<close> or a division by zero leaves the headers as they were; log output for order counts is left out.\<close>

definition weigh_headers :: "(string, string) dict \<Rightarrow> adaptive \<Rightarrow> exn + adaptive" where
  "weigh_headers h s =
     (case dict_get h ''X-MBX-USED-WEIGHT-1M'' of
        None \<Rightarrow> Inr s
      | Some w \<Rightarrow>
          if w = [] then Inr s
          else case py_int w of
                 Inl e \<Rightarrow> Inl e
               | Inr used \<Rightarrow>
                   (case dict_get (buckets s) REQUESTS_WEIGHT of
                      None \<Rightarrow> Inl KeyError
                    | Some b \<Rightarrow>
                        (let m = int_of_float (max_tokens b)
                         in if m = 0 then Inl ZeroDivisionError
                            else if idiv used m > fl (8 / 10)
                            then Inr (s\<lparr>adjustment_factor := max (fl (5 / 10)) (fmul (adjustment_factor s) (fl (9 / 10)))\<rparr>)
                            else Inr s)))"

definition count_header :: "(string, string) dict \<Rightarrow> exn option" where
  "count_header h =
     (case dict_get h ''X-MBX-ORDER-COUNT-1S'' of
        None \<Rightarrow> None
      | Some c \<Rightarrow> if c = [] then None else case py_int c of Inl e \<Rightarrow> Some e | Inr n \<Rightarrow> None)"

definition update_from_headers :: "(string, string) dict \<Rightarrow> adaptive \<Rightarrow> exn option \<times> adaptive" where
  "update_from_headers h s =
     (case weigh_headers h s of
        Inl e \<Rightarrow> (Some e, s)
      | Inr s1 \<Rightarrow> (case count_header h of Some e \<Rightarrow> (Some e, s1) | None \<Rightarrow> (None, s1\<lparr>response_headers := h\<rparr>)))"

definition get_adjusted_limit :: "RateLimitType \<Rightarrow> adaptive \<Rightarrow> exn + pyfloat" where
  "get_adjusted_limit k s =
     (case dict_get (buckets s) k of None \<Rightarrow> Inl KeyError | Some b \<Rightarrow> Inr (fmul (max_tokens b) (adjustment_factor s)))"

text \<open>The limiter every caller of \<open>get_rate_limiter\<close> shares.\<close>

definition get_rate_limiter :: "bool \<Rightarrow> (nat \<Rightarrow> pyfloat) \<Rightarrow> limiter option \<Rightarrow> exn + limiter" where
  "get_rate_limiter lock_type clk inst =
     (case inst of Some s \<Rightarrow> Inr s | None \<Rightarrow> limiter_init lock_type clk None None (fl (8 / 10)))"

section \<open>What a bucket gives out\<close>

datatype bucket_call = Consume pyfloat pyfloat | Until pyfloat pyfloat | Look pyfloat

fun call_time :: "bucket_call \<Rightarrow> pyfloat" where
  "call_time (Consume now n) = now"
| "call_time (Until now n) = now"
| "call_time (Look now) = now"

fun asks :: "bucket_call \<Rightarrow> pyfloat" where
  "asks (Consume now n) = n"
| "asks _ = 0"

fun bucket_step :: "bucket_call \<Rightarrow> TokenBucket \<Rightarrow> TokenBucket" where
  "bucket_step (Consume now n) b = snd (consume now n b)"
| "bucket_step (Until now n) b = snd (time_until_tokens now n b)"
| "bucket_step (Look now) b = refill now b"

fun granted :: "bucket_call \<Rightarrow> TokenBucket \<Rightarrow> pyfloat" where
  "granted (Consume now n) b = (if fst (consume now n b) then n else 0)"
| "granted _ b = 0"

fun total_granted :: "bucket_call list \<Rightarrow> TokenBucket \<Rightarrow> rat" where
  "total_granted [] b = 0"
| "total_granted (c # cs) b = granted c b + total_granted cs (bucket_step c b)"

fun clock_forward :: "pyfloat \<Rightarrow> bucket_call list \<Rightarrow> bool" where
  "clock_forward t [] = True"
| "clock_forward t (c # cs) \<longleftrightarrow> t \<le> call_time c \<and> clock_forward (call_time c) cs"

definition bucket_ok :: "TokenBucket \<Rightarrow> bool" where
  "bucket_ok b \<longleftrightarrow>
     0 \<le> tokens b \<and> tokens b \<le> max_tokens b \<and> is_float (tokens b) \<and> is_float (max_tokens b) \<and>
     1 \<le> max_tokens b \<and> 0 < refill_rate b \<and> refill_rate b \<le> max_tokens b"

lemma refill_fields [simp]:
  "max_tokens (refill now b) = max_tokens b" "refill_rate (refill now b) = refill_rate b" "last_refill (refill now b) = now"
  by (simp_all add: refill_def)

lemma refill_ge:
  assumes "bucket_ok b" "last_refill b \<le> now"
  shows "tokens b \<le> tokens (refill now b)"
proof -
  have "0 \<le> fmul (fsub now (last_refill b)) (refill_rate b)"
    using assms by (intro fmul_nonneg fsub_nonneg) (auto simp: bucket_ok_def)
  then have "tokens b \<le> fadd (tokens b) (fmul (fsub now (last_refill b)) (refill_rate b))"
    using assms by (intro fadd_ge) (auto simp: bucket_ok_def)
  then show ?thesis using assms by (simp add: refill_def bucket_ok_def)
qed

lemma refill_le: "tokens (refill now b) \<le> max_tokens b"
  by (simp add: refill_def)

lemma refill_float: "bucket_ok b \<Longrightarrow> is_float (tokens (refill now b))"
  by (simp add: refill_def bucket_ok_def min_def fadd_def)

lemma refill_ok:
  assumes "bucket_ok b" "last_refill b \<le> now" shows "bucket_ok (refill now b)"
  using assms refill_ge [OF assms] refill_le [of now b] refill_float [OF assms(1), of now]
  unfolding bucket_ok_def refill_fields by linarith

lemma step_last [simp]: "last_refill (bucket_step c b) = call_time c"
  by (cases c) (simp_all add: consume_def time_until_tokens_def Let_def)

lemma bucket_step_fixed [simp]:
  "max_tokens (bucket_step c b) = max_tokens b" "refill_rate (bucket_step c b) = refill_rate b"
  by (cases c; simp add: consume_def time_until_tokens_def Let_def)+

lemma fsub_le_first: "is_float x \<Longrightarrow> 0 \<le> y \<Longrightarrow> fsub x y \<le> x"
  using fl_mono [of "x - y" x] by (simp add: fsub_def is_float_def)

lemma consume_ok:
  assumes "bucket_ok b" "last_refill b \<le> now" "0 \<le> n"
  shows "bucket_ok (snd (consume now n b))"
proof -
  let ?r = "refill now b"
  note r = refill_ok [OF assms(1,2)]
  have "is_float (fsub (tokens ?r) n)" by (simp add: fsub_def)
  moreover have "0 \<le> fsub (tokens ?r) n" if "n \<le> tokens ?r" using that by (rule fsub_nonneg)
  moreover have "fsub (tokens ?r) n \<le> tokens ?r" using r assms(3) by (intro fsub_le_first) (auto simp: bucket_ok_def)
  ultimately show ?thesis using r by (auto simp: consume_def Let_def bucket_ok_def)
qed

lemma bucket_step_ok:
  assumes "bucket_ok b" "last_refill b \<le> call_time c" "0 \<le> asks c"
  shows "bucket_ok (bucket_step c b)"
  using assms consume_ok refill_ok by (cases c) (auto simp: time_until_tokens_def Let_def)

text \<open>What one refill adds, and what one grant takes, up to rounding.\<close>

lemma fl_le_factor: "0 \<le> x \<Longrightarrow> fl x \<le> x * (1 + 1 / 2 ^ 53) + tiny"
  using fl_le [of x] by (simp add: distrib_left)

lemma rounded_twice: "(d * (1 + u) + t) * r * (1 + u) + t = r * d * ((1 + u) * (1 + u)) + t * r * (1 + u) + (t :: rat)"
  by (simp add: algebra_simps)

lemma rounded_down_twice: "(d * (1 - u) - t) * r * (1 - u) = r * d * ((1 - u) * (1 - u)) - t * r * (1 - u :: rat)"
  by (simp add: algebra_simps)

lemma refill_gain:
  assumes "bucket_ok b" "last_refill b \<le> now"
  shows "tokens (refill now b) \<le> tokens b + refill_rate b * (now - last_refill b) * (1 + 1 / 2 ^ 51) + max_tokens b / 2 ^ 52"
proof -
  let ?m = "max_tokens b" and ?r = "refill_rate b" and ?d = "now - last_refill b"
  let ?e = "fsub now (last_refill b)" let ?g = "fmul ?e ?r" let ?x = "tokens b + ?g"
  have b: "1 \<le> ?m" "0 < ?r" "?r \<le> ?m" "0 \<le> tokens b" "is_float ?m" using assms(1) by (simp_all add: bucket_ok_def)
  have d: "0 \<le> ?d" using assms(2) by simp
  have t: "0 < tiny" "tiny \<le> 1 / 2 ^ 100" by (rule tiny_pos) (rule tiny_le)
  have e: "0 \<le> ?e" "?e \<le> ?d * (1 + 1 / 2 ^ 53) + tiny"
    using fl_le_factor [OF d] d by (simp_all only: fsub_def) simp
  have er: "?e * ?r \<le> (?d * (1 + 1 / 2 ^ 53) + tiny) * ?r" using e b by (intro mult_right_mono) auto
  have "?g \<le> ?e * ?r * (1 + 1 / 2 ^ 53) + tiny"
    unfolding fmul_def by (rule fl_le_factor) (use e b in simp)
  also have "\<dots> \<le> ((?d * (1 + 1 / 2 ^ 53) + tiny) * ?r) * (1 + 1 / 2 ^ 53) + tiny"
    by (intro add_right_mono mult_right_mono [OF er]) simp
  also have "\<dots> = ?r * ?d * ((1 + 1 / 2 ^ 53) * (1 + 1 / 2 ^ 53)) + tiny * ?r * (1 + 1 / 2 ^ 53) + tiny"
    by (rule rounded_twice)
  also have "\<dots> \<le> ?r * ?d * (1 + 1 / 2 ^ 51) + ?m * (1 / 2 ^ 100) * 2 + ?m * (1 / 2 ^ 100)"
  proof (intro add_mono)
    show "?r * ?d * ((1 + 1 / 2 ^ 53) * (1 + 1 / 2 ^ 53)) \<le> ?r * ?d * (1 + 1 / 2 ^ 51)"
      using b d by (intro mult_left_mono) auto
    have "tiny * ?r \<le> ?m * (1 / 2 ^ 100)" using mult_mono [OF t(2) b(3)] b t by (simp add: mult.commute)
    from mult_mono [OF this, of "1 + 1 / 2 ^ 53" 2] show "tiny * ?r * (1 + 1 / 2 ^ 53) \<le> ?m * (1 / 2 ^ 100) * 2" using b by simp
    show "tiny \<le> ?m * (1 / 2 ^ 100)" using t b by (simp add: field_simps)
  qed
  finally have g: "?g \<le> ?r * ?d * (1 + 1 / 2 ^ 51) + ?m / 2 ^ 98" using b by simp
  have "min ?m (fl ?x) \<le> ?x + ?m / 2 ^ 53 + ?m / 2 ^ 98"
  proof (cases "?x \<le> ?m")
    case True
    have x: "0 \<le> ?x" using b e fmul_nonneg [of ?e ?r] by simp
    have "fl ?x \<le> ?x + ?x / 2 ^ 53 + tiny" by (rule fl_le) (rule x)
    moreover have "?x / 2 ^ 53 \<le> ?m / 2 ^ 53" using True by simp
    moreover have "tiny \<le> ?m / 2 ^ 98" using t b by simp
    ultimately have "fl ?x \<le> ?x + ?m / 2 ^ 53 + ?m / 2 ^ 98" by linarith
    then show ?thesis by (rule order_trans [OF min.cobounded2])
  qed (use b in simp)
  then show ?thesis using g b by (simp add: refill_def fadd_def)
qed

lemma grant_cost:
  assumes "0 \<le> n" "n \<le> x" "x \<le> m" "1 \<le> m"
  shows "n + fsub x n \<le> x + m / 2 ^ 52"
proof -
  have "fsub x n \<le> (x - n) + (x - n) / 2 ^ 53 + tiny" unfolding fsub_def using assms by (intro fl_le) simp
  moreover have "(x - n) / 2 ^ 53 \<le> m / 2 ^ 53" using assms by (intro divide_right_mono) auto
  moreover have "m / 2 ^ 53 + tiny \<le> m / 2 ^ 52"
  proof -
    have "tiny \<le> m / 2 ^ 53" using tiny_le assms by simp
    then show ?thesis by simp
  qed
  ultimately show ?thesis by linarith
qed

lemma step_cost:
  assumes "bucket_ok b" "last_refill b \<le> call_time c" "0 \<le> asks c"
  shows "granted c b + tokens (bucket_step c b) \<le>
    tokens b + refill_rate b * (call_time c - last_refill b) * (1 + 1 / 2 ^ 51) + max_tokens b / 2 ^ 51"
proof -
  note g = refill_gain [OF assms(1,2)]
  have m: "1 \<le> max_tokens b" using assms(1) by (simp add: bucket_ok_def)
  have "granted c b + tokens (bucket_step c b) \<le> tokens (refill (call_time c) b) + max_tokens b / 2 ^ 52"
  proof (cases c)
    case (Consume now n)
    then show ?thesis using grant_cost [of n "tokens (refill now b)" "max_tokens b"] assms(3) m refill_le [of now b]
      by (simp add: consume_def Let_def)
  qed (use m in \<open>simp_all add: time_until_tokens_def Let_def\<close>)
  then show ?thesis using g by (simp add: field_simps)
qed

lemma total_cost:
  assumes "bucket_ok b" "clock_forward (last_refill b) cs" "\<forall>c \<in> set cs. 0 \<le> asks c"
  shows "total_granted cs b + tokens (fold bucket_step cs b) \<le>
    tokens b + refill_rate b * (last_refill (fold bucket_step cs b) - last_refill b) * (1 + 1 / 2 ^ 51) +
    of_nat (length cs) * (max_tokens b / 2 ^ 51) \<and> bucket_ok (fold bucket_step cs b)"
  using assms
proof (induction cs arbitrary: b)
  case (Cons c cs)
  let ?b = "bucket_step c b" and ?t = "last_refill (fold bucket_step cs (bucket_step c b))"
  define K :: rat where "K = 1 + 1 / 2 ^ 51"
  define M where "M = max_tokens b / 2 ^ 51"
  have ok: "bucket_ok ?b" using Cons.prems by (intro bucket_step_ok) auto
  have "granted c b + tokens ?b \<le> tokens b + refill_rate b * (call_time c - last_refill b) * K + M"
    using Cons.prems step_cost [of b c] by (simp add: K_def M_def)
  moreover have "total_granted cs ?b + tokens (fold bucket_step cs ?b) \<le>
      tokens ?b + refill_rate b * (?t - call_time c) * K + of_nat (length cs) * M" "bucket_ok (fold bucket_step cs ?b)"
    using Cons.IH [OF ok] Cons.prems by (simp_all add: K_def M_def)
  moreover have "refill_rate b * (?t - last_refill b) * K =
      refill_rate b * (call_time c - last_refill b) * K + refill_rate b * (?t - call_time c) * K" by (simp add: algebra_simps)
  moreover have "of_nat (length (c # cs)) * M = M + of_nat (length cs) * M" by (simp add: algebra_simps)
  ultimately show ?case unfolding K_def [symmetric] M_def [symmetric] by simp
qed simp

text \<open>C14: A bucket keeps its rate: over any stretch of calls with a clock that does not run backwards, what it grants is at most what it
  held plus the refill rate times the time that has passed, up to the rounding of the floats (a relative \<open>2 ^ -51\<close> of the refill and
  \<open>2 ^ -51\<close> of the capacity per call), and it always holds between nothing and its capacity.\<close>
theorem bucket_keeps_rate:
  assumes "bucket_ok b" "clock_forward (last_refill b) cs" "\<forall>c \<in> set cs. 0 \<le> asks c"
  shows "total_granted cs b \<le>
      tokens b + refill_rate b * (last_refill (fold bucket_step cs b) - last_refill b) * (1 + 1 / 2 ^ 51) +
      of_nat (length cs) * (max_tokens b / 2 ^ 51) \<and>
    0 \<le> tokens (fold bucket_step cs b) \<and> tokens (fold bucket_step cs b) \<le> max_tokens b"
proof -
  have "max_tokens (fold bucket_step cs b) = max_tokens b" by (induction cs arbitrary: b) simp_all
  then show ?thesis using total_cost [OF assms] by (auto simp: bucket_ok_def)
qed

definition order_bucket :: TokenBucket where
  "order_bucket = \<lparr>tokens = 8, max_tokens = 8, refill_rate = 8, last_refill = 100\<rparr>"

theorem bucket_keeps_rate_witness:
  "total_granted [Consume 100 1, Consume 101 1] order_bucket \<le> 16 + (8 / 2 ^ 51 + 16 / 2 ^ 51)"
proof -
  have "total_granted [Consume 100 1, Consume 101 1] order_bucket \<le>
      tokens order_bucket + refill_rate order_bucket *
        (last_refill (fold bucket_step [Consume 100 1, Consume 101 1] order_bucket) - last_refill order_bucket) * (1 + 1 / 2 ^ 51) +
      of_nat (length [Consume 100 1, Consume 101 1]) * (max_tokens order_bucket / 2 ^ 51)"
    by (rule bucket_keeps_rate [THEN conjunct1]) (simp_all add: order_bucket_def bucket_ok_def is_float_def)
  then show ?thesis by (simp add: order_bucket_def)
qed
section \<open>Waiting for tokens\<close>

lemma fl_ge_factor: "0 \<le> x \<Longrightarrow> x * (1 - 1 / 2 ^ 53) - tiny \<le> fl x"
  using fl_ge [of x] by (simp add: right_diff_distrib)

lemma gain_chain:
  fixes a :: rat
  assumes "a - t \<le> g" "b \<le> a" "b = c - e" "f \<le> c" "e \<le> h" "t \<le> h" "k = h + h"
  shows "f - k \<le> g"
  using assms by linarith

text \<open>After \<open>delta\<close> seconds at least half of what they are worth has arrived, unless the bucket is full.\<close>

lemma refill_progress:
  assumes "bucket_ok b" "last_refill b + delta \<le> now" "0 \<le> delta" "max_tokens b / 2 ^ 50 \<le> refill_rate b * delta"
  shows "min (max_tokens b) (tokens b + refill_rate b * delta / 2) \<le> tokens (refill now b)"
proof -
  let ?m = "max_tokens b" and ?r = "refill_rate b" let ?g = "fmul (fsub now (last_refill b)) ?r" let ?x = "tokens b + ?g"
  have b: "1 \<le> ?m" "0 < ?r" "?r \<le> ?m" "0 \<le> tokens b" "is_float ?m" using assms(1) by (simp_all add: bucket_ok_def)
  have t: "0 < tiny" "tiny \<le> 1 / 2 ^ 100" by (rule tiny_pos) (rule tiny_le)
  have rd: "0 \<le> ?r * delta" using b assms(3) by simp
  have "delta * (1 - 1 / 2 ^ 53) - tiny \<le> fl delta" by (rule fl_ge_factor) (rule assms(3))
  also have "\<dots> \<le> fsub now (last_refill b)" unfolding fsub_def using assms(2) by (intro fl_mono) simp
  finally have e: "(delta * (1 - 1 / 2 ^ 53) - tiny) * ?r \<le> fsub now (last_refill b) * ?r" using b by (intro mult_right_mono) auto
  have "0 \<le> fsub now (last_refill b)" using assms(2,3) by (intro fsub_nonneg) simp
  then have "fsub now (last_refill b) * ?r * (1 - 1 / 2 ^ 53) - tiny \<le> ?g"
    unfolding fmul_def using b by (intro fl_ge_factor) simp
  moreover have "(delta * (1 - 1 / 2 ^ 53) - tiny) * ?r * (1 - 1 / 2 ^ 53) \<le> fsub now (last_refill b) * ?r * (1 - 1 / 2 ^ 53)"
    by (intro mult_right_mono [OF e]) simp
  moreover have "(delta * (1 - 1 / 2 ^ 53) - tiny) * ?r * (1 - 1 / 2 ^ 53) =
      ?r * delta * ((1 - 1 / 2 ^ 53) * (1 - 1 / 2 ^ 53)) - tiny * ?r * (1 - 1 / 2 ^ 53)" by (rule rounded_down_twice)
  moreover have "?r * delta * (3 / 4) \<le> ?r * delta * ((1 - 1 / 2 ^ 53) * (1 - 1 / 2 ^ 53))"
    using rd by (intro mult_left_mono) auto
  moreover have "tiny * ?r * (1 - 1 / 2 ^ 53) \<le> ?m / 2 ^ 98"
  proof -
    have "tiny * ?r \<le> (1 / 2 ^ 100) * ?m" using b t by (intro mult_mono) auto
    then have "tiny * ?r * (1 - 1 / 2 ^ 53) \<le> (1 / 2 ^ 100) * ?m * 1" using b t by (intro mult_mono) auto
    then show ?thesis using b by simp
  qed
  moreover have "tiny \<le> ?m / 2 ^ 98" using t b by simp
  moreover have "?m / 2 ^ 97 = ?m / 2 ^ 98 + ?m / 2 ^ 98" by simp
  ultimately have g: "?r * delta * (3 / 4) - ?m / 2 ^ 97 \<le> ?g" by (rule gain_chain)
  show ?thesis
  proof (cases "?m \<le> fl ?x")
    case False
    then have "\<not> ?m \<le> ?x" using fl_mono [of ?m ?x] b(5) by (auto simp: is_float_def)
    then have x: "?x * (1 / 2 ^ 53) \<le> ?m / 2 ^ 53" by simp
    have "0 \<le> ?g" using b assms by (intro fmul_nonneg fsub_nonneg) auto
    then have "?x * (1 - 1 / 2 ^ 53) - tiny \<le> fl ?x" using b by (intro fl_ge_factor) simp
    moreover have "?x * (1 - 1 / 2 ^ 53) = ?x - ?x * (1 / 2 ^ 53)" by (simp only: right_diff_distrib mult_1_right)
    moreover have "tokens (refill now b) = fl ?x" using False by (simp add: refill_def fadd_def)
    moreover have "?m / 2 ^ 53 + tiny + ?m / 2 ^ 97 \<le> ?r * delta / 4"
    proof -
      have "tiny \<le> ?m / 2 ^ 97" using t b by simp
      then have "?m / 2 ^ 53 + tiny + ?m / 2 ^ 97 \<le> ?m / 2 ^ 52" using b by simp
      also have "\<dots> = ?m / 2 ^ 50 / 4" by simp
      also have "\<dots> \<le> ?r * delta / 4" using assms(4) by (intro divide_right_mono) auto
      finally show ?thesis .
    qed
    ultimately show ?thesis using g x by linarith
  qed (simp add: refill_def fadd_def)
qed

text \<open>C38: A request that fits in the bucket gets through when nobody else takes tokens from the limiter between the rounds of its loop: if
  each round starts at least \<open>delta\<close> seconds after the one before has ended, \<open>acquire\<close> without a timeout then returns \<open>True\<close>, at the latest
  after the rounds in which half the refill rate would produce the tokens. When others do take tokens it may wait for ever:
  \<open>waiter_starves\<close>.\<close>
theorem acquire_returns:
  assumes "dict_get (buckets s) k = Some b" "bucket_ok b" "0 \<le> n" "n \<le> max_tokens b" "0 \<le> delta"
    "max_tokens b / 2 ^ 50 \<le> refill_rate b * delta"
    "last_refill b + delta \<le> clk i 0" "\<And>j. clk j 0 \<le> clk j 1" "\<And>j. clk j 1 + delta \<le> clk (Suc j) 0"
    "n \<le> tokens b + of_nat fuel * (refill_rate b * delta / 2)" "0 < fuel"
  shows "fst (acquire_loop fuel (\<lambda>_ s. s) clk None start n k i s) = Some (Inr True)"
  using assms(1,2,4,6,7,10,11)
proof (induction fuel arbitrary: i s b)
  case (Suc fuel)
  let ?b = "refill (clk i 0) b" let ?c = "refill (clk i 1) ?b"
  have l: "last_refill b \<le> clk i 0" using Suc.prems(5) assms(5) by simp
  note ok = refill_ok [OF Suc.prems(2) l]
  have ok2: "bucket_ok ?c" by (rule refill_ok [OF ok]) (use assms(8) in simp)
  have g: "min (max_tokens b) (tokens b + refill_rate b * delta / 2) \<le> tokens ?b"
    using Suc.prems assms(5) by (intro refill_progress) auto
  have c: "tokens ?b \<le> tokens ?c" by (rule refill_ge [OF ok]) (use assms(8) in simp)
  have rate: "refill_rate b \<noteq> 0" using Suc.prems(2) by (simp add: bucket_ok_def)
  show ?case
  proof (cases "n \<le> tokens ?b")
    case True
    then show ?thesis using Suc.prems(1) by (simp add: acquire_round_def consume_def Let_def)
  next
    case False
    then have low: "tokens b + refill_rate b * delta / 2 \<le> tokens ?b" using g Suc.prems(3) by linarith
    have fuel: "0 < fuel"
    proof (rule ccontr)
      assume "\<not> 0 < fuel"
      then show False using Suc.prems(6) low False by simp
    qed
    have r: "acquire_round None start (clk i) n k s = (None, put_bucket k ?c s)"
      using False Suc.prems(1) rate
      by (auto simp: acquire_round_def consume_def time_until_tokens_def Let_def)
    have "of_nat (Suc fuel) * (refill_rate b * delta / 2) = refill_rate b * delta / 2 + of_nat fuel * (refill_rate b * delta / 2)"
      by (simp add: algebra_simps)
    then have "n \<le> tokens ?c + of_nat fuel * (refill_rate b * delta / 2)" using Suc.prems(6) low c by linarith
    then have "n \<le> tokens ?c + of_nat fuel * (refill_rate ?c * delta / 2)" by simp
    then have "fst (acquire_loop fuel (\<lambda>_ s. s) clk None start n k (Suc i) (put_bucket k ?c s)) = Some (Inr True)"
      using Suc.prems(3,4) assms(9)
      by (intro Suc.IH [of "put_bucket k ?c s" ?c, OF _ ok2 _ _ _ _ fuel]) (simp_all add: put_bucket_def dict_get_set)
    then show ?thesis by (simp add: r)
  qed
qed simp
theorem acquire_returns_witness:
  "fst (acquire_loop 2 (\<lambda>_ s. s) (\<lambda>j m. 101 + of_nat j) None 100 8 ORDERS 0
     \<lparr>safety_factor = 1, buckets = [(ORDERS, order_bucket\<lparr>tokens := 0\<rparr>)], endpoint_weights = [], backoff_count = 0,
      max_backoff_count = 5, base_backoff_seconds = 1\<rparr>) = Some (Inr True)"
  by (rule acquire_returns [where delta = 1 and b = "order_bucket\<lparr>tokens := 0\<rparr>"])
    (simp_all add: order_bucket_def bucket_ok_def is_float_def)

text \<open>A waiter may starve: when before each round another task asks for the whole bucket at the same instant, a request for the whole
  bucket without a timeout is never granted and its loop never ends, however many rounds it runs. The limiter keeps no queue.\<close>

lemma starving_round:
  assumes "dict_get (buckets s) k = Some b" "max_tokens b = n" "is_float n" "0 < n" "refill_rate b \<noteq> 0"
  shows "\<exists>c. acquire_round None start clk n k (snd (take_tokens (clk 0) n k s)) = (None, c) \<and>
    (\<exists>d. dict_get (buckets c) k = Some d \<and> max_tokens d = n \<and> refill_rate d \<noteq> 0)"
proof -
  let ?t = "tokens (refill (clk 0) b)"
  define u where "u = (if n \<le> ?t then refill (clk 0) b\<lparr>tokens := fsub ?t n\<rparr> else refill (clk 0) b)"
  have full: "?t \<le> n" using assms(2) by (simp add: refill_def)
  have fl: "fl ?t = ?t" using assms(2,3) by (simp add: refill_def is_float_def fadd_def min_def)
  have u: "last_refill u = clk 0" "max_tokens u = n" "refill_rate u = refill_rate b" "tokens u < n" "fl (tokens u) = tokens u"
    using full fl assms(2,4) by (auto simp: u_def refill_def fsub_def)
  have "snd (take_tokens (clk 0) n k s) = put_bucket k u s"
    by (simp add: take_tokens_def assms(1) consume_def u_def Let_def)
  moreover have "refill (clk 0) u = u" using u by (simp add: refill_def fsub_def fmul_def fadd_def)
  ultimately show ?thesis
    using u assms(5) by (auto simp: acquire_round_def consume_def time_until_tokens_def put_bucket_def dict_get_set refill_def Let_def)
qed

theorem waiter_starves:
  assumes "dict_get (buckets s) k = Some b" "max_tokens b = n" "is_float n" "0 < n" "refill_rate b \<noteq> 0"
  shows "fst (acquire_loop fuel (\<lambda>j s. snd (take_tokens (clk j 0) n k s)) clk None start n k i s) = None"
  using assms(1,2,5)
proof (induction fuel arbitrary: i s b)
  case (Suc fuel)
  from starving_round [OF Suc.prems(1,2) assms(3,4) Suc.prems(3)] obtain c d where
    "acquire_round None start (clk i) n k (snd (take_tokens (clk i 0) n k s)) = (None, c)"
    "dict_get (buckets c) k = Some d" "max_tokens d = n" "refill_rate d \<noteq> 0" by metis
  then show ?case using Suc.IH by simp
qed simp

section \<open>The limiter as a machine\<close>

datatype limiter_op =
    Op_Weight string int
  | Op_Try pyfloat "string option" bool
  | Op_Round "pyfloat option" pyfloat "nat \<Rightarrow> pyfloat" pyfloat RateLimitType
  | Op_State pyfloat RateLimitType
  | Op_All "nat \<Rightarrow> pyfloat"
  | Op_Backoff "nat \<Rightarrow> pyfloat" "string option" bool int
  | Op_Reset

fun limiter_step :: "limiter_op \<Rightarrow> 'a limiter_scheme \<Rightarrow> 'a limiter_scheme" where
  "limiter_step (Op_Weight ep w) s = set_endpoint_weight ep w s"
| "limiter_step (Op_Try now ep order) s = snd (try_acquire now ep order s)"
| "limiter_step (Op_Round timeout start clk n k) s = snd (acquire_round timeout start clk n k s)"
| "limiter_step (Op_State now k) s = snd (get_rate_limit_state now k s)"
| "limiter_step (Op_All clk) s = snd (get_all_states clk s)"
| "limiter_step (Op_Backoff clk ep order n) s = snd (snd (acquire_with_backoff (\<lambda>_ s. s) clk ep order n s))"
| "limiter_step Op_Reset s = reset_backoff s"

text \<open>No operation changes which buckets there are, nor their capacities and rates.\<close>

definition shape :: "'a limiter_scheme \<Rightarrow> (RateLimitType \<times> pyfloat \<times> pyfloat) list" where
  "shape s = map (\<lambda>(k, b). (k, max_tokens b, refill_rate b)) (buckets s)"

lemma update_same_shape:
  "map_of d k = Some b \<Longrightarrow> max_tokens b' = max_tokens b \<Longrightarrow> refill_rate b' = refill_rate b \<Longrightarrow>
    map (\<lambda>(k, b). (k, max_tokens b, refill_rate b)) (AList.update k b' d) = map (\<lambda>(k, b). (k, max_tokens b, refill_rate b)) d"
  by (induction d) (auto split: if_splits)

lemma shape_put:
  "dict_get (buckets s) k = Some b \<Longrightarrow> max_tokens b' = max_tokens b \<Longrightarrow> refill_rate b' = refill_rate b \<Longrightarrow>
    shape (put_bucket k b' s) = shape s"
  by (simp add: shape_def put_bucket_def update_same_shape)

lemma shape_more [simp]:
  "shape (s\<lparr>endpoint_weights := w\<rparr>) = shape s" "shape (s\<lparr>backoff_count := n\<rparr>) = shape s"
  by (simp_all add: shape_def)

lemma consume_fixed [simp]:
  "max_tokens (snd (consume now n b)) = max_tokens b" "refill_rate (snd (consume now n b)) = refill_rate b"
  by (simp_all add: consume_def Let_def)

lemma until_fixed [simp]:
  "max_tokens (snd (time_until_tokens now n b)) = max_tokens b" "refill_rate (snd (time_until_tokens now n b)) = refill_rate b"
  by (simp_all add: time_until_tokens_def Let_def)

lemma take_tokens_shape: "shape (snd (take_tokens now n k s)) = shape s"
  by (auto simp: take_tokens_def case_prod_unfold Let_def split: option.split intro!: shape_put)

lemma try_acquire_shape: "shape (snd (try_acquire now ep order s)) = shape s"
  by (simp add: try_acquire_def take_tokens_shape case_prod_unfold Let_def)

lemma acquire_round_shape: "shape (snd (acquire_round timeout start clk n k s)) = shape s"
proof (cases "dict_get (buckets s) k")
  case (Some b)
  obtain ok b1 where c: "consume (clk 0) n b = (ok, b1)" by (cases "consume (clk 0) n b")
  obtain r b2 where t: "time_until_tokens (clk 1) n b1 = (r, b2)" by (cases "time_until_tokens (clk 1) n b1")
  have f: "max_tokens b1 = max_tokens b" "refill_rate b1 = refill_rate b" "max_tokens b2 = max_tokens b" "refill_rate b2 = refill_rate b"
    using consume_fixed [of "clk 0" n b, unfolded c] until_fixed [of "clk 1" n b1, unfolded t] by simp_all
  show ?thesis using f Some by (auto simp: acquire_round_def c t [unfolded One_nat_def] split: bool.split sum.split option.split intro!: shape_put)
qed (simp add: acquire_round_def)

lemma state_shape: "shape (snd (get_rate_limit_state now k s)) = shape s"
  by (auto simp: get_rate_limit_state_def Let_def split: option.split intro!: shape_put)

lemma states_shape: "shape (snd (states_of clk ks i acc s)) = shape s"
proof (induction ks arbitrary: i acc s)
  case (Cons k ks)
  then show ?case using state_shape [of "clk i" k s] by (auto split: prod.split sum.split)
qed simp

lemma backoff_shape: "shape (snd (snd (backoff_loop (\<lambda>_ s. s) clk ep order m i sl s))) = shape s"
proof (induction m arbitrary: i sl s)
  case (Suc m)
  obtain r s1 where t: "try_acquire (clk i) ep order s = (r, s1)" by (cases "try_acquire (clk i) ep order s")
  have "shape s1 = shape s" using try_acquire_shape [of "clk i" ep order s] t by simp
  then show ?case using Suc by (auto simp: t split: sum.split bool.split)
qed simp

lemma limiter_step_shape: "shape s = sh \<Longrightarrow> shape (limiter_step x s) = sh"
  by (cases x) (simp_all add: set_endpoint_weight_def reset_backoff_def try_acquire_shape acquire_round_shape state_shape
      get_all_states_def states_shape acquire_with_backoff_def backoff_shape)

interpretation lm: op_machine limiter_step "\<lambda>s. shape s = sh" for sh
  by unfold_locales (rule limiter_step_shape)

lemma shape_get_iff: "map_of (shape s) k = map_option (\<lambda>b. (max_tokens b, refill_rate b)) (dict_get (buckets s) k)"
proof -
  have "map_of (map (\<lambda>(k, b). (k, max_tokens b, refill_rate b)) d) k = map_option (\<lambda>b. (max_tokens b, refill_rate b)) (map_of d k)" for d
    by (induction d) auto
  then show ?thesis by (simp add: shape_def)
qed

lemma shape_get: "dict_get (buckets s) k = Some b \<Longrightarrow> map_of (shape s) k = Some (max_tokens b, refill_rate b)"
  by (simp add: shape_get_iff)

section \<open>Properties of the limiter\<close>

lemma heavy_round:
  assumes "map_of (shape s) k = Some (m, r)" "m < n" "r \<noteq> 0"
  shows "fst (acquire_round None start clk n k s) = None"
proof -
  obtain b where b: "dict_get (buckets s) k = Some b" "max_tokens b = m" "refill_rate b = r"
    using assms(1) by (auto simp: shape_get_iff)
  have "tokens (refill t b) < n" for t using refill_le [of t b] b assms(2) by linarith
  moreover have "tokens (refill t (refill u b)) < n" for t u using refill_le [of t "refill u b"] b assms(2) by simp
  ultimately show ?thesis using assms(3) b
    by (simp add: acquire_round_def consume_def time_until_tokens_def Let_def not_le [symmetric])
qed

text \<open>A request heavier than the bucket is never let through and never refused: \<open>acquire\<close> without a timeout goes on sleeping,
  whatever the clock shows and whatever others do in between, as for an endpoint whose weight exceeds the limit of the limiter.\<close>
theorem heavy_request_waits_for_ever:
  fixes s :: "'a limiter_scheme"
  assumes "demand ep order s = (n, k)" "dict_get (buckets s) k = Some b" "max_tokens b < n" "refill_rate b \<noteq> 0"
  shows "fst (acquire fuel (\<lambda>i. fold limiter_step (others i)) clk start ep order None s) = None"
proof -
  have "fst (acquire_loop fuel (\<lambda>i. fold limiter_step (others i)) clk None start n k i u) = None" if "shape u = shape s" for i and u :: "'a limiter_scheme"
    using that
  proof (induction fuel arbitrary: i u)
    case (Suc fuel)
    let ?u = "fold limiter_step (others i) u"
    have u: "shape ?u = shape s" using Suc.prems by (rule lm.run_inv)
    obtain r v where v: "acquire_round None start (clk i) n k ?u = (r, v)" by (cases "acquire_round None start (clk i) n k ?u")
    have "map_of (shape ?u) k = Some (max_tokens b, refill_rate b)" unfolding u by (rule shape_get) (rule assms(2))
    then have "r = None" using heavy_round [of ?u k "max_tokens b" "refill_rate b" n start "clk i"] assms(3,4) v by simp
    moreover have "shape v = shape s" using acquire_round_shape [of None start "clk i" n k ?u] v u by simp
    ultimately show ?case using Suc.IH [of v "Suc i"] by (simp add: v)
  qed simp
  then show ?thesis by (simp add: acquire_def assms(1))
qed

definition light_limiter :: limiter where
  "light_limiter =
     \<lparr>safety_factor = 1, buckets = [(REQUESTS_WEIGHT, \<lparr>tokens = 48, max_tokens = 48, refill_rate = 1, last_refill = 0\<rparr>), (ORDERS, order_bucket)],
      endpoint_weights = default_weights, backoff_count = 0, max_backoff_count = 5, base_backoff_seconds = 1\<rparr>"

theorem heavy_request_waits_for_ever_witness:
  "fst (acquire 9 (\<lambda>i. fold limiter_step [Op_Reset]) (\<lambda>i j. of_nat (100 * i + j)) 0 (Some ''/api/v3/depth'') False None light_limiter) = None"
  by (rule heavy_request_waits_for_ever [where others = "\<lambda>_. [Op_Reset]" and n = 50 and k = REQUESTS_WEIGHT
        and b = "\<lparr>tokens = 48, max_tokens = 48, refill_rate = 1, last_refill = 0\<rparr>"])
    (simp_all add: light_limiter_def demand_def get_endpoint_weight_def default_weights_def truthy_str_def)

text \<open>\<open>get_all_states\<close> never returns: it asks for the raw request limit too, which has no bucket, so in every state a new limiter
  can reach it raises \<open>KeyError\<close>, unless a limit of zero makes it raise \<open>ZeroDivisionError\<close> before.\<close>
theorem all_states_unavailable:
  assumes "limiter_init lock_type clk0 weight ops factor = Inr s0" "s = fold limiter_step xs s0"
  shows "fst (get_all_states clk s) \<in> {Inl KeyError, Inl ZeroDivisionError}"
proof -
  have k: "map fst (shape s0) = [REQUESTS_WEIGHT, ORDERS]"
    using assms(1) by (auto simp: limiter_init_def shape_def Let_def split: sum.splits)
  have "shape s = shape s0" using lm.run_inv [of s0 "shape s0" xs] assms(2) by simp
  then have sh: "map_of (shape s) RAW_REQUESTS = None" using k by (simp add: map_of_eq_None_iff flip: set_map)
  have raw: "fst (get_rate_limit_state now RAW_REQUESTS u) = Inl KeyError" if "shape u = shape s" for u :: limiter and now
  proof -
    have "dict_get (buckets u) RAW_REQUESTS = None" using shape_get_iff [of u RAW_REQUESTS] sh that by simp
    then show ?thesis by (simp add: get_rate_limit_state_def)
  qed
  have other: "fst (get_rate_limit_state now k u) = Inl e \<Longrightarrow> e \<in> {KeyError, ZeroDivisionError}" for now k u e
    by (auto simp: get_rate_limit_state_def Let_def split: option.splits if_splits)
  obtain r1 s1 where 1: "get_rate_limit_state (clk 0) REQUESTS_WEIGHT s = (r1, s1)" by (cases "get_rate_limit_state (clk 0) REQUESTS_WEIGHT s")
  obtain r2 s2 where 2: "get_rate_limit_state (clk 1) ORDERS s1 = (r2, s2)" by (cases "get_rate_limit_state (clk 1) ORDERS s1")
  obtain r3 s3 where 3: "get_rate_limit_state (clk 2) RAW_REQUESTS s2 = (r3, s3)" by (cases "get_rate_limit_state (clk 2) RAW_REQUESTS s2")
  have "shape s2 = shape s"
    using state_shape [of "clk 0" REQUESTS_WEIGHT s] state_shape [of "clk 1" ORDERS s1] 1 2 by simp
  then have "r3 = Inl KeyError" using raw [of s2 "clk 2"] 3 by simp
  then show ?thesis
    using other [of "clk 0" REQUESTS_WEIGHT s] other [of "clk 1" ORDERS s1] 1 2 3
    by (auto simp: get_all_states_def all_limit_types_def numeral_2_eq_2 split: sum.split)
qed
theorem all_states_unavailable_witness:
  "fst (get_all_states (\<lambda>_. 5) (fold limiter_step [Op_Reset] light_limiter)) \<in> {Inl KeyError, Inl ZeroDivisionError}"
proof -
  have "limiter_init True (\<lambda>_. 0) (Some 60) (Some 8) 1 =
      Inr (light_limiter\<lparr>buckets := [(REQUESTS_WEIGHT, \<lparr>tokens = 60, max_tokens = 60, refill_rate = 1, last_refill = 0\<rparr>),
        (ORDERS, order_bucket\<lparr>last_refill := 0\<rparr>)]\<rparr>)"
    by (simp add: limiter_init_def effective_limit_def new_bucket_def light_limiter_def order_bucket_def fmul_def fdiv_def)
  from all_states_unavailable [OF this refl, of "\<lambda>_. 5" "[Op_Reset]"] show ?thesis
    by (simp add: light_limiter_def order_bucket_def get_all_states_def all_limit_types_def get_rate_limit_state_def put_bucket_def
        refill_def reset_backoff_def Let_def)
qed

text \<open>Requests of one kind at given times.\<close>

fun run_requests :: "string option \<Rightarrow> pyfloat list \<Rightarrow> 'a limiter_scheme \<Rightarrow> (exn + bool) list \<times> 'a limiter_scheme" where
  "run_requests ep [] s = ([], s)"
| "run_requests ep (t # ts) s =
     (case try_acquire t ep False s of (r, s1) \<Rightarrow> (case run_requests ep ts s1 of (rs, s2) \<Rightarrow> (r # rs, s2)))"

definition busy_limiter :: "int \<Rightarrow> int \<Rightarrow> limiter" where
  "busy_limiter n t =
     \<lparr>safety_factor = fl (8 / 10),
      buckets = [(REQUESTS_WEIGHT, \<lparr>tokens = of_int n, max_tokens = 960, refill_rate = 16, last_refill = of_int t\<rparr>),
                 (ORDERS, \<lparr>tokens = 8, max_tokens = 8, refill_rate = 8, last_refill = 0\<rparr>)],
      endpoint_weights = default_weights, backoff_count = 0, max_backoff_count = 5, base_backoff_seconds = 1\<rparr>"

lemma fl_0_8: "fl (8 / 10) = 7205759403792794 / 2 ^ 53"
  using fl_eqI [of "- 53" "8 / 10" 7205759403792794] by (simp add: power_int_minus)

lemma default_limits: "effective_limit None 1200 (fl (8 / 10)) = 960" "effective_limit None 10 (fl (8 / 10)) = 8"
  using fl_eqI [of "- 43" "1200 * fl (8 / 10)" "960 * 2 ^ 43"] fl_eqI [of "- 49" "10 * fl (8 / 10)" "8 * 2 ^ 49"]
  unfolding fl_0_8 effective_limit_def fmul_def by (simp_all add: power_int_minus)

lemma default_limiter:
  "limiter_init True (\<lambda>_. 0) None None (fl (8 / 10)) = Inr (busy_limiter 960 0)"
  unfolding limiter_init_def default_limits by (simp add: new_bucket_def busy_limiter_def fdiv_def)

lemma busy_request:
  assumes "0 \<le> n" "n \<le> 960" "0 \<le> d" "d \<le> 60" "50 \<le> min 960 (n + 16 * d)" "0 \<le> t" "t < 2 ^ 40"
  shows "try_acquire (of_int (t + d)) (Some ''/api/v3/depth'') False (busy_limiter n t) =
    (Inr True, busy_limiter (min 960 (n + 16 * d) - 50) (t + d))"
proof -
  have "fsub (of_int (t + d)) (of_int t) = of_int d" using assms fl_of_int [of d] by (simp add: fsub_def)
  moreover have "fmul (of_int d) 16 = of_int (16 * d)" using assms fl_of_int [of "16 * d"] by (simp add: fmul_def algebra_simps)
  moreover have "fadd (of_int n) (of_int (16 * d)) = of_int (n + 16 * d)"
    using assms fl_of_int [of "n + 16 * d"] by (simp add: fadd_def)
  moreover have "min 960 (of_int (n + 16 * d)) = (of_int (min 960 (n + 16 * d)) :: rat)" by (simp add: min_def)
  ultimately have "refill (of_int (t + d)) \<lparr>tokens = of_int n, max_tokens = 960, refill_rate = 16, last_refill = of_int t\<rparr> =
      \<lparr>tokens = of_int (min 960 (n + 16 * d)), max_tokens = 960, refill_rate = 16, last_refill = of_int (t + d)\<rparr>"
    by (simp add: refill_def del: of_int_add of_int_mult)
  moreover have "fsub (of_int (min 960 (n + 16 * d))) 50 = of_int (min 960 (n + 16 * d) - 50)"
    using assms fl_of_int [of "min 960 (n + 16 * d) - 50"] by (simp add: fsub_def)
  moreover have "(50 :: rat) \<le> of_int (min 960 (n + 16 * d))" using assms(5) by (metis of_int_le_iff of_int_numeral)
  ultimately show ?thesis
    by (simp add: try_acquire_def demand_def truthy_str_def get_endpoint_weight_def busy_limiter_def default_weights_def take_tokens_def
        consume_def put_bucket_def del: of_int_add)
qed

lemma busy_burst:
  "0 \<le> n \<Longrightarrow> n \<le> 960 \<Longrightarrow> 50 * int k \<le> n \<Longrightarrow> 0 \<le> t \<Longrightarrow> t < 2 ^ 40 \<Longrightarrow>
    run_requests (Some ''/api/v3/depth'') (replicate k (of_int t)) (busy_limiter n t) =
    (replicate k (Inr True), busy_limiter (n - 50 * int k) t)"
proof (induction k arbitrary: n)
  case (Suc k)
  have "try_acquire (of_int t) (Some ''/api/v3/depth'') False (busy_limiter n t) = (Inr True, busy_limiter (n - 50) t)"
    using busy_request [of n 0 t] Suc.prems by simp
  then show ?case using Suc.IH [of "n - 50"] Suc.prems by (simp add: diff_diff_eq)
qed simp

lemma run_requests_append:
  "run_requests ep (ts @ us) s =
    (case run_requests ep ts s of (r1, s1) \<Rightarrow> (case run_requests ep us s1 of (r2, s2) \<Rightarrow> (r1 @ r2, s2)))"
  by (induction ts arbitrary: s) (simp_all split: prod.split)

text \<open>The default limiter does not keep the limit it is made for: 37 requests for a depth snapshot within 59 seconds are all let
  through, 1850 units of weight, while the exchange allows 1200 per minute, because a full bucket may be spent at once and refills at the full rate.\<close>
theorem burst_exceeds_limit:
  assumes "0 \<le> t" "t < 2 ^ 39"
  shows "fst (run_requests (Some ''/api/v3/depth'') (replicate 19 (of_int t) @ replicate 18 (of_int (t + 59))) (busy_limiter 960 t)) =
      replicate 37 (Inr True) \<and>
    limiter_init True (\<lambda>_. 0) None None (fl (8 / 10)) = Inr (busy_limiter 960 0) \<and>
    37 * get_endpoint_weight ''/api/v3/depth'' (busy_limiter 960 t) > 1200"
proof -
  let ?ep = "Some ''/api/v3/depth''"
  have first: "run_requests ?ep (replicate 19 (of_int t)) (busy_limiter 960 t) = (replicate 19 (Inr True), busy_limiter 10 t)"
    using busy_burst [of 960 19 t] assms by simp
  have nxt: "try_acquire (of_int (t + 59)) ?ep False (busy_limiter 10 t) = (Inr True, busy_limiter 904 (t + 59))"
    using busy_request [of 10 59 t] assms by simp
  have rest: "run_requests ?ep (replicate 17 (of_int (t + 59))) (busy_limiter 904 (t + 59)) = (replicate 17 (Inr True), busy_limiter 54 (t + 59))"
    using busy_burst [of 904 17 "t + 59"] assms by simp
  have "run_requests ?ep (replicate 18 (of_int (t + 59))) (busy_limiter 10 t) = (replicate 18 (Inr True), busy_limiter 54 (t + 59))"
    using nxt rest by (simp add: replicate_Suc [of 17, simplified numeral_eq_Suc] numeral_eq_Suc del: of_int_add)
  then show ?thesis using first default_limiter
    by (simp add: run_requests_append get_endpoint_weight_def busy_limiter_def default_weights_def replicate_add [symmetric] del: of_int_add)
qed
theorem burst_exceeds_limit_witness:
  "fst (run_requests (Some ''/api/v3/depth'') (replicate 19 (of_int 1700000000) @ replicate 18 (of_int (1700000000 + 59)))
      (busy_limiter 960 1700000000)) = replicate 37 (Inr True)"
  by (rule burst_exceeds_limit [THEN conjunct1]) simp_all

section \<open>What the response headers change\<close>

datatype adaptive_op = Call limiter_op | Headers "(string, string) dict"

fun adaptive_step :: "adaptive_op \<Rightarrow> adaptive \<Rightarrow> adaptive" where
  "adaptive_step (Call x) s = limiter_step x s"
| "adaptive_step (Headers h) s = snd (update_from_headers h s)"

definition calls :: "adaptive_op list \<Rightarrow> limiter_op list" where
  "calls xs = List.map_filter (\<lambda>x. case x of Call c \<Rightarrow> Some c | Headers h \<Rightarrow> None) xs"

abbreviation plain :: "'a limiter_scheme \<Rightarrow> limiter" where "plain s \<equiv> limiter.truncate s"

lemma plain_fields [simp]:
  "buckets (plain s) = buckets s" "endpoint_weights (plain s) = endpoint_weights s"
  "backoff_count (plain s) = backoff_count s" "base_backoff_seconds (plain s) = base_backoff_seconds s"
  by (simp_all add: limiter.truncate_def)

lemma plain_put [simp]: "plain (put_bucket k b s) = put_bucket k b (plain s)"
  by (simp add: put_bucket_def limiter.truncate_def)

lemma plain_take: "take_tokens now n k (plain s) = map_prod id plain (take_tokens now n k s)"
  by (simp add: take_tokens_def case_prod_unfold Let_def split: option.split)

lemma plain_try: "try_acquire now ep order (plain s) = map_prod id plain (try_acquire now ep order s)"
  by (simp add: try_acquire_def demand_def get_endpoint_weight_def plain_take)

lemma plain_round: "acquire_round timeout start clk n k (plain s) = map_prod id plain (acquire_round timeout start clk n k s)"
  by (simp add: acquire_round_def split: option.split prod.split bool.split sum.split)

lemma plain_state: "get_rate_limit_state now k (plain s) = map_prod id plain (get_rate_limit_state now k s)"
  by (simp add: get_rate_limit_state_def Let_def split: option.split)

lemma plain_states: "states_of clk ks i acc (plain s) = map_prod id plain (states_of clk ks i acc s)"
proof (induction ks arbitrary: i acc s)
  case (Cons k ks)
  then show ?case by (simp add: plain_state split: prod.split sum.split)
qed simp

lemma plain_backoff_count: "plain (s\<lparr>backoff_count := n\<rparr>) = (plain s)\<lparr>backoff_count := n\<rparr>"
  by (simp add: limiter.truncate_def)

lemma plain_backoff:
  "backoff_loop (\<lambda>_ s. s) clk ep order m i sl (plain s) =
    map_prod id (map_prod id plain) (backoff_loop (\<lambda>_ s. s) clk ep order m i sl s)"
proof (induction m arbitrary: i sl s)
  case (Suc m)
  show ?case
  proof (cases "try_acquire (clk i) ep order s")
    case (Pair r s1)
    then show ?thesis using Suc [of "Suc i" _ s1]
      by (auto simp: plain_try plain_backoff_count split: sum.split bool.split)
  qed
qed (simp add: plain_backoff_count)

lemma plain_weights: "plain (s\<lparr>endpoint_weights := w\<rparr>) = (plain s)\<lparr>endpoint_weights := w\<rparr>"
  by (simp add: limiter.truncate_def)

lemma plain_step: "plain (limiter_step x s) = limiter_step x (plain s)"
  by (cases x) (simp_all add: plain_try plain_round plain_state plain_states plain_backoff get_all_states_def acquire_with_backoff_def
      set_endpoint_weight_def reset_backoff_def plain_weights plain_backoff_count)

text \<open>The operations of the limiter leave the fields of the extension alone.\<close>

lemma more_put [simp]: "limiter.more (put_bucket k b s) = limiter.more s"
  by (simp add: put_bucket_def)

lemma more_try: "limiter.more (snd (try_acquire now ep order s)) = limiter.more s"
  by (simp add: try_acquire_def take_tokens_def case_prod_unfold Let_def split: option.split)

lemma more_round: "limiter.more (snd (acquire_round timeout start clk n k s)) = limiter.more s"
  by (simp add: acquire_round_def split: option.split prod.split bool.split sum.split)

lemma more_state: "limiter.more (snd (get_rate_limit_state now k s)) = limiter.more s"
  by (simp add: get_rate_limit_state_def Let_def split: option.split)

lemma more_states: "limiter.more (snd (states_of clk ks i acc s)) = limiter.more s"
proof (induction ks arbitrary: i acc s)
  case (Cons k ks)
  then show ?case using more_state [of "clk i" k s] by (auto split: prod.split sum.split)
qed simp

lemma more_backoff: "limiter.more (snd (snd (backoff_loop (\<lambda>_ s. s) clk ep order m i sl s))) = limiter.more s"
proof (induction m arbitrary: i sl s)
  case (Suc m)
  obtain r s1 where t: "try_acquire (clk i) ep order s = (r, s1)" by (cases "try_acquire (clk i) ep order s")
  have "limiter.more s1 = limiter.more s" using more_try [of "clk i" ep order s] t by simp
  then show ?case using Suc by (auto simp: t split: sum.split bool.split)
qed simp

lemma more_step: "limiter.more (limiter_step x s) = limiter.more s"
  by (cases x) (simp_all add: more_try more_round more_state more_states more_backoff get_all_states_def acquire_with_backoff_def
      set_endpoint_weight_def reset_backoff_def)

lemma factor_step: "adjustment_factor (limiter_step x s) = adjustment_factor s"
  using more_step [of x s] by (metis adaptive.surjective adaptive.select_convs(2) limiter.select_convs(7))

lemma plain_headers: "plain (snd (update_from_headers h s)) = plain s"
  by (auto simp: update_from_headers_def weigh_headers_def Let_def limiter.truncate_def split: option.splits sum.splits if_splits)

lemma factor_headers:
  assumes "fl (5 / 10) \<le> adjustment_factor s" "is_float (adjustment_factor s)"
  shows "fl (5 / 10) \<le> adjustment_factor (snd (update_from_headers h s))"
    and "adjustment_factor (snd (update_from_headers h s)) \<le> adjustment_factor s"
    and "is_float (adjustment_factor (snd (update_from_headers h s)))"
proof -
  let ?a = "adjustment_factor s" let ?f = "max (fl (5 / 10)) (fmul ?a (fl (9 / 10)))"
  have "(0 :: rat) \<le> fl (5 / 10)" by simp
  then have a: "0 \<le> ?a" using assms(1) by linarith
  have "fl (9 / 10) \<le> 1" using fl_mono [of "9 / 10" 1] by simp
  then have "?a * fl (9 / 10) \<le> ?a" using a by (simp add: mult_left_le)
  then have "fmul ?a (fl (9 / 10)) \<le> ?a" using fl_mono [of "?a * fl (9 / 10)" ?a] assms(2) by (simp add: fmul_def is_float_def)
  then have f: "?f \<le> ?a" "fl (5 / 10) \<le> ?f" "is_float ?f" using assms(1) by (auto simp: max_def fmul_def)
  have "adjustment_factor (snd (update_from_headers h s)) \<in> {?a, ?f}"
    by (auto simp: update_from_headers_def weigh_headers_def Let_def split: option.splits sum.splits if_splits)
  then show "fl (5 / 10) \<le> adjustment_factor (snd (update_from_headers h s))"
    "adjustment_factor (snd (update_from_headers h s)) \<le> ?a" "is_float (adjustment_factor (snd (update_from_headers h s)))"
    using f assms by auto
qed

text \<open>The adaptive limiter does not adapt: in any sequence of calls and response headers the limiter part of the state is what the calls
  alone would have made of it, so no request is ever granted or refused because of a header; the adjustment factor only falls, never below
  one half, and is read by nothing but \<open>get_adjusted_limit\<close>.\<close>
theorem headers_change_nothing:
  assumes "fl (5 / 10) \<le> adjustment_factor s" "is_float (adjustment_factor s)"
  shows "plain (fold adaptive_step xs s) = fold limiter_step (calls xs) (plain s) \<and>
    fl (5 / 10) \<le> adjustment_factor (fold adaptive_step xs s) \<and> adjustment_factor (fold adaptive_step xs s) \<le> adjustment_factor s"
  using assms
proof (induction xs arbitrary: s)
  case (Cons x xs)
  let ?s = "adaptive_step x s"
  have s: "fl (5 / 10) \<le> adjustment_factor ?s" "adjustment_factor ?s \<le> adjustment_factor s" "is_float (adjustment_factor ?s)"
  proof -
    have "fl (5 / 10) \<le> adjustment_factor ?s \<and> adjustment_factor ?s \<le> adjustment_factor s \<and> is_float (adjustment_factor ?s)"
    proof (cases x)
      case (Call c)
      have "adjustment_factor ?s = adjustment_factor s" by (simp only: Call adaptive_step.simps factor_step)
      then show ?thesis using Cons.prems by (simp only:) simp
    next
      case (Headers h)
      then show ?thesis using factor_headers [OF Cons.prems, of h] by (simp only: adaptive_step.simps)
    qed
    then show "fl (5 / 10) \<le> adjustment_factor ?s" "adjustment_factor ?s \<le> adjustment_factor s" "is_float (adjustment_factor ?s)"
      by blast+
  qed
  have "plain ?s = fold limiter_step (calls [x]) (plain s)"
  proof (cases x)
    case (Call c)
    then show ?thesis by (simp only: adaptive_step.simps plain_step) (simp add: calls_def List.map_filter_def)
  next
    case (Headers h)
    then show ?thesis by (simp only: adaptive_step.simps plain_headers) (simp add: calls_def List.map_filter_def)
  qed
  moreover have "calls (x # xs) = calls [x] @ calls xs" by (simp add: calls_def List.map_filter_def)
  ultimately show ?case using Cons.IH [OF s(1,3)] s(2) by simp
qed (simp add: calls_def List.map_filter_def)

theorem headers_change_nothing_witness:
  "plain (fold adaptive_step [Headers [(''X-MBX-USED-WEIGHT-1M'', ''47'')], Call (Op_Try 5 None True)] (adaptive_init light_limiter)) =
    limiter_step (Op_Try 5 None True) light_limiter"
proof -
  have p: "plain (adaptive_init light_limiter) = light_limiter"
    by (simp add: adaptive_init_def light_limiter_def limiter.extend_def limiter.truncate_def)
  have "fl (5 / 10) \<le> adjustment_factor (adaptive_init light_limiter)" "is_float (adjustment_factor (adaptive_init light_limiter))"
    using fl_mono [of "5 / 10" 1] by (simp_all add: adaptive_init_def limiter.extend_def is_float_def)
  from headers_change_nothing [OF this, THEN conjunct1, of "[Headers [(''X-MBX-USED-WEIGHT-1M'', ''47'')], Call (Op_Try 5 None True)]"]
  show ?thesis by (simp only: p) (simp add: calls_def List.map_filter_def)
qed

end
