(* ===== verification/PeggedOrder.thy ===== *)
theory PeggedOrder
  imports Prelude "HOL-Library.List_Lexorder" "HOL-Library.Char_ord"
begin

text \<open>
  \<open>oms/pegged_order.py\<close>: orders whose price follows the market (\<open>PeggedOrder\<close>) and their manager (\<open>peg_mgr\<close> for
  \<open>PeggedOrderManager\<close>).

  An order is shared between the dictionary and whoever holds it; the manager is the only one to change it. \<open>uuid4\<close> is the
  argument that gives the id of a new order, and \<open>ord\<close> lists the ids of a set in the order Python happens to visit them.
  \<open>create_pegged_order\<close> takes the global lock twice, so it is two steps, \<open>create_check\<close> and \<open>create_register\<close>.
\<close>

section \<open>Data\<close>

datatype PegType = MID_MARKET | BEST_BID | BEST_ASK | WEIGHTED_MID | LAST_TRADE

record OrderBookSnapshot =
  timestamp :: pyfloat
  best_bid :: pyfloat
  best_ask :: pyfloat
  bid_size :: pyfloat
  ask_size :: pyfloat
  mid_price :: pyfloat
  spread :: pyfloat
  spread_pct :: pyfloat

definition snapshot :: "pyfloat \<Rightarrow> pyfloat \<Rightarrow> pyfloat \<Rightarrow> pyfloat \<Rightarrow> pyfloat \<Rightarrow> OrderBookSnapshot" where
  "snapshot ts bid ask bs as =
     (let mid = fdiv (fadd bid ask) 2; sp = fsub ask bid
      in \<lparr>timestamp = ts, best_bid = bid, best_ask = ask, bid_size = bs, ask_size = as, mid_price = mid, spread = sp,
          spread_pct = (if mid > 0 then fmul (fdiv sp mid) 100 else 0)\<rparr>)"

record PeggedOrderConfig =
  symbol :: string
  side :: string
  base_quantity :: pyfloat
  peg_type :: PegType
  offset_ticks :: int
  min_price :: "pyfloat option"
  max_price :: "pyfloat option"
  update_threshold_ticks :: int
  max_updates_per_second :: pyfloat
  cancel_on_wide_spread :: bool
  spread_threshold_pct :: pyfloat

definition pegged_config :: "string \<Rightarrow> string \<Rightarrow> pyfloat \<Rightarrow> PeggedOrderConfig" where
  "pegged_config sy sd q =
     \<lparr>symbol = sy, side = sd, base_quantity = q, peg_type = MID_MARKET, offset_ticks = 0, min_price = None, max_price = None,
      update_threshold_ticks = 1, max_updates_per_second = 10, cancel_on_wide_spread = True, spread_threshold_pct = fl (5 / 10)\<rparr>"

text \<open>The strings the code stores as status.\<close>

datatype order_status = ACTIVE | SUSPENDED | CANCELLED | FILLED

record PeggedOrder =
  order_id :: string
  config :: PeggedOrderConfig
  current_price :: pyfloat
  current_peg_reference :: pyfloat
  last_update_time :: pyfloat
  update_count :: int
  status :: order_status
  exchange_order_id :: "string option"
  filled_quantity :: pyfloat
  remaining_quantity :: pyfloat

text \<open>\<open>__post_init__\<close> recomputes the remaining quantity.\<close>

definition new_pegged_order :: "string \<Rightarrow> PeggedOrderConfig \<Rightarrow> pyfloat \<Rightarrow> pyfloat \<Rightarrow> pyfloat \<Rightarrow> PeggedOrder" where
  "new_pegged_order oid cfg price peg now =
     \<lparr>order_id = oid, config = cfg, current_price = price, current_peg_reference = peg, last_update_time = now, update_count = 0,
      status = ACTIVE, exchange_order_id = None, filled_quantity = 0, remaining_quantity = fsub (base_quantity cfg) 0\<rparr>"

definition is_active :: "PeggedOrder \<Rightarrow> bool" where
  "is_active o1 \<longleftrightarrow> status o1 = ACTIVE"

definition get_effective_price :: "pyfloat \<Rightarrow> PeggedOrder \<Rightarrow> pyfloat" where
  "get_effective_price tick o1 =
     (let offset = fmul (fl (of_int (offset_ticks (config o1)))) tick
      in if side (config o1) = ''BUY'' then fsub (current_price o1) offset else fadd (current_price o1) offset)"

section \<open>Prices\<close>

definition calculate_peg_price :: "PegType \<Rightarrow> OrderBookSnapshot \<Rightarrow> pyfloat" where
  "calculate_peg_price ty b =
     (case ty of
        MID_MARKET \<Rightarrow> mid_price b
      | BEST_BID \<Rightarrow> best_bid b
      | BEST_ASK \<Rightarrow> best_ask b
      | WEIGHTED_MID \<Rightarrow>
          (if fadd (bid_size b) (ask_size b) > 0
           then (let weight = fdiv (bid_size b) (fadd (bid_size b) (ask_size b))
                 in fadd (fmul (best_bid b) weight) (fmul (best_ask b) (fsub 1 weight)))
           else mid_price b)
      | LAST_TRADE \<Rightarrow> mid_price b)"

definition clamp :: "pyfloat option \<Rightarrow> pyfloat option \<Rightarrow> pyfloat \<Rightarrow> pyfloat" where
  "clamp lo hi p =
     (let p1 = (case lo of None \<Rightarrow> p | Some l \<Rightarrow> max p l) in case hi of None \<Rightarrow> p1 | Some h \<Rightarrow> min p1 h)"

definition apply_offset_and_constraints ::
  "pyfloat \<Rightarrow> string \<Rightarrow> int \<Rightarrow> pyfloat \<Rightarrow> pyfloat option \<Rightarrow> pyfloat option \<Rightarrow> exn + pyfloat" where
  "apply_offset_and_constraints peg sd off tick lo hi =
     (let offset = fmul (fl (of_int off)) tick;
          price = (if sd = ''BUY'' then fsub peg offset else fadd peg offset)
      in if tick = 0 then Inl ZeroDivisionError
         else Inr (clamp lo hi (fmul (fl (of_int (round_half_even (fdiv price tick)))) tick)))"

definition priced :: "pyfloat \<Rightarrow> PeggedOrderConfig \<Rightarrow> pyfloat \<Rightarrow> exn + pyfloat" where
  "priced tick cfg peg = apply_offset_and_constraints peg (side cfg) (offset_ticks cfg) tick (min_price cfg) (max_price cfg)"

section \<open>The manager\<close>

record peg_mgr =
  tick_sizes :: "(string, pyfloat) dict"
  max_orders :: int
  orders :: "(string, PeggedOrder) dict"
  symbol_index :: "(string, string set) dict"
  rate_limits :: "(string, pyfloat) dict"
  peg_references :: "(string, pyfloat) dict"

definition mgr_init :: "(string, pyfloat) dict \<Rightarrow> int \<Rightarrow> peg_mgr" where
  "mgr_init ticks limit =
     \<lparr>tick_sizes = ticks, max_orders = limit, orders = [], symbol_index = [], rate_limits = [], peg_references = []\<rparr>"

definition tick_of :: "peg_mgr \<Rightarrow> string \<Rightarrow> pyfloat" where
  "tick_of m sy = (case dict_get (tick_sizes m) sy of None \<Rightarrow> fl (1 / 100) | Some t \<Rightarrow> t)"

definition symbol_ids :: "peg_mgr \<Rightarrow> string \<Rightarrow> string set" where
  "symbol_ids m sy = (case dict_get (symbol_index m) sy of None \<Rightarrow> {} | Some S \<Rightarrow> S)"

text \<open>Subscripting the \<open>defaultdict\<close> creates the entry it does not find.\<close>

definition discard_id :: "string \<Rightarrow> string \<Rightarrow> peg_mgr \<Rightarrow> peg_mgr" where
  "discard_id sy oid m = m\<lparr>symbol_index := dict_set sy (symbol_ids m sy - {oid}) (symbol_index m)\<rparr>"

definition put_order :: "PeggedOrder \<Rightarrow> peg_mgr \<Rightarrow> peg_mgr" where
  "put_order o1 m = m\<lparr>orders := dict_set (order_id o1) o1 (orders m)\<rparr>"

definition create_check :: "peg_mgr \<Rightarrow> exn option" where
  "create_check m = (if int (length (orders m)) \<ge> max_orders m then Some RuntimeError else None)"

definition create_register :: "pyfloat \<Rightarrow> string \<Rightarrow> PeggedOrderConfig \<Rightarrow> OrderBookSnapshot \<Rightarrow> peg_mgr \<Rightarrow> (exn + PeggedOrder) \<times> peg_mgr" where
  "create_register now oid cfg book m =
     (let peg = calculate_peg_price (peg_type cfg) book
      in case priced (tick_of m (symbol cfg)) cfg peg of
           Inl e \<Rightarrow> (Inl e, m)
         | Inr price \<Rightarrow>
             (let o1 = new_pegged_order oid cfg price peg now
              in (Inr o1, m\<lparr>orders := dict_set oid o1 (orders m),
                            symbol_index := dict_set (symbol cfg) (insert oid (symbol_ids m (symbol cfg))) (symbol_index m),
                            peg_references := dict_set oid peg (peg_references m)\<rparr>)))"

definition create_pegged_order :: "pyfloat \<Rightarrow> string \<Rightarrow> PeggedOrderConfig \<Rightarrow> OrderBookSnapshot \<Rightarrow> peg_mgr \<Rightarrow> (exn + PeggedOrder) \<times> peg_mgr" where
  "create_pegged_order now oid cfg book m =
     (case create_check m of Some e \<Rightarrow> (Inl e, m) | None \<Rightarrow> create_register now oid cfg book m)"

text \<open>One order in \<open>update_order_prices\<close>: the new price if it is updated.\<close>

definition update_one :: "pyfloat \<Rightarrow> pyfloat \<Rightarrow> OrderBookSnapshot \<Rightarrow> string \<Rightarrow> peg_mgr \<Rightarrow> (exn + pyfloat option) \<times> peg_mgr" where
  "update_one now tick book oid m =
     (case dict_get (orders m) oid of
        None \<Rightarrow> (Inr None, m)
      | Some o1 \<Rightarrow>
          (let cfg = config o1; last = (case dict_get (rate_limits m) oid of None \<Rightarrow> 0 | Some t \<Rightarrow> t)
           in if \<not> is_active o1 then (Inr None, m)
              else if max_updates_per_second cfg = 0 then (Inl ZeroDivisionError, m)
              else if fsub now last < fdiv 1 (max_updates_per_second cfg) then (Inr None, m)
              else if cancel_on_wide_spread cfg \<and> spread_pct book > spread_threshold_pct cfg
              then (Inr None, put_order (o1\<lparr>status := SUSPENDED\<rparr>) m)
              else
                (let peg = calculate_peg_price (peg_type cfg) book;
                     old = (case dict_get (peg_references m) oid of None \<Rightarrow> peg | Some p \<Rightarrow> p)
                 in if \<bar>fsub peg old\<bar> < fmul tick (fl (of_int (update_threshold_ticks cfg))) then (Inr None, m)
                    else case priced tick cfg peg of
                           Inl e \<Rightarrow> (Inl e, m)
                         | Inr price \<Rightarrow>
                             (if price \<noteq> current_price o1
                              then (Inr (Some price),
                                    (put_order (o1\<lparr>current_price := price, current_peg_reference := peg, last_update_time := now,
                                                   update_count := update_count o1 + 1\<rparr>) m)
                                      \<lparr>peg_references := dict_set oid peg (peg_references m),
                                       rate_limits := dict_set oid now (rate_limits m)\<rparr>)
                              else (Inr None, m)))))"

fun update_loop ::
  "pyfloat \<Rightarrow> pyfloat \<Rightarrow> OrderBookSnapshot \<Rightarrow> string list \<Rightarrow> (string \<times> pyfloat) list \<Rightarrow> peg_mgr \<Rightarrow>
   (exn + (string \<times> pyfloat) list) \<times> peg_mgr" where
  "update_loop now tick book [] acc m = (Inr acc, m)"
| "update_loop now tick book (oid # oids) acc m =
     (case update_one now tick book oid m of
        (Inl e, m1) \<Rightarrow> (Inl e, m1)
      | (Inr None, m1) \<Rightarrow> update_loop now tick book oids acc m1
      | (Inr (Some p), m1) \<Rightarrow> update_loop now tick book oids (acc @ [(oid, p)]) m1)"

definition update_order_prices ::
  "(string set \<Rightarrow> string list) \<Rightarrow> pyfloat \<Rightarrow> string \<Rightarrow> OrderBookSnapshot \<Rightarrow> peg_mgr \<Rightarrow> (exn + (string \<times> pyfloat) list) \<times> peg_mgr" where
  "update_order_prices ord now sy book m = update_loop now (tick_of m sy) book (ord (symbol_ids m sy)) [] m"

definition handle_fill :: "string \<Rightarrow> pyfloat \<Rightarrow> pyfloat \<Rightarrow> peg_mgr \<Rightarrow> bool \<times> peg_mgr" where
  "handle_fill oid q price m =
     (case dict_get (orders m) oid of
        None \<Rightarrow> (False, m)
      | Some o1 \<Rightarrow>
          (let f = fadd (filled_quantity o1) q; r = fsub (base_quantity (config o1)) f
           in (True, put_order (o1\<lparr>filled_quantity := f, remaining_quantity := r,
                                  status := (if r \<le> 0 then FILLED else status o1)\<rparr>) m)))"

definition forget :: "string \<Rightarrow> peg_mgr \<Rightarrow> peg_mgr" where
  "forget oid m = m\<lparr>peg_references := dict_pop oid (peg_references m), rate_limits := dict_pop oid (rate_limits m)\<rparr>"

definition cancel_order :: "string \<Rightarrow> peg_mgr \<Rightarrow> bool \<times> peg_mgr" where
  "cancel_order oid m =
     (case dict_get (orders m) oid of
        None \<Rightarrow> (False, m)
      | Some o1 \<Rightarrow> (True, forget oid (discard_id (symbol (config o1)) oid (put_order (o1\<lparr>status := CANCELLED\<rparr>) m))))"

definition suspend_order :: "string \<Rightarrow> peg_mgr \<Rightarrow> bool \<times> peg_mgr" where
  "suspend_order oid m =
     (case dict_get (orders m) oid of
        None \<Rightarrow> (False, m) | Some o1 \<Rightarrow> (True, put_order (o1\<lparr>status := SUSPENDED\<rparr>) m))"

definition resume_order :: "pyfloat \<Rightarrow> string \<Rightarrow> OrderBookSnapshot \<Rightarrow> peg_mgr \<Rightarrow> (exn + bool) \<times> peg_mgr" where
  "resume_order now oid book m =
     (case dict_get (orders m) oid of
        None \<Rightarrow> (Inr False, m)
      | Some o1 \<Rightarrow>
          if status o1 \<noteq> SUSPENDED then (Inr False, m)
          else
            (let cfg = config o1; peg = calculate_peg_price (peg_type cfg) book
             in case priced (tick_of m (symbol cfg)) cfg peg of
                  Inl e \<Rightarrow> (Inl e, m)
                | Inr price \<Rightarrow>
                    (Inr True,
                     (put_order (o1\<lparr>current_price := price, current_peg_reference := peg, status := ACTIVE, last_update_time := now\<rparr>) m)
                       \<lparr>peg_references := dict_set oid peg (peg_references m)\<rparr>)))"

definition get_order :: "string \<Rightarrow> peg_mgr \<Rightarrow> PeggedOrder option" where
  "get_order oid m = dict_get (orders m) oid"

definition get_active_orders :: "(string set \<Rightarrow> string list) \<Rightarrow> string option \<Rightarrow> peg_mgr \<Rightarrow> PeggedOrder list" where
  "get_active_orders ord sy m =
     (let ids = (if truthy_str sy then symbol_ids m (the sy) else set (dict_keys (orders m)))
      in filter is_active (List.map_filter (\<lambda>oid. dict_get (orders m) oid) (ord ids)))"

definition get_total_exposure :: "(string set \<Rightarrow> string list) \<Rightarrow> string option \<Rightarrow> peg_mgr \<Rightarrow> pyfloat" where
  "get_total_exposure ord sy m = foldl (\<lambda>a o1. fadd a (remaining_quantity o1)) 0 (get_active_orders ord sy m)"

definition remove_order :: "string \<Rightarrow> peg_mgr \<Rightarrow> peg_mgr" where
  "remove_order oid m =
     (case dict_get (orders m) oid of
        None \<Rightarrow> m
      | Some o1 \<Rightarrow> forget oid (discard_id (symbol (config o1)) oid (m\<lparr>orders := dict_pop oid (orders m)\<rparr>)))"

definition cleanup_inactive :: "peg_mgr \<Rightarrow> int \<times> peg_mgr" where
  "cleanup_inactive m =
     (let ids = map fst (filter (\<lambda>(oid, o1). status o1 \<in> {FILLED, CANCELLED}) (orders m))
      in (int (length ids), fold remove_order ids m))"

section \<open>The invariant\<close>

datatype peg_op =
    Op_Create pyfloat string PeggedOrderConfig OrderBookSnapshot
  | Op_Register pyfloat string PeggedOrderConfig OrderBookSnapshot
  | Op_Update "string set \<Rightarrow> string list" pyfloat string OrderBookSnapshot
  | Op_Fill string pyfloat pyfloat
  | Op_Cancel string
  | Op_Suspend string
  | Op_Resume pyfloat string OrderBookSnapshot
  | Op_Cleanup

text \<open>\<open>uuid4\<close> gives no id that is in use, and visiting a set visits each element once. \<open>Op_Register\<close> is the second half of a creation whose check has passed earlier.\<close>

fun peg_step :: "peg_op \<Rightarrow> peg_mgr \<Rightarrow> peg_mgr" where
  "peg_step (Op_Create now oid cfg book) m = (if dict_get (orders m) oid = None then snd (create_pegged_order now oid cfg book m) else m)"
| "peg_step (Op_Register now oid cfg book) m = (if dict_get (orders m) oid = None then snd (create_register now oid cfg book m) else m)"
| "peg_step (Op_Update ord now sy book) m = (if lists_sets ord then snd (update_order_prices ord now sy book m) else m)"
| "peg_step (Op_Fill oid q p) m = snd (handle_fill oid q p m)"
| "peg_step (Op_Cancel oid) m = snd (cancel_order oid m)"
| "peg_step (Op_Suspend oid) m = snd (suspend_order oid m)"
| "peg_step (Op_Resume now oid book) m = snd (resume_order now oid book m)"
| "peg_step Op_Cleanup m = snd (cleanup_inactive m)"

definition order_ok :: "peg_mgr \<Rightarrow> string \<Rightarrow> PeggedOrder \<Rightarrow> bool" where
  "order_ok m oid o1 \<longleftrightarrow>
     order_id o1 = oid \<and> remaining_quantity o1 = fsub (base_quantity (config o1)) (filled_quantity o1) \<and>
     priced (tick_of m (symbol (config o1))) (config o1) (current_peg_reference o1) = Inr (current_price o1) \<and>
     (\<forall>p. dict_get (peg_references m) oid = Some p \<longrightarrow> p = current_peg_reference o1)"

definition peg_inv :: "peg_mgr \<Rightarrow> bool" where
  "peg_inv m \<longleftrightarrow>
     wf_dict (orders m) \<and>
     (\<forall>oid o1. dict_get (orders m) oid = Some o1 \<longrightarrow> order_ok m oid o1) \<and>
     (\<forall>sy oid. oid \<in> symbol_ids m sy \<longrightarrow> (\<exists>o1. dict_get (orders m) oid = Some o1 \<and> symbol (config o1) = sy)) \<and>
     (\<forall>oid. dict_get (peg_references m) oid \<noteq> None \<longrightarrow> dict_get (orders m) oid \<noteq> None) \<and>
     (\<forall>oid. dict_get (rate_limits m) oid \<noteq> None \<longrightarrow> dict_get (orders m) oid \<noteq> None)"

lemma peg_invI:
  assumes "wf_dict (orders m)" "\<And>oid o1. dict_get (orders m) oid = Some o1 \<Longrightarrow> order_ok m oid o1"
    "\<And>sy oid. oid \<in> symbol_ids m sy \<Longrightarrow> \<exists>o1. dict_get (orders m) oid = Some o1 \<and> symbol (config o1) = sy"
    "\<And>oid. dict_get (peg_references m) oid \<noteq> None \<Longrightarrow> dict_get (orders m) oid \<noteq> None"
    "\<And>oid. dict_get (rate_limits m) oid \<noteq> None \<Longrightarrow> dict_get (orders m) oid \<noteq> None"
  shows "peg_inv m"
  using assms unfolding peg_inv_def by blast

lemma peg_invD:
  assumes "peg_inv m"
  shows "wf_dict (orders m)" and "dict_get (orders m) oid = Some o1 \<Longrightarrow> order_ok m oid o1"
    and "oid \<in> symbol_ids m sy \<Longrightarrow> \<exists>o1. dict_get (orders m) oid = Some o1 \<and> symbol (config o1) = sy"
    and "dict_get (peg_references m) oid \<noteq> None \<Longrightarrow> dict_get (orders m) oid \<noteq> None"
    and "dict_get (rate_limits m) oid \<noteq> None \<Longrightarrow> dict_get (orders m) oid \<noteq> None"
  using assms unfolding peg_inv_def by blast+

lemma put_order_fields [simp]:
  "dict_get (orders (put_order o1 m)) oid = (if oid = order_id o1 then Some o1 else dict_get (orders m) oid)"
  "tick_sizes (put_order o1 m) = tick_sizes m" "symbol_index (put_order o1 m) = symbol_index m"
  "rate_limits (put_order o1 m) = rate_limits m" "peg_references (put_order o1 m) = peg_references m"
  by (simp_all add: put_order_def dict_get_set)

lemma tick_of_cong: "tick_sizes m = tick_sizes m' \<Longrightarrow> tick_of m sy = tick_of m' sy"
  by (simp add: tick_of_def)

lemma symbol_ids_cong: "symbol_index m = symbol_index m' \<Longrightarrow> symbol_ids m sy = symbol_ids m' sy"
  by (simp add: symbol_ids_def)

text \<open>Changing an order that is there: the index, the references and the limits may change at its id only.\<close>

lemma put_order_inv:
  assumes m: "peg_inv m" "dict_get (orders m) oid = Some o0" "order_id o1 = oid" "symbol (config o1) = symbol (config o0)"
    and o1: "remaining_quantity o1 = fsub (base_quantity (config o1)) (filled_quantity o1)"
      "priced (tick_of m (symbol (config o1))) (config o1) (current_peg_reference o1) = Inr (current_price o1)"
    and refs: "\<And>k. k \<noteq> oid \<Longrightarrow> dict_get refs k = dict_get (peg_references m) k"
      "\<And>p. dict_get refs oid = Some p \<Longrightarrow> p = current_peg_reference o1"
    and lims: "\<And>k. k \<noteq> oid \<Longrightarrow> dict_get lims k = dict_get (rate_limits m) k"
  shows "peg_inv ((put_order o1 m)\<lparr>peg_references := refs, rate_limits := lims\<rparr>)"
proof (rule peg_invI)
  let ?m = "(put_order o1 m)\<lparr>peg_references := refs, rate_limits := lims\<rparr>"
  note inv = peg_invD [OF m(1)]
  have t: "tick_of ?m sy = tick_of m sy" and ix: "symbol_ids ?m sy = symbol_ids m sy" for sy
    by (simp_all add: tick_of_def symbol_ids_def)
  show "wf_dict (orders ?m)" using inv(1) by (simp add: put_order_def)
  show "order_ok ?m k o2" if "dict_get (orders ?m) k = Some o2" for k o2
  proof (cases "k = oid")
    case True
    then show ?thesis using that m(3) o1 refs(2) unfolding order_ok_def t by simp
  next
    case False
    then show ?thesis using that m(3) inv(2) [of k o2] refs(1) [of k] unfolding order_ok_def t by simp
  qed
  show "\<exists>o2. dict_get (orders ?m) k = Some o2 \<and> symbol (config o2) = sy" if "k \<in> symbol_ids ?m sy" for sy k
    using that inv(3) [of k sy] m(2,3,4) unfolding ix by auto
  show "dict_get (orders ?m) k \<noteq> None" if "dict_get (peg_references ?m) k \<noteq> None" for k
    using that m(3) inv(4) [of k] refs(1) [of k] by (cases "k = oid") simp_all
  show "dict_get (orders ?m) k \<noteq> None" if "dict_get (rate_limits ?m) k \<noteq> None" for k
    using that m(3) inv(5) [of k] lims(1) [of k] by (cases "k = oid") simp_all
qed

lemma put_status_inv:
  assumes m: "peg_inv m" "dict_get (orders m) oid = Some o0"
  shows "peg_inv (put_order (o0\<lparr>status := st\<rparr>) m)"
proof -
  have o0: "order_ok m oid o0" by (rule peg_invD(2) [OF m])
  have "peg_inv ((put_order (o0\<lparr>status := st\<rparr>) m)\<lparr>peg_references := peg_references m, rate_limits := rate_limits m\<rparr>)"
    using o0 by (intro put_order_inv [OF m]) (auto simp: order_ok_def)
  then show ?thesis by (simp add: put_order_def)
qed

lemma discard_forget_inv:
  assumes m: "peg_inv m"
  shows "peg_inv (forget oid (discard_id sy oid m))"
proof (rule peg_invI)
  let ?m = "forget oid (discard_id sy oid m)"
  note inv = peg_invD [OF m]
  have f: "orders ?m = orders m" "tick_sizes ?m = tick_sizes m" by (simp_all add: forget_def discard_id_def)
  have ix: "symbol_ids ?m s \<subseteq> symbol_ids m s" for s
    by (auto simp: forget_def discard_id_def symbol_ids_def dict_get_set split: option.splits if_splits)
  have r: "dict_get (peg_references ?m) k \<noteq> None \<Longrightarrow> dict_get (peg_references ?m) k = dict_get (peg_references m) k"
    "dict_get (rate_limits ?m) k \<noteq> None \<Longrightarrow> dict_get (rate_limits ?m) k = dict_get (rate_limits m) k" for k
    by (auto simp: forget_def discard_id_def dict_get_pop split: if_splits)
  show "wf_dict (orders ?m)" using inv(1) f by simp
  show "order_ok ?m k o1" if "dict_get (orders ?m) k = Some o1" for k o1
    using that inv(2) [of k o1] r(1) [of k] tick_of_cong [OF f(2)] unfolding order_ok_def f by fastforce
  show "\<exists>o2. dict_get (orders ?m) k = Some o2 \<and> symbol (config o2) = s" if "k \<in> symbol_ids ?m s" for s k
    using that ix [of s] inv(3) [of k s] unfolding f by blast
  show "dict_get (orders ?m) k \<noteq> None" if "dict_get (peg_references ?m) k \<noteq> None" for k
    using that inv(4) [of k] r(1) [of k] unfolding f by auto
  show "dict_get (orders ?m) k \<noteq> None" if "dict_get (rate_limits ?m) k \<noteq> None" for k
    using that inv(5) [of k] r(2) [of k] unfolding f by auto
qed

lemma update_one_inv:
  assumes m: "peg_inv m" and t: "\<And>o1. dict_get (orders m) oid = Some o1 \<Longrightarrow> symbol (config o1) = sy"
  shows "peg_inv (snd (update_one now (tick_of m sy) book oid m))"
proof (cases "dict_get (orders m) oid")
  case (Some o1)
  have ok: "order_ok m oid o1" by (rule peg_invD(2) [OF m Some])
  have "peg_inv ((put_order (o1\<lparr>current_price := price, current_peg_reference := peg, last_update_time := now, update_count := n\<rparr>) m)
      \<lparr>peg_references := dict_set oid peg (peg_references m), rate_limits := dict_set oid now (rate_limits m)\<rparr>)"
    if "priced (tick_of m sy) (config o1) peg = Inr price" for price peg n
    using ok that t [OF Some] by (intro put_order_inv [OF m Some]) (auto simp: order_ok_def dict_get_set)
  then show ?thesis using m put_status_inv [OF m Some]
    by (auto simp: update_one_def Some Let_def split: sum.split)
qed (use m in \<open>simp add: update_one_def\<close>)
text \<open>Updating one order leaves the others alone.\<close>

definition ids_ok :: "peg_mgr \<Rightarrow> bool" where
  "ids_ok m \<longleftrightarrow> (\<forall>oid o1. dict_get (orders m) oid = Some o1 \<longrightarrow> order_id o1 = oid)"

lemma inv_ids_ok: "peg_inv m \<Longrightarrow> ids_ok m"
  unfolding ids_ok_def by (blast dest: peg_invD(2) [unfolded order_ok_def])

lemma ids_okD: "ids_ok m \<Longrightarrow> dict_get (orders m) oid = Some o1 \<Longrightarrow> order_id o1 = oid"
  by (simp add: ids_ok_def)

lemma update_one_ids: "ids_ok m \<Longrightarrow> ids_ok (snd (update_one now tick book oid m))"
  by (auto simp: update_one_def Let_def ids_ok_def split: option.split sum.split if_splits)

lemma update_one_frame:
  assumes "ids_ok m" "k \<noteq> oid"
  shows "dict_get (orders (snd (update_one now tick book oid m))) k = dict_get (orders m) k"
    and "dict_get (peg_references (snd (update_one now tick book oid m))) k = dict_get (peg_references m) k"
    and "dict_get (rate_limits (snd (update_one now tick book oid m))) k = dict_get (rate_limits m) k"
proof -
  have "order_id o1 = oid" if "dict_get (orders m) oid = Some o1" for o1
    by (rule ids_okD [OF assms(1) that])
  then show "dict_get (orders (snd (update_one now tick book oid m))) k = dict_get (orders m) k"
    "dict_get (peg_references (snd (update_one now tick book oid m))) k = dict_get (peg_references m) k"
    "dict_get (rate_limits (snd (update_one now tick book oid m))) k = dict_get (rate_limits m) k"
    using assms(2) by (auto simp: update_one_def Let_def dict_get_set split: option.split sum.split)
qed

lemma update_one_tables [simp]:
  "tick_sizes (snd (update_one now tick book oid m)) = tick_sizes m"
  "symbol_index (snd (update_one now tick book oid m)) = symbol_index m"
  by (auto simp: update_one_def Let_def split: option.split sum.split)

lemma update_one_symbol:
  assumes "peg_inv m" "dict_get (orders m) k = Some o1"
  shows "\<exists>o2. dict_get (orders (snd (update_one now tick book oid m))) k = Some o2 \<and> config o2 = config o1"
proof (cases "k = oid")
  case True
  have "order_id o1 = oid" using peg_invD(2) [OF assms] True by (simp add: order_ok_def)
  then show ?thesis using True assms(2) by (auto simp: update_one_def Let_def split: sum.split)
qed (use update_one_frame(1) [OF inv_ids_ok [OF assms(1)]] assms(2) in simp)

lemma update_loop_inv:
  assumes "peg_inv m" "tick = tick_of m sy" "\<forall>oid \<in> set oids. \<forall>o1. dict_get (orders m) oid = Some o1 \<longrightarrow> symbol (config o1) = sy"
  shows "peg_inv (snd (update_loop now tick book oids acc m))"
  using assms
proof (induction oids arbitrary: acc m)
  case (Cons oid oids)
  obtain r m1 where u: "update_one now tick book oid m = (r, m1)" by (cases "update_one now tick book oid m")
  have i: "peg_inv m1" using update_one_inv [of m oid sy now book] Cons.prems u by simp
  have t: "tick = tick_of m1 sy"
    using update_one_tables(1) [of now tick book oid m, unfolded u] Cons.prems(2) tick_of_cong [of m1 m] by simp
  have "\<forall>k \<in> set oids. \<forall>o1. dict_get (orders m1) k = Some o1 \<longrightarrow> symbol (config o1) = sy"
  proof (intro ballI allI impI)
    fix k o1 assume k: "k \<in> set oids" "dict_get (orders m1) k = Some o1"
    show "symbol (config o1) = sy"
    proof (cases "dict_get (orders m) k")
      case None
      then have "dict_get (orders m1) k = None"
        using update_one_frame(1) [OF inv_ids_ok [OF Cons.prems(1)], of k oid now tick book] u by (cases "k = oid") (auto simp: update_one_def)
      then show ?thesis using k by simp
    next
      case (Some o0)
      then show ?thesis using update_one_symbol [OF Cons.prems(1) Some, of now tick book oid] u k Cons.prems(3) by auto
    qed
  qed
  then show ?case using Cons.IH [OF i t] u i by (auto split: sum.split option.split)
qed simp

lemma create_register_inv:
  assumes m: "peg_inv m" "dict_get (orders m) oid = None"
  shows "peg_inv (snd (create_register now oid cfg book m))"
proof (cases "priced (tick_of m (symbol cfg)) cfg (calculate_peg_price (peg_type cfg) book)")
  case (Inr price)
  note inv = peg_invD [OF m(1)]
  let ?m = "snd (create_register now oid cfg book m)"
  have f: "dict_get (orders ?m) k = (if k = oid then Some (new_pegged_order oid cfg price (calculate_peg_price (peg_type cfg) book) now)
      else dict_get (orders m) k)" for k
    by (simp add: create_register_def Inr Let_def dict_get_set)
  have g: "dict_get (peg_references ?m) k = (if k = oid then Some (calculate_peg_price (peg_type cfg) book) else dict_get (peg_references m) k)"
    "rate_limits ?m = rate_limits m" "tick_sizes ?m = tick_sizes m" for k
    by (simp_all add: create_register_def Inr Let_def dict_get_set)
  have ix: "symbol_ids ?m sy = (if sy = symbol cfg then insert oid (symbol_ids m sy) else symbol_ids m sy)" for sy
    by (simp add: create_register_def Inr Let_def symbol_ids_def dict_get_set)
  note t = tick_of_cong [OF g(3)]
  show ?thesis
  proof (rule peg_invI)
    show "wf_dict (orders ?m)" using inv(1) by (simp add: create_register_def Inr Let_def)
    show "order_ok ?m k o1" if "dict_get (orders ?m) k = Some o1" for k o1
    proof (cases "k = oid")
      case True
      then show ?thesis using that Inr unfolding f order_ok_def t g(1) by (auto simp: new_pegged_order_def)
    next
      case False
      then show ?thesis using that inv(2) [of k o1] unfolding f order_ok_def t g(1) by simp
    qed
    show "\<exists>o2. dict_get (orders ?m) k = Some o2 \<and> symbol (config o2) = sy" if k: "k \<in> symbol_ids ?m sy" for sy k
    proof (cases "k = oid")
      case True
      have "sy = symbol cfg"
      proof (rule ccontr)
        assume "sy \<noteq> symbol cfg"
        then have "oid \<in> symbol_ids m sy" using k True unfolding ix by simp
        then show False using inv(3) [of oid sy] m(2) by auto
      qed
      then show ?thesis using True unfolding f by (simp add: new_pegged_order_def)
    next
      case False
      then have "k \<in> symbol_ids m sy" using k unfolding ix by (auto split: if_splits)
      then show ?thesis using inv(3) [of k sy] False unfolding f by simp
    qed
    show "dict_get (orders ?m) k \<noteq> None" if "dict_get (peg_references ?m) k \<noteq> None" for k
      using that inv(4) [of k] unfolding f g(1) by (cases "k = oid") simp_all
    show "dict_get (orders ?m) k \<noteq> None" if "dict_get (rate_limits ?m) k \<noteq> None" for k
      using that inv(5) [of k] unfolding f g(2) by (cases "k = oid") simp_all
  qed
qed (use m in \<open>simp add: create_register_def Let_def\<close>)

lemma remove_order_inv:
  assumes m: "peg_inv m" shows "peg_inv (remove_order oid m)"
proof (cases "dict_get (orders m) oid")
  case (Some o1)
  note inv = peg_invD [OF m]
  let ?m = "remove_order oid m"
  have f: "dict_get (orders ?m) k = (if k = oid then None else dict_get (orders m) k)"
    "dict_get (peg_references ?m) k = (if k = oid then None else dict_get (peg_references m) k)"
    "dict_get (rate_limits ?m) k = (if k = oid then None else dict_get (rate_limits m) k)" "tick_sizes ?m = tick_sizes m" for k
    by (simp_all add: remove_order_def Some forget_def discard_id_def dict_get_pop)
  have ix: "symbol_ids ?m sy = (if sy = symbol (config o1) then symbol_ids m sy - {oid} else symbol_ids m sy)" for sy
    by (simp add: remove_order_def Some forget_def discard_id_def symbol_ids_def dict_get_set)
  note t = tick_of_cong [OF f(4)]
  show ?thesis
  proof (rule peg_invI)
    show "wf_dict (orders ?m)" using inv(1) by (simp add: remove_order_def Some forget_def discard_id_def)
    show "order_ok ?m k o2" if "dict_get (orders ?m) k = Some o2" for k o2
      using that inv(2) [of k o2] unfolding f order_ok_def t by (cases "k = oid") simp_all
    show "\<exists>o2. dict_get (orders ?m) k = Some o2 \<and> symbol (config o2) = sy" if k: "k \<in> symbol_ids ?m sy" for sy k
    proof -
      have "k \<in> symbol_ids m sy" using k unfolding ix by (auto split: if_splits)
      then obtain o2 where o2: "dict_get (orders m) k = Some o2" "symbol (config o2) = sy" using inv(3) by blast
      moreover have "k \<noteq> oid" using k o2 Some unfolding ix by (auto split: if_splits)
      ultimately show ?thesis unfolding f by simp
    qed
    show "dict_get (orders ?m) k \<noteq> None" if "dict_get (peg_references ?m) k \<noteq> None" for k
      using that inv(4) [of k] unfolding f by (cases "k = oid") simp_all
    show "dict_get (orders ?m) k \<noteq> None" if "dict_get (rate_limits ?m) k \<noteq> None" for k
      using that inv(5) [of k] unfolding f by (cases "k = oid") simp_all
  qed
qed (use m in \<open>simp add: remove_order_def\<close>)

lemma cleanup_inv: "peg_inv m \<Longrightarrow> peg_inv (snd (cleanup_inactive m))"
proof -
  have "peg_inv u \<Longrightarrow> peg_inv (fold remove_order ids u)" for ids u
    by (induction ids arbitrary: u) (simp_all add: remove_order_inv)
  then show "peg_inv m \<Longrightarrow> ?thesis" by (simp add: cleanup_inactive_def Let_def)
qed
lemma finite_symbol_ids: "peg_inv m \<Longrightarrow> finite (symbol_ids m sy)"
proof -
  assume m: "peg_inv m"
  have "symbol_ids m sy \<subseteq> set (dict_keys (orders m))"
    using peg_invD(3) [OF m] by (force dest: map_of_SomeD)
  then show ?thesis by (rule finite_subset) simp
qed

lemma peg_step_inv:
  assumes m: "peg_inv m"
  shows "peg_inv (peg_step x m)"
proof (cases x)
  case (Op_Create now oid cfg book)
  then show ?thesis using m create_register_inv [OF m, of oid now cfg book]
    by (simp add: create_pegged_order_def split: option.split)
next
  case (Op_Update ord now sy book)
  have "peg_inv (snd (update_order_prices ord now sy book m))" if "lists_sets ord"
  proof -
    have "set (ord (symbol_ids m sy)) = symbol_ids m sy" using lists_setsD [OF that finite_symbol_ids [OF m]] .
    then show ?thesis using m peg_invD(3) [OF m] unfolding update_order_prices_def by (intro update_loop_inv) fastforce+
  qed
  then show ?thesis using m by (simp add: Op_Update)
next
  case (Op_Fill oid q p)
  show ?thesis
  proof (cases "dict_get (orders m) oid")
    case (Some o1)
    have ok: "order_ok m oid o1" by (rule peg_invD(2) [OF m Some])
    let ?f = "fadd (filled_quantity o1) q"
    let ?o = "o1\<lparr>filled_quantity := ?f, remaining_quantity := fsub (base_quantity (config o1)) ?f,
      status := (if fsub (base_quantity (config o1)) ?f \<le> 0 then FILLED else status o1)\<rparr>"
    have "peg_inv ((put_order ?o m)\<lparr>peg_references := peg_references m, rate_limits := rate_limits m\<rparr>)"
      using ok by (intro put_order_inv [OF m Some]) (auto simp: order_ok_def)
    then show ?thesis by (simp add: Op_Fill handle_fill_def Some put_order_def Let_def)
  qed (use m in \<open>simp add: Op_Fill handle_fill_def\<close>)
next
  case (Op_Cancel oid)
  then show ?thesis using m put_status_inv [OF m] by (auto simp: cancel_order_def discard_forget_inv split: option.split)
next
  case (Op_Suspend oid)
  then show ?thesis using m put_status_inv [OF m] by (auto simp: suspend_order_def split: option.split)
next
  case (Op_Resume now oid book)
  show ?thesis
  proof (cases "dict_get (orders m) oid")
    case (Some o1)
    have ok: "order_ok m oid o1" by (rule peg_invD(2) [OF m Some])
    let ?peg = "calculate_peg_price (peg_type (config o1)) book"
    have "peg_inv ((put_order (o1\<lparr>current_price := price, current_peg_reference := ?peg, status := ACTIVE, last_update_time := now\<rparr>) m)
        \<lparr>peg_references := dict_set oid ?peg (peg_references m), rate_limits := rate_limits m\<rparr>)"
      if "priced (tick_of m (symbol (config o1))) (config o1) ?peg = Inr price" for price
      using ok that by (intro put_order_inv [OF m Some]) (auto simp: order_ok_def dict_get_set)
    then show ?thesis using m by (auto simp: Op_Resume resume_order_def Some Let_def put_order_def split: sum.split)
  qed (use m in \<open>simp add: Op_Resume resume_order_def\<close>)
qed (use m in \<open>simp_all add: create_register_inv cleanup_inv\<close>)

interpretation pg: op_machine peg_step peg_inv
  by unfold_locales (rule peg_step_inv)

lemma mgr_init_inv: "peg_inv (mgr_init ticks limit)"
  by (rule peg_invI) (simp_all add: mgr_init_def symbol_ids_def)

section \<open>Properties\<close>

text \<open>C27: In every history of calls each order has exactly the price that its recorded peg reference gives under its offset, tick size
  and limits, the reference kept for the next comparison is that of the order, what remains is what was ordered less what was filled, and the
  symbol index, references and rate limits name stored orders only.\<close>
theorem pegged_prices_follow_reference: "peg_inv (fold peg_step xs (mgr_init ticks limit))"
  by (rule pg.run_inv) (rule mgr_init_inv)

lemma update_one_local:
  assumes "dict_get (orders m) k = dict_get (orders m') k" "dict_get (rate_limits m) k = dict_get (rate_limits m') k"
    "dict_get (peg_references m) k = dict_get (peg_references m') k" "ids_ok m" "ids_ok m'"
  shows "fst (update_one now tick book k m) = fst (update_one now tick book k m')"
    and "dict_get (orders (snd (update_one now tick book k m))) k = dict_get (orders (snd (update_one now tick book k m'))) k"
  using assms ids_okD [of m k] ids_okD [of m' k]
  by (auto simp: update_one_def Let_def split: option.split sum.split)

text \<open>The loop judges each order on its own.\<close>

definition new_price :: "pyfloat \<Rightarrow> pyfloat \<Rightarrow> OrderBookSnapshot \<Rightarrow> peg_mgr \<Rightarrow> string \<Rightarrow> pyfloat option" where
  "new_price now tick book m oid = (case fst (update_one now tick book oid m) of Inl e \<Rightarrow> None | Inr x \<Rightarrow> x)"

lemma map_filter_cong: "(\<And>x. x \<in> set xs \<Longrightarrow> f x = g x) \<Longrightarrow> List.map_filter f xs = List.map_filter g xs"
  by (induction xs) (auto simp: List.map_filter_simps split: option.split)

lemma update_loop_pointwise:
  assumes "ids_ok m" "distinct oids" "update_loop now tick book oids acc m = (Inr ups, m')"
  shows "ups = acc @ List.map_filter (\<lambda>oid. map_option (Pair oid) (new_price now tick book m oid)) oids \<and>
    (\<forall>k. dict_get (orders m') k =
      (if k \<in> set oids then dict_get (orders (snd (update_one now tick book k m))) k else dict_get (orders m) k))"
  using assms
proof (induction oids arbitrary: acc m)
  case (Cons oid oids)
  obtain x m1 where u: "update_one now tick book oid m = (Inr x, m1)"
    using Cons.prems(3) by (cases "update_one now tick book oid m") (auto split: sum.splits)
  have i: "ids_ok m1" using update_one_ids [OF Cons.prems(1), of now tick book oid] u by simp
  let ?acc = "case x of None \<Rightarrow> acc | Some p \<Rightarrow> acc @ [(oid, p)]"
  have "update_loop now tick book oids ?acc m1 = (Inr ups, m')" using Cons.prems(3) u by (simp split: option.splits)
  note IH = Cons.IH [OF i _ this]
  have same: "new_price now tick book m1 k = new_price now tick book m k"
    "dict_get (orders (snd (update_one now tick book k m1))) k = dict_get (orders (snd (update_one now tick book k m))) k"
    "dict_get (orders m1) k = dict_get (orders m) k" if "k \<noteq> oid" for k
    using update_one_local [of m1 k m now tick book, OF _ _ _ i Cons.prems(1)]
      update_one_frame [OF Cons.prems(1) that, of now tick book, unfolded u] by (simp_all add: new_price_def)
  have "new_price now tick book m1 k = new_price now tick book m k" if "k \<in> set oids" for k
    using that Cons.prems(2) by (intro same(1)) auto
  then have "List.map_filter (\<lambda>k. map_option (Pair k) (new_price now tick book m1 k)) oids =
      List.map_filter (\<lambda>k. map_option (Pair k) (new_price now tick book m k)) oids"
    by (intro map_filter_cong) simp
  moreover have "new_price now tick book m oid = x" by (simp add: new_price_def u)
  moreover have d: "distinct oids" "oid \<notin> set oids" using Cons.prems(2) by simp_all
  ultimately have "ups = acc @ List.map_filter (\<lambda>oid. map_option (Pair oid) (new_price now tick book m oid)) (oid # oids)"
    using IH [THEN conjunct1] by (cases x) (simp_all add: List.map_filter_simps)
  moreover have "dict_get (orders m') k = (if k \<in> set (oid # oids) then dict_get (orders (snd (update_one now tick book k m))) k
      else dict_get (orders m) k)" for k
    using IH [OF d(1), THEN conjunct2, rule_format, of k] d(2) u same(2,3) [of k] by (cases "k = oid") simp_all
  ultimately show ?case by blast
qed (simp add: List.map_filter_def)
text \<open>When an order is due for a new price.\<close>

definition due :: "pyfloat \<Rightarrow> pyfloat \<Rightarrow> OrderBookSnapshot \<Rightarrow> peg_mgr \<Rightarrow> PeggedOrder \<Rightarrow> pyfloat \<Rightarrow> bool" where
  "due now tick book m o1 p \<longleftrightarrow>
     (let cfg = config o1; peg = calculate_peg_price (peg_type cfg) book;
          last = (case dict_get (rate_limits m) (order_id o1) of None \<Rightarrow> 0 | Some t \<Rightarrow> t);
          old = (case dict_get (peg_references m) (order_id o1) of None \<Rightarrow> peg | Some q \<Rightarrow> q)
      in status o1 = ACTIVE \<and> max_updates_per_second cfg \<noteq> 0 \<and> fdiv 1 (max_updates_per_second cfg) \<le> fsub now last \<and>
         (cancel_on_wide_spread cfg \<longrightarrow> spread_pct book \<le> spread_threshold_pct cfg) \<and>
         fmul tick (fl (of_int (update_threshold_ticks cfg))) \<le> \<bar>fsub peg old\<bar> \<and>
         priced tick cfg peg = Inr p \<and> p \<noteq> current_price o1)"

lemma new_price_iff:
  assumes "ids_ok m"
  shows "new_price now tick book m oid = Some p \<longleftrightarrow> (\<exists>o1. dict_get (orders m) oid = Some o1 \<and> due now tick book m o1 p)"
proof (cases "dict_get (orders m) oid")
  case (Some o1)
  have "order_id o1 = oid" by (rule ids_okD [OF assms Some])
  then show ?thesis using Some
    by (auto simp: new_price_def update_one_def due_def is_active_def Let_def not_less not_le split: sum.splits if_splits)
qed (simp add: new_price_def update_one_def)

lemma update_one_price:
  assumes "ids_ok m" "dict_get (orders m) oid = Some o1"
  shows "\<exists>o2. dict_get (orders (snd (update_one now tick book oid m))) oid = Some o2 \<and>
    (case new_price now tick book m oid of
       None \<Rightarrow> current_price o2 = current_price o1 \<and> update_count o2 = update_count o1
     | Some p \<Rightarrow> current_price o2 = p \<and> update_count o2 = update_count o1 + 1 \<and> last_update_time o2 = now)"
  using assms ids_okD [OF assms]
  by (auto simp: new_price_def update_one_def Let_def split: sum.split)

text \<open>A book update reprices exactly the orders that are due: those of the symbol that are active, whose last update is long enough
  ago, for which the spread is not too wide, whose peg has moved by the threshold in ticks, and whose price comes out different. Each of them has
  the reported price afterwards and one more update on record; every other order keeps its price.\<close>
theorem update_reprices_exactly_due:
  assumes "peg_inv m" "lists_sets ord" "update_order_prices ord now sy book m = (Inr ups, m1)"
  shows "distinct (map fst ups) \<and>
    (\<forall>oid p. (oid, p) \<in> set ups \<longleftrightarrow>
       oid \<in> symbol_ids m sy \<and> (\<exists>o1. dict_get (orders m) oid = Some o1 \<and> due now (tick_of m sy) book m o1 p)) \<and>
    (\<forall>oid o1. dict_get (orders m) oid = Some o1 \<longrightarrow>
       (\<exists>o2. dict_get (orders m1) oid = Some o2 \<and>
          (case map_of ups oid of
             None \<Rightarrow> current_price o2 = current_price o1 \<and> update_count o2 = update_count o1
           | Some p \<Rightarrow> current_price o2 = p \<and> update_count o2 = update_count o1 + 1 \<and> last_update_time o2 = now)))"
proof -
  let ?ids = "ord (symbol_ids m sy)" and ?np = "new_price now (tick_of m sy) book m"
  note ids = inv_ids_ok [OF assms(1)]
  have o1: "set ?ids = symbol_ids m sy" "distinct ?ids"
    using assms(2) finite_symbol_ids [OF assms(1)] by (simp_all add: lists_sets_def)
  have l: "ups = List.map_filter (\<lambda>oid. map_option (Pair oid) (?np oid)) ?ids"
    "dict_get (orders m1) k = (if k \<in> symbol_ids m sy then dict_get (orders (snd (update_one now (tick_of m sy) book k m))) k
       else dict_get (orders m) k)" for k
    using update_loop_pointwise [OF ids o1(2), of now "tick_of m sy" book "[]" ups m1] assms(3)
    by (simp_all add: update_order_prices_def o1(1))
  have mem: "(oid, p) \<in> set (List.map_filter (\<lambda>oid. map_option (Pair oid) (?np oid)) xs) \<longleftrightarrow> oid \<in> set xs \<and> ?np oid = Some p" for oid p xs
    by (induction xs) (auto simp: List.map_filter_simps split: option.splits)
  have dist: "distinct xs \<Longrightarrow> distinct (map fst (List.map_filter (\<lambda>oid. map_option (Pair oid) (?np oid)) xs))" for xs
  proof (induction xs)
    case (Cons x xs)
    then show ?case using mem [of x _ xs] by (auto simp: List.map_filter_simps split: option.split)
  qed (simp add: List.map_filter_simps)
  have d: "distinct (map fst ups)" unfolding l(1) by (rule dist [OF o1(2)])
  have u: "(oid, p) \<in> set ups \<longleftrightarrow> oid \<in> symbol_ids m sy \<and> ?np oid = Some p" for oid p unfolding l(1) mem o1(1) ..
  have mo: "map_of ups oid = (if oid \<in> symbol_ids m sy then ?np oid else None)" for oid
  proof (cases "map_of ups oid")
    case None
    then have "(oid, p) \<notin> set ups" for p by (force simp: map_of_eq_None_iff)
    then show ?thesis using u [of oid] None by (cases "?np oid") auto
  next
    case (Some p)
    then show ?thesis using u [of oid p] by (auto dest: map_of_SomeD)
  qed
  show ?thesis
  proof (intro conjI allI impI)
    show "distinct (map fst ups)" by (rule d)
    show "(oid, p) \<in> set ups \<longleftrightarrow>
        oid \<in> symbol_ids m sy \<and> (\<exists>o1. dict_get (orders m) oid = Some o1 \<and> due now (tick_of m sy) book m o1 p)" for oid p
      unfolding u new_price_iff [OF ids] ..
    fix oid o1 assume o: "dict_get (orders m) oid = Some o1"
    show "\<exists>o2. dict_get (orders m1) oid = Some o2 \<and>
        (case map_of ups oid of
           None \<Rightarrow> current_price o2 = current_price o1 \<and> update_count o2 = update_count o1
         | Some p \<Rightarrow> current_price o2 = p \<and> update_count o2 = update_count o1 + 1 \<and> last_update_time o2 = now)"
      using update_one_price [OF ids o, of now "tick_of m sy" book] o unfolding mo l(2) by auto
  qed
qed
definition demo_order :: PeggedOrder where
  "demo_order = new_pegged_order ''A'' (pegged_config ''BTC'' ''BUY'' 2) 100 100 5"

definition demo_mgr :: peg_mgr where
  "demo_mgr =
     (mgr_init [(''BTC'', 1)] 1)\<lparr>orders := [(''A'', demo_order)], symbol_index := [(''BTC'', {''A''})], peg_references := [(''A'', 100)]\<rparr>"

definition demo_book :: OrderBookSnapshot where
  "demo_book = \<lparr>timestamp = 6, best_bid = 103, best_ask = 103, bid_size = 1, ask_size = 1, mid_price = 103, spread = 0, spread_pct = 0\<rparr>"

lemma demo_priced: "priced 1 (pegged_config ''BTC'' ''BUY'' 2) 100 = Inr 100" "priced 1 (pegged_config ''BTC'' ''BUY'' 2) 103 = Inr 103"
  using round_half_even_of_int [of 100] round_half_even_of_int [of 103]
  by (simp_all add: priced_def apply_offset_and_constraints_def pegged_config_def clamp_def fmul_def fsub_def fdiv_def)

lemma demo_inv: "peg_inv demo_mgr"
  by (rule peg_invI)
    (auto simp: demo_mgr_def mgr_init_def demo_order_def new_pegged_order_def order_ok_def wf_dict_def symbol_ids_def tick_of_def
      demo_priced pegged_config_def [THEN arg_cong, of symbol, simplified] split: if_splits option.splits)

lemma demo_update: "update_order_prices sorted_list_of_set 6 ''BTC'' demo_book demo_mgr =
    (Inr [(''A'', 103)], snd (update_order_prices sorted_list_of_set 6 ''BTC'' demo_book demo_mgr))"
proof -
  have f: "fdiv 1 10 \<le> 1" using fl_mono [of "1 / 10" 1] by (simp add: fdiv_def)
  have c: "symbol (pegged_config ''BTC'' ''BUY'' 2) = ''BTC''" "max_updates_per_second (pegged_config ''BTC'' ''BUY'' 2) = 10"
    "peg_type (pegged_config ''BTC'' ''BUY'' 2) = MID_MARKET" "update_threshold_ticks (pegged_config ''BTC'' ''BUY'' 2) = 1"
    "0 \<le> spread_threshold_pct (pegged_config ''BTC'' ''BUY'' 2)"
    by (simp_all add: pegged_config_def)
  then have "fst (update_one 6 1 demo_book ''A'' demo_mgr) = Inr (Some 103)"
    using f c by (simp add: update_one_def demo_mgr_def mgr_init_def demo_order_def new_pegged_order_def is_active_def
        calculate_peg_price_def demo_book_def fsub_def fmul_def demo_priced(2) Let_def)
  then obtain u where "update_one 6 1 demo_book ''A'' demo_mgr = (Inr (Some 103), u)" by (metis prod.collapse)
  moreover have "symbol_ids demo_mgr ''BTC'' = {''A''}" "tick_of demo_mgr ''BTC'' = 1"
    by (simp_all add: demo_mgr_def mgr_init_def symbol_ids_def tick_of_def)
  ultimately show ?thesis by (simp add: update_order_prices_def)
qed

theorem update_reprices_exactly_due_witness:
  "(''A'', 103) \<in> set [(''A'', 103 :: pyfloat)] \<longleftrightarrow>
    ''A'' \<in> symbol_ids demo_mgr ''BTC'' \<and>
    (\<exists>o1. dict_get (orders demo_mgr) ''A'' = Some o1 \<and> due 6 (tick_of demo_mgr ''BTC'') demo_book demo_mgr o1 103)"
  using update_reprices_exactly_due [OF demo_inv lists_sets_sorted demo_update] by blast

text \<open>Cancelling is not final: a cancelled order that is suspended and resumed is active again, filled or not, counts in the total
  exposure, but is gone from the index of its symbol, so no later book update ever reprices it.\<close>
theorem cancelled_order_revived:
  assumes "peg_inv m" "dict_get (orders m) oid = Some o1" "tick_of m (symbol (config o1)) \<noteq> 0"
    "m1 = snd (resume_order now oid book (snd (suspend_order oid (snd (cancel_order oid m)))))"
  shows "\<exists>o2. dict_get (orders m1) oid = Some o2 \<and> status o2 = ACTIVE \<and> remaining_quantity o2 = remaining_quantity o1 \<and>
    (\<forall>ord. lists_sets ord \<longrightarrow> o2 \<in> set (get_active_orders ord None m1)) \<and> (\<forall>sy. oid \<notin> symbol_ids m1 sy)"
proof -
  note ok = peg_invD(2) [OF assms(1,2), unfolded order_ok_def]
  obtain price where p: "priced (tick_of m (symbol (config o1))) (config o1) (calculate_peg_price (peg_type (config o1)) book) = Inr price"
    using assms(3) by (simp add: priced_def apply_offset_and_constraints_def Let_def)
  have oid: "order_id o1 = oid" using ok by simp
  let ?c = "snd (cancel_order oid m)"
  have c: "dict_get (orders ?c) oid = Some (o1\<lparr>status := CANCELLED\<rparr>)" "tick_sizes ?c = tick_sizes m"
    by (simp_all add: cancel_order_def assms(2) forget_def discard_id_def oid)
  have ci: "oid \<notin> symbol_ids ?c sy" for sy
  proof -
    have "symbol_ids ?c sy = (if sy = symbol (config o1) then symbol_ids m sy - {oid} else symbol_ids m sy)"
      by (simp add: cancel_order_def assms(2) forget_def discard_id_def symbol_ids_def dict_get_set)
    then show ?thesis using peg_invD(3) [OF assms(1), of oid sy] assms(2) by auto
  qed
  let ?s = "snd (suspend_order oid ?c)"
  have s: "dict_get (orders ?s) oid = Some (o1\<lparr>status := SUSPENDED\<rparr>)" "tick_sizes ?s = tick_sizes m" "symbol_index ?s = symbol_index ?c"
    by (simp_all add: suspend_order_def c oid)
  define o2 where "o2 = o1\<lparr>current_price := price, current_peg_reference := calculate_peg_price (peg_type (config o1)) book,
    status := ACTIVE, last_update_time := now\<rparr>"
  have m1: "dict_get (orders m1) oid = Some o2" "symbol_index m1 = symbol_index ?c"
    by (simp_all add: assms(4) resume_order_def Let_def o2_def s(1) s(3) tick_of_cong [OF s(2)] p oid)
  have "o2 \<in> set (get_active_orders ord None m1)" if "lists_sets ord" for ord
  proof -
    have "set (ord (set (dict_keys (orders m1)))) = set (dict_keys (orders m1))" by (rule lists_setsD [OF that]) simp
    then have "oid \<in> set (ord (set (dict_keys (orders m1))))" using m1(1) by (force dest: map_of_SomeD)
    moreover have "o2 \<in> set (List.map_filter (\<lambda>k. dict_get (orders m1) k) xs)" if "oid \<in> set xs" for xs
      using that m1(1) by (induction xs) (auto simp: List.map_filter_simps split: option.split)
    ultimately show ?thesis by (simp add: get_active_orders_def truthy_str_def is_active_def o2_def [THEN arg_cong, of status, simplified])
  qed
  moreover have "oid \<notin> symbol_ids m1 sy" for sy using ci [of sy] symbol_ids_cong [OF m1(2)] by simp
  ultimately show ?thesis using m1(1) by (auto simp: o2_def)
qed

theorem cancelled_order_revived_witness:
  "\<exists>o2. dict_get (orders (snd (resume_order 9 ''A'' demo_book (snd (suspend_order ''A'' (snd (cancel_order ''A'' demo_mgr))))))) ''A'' = Some o2 \<and>
    status o2 = ACTIVE"
  using cancelled_order_revived [OF demo_inv _ _ refl, of "''A''" demo_order 9 demo_book]
  by (auto simp: demo_mgr_def mgr_init_def tick_of_def demo_order_def new_pegged_order_def pegged_config_def)

text \<open>The limit on orders is not kept: the check and the registration take the lock separately, so two callers that both pass
  the check with one place left end with one order too many.\<close>
theorem creation_race_exceeds_limit:
  assumes "wf_dict (orders m)" "int (length (orders m)) + 1 = max_orders m" "a \<noteq> b" "dict_get (orders m) a = None" "dict_get (orders m) b = None"
    "tick_of m (symbol ca) \<noteq> 0" "tick_of m (symbol cb) \<noteq> 0"
  shows "create_check m = None \<and>
    int (length (orders (snd (create_register t2 b cb book2 (snd (create_register t1 a ca book1 m)))))) = max_orders m + 1"
proof -
  have p: "\<exists>x. priced tick cfg peg = Inr x" if "tick \<noteq> 0" for tick cfg peg
    using that by (simp add: priced_def apply_offset_and_constraints_def Let_def)
  have r: "\<exists>o1. orders (snd (create_register t k cfg bk u)) = dict_set k o1 (orders u) \<and> tick_sizes (snd (create_register t k cfg bk u)) = tick_sizes u"
    if "tick_of u (symbol cfg) \<noteq> 0" for t k cfg bk u
    using p [OF that, of cfg "calculate_peg_price (peg_type cfg) bk"] by (auto simp: create_register_def Let_def)
  obtain oa where a: "orders (snd (create_register t1 a ca book1 m)) = dict_set a oa (orders m)"
    "tick_sizes (snd (create_register t1 a ca book1 m)) = tick_sizes m" using r [OF assms(6)] by blast
  obtain ob where b: "orders (snd (create_register t2 b cb book2 (snd (create_register t1 a ca book1 m)))) = dict_set b ob (dict_set a oa (orders m))"
    using r [of "snd (create_register t1 a ca book1 m)" cb t2 b book2] assms(7) tick_of_cong [OF a(2)] a(1) by auto
  have "a \<notin> fst ` set (orders m)" "b \<notin> fst ` set (orders m)" using assms(4,5) by (simp_all add: map_of_eq_None_iff)
  moreover have "b \<notin> fst ` set (dict_set a oa (orders m))"
    using assms(3,5) dict_get_set [of a oa "orders m" b] by (simp add: map_of_eq_None_iff [symmetric])
  ultimately show ?thesis using assms(2) unfolding b by (simp add: create_check_def length_dict_set)
qed

theorem creation_race_exceeds_limit_witness:
  "int (length (orders (snd (create_register 2 ''C'' (pegged_config ''BTC'' ''BUY'' 1) demo_book
     (snd (create_register 1 ''B'' (pegged_config ''BTC'' ''SELL'' 1) demo_book (mgr_init [(''BTC'', 1)] 1))))))) = 2"
  using creation_race_exceeds_limit [of "mgr_init [(''BTC'', 1)] 1" "''B''" "''C''" "pegged_config ''BTC'' ''SELL'' 1"
      "pegged_config ''BTC'' ''BUY'' 1" 2 demo_book 1 demo_book]
  by (simp add: mgr_init_def tick_of_def pegged_config_def)

end
