(* ===== verification/StateSerializer.thy ===== *)
theory StateSerializer
  imports Encoding "HOL-Library.List_Lexorder" "HOL-Library.Char_ord"
begin

unbundle bit_operations_syntax

text \<open>
  \<open>persistence/state_serializer.py\<close>: the trading state as dictionaries and as checkpoint files.

  The classes do not check the types of their fields, so a field that is only stored is a \<open>json\<close> value. JSON text,
  \<open>zlib.compress\<close>, \<open>zlib.decompress\<close> and \<open>zlib.crc32\<close> are the functions of a \<open>codec\<close>. The checkpoint directory is a dict from file names to
  contents; it may hold other files too. A write may fail after some bytes.
\<close>

section \<open>The state as dictionaries\<close>

datatype PositionSide = LONG | SHORT | FLAT

datatype OrderStatus = PENDING | OPEN | PARTIALLY_FILLED | FILLED | CANCELLED | REJECTED

fun side_value :: "PositionSide \<Rightarrow> string" where
  "side_value LONG = ''long''" | "side_value SHORT = ''short''" | "side_value FLAT = ''flat''"

fun status_value :: "OrderStatus \<Rightarrow> string" where
  "status_value PENDING = ''pending''"
| "status_value OPEN = ''open''"
| "status_value PARTIALLY_FILLED = ''partially_filled''"
| "status_value FILLED = ''filled''"
| "status_value CANCELLED = ''cancelled''"
| "status_value REJECTED = ''rejected''"

definition side_of :: "json \<Rightarrow> exn + PositionSide" where
  "side_of j =
     (if j = JStr ''long'' then Inr LONG else if j = JStr ''short'' then Inr SHORT
      else if j = JStr ''flat'' then Inr FLAT else Inl ValueError)"

definition status_of :: "json \<Rightarrow> exn + OrderStatus" where
  "status_of j =
     (if j = JStr ''pending'' then Inr PENDING else if j = JStr ''open'' then Inr OPEN
      else if j = JStr ''partially_filled'' then Inr PARTIALLY_FILLED else if j = JStr ''filled'' then Inr FILLED
      else if j = JStr ''cancelled'' then Inr CANCELLED else if j = JStr ''rejected'' then Inr REJECTED else Inl ValueError)"

text \<open>\<open>data[k]\<close>, \<open>data.get(k)\<close> and \<open>data.items()\<close>.\<close>

fun jget :: "json \<Rightarrow> string \<Rightarrow> exn + json" where
  "jget (JDict d) k = (case dict_get d k of None \<Rightarrow> Inl KeyError | Some v \<Rightarrow> Inr v)"
| "jget j k = Inl (OtherError ''TypeError'')"

fun jget_opt :: "json \<Rightarrow> string \<Rightarrow> exn + json" where
  "jget_opt (JDict d) k = Inr (case dict_get d k of None \<Rightarrow> JNull | Some v \<Rightarrow> v)"
| "jget_opt j k = Inl (OtherError ''AttributeError'')"

fun jitems :: "json \<Rightarrow> exn + (string, json) dict" where
  "jitems (JDict d) = Inr d"
| "jitems j = Inl (OtherError ''AttributeError'')"

record PositionState =
  symbol :: json
  side :: PositionSide
  quantity :: json
  entry_price :: json
  current_price :: json
  unrealized_pnl :: json
  leverage :: json
  margin :: json
  liquidation_price :: json
  opened_at :: json
  last_updated :: json

definition position_to_dict :: "PositionState \<Rightarrow> json" where
  "position_to_dict p =
     JDict [(''symbol'', symbol p), (''side'', JStr (side_value (side p))), (''quantity'', quantity p),
            (''entry_price'', entry_price p), (''current_price'', current_price p), (''unrealized_pnl'', unrealized_pnl p),
            (''leverage'', leverage p), (''margin'', margin p), (''liquidation_price'', liquidation_price p),
            (''opened_at'', opened_at p), (''last_updated'', last_updated p)]"

definition position_from_dict :: "json \<Rightarrow> exn + PositionState" where
  "position_from_dict d =
     bind (jget d ''symbol'') (\<lambda>sy. bind (bind (jget d ''side'') side_of) (\<lambda>sd. bind (jget d ''quantity'') (\<lambda>q.
     bind (jget d ''entry_price'') (\<lambda>ep. bind (jget d ''current_price'') (\<lambda>cp. bind (jget d ''unrealized_pnl'') (\<lambda>u.
     bind (jget d ''leverage'') (\<lambda>l. bind (jget d ''margin'') (\<lambda>m. bind (jget_opt d ''liquidation_price'') (\<lambda>lp.
     bind (jget d ''opened_at'') (\<lambda>oa. bind (jget d ''last_updated'') (\<lambda>lu.
       Inr \<lparr>symbol = sy, side = sd, quantity = q, entry_price = ep, current_price = cp, unrealized_pnl = u, leverage = l,
            margin = m, liquidation_price = lp, opened_at = oa, last_updated = lu\<rparr>)))))))))))"

record OrderState =
  order_id :: json
  o_symbol :: json
  o_side :: json
  order_type :: json
  o_quantity :: json
  price :: json
  filled_quantity :: json
  average_fill_price :: json
  status :: OrderStatus
  created_at :: json
  updated_at :: json
  exchange_order_id :: json

definition order_to_dict :: "OrderState \<Rightarrow> json" where
  "order_to_dict r =
     JDict [(''order_id'', order_id r), (''symbol'', o_symbol r), (''side'', o_side r), (''order_type'', order_type r),
            (''quantity'', o_quantity r), (''price'', price r), (''filled_quantity'', filled_quantity r),
            (''average_fill_price'', average_fill_price r), (''status'', JStr (status_value (status r))),
            (''created_at'', created_at r), (''updated_at'', updated_at r), (''exchange_order_id'', exchange_order_id r)]"

definition order_from_dict :: "json \<Rightarrow> exn + OrderState" where
  "order_from_dict d =
     bind (jget d ''order_id'') (\<lambda>i. bind (jget d ''symbol'') (\<lambda>sy. bind (jget d ''side'') (\<lambda>sd. bind (jget d ''order_type'') (\<lambda>ty.
     bind (jget d ''quantity'') (\<lambda>q. bind (jget_opt d ''price'') (\<lambda>p. bind (jget d ''filled_quantity'') (\<lambda>fq.
     bind (jget d ''average_fill_price'') (\<lambda>ap. bind (bind (jget d ''status'') status_of) (\<lambda>st. bind (jget d ''created_at'') (\<lambda>ca.
     bind (jget d ''updated_at'') (\<lambda>ua. bind (jget_opt d ''exchange_order_id'') (\<lambda>xi.
       Inr \<lparr>order_id = i, o_symbol = sy, o_side = sd, order_type = ty, o_quantity = q, price = p, filled_quantity = fq,
            average_fill_price = ap, status = st, created_at = ca, updated_at = ua, exchange_order_id = xi\<rparr>))))))))))))"

record TradingState =
  timestamp :: json
  positions :: "(string, PositionState) dict"
  orders :: "(string, OrderState) dict"
  balances :: json
  total_equity :: json
  realized_pnl :: json
  session_start :: json
  trade_count :: json

definition to_dict :: "TradingState \<Rightarrow> json" where
  "to_dict s =
     JDict [(''timestamp'', timestamp s), (''positions'', JDict (map (\<lambda>(k, v). (k, position_to_dict v)) (positions s))),
            (''orders'', JDict (map (\<lambda>(k, v). (k, order_to_dict v)) (orders s))), (''balances'', balances s),
            (''total_equity'', total_equity s), (''realized_pnl'', realized_pnl s), (''session_start'', session_start s),
            (''trade_count'', trade_count s)]"

text \<open>\<open>{k: f(v) for k, v in d.items()}\<close>.\<close>

fun map_values :: "('a \<Rightarrow> exn + 'b) \<Rightarrow> (string, 'a) dict \<Rightarrow> (string, 'b) dict \<Rightarrow> exn + (string, 'b) dict" where
  "map_values f [] acc = Inr acc"
| "map_values f ((k, v) # d) acc = bind (f v) (\<lambda>w. map_values f d (dict_set k w acc))"

definition from_dict :: "json \<Rightarrow> exn + TradingState" where
  "from_dict d =
     bind (jget d ''timestamp'') (\<lambda>ts.
     bind (bind (bind (jget d ''positions'') jitems) (\<lambda>ps. map_values position_from_dict ps [])) (\<lambda>ps.
     bind (bind (bind (jget d ''orders'') jitems) (\<lambda>os. map_values order_from_dict os [])) (\<lambda>os.
     bind (jget d ''balances'') (\<lambda>b. bind (jget d ''total_equity'') (\<lambda>te. bind (jget d ''realized_pnl'') (\<lambda>rp.
     bind (jget d ''session_start'') (\<lambda>ss. bind (jget d ''trade_count'') (\<lambda>tc.
       Inr \<lparr>timestamp = ts, positions = ps, orders = os, balances = b, total_equity = te, realized_pnl = rp,
            session_start = ss, trade_count = tc\<rparr>))))))))"

section \<open>The binary format\<close>

record codec =
  encode_json :: "json \<Rightarrow> exn + bytes"
  decode_json :: "bytes \<Rightarrow> exn + json"
  compress :: "bytes \<Rightarrow> bytes"
  decompress :: "bytes \<Rightarrow> exn + bytes"
  crc32 :: "bytes \<Rightarrow> int"

definition MAGIC_BYTES :: bytes where "MAGIC_BYTES = [90, 65, 73, 68]"
definition FORMAT_VERSION :: int where "FORMAT_VERSION = 1"

abbreviation struct_error :: exn where "struct_error \<equiv> OtherError ''struct.error''"

text \<open>The fields \<open>d\<close> and \<open>I\<close> of \<open>struct.pack\<close>.\<close>

definition pack_double :: "json \<Rightarrow> exn + bytes" where
  "pack_double j =
     (case j of
        JFloat x \<Rightarrow> Inr (le_bytes 8 (uint (make64 (x < 0) (sig_bits 53 (- 1074) \<bar>x\<bar>))))
      | JInt n \<Rightarrow> (case float_of_int n of None \<Rightarrow> Inl struct_error | Some w \<Rightarrow> Inr (le_bytes 8 (uint w)))
      | JBool b \<Rightarrow> Inr (le_bytes 8 (uint (make64 False (sig_bits 53 (- 1074) (if b then 1 else 0)))))
      | _ \<Rightarrow> Inl struct_error)"

definition pack_uint32 :: "int \<Rightarrow> exn + bytes" where
  "pack_uint32 n = (if 0 \<le> n \<and> n < 2 ^ 32 then Inr (le_bytes 4 n) else Inl struct_error)"

text \<open>\<open>struct.pack('<4sBBdI', ...)\<close>, 18 bytes without padding, and \<open>struct.unpack\<close> of it, which insists on that length
  and returns five values. The time is left as its bytes.\<close>

datatype field = Bytes bytes | Num int | Double bytes

definition pack_header :: "json \<Rightarrow> int \<Rightarrow> exn + bytes" where
  "pack_header ts n =
     bind (pack_double ts) (\<lambda>t. bind (pack_uint32 n) (\<lambda>l. Inr (MAGIC_BYTES @ [word_of_int FORMAT_VERSION, 1] @ t @ l)))"

definition unpack_header :: "bytes \<Rightarrow> exn + field list" where
  "unpack_header bs =
     (if length bs \<noteq> 18 then Inl struct_error
      else Inr [Bytes (take 4 bs), Num (uint (bs ! 4)), Num (uint (bs ! 5)), Double (take 8 (drop 6 bs)), Num (le_int (drop 14 bs))])"

definition unpack_uint32 :: "bytes \<Rightarrow> exn + int" where
  "unpack_uint32 bs = (if length bs \<noteq> 4 then Inl struct_error else Inr (le_int bs))"

definition serialize_binary :: "codec \<Rightarrow> TradingState \<Rightarrow> exn + bytes" where
  "serialize_binary cd s =
     bind (encode_json cd (to_dict s)) (\<lambda>j.
     let z = compress cd j
     in bind (pack_header (timestamp s) (int (length z))) (\<lambda>h.
        bind (pack_uint32 (crc32 cd (h @ z) AND 0xffffffff)) (\<lambda>f. Inr (h @ z @ f))))"

text \<open>What follows the check of the version: checksum, decompression, parsing. \<open>k\<close> is the size of the header.\<close>

definition read_body :: "codec \<Rightarrow> bytes \<Rightarrow> nat \<Rightarrow> nat \<Rightarrow> exn + TradingState option" where
  "read_body cd data k len =
     (let z = take len (drop k data)
      in bind (unpack_uint32 (take 4 (drop (k + len) data))) (\<lambda>stored.
         if stored \<noteq> crc32 cd (take (k + len) data) AND 0xffffffff then Inr None
         else case bind (decompress cd z) (\<lambda>j. bind (decode_json cd j) from_dict) of
                Inl e \<Rightarrow> Inr None
              | Inr s \<Rightarrow> Inr (Some s)))"

text \<open>The code slices 17 bytes and assigns the result to four names.\<close>

definition deserialize_binary :: "codec \<Rightarrow> bytes \<Rightarrow> exn + TradingState option" where
  "deserialize_binary cd data =
     (if length data < 21 then Inr None
      else if take 4 data \<noteq> MAGIC_BYTES then Inr None
      else bind (unpack_header (take 17 data)) (\<lambda>fields.
        case fields of
          [version, flags, ts, len] \<Rightarrow>
            (if version \<noteq> Num FORMAT_VERSION then Inr None
             else case len of Num n \<Rightarrow> read_body cd data 17 (nat n) | _ \<Rightarrow> Inl (OtherError ''TypeError''))
        | _ \<Rightarrow> Inl ValueError))"

section \<open>Checkpoint files\<close>

record serializer =
  checkpoint_counter :: int
  last_checkpoint_time :: pyfloat
  files :: "(string, bytes) dict"

definition serializer_init :: "(string, bytes) dict \<Rightarrow> serializer" where
  "serializer_init fs = \<lparr>checkpoint_counter = 0, last_checkpoint_time = 0, files = fs\<rparr>"

text \<open>\<open>int(x * 1000)\<close>; a string is repeated a thousand times.\<close>

definition millis :: "json \<Rightarrow> exn + int" where
  "millis j =
     (case j of
        JFloat x \<Rightarrow> Inr (int_of_float (fmul x 1000))
      | JInt n \<Rightarrow> Inr (n * 1000)
      | JBool b \<Rightarrow> Inr (if b then 1000 else 0)
      | JStr s \<Rightarrow> py_int (concat (replicate 1000 s))
      | _ \<Rightarrow> Inl (OtherError ''TypeError''))"

definition bin_name :: "int \<Rightarrow> int \<Rightarrow> string" where
  "bin_name ts c = ''checkpoint_'' @ int_str ts @ ''_'' @ int_str c @ ''.bin''"

definition tmp_name :: "int \<Rightarrow> int \<Rightarrow> string" where
  "tmp_name ts c = ''checkpoint_'' @ int_str ts @ ''_'' @ int_str c @ ''.tmp''"

definition put_file :: "string \<Rightarrow> bytes \<Rightarrow> serializer \<Rightarrow> serializer" where
  "put_file f b s = s\<lparr>files := dict_set f b (files s)\<rparr>"

text \<open>\<open>fails\<close> is the number of bytes that get written before the disk gives up. \<open>rename\<close> replaces its target.\<close>

definition save_checkpoint :: "codec \<Rightarrow> nat option \<Rightarrow> pyfloat \<Rightarrow> TradingState \<Rightarrow> serializer \<Rightarrow> (exn + string) \<times> serializer" where
  "save_checkpoint cd fails now st s =
     (case millis (timestamp st) of
        Inl e \<Rightarrow> (Inl e, s)
      | Inr ts \<Rightarrow>
          (case serialize_binary cd st of
             Inl e \<Rightarrow> (Inl e, s)
           | Inr b \<Rightarrow>
               (let c = checkpoint_counter s; tmp = tmp_name ts c; bin = bin_name ts c
                in case fails of
                     Some n \<Rightarrow> (Inl (OtherError ''OSError''), put_file tmp (take n b) s)
                   | None \<Rightarrow>
                       (Inr bin, s\<lparr>files := dict_set bin b (dict_pop tmp (files s)), checkpoint_counter := c + 1,
                                   last_checkpoint_time := now\<rparr>))))"

text \<open>\<open>glob('checkpoint_*.bin')\<close>, in the order of the directory, and sorted by name from the last to the first.\<close>

definition is_checkpoint :: "string \<Rightarrow> bool" where
  "is_checkpoint f \<longleftrightarrow>
     15 \<le> length f \<and> take 11 f = ''checkpoint_'' \<and> drop (length f - 4) f = ''.bin''"

definition checkpoints :: "serializer \<Rightarrow> string list" where
  "checkpoints s = filter is_checkpoint (dict_keys (files s))"

definition by_name :: "string list \<Rightarrow> string list" where
  "by_name fs = rev (sort fs)"

definition load_latest_checkpoint :: "codec \<Rightarrow> serializer \<Rightarrow> TradingState option" where
  "load_latest_checkpoint cd s =
     (case by_name (checkpoints s) of
        [] \<Rightarrow> None
      | f # _ \<Rightarrow>
          (case dict_get (files s) f of
             None \<Rightarrow> None
           | Some b \<Rightarrow> (case deserialize_binary cd b of Inl e \<Rightarrow> None | Inr r \<Rightarrow> r)))"

definition json_name :: "int \<Rightarrow> string" where
  "json_name ts = ''checkpoint_'' @ int_str ts @ ''.json''"

text \<open>\<open>text\<close> is what \<open>json.dump\<close> writes for the chosen indentation.\<close>

definition save_checkpoint_json :: "(bool \<Rightarrow> json \<Rightarrow> exn + bytes) \<Rightarrow> TradingState \<Rightarrow> bool \<Rightarrow> serializer \<Rightarrow> (exn + string) \<times> serializer" where
  "save_checkpoint_json text st pretty s =
     (case millis (timestamp st) of
        Inl e \<Rightarrow> (Inl e, s)
      | Inr ts \<Rightarrow>
          (case text pretty (to_dict st) of
             Inl e \<Rightarrow> (Inl e, put_file (json_name ts) [] s)
           | Inr b \<Rightarrow> (Inr (json_name ts), put_file (json_name ts) b s)))"

record checkpoint_stats =
  count :: int
  total_size_bytes :: int
  average_size_bytes :: "int option"
  oldest :: "pyfloat option"
  newest :: "pyfloat option"

fun split_on :: "char \<Rightarrow> string \<Rightarrow> string list" where
  "split_on c [] = [[]]"
| "split_on c (x # xs) =
     (if x = c then [] # split_on c xs else case split_on c xs of [] \<Rightarrow> [[x]] | w # ws \<Rightarrow> (x # w) # ws)"

text \<open>The time in a name: the second part of the stem, in seconds.\<close>

definition stamp_of :: "string \<Rightarrow> pyfloat option" where
  "stamp_of f =
     (case split_on (CHR ''_'') (take (length f - 4) f) of
        a # b # _ \<Rightarrow> (case py_int b of Inl e \<Rightarrow> None | Inr n \<Rightarrow> Some (idiv n 1000))
      | _ \<Rightarrow> None)"

definition get_checkpoint_stats :: "serializer \<Rightarrow> checkpoint_stats" where
  "get_checkpoint_stats s =
     (let cs = checkpoints s;
          sizes = map (\<lambda>f. case dict_get (files s) f of None \<Rightarrow> 0 | Some b \<Rightarrow> int (length b)) cs;
          ts = List.map_filter stamp_of cs
      in \<lparr>count = int (length cs), total_size_bytes = sum_list sizes,
          average_size_bytes = (if sizes = [] then None else Some (sum_list sizes div int (length sizes))),
          oldest = (if ts = [] then None else Some (Min (set ts))), newest = (if ts = [] then None else Some (Max (set ts)))\<rparr>)"

definition cleanup_old_checkpoints :: "int \<Rightarrow> serializer \<Rightarrow> int \<times> serializer" where
  "cleanup_old_checkpoints keep s =
     (let cs = checkpoints s
      in if int (length cs) \<le> keep then (0, s)
         else (let old = slice_from keep (by_name cs)
               in (int (length old), s\<lparr>files := fold dict_pop old (files s)\<rparr>)))"

section \<open>The dictionaries determine the state\<close>

lemma side_of_value [simp]: "side_of (JStr (side_value x)) = Inr x"
  by (cases x) (simp_all add: side_of_def)

lemma status_of_value [simp]: "status_of (JStr (status_value x)) = Inr x"
  by (cases x) (simp_all add: status_of_def)

lemma position_roundtrip [simp]: "position_from_dict (position_to_dict p) = Inr p"
  by (simp add: position_from_dict_def position_to_dict_def)

lemma order_roundtrip [simp]: "order_from_dict (order_to_dict r) = Inr r"
  by (simp add: order_from_dict_def order_to_dict_def)

lemma map_values_inverse:
  assumes "\<And>v. f (g v) = Inr v" "distinct (map fst (acc @ d))"
  shows "map_values f (map (\<lambda>(k, v). (k, g v)) d) acc = Inr (acc @ d)"
  using assms(2)
proof (induction d arbitrary: acc)
  case (Cons a d)
  obtain k v where a: "a = (k, v)" by (cases a)
  have "k \<notin> fst ` set acc" using Cons.prems by (auto simp: a)
  then have "dict_set k v acc = acc @ [(k, v)]" by (rule dict_set_new)
  moreover have "distinct (map fst ((acc @ [(k, v)]) @ d))" using Cons.prems by (simp add: a)
  ultimately show ?case using Cons.IH [of "acc @ [(k, v)]"] by (simp add: a assms(1))
qed simp

definition wf_state :: "TradingState \<Rightarrow> bool" where
  "wf_state s \<longleftrightarrow> wf_dict (positions s) \<and> wf_dict (orders s)"

lemma state_roundtrip: "wf_state s \<Longrightarrow> from_dict (to_dict s) = Inr s"
  using map_values_inverse [of position_from_dict position_to_dict "[]" "positions s"]
    map_values_inverse [of order_from_dict order_to_dict "[]" "orders s"]
  by (simp add: wf_state_def wf_dict_def from_dict_def to_dict_def)

section \<open>The layout of a checkpoint\<close>

lemma pack_double_length: "pack_double j = Inr bs \<Longrightarrow> length bs = 8"
  by (auto simp: pack_double_def split: json.splits option.splits)

lemma pack_uint32_Inr: "pack_uint32 n = Inr bs \<longleftrightarrow> 0 \<le> n \<and> n < 2 ^ 32 \<and> bs = le_bytes 4 n"
  by (auto simp: pack_uint32_def)

lemma unpack_pack_uint32: "pack_uint32 n = Inr bs \<Longrightarrow> unpack_uint32 bs = Inr n"
  by (simp add: pack_uint32_Inr unpack_uint32_def le_int_bytes)

lemma serialize_binaryE:
  assumes "serialize_binary cd s = Inr b"
  obtains j t l f where "encode_json cd (to_dict s) = Inr j" "length t = 8"
    "pack_uint32 (int (length (compress cd j))) = Inr l"
    "pack_uint32 (crc32 cd ((MAGIC_BYTES @ [1, 1] @ t @ l) @ compress cd j) AND 0xffffffff) = Inr f"
    "b = (MAGIC_BYTES @ [1, 1] @ t @ l) @ compress cd j @ f"
proof -
  from assms obtain j where j: "encode_json cd (to_dict s) = Inr j"
    by (auto simp: serialize_binary_def elim: bind_InrE)
  let ?z = "compress cd j"
  from assms j obtain h f where h: "pack_header (timestamp s) (int (length ?z)) = Inr h"
    and f: "pack_uint32 (crc32 cd (h @ ?z) AND 0xffffffff) = Inr f" and b: "b = h @ ?z @ f"
    by (auto simp: serialize_binary_def Let_def elim!: bind_InrE)
  from h obtain t l where t: "pack_double (timestamp s) = Inr t" and l: "pack_uint32 (int (length ?z)) = Inr l"
    and hh: "h = MAGIC_BYTES @ [1, 1] @ t @ l"
    by (auto simp: pack_header_def FORMAT_VERSION_def elim!: bind_InrE)
  show ?thesis using that [OF j pack_double_length [OF t] l] f b by (simp add: hh)
qed

text \<open>
  A reader of the layout that the comment of \<open>serialize_binary\<close> documents. It is not in the code: it states what the
  written bytes promise.
\<close>

definition read_documented :: "codec \<Rightarrow> bytes \<Rightarrow> exn + TradingState option" where
  "read_documented cd data =
     (if length data < 22 \<or> take 4 data \<noteq> MAGIC_BYTES \<or> data ! 4 \<noteq> word_of_int FORMAT_VERSION then Inr None
      else read_body cd data 18 (nat (le_int (take 4 (drop 14 data)))))"

lemma read_body_written:
  assumes "length h = 18" "pack_uint32 (crc32 cd (h @ z) AND 0xffffffff) = Inr f"
    "decompress cd z = Inr j" "decode_json cd j = Inr d" "from_dict d = Inr s"
  shows "read_body cd (h @ z @ f) 18 (length z) = Inr (Some s)"
  using assms unpack_pack_uint32 [OF assms(2)]
  by (simp add: read_body_def pack_uint32_Inr)

section \<open>Names and directories\<close>

lemma lexorder_append: "(xs @ ys < xs @ zs) = (ys < (zs :: 'a :: linorder list))"
  by (induction xs) auto

lemma tmp_no_checkpoint [simp]: "\<not> is_checkpoint (tmp_name ts c)"
proof -
  have "tmp_name ts c = (''checkpoint_'' @ int_str ts @ ''_'' @ int_str c) @ ''.tmp''" by (simp add: tmp_name_def)
  then have "drop (length (tmp_name ts c) - 4) (tmp_name ts c) = ''.tmp''" by (simp only: length_append) simp
  then show ?thesis by (simp add: is_checkpoint_def)
qed

lemma json_no_checkpoint [simp]: "\<not> is_checkpoint (json_name ts)"
proof -
  have "json_name ts = (''checkpoint_'' @ int_str ts @ ''.'') @ ''json''" by (simp add: json_name_def)
  then have "drop (length (json_name ts) - 4) (json_name ts) = ''json''" by (simp only: length_append) simp
  then show ?thesis by (simp add: is_checkpoint_def)
qed

lemma bin_is_checkpoint [simp]: "is_checkpoint (bin_name ts c)"
proof -
  have "bin_name ts c = (''checkpoint_'' @ int_str ts @ ''_'' @ int_str c) @ ''.bin''" by (simp add: bin_name_def)
  then have "drop (length (bin_name ts c) - 4) (bin_name ts c) = ''.bin''" by (simp only: length_append) simp
  then show ?thesis by (simp add: is_checkpoint_def bin_name_def)
qed

lemma name_of_tenth: "bin_name ts 10 < bin_name ts 9"
  by (simp add: bin_name_def lexorder_append int_str_def digits10.simps less_char_def)

section \<open>Runs of the serializer\<close>

datatype ser_op =
    Save "nat option" pyfloat TradingState
  | Save_json "bool \<Rightarrow> json \<Rightarrow> exn + bytes" TradingState bool
  | Cleanup int

fun ser_step :: "codec \<Rightarrow> ser_op \<Rightarrow> serializer \<Rightarrow> serializer" where
  "ser_step cd (Save fails now st) s = snd (save_checkpoint cd fails now st s)"
| "ser_step cd (Save_json text st pretty) s = snd (save_checkpoint_json text st pretty s)"
| "ser_step cd (Cleanup n) s = snd (cleanup_old_checkpoints n s)"

text \<open>Every checkpoint file holds all the bytes of some state.\<close>

definition complete_files :: "codec \<Rightarrow> serializer \<Rightarrow> bool" where
  "complete_files cd s \<longleftrightarrow>
     (\<forall>f b. dict_get (files s) f = Some b \<longrightarrow> is_checkpoint f \<longrightarrow> (\<exists>st. serialize_binary cd st = Inr b))"

lemma complete_filesI [intro]:
  "complete_files cd s \<Longrightarrow> (\<And>f b. dict_get (files s') f = Some b \<Longrightarrow> is_checkpoint f \<Longrightarrow>
     dict_get (files s) f = Some b \<or> (\<exists>st. serialize_binary cd st = Inr b)) \<Longrightarrow> complete_files cd s'"
  by (force simp: complete_files_def)

lemma save_fails:
  "millis (timestamp st) = Inl e \<or> serialize_binary cd st = Inl e \<Longrightarrow> snd (save_checkpoint cd fails now st s) = s"
  by (auto simp: save_checkpoint_def split: sum.splits)

lemma save_files:
  "millis (timestamp st) = Inr ts \<Longrightarrow> serialize_binary cd st = Inr b \<Longrightarrow>
   files (snd (save_checkpoint cd fails now st s)) =
     (case fails of
        Some n \<Rightarrow> dict_set (tmp_name ts (checkpoint_counter s)) (take n b) (files s)
      | None \<Rightarrow> dict_set (bin_name ts (checkpoint_counter s)) b (dict_pop (tmp_name ts (checkpoint_counter s)) (files s)))"
  by (simp add: save_checkpoint_def Let_def put_file_def split: option.split)

lemma save_complete:
  assumes "complete_files cd s"
  shows "complete_files cd (snd (save_checkpoint cd fails now st s))"
proof (cases "\<exists>e. millis (timestamp st) = Inl e \<or> serialize_binary cd st = Inl e")
  case True
  then show ?thesis using assms save_fails by metis
next
  case False
  then obtain ts b where m: "millis (timestamp st) = Inr ts" and b: "serialize_binary cd st = Inr b"
    by (metis sum.exhaust)
  show ?thesis
    using b by (intro complete_filesI [OF assms])
      (auto simp: save_files [OF m b] dict_get_set dict_get_pop split: option.splits if_splits)
qed

lemma save_json_complete: "complete_files cd s \<Longrightarrow> complete_files cd (snd (save_checkpoint_json text st pretty s))"
  by (erule complete_filesI) (auto simp: save_checkpoint_json_def put_file_def dict_get_set split: sum.splits if_splits)

lemma cleanup_get:
  "dict_get (files (snd (cleanup_old_checkpoints n s))) f =
     (if n < int (length (checkpoints s)) \<and> f \<in> set (slice_from n (by_name (checkpoints s))) then None else dict_get (files s) f)"
  by (simp add: cleanup_old_checkpoints_def Let_def fold_dict_pop_get)

lemma cleanup_complete: "complete_files cd s \<Longrightarrow> complete_files cd (snd (cleanup_old_checkpoints n s))"
  by (erule complete_filesI) (auto simp: cleanup_get split: if_splits)

interpretation ser: op_machine "ser_step cd" "complete_files cd" for cd
proof
  fix s x assume "complete_files cd s"
  then show "complete_files cd (ser_step cd x s)"
    by (cases x) (simp_all add: save_complete save_json_complete cleanup_complete)
qed

section \<open>Properties\<close>

text \<open>No bytes are ever read as a checkpoint: \<open>deserialize_binary\<close> either returns None or raises \<open>struct.error\<close>, because the 17 bytes
  it slices are not the 18 of the header, and so \<open>load_latest_checkpoint\<close> is None in every directory.\<close>
theorem checkpoints_never_load:
  "deserialize_binary cd data \<in> {Inr None, Inl struct_error} \<and> load_latest_checkpoint cd s = None"
proof -
  have none: "deserialize_binary cd d = Inr None \<or> deserialize_binary cd d = Inl struct_error" for d
    by (simp add: deserialize_binary_def unpack_header_def)
  have "(case deserialize_binary cd d of Inl e \<Rightarrow> None | Inr r \<Rightarrow> r) = None" for d
    by (rule disjE [OF none [of d]]) simp_all
  then have "load_latest_checkpoint cd s = None"
    by (simp add: load_latest_checkpoint_def split: list.split option.split)
  with none show ?thesis by blast
qed

text \<open>C26: What \<open>serialize_binary\<close> writes is the documented layout: where JSON and the compression are inverted at this state, a reader
  that follows the documentation gets back the whole state, every position and order included.\<close>
theorem written_state_is_recoverable:
  assumes "wf_state s" "encode_json cd (to_dict s) = Inr j" "decode_json cd j = Inr (to_dict s)"
    "decompress cd (compress cd j) = Inr j" "serialize_binary cd s = Inr b"
  shows "read_documented cd b = Inr (Some s)"
proof -
  from assms(5) obtain j' t l f where ser: "encode_json cd (to_dict s) = Inr j'" "length t = 8"
    "pack_uint32 (int (length (compress cd j'))) = Inr l"
    "pack_uint32 (crc32 cd ((MAGIC_BYTES @ [1, 1] @ t @ l) @ compress cd j') AND 0xffffffff) = Inr f"
    "b = (MAGIC_BYTES @ [1, 1] @ t @ l) @ compress cd j' @ f"
    by (rule serialize_binaryE)
  from ser(1) assms(2) have jj: "j' = j" by simp
  have l: "length l = 4" "le_int l = int (length (compress cd j))"
    using unpack_pack_uint32 [OF ser(3)] ser(3) by (auto simp: jj pack_uint32_Inr unpack_uint32_def)
  have f: "length f = 4" using ser(4) by (auto simp: pack_uint32_Inr)
  have "read_body cd b 18 (length (compress cd j)) = Inr (Some s)"
    using read_body_written [OF _ ser(4) [unfolded jj] assms(4,3) state_roundtrip [OF assms(1)]] ser(2) l(1)
    by (simp add: ser(5) jj MAGIC_BYTES_def)
  moreover have "take 4 (drop 14 b) = l" using ser(2) l(1) by (simp add: ser(5) MAGIC_BYTES_def)
  moreover have "22 \<le> length b" "take 4 b = MAGIC_BYTES" "b ! 4 = 1"
    using ser(2) l(1) f by (simp_all add: ser(5) MAGIC_BYTES_def)
  ultimately show ?thesis by (simp add: read_documented_def FORMAT_VERSION_def l(2))
qed

text \<open>Checkpoints are atomic: whatever saves, failed writes, JSON dumps and cleanups happen in any order, a file that is named like a
  checkpoint holds the complete serialization of some state.\<close>
theorem checkpoint_files_complete: "complete_files cd (fold (ser_step cd) xs (serializer_init []))"
  by (rule ser.run_inv) (simp add: complete_files_def serializer_init_def)

text \<open>The order by name is not the order of saving: the tenth and eleventh checkpoint with one timestamp are sorted the wrong way
  round, and a cleanup that keeps one checkpoint deletes the newer of them.\<close>
theorem cleanup_deletes_newest:
  assumes "files s = []" "checkpoint_counter s = 9" "millis (timestamp a) = Inr ts" "millis (timestamp b) = Inr ts"
    "serialize_binary cd a = Inr ba" "serialize_binary cd b = Inr bb"
    "s' = snd (save_checkpoint cd None now2 b (snd (save_checkpoint cd None now1 a s)))"
  shows "dict_get (files s') (bin_name ts 10) = Some bb \<and>
    dict_get (files (snd (cleanup_old_checkpoints 1 s'))) (bin_name ts 10) = None \<and>
    dict_get (files (snd (cleanup_old_checkpoints 1 s'))) (bin_name ts 9) = Some ba"
proof -
  have ne: "bin_name ts 9 \<noteq> bin_name ts 10" "bin_name ts 10 \<noteq> bin_name ts 9" using name_of_tenth [of ts] by auto
  have tmp: "tmp_name ts c \<noteq> bin_name ts d" "bin_name ts d \<noteq> tmp_name ts c" for c d
    using tmp_no_checkpoint bin_is_checkpoint by metis+
  have "checkpoint_counter (snd (save_checkpoint cd None now1 a s)) = 10"
    using assms(2,3,5) by (simp add: save_checkpoint_def Let_def)
  then have f: "files s' = [(bin_name ts 9, ba), (bin_name ts 10, bb)]"
    using ne tmp by (simp add: assms(1,2,7) save_files [OF assms(3,5)] save_files [OF assms(4,6)])
  then have "checkpoints s' = [bin_name ts 9, bin_name ts 10]" by (simp add: checkpoints_def)
  moreover have "sort [bin_name ts 9, bin_name ts 10] = [bin_name ts 10, bin_name ts 9]"
    using name_of_tenth [of ts] by (auto dest: leD)
  ultimately have old: "slice_from 1 (by_name (checkpoints s')) = [bin_name ts 10]" "int (length (checkpoints s')) = 2"
    by (simp_all add: by_name_def slice_from_def)
  show ?thesis using f ne by (simp add: cleanup_get old)
qed

section \<open>Witnesses\<close>

definition demo_state :: TradingState where
  "demo_state =
     \<lparr>timestamp = JFloat 2,
      positions = [(''BTC'', \<lparr>symbol = JStr ''BTC'', side = LONG, quantity = JFloat 1, entry_price = JFloat 45, current_price = JFloat 46,
        unrealized_pnl = JFloat 1, leverage = JInt 10, margin = JFloat 5, liquidation_price = JNull, opened_at = JFloat 0,
        last_updated = JFloat 2\<rparr>)],
      orders = [(''o1'', \<lparr>order_id = JStr ''o1'', o_symbol = JStr ''BTC'', o_side = JStr ''buy'', order_type = JStr ''limit'',
        o_quantity = JFloat 1, price = JFloat 45, filled_quantity = JFloat 0, average_fill_price = JFloat 0, status = OPEN,
        created_at = JFloat 0, updated_at = JFloat 1, exchange_order_id = JNull\<rparr>)],
      balances = JDict [(''USDT'', JFloat 10)], total_equity = JFloat 12, realized_pnl = JFloat 0, session_start = JFloat 0,
      trade_count = JInt 15\<rparr>"

text \<open>A codec that knows one document; its compression turns the bytes round.\<close>

definition demo_codec :: codec where
  "demo_codec =
     \<lparr>encode_json = (\<lambda>d. if d = to_dict demo_state then Inr [123, 49, 125] else Inl ValueError),
      decode_json = (\<lambda>b. if b = [123, 49, 125] then Inr (to_dict demo_state) else Inl ValueError),
      compress = rev, decompress = (\<lambda>b. Inr (rev b)), crc32 = (\<lambda>b. sum_list (map uint b))\<rparr>"

lemma demo_time: "pack_double (JFloat 2) = Inr [0, 0, 0, 0, 0, 0, 0, 64]"
  by code_simp

lemma demo_bytes:
  "serialize_binary demo_codec demo_state =
     Inr [90, 65, 73, 68, 1, 1, 0, 0, 0, 0, 0, 0, 0, 64, 3, 0, 0, 0, 125, 49, 123, 150, 2, 0, 0]"
proof -
  have t: "timestamp demo_state = JFloat 2" by (simp add: demo_state_def)
  have l: "pack_uint32 3 = Inr [3, 0, 0, 0]" "pack_uint32 662 = Inr [150, 2, 0, 0]" by code_simp+
  have a: "(662 :: int) AND 0xffffffff = 662" by code_simp
  show ?thesis
    by (simp add: serialize_binary_def pack_header_def t demo_time demo_codec_def l a MAGIC_BYTES_def FORMAT_VERSION_def)
qed

lemma demo_wf: "wf_state demo_state"
  by (simp add: wf_state_def wf_dict_def demo_state_def)

theorem written_state_is_recoverable_witness:
  "read_documented demo_codec [90, 65, 73, 68, 1, 1, 0, 0, 0, 0, 0, 0, 0, 64, 3, 0, 0, 0, 125, 49, 123, 150, 2, 0, 0] = Inr (Some demo_state)"
  by (rule written_state_is_recoverable [of demo_state demo_codec "[123, 49, 125]", OF demo_wf _ _ _ demo_bytes])
    (simp_all add: demo_codec_def)

theorem cleanup_deletes_newest_witness:
  "dict_get (files (snd (cleanup_old_checkpoints 1 (snd (save_checkpoint demo_codec None 2 demo_state
     (snd (save_checkpoint demo_codec None 1 demo_state \<lparr>checkpoint_counter = 9, last_checkpoint_time = 0, files = []\<rparr>)))))))
     (bin_name 2000 10) = None"
proof -
  have m: "millis (timestamp demo_state) = Inr 2000"
    by (simp add: demo_state_def) code_simp
  show ?thesis
    using cleanup_deletes_newest [OF _ _ m m demo_bytes demo_bytes refl,
        of "\<lparr>checkpoint_counter = 9, last_checkpoint_time = 0, files = []\<rparr>" 2 1]
    by simp
qed

end
