(* ===== verification/MemoryCache.thy ===== *)
theory MemoryCache
  imports Prelude "HOL-Library.Word"
begin

text \<open>
  \<open>database/memory_cache.py\<close>: the cache of arrays with least-recently-used eviction, and the tick index on top of it.

  Arrays belong to numpy: their type is a parameter \<open>'a\<close> and what the code asks of them are the functions of \<open>numpy\<close>. The hex digest
  of the key is the function \<open>md5\<close>. The two ordered dictionaries are \<open>dict\<close>s; the first metadata entry is the least recently used one.
  The eviction loop of \<open>put\<close> may run for ever, so its result is an option. The shared memory block is created and closed but never
  read or written, and is left out.
\<close>

section \<open>Entries and statistics\<close>

datatype CacheEntryType = TICK | ORDER_BOOK | TRADE | SIGNAL | METRIC

fun type_value :: "CacheEntryType \<Rightarrow> string" where
  "type_value TICK = ''tick''" | "type_value ORDER_BOOK = ''order_book''" | "type_value TRADE = ''trade''"
| "type_value SIGNAL = ''signal''" | "type_value METRIC = ''metric''"

definition entry_type_of :: "string \<Rightarrow> CacheEntryType" where
  "entry_type_of s =
     (case filter (\<lambda>t. type_value t = s) [TICK, ORDER_BOOK, TRADE, SIGNAL, METRIC] of [] \<Rightarrow> METRIC | t # _ \<Rightarrow> t)"

record CacheMetadata =
  key :: string
  entry_type :: CacheEntryType
  size_bytes :: int
  created_at :: pyfloat
  last_accessed :: pyfloat
  access_count :: int
  symbol :: string

definition touch :: "pyfloat \<Rightarrow> CacheMetadata \<Rightarrow> CacheMetadata" where
  "touch now m = m\<lparr>last_accessed := now, access_count := access_count m + 1\<rparr>"

record CacheStats =
  total_entries :: int
  total_size_bytes :: int
  hits :: int
  misses :: int
  evictions :: int

definition no_stats :: CacheStats where
  "no_stats = \<lparr>total_entries = 0, total_size_bytes = 0, hits = 0, misses = 0, evictions = 0\<rparr>"

definition hit_rate :: "CacheStats \<Rightarrow> pyfloat" where
  "hit_rate s = (let total = hits s + misses s in if total > 0 then idiv (hits s) total else 0)"

definition size_mb :: "CacheStats \<Rightarrow> pyfloat" where
  "size_mb s = idiv (total_size_bytes s) (1024 * 1024)"

record 'a numpy =
  nbytes :: "'a \<Rightarrow> nat"
  float_array :: "pyfloat list \<Rightarrow> 'a"
  byte_array :: "8 word list \<Rightarrow> 'a"
  concatenate :: "'a list \<Rightarrow> exn + 'a"

datatype 'a payload = Floats "pyfloat list" | Raw "8 word list" | Array 'a | Unsupported

section \<open>The cache\<close>

record 'a cache =
  max_size :: int
  metadata :: "(string, CacheMetadata) dict"
  data_store :: "(string, 'a) dict"
  stats :: CacheStats

definition MAX_CACHE_SIZE_BYTES :: int where
  "MAX_CACHE_SIZE_BYTES = 6 * 1024 * 1024 * 1024"

definition cache_init :: "int option \<Rightarrow> 'a cache" where
  "cache_init limit =
     \<lparr>max_size = (case limit of None \<Rightarrow> MAX_CACHE_SIZE_BYTES | Some n \<Rightarrow> if n = 0 then MAX_CACHE_SIZE_BYTES else n),
      metadata = [], data_store = [], stats = no_stats\<rparr>"

definition generate_key :: "(string \<Rightarrow> string) \<Rightarrow> string \<Rightarrow> string \<Rightarrow> int \<Rightarrow> string" where
  "generate_key md5 sy ty ts = md5 (sy @ '':'' @ ty @ '':'' @ int_str ts)"

definition move_to_end :: "string \<Rightarrow> (string, 'v) dict \<Rightarrow> (string, 'v) dict" where
  "move_to_end k d = (case dict_get d k of None \<Rightarrow> d | Some v \<Rightarrow> dict_pop k d @ [(k, v)])"

definition count_hit :: "CacheStats \<Rightarrow> CacheStats" where "count_hit s = s\<lparr>hits := hits s + 1\<rparr>"
definition count_miss :: "CacheStats \<Rightarrow> CacheStats" where "count_miss s = s\<lparr>misses := misses s + 1\<rparr>"

text \<open>Touching an entry and making it the most recently used one, if it has metadata.\<close>

definition touch_entry :: "pyfloat \<Rightarrow> string \<Rightarrow> ('a, 'b) cache_scheme \<Rightarrow> ('a, 'b) cache_scheme" where
  "touch_entry now k c =
     (case dict_get (metadata c) k of
        None \<Rightarrow> c
      | Some m \<Rightarrow> c\<lparr>metadata := move_to_end k (dict_set k (touch now m) (metadata c))\<rparr>)"

definition evict_lru :: "('a, 'b) cache_scheme \<Rightarrow> ('a, 'b) cache_scheme" where
  "evict_lru c =
     (case metadata c of
        [] \<Rightarrow> c
      | (k, m) # _ \<Rightarrow>
          c\<lparr>data_store := dict_pop k (data_store c), metadata := dict_pop k (metadata c),
            stats := (stats c)\<lparr>total_entries := total_entries (stats c) - 1,
                               total_size_bytes := total_size_bytes (stats c) - size_bytes m,
                               evictions := evictions (stats c) + 1\<rparr>\<rparr>)"

text \<open>\<open>while total_size_bytes + data_size > max_size: _evict_lru()\<close>; None is a loop that does not end.\<close>

partial_function (option) evict_loop :: "int \<Rightarrow> ('a, 'b) cache_scheme \<Rightarrow> ('a, 'b) cache_scheme option" where
  "evict_loop n c = (if total_size_bytes (stats c) + n \<le> max_size c then Some c else evict_loop n (evict_lru c))"

definition to_array :: "'a numpy \<Rightarrow> 'a payload \<Rightarrow> exn + 'a" where
  "to_array np d =
     (case d of Floats xs \<Rightarrow> Inr (float_array np xs) | Raw bs \<Rightarrow> Inr (byte_array np bs) | Array a \<Rightarrow> Inr a
      | Unsupported \<Rightarrow> Inl (OtherError ''TypeError''))"

definition store :: "pyfloat \<Rightarrow> string \<Rightarrow> string \<Rightarrow> string \<Rightarrow> int \<Rightarrow> 'a \<Rightarrow> ('a, 'b) cache_scheme \<Rightarrow> ('a, 'b) cache_scheme" where
  "store now k sy ty n a c =
     (let m = \<lparr>key = k, entry_type = entry_type_of ty, size_bytes = n, created_at = now, last_accessed = now, access_count = 0, symbol = sy\<rparr>;
          meta = dict_set k m (move_to_end k (metadata c))
      in c\<lparr>data_store := dict_set k a (data_store c), metadata := meta,
           stats := (stats c)\<lparr>total_entries := int (length meta), total_size_bytes := total_size_bytes (stats c) + n\<rparr>\<rparr>)"

definition put :: "'a numpy \<Rightarrow> (string \<Rightarrow> string) \<Rightarrow> pyfloat \<Rightarrow> string \<Rightarrow> string \<Rightarrow> int \<Rightarrow> 'a payload \<Rightarrow> ('a, 'b) cache_scheme \<Rightarrow>
    ((exn + string) \<times> ('a, 'b) cache_scheme) option" where
  "put np md5 now sy ty ts d c =
     (case to_array np d of
        Inl e \<Rightarrow> Some (Inl e, c)
      | Inr a \<Rightarrow>
          (let k = generate_key md5 sy ty ts; n = int (nbytes np a)
           in case evict_loop n c of None \<Rightarrow> None | Some c1 \<Rightarrow> Some (Inr k, store now k sy ty n a c1)))"

text \<open>\<open>get\<close> returns a copy.\<close>

definition get :: "pyfloat \<Rightarrow> string \<Rightarrow> ('a, 'b) cache_scheme \<Rightarrow> 'a option \<times> ('a, 'b) cache_scheme" where
  "get now k c =
     (case dict_get (data_store c) k of
        None \<Rightarrow> (None, c\<lparr>stats := count_miss (stats c)\<rparr>)
      | Some a \<Rightarrow> (let c1 = touch_entry now k c in (Some a, c1\<lparr>stats := count_hit (stats c1)\<rparr>)))"

text \<open>\<open>clk i\<close> is the clock in the round of time stamp \<open>i\<close>. The second component collects the arrays.\<close>

definition tick_round :: "(string \<Rightarrow> string) \<Rightarrow> (int \<Rightarrow> pyfloat) \<Rightarrow> string \<Rightarrow> int \<Rightarrow> ('a, 'b) cache_scheme \<times> 'a list \<Rightarrow>
    ('a, 'b) cache_scheme \<times> 'a list" where
  "tick_round md5 clk sy ts w =
     (case get (clk ts) (generate_key md5 sy ''tick'' ts) (fst w) of
        (None, c) \<Rightarrow> (c, snd w)
      | (Some a, c) \<Rightarrow> (c, snd w @ [a]))"

definition get_ticks :: "'a numpy \<Rightarrow> (string \<Rightarrow> string) \<Rightarrow> (int \<Rightarrow> pyfloat) \<Rightarrow> string \<Rightarrow> int \<Rightarrow> int \<Rightarrow> ('a, 'b) cache_scheme \<Rightarrow>
    (exn + 'a option) \<times> ('a, 'b) cache_scheme" where
  "get_ticks np md5 clk sy start_ts end_ts c =
     (let (c1, found) = fold (tick_round md5 clk sy) [start_ts..end_ts] (c, [])
      in (if found = [] then Inr None else bind (concatenate np found) (\<lambda>a. Inr (Some a)), c1))"

definition clear :: "('a, 'b) cache_scheme \<Rightarrow> ('a, 'b) cache_scheme" where
  "clear c = c\<lparr>data_store := [], metadata := [], stats := no_stats\<rparr>"

definition get_stats :: "('a, 'b) cache_scheme \<Rightarrow> (string \<times> json) list" where
  "get_stats c =
     [(''total_entries'', JInt (total_entries (stats c))), (''total_size_mb'', JFloat (size_mb (stats c))),
      (''hit_rate'', JFloat (hit_rate (stats c))), (''hits'', JInt (hits (stats c))), (''misses'', JInt (misses (stats c))),
      (''evictions'', JInt (evictions (stats c))), (''max_size_gb'', JFloat (idiv (max_size c) (1024 ^ 3)))]"

section \<open>The tick index\<close>

record 'a hist = "'a cache" +
  timestamp_index :: "(string, (int, string) dict) dict"

definition hist_init :: "'a hist" where
  "hist_init = cache.extend (cache_init None) \<lparr>timestamp_index = []\<rparr>"

definition index_tick :: "'a numpy \<Rightarrow> (string \<Rightarrow> string) \<Rightarrow> pyfloat \<Rightarrow> string \<Rightarrow> int \<Rightarrow> 'a payload \<Rightarrow> 'a hist \<Rightarrow>
    ((exn + string) \<times> 'a hist) option" where
  "index_tick np md5 now sy ts d h =
     (case put np md5 now sy ''tick'' ts d h of
        None \<Rightarrow> None
      | Some (Inl e, h1) \<Rightarrow> Some (Inl e, h1)
      | Some (Inr k, h1) \<Rightarrow>
          (let ix = (case dict_get (timestamp_index h1) sy of None \<Rightarrow> [] | Some ix \<Rightarrow> ix)
           in Some (Inr k, h1\<lparr>timestamp_index := dict_set sy (dict_set ts k ix) (timestamp_index h1)\<rparr>)))"

definition lookup_tick :: "pyfloat \<Rightarrow> string \<Rightarrow> int \<Rightarrow> 'a hist \<Rightarrow> 'a option \<times> 'a hist" where
  "lookup_tick now sy ts h =
     (case dict_get (timestamp_index h) sy of
        None \<Rightarrow> (None, h)
      | Some ix \<Rightarrow> (case dict_get ix ts of None \<Rightarrow> (None, h) | Some k \<Rightarrow> get now k h))"

definition range_round :: "(int \<Rightarrow> pyfloat) \<Rightarrow> (int, string) dict \<Rightarrow> int \<Rightarrow> 'a hist \<times> 'a list \<Rightarrow> 'a hist \<times> 'a list" where
  "range_round clk ix ts w =
     (case dict_get ix ts of
        None \<Rightarrow> w
      | Some k \<Rightarrow>
          if k = [] then w
          else (case get (clk ts) k (fst w) of (None, h) \<Rightarrow> (h, snd w) | (Some a, h) \<Rightarrow> (h, snd w @ [a])))"

definition lookup_range :: "'a numpy \<Rightarrow> (int \<Rightarrow> pyfloat) \<Rightarrow> string \<Rightarrow> int \<Rightarrow> int \<Rightarrow> 'a hist \<Rightarrow> (exn + 'a) \<times> 'a hist" where
  "lookup_range np clk sy start_ts end_ts h =
     (case dict_get (timestamp_index h) sy of
        None \<Rightarrow> (Inr (float_array np []), h)
      | Some ix \<Rightarrow>
          (let (h1, found) = fold (range_round clk ix) [start_ts..end_ts] (h, [])
           in (if found = [] then Inr (float_array np []) else concatenate np found, h1)))"


section \<open>Accounting\<close>

text \<open>What the entries hold, and what the total counts beyond that.\<close>

definition held :: "('a, 'b) cache_scheme \<Rightarrow> int" where
  "held c = sum_list (map (size_bytes \<circ> snd) (metadata c))"

definition leaked :: "('a, 'b) cache_scheme \<Rightarrow> int" where
  "leaked c = total_size_bytes (stats c) - held c"

definition entry_ok :: "'a numpy \<Rightarrow> string \<Rightarrow> CacheMetadata option \<Rightarrow> 'a option \<Rightarrow> bool" where
  "entry_ok np k m a \<longleftrightarrow>
     (case (m, a) of (None, None) \<Rightarrow> True | (Some m, Some a) \<Rightarrow> key m = k \<and> size_bytes m = int (nbytes np a) | _ \<Rightarrow> False)"

definition cache_inv :: "'a numpy \<Rightarrow> ('a, 'b) cache_scheme \<Rightarrow> bool" where
  "cache_inv np c \<longleftrightarrow>
     wf_dict (metadata c) \<and> (\<forall>k. entry_ok np k (dict_get (metadata c) k) (dict_get (data_store c) k)) \<and>
     total_entries (stats c) = int (length (metadata c)) \<and> 0 \<le> leaked c \<and> total_size_bytes (stats c) \<le> max_size c"

lemma entry_ok_simps [simp]:
  "entry_ok np k None None"
  "entry_ok np k (Some m) (Some a) \<longleftrightarrow> key m = k \<and> size_bytes m = int (nbytes np a)"
  "\<not> entry_ok np k (Some m) None" "\<not> entry_ok np k None (Some a)"
  by (simp_all add: entry_ok_def)

lemma entry_ok_SomeE:
  assumes "entry_ok np k (Some m) a" obtains b where "a = Some b" "key m = k" "size_bytes m = int (nbytes np b)"
  using assms by (cases a) auto

lemma cache_invD:
  assumes "cache_inv np c"
  shows "wf_dict (metadata c)" "entry_ok np k (dict_get (metadata c) k) (dict_get (data_store c) k)"
    "total_entries (stats c) = int (length (metadata c))" "0 \<le> leaked c" "total_size_bytes (stats c) \<le> max_size c"
  using assms by (auto simp: cache_inv_def)

lemma entry_size_nonneg:
  assumes "cache_inv np c" "(k, m) \<in> set (metadata c)" shows "0 \<le> size_bytes m"
proof -
  have "dict_get (metadata c) k = Some m" using assms by (simp add: wf_dict_mem [symmetric] cache_invD(1))
  then show ?thesis using cache_invD(2) [OF assms(1), of k] by (auto elim: entry_ok_SomeE)
qed

lemma held_nonneg: "cache_inv np c \<Longrightarrow> 0 \<le> held c"
  by (auto simp: held_def intro!: sum_list_nonneg entry_size_nonneg)

text \<open>Sums and lengths of dictionaries whose entry moves or goes.\<close>

lemma sum_pop:
  "wf_dict d \<Longrightarrow> sum_list (map ((f :: 'v \<Rightarrow> int) \<circ> snd) (dict_pop k d)) =
     sum_list (map (f \<circ> snd) d) - (case dict_get d k of None \<Rightarrow> 0 | Some v \<Rightarrow> f v)"
proof (induction d)
  case (Cons a d)
  obtain k' v where a: "a = (k', v)" by (cases a)
  have w: "k' \<notin> fst ` set d" "wf_dict d" using Cons.prems by (simp_all add: a wf_dict_Cons)
  then have n: "dict_get d k' = None" by (simp add: map_of_eq_None_iff)
  show ?case
  proof (cases "k' = k")
    case True
    then show ?thesis using w n dict_pop_absent [of k d] by (simp add: a)
  next
    case False
    then show ?thesis using Cons.IH [OF w(2)] by (simp add: a)
  qed
qed simp

lemma fst_pop [simp]: "fst ` set (dict_pop k d) = fst ` set d - {k}"
  by (metis delete_keys set_map set_removeAll)

lemma wf_append_new: "wf_dict d \<Longrightarrow> k \<notin> fst ` set d \<Longrightarrow> wf_dict (d @ [(k, v)])"
  by (simp add: wf_dict_def)

lemma dict_get_append: "dict_get (d @ [(k, v)]) k' = (case dict_get d k' of None \<Rightarrow> if k' = k then Some v else None | r \<Rightarrow> r)"
  by (simp add: map_add_def split: option.split)

lemma move_to_end_wf: "wf_dict d \<Longrightarrow> wf_dict (move_to_end k d)"
  by (simp add: move_to_end_def wf_append_new split: option.split)

lemma move_to_end_get: "dict_get (move_to_end k d) k' = dict_get d k'"
  by (auto simp: move_to_end_def dict_get_append dict_get_pop map_add_def split: option.split)

lemma move_to_end_sum:
  "wf_dict d \<Longrightarrow> sum_list (map ((f :: 'v \<Rightarrow> int) \<circ> snd) (move_to_end k d)) = sum_list (map (f \<circ> snd) d)"
  by (simp add: move_to_end_def sum_pop split: option.split)

lemma move_to_end_length: "wf_dict d \<Longrightarrow> length (move_to_end k d) = length d"
proof (cases "dict_get d k")
  case (Some v)
  assume w: "wf_dict d"
  have "k \<in> fst ` set d" using Some by (force dest: map_of_SomeD)
  moreover from this have "0 < length d" by (cases d) auto
  ultimately show ?thesis using w by (simp add: move_to_end_def Some length_dict_pop)
qed (simp add: move_to_end_def)

lemma sum_set:
  "wf_dict d \<Longrightarrow> sum_list (map ((f :: 'v \<Rightarrow> int) \<circ> snd) (dict_set k v d)) =
     sum_list (map (f \<circ> snd) d) - (case dict_get d k of None \<Rightarrow> 0 | Some v \<Rightarrow> f v) + f v"
proof (induction d)
  case (Cons a d)
  obtain k' w where a: "a = (k', w)" by (cases a)
  have "k' \<notin> fst ` set d" "wf_dict d" using Cons.prems by (simp_all add: a wf_dict_Cons)
  then show ?case using Cons.IH by (cases "k' = k") (simp_all add: a)
qed simp

section \<open>Every operation keeps the accounts\<close>

lemma touch_entry_stats [simp]: "stats (touch_entry now k c) = stats c" "max_size (touch_entry now k c) = max_size c"
  "data_store (touch_entry now k c) = data_store c"
  by (simp_all add: touch_entry_def split: option.split)

lemma touch_size [simp]: "size_bytes (touch now m) = size_bytes m" "key (touch now m) = key m"
  by (simp_all add: touch_def)

lemma touch_entry_meta:
  assumes "wf_dict (metadata c)"
  shows "wf_dict (metadata (touch_entry now k c))"
    "held (touch_entry now k c) = held c"
    "length (metadata (touch_entry now k c)) = length (metadata c)"
    "dict_get (metadata (touch_entry now k c)) k' =
       (if k' = k then map_option (touch now) (dict_get (metadata c) k') else dict_get (metadata c) k')"
proof -
  have "held (touch_entry now k c) = held c \<and> length (metadata (touch_entry now k c)) = length (metadata c) \<and>
    wf_dict (metadata (touch_entry now k c)) \<and> dict_get (metadata (touch_entry now k c)) k' =
       (if k' = k then map_option (touch now) (dict_get (metadata c) k') else dict_get (metadata c) k')"
  proof (cases "dict_get (metadata c) k")
    case (Some m)
    then have "k \<in> fst ` set (metadata c)" by (force dest: map_of_SomeD)
    then show ?thesis using assms Some
      by (auto simp: touch_entry_def held_def move_to_end_sum sum_set move_to_end_length length_dict_set move_to_end_wf
          move_to_end_get dict_get_set)
  qed (use assms in \<open>simp add: touch_entry_def\<close>)
  then show "wf_dict (metadata (touch_entry now k c))"
    "held (touch_entry now k c) = held c"
    "length (metadata (touch_entry now k c)) = length (metadata c)"
    "dict_get (metadata (touch_entry now k c)) k' =
       (if k' = k then map_option (touch now) (dict_get (metadata c) k') else dict_get (metadata c) k')"
    by blast+
qed

lemma entry_ok_touch: "entry_ok np k (map_option (touch now) m) a = entry_ok np k m a"
  by (cases m; cases a) simp_all

lemma touch_entry_inv: "cache_inv np c \<Longrightarrow> cache_inv np (touch_entry now k c)"
  by (simp add: cache_inv_def touch_entry_meta leaked_def entry_ok_touch)

lemma held_stats [simp]: "held (c\<lparr>stats := s\<rparr>) = held c"
  by (simp add: held_def)

lemma stats_inv:
  "cache_inv np c \<Longrightarrow> total_entries s = total_entries (stats c) \<Longrightarrow> total_size_bytes s = total_size_bytes (stats c) \<Longrightarrow>
   cache_inv np (c\<lparr>stats := s\<rparr>)"
  by (simp add: cache_inv_def leaked_def)

lemma get_inv: "cache_inv np c \<Longrightarrow> cache_inv np (snd (get now k c))"
  by (simp add: get_def Let_def count_hit_def count_miss_def stats_inv touch_entry_inv split: option.split)

lemma get_leaked: "cache_inv np c \<Longrightarrow> leaked (snd (get now k c)) = leaked c \<and> max_size (snd (get now k c)) = max_size c"
  by (simp add: get_def Let_def count_hit_def count_miss_def leaked_def touch_entry_meta cache_invD(1) split: option.split)

lemma ticks_fold:
  "cache_inv np (fst w) \<Longrightarrow> cache_inv np (fst (fold (tick_round md5 clk sy) ts w)) \<and>
     leaked (fst (fold (tick_round md5 clk sy) ts w)) = leaked (fst w) \<and>
     max_size (fst (fold (tick_round md5 clk sy) ts w)) = max_size (fst w)"
proof (induction ts arbitrary: w)
  case (Cons t ts)
  let ?k = "generate_key md5 sy ''tick'' t"
  have f: "fst (tick_round md5 clk sy t w) = snd (get (clk t) ?k (fst w))"
    by (simp add: tick_round_def split: prod.split option.split)
  show ?case using Cons.IH [of "tick_round md5 clk sy t w"] get_inv [OF Cons.prems] get_leaked [OF Cons.prems] by (simp add: f)
qed simp

lemma snd_get_ticks: "snd (get_ticks np md5 clk sy a b c) = fst (fold (tick_round md5 clk sy) [a..b] (c, []))"
  by (simp add: get_ticks_def split: prod.split)

text \<open>One eviction frees what its entry holds and leaks nothing.\<close>

lemma evict_lru_step:
  assumes "cache_inv np c" "metadata c = (k, m) # d"
  shows "cache_inv np (evict_lru c)" "metadata (evict_lru c) = d" "leaked (evict_lru c) = leaked c"
    "max_size (evict_lru c) = max_size c" "total_size_bytes (stats (evict_lru c)) = total_size_bytes (stats c) - size_bytes m"
    "data_store (evict_lru c) = dict_pop k (data_store c)" "evictions (stats (evict_lru c)) = evictions (stats c) + 1"
proof -
  have w: "k \<notin> fst ` set d" "wf_dict d" using cache_invD(1) [OF assms(1)] by (simp_all add: assms(2) wf_dict_Cons)
  have e: "evict_lru c = c\<lparr>data_store := dict_pop k (data_store c), metadata := d,
      stats := (stats c)\<lparr>total_entries := total_entries (stats c) - 1, total_size_bytes := total_size_bytes (stats c) - size_bytes m,
        evictions := evictions (stats c) + 1\<rparr>\<rparr>"
    using dict_pop_absent [OF w(1)] by (simp add: evict_lru_def assms(2))
  have s: "0 \<le> size_bytes m" using assms by (intro entry_size_nonneg [of np c k]) simp_all
  have n: "dict_get d k = None" using w(1) by (simp add: map_of_eq_None_iff)
  have ok: "entry_ok np k' (dict_get d k') (dict_get (dict_pop k (data_store c)) k')" for k'
    using cache_invD(2) [OF assms(1), of k'] n by (auto simp: assms(2) dict_get_pop split: if_splits)
  show "leaked (evict_lru c) = leaked c" by (simp add: leaked_def held_def e assms(2))
  then show "cache_inv np (evict_lru c)" using cache_invD(3-5) [OF assms(1)] w(2) s ok
    by (simp add: cache_inv_def) (simp add: e assms(2))
qed (use dict_pop_absent assms cache_invD(1) [OF assms(1)] in \<open>auto simp: evict_lru_def wf_dict_Cons\<close>)

text \<open>The loop ends exactly when the bytes that no entry accounts for leave room.\<close>

lemma evict_loop_ends:
  assumes "cache_inv np c" "leaked c + n \<le> max_size c"
  shows "\<exists>c1. evict_loop n c = Some c1"
  using assms
proof (induction "metadata c" arbitrary: c)
  case Nil
  then have "total_size_bytes (stats c) + n \<le> max_size c" by (simp add: leaked_def held_def)
  then show ?case by (simp add: evict_loop.simps)
next
  case (Cons e d)
  obtain k m where e: "metadata c = (k, m) # d" using Cons.hyps(2) by (metis prod.exhaust)
  note s = evict_lru_step [OF Cons.prems(1) e]
  have "\<exists>c1. evict_loop n (evict_lru c) = Some c1" using Cons.prems(2) s by (intro Cons.hyps(1)) simp_all
  then show ?case by (subst evict_loop.simps) simp
qed

text \<open>What it leaves: the fewest evictions from the front that make room.\<close>

definition freed :: "nat \<Rightarrow> ('a, 'b) cache_scheme \<Rightarrow> int" where
  "freed j c = sum_list (map (size_bytes \<circ> snd) (take j (metadata c)))"

definition evicted_to :: "'a numpy \<Rightarrow> int \<Rightarrow> nat \<Rightarrow> ('a, 'b) cache_scheme \<Rightarrow> ('a, 'b) cache_scheme \<Rightarrow> bool" where
  "evicted_to np n j c c1 \<longleftrightarrow>
     cache_inv np c1 \<and> leaked c1 = leaked c \<and> max_size c1 = max_size c \<and> metadata c1 = drop j (metadata c) \<and>
     total_size_bytes (stats c1) = total_size_bytes (stats c) - freed j c \<and> total_size_bytes (stats c1) + n \<le> max_size c \<and>
     (\<forall>i < j. max_size c < total_size_bytes (stats c) - freed i c + n) \<and>
     (\<forall>k \<in> fst ` set (drop j (metadata c)). dict_get (data_store c1) k = dict_get (data_store c) k)"

lemma evict_loop_result:
  assumes "evict_loop n c = Some c1" "cache_inv np c"
  shows "\<exists>j. evicted_to np n j c c1"
proof -
  have "cache_inv np c \<longrightarrow> (\<exists>j. evicted_to np n j c c1)"
  proof (rule evict_loop.raw_induct [where P = "\<lambda>n c c1. cache_inv np c \<longrightarrow> (\<exists>j. evicted_to np n j c c1)", OF _ assms(1)])
    fix loop :: "int \<Rightarrow> ('a, 'b) cache_scheme \<Rightarrow> ('a, 'b) cache_scheme option" and n c c1
    assume ih: "\<And>n c c1. loop n c = Some c1 \<Longrightarrow> cache_inv np c \<longrightarrow> (\<exists>j. evicted_to np n j c c1)"
      and eq: "(if total_size_bytes (stats c) + n \<le> max_size c then Some c else loop n (evict_lru c)) = Some c1"
    show "cache_inv np c \<longrightarrow> (\<exists>j. evicted_to np n j c c1)"
    proof
      assume inv: "cache_inv np c"
      show "\<exists>j. evicted_to np n j c c1"
      proof (cases "total_size_bytes (stats c) + n \<le> max_size c")
        case True
        with eq inv have "evicted_to np n 0 c c1" by (auto simp: evicted_to_def freed_def)
        then show ?thesis ..
      next
        case False
        then have loop: "loop n (evict_lru c) = Some c1" using eq by simp
        show ?thesis
        proof (cases "metadata c")
          case Nil
          then have "evict_lru c = c" by (simp add: evict_lru_def)
          then obtain j where "evicted_to np n j c c1" using ih [OF loop] inv by auto
          then show ?thesis ..
        next
          case (Cons e d)
          obtain k m where e: "metadata c = (k, m) # d" using Cons by (metis prod.exhaust)
          note s = evict_lru_step [OF inv e]
          from ih [OF loop] s(1) obtain j where j: "evicted_to np n j (evict_lru c) c1" by blast
          have f: "freed (Suc i) c = size_bytes m + freed i (evict_lru c)" for i by (simp add: freed_def e s(2))
          have "\<forall>i < Suc j. max_size c < total_size_bytes (stats c) - freed i c + n"
          proof (intro allI impI)
            fix i assume i: "i < Suc j"
            show "max_size c < total_size_bytes (stats c) - freed i c + n"
            proof (cases i)
              case 0 then show ?thesis using False by (simp add: freed_def)
            next
              case (Suc i') then show ?thesis using j i by (auto simp: evicted_to_def f s)
            qed
          qed
          moreover have "\<forall>k' \<in> fst ` set (drop j d). dict_get (data_store c1) k' = dict_get (data_store c) k'"
          proof
            fix k' assume k': "k' \<in> fst ` set (drop j d)"
            then have "k' \<noteq> k" using cache_invD(1) [OF inv] by (auto simp: e wf_dict_Cons image_iff dest: in_set_dropD)
            then show "dict_get (data_store c1) k' = dict_get (data_store c) k'"
              using j k' by (auto simp: evicted_to_def s dict_get_pop)
          qed
          ultimately have "evicted_to np n (Suc j) c c1" using j by (simp add: evicted_to_def f s e)
          then show ?thesis ..
        qed
      qed
    qed
  qed
  with assms(2) show ?thesis by blast
qed

text \<open>Storing appends the entry as the most recently used one, and forgets the bytes of the entry it replaces.\<close>

lemma store_meta: "dict_set k m (move_to_end k d) = dict_pop k d @ [(k, m)]"
proof (cases "dict_get d k")
  case None
  then have "k \<notin> fst ` set d" by (simp add: map_of_eq_None_iff)
  then show ?thesis using None by (simp add: move_to_end_def dict_set_new dict_pop_absent)
qed (simp add: move_to_end_def dict_set_last)

lemma store_parts:
  "\<exists>m. metadata (store now k sy ty n a c) = dict_pop k (metadata c) @ [(k, m)] \<and> size_bytes m = n \<and> key m = k"
  "data_store (store now k sy ty n a c) = dict_set k a (data_store c)"
  "max_size (store now k sy ty n a c) = max_size c"
  "total_size_bytes (stats (store now k sy ty n a c)) = total_size_bytes (stats c) + n"
  "total_entries (stats (store now k sy ty n a c)) = int (length (metadata (store now k sy ty n a c)))"
  by (simp_all add: store_def Let_def store_meta)

lemma store_leaked:
  assumes "cache_inv np c"
  shows "leaked (store now k sy ty n a c) = leaked c + (case dict_get (metadata c) k of None \<Rightarrow> 0 | Some m \<Rightarrow> size_bytes m)"
proof -
  obtain m where m: "metadata (store now k sy ty n a c) = dict_pop k (metadata c) @ [(k, m)]" "size_bytes m = n"
    using store_parts(1) [of now k sy ty n a c] by blast
  then have "held (store now k sy ty n a c) = held c - (case dict_get (metadata c) k of None \<Rightarrow> 0 | Some m \<Rightarrow> size_bytes m) + n"
    by (simp add: held_def sum_pop [OF cache_invD(1) [OF assms]])
  then show ?thesis by (simp add: leaked_def store_parts(4))
qed

lemma store_inv:
  assumes "cache_inv np c" "total_size_bytes (stats c) + n \<le> max_size c" "n = int (nbytes np a)"
  shows "cache_inv np (store now k sy ty n a c)" "leaked c \<le> leaked (store now k sy ty n a c)"
proof -
  obtain m where m: "metadata (store now k sy ty n a c) = dict_pop k (metadata c) @ [(k, m)]" "size_bytes m = n" "key m = k"
    using store_parts(1) [of now k sy ty n a c] by blast
  note w = cache_invD(1) [OF assms(1)]
  have "0 \<le> (case dict_get (metadata c) k of None \<Rightarrow> 0 | Some m \<Rightarrow> size_bytes m)"
    using cache_invD(2) [OF assms(1), of k] by (cases "dict_get (metadata c) k") (auto elim: entry_ok_SomeE)
  then show l: "leaked c \<le> leaked (store now k sy ty n a c)" by (simp add: store_leaked [OF assms(1)])
  have "entry_ok np k' (dict_get (metadata (store now k sy ty n a c)) k') (dict_get (data_store (store now k sy ty n a c)) k')" for k'
    using cache_invD(2) [OF assms(1), of k']
    by (cases "k' = k"; cases "dict_get (metadata c) k'")
      (simp_all add: m assms(3) [symmetric] store_parts(2) map_add_def dict_get_pop dict_get_set)
  then show "cache_inv np (store now k sy ty n a c)"
    using cache_invD(4) [OF assms(1)] l assms(2) w by (simp add: cache_inv_def store_parts m(1) wf_append_new)
qed

lemma put_result:
  assumes "put np md5 now sy ty ts d c = Some (r, c')" "cache_inv np c"
  obtains e where "to_array np d = Inl e" "r = Inl e" "c' = c"
  | a j c1 where "to_array np d = Inr a" "r = Inr (generate_key md5 sy ty ts)" "evicted_to np (int (nbytes np a)) j c c1"
      "evict_loop (int (nbytes np a)) c = Some c1"
      "c' = store now (generate_key md5 sy ty ts) sy ty (int (nbytes np a)) a c1"
proof (cases "to_array np d")
  case (Inl e)
  with assms(1) that(1) show ?thesis by (simp add: put_def)
next
  case (Inr a)
  then obtain c1 where "evict_loop (int (nbytes np a)) c = Some c1"
    using assms(1) by (auto simp: put_def Let_def split: option.splits)
  moreover from evict_loop_result [OF this assms(2)] obtain j where "evicted_to np (int (nbytes np a)) j c c1" by blast
  ultimately show ?thesis using that(2) [OF Inr] assms(1) Inr by (simp add: put_def Let_def)
qed

lemma put_inv:
  assumes "put np md5 now sy ty ts d c = Some (r, c')" "cache_inv np c"
  shows "cache_inv np c' \<and> leaked c \<le> leaked c' \<and> max_size c' = max_size c"
  using assms
proof (cases rule: put_result)
  case (2 a j c1)
  then show ?thesis
    using store_inv [of np c1 "int (nbytes np a)" a now "generate_key md5 sy ty ts" sy ty] by (simp add: evicted_to_def store_parts)
qed (use assms(2) in simp)

section \<open>Runs\<close>

datatype 'a cache_op =
    Put pyfloat string string int "'a payload"
  | Get pyfloat string
  | Get_ticks "int \<Rightarrow> pyfloat" string int int
  | Clear

text \<open>A \<open>put\<close> that does not return keeps the lock: every later call waits for it.\<close>

fun cache_step :: "'a numpy \<Rightarrow> (string \<Rightarrow> string) \<Rightarrow> 'a cache_op \<Rightarrow> 'a cache option \<Rightarrow> 'a cache option" where
  "cache_step np md5 x None = None"
| "cache_step np md5 (Put now sy ty ts d) (Some c) = map_option snd (put np md5 now sy ty ts d c)"
| "cache_step np md5 (Get now k) (Some c) = Some (snd (get now k c))"
| "cache_step np md5 (Get_ticks clk sy a b) (Some c) = Some (snd (get_ticks np md5 clk sy a b c))"
| "cache_step np md5 Clear (Some c) = Some (clear c)"

definition cache_ok :: "'a numpy \<Rightarrow> int \<Rightarrow> 'a cache option \<Rightarrow> bool" where
  "cache_ok np limit s \<longleftrightarrow> (\<forall>c. s = Some c \<longrightarrow> cache_inv np c \<and> max_size c = limit)"

lemma cache_clear_inv: "0 \<le> max_size c \<Longrightarrow> cache_inv np (clear c)"
  by (simp add: clear_def cache_inv_def leaked_def held_def no_stats_def)

lemma max_size_nonneg: "cache_inv np c \<Longrightarrow> 0 \<le> max_size c"
  using cache_invD(4,5) [of np c] held_nonneg [of np c] by (simp add: leaked_def)

lemma cache_step_ok: "cache_ok np limit s \<Longrightarrow> cache_ok np limit (cache_step np md5 x s)"
proof (cases s)
  case (Some c)
  assume "cache_ok np limit s"
  then have inv: "cache_inv np c" "max_size c = limit" by (simp_all add: cache_ok_def Some)
  show ?thesis
  proof (cases x)
    case (Put now sy ty ts d)
    then show ?thesis using inv by (auto simp: cache_ok_def Some dest: put_inv)
  next
    case (Get_ticks clk sy a b)
    then show ?thesis using inv ticks_fold [of np "(c, [])"] by (simp add: cache_ok_def Some snd_get_ticks)
  next
    case (Get now k)
    then show ?thesis using inv get_inv [OF inv(1)] get_leaked [OF inv(1)] by (simp add: cache_ok_def Some)
  next
    case Clear
    then show ?thesis using inv cache_clear_inv [OF max_size_nonneg [OF inv(1)]] by (simp add: cache_ok_def Some) (simp add: clear_def)
  qed
qed (simp add: cache_ok_def)

interpretation cache: op_machine "cache_step np md5" "cache_ok np limit" for np md5 limit
  by unfold_locales (rule cache_step_ok)

lemma evict_loop_iff:
  assumes "cache_inv np c"
  shows "evict_loop n c \<noteq> None \<longleftrightarrow> leaked c + n \<le> max_size c"
proof
  assume "evict_loop n c \<noteq> None"
  then obtain c1 where "evict_loop n c = Some c1" by auto
  from evict_loop_result [OF this assms] obtain j where j: "evicted_to np n j c c1" by blast
  then have "0 \<le> held c1" using held_nonneg [of np c1] by (simp add: evicted_to_def)
  with j show "leaked c + n \<le> max_size c" by (simp add: evicted_to_def leaked_def)
qed (use evict_loop_ends [OF assms] in auto)

section \<open>Properties\<close>

text \<open>C18: \<open>put\<close> of an array returns exactly when the bytes that the total counts but no entry holds, plus the array, fit into the maximum
  size. Otherwise, as for an array that is larger than the maximum, the eviction loop goes on for ever on an empty cache.\<close>
theorem put_returns_iff:
  assumes "cache_inv np c" "to_array np d = Inr a"
  shows "put np md5 now sy ty ts d c \<noteq> None \<longleftrightarrow> leaked c + int (nbytes np a) \<le> max_size c"
  using evict_loop_iff [OF assms(1), of "int (nbytes np a)"] by (auto simp: put_def assms(2) Let_def split: option.split)

text \<open>A \<open>put\<close> that returns has evicted the least recently used entries, as few of them as make room, has stored the array under its
  key as the most recently used entry, and has kept the other arrays.\<close>
theorem put_evicts_oldest:
  assumes "cache_inv np c" "to_array np d = Inr a" "put np md5 now sy ty ts d c = Some (r, c')" "k = generate_key md5 sy ty ts"
  shows "r = Inr k \<and> (\<exists>j. let kept = drop j (metadata c) in
      (\<forall>i < j. max_size c < total_size_bytes (stats c) - freed i c + int (nbytes np a)) \<and>
      total_size_bytes (stats c') = total_size_bytes (stats c) - freed j c + int (nbytes np a) \<and>
      total_size_bytes (stats c') \<le> max_size c \<and>
      dict_keys (metadata c') = filter (\<lambda>k'. k' \<noteq> k) (dict_keys kept) @ [k] \<and>
      (\<forall>k'. dict_get (data_store c') k' =
         (if k' = k then Some a else if k' \<in> set (dict_keys kept) then dict_get (data_store c) k' else None)))"
  using assms(3,1)
proof (cases rule: put_result)
  case (2 a' j c1)
  then have a: "a' = a" using assms(2) by simp
  note ev = 2(3) [unfolded a evicted_to_def]
  obtain m where m: "metadata c' = dict_pop k (metadata c1) @ [(k, m)]"
    using store_parts(1) [of now k sy ty "int (nbytes np a)" a c1] by (auto simp: 2(5) a assms(4))
  have keys: "dict_keys (dict_pop k d) = filter (\<lambda>k'. k' \<noteq> k) (dict_keys d)" for d :: "(string, CacheMetadata) dict"
    by (simp add: delete_keys removeAll_filter_not_eq eq_commute)
  have "dict_get (data_store c1) k' = (if k' \<in> set (dict_keys (drop j (metadata c))) then dict_get (data_store c) k' else None)" for k'
  proof (cases "k' \<in> fst ` set (drop j (metadata c))")
    case True
    then show ?thesis using ev by auto
  next
    case False
    then have "dict_get (metadata c1) k' = None" using ev by (simp add: map_of_eq_None_iff)
    moreover have "cache_inv np c1" using ev by simp
    ultimately have "entry_ok np k' None (dict_get (data_store c1) k')" using cache_invD(2) by metis
    then show ?thesis using False by (cases "dict_get (data_store c1) k'") simp_all
  qed
  then show ?thesis using 2(2) ev m
    by (simp add: assms(4) [symmetric]) (intro exI [of _ j], simp add: Let_def keys store_parts 2(5) a assms(4) [symmetric] dict_get_set)
qed (simp add: assms(2))

text \<open>C35: In every run from an empty cache, as long as each call returns, the counted bytes and the bytes of the stored arrays stay within the
  maximum size, metadata and arrays have the same keys, each entry has the size of its array, and \<open>total_entries\<close> is their number.\<close>
theorem cache_stays_within_limit:
  assumes "0 < limit" "fold (cache_step np md5) xs (Some (cache_init (Some limit))) = Some c"
  shows "cache_inv np c \<and> max_size c = limit \<and> held c \<le> limit"
proof -
  have "cache_ok np limit (Some (cache_init (Some limit)))"
    using assms(1) by (simp add: cache_ok_def cache_init_def cache_inv_def leaked_def held_def no_stats_def)
  from cache.run_inv [OF this] assms(2) have "cache_ok np limit (Some c)" by metis
  then show ?thesis using cache_invD(4,5) [of np c] by (simp add: cache_ok_def leaked_def)
qed

lemma step_leaked:
  assumes "cache_inv np c" "x \<noteq> Clear" "cache_step np md5 x (Some c) = Some c'"
  shows "cache_inv np c' \<and> leaked c \<le> leaked c' \<and> max_size c' = max_size c"
proof (cases x)
  case (Put now sy ty ts d)
  then show ?thesis using assms by (auto dest: put_inv)
next
  case (Get_ticks clk sy a b)
  then show ?thesis using assms ticks_fold [of np "(c, [])" md5 clk sy "[a..b]"] by (auto simp: snd_get_ticks)
qed (use assms get_inv [OF assms(1)] get_leaked [OF assms(1)] in auto)

lemma fold_stuck: "fold (cache_step np md5) xs None = None"
  by (induction xs) simp_all

lemma run_leaked:
  assumes "cache_inv np c" "Clear \<notin> set xs" "fold (cache_step np md5) xs (Some c) = Some c'"
  shows "cache_inv np c' \<and> leaked c \<le> leaked c' \<and> max_size c' = max_size c"
  using assms
proof (induction xs arbitrary: c)
  case (Cons x xs)
  obtain c1 where c1: "cache_step np md5 x (Some c) = Some c1"
    using Cons.prems(3) by (cases "cache_step np md5 x (Some c)") (auto simp: fold_stuck)
  have s: "cache_inv np c1 \<and> leaked c \<le> leaked c1 \<and> max_size c1 = max_size c"
    using Cons.prems(1,2) c1 by (intro step_leaked [of np c x md5]) auto
  then show ?case using Cons.IH [of c1] Cons.prems c1 by auto
qed simp

text \<open>Overwriting a key leaks: the bytes of the replaced array stay in the total for good. No call but \<open>clear\<close> ever brings them back, so
  once a key was overwritten an array that fits beside nothing but the leaked bytes can never be stored again: its \<open>put\<close> does not return
  in any later state.\<close>
theorem overwriting_leaks:
  assumes "cache_inv np c" "dict_get (metadata c) (generate_key md5 sy ty ts) = Some m" "to_array np d = Inr a"
    "total_size_bytes (stats c) + int (nbytes np a) \<le> max_size c" "put np md5 now sy ty ts d c = Some (r, c1)"
    "Clear \<notin> set xs" "fold (cache_step np md5) xs (Some c1) = Some c2"
    "to_array np d' = Inr a'" "max_size c < leaked c + size_bytes m + int (nbytes np a')"
  shows "leaked c1 = leaked c + size_bytes m \<and> put np md5 now' sy' ty' ts' d' c2 = None"
proof -
  have "evict_loop (int (nbytes np a)) c = Some c" using assms(4) by (simp add: evict_loop.simps)
  then have c1: "c1 = store now (generate_key md5 sy ty ts) sy ty (int (nbytes np a)) a c"
    using assms(5) by (simp add: put_def assms(3) Let_def)
  then have l: "leaked c1 = leaked c + size_bytes m" by (simp add: store_leaked [OF assms(1)] assms(2))
  have "cache_inv np c1" "max_size c1 = max_size c" using put_inv [OF assms(5,1)] by simp_all
  with run_leaked [OF _ assms(6,7)] have c2: "cache_inv np c2" "leaked c1 \<le> leaked c2" "max_size c2 = max_size c" by auto
  then have "evict_loop (int (nbytes np a')) c2 = None" using evict_loop_iff [OF c2(1), of "int (nbytes np a')"] assms(9) l by auto
  then show ?thesis using l by (simp add: put_def assms(8) Let_def)
qed

section \<open>Witnesses\<close>

text \<open>Arrays as lists with one byte per element; a maximum of ten bytes.\<close>

definition demo_np :: "int list numpy" where
  "demo_np = \<lparr>nbytes = length, float_array = map int_of_float, byte_array = map uint, concatenate = (\<lambda>xs. Inr (concat xs))\<rparr>"

definition demo_entry :: "string \<Rightarrow> int \<Rightarrow> CacheMetadata" where
  "demo_entry k n = \<lparr>key = k, entry_type = TICK, size_bytes = n, created_at = 1, last_accessed = 1, access_count = 0, symbol = ''BTC''\<rparr>"

definition demo_cache :: "int list cache" where
  "demo_cache =
     \<lparr>max_size = 10, metadata = [(''BTC:tick:1'', demo_entry ''BTC:tick:1'' 4), (''BTC:tick:2'', demo_entry ''BTC:tick:2'' 2)],
      data_store = [(''BTC:tick:1'', [1, 2, 3, 4]), (''BTC:tick:2'', [5, 6])],
      stats = \<lparr>total_entries = 2, total_size_bytes = 6, hits = 0, misses = 0, evictions = 0\<rparr>\<rparr>"

lemma demo_cache_inv: "cache_inv demo_np demo_cache"
  by (simp add: cache_inv_def demo_cache_def demo_np_def demo_entry_def wf_dict_def leaked_def held_def)

lemma demo_keys [simp]: "generate_key id ''BTC'' ''tick'' 1 = ''BTC:tick:1''" "generate_key id ''BTC'' ''tick'' 2 = ''BTC:tick:2''"
  "generate_key id ''BTC'' ''tick'' 3 = ''BTC:tick:3''"
  by code_simp+

lemma demo_facts [simp]: "leaked demo_cache = 0" "max_size demo_cache = 10" "nbytes demo_np a = length a" "to_array np (Array b) = Inr b"
  by (simp_all add: leaked_def held_def demo_cache_def demo_np_def demo_entry_def to_array_def)

theorem put_returns_iff_witness:
  "put demo_np id 2 ''BTC'' ''tick'' 3 (Array [0, 0, 0, 0, 0, 0, 0, 0, 0, 0, 0]) demo_cache = None"
  (is "?p = None")
proof (rule ccontr)
  assume "?p \<noteq> None"
  then show False
    using put_returns_iff [OF demo_cache_inv, of "Array [0, 0, 0, 0, 0, 0, 0, 0, 0, 0, 0]" _ id 2 "''BTC''" "''tick''" 3] by simp
qed

lemma demo_put:
  "put demo_np id 2 ''BTC'' ''tick'' 3 (Array [7, 7, 7, 7, 7]) demo_cache =
     Some (Inr ''BTC:tick:3'', store 2 ''BTC:tick:3'' ''BTC'' ''tick'' 5 [7, 7, 7, 7, 7] (evict_lru demo_cache))"
proof -
  have "evict_loop 5 demo_cache = Some (evict_lru demo_cache)"
    by (subst evict_loop.simps, subst evict_loop.simps) (simp add: demo_cache_def demo_entry_def evict_lru_def)
  then show ?thesis by (simp add: put_def Let_def)
qed

theorem put_evicts_oldest_witness:
  "\<exists>c'. put demo_np id 2 ''BTC'' ''tick'' 3 (Array [7, 7, 7, 7, 7]) demo_cache = Some (Inr ''BTC:tick:3'', c') \<and>
     dict_get (data_store c') ''BTC:tick:3'' = Some [7, 7, 7, 7, 7]"
  using put_evicts_oldest [OF demo_cache_inv _ demo_put, of "[7, 7, 7, 7, 7]" "''BTC:tick:3''"] demo_put
  by (auto simp: to_array_def Let_def)

theorem cache_stays_within_limit_witness:
  "held (cache_init (Some 10) :: int list cache) \<le> 10"
  using cache_stays_within_limit [of 10 demo_np id "[]" "cache_init (Some 10)"] by simp

theorem overwriting_leaks_witness:
  "put demo_np id 3 ''BTC'' ''tick'' 3 (Array [0, 0, 0, 0, 0, 0, 0])
     (store 2 ''BTC:tick:1'' ''BTC'' ''tick'' 4 [9, 9, 9, 9] demo_cache) = None"
proof -
  have "put demo_np id 2 ''BTC'' ''tick'' 1 (Array [9, 9, 9, 9]) demo_cache =
      Some (Inr ''BTC:tick:1'', store 2 ''BTC:tick:1'' ''BTC'' ''tick'' 4 [9, 9, 9, 9] demo_cache)"
    by (simp add: put_def Let_def) (subst evict_loop.simps, simp add: demo_cache_def)
  from overwriting_leaks [OF demo_cache_inv _ _ _ this, of "demo_entry ''BTC:tick:1'' 4" "[9, 9, 9, 9]" "[]" _ "Array [0, 0, 0, 0, 0, 0, 0]" "[0, 0, 0, 0, 0, 0, 0]"]
  show ?thesis by simp (simp add: demo_cache_def demo_entry_def)
qed

end
