(* ===== verification/ThresholdMonitor.thy ===== *)
theory ThresholdMonitor
  imports Prelude
begin

text \<open>
  \<open>alerts/threshold_monitor.py\<close>: sliding windows and the monitor that turns threshold breaches into alerts.

  The two infinities a window starts its minimum and maximum with are None. \<open>statistics.stdev\<close> and the format \<open>:.4f\<close> are the
  functions of a \<open>textlib\<close>: alerts only carry what they return. Callbacks are names; what they are called with is kept in \<open>calls\<close>. The
  monitoring thread is one round per step; \<open>clk\<close> gives the clock a check of a threshold reads.
\<close>

section \<open>Data\<close>

datatype AlertSeverity = INFO | WARNING | CRITICAL | EMERGENCY

datatype ThresholdType = MAX_VALUE | MIN_VALUE | DELTA_CHANGE | RATE_OF_CHANGE | DRAWDOWN | LATENCY_SPIKE

fun type_name :: "ThresholdType \<Rightarrow> string" where
  "type_name MAX_VALUE = ''MAX_VALUE''" | "type_name MIN_VALUE = ''MIN_VALUE''" | "type_name DELTA_CHANGE = ''DELTA_CHANGE''"
| "type_name RATE_OF_CHANGE = ''RATE_OF_CHANGE''" | "type_name DRAWDOWN = ''DRAWDOWN''" | "type_name LATENCY_SPIKE = ''LATENCY_SPIKE''"

record ThresholdConfig =
  name :: string
  threshold_type :: ThresholdType
  warning_threshold :: pyfloat
  critical_threshold :: pyfloat
  emergency_threshold :: pyfloat
  window_size :: int
  cooldown_seconds :: pyfloat
  enabled :: bool

definition new_config :: "string \<Rightarrow> ThresholdType \<Rightarrow> pyfloat \<Rightarrow> pyfloat \<Rightarrow> pyfloat option \<Rightarrow> int \<Rightarrow> pyfloat \<Rightarrow> bool \<Rightarrow> ThresholdConfig" where
  "new_config nm ty warn crit emerg sz cool en =
     \<lparr>name = nm, threshold_type = ty, warning_threshold = warn, critical_threshold = crit,
      emergency_threshold = (case emerg of None \<Rightarrow> fmul crit (3 / 2) | Some e \<Rightarrow> e), window_size = sz, cooldown_seconds = cool, enabled = en\<rparr>"

record metadata =
  m_type :: string
  m_size :: int
  m_mean :: "pyfloat option"
  m_std :: "pyfloat option"

record Alert =
  timestamp :: pyfloat
  a_name :: string
  severity :: AlertSeverity
  current_value :: pyfloat
  threshold_value :: pyfloat
  message :: string
  alert_metadata :: metadata

record textlib =
  stdev :: "pyfloat list \<Rightarrow> pyfloat"
  fmt4 :: "pyfloat \<Rightarrow> string"

section \<open>Sliding windows\<close>

record SlidingWindow =
  max_size :: int
  vals :: "pyfloat list"
  timestamps :: "pyfloat list"
  w_sum :: pyfloat
  w_min :: "pyfloat option"
  w_max :: "pyfloat option"

text \<open>\<open>deque(maxlen=n)\<close> refuses a negative length; an append drops the oldest element of a full deque.\<close>

definition window_init :: "int \<Rightarrow> exn + SlidingWindow" where
  "window_init n =
     (if n < 0 then Inl ValueError
      else Inr \<lparr>max_size = n, vals = [], timestamps = [], w_sum = 0, w_min = None, w_max = None\<rparr>)"

definition push :: "int \<Rightarrow> 'a \<Rightarrow> 'a list \<Rightarrow> 'a list" where
  "push n x xs = (let ys = xs @ [x] in drop (length ys - nat n) ys)"

definition list_min :: "pyfloat list \<Rightarrow> pyfloat" where "list_min xs = foldl min (hd xs) (tl xs)"
definition list_max :: "pyfloat list \<Rightarrow> pyfloat" where "list_max xs = foldl max (hd xs) (tl xs)"

definition window_add :: "pyfloat \<Rightarrow> pyfloat \<Rightarrow> SlidingWindow \<Rightarrow> exn + SlidingWindow" where
  "window_add v now w =
     (if int (length (vals w)) = max_size w \<and> vals w = [] then Inl IndexError
      else
        (let s = (if int (length (vals w)) = max_size w then fsub (w_sum w) (hd (vals w)) else w_sum w);
             vs = push (max_size w) v (vals w)
         in Inr (w\<lparr>vals := vs, timestamps := push (max_size w) now (timestamps w), w_sum := fadd s v,
                   w_min := Some (list_min vs), w_max := Some (list_max vs)\<rparr>)))"

definition get_mean :: "SlidingWindow \<Rightarrow> pyfloat option" where
  "get_mean w = (if vals w = [] then None else Some (fdiv (w_sum w) (of_nat (length (vals w)))))"

definition get_std :: "textlib \<Rightarrow> SlidingWindow \<Rightarrow> pyfloat option" where
  "get_std tx w = (if length (vals w) < 2 then None else Some (stdev tx (vals w)))"

text \<open>A negative index counts from the end; beyond it is an \<open>IndexError\<close>.\<close>

definition get_percentile :: "pyfloat \<Rightarrow> SlidingWindow \<Rightarrow> exn + pyfloat option" where
  "get_percentile p w =
     (if vals w = [] then Inr None
      else
        (let n = int (length (vals w)); i = min (int_of_float (fmul (of_int n) p)) (n - 1); j = (if i < 0 then i + n else i)
         in if j < 0 then Inl IndexError else Inr (Some (sort (vals w) ! nat j))))"

definition get_p99 :: "SlidingWindow \<Rightarrow> exn + pyfloat option" where "get_p99 = get_percentile (fl (99 / 100))"
definition get_p95 :: "SlidingWindow \<Rightarrow> exn + pyfloat option" where "get_p95 = get_percentile (fl (95 / 100))"

definition get_min :: "SlidingWindow \<Rightarrow> pyfloat option" where "get_min w = (if vals w = [] then None else w_min w)"
definition get_max :: "SlidingWindow \<Rightarrow> pyfloat option" where "get_max w = (if vals w = [] then None else w_max w)"

text \<open>The loop carries the peak and the deepest drawdown so far.\<close>

fun drawdown_loop :: "pyfloat \<Rightarrow> pyfloat \<Rightarrow> pyfloat list \<Rightarrow> pyfloat" where
  "drawdown_loop peak worst [] = worst"
| "drawdown_loop peak worst (v # vs) =
     (if peak < v then drawdown_loop v worst vs
      else if 0 < peak then drawdown_loop peak (max worst (fdiv (fsub peak v) peak)) vs
      else drawdown_loop peak worst vs)"

definition get_drawdown :: "SlidingWindow \<Rightarrow> pyfloat" where
  "get_drawdown w = (if length (vals w) < 2 then 0 else drawdown_loop (hd (vals w)) 0 (vals w))"

definition get_rate_of_change :: "int \<Rightarrow> SlidingWindow \<Rightarrow> exn + pyfloat option" where
  "get_rate_of_change n w =
     (if int (length (vals w)) < n then Inr None
      else
        (let recent = slice_from (- n) (vals w)
         in if recent = [] then Inl IndexError
            else if hd recent = 0 then Inr None
            else Inr (Some (fdiv (fsub (last recent) (hd recent)) (hd recent)))))"

definition window_length :: "SlidingWindow \<Rightarrow> int" where "window_length w = int (length (vals w))"

definition window_clear :: "SlidingWindow \<Rightarrow> SlidingWindow" where
  "window_clear w = w\<lparr>vals := [], timestamps := [], w_sum := 0, w_min := None, w_max := None\<rparr>"

section \<open>The monitor\<close>

record monitor =
  configs :: "(string, ThresholdConfig) dict"
  windows :: "(string, SlidingWindow) dict"
  last_alert_times :: "(string, (AlertSeverity, pyfloat) dict) dict"
  current_values :: "(string, pyfloat) dict"
  alert_callbacks :: "string list"
  alert_history :: "Alert list"
  running :: bool
  calls :: "(string \<times> Alert) list"

definition monitor_init :: monitor where
  "monitor_init =
     \<lparr>configs = [], windows = [], last_alert_times = [], current_values = [], alert_callbacks = [], alert_history = [], running = True,
      calls = []\<rparr>"

definition add_threshold :: "ThresholdConfig \<Rightarrow> monitor \<Rightarrow> (exn + unit) \<times> monitor" where
  "add_threshold c m =
     (let m1 = m\<lparr>configs := dict_set (name c) c (configs m)\<rparr>
      in case window_init (window_size c) of
           Inl e \<Rightarrow> (Inl e, m1)
         | Inr w \<Rightarrow>
             (Inr (), m1\<lparr>windows := dict_set (name c) w (windows m), last_alert_times := dict_set (name c) [] (last_alert_times m),
                         current_values := dict_set (name c) 0 (current_values m)\<rparr>))"

definition remove_threshold :: "string \<Rightarrow> monitor \<Rightarrow> monitor" where
  "remove_threshold nm m =
     m\<lparr>configs := dict_pop nm (configs m), windows := dict_pop nm (windows m), last_alert_times := dict_pop nm (last_alert_times m),
       current_values := dict_pop nm (current_values m)\<rparr>"

definition update_value :: "pyfloat \<Rightarrow> string \<Rightarrow> pyfloat \<Rightarrow> monitor \<Rightarrow> (exn + unit) \<times> monitor" where
  "update_value now nm v m =
     (case dict_get (configs m) nm of
        None \<Rightarrow> (Inr (), m)
      | Some c \<Rightarrow>
          if \<not> enabled c then (Inr (), m)
          else
            (let m1 = m\<lparr>current_values := dict_set nm v (current_values m)\<rparr>
             in case dict_get (windows m) nm of
                  None \<Rightarrow> (Inl KeyError, m1)
                | Some w \<Rightarrow>
                    (case window_add v now w of
                       Inl e \<Rightarrow> (Inl e, m1)
                     | Inr w1 \<Rightarrow> (Inr (), m1\<lparr>windows := dict_set nm w1 (windows m)\<rparr>))))"

definition add_alert_callback :: "string \<Rightarrow> monitor \<Rightarrow> monitor" where
  "add_alert_callback cb m = m\<lparr>alert_callbacks := alert_callbacks m @ [cb]\<rparr>"

definition remove_alert_callback :: "string \<Rightarrow> monitor \<Rightarrow> monitor" where
  "remove_alert_callback cb m = m\<lparr>alert_callbacks := remove1 cb (alert_callbacks m)\<rparr>"

text \<open>The value a threshold looks at; no type but the five named here has one.\<close>

definition check_value :: "ThresholdType \<Rightarrow> pyfloat \<Rightarrow> SlidingWindow \<Rightarrow> exn + pyfloat option" where
  "check_value ty v w =
     (case ty of
        MAX_VALUE \<Rightarrow> Inr (Some v) | MIN_VALUE \<Rightarrow> Inr (Some v) | DRAWDOWN \<Rightarrow> Inr (Some (get_drawdown w))
      | LATENCY_SPIKE \<Rightarrow> get_p99 w | RATE_OF_CHANGE \<Rightarrow> get_rate_of_change 10 w | DELTA_CHANGE \<Rightarrow> Inr None)"

fun threshold_name :: "ThresholdType \<Rightarrow> string" where
  "threshold_name MAX_VALUE = ''max''" | "threshold_name MIN_VALUE = ''min''" | "threshold_name DRAWDOWN = ''drawdown''"
| "threshold_name LATENCY_SPIKE = ''p99_latency''" | "threshold_name RATE_OF_CHANGE = ''rate_of_change''" | "threshold_name DELTA_CHANGE = []"

definition breach :: "ThresholdConfig \<Rightarrow> pyfloat \<Rightarrow> (AlertSeverity \<times> pyfloat) option" where
  "breach c v =
     (if threshold_type c \<in> {MAX_VALUE, LATENCY_SPIKE, DRAWDOWN, RATE_OF_CHANGE}
      then (if emergency_threshold c \<noteq> 0 \<and> emergency_threshold c \<le> v then Some (EMERGENCY, emergency_threshold c)
            else if critical_threshold c \<le> v then Some (CRITICAL, critical_threshold c)
            else if warning_threshold c \<le> v then Some (WARNING, warning_threshold c) else None)
      else (if emergency_threshold c \<noteq> 0 \<and> v \<le> emergency_threshold c then Some (EMERGENCY, emergency_threshold c)
            else if v \<le> critical_threshold c then Some (CRITICAL, critical_threshold c)
            else if v \<le> warning_threshold c then Some (WARNING, warning_threshold c) else None))"

definition last_alert :: "string \<Rightarrow> AlertSeverity \<Rightarrow> monitor \<Rightarrow> pyfloat" where
  "last_alert nm sev m =
     (case dict_get (last_alert_times m) nm of
        None \<Rightarrow> 0 | Some d \<Rightarrow> (case dict_get d sev of None \<Rightarrow> 0 | Some t \<Rightarrow> t))"

definition alert_message :: "textlib \<Rightarrow> string \<Rightarrow> ThresholdType \<Rightarrow> pyfloat \<Rightarrow> pyfloat \<Rightarrow> string" where
  "alert_message tx nm ty v t =
     nm @ '': '' @ threshold_name ty @ ''='' @ fmt4 tx v @ '' breached '' @ threshold_name ty @ ''_threshold='' @ fmt4 tx t"

definition new_alert :: "textlib \<Rightarrow> pyfloat \<Rightarrow> ThresholdConfig \<Rightarrow> string \<Rightarrow> AlertSeverity \<Rightarrow> pyfloat \<Rightarrow> pyfloat \<Rightarrow> SlidingWindow \<Rightarrow> Alert" where
  "new_alert tx now c nm sev v t w =
     \<lparr>timestamp = now, a_name = nm, severity = sev, current_value = v, threshold_value = t,
      message = alert_message tx nm (threshold_type c) v t,
      alert_metadata = \<lparr>m_type = type_name (threshold_type c), m_size = window_length w, m_mean = get_mean w, m_std = get_std tx w\<rparr>\<rparr>"

definition mark_alert :: "string \<Rightarrow> AlertSeverity \<Rightarrow> pyfloat \<Rightarrow> monitor \<Rightarrow> monitor" where
  "mark_alert nm sev now m =
     (let d = (case dict_get (last_alert_times m) nm of None \<Rightarrow> [] | Some d \<Rightarrow> d)
      in m\<lparr>last_alert_times := dict_set nm (dict_set sev now d) (last_alert_times m)\<rparr>)"

definition check_threshold :: "textlib \<Rightarrow> pyfloat \<Rightarrow> string \<Rightarrow> monitor \<Rightarrow> (exn + Alert option) \<times> monitor" where
  "check_threshold tx now nm m =
     (case dict_get (configs m) nm of
        None \<Rightarrow> (Inr None, m)
      | Some c \<Rightarrow>
          if \<not> enabled c then (Inr None, m)
          else
            (case (dict_get (windows m) nm, dict_get (current_values m) nm) of
               (Some w, Some cur) \<Rightarrow>
                 (case check_value (threshold_type c) cur w of
                    Inl e \<Rightarrow> (Inl e, m)
                  | Inr None \<Rightarrow> (Inr None, m)
                  | Inr (Some v) \<Rightarrow>
                      (case breach c v of
                         None \<Rightarrow> (Inr None, m)
                       | Some (sev, t) \<Rightarrow>
                           if fsub now (last_alert nm sev m) < cooldown_seconds c then (Inr None, m)
                           else (Inr (Some (new_alert tx now c nm sev v t w)), mark_alert nm sev now m)))
             | _ \<Rightarrow> (Inl KeyError, m)))"

definition trigger_alert :: "Alert \<Rightarrow> monitor \<Rightarrow> monitor" where
  "trigger_alert a m =
     m\<lparr>alert_history := push 1000 a (alert_history m), calls := calls m @ map (\<lambda>cb. (cb, a)) (alert_callbacks m)\<rparr>"

text \<open>One round over the names at its start; an exception ends the round.\<close>

fun check_all :: "textlib \<Rightarrow> (string \<Rightarrow> pyfloat) \<Rightarrow> string list \<Rightarrow> monitor \<Rightarrow> (exn + unit) \<times> monitor" where
  "check_all tx clk [] m = (Inr (), m)"
| "check_all tx clk (nm # nms) m =
     (case check_threshold tx (clk nm) nm m of
        (Inl e, m1) \<Rightarrow> (Inl e, m1)
      | (Inr None, m1) \<Rightarrow> check_all tx clk nms m1
      | (Inr (Some a), m1) \<Rightarrow> check_all tx clk nms (trigger_alert a m1))"

definition monitor_round :: "textlib \<Rightarrow> (string \<Rightarrow> pyfloat) \<Rightarrow> monitor \<Rightarrow> monitor" where
  "monitor_round tx clk m = (if running m then snd (check_all tx clk (dict_keys (configs m)) m) else m)"

definition get_alert_history :: "int \<Rightarrow> monitor \<Rightarrow> Alert list" where
  "get_alert_history n m = slice_from (- n) (alert_history m)"

record status =
  st_enabled :: bool
  st_type :: string
  st_current :: pyfloat
  st_warning :: pyfloat
  st_critical :: pyfloat
  st_emergency :: pyfloat
  st_size :: int
  st_mean :: "pyfloat option"
  st_std :: "pyfloat option"
  st_min :: "pyfloat option"
  st_max :: "pyfloat option"
  st_p99 :: "pyfloat option"
  st_drawdown :: pyfloat

definition status_of :: "textlib \<Rightarrow> ThresholdConfig \<Rightarrow> pyfloat \<Rightarrow> SlidingWindow \<Rightarrow> exn + status" where
  "status_of tx c v w =
     bind (get_p99 w) (\<lambda>p.
       Inr \<lparr>st_enabled = enabled c, st_type = type_name (threshold_type c), st_current = v, st_warning = warning_threshold c,
            st_critical = critical_threshold c, st_emergency = emergency_threshold c, st_size = window_length w, st_mean = get_mean w,
            st_std = get_std tx w, st_min = get_min w, st_max = get_max w, st_p99 = p, st_drawdown = get_drawdown w\<rparr>)"

fun status_loop :: "textlib \<Rightarrow> monitor \<Rightarrow> (string, ThresholdConfig) dict \<Rightarrow> (string, status) dict \<Rightarrow> exn + (string, status) dict" where
  "status_loop tx m [] acc = Inr acc"
| "status_loop tx m ((nm, c) # cs) acc =
     (case dict_get (windows m) nm of
        None \<Rightarrow> Inl KeyError
      | Some w \<Rightarrow>
          bind (status_of tx c (case dict_get (current_values m) nm of None \<Rightarrow> 0 | Some v \<Rightarrow> v) w)
            (\<lambda>s. status_loop tx m cs (dict_set nm s acc)))"

definition get_current_status :: "textlib \<Rightarrow> monitor \<Rightarrow> exn + (string, status) dict" where
  "get_current_status tx m = status_loop tx m (configs m) []"

definition set_enabled :: "bool \<Rightarrow> string \<Rightarrow> monitor \<Rightarrow> monitor" where
  "set_enabled b nm m =
     (case dict_get (configs m) nm of None \<Rightarrow> m | Some c \<Rightarrow> m\<lparr>configs := dict_set nm (c\<lparr>enabled := b\<rparr>) (configs m)\<rparr>)"

definition enable_threshold :: "string \<Rightarrow> monitor \<Rightarrow> monitor" where "enable_threshold = set_enabled True"
definition disable_threshold :: "string \<Rightarrow> monitor \<Rightarrow> monitor" where "disable_threshold = set_enabled False"
definition shutdown :: "monitor \<Rightarrow> monitor" where "shutdown m = m\<lparr>running := False\<rparr>"

definition create_pnl_drawdown_threshold :: "pyfloat \<Rightarrow> pyfloat \<Rightarrow> pyfloat \<Rightarrow> int \<Rightarrow> ThresholdConfig" where
  "create_pnl_drawdown_threshold warn crit emerg sz = new_config ''pnl_drawdown'' DRAWDOWN warn crit (Some emerg) sz 30 True"

definition create_latency_spike_threshold :: "pyfloat \<Rightarrow> pyfloat \<Rightarrow> pyfloat \<Rightarrow> int \<Rightarrow> ThresholdConfig" where
  "create_latency_spike_threshold warn crit emerg sz = new_config ''latency_spike'' LATENCY_SPIKE warn crit (Some emerg) sz 10 True"

definition create_rate_of_change_threshold :: "string \<Rightarrow> pyfloat \<Rightarrow> pyfloat \<Rightarrow> pyfloat \<Rightarrow> int \<Rightarrow> ThresholdConfig" where
  "create_rate_of_change_threshold nm warn crit emerg sz = new_config nm RATE_OF_CHANGE warn crit (Some emerg) sz 60 True"


section \<open>Windows\<close>

lemma foldl_min: "foldl min a xs = Min (insert a (set xs))"
proof (induction xs arbitrary: a)
  case (Cons x xs)
  then show ?case by (cases "xs = []") (auto simp: min.assoc Min_insert)
qed simp

lemma foldl_max: "foldl max a xs = Max (insert a (set xs))"
proof (induction xs arbitrary: a)
  case (Cons x xs)
  then show ?case by (cases "xs = []") (auto simp: max.assoc Max_insert)
qed simp

lemma list_min_eq: "xs \<noteq> [] \<Longrightarrow> list_min xs = Min (set xs)"
  by (cases xs) (simp_all add: list_min_def foldl_min)

lemma list_max_eq: "xs \<noteq> [] \<Longrightarrow> list_max xs = Max (set xs)"
  by (cases xs) (simp_all add: list_max_def foldl_max)

definition keep_last :: "nat \<Rightarrow> 'a list \<Rightarrow> 'a list" where
  "keep_last n xs = drop (length xs - n) xs"

lemma length_keep_last [simp]: "length (keep_last n xs) = min n (length xs)"
  by (simp add: keep_last_def)

lemma keep_last_ne [simp]: "0 < n \<Longrightarrow> keep_last n xs = [] \<longleftrightarrow> xs = []"
  by (simp add: min_def flip: length_0_conv)

lemma push_keep_last: "push (int n) x (keep_last n xs) = keep_last n (xs @ [x])"
proof (cases "length xs < n")
  case True
  then show ?thesis by (simp add: push_def keep_last_def)
next
  case False
  then have "Suc (length xs) - n = Suc (length xs - n)" by simp
  then show ?thesis using False by (simp add: push_def keep_last_def Suc_diff_Suc add.commute)
qed

text \<open>Readings are added one after another, each with its time stamp.\<close>

fun add_all :: "(pyfloat \<times> pyfloat) list \<Rightarrow> SlidingWindow \<Rightarrow> exn + SlidingWindow" where
  "add_all [] w = Inr w"
| "add_all ((v, t) # rs) w = bind (window_add v t w) (add_all rs)"

definition window_holds :: "nat \<Rightarrow> (pyfloat \<times> pyfloat) list \<Rightarrow> SlidingWindow \<Rightarrow> bool" where
  "window_holds n rs w \<longleftrightarrow>
     max_size w = int n \<and> vals w = keep_last n (map fst rs) \<and> timestamps w = keep_last n (map snd rs) \<and>
     get_min w = (if rs = [] then None else Some (Min (set (keep_last n (map fst rs))))) \<and>
     get_max w = (if rs = [] then None else Some (Max (set (keep_last n (map fst rs)))))"

lemma window_add_holds:
  assumes "0 < n" "window_holds n rs w"
  shows "\<exists>w'. window_add v t w = Inr w' \<and> window_holds n (rs @ [(v, t)]) w'"
proof -
  have "\<not> (int (length (vals w)) = max_size w \<and> vals w = [])" using assms by (auto simp: window_holds_def)
  then show ?thesis
    using assms by (auto simp: window_add_def Let_def window_holds_def push_keep_last get_min_def get_max_def list_min_eq list_max_eq)
qed

lemma add_all_holds:
  "0 < n \<Longrightarrow> window_holds n rs w \<Longrightarrow> \<exists>w'. add_all rs' w = Inr w' \<and> window_holds n (rs @ rs') w'"
proof (induction rs' arbitrary: rs w)
  case (Cons r rs')
  obtain v t where r: "r = (v, t)" by (cases r)
  obtain w1 where w1: "window_add v t w = Inr w1" "window_holds n (rs @ [(v, t)]) w1" using window_add_holds Cons.prems by blast
  then obtain w2 where "add_all rs' w1 = Inr w2" "window_holds n ((rs @ [(v, t)]) @ rs') w2"
    using Cons.IH Cons.prems(1) by blast
  then show ?case by (auto simp: r w1)
qed simp

section \<open>Drawdown\<close>

definition drawdown_at :: "pyfloat list \<Rightarrow> nat \<Rightarrow> pyfloat" where
  "drawdown_at vs i = (let pk = Max (set (take (Suc i) vs)) in if 0 < pk then fdiv (fsub pk (vs ! i)) pk else 0)"

lemma drawdown_loop_spec:
  assumes "us \<noteq> []" "peak = Max (set us)" "worst = Max ((drawdown_at (us @ vs)) ` {..<length us})"
  shows "drawdown_loop peak worst vs = Max ((drawdown_at (us @ vs)) ` {..<length (us @ vs)})"
  using assms
proof (induction vs arbitrary: us peak worst)
  case (Cons v vs)
  let ?D = "drawdown_at (us @ v # vs)"
  have pk: "Max (set (take (Suc (length us)) (us @ v # vs))) = max peak v"
    using Cons.prems by (simp add: Max_insert max.commute)
  have d: "?D (length us) = (if 0 < max peak v then fdiv (fsub (max peak v) v) (max peak v) else 0)"
    by (simp only: drawdown_at_def pk Let_def nth_append_length)
  have ne: "?D ` {..<length us} \<noteq> {}" "finite (?D ` {..<length us})" using Cons.prems(1) by auto
  have nx: "Max (?D ` {..<length (us @ [v])}) = max (?D (length us)) worst"
    using ne Cons.prems(3) by (simp add: lessThan_Suc)
  have d0: "?D 0 = 0" using Cons.prems(1) by (cases us) (auto simp: drawdown_at_def fdiv_def)
  have w0: "0 \<le> worst" unfolding Cons.prems(3) using Cons.prems(1) d0 by (intro Max_ge) (auto intro!: image_eqI[of _ _ 0])
  have pk': "max peak v = Max (set (us @ [v]))" using Cons.prems by (simp add: Max_insert max.commute)
  have IH: "drawdown_loop (max peak v) (max (?D (length us)) worst) vs = Max (?D ` {..<length (us @ v # vs)})"
    using Cons.IH[of "us @ [v]" "max peak v" "max (?D (length us)) worst"] pk' nx by simp
  show ?case
    using IH w0 by (auto simp: d max_def fdiv_def max.commute not_less split: if_splits)
qed simp

text \<open>C17: The drawdown a window reports is the deepest fall below the running peak over all positions of the window, whatever the
  values; the single pass of the code loses none of them.\<close>

theorem drawdown_is_deepest_fall:
  assumes "2 \<le> length (vals w)"
  shows "get_drawdown w = Max ((drawdown_at (vals w)) ` {..<length (vals w)})"
proof -
  obtain v vs where v: "vals w = v # vs" using assms by (cases "vals w") auto
  have "drawdown_loop v 0 (v # vs) = drawdown_loop v 0 vs" by (simp add: fdiv_def)
  also have "\<dots> = Max ((drawdown_at ([v] @ vs)) ` {..<length ([v] @ vs)})"
    by (rule drawdown_loop_spec) (auto simp: drawdown_at_def fdiv_def lessThan_Suc)
  finally have "drawdown_loop v 0 (v # vs) = Max ((drawdown_at (v # vs)) ` {..<length (v # vs)})" by (simp only: append_Cons append_Nil)
  moreover have "2 \<le> length (v # vs)" using assms v by simp
  ultimately show ?thesis unfolding get_drawdown_def v list.sel by presburger
qed

lemma drawdown_at_bounds:
  assumes "\<forall>x \<in> set vs. 0 \<le> x \<and> is_float x" "i < length vs"
  shows "0 \<le> drawdown_at vs i \<and> drawdown_at vs i \<le> 1"
proof -
  let ?S = "set (take (Suc i) vs)"
  define pk where "pk = Max ?S"
  have i: "vs ! i \<in> ?S" using assms(2) by (auto simp: in_set_conv_nth intro!: exI[of _ i])
  have le: "vs ! i \<le> pk" unfolding pk_def using i by (intro Max_ge) auto
  have "pk \<in> ?S" unfolding pk_def using i by (intro Max_in) auto
  then have "is_float pk" using assms(1) in_set_takeD by metis
  moreover have "0 \<le> vs ! i" using assms by simp
  ultimately have "fsub pk (vs ! i) \<le> pk" unfolding fsub_def is_float_def by (metis diff_0_right diff_left_mono fl_mono)
  then have *: "0 < pk \<longrightarrow> fdiv (fsub pk (vs ! i)) pk \<le> 1"
    unfolding fdiv_def by (metis divide_le_eq_1_pos fl_1 fl_mono)
  have "0 < pk \<longrightarrow> 0 \<le> fdiv (fsub pk (vs ! i)) pk" unfolding fdiv_def using fsub_nonneg[OF le] by auto
  then show ?thesis using * by (auto simp: drawdown_at_def Let_def simp flip: pk_def)
qed

text \<open>Over a window of prices or balances (nonnegative floats) the reported drawdown is a fraction between 0 and 1, rounding
  included.\<close>

theorem drawdown_is_a_fraction:
  assumes "\<forall>x \<in> set (vals w). 0 \<le> x \<and> is_float x"
  shows "0 \<le> get_drawdown w \<and> get_drawdown w \<le> 1"
proof (cases "length (vals w) < 2")
  case True
  then show ?thesis by (simp add: get_drawdown_def)
next
  case False
  let ?D = "drawdown_at (vals w) ` {..<length (vals w)}"
  obtain v vs where v: "vals w = v # vs" "vs \<noteq> []" using False by (cases "vals w") auto
  have "get_drawdown w = drawdown_loop v 0 vs" using False by (simp add: get_drawdown_def v fdiv_def)
  also have "\<dots> = Max ((drawdown_at ([v] @ vs)) ` {..<length ([v] @ vs)})"
    by (rule drawdown_loop_spec) (auto simp: drawdown_at_def fdiv_def lessThan_Suc)
  also have "\<dots> = Max ?D" by (simp add: v)
  finally have "get_drawdown w \<in> ?D" using v by (simp only:) (intro Max_in; auto)
  then show ?thesis using drawdown_at_bounds[OF assms] by auto
qed

text \<open>After any readings a window of size n holds exactly the last n of them, in order and with their time stamps, and its minimum
  and maximum are those of the readings it holds.\<close>

theorem window_keeps_last:
  assumes "0 < n"
  shows "\<exists>w0 w. window_init (int n) = Inr w0 \<and> add_all rs w0 = Inr w \<and> vals w = keep_last n (map fst rs) \<and>
    timestamps w = keep_last n (map snd rs) \<and>
    (rs \<noteq> [] \<longrightarrow> get_min w = Some (Min (set (vals w))) \<and> get_max w = Some (Max (set (vals w))))"
proof -
  let ?w0 = "\<lparr>max_size = int n, vals = [], timestamps = [], w_sum = 0, w_min = None, w_max = None\<rparr>"
  have "window_holds n [] ?w0" by (simp add: window_holds_def keep_last_def get_min_def get_max_def)
  then obtain w where "add_all rs ?w0 = Inr w" "window_holds n ([] @ rs) w" using add_all_holds assms by blast
  then show ?thesis by (auto simp: window_init_def window_holds_def)
qed

section \<open>Severities\<close>

text \<open>A MIN_VALUE threshold that leaves the emergency level to its default (1.5 times the critical one) never raises a critical
  alert: the default lies above the critical level, so a value at or below it is an emergency at once, also a value the critical
  level accepts.\<close>

theorem min_value_never_critical:
  assumes "c = new_config nm MIN_VALUE warn crit None sz cool en" "0 < crit" "is_float crit"
  shows "(\<forall>t. breach c v \<noteq> Some (CRITICAL, t)) \<and> (v \<le> fmul crit (3 / 2) \<longrightarrow> breach c v = Some (EMERGENCY, fmul crit (3 / 2)))"
proof -
  have "fl crit \<le> fl (crit * (3 / 2))" using assms(2) by (intro fl_mono) simp
  then have "crit \<le> fmul crit (3 / 2)" using assms(3) by (simp add: fmul_def is_float_def)
  then show ?thesis using assms(1,2) by (auto simp: breach_def new_config_def)
qed

text \<open>A threshold on a minimum alerts before it has seen a value: adding it sets the current value to 0, and the next check
  compares that 0 with the limits.\<close>

theorem fresh_minimum_alerts:
  assumes "add_threshold c m = (Inr (), m1)" "threshold_type c = MIN_VALUE" "enabled c" "0 \<le> warning_threshold c"
    "cooldown_seconds c \<le> fl now"
  shows "\<exists>a m2. check_threshold tx now (name c) m1 = (Inr (Some a), m2) \<and> current_value a = 0 \<and> m_size (alert_metadata a) = 0"
proof -
  obtain w where w: "window_init (window_size c) = Inr w" "m1 = m\<lparr>configs := dict_set (name c) c (configs m),
      windows := dict_set (name c) w (windows m), last_alert_times := dict_set (name c) [] (last_alert_times m),
      current_values := dict_set (name c) 0 (current_values m)\<rparr>"
    using assms(1) by (cases "window_init (window_size c)") (auto simp: add_threshold_def Let_def)
  have sz: "window_length w = 0" using w(1) by (auto simp: window_init_def window_length_def split: if_splits)
  have b: "breach c 0 \<noteq> None" using assms(2,4) by (auto simp: breach_def)
  have l: "last_alert (name c) s m1 = 0" for s by (simp add: last_alert_def w(2) dict_get_set)
  from b obtain sev t where st: "breach c 0 = Some (sev, t)" by auto
  have "check_threshold tx now (name c) m1
      = (Inr (Some (new_alert tx now c (name c) sev 0 t w)), mark_alert (name c) sev now m1)"
    using assms(2,3,5) l by (simp add: check_threshold_def w(2) dict_get_set check_value_def st fsub_def not_less)
  then show ?thesis by (auto simp: new_alert_def sz)
qed

section \<open>Runs\<close>

datatype mon_op =
    Add ThresholdConfig
  | Remove string
  | Update pyfloat string pyfloat
  | AddCallback string
  | RemoveCallback string
  | Enable string
  | Disable string
  | Round textlib "string \<Rightarrow> pyfloat"
  | Stop

fun mon_step :: "mon_op \<Rightarrow> monitor \<Rightarrow> monitor" where
  "mon_step (Add c) m = snd (add_threshold c m)"
| "mon_step (Remove nm) m = remove_threshold nm m"
| "mon_step (Update now nm v) m = snd (update_value now nm v m)"
| "mon_step (AddCallback cb) m = add_alert_callback cb m"
| "mon_step (RemoveCallback cb) m = remove_alert_callback cb m"
| "mon_step (Enable nm) m = enable_threshold nm m"
| "mon_step (Disable nm) m = disable_threshold nm m"
| "mon_step (Round tx clk) m = monitor_round tx clk m"
| "mon_step Stop m = shutdown m"

text \<open>What holds in every state: no name twice, at most 1000 alerts kept, no window above its size.\<close>

definition mon_inv :: "monitor \<Rightarrow> bool" where
  "mon_inv m \<longleftrightarrow>
     wf_dict (configs m) \<and> length (alert_history m) \<le> 1000 \<and>
     (\<forall>nm w. dict_get (windows m) nm = Some w \<longrightarrow> 0 \<le> max_size w \<and> int (length (vals w)) \<le> max_size w)"

lemma check_threshold_state:
  assumes "check_threshold tx now nm m = (r, m1)"
  shows "m1 = m \<and> r \<in> {Inr None, Inl KeyError, Inl IndexError} \<or>
    (\<exists>c w v sev t. dict_get (configs m) nm = Some c \<and> r = Inr (Some (new_alert tx now c nm sev v t w)) \<and>
       cooldown_seconds c \<le> fsub now (last_alert nm sev m) \<and> m1 = mark_alert nm sev now m)"
proof (cases "dict_get (configs m) nm")
  case (Some c)
  show ?thesis
  proof (cases "enabled c \<and> dict_get (windows m) nm \<noteq> None \<and> dict_get (current_values m) nm \<noteq> None")
    case True
    then obtain w cur where w: "dict_get (windows m) nm = Some w" "dict_get (current_values m) nm = Some cur" by auto
    show ?thesis
    proof (cases "check_value (threshold_type c) cur w")
      case (Inl e)
      then have "e = IndexError"
        by (auto simp: check_value_def get_p99_def get_percentile_def get_rate_of_change_def Let_def split: ThresholdType.splits if_splits)
      then show ?thesis using assms True w Some Inl by (auto simp: check_threshold_def)
    next
      case (Inr ov)
      show ?thesis
      proof (cases "ov = None \<or> breach c (the ov) = None \<or> fsub now (last_alert nm (fst (the (breach c (the ov)))) m) < cooldown_seconds c")
        case True
        then show ?thesis using assms \<open>enabled c \<and> _\<close> w Some Inr
          by (cases ov; cases "breach c (the ov)") (auto simp: check_threshold_def)
      next
        case False
        then obtain v sev t where v: "ov = Some v" "breach c v = Some (sev, t)" by auto
        then have "r = Inr (Some (new_alert tx now c nm sev v t w)) \<and> m1 = mark_alert nm sev now m"
          using assms False \<open>enabled c \<and> _\<close> w Some Inr by (auto simp: check_threshold_def)
        then show ?thesis using Some False v by (auto simp: not_less)
      qed
    qed
  next
    case False
    then show ?thesis using assms Some by (auto simp: check_threshold_def split: if_splits option.splits)
  qed
qed (use assms in \<open>simp add: check_threshold_def\<close>)

lemma mark_alert_fields [simp]:
  "configs (mark_alert nm sev now m) = configs m" "windows (mark_alert nm sev now m) = windows m"
  "alert_history (mark_alert nm sev now m) = alert_history m"
  by (simp_all add: mark_alert_def Let_def)

lemma trigger_alert_fields [simp]:
  "configs (trigger_alert a m) = configs m" "windows (trigger_alert a m) = windows m"
  "alert_history (trigger_alert a m) = push 1000 a (alert_history m)"
  "last_alert nm sev (trigger_alert a m) = last_alert nm sev m"
  by (simp_all add: trigger_alert_def last_alert_def)

lemma last_alert_mark:
  "last_alert nm sev (mark_alert nm' sev' now m) = (if nm = nm' \<and> sev = sev' then now else last_alert nm sev m)"
  by (auto simp: last_alert_def mark_alert_def dict_get_set Let_def split: option.splits)

lemma length_push: "length (push n x xs) = min (nat n) (Suc (length xs))"
  by (simp add: push_def Let_def)

lemma length_push_le [simp]: "0 \<le> n \<Longrightarrow> int (length (push n x xs)) \<le> n"
  by (simp add: length_push)

text \<open>What a check keeps when nothing is triggered, and when the alert it returns is, a whole round keeps.\<close>

lemma check_all_rel:
  assumes "\<And>s. R s s" "\<And>a b c. R a b \<Longrightarrow> R b c \<Longrightarrow> R a c"
    "\<And>m nm c sev v t w now. dict_get (configs m) nm = Some c \<Longrightarrow> cooldown_seconds c \<le> fsub now (last_alert nm sev m) \<Longrightarrow>
       R m (trigger_alert (new_alert tx now c nm sev v t w) (mark_alert nm sev now m))"
  shows "R m (snd (check_all tx clk nms m))"
proof (induction nms arbitrary: m)
  case (Cons nm nms)
  obtain r m1 where r: "check_threshold tx (clk nm) nm m = (r, m1)" by fastforce
  from check_threshold_state[OF r] show ?case
  proof
    assume "m1 = m \<and> r \<in> {Inr None, Inl KeyError, Inl IndexError}"
    then show ?thesis using Cons.IH r assms(1) by auto
  next
    assume "\<exists>c w v sev t. dict_get (configs m) nm = Some c \<and> r = Inr (Some (new_alert tx (clk nm) c nm sev v t w)) \<and>
       cooldown_seconds c \<le> fsub (clk nm) (last_alert nm sev m) \<and> m1 = mark_alert nm sev (clk nm) m"
    then obtain c w v sev t where *: "dict_get (configs m) nm = Some c" "r = Inr (Some (new_alert tx (clk nm) c nm sev v t w))"
        "cooldown_seconds c \<le> fsub (clk nm) (last_alert nm sev m)" "m1 = mark_alert nm sev (clk nm) m" by blast
    show ?thesis
      using assms(2)[OF assms(3)[OF *(1,3)] Cons.IH] by (simp add: r * )
  qed
qed (use assms(1) in simp)

lemma check_all_inv: "mon_inv m \<Longrightarrow> mon_inv (snd (check_all tx clk nms m))"
proof -
  have "mon_inv m \<longrightarrow> mon_inv (trigger_alert a (mark_alert nm sev now m))" for m a nm sev now
    by (simp add: mon_inv_def length_push)
  then have "mon_inv m \<longrightarrow> mon_inv (snd (check_all tx clk nms m))"
    using check_all_rel[of "\<lambda>a b. mon_inv a \<longrightarrow> mon_inv b" tx m clk nms] by blast
  then show "mon_inv m \<Longrightarrow> mon_inv (snd (check_all tx clk nms m))" by simp
qed

lemma window_add_bound:
  assumes "window_add v now w = Inr w'" "0 \<le> max_size w" "int (length (vals w)) \<le> max_size w"
  shows "max_size w' = max_size w \<and> int (length (vals w')) \<le> max_size w"
  using assms by (auto simp: window_add_def Let_def split: if_splits)

lemma mon_step_inv: "mon_inv m \<Longrightarrow> mon_inv (mon_step x m)"
proof (induction x)
  case (Add c)
  then show ?case by (auto simp: add_threshold_def Let_def mon_inv_def window_init_def dict_get_set)
next
  case (Update now nm v)
  show ?case
  proof (cases "dict_get (windows m) nm")
    case (Some w)
    show ?thesis
    proof (cases "window_add v now w")
      case (Inl e)
      then show ?thesis using Update Some by (simp add: update_value_def mon_inv_def Let_def split: option.split)
    next
      case (Inr w')
      moreover have "max_size w' = max_size w \<and> 0 \<le> max_size w \<and> int (length (vals w')) \<le> max_size w"
        using Update Some Inr window_add_bound by (auto simp: mon_inv_def)
      ultimately show ?thesis
        using Update Some by (simp add: update_value_def mon_inv_def dict_get_set Let_def split: option.split)
    qed
  qed (use Update in \<open>auto simp: update_value_def mon_inv_def Let_def split: option.splits\<close>)
next
  case (Round tx clk)
  then show ?case by (simp add: check_all_inv monitor_round_def)
qed (auto simp: mon_inv_def remove_threshold_def dict_get_pop add_alert_callback_def
  remove_alert_callback_def enable_threshold_def disable_threshold_def set_enabled_def shutdown_def split: option.splits)

interpretation mon: op_machine mon_step mon_inv
  by unfold_locales (rule mon_step_inv)

definition spaced :: "string \<Rightarrow> pyfloat \<Rightarrow> monitor \<Rightarrow> bool" where
  "spaced nm k m \<longleftrightarrow>
     (\<forall>c. dict_get (configs m) nm = Some c \<longrightarrow> cooldown_seconds c = k \<and>
        (\<forall>a \<in> set (alert_history m). a_name a = nm \<longrightarrow> timestamp a \<le> last_alert nm (severity a) m)) \<and>
     sorted_wrt (\<lambda>a b. a_name a = nm \<and> a_name b = nm \<and> severity a = severity b \<longrightarrow> k \<le> fsub (timestamp b) (timestamp a)) (alert_history m)"

lemma set_push: "set (push n x xs) \<subseteq> insert x (set xs)"
  unfolding push_def Let_def by (metis set_drop_subset list.set(2) rotate1.simps(2) set_rotate1)

lemma sorted_wrt_push: "sorted_wrt P xs \<Longrightarrow> \<forall>y \<in> set xs. P y x \<Longrightarrow> sorted_wrt P (push n x xs)"
  unfolding push_def Let_def by (intro sorted_wrt_drop) (auto simp: sorted_wrt_append)

lemma fsub_pos_less: "0 < fsub x y \<Longrightarrow> y < x"
  using fl_mono[of "x - y" 0] by (force simp: fsub_def not_less)

lemma spaced_alert:
  assumes s: "spaced nm k m" and k: "0 < k" and c: "dict_get (configs m) nm' = Some c"
    and cool: "cooldown_seconds c \<le> fsub now (last_alert nm' sev m)"
  shows "spaced nm k (trigger_alert (new_alert tx now c nm' sev v t w) (mark_alert nm' sev now m))" (is "spaced nm k (trigger_alert ?a ?m)")
proof -
  have le: "nm' = nm \<Longrightarrow> last_alert nm sev m < now" by (rule fsub_pos_less) (use s k c cool in \<open>auto simp: spaced_def\<close>)
  have old: "b \<in> set (alert_history m) \<Longrightarrow> a_name b = nm \<Longrightarrow> nm' = nm \<Longrightarrow> severity b = sev \<Longrightarrow>
      timestamp b \<le> now \<and> k \<le> fsub now (timestamp b)" for b
    using s c cool le unfolding spaced_def fsub_def by (smt (verit) diff_left_mono fl_mono order.trans less_imp_le)
  have "sorted_wrt (\<lambda>a b. a_name a = nm \<and> a_name b = nm \<and> severity a = severity b \<longrightarrow> k \<le> fsub (timestamp b) (timestamp a))
      (push 1000 ?a (alert_history m))"
    using s old by (intro sorted_wrt_push) (auto simp: spaced_def new_alert_def)
  moreover have "timestamp b \<le> last_alert nm (severity b) ?m"
    if "dict_get (configs m) nm = Some c'" "b \<in> set (push 1000 ?a (alert_history m))" "a_name b = nm" for b c'
  proof (cases "b = ?a")
    case True
    then show ?thesis using that(3) by (simp add: new_alert_def last_alert_mark)
  next
    case False
    then have b: "b \<in> set (alert_history m)" using that(2) set_push[of 1000 ?a "alert_history m"] by blast
    show ?thesis
    proof (cases "nm' = nm \<and> severity b = sev")
      case True
      then show ?thesis using old[OF b that(3)] by (simp add: last_alert_mark)
    next
      case False
      then have "last_alert nm (severity b) ?m = last_alert nm (severity b) m" by (auto simp: last_alert_mark)
      then show ?thesis using s that(1,3) b by (simp add: spaced_def)
    qed
  qed
  ultimately show ?thesis using s by (simp add: spaced_def)
qed

definition adds :: "string \<Rightarrow> mon_op \<Rightarrow> bool" where
  "adds nm x \<longleftrightarrow> (\<exists>c. x = Add c \<and> name c = nm)"

lemma spaced_cong:
  assumes "spaced nm k m" "alert_history m' = alert_history m"
    "\<And>c'. dict_get (configs m') nm = Some c' \<Longrightarrow>
       (\<exists>c. dict_get (configs m) nm = Some c \<and> cooldown_seconds c = cooldown_seconds c') \<and>
       dict_get (last_alert_times m') nm = dict_get (last_alert_times m) nm"
  shows "spaced nm k m'"
  using assms by (fastforce simp: spaced_def last_alert_def)

lemma spaced_step:
  assumes "spaced nm k m" "0 < k" "\<not> adds nm x"
  shows "spaced nm k (mon_step x m)"
proof (cases x)
  case (Round tx clk)
  then show ?thesis
    using check_all_rel[of "\<lambda>a b. spaced nm k a \<longrightarrow> spaced nm k b" tx m clk] assms spaced_alert by (auto simp: monitor_round_def)
qed (rule spaced_cong[OF assms(1)]; use assms(3) in \<open>auto simp: adds_def add_threshold_def update_value_def remove_threshold_def
  dict_get_pop dict_get_set add_alert_callback_def remove_alert_callback_def enable_threshold_def disable_threshold_def set_enabled_def
  shutdown_def Let_def split: option.splits sum.splits if_splits\<close>)+

text \<open>C29: Alerts of one threshold and severity never come closer together than its cooldown, whatever readings arrive, whatever the clock
  does, and however thresholds, callbacks and rounds interleave, until the threshold is added anew.\<close>

theorem alerts_respect_cooldown:
  assumes "m = fold mon_step pre monitor_init" "dict_get (configs m) nm = Some c" "0 < cooldown_seconds c"
    "\<forall>a \<in> set (alert_history m). a_name a \<noteq> nm" "\<forall>x \<in> set xs. \<not> adds nm x"
    "h = alert_history (fold mon_step xs m)" "i < j" "j < length h" "a_name (h ! i) = nm" "a_name (h ! j) = nm"
    "severity (h ! i) = severity (h ! j)"
  shows "cooldown_seconds c \<le> fsub (timestamp (h ! j)) (timestamp (h ! i))"
proof -
  have "mon_inv m" unfolding assms(1) by (rule mon.run_inv) (simp add: mon_inv_def monitor_init_def)
  then have "spaced nm (cooldown_seconds c) m \<longrightarrow> spaced nm (cooldown_seconds c) (fold mon_step xs m)"
    using spaced_step assms(3,5)
    by (intro mon.run_rel[where rel = "\<lambda>a b. spaced nm (cooldown_seconds c) a \<longrightarrow> spaced nm (cooldown_seconds c) b"
        and ok = "\<lambda>x. \<not> adds nm x"]) auto
  moreover have "sorted_wrt (\<lambda>a b. a_name a = nm \<and> a_name b = nm \<and> severity a = severity b \<longrightarrow>
      cooldown_seconds c \<le> fsub (timestamp b) (timestamp a)) (alert_history m)"
    unfolding sorted_wrt_iff_nth_less using assms(4) by (meson nth_mem)
  then have "spaced nm (cooldown_seconds c) m" using assms(2,4) by (simp add: spaced_def)
  ultimately have "sorted_wrt (\<lambda>a b. a_name a = nm \<and> a_name b = nm \<and> severity a = severity b \<longrightarrow>
      cooldown_seconds c \<le> fsub (timestamp b) (timestamp a)) h"
    unfolding spaced_def assms(6) by blast
  then show ?thesis using assms(7-11) unfolding sorted_wrt_iff_nth_less by blast
qed

section \<open>Witnesses\<close>

definition demo_window :: SlidingWindow where
  "demo_window = \<lparr>max_size = 3, vals = [4, 8, 2], timestamps = [1, 2, 3], w_sum = 14, w_min = Some 2, w_max = Some 8\<rparr>"

lemma drawdown_is_deepest_fall_witness:
  "get_drawdown demo_window = Max ((drawdown_at (vals demo_window)) ` {..<length (vals demo_window)})"
  by (rule drawdown_is_deepest_fall) (simp add: demo_window_def)

lemma drawdown_is_a_fraction_witness: "0 \<le> get_drawdown demo_window \<and> get_drawdown demo_window \<le> 1"
  by (rule drawdown_is_a_fraction) (simp add: demo_window_def is_float_def)

definition demo_readings :: "(pyfloat \<times> pyfloat) list" where "demo_readings = [(5, 1), (7, 2), (6, 3)]"

lemma window_keeps_last_witness:
  "\<exists>w0 w. window_init (int 2) = Inr w0 \<and> add_all demo_readings w0 = Inr w \<and> vals w = keep_last 2 (map fst demo_readings) \<and>
    timestamps w = keep_last 2 (map snd demo_readings) \<and>
    (demo_readings \<noteq> [] \<longrightarrow> get_min w = Some (Min (set (vals w))) \<and> get_max w = Some (Max (set (vals w))))"
  by (rule window_keeps_last) simp

definition balance_floor :: ThresholdConfig where
  "balance_floor = new_config ''balance'' MIN_VALUE 200 100 None 5 60 True"

lemma min_value_never_critical_witness:
  "(\<forall>t. breach balance_floor 120 \<noteq> Some (CRITICAL, t)) \<and>
   (120 \<le> fmul 100 (3 / 2) \<longrightarrow> breach balance_floor 120 = Some (EMERGENCY, fmul 100 (3 / 2)))"
  by (rule min_value_never_critical[of _ "''balance''" 200 100 5 60 True]) (simp_all add: balance_floor_def is_float_def)

definition demo_text :: textlib where "demo_text = \<lparr>stdev = (\<lambda>_. 0), fmt4 = (\<lambda>_. [])\<rparr>"

lemma fresh_minimum_alerts_witness:
  "\<exists>a m2. check_threshold demo_text 1000 (name balance_floor) (snd (add_threshold balance_floor monitor_init)) = (Inr (Some a), m2) \<and>
     current_value a = 0 \<and> m_size (alert_metadata a) = 0"
proof (rule fresh_minimum_alerts[where m = monitor_init])
  have "fst (add_threshold balance_floor monitor_init) = Inr ()" by code_simp
  then show "add_threshold balance_floor monitor_init = (Inr (), snd (add_threshold balance_floor monitor_init))"
    by (cases "add_threshold balance_floor monitor_init") simp
qed (simp_all add: balance_floor_def new_config_def)

definition latency_cap :: ThresholdConfig where
  "latency_cap = new_config ''latency'' MAX_VALUE 50 100 (Some 500) 5 60 True"

definition demo_rounds :: "mon_op list" where
  "demo_rounds = [Update 90 ''latency'' 70, Round demo_text (\<lambda>_. 100), Round demo_text (\<lambda>_. 120), Round demo_text (\<lambda>_. 170)]"

definition demo_history :: "Alert list" where
  "demo_history = alert_history (fold mon_step demo_rounds (fold mon_step [Add latency_cap] monitor_init))"

lemma demo_history_alerts:
  "map (\<lambda>a. (a_name a, severity a, timestamp a)) demo_history = [(''latency'', WARNING, 100), (''latency'', WARNING, 170)]"
  by code_simp

lemma alerts_respect_cooldown_witness:
  "cooldown_seconds latency_cap \<le> fsub (timestamp (demo_history ! 1)) (timestamp (demo_history ! 0))"
proof (rule alerts_respect_cooldown[OF refl _ _ _ _ demo_history_def])
  have "length demo_history = 2" using demo_history_alerts[THEN arg_cong, of length] by simp
  moreover have "i < length demo_history \<Longrightarrow> a_name (demo_history ! i) = ''latency'' \<and> severity (demo_history ! i) = WARNING" for i
    using demo_history_alerts[THEN arg_cong, of "\<lambda>l. l ! i"] calculation by (cases i) (auto simp: less_Suc_eq)
  ultimately show "1 < length demo_history" "a_name (demo_history ! 0) = ''latency''" "a_name (demo_history ! 1) = ''latency''"
    "severity (demo_history ! 0) = severity (demo_history ! 1)" by auto
  show "dict_get (configs (fold mon_step [Add latency_cap] monitor_init)) ''latency'' = Some latency_cap" by code_simp
  show "0 < cooldown_seconds latency_cap" by (simp add: latency_cap_def new_config_def)
  show "\<forall>a \<in> set (alert_history (fold mon_step [Add latency_cap] monitor_init)). a_name a \<noteq> ''latency''" by code_simp
  show "\<forall>x \<in> set demo_rounds. \<not> adds ''latency'' x" by (simp add: demo_rounds_def adds_def)
qed simp

end
