(* ===== verification/DynamicStopLoss.thy ===== *)
theory DynamicStopLoss
  imports Prelude
begin

text \<open>
  \<open>risk/dynamic_stop_loss.py\<close>: average true range, volatility and the trailing stops of the open positions.

  \<open>numpy\<close> is a parameter: \<open>np_std\<close> (with \<open>ddof = 1\<close>), \<open>np_mean\<close> and the constant \<open>np.sqrt(365)\<close>. \<open>sum\<close> adds floats from left to right (CPython up
  to 3.11). The infinity a long position starts its lowest price with is None. \<open>now\<close> is the clock.
\<close>

section \<open>Data\<close>

datatype PositionType = LONG | SHORT

record StopLossConfig =
  atr_period :: int
  atr_multiplier :: pyfloat
  volatility_lookback :: int
  max_stop_distance :: pyfloat
  min_stop_distance :: pyfloat
  assets :: "string list"

record StopLossResult =
  asset :: string
  position_type :: PositionType
  entry_price :: pyfloat
  r_price :: pyfloat
  stop_price :: pyfloat
  stop_distance_pct :: pyfloat
  stop_type :: string
  is_trailing :: bool
  trailing_profit_locked :: pyfloat
  volatility_adjustment :: pyfloat
  r_time :: pyfloat

record numlib =
  np_std :: "pyfloat list \<Rightarrow> pyfloat"
  np_mean :: "pyfloat list \<Rightarrow> pyfloat"
  sqrt365 :: pyfloat

definition py_sum :: "pyfloat list \<Rightarrow> pyfloat" where "py_sum xs = foldl fadd 0 xs"

definition append_max :: "int \<Rightarrow> 'a \<Rightarrow> 'a list \<Rightarrow> 'a list" where
  "append_max n x xs = (let ys = xs @ [x] in drop (length ys - nat n) ys)"

section \<open>Average true range\<close>

record ATRCalculator =
  period :: int
  highs :: "pyfloat list"
  lows :: "pyfloat list"
  closes :: "pyfloat list"
  atr_cache :: "pyfloat option"

text \<open>\<open>deque(maxlen=n)\<close> refuses a negative length.\<close>

definition atr_init :: "int \<Rightarrow> exn + ATRCalculator" where
  "atr_init n = (if n + 1 < 0 then Inl ValueError else Inr \<lparr>period = n, highs = [], lows = [], closes = [], atr_cache = None\<rparr>)"

definition true_range :: "pyfloat \<Rightarrow> pyfloat \<Rightarrow> pyfloat \<Rightarrow> pyfloat" where
  "true_range h l prev = max (max (fsub h l) \<bar>fsub h prev\<bar>) \<bar>fsub l prev\<bar>"

definition true_ranges :: "ATRCalculator \<Rightarrow> pyfloat list" where
  "true_ranges s = map (\<lambda>i. true_range (highs s ! (i + 1)) (lows s ! (i + 1)) (closes s ! i)) [0..<length (highs s) - 1]"

definition add_candle :: "pyfloat \<Rightarrow> pyfloat \<Rightarrow> pyfloat \<Rightarrow> ATRCalculator \<Rightarrow> (exn + pyfloat option) \<times> ATRCalculator" where
  "add_candle h l c s =
     (let n = period s + 1;
          s1 = s\<lparr>highs := append_max n h (highs s), lows := append_max n l (lows s), closes := append_max n c (closes s)\<rparr>;
          k = length (closes s1)
      in if int (length (highs s1)) < n then (Inr None, s1)
         else
           (case atr_cache s of
              None \<Rightarrow>
                if true_ranges s1 = [] then (Inl ZeroDivisionError, s1)
                else
                  (let a = fdiv (py_sum (true_ranges s1)) (of_nat (length (true_ranges s1)))
                   in (Inr (Some a), s1\<lparr>atr_cache := Some a\<rparr>))
            | Some old \<Rightarrow>
                if period s = 0 then (Inl ZeroDivisionError, s1)
                else
                  (let tr = true_range (last (highs s1)) (last (lows s1)) (closes s1 ! (k - 2));
                       a = fdiv (fadd (fmul old (of_int (period s - 1))) tr) (of_int (period s))
                   in (Inr (Some a), s1\<lparr>atr_cache := Some a\<rparr>))))"

definition get_atr :: "ATRCalculator \<Rightarrow> pyfloat option" where "get_atr = atr_cache"

definition get_atr_percentage :: "pyfloat \<Rightarrow> ATRCalculator \<Rightarrow> pyfloat option" where
  "get_atr_percentage p s = (case atr_cache s of None \<Rightarrow> None | Some a \<Rightarrow> if p = 0 then None else Some (fdiv a p))"

section \<open>Volatility\<close>

record VolatilityEstimator =
  lookback :: int
  returns :: "pyfloat list"
  vol_cache :: "pyfloat option"

definition vol_init :: "int \<Rightarrow> exn + VolatilityEstimator" where
  "vol_init n = (if n < 0 then Inl ValueError else Inr \<lparr>lookback = n, returns = [], vol_cache = None\<rparr>)"

definition add_return :: "numlib \<Rightarrow> pyfloat \<Rightarrow> VolatilityEstimator \<Rightarrow> pyfloat option \<times> VolatilityEstimator" where
  "add_return np r s =
     (let s1 = s\<lparr>returns := append_max (lookback s) r (returns s)\<rparr>
      in if int (length (returns s1)) < lookback s then (None, s1)
         else (let v = fmul (np_std np (returns s1)) (sqrt365 np) in (Some v, s1\<lparr>vol_cache := Some v\<rparr>)))"

definition get_volatility :: "VolatilityEstimator \<Rightarrow> pyfloat option" where "get_volatility = vol_cache"

text \<open>With five returns or fewer the mean is taken over nothing: it is NaN, and every comparison with it is false.\<close>

definition is_high_volatility :: "numlib \<Rightarrow> pyfloat \<Rightarrow> VolatilityEstimator \<Rightarrow> bool" where
  "is_high_volatility np sigma s =
     (if int (length (returns s)) < lookback s then False
      else
        (let recent = np_std np (slice_from (- 5) (returns s));
             past = map (\<lambda>i. np_std np (take 5 (drop i (returns s)))) [0..<length (returns s) - 5]
         in if past = [] \<or> np_mean np past = 0 then False else fmul (np_mean np past) sigma < recent))"

section \<open>The calculator\<close>

record position =
  p_type :: PositionType
  p_entry :: pyfloat
  current_stop :: pyfloat
  highest_price :: pyfloat
  lowest_price :: "pyfloat option"
  initial_capital :: pyfloat
  p_stop_type :: string
  p_trailing :: bool

record calculator =
  config :: StopLossConfig
  atr_calculators :: "(string, ATRCalculator) dict"
  volatility_estimators :: "(string, VolatilityEstimator) dict"
  positions :: "(string, position) dict"
  stop_history :: "(string, StopLossResult list) dict"
  news_event_flags :: "(string, bool) dict"

definition per_asset :: "string list \<Rightarrow> 'a \<Rightarrow> (string, 'a) dict" where
  "per_asset xs v = fold (\<lambda>a. dict_set a v) xs []"

definition calc_init :: "StopLossConfig \<Rightarrow> exn + calculator" where
  "calc_init c =
     (if assets c = [] then Inr \<lparr>config = c, atr_calculators = [], volatility_estimators = [], positions = [], stop_history = [],
        news_event_flags = []\<rparr>
      else
        bind (atr_init (atr_period c)) (\<lambda>a.
        bind (vol_init (volatility_lookback c)) (\<lambda>v.
          Inr \<lparr>config = c, atr_calculators = per_asset (assets c) a, volatility_estimators = per_asset (assets c) v, positions = [],
               stop_history = per_asset (assets c) [], news_event_flags = per_asset (assets c) False\<rparr>)))"

definition set_news_event :: "string \<Rightarrow> bool \<Rightarrow> calculator \<Rightarrow> calculator" where
  "set_news_event a b s =
     (if dict_get (news_event_flags s) a = None then s else s\<lparr>news_event_flags := dict_set a b (news_event_flags s)\<rparr>)"

definition update_price_data :: "numlib \<Rightarrow> string \<Rightarrow> pyfloat \<Rightarrow> pyfloat \<Rightarrow> pyfloat \<Rightarrow> calculator \<Rightarrow> (exn + unit) \<times> calculator" where
  "update_price_data np a h l c s =
     (case dict_get (atr_calculators s) a of
        None \<Rightarrow> (Inr (), s)
      | Some t \<Rightarrow>
          (let (r, t1) = add_candle h l c t; s1 = s\<lparr>atr_calculators := dict_set a t1 (atr_calculators s)\<rparr>
           in case r of
                Inl e \<Rightarrow> (Inl e, s1)
              | Inr _ \<Rightarrow>
                  if 1 < length (closes t1)
                  then (let prev = closes t1 ! (length (closes t1) - 2)
                        in if 0 < prev
                           then (case dict_get (volatility_estimators s) a of
                                   None \<Rightarrow> (Inl KeyError, s1)
                                 | Some v \<Rightarrow>
                                     (Inr (), s1\<lparr>volatility_estimators :=
                                        dict_set a (snd (add_return np (fdiv (fsub c prev) prev) v)) (volatility_estimators s)\<rparr>))
                           else (Inr (), s1))
                  else (Inr (), s1)))"

text \<open>What the look-ups of an asset's calculators give; an unknown asset gets a fresh one, which knows nothing.\<close>

definition atr_of :: "string \<Rightarrow> calculator \<Rightarrow> pyfloat option" where
  "atr_of a s = (case dict_get (atr_calculators s) a of None \<Rightarrow> None | Some t \<Rightarrow> get_atr t)"

definition high_vol :: "numlib \<Rightarrow> string \<Rightarrow> calculator \<Rightarrow> bool" where
  "high_vol np a s =
     (case dict_get (volatility_estimators s) a of
        None \<Rightarrow> False
      | Some v \<Rightarrow> (case get_volatility v of None \<Rightarrow> False | Some x \<Rightarrow> x \<noteq> 0 \<and> is_high_volatility np 2 v))"

definition in_news :: "string \<Rightarrow> calculator \<Rightarrow> bool" where
  "in_news a s = (dict_get (news_event_flags s) a = Some True)"

definition raw_distance :: "numlib \<Rightarrow> string \<Rightarrow> pyfloat \<Rightarrow> calculator \<Rightarrow> exn + pyfloat" where
  "raw_distance np a p s =
     (case atr_of a s of
        None \<Rightarrow> Inr (fl (1 / 50))
      | Some atr \<Rightarrow>
          if p = 0 then Inl ZeroDivisionError
          else
            (let d = fmul (fdiv atr p) (atr_multiplier (config s));
                 d1 = (if high_vol np a s then fmul d (3 / 2) else d)
             in Inr (if in_news a s then fmul d1 2 else d1)))"

definition open_position ::
    "numlib \<Rightarrow> pyfloat \<Rightarrow> string \<Rightarrow> PositionType \<Rightarrow> pyfloat \<Rightarrow> pyfloat \<Rightarrow> calculator \<Rightarrow> (exn + StopLossResult) \<times> calculator" where
  "open_position np now a ty p cap s =
     (case raw_distance np a p s of
        Inl e \<Rightarrow> (Inl e, s)
      | Inr raw \<Rightarrow>
          (let d = max (min_stop_distance (config s)) (min raw (max_stop_distance (config s)));
               sp = (if ty = LONG then fmul p (fsub 1 d) else fmul p (fadd 1 d));
               pos = \<lparr>p_type = ty, p_entry = p, current_stop = sp, highest_price = (if ty = LONG then p else 0),
                      lowest_price = (if ty = SHORT then Some p else None), initial_capital = cap, p_stop_type = ''atr_based'',
                      p_trailing = False\<rparr>;
               r = \<lparr>asset = a, position_type = ty, entry_price = p, r_price = p, stop_price = sp, stop_distance_pct = d,
                    stop_type = ''atr_based'', is_trailing = False, trailing_profit_locked = 0,
                    volatility_adjustment = (if high_vol np a s then 3 / 2 else 1), r_time = now\<rparr>;
               s1 = s\<lparr>positions := dict_set a pos (positions s)\<rparr>
           in case dict_get (stop_history s) a of
                None \<Rightarrow> (Inl KeyError, s1)
              | Some h \<Rightarrow> (Inr r, s1\<lparr>stop_history := dict_set a (h @ [r]) (stop_history s)\<rparr>)))"

definition stop_distance_of :: "position \<Rightarrow> pyfloat" where
  "stop_distance_of q =
     (if p_type q = LONG then fdiv (fsub (p_entry q) (current_stop q)) (p_entry q)
      else fdiv (fsub (current_stop q) (p_entry q)) (p_entry q))"

definition profit_locked :: "position \<Rightarrow> pyfloat" where
  "profit_locked q =
     (if p_type q = LONG then max 0 (fsub (highest_price q) (p_entry q))
      else (case lowest_price q of None \<Rightarrow> 0 | Some x \<Rightarrow> max 0 (fsub (p_entry q) x)))"

definition get_current_stop :: "pyfloat \<Rightarrow> string \<Rightarrow> pyfloat \<Rightarrow> calculator \<Rightarrow> exn + StopLossResult option" where
  "get_current_stop now a p s =
     (case dict_get (positions s) a of
        None \<Rightarrow> Inr None
      | Some q \<Rightarrow>
          if p_entry q = 0 then Inl ZeroDivisionError
          else Inr (Some \<lparr>asset = a, position_type = p_type q, entry_price = p_entry q, r_price = p, stop_price = current_stop q,
                 stop_distance_pct = stop_distance_of q, stop_type = p_stop_type q, is_trailing = p_trailing q,
                 trailing_profit_locked = profit_locked q, volatility_adjustment = 1, r_time = now\<rparr>))"

text \<open>The extreme price first, then the trailing stop, which moves only in the position's favour.\<close>

definition note_extreme :: "pyfloat \<Rightarrow> position \<Rightarrow> position" where
  "note_extreme p q =
     (if p_type q = LONG then q\<lparr>highest_price := max (highest_price q) p\<rparr>
      else q\<lparr>lowest_price := Some (case lowest_price q of None \<Rightarrow> p | Some x \<Rightarrow> min x p)\<rparr>)"

definition trail :: "pyfloat \<Rightarrow> position \<Rightarrow> position" where
  "trail width q =
     (if p_type q = LONG
      then (let n = fsub (highest_price q) width in if current_stop q < n then q\<lparr>current_stop := n, p_trailing := True\<rparr> else q)
      else (case lowest_price q of
              None \<Rightarrow> q
            | Some x \<Rightarrow> (let n = fadd x width in if n < current_stop q then q\<lparr>current_stop := n, p_trailing := True\<rparr> else q)))"

definition update_current_price :: "pyfloat \<Rightarrow> string \<Rightarrow> pyfloat \<Rightarrow> calculator \<Rightarrow> (exn + StopLossResult option) \<times> calculator" where
  "update_current_price now a p s =
     (case dict_get (positions s) a of
        None \<Rightarrow> (Inr None, s)
      | Some q \<Rightarrow>
          (let q1 = note_extreme p q;
               q2 = (case atr_of a s of None \<Rightarrow> q1 | Some atr \<Rightarrow> trail (fmul atr (atr_multiplier (config s))) q1);
               s1 = s\<lparr>positions := dict_set a q2 (positions s)\<rparr>
           in (get_current_stop now a p s1, s1)))"

definition stop_hit :: "pyfloat \<Rightarrow> position \<Rightarrow> bool" where
  "stop_hit p q = (if p_type q = LONG then p \<le> current_stop q else current_stop q \<le> p)"

definition is_stopped_out :: "string \<Rightarrow> pyfloat \<Rightarrow> calculator \<Rightarrow> bool" where
  "is_stopped_out a p s = (case dict_get (positions s) a of None \<Rightarrow> False | Some q \<Rightarrow> stop_hit p q)"

record summary =
  s_asset :: string
  s_entry :: pyfloat
  exit_price :: pyfloat
  pnl_pct :: pyfloat
  pnl_amount :: pyfloat
  exit_reason :: string
  was_trailing :: bool
  max_adverse_excursion :: pyfloat
  max_favorable_excursion :: "pyfloat option"

definition calculate_mae :: "string \<Rightarrow> pyfloat \<Rightarrow> calculator \<Rightarrow> pyfloat" where
  "calculate_mae a x s =
     (case dict_get (positions s) a of
        None \<Rightarrow> 0
      | Some q \<Rightarrow>
          if p_type q = LONG then fdiv (fsub (p_entry q) (min (p_entry q) x)) (p_entry q)
          else fdiv (fsub (max (p_entry q) x) (p_entry q)) (p_entry q))"

text \<open>None is minus infinity; a short position has a finite lowest price from its opening on.\<close>

definition calculate_mfe :: "string \<Rightarrow> calculator \<Rightarrow> pyfloat option" where
  "calculate_mfe a s =
     (case dict_get (positions s) a of
        None \<Rightarrow> Some 0
      | Some q \<Rightarrow>
          if p_type q = LONG then Some (fdiv (fsub (highest_price q) (p_entry q)) (p_entry q))
          else map_option (\<lambda>x. fdiv (fsub (p_entry q) x) (p_entry q)) (lowest_price q))"

definition close_position :: "string \<Rightarrow> pyfloat \<Rightarrow> calculator \<Rightarrow> (exn + summary option) \<times> calculator" where
  "close_position a x s =
     (case dict_get (positions s) a of
        None \<Rightarrow> (Inr None, s)
      | Some q \<Rightarrow>
          if p_entry q = 0 then (Inl ZeroDivisionError, s)
          else
            (let pct = (if p_type q = LONG then fdiv (fsub x (p_entry q)) (p_entry q) else fdiv (fsub (p_entry q) x) (p_entry q));
                 why = (if is_stopped_out a x s then ''STOP_LOSS'' else if fl (1 / 20) < pct then ''TAKE_PROFIT'' else ''MANUAL'')
             in (Inr (Some \<lparr>s_asset = a, s_entry = p_entry q, exit_price = x, pnl_pct = pct, pnl_amount = fmul pct (initial_capital q),
                    exit_reason = why, was_trailing = p_trailing q, max_adverse_excursion = calculate_mae a x s,
                    max_favorable_excursion = calculate_mfe a s\<rparr>),
                 s\<lparr>positions := dict_pop a (positions s)\<rparr>)))"

fun active_loop :: "pyfloat \<Rightarrow> calculator \<Rightarrow> string list \<Rightarrow> (string, StopLossResult) dict \<Rightarrow> exn + (string, StopLossResult) dict" where
  "active_loop now s [] acc = Inr acc"
| "active_loop now s (a # as) acc =
     (case dict_get (atr_calculators s) a of
        None \<Rightarrow> active_loop now s as acc
      | Some t \<Rightarrow>
          if closes t = [] then active_loop now s as acc
          else
            bind (get_current_stop now a (last (closes t)) s) (\<lambda>r.
              active_loop now s as (case r of None \<Rightarrow> acc | Some x \<Rightarrow> dict_set a x acc)))"

definition get_all_active_positions :: "pyfloat \<Rightarrow> calculator \<Rightarrow> exn + (string, StopLossResult) dict" where
  "get_all_active_positions now s = active_loop now s (dict_keys (positions s)) []"


section \<open>Opening\<close>

text \<open>Whatever the average true range, the volatility and the news, a position opens with a stop whose distance lies between the
  configured bounds; for a long position the stop is not above the entry, for a short one not below it.\<close>

theorem opening_stop_in_bounds:
  assumes "open_position np now a ty p cap s = (Inr r, s1)" "min_stop_distance (config s) \<le> max_stop_distance (config s)"
    "0 \<le> min_stop_distance (config s)" "is_float p" "0 \<le> p"
  shows "min_stop_distance (config s) \<le> stop_distance_pct r \<and> stop_distance_pct r \<le> max_stop_distance (config s) \<and>
    (if ty = LONG then stop_price r \<le> p else p \<le> stop_price r) \<and>
    map_option current_stop (dict_get (positions s1) a) = Some (stop_price r)"
proof -
  obtain raw where raw: "raw_distance np a p s = Inr raw" using assms(1) by (auto simp: open_position_def split: sum.splits)
  define d where "d = max (min_stop_distance (config s)) (min raw (max_stop_distance (config s)))"
  have r: "stop_distance_pct r = d" "stop_price r = (if ty = LONG then fmul p (fsub 1 d) else fmul p (fadd 1 d))"
    "map_option current_stop (dict_get (positions s1) a) = Some (stop_price r)"
    using assms(1) by (auto simp: open_position_def raw d_def Let_def dict_get_set split: option.splits)
  have d: "0 \<le> d" unfolding d_def using assms(3) by simp
  have "fsub 1 d \<le> 1" unfolding fsub_def using fl_mono[of "1 - d" 1] d by simp
  then have l: "fmul p (fsub 1 d) \<le> p"
    using fl_mono[of "p * fsub 1 d" p] assms(4,5) by (simp add: fmul_def is_float_def mult_left_le)
  have "1 \<le> fadd 1 d" unfolding fadd_def using fl_mono[of 1 "1 + d"] d by simp
  then have u: "p \<le> fmul p (fadd 1 d)"
    using fl_mono[of p "p * fadd 1 d"] assms(4,5) by (simp add: fmul_def is_float_def mult_le_cancel_left1)
  show ?thesis unfolding r(3) unfolding r(1,2) using l u assms(2) by (simp add: d_def)
qed

text \<open>Opening a position of an asset the calculator was not configured for raises KeyError, after the position has been stored: the
  caller sees a failure and the calculator keeps trailing the position.\<close>

theorem unknown_asset_half_opened:
  assumes "dict_get (stop_history s) a = None" "dict_get (atr_calculators s) a = None"
  shows "fst (open_position np now a ty p cap s) = Inl KeyError \<and>
    map_option p_entry (dict_get (positions (snd (open_position np now a ty p cap s))) a) = Some p"
  using assms by (simp add: open_position_def raw_distance_def atr_of_def Let_def dict_get_set)

text \<open>The widening of a stop for news, high volatility or the minimal distance ends with the first price: after a long position has
  seen its entry price once, its stop is the higher of the opening stop and entry minus the multiple of the average true range, where no
  flag and no bound enters.\<close>

theorem first_price_sheds_widening:
  assumes "open_position np now a LONG p cap s = (Inr r, s1)" "atr_of a s = Some atr" "p \<noteq> 0"
  shows "map_option current_stop (dict_get (positions (snd (update_current_price now' a p s1))) a) =
    Some (max (stop_price r) (fsub p (fmul atr (atr_multiplier (config s)))))"
proof -
  obtain raw where "raw_distance np a p s = Inr raw" using assms(1) by (auto simp: open_position_def split: sum.splits)
  then have "\<exists>q. dict_get (positions s1) a = Some q \<and> p_type q = LONG \<and> highest_price q = p \<and> current_stop q = stop_price r"
    "atr_of a s1 = Some atr" "config s1 = config s"
    using assms(1,2) by (auto simp: open_position_def Let_def dict_get_set atr_of_def split: option.splits)
  then show ?thesis
    by (auto simp: update_current_price_def Let_def dict_get_set note_extreme_def trail_def max_def)
qed

section \<open>Runs\<close>

datatype stop_op =
    News string bool
  | Candle string pyfloat pyfloat pyfloat
  | Open pyfloat string PositionType pyfloat pyfloat
  | Price pyfloat string pyfloat
  | Close string pyfloat

fun stop_step :: "numlib \<Rightarrow> stop_op \<Rightarrow> calculator \<Rightarrow> calculator" where
  "stop_step np (News a b) s = set_news_event a b s"
| "stop_step np (Candle a h l c) s = snd (update_price_data np a h l c s)"
| "stop_step np (Open now a ty p cap) s = snd (open_position np now a ty p cap s)"
| "stop_step np (Price now a p) s = snd (update_current_price now a p s)"
| "stop_step np (Close a x) s = snd (close_position a x s)"

text \<open>In every state: no asset twice among the positions, a short position has seen a price, and no average true range is negative.\<close>

definition stop_inv :: "calculator \<Rightarrow> bool" where
  "stop_inv s \<longleftrightarrow>
     wf_dict (positions s) \<and>
     (\<forall>a q. dict_get (positions s) a = Some q \<longrightarrow> p_type q = SHORT \<longrightarrow> lowest_price q \<noteq> None) \<and>
     (\<forall>a t. dict_get (atr_calculators s) a = Some t \<longrightarrow>
        (\<forall>x. atr_cache t = Some x \<longrightarrow> 0 \<le> x) \<and> (atr_cache t \<noteq> None \<longrightarrow> 0 < period t))"

lemma foldl_fadd_nonneg: "0 \<le> acc \<Longrightarrow> \<forall>x \<in> set xs. 0 \<le> x \<Longrightarrow> 0 \<le> foldl fadd acc xs"
  by (induction xs arbitrary: acc) (auto intro: fadd_nonneg)

lemma true_range_nonneg: "0 \<le> true_range h l c"
  by (simp add: true_range_def le_max_iff_disj)

lemma length_append_max: "length (append_max n x xs) = min (nat n) (Suc (length xs))"
  by (simp add: append_max_def Let_def)

lemma fdiv_nonneg: "0 \<le> x \<Longrightarrow> 0 \<le> y \<Longrightarrow> 0 \<le> fdiv x y"
  by (simp add: fdiv_def)

lemma add_candle_nonneg:
  assumes "\<forall>x. atr_cache t = Some x \<longrightarrow> 0 \<le> x" "atr_cache t \<noteq> None \<longrightarrow> 0 < period t"
  shows "(\<forall>x. atr_cache (snd (add_candle h l c t)) = Some x \<longrightarrow> 0 \<le> x) \<and>
    (atr_cache (snd (add_candle h l c t)) \<noteq> None \<longrightarrow> 0 < period (snd (add_candle h l c t)))"
proof (cases "atr_cache t")
  case None
  have nn: "0 \<le> py_sum (true_ranges s)" for s
    unfolding py_sum_def by (rule foldl_fadd_nonneg) (auto simp: true_ranges_def true_range_nonneg)
  have ne: "true_ranges s \<noteq> [] \<Longrightarrow> Suc 0 < length (highs s)" for s by (simp add: true_ranges_def)
  show ?thesis
    using None by (auto simp: add_candle_def Let_def length_append_max intro!: fdiv_nonneg nn dest!: ne)
next
  case (Some old)
  then have "0 \<le> fmul old (of_int (period t - 1))" using assms by (intro fmul_nonneg) auto
  then show ?thesis
    using Some assms by (auto simp: add_candle_def Let_def true_range_nonneg intro!: fdiv_nonneg fadd_nonneg)
qed

lemma update_price_data_atr:
  "atr_calculators (snd (update_price_data np a h l c s)) =
     (case dict_get (atr_calculators s) a of None \<Rightarrow> atr_calculators s
      | Some t \<Rightarrow> dict_set a (snd (add_candle h l c t)) (atr_calculators s))"
  "positions (snd (update_price_data np a h l c s)) = positions s"
  by (auto simp: update_price_data_def Let_def split: option.splits sum.splits prod.splits)

lemma positions_open:
  "positions (snd (open_position np now a ty p cap s)) = positions s \<or>
   (\<exists>q. positions (snd (open_position np now a ty p cap s)) = dict_set a q (positions s) \<and> (ty = SHORT \<longrightarrow> lowest_price q \<noteq> None) \<and> p_type q = ty)"
  "atr_calculators (snd (open_position np now a ty p cap s)) = atr_calculators s"
  by (auto simp: open_position_def Let_def split: sum.splits option.splits)

lemma trail_fields [simp]:
  "p_type (trail w q) = p_type q" "p_entry (trail w q) = p_entry q" "lowest_price (trail w q) = lowest_price q"
  by (auto simp: trail_def Let_def split: option.splits)

lemma note_extreme_fields [simp]:
  "p_type (note_extreme p q) = p_type q" "p_entry (note_extreme p q) = p_entry q" "current_stop (note_extreme p q) = current_stop q"
  "p_type q = SHORT \<Longrightarrow> \<exists>y. lowest_price (note_extreme p q) = Some y"
  by (auto simp: note_extreme_def)

lemma stop_step_inv: "stop_inv s \<Longrightarrow> stop_inv (stop_step np x s)"
proof (induction x)
  case (News a b)
  then show ?case by (simp add: set_news_event_def stop_inv_def)
next
  case (Candle a h l c)
  then show ?case
    using add_candle_nonneg by (simp add: stop_inv_def update_price_data_atr dict_get_set split: option.split) blast
next
  case (Open now a ty p cap)
  then show ?case
    using positions_open[of np now a ty p cap s] by (auto simp: stop_inv_def dict_get_set split: if_splits)
next
  case (Price now a p)
  then show ?case
    by (auto simp: stop_inv_def update_current_price_def Let_def dict_get_set split: option.splits)
next
  case (Close a x)
  then show ?case by (auto simp: stop_inv_def close_position_def Let_def dict_get_pop split: option.splits)
qed

interpretation stops: op_machine "stop_step np" stop_inv for np
  by unfold_locales (rule stop_step_inv)

lemma per_asset_get: "dict_get (per_asset xs v) a = (if a \<in> set xs then Some v else None)"
proof -
  have "dict_get (fold (\<lambda>a. dict_set a v) xs d) a = (if a \<in> set xs then Some v else dict_get d a)" for d
    by (induction xs arbitrary: d) (auto simp: dict_get_set)
  then show ?thesis by (simp add: per_asset_def)
qed

lemma calc_init_inv: "calc_init c = Inr s \<Longrightarrow> stop_inv s"
  by (auto simp: calc_init_def atr_init_def stop_inv_def per_asset_get elim!: bind_InrE split: if_splits)

text \<open>In every state the calculator can reach, whatever candles, prices and news arrive, no average true range is negative, so the
  trailing distance never points to the wrong side of the price.\<close>

theorem atr_never_negative:
  assumes "calc_init c = Inr s0" "0 \<le> atr_multiplier c" "atr_of a (fold (stop_step np) xs s0) = Some atr"
  shows "0 \<le> atr \<and> 0 \<le> fmul atr (atr_multiplier c)"
proof -
  have "stop_inv (fold (stop_step np) xs s0)" using calc_init_inv assms(1) by (intro stops.run_inv)
  then have "0 \<le> atr" using assms(3) by (auto simp: stop_inv_def atr_of_def get_atr_def split: option.splits)
  then show ?thesis using assms(2) by (simp add: fmul_nonneg)
qed

definition reopens :: "string \<Rightarrow> stop_op \<Rightarrow> bool" where
  "reopens a x \<longleftrightarrow> (\<exists>now ty p cap. x = Open now a ty p cap) \<or> (\<exists>p. x = Close a p)"

text \<open>Between two states the stop of a position moved in its favour only.\<close>

definition tightened :: "string \<Rightarrow> calculator \<Rightarrow> calculator \<Rightarrow> bool" where
  "tightened a s s' \<longleftrightarrow>
     (\<forall>q. dict_get (positions s) a = Some q \<longrightarrow>
        (\<exists>q'. dict_get (positions s') a = Some q' \<and> p_type q' = p_type q \<and> p_entry q' = p_entry q \<and>
           (if p_type q = LONG then current_stop q \<le> current_stop q' else current_stop q' \<le> current_stop q)))"

lemma tightened_refl: "tightened a s s"
  by (simp add: tightened_def)

lemma tightened_trans: "tightened a s s' \<Longrightarrow> tightened a s' s'' \<Longrightarrow> tightened a s s''"
  unfolding tightened_def by (fastforce split: if_splits intro: order_trans)

lemma trail_tightens:
  "if p_type q = LONG then current_stop q \<le> current_stop (trail w q) else current_stop (trail w q) \<le> current_stop q"
  by (auto simp: trail_def Let_def split: option.splits)

lemma tightened_step: "\<not> reopens a x \<Longrightarrow> tightened a s (stop_step np x s)"
proof (induction x)
  case (Open now b ty p cap)
  then show ?case using positions_open(1)[of np now b ty p cap s] by (auto simp: reopens_def tightened_def dict_get_set)
next
  case (Price now b p)
  then show ?case
    using trail_tightens[of "note_extreme p (the (dict_get (positions s) b))"]
    by (auto simp: tightened_def update_current_price_def Let_def dict_get_set split: option.splits)
next
  case (Close b p)
  then show ?case by (auto simp: reopens_def tightened_def close_position_def Let_def dict_get_pop split: option.splits)
qed (auto simp: tightened_def set_news_event_def update_price_data_atr)

text \<open>C9: From its opening to its closing the stop of a long position never falls and that of a short position never rises, whatever
  prices, candles and news arrive and whatever happens to other assets; neither side nor entry price changes.\<close>

theorem stop_only_tightens:
  assumes "calc_init c = Inr s0" "s = fold (stop_step np) pre s0" "\<forall>x \<in> set xs. \<not> reopens a x"
  shows "tightened a s (fold (stop_step np) xs s)"
  unfolding assms(2)
  by (rule stops.run_rel[where ok = "\<lambda>x. \<not> reopens a x"])
    (use assms(3) calc_init_inv[OF assms(1)] in \<open>auto intro: stops.run_inv tightened_refl tightened_trans tightened_step\<close>)

section \<open>Witnesses\<close>

definition demo_config :: StopLossConfig where
  "demo_config = \<lparr>atr_period = 1, atr_multiplier = 2, volatility_lookback = 6, max_stop_distance = 1 / 8, min_stop_distance = 1 / 64,
     assets = [''BTC'', ''ETH'']\<rparr>"

definition demo_np :: numlib where
  "demo_np = \<lparr>np_std = (\<lambda>_. 1), np_mean = (\<lambda>_. 1), sqrt365 = 19\<rparr>"

definition fresh_atr :: ATRCalculator where
  "fresh_atr = \<lparr>period = 1, highs = [], lows = [], closes = [], atr_cache = None\<rparr>"

definition demo_atr :: ATRCalculator where
  "demo_atr = \<lparr>period = 1, highs = [102, 102], lows = [100, 100], closes = [100, 100], atr_cache = Some 2\<rparr>"

definition demo_vol :: "pyfloat list \<Rightarrow> VolatilityEstimator" where
  "demo_vol rs = \<lparr>lookback = 6, returns = rs, vol_cache = None\<rparr>"

definition demo_start :: calculator where
  "demo_start = \<lparr>config = demo_config, atr_calculators = [(''BTC'', fresh_atr), (''ETH'', fresh_atr)],
     volatility_estimators = [(''BTC'', demo_vol []), (''ETH'', demo_vol [])], positions = [], stop_history = [(''BTC'', []), (''ETH'', [])],
     news_event_flags = [(''BTC'', False), (''ETH'', False)]\<rparr>"

definition demo_feed :: "stop_op list" where
  "demo_feed = [Candle ''BTC'' 102 100 100, Candle ''BTC'' 102 100 100, News ''BTC'' True]"

definition demo_calc :: calculator where
  "demo_calc = \<lparr>config = demo_config, atr_calculators = [(''BTC'', demo_atr), (''ETH'', fresh_atr)],
     volatility_estimators = [(''BTC'', demo_vol [0]), (''ETH'', demo_vol [])], positions = [], stop_history = [(''BTC'', []), (''ETH'', [])],
     news_event_flags = [(''BTC'', True), (''ETH'', False)]\<rparr>"

definition demo_opened :: "(exn + StopLossResult) \<times> calculator" where
  "demo_opened = open_position demo_np 7 ''BTC'' LONG 128 1000 demo_calc"

definition demo_result :: StopLossResult where
  "demo_result = \<lparr>asset = ''BTC'', position_type = LONG, entry_price = 128, r_price = 128, stop_price = 120, stop_distance_pct = 1 / 16,
     stop_type = ''atr_based'', is_trailing = False, trailing_profit_locked = 0, volatility_adjustment = 1, r_time = 7\<rparr>"

lemma demo_start_init: "calc_init demo_config = Inr demo_start"
  by (simp add: demo_start_def calc_init_def demo_config_def atr_init_def vol_init_def per_asset_def fresh_atr_def demo_vol_def)

lemmas candle_defs = add_candle_def append_max_def true_ranges_def true_range_def py_sum_def fdiv_def fadd_def fsub_def add_return_def

lemma demo_feed_run: "fold (stop_step demo_np) demo_feed demo_start = demo_calc"
  by (simp add: demo_feed_def demo_start_def demo_calc_def update_price_data_def set_news_event_def candle_defs fresh_atr_def demo_atr_def
    demo_vol_def)

lemma demo_fl: "fl (1 / 64) = 1 / 64" "fl (1 / 32) = 1 / 32" "fl (1 / 16) = 1 / 16" "fl (15 / 16) = 15 / 16"
  by code_simp+

lemma demo_opened_eq: "demo_opened = (Inr demo_result, snd demo_opened)"
proof -
  have "fst demo_opened = Inr demo_result"
    by (simp add: demo_opened_def open_position_def raw_distance_def atr_of_def get_atr_def high_vol_def get_volatility_def in_news_def
      demo_calc_def demo_atr_def demo_vol_def demo_config_def demo_result_def fmul_def fdiv_def fsub_def demo_fl Let_def)
  then show ?thesis by (metis prod.collapse)
qed

lemma demo_calc_config: "config demo_calc = demo_config" and demo_calc_atr: "atr_of ''BTC'' demo_calc = Some 2"
  by (simp_all add: demo_calc_def atr_of_def get_atr_def demo_atr_def)

lemma opening_stop_in_bounds_witness:
  "1 / 64 \<le> stop_distance_pct demo_result \<and> stop_distance_pct demo_result \<le> 1 / 8 \<and> stop_price demo_result \<le> 128 \<and>
   map_option current_stop (dict_get (positions (snd demo_opened)) ''BTC'') = Some (stop_price demo_result)"
  using opening_stop_in_bounds[OF demo_opened_eq[unfolded demo_opened_def]]
  by (simp add: demo_calc_config demo_config_def is_float_def demo_opened_def)

lemma unknown_asset_half_opened_witness:
  "fst (open_position demo_np 7 ''DOGE'' LONG 128 1000 demo_calc) = Inl KeyError \<and>
   map_option p_entry (dict_get (positions (snd (open_position demo_np 7 ''DOGE'' LONG 128 1000 demo_calc))) ''DOGE'') = Some 128"
  by (rule unknown_asset_half_opened) (simp_all add: demo_calc_def)

lemma first_price_sheds_widening_witness:
  "map_option current_stop (dict_get (positions (snd (update_current_price 8 ''BTC'' 128 (snd demo_opened)))) ''BTC'') = Some 124"
  using first_price_sheds_widening[OF demo_opened_eq[unfolded demo_opened_def] demo_calc_atr, of 8]
  by (simp add: demo_calc_config demo_config_def demo_result_def fmul_def fsub_def demo_opened_def)

lemma atr_never_negative_witness: "0 \<le> (2 :: pyfloat) \<and> 0 \<le> fmul 2 (atr_multiplier demo_config)"
proof (rule atr_never_negative[OF demo_start_init])
  show "0 \<le> atr_multiplier demo_config" by (simp add: demo_config_def)
  show "atr_of ''BTC'' (fold (stop_step demo_np) demo_feed demo_start) = Some 2" by (simp add: demo_feed_run demo_calc_atr)
qed

lemma stop_only_tightens_witness:
  "tightened ''BTC'' (fold (stop_step demo_np) (demo_feed @ [Open 7 ''BTC'' LONG 128 1000]) demo_start)
     (fold (stop_step demo_np) [Price 8 ''BTC'' 128, News ''BTC'' False, Price 9 ''BTC'' 140, Price 10 ''BTC'' 130, Close ''ETH'' 5]
        (fold (stop_step demo_np) (demo_feed @ [Open 7 ''BTC'' LONG 128 1000]) demo_start))"
  by (rule stop_only_tightens[OF demo_start_init refl]) (simp add: reopens_def)

end
