(* ===== verification/OrphanResolver.thy ===== *)
theory OrphanResolver
  imports Prelude "HOL-Library.Multiset"
begin

text \<open>
  \<open>recovery/orphan_trade_resolver.py\<close>: comparison of the local orders with the open orders of the exchange, and cancellation of the orphans.

  The exchange is a parameter: the reply to each request. \<open>venue\<close> also holds what the request needs, the keyed hash \<open>hmac\<close> (of the secret and
  the query string) and \<open>read_float\<close>, the float a string denotes. Discrepancies are objects that the list of the resolver and its callers
  share; here they are positions in that list. \<open>clk n\<close> is the time at which the n-th discrepancy of a comparison is made.
\<close>

section \<open>Data\<close>

datatype OrderDiscrepancyType = MISSING_LOCAL | MISSING_EXCHANGE | STATUS_MISMATCH | QUANTITY_MISMATCH | PRICE_MISMATCH

record LocalOrder =
  order_id :: string
  symbol :: string
  side :: string
  order_type :: string
  quantity :: pyfloat
  price :: "pyfloat option"
  filled_quantity :: pyfloat
  status :: string
  created_at :: pyfloat
  exchange_order_id :: "string option"

record ExchangeOrder =
  x_order_id :: string
  x_symbol :: string
  x_side :: string
  x_type :: string
  x_quantity :: pyfloat
  x_price :: "pyfloat option"
  x_filled :: pyfloat
  x_status :: string
  x_created :: pyfloat

record Discrepancy =
  discrepancy_type :: OrderDiscrepancyType
  local_order :: "LocalOrder option"
  exchange_order :: "ExchangeOrder option"
  detected_at :: pyfloat
  severity :: string
  resolved :: bool
  resolution_action :: "string option"
  resolution_time :: "pyfloat option"

definition found :: "OrderDiscrepancyType \<Rightarrow> LocalOrder option \<Rightarrow> ExchangeOrder option \<Rightarrow> string \<Rightarrow> Discrepancy" where
  "found ty l x sev =
     \<lparr>discrepancy_type = ty, local_order = l, exchange_order = x, detected_at = 0, severity = sev, resolved = False,
      resolution_action = None, resolution_time = None\<rparr>"

section \<open>The exchange\<close>

text \<open>An order as the exchange sends it, numbers as strings; the price may be empty.\<close>

record raw_order =
  orderId :: int
  r_symbol :: string
  r_side :: string
  r_type :: string
  origQty :: string
  r_price :: string
  executedQty :: string
  r_status :: string
  r_millis :: int

text \<open>A reply has a status and a body (None when it is not the expected JSON), or the request raises.\<close>

datatype reply = Reply int "raw_order list option" | Raises

record venue =
  open_orders :: "string option \<Rightarrow> reply"
  cancel_reply :: "string \<Rightarrow> string \<Rightarrow> reply"
  hmac :: "string \<Rightarrow> string \<Rightarrow> string"
  read_float :: "string \<Rightarrow> pyfloat option"

record stats =
  total_detected :: int
  total_resolved :: int
  avg_resolution_time_ms :: pyfloat
  failed_resolutions :: int

record resolver =
  api_key :: string
  api_secret :: string
  max_resolution_time_ms :: pyfloat
  local_orders :: "(string, LocalOrder) dict"
  discrepancies :: "Discrepancy list"
  resolution_stats :: stats
  session :: bool
  running :: bool

definition resolver_init :: "string \<Rightarrow> string \<Rightarrow> pyfloat \<Rightarrow> resolver" where
  "resolver_init key secret limit =
     \<lparr>api_key = key, api_secret = secret, max_resolution_time_ms = limit, local_orders = [], discrepancies = [],
      resolution_stats = \<lparr>total_detected = 0, total_resolved = 0, avg_resolution_time_ms = 0, failed_resolutions = 0\<rparr>,
      session = False, running = False\<rparr>"

definition start :: "resolver \<Rightarrow> resolver" where
  "start s = (if session s then s else s\<lparr>session := True, running := True\<rparr>)"

definition stop :: "resolver \<Rightarrow> resolver" where "stop s = s\<lparr>running := False, session := False\<rparr>"

text \<open>\<open>urlencode\<close> on ASCII: letters, digits and four marks stay, a blank becomes a plus, the rest is escaped.\<close>

definition hex_digit :: "nat \<Rightarrow> char" where "hex_digit d = (if d < 10 then char_of (48 + d) else char_of (55 + d))"

definition quote_char :: "char \<Rightarrow> string" where
  "quote_char c =
     (let n = of_char c :: nat
      in if 48 \<le> n \<and> n \<le> 57 \<or> 65 \<le> n \<and> n \<le> 90 \<or> 97 \<le> n \<and> n \<le> 122 \<or> c \<in> set ''_.-~'' then [c]
         else if n = 32 then ''+'' else ''%'' @ [hex_digit (n div 16), hex_digit (n mod 16)])"

definition urlencode :: "(string \<times> string) list \<Rightarrow> string" where
  "urlencode ps = concat (map (\<lambda>(i, k, v). (if i = 0 then [] else ''&'') @ concat (map quote_char k) @ ''='' @ concat (map quote_char v))
     (enumerate 0 ps))"

definition generate_signature :: "venue \<Rightarrow> (string \<times> string) list \<Rightarrow> resolver \<Rightarrow> string" where
  "generate_signature ve ps s = hmac ve (api_secret s) (urlencode ps)"

definition verify_api_signature :: "venue \<Rightarrow> (string \<times> string) list \<Rightarrow> string \<Rightarrow> resolver \<Rightarrow> bool" where
  "verify_api_signature ve ps sig s = (generate_signature ve ps s = sig)"

definition register_local_order :: "LocalOrder \<Rightarrow> resolver \<Rightarrow> resolver" where
  "register_local_order o1 s = s\<lparr>local_orders := dict_set (order_id o1) o1 (local_orders s)\<rparr>"

definition remove_local_order :: "string \<Rightarrow> resolver \<Rightarrow> resolver" where
  "remove_local_order i s = s\<lparr>local_orders := dict_pop i (local_orders s)\<rparr>"

section \<open>Fetching\<close>

text \<open>One order whose numbers cannot be read spoils the whole reply.\<close>

definition read_order :: "venue \<Rightarrow> raw_order \<Rightarrow> ExchangeOrder option" where
  "read_order ve r =
     (case (read_float ve (origQty r), if r_price r = [] then Some None else map_option Some (read_float ve (r_price r)),
            read_float ve (executedQty r)) of
        (Some q, Some p, Some f) \<Rightarrow>
          Some \<lparr>x_order_id = int_str (orderId r), x_symbol = r_symbol r, x_side = r_side r, x_type = r_type r, x_quantity = q, x_price = p,
                x_filled = f, x_status = r_status r, x_created = idiv (r_millis r) 1000\<rparr>
      | _ \<Rightarrow> None)"

fun read_orders :: "venue \<Rightarrow> raw_order list \<Rightarrow> ExchangeOrder list option" where
  "read_orders ve [] = Some []"
| "read_orders ve (r # rs) =
     (case (read_order ve r, read_orders ve rs) of (Some x, Some xs) \<Rightarrow> Some (x # xs) | _ \<Rightarrow> None)"

definition fetch_exchange_orders :: "venue \<Rightarrow> string option \<Rightarrow> resolver \<Rightarrow> exn + ExchangeOrder list" where
  "fetch_exchange_orders ve sy s =
     (if \<not> session s then Inl RuntimeError
      else
        Inr (case open_orders ve sy of
               Reply st (Some rs) \<Rightarrow>
                 if st = 200 then (case read_orders ve rs of None \<Rightarrow> [] | Some xs \<Rightarrow> xs) else []
             | _ \<Rightarrow> []))"

fun fetch_all :: "venue \<Rightarrow> string list \<Rightarrow> resolver \<Rightarrow> exn + ExchangeOrder list" where
  "fetch_all ve [] s = Inr []"
| "fetch_all ve (sy # sys) s =
     bind (fetch_exchange_orders ve (if sy = [] then None else Some sy) s) (\<lambda>xs. bind (fetch_all ve sys s) (\<lambda>ys. Inr (xs @ ys)))"

section \<open>Comparing\<close>

definition local_by_exchange_id :: "resolver \<Rightarrow> (string, LocalOrder) dict" where
  "local_by_exchange_id s =
     dict_of (\<lambda>l. the (exchange_order_id l)) (filter (\<lambda>l. truthy_str (exchange_order_id l)) (dict_values (local_orders s)))"

definition matching :: "resolver \<Rightarrow> ExchangeOrder \<Rightarrow> LocalOrder option" where
  "matching s x =
     (case dict_get (local_by_exchange_id s) (x_order_id x) of
        Some l \<Rightarrow> Some l | None \<Rightarrow> dict_get (local_orders s) (x_order_id x))"

definition compare_order :: "resolver \<Rightarrow> ExchangeOrder \<Rightarrow> Discrepancy list" where
  "compare_order s x =
     (case matching s x of
        None \<Rightarrow> [found MISSING_LOCAL None (Some x) ''critical'']
      | Some l \<Rightarrow>
          (if status l \<noteq> x_status x then [found STATUS_MISMATCH (Some l) (Some x) ''high''] else []) @
          (if fl (1 / 10000) < \<bar>fsub (filled_quantity l) (x_filled x)\<bar> then [found QUANTITY_MISMATCH (Some l) (Some x) ''high''] else []))"

definition stale :: "ExchangeOrder list \<Rightarrow> LocalOrder \<Rightarrow> bool" where
  "stale xs l \<longleftrightarrow>
     truthy_str (exchange_order_id l) \<and> the (exchange_order_id l) \<notin> x_order_id ` set xs \<and>
     status l \<notin> {''CANCELLED'', ''FILLED'', ''REJECTED''}"

definition compare_books :: "ExchangeOrder list \<Rightarrow> resolver \<Rightarrow> Discrepancy list" where
  "compare_books xs s =
     concat (map (compare_order s) xs) @
     map (\<lambda>l. found MISSING_EXCHANGE (Some l) None ''medium'') (filter (stale xs) (dict_values (local_orders s)))"

definition stamp :: "(nat \<Rightarrow> pyfloat) \<Rightarrow> Discrepancy list \<Rightarrow> Discrepancy list" where
  "stamp clk ds = map (\<lambda>(n, d). d\<lparr>detected_at := clk n\<rparr>) (enumerate 0 ds)"

definition fetched :: "venue \<Rightarrow> string list option \<Rightarrow> resolver \<Rightarrow> exn + ExchangeOrder list" where
  "fetched ve syms s =
     (case syms of
        Some (sy # sys) \<Rightarrow> fetch_all ve (sy # sys) s
      | _ \<Rightarrow> fetch_exchange_orders ve None s)"

text \<open>The second half runs after the last reply, on the local orders of that time.\<close>

definition store_comparison :: "(nat \<Rightarrow> pyfloat) \<Rightarrow> ExchangeOrder list \<Rightarrow> resolver \<Rightarrow> Discrepancy list \<times> resolver" where
  "store_comparison clk xs s =
     (let ds = stamp clk (compare_books xs s); st = resolution_stats s
      in (ds, s\<lparr>discrepancies := discrepancies s @ ds,
                resolution_stats := st\<lparr>total_detected := total_detected st + int (length ds)\<rparr>\<rparr>))"

definition reconcile :: "venue \<Rightarrow> (nat \<Rightarrow> pyfloat) \<Rightarrow> string list option \<Rightarrow> resolver \<Rightarrow> (exn + Discrepancy list) \<times> resolver" where
  "reconcile ve clk syms s =
     (case fetched ve syms s of
        Inl e \<Rightarrow> (Inl e, s)
      | Inr xs \<Rightarrow> (let (ds, s1) = store_comparison clk xs s in (Inr ds, s1)))"

section \<open>Resolving\<close>

definition cancel_order :: "venue \<Rightarrow> string \<Rightarrow> string \<Rightarrow> resolver \<Rightarrow> exn + bool" where
  "cancel_order ve sy i s =
     (if \<not> session s then Inl RuntimeError
      else Inr (case cancel_reply ve sy i of Reply st _ \<Rightarrow> st = 200 \<or> st = 400 | Raises \<Rightarrow> False))"

definition fail_resolution :: "resolver \<Rightarrow> resolver" where
  "fail_resolution s = s\<lparr>resolution_stats := (resolution_stats s)\<lparr>failed_resolutions := failed_resolutions (resolution_stats s) + 1\<rparr>\<rparr>"

definition count_resolution :: "pyfloat \<Rightarrow> resolver \<Rightarrow> resolver" where
  "count_resolution ms s =
     (let st = resolution_stats s; n = total_resolved st + 1; avg = avg_resolution_time_ms st
      in s\<lparr>resolution_stats := st\<lparr>total_resolved := n, avg_resolution_time_ms := fadd avg (fdiv (fsub ms avg) (of_int n))\<rparr>\<rparr>)"

definition mark_resolution :: "nat \<Rightarrow> bool \<Rightarrow> pyfloat \<Rightarrow> resolver \<Rightarrow> resolver" where
  "mark_resolution k ok ms s =
     s\<lparr>discrepancies := (discrepancies s)[k := (discrepancies s ! k)\<lparr>resolved := ok,
          resolution_action := Some (if ok then ''cancelled'' else ''failed''), resolution_time := Some ms\<rparr>]\<rparr>"

text \<open>\<open>ms\<close> is what the request took.\<close>

definition resolve_orphan_order :: "venue \<Rightarrow> pyfloat \<Rightarrow> nat \<Rightarrow> resolver \<Rightarrow> bool \<times> resolver" where
  "resolve_orphan_order ve ms k s =
     (let d = discrepancies s ! k
      in if discrepancy_type d \<noteq> MISSING_LOCAL then (False, s)
         else
           (case exchange_order d of
              None \<Rightarrow> (False, s)
            | Some x \<Rightarrow>
                (case cancel_order ve (x_symbol x) (x_order_id x) s of
                   Inl e \<Rightarrow> (False, fail_resolution s)
                 | Inr ok \<Rightarrow>
                     (let s1 = mark_resolution k ok ms s
                      in if ok then (True, count_resolution ms s1) else (False, fail_resolution s1)))))"

definition unresolved_orphans :: "resolver \<Rightarrow> nat list" where
  "unresolved_orphans s =
     filter (\<lambda>k. discrepancy_type (discrepancies s ! k) = MISSING_LOCAL \<and> \<not> resolved (discrepancies s ! k)) [0..<length (discrepancies s)]"

text \<open>The requests run concurrently: \<open>ks\<close> lists the discrepancies in the order in which their replies arrive.\<close>

fun resolve_each :: "venue \<Rightarrow> (nat \<Rightarrow> pyfloat) \<Rightarrow> nat list \<Rightarrow> resolver \<Rightarrow> int \<times> resolver" where
  "resolve_each ve ms [] s = (0, s)"
| "resolve_each ve ms (k # ks) s =
     (let (ok, s1) = resolve_orphan_order ve (ms k) k s; (n, s2) = resolve_each ve ms ks s1
      in ((if ok then n + 1 else n), s2))"

definition resolve_all_orphans :: "venue \<Rightarrow> (nat \<Rightarrow> pyfloat) \<Rightarrow> (nat list \<Rightarrow> nat list) \<Rightarrow> nat list option \<Rightarrow> resolver \<Rightarrow> int \<times> resolver" where
  "resolve_all_orphans ve ms arrival ks s =
     resolve_each ve ms (arrival (case ks of None \<Rightarrow> unresolved_orphans s | Some l \<Rightarrow> l)) s"

definition get_resolution_stats :: "resolver \<Rightarrow> stats" where "get_resolution_stats s = resolution_stats s"

definition get_pending_discrepancies :: "resolver \<Rightarrow> Discrepancy list" where
  "get_pending_discrepancies s = filter (\<lambda>d. \<not> resolved d) (discrepancies s)"


section \<open>Detection\<close>

lemma int_str_ne [simp]: "int_str i \<noteq> []"
  using digits10_hd[of "nat (- i)"] digits10_hd[of "nat i"] by (auto simp: int_str_def)

lemma read_order_id: "read_order ve r = Some x \<Longrightarrow> x_order_id x = int_str (orderId r) \<and> x_symbol x = r_symbol r"
  by (auto simp: read_order_def split: option.splits if_splits)

lemma read_orders_mem: "read_orders ve rs = Some xs \<Longrightarrow> x \<in> set xs \<Longrightarrow> \<exists>r \<in> set rs. read_order ve r = Some x"
  by (induction rs arbitrary: xs) (auto split: option.splits)

text \<open>An order that reaches the comparison was sent in a good reply to one of the requests.\<close>

definition asked :: "string list option \<Rightarrow> string option \<Rightarrow> bool" where
  "asked syms q \<longleftrightarrow> (case syms of Some (sy # sys) \<Rightarrow> q \<in> (\<lambda>t. if t = [] then None else Some t) ` set (sy # sys) | _ \<Rightarrow> q = None)"

lemma fetch_mem:
  assumes "fetch_exchange_orders ve q s = Inr xs" "x \<in> set xs"
  shows "\<exists>rs r. open_orders ve q = Reply 200 (Some rs) \<and> r \<in> set rs \<and> read_order ve r = Some x"
  using assms by (auto simp: fetch_exchange_orders_def dest: read_orders_mem split: if_splits reply.splits option.splits)

lemma fetch_all_mem:
  "fetch_all ve sys s = Inr xs \<Longrightarrow> x \<in> set xs \<Longrightarrow>
   \<exists>sy \<in> set sys. \<exists>rs r. open_orders ve (if sy = [] then None else Some sy) = Reply 200 (Some rs) \<and> r \<in> set rs \<and> read_order ve r = Some x"
proof (induction sys arbitrary: xs)
  case (Cons sy sys)
  from Cons.prems(1) obtain ys zs where "fetch_exchange_orders ve (if sy = [] then None else Some sy) s = Inr ys"
      "fetch_all ve sys s = Inr zs" "xs = ys @ zs" by (auto elim!: bind_InrE)
  then show ?case using Cons.IH[of zs] Cons.prems(2) fetch_mem by fastforce
qed simp

lemma fetched_mem:
  assumes "fetched ve syms s = Inr xs" "x \<in> set xs"
  shows "\<exists>q rs r. asked syms q \<and> open_orders ve q = Reply 200 (Some rs) \<and> r \<in> set rs \<and> read_order ve r = Some x"
proof (cases "\<exists>sy sys. syms = Some (sy # sys)")
  case True
  then obtain sy sys where sy: "syms = Some (sy # sys)" by blast
  then obtain t rs r where "t \<in> set (sy # sys)" "open_orders ve (if t = [] then None else Some t) = Reply 200 (Some rs)"
      "r \<in> set rs" "read_order ve r = Some x"
    using fetch_all_mem[of ve "sy # sys" s xs x] assms by (auto simp: fetched_def)
  moreover have "asked syms (if t = [] then None else Some t)"
    unfolding asked_def sy option.case list.case using calculation(1) by (rule imageI)
  ultimately show ?thesis by blast
next
  case False
  then have "asked syms None" "fetched ve syms s = fetch_exchange_orders ve None s"
    by (auto simp: asked_def fetched_def split: option.split list.split)
  then show ?thesis using fetch_mem assms by metis
qed

lemma fetched_id_ne: "fetched ve syms s = Inr xs \<Longrightarrow> x \<in> set xs \<Longrightarrow> x_order_id x \<noteq> []"
  using fetched_mem read_order_id int_str_ne by metis

lemma set_stamp_ex:
  "(\<exists>d \<in> set (stamp clk ds). P (discrepancy_type d) (local_order d) (exchange_order d)) \<longleftrightarrow>
   (\<exists>d \<in> set ds. P (discrepancy_type d) (local_order d) (exchange_order d))"
proof -
  have "map (\<lambda>d. (discrepancy_type d, local_order d, exchange_order d)) (stamp clk ds) =
      map (\<lambda>d. (discrepancy_type d, local_order d, exchange_order d)) ds"
    by (rule nth_equalityI) (simp_all add: stamp_def nth_enumerate_eq)
  then have "(\<lambda>d. (discrepancy_type d, local_order d, exchange_order d)) ` set (stamp clk ds) =
      (\<lambda>d. (discrepancy_type d, local_order d, exchange_order d)) ` set ds" unfolding set_map[symmetric] by (rule arg_cong)
  then have "(\<exists>(t, l, e) \<in> (\<lambda>d. (discrepancy_type d, local_order d, exchange_order d)) ` set (stamp clk ds). P t l e) \<longleftrightarrow>
      (\<exists>(t, l, e) \<in> (\<lambda>d. (discrepancy_type d, local_order d, exchange_order d)) ` set ds. P t l e)" by (simp only:)
  then show ?thesis by (simp only: bex_simps prod.case)
qed

lemma length_stamp [simp]: "length (stamp clk ds) = length ds"
  by (simp add: stamp_def)

lemma reconcile_eq:
  assumes "reconcile ve clk syms s = (Inr ds, s1)"
  obtains xs where "fetched ve syms s = Inr xs" "ds = stamp clk (compare_books xs s)"
  using assms by (auto simp: reconcile_def store_comparison_def Let_def split: sum.splits)

lemma dict_of_None: "dict_get (dict_of key xs) k = None \<longleftrightarrow> (\<forall>x \<in> set xs. key x \<noteq> k)"
proof -
  have "dict_get (dict_of key xs) k = None \<longleftrightarrow> filter (\<lambda>x. key x = k) (rev xs) = []"
    by (simp add: dict_of_get split: list.split)
  then show ?thesis by (simp add: filter_empty_conv)
qed

lemma compare_order_missing:
  "(\<exists>d \<in> set (compare_order s y). discrepancy_type d = MISSING_LOCAL \<and> exchange_order d = Some x) \<longleftrightarrow> y = x \<and> matching s y = None"
  "(\<exists>d \<in> set (compare_order s y). discrepancy_type d = MISSING_EXCHANGE \<and> local_order d = Some l) \<longleftrightarrow> False"
  by (auto simp: compare_order_def found_def split: option.split)

lemma compare_books_missing:
  "(\<exists>d \<in> set (compare_books xs s). discrepancy_type d = MISSING_LOCAL \<and> exchange_order d = Some x) \<longleftrightarrow> x \<in> set xs \<and> matching s x = None"
  "(\<exists>d \<in> set (compare_books xs s). discrepancy_type d = MISSING_EXCHANGE \<and> local_order d = Some l) \<longleftrightarrow>
     l \<in> set (dict_values (local_orders s)) \<and> stale xs l"
proof -
  have g: "(\<exists>d \<in> set (map (\<lambda>l. found MISSING_EXCHANGE (Some l) None sv) (filter P vs)). Q d) \<longleftrightarrow>
      (\<exists>l \<in> set vs. P l \<and> Q (found MISSING_EXCHANGE (Some l) None sv))" for sv P vs Q by auto
  show "(\<exists>d \<in> set (compare_books xs s). discrepancy_type d = MISSING_LOCAL \<and> exchange_order d = Some x) \<longleftrightarrow>
      x \<in> set xs \<and> matching s x = None"
    unfolding compare_books_def set_append bex_Un g set_concat set_map UN_iff
    using compare_order_missing(1)[of s _ x] by (auto simp: found_def)
  show "(\<exists>d \<in> set (compare_books xs s). discrepancy_type d = MISSING_EXCHANGE \<and> local_order d = Some l) \<longleftrightarrow>
      l \<in> set (dict_values (local_orders s)) \<and> stale xs l"
    unfolding compare_books_def set_append bex_Un g
    using compare_order_missing(2)[of s _ l] by (auto simp: found_def)
qed

lemma matching_None:
  assumes "x_order_id x \<noteq> []"
  shows "matching s x = None \<longleftrightarrow>
    dict_get (local_orders s) (x_order_id x) = None \<and> (\<forall>l \<in> set (dict_values (local_orders s)). exchange_order_id l \<noteq> Some (x_order_id x))"
proof -
  have "dict_get (local_by_exchange_id s) (x_order_id x) = None \<longleftrightarrow>
      (\<forall>l \<in> set (dict_values (local_orders s)). exchange_order_id l \<noteq> Some (x_order_id x))"
    unfolding local_by_exchange_id_def dict_of_None set_filter using assms by (force simp: truthy_str_def split: option.splits)
  then show ?thesis by (auto simp: matching_def split: option.split)
qed

text \<open>C28: A comparison reports an order of the exchange as an orphan exactly when no local order has its id, neither as its own nor as the id
  the exchange gave it.\<close>

theorem orphan_iff_unknown:
  assumes "reconcile ve clk syms s = (Inr ds, s1)" "fetched ve syms s = Inr xs" "x \<in> set xs"
  shows "(\<exists>d \<in> set ds. discrepancy_type d = MISSING_LOCAL \<and> exchange_order d = Some x) \<longleftrightarrow>
    dict_get (local_orders s) (x_order_id x) = None \<and> (\<forall>l \<in> set (dict_values (local_orders s)). exchange_order_id l \<noteq> Some (x_order_id x))"
proof -
  have "(\<exists>d \<in> set ds. discrepancy_type d = MISSING_LOCAL \<and> exchange_order d = Some x) \<longleftrightarrow>
      (\<exists>d \<in> set (compare_books xs s). discrepancy_type d = MISSING_LOCAL \<and> exchange_order d = Some x)"
    using assms(1,2) set_stamp_ex[of clk "compare_books xs s" "\<lambda>t _ e. t = MISSING_LOCAL \<and> e = Some x"]
    by (auto elim!: reconcile_eq)
  also have "\<dots> \<longleftrightarrow> matching s x = None"
    using assms(3) by (simp add: compare_books_missing)
  also have "\<dots> \<longleftrightarrow> dict_get (local_orders s) (x_order_id x) = None \<and>
      (\<forall>l \<in> set (dict_values (local_orders s)). exchange_order_id l \<noteq> Some (x_order_id x))"
    by (rule matching_None) (use assms(2,3) fetched_id_ne in blast)
  finally show ?thesis .
qed

lemma stale_reported:
  assumes "reconcile ve clk syms s = (Inr ds, s1)" "fetched ve syms s = Inr xs"
  shows "(\<exists>d \<in> set ds. discrepancy_type d = MISSING_EXCHANGE \<and> local_order d = Some l) \<longleftrightarrow>
    l \<in> set (dict_values (local_orders s)) \<and> stale xs l"
proof -
  have "(\<exists>d \<in> set ds. discrepancy_type d = MISSING_EXCHANGE \<and> local_order d = Some l) \<longleftrightarrow>
      (\<exists>d \<in> set (compare_books xs s). discrepancy_type d = MISSING_EXCHANGE \<and> local_order d = Some l)"
    using assms set_stamp_ex[of clk "compare_books xs s" "\<lambda>t o1 _. t = MISSING_EXCHANGE \<and> o1 = Some l"]
    by (auto elim!: reconcile_eq)
  then show ?thesis by (simp only: compare_books_missing)
qed

text \<open>An order the local books hold as open on the exchange.\<close>

definition live :: "LocalOrder \<Rightarrow> bool" where
  "live l \<longleftrightarrow> truthy_str (exchange_order_id l) \<and> status l \<notin> {''CANCELLED'', ''FILLED'', ''REJECTED''}"

text \<open>When the exchange cannot be reached, or answers with an error or with text that cannot be read, the comparison does not fail: it
  takes the exchange to be empty and reports every live local order as missing there, and nothing else.\<close>

theorem failed_fetch_flags_all:
  assumes "session s" "\<forall>q rs. open_orders ve q \<noteq> Reply 200 (Some rs)"
  shows "\<exists>ds s1. reconcile ve clk syms s = (Inr ds, s1) \<and> discrepancies s1 = discrepancies s @ ds \<and>
    map (\<lambda>d. (discrepancy_type d, local_order d)) ds =
      map (\<lambda>l. (MISSING_EXCHANGE, Some l)) (filter live (dict_values (local_orders s)))"
proof -
  have one: "fetch_exchange_orders ve q s = Inr []" for q
    using assms by (auto simp: fetch_exchange_orders_def split: reply.split option.split)
  have "fetch_all ve sys s = Inr []" for sys by (induction sys) (simp_all add: one)
  then have f: "fetched ve syms s = Inr []" by (auto simp: fetched_def one split: option.split list.split)
  let ?ds = "map (\<lambda>l. found MISSING_EXCHANGE (Some l) None ''medium'') (filter live (dict_values (local_orders s)))"
  have "stale [] = live" by (auto simp: stale_def live_def)
  then have b: "compare_books [] s = ?ds" by (simp add: compare_books_def)
  have "map (\<lambda>d. (discrepancy_type d, local_order d)) (stamp clk ?ds) = map (\<lambda>d. (discrepancy_type d, local_order d)) ?ds"
    by (rule nth_equalityI) (simp_all add: stamp_def nth_enumerate_eq)
  also have "\<dots> = map (\<lambda>l. (MISSING_EXCHANGE, Some l)) (filter live (dict_values (local_orders s)))"
    by (simp add: found_def)
  finally show ?thesis by (simp add: reconcile_def f store_comparison_def b Let_def)
qed

text \<open>Reconciling a list of symbols reports the live orders of every other symbol as missing on the exchange: the local orders are
  not restricted to the symbols that were asked for. (The exchange answers a question about a symbol with orders of that symbol, and an id
  belongs to one symbol.)\<close>

theorem other_symbols_flagged:
  assumes "reconcile ve clk (Some syms) s = (Inr ds, s1)" "syms \<noteq> []" "[] \<notin> set syms" "l \<in> set (dict_values (local_orders s))" "live l"
    "symbol l \<notin> set syms" "\<forall>sy rs r. open_orders ve (Some sy) = Reply 200 (Some rs) \<longrightarrow> r \<in> set rs \<longrightarrow> r_symbol r = sy"
    "\<forall>q rs r. open_orders ve q = Reply 200 (Some rs) \<longrightarrow> r \<in> set rs \<longrightarrow> exchange_order_id l = Some (int_str (orderId r)) \<longrightarrow> r_symbol r = symbol l"
  shows "\<exists>d \<in> set ds. discrepancy_type d = MISSING_EXCHANGE \<and> local_order d = Some l"
proof -
  obtain xs where xs: "fetched ve (Some syms) s = Inr xs" using assms(1) by (rule reconcile_eq)
  have "x_order_id x \<noteq> the (exchange_order_id l)" if x: "x \<in> set xs" for x :: ExchangeOrder
  proof
    assume eq: "x_order_id x = the (exchange_order_id l)"
    obtain q rs r where q: "asked (Some syms) q" "open_orders ve q = Reply 200 (Some rs)" "r \<in> set rs" "read_order ve r = Some x"
      using fetched_mem[OF xs x] by blast
    obtain sy where sy: "q = Some sy" "sy \<in> set syms"
      using q(1) assms(2,3) by (cases syms) (auto simp: asked_def split: if_splits)
    have "exchange_order_id l = Some (int_str (orderId r))"
      using eq read_order_id[OF q(4)] assms(5) by (auto simp: live_def truthy_str_def split: option.splits)
    then have "r_symbol r = symbol l" using assms(8) q(2,3) by blast
    moreover have "r_symbol r = sy" using assms(7) q(2,3) sy(1) by blast
    ultimately show False using sy(2) assms(6) by simp
  qed
  then have "the (exchange_order_id l) \<notin> x_order_id ` set xs" by (metis imageE)
  then have "stale xs l" using assms(5) by (auto simp: stale_def live_def)
  then show ?thesis using stale_reported[OF assms(1) xs] assms(4) by blast
qed

section \<open>Resolution\<close>

text \<open>What the venue says to the cancellation of an order, as the code reads it.\<close>

definition taken_as_cancelled :: "venue \<Rightarrow> Discrepancy \<Rightarrow> bool" where
  "taken_as_cancelled ve d =
     (case exchange_order d of
        None \<Rightarrow> False
      | Some x \<Rightarrow> (case cancel_reply ve (x_symbol x) (x_order_id x) of Reply st _ \<Rightarrow> st = 200 \<or> st = 400 | Raises \<Rightarrow> False))"

definition orphan :: "Discrepancy \<Rightarrow> bool" where
  "orphan d \<longleftrightarrow> discrepancy_type d = MISSING_LOCAL \<and> exchange_order d \<noteq> None"

definition settled :: "bool \<Rightarrow> pyfloat \<Rightarrow> Discrepancy \<Rightarrow> Discrepancy" where
  "settled ok ms d = d\<lparr>resolved := ok, resolution_action := Some (if ok then ''cancelled'' else ''failed''), resolution_time := Some ms\<rparr>"

lemma settled_fields [simp]:
  "resolved (settled ok ms d) = ok" "discrepancy_type (settled ok ms d) = discrepancy_type d"
  "exchange_order (settled ok ms d) = exchange_order d"
  by (simp_all add: settled_def)

lemma mark_resolution_fields [simp]:
  "discrepancies (mark_resolution k ok ms s) = (discrepancies s)[k := settled ok ms (discrepancies s ! k)]"
  "resolution_stats (mark_resolution k ok ms s) = resolution_stats s" "local_orders (mark_resolution k ok ms s) = local_orders s"
  "session (mark_resolution k ok ms s) = session s"
  by (simp_all add: mark_resolution_def settled_def)

lemma resolve_one:
  assumes "session s" "orphan (discrepancies s ! k)"
  shows "fst (resolve_orphan_order ve ms k s) = taken_as_cancelled ve (discrepancies s ! k) \<and>
    session (snd (resolve_orphan_order ve ms k s)) \<and>
    discrepancies (snd (resolve_orphan_order ve ms k s)) =
      (discrepancies s)[k := settled (taken_as_cancelled ve (discrepancies s ! k)) ms (discrepancies s ! k)]"
proof -
  obtain x where x: "exchange_order (discrepancies s ! k) = Some x" using assms(2) by (auto simp: orphan_def)
  then have "cancel_order ve (x_symbol x) (x_order_id x) s = Inr (taken_as_cancelled ve (discrepancies s ! k))"
    using assms(1) by (simp add: cancel_order_def taken_as_cancelled_def)
  then show ?thesis
    using x assms by (cases "taken_as_cancelled ve (discrepancies s ! k)")
      (simp_all add: resolve_orphan_order_def orphan_def count_resolution_def fail_resolution_def Let_def)
qed

text \<open>An orphan counts as cancelled also when the exchange refuses the cancellation with status 400, whatever the reason; the order may
  still be open, and no later pass looks at it again.\<close>

theorem refused_cancel_counts:
  assumes "session s" "k < length (discrepancies s)" "discrepancy_type (discrepancies s ! k) = MISSING_LOCAL"
    "exchange_order (discrepancies s ! k) = Some x" "cancel_reply ve (x_symbol x) (x_order_id x) = Reply 400 body"
    "resolve_orphan_order ve ms k s = (b, s')"
  shows "b \<and> resolved (discrepancies s' ! k) \<and> resolution_action (discrepancies s' ! k) = Some ''cancelled'' \<and>
    k \<notin> set (unresolved_orphans s')"
  using resolve_one[of s k ve ms] assms by (auto simp: orphan_def taken_as_cancelled_def unresolved_orphans_def settled_def)

lemma resolve_each_spec:
  assumes "session s" "distinct ks" "\<forall>k \<in> set ks. k < length (discrepancies s) \<and> orphan (discrepancies s ! k)"
    "resolve_each ve ms ks s = (n, s')"
  shows "n = int (length (filter (\<lambda>k. taken_as_cancelled ve (discrepancies s ! k)) ks)) \<and>
    discrepancies s' = map (\<lambda>k. if k \<in> set ks then settled (taken_as_cancelled ve (discrepancies s ! k)) (ms k) (discrepancies s ! k)
      else discrepancies s ! k) [0..<length (discrepancies s)]"
  using assms
proof (induction ks arbitrary: s n)
  case Nil
  then show ?case by (simp add: map_nth)
next
  case (Cons k ks)
  let ?d = "discrepancies s ! k"
  obtain s1 where s1: "resolve_orphan_order ve (ms k) k s = (taken_as_cancelled ve ?d, s1)" "session s1"
      "discrepancies s1 = (discrepancies s)[k := settled (taken_as_cancelled ve ?d) (ms k) ?d]"
    using resolve_one[of s k ve "ms k"] Cons.prems(1,3) by (cases "resolve_orphan_order ve (ms k) k s") auto
  obtain m where m: "resolve_each ve ms ks s1 = (m, s')" "n = (if taken_as_cancelled ve ?d then m + 1 else m)"
    using Cons.prems(4) s1(1) by (auto split: prod.splits)
  have other: "j \<in> set ks \<Longrightarrow> discrepancies s1 ! j = discrepancies s ! j" for j
    using Cons.prems(2) s1(3) by (cases "j = k") auto
  have ih: "m = int (length (filter (\<lambda>k. taken_as_cancelled ve (discrepancies s1 ! k)) ks)) \<and>
    discrepancies s' = map (\<lambda>k. if k \<in> set ks then settled (taken_as_cancelled ve (discrepancies s1 ! k)) (ms k) (discrepancies s1 ! k)
      else discrepancies s1 ! k) [0..<length (discrepancies s1)]"
    using Cons.prems(2,3) other by (intro Cons.IH[OF s1(2) _ _ m(1)]) (auto simp: s1(3))
  have "filter (\<lambda>k. taken_as_cancelled ve (discrepancies s1 ! k)) ks = filter (\<lambda>k. taken_as_cancelled ve (discrepancies s ! k)) ks"
    using other by (auto intro: filter_cong)
  moreover have "discrepancies s' = map (\<lambda>j. if j \<in> set (k # ks) then settled (taken_as_cancelled ve (discrepancies s ! j)) (ms j) (discrepancies s ! j)
      else discrepancies s ! j) [0..<length (discrepancies s)]"
    using ih other Cons.prems(2) by (auto simp: s1(3) nth_list_update)
  ultimately show ?case using ih m(2) by simp
qed

section \<open>Runs\<close>

datatype res_op =
    Register LocalOrder
  | Forget string
  | Reconcile venue "nat \<Rightarrow> pyfloat" "string list option"
  | ResolveAll venue "nat \<Rightarrow> pyfloat" "nat list \<Rightarrow> nat list"
  | ResolveOne venue pyfloat nat
  | Start
  | Stop

text \<open>A caller can only hand over discrepancies it was given.\<close>

fun res_step :: "res_op \<Rightarrow> resolver \<Rightarrow> resolver" where
  "res_step (Register l) s = register_local_order l s"
| "res_step (Forget i) s = remove_local_order i s"
| "res_step (Reconcile ve clk syms) s = snd (reconcile ve clk syms s)"
| "res_step (ResolveAll ve ms arrival) s =
     (if mset (arrival (unresolved_orphans s)) = mset (unresolved_orphans s) then snd (resolve_all_orphans ve ms arrival None s) else s)"
| "res_step (ResolveOne ve ms k) s = (if k < length (discrepancies s) then snd (resolve_orphan_order ve ms k s) else s)"
| "res_step Start s = start s"
| "res_step Stop s = stop s"

definition res_inv :: "resolver \<Rightarrow> bool" where
  "res_inv s \<longleftrightarrow>
     wf_dict (local_orders s) \<and>
     (\<forall>d \<in> set (discrepancies s). discrepancy_type d = MISSING_LOCAL \<longrightarrow> orphan d) \<and>
     total_detected (resolution_stats s) = int (length (discrepancies s)) \<and>
     int (length (filter resolved (discrepancies s))) \<le> total_resolved (resolution_stats s)"

lemma res_inv_init: "res_inv (resolver_init key secret limit)"
  by (simp add: res_inv_def resolver_init_def)

lemma compare_books_orphans: "\<forall>d \<in> set (stamp clk (compare_books xs s)). (discrepancy_type d = MISSING_LOCAL \<longrightarrow> orphan d) \<and> \<not> resolved d"
proof
  fix d
  assume "d \<in> set (stamp clk (compare_books xs s))"
  then obtain d0 t where d: "d = d0\<lparr>detected_at := t\<rparr>" "d0 \<in> set (compare_books xs s)"
    by (auto simp: stamp_def in_set_enumerate_eq)
  have "\<forall>d \<in> set (compare_order s x). (discrepancy_type d = MISSING_LOCAL \<longrightarrow> orphan d) \<and> \<not> resolved d" for x
    by (auto simp: compare_order_def found_def orphan_def split: option.split)
  then have "(discrepancy_type d0 = MISSING_LOCAL \<longrightarrow> orphan d0) \<and> \<not> resolved d0"
    using d(2) by (auto simp: compare_books_def found_def)
  then show "(discrepancy_type d = MISSING_LOCAL \<longrightarrow> orphan d) \<and> \<not> resolved d" by (simp add: d(1) orphan_def)
qed

lemma filter_resolved_update:
  assumes "k < length ds"
  shows "int (length (filter resolved (ds[k := d]))) \<le> int (length (filter resolved ds)) + (if resolved d then 1 else 0)"
proof -
  have split: "ds = take k ds @ ds ! k # drop (Suc k) ds" using assms by (rule id_take_nth_drop)
  have "length (filter resolved ds) = length (filter resolved (take k ds)) + (if resolved (ds ! k) then 1 else 0)
      + length (filter resolved (drop (Suc k) ds))"
    by (subst split) (simp del: append_take_drop_id)
  then show ?thesis using assms by (simp add: upd_conv_take_nth_drop)
qed

lemma resolve_one_inv:
  assumes "res_inv s" "k < length (discrepancies s)"
  shows "res_inv (snd (resolve_orphan_order ve ms k s)) \<and>
    length (discrepancies (snd (resolve_orphan_order ve ms k s))) = length (discrepancies s)"
proof -
  let ?d = "discrepancies s ! k"
  have o1: "\<forall>d \<in> set ((discrepancies s)[k := settled ok ms ?d]). discrepancy_type d = MISSING_LOCAL \<longrightarrow> orphan d" for ok
    using assms set_update_subset_insert[of "discrepancies s" k "settled ok ms ?d"] nth_mem[OF assms(2)]
    by (auto simp: res_inv_def orphan_def)
  have f: "int (length (filter resolved ((discrepancies s)[k := settled ok ms ?d]))) \<le>
      total_resolved (resolution_stats s) + (if ok then 1 else 0)" for ok
    using filter_resolved_update[OF assms(2), of "settled ok ms ?d"] assms(1) unfolding res_inv_def settled_fields by linarith
  have "snd (resolve_orphan_order ve ms k s) \<in> {s, fail_resolution s, count_resolution ms (mark_resolution k True ms s),
      fail_resolution (mark_resolution k False ms s)}"
    by (simp add: resolve_orphan_order_def Let_def split: option.split sum.split)
  then consider "snd (resolve_orphan_order ve ms k s) = s" | "snd (resolve_orphan_order ve ms k s) = fail_resolution s"
    | "snd (resolve_orphan_order ve ms k s) = count_resolution ms (mark_resolution k True ms s)"
    | "snd (resolve_orphan_order ve ms k s) = fail_resolution (mark_resolution k False ms s)" by blast
  then show ?thesis
  proof cases
    case 3
    then show ?thesis
      using assms o1[of True] f[of True]
      by (simp add: res_inv_def count_resolution_def Let_def)
  next
    case 4
    then show ?thesis
      using assms o1[of False] f[of False]
      by (simp add: res_inv_def fail_resolution_def Let_def)
  qed (use assms in \<open>auto simp: res_inv_def fail_resolution_def\<close>)
qed

lemma resolve_each_inv:
  "res_inv s \<Longrightarrow> \<forall>k \<in> set ks. k < length (discrepancies s) \<Longrightarrow> res_inv (snd (resolve_each ve ms ks s))"
proof (induction ks arbitrary: s)
  case (Cons k ks)
  have "res_inv (snd (resolve_each ve ms ks (snd (resolve_orphan_order ve (ms k) k s))))"
    using Cons.prems resolve_one_inv[OF Cons.prems(1)] by (intro Cons.IH) auto
  then show ?case by (simp add: case_prod_unfold Let_def)
qed simp

lemma res_step_inv: "res_inv s \<Longrightarrow> res_inv (res_step x s)"
proof (induction x)
  case (Reconcile ve clk syms)
  show ?case
  proof (cases "fetched ve syms s")
    case (Inr xs)
    have "filter resolved (stamp clk (compare_books xs s)) = []"
      using compare_books_orphans[of clk xs s] by (simp add: filter_empty_conv)
    then show ?thesis
      using Reconcile Inr compare_books_orphans[of clk xs s] by (auto simp: reconcile_def store_comparison_def Let_def res_inv_def)
  qed (use Reconcile in \<open>simp add: reconcile_def\<close>)
next
  case (ResolveAll ve ms arrival)
  have "\<forall>k \<in> set (unresolved_orphans s). k < length (discrepancies s)" by (simp add: unresolved_orphans_def)
  then show ?case
    using ResolveAll mset_eq_setD[of "arrival (unresolved_orphans s)" "unresolved_orphans s"]
    by (auto simp: resolve_all_orphans_def intro!: resolve_each_inv)
next
  case (ResolveOne ve ms k)
  then show ?case by (simp add: resolve_one_inv)
qed (auto simp: res_inv_def register_local_order_def remove_local_order_def start_def stop_def)

interpretation resolving: op_machine res_step res_inv
  by unfold_locales (rule res_step_inv)

text \<open>In every state the resolver can reach, whatever the exchange answers and in whatever order, the statistics count every detected
  discrepancy exactly once and at least as many resolutions as there are resolved discrepancies.\<close>

theorem resolver_statistics:
  assumes "s = fold res_step ops (resolver_init key secret limit)"
  shows "total_detected (get_resolution_stats s) = int (length (discrepancies s)) \<and>
    int (length (discrepancies s)) - int (length (get_pending_discrepancies s)) \<le> total_resolved (get_resolution_stats s)"
proof -
  have "res_inv s" unfolding assms by (rule resolving.run_inv[OF res_inv_init])
  moreover have "length (filter resolved (discrepancies s)) + length (filter (\<lambda>d. \<not> resolved d) (discrepancies s)) = length (discrepancies s)"
    by (rule sum_length_filter_compl)
  ultimately show ?thesis unfolding res_inv_def get_resolution_stats_def get_pending_discrepancies_def by linarith
qed

lemma pass_state:
  assumes "s = fold res_step ops (resolver_init key secret limit)" "session s"
    "mset (arrival (unresolved_orphans s)) = mset (unresolved_orphans s)" "resolve_all_orphans ve ms arrival None s = (n, s')"
  shows "n = int (length (filter (\<lambda>k. taken_as_cancelled ve (discrepancies s ! k)) (unresolved_orphans s))) \<and>
    discrepancies s' = map (\<lambda>k. if k \<in> set (unresolved_orphans s) then settled (taken_as_cancelled ve (discrepancies s ! k)) (ms k) (discrepancies s ! k)
      else discrepancies s ! k) [0..<length (discrepancies s)]"
proof -
  let ?ks = "arrival (unresolved_orphans s)"
  have inv: "res_inv s" unfolding assms(1) by (rule resolving.run_inv[OF res_inv_init])
  have st: "set ?ks = set (unresolved_orphans s)" using assms(3) by (rule mset_eq_setD)
  have "distinct ?ks" using assms(3) by (metis distinct_filter distinct_upt mset_eq_imp_distinct_iff unresolved_orphans_def)
  moreover have "\<forall>k \<in> set ?ks. k < length (discrepancies s) \<and> orphan (discrepancies s ! k)"
    unfolding st using inv by (auto simp: unresolved_orphans_def res_inv_def)
  moreover have "resolve_each ve ms ?ks s = (n, s')" using assms(4) by (simp add: resolve_all_orphans_def)
  ultimately have r: "n = int (length (filter (\<lambda>k. taken_as_cancelled ve (discrepancies s ! k)) ?ks))"
    "discrepancies s' = map (\<lambda>k. if k \<in> set ?ks then settled (taken_as_cancelled ve (discrepancies s ! k)) (ms k) (discrepancies s ! k)
      else discrepancies s ! k) [0..<length (discrepancies s)]"
    using resolve_each_spec[OF assms(2)] by blast+
  have "mset (filter P ?ks) = mset (filter P (unresolved_orphans s))" for P using assms(3) by (simp add: mset_filter)
  then have "n = int (length (filter (\<lambda>k. taken_as_cancelled ve (discrepancies s ! k)) (unresolved_orphans s)))"
    unfolding r(1) by (metis mset_eq_length)
  then show ?thesis using r(2) by (simp only: st)
qed

text \<open>C10: One pass over all orphans with an open session settles exactly those whose cancellation request the exchange answers with status 200 or
  with status 400, in whatever order the replies arrive; it returns their number, and the orphans left over are those with any other answer or
  none. The code takes every refusal with status 400 for an order that is already gone, so a settled orphan need not be cancelled:
  \<open>refused_cancel_counts\<close>.\<close>

theorem pass_settles_200_and_400:
  assumes "s = fold res_step ops (resolver_init key secret limit)" "session s"
    "mset (arrival (unresolved_orphans s)) = mset (unresolved_orphans s)" "resolve_all_orphans ve ms arrival None s = (n, s')"
  shows "n = int (length (filter (\<lambda>k. taken_as_cancelled ve (discrepancies s ! k)) (unresolved_orphans s))) \<and>
    unresolved_orphans s' = filter (\<lambda>k. \<not> taken_as_cancelled ve (discrepancies s ! k)) (unresolved_orphans s)"
proof -
  have r: "discrepancies s' = map (\<lambda>k. if k \<in> set (unresolved_orphans s) then settled (taken_as_cancelled ve (discrepancies s ! k)) (ms k)
      (discrepancies s ! k) else discrepancies s ! k) [0..<length (discrepancies s)]"
    using pass_state[OF assms] by simp
  have "unresolved_orphans s' = filter (\<lambda>k. \<not> taken_as_cancelled ve (discrepancies s ! k)) (unresolved_orphans s)"
  proof -
    have len: "length (discrepancies s') = length (discrepancies s)" unfolding r by simp
    have at: "discrepancies s' ! k = (if k \<in> set (unresolved_orphans s) then settled (taken_as_cancelled ve (discrepancies s ! k)) (ms k)
        (discrepancies s ! k) else discrepancies s ! k)" if "k < length (discrepancies s)" for k
      unfolding r using that by simp
    have "discrepancy_type (discrepancies s' ! k) = MISSING_LOCAL \<and> \<not> resolved (discrepancies s' ! k) \<longleftrightarrow>
        (discrepancy_type (discrepancies s ! k) = MISSING_LOCAL \<and> \<not> resolved (discrepancies s ! k)) \<and> \<not> taken_as_cancelled ve (discrepancies s ! k)"
      if "k < length (discrepancies s)" for k
      using at[OF that] that by (auto simp: unresolved_orphans_def)
    then show ?thesis unfolding unresolved_orphans_def filter_filter len by (intro filter_cong) auto
  qed
  then show ?thesis using pass_state[OF assms] by simp
qed

text \<open>Once a pass has cancelled every orphan, the next pass does nothing, sends nothing and changes no statistic, however the exchange
  would answer.\<close>

theorem second_pass_is_silent:
  assumes "s = fold res_step ops (resolver_init key secret limit)" "session s"
    "mset (arrival (unresolved_orphans s)) = mset (unresolved_orphans s)" "\<forall>k \<in> set (unresolved_orphans s). taken_as_cancelled ve (discrepancies s ! k)"
    "resolve_all_orphans ve ms arrival None s = (n, s')" "arrival' [] = []"
  shows "resolve_all_orphans ve' ms' arrival' None s' = (0, s')"
proof -
  have "unresolved_orphans s' = []"
    using pass_state[OF assms(1-3,5)] assms(4)
    by (simp add: unresolved_orphans_def[of s'] filter_empty_conv) (auto simp: unresolved_orphans_def)
  then show ?thesis using assms(6) by (simp add: resolve_all_orphans_def)
qed

section \<open>Witnesses\<close>

definition demo_raw :: raw_order where
  "demo_raw = \<lparr>orderId = 7, r_symbol = ''BTC'', r_side = ''BUY'', r_type = ''LIMIT'', origQty = ''1'', r_price = ''9'', executedQty = ''0'',
     r_status = ''NEW'', r_millis = 1000\<rparr>"

definition demo_venue :: venue where
  "demo_venue = \<lparr>open_orders = (\<lambda>q. Reply 200 (Some (if q = Some ''ETH'' then [] else [demo_raw]))), cancel_reply = (\<lambda>_ _. Reply 400 None),
     hmac = (\<lambda>k m. k @ m), read_float = (\<lambda>_. Some 1)\<rparr>"

definition down_venue :: venue where
  "down_venue = \<lparr>open_orders = (\<lambda>_. Raises), cancel_reply = (\<lambda>_ _. Raises), hmac = (\<lambda>k m. k @ m), read_float = (\<lambda>_. None)\<rparr>"

definition demo_local :: LocalOrder where
  "demo_local = \<lparr>order_id = ''a'', symbol = ''ETH'', side = ''BUY'', order_type = ''LIMIT'', quantity = 1, price = None, filled_quantity = 0,
     status = ''OPEN'', created_at = 0, exchange_order_id = Some ''9''\<rparr>"

definition demo_found :: ExchangeOrder where
  "demo_found = \<lparr>x_order_id = ''7'', x_symbol = ''BTC'', x_side = ''BUY'', x_type = ''LIMIT'', x_quantity = 1, x_price = Some 1, x_filled = 1,
     x_status = ''NEW'', x_created = 1\<rparr>"

definition demo_ready :: resolver where
  "demo_ready = fold res_step [Start, Register demo_local] (resolver_init ''k'' ''s'' 50)"

definition demo_reports :: "Discrepancy list" where
  "demo_reports = stamp (\<lambda>_. 5) [found MISSING_LOCAL None (Some demo_found) ''critical'', found MISSING_EXCHANGE (Some demo_local) None ''medium'']"

definition demo_checked :: resolver where
  "demo_checked = fold res_step [Start, Register demo_local, Reconcile demo_venue (\<lambda>_. 5) (Some [''BTC''])] (resolver_init ''k'' ''s'' 50)"

lemma demo_ready_fields: "session demo_ready" "local_orders demo_ready = [(''a'', demo_local)]" "discrepancies demo_ready = []"
  by (simp_all add: demo_ready_def resolver_init_def start_def register_local_order_def demo_local_def)

lemma demo_int_str: "int_str 7 = ''7''"
  by code_simp

lemma demo_fetched: "fetched demo_venue (Some [''BTC'']) demo_ready = Inr [demo_found]"
  by (simp add: fetched_def fetch_exchange_orders_def demo_ready_fields demo_venue_def read_order_def demo_raw_def demo_found_def demo_int_str
    idiv_def)

lemma demo_reconciled: "fst (reconcile demo_venue (\<lambda>_. 5) (Some [''BTC'']) demo_ready) = Inr demo_reports"
  by (simp add: reconcile_def demo_fetched store_comparison_def Let_def demo_reports_def compare_books_def compare_order_def matching_def
    local_by_exchange_id_def dict_of_def demo_ready_fields demo_found_def demo_local_def truthy_str_def stale_def)

lemma demo_resolver_run: "demo_checked = snd (reconcile demo_venue (\<lambda>_. 5) (Some [''BTC'']) demo_ready)"
  by (simp add: demo_checked_def demo_ready_def)

lemma demo_reconcile_eq: "reconcile demo_venue (\<lambda>_. 5) (Some [''BTC'']) demo_ready = (Inr demo_reports, demo_checked)"
  by (simp add: demo_resolver_run flip: demo_reconciled)

lemma demo_checked_fields: "session demo_checked" "discrepancies demo_checked = demo_reports"
  using demo_reconciled
  by (auto simp: demo_resolver_run reconcile_def demo_fetched store_comparison_def Let_def demo_ready_fields)

lemma demo_reports_eq: "demo_reports =
    [(found MISSING_LOCAL None (Some demo_found) ''critical'')\<lparr>detected_at := 5\<rparr>,
     (found MISSING_EXCHANGE (Some demo_local) None ''medium'')\<lparr>detected_at := 5\<rparr>]"
  by (simp add: demo_reports_def stamp_def)

lemma demo_unresolved: "unresolved_orphans demo_checked = [0]"
  by (simp add: unresolved_orphans_def demo_checked_fields demo_reports_eq found_def upt_rec)

lemma orphan_iff_unknown_witness:
  "(\<exists>d \<in> set demo_reports. discrepancy_type d = MISSING_LOCAL \<and> exchange_order d = Some demo_found) \<longleftrightarrow>
   dict_get (local_orders demo_ready) (x_order_id demo_found) = None \<and>
   (\<forall>l \<in> set (dict_values (local_orders demo_ready)). exchange_order_id l \<noteq> Some (x_order_id demo_found))"
  by (rule orphan_iff_unknown[OF demo_reconcile_eq demo_fetched]) simp

lemma failed_fetch_flags_all_witness:
  "\<exists>ds s1. reconcile down_venue (\<lambda>_. 5) None demo_ready = (Inr ds, s1) \<and> discrepancies s1 = discrepancies demo_ready @ ds \<and>
    map (\<lambda>d. (discrepancy_type d, local_order d)) ds =
      map (\<lambda>l. (MISSING_EXCHANGE, Some l)) (filter live (dict_values (local_orders demo_ready)))"
  by (rule failed_fetch_flags_all) (simp_all add: demo_ready_fields down_venue_def)

lemma other_symbols_flagged_witness:
  "\<exists>d \<in> set demo_reports. discrepancy_type d = MISSING_EXCHANGE \<and> local_order d = Some demo_local"
proof (rule other_symbols_flagged)
  show "reconcile (demo_venue\<lparr>open_orders := (\<lambda>q. Reply 200 (Some (if q = Some ''BTC'' then [demo_raw] else [])))\<rparr>) (\<lambda>_. 5) (Some [''BTC''])
      demo_ready = (Inr demo_reports, demo_checked)"
    unfolding demo_reconcile_eq[symmetric]
    by (simp add: reconcile_def fetched_def fetch_exchange_orders_def demo_venue_def read_order_def cong: sum.case_cong)
  show "\<forall>q rs r. open_orders (demo_venue\<lparr>open_orders := (\<lambda>q. Reply 200 (Some (if q = Some ''BTC'' then [demo_raw] else [])))\<rparr>) q
      = Reply 200 (Some rs) \<longrightarrow> r \<in> set rs \<longrightarrow> exchange_order_id demo_local = Some (int_str (orderId r)) \<longrightarrow> r_symbol r = symbol demo_local"
    by (auto simp: demo_local_def demo_raw_def demo_int_str split: if_splits)
qed (auto simp: demo_ready_fields demo_local_def demo_raw_def live_def truthy_str_def split: if_splits)

lemma refused_cancel_counts_witness:
  "fst (resolve_orphan_order demo_venue 3 0 demo_checked) \<and> resolved (discrepancies (snd (resolve_orphan_order demo_venue 3 0 demo_checked)) ! 0) \<and>
   resolution_action (discrepancies (snd (resolve_orphan_order demo_venue 3 0 demo_checked)) ! 0) = Some ''cancelled'' \<and>
   0 \<notin> set (unresolved_orphans (snd (resolve_orphan_order demo_venue 3 0 demo_checked)))"
  by (rule refused_cancel_counts[where ve = demo_venue and x = demo_found and body = None])
    (simp_all add: demo_checked_fields demo_reports_eq found_def demo_venue_def)

lemma pass_settles_200_and_400_witness:
  "fst (resolve_all_orphans demo_venue (\<lambda>_. 3) rev None demo_checked) =
     int (length (filter (\<lambda>k. taken_as_cancelled demo_venue (discrepancies demo_checked ! k)) (unresolved_orphans demo_checked))) \<and>
   unresolved_orphans (snd (resolve_all_orphans demo_venue (\<lambda>_. 3) rev None demo_checked)) =
     filter (\<lambda>k. \<not> taken_as_cancelled demo_venue (discrepancies demo_checked ! k)) (unresolved_orphans demo_checked)"
  by (rule pass_settles_200_and_400[OF demo_checked_def demo_checked_fields(1)]) simp_all

lemma second_pass_is_silent_witness:
  "resolve_all_orphans down_venue (\<lambda>_. 3) rev None (snd (resolve_all_orphans demo_venue (\<lambda>_. 3) rev None demo_checked)) =
   (0, snd (resolve_all_orphans demo_venue (\<lambda>_. 3) rev None demo_checked))"
  by (rule second_pass_is_silent[OF demo_checked_def demo_checked_fields(1), of rev demo_venue "\<lambda>_. 3"
      "fst (resolve_all_orphans demo_venue (\<lambda>_. 3) rev None demo_checked)"])
    (simp_all add: demo_unresolved demo_checked_fields demo_reports_eq found_def taken_as_cancelled_def demo_venue_def)

lemma resolver_statistics_witness:
  "total_detected (get_resolution_stats demo_checked) = int (length (discrepancies demo_checked)) \<and>
   int (length (discrepancies demo_checked)) - int (length (get_pending_discrepancies demo_checked)) \<le>
     total_resolved (get_resolution_stats demo_checked)"
  by (rule resolver_statistics[OF demo_checked_def])

end
