(* ===== verification/LiquiditySeeker.thy ===== *)
theory LiquiditySeeker
  imports Prelude
begin

text \<open>
  \<open>oms/liquidity_seeker.py\<close>: probing for icebergs and routing orders to them.

  The clock is the elapsed time in nanoseconds that each call reads. \<open>x ** 2\<close> and \<open>x ** 0.5\<close> are the functions of a \<open>powlib\<close>: the
  platform's \<open>pow\<close> is not specified to the last bit.
\<close>

section \<open>Data\<close>

datatype LiquiditySide = BID | ASK

fun side_value :: "LiquiditySide \<Rightarrow> string" where
  "side_value BID = ''bid''" | "side_value ASK = ''ask''"

record LiquidityProbe =
  symbol :: string
  side :: LiquiditySide
  price :: pyfloat
  probe_size :: pyfloat
  timestamp_ns :: int
  filled_size :: pyfloat
  fill_count :: int
  is_active :: bool

definition new_probe :: "string \<Rightarrow> LiquiditySide \<Rightarrow> pyfloat \<Rightarrow> pyfloat \<Rightarrow> int \<Rightarrow> exn + LiquidityProbe" where
  "new_probe sy sd p n now =
     (if n \<le> 0 then Inl ValueError else if p \<le> 0 then Inl ValueError
      else Inr \<lparr>symbol = sy, side = sd, price = p, probe_size = n, timestamp_ns = now, filled_size = 0, fill_count = 0, is_active = True\<rparr>)"

record IcebergDetection =
  i_symbol :: string
  i_side :: LiquiditySide
  price_level :: pyfloat
  estimated_total_size :: pyfloat
  visible_size :: pyfloat
  hidden_size :: pyfloat
  confidence :: pyfloat
  detection_time_ns :: int
  consecutive_hits :: int
  last_hit_time_ns :: int

record VolumeAccumulation =
  a_price :: pyfloat
  total_volume :: pyfloat
  trade_count :: int
  first_seen_ns :: int
  last_seen_ns :: int

definition add_trade :: "pyfloat \<Rightarrow> int \<Rightarrow> VolumeAccumulation \<Rightarrow> VolumeAccumulation" where
  "add_trade v now a =
     a\<lparr>total_volume := fadd (total_volume a) v, trade_count := trade_count a + 1,
       first_seen_ns := (if first_seen_ns a = 0 then now else first_seen_ns a), last_seen_ns := now\<rparr>"

record LiquiditySeekerConfig =
  min_iceberg_confidence :: pyfloat
  probe_size_pct :: pyfloat
  max_probes_per_level :: int
  probe_timeout_ms :: int
  iceberg_min_trades :: int
  volume_accumulation_window_ms :: int
  tick_size :: pyfloat

definition validate :: "LiquiditySeekerConfig \<Rightarrow> bool" where
  "validate c \<longleftrightarrow>
     0 < min_iceberg_confidence c \<and> min_iceberg_confidence c < 1 \<and> 0 < probe_size_pct c \<and> probe_size_pct c < 1 \<and>
     max_probes_per_level c > 0 \<and> probe_timeout_ms c > 0 \<and> iceberg_min_trades c \<ge> 2 \<and>
     volume_accumulation_window_ms c > 0 \<and> tick_size c > 0"

section \<open>The state container\<close>

type_synonym level = "string \<times> pyfloat"

record seeker_state =
  active_probes :: "(int, LiquidityProbe) dict"
  detected_icebergs :: "(level, IcebergDetection) dict"
  volume_accumulations :: "(level, VolumeAccumulation) dict"
  probe_counter :: int
  total_probes_sent :: int
  successful_detections :: int

definition state_init :: seeker_state where
  "state_init =
     \<lparr>active_probes = [], detected_icebergs = [], volume_accumulations = [], probe_counter = 0, total_probes_sent = 0,
      successful_detections = 0\<rparr>"

definition active_probe_count :: "seeker_state \<Rightarrow> int" where
  "active_probe_count s = int (length (filter is_active (dict_values (active_probes s))))"

definition detected_iceberg_count :: "seeker_state \<Rightarrow> int" where
  "detected_iceberg_count s = int (length (detected_icebergs s))"

definition add_probe :: "LiquidityProbe \<Rightarrow> seeker_state \<Rightarrow> int \<times> seeker_state" where
  "add_probe p s =
     (let i = probe_counter s + 1
      in (i, s\<lparr>probe_counter := i, active_probes := dict_set i p (active_probes s), total_probes_sent := total_probes_sent s + 1\<rparr>))"

definition set_fill :: "int \<Rightarrow> pyfloat \<Rightarrow> seeker_state \<Rightarrow> LiquidityProbe option \<times> seeker_state" where
  "set_fill i n s =
     (case dict_get (active_probes s) i of
        None \<Rightarrow> (None, s)
      | Some p \<Rightarrow>
          if is_active p
          then (let p1 = p\<lparr>filled_size := fadd (filled_size p) n, fill_count := fill_count p + 1\<rparr>
                in (Some p1, s\<lparr>active_probes := dict_set i p1 (active_probes s)\<rparr>))
          else (None, s))"

definition deactivate_probe :: "int \<Rightarrow> seeker_state \<Rightarrow> seeker_state" where
  "deactivate_probe i s =
     (case dict_get (active_probes s) i of
        None \<Rightarrow> s | Some p \<Rightarrow> s\<lparr>active_probes := dict_set i (p\<lparr>is_active := False\<rparr>) (active_probes s)\<rparr>)"

definition record_iceberg :: "IcebergDetection \<Rightarrow> seeker_state \<Rightarrow> seeker_state" where
  "record_iceberg d s =
     s\<lparr>detected_icebergs := dict_set (i_symbol d, price_level d) d (detected_icebergs s),
       successful_detections := successful_detections s + 1\<rparr>"

definition get_iceberg :: "string \<Rightarrow> pyfloat \<Rightarrow> seeker_state \<Rightarrow> IcebergDetection option" where
  "get_iceberg sy p s = dict_get (detected_icebergs s) (sy, p)"

definition get_all_icebergs :: "seeker_state \<Rightarrow> IcebergDetection list" where
  "get_all_icebergs s = dict_values (detected_icebergs s)"

definition add_volume_at_level :: "string \<Rightarrow> pyfloat \<Rightarrow> pyfloat \<Rightarrow> int \<Rightarrow> seeker_state \<Rightarrow> seeker_state" where
  "add_volume_at_level sy p v now s =
     (let a = (case dict_get (volume_accumulations s) (sy, p) of
                 None \<Rightarrow> \<lparr>a_price = p, total_volume = 0, trade_count = 0, first_seen_ns = 0, last_seen_ns = 0\<rparr>
               | Some a \<Rightarrow> a)
      in s\<lparr>volume_accumulations := dict_set (sy, p) (add_trade v now a) (volume_accumulations s)\<rparr>)"

record seeker_stats =
  stat_probes_sent :: int
  stat_active :: int
  stat_icebergs :: int
  stat_successful :: int
  stat_levels :: int

definition get_stats :: "seeker_state \<Rightarrow> seeker_stats" where
  "get_stats s =
     \<lparr>stat_probes_sent = total_probes_sent s, stat_active = active_probe_count s, stat_icebergs = int (length (detected_icebergs s)),
      stat_successful = successful_detections s, stat_levels = int (length (volume_accumulations s))\<rparr>"

section \<open>The detection strategy\<close>

record powlib =
  square :: "pyfloat \<Rightarrow> pyfloat"
  root :: "pyfloat \<Rightarrow> pyfloat"

text \<open>\<open>_consecutive_fills\<close> is read by \<open>should_probe\<close>; no operation writes it.\<close>

record seeker =
  config :: LiquiditySeekerConfig
  state :: seeker_state
  consecutive_fills :: "(level, pyfloat list) dict"

definition round_price :: "LiquiditySeekerConfig \<Rightarrow> pyfloat \<Rightarrow> pyfloat" where
  "round_price c p = fmul (fl (of_int (round_half_even (fdiv p (tick_size c))))) (tick_size c)"

definition should_probe :: "seeker \<Rightarrow> string \<Rightarrow> pyfloat \<Rightarrow> bool" where
  "should_probe k sy p =
     (case dict_get (consecutive_fills k) (sy, round_price (config k) p) of
        None \<Rightarrow> False | Some d \<Rightarrow> iceberg_min_trades (config k) - 1 \<le> int (length d))"

definition calculate_probe_size :: "LiquiditySeekerConfig \<Rightarrow> pyfloat \<Rightarrow> pyfloat" where
  "calculate_probe_size c v = max (fmul v (probe_size_pct c)) (tick_size c)"

definition group_fills :: "(pyfloat \<times> int) list \<Rightarrow> (pyfloat, int list) dict" where
  "group_fills fills =
     fold (\<lambda>(p, n) g. dict_set p ((case dict_get g p of None \<Rightarrow> [] | Some ns \<Rightarrow> ns) @ [n]) g) fills []"

text \<open>One price: \<open>best\<close> is the highest confidence so far.\<close>

definition group_confidence :: "powlib \<Rightarrow> LiquiditySeekerConfig \<Rightarrow> int list \<Rightarrow> pyfloat \<Rightarrow> pyfloat" where
  "group_confidence pw c ns best =
     (if iceberg_min_trades c \<le> int (length ns)
      then (let n = int (length ns); avg = idiv (sum_list ns) n
            in if 0 < avg
               then (let variance = fdiv (fold (\<lambda>x s. fadd s (square pw (fsub (fl (of_int x)) avg))) ns 0) (fl (of_int n));
                         cv = fdiv (root pw variance) avg;
                         conf = fmul (max 0 (fsub 1 cv)) (min 1 (fdiv (fl (of_int n)) 10))
                     in max best conf)
               else best)
      else best)"

definition analyze_fill_pattern :: "powlib \<Rightarrow> LiquiditySeekerConfig \<Rightarrow> (pyfloat \<times> int) list \<Rightarrow> pyfloat" where
  "analyze_fill_pattern pw c fills =
     (if int (length fills) < iceberg_min_trades c then 0
      else min 1 (fold (\<lambda>(p, ns) best. group_confidence pw c ns best) (group_fills fills) 0))"

section \<open>The seeker\<close>

definition seeker_init :: "LiquiditySeekerConfig \<Rightarrow> exn + seeker" where
  "seeker_init c = (if validate c then Inr \<lparr>config = c, state = state_init, consecutive_fills = []\<rparr> else Inl ValueError)"

text \<open>The second half of \<open>process_trade\<close>.\<close>

definition detect :: "powlib \<Rightarrow> string \<Rightarrow> pyfloat \<Rightarrow> LiquiditySide \<Rightarrow> int \<Rightarrow> seeker \<Rightarrow> IcebergDetection option \<times> seeker" where
  "detect pw sy rp sd now k =
     (case dict_get (volume_accumulations (state k)) (sy, rp) of
        None \<Rightarrow> (None, k)
      | Some a \<Rightarrow>
          if iceberg_min_trades (config k) \<le> trade_count a
          then (let each = fdiv (total_volume a) (fl (of_int (trade_count a)));
                    fills = replicate (nat (trade_count a)) (a_price a, int_of_float each);
                    conf = analyze_fill_pattern pw (config k) fills
                in if min_iceberg_confidence (config k) \<le> conf
                   then (let est = fmul each 5;
                             d = \<lparr>i_symbol = sy, i_side = sd, price_level = rp, estimated_total_size = est, visible_size = each,
                                  hidden_size = fsub est each, confidence = conf, detection_time_ns = now,
                                  consecutive_hits = trade_count a, last_hit_time_ns = now\<rparr>
                         in (Some d, k\<lparr>state := record_iceberg d (state k)\<rparr>))
                   else (None, k))
          else (None, k))"

definition process_trade :: "powlib \<Rightarrow> int \<Rightarrow> string \<Rightarrow> pyfloat \<Rightarrow> pyfloat \<Rightarrow> LiquiditySide \<Rightarrow> seeker \<Rightarrow>
    (exn + IcebergDetection option) \<times> seeker" where
  "process_trade pw now sy p v sd k =
     (let rp = round_price (config k) p;
          k1 = k\<lparr>state := add_volume_at_level sy rp v now (state k)\<rparr>
      in if should_probe k1 sy rp
         then (case new_probe sy sd rp (calculate_probe_size (config k1) v) now of
                 Inl e \<Rightarrow> (Inl e, k1)
               | Inr pr \<Rightarrow> map_prod Inr id (detect pw sy rp sd now (k1\<lparr>state := snd (add_probe pr (state k1))\<rparr>)))
         else map_prod Inr id (detect pw sy rp sd now k1))"

definition at_level :: "LiquiditySeekerConfig \<Rightarrow> string \<Rightarrow> pyfloat \<Rightarrow> LiquidityProbe \<Rightarrow> bool" where
  "at_level c sy rp p \<longleftrightarrow> symbol p = sy \<and> \<bar>fsub (price p) rp\<bar> < tick_size c \<and> is_active p"

definition create_probe_order :: "int \<Rightarrow> string \<Rightarrow> LiquiditySide \<Rightarrow> pyfloat \<Rightarrow> pyfloat \<Rightarrow> seeker \<Rightarrow> (exn + int option) \<times> seeker" where
  "create_probe_order now sy sd p n k =
     (if n \<le> 0 \<or> p \<le> 0 then (Inr None, k)
      else
        (let rp = round_price (config k) p;
             existing = length (filter (at_level (config k) sy rp) (dict_values (active_probes (state k))))
         in if max_probes_per_level (config k) \<le> int existing then (Inr None, k)
            else (case new_probe sy sd rp n now of
                    Inl e \<Rightarrow> (Inl e, k)
                  | Inr pr \<Rightarrow> (let (i, s) = add_probe pr (state k) in (Inr (Some i), k\<lparr>state := s\<rparr>)))))"

definition update_probe_fill :: "int \<Rightarrow> pyfloat \<Rightarrow> seeker \<Rightarrow> bool \<times> seeker" where
  "update_probe_fill i n k =
     (case set_fill i n (state k) of
        (None, s) \<Rightarrow> (False, k\<lparr>state := s\<rparr>)
      | (Some p, s) \<Rightarrow>
          if probe_size p \<le> filled_size p then (True, k\<lparr>state := deactivate_probe i s\<rparr>) else (True, k\<lparr>state := s\<rparr>))"

definition expired :: "int \<Rightarrow> seeker \<Rightarrow> int list" where
  "expired now k =
     map fst (filter (\<lambda>(i, p). is_active p \<and> probe_timeout_ms (config k) * 1000000 < now - timestamp_ns p) (active_probes (state k)))"

definition purge_expired_probes :: "int \<Rightarrow> seeker \<Rightarrow> int \<times> seeker" where
  "purge_expired_probes now k =
     (int (length (expired now k)), k\<lparr>state := fold deactivate_probe (expired now k) (state k)\<rparr>)"

text \<open>\<open>max(xs, key=...)\<close> takes the first of several greatest.\<close>

fun best_of :: "IcebergDetection \<Rightarrow> IcebergDetection list \<Rightarrow> IcebergDetection" where
  "best_of b [] = b"
| "best_of b (x # xs) = best_of (if confidence b < confidence x then x else b) xs"

definition get_best_iceberg_opportunity :: "string \<Rightarrow> LiquiditySide option \<Rightarrow> seeker \<Rightarrow> IcebergDetection option" where
  "get_best_iceberg_opportunity sy sd k =
     (case filter (\<lambda>i. i_symbol i = sy \<and> (sd = None \<or> sd = Some (i_side i))) (get_all_icebergs (state k)) of
        [] \<Rightarrow> None | x # xs \<Rightarrow> Some (best_of x xs))"

record full_stats = seeker_stats +
  elapsed_ms :: pyfloat
  stat_min_confidence :: pyfloat
  stat_size_pct :: pyfloat
  stat_max_probes :: int

definition get_statistics :: "int \<Rightarrow> seeker \<Rightarrow> full_stats" where
  "get_statistics now k =
     seeker_stats.extend (get_stats (state k))
       \<lparr>elapsed_ms = idiv now 1000000, stat_min_confidence = min_iceberg_confidence (config k), stat_size_pct = probe_size_pct (config k),
        stat_max_probes = max_probes_per_level (config k)\<rparr>"

section \<open>Routing\<close>

record child_order =
  c_symbol :: string
  c_side :: string
  c_size :: pyfloat
  c_price :: "pyfloat option"
  c_type :: string
  c_confidence :: "pyfloat option"

record router =
  routed_orders :: int
  iceberg_captures :: int

definition router_init :: router where
  "router_init = \<lparr>routed_orders = 0, iceberg_captures = 0\<rparr>"

definition relevant :: "string \<Rightarrow> LiquiditySide \<Rightarrow> seeker_state \<Rightarrow> IcebergDetection list" where
  "relevant sy sd s = filter (\<lambda>i. i_symbol i = sy \<and> i_side i \<noteq> sd) (get_all_icebergs s)"

definition allocation :: "pyfloat \<Rightarrow> IcebergDetection \<Rightarrow> pyfloat" where
  "allocation r i = min (min r (fmul (visible_size i) (fl (5 / 10)))) (fmul (hidden_size i) (fl (2 / 10)))"

text \<open>The loop over the icebergs: the remaining size, the child orders and the captures.\<close>

fun allocate :: "string \<Rightarrow> LiquiditySide \<Rightarrow> IcebergDetection list \<Rightarrow> pyfloat \<Rightarrow> child_order list \<times> pyfloat" where
  "allocate sy sd [] r = ([], r)"
| "allocate sy sd (i # is) r =
     (if r \<le> 0 then ([], r)
      else (let a = allocation r i
            in if 0 < a
               then map_prod (Cons \<lparr>c_symbol = sy, c_side = side_value sd, c_size = a, c_price = Some (price_level i),
                                    c_type = ''iceberg_capture'', c_confidence = Some (confidence i)\<rparr>) id (allocate sy sd is (fsub r a))
               else allocate sy sd is r))"

definition plain_order :: "string \<Rightarrow> LiquiditySide \<Rightarrow> pyfloat \<Rightarrow> string \<Rightarrow> child_order" where
  "plain_order sy sd n ty = \<lparr>c_symbol = sy, c_side = side_value sd, c_size = n, c_price = None, c_type = ty, c_confidence = None\<rparr>"

definition route_order :: "string \<Rightarrow> LiquiditySide \<Rightarrow> pyfloat \<Rightarrow> seeker_state \<Rightarrow> router \<Rightarrow> child_order list \<times> router" where
  "route_order sy sd tot s rt =
     (let rel = sort_key (\<lambda>i. - confidence i) (relevant sy sd s)
      in if rel = [] then ([plain_order sy sd tot ''standard''], rt\<lparr>routed_orders := routed_orders rt + 1\<rparr>)
         else (let (os, r) = allocate sy sd rel tot
               in (os @ (if 0 < r then [plain_order sy sd r ''remainder''] else []),
                   rt\<lparr>iceberg_captures := iceberg_captures rt + int (length os), routed_orders := routed_orders rt + 1\<rparr>)))"

definition capture_rate :: "router \<Rightarrow> pyfloat" where
  "capture_rate rt = idiv (iceberg_captures rt) (max 1 (routed_orders rt))"


section \<open>What a trade decides\<close>

lemma group_replicate: "n \<noteq> 0 \<Longrightarrow> group_fills (replicate n (p, s)) = [(p, replicate n s)]"
proof -
  have step: "fold (\<lambda>(p, n) g. dict_set p ((case dict_get g p of None \<Rightarrow> [] | Some ns \<Rightarrow> ns) @ [n]) g) (replicate m (p, s)) [(p, ns)] =
      [(p, ns @ replicate m s)]" for m and ns :: "int list"
    by (induction m arbitrary: ns) simp_all
  assume "n \<noteq> 0"
  then obtain m where "n = Suc m" by (cases n) auto
  then show ?thesis using step [of m "[s]"] by (simp add: group_fills_def)
qed

lemma add_nothing: "((\<lambda>s. fadd s 0) ^^ n) 0 = 0"
  by (induction n) (simp_all add: fadd_def)

lemma fl_of_int_pos: "0 < fl (of_int s) \<longleftrightarrow> 0 < (s :: int)"
proof
  assume a: "0 < fl (of_int s)"
  show "0 < s"
  proof (rule ccontr)
    assume "\<not> 0 < s"
    then have "fl (of_int s) \<le> fl 0" by (intro fl_mono) simp
    with a show False by simp
  qed
next
  assume "0 < s"
  then have "fl 1 \<le> fl (of_int s)" by (intro fl_mono) simp
  then show "0 < fl (of_int s)" by simp
qed

text \<open>Fills of one size have no variance, so the confidence is their number.\<close>

lemma analyze_replicate:
  assumes "square pw 0 = 0" "root pw 0 = 0" "n \<noteq> 0"
  shows "analyze_fill_pattern pw c (replicate n (p, s)) =
    (if int n < iceberg_min_trades c \<or> s \<le> 0 then 0 else min 1 (fdiv (fl (of_nat n)) 10))"
proof -
  let ?m = "min 1 (fdiv (fl (of_nat n)) 10)"
  have m: "0 \<le> ?m" "fl ?m = ?m" by (simp_all add: fdiv_def min_def)
  have avg: "idiv (sum_list (replicate n s)) (int n) = fl (of_int s)"
    using assms(3) by (simp add: idiv_def sum_list_replicate)
  show ?thesis
  proof (cases "int n < iceberg_min_trades c \<or> s \<le> 0")
    case True
    then show ?thesis
      by (auto simp: analyze_fill_pattern_def group_replicate [OF assms(3)] group_confidence_def Let_def avg fl_of_int_pos)
  next
    case False
    then have "group_confidence pw c (replicate n s) 0 = max 0 (fmul (max 0 (fsub 1 (fdiv (root pw (fdiv 0 (fl (of_nat n)))) (fl (of_int s))))) ?m)"
      by (simp add: group_confidence_def Let_def avg fl_of_int_pos add_nothing assms(1) not_less)
    also have "\<dots> = ?m" using m by (simp add: fdiv_def assms(2) fsub_def fmul_def)
    finally show ?thesis using False by (simp add: analyze_fill_pattern_def group_replicate [OF assms(3)] not_less)
  qed
qed

text \<open>The accumulation a trade leaves at its level.\<close>

definition after_trade :: "string \<Rightarrow> pyfloat \<Rightarrow> pyfloat \<Rightarrow> int \<Rightarrow> seeker \<Rightarrow> VolumeAccumulation" where
  "after_trade sy rp v now k =
     add_trade v now (case dict_get (volume_accumulations (state k)) (sy, rp) of
         None \<Rightarrow> \<lparr>a_price = rp, total_volume = 0, trade_count = 0, first_seen_ns = 0, last_seen_ns = 0\<rparr>
       | Some a \<Rightarrow> a)"

lemma after_trade_get:
  "dict_get (volume_accumulations (add_volume_at_level sy rp v now (state k))) (sy, rp) = Some (after_trade sy rp v now k)"
  by (simp add: after_trade_def add_volume_at_level_def Let_def dict_get_set)

lemma process_no_probe:
  assumes "consecutive_fills k = []"
  shows "process_trade pw now sy p v sd k =
    map_prod Inr id (detect pw sy (round_price (config k) p) sd now
      (k\<lparr>state := add_volume_at_level sy (round_price (config k) p) v now (state k)\<rparr>))"
  by (simp add: process_trade_def Let_def should_probe_def assms)

lemma detect_iff:
  assumes "square pw 0 = 0" "root pw 0 = 0" "validate (config k)"
    "dict_get (volume_accumulations (state k)) (sy, rp) = Some a"
  shows "fst (detect pw sy rp sd now k) \<noteq> None \<longleftrightarrow>
    iceberg_min_trades (config k) \<le> trade_count a \<and> 1 \<le> int_of_float (fdiv (total_volume a) (fl (of_int (trade_count a)))) \<and>
    min_iceberg_confidence (config k) \<le> min 1 (fdiv (fl (of_int (trade_count a))) 10)"
proof (cases "iceberg_min_trades (config k) \<le> trade_count a")
  case True
  then have n: "nat (trade_count a) \<noteq> 0" "int (nat (trade_count a)) = trade_count a" using assms(3) by (auto simp: validate_def)
  from n(2) have r: "(of_nat (nat (trade_count a)) :: rat) = of_int (trade_count a)" by (metis of_int_of_nat_eq)
  have "0 < min_iceberg_confidence (config k)" using assms(3) by (simp add: validate_def)
  then show ?thesis using True
    by (auto simp: detect_def assms(4) Let_def analyze_replicate [OF assms(1,2) n(1)] n(2) r not_less)
qed (simp add: detect_def assms(4))

section \<open>Probes in a run\<close>

text \<open>Active probes of one symbol at one price.\<close>

definition level_count :: "seeker_state \<Rightarrow> string \<Rightarrow> pyfloat \<Rightarrow> int" where
  "level_count s sy rp = (\<Sum>(i, p) \<leftarrow> active_probes s. if symbol p = sy \<and> price p = rp \<and> is_active p then 1 else 0)"

definition seeker_inv :: "LiquiditySeekerConfig \<Rightarrow> seeker \<Rightarrow> bool" where
  "seeker_inv c k \<longleftrightarrow>
     validate c \<and> config k = c \<and> consecutive_fills k = [] \<and> wf_dict (active_probes (state k)) \<and>
     (\<forall>i. dict_get (active_probes (state k)) i \<noteq> None \<longrightarrow> i \<le> probe_counter (state k)) \<and>
     int (length (active_probes (state k))) = total_probes_sent (state k) \<and>
     (\<forall>sy rp. level_count (state k) sy rp \<le> max_probes_per_level c)"

lemma count_filter: "int (length (filter P (dict_values d))) = (\<Sum>(i, p) \<leftarrow> d. if P p then 1 else 0)"
  by (induction d) auto

lemma level_count_set:
  assumes "wf_dict (active_probes s)"
  shows "level_count (s\<lparr>active_probes := dict_set i p (active_probes s)\<rparr>) sy rp = level_count s sy rp
    - (case dict_get (active_probes s) i of None \<Rightarrow> 0 | Some q \<Rightarrow> if symbol q = sy \<and> price q = rp \<and> is_active q then 1 else 0)
    + (if symbol p = sy \<and> price p = rp \<and> is_active p then 1 else 0)"
  using sum_dict_set [OF assms, of "\<lambda>i p. if symbol p = sy \<and> price p = rp \<and> is_active p then 1 else (0 :: int)" i p]
  by (simp add: level_count_def split del: if_split)

lemma deactivate_inv:
  assumes "seeker_inv c k"
  shows "seeker_inv c (k\<lparr>state := deactivate_probe i (state k)\<rparr>)"
proof (cases "dict_get (active_probes (state k)) i")
  case None
  then show ?thesis using assms by (simp add: deactivate_probe_def)
next
  case (Some p)
  then have i: "i \<in> fst ` set (active_probes (state k))" by (force dest: map_of_SomeD)
  have w: "wf_dict (active_probes (state k))" using assms by (simp add: seeker_inv_def)
  have "level_count ((state k)\<lparr>active_probes := dict_set i (p\<lparr>is_active := False\<rparr>) (active_probes (state k))\<rparr>) sy rp
      \<le> level_count (state k) sy rp" for sy rp
    by (simp add: level_count_set [OF w] Some)
  moreover have "level_count (state k) sy rp \<le> max_probes_per_level c" for sy rp using assms by (simp add: seeker_inv_def)
  ultimately have "level_count ((state k)\<lparr>active_probes := dict_set i (p\<lparr>is_active := False\<rparr>) (active_probes (state k))\<rparr>) sy rp
      \<le> max_probes_per_level c" for sy rp by (rule order_trans)
  then show ?thesis using assms i Some
    by (simp add: seeker_inv_def deactivate_probe_def length_dict_set dict_get_set)
qed

lemma deactivate_all_inv:
  "seeker_inv c k \<Longrightarrow> seeker_inv c (k\<lparr>state := fold deactivate_probe ids (state k)\<rparr>)"
proof (induction ids arbitrary: k)
  case (Cons i ids)
  from Cons.IH [OF deactivate_inv [OF Cons.prems, of i]] show ?case by simp
qed simp

lemma set_fill_inv:
  assumes "seeker_inv c k"
  shows "seeker_inv c (k\<lparr>state := snd (set_fill i n (state k))\<rparr>)"
proof (cases "dict_get (active_probes (state k)) i")
  case None
  then show ?thesis using assms by (simp add: set_fill_def)
next
  case (Some p)
  then have i: "i \<in> fst ` set (active_probes (state k))" by (force dest: map_of_SomeD)
  have w: "wf_dict (active_probes (state k))" using assms by (simp add: seeker_inv_def)
  have "level_count ((state k)\<lparr>active_probes :=
        dict_set i (p\<lparr>filled_size := x, fill_count := y\<rparr>) (active_probes (state k))\<rparr>) sy rp = level_count (state k) sy rp" for sy rp x y
    by (simp add: level_count_set [OF w] Some)
  then show ?thesis using assms i Some
    by (simp add: seeker_inv_def set_fill_def Let_def length_dict_set dict_get_set)
qed

lemma update_fill_inv:
  assumes "seeker_inv c k"
  shows "seeker_inv c (snd (update_probe_fill i n k))"
proof -
  obtain r s where s: "set_fill i n (state k) = (r, s)" by (cases "set_fill i n (state k)")
  have "seeker_inv c (k\<lparr>state := s\<rparr>)" using set_fill_inv [OF assms, of i n] s by simp
  with deactivate_inv [OF this, of i] show ?thesis by (auto simp: update_probe_fill_def s split: option.split)
qed

lemma new_probe_fields:
  assumes "new_probe sy sd rp n now = Inr p"
  shows "symbol p = sy" "price p = rp" "is_active p"
  using assms by (auto simp: new_probe_def split: if_splits)

lemma create_probe_inv:
  assumes "seeker_inv c k"
  shows "seeker_inv c (snd (create_probe_order now sy sd p n k))"
proof (cases "\<exists>i. fst (create_probe_order now sy sd p n k) = Inr (Some i)")
  case False
  then have "snd (create_probe_order now sy sd p n k) = k"
    by (auto simp: create_probe_order_def Let_def split: sum.splits if_splits prod.splits)
  with assms show ?thesis by simp
next
  case True
  let ?rp = "round_price (config k) p" let ?s = "state k"
  from True obtain pr where pr: "new_probe sy sd ?rp n now = Inr pr"
    and lim: "int (length (filter (at_level (config k) sy ?rp) (dict_values (active_probes ?s)))) < max_probes_per_level (config k)"
    and k': "snd (create_probe_order now sy sd p n k) = k\<lparr>state := snd (add_probe pr ?s)\<rparr>"
    by (auto simp: create_probe_order_def Let_def split: sum.splits if_splits prod.splits)
  note f = new_probe_fields [OF pr]
  have inv: "validate c" "config k = c" "wf_dict (active_probes ?s)" "\<forall>i. dict_get (active_probes ?s) i \<noteq> None \<longrightarrow> i \<le> probe_counter ?s"
    using assms by (simp_all add: seeker_inv_def)
  have none: "dict_get (active_probes ?s) (probe_counter ?s + 1) = None" using inv(4) by (metis add_le_same_cancel1 not_one_le_zero)
  then have new: "probe_counter ?s + 1 \<notin> fst ` set (active_probes ?s)" by (simp add: map_of_eq_None_iff)
  have "level_count ?s sy ?rp \<le> int (length (filter (at_level (config k) sy ?rp) (dict_values (active_probes ?s))))"
    unfolding count_filter level_count_def using inv(1,2)
    by (intro sum_list_mono) (auto simp: at_level_def validate_def)
  then have "level_count (?s\<lparr>active_probes := dict_set (probe_counter ?s + 1) pr (active_probes ?s)\<rparr>) sy' rp \<le> max_probes_per_level c" for sy' rp
    using lim assms by (auto simp: level_count_set [OF inv(3)] none f seeker_inv_def)
  then have "level_count (snd (add_probe pr ?s)) sy' rp \<le> max_probes_per_level c" for sy' rp
    by (simp add: add_probe_def Let_def level_count_def)
  then show ?thesis using assms new unfolding k'
    by (auto simp: seeker_inv_def add_probe_def Let_def length_dict_set dict_get_set)
qed

lemma process_inv:
  assumes "seeker_inv c k"
  shows "seeker_inv c (snd (process_trade pw now sy p v sd k)) \<and>
    active_probes (state (snd (process_trade pw now sy p v sd k))) = active_probes (state k)"
proof -
  have "consecutive_fills k = []" using assms by (simp add: seeker_inv_def)
  then show ?thesis using assms
    by (auto simp: process_no_probe detect_def Let_def record_iceberg_def add_volume_at_level_def seeker_inv_def level_count_def
        split: option.split)
qed

datatype seeker_op =
    Trade powlib int string pyfloat pyfloat LiquiditySide
  | Create int string LiquiditySide pyfloat pyfloat
  | Fill int pyfloat
  | Purge int

fun seeker_step :: "seeker_op \<Rightarrow> seeker \<Rightarrow> seeker" where
  "seeker_step (Trade pw now sy p v sd) k = snd (process_trade pw now sy p v sd k)"
| "seeker_step (Create now sy sd p n) k = snd (create_probe_order now sy sd p n k)"
| "seeker_step (Fill i n) k = snd (update_probe_fill i n k)"
| "seeker_step (Purge now) k = snd (purge_expired_probes now k)"

lemma seeker_step_inv: "seeker_inv c k \<Longrightarrow> seeker_inv c (seeker_step x k)"
  by (cases x) (simp_all add: process_inv create_probe_inv update_fill_inv purge_expired_probes_def deactivate_all_inv)

interpretation seeking: op_machine seeker_step "seeker_inv c" for c
  by unfold_locales (rule seeker_step_inv)

lemma seeker_init_inv: "seeker_init c = Inr k \<Longrightarrow> seeker_inv c k"
  by (auto simp: seeker_init_def seeker_inv_def state_init_def level_count_def validate_def split: if_splits)

section \<open>Sizes of child orders\<close>

lemma allocation_le: "allocation r i \<le> r"
  by (simp add: allocation_def)

lemma allocate_sizes:
  assumes "allocate sy sd ls r = (os, r')" "0 \<le> r" "is_float r"
  shows "0 \<le> r' \<and> r' \<le> r \<and> is_float r' \<and> (\<forall>x \<in> set os. 0 < c_size x \<and> c_size x \<le> r) \<and> length os \<le> length ls \<and>
    \<bar>sum_list (map c_size os) + r' - r\<bar> \<le> of_nat (length os) * (r / 2 ^ 53 + tiny)"
  using assms
proof (induction ls arbitrary: r os)
  case (Cons i ls)
  let ?a = "allocation r i"
  show ?case
  proof (cases "r \<le> 0 \<or> \<not> 0 < ?a")
    case True
    then show ?thesis
    proof (cases "r \<le> 0")
      case False
      with True Cons.prems(1) have "allocate sy sd ls r = (os, r')" by (simp add: Let_def)
      from Cons.IH [OF this Cons.prems(2,3)] show ?thesis by auto
    qed (use Cons.prems in simp)
  next
    case False
    obtain os' where os': "allocate sy sd ls (fsub r ?a) = (os', r')" "map c_size os = ?a # map c_size os'" "length os = Suc (length os')"
      using Cons.prems(1) False by (cases "allocate sy sd ls (fsub r ?a)") (auto simp: Let_def)
    let ?r = "fsub r ?a"
    have r: "0 \<le> ?r" "is_float ?r" using allocation_le [of r i] by (simp_all add: fsub_nonneg) (simp add: fsub_def)
    have "fl (r - ?a) \<le> fl r" using False by (intro fl_mono) simp
    then have le: "?r \<le> r" using Cons.prems(3) by (simp add: fsub_def is_float_def)
    note ih = Cons.IH [OF os'(1) r]
    have e: "\<bar>?r - (r - ?a)\<bar> \<le> r / 2 ^ 53 + tiny"
    proof -
      have "\<bar>?r - (r - ?a)\<bar> \<le> \<bar>r - ?a\<bar> / 2 ^ 53 + tiny" unfolding fsub_def by (rule fl_error)
      also have "\<dots> \<le> r / 2 ^ 53 + tiny" using allocation_le [of r i] False by (simp add: divide_right_mono)
      finally show ?thesis .
    qed
    have "of_nat (length os') * (?r / 2 ^ 53 + tiny) \<le> of_nat (length os') * (r / 2 ^ 53 + tiny)"
      using le by (intro mult_left_mono add_right_mono divide_right_mono) simp_all
    then have "\<bar>sum_list (map c_size os') + r' - ?r\<bar> \<le> of_nat (length os') * (r / 2 ^ 53 + tiny)" using ih by linarith
    then have "\<bar>sum_list (map c_size os) + r' - r\<bar> \<le> of_nat (length os') * (r / 2 ^ 53 + tiny) + (r / 2 ^ 53 + tiny)"
      using e unfolding os'(2) by simp
    moreover have "\<forall>x \<in> c_size ` set os. 0 < x \<and> x \<le> r"
    proof
      fix x assume x: "x \<in> c_size ` set os"
      have "c_size ` set os = insert ?a (c_size ` set os')" using os'(2) by (metis list.simps(15) set_map)
      with x have "x = ?a \<or> (\<exists>y \<in> set os'. x = c_size y)" by blast
      then show "0 < x \<and> x \<le> r" using ih le False allocation_le [of r i] by (auto intro: order_trans)
    qed
    ultimately show ?thesis using ih le os'(3) by (simp add: distrib_right)
  qed
qed simp

section \<open>Properties\<close>

text \<open>C30: Routing conserves the order: where icebergs are known for the other side, the sizes of the child orders are positive, none
  exceeds the order, and their sum is the size of the order up to the rounding of one subtraction per iceberg.\<close>
theorem routing_conserves_size:
  assumes "0 < tot" "is_float tot"
  shows "(\<forall>x \<in> set (fst (route_order sy sd tot s rt)). 0 < c_size x \<and> c_size x \<le> tot) \<and>
    \<bar>sum_list (map c_size (fst (route_order sy sd tot s rt))) - tot\<bar> \<le> of_nat (length (relevant sy sd s)) * (tot / 2 ^ 53 + tiny)"
proof (cases "relevant sy sd s = []")
  case True
  then show ?thesis using assms(1) by (simp add: route_order_def plain_order_def)
next
  case False
  let ?rel = "sort_key (\<lambda>i. - confidence i) (relevant sy sd s)"
  obtain os r where a: "allocate sy sd ?rel tot = (os, r)" by (cases "allocate sy sd ?rel tot")
  note al = allocate_sizes [OF a less_imp_le [OF assms(1)] assms(2)]
  have "?rel \<noteq> []" using False by (metis length_0_conv length_sort)
  then have f: "fst (route_order sy sd tot s rt) = os @ (if 0 < r then [plain_order sy sd r ''remainder''] else [])"
    by (simp add: route_order_def Let_def a)
  have "0 \<le> tot / 2 ^ 53 + tiny" using assms(1) tiny_pos by simp
  then have "of_nat (length os) * (tot / 2 ^ 53 + tiny) \<le> of_nat (length (relevant sy sd s)) * (tot / 2 ^ 53 + tiny)"
    using al by (intro mult_right_mono) simp_all
  then show ?thesis using al by (auto simp: f plain_order_def)
qed

text \<open>An iceberg is a number of trades: what \<open>process_trade\<close> detects does not depend on how alike the sizes at the level are. It
  reports one exactly when there have been enough trades, at least the minimal confidence times ten of them, and their average size,
  cut to an integer, is at least one; trades in fractions of a coin are never detected.\<close>
theorem detection_counts_trades:
  assumes "square pw 0 = 0" "root pw 0 = 0" "seeker_init c = Inr k0" "k = fold seeker_step xs k0"
    "rp = round_price c p" "a = after_trade sy rp v now k"
  shows "(\<exists>d. fst (process_trade pw now sy p v sd k) = Inr (Some d)) \<longleftrightarrow>
    iceberg_min_trades c \<le> trade_count a \<and> 1 \<le> int_of_float (fdiv (total_volume a) (fl (of_int (trade_count a)))) \<and>
    min_iceberg_confidence c \<le> min 1 (fdiv (fl (of_int (trade_count a))) 10)"
proof -
  have inv: "seeker_inv c k" unfolding assms(4) by (rule seeking.run_inv) (rule seeker_init_inv [OF assms(3)])
  then have k: "config k = c" "validate c" "consecutive_fills k = []" by (simp_all add: seeker_inv_def)
  let ?k = "k\<lparr>state := add_volume_at_level sy rp v now (state k)\<rparr>"
  have "dict_get (volume_accumulations (state ?k)) (sy, rp) = Some a" using after_trade_get assms(6) by simp
  from detect_iff [OF assms(1,2) _ this] k(1,2)
  have "fst (detect pw sy rp sd now ?k) \<noteq> None \<longleftrightarrow>
    iceberg_min_trades c \<le> trade_count a \<and> 1 \<le> int_of_float (fdiv (total_volume a) (fl (of_int (trade_count a)))) \<and>
    min_iceberg_confidence c \<le> min 1 (fdiv (fl (of_int (trade_count a))) 10)" by simp
  moreover have "(\<exists>d. fst (process_trade pw now sy p v sd k) = Inr (Some d)) \<longleftrightarrow> fst (detect pw sy rp sd now ?k) \<noteq> None"
    by (cases "detect pw sy rp sd now ?k") (auto simp: process_no_probe [OF k(3)] k(1) assms(5))
  ultimately show ?thesis by simp
qed

text \<open>In every run of calls no level holds more active probes of a symbol than the configuration allows, probes are never forgotten,
  and the counter of probes sent is the number of them.\<close>
theorem probes_within_limit:
  assumes "seeker_init c = Inr k"
  shows "seeker_inv c (fold seeker_step xs k)"
  by (rule seeking.run_inv) (rule seeker_init_inv [OF assms])

text \<open>The seeker never probes by itself: whatever trades it processes, fills it is told and purges it makes, as long as nobody creates a probe by
  hand there is none, since the fills by which \<open>should_probe\<close> decides are not recorded anywhere.\<close>
theorem trades_never_probe:
  assumes "seeker_init c = Inr k" "\<forall>x \<in> set xs. \<forall>now sy sd p n. x \<noteq> Create now sy sd p n"
  shows "active_probes (state (fold seeker_step xs k)) = [] \<and> total_probes_sent (state (fold seeker_step xs k)) = 0"
proof -
  have "active_probes (state (fold seeker_step xs k)) = active_probes (state k)" if "seeker_inv c k" "active_probes (state k) = []" for k
    using that assms(2)
  proof (induction xs arbitrary: k)
    case (Cons x xs)
    have e: "active_probes (state (seeker_step x k)) = []"
    proof (cases x)
      case (Trade pw now sy p v sd)
      then show ?thesis using process_inv [OF Cons.prems(1)] Cons.prems(2) by simp
    qed (use Cons.prems in \<open>auto simp: update_probe_fill_def set_fill_def purge_expired_probes_def expired_def\<close>)
    show ?case using Cons.IH [OF seeker_step_inv [OF Cons.prems(1)] e] Cons.prems e by simp
  qed simp
  moreover have "active_probes (state k) = []" using assms(1) by (auto simp: seeker_init_def state_init_def split: if_splits)
  ultimately have "active_probes (state (fold seeker_step xs k)) = []" using seeker_init_inv [OF assms(1)] by simp
  moreover have "seeker_inv c (fold seeker_step xs k)" by (rule seeking.run_inv) (rule seeker_init_inv [OF assms(1)])
  ultimately show ?thesis by (simp add: seeker_inv_def)
qed

text \<open>A price of at most half a tick is rounded to zero: creating a probe there raises \<open>ValueError\<close> instead of being rejected, unless the
  probes at the lowest levels already exhaust the limit.\<close>
theorem half_tick_probe_raises:
  assumes "seeker_init c = Inr k0" "k = fold seeker_step xs k0" "0 < p" "p \<le> tick_size c / 2" "0 < n"
    "int (length (filter (at_level c sy 0) (dict_values (active_probes (state k))))) < max_probes_per_level c"
  shows "create_probe_order now sy sd p n k = (Inl ValueError, k)"
proof -
  have inv: "seeker_inv c k" unfolding assms(2) by (rule seeking.run_inv) (rule seeker_init_inv [OF assms(1)])
  then have t: "config k = c" "0 < tick_size c" by (simp_all add: seeker_inv_def validate_def)
  have h: "fl (1 / 2) = 1 / 2" by code_simp
  have h0: "round_half_even 0 = 0" "round_half_even (1 / 2) = 0" by code_simp+
  have "0 \<le> fdiv p (tick_size c)" using assms(3) t by (simp add: fdiv_def)
  moreover have "p / tick_size c \<le> 1 / 2" using assms(4) t(2) by (simp add: pos_divide_le_eq)
  then have "fdiv p (tick_size c) \<le> 1 / 2" using fl_mono h unfolding fdiv_def by metis
  ultimately have "round_half_even (fdiv p (tick_size c)) = 0"
    using round_half_even_mono [of 0 "fdiv p (tick_size c)"] round_half_even_mono [of "fdiv p (tick_size c)" "1 / 2"] h0
    by simp
  then have "round_price c p = 0" by (simp add: round_price_def fmul_def)
  then show ?thesis using assms(3,5,6) by (simp add: create_probe_order_def t(1) new_probe_def)
qed

section \<open>Witnesses\<close>

definition demo_config :: LiquiditySeekerConfig where
  "demo_config =
     \<lparr>min_iceberg_confidence = 1 / 4, probe_size_pct = 1 / 2, max_probes_per_level = 5, probe_timeout_ms = 1000, iceberg_min_trades = 3,
      volume_accumulation_window_ms = 5000, tick_size = 1\<rparr>"

definition demo_pow :: powlib where
  "demo_pow = \<lparr>square = (\<lambda>x. fmul x x), root = (\<lambda>x. 0)\<rparr>"

definition demo_seeker :: seeker where
  "demo_seeker = \<lparr>config = demo_config, state = state_init, consecutive_fills = []\<rparr>"

lemma demo_init: "seeker_init demo_config = Inr demo_seeker"
  by (simp add: seeker_init_def demo_seeker_def validate_def demo_config_def)

definition demo_iceberg :: IcebergDetection where
  "demo_iceberg =
     \<lparr>i_symbol = ''BTC'', i_side = BID, price_level = 100, estimated_total_size = 20, visible_size = 4, hidden_size = 16, confidence = 1,
      detection_time_ns = 0, consecutive_hits = 10, last_hit_time_ns = 0\<rparr>"

theorem routing_conserves_size_witness:
  "\<bar>sum_list (map c_size (fst (route_order ''BTC'' ASK 10 (record_iceberg demo_iceberg state_init) router_init))) - 10\<bar> \<le> 10 / 2 ^ 53 + tiny"
  using routing_conserves_size [of 10 "''BTC''" ASK "record_iceberg demo_iceberg state_init" router_init, THEN conjunct2]
  by (simp add: is_float_def relevant_def get_all_icebergs_def record_iceberg_def state_init_def demo_iceberg_def)

text \<open>Three trades of two coins at one level are an iceberg.\<close>

lemma demo_round: "round_price demo_config 100 = 100"
  by code_simp

lemma demo_min: "iceberg_min_trades demo_config = 3"
  by (simp add: demo_config_def)

lemma demo_two_trades:
  "fold seeker_step [Trade demo_pow 7 ''BTC'' 100 2 BID, Trade demo_pow 8 ''BTC'' 100 2 ASK] demo_seeker =
     demo_seeker\<lparr>state := state_init\<lparr>volume_accumulations := [((''BTC'', 100),
       \<lparr>a_price = 100, total_volume = 4, trade_count = 2, first_seen_ns = 7, last_seen_ns = 8\<rparr>)]\<rparr>\<rparr>"
  by (simp add: demo_seeker_def process_trade_def Let_def demo_round should_probe_def detect_def add_volume_at_level_def state_init_def
      add_trade_def fadd_def demo_min)

theorem detection_counts_trades_witness:
  "\<exists>d. fst (process_trade demo_pow 9 ''BTC'' 100 2 BID
      (fold seeker_step [Trade demo_pow 7 ''BTC'' 100 2 BID, Trade demo_pow 8 ''BTC'' 100 2 ASK] demo_seeker)) = Inr (Some d)"
proof -
  let ?k = "fold seeker_step [Trade demo_pow 7 ''BTC'' 100 2 BID, Trade demo_pow 8 ''BTC'' 100 2 ASK] demo_seeker"
  have a: "after_trade ''BTC'' 100 2 9 ?k = \<lparr>a_price = 100, total_volume = 6, trade_count = 3, first_seen_ns = 7, last_seen_ns = 9\<rparr>"
    unfolding demo_two_trades by (simp add: after_trade_def add_trade_def fadd_def)
  have q: "fl (1 / 4) = 1 / 4" by code_simp
  have "1 / 4 \<le> fl (3 / 10)" using fl_mono [of "1 / 4" "3 / 10"] q by simp
  then show ?thesis
    using detection_counts_trades [OF _ _ demo_init refl refl refl, where pw = demo_pow and p = 100 and sy = "''BTC''" and v = 2 and now = 9
        and xs = "[Trade demo_pow 7 ''BTC'' 100 2 BID, Trade demo_pow 8 ''BTC'' 100 2 ASK]" and sd = BID] a
    by (simp add: demo_round demo_pow_def fmul_def fdiv_def) (simp add: demo_config_def)
qed

theorem probes_within_limit_witness:
  "seeker_inv demo_config (fold seeker_step [Create 0 ''BTC'' BID 100 1] demo_seeker)"
  by (rule probes_within_limit [OF demo_init])

theorem trades_never_probe_witness:
  "active_probes (state (fold seeker_step [Trade demo_pow 7 ''BTC'' 100 5 BID, Purge 8] demo_seeker)) = []"
  by (rule trades_never_probe [OF demo_init, THEN conjunct1]) simp

theorem half_tick_probe_raises_witness:
  "create_probe_order 0 ''BTC'' BID (1 / 4) 1 demo_seeker = (Inl ValueError, demo_seeker)"
  by (rule half_tick_probe_raises [OF demo_init, of _ "[]"]) (simp_all add: demo_config_def demo_seeker_def state_init_def)

end
