(* ===== verification/SmartRouter.thy ===== *)
theory SmartRouter
  imports Prelude
begin

text \<open>
  \<open>execution/smart_router.py\<close>: the execution strategies and the task that works off a parent order.

  The function that places orders is a parameter: each request gets a \<open>reply\<close>. Clock readings are arguments, \<open>ms\<close> in milliseconds and \<open>now\<close> in
  seconds; so is the random factor of an iceberg slice. A task is a state machine that stops at every point where the coroutine awaits, so
  that a cancellation can fall between any two steps. Order ids (time and random number) are taken to be unique.
\<close>

section \<open>Data\<close>

datatype ExecutionAlgo = TWAP | VWAP | ICEBERG | SNIPER | LIMIT_MAKER
datatype OrderStatus = PENDING | RUNNING | PARTIALLY_FILLED | COMPLETED | CANCELLED | FAILED

record ChildOrder =
  c_id :: string
  parent_order_id :: string
  c_symbol :: string
  c_side :: string
  c_quantity :: decimal
  c_price :: "decimal option"
  c_type :: string
  c_status :: OrderStatus
  c_filled :: decimal
  c_avg :: "decimal option"
  c_created :: int
  c_updated :: int
  c_error :: "string option"

record ParentOrder =
  order_id :: string
  symbol :: string
  side :: string
  total_quantity :: decimal
  algo :: ExecutionAlgo
  status :: OrderStatus
  filled_quantity :: decimal
  child_orders :: "ChildOrder list"
  created_at :: int
  started_at :: "int option"
  completed_at :: "int option"

definition remaining_quantity :: "ParentOrder \<Rightarrow> decimal" where
  "remaining_quantity p = dsub (total_quantity p) (filled_quantity p)"

definition completion_pct :: "ParentOrder \<Rightarrow> pyfloat" where
  "completion_pct p =
     (if total_quantity p = 0 then 0 else fl (dmul (ddiv (filled_quantity p) (total_quantity p)) 100))"

definition new_child :: "ParentOrder \<Rightarrow> string \<Rightarrow> decimal \<Rightarrow> decimal option \<Rightarrow> string \<Rightarrow> int \<Rightarrow> ChildOrder" where
  "new_child p i q x ty t =
     \<lparr>c_id = order_id p @ i, parent_order_id = order_id p, c_symbol = symbol p, c_side = side p, c_quantity = q, c_price = x, c_type = ty,
      c_status = PENDING, c_filled = 0, c_avg = None, c_created = t, c_updated = 0, c_error = None\<rparr>"

section \<open>Strategies\<close>

text \<open>
  A profile maps minutes to shares. The fields of the constructors are those of the classes: duration, slices and interval; duration,
  profile and normalised profile; visible share, minimal visible quantity and whether to randomise.
\<close>

type_synonym profile = "(int, decimal) dict"

datatype strategy =
    TWAPStrategy int int pyfloat
  | VWAPStrategy int profile profile
  | IcebergStrategy decimal decimal bool

definition twap_init :: "int \<Rightarrow> int \<Rightarrow> exn + strategy" where
  "twap_init d n = (if n = 0 then Inl ZeroDivisionError else Inr (TWAPStrategy d n (idiv d n)))"

definition vwap_init :: "int \<Rightarrow> profile \<Rightarrow> strategy" where
  "vwap_init d vp =
     (let tot = foldl dadd 0 (dict_values vp)
      in VWAPStrategy d vp (if 0 < tot then map (\<lambda>(k, v). (k, ddiv v tot)) vp else []))"

text \<open>\<open>min_visible_qty or Decimal('0.001')\<close>: also 0 is replaced.\<close>

definition iceberg_init :: "decimal \<Rightarrow> decimal option \<Rightarrow> bool \<Rightarrow> strategy" where
  "iceberg_init pct mn rz =
     IcebergStrategy pct (case mn of None \<Rightarrow> 1 / 1000 | Some x \<Rightarrow> if x = 0 then 1 / 1000 else x) rz"

text \<open>\<open>ms i\<close> is the clock at the i-th child order.\<close>

definition twap_children :: "(nat \<Rightarrow> int) \<Rightarrow> int \<Rightarrow> pyfloat \<Rightarrow> ParentOrder \<Rightarrow> ChildOrder list" where
  "twap_children ms n interval p =
     (let q = ddiv (remaining_quantity p) (of_int n)
      in map (\<lambda>i. new_child p (''_twap_'' @ int_str (int i)) q None ''MARKET''
                (ms i + int_of_float (fmul (fmul (of_nat i) interval) 1000))) [0..<nat n])"

definition equal_slice :: "(nat \<Rightarrow> int) \<Rightarrow> int \<Rightarrow> profile \<Rightarrow> ParentOrder \<Rightarrow> ChildOrder list" where
  "equal_slice ms d vp p =
     (let n = max 1 (length vp); q = ddiv (remaining_quantity p) (of_nat n)
      in map (\<lambda>i. new_child p (''_vwap_'' @ int_str (int i)) q None ''MARKET''
                (ms i + int_of_float (fmul (fmul (of_nat i) (idiv d (int n))) 1000))) [0..<n])"

text \<open>All slices but the last of the sorted profile, then one for what remains.\<close>

fun vwap_slices :: "(nat \<Rightarrow> int) \<Rightarrow> int \<Rightarrow> ParentOrder \<Rightarrow> nat \<Rightarrow> decimal \<Rightarrow> (int \<times> decimal) list \<Rightarrow> ChildOrder list" where
  "vwap_slices ms d p i rest [] =
     (if 0 < rest then [new_child p ''_vwap_final'' rest None ''MARKET'' (ms i + d * 1000)] else [])"
| "vwap_slices ms d p i rest ((minute, pct) # ps) =
     (let q = min (dmul (total_quantity p) pct) rest
      in new_child p (''_vwap_'' @ int_str (int i)) q None ''MARKET'' (ms i + minute * 60 * 1000) #
         vwap_slices ms d p (i + 1) (dsub rest q) ps)"

definition vwap_children :: "(nat \<Rightarrow> int) \<Rightarrow> int \<Rightarrow> profile \<Rightarrow> profile \<Rightarrow> profile option \<Rightarrow> ParentOrder \<Rightarrow> ChildOrder list" where
  "vwap_children ms d vp nvp given p =
     (let prof = (case given of None \<Rightarrow> nvp | Some g \<Rightarrow> if g = [] then nvp else g)
      in if prof = [] then equal_slice ms d vp p
         else vwap_slices ms d p 0 (remaining_quantity p) (butlast (sort_key fst prof)))"

definition calculate_visible_qty :: "decimal \<Rightarrow> decimal \<Rightarrow> bool \<Rightarrow> decimal \<Rightarrow> decimal \<Rightarrow> decimal" where
  "calculate_visible_qty pct mn rz factor rest =
     (let base = dmul rest pct; b = (if rz then dmul base factor else base) in max b mn)"

definition iceberg_child :: "int \<Rightarrow> decimal \<Rightarrow> decimal \<Rightarrow> bool \<Rightarrow> decimal \<Rightarrow> decimal \<Rightarrow> nat \<Rightarrow> ParentOrder \<Rightarrow> ChildOrder" where
  "iceberg_child t pct mn rz factor x n p =
     new_child p (''_iceberg_'' @ int_str (int n)) (calculate_visible_qty pct mn rz factor (remaining_quantity p)) (Some x) ''LIMIT'' t"

fun generate_child_orders :: "(nat \<Rightarrow> int) \<Rightarrow> decimal \<Rightarrow> profile option \<Rightarrow> decimal \<Rightarrow> strategy \<Rightarrow> ParentOrder \<Rightarrow> ChildOrder list" where
  "generate_child_orders ms factor given x (TWAPStrategy d n interval) p = twap_children ms n interval p"
| "generate_child_orders ms factor given x (VWAPStrategy d vp nvp) p = vwap_children ms d vp nvp given p"
| "generate_child_orders ms factor given x (IcebergStrategy pct mn rz) p = [iceberg_child (ms 0) pct mn rz factor x 0 p]"

definition get_next_child_order :: "int \<Rightarrow> decimal \<Rightarrow> decimal \<Rightarrow> bool \<Rightarrow> decimal \<Rightarrow> decimal \<Rightarrow> ParentOrder \<Rightarrow> ChildOrder option" where
  "get_next_child_order t pct mn rz factor x p =
     (if remaining_quantity p \<le> 0 then None else Some (iceberg_child t pct mn rz factor x (length (child_orders p)) p))"

text \<open>A start time of 0 counts as none.\<close>

fun get_next_order_timing :: "pyfloat \<Rightarrow> strategy \<Rightarrow> ParentOrder \<Rightarrow> pyfloat" where
  "get_next_order_timing now (TWAPStrategy d n interval) p =
     (case started_at p of
        None \<Rightarrow> 0
      | Some t \<Rightarrow>
          if t = 0 then 0
          else max 0 (fsub (fmul (of_nat (length (child_orders p))) interval) (fsub now (idiv t 1000))))"
| "get_next_order_timing now (VWAPStrategy d vp nvp) p =
     (case started_at p of
        None \<Rightarrow> 0
      | Some t \<Rightarrow>
          if t = 0 then 0
          else
            (let k = length (child_orders p); minutes = sort (dict_keys nvp)
             in if k < length minutes then max 0 (fsub (of_int (minutes ! k * 60)) (fsub now (idiv t 1000))) else 0))"
| "get_next_order_timing now (IcebergStrategy pct mn rz) p = 0"

section \<open>The task of a parent order\<close>

text \<open>The reply to a request: the fill quantity and price where the result names them, or an exception with its text.\<close>

datatype reply = Fill "decimal option" "decimal option" | Raises string

definition send_child_order :: "reply \<Rightarrow> int \<Rightarrow> ChildOrder \<Rightarrow> ParentOrder \<Rightarrow> ChildOrder \<times> ParentOrder" where
  "send_child_order r t c p =
     (case r of
        Fill q x \<Rightarrow>
          (let f = (case q of None \<Rightarrow> c_quantity c | Some f \<Rightarrow> f)
           in (c\<lparr>c_status := COMPLETED, c_filled := f, c_avg := x, c_updated := t\<rparr>, p\<lparr>filled_quantity := dadd (filled_quantity p) f\<rparr>))
      | Raises e \<Rightarrow> (c\<lparr>c_status := FAILED, c_error := Some e\<rparr>, p))"

datatype phase = Created | LoopHead | Waiting | Sending nat | SendingIceberg ChildOrder | Checking | Finished

text \<open>\<open>sent\<close> lists the requests made, each with the reply it got.\<close>

record task =
  parent :: ParentOrder
  strat :: "strategy option"
  phase :: phase
  sent :: "(ChildOrder \<times> reply) list"

record tick =
  t_now :: pyfloat
  t_ms :: "nat \<Rightarrow> int"
  t_factor :: decimal
  t_reply :: reply

text \<open>The strategy of the algorithm is looked up once, when the task starts to run.\<close>

definition begin_task :: "(ExecutionAlgo, strategy) dict \<Rightarrow> tick \<Rightarrow> task \<Rightarrow> task" where
  "begin_task ss k t =
     (let p = (parent t)\<lparr>status := RUNNING, started_at := Some (t_ms k 0)\<rparr>
      in case dict_get ss (algo p) of
           None \<Rightarrow> t\<lparr>parent := p\<lparr>status := FAILED\<rparr>, phase := Finished\<rparr>
         | Some s \<Rightarrow> t\<lparr>parent := p, strat := Some s, phase := LoopHead\<rparr>)"

text \<open>A round of the loop once its wait is over: children are generated for a price of 0. The condition of the loop is not tested again.\<close>

definition generate_round :: "tick \<Rightarrow> task \<Rightarrow> task" where
  "generate_round k t =
     (let p = parent t; gen = (\<lambda>s. generate_child_orders (t_ms k) (t_factor k) None 0 s p)
      in case strat t of
           None \<Rightarrow> t\<lparr>phase := Finished\<rparr>
         | Some s \<Rightarrow>
             if algo p = ICEBERG
             then t\<lparr>phase := (case gen s of [] \<Rightarrow> Checking | c # _ \<Rightarrow> SendingIceberg c)\<rparr>
             else t\<lparr>parent := (if child_orders p = [] then p\<lparr>child_orders := gen s\<rparr> else p), phase := Sending 0\<rparr>)"

text \<open>The head of the loop: the condition is tested, then the task sleeps where the strategy asks for it. A cancellation during that
  sleep is seen at the next head only.\<close>

definition must_wait :: "tick \<Rightarrow> task \<Rightarrow> bool" where
  "must_wait k t \<longleftrightarrow> (case strat t of None \<Rightarrow> False | Some s \<Rightarrow> 0 < get_next_order_timing (t_now k) s (parent t))"

definition loop_head :: "tick \<Rightarrow> task \<Rightarrow> task" where
  "loop_head k t =
     (if 0 < remaining_quantity (parent t) \<and> status (parent t) \<noteq> CANCELLED \<and> status (parent t) \<noteq> FAILED
      then (if must_wait k t then t\<lparr>phase := Waiting\<rparr> else generate_round k t)
      else t\<lparr>phase := Finished\<rparr>)"

definition send_listed :: "tick \<Rightarrow> nat \<Rightarrow> task \<Rightarrow> task" where
  "send_listed k i t =
     (let p = parent t
      in if length (child_orders p) \<le> i then t\<lparr>phase := Checking\<rparr>
         else if c_status (child_orders p ! i) \<noteq> PENDING then t\<lparr>phase := Sending (i + 1)\<rparr>
         else
           (let (c, p1) = send_child_order (t_reply k) (t_ms k 0) (child_orders p ! i) p
            in t\<lparr>parent := p1\<lparr>child_orders := (child_orders p)[i := c]\<rparr>, phase := Sending (i + 1),
                 sent := sent t @ [(child_orders p ! i, t_reply k)]\<rparr>))"

definition send_iceberg :: "tick \<Rightarrow> ChildOrder \<Rightarrow> task \<Rightarrow> task" where
  "send_iceberg k c t =
     (let (c1, p1) = send_child_order (t_reply k) (t_ms k 0) c (parent t)
      in t\<lparr>parent := p1, phase := Checking, sent := sent t @ [(c, t_reply k)]\<rparr>)"

definition check_done :: "tick \<Rightarrow> task \<Rightarrow> task" where
  "check_done k t =
     (if remaining_quantity (parent t) \<le> 0
      then t\<lparr>parent := (parent t)\<lparr>status := COMPLETED, completed_at := Some (t_ms k 0)\<rparr>, phase := Finished\<rparr>
      else t\<lparr>phase := LoopHead\<rparr>)"

definition execute_parent_order :: "(ExecutionAlgo, strategy) dict \<Rightarrow> tick \<Rightarrow> task \<Rightarrow> task" where
  "execute_parent_order ss k t =
     (case phase t of
        Created \<Rightarrow> begin_task ss k t | LoopHead \<Rightarrow> loop_head k t | Waiting \<Rightarrow> generate_round k t | Sending i \<Rightarrow> send_listed k i t
      | SendingIceberg c \<Rightarrow> send_iceberg k c t | Checking \<Rightarrow> check_done k t | Finished \<Rightarrow> t)"

definition cancel_task :: "task \<Rightarrow> task" where
  "cancel_task t = (if status (parent t) = RUNNING then t\<lparr>parent := (parent t)\<lparr>status := CANCELLED\<rparr>\<rparr> else t)"

section \<open>The router\<close>

record router =
  parent_orders :: "(string, task) dict"
  strategies :: "(ExecutionAlgo, strategy) dict"

definition register_strategy :: "ExecutionAlgo \<Rightarrow> strategy \<Rightarrow> router \<Rightarrow> router" where
  "register_strategy a s r = r\<lparr>strategies := dict_set a s (strategies r)\<rparr>"

definition router_init :: router where
  "router_init =
     register_strategy ICEBERG (iceberg_init (1 / 10) None True)
       (register_strategy VWAP (vwap_init 300 []) (register_strategy TWAP (TWAPStrategy 300 10 (idiv 300 10)) \<lparr>parent_orders = [], strategies = []\<rparr>))"

definition new_parent :: "string \<Rightarrow> int \<Rightarrow> string \<Rightarrow> string \<Rightarrow> decimal \<Rightarrow> ExecutionAlgo \<Rightarrow> ParentOrder" where
  "new_parent i t sy sd q a =
     \<lparr>order_id = i, symbol = py_upper sy, side = py_upper sd, total_quantity = q, algo = a, status = PENDING, filled_quantity = 0,
      child_orders = [], created_at = t, started_at = None, completed_at = None\<rparr>"

definition new_task :: "ParentOrder \<Rightarrow> task" where
  "new_task p = \<lparr>parent = p, strat = None, phase = Created, sent = []\<rparr>"

definition submit_parent_order :: "string \<Rightarrow> int \<Rightarrow> string \<Rightarrow> string \<Rightarrow> decimal \<Rightarrow> ExecutionAlgo \<Rightarrow> router \<Rightarrow> router" where
  "submit_parent_order i t sy sd q a r =
     r\<lparr>parent_orders := dict_set i (new_task (new_parent i t sy sd q a)) (parent_orders r)\<rparr>"

definition step_order :: "string \<Rightarrow> tick \<Rightarrow> router \<Rightarrow> router" where
  "step_order i k r =
     (case dict_get (parent_orders r) i of
        None \<Rightarrow> r | Some t \<Rightarrow> r\<lparr>parent_orders := dict_set i (execute_parent_order (strategies r) k t) (parent_orders r)\<rparr>)"

definition get_parent_order :: "string \<Rightarrow> router \<Rightarrow> ParentOrder option" where
  "get_parent_order i r = map_option parent (dict_get (parent_orders r) i)"

definition cancel_parent_order :: "string \<Rightarrow> router \<Rightarrow> bool \<times> router" where
  "cancel_parent_order i r =
     (case dict_get (parent_orders r) i of
        None \<Rightarrow> (False, r)
      | Some t \<Rightarrow>
          (status (parent t) = RUNNING, r\<lparr>parent_orders := dict_set i (cancel_task t) (parent_orders r)\<rparr>))"


section \<open>Runs of one task\<close>

datatype task_op = Step tick | Cancel

fun task_step :: "(ExecutionAlgo, strategy) dict \<Rightarrow> task_op \<Rightarrow> task \<Rightarrow> task" where
  "task_step ss (Step k) t = execute_parent_order ss k t"
| "task_step ss Cancel t = cancel_task t"

lemma cancel_task_fields [simp]:
  "phase (cancel_task t) = phase t" "sent (cancel_task t) = sent t" "strat (cancel_task t) = strat t"
  "child_orders (parent (cancel_task t)) = child_orders (parent t)" "filled_quantity (parent (cancel_task t)) = filled_quantity (parent t)"
  "total_quantity (parent (cancel_task t)) = total_quantity (parent t)" "algo (parent (cancel_task t)) = algo (parent t)"
  "remaining_quantity (parent (cancel_task t)) = remaining_quantity (parent t)"
  "status (parent (cancel_task t)) = COMPLETED \<longleftrightarrow> status (parent t) = COMPLETED"
  by (auto simp: cancel_task_def remaining_quantity_def)

lemma send_child_fields:
  assumes "send_child_order r t c p = (c1, p1)"
  shows "c_status c1 \<noteq> PENDING" "child_orders p1 = child_orders p" "total_quantity p1 = total_quantity p" "algo p1 = algo p"
    "status p1 = status p" "order_id p1 = order_id p"
  using assms by (auto simp: send_child_order_def Let_def split: reply.splits)

subsection \<open>Slices\<close>

text \<open>A task that is sending: the slices from the i-th on wait to be sent, each of quantity q.\<close>

definition sending_at :: "nat \<Rightarrow> nat \<Rightarrow> decimal \<Rightarrow> task \<Rightarrow> bool" where
  "sending_at i n q t \<longleftrightarrow>
     phase t = Sending i \<and> length (child_orders (parent t)) = n \<and>
     (\<forall>j < n. i \<le> j \<longrightarrow> c_status (child_orders (parent t) ! j) = PENDING \<and> c_quantity (child_orders (parent t) ! j) = q)"

definition steps_in :: "task_op list \<Rightarrow> nat" where
  "steps_in xs = length (filter (\<lambda>x. x \<noteq> Cancel) xs)"

lemma sending_step:
  assumes "sending_at i n q t" "i < n"
  shows "sending_at (i + 1) n q (execute_parent_order ss k t) \<and>
    (\<exists>c. sent (execute_parent_order ss k t) = sent t @ [(c, t_reply k)] \<and> c_quantity c = q)"
proof -
  obtain c1 p1 where c: "send_child_order (t_reply k) (t_ms k 0) (child_orders (parent t) ! i) (parent t) = (c1, p1)" by fastforce
  then show ?thesis
    using assms send_child_fields[OF c]
    by (auto simp: execute_parent_order_def sending_at_def send_listed_def nth_list_update Let_def)
qed

lemma sending_run:
  "sending_at i n q t \<Longrightarrow> i + steps_in xs \<le> n \<Longrightarrow>
   sending_at (i + steps_in xs) n q (fold (task_step ss) xs t) \<and>
   (\<exists>new. sent (fold (task_step ss) xs t) = sent t @ new \<and> map (c_quantity \<circ> fst) new = replicate (steps_in xs) q)"
proof (induction xs arbitrary: i t)
  case (Cons x xs)
  show ?case
  proof (cases x)
    case (Step k)
    let ?t = "execute_parent_order ss k t"
    have i: "i < n" "i + 1 + steps_in xs \<le> n" using Cons.prems(2) Step by (auto simp: steps_in_def)
    obtain c where c: "sending_at (i + 1) n q ?t" "sent ?t = sent t @ [(c, t_reply k)]" "c_quantity c = q"
      using sending_step[OF Cons.prems(1) i(1)] by blast
    obtain new where "sending_at (i + 1 + steps_in xs) n q (fold (task_step ss) xs ?t)"
        "sent (fold (task_step ss) xs ?t) = sent ?t @ new" "map (c_quantity \<circ> fst) new = replicate (steps_in xs) q"
      using Cons.IH[OF c(1) i(2)] by blast
    then show ?thesis using c(2,3) Step by (auto simp: steps_in_def comp_def)
  next
    case Cancel
    then have "sending_at i n q (cancel_task t)" using Cons.prems(1) by (simp add: sending_at_def)
    then show ?thesis using Cons.IH[of i "cancel_task t"] Cons.prems(2) Cancel by (simp add: steps_in_def)
  qed
qed (simp add: steps_in_def)

lemma sending_begins:
  assumes "strat t = Some (TWAPStrategy d (int n) interval)" "algo (parent t) \<noteq> ICEBERG" "child_orders (parent t) = []"
  shows "sending_at 0 n (ddiv (remaining_quantity (parent t)) (of_nat n)) (generate_round k t) \<and> sent (generate_round k t) = sent t"
  using assms by (auto simp: generate_round_def sending_at_def twap_children_def new_child_def Let_def)

lemma waiting_run:
  assumes "phase t = Waiting" "strat t = Some (TWAPStrategy d (int n) interval)" "algo (parent t) \<noteq> ICEBERG"
    "child_orders (parent t) = []" "steps_in xs = n + 1"
  shows "\<exists>new. sent (fold (task_step ss) xs t) = sent t @ new \<and>
    map (c_quantity \<circ> fst) new = replicate n (ddiv (remaining_quantity (parent t)) (of_nat n))"
  using assms
proof (induction xs arbitrary: t)
  case (Cons x xs)
  show ?case
  proof (cases x)
    case (Step k)
    have "execute_parent_order ss k t = generate_round k t" using Cons.prems(1) by (simp add: execute_parent_order_def)
    moreover have "steps_in xs = n" using Cons.prems(5) Step by (simp add: steps_in_def)
    moreover have "sent (generate_round k t) = sent t" using sending_begins[OF Cons.prems(2-4), of k] by simp
    ultimately show ?thesis
      using sending_run[OF sending_begins[OF Cons.prems(2-4), THEN conjunct1], of xs ss k] Step by (simp add: comp_def)
  next
    case Cancel
    then show ?thesis using Cons.IH[of "cancel_task t"] Cons.prems by (simp add: steps_in_def)
  qed
qed (simp add: steps_in_def)

text \<open>C21: Once a TWAP order has begun its first round it sends all its slices one after the other, without returning to the point where it
  waits for the next interval and whether or not it is cancelled in between: the order is not spread over time and cannot be stopped. The
  head of the loop asks for no wait before the first round, unless the clock has been set back since the start; then there is one step
  more, and an order cancelled during that wait sends its slices too.\<close>

theorem twap_sends_all_slices:
  assumes "phase t = LoopHead" "strat t = Some (TWAPStrategy d (int n) interval)" "algo (parent t) \<noteq> ICEBERG" "child_orders (parent t) = []"
    "0 < remaining_quantity (parent t)" "status (parent t) = RUNNING" "steps_in xs = n + (if must_wait k t then 1 else 0)"
  shows "\<exists>new. sent (fold (task_step ss) (Step k # xs) t) = sent t @ new \<and>
    map (c_quantity \<circ> fst) new = replicate n (ddiv (remaining_quantity (parent t)) (of_nat n))"
proof (cases "must_wait k t")
  case True
  then have "execute_parent_order ss k t = t\<lparr>phase := Waiting\<rparr>" using assms(1,5,6) by (simp add: execute_parent_order_def loop_head_def)
  then show ?thesis using waiting_run[of "t\<lparr>phase := Waiting\<rparr>" d n interval xs ss] assms True by simp
next
  case False
  then have "execute_parent_order ss k t = generate_round k t" using assms(1,5,6) by (simp add: execute_parent_order_def loop_head_def)
  then show ?thesis
    using sending_begins[OF assms(2-4), of k] sending_run[of 0 n _ "generate_round k t" xs ss] assms(7) False by simp
qed

lemma twap_starts_at_once:
  assumes "strat t = Some (TWAPStrategy d n interval)" "child_orders (parent t) = []" "started_at (parent t) = Some ms" "idiv ms 1000 \<le> t_now k"
  shows "\<not> must_wait k t"
proof -
  have "0 \<le> fsub (t_now k) (idiv ms 1000)" using assms(4) by (rule fsub_nonneg)
  then have "fsub 0 (fsub (t_now k) (idiv ms 1000)) \<le> 0" using fl_mono[of "- fsub (t_now k) (idiv ms 1000)" 0] by (simp add: fsub_def)
  then show ?thesis using assms by (simp add: must_wait_def fmul_def)
qed

subsection \<open>Orders that never end\<close>

definition stuck :: "task \<Rightarrow> bool" where
  "stuck t \<longleftrightarrow>
     algo (parent t) \<noteq> ICEBERG \<and> child_orders (parent t) \<noteq> [] \<and> (\<forall>c \<in> set (child_orders (parent t)). c_status c \<noteq> PENDING) \<and>
     0 < remaining_quantity (parent t) \<and> status (parent t) \<noteq> COMPLETED \<and> (phase t = LoopHead \<or> phase t = Waiting \<or> phase t = Checking \<or>
       phase t = Finished \<or> (\<exists>i. phase t = Sending i))"

lemma stuck_round:
  "stuck t \<Longrightarrow> phase t = LoopHead \<or> phase t = Waiting \<Longrightarrow> stuck (generate_round k t) \<and> sent (generate_round k t) = sent t"
  by (auto simp: generate_round_def stuck_def Let_def split: option.split)

lemma stuck_head: "stuck t \<Longrightarrow> phase t = LoopHead \<Longrightarrow> stuck (loop_head k t) \<and> sent (loop_head k t) = sent t"
  using stuck_round by (auto simp: loop_head_def) (auto simp: stuck_def)

lemma stuck_step: "stuck t \<Longrightarrow> stuck (task_step ss x t) \<and> sent (task_step ss x t) = sent t"
proof (induction x)
  case Cancel
  then show ?case by (simp add: stuck_def)
next
  case (Step k)
  consider "phase t = LoopHead \<or> phase t = Waiting" | "phase t = Checking" | "phase t = Finished" | i where "phase t = Sending i"
    using Step by (auto simp: stuck_def)
  then show ?case
  proof cases
    case 1
    then show ?thesis using Step stuck_head stuck_round by (auto simp: execute_parent_order_def)
  next
    case 4
    then have "i < length (child_orders (parent t)) \<Longrightarrow> c_status (child_orders (parent t) ! i) \<noteq> PENDING" using Step by (simp add: stuck_def)
    then show ?thesis using Step 4 by (auto simp: execute_parent_order_def send_listed_def stuck_def Let_def)
  qed (use Step in \<open>auto simp: execute_parent_order_def check_done_def stuck_def\<close>)
qed

interpretation stalled: op_machine "task_step ss" stuck for ss
  by unfold_locales (use stuck_step in blast)

text \<open>When every slice of an order has been sent and something remains, because a slice failed, was filled in part, or because the slices
  were rounded down, the order is never completed and sends nothing any more: its task polls for ever, however it is stepped or cancelled.\<close>

theorem lost_quantity_never_completes:
  assumes "stuck t"
  shows "status (parent (fold (task_step ss) xs t)) \<noteq> COMPLETED \<and> sent (fold (task_step ss) xs t) = sent t \<and>
    0 < remaining_quantity (parent (fold (task_step ss) xs t))"
proof -
  have "stuck (fold (task_step ss) xs t)" by (rule stalled.run_inv[OF assms])
  moreover have "sent (fold (task_step ss) xs t) = sent t"
    by (rule stalled.run_rel[where ok = "\<lambda>_. True" and rel = "\<lambda>a b. sent b = sent a", OF assms]) (use stuck_step in auto)
  ultimately show ?thesis by (simp add: stuck_def)
qed

subsection \<open>Accounting\<close>

definition fill_of :: "ChildOrder \<times> reply \<Rightarrow> decimal option" where
  "fill_of cr = (case snd cr of Fill None _ \<Rightarrow> Some (c_quantity (fst cr)) | Fill (Some f) _ \<Rightarrow> Some f | Raises _ \<Rightarrow> None)"

definition fills_total :: "(ChildOrder \<times> reply) list \<Rightarrow> decimal" where
  "fills_total rs = foldl (\<lambda>a cr. case fill_of cr of None \<Rightarrow> a | Some f \<Rightarrow> dadd a f) 0 rs"

definition accounted :: "task \<Rightarrow> bool" where
  "accounted t \<longleftrightarrow> filled_quantity (parent t) = fills_total (sent t)"

lemma send_accounted:
  "send_child_order r ms c p = (c1, p1) \<Longrightarrow> filled_quantity p = fills_total rs \<Longrightarrow> filled_quantity p1 = fills_total (rs @ [(c, r)])"
  by (auto simp: send_child_order_def fills_total_def fill_of_def Let_def split: reply.splits option.splits)

lemma accounted_step: "accounted t \<Longrightarrow> accounted (task_step ss x t)"
proof (induction x)
  case (Step k)
  show ?case
  proof (cases "phase t")
    case (Sending i)
    obtain c1 p1 where c: "send_child_order (t_reply k) (t_ms k 0) (child_orders (parent t) ! i) (parent t) = (c1, p1)" by fastforce
    then have "filled_quantity p1 = fills_total (sent t @ [(child_orders (parent t) ! i, t_reply k)])"
      using Step send_accounted by (simp add: accounted_def)
    then show ?thesis using Sending Step c by (simp add: execute_parent_order_def send_listed_def accounted_def Let_def)
  next
    case (SendingIceberg c)
    obtain c1 p1 where c1: "send_child_order (t_reply k) (t_ms k 0) c (parent t) = (c1, p1)" by fastforce
    then have "filled_quantity p1 = fills_total (sent t @ [(c, t_reply k)])"
      using Step send_accounted by (simp add: accounted_def)
    then show ?thesis using SendingIceberg c1 by (simp add: execute_parent_order_def send_iceberg_def accounted_def)
  qed (use Step in \<open>auto simp: execute_parent_order_def begin_task_def loop_head_def generate_round_def check_done_def accounted_def Let_def split: option.split\<close>)
qed (simp add: accounted_def)

interpretation accounting: op_machine "task_step ss" accounted for ss
  by unfold_locales (rule accounted_step)

text \<open>The filled quantity of a parent order is at all times the sum of the fills its requests were answered with, in the order of the
  replies.\<close>

theorem filled_is_sum_of_fills:
  "filled_quantity (parent (fold (task_step ss) xs (new_task (new_parent i t sy sd q a)))) =
   fills_total (sent (fold (task_step ss) xs (new_task (new_parent i t sy sd q a))))"
  using accounting.run_inv[of "new_task (new_parent i t sy sd q a)" ss xs]
  by (simp add: accounted_def new_task_def new_parent_def fills_total_def)

subsection \<open>Icebergs\<close>

definition iceberg_request :: "decimal \<Rightarrow> ChildOrder \<Rightarrow> bool" where
  "iceberg_request mn c \<longleftrightarrow> c_price c = Some 0 \<and> c_type c = ''LIMIT'' \<and> mn \<le> c_quantity c"

definition iceberg_inv :: "decimal \<Rightarrow> decimal \<Rightarrow> bool \<Rightarrow> task \<Rightarrow> bool" where
  "iceberg_inv pct mn rz t \<longleftrightarrow>
     algo (parent t) = ICEBERG \<and> (phase t \<noteq> Created \<longrightarrow> strat t = Some (IcebergStrategy pct mn rz)) \<and> (\<forall>i. phase t \<noteq> Sending i) \<and>
     (\<forall>c. phase t = SendingIceberg c \<longrightarrow> iceberg_request mn c) \<and> (\<forall>cr \<in> set (sent t). iceberg_request mn (fst cr))"

lemma iceberg_child_request: "iceberg_request mn (iceberg_child t pct mn rz f 0 n p)"
  by (simp add: iceberg_request_def iceberg_child_def new_child_def calculate_visible_qty_def Let_def)

lemma iceberg_step:
  assumes "dict_get ss ICEBERG = Some (IcebergStrategy pct mn rz)" "iceberg_inv pct mn rz t"
  shows "iceberg_inv pct mn rz (task_step ss x t)"
proof (cases x)
  case (Step k)
  show ?thesis
  proof (cases "phase t")
    case (SendingIceberg c)
    obtain c1 p1 where c1: "send_child_order (t_reply k) (t_ms k 0) c (parent t) = (c1, p1)" by fastforce
    then show ?thesis
      using assms SendingIceberg Step send_child_fields[OF c1] by (auto simp: execute_parent_order_def send_iceberg_def iceberg_inv_def)
  next
    case LoopHead
    then show ?thesis
      using assms Step iceberg_child_request by (auto simp: execute_parent_order_def loop_head_def generate_round_def iceberg_inv_def Let_def)
  next
    case Waiting
    then show ?thesis
      using assms Step iceberg_child_request by (auto simp: execute_parent_order_def generate_round_def iceberg_inv_def Let_def)
  qed (use assms Step in \<open>auto simp: execute_parent_order_def begin_task_def check_done_def iceberg_inv_def Let_def\<close>)
next
  case Cancel
  then show ?thesis using assms(2) by (simp add: iceberg_inv_def)
qed

text \<open>Every request of an iceberg order is a limit order at price 0, because the task generates its slices for a current price of 0; and no
  request is smaller than the minimal visible quantity, also when less than that remains.\<close>

theorem iceberg_sends_price_zero:
  assumes "dict_get ss ICEBERG = Some (IcebergStrategy pct mn rz)"
    "cr \<in> set (sent (fold (task_step ss) xs (new_task (new_parent i t sy sd q ICEBERG))))"
  shows "c_price (fst cr) = Some 0 \<and> c_type (fst cr) = ''LIMIT'' \<and> mn \<le> c_quantity (fst cr)"
proof -
  have "iceberg_inv pct mn rz (fold (task_step ss) xs u)" if "iceberg_inv pct mn rz u" for u
    using that by (induction xs arbitrary: u) (auto intro: iceberg_step[OF assms(1)])
  moreover have "iceberg_inv pct mn rz (new_task (new_parent i t sy sd q ICEBERG))"
    by (simp add: iceberg_inv_def new_task_def new_parent_def)
  ultimately have "iceberg_inv pct mn rz (fold (task_step ss) xs (new_task (new_parent i t sy sd q ICEBERG)))" by blast
  then show ?thesis using assms(2) by (auto simp: iceberg_inv_def iceberg_request_def)
qed

subsection \<open>Volume profiles\<close>

text \<open>The slices of a volume profile use up the order exactly: taking them off the quantity one after the other, with the rounding of each
  subtraction, leaves 0, whatever the shares of the profile.\<close>

theorem vwap_slices_exhaust:
  assumes "0 \<le> rest"
  shows "foldl dsub rest (map c_quantity (vwap_slices ms d p i rest ps)) = 0"
  using assms
proof (induction ms d p i rest ps rule: vwap_slices.induct)
  case (2 ms d p i rest minute pct ps)
  let ?q = "min (dmul (total_quantity p) pct) rest"
  have "0 \<le> dsub rest ?q" by (simp add: dsub_def)
  then show ?case using "2.IH"[OF refl] by (simp add: new_child_def Let_def)
qed (simp add: new_child_def dsub_def)

section \<open>Witnesses\<close>

definition demo_tick :: "reply \<Rightarrow> tick" where
  "demo_tick r = \<lparr>t_now = 1, t_ms = (\<lambda>_. 5), t_factor = 1, t_reply = r\<rparr>"

definition demo_strategies :: "(ExecutionAlgo, strategy) dict" where
  "demo_strategies = [(TWAP, TWAPStrategy 4 2 2), (ICEBERG, IcebergStrategy (1 / 10) 1 False)]"

definition demo_task :: task where
  "demo_task = execute_parent_order demo_strategies (demo_tick (Raises [])) (new_task (new_parent ''P'' 1 ''btc'' ''buy'' 10 TWAP))"

lemma demo_no_wait: "fsub 0 (fsub 1 (idiv 5 1000)) \<le> 0"
proof -
  have "idiv 5 1000 \<le> fl 1" unfolding idiv_def by (intro fl_mono) simp
  then have "0 \<le> fsub 1 (idiv 5 1000)" by (intro fsub_nonneg) simp
  then show ?thesis using fl_mono[of "- fsub 1 (idiv 5 1000)" 0] by (simp add: fsub_def)
qed

lemma demo_task_fields:
  "phase demo_task = LoopHead" "strat demo_task = Some (TWAPStrategy 4 2 2)" "algo (parent demo_task) = TWAP"
  "child_orders (parent demo_task) = []" "started_at (parent demo_task) = Some 5" "remaining_quantity (parent demo_task) = 10" "status (parent demo_task) = RUNNING" "sent demo_task = []"
  by (simp_all add: demo_task_def execute_parent_order_def begin_task_def new_task_def new_parent_def demo_strategies_def remaining_quantity_def
    dsub_def demo_tick_def)

lemma twap_sends_all_slices_witness:
  "\<exists>new. sent (fold (task_step demo_strategies)
        [Step (demo_tick (Raises [])), Cancel, Step (demo_tick (Fill None None)), Step (demo_tick (Fill None None))] demo_task) = sent demo_task @ new \<and>
    map (c_quantity \<circ> fst) new = replicate 2 (ddiv (remaining_quantity (parent demo_task)) (of_nat 2))"
proof (rule twap_sends_all_slices[where d = 4 and interval = 2])
  have "\<not> must_wait (demo_tick (Raises [])) demo_task"
    by (simp add: must_wait_def demo_task_fields demo_tick_def max_absorb1[OF demo_no_wait] fmul_def)
  then show "steps_in [Cancel, Step (demo_tick (Fill None None)), Step (demo_tick (Fill None None))] =
      2 + (if must_wait (demo_tick (Raises [])) demo_task then 1 else 0)" by (simp add: steps_in_def)
qed (simp_all add: demo_task_fields)

definition demo_lost :: task where
  "demo_lost = fold (task_step demo_strategies)
     [Step (demo_tick (Raises [])), Step (demo_tick (Raises ''down'')), Step (demo_tick (Fill None None)), Step (demo_tick (Raises []))] demo_task"

lemma demo_lost_stuck: "stuck demo_lost"
proof -
  have q: "ddiv 10 2 = 5" "dadd 0 5 = 5" "dsub 10 5 = 5" by (simp_all add: ddiv_def dadd_def dsub_def)
  have up: "[0..<2] = [0, 1 :: nat]" by (simp add: upt_rec)
  show ?thesis
    by (simp add: demo_lost_def demo_task_def execute_parent_order_def begin_task_def new_task_def new_parent_def demo_strategies_def loop_head_def
      must_wait_def max_absorb1[OF demo_no_wait] fmul_def generate_round_def send_listed_def send_child_order_def demo_tick_def twap_children_def new_child_def stuck_def remaining_quantity_def up q Let_def dsub_def[of 10 0])
qed

lemma lost_quantity_never_completes_witness:
  "status (parent (fold (task_step demo_strategies) [Step (demo_tick (Fill None None)), Cancel, Step (demo_tick (Fill None None))] demo_lost)) \<noteq> COMPLETED \<and>
   sent (fold (task_step demo_strategies) [Step (demo_tick (Fill None None)), Cancel, Step (demo_tick (Fill None None))] demo_lost) = sent demo_lost \<and>
   0 < remaining_quantity (parent (fold (task_step demo_strategies) [Step (demo_tick (Fill None None)), Cancel, Step (demo_tick (Fill None None))] demo_lost))"
  by (rule lost_quantity_never_completes[OF demo_lost_stuck])

definition demo_iceberg :: task where
  "demo_iceberg = fold (task_step demo_strategies) (replicate 3 (Step (demo_tick (Fill None None)))) (new_task (new_parent ''P'' 1 ''btc'' ''buy'' 5 ICEBERG))"

definition demo_slice :: ChildOrder where
  "demo_slice = iceberg_child 5 (1 / 10) 1 False 1 0 0 ((new_parent ''P'' 1 ''btc'' ''buy'' 5 ICEBERG)\<lparr>status := RUNNING, started_at := Some 5\<rparr>)"

lemma iceberg_sends_price_zero_witness:
  "c_price (fst (demo_slice, Fill None None)) = Some 0 \<and> c_type (fst (demo_slice, Fill None None)) = ''LIMIT'' \<and>
   1 \<le> c_quantity (fst (demo_slice, Fill None None))"
proof (rule iceberg_sends_price_zero)
  show "dict_get demo_strategies ICEBERG = Some (IcebergStrategy (1 / 10) 1 False)" by (simp add: demo_strategies_def)
  show "(demo_slice, Fill None None) \<in> set (sent (fold (task_step demo_strategies) (replicate 3 (Step (demo_tick (Fill None None))))
      (new_task (new_parent ''P'' 1 ''btc'' ''buy'' 5 ICEBERG))))"
    by (simp add: eval_nat_numeral new_task_def new_parent_def execute_parent_order_def begin_task_def demo_strategies_def loop_head_def
      must_wait_def generate_round_def demo_tick_def remaining_quantity_def send_iceberg_def demo_slice_def dsub_def Let_def split: prod.split)
qed

lemma vwap_slices_exhaust_witness:
  "foldl dsub 10 (map c_quantity (vwap_slices (\<lambda>_. 0) 300 (new_parent ''P'' 1 ''btc'' ''buy'' 10 VWAP) 0 10 [(1, 1 / 3), (2, 3)])) = 0"
  by (rule vwap_slices_exhaust) simp

end
