(* ===== verification/SpreadCapture.thy ===== *)
theory SpreadCapture
  imports Prelude
begin

text \<open>
  \<open>execution/spread_capture_engine.py\<close>: the quotes of a market maker, their cancellation and replacement, and the fills they get.

  \<open>us\<close> is a measured duration in microseconds. A sum of floats goes from left to right (CPython up to 3.11).
\<close>

section \<open>Data\<close>

datatype OrderStatus = PENDING | ACTIVE | PARTIALLY_FILLED | FILLED | CANCELLED | REJECTED
datatype QuoteAction = HOLD | UPDATE | CANCEL | WIDEN | NARROW
datatype quote_side = Bid | Ask

record LimitOrder =
  order_id :: string
  symbol :: string
  side :: quote_side
  price :: pyfloat
  quantity :: pyfloat
  filled_quantity :: pyfloat
  status :: OrderStatus
  created_at_ms :: int
  updated_at_ms :: int
  fill_count :: int

definition remaining_quantity :: "LimitOrder \<Rightarrow> pyfloat" where
  "remaining_quantity r = fsub (quantity r) (filled_quantity r)"

definition is_active :: "LimitOrder \<Rightarrow> bool" where
  "is_active r \<longleftrightarrow> status r = ACTIVE \<or> status r = PARTIALLY_FILLED"

definition age_ms :: "int \<Rightarrow> LimitOrder \<Rightarrow> int" where
  "age_ms now r = now - created_at_ms r"

record SpreadCaptureEvent =
  timestamp_ms :: int
  e_symbol :: string
  action :: string
  bid_price :: "pyfloat option"
  ask_price :: "pyfloat option"
  spread_bps :: pyfloat
  captured_amount :: pyfloat
  pnl :: pyfloat

record quotes =
  q_bid :: "pyfloat option"
  q_ask :: "pyfloat option"
  bid_size :: pyfloat
  ask_size :: pyfloat
  last_update_ms :: int

record symbol_stats =
  total_captures :: int
  total_volume :: pyfloat
  total_pnl :: pyfloat
  avg_spread_captured :: pyfloat

text \<open>Of the configuration only the maximal age of a quote is ever read.\<close>

record engine =
  max_quote_age_ms :: int
  active_orders :: "(string, (string, LimitOrder) dict) dict"
  current_quotes :: "(string, quotes) dict"
  events :: "SpreadCaptureEvent list"
  stats :: "(string, symbol_stats) dict"
  cancel_latencies :: "pyfloat list"
  update_latencies :: "pyfloat list"
  inventory :: "(string, pyfloat) dict"

definition engine_init :: "int \<Rightarrow> engine" where
  "engine_init age =
     \<lparr>max_quote_age_ms = age, active_orders = [], current_quotes = [], events = [], stats = [], cancel_latencies = [], update_latencies = [],
      inventory = []\<rparr>"

definition ensure :: "string \<Rightarrow> 'a \<Rightarrow> (string, 'a) dict \<Rightarrow> (string, 'a) dict" where
  "ensure s v d = (if dict_get d s = None then dict_set s v d else d)"

definition initialize_symbol :: "string \<Rightarrow> engine \<Rightarrow> engine" where
  "initialize_symbol s g =
     g\<lparr>active_orders := ensure s [] (active_orders g),
       current_quotes := ensure s \<lparr>q_bid = None, q_ask = None, bid_size = 0, ask_size = 0, last_update_ms = 0\<rparr> (current_quotes g),
       stats := ensure s \<lparr>total_captures = 0, total_volume = 0, total_pnl = 0, avg_spread_captured = 0\<rparr> (stats g),
       inventory := ensure s 0 (inventory g)\<rparr>"

section \<open>Quoting\<close>

definition orders_of :: "string \<Rightarrow> engine \<Rightarrow> (string, LimitOrder) dict" where
  "orders_of s g = (case dict_get (active_orders g) s of None \<Rightarrow> [] | Some d \<Rightarrow> d)"

definition quote_id :: "string \<Rightarrow> quote_side \<Rightarrow> int \<Rightarrow> string" where
  "quote_id s sd t = s @ (case sd of Bid \<Rightarrow> ''_BID_'' | Ask \<Rightarrow> ''_ASK_'') @ int_str t"

definition new_quote :: "string \<Rightarrow> quote_side \<Rightarrow> pyfloat \<Rightarrow> pyfloat \<Rightarrow> int \<Rightarrow> LimitOrder" where
  "new_quote s sd x q t =
     \<lparr>order_id = quote_id s sd t, symbol = s, side = sd, price = x, quantity = q, filled_quantity = 0, status = ACTIVE, created_at_ms = t,
      updated_at_ms = t, fill_count = 0\<rparr>"

text \<open>One side of a quote; nothing is placed for a size that is not positive.\<close>

definition place_side :: "string \<Rightarrow> quote_side \<Rightarrow> pyfloat \<Rightarrow> pyfloat \<Rightarrow> int \<Rightarrow> engine \<Rightarrow> string option \<times> engine" where
  "place_side s sd x q t g =
     (if 0 < q
      then (Some (quote_id s sd t), g\<lparr>active_orders := dict_set s (dict_set (quote_id s sd t) (new_quote s sd x q t) (orders_of s g)) (active_orders g)\<rparr>)
      else (None, g))"

definition place_quote :: "string \<Rightarrow> pyfloat \<Rightarrow> pyfloat \<Rightarrow> pyfloat \<Rightarrow> pyfloat \<Rightarrow> int \<Rightarrow> engine \<Rightarrow> (string option \<times> string option) \<times> engine" where
  "place_quote s bx ax bq aq t g =
     (let (bi, g1) = place_side s Bid bx bq t (initialize_symbol s g); (ai, g2) = place_side s Ask ax aq t g1
      in ((bi, ai), g2\<lparr>current_quotes := dict_set s \<lparr>q_bid = Some bx, q_ask = Some ax, bid_size = bq, ask_size = aq, last_update_ms = t\<rparr>
            (current_quotes g2)\<rparr>))"

definition keep1000 :: "'a list \<Rightarrow> 'a list" where
  "keep1000 xs = (if 1000 < length xs then tl xs else xs)"

definition cancel_order :: "pyfloat \<Rightarrow> string \<Rightarrow> string \<Rightarrow> int \<Rightarrow> engine \<Rightarrow> bool \<times> engine" where
  "cancel_order us s i t g =
     (case dict_get (active_orders g) s of
        None \<Rightarrow> (False, g)
      | Some d \<Rightarrow>
          (case dict_get d i of
             None \<Rightarrow> (False, g)
           | Some r \<Rightarrow>
               if \<not> is_active r then (False, g)
               else (True, g\<lparr>active_orders := dict_set s (dict_set i (r\<lparr>status := CANCELLED, updated_at_ms := t\<rparr>) d) (active_orders g),
                             cancel_latencies := keep1000 (cancel_latencies g @ [us])\<rparr>)))"

text \<open>The loop runs over the orders as they were before it, and looks each up again before it cancels it.\<close>

fun cancel_loop :: "(string \<Rightarrow> pyfloat) \<Rightarrow> string \<Rightarrow> int \<Rightarrow> string list \<Rightarrow> engine \<Rightarrow> bool \<times> engine" where
  "cancel_loop us s t [] g = (False, g)"
| "cancel_loop us s t (i # is') g =
     (let (c, g1) = cancel_order (us i) s i t g; (c', g2) = cancel_loop us s t is' g1 in (c \<or> c', g2))"

definition cancel_both_quotes :: "(string \<Rightarrow> pyfloat) \<Rightarrow> string \<Rightarrow> int \<Rightarrow> engine \<Rightarrow> bool \<times> engine" where
  "cancel_both_quotes us s t g =
     (case dict_get (active_orders g) s of None \<Rightarrow> (False, g) | Some d \<Rightarrow> cancel_loop us s t (dict_keys d) g)"

definition update_quotes :: "(string \<Rightarrow> pyfloat) \<Rightarrow> pyfloat \<Rightarrow> string \<Rightarrow> pyfloat \<Rightarrow> pyfloat \<Rightarrow> int \<Rightarrow> engine \<Rightarrow> bool \<times> engine" where
  "update_quotes us el s bx ax t g =
     (let g1 = snd (cancel_both_quotes us s t g);
          (bq, aq) = (case dict_get (current_quotes g1) s of None \<Rightarrow> (0, 0) | Some q \<Rightarrow> (bid_size q, ask_size q));
          g2 = snd (place_quote s bx ax bq aq t g1)
      in (True, g2\<lparr>update_latencies := keep1000 (update_latencies g2 @ [el])\<rparr>))"

definition should_refresh_quotes :: "string \<Rightarrow> int \<Rightarrow> engine \<Rightarrow> QuoteAction" where
  "should_refresh_quotes s now g =
     (case dict_get (current_quotes g) s of
        None \<Rightarrow> UPDATE | Some q \<Rightarrow> if max_quote_age_ms g < now - last_update_ms q then UPDATE else HOLD)"

section \<open>Fills\<close>

definition fill_order :: "pyfloat \<Rightarrow> int \<Rightarrow> LimitOrder \<Rightarrow> LimitOrder" where
  "fill_order q t r =
     (let f = fadd (filled_quantity r) q
      in r\<lparr>filled_quantity := f, fill_count := fill_count r + 1, updated_at_ms := t,
           status := (if quantity r \<le> f then FILLED else PARTIALLY_FILLED)\<rparr>)"

definition fill_event :: "string \<Rightarrow> pyfloat \<Rightarrow> int \<Rightarrow> LimitOrder \<Rightarrow> SpreadCaptureEvent" where
  "fill_event s q t r =
     \<lparr>timestamp_ms = t, e_symbol = s, action = ''fill'', bid_price = (if side r = Bid then Some (price r) else None),
      ask_price = (if side r = Ask then Some (price r) else None), spread_bps = 0, captured_amount = q, pnl = 0\<rparr>"

text \<open>A symbol with orders has an entry in the statistics; a missing one would be a \<open>KeyError\<close> at the very end.\<close>

definition record_fill :: "string \<Rightarrow> string \<Rightarrow> pyfloat \<Rightarrow> int \<Rightarrow> engine \<Rightarrow> (exn + unit) \<times> engine" where
  "record_fill s i q t g =
     (case dict_get (active_orders g) s of
        None \<Rightarrow> (Inr (), g)
      | Some d \<Rightarrow>
          (case dict_get d i of
             None \<Rightarrow> (Inr (), g)
           | Some r \<Rightarrow>
               (let inv = (case dict_get (inventory g) s of None \<Rightarrow> 0 | Some x \<Rightarrow> x);
                    g1 = g\<lparr>active_orders := dict_set s (dict_set i (fill_order q t r) d) (active_orders g),
                           inventory := dict_set s (if side r = Bid then fadd inv q else fsub inv q) (inventory g),
                           events := events g @ [fill_event s q t r]\<rparr>
                in case dict_get (stats g) s of
                     None \<Rightarrow> (Inl KeyError, g1)
                   | Some st \<Rightarrow>
                       (Inr (), g1\<lparr>stats := dict_set s (st\<lparr>total_captures := total_captures st + 1,
                          total_volume := fadd (total_volume st) q\<rparr>) (stats g)\<rparr>))))"

section \<open>Reports\<close>

definition average :: "pyfloat list \<Rightarrow> pyfloat" where
  "average xs = (if xs = [] then 0 else fdiv (foldl fadd 0 xs) (of_nat (length xs)))"

record statistics =
  st_symbols :: "string list"
  st_events :: int
  st_active :: int
  st_cancel :: pyfloat
  st_update :: pyfloat
  st_per_symbol :: "(string, symbol_stats) dict"
  st_inventory :: "(string, pyfloat) dict"

definition get_statistics :: "engine \<Rightarrow> statistics" where
  "get_statistics g =
     \<lparr>st_symbols = dict_keys (active_orders g), st_events = int (length (events g)),
      st_active = sum_list (map (\<lambda>d. int (length (filter is_active (dict_values d)))) (dict_values (active_orders g))),
      st_cancel = average (cancel_latencies g), st_update = average (update_latencies g), st_per_symbol = stats g,
      st_inventory = inventory g\<rparr>"

record pnl_summary =
  s_pnl :: pyfloat
  s_volume :: pyfloat
  s_events :: int
  s_avg :: pyfloat

definition get_pnl_summary :: "engine \<Rightarrow> pnl_summary" where
  "get_pnl_summary g =
     (let p = foldl fadd 0 (map pnl (events g))
      in \<lparr>s_pnl = p, s_volume = foldl fadd 0 (map captured_amount (events g)), s_events = int (length (events g)),
          s_avg = (if events g = [] then 0 else fdiv p (of_nat (length (events g))))\<rparr>)"


section \<open>Replacing quotes\<close>

definition active_of :: "string \<Rightarrow> engine \<Rightarrow> LimitOrder set" where
  "active_of s g = {r. (\<exists>i. dict_get (orders_of s g) i = Some r) \<and> is_active r}"

lemma orders_of_set: "orders_of s (g\<lparr>active_orders := dict_set s d (active_orders g)\<rparr>) = d"
  by (simp add: orders_of_def dict_get_set)

lemma cancel_order_orders:
  "dict_get (orders_of s (snd (cancel_order us s i t g))) j =
     (case dict_get (orders_of s g) j of
        None \<Rightarrow> None
      | Some r \<Rightarrow> if j = i \<and> is_active r then Some (r\<lparr>status := CANCELLED, updated_at_ms := t\<rparr>) else Some r)"
  "current_quotes (snd (cancel_order us s i t g)) = current_quotes g"
  by (auto simp: cancel_order_def orders_of_def dict_get_set split: option.splits)

lemma cancel_loop_orders:
  "dict_get (orders_of s (snd (cancel_loop us s t is' g))) j =
     (case dict_get (orders_of s g) j of
        None \<Rightarrow> None
      | Some r \<Rightarrow> if j \<in> set is' \<and> is_active r then Some (r\<lparr>status := CANCELLED, updated_at_ms := t\<rparr>) else Some r) \<and>
   current_quotes (snd (cancel_loop us s t is' g)) = current_quotes g"
proof (induction is' arbitrary: g)
  case (Cons i is')
  have "\<not> is_active (r\<lparr>status := CANCELLED, updated_at_ms := t\<rparr>)" for r :: LimitOrder by (simp add: is_active_def)
  then show ?case
    using Cons.IH[of "snd (cancel_order (us i) s i t g)"]
    by (auto simp: cancel_order_orders case_prod_unfold Let_def split: option.split)
qed (auto split: option.split)

lemma cancel_both_none_active:
  "active_of s (snd (cancel_both_quotes us s t g)) = {} \<and> current_quotes (snd (cancel_both_quotes us s t g)) = current_quotes g"
proof (cases "dict_get (active_orders g) s")
  case None
  then show ?thesis by (simp add: cancel_both_quotes_def active_of_def orders_of_def)
next
  case (Some d)
  have "dict_get d j = Some r \<Longrightarrow> j \<in> fst ` set d" for j r by (force dest: map_of_SomeD)
  then show ?thesis
    using cancel_loop_orders[of s us t "dict_keys d" g] Some
    by (auto simp: cancel_both_quotes_def active_of_def orders_of_def is_active_def split: option.splits if_splits)
qed

lemma initialize_orders: "orders_of s (initialize_symbol s g) = orders_of s g"
  by (auto simp: orders_of_def initialize_symbol_def ensure_def dict_get_set)

lemma place_side_orders:
  "orders_of s (snd (place_side s sd x q t g)) =
     (if 0 < q then dict_set (quote_id s sd t) (new_quote s sd x q t) (orders_of s g) else orders_of s g)"
  by (simp add: place_side_def orders_of_set)

lemma quote_id_sides: "quote_id s Bid t \<noteq> quote_id s Ask t"
  by (simp add: quote_id_def)

lemma place_quote_orders:
  "orders_of s (snd (place_quote s bx ax bq aq t g)) =
     (let d = (if 0 < bq then dict_set (quote_id s Bid t) (new_quote s Bid bx bq t) (orders_of s g) else orders_of s g)
      in if 0 < aq then dict_set (quote_id s Ask t) (new_quote s Ask ax aq t) d else d)"
proof -
  have "orders_of s (g'\<lparr>current_quotes := cq\<rparr>) = orders_of s g'" for g' cq by (simp add: orders_of_def)
  then show ?thesis by (simp add: place_quote_def case_prod_unfold Let_def place_side_orders initialize_orders)
qed

text \<open>Replacing the quotes of a symbol leaves exactly the new ones active, one per side with a positive size, whatever was quoted,
  filled or cancelled before; every earlier order of the symbol is inactive.\<close>

theorem update_leaves_only_new_quotes:
  assumes "dict_get (current_quotes g) s = Some q"
  shows "active_of s (snd (update_quotes us el s bx ax t g)) =
    {r. 0 < bid_size q \<and> r = new_quote s Bid bx (bid_size q) t} \<union> {r. 0 < ask_size q \<and> r = new_quote s Ask ax (ask_size q) t}"
proof -
  let ?g1 = "snd (cancel_both_quotes us s t g)"
  have c: "active_of s ?g1 = {}" "current_quotes ?g1 = current_quotes g" using cancel_both_none_active by blast+
  have "orders_of s (g'\<lparr>update_latencies := l\<rparr>) = orders_of s g'" for g' l by (simp add: orders_of_def)
  then have o1: "orders_of s (snd (update_quotes us el s bx ax t g)) =
      orders_of s (snd (place_quote s bx ax (bid_size q) (ask_size q) t ?g1))"
    by (simp add: update_quotes_def c(2) assms Let_def)
  have a: "is_active (new_quote s sd x z t)" for sd x z by (simp add: is_active_def new_quote_def)
  have "dict_get (orders_of s ?g1) i = Some r \<Longrightarrow> \<not> is_active r" for i r using c(1) by (auto simp: active_of_def)
  then show ?thesis
    using quote_id_sides[of s t] a
    by (auto simp: active_of_def o1 place_quote_orders Let_def dict_get_set split: if_splits)
      (metis dict_get_set)+
qed

section \<open>Late fills\<close>

text \<open>A fill reported after the order was cancelled makes the order active again, as long as it does not fill it completely: the engine
  counts it among its active orders and would quote and cancel it anew, although the exchange has none.\<close>

theorem late_fill_revives_order:
  assumes "dict_get (orders_of s g) i = Some r" "is_active r" "fadd (filled_quantity r) q < quantity r"
  shows "\<exists>r'. dict_get (orders_of s (snd (record_fill s i q t' (snd (cancel_order us s i t g))))) i = Some r' \<and> is_active r' \<and>
    fst (cancel_order us s i t g)"
proof -
  obtain d where d: "dict_get (active_orders g) s = Some d" "dict_get d i = Some r"
    using assms(1) by (auto simp: orders_of_def split: option.splits)
  then show ?thesis
    using assms(2,3)
    by (auto simp: cancel_order_def record_fill_def orders_of_def dict_get_set fill_order_def is_active_def Let_def split: option.split)
qed

section \<open>Runs\<close>

datatype engine_op =
    Place string pyfloat pyfloat pyfloat pyfloat int
  | CancelOne pyfloat string string int
  | CancelBoth "string \<Rightarrow> pyfloat" string int
  | UpdateQuotes "string \<Rightarrow> pyfloat" pyfloat string pyfloat pyfloat int
  | RecordFill string string pyfloat int

fun engine_step :: "engine_op \<Rightarrow> engine \<Rightarrow> engine" where
  "engine_step (Place s bx ax bq aq t) g = snd (place_quote s bx ax bq aq t g)"
| "engine_step (CancelOne us s i t) g = snd (cancel_order us s i t g)"
| "engine_step (CancelBoth us s t) g = snd (cancel_both_quotes us s t g)"
| "engine_step (UpdateQuotes us el s bx ax t) g = snd (update_quotes us el s bx ax t g)"
| "engine_step (RecordFill s i q t) g = snd (record_fill s i q t g)"

text \<open>What the events say the inventory of a symbol is.\<close>

definition event_inventory :: "string \<Rightarrow> SpreadCaptureEvent list \<Rightarrow> pyfloat" where
  "event_inventory s es =
     foldl (\<lambda>x e. if bid_price e \<noteq> None then fadd x (captured_amount e) else fsub x (captured_amount e)) 0 (filter (\<lambda>e. e_symbol e = s) es)"

definition engine_inv :: "engine \<Rightarrow> bool" where
  "engine_inv g \<longleftrightarrow>
     (\<forall>s. (case dict_get (inventory g) s of None \<Rightarrow> 0 | Some x \<Rightarrow> x) = event_inventory s (events g)) \<and>
     (\<forall>e \<in> set (events g). pnl e = 0) \<and>
     (\<forall>s. dict_get (active_orders g) s \<noteq> None \<longrightarrow> dict_get (stats g) s \<noteq> None)"

text \<open>Operations on quotes touch neither the events nor the inventory they add up to, nor lose the statistics of a symbol.\<close>

definition quiet :: "engine \<Rightarrow> engine \<Rightarrow> bool" where
  "quiet g g' \<longleftrightarrow>
     events g' = events g \<and>
     (\<forall>s. (case dict_get (inventory g') s of None \<Rightarrow> 0 | Some x \<Rightarrow> x) = (case dict_get (inventory g) s of None \<Rightarrow> 0 | Some x \<Rightarrow> x)) \<and>
     (\<forall>s. dict_get (active_orders g') s \<noteq> None \<longrightarrow> dict_get (active_orders g) s \<noteq> None \<or> dict_get (stats g') s \<noteq> None) \<and>
     (\<forall>s. dict_get (stats g) s \<noteq> None \<longrightarrow> dict_get (stats g') s \<noteq> None)"

lemma quiet_inv: "quiet g g' \<Longrightarrow> engine_inv g \<Longrightarrow> engine_inv g'"
  unfolding quiet_def engine_inv_def by metis

lemma quiet_refl: "quiet g g"
  by (simp add: quiet_def)

lemma quiet_trans: "quiet a b \<Longrightarrow> quiet b c \<Longrightarrow> quiet a c"
  unfolding quiet_def by metis

lemma quiet_initialize: "quiet g (initialize_symbol s g)"
  by (auto simp: quiet_def initialize_symbol_def ensure_def dict_get_set split: option.split)

lemma quiet_place_side: "dict_get (active_orders g) s \<noteq> None \<Longrightarrow> quiet g (snd (place_side s sd x q t g))"
  by (auto simp: quiet_def place_side_def dict_get_set)

lemma initialized: "dict_get (active_orders (initialize_symbol s g)) s \<noteq> None"
  by (auto simp: initialize_symbol_def ensure_def dict_get_set)

lemma place_side_keeps: "dict_get (active_orders g) s \<noteq> None \<Longrightarrow> dict_get (active_orders (snd (place_side s sd x q t g))) s \<noteq> None"
  by (simp add: place_side_def dict_get_set)

lemma quiet_place: "quiet g (snd (place_quote s bx ax bq aq t g))"
proof -
  let ?g1 = "initialize_symbol s g"
  let ?g2 = "snd (place_side s Bid bx bq t ?g1)"
  let ?g3 = "snd (place_side s Ask ax aq t ?g2)"
  have "quiet ?g1 ?g2" by (rule quiet_place_side[OF initialized])
  moreover have "quiet ?g2 ?g3" by (intro quiet_place_side place_side_keeps initialized)
  ultimately have "quiet g ?g3" using quiet_initialize quiet_trans by metis
  moreover have "quiet ?g3 (?g3\<lparr>current_quotes := cq\<rparr>)" for cq by (simp add: quiet_def)
  ultimately show ?thesis using quiet_trans by (simp add: place_quote_def case_prod_unfold Let_def)
qed

lemma quiet_cancel: "quiet g (snd (cancel_order us s i t g))"
  by (auto simp: quiet_def cancel_order_def dict_get_set split: option.split)

lemma quiet_cancel_loop: "quiet g (snd (cancel_loop us s t is' g))"
proof (induction is' arbitrary: g)
  case (Cons i is')
  show ?case using quiet_trans[OF quiet_cancel Cons.IH] by (simp add: case_prod_unfold Let_def)
qed (simp add: quiet_refl)

lemma quiet_cancel_both: "quiet g (snd (cancel_both_quotes us s t g))"
  using quiet_cancel_loop quiet_refl by (simp add: cancel_both_quotes_def split: option.split)

lemma quiet_update: "quiet g (snd (update_quotes us el s bx ax t g))"
proof -
  have "quiet g' (g'\<lparr>update_latencies := l\<rparr>)" for g' l by (simp add: quiet_def)
  then show ?thesis
    unfolding update_quotes_def Let_def case_prod_unfold snd_conv
    by (rule quiet_trans[OF quiet_trans[OF quiet_cancel_both quiet_place]])
qed

lemma spread_step_inv: "engine_inv g \<Longrightarrow> engine_inv (engine_step x g)"
proof (induction x)
  case (RecordFill s i q t)
  show ?case
  proof (cases "dict_get (active_orders g) s = None \<or> (\<exists>d. dict_get (active_orders g) s = Some d \<and> dict_get d i = None)")
    case True
    then show ?thesis using RecordFill by (auto simp: record_fill_def)
  next
    case False
    then obtain d r where d: "dict_get (active_orders g) s = Some d" "dict_get d i = Some r" by auto
    moreover have "dict_get (stats g) s \<noteq> None" using RecordFill d(1) by (simp add: engine_inv_def)
    ultimately obtain st where d: "dict_get (active_orders g) s = Some d" "dict_get d i = Some r" "dict_get (stats g) s = Some st" by blast
    have "event_inventory z (events g @ [fill_event s q t r]) =
        (if z = s then if side r = Bid then fadd (event_inventory s (events g)) q else fsub (event_inventory s (events g)) q
         else event_inventory z (events g))" for z
      by (cases "side r") (auto simp: event_inventory_def fill_event_def)
    then show ?thesis
      using RecordFill d by (auto simp: record_fill_def engine_inv_def Let_def dict_get_set fill_event_def)
  qed
next
  case (Place s bx ax bq aq t)
  then show ?case using quiet_inv[OF quiet_place] by simp
next
  case (CancelOne us s i t)
  then show ?case using quiet_inv[OF quiet_cancel] by simp
next
  case (CancelBoth us s t)
  then show ?case using quiet_inv[OF quiet_cancel_both] by simp
next
  case (UpdateQuotes us el s bx ax t)
  then show ?case using quiet_inv[OF quiet_update] by simp
qed

interpretation capture: op_machine engine_step engine_inv
  by unfold_locales (rule spread_step_inv)

lemma engine_inv_init: "engine_inv (engine_init age)"
  by (simp add: engine_inv_def engine_init_def event_inventory_def)

text \<open>C34: The inventory of every symbol is at all times what the recorded fills add up to, bought minus sold in the order of the fills; no
  fill is ever rejected with an error.\<close>

theorem inventory_matches_fills:
  assumes "g = fold engine_step xs (engine_init age)"
  shows "(case dict_get (inventory g) s of None \<Rightarrow> 0 | Some x \<Rightarrow> x) = event_inventory s (events g) \<and>
    fst (record_fill s i q t g) = Inr ()"
proof -
  have inv: "engine_inv g" unfolding assms by (rule capture.run_inv[OF engine_inv_init])
  then have "fst (record_fill s i q t g) = Inr ()"
    by (auto simp: record_fill_def engine_inv_def Let_def split: option.split)
  then show ?thesis using inv by (simp add: engine_inv_def)
qed

text \<open>The profit the engine reports is 0 in every state it can reach, whatever was bought and sold: no event is ever given a profit.\<close>

theorem reported_profit_is_zero:
  "s_pnl (get_pnl_summary (fold engine_step xs (engine_init age))) = 0 \<and> s_avg (get_pnl_summary (fold engine_step xs (engine_init age))) = 0"
proof -
  let ?g = "fold engine_step xs (engine_init age)"
  have "\<forall>e \<in> set (events ?g). pnl e = 0" using capture.run_inv[OF engine_inv_init] by (auto simp: engine_inv_def)
  moreover have "\<forall>e \<in> set es. pnl e = 0 \<Longrightarrow> foldl fadd 0 (map pnl es) = 0" for es by (induction es) (simp_all add: fadd_def)
  ultimately have "foldl fadd 0 (map pnl (events ?g)) = 0" by blast
  then show ?thesis by (simp add: get_pnl_summary_def Let_def fdiv_def)
qed

section \<open>Witnesses\<close>

definition demo_engine :: engine where
  "demo_engine = fold engine_step [Place ''BTC'' 100 102 1 2 5] (engine_init 5000)"

lemma demo_engine_fields:
  "dict_get (current_quotes demo_engine) ''BTC'' = Some \<lparr>q_bid = Some 100, q_ask = Some 102, bid_size = 1, ask_size = 2, last_update_ms = 5\<rparr>"
  "dict_get (orders_of ''BTC'' demo_engine) (quote_id ''BTC'' Ask 5) = Some (new_quote ''BTC'' Ask 102 2 5)"
  by (simp_all add: demo_engine_def engine_init_def place_quote_def place_side_def initialize_symbol_def ensure_def orders_of_def quote_id_def
    Let_def)

lemma update_leaves_only_new_quotes_witness:
  "active_of ''BTC'' (snd (update_quotes (\<lambda>_. 1) 1 ''BTC'' 101 103 9 demo_engine)) =
     {r. 0 < (1 :: pyfloat) \<and> r = new_quote ''BTC'' Bid 101 1 9} \<union> {r. 0 < (2 :: pyfloat) \<and> r = new_quote ''BTC'' Ask 103 2 9}"
  using update_leaves_only_new_quotes[OF demo_engine_fields(1), of "\<lambda>_. 1" 1 101 103 9] by simp

lemma late_fill_revives_order_witness:
  "\<exists>r'. dict_get (orders_of ''BTC'' (snd (record_fill ''BTC'' (quote_id ''BTC'' Ask 5) 1 8
      (snd (cancel_order 1 ''BTC'' (quote_id ''BTC'' Ask 5) 7 demo_engine))))) (quote_id ''BTC'' Ask 5) = Some r' \<and> is_active r' \<and>
    fst (cancel_order 1 ''BTC'' (quote_id ''BTC'' Ask 5) 7 demo_engine)"
  by (rule late_fill_revives_order[OF demo_engine_fields(2)]) (simp_all add: is_active_def new_quote_def fadd_def)

lemma inventory_matches_fills_witness:
  "(case dict_get (inventory demo_engine) ''BTC'' of None \<Rightarrow> 0 | Some x \<Rightarrow> x) = event_inventory ''BTC'' (events demo_engine) \<and>
   fst (record_fill ''BTC'' (quote_id ''BTC'' Ask 5) 1 8 demo_engine) = Inr ()"
  by (rule inventory_matches_fills[OF demo_engine_def])

end
