(* ===== verification/PerpHedger.thy ===== *)
theory PerpHedger
  imports Prelude
begin

text \<open>
  \<open>hedging/perp_hedger.py\<close>: delta-neutral hedging with perpetual swaps.

  Prices and quantities are decimals. The clocks are arguments: \<open>clk i\<close> is the \<open>i\<close>-th reading of \<open>perf_counter\<close> in a call,
  \<open>now i\<close> that of the wall clock. Observers are names; what is sent to them is kept in \<open>sent\<close>, and they do not call back. The three strategies
  of the file are the constructors of \<open>strategy\<close>.
\<close>

section \<open>Data\<close>

datatype Asset = BTC | ETH | SOL | USDT

fun asset_name :: "Asset \<Rightarrow> string" where
  "asset_name BTC = ''BTC''" | "asset_name ETH = ''ETH''" | "asset_name SOL = ''SOL''" | "asset_name USDT = ''USDT''"

datatype PositionSide = LONG | SHORT | NONE

record MarketData =
  asset :: Asset
  price :: decimal
  bid :: decimal
  ask :: decimal
  volume_24h :: decimal
  funding_rate :: "decimal option"
  next_funding_time :: "pyfloat option"
  md_timestamp :: pyfloat

definition mid_price :: "MarketData \<Rightarrow> decimal" where
  "mid_price m = ddiv (dadd (bid m) (ask m)) 2"

definition spread_bps :: "MarketData \<Rightarrow> decimal" where
  "spread_bps m = (if mid_price m = 0 then 0 else dmul (ddiv (dsub (ask m) (bid m)) (mid_price m)) 10000)"

record Position =
  pos_asset :: Asset
  quantity :: decimal
  entry_price :: decimal
  side :: PositionSide
  position_type :: string
  unrealized_pnl :: decimal

definition notional_value :: "Position \<Rightarrow> decimal" where
  "notional_value p = dabs (dmul (quantity p) (entry_price p))"

definition delta_exposure :: "Position \<Rightarrow> decimal" where
  "delta_exposure p = (if position_type p \<in> {''spot'', ''perp''} then quantity p else 0)"

record ADLQueuePosition =
  adl_asset :: Asset
  queue_position :: int
  total_queue_size :: int
  estimated_fill_probability :: decimal
  last_updated :: pyfloat

definition adl_risk_score :: "ADLQueuePosition \<Rightarrow> decimal" where
  "adl_risk_score a =
     (if total_queue_size a = 0 then 0 else ddiv (of_int (queue_position a)) (of_int (total_queue_size a)))"

definition is_safe_to_hedge :: "decimal \<Rightarrow> ADLQueuePosition \<Rightarrow> bool" where
  "is_safe_to_hedge threshold a \<longleftrightarrow> adl_risk_score a < threshold"

record HedgeExecution =
  success :: bool
  execution_time_us :: int
  delta_before :: decimal
  delta_after :: decimal
  hedge_quantity :: decimal
  hedge_asset :: Asset
  hedge_side :: PositionSide
  execution_price :: decimal
  slippage_bps :: decimal
  funding_rate_impact :: decimal
  adl_queue_position :: "int option"
  error_message :: "string option"
  ex_timestamp :: pyfloat

section \<open>Strategies\<close>

text \<open>What a strategy is told: \<open>conditions.get('funding_rate', 0)\<close> and two figures nobody reads.\<close>

record conditions =
  cond_funding :: "decimal option"
  avg_funding_bps :: "pyfloat option"
  avg_spread_bps :: "pyfloat option"

datatype strategy =
    Aggressive (agg_threshold: decimal) (min_hedge_size: decimal)
  | Conservative (cons_threshold: decimal) (rebalance_interval: int) (last_rebalance: "pyfloat option")
  | Adaptive (base_threshold: decimal) (volatility_multiplier: decimal) (funding_threshold: decimal) (current_volatility: decimal)

definition precision :: "Asset \<Rightarrow> decimal" where
  "precision a = (if a = BTC then 1 / 1000 else 1 / 100)"

definition aggressive_quantity :: "decimal \<Rightarrow> decimal \<Rightarrow> Asset \<Rightarrow> exn + decimal" where
  "aggressive_quantity d p a =
     (if p \<le> 0 then Inr 0 else let q = ddiv (dneg d) p in quantize_down (precision a) q)"

definition conservative_quantity :: "decimal \<Rightarrow> decimal \<Rightarrow> Asset \<Rightarrow> exn + decimal" where
  "conservative_quantity d p a =
     (if p \<le> 0 then Inr 0 else let q = ddiv (dneg d) p in quantize_down (precision a) q)"

definition adaptive_quantity :: "decimal \<Rightarrow> decimal \<Rightarrow> decimal \<Rightarrow> Asset \<Rightarrow> exn + decimal" where
  "adaptive_quantity vol d p a =
     (if p \<le> 0 then Inr 0
      else let factor = dadd 1 (dmul vol (1 / 10)); q = dmul (ddiv (dneg d) p) factor in quantize_down (precision a) q)"

fun calculate_hedge_quantity :: "strategy \<Rightarrow> decimal \<Rightarrow> decimal \<Rightarrow> Asset \<Rightarrow> exn + decimal" where
  "calculate_hedge_quantity (Aggressive _ _) d p a = aggressive_quantity d p a"
| "calculate_hedge_quantity (Conservative _ _ _) d p a = conservative_quantity d p a"
| "calculate_hedge_quantity (Adaptive _ _ _ vol) d p a = adaptive_quantity vol d p a"

text \<open>When to hedge; the time between two date-times is in seconds.\<close>

definition aggressive_should :: "decimal \<Rightarrow> decimal \<Rightarrow> decimal \<Rightarrow> bool" where
  "aggressive_should t d threshold \<longleftrightarrow> max threshold t < dabs d"

definition conservative_should :: "decimal \<Rightarrow> int \<Rightarrow> pyfloat option \<Rightarrow> pyfloat \<Rightarrow> decimal \<Rightarrow> decimal \<Rightarrow> bool" where
  "conservative_should t interval lr now d threshold \<longleftrightarrow>
     (case lr of None \<Rightarrow> False | Some l \<Rightarrow> of_int interval \<le> fsub now l) \<or> max threshold t < dabs d"

definition adaptive_should :: "decimal \<Rightarrow> decimal \<Rightarrow> decimal \<Rightarrow> decimal \<Rightarrow> decimal \<Rightarrow> decimal \<Rightarrow> conditions \<Rightarrow> bool" where
  "adaptive_should t mult ft vol d threshold c \<longleftrightarrow>
     (let t1 = dmul t (dadd 1 (dmul vol mult));
          f = (case cond_funding c of None \<Rightarrow> 0 | Some f \<Rightarrow> f);
          t2 = (if ft < dabs f then dmul t1 (7 / 10) else t1)
      in max threshold t2 < dabs d)"

fun should_execute_hedge :: "strategy \<Rightarrow> pyfloat \<Rightarrow> decimal \<Rightarrow> decimal \<Rightarrow> conditions \<Rightarrow> bool" where
  "should_execute_hedge (Aggressive t _) now d threshold c = aggressive_should t d threshold"
| "should_execute_hedge (Conservative t interval lr) now d threshold c = conservative_should t interval lr now d threshold"
| "should_execute_hedge (Adaptive t mult ft vol) now d threshold c = adaptive_should t mult ft vol d threshold c"

fun record_rebalance :: "pyfloat \<Rightarrow> strategy \<Rightarrow> strategy" where
  "record_rebalance now (Conservative t interval _) = Conservative t interval (Some now)"
| "record_rebalance now s = s"

fun update_volatility :: "decimal \<Rightarrow> strategy \<Rightarrow> strategy" where
  "update_volatility v (Adaptive t mult ft _) = Adaptive t mult ft v"
| "update_volatility v s = s"

fun get_strategy_name :: "strategy \<Rightarrow> string" where
  "get_strategy_name (Aggressive _ _) = ''AggressiveHedge''"
| "get_strategy_name (Conservative _ _ _) = ''ConservativeHedge''"
| "get_strategy_name (Adaptive _ _ _ _) = ''AdaptiveHedge''"

section \<open>The hedger\<close>

datatype notice = Delta_Change decimal decimal pyfloat | Hedge_Executed HedgeExecution

record hedger =
  strategy_of :: strategy
  delta_threshold_bps :: decimal
  max_execution_time_ms :: int
  positions :: "(Asset, Position list) dict"
  market_data :: "(Asset, MarketData) dict"
  adl_queues :: "(Asset, ADLQueuePosition) dict"
  observers :: "string list"
  total_hedges_executed :: int
  total_slippage_bps :: decimal
  last_rebalance_time :: "pyfloat option"
  sent :: "(string \<times> notice) list"

definition hedger_init :: "strategy \<Rightarrow> decimal \<Rightarrow> int \<Rightarrow> hedger" where
  "hedger_init s threshold ms =
     \<lparr>strategy_of = s, delta_threshold_bps = threshold, max_execution_time_ms = ms, positions = [], market_data = [],
      adl_queues = [], observers = [], total_hedges_executed = 0, total_slippage_bps = 0, last_rebalance_time = None, sent = []\<rparr>"

definition add_observer :: "string \<Rightarrow> hedger \<Rightarrow> hedger" where
  "add_observer ob h = h\<lparr>observers := observers h @ [ob]\<rparr>"

definition remove_observer :: "string \<Rightarrow> hedger \<Rightarrow> hedger" where
  "remove_observer ob h = h\<lparr>observers := remove1 ob (observers h)\<rparr>"

definition notify :: "notice \<Rightarrow> hedger \<Rightarrow> hedger" where
  "notify n h = h\<lparr>sent := sent h @ map (\<lambda>ob. (ob, n)) (observers h)\<rparr>"

definition update_market_data :: "MarketData \<Rightarrow> hedger \<Rightarrow> hedger" where
  "update_market_data m h = h\<lparr>market_data := dict_set (asset m) m (market_data h)\<rparr>"

definition update_adl_queue :: "ADLQueuePosition \<Rightarrow> hedger \<Rightarrow> hedger" where
  "update_adl_queue a h = h\<lparr>adl_queues := dict_set (adl_asset a) a (adl_queues h)\<rparr>"

definition positions_of :: "hedger \<Rightarrow> Asset \<Rightarrow> Position list" where
  "positions_of h a = (case dict_get (positions h) a of None \<Rightarrow> [] | Some ps \<Rightarrow> ps)"

definition add_position :: "Position \<Rightarrow> hedger \<Rightarrow> hedger" where
  "add_position p h = h\<lparr>positions := dict_set (pos_asset p) (positions_of h (pos_asset p) @ [p]) (positions h)\<rparr>"

text \<open>\<open>list.pop\<close> counts a negative index from the end.\<close>

definition remove_position :: "Asset \<Rightarrow> int \<Rightarrow> hedger \<Rightarrow> (exn + Position option) \<times> hedger" where
  "remove_position a i h =
     (case dict_get (positions h) a of
        None \<Rightarrow> (Inr None, h)
      | Some ps \<Rightarrow>
          if int (length ps) \<le> i then (Inr None, h)
          else if i < - int (length ps) then (Inl IndexError, h)
          else (let j = nat (if 0 \<le> i then i else i + int (length ps))
                in (Inr (Some (ps ! j)), h\<lparr>positions := dict_set a (take j ps @ drop (Suc j) ps) (positions h)\<rparr>)))"

definition position_delta :: "MarketData \<Rightarrow> Position \<Rightarrow> decimal \<Rightarrow> decimal" where
  "position_delta m p tot =
     (if position_type p \<in> {''spot'', ''perp''} then dadd tot (dmul (quantity p) (price m))
      else if position_type p = ''futures'' then dadd tot (dmul (quantity p) (price m))
      else tot)"

definition calculate_portfolio_delta :: "hedger \<Rightarrow> decimal" where
  "calculate_portfolio_delta h =
     fold (\<lambda>(a, ps) tot.
       (case dict_get (market_data h) a of None \<Rightarrow> tot | Some m \<Rightarrow> fold (position_delta m) ps tot)) (positions h) 0"

text \<open>\<open>sum(xs) / len(xs)\<close>.\<close>

definition average :: "decimal list \<Rightarrow> decimal" where
  "average xs = ddiv (fold (\<lambda>x s. dadd s x) xs 0) (of_nat (length xs))"

definition get_market_conditions :: "hedger \<Rightarrow> conditions" where
  "get_market_conditions h =
     (let rates = List.map_filter funding_rate (dict_values (market_data h));
          spreads = map spread_bps (dict_values (market_data h))
      in \<lparr>cond_funding = (if rates = [] then None else Some (average rates)),
          avg_funding_bps = (if rates = [] then None else Some (fl (dmul (average rates) 10000))),
          avg_spread_bps = (if spreads = [] then None else Some (fl (average spreads)))\<rparr>)"

definition asset_score :: "MarketData \<Rightarrow> decimal" where
  "asset_score m =
     dsub (ddiv (volume_24h m) (10 ^ 9)) (dmul (dabs (case funding_rate m of None \<Rightarrow> 0 | Some f \<Rightarrow> f)) (10 ^ 6))"

definition select_hedge_asset :: "hedger \<Rightarrow> Asset" where
  "select_hedge_asset h =
     fst (fold (\<lambda>(a, m) (best, score).
       if a = USDT then (best, score) else if score < asset_score m then (a, asset_score m) else (best, score))
       (market_data h) (USDT, - (10 ^ 9)))"

definition micros :: "pyfloat \<Rightarrow> pyfloat \<Rightarrow> int" where
  "micros t0 t1 = int_of_float (fmul (fsub t1 t0) (10 ^ 6))"

definition simulated_slippage :: "decimal \<Rightarrow> MarketData \<Rightarrow> exn + decimal" where
  "simulated_slippage q m =
     bind (quantize_down (1 / 100) (dmul (dmul (ddiv (dabs q) 1000) (ddiv (10 ^ 9) (max (volume_24h m) 1))) (1 / 100)))
       (\<lambda>s. Inr (min s 10))"

definition execute_hedge_internal :: "(nat \<Rightarrow> pyfloat) \<Rightarrow> pyfloat \<Rightarrow> decimal \<Rightarrow> Asset \<Rightarrow> PositionSide \<Rightarrow> MarketData \<Rightarrow> decimal \<Rightarrow> bool \<Rightarrow>
    hedger \<Rightarrow> (exn + HedgeExecution) \<times> hedger" where
  "execute_hedge_internal clk now q a sd m before adl_safe h =
     (case simulated_slippage q m of
        Inl e \<Rightarrow> (Inl e, h)
      | Inr slip \<Rightarrow>
          (let f = (case funding_rate m of None \<Rightarrow> 0 | Some f \<Rightarrow> f);
               impact = (if sd = LONG \<and> 0 < f then dneg (dabs f) else if sd = SHORT \<and> 0 < f then dabs f else f);
               after = dadd before (dmul q (price m));
               p = \<lparr>pos_asset = a, quantity = (if sd = LONG then q else dneg q), entry_price = price m, side = sd,
                    position_type = ''perp'', unrealized_pnl = 0\<rparr>
           in (Inr \<lparr>success = True, execution_time_us = micros (clk 1) (clk 2), delta_before = before, delta_after = after,
                    hedge_quantity = q, hedge_asset = a, hedge_side = sd, execution_price = price m, slippage_bps = slip,
                    funding_rate_impact = impact, adl_queue_position = (if adl_safe then None else Some 1),
                    error_message = None, ex_timestamp = now\<rparr>,
               h\<lparr>positions := dict_set a (positions_of h a @ [p]) (positions h)\<rparr>)))"

text \<open>A result without a hedge.\<close>

definition no_hedge :: "bool \<Rightarrow> int \<Rightarrow> decimal \<Rightarrow> Asset \<Rightarrow> string option \<Rightarrow> pyfloat \<Rightarrow> HedgeExecution" where
  "no_hedge ok us d a err now =
     \<lparr>success = ok, execution_time_us = us, delta_before = d, delta_after = d, hedge_quantity = 0, hedge_asset = a, hedge_side = NONE,
      execution_price = 0, slippage_bps = 0, funding_rate_impact = 0, adl_queue_position = None, error_message = err, ex_timestamp = now\<rparr>"

text \<open>After a hedge: its time, the metrics and the notices.\<close>

definition book_hedge :: "(nat \<Rightarrow> pyfloat) \<Rightarrow> pyfloat \<Rightarrow> HedgeExecution \<Rightarrow> hedger \<Rightarrow> HedgeExecution \<times> hedger" where
  "book_hedge clk now x h =
     (let y = x\<lparr>execution_time_us := micros (clk 0) (clk 3)\<rparr>
      in if success y
         then (y, notify (Hedge_Executed y) (notify (Delta_Change (delta_before y) (delta_after y) (ex_timestamp y))
                    (h\<lparr>total_hedges_executed := total_hedges_executed h + 1,
                       total_slippage_bps := dadd (total_slippage_bps h) (slippage_bps y), last_rebalance_time := Some now\<rparr>)))
         else (y, h))"

definition execute_rebalance :: "(nat \<Rightarrow> pyfloat) \<Rightarrow> (nat \<Rightarrow> pyfloat) \<Rightarrow> hedger \<Rightarrow> (exn + HedgeExecution) \<times> hedger" where
  "execute_rebalance clk now h =
     (let before = calculate_portfolio_delta h
      in if \<not> should_execute_hedge (strategy_of h) (now 0) before (delta_threshold_bps h) (get_market_conditions h)
         then (Inr (no_hedge True (micros (clk 0) (clk 1)) before USDT None (now 1)), h)
         else
           (let a = select_hedge_asset h
            in case dict_get (market_data h) a of
                 None \<Rightarrow>
                   (Inr (no_hedge False (micros (clk 0) (clk 1)) before a
                      (Some (''No market data for hedge asset Asset.'' @ asset_name a)) (now 1)), h)
               | Some m \<Rightarrow>
                   (let safe = (case dict_get (adl_queues h) a of None \<Rightarrow> True | Some q \<Rightarrow> is_safe_to_hedge (1 / 2) q)
                    in case calculate_hedge_quantity (strategy_of h) before (price m) a of
                         Inl e \<Rightarrow> (Inl e, h)
                       | Inr q \<Rightarrow>
                           (let sd = (if 0 < before then SHORT else LONG)
                            in case execute_hedge_internal clk (now 1) q a sd m before safe h of
                                 (Inl e, h1) \<Rightarrow> (Inl e, h1)
                               | (Inr x, h1) \<Rightarrow> (let (y, h2) = book_hedge clk (now 2) x h1 in (Inr y, h2))))))"

definition get_average_slippage_bps :: "hedger \<Rightarrow> decimal" where
  "get_average_slippage_bps h =
     (if total_hedges_executed h = 0 then 0 else ddiv (total_slippage_bps h) (of_int (total_hedges_executed h)))"

record summary =
  total_positions :: int
  assets :: "Asset list"
  sum_delta :: pyfloat
  total_hedges :: int
  avg_slippage :: pyfloat
  sum_last_rebalance :: "pyfloat option"

definition get_portfolio_summary :: "hedger \<Rightarrow> summary" where
  "get_portfolio_summary h =
     \<lparr>total_positions = sum_list (map (int \<circ> length) (dict_values (positions h))), assets = dict_keys (positions h),
      sum_delta = fl (calculate_portfolio_delta h), total_hedges = total_hedges_executed h,
      avg_slippage = fl (get_average_slippage_bps h), sum_last_rebalance = last_rebalance_time h\<rparr>"


section \<open>Rounding to lots\<close>

lemma lot_exact:
  assumes "p = 1 / 1000 \<or> p = 1 / 100" "\<bar>n\<bar> \<le> 10 ^ 28"
  shows "dc (of_int n * p) = of_int n * p"
proof -
  have powi: "(10 :: rat) powi (- 3) = 1 / 1000" "(10 :: rat) powi (- 2) = 1 / 100"
    by (simp_all add: power_int_minus)
  have ex: "dc (of_int m * 10 powi e) = of_int m * 10 powi e" if "\<bar>m\<bar> < 10 ^ 28" "- 10 \<le> e" for m e
    unfolding dc_def using d28.rnd_exact [of "of_int m * 10 powi e" m e] that by simp
  show ?thesis
  proof (cases "\<bar>n\<bar> = 10 ^ 28")
    case True
    have "dc (10 ^ 28 * p) = 10 ^ 28 * p"
      using assms(1)
    proof
      assume "p = 1 / 1000"
      then have eq: "10 ^ 28 * p = of_int 1 * 10 powi 25" by simp
      show ?thesis unfolding eq by (rule ex) simp_all
    next
      assume "p = 1 / 100"
      then have eq: "10 ^ 28 * p = of_int 1 * 10 powi 26" by simp
      show ?thesis unfolding eq by (rule ex) simp_all
    qed
    moreover from True have "n = 10 ^ 28 \<or> n = - (10 ^ 28)" by linarith
    ultimately show ?thesis by (auto simp: dc_minus)
  next
    case False
    then have "\<bar>n\<bar> < 10 ^ 28" using assms(2) by simp
    then have "dc (of_int n * (1 / 1000)) = of_int n * (1 / 1000)" "dc (of_int n * (1 / 100)) = of_int n * (1 / 100)"
      using ex [of n "- 3"] ex [of n "- 2"] unfolding powi by simp_all
    with assms(1) show ?thesis by metis
  qed
qed

lemma quantize_near:
  assumes "p = 1 / 1000 \<or> p = 1 / 100" "quantize_down p (dc x) = Inr q"
  shows "\<bar>x - q\<bar> < p" "dc q = q" "0 \<le> x \<Longrightarrow> 0 \<le> q" "x \<le> 0 \<Longrightarrow> q \<le> 0"
proof -
  let ?y = "dc x"
  define n where "n = (if 0 \<le> ?y then \<lfloor>?y / p\<rfloor> else \<lceil>?y / p\<rceil>)"
  have p: "0 < p" using assms(1) by auto
  have n: "\<bar>n\<bar> < 10 ^ 28" "q = of_int n * p"
    using assms(2) by (auto simp: quantize_down_def Let_def n_def split: if_splits)
  have y: "of_int (n - 1) < ?y / p" "?y / p < of_int (n + 1)" by (cases "0 \<le> ?y"; simp add: n_def; linarith)+
  have y': "of_int (n - 1) * p < ?y" "?y < of_int (n + 1) * p"
    using y p by (simp_all only: pos_less_divide_eq pos_divide_less_eq)
  have lo: "dc (of_int (n - 1) * p) = of_int (n - 1) * p" and hi: "dc (of_int (n + 1) * p) = of_int (n + 1) * p"
    using n(1) by (intro lot_exact [OF assms(1)]; linarith)+
  have "of_int (n - 1) * p < x" using dc_mono [of x "of_int (n - 1) * p"] lo y'(1) by linarith
  moreover have "x < of_int (n + 1) * p" using dc_mono [of "of_int (n + 1) * p" x] hi y'(2) by linarith
  ultimately show "\<bar>x - q\<bar> < p" unfolding n(2) abs_less_iff by (simp add: algebra_simps)
  show "dc q = q" using n lot_exact [OF assms(1), of n] by simp
  show "0 \<le> q" if "0 \<le> x"
  proof -
    have "0 \<le> ?y" using that by simp
    then have "0 \<le> n" using p by (simp add: n_def)
    then show ?thesis using p by (simp add: n(2))
  qed
  show "q \<le> 0" if "x \<le> 0"
  proof -
    have y0: "?y \<le> 0" using dc_mono [OF that] by simp
    have "n \<le> 0"
    proof (cases "?y = 0")
      case False
      then have "?y / p \<le> 0" using y0 p by (simp add: divide_nonpos_pos)
      then have "\<lceil>?y / p\<rceil> \<le> 0" by simp
      with False y0 show ?thesis by (simp add: n_def)
    qed (simp add: n_def)
    then show ?thesis using p by (simp add: n(2) mult_nonpos_nonneg)
  qed
qed

lemma dneg_of_decimal: "dc q = q \<Longrightarrow> dneg q = - q"
  by (simp add: dneg_def dc_minus)

section \<open>The exact delta\<close>

text \<open>What the portfolio is worth without rounding: linear positions of assets with market data.\<close>

definition linear :: "Position \<Rightarrow> bool" where
  "linear p \<longleftrightarrow> position_type p \<in> {''spot'', ''perp'', ''futures''}"

definition asset_delta :: "hedger \<Rightarrow> Asset \<Rightarrow> Position list \<Rightarrow> rat" where
  "asset_delta h a ps =
     (case dict_get (market_data h) a of
        None \<Rightarrow> 0 | Some m \<Rightarrow> sum_list (map (\<lambda>p. if linear p then quantity p * price m else 0) ps))"

definition true_delta :: "hedger \<Rightarrow> rat" where
  "true_delta h = (\<Sum>(a, ps) \<leftarrow> positions h. asset_delta h a ps)"

lemma true_delta_add:
  assumes "wf_dict (positions h)" "dict_get (market_data h) a = Some m" "linear p"
    "h' = h\<lparr>positions := dict_set a (positions_of h a @ [p]) (positions h)\<rparr>"
  shows "true_delta h' = true_delta h + quantity p * price m"
proof -
  have a: "asset_delta h' = asset_delta h" by (simp add: fun_eq_iff asset_delta_def assms(4))
  have "true_delta h' = true_delta h - asset_delta h a (positions_of h a) + asset_delta h a (positions_of h a @ [p])"
    using sum_dict_set [OF assms(1), where f = "asset_delta h"]
    by (simp add: true_delta_def a assms(4) positions_of_def asset_delta_def assms(2) split: option.split)
  then show ?thesis using assms(3) by (simp add: asset_delta_def assms(2))
qed

lemma dadd_decimal [simp]: "is_decimal (dadd x y)"
  by (simp add: is_decimal_def dadd_def)

lemma portfolio_delta_decimal: "is_decimal (calculate_portfolio_delta h)"
proof -
  have ps: "is_decimal tot \<Longrightarrow> is_decimal (fold (position_delta m) ps tot)" for m ps tot
    by (induction ps arbitrary: tot) (simp_all add: position_delta_def)
  have "is_decimal tot \<Longrightarrow> is_decimal (fold (\<lambda>(a, ps) tot.
      (case dict_get (market_data h) a of None \<Rightarrow> tot | Some m \<Rightarrow> fold (position_delta m) ps tot)) d tot)" for d tot
    by (induction d arbitrary: tot) (auto simp: ps split: option.split)
  then show ?thesis by (simp add: calculate_portfolio_delta_def is_decimal_def)
qed

section \<open>What a hedge does\<close>

lemma execute_hedge_internal_Inr:
  assumes "execute_hedge_internal clk now q a sd m d safe h = (Inr x, h1)"
  shows "success x" "delta_before x = d" "delta_after x = dadd d (dmul q (price m))" "hedge_quantity x = q" "hedge_asset x = a"
    "hedge_side x = sd" "execution_price x = price m" "simulated_slippage q m = Inr (slippage_bps x)"
    "\<exists>p. linear p \<and> quantity p = (if sd = LONG then q else dneg q) \<and>
       h1 = h\<lparr>positions := dict_set a (positions_of h a @ [p]) (positions h)\<rparr>"
proof -
  obtain slip where "simulated_slippage q m = Inr slip"
    using assms by (auto simp: execute_hedge_internal_def split: sum.splits)
  then show "success x" "delta_before x = d" "delta_after x = dadd d (dmul q (price m))" "hedge_quantity x = q" "hedge_asset x = a"
    "hedge_side x = sd" "execution_price x = price m" "simulated_slippage q m = Inr (slippage_bps x)"
    "\<exists>p. linear p \<and> quantity p = (if sd = LONG then q else dneg q) \<and>
       h1 = h\<lparr>positions := dict_set a (positions_of h a @ [p]) (positions h)\<rparr>"
    using assms by (auto simp: execute_hedge_internal_def Let_def linear_def intro!: exI [of _ "\<lparr>pos_asset = a,
        quantity = (if sd = LONG then q else dneg q), entry_price = price m, side = sd, position_type = ''perp'', unrealized_pnl = 0\<rparr>"])
qed

lemma notify_fields [simp]:
  "positions (notify n h) = positions h" "market_data (notify n h) = market_data h" "strategy_of (notify n h) = strategy_of h"
  "adl_queues (notify n h) = adl_queues h" "total_hedges_executed (notify n h) = total_hedges_executed h"
  "total_slippage_bps (notify n h) = total_slippage_bps h" "delta_threshold_bps (notify n h) = delta_threshold_bps h"
  by (simp_all add: notify_def)

lemma book_hedge_hedger:
  assumes "book_hedge clk now x h = (y, h')" "success x"
  shows "y = x\<lparr>execution_time_us := execution_time_us y\<rparr>" "positions h' = positions h" "market_data h' = market_data h"
    "total_hedges_executed h' = total_hedges_executed h + 1" "total_slippage_bps h' = dadd (total_slippage_bps h) (slippage_bps x)"
    "strategy_of h' = strategy_of h" "adl_queues h' = adl_queues h"
  using assms by (auto simp: book_hedge_def Let_def)

lemma true_delta_cong: "positions h' = positions h \<Longrightarrow> market_data h' = market_data h \<Longrightarrow> true_delta h' = true_delta h"
  by (simp add: true_delta_def asset_delta_def [abs_def])

text \<open>A call either leaves the hedger alone or makes one hedge.\<close>

lemma rebalance_cases:
  assumes "execute_rebalance clk now h = (r, h')"
  obtains (nothing) "h' = h" "\<And>x. r = Inr x \<Longrightarrow> hedge_side x = NONE"
  | (hedge) m q x x1 h1 where "r = Inr x" "dict_get (market_data h) (select_hedge_asset h) = Some m"
      "calculate_hedge_quantity (strategy_of h) (calculate_portfolio_delta h) (price m) (select_hedge_asset h) = Inr q"
      "execute_hedge_internal clk (now 1) q (select_hedge_asset h) (if 0 < calculate_portfolio_delta h then SHORT else LONG) m
         (calculate_portfolio_delta h)
         (case dict_get (adl_queues h) (select_hedge_asset h) of None \<Rightarrow> True | Some q \<Rightarrow> is_safe_to_hedge (1 / 2) q) h = (Inr x1, h1)"
      "book_hedge clk (now 2) x1 h1 = (x, h')"
proof (cases "should_execute_hedge (strategy_of h) (now 0) (calculate_portfolio_delta h) (delta_threshold_bps h) (get_market_conditions h)")
  case False
  show ?thesis by (rule nothing) (use assms False in \<open>auto simp: execute_rebalance_def Let_def no_hedge_def\<close>)
next
  case go: True
  show ?thesis
  proof (cases "dict_get (market_data h) (select_hedge_asset h)")
    case None
    show ?thesis by (rule nothing) (use assms go None in \<open>auto simp: execute_rebalance_def Let_def no_hedge_def\<close>)
  next
    case (Some m)
    let ?d = "calculate_portfolio_delta h" let ?a = "select_hedge_asset h"
    show ?thesis
    proof (cases "calculate_hedge_quantity (strategy_of h) ?d (price m) ?a")
      case (Inl e)
      show ?thesis by (rule nothing) (use assms go Some Inl in \<open>auto simp: execute_rebalance_def Let_def\<close>)
    next
      case (Inr q)
      let ?sd = "if 0 < ?d then SHORT else LONG"
      let ?safe = "case dict_get (adl_queues h) ?a of None \<Rightarrow> True | Some q \<Rightarrow> is_safe_to_hedge (1 / 2) q"
      obtain r1 h1 where i: "execute_hedge_internal clk (now 1) q ?a ?sd m ?d ?safe h = (r1, h1)" by (cases "execute_hedge_internal clk (now 1) q ?a ?sd m ?d ?safe h")
      show ?thesis
      proof (cases r1)
        case (Inl e)
        have "h1 = h" using i Inl by (auto simp: execute_hedge_internal_def Let_def split: sum.splits)
        show ?thesis by (rule nothing) (use assms go Some Inr Inl i \<open>h1 = h\<close> in \<open>auto simp: execute_rebalance_def Let_def\<close>)
      next
        case x1: (Inr x1)
        obtain x h2 where b: "book_hedge clk (now 2) x1 h1 = (x, h2)" by (cases "book_hedge clk (now 2) x1 h1")
        then have "r = Inr x" "h2 = h'" using assms go Some Inr x1 i by (simp_all add: execute_rebalance_def Let_def split: if_splits)
        then show ?thesis using hedge [OF _ Some Inr] i x1 b by simp
      qed
    qed
  qed
qed

text \<open>The strategies that hedge the whole delta.\<close>

fun full_hedge :: "strategy \<Rightarrow> bool" where
  "full_hedge (Adaptive _ _ _ _) = False" | "full_hedge _ = True"

lemma full_quantity:
  assumes "full_hedge s" "calculate_hedge_quantity s d p a = Inr q" "0 < p" "is_decimal d"
  shows "\<bar>d + q * p\<bar> < precision a * p" "dc q = q" "0 < d \<Longrightarrow> q \<le> 0" "d \<le> 0 \<Longrightarrow> 0 \<le> q"
proof -
  have "ddiv (dneg d) p = dc (- d / p)" using assms(4) by (simp add: ddiv_def dneg_def dc_minus is_decimal_def)
  then have q: "quantize_down (precision a) (dc (- d / p)) = Inr q" using assms(1-3) by (cases s) (simp_all add: aggressive_quantity_def conservative_quantity_def)
  have lot: "precision a = 1 / 1000 \<or> precision a = 1 / 100" by (simp add: precision_def)
  note near = quantize_near [OF lot q]
  have "d + q * p = - ((- d / p - q) * p)" using assms(3) by (simp add: field_simps)
  then have "\<bar>d + q * p\<bar> = \<bar>- d / p - q\<bar> * p" using assms(3) by (simp add: abs_mult)
  then show "\<bar>d + q * p\<bar> < precision a * p" using near(1) assms(3) by (simp add: mult_strict_right_mono)
  show "dc q = q" by (rule near(2))
  show "q \<le> 0" if "0 < d" using near(4) that assms(3) by (simp add: divide_nonneg_pos)
  show "0 \<le> q" if "d \<le> 0" using near(3) that assms(3) by (simp add: divide_nonpos_pos)
qed

lemma hedge_effect_all:
  assumes "full_hedge (strategy_of h)" "wf_dict (positions h)" "execute_rebalance clk now h = (Inr x, h')"
    "hedge_side x \<noteq> NONE" "0 < execution_price x"
  shows "delta_before x = calculate_portfolio_delta h \<and> hedge_side x = (if 0 < delta_before x then SHORT else LONG) \<and>
    \<bar>delta_before x + hedge_quantity x * execution_price x\<bar> < precision (hedge_asset x) * execution_price x \<and>
    delta_after x = dadd (delta_before x) (dmul (hedge_quantity x) (execution_price x)) \<and>
    true_delta h' = true_delta h + \<bar>hedge_quantity x\<bar> * execution_price x \<and>
    (if 0 < delta_before x then hedge_quantity x \<le> 0 else 0 \<le> hedge_quantity x)"
  using assms(3)
proof (cases rule: rebalance_cases)
  case nothing
  then show ?thesis using assms(4) by simp
next
  case (hedge m q x' x1 h1)
  note i = execute_hedge_internal_Inr [OF hedge(4)]
  note b = book_hedge_hedger [OF hedge(5) i(1)]
  have x: "x' = x" using hedge(1) by simp
  have f: "delta_before x = delta_before x1" "hedge_side x = hedge_side x1" "hedge_quantity x = hedge_quantity x1"
    "hedge_asset x = hedge_asset x1" "execution_price x = execution_price x1" "delta_after x = delta_after x1"
    by (subst b(1) [unfolded x], simp)+
  have p: "0 < price m" using assms(5) i(7) f(5) by simp
  note q = full_quantity [OF assms(1) hedge(3) p portfolio_delta_decimal]
  obtain p1 where p1: "linear p1" "quantity p1 = (if (if 0 < calculate_portfolio_delta h then SHORT else LONG) = LONG then q else dneg q)"
    "h1 = h\<lparr>positions := dict_set (select_hedge_asset h) (positions_of h (select_hedge_asset h) @ [p1]) (positions h)\<rparr>"
    using i(9) by blast
  have "true_delta h' = true_delta h1" by (rule true_delta_cong) (simp_all add: b)
  also have "\<dots> = true_delta h + quantity p1 * price m" by (rule true_delta_add [OF assms(2) hedge(2) p1(1,3)])
  also have "quantity p1 = \<bar>q\<bar>" using q(3,4) dneg_of_decimal [OF q(2)] p1(2) by auto
  finally show ?thesis using i f q(1,3,4) by simp
qed

section \<open>Metrics\<close>

text \<open>The slippage of a hedge lies between 0 and 10, so as long as the totals are exact their average does.\<close>

definition hedger_inv :: "hedger \<Rightarrow> bool" where
  "hedger_inv h \<longleftrightarrow>
     wf_dict (positions h) \<and> wf_dict (market_data h) \<and> 0 \<le> total_hedges_executed h \<and>
     (total_hedges_executed h < 10 ^ 26 \<longrightarrow>
        0 \<le> total_slippage_bps h \<and> total_slippage_bps h \<le> 10 * of_int (total_hedges_executed h))"

lemma quantize_nonneg:
  assumes "quantize_down p x = Inr s" "0 \<le> x" "0 < p" shows "0 \<le> s"
proof -
  have "s = of_int \<lfloor>x / p\<rfloor> * p" using assms(1,2) by (auto simp: quantize_down_def Let_def split: if_splits)
  then show ?thesis using assms(2,3) by simp
qed

lemma ddiv_nonneg: "0 \<le> x \<Longrightarrow> 0 \<le> y \<Longrightarrow> 0 \<le> ddiv x y"
  unfolding ddiv_def by (intro dc_nonneg divide_nonneg_nonneg)

lemma dabs_nonneg: "0 \<le> dabs x"
  unfolding dabs_def by (intro dc_nonneg abs_ge_zero)

lemma slippage_range:
  assumes "simulated_slippage q m = Inr s" shows "0 \<le> s \<and> s \<le> 10"
proof -
  let ?x = "dmul (dmul (ddiv (dabs q) 1000) (ddiv (10 ^ 9) (max (volume_24h m) 1))) (1 / 100)"
  obtain s1 where s1: "quantize_down (1 / 100) ?x = Inr s1" "s = min s1 10"
    using assms by (auto simp: simulated_slippage_def elim: bind_InrE)
  have "0 \<le> max (volume_24h m) 1" by (simp add: le_max_iff_disj)
  then have "0 \<le> ?x" by (intro dmul_nonneg ddiv_nonneg dabs_nonneg) simp_all
  then have "0 \<le> s1" using quantize_nonneg [OF s1(1)] by simp
  then show ?thesis using s1(2) by simp
qed

lemma slippage_total:
  assumes "0 \<le> t" "t \<le> 10 * of_int n" "0 \<le> s" "s \<le> 10" "n + 1 < 10 ^ 26" "0 \<le> n"
  shows "0 \<le> dadd t s" "dadd t s \<le> 10 * of_int (n + 1)"
proof -
  show "0 \<le> dadd t s" using assms by (intro dadd_nonneg)
  have "dadd t s \<le> dc (of_int (10 * (n + 1)))"
    unfolding dadd_def using assms by (intro dc_mono) simp
  also have "\<dots> = of_int (10 * (n + 1))" using assms by (intro dc_of_int) simp
  finally show "dadd t s \<le> 10 * of_int (n + 1)" by simp
qed

lemma rebalance_inv:
  assumes "hedger_inv h" "execute_rebalance clk now h = (r, h')"
  shows "hedger_inv h'"
  using assms(2)
proof (cases rule: rebalance_cases)
  case nothing
  then show ?thesis using assms(1) by simp
next
  case (hedge m q x x1 h1)
  note i = execute_hedge_internal_Inr [OF hedge(4)]
  note b = book_hedge_hedger [OF hedge(5) i(1)]
  obtain ps where h1: "h1 = h\<lparr>positions := dict_set (select_hedge_asset h) ps (positions h)\<rparr>" using i(9) by blast
  note s = slippage_range [OF i(8)]
  show ?thesis
  proof (cases "total_hedges_executed h + 1 < 10 ^ 26")
    case True
    then have "0 \<le> total_slippage_bps h" "total_slippage_bps h \<le> 10 * of_int (total_hedges_executed h)" "0 \<le> total_hedges_executed h"
      using assms(1) by (simp_all add: hedger_inv_def)
    from slippage_total [OF this(1,2) _ _ True this(3)] s show ?thesis
      using assms(1) by (simp add: hedger_inv_def b h1)
  qed (use assms(1) in \<open>simp add: hedger_inv_def b h1\<close>)
qed

datatype hedger_op =
    Add_Observer string
  | Remove_Observer string
  | Market MarketData
  | Adl ADLQueuePosition
  | Add Position
  | Remove Asset int
  | Rebalance "nat \<Rightarrow> pyfloat" "nat \<Rightarrow> pyfloat"

fun hedger_step :: "hedger_op \<Rightarrow> hedger \<Rightarrow> hedger" where
  "hedger_step (Add_Observer ob) h = add_observer ob h"
| "hedger_step (Remove_Observer ob) h = remove_observer ob h"
| "hedger_step (Market m) h = update_market_data m h"
| "hedger_step (Adl a) h = update_adl_queue a h"
| "hedger_step (Add p) h = add_position p h"
| "hedger_step (Remove a i) h = snd (remove_position a i h)"
| "hedger_step (Rebalance clk now) h = snd (execute_rebalance clk now h)"

lemma hedger_step_inv: "hedger_inv h \<Longrightarrow> hedger_inv (hedger_step x h)"
proof (cases x)
  case (Rebalance clk now)
  assume "hedger_inv h"
  then show ?thesis using rebalance_inv by (cases "execute_rebalance clk now h") (auto simp: Rebalance)
qed (auto simp: hedger_inv_def add_observer_def remove_observer_def update_market_data_def update_adl_queue_def add_position_def
    remove_position_def Let_def split: option.split)

interpretation hedging: op_machine hedger_step hedger_inv
  by unfold_locales (rule hedger_step_inv)

lemma hedger_run_inv: "hedger_inv (fold hedger_step xs (hedger_init s t ms))"
  by (rule hedging.run_inv) (simp add: hedger_inv_def hedger_init_def)

section \<open>Properties\<close>

text \<open>A short portfolio is hedged: when the delta found is negative, the aggressive and the conservative strategy buy a quantity that
  leaves less than one lot of the hedge asset unhedged, and the exact delta of the portfolio grows by exactly what was bought.\<close>
theorem short_portfolio_neutralised:
  assumes "full_hedge (strategy_of h)" "wf_dict (positions h)" "execute_rebalance clk now h = (Inr x, h')"
    "hedge_side x = LONG" "0 < execution_price x"
  shows "delta_before x = calculate_portfolio_delta h \<and> delta_before x \<le> 0 \<and> 0 \<le> hedge_quantity x \<and>
    true_delta h' = true_delta h + hedge_quantity x * execution_price x \<and>
    \<bar>delta_before x + hedge_quantity x * execution_price x\<bar> < precision (hedge_asset x) * execution_price x"
  using hedge_effect_all [OF assms(1-3) _ assms(5)] assms(4) by (auto split: if_splits)

text \<open>C20: A long portfolio is not hedged but doubled. When a hedger with the aggressive or the conservative strategy, which hedge the whole
  delta, executes a short hedge at a positive price, then the delta it found was positive, the delta it reports afterwards is the rounded sum
  of what it found and what it sold, less than a lot away from zero before rounding; but the position that is booked has its sign flipped
  twice, and the exact delta of the portfolio grows by the whole delta it found, give or take less than one lot.\<close>
theorem long_portfolio_doubled:
  assumes "full_hedge (strategy_of h)" "wf_dict (positions h)" "execute_rebalance clk now h = (Inr x, h')"
    "hedge_side x = SHORT" "0 < execution_price x"
  shows "0 < delta_before x \<and> hedge_quantity x \<le> 0 \<and>
    delta_after x = dadd (delta_before x) (dmul (hedge_quantity x) (execution_price x)) \<and>
    \<bar>delta_before x + hedge_quantity x * execution_price x\<bar> < precision (hedge_asset x) * execution_price x \<and>
    true_delta h + delta_before x - precision (hedge_asset x) * execution_price x < true_delta h' \<and>
    true_delta h' < true_delta h + delta_before x + precision (hedge_asset x) * execution_price x"
proof -
  have e: "0 < delta_before x" "hedge_quantity x \<le> 0"
    "delta_after x = dadd (delta_before x) (dmul (hedge_quantity x) (execution_price x))"
    "\<bar>delta_before x + hedge_quantity x * execution_price x\<bar> < precision (hedge_asset x) * execution_price x"
    "true_delta h' = true_delta h + \<bar>hedge_quantity x\<bar> * execution_price x"
    using hedge_effect_all [OF assms(1-3) _ assms(5)] assms(4) by (auto split: if_splits)
  have "\<bar>hedge_quantity x\<bar> * execution_price x = - (hedge_quantity x * execution_price x)" using e(2) by simp
  with e show ?thesis by (simp add: abs_less_iff)
qed

text \<open>The place in the queue for auto-deleveraging decides nothing: with other queue data a rebalance books the same positions and
  the same metrics.\<close>
theorem adl_queue_changes_nothing:
  "let h1 = snd (execute_rebalance clk now h); h2 = snd (execute_rebalance clk now (h\<lparr>adl_queues := qs\<rparr>))
   in positions h2 = positions h1 \<and> total_hedges_executed h2 = total_hedges_executed h1 \<and> total_slippage_bps h2 = total_slippage_bps h1"
proof -
  have c: "calculate_portfolio_delta (h\<lparr>adl_queues := qs\<rparr>) = calculate_portfolio_delta h"
    "get_market_conditions (h\<lparr>adl_queues := qs\<rparr>) = get_market_conditions h" "select_hedge_asset (h\<lparr>adl_queues := qs\<rparr>) = select_hedge_asset h"
    by (simp_all add: calculate_portfolio_delta_def get_market_conditions_def select_hedge_asset_def)
  have i: "execute_hedge_internal clk nw q a sd m d safe (h\<lparr>adl_queues := qs\<rparr>) =
      (case execute_hedge_internal clk nw q a sd m d safe' h of
         (Inl e, h1) \<Rightarrow> (Inl e, h1\<lparr>adl_queues := qs\<rparr>)
       | (Inr x, h1) \<Rightarrow> (Inr (x\<lparr>adl_queue_position := if safe then None else Some 1\<rparr>), h1\<lparr>adl_queues := qs\<rparr>))" for nw q a sd m d safe safe'
    by (simp add: execute_hedge_internal_def Let_def positions_of_def split: sum.split)
  let ?a = "select_hedge_asset h" let ?d = "calculate_portfolio_delta h"
  let ?safe = "case dict_get (adl_queues h) ?a of None \<Rightarrow> True | Some q \<Rightarrow> is_safe_to_hedge (1 / 2) q"
  show ?thesis
  proof (cases "should_execute_hedge (strategy_of h) (now 0) ?d (delta_threshold_bps h) (get_market_conditions h)")
    case go: True
    show ?thesis
    proof (cases "dict_get (market_data h) ?a")
      case (Some m)
      show ?thesis
      proof (cases "calculate_hedge_quantity (strategy_of h) ?d (price m) ?a")
        case (Inr q)
        obtain r h1 where e: "execute_hedge_internal clk (now 1) q ?a (if 0 < ?d then SHORT else LONG) m ?d ?safe h = (r, h1)"
          by (cases "execute_hedge_internal clk (now 1) q ?a (if 0 < ?d then SHORT else LONG) m ?d ?safe h")
        show ?thesis
          by (cases r) (simp_all add: execute_rebalance_def Let_def c go Some Inr e [unfolded One_nat_def] i [where safe' = ?safe] book_hedge_def
              split del: if_split, simp)
      qed (simp add: execute_rebalance_def Let_def c go Some)
    qed (simp add: execute_rebalance_def Let_def c go)
  qed (simp add: execute_rebalance_def Let_def c)
qed

text \<open>After any calls fewer than \<open>10 ^ 26\<close> hedges have an average slippage between 0 and the cap of 10 basis points.\<close>
theorem average_slippage_capped:
  assumes "h = fold hedger_step xs (hedger_init s t ms)" "total_hedges_executed h < 10 ^ 26"
  shows "0 \<le> get_average_slippage_bps h \<and> get_average_slippage_bps h \<le> 10"
proof -
  have "hedger_inv h" using hedger_run_inv assms(1) by simp
  then have i: "0 \<le> total_hedges_executed h" "0 \<le> total_slippage_bps h" "total_slippage_bps h \<le> 10 * of_int (total_hedges_executed h)"
    using assms(2) by (simp_all add: hedger_inv_def)
  show ?thesis
  proof (cases "total_hedges_executed h = 0")
    case False
    then have "total_slippage_bps h / of_int (total_hedges_executed h) \<le> 10" using i by (simp add: pos_divide_le_eq)
    then have "ddiv (total_slippage_bps h) (of_int (total_hedges_executed h)) \<le> dc 10" unfolding ddiv_def by (rule dc_mono)
    then show ?thesis using i by (simp add: get_average_slippage_bps_def ddiv_def)
  qed (simp add: get_average_slippage_bps_def)
qed

section \<open>Witnesses\<close>

text \<open>One bitcoin at 50000, held long and short.\<close>

definition demo_market :: MarketData where
  "demo_market =
     \<lparr>asset = BTC, price = 50000, bid = 49999, ask = 50001, volume_24h = 10 ^ 9, funding_rate = None, next_funding_time = None,
      md_timestamp = 0\<rparr>"

definition demo_position :: "decimal \<Rightarrow> Position" where
  "demo_position q =
     \<lparr>pos_asset = BTC, quantity = q, entry_price = 50000, side = LONG, position_type = ''spot'', unrealized_pnl = 0\<rparr>"

definition demo_hedger :: "decimal \<Rightarrow> hedger" where
  "demo_hedger q = add_position (demo_position q) (update_market_data demo_market (hedger_init (Aggressive 50 100) 100 5))"

lemma demo_parts [simp]:
  "market_data (demo_hedger q) = [(BTC, demo_market)]" "adl_queues (demo_hedger q) = []" "strategy_of (demo_hedger q) = Aggressive 50 100"
  "delta_threshold_bps (demo_hedger q) = 100" "positions (demo_hedger q) = [(BTC, [demo_position q])]" "price demo_market = 50000"
  by (simp_all add: demo_hedger_def add_position_def positions_of_def update_market_data_def hedger_init_def demo_position_def demo_market_def)

lemma demo_asset: "select_hedge_asset (demo_hedger q) = BTC"
  by (simp add: select_hedge_asset_def asset_score_def demo_market_def dabs_def ddiv_def dmul_def dsub_def)

lemma demo_delta: "calculate_portfolio_delta (demo_hedger 1) = 50000" "calculate_portfolio_delta (demo_hedger (- 1)) = - 50000"
  by (simp_all add: calculate_portfolio_delta_def position_delta_def demo_position_def dadd_def dmul_def dc_minus)

lemma demo_slippage: "\<bar>q\<bar> = 1 \<Longrightarrow> simulated_slippage q demo_market = Inr 0"
proof -
  assume q: "\<bar>q\<bar> = 1"
  have k: "dc (1 / 1000) = 1 / 1000" using lot_exact [of "1 / 1000" 1] by simp
  have "0 \<le> dc (1 / 100000)" "dc (1 / 100000) \<le> 1 / 1000" using dc_mono [of "1 / 100000" "1 / 1000"] k by simp_all
  then have "\<lfloor>dc (1 / 100000) * 100\<rfloor> = 0" by (simp add: floor_eq_iff)
  then show ?thesis
    using \<open>0 \<le> dc (1 / 100000)\<close> by (simp add: simulated_slippage_def quantize_down_def dabs_def dmul_def ddiv_def q k demo_market_def)
qed

lemma demo_rebalance:
  assumes "q = 1 \<or> q = - 1"
  shows "\<exists>x h'. execute_rebalance clk now (demo_hedger q) = (Inr x, h') \<and> hedge_side x = (if q = 1 then SHORT else LONG) \<and>
    execution_price x = 50000 \<and> delta_before x = 50000 * q"
proof -
  have d: "calculate_portfolio_delta (demo_hedger q) = 50000 * q" using assms demo_delta by auto
  have "quantize_down (precision BTC) (ddiv (dneg (50000 * q)) 50000) = Inr (- q)"
    using assms by (auto simp: quantize_down_def precision_def ddiv_def dneg_def dc_minus)
  then have c: "calculate_hedge_quantity (Aggressive 50 100) (50000 * q) 50000 BTC = Inr (- q)" by (simp add: aggressive_quantity_def)
  have go: "should_execute_hedge (Aggressive 50 100) t (50000 * q) 100 c1" for t c1
    using assms by (auto simp: dabs_def aggressive_should_def)
  have s: "simulated_slippage (- q) demo_market = Inr 0" using assms by (intro demo_slippage) auto
  show ?thesis
    using assms by (simp add: execute_rebalance_def Let_def d go demo_asset c execute_hedge_internal_def s book_hedge_def
        del: should_execute_hedge.simps calculate_hedge_quantity.simps) auto
qed

theorem short_portfolio_neutralised_witness:
  "\<exists>x h'. execute_rebalance (\<lambda>_. 0) (\<lambda>_. 0) (demo_hedger (- 1)) = (Inr x, h') \<and>
     \<bar>delta_before x + hedge_quantity x * execution_price x\<bar> < precision (hedge_asset x) * execution_price x"
proof -
  obtain x h' where x: "execute_rebalance (\<lambda>_. 0) (\<lambda>_. 0) (demo_hedger (- 1)) = (Inr x, h')" "hedge_side x = LONG"
      "execution_price x = 50000"
    using demo_rebalance [of "- 1" "\<lambda>_. 0" "\<lambda>_. 0"] by auto
  show ?thesis using short_portfolio_neutralised [OF _ _ x(1,2)] x by (auto simp: wf_dict_def)
qed

theorem long_portfolio_doubled_witness:
  "\<exists>x h'. execute_rebalance (\<lambda>_. 0) (\<lambda>_. 0) (demo_hedger 1) = (Inr x, h') \<and> delta_before x = 50000 \<and>
     true_delta (demo_hedger 1) + 50000 - precision (hedge_asset x) * 50000 < true_delta h'"
proof -
  obtain x h' where x: "execute_rebalance (\<lambda>_. 0) (\<lambda>_. 0) (demo_hedger 1) = (Inr x, h')" "hedge_side x = SHORT"
      "execution_price x = 50000" "delta_before x = 50000"
    using demo_rebalance [of 1 "\<lambda>_. 0" "\<lambda>_. 0"] by auto
  show ?thesis using long_portfolio_doubled [OF _ _ x(1,2)] x by (auto simp: wf_dict_def)
qed

theorem average_slippage_capped_witness:
  "get_average_slippage_bps (fold hedger_step [Market demo_market] (hedger_init (Aggressive 50 100) 100 5)) \<le> 10"
  using average_slippage_capped [of _ "[Market demo_market]" "Aggressive 50 100" 100 5, OF refl]
  by (simp add: update_market_data_def hedger_init_def)

end
