(* ===== verification/InventoryManager.thy ===== *)
theory InventoryManager
  imports Prelude
begin

text \<open>
  \<open>arbitrage/inventory_manager.py\<close>: portfolio delta, the orders that bring it back to neutral, and their execution.

  The exchange client is a parameter: what it knows of a symbol (\<open>stored\<close>) and what it replies to an order (\<open>fill\<close>). \<open>tick n\<close> is the clock
  in nanoseconds at the n-th order id, \<open>utc n\<close> the time that order is created at. The field \<open>delta\<close> of a position is never read and left out.
\<close>

section \<open>Data\<close>

record Position =
  symbol :: string
  quantity :: decimal
  average_entry_price :: decimal
  current_price :: decimal
  unrealized_pnl :: decimal

definition market_value :: "Position \<Rightarrow> decimal" where "market_value p = dmul (quantity p) (current_price p)"
definition cost_basis :: "Position \<Rightarrow> decimal" where "cost_basis p = dmul (quantity p) (average_entry_price p)"

definition position_price :: "decimal \<Rightarrow> Position \<Rightarrow> Position" where
  "position_price x p =
     p\<lparr>current_price := x,
       unrealized_pnl := (if 0 < quantity p then dmul (dsub x (average_entry_price p)) (quantity p)
                          else if quantity p < 0 then dmul (dsub (average_entry_price p) x) (dabs (quantity p))
                          else unrealized_pnl p)\<rparr>"

record InventoryBalance =
  b_symbol :: string
  target_quantity :: decimal
  actual_quantity :: decimal
  deviation :: decimal
  deviation_pct :: decimal
  rebalance_required :: bool

datatype order_side = Buy | Sell

record RebalanceOrder =
  order_id :: string
  o_symbol :: string
  side :: order_side
  o_quantity :: decimal
  reason :: string
  priority :: int
  created_at :: pyfloat

record clock =
  tick :: "nat \<Rightarrow> int"
  utc :: "nat \<Rightarrow> pyfloat"

record manager =
  risk_limits :: "(string, decimal) dict"
  positions :: "(string, Position) dict"
  target_deltas :: "(string, decimal) dict"
  pending_orders :: "(string, RebalanceOrder) dict"
  order_counter :: nat
  delta_history :: "(pyfloat \<times> decimal) list"
  total_rebalances :: int
  successful_rebalances :: int
  failed_rebalances :: int
  total_delta_violations :: int

text \<open>\<open>SUPPORTED_SYMBOLS\<close> is a frozenset: \<open>syms\<close> lists it in the order in which it is iterated.\<close>

definition SUPPORTED_SYMBOLS :: "string set" where "SUPPORTED_SYMBOLS = {''BTC'', ''ETH'', ''SOL'', ''USDT''}"
definition MAX_DELTA_DEVIATION_USDT :: decimal where "MAX_DELTA_DEVIATION_USDT = 1000"
definition REBALANCE_THRESHOLD_PCT :: decimal where "REBALANCE_THRESHOLD_PCT = 1 / 20"
definition MIN_REBALANCE_SIZE_USDT :: decimal where "MIN_REBALANCE_SIZE_USDT = 100"

definition manager_init :: "string list \<Rightarrow> (string, decimal) dict \<Rightarrow> manager" where
  "manager_init syms limits =
     \<lparr>risk_limits = limits, positions = [], target_deltas = map (\<lambda>s. (s, 0)) syms, pending_orders = [], order_counter = 0, delta_history = [],
      total_rebalances = 0, successful_rebalances = 0, failed_rebalances = 0, total_delta_violations = 0\<rparr>"

definition pad6 :: "nat \<Rightarrow> string" where
  "pad6 n = (let s = int_str (int n) in replicate (6 - length s) (CHR ''0'') @ s)"

definition generate_order_id :: "clock \<Rightarrow> manager \<Rightarrow> string \<times> manager" where
  "generate_order_id clk m =
     (let n = order_counter m + 1 in (''INV-'' @ int_str (tick clk n) @ ''-'' @ pad6 n, m\<lparr>order_counter := n\<rparr>))"

section \<open>Positions\<close>

text \<open>What the client answers: nothing, three fields as decimals (None when the text is no number), or an exception.\<close>

datatype stored = NoData | Data "decimal option" "decimal option" "decimal option" | Fails

fun init_loop :: "(string \<Rightarrow> stored) \<Rightarrow> string list \<Rightarrow> manager \<Rightarrow> bool \<times> manager" where
  "init_loop get [] m = (True, m)"
| "init_loop get (s # ss) m =
     (case get s of
        NoData \<Rightarrow> init_loop get ss m
      | Data (Some q) (Some e) (Some c) \<Rightarrow>
          init_loop get ss (m\<lparr>positions := dict_set s \<lparr>symbol = s, quantity = q, average_entry_price = e, current_price = c, unrealized_pnl = 0\<rparr>
            (positions m)\<rparr>)
      | _ \<Rightarrow> (False, m))"

definition initialize_positions :: "(string \<Rightarrow> stored) \<Rightarrow> string list \<Rightarrow> manager \<Rightarrow> bool \<times> manager" where
  "initialize_positions get syms m = init_loop get syms m"

definition update_price :: "string \<Rightarrow> decimal \<Rightarrow> manager \<Rightarrow> manager" where
  "update_price s x m =
     (case dict_get (positions m) s of None \<Rightarrow> m | Some p \<Rightarrow> m\<lparr>positions := dict_set s (position_price x p) (positions m)\<rparr>)"

definition calculate_portfolio_delta :: "manager \<Rightarrow> decimal" where
  "calculate_portfolio_delta m = foldl (\<lambda>acc p. dadd acc (dmul (quantity p) (current_price p))) 0 (dict_values (positions m))"

definition calculate_net_exposure :: "manager \<Rightarrow> (string, decimal) dict" where
  "calculate_net_exposure m =
     (let e = fold (\<lambda>(s, p). dict_set s (market_value p)) (positions m) []
      in dict_set ''NET_DELTA'' (calculate_portfolio_delta m) (dict_set ''TOTAL'' (foldl dadd 0 (dict_values e)) e))"

definition check_delta_neutrality :: "manager \<Rightarrow> (bool \<times> decimal) \<times> manager" where
  "check_delta_neutrality m =
     (let d = calculate_portfolio_delta m; ok = (dabs d \<le> MAX_DELTA_DEVIATION_USDT)
      in ((ok, d), if ok then m else m\<lparr>total_delta_violations := total_delta_violations m + 1\<rparr>))"

section \<open>Orders\<close>

text \<open>Long positions are sold when the portfolio is long, short ones bought back when it is short.\<close>

definition side_for :: "decimal \<Rightarrow> decimal \<Rightarrow> order_side option" where
  "side_for net q = (if 0 < net then (if 0 < q then Some Sell else None) else (if q < 0 then Some Buy else None))"

text \<open>The size of the trade with the deviation, or None where the loop goes on without an order.\<close>

definition trade_size :: "decimal \<Rightarrow> decimal \<Rightarrow> Position \<Rightarrow> (decimal \<times> decimal) option" where
  "trade_size limit net p =
     (let dev = ddiv (dabs net) (dabs (market_value p));
          t = dmul (dabs (quantity p)) (min dev (1 / 2))
      in if dev < REBALANCE_THRESHOLD_PCT then None
         else if dmul t (current_price p) < MIN_REBALANCE_SIZE_USDT then None
         else
           (let t' = (if limit < dmul (dabs (dsub (quantity p) t)) (current_price p)
                      then dsub (dabs (quantity p)) (ddiv limit (current_price p)) else t)
            in if t' \<le> 0 then None else Some (t', dev)))"

fun rebalance_loop :: "clock \<Rightarrow> decimal \<Rightarrow> (string \<times> Position) list \<Rightarrow> decimal \<Rightarrow> manager \<Rightarrow> RebalanceOrder list \<Rightarrow>
    (exn + RebalanceOrder list) \<times> manager" where
  "rebalance_loop clk net [] remaining m os = (Inr os, m)"
| "rebalance_loop clk net ((s, p) # ps) remaining m os =
     (if s = ''USDT'' then rebalance_loop clk net ps remaining m os
      else if dabs remaining < MIN_REBALANCE_SIZE_USDT then (Inr os, m)
      else if market_value p = 0 then rebalance_loop clk net ps remaining m os
      else
        (case side_for net (quantity p) of
           None \<Rightarrow> rebalance_loop clk net ps remaining m os
         | Some sd \<Rightarrow>
             (case trade_size (case dict_get (risk_limits m) s of None \<Rightarrow> 100000 | Some l \<Rightarrow> l) net p of
                None \<Rightarrow> rebalance_loop clk net ps remaining m os
              | Some (t, dev) \<Rightarrow>
                  (let (i, m1) = generate_order_id clk m
                   in case quantize_down (1 / 10000) t of
                        Inl e \<Rightarrow> (Inl e, m1)
                      | Inr q \<Rightarrow>
                          rebalance_loop clk net ps
                            (if sd = Sell then dsub remaining (dmul t (current_price p))
                             else dsub remaining (dmul (dneg t) (current_price p)))
                            m1
                            (os @ [\<lparr>order_id = i, o_symbol = s, side = sd, o_quantity = q, reason = ''delta_rebalance'',
                                    priority = \<lfloor>dmul (dabs dev) 100\<rfloor>, created_at = utc clk (order_counter m1)\<rparr>])))))"

definition calculate_rebalance_orders :: "clock \<Rightarrow> manager \<Rightarrow> (exn + RebalanceOrder list) \<times> manager" where
  "calculate_rebalance_orders clk m =
     (let net = calculate_portfolio_delta m
      in if dabs net < MIN_REBALANCE_SIZE_USDT then (Inr [], m)
         else
           (case rebalance_loop clk net (sort_key (\<lambda>(s, p). - dabs (market_value p)) (positions m)) net m [] of
              (Inl e, m1) \<Rightarrow> (Inl e, m1)
            | (Inr os, m1) \<Rightarrow> (Inr (sort_key (\<lambda>r. - priority r) os), m1)))"

section \<open>Execution\<close>

text \<open>
  The price of a fill as the client gives it: a decimal or an int, or a float or string with the decimal its text denotes. A decimal times
  the latter is a \<open>TypeError\<close>.
\<close>

datatype fill_price = PNum decimal | PText "decimal option"

datatype fill = Filled fill_price | NotFilled | Raises

definition price_text :: "fill_price \<Rightarrow> exn + decimal" where
  "price_text v = (case v of PNum d \<Rightarrow> Inr d | PText (Some d) \<Rightarrow> Inr d | PText None \<Rightarrow> Inl (OtherError ''InvalidOperation''))"

definition book_fill :: "RebalanceOrder \<Rightarrow> fill_price \<Rightarrow> Position \<Rightarrow> exn + Position" where
  "book_fill r v p =
     (case side r of
        Buy \<Rightarrow>
          (case v of
             PText _ \<Rightarrow> Inl (OtherError ''TypeError'')
           | PNum d \<Rightarrow>
               (let cost = dadd (cost_basis p) (dmul (o_quantity r) d); qty = dadd (quantity p) (o_quantity r)
                in Inr (p\<lparr>average_entry_price := (if 0 < qty then ddiv cost qty else average_entry_price p), quantity := qty\<rparr>)))
      | Sell \<Rightarrow> Inr (p\<lparr>quantity := dsub (quantity p) (o_quantity r)\<rparr>))"

text \<open>The quantity is booked before the price is read, so a price that is no number leaves it booked.\<close>

definition fill_position :: "RebalanceOrder \<Rightarrow> fill_price \<Rightarrow> manager \<Rightarrow> (exn + unit) \<times> manager" where
  "fill_position r v m =
     (case dict_get (positions m) (o_symbol r) of
        None \<Rightarrow> (Inr (), m)
      | Some p \<Rightarrow>
          (case book_fill r v p of
             Inl e \<Rightarrow> (Inl e, m)
           | Inr p1 \<Rightarrow>
               (case price_text v of
                  Inl e \<Rightarrow> (Inl e, m\<lparr>positions := dict_set (o_symbol r) p1 (positions m)\<rparr>)
                | Inr d \<Rightarrow> (Inr (), m\<lparr>positions := dict_set (o_symbol r) (position_price d p1) (positions m)\<rparr>))))"

fun execute_orders :: "(RebalanceOrder \<Rightarrow> fill) \<Rightarrow> RebalanceOrder list \<Rightarrow> manager \<Rightarrow> (exn + unit) \<times> manager" where
  "execute_orders place [] m = (Inr (), m)"
| "execute_orders place (r # rs) m =
     (let m1 = m\<lparr>pending_orders := dict_set (order_id r) r (pending_orders m)\<rparr>
      in case place r of
           Raises \<Rightarrow> (Inl (OtherError ''client''), m1)
         | NotFilled \<Rightarrow> execute_orders place rs (m1\<lparr>failed_rebalances := failed_rebalances m1 + 1\<rparr>)
         | Filled v \<Rightarrow>
             (case fill_position r v m1 of
                (Inl e, m2) \<Rightarrow> (Inl e, m2)
              | (Inr _, m2) \<Rightarrow>
                  execute_orders place rs (m2\<lparr>successful_rebalances := successful_rebalances m2 + 1,
                    pending_orders := dict_pop (order_id r) (pending_orders m2)\<rparr>)))"

definition execute_rebalance :: "clock \<Rightarrow> (RebalanceOrder \<Rightarrow> fill) \<Rightarrow> bool \<Rightarrow> manager \<Rightarrow> (exn + bool) \<times> manager" where
  "execute_rebalance clk place dry_run m =
     (case calculate_rebalance_orders clk m of
        (Inl e, m1) \<Rightarrow> (Inl e, m1)
      | (Inr os, m1) \<Rightarrow>
          if os = [] then (Inr True, m1)
          else
            (let m2 = m1\<lparr>total_rebalances := total_rebalances m1 + 1\<rparr>
             in if dry_run then (Inr True, m2)
                else
                  (case execute_orders place os m2 of
                     (Inl e, m3) \<Rightarrow> (Inr False, m3)
                   | (Inr _, m3) \<Rightarrow> (let ((ok, d), m4) = check_delta_neutrality m3 in (Inr ok, m4)))))"

section \<open>Reports\<close>

definition balance_of :: "manager \<Rightarrow> string \<Rightarrow> Position \<Rightarrow> InventoryBalance" where
  "balance_of m s p =
     (let target = (case dict_get (target_deltas m) s of None \<Rightarrow> 0 | Some t \<Rightarrow> t);
          dev = dsub (quantity p) target;
          pct = (if target \<noteq> 0 then ddiv dev (dabs target) else 0)
      in \<lparr>b_symbol = s, target_quantity = target, actual_quantity = quantity p, deviation = dev, deviation_pct = pct,
          rebalance_required = (REBALANCE_THRESHOLD_PCT < dabs pct)\<rparr>)"

definition get_inventory_balances :: "manager \<Rightarrow> InventoryBalance list" where
  "get_inventory_balances m = map (\<lambda>(s, p). balance_of m s p) (positions m)"

definition enforce_delta_neutrality :: "string \<Rightarrow> decimal \<Rightarrow> manager \<Rightarrow> bool" where
  "enforce_delta_neutrality s q m =
     (case dict_get (positions m) s of
        None \<Rightarrow> True
      | Some p \<Rightarrow> \<not> MAX_DELTA_DEVIATION_USDT < dabs (dadd (calculate_portfolio_delta m) (dmul q (current_price p))))"

record metrics =
  positions_count :: int
  portfolio_delta_usdt :: pyfloat
  g_total :: int
  g_successful :: int
  g_failed :: int
  rebalance_success_rate :: pyfloat
  delta_violations :: int
  g_pending :: int
  average_historical_delta :: pyfloat
  inventory_balances :: "(string \<times> pyfloat \<times> bool) list"

definition get_metrics :: "manager \<Rightarrow> metrics" where
  "get_metrics m =
     \<lparr>positions_count = int (length (positions m)), portfolio_delta_usdt = fl (calculate_portfolio_delta m), g_total = total_rebalances m,
      g_successful = successful_rebalances m, g_failed = failed_rebalances m,
      rebalance_success_rate = idiv (successful_rebalances m) (max 1 (total_rebalances m)), delta_violations = total_delta_violations m,
      g_pending = int (length (pending_orders m)),
      average_historical_delta =
        (if delta_history m = [] then 0
         else fdiv (foldl (\<lambda>a (t, d). fadd a (fl d)) 0 (delta_history m)) (of_nat (length (delta_history m)))),
      inventory_balances = map (\<lambda>b. (b_symbol b, fl (deviation_pct b), rebalance_required b)) (get_inventory_balances m)\<rparr>"


section \<open>Rebalancing orders\<close>

lemma is_decimal_abs: "is_decimal x \<Longrightarrow> is_decimal \<bar>x\<bar>"
  by (cases "0 \<le> x") (auto simp: is_decimal_def dc_minus)

lemma trade_size_bounds:
  assumes "trade_size limit net p = Some (t, dev)" "is_decimal (quantity p)" "0 \<le> limit" "0 \<le> current_price p"
  shows "0 < t \<and> t \<le> \<bar>quantity p\<bar>"
proof -
  let ?q = "\<bar>quantity p\<bar>"
  have q: "dabs (quantity p) = ?q" "dc ?q = ?q"
    using assms(2) dabs_decimal is_decimal_abs by (auto simp: is_decimal_def)
  have "dmul ?q (min x (1 / 2)) \<le> ?q" for x
    using dc_mono[of "?q * min x (1 / 2)" ?q] q(2) mult_left_mono[of "min x (1 / 2)" 1 ?q] by (simp add: dmul_def)
  moreover have "dsub ?q (ddiv limit (current_price p)) \<le> ?q"
    using dc_mono[of "?q - ddiv limit (current_price p)" ?q] q(2) assms(3,4) by (simp add: dsub_def ddiv_def)
  ultimately show ?thesis
    using assms(1) by (auto simp: trade_size_def q(1) Let_def split: if_splits)
qed

definition reducing :: "decimal \<Rightarrow> (string \<times> Position) set \<Rightarrow> RebalanceOrder \<Rightarrow> bool" where
  "reducing net ps r \<longleftrightarrow>
     (\<exists>p. (o_symbol r, p) \<in> ps \<and> o_symbol r \<noteq> ''USDT'' \<and> side_for net (quantity p) = Some (side r) \<and>
        0 \<le> o_quantity r \<and> o_quantity r \<le> \<bar>quantity p\<bar>)"

lemma rebalance_loop_reducing:
  assumes "rebalance_loop clk net ps remaining m os = (Inr os', m')" "\<forall>l \<in> set (dict_values (risk_limits m)). 0 \<le> l"
    "\<forall>(s, p) \<in> set ps. is_decimal (quantity p) \<and> 0 \<le> current_price p" "\<forall>r \<in> set os. reducing net S r" "set ps \<subseteq> S"
  shows "\<forall>r \<in> set os'. reducing net S r"
  using assms
proof (induction clk net ps remaining m os rule: rebalance_loop.induct)
  case (2 clk net s p ps remaining m os)
  let ?limit = "case dict_get (risk_limits m) s of None \<Rightarrow> 100000 | Some l \<Rightarrow> l"
  have limit: "0 \<le> ?limit"
  proof (cases "dict_get (risk_limits m) s")
    case (Some l)
    then have "l \<in> set (dict_values (risk_limits m))" by (rule dict_get_values)
    then show ?thesis using "2.prems"(2) Some by (simp only: option.case)
  qed simp
  show ?case
  proof (cases "s = ''USDT'' \<or> dabs remaining < MIN_REBALANCE_SIZE_USDT \<or> market_value p = 0 \<or> side_for net (quantity p) = None \<or>
      trade_size ?limit net p = None")
    case True
    then show ?thesis using "2.IH"(1-4) "2.prems" by (auto split: if_splits option.splits)
  next
    case False
    then obtain sd t dev where sd: "side_for net (quantity p) = Some sd" "trade_size ?limit net p = Some (t, dev)" by auto
    obtain i m1 where i: "generate_order_id clk m = (i, m1)" by fastforce
    have "\<exists>q. quantize_down (1 / 10000) t = Inr q"
      using "2.prems"(1) False sd i by (auto simp: Let_def split: sum.splits)
    then obtain q where q: "quantize_down (1 / 10000) t = Inr q" by blast
    let ?r = "\<lparr>order_id = i, o_symbol = s, side = sd, o_quantity = q, reason = ''delta_rebalance'',
      priority = \<lfloor>dmul (dabs dev) 100\<rfloor>, created_at = utc clk (order_counter m1)\<rparr>"
    have t: "0 < t \<and> t \<le> \<bar>quantity p\<bar>" using trade_size_bounds[OF sd(2)] limit "2.prems"(3) by auto
    have "0 \<le> q \<and> q \<le> t" using quantize_down_le[OF q] t by simp
    then have "reducing net S ?r" using sd(1) t "2.prems"(5) False by (auto simp: reducing_def)
    moreover have "risk_limits m1 = risk_limits m" using i by (auto simp: generate_order_id_def Let_def)
    ultimately show ?thesis
      using "2.IH"(5)[OF _ _ _ sd(1) sd(2) refl i[symmetric] refl q] "2.prems" False i sd q by (auto simp: Let_def)
  qed
qed simp

text \<open>C11: A rebalancing order never opens, flips or enlarges a position: it sells a long position when the portfolio is long or buys back a
  short one when it is not, and its quantity is between 0 and what the position holds; cash is left alone.\<close>

theorem orders_only_reduce:
  assumes "calculate_rebalance_orders clk m = (Inr os, m')" "\<forall>l \<in> set (dict_values (risk_limits m)). 0 \<le> l"
    "\<forall>(s, p) \<in> set (positions m). is_decimal (quantity p) \<and> 0 \<le> current_price p" "r \<in> set os"
  shows "\<exists>p. (o_symbol r, p) \<in> set (positions m) \<and> o_symbol r \<noteq> ''USDT'' \<and> 0 \<le> o_quantity r \<and> o_quantity r \<le> \<bar>quantity p\<bar> \<and>
    (if side r = Sell then 0 < quantity p \<and> 0 < calculate_portfolio_delta m else quantity p < 0 \<and> calculate_portfolio_delta m \<le> 0)"
proof -
  let ?net = "calculate_portfolio_delta m" and ?ps = "sort_key (\<lambda>(s, p). - dabs (market_value p)) (positions m)"
  have "reducing ?net (set (positions m)) r"
  proof (cases "dabs ?net < MIN_REBALANCE_SIZE_USDT")
    case True
    then show ?thesis using assms(1,4) by (simp add: calculate_rebalance_orders_def)
  next
    case False
    then obtain os0 where os0: "rebalance_loop clk ?net ?ps ?net m [] = (Inr os0, m')" "os = sort_key (\<lambda>r. - priority r) os0"
      using assms(1) by (auto simp: calculate_rebalance_orders_def Let_def split: prod.splits sum.splits)
    then show ?thesis using rebalance_loop_reducing[OF os0(1) assms(2), of "set (positions m)"] assms(3,4) by simp
  qed
  then show ?thesis by (auto simp: reducing_def side_for_def split: if_splits)
qed

text \<open>A short position within its risk limit is not bought back at all when the limit check, which adds the trade to the short
  instead of taking it off, finds the sum above the limit.\<close>

theorem short_within_limit_kept:
  assumes "quantity p < 0" "is_decimal (quantity p)" "0 < current_price p" "\<bar>quantity p\<bar> * current_price p \<le> limit"
    "limit < dmul (dabs (dsub (quantity p) (dmul (dabs (quantity p)) (min (ddiv (dabs net) (dabs (market_value p))) (1 / 2)))))
      (current_price p)"
  shows "trade_size limit net p = None"
proof -
  let ?q = "\<bar>quantity p\<bar>"
  have q: "dabs (quantity p) = ?q" "dc ?q = ?q"
    using assms(2) dabs_decimal is_decimal_abs by (auto simp: is_decimal_def)
  have "?q \<le> ddiv limit (current_price p)"
    using dc_mono[of ?q "limit / current_price p"] q(2) assms(3,4) by (simp add: ddiv_def pos_le_divide_eq)
  then have "dsub ?q (ddiv limit (current_price p)) \<le> 0"
    using dc_mono[of "?q - ddiv limit (current_price p)" 0] by (simp add: dsub_def)
  then show ?thesis using assms(5) by (simp add: trade_size_def Let_def q(1))
qed

text \<open>A portfolio of nothing but cash above the tolerance counts as violating delta neutrality, and no rebalancing order can ever restore it:
  cash is part of the delta and excluded from the orders.\<close>

theorem cash_is_never_neutral:
  assumes "positions m = [(''USDT'', p)]" "MAX_DELTA_DEVIATION_USDT < market_value p"
  shows "fst (fst (check_delta_neutrality m)) = False \<and> calculate_rebalance_orders clk m = (Inr [], m)"
proof -
  have d: "calculate_portfolio_delta m = market_value p"
    by (simp add: calculate_portfolio_delta_def assms(1) market_value_def dadd_def dmul_def)
  have "dabs (market_value p) = market_value p"
    using assms(2) by (simp add: dabs_def MAX_DELTA_DEVIATION_USDT_def market_value_def dmul_def)
  then show ?thesis
    using assms by (simp add: check_delta_neutrality_def calculate_rebalance_orders_def d Let_def)
qed

text \<open>When the client gives the price of a filled buy order as a string or float, the fill is lost: the multiplication raises TypeError,
  position and counters stay, the order stays pending, and the remaining orders are not sent. A sell order with the same reply is booked.\<close>

theorem text_price_loses_buy:
  assumes "side r = Buy" "place r = Filled (PText v)" "dict_get (positions m) (o_symbol r) = Some p"
  shows "\<exists>m1. execute_orders place (r # rs) m = (Inl (OtherError ''TypeError''), m1) \<and> positions m1 = positions m \<and>
    successful_rebalances m1 = successful_rebalances m \<and> failed_rebalances m1 = failed_rebalances m \<and>
    dict_get (pending_orders m1) (order_id r) = Some r"
  using assms by (simp add: fill_position_def book_fill_def Let_def dict_get_set)

section \<open>Runs\<close>

datatype inv_op =
    Initialize "string \<Rightarrow> stored" "string list"
  | UpdatePrice string decimal
  | Check
  | Calculate clock
  | Execute clock "RebalanceOrder \<Rightarrow> fill" bool

fun inv_step :: "inv_op \<Rightarrow> manager \<Rightarrow> manager" where
  "inv_step (Initialize get syms) m = snd (initialize_positions get syms m)"
| "inv_step (UpdatePrice s x) m = update_price s x m"
| "inv_step Check m = snd (check_delta_neutrality m)"
| "inv_step (Calculate clk) m = snd (calculate_rebalance_orders clk m)"
| "inv_step (Execute clk place dry) m = snd (execute_rebalance clk place dry m)"

text \<open>No operation sets a target, records a delta or changes a limit.\<close>

definition untouched :: "manager \<Rightarrow> bool" where
  "untouched m \<longleftrightarrow> (\<forall>t \<in> set (dict_values (target_deltas m)). t = 0) \<and> delta_history m = []"

definition same_targets :: "manager \<Rightarrow> manager \<Rightarrow> bool" where
  "same_targets m m' \<longleftrightarrow> target_deltas m' = target_deltas m \<and> delta_history m' = delta_history m"

lemma same_targets_untouched: "same_targets m m' \<Longrightarrow> untouched m \<Longrightarrow> untouched m'"
  by (simp add: same_targets_def untouched_def)

lemma init_loop_targets: "same_targets m (snd (init_loop get ss m))"
  by (induction ss arbitrary: m) (auto simp: same_targets_def split: stored.split option.split)

lemma rebalance_loop_targets: "same_targets m (snd (rebalance_loop clk net ps remaining m os))"
proof -
  have "target_deltas (snd (rebalance_loop clk net ps remaining m os)) = target_deltas m \<and>
      delta_history (snd (rebalance_loop clk net ps remaining m os)) = delta_history m"
    by (induction ps arbitrary: remaining m os) (auto simp: generate_order_id_def Let_def split: option.split sum.split)
  then show ?thesis by (simp add: same_targets_def)
qed

lemma calculate_targets: "same_targets m (snd (calculate_rebalance_orders clk m))"
  using rebalance_loop_targets[of m clk "calculate_portfolio_delta m" _ "calculate_portfolio_delta m" "[]"]
  by (auto simp: calculate_rebalance_orders_def same_targets_def Let_def split: prod.split sum.split) (metis snd_conv)+

lemma fill_position_targets: "same_targets m (snd (fill_position r v m))"
  by (auto simp: fill_position_def same_targets_def split: option.split sum.split)

lemma execute_orders_targets: "same_targets m (snd (execute_orders place os m))"
proof (induction os arbitrary: m)
  case (Cons r rs)
  show ?case
  proof (cases "place r")
    case (Filled v)
    let ?m1 = "m\<lparr>pending_orders := dict_set (order_id r) r (pending_orders m)\<rparr>"
    obtain x m2 where x: "fill_position r v ?m1 = (x, m2)" by fastforce
    then have "same_targets m m2" using fill_position_targets[of ?m1 r v] by (simp add: same_targets_def)
    then show ?thesis using Cons.IH[of "m2\<lparr>successful_rebalances := successful_rebalances m2 + 1,
        pending_orders := dict_pop (order_id r) (pending_orders m2)\<rparr>"] x Filled
      by (cases x) (auto simp: same_targets_def Let_def)
  next
    case NotFilled
    then show ?thesis using Cons.IH[of "m\<lparr>pending_orders := dict_set (order_id r) r (pending_orders m),
        failed_rebalances := failed_rebalances m + 1\<rparr>"] by (simp add: same_targets_def Let_def)
  next
    case Raises
    then show ?thesis by (simp add: same_targets_def Let_def)
  qed
qed (simp add: same_targets_def)

lemma execute_targets: "same_targets m (snd (execute_rebalance clk place dry m))"
proof -
  obtain x m1 where x: "calculate_rebalance_orders clk m = (x, m1)" by fastforce
  then have m1: "same_targets m m1" using calculate_targets[of m clk] by simp
  have "same_targets m1 (snd (execute_orders place os (m1\<lparr>total_rebalances := t\<rparr>)))" for os t
    using execute_orders_targets[of "m1\<lparr>total_rebalances := t\<rparr>" place os] by (simp add: same_targets_def)
  then show ?thesis
    using m1 by (auto simp: execute_rebalance_def x same_targets_def check_delta_neutrality_def Let_def split: sum.split prod.split)
      (metis snd_conv)+
qed

lemma inv_step_untouched: "untouched m \<Longrightarrow> untouched (inv_step x m)"
proof (rule same_targets_untouched)
  show "same_targets m (inv_step x m)"
    by (cases x) (simp_all add: init_loop_targets calculate_targets execute_targets initialize_positions_def,
      auto simp: same_targets_def update_price_def check_delta_neutrality_def Let_def split: option.split)
qed

interpretation inventory: op_machine inv_step untouched
  by unfold_locales (rule inv_step_untouched)

text \<open>Whatever happens to the portfolio, no balance report ever asks for rebalancing and the average historical delta is always 0: the
  targets stay 0, for which the deviation is defined as 0, and no delta is ever recorded.\<close>

theorem reports_never_ask:
  assumes "m = fold inv_step ops (manager_init syms limits)"
  shows "(\<forall>b \<in> set (get_inventory_balances m). \<not> rebalance_required b) \<and> average_historical_delta (get_metrics m) = 0"
proof -
  have "untouched m" unfolding assms by (rule inventory.run_inv) (simp add: untouched_def manager_init_def)
  then have "(\<forall>t. dict_get (target_deltas m) s = Some t \<longrightarrow> t = 0)" "delta_history m = []" for s
    by (auto simp: untouched_def dest: dict_get_values)
  then show ?thesis
    by (auto simp: get_inventory_balances_def balance_of_def get_metrics_def REBALANCE_THRESHOLD_PCT_def dabs_def Let_def split: option.splits)
qed

section \<open>Witnesses\<close>

definition demo_position :: "string \<Rightarrow> decimal \<Rightarrow> decimal \<Rightarrow> Position" where
  "demo_position s q x = \<lparr>symbol = s, quantity = q, average_entry_price = x, current_price = x, unrealized_pnl = 0\<rparr>"

definition demo_manager :: "(string \<times> Position) list \<Rightarrow> manager" where
  "demo_manager ps = (manager_init [''BTC'', ''USDT''] [(''BTC'', 2000)])\<lparr>positions := ps\<rparr>"

definition demo_clock :: clock where "demo_clock = \<lparr>tick = (\<lambda>_. 1), utc = (\<lambda>_. 0)\<rparr>"

definition demo_order :: RebalanceOrder where
  "demo_order = \<lparr>order_id = ''INV-1-000001'', o_symbol = ''BTC'', side = Sell, o_quantity = 5, reason = ''delta_rebalance'', priority = 100,
     created_at = 0\<rparr>"

definition demo_buy :: RebalanceOrder where "demo_buy = demo_order\<lparr>side := Buy\<rparr>"

lemma demo_ids: "int_str 1 = ''1''" "pad6 (Suc 0) = ''000001''"
  by code_simp+

lemma demo_orders:
  "fst (calculate_rebalance_orders demo_clock (demo_manager [(''BTC'', demo_position ''BTC'' 10 100)])) = Inr [demo_order]"
  by (simp add: calculate_rebalance_orders_def calculate_portfolio_delta_def demo_manager_def manager_init_def demo_position_def dadd_def dmul_def
    dabs_def MIN_REBALANCE_SIZE_USDT_def market_value_def side_for_def trade_size_def ddiv_def REBALANCE_THRESHOLD_PCT_def dsub_def
    quantize_down_def generate_order_id_def demo_clock_def demo_order_def demo_ids Let_def)

lemma orders_only_reduce_witness:
  "\<exists>p. (o_symbol demo_order, p) \<in> set (positions (demo_manager [(''BTC'', demo_position ''BTC'' 10 100)])) \<and> o_symbol demo_order \<noteq> ''USDT'' \<and>
    0 \<le> o_quantity demo_order \<and> o_quantity demo_order \<le> \<bar>quantity p\<bar> \<and>
    (if side demo_order = Sell then 0 < quantity p \<and> 0 < calculate_portfolio_delta (demo_manager [(''BTC'', demo_position ''BTC'' 10 100)])
     else quantity p < 0 \<and> calculate_portfolio_delta (demo_manager [(''BTC'', demo_position ''BTC'' 10 100)]) \<le> 0)"
proof (rule orders_only_reduce)
  show "calculate_rebalance_orders demo_clock (demo_manager [(''BTC'', demo_position ''BTC'' 10 100)]) =
      (Inr [demo_order], snd (calculate_rebalance_orders demo_clock (demo_manager [(''BTC'', demo_position ''BTC'' 10 100)])))"
    using demo_orders by (metis prod.collapse)
qed (simp_all add: demo_manager_def manager_init_def demo_position_def is_decimal_def)

lemma short_within_limit_kept_witness: "trade_size 1200 (- 1000) (demo_position ''BTC'' (- 10) 100) = None"
  by (rule short_within_limit_kept)
    (simp_all add: demo_position_def is_decimal_def dmul_def dabs_def dsub_def ddiv_def market_value_def dc_minus)

lemma cash_is_never_neutral_witness:
  "fst (fst (check_delta_neutrality (demo_manager [(''USDT'', demo_position ''USDT'' 5000 1)]))) = False \<and>
   calculate_rebalance_orders demo_clock (demo_manager [(''USDT'', demo_position ''USDT'' 5000 1)]) =
     (Inr [], demo_manager [(''USDT'', demo_position ''USDT'' 5000 1)])"
  by (rule cash_is_never_neutral[of _ "demo_position ''USDT'' 5000 1"])
    (simp_all add: demo_manager_def demo_position_def market_value_def dmul_def MAX_DELTA_DEVIATION_USDT_def)

lemma text_price_loses_buy_witness:
  "\<exists>m1. execute_orders (\<lambda>_. Filled (PText (Some 100))) [demo_buy] (demo_manager [(''BTC'', demo_position ''BTC'' (- 10) 100)]) =
      (Inl (OtherError ''TypeError''), m1) \<and> positions m1 = positions (demo_manager [(''BTC'', demo_position ''BTC'' (- 10) 100)]) \<and>
    successful_rebalances m1 = successful_rebalances (demo_manager [(''BTC'', demo_position ''BTC'' (- 10) 100)]) \<and>
    failed_rebalances m1 = failed_rebalances (demo_manager [(''BTC'', demo_position ''BTC'' (- 10) 100)]) \<and>
    dict_get (pending_orders m1) (order_id demo_buy) = Some demo_buy"
  by (rule text_price_loses_buy) (simp_all add: demo_manager_def demo_buy_def demo_order_def)

lemma reports_never_ask_witness:
  "(\<forall>b \<in> set (get_inventory_balances (fold inv_step [Initialize (\<lambda>_. Data (Some 1) (Some 2) (Some 3)) [''BTC'']] (manager_init [''BTC''] []))).
      \<not> rebalance_required b) \<and>
   average_historical_delta (get_metrics (fold inv_step [Initialize (\<lambda>_. Data (Some 1) (Some 2) (Some 3)) [''BTC'']] (manager_init [''BTC''] []))) = 0"
  by (rule reports_never_ask) (rule refl)

end
