(* ===== verification/LiquidationShield.thy ===== *)
theory LiquidationShield
  imports Prelude
begin

text \<open>
  \<open>margin/liquidation_shield.py\<close>: liquidation prices of margined positions, their risk levels, and the automatic reduction of positions at risk.

  The exchange client is a parameter, the reply to a request to reduce a position (None when no client is configured). \<open>us\<close> is the clock in
  microseconds. A sum of floats goes from left to right (CPython up to 3.11).
\<close>

section \<open>Positions\<close>

datatype PositionSide = LONG | SHORT
datatype MarginMode = ISOLATED | CROSS
datatype RiskLevel = SAFE | WARNING | CRITICAL | IMMEDIATE

fun side_value :: "PositionSide \<Rightarrow> string" where
  "side_value LONG = ''long''" | "side_value SHORT = ''short''"

record MarginPosition =
  symbol :: string
  side :: PositionSide
  size_of :: pyfloat
  entry_price :: pyfloat
  leverage :: pyfloat
  margin_mode :: MarginMode
  isolated_margin :: pyfloat
  unrealized_pnl :: pyfloat
  timestamp_us :: int

definition new_position :: "int \<Rightarrow> MarginPosition \<Rightarrow> MarginPosition" where
  "new_position us p = (if timestamp_us p = 0 then p\<lparr>timestamp_us := us\<rparr> else p)"

text \<open>A division by zero is an exception.\<close>

definition pdiv :: "pyfloat \<Rightarrow> pyfloat \<Rightarrow> exn + pyfloat" where
  "pdiv x y = (if y = 0 then Inl ZeroDivisionError else Inr (fdiv x y))"

definition notional_value :: "MarginPosition \<Rightarrow> pyfloat" where
  "notional_value p = fmul (size_of p) (entry_price p)"

definition initial_margin :: "MarginPosition \<Rightarrow> exn + pyfloat" where
  "initial_margin p = pdiv (notional_value p) (leverage p)"

definition maintenance_margin_rate :: "MarginPosition \<Rightarrow> pyfloat" where
  "maintenance_margin_rate p =
     (let base = delete_word ''USD'' (delete_word ''USDT'' (symbol p))
      in if base = ''BTC'' then fl (4 / 1000) else if base = ''ETH'' then fl (5 / 1000) else if base = ''SOL'' then fl (65 / 10000)
         else fl (1 / 100))"

definition maintenance_margin :: "MarginPosition \<Rightarrow> pyfloat" where
  "maintenance_margin p = fmul (notional_value p) (maintenance_margin_rate p)"

section \<open>Liquidation prices\<close>

definition calculate_long_liquidation :: "pyfloat \<Rightarrow> pyfloat \<Rightarrow> pyfloat \<Rightarrow> pyfloat \<Rightarrow> pyfloat \<Rightarrow> exn + pyfloat" where
  "calculate_long_liquidation e lev mmr im pnl =
     (if e \<le> 0 \<or> lev \<le> 0 then Inr 0
      else
        bind (pdiv 1 lev) (\<lambda>imr.
        let l0 = fmul e (fadd (fsub 1 imr) mmr) in
        bind (if 0 < im \<and> 0 < e then bind (pdiv im (fmul e lev)) (\<lambda>b. Inr (fsub l0 b)) else Inr l0) (\<lambda>l1.
        bind (if pnl < 0 then bind (pdiv \<bar>pnl\<bar> (fmul e lev)) (\<lambda>x. Inr (fmul l1 (fadd 1 x))) else Inr l1) (\<lambda>l2.
        bind (if mmr < 1 then pdiv l2 (fsub 1 mmr) else Inr l2) (\<lambda>l3. Inr (max 0 l3))))))"

definition calculate_short_liquidation :: "pyfloat \<Rightarrow> pyfloat \<Rightarrow> pyfloat \<Rightarrow> pyfloat \<Rightarrow> pyfloat \<Rightarrow> exn + pyfloat" where
  "calculate_short_liquidation e lev mmr im pnl =
     (if e \<le> 0 \<or> lev \<le> 0 then Inr 0
      else
        bind (pdiv 1 lev) (\<lambda>imr.
        let l0 = fmul e (fsub (fadd 1 imr) mmr) in
        bind (if 0 < im \<and> 0 < e then bind (pdiv im (fmul e lev)) (\<lambda>b. Inr (fadd l0 b)) else Inr l0) (\<lambda>l1.
        bind (if pnl < 0 then bind (pdiv \<bar>pnl\<bar> (fmul e lev)) (\<lambda>x. Inr (fmul l1 (fadd 1 x))) else Inr l1) (\<lambda>l2.
        bind (if mmr < 1 then pdiv l2 (fadd 1 mmr) else Inr l2) (\<lambda>l3. Inr (max 0 l3))))))"

definition liquidation_price_of :: "MarginPosition \<Rightarrow> exn + pyfloat" where
  "liquidation_price_of p =
     (if side p = LONG
      then calculate_long_liquidation (entry_price p) (leverage p) (maintenance_margin_rate p) (isolated_margin p) (unrealized_pnl p)
      else calculate_short_liquidation (entry_price p) (leverage p) (maintenance_margin_rate p) (isolated_margin p) (unrealized_pnl p))"

section \<open>The shield\<close>

record LiquidationRisk =
  r_symbol :: string
  current_price :: pyfloat
  liquidation_price :: pyfloat
  distance_to_liquidation :: pyfloat
  safety_threshold :: pyfloat
  risk_level :: RiskLevel
  recommended_action :: string
  adl_queue_position :: int
  r_time :: int

record shield =
  positions :: "(string, MarginPosition) dict"
  warning_threshold :: pyfloat
  critical_threshold :: pyfloat
  immediate_threshold :: pyfloat
  adl_queues :: "(string, int) dict"
  last_check_us :: int

definition shield_init :: "pyfloat \<Rightarrow> pyfloat \<Rightarrow> pyfloat \<Rightarrow> shield" where
  "shield_init warn crit imm =
     \<lparr>positions = [], warning_threshold = warn, critical_threshold = crit, immediate_threshold = imm, adl_queues = [], last_check_us = 0\<rparr>"

definition position_key :: "string \<Rightarrow> PositionSide \<Rightarrow> string" where
  "position_key sy sd = sy @ ''_'' @ side_value sd"

definition add_position :: "MarginPosition \<Rightarrow> shield \<Rightarrow> shield" where
  "add_position p s = s\<lparr>positions := dict_set (position_key (symbol p) (side p)) p (positions s)\<rparr>"

definition remove_position :: "string \<Rightarrow> PositionSide \<Rightarrow> shield \<Rightarrow> bool \<times> shield" where
  "remove_position sy sd s =
     (if dict_get (positions s) (position_key sy sd) = None then (False, s)
      else (True, s\<lparr>positions := dict_pop (position_key sy sd) (positions s)\<rparr>))"

definition update_position_pnl :: "string \<Rightarrow> PositionSide \<Rightarrow> pyfloat \<Rightarrow> shield \<Rightarrow> shield" where
  "update_position_pnl sy sd x s =
     (case dict_get (positions s) (position_key sy sd) of
        None \<Rightarrow> s | Some p \<Rightarrow> s\<lparr>positions := dict_set (position_key sy sd) (p\<lparr>unrealized_pnl := x\<rparr>) (positions s)\<rparr>)"

definition update_adl_queue :: "string \<Rightarrow> int \<Rightarrow> shield \<Rightarrow> shield" where
  "update_adl_queue sy q s = s\<lparr>adl_queues := dict_set sy (min 5 (max 1 q)) (adl_queues s)\<rparr>"

definition distance_of :: "PositionSide \<Rightarrow> pyfloat \<Rightarrow> pyfloat \<Rightarrow> pyfloat" where
  "distance_of sd liq x =
     (if sd = LONG then (if 0 < x then fdiv (fsub x liq) x else 0) else (if 0 < x then fdiv (fsub liq x) x else 0))"

definition level_of :: "shield \<Rightarrow> pyfloat \<Rightarrow> RiskLevel" where
  "level_of s d =
     (if d \<le> immediate_threshold s then IMMEDIATE else if d \<le> critical_threshold s then CRITICAL
      else if d \<le> warning_threshold s then WARNING else SAFE)"

fun action_of :: "RiskLevel \<Rightarrow> string" where
  "action_of IMMEDIATE = ''IMMEDIATE DELEVERAGE OR CLOSE POSITION''"
| "action_of CRITICAL = ''Reduce leverage by 50% immediately''"
| "action_of WARNING = ''Consider reducing leverage or adding margin''"
| "action_of SAFE = ''No action required''"

definition assess_risk :: "int \<Rightarrow> MarginPosition \<Rightarrow> pyfloat \<Rightarrow> shield \<Rightarrow> exn + LiquidationRisk" where
  "assess_risk us p x s =
     bind (liquidation_price_of p) (\<lambda>liq.
       let d = distance_of (side p) liq x; lv = level_of s d
       in Inr \<lparr>r_symbol = symbol p, current_price = x, liquidation_price = liq, distance_to_liquidation = d,
               safety_threshold = warning_threshold s, risk_level = lv, recommended_action = action_of lv,
               adl_queue_position = (case dict_get (adl_queues s) (symbol p) of None \<Rightarrow> 3 | Some q \<Rightarrow> q), r_time = us\<rparr>)"

fun check_loop :: "int \<Rightarrow> (string, pyfloat) dict \<Rightarrow> shield \<Rightarrow> MarginPosition list \<Rightarrow> exn + LiquidationRisk list" where
  "check_loop us prices s [] = Inr []"
| "check_loop us prices s (p # ps) =
     (case dict_get prices (symbol p) of
        None \<Rightarrow> check_loop us prices s ps
      | Some x \<Rightarrow> bind (assess_risk us p x s) (\<lambda>r. bind (check_loop us prices s ps) (\<lambda>rs. Inr (r # rs))))"

definition check_all_positions :: "int \<Rightarrow> (string, pyfloat) dict \<Rightarrow> shield \<Rightarrow> (exn + LiquidationRisk list) \<times> shield" where
  "check_all_positions us prices s =
     (case check_loop us prices s (dict_values (positions s)) of
        Inl e \<Rightarrow> (Inl e, s) | Inr rs \<Rightarrow> (Inr rs, s\<lparr>last_check_us := us\<rparr>))"

definition urgent :: "LiquidationRisk \<Rightarrow> bool" where
  "urgent r \<longleftrightarrow> risk_level r = IMMEDIATE \<or> risk_level r = CRITICAL"

definition get_immediate_actions_needed :: "int \<Rightarrow> (string, pyfloat) dict \<Rightarrow> shield \<Rightarrow> (exn + LiquidationRisk list) \<times> shield" where
  "get_immediate_actions_needed us prices s =
     (let (r, s1) = check_all_positions us prices s in (bind r (\<lambda>rs. Inr (filter urgent rs)), s1))"

text \<open>The last part of a symbol with an underscore, ''long'' without one.\<close>

definition get_side_from_symbol :: "string \<Rightarrow> string" where
  "get_side_from_symbol sy =
     (if CHR ''_'' \<in> set sy then rev (takeWhile (\<lambda>c. c \<noteq> CHR ''_'') (rev sy)) else ''long'')"

datatype reply = Success | Refused | Raises

text \<open>The result and the request that was sent: symbol and quantity. The state of the shield does not change.\<close>

definition execute_automatic_deleverage ::
    "(string \<Rightarrow> pyfloat \<Rightarrow> reply) option \<Rightarrow> LiquidationRisk \<Rightarrow> pyfloat \<Rightarrow> shield \<Rightarrow> bool \<times> (string \<times> pyfloat) option" where
  "execute_automatic_deleverage client r factor s =
     (if \<not> urgent r then (True, None)
      else
        (case dict_get (positions s) (r_symbol r @ ''_'' @ get_side_from_symbol (r_symbol r)) of
           None \<Rightarrow> (False, None)
         | Some p \<Rightarrow>
             (let q = fmul (size_of p) factor
              in case client of
                   None \<Rightarrow> (True, None)
                 | Some ask \<Rightarrow> (ask (r_symbol r) q = Success, Some (r_symbol r, q)))))"

record risk_summary =
  total_positions :: int
  worst_risk_symbol :: string
  worst_distance :: pyfloat
  average_distance :: pyfloat
  critical_positions :: int
  summary_time :: int

text \<open>\<open>min\<close> with a key keeps the first of equals.\<close>

definition worst_of :: "LiquidationRisk list \<Rightarrow> LiquidationRisk" where
  "worst_of rs = foldl (\<lambda>w r. if distance_to_liquidation r < distance_to_liquidation w then r else w) (hd rs) (tl rs)"

text \<open>None is the summary of a portfolio without priced positions.\<close>

definition get_portfolio_risk_summary :: "int \<Rightarrow> (string, pyfloat) dict \<Rightarrow> shield \<Rightarrow> (exn + risk_summary option) \<times> shield" where
  "get_portfolio_risk_summary us prices s =
     (let (res, s1) = check_all_positions us prices s
      in (bind res (\<lambda>rs.
            if rs = [] then Inr None
            else Inr (Some \<lparr>total_positions = int (length rs), worst_risk_symbol = r_symbol (worst_of rs),
                   worst_distance = distance_to_liquidation (worst_of rs),
                   average_distance = fdiv (foldl (\<lambda>a r. fadd a (distance_to_liquidation r)) 0 rs) (of_nat (length rs)),
                   critical_positions = int (length (filter urgent rs)), summary_time = us\<rparr>)), s1))"


section \<open>Deleveraging\<close>

text \<open>A short position is never reduced: the side is read off the symbol, which carries none, so the shield always looks for the long
  position of that symbol. Without one it gives up without a request; with one it reduces the long position, whichever side was at risk.\<close>

theorem short_never_deleveraged:
  assumes "urgent r" "CHR ''_'' \<notin> set (r_symbol r)"
  shows "(case dict_get (positions s) (position_key (r_symbol r) LONG) of
      None \<Rightarrow> execute_automatic_deleverage client r factor s = (False, None)
    | Some p \<Rightarrow> (\<forall>ask. client = Some ask \<longrightarrow>
        snd (execute_automatic_deleverage client r factor s) = Some (r_symbol r, fmul (size_of p) factor)))"
  using assms by (simp add: execute_automatic_deleverage_def get_side_from_symbol_def position_key_def Let_def split: option.split)

section \<open>Losses of short positions\<close>

lemma maintenance_margin_rate_bounds: "0 \<le> maintenance_margin_rate p" "maintenance_margin_rate p \<le> 1"
proof -
  have "fl x \<le> 1" if "x \<le> 1" for x using fl_mono[OF that] by simp
  then show "maintenance_margin_rate p \<le> 1" "0 \<le> maintenance_margin_rate p" by (simp_all add: maintenance_margin_rate_def Let_def)
qed

lemma fmul_mono: "0 \<le> a \<Longrightarrow> 0 \<le> x \<Longrightarrow> a \<le> b \<Longrightarrow> x \<le> y \<Longrightarrow> fmul a x \<le> fmul b y"
  unfolding fmul_def by (intro fl_mono mult_mono) auto

lemma fdiv_mono: "x \<le> y \<Longrightarrow> 0 \<le> c \<Longrightarrow> fdiv x c \<le> fdiv y c"
  unfolding fdiv_def by (intro fl_mono divide_right_mono)

lemma one_plus_rate: "0 \<le> mmr \<Longrightarrow> 1 \<le> fadd 1 mmr"
  using fl_mono[of 1 "1 + mmr"] by (simp add: fadd_def)

lemma short_liquidation_returns:
  "fmul e lev \<noteq> 0 \<Longrightarrow> 0 \<le> mmr \<Longrightarrow> \<exists>l. calculate_short_liquidation e lev mmr im pnl = Inr l"
  using one_plus_rate[of mmr] by (auto simp: calculate_short_liquidation_def pdiv_def Let_def)

lemma short_liquidation_mono:
  assumes "calculate_short_liquidation e lev mmr im pnl = Inr l" "calculate_short_liquidation e lev mmr im pnl' = Inr l'"
    "pnl' \<le> pnl" "pnl < 0" "0 \<le> mmr" "mmr \<le> 1"
  shows "l \<le> l'"
proof (cases "e \<le> 0 \<or> lev \<le> 0")
  case True
  then show ?thesis using assms(1,2) by (simp add: calculate_short_liquidation_def)
next
  case False
  then have pos: "0 < e" "0 < lev" by auto
  define b where "b = fmul e lev"
  define l0 where "l0 = fmul e (fsub (fadd 1 (fdiv 1 lev)) mmr)"
  define l1 where "l1 = (if 0 < im \<and> 0 < e then fadd l0 (fdiv im b) else l0)"
  have b0: "0 \<le> b" using pos by (simp add: b_def fmul_nonneg)
  have "fl 1 \<le> fadd 1 (fdiv 1 lev)" unfolding fadd_def using pos by (intro fl_mono) (simp add: fdiv_def)
  then have "mmr \<le> fadd 1 (fdiv 1 lev)" using assms(6) by simp
  then have l0: "0 \<le> l0" unfolding l0_def using pos by (intro fmul_nonneg fsub_nonneg) auto
  have l1: "0 \<le> l1" unfolding l1_def using l0 b0 by (auto intro!: fadd_nonneg simp: fdiv_def)
  have bnz: "b \<noteq> 0" using assms(1,4) False by (auto simp: calculate_short_liquidation_def pdiv_def b_def Let_def split: if_splits)
  define up where "up x = fmul l1 (fadd 1 (fdiv \<bar>x\<bar> b))" for x
  have val: "calculate_short_liquidation e lev mmr im x = Inr (max 0 (if mmr < 1 then fdiv (up x) (fadd 1 mmr) else up x))"
    if "x < 0" for x
  proof -
    have "fadd 1 mmr \<noteq> 0" using one_plus_rate[OF assms(5)] by auto
    then show ?thesis
      using that False bnz by (simp add: calculate_short_liquidation_def pdiv_def up_def l1_def l0_def b_def)
  qed
  have "fadd 1 (fdiv \<bar>pnl\<bar> b) \<le> fadd 1 (fdiv \<bar>pnl'\<bar> b)"
    using assms(3,4) b0 by (intro fadd_mono fdiv_mono) auto
  then have "up pnl \<le> up pnl'"
    unfolding up_def using l1 by (intro fmul_mono) (auto intro!: fadd_nonneg simp: fdiv_def b0)
  moreover have "0 \<le> fadd 1 mmr" using assms(5) by (simp add: fadd_nonneg)
  ultimately have "max 0 (if mmr < 1 then fdiv (up pnl) (fadd 1 mmr) else up pnl) \<le>
      max 0 (if mmr < 1 then fdiv (up pnl') (fadd 1 mmr) else up pnl')"
    using fdiv_mono[of "up pnl" "up pnl'" "fadd 1 mmr"] by auto
  moreover have "l = max 0 (if mmr < 1 then fdiv (up pnl) (fadd 1 mmr) else up pnl)"
    "l' = max 0 (if mmr < 1 then fdiv (up pnl') (fadd 1 mmr) else up pnl')"
    using assms(1-4) val[of pnl] val[of pnl'] by auto
  ultimately show ?thesis by simp
qed

text \<open>The more a short position loses, the safer the shield takes it to be: at the same price a larger loss gives a liquidation price at
  least as far away, a distance at least as large, and never a more urgent level.\<close>

theorem losing_short_looks_safer:
  assumes "side p = SHORT" "x \<le> unrealized_pnl p" "unrealized_pnl p < 0" "0 < price"
    "assess_risk us p price s = Inr r" "assess_risk us (p\<lparr>unrealized_pnl := x\<rparr>) price s = Inr r'"
  shows "liquidation_price r \<le> liquidation_price r' \<and> distance_to_liquidation r \<le> distance_to_liquidation r' \<and> (urgent r' \<longrightarrow> urgent r)"
proof -
  have mm: "maintenance_margin_rate (p\<lparr>unrealized_pnl := x\<rparr>) = maintenance_margin_rate p" by (simp add: maintenance_margin_rate_def)
  obtain l l' where l: "calculate_short_liquidation (entry_price p) (leverage p) (maintenance_margin_rate p) (isolated_margin p)
      (unrealized_pnl p) = Inr l" "liquidation_price r = l" "distance_to_liquidation r = distance_of SHORT l price"
    "calculate_short_liquidation (entry_price p) (leverage p) (maintenance_margin_rate p) (isolated_margin p) x = Inr l'"
    "liquidation_price r' = l'" "distance_to_liquidation r' = distance_of SHORT l' price"
    "risk_level r' = level_of s (distance_of SHORT l' price)" "risk_level r = level_of s (distance_of SHORT l price)"
    using assms(1,5,6) by (auto simp: assess_risk_def liquidation_price_of_def mm Let_def elim!: bind_InrE)
  have le: "l \<le> l'"
    using short_liquidation_mono[OF l(1) l(4)] assms(2,3) maintenance_margin_rate_bounds by blast
  then have d: "distance_of SHORT l price \<le> distance_of SHORT l' price"
    using assms(4) unfolding distance_of_def fsub_def by (auto intro!: fdiv_mono fl_mono)
  show ?thesis
    using le d by (auto simp: l urgent_def level_of_def split: if_splits)
qed

section \<open>Assessments\<close>

lemma check_loop_map:
  assumes "check_loop us prices s ps = Inr rs"
  shows "map Inr rs = map (\<lambda>p. assess_risk us p (the (dict_get prices (symbol p))) s) (filter (\<lambda>p. dict_get prices (symbol p) \<noteq> None) ps)"
  using assms by (induction ps arbitrary: rs) (auto elim!: bind_InrE split: option.splits)

text \<open>A check assesses every position whose symbol has a price, in the order in which the positions were added, and skips exactly the
  others.\<close>

theorem every_priced_position_assessed:
  assumes "check_all_positions us prices s = (Inr rs, s')"
  shows "map Inr rs = map (\<lambda>p. assess_risk us p (the (dict_get prices (symbol p))) s)
      (filter (\<lambda>p. dict_get prices (symbol p) \<noteq> None) (dict_values (positions s))) \<and> positions s' = positions s"
  using assms check_loop_map[of us prices s "dict_values (positions s)"] by (auto simp: check_all_positions_def split: sum.splits)

lemma worst_of_least:
  "foldl (\<lambda>w r. if distance_to_liquidation r < distance_to_liquidation w then r else w) w rs \<in> insert w (set rs) \<and>
   (\<forall>r \<in> insert w (set rs). distance_to_liquidation (foldl (\<lambda>w r. if distance_to_liquidation r < distance_to_liquidation w then r else w) w rs)
      \<le> distance_to_liquidation r)"
proof (induction rs arbitrary: w)
  case (Cons r rs)
  show ?case using Cons.IH[of r] Cons.IH[of w] by (cases "distance_to_liquidation r < distance_to_liquidation w") force+
qed simp

text \<open>The summary of a portfolio agrees with the single assessments: it counts them, names one of the positions closest to liquidation with
  its distance, and counts as critical exactly the positions the shield would act on.\<close>

theorem summary_matches_assessments:
  assumes "get_portfolio_risk_summary us prices s = (Inr (Some m), s')" "check_all_positions us prices s = (Inr rs, s'')"
  shows "total_positions m = int (length rs) \<and>
    (\<exists>r \<in> set rs. worst_risk_symbol m = r_symbol r \<and> worst_distance m = distance_to_liquidation r) \<and>
    (\<forall>r \<in> set rs. worst_distance m \<le> distance_to_liquidation r) \<and>
    (\<exists>us'. fst (get_immediate_actions_needed us prices s) = Inr us' \<and> critical_positions m = int (length us'))"
proof -
  have ne: "rs \<noteq> []" and m: "total_positions m = int (length rs)" "worst_risk_symbol m = r_symbol (worst_of rs)"
      "worst_distance m = distance_to_liquidation (worst_of rs)" "critical_positions m = int (length (filter urgent rs))"
    using assms by (auto simp: get_portfolio_risk_summary_def split: if_splits)
  have w: "worst_of rs \<in> set rs" "\<forall>r \<in> set rs. distance_to_liquidation (worst_of rs) \<le> distance_to_liquidation r"
    using worst_of_least[of "hd rs" "tl rs"] ne by (cases rs; simp add: worst_of_def)+
  have "fst (get_immediate_actions_needed us prices s) = Inr (filter urgent rs)"
    using assms(2) by (simp add: get_immediate_actions_needed_def)
  then show ?thesis using w m by auto
qed

section \<open>Witnesses\<close>

definition demo_short :: MarginPosition where
  "demo_short = \<lparr>symbol = ''XUSDT'', side = SHORT, size_of = 2, entry_price = 128, leverage = 4, margin_mode = CROSS, isolated_margin = 0,
     unrealized_pnl = - 8, timestamp_us = 1\<rparr>"

definition demo_shield :: shield where
  "demo_shield = add_position demo_short (shield_init (fl (1 / 10)) (fl (1 / 20)) (fl (1 / 50)))"

definition demo_risk :: LiquidationRisk where
  "demo_risk = \<lparr>r_symbol = ''XUSDT'', current_price = 160, liquidation_price = 161, distance_to_liquidation = 0, safety_threshold = 0,
     risk_level = IMMEDIATE, recommended_action = action_of IMMEDIATE, adl_queue_position = 3, r_time = 1\<rparr>"

lemma demo_shield_positions: "positions demo_shield = [(''XUSDT_short'', demo_short)]"
  by (simp add: demo_shield_def add_position_def shield_init_def position_key_def demo_short_def)

lemma short_never_deleveraged_witness:
  "execute_automatic_deleverage (Some (\<lambda>_ _. Success)) demo_risk (1 / 2) demo_shield = (False, None)"
  using short_never_deleveraged[where r = demo_risk and s = demo_shield and client = "Some (\<lambda>_ _. Success)" and factor = "1 / 2"]
  by (simp add: demo_risk_def urgent_def demo_shield_positions position_key_def)

lemma demo_assessed:
  assumes "entry_price p = 128" "leverage p = 4" "side p = SHORT"
  shows "\<exists>r. assess_risk us p x s = Inr r"
proof -
  obtain l where "liquidation_price_of p = Inr l"
    using short_liquidation_returns[of 128 4 "maintenance_margin_rate p"] maintenance_margin_rate_bounds[of p] assms
    by (auto simp: liquidation_price_of_def fmul_def)
  then show ?thesis by (simp add: assess_risk_def Let_def)
qed

lemma demo_short_assessed:
  "\<exists>r. assess_risk us demo_short x s = Inr r" "\<exists>r. assess_risk us (demo_short\<lparr>unrealized_pnl := y\<rparr>) x s = Inr r"
  by (rule demo_assessed; simp add: demo_short_def)+

lemma losing_short_looks_safer_witness:
  "\<exists>r r'. assess_risk 1 demo_short 130 demo_shield = Inr r \<and> assess_risk 1 (demo_short\<lparr>unrealized_pnl := - 64\<rparr>) 130 demo_shield = Inr r' \<and>
    liquidation_price r \<le> liquidation_price r' \<and> distance_to_liquidation r \<le> distance_to_liquidation r' \<and> (urgent r' \<longrightarrow> urgent r)"
proof -
  obtain r r' where r: "assess_risk 1 demo_short 130 demo_shield = Inr r"
      "assess_risk 1 (demo_short\<lparr>unrealized_pnl := - 64\<rparr>) 130 demo_shield = Inr r'"
    using demo_short_assessed by blast
  show ?thesis
    using losing_short_looks_safer[OF _ _ _ _ r] r by (auto simp: demo_short_def)
qed

lemma demo_symbol: "symbol demo_short = ''XUSDT''"
  by (simp add: demo_short_def)

lemma demo_checked: "\<exists>r. check_all_positions 1 [(''XUSDT'', 130)] demo_shield = (Inr [r], demo_shield\<lparr>last_check_us := 1\<rparr>)"
proof -
  obtain r where "assess_risk 1 demo_short 130 demo_shield = Inr r"
    using demo_short_assessed by blast
  then have "check_all_positions 1 [(''XUSDT'', 130)] demo_shield = (Inr [r], demo_shield\<lparr>last_check_us := 1\<rparr>)"
    by (simp add: check_all_positions_def demo_shield_positions demo_symbol)
  then show ?thesis by blast
qed

lemma every_priced_position_assessed_witness:
  "\<exists>rs s'. check_all_positions 1 [(''XUSDT'', 130)] demo_shield = (Inr rs, s') \<and>
    map Inr rs = map (\<lambda>p. assess_risk 1 p (the (dict_get [(''XUSDT'', 130)] (symbol p))) demo_shield)
      (filter (\<lambda>p. dict_get [(''XUSDT'', 130 :: pyfloat)] (symbol p) \<noteq> None) (dict_values (positions demo_shield))) \<and>
    positions s' = positions demo_shield"
  using demo_checked every_priced_position_assessed by blast

lemma summary_matches_assessments_witness:
  "\<exists>m s' rs s''. get_portfolio_risk_summary 1 [(''XUSDT'', 130)] demo_shield = (Inr (Some m), s') \<and>
    check_all_positions 1 [(''XUSDT'', 130)] demo_shield = (Inr rs, s'') \<and> total_positions m = int (length rs) \<and>
    (\<forall>r \<in> set rs. worst_distance m \<le> distance_to_liquidation r)"
proof -
  obtain r where r: "check_all_positions 1 [(''XUSDT'', 130)] demo_shield = (Inr [r], demo_shield\<lparr>last_check_us := 1\<rparr>)"
    using demo_checked by blast
  then obtain m s' where m: "get_portfolio_risk_summary 1 [(''XUSDT'', 130)] demo_shield = (Inr (Some m), s')"
    by (simp add: get_portfolio_risk_summary_def)
  show ?thesis using summary_matches_assessments[OF m r] m r by blast
qed

end
