(* ===== verification/CrossMargin.thy ===== *)
theory CrossMargin
  imports Prelude
begin

text \<open>
  \<open>arbitrage/cross_margin_router.py\<close>: margin accounts, the allocation of capital to them, and the transfers that bring it about.

  The exchange client is a parameter. \<open>syms\<close> lists the frozenset of supported symbols in the order of its iteration. \<open>read_repr\<close> is the decimal
  that the shortest text of a float denotes (\<open>Decimal(str(x))\<close>).
\<close>

section \<open>Accounts\<close>

datatype MarginType = ISOLATED | CROSS | PORTFOLIO

record MarginAccount =
  account_id :: string
  symbol :: string
  margin_type :: MarginType
  balance :: decimal
  locked :: decimal
  unrealized_pnl :: decimal
  maintenance_margin :: decimal
  initial_margin_required :: decimal
  leverage :: int
  last_update :: pyfloat

definition equity :: "MarginAccount \<Rightarrow> decimal" where
  "equity a = dadd (dadd (balance a) (locked a)) (unrealized_pnl a)"

definition available_for_trading :: "MarginAccount \<Rightarrow> decimal" where
  "available_for_trading a = max 0 (dsub (balance a) (maintenance_margin a))"

text \<open>\<open>quantize\<close> rounds to the nearest, ties to even; more than 28 digits are an \<open>InvalidOperation\<close>.\<close>

definition quantize_even :: "decimal \<Rightarrow> decimal \<Rightarrow> exn + decimal" where
  "quantize_even p x =
     (let n = round_half_even (x / p) in if \<bar>n\<bar> < 10 ^ 28 then Inr (of_int n * p) else Inl (OtherError ''InvalidOperation''))"

definition margin_ratio :: "MarginAccount \<Rightarrow> exn + decimal" where
  "margin_ratio a =
     (if equity a = 0 then Inr 0 else quantize_even (1 / 10000) (ddiv (initial_margin_required a) (equity a)))"

record CapitalAllocation =
  allocation_id :: string
  timestamp :: pyfloat
  allocations :: "(string, decimal) dict"
  a_total :: decimal
  efficiency_score :: pyfloat
  expected_arb_capacity :: decimal

record router =
  total_capital :: decimal
  accounts :: "(string, MarginAccount) dict"
  allocation_history :: "CapitalAllocation list"
  reallocation_count :: int
  total_efficiency_gain :: decimal

definition SUPPORTED_SYMBOLS :: "string set" where "SUPPORTED_SYMBOLS = {''BTC'', ''ETH'', ''SOL''}"
definition MIN_BUFFER_PERCENT :: decimal where "MIN_BUFFER_PERCENT = 1 / 10"

definition router_init :: "decimal \<Rightarrow> router" where
  "router_init c = \<lparr>total_capital = c, accounts = [], allocation_history = [], reallocation_count = 0, total_efficiency_gain = 0\<rparr>"

text \<open>What the client knows of an account: nothing, five numbers (None when a text is no number) and the leverage, or an exception.\<close>

datatype account_data =
    NoData
  | Data "decimal option" "decimal option" "decimal option" "decimal option" "decimal option" int
  | Fails

fun init_loop :: "(string \<Rightarrow> account_data) \<Rightarrow> (string \<Rightarrow> pyfloat) \<Rightarrow> string list \<Rightarrow> router \<Rightarrow> bool \<times> router" where
  "init_loop get utc [] r = (True, r)"
| "init_loop get utc (s # ss) r =
     (case get s of
        NoData \<Rightarrow> init_loop get utc ss r
      | Data (Some b) (Some l) (Some u) (Some mm) (Some im) lev \<Rightarrow>
          init_loop get utc ss (r\<lparr>accounts := dict_set s
            \<lparr>account_id = ''MARGIN-'' @ s, symbol = s, margin_type = ISOLATED, balance = b, locked = l, unrealized_pnl = u,
             maintenance_margin = mm, initial_margin_required = im, leverage = lev, last_update = utc s\<rparr> (accounts r)\<rparr>)
      | _ \<Rightarrow> (False, r))"

definition initialize_accounts :: "(string \<Rightarrow> account_data) \<Rightarrow> (string \<Rightarrow> pyfloat) \<Rightarrow> string list \<Rightarrow> router \<Rightarrow> bool \<times> router" where
  "initialize_accounts get utc syms r = init_loop get utc syms r"

section \<open>Allocation\<close>

definition hedged :: "MarginAccount \<Rightarrow> MarginAccount \<Rightarrow> bool" where
  "hedged a b \<longleftrightarrow>
     dabs (dadd (unrealized_pnl a) (unrealized_pnl b)) < max (dabs (unrealized_pnl a)) (dabs (unrealized_pnl b))"

text \<open>Every pair of accounts once, in the order of the accounts.\<close>

fun hedged_pairs :: "(string \<times> MarginAccount) list \<Rightarrow> (string \<times> string) list" where
  "hedged_pairs [] = []"
| "hedged_pairs ((s, a) # as) =
     map (\<lambda>(t, b). (s, t)) (filter (\<lambda>(t, b). s \<noteq> t \<and> hedged a b) as) @ hedged_pairs as"

definition identify_hedged_positions :: "router \<Rightarrow> (string \<times> string) list" where
  "identify_hedged_positions r = hedged_pairs (accounts r)"

definition calculate_margin_savings :: "(string \<times> string) list \<Rightarrow> router \<Rightarrow> decimal" where
  "calculate_margin_savings ps r =
     foldl (\<lambda>tot (s, t).
       case (dict_get (accounts r) s, dict_get (accounts r) t) of
         (Some a, Some b) \<Rightarrow> dadd tot (dmul (dadd (initial_margin_required a) (initial_margin_required b)) (1 / 2))
       | _ \<Rightarrow> tot) 0 ps"

definition base_score :: "string \<Rightarrow> decimal" where
  "base_score s = (if s = ''ETH'' then 6 / 5 else if s = ''SOL'' then 3 / 2 else 1)"

definition calculate_opportunity_scores :: "string list \<Rightarrow> (string, decimal) dict" where
  "calculate_opportunity_scores syms = map (\<lambda>s. (s, base_score s)) syms"

definition min_required :: "MarginAccount \<Rightarrow> decimal" where
  "min_required a = dmul (maintenance_margin a) (dadd 1 MIN_BUFFER_PERCENT)"

text \<open>The first pass gives each account its minimum; the second distributes what is left by score.\<close>

definition first_pass :: "router \<Rightarrow> (string, decimal) dict \<times> decimal" where
  "first_pass r =
     foldl (\<lambda>(al, rest) (s, a). (dict_set (account_id a) (min_required a) al, dsub rest (min_required a))) ([], total_capital r) (accounts r)"

definition second_pass :: "string list \<Rightarrow> router \<Rightarrow> decimal \<Rightarrow> (string, decimal) dict \<Rightarrow> (string, decimal) dict" where
  "second_pass syms r rest al =
     (let scores = calculate_opportunity_scores syms; tot = foldl dadd 0 (dict_values scores)
      in if 0 < tot \<and> 0 < rest
         then foldl (\<lambda>al (s, sc).
                case dict_get (accounts r) s of
                  None \<Rightarrow> al
                | Some a \<Rightarrow>
                    dict_set (account_id a) (dadd (case dict_get al (account_id a) of None \<Rightarrow> 0 | Some x \<Rightarrow> x) (dmul (ddiv sc tot) rest)) al) al scores
         else al)"

definition calculate_optimal_allocation :: "int \<Rightarrow> pyfloat \<Rightarrow> string list \<Rightarrow> router \<Rightarrow> CapitalAllocation \<times> router" where
  "calculate_optimal_allocation ns utc syms r =
     (let savings = calculate_margin_savings (identify_hedged_positions r) r;
          (al, rest) = first_pass r;
          base = foldl (\<lambda>t (s, a). dadd t (initial_margin_required a)) 0 (accounts r);
          c = \<lparr>allocation_id = ''ALLOC-'' @ int_str ns, timestamp = utc, allocations = second_pass syms r rest al, a_total = total_capital r,
               efficiency_score = (if 0 < base then fl (ddiv savings base) else 0), expected_arb_capacity = dmul rest (4 / 5)\<rparr>
      in (c, r\<lparr>allocation_history := slice_from (- 100) (allocation_history r @ [c])\<rparr>))"

section \<open>Transfers\<close>

datatype transfer = ToMargin string decimal | FromMargin string decimal

text \<open>The transfers asked for, in order, up to the one the client raises on.\<close>

fun transfers :: "(transfer \<Rightarrow> bool) \<Rightarrow> router \<Rightarrow> (string \<times> decimal) list \<Rightarrow> bool \<times> transfer list" where
  "transfers ok r [] = (True, [])"
| "transfers ok r ((i, target) # ys) =
     (case dict_get (accounts r) (delete_word ''MARGIN-'' i) of
        None \<Rightarrow> transfers ok r ys
      | Some a \<Rightarrow>
          (let diff = dsub target (balance a)
           in if 1 < dabs diff
              then (let t = (if 0 < diff then ToMargin (delete_word ''MARGIN-'' i) diff else FromMargin (delete_word ''MARGIN-'' i) (dabs diff))
                    in if ok t then (let (b, ts) = transfers ok r ys in (b, t # ts)) else (False, [t]))
              else transfers ok r ys))"

definition execute_reallocation ::
    "(transfer \<Rightarrow> bool) \<Rightarrow> (pyfloat \<Rightarrow> decimal) \<Rightarrow> CapitalAllocation \<Rightarrow> bool \<Rightarrow> router \<Rightarrow> (bool \<times> transfer list) \<times> router" where
  "execute_reallocation ok read_repr c dry_run r =
     (if dry_run then ((True, []), r)
      else
        (case transfers ok r (allocations c) of
           (False, ts) \<Rightarrow> ((False, ts), r)
         | (True, ts) \<Rightarrow>
             ((True, ts), r\<lparr>reallocation_count := reallocation_count r + 1,
                total_efficiency_gain := (if 0 < efficiency_score c then dadd (total_efficiency_gain r) (read_repr (efficiency_score c))
                                          else total_efficiency_gain r)\<rparr>)))"

section \<open>Reports\<close>

record account_report =
  r_equity :: pyfloat
  r_available :: pyfloat
  r_ratio :: pyfloat
  r_leverage :: int
  r_pnl :: pyfloat

record utilization =
  per_account :: "(string, account_report) dict"
  u_equity :: pyfloat
  u_available :: pyfloat
  utilization_percent :: pyfloat
  account_count :: int

definition report_of :: "MarginAccount \<Rightarrow> exn + account_report" where
  "report_of a =
     bind (margin_ratio a) (\<lambda>q.
       Inr \<lparr>r_equity = fl (equity a), r_available = fl (available_for_trading a), r_ratio = fl q, r_leverage = leverage a,
            r_pnl = fl (unrealized_pnl a)\<rparr>)"

fun report_loop :: "(string \<times> MarginAccount) list \<Rightarrow> exn + (string, account_report) dict" where
  "report_loop [] = Inr []"
| "report_loop ((s, a) # as) = bind (report_of a) (\<lambda>x. bind (report_loop as) (\<lambda>xs. Inr ((s, x) # xs)))"

definition get_margin_utilization :: "router \<Rightarrow> exn + utilization" where
  "get_margin_utilization r =
     bind (report_loop (accounts r)) (\<lambda>xs.
       let eq = foldl dadd 0 (map equity (dict_values (accounts r))); av = foldl dadd 0 (map available_for_trading (dict_values (accounts r)))
       in Inr \<lparr>per_account = xs, u_equity = fl eq, u_available = fl av,
               utilization_percent = fl (dmul (dsub 1 (ddiv av (max eq 1))) 100), account_count = int (length (accounts r))\<rparr>)"

record metrics =
  m_capital :: pyfloat
  m_accounts :: int
  m_reallocations :: int
  average_efficiency :: pyfloat
  m_gain :: pyfloat
  current_utilization :: utilization

definition get_metrics :: "router \<Rightarrow> exn + metrics" where
  "get_metrics r =
     bind (get_margin_utilization r) (\<lambda>u.
       Inr \<lparr>m_capital = fl (total_capital r), m_accounts = int (length (accounts r)), m_reallocations = reallocation_count r,
            average_efficiency =
              (if allocation_history r = [] then 0
               else fdiv (foldl fadd 0 (map efficiency_score (allocation_history r))) (of_nat (length (allocation_history r)))),
            m_gain = fl (total_efficiency_gain r), current_utilization = u\<rparr>)"


section \<open>Minimal capital\<close>

definition accounts_ok :: "router \<Rightarrow> bool" where
  "accounts_ok r \<longleftrightarrow> wf_dict (accounts r) \<and> (\<forall>(s, a) \<in> set (accounts r). account_id a = ''MARGIN-'' @ s)"

datatype router_op =
    Initialize "string \<Rightarrow> account_data" "string \<Rightarrow> pyfloat" "string list"
  | Allocate int pyfloat "string list"
  | Execute "transfer \<Rightarrow> bool" "pyfloat \<Rightarrow> decimal" CapitalAllocation bool

fun router_step :: "router_op \<Rightarrow> router \<Rightarrow> router" where
  "router_step (Initialize get utc syms) r = snd (initialize_accounts get utc syms r)"
| "router_step (Allocate ns utc syms) r = snd (calculate_optimal_allocation ns utc syms r)"
| "router_step (Execute ok rr c dry) r = snd (execute_reallocation ok rr c dry r)"

lemma dict_set_mem: "(k', v') \<in> set (dict_set k v d) \<Longrightarrow> wf_dict d \<Longrightarrow> (k' = k \<and> v' = v) \<or> (k', v') \<in> set d"
  using wf_dict_set[of d k v] by (auto simp: wf_dict_mem dict_get_set split: if_splits)

lemma init_loop_ok: "accounts_ok r \<Longrightarrow> accounts_ok (snd (init_loop get utc ss r))"
proof (induction ss arbitrary: r)
  case (Cons s ss)
  have "accounts_ok (r\<lparr>accounts := dict_set s a (accounts r)\<rparr>)" if "account_id a = ''MARGIN-'' @ s" for a
    using Cons.prems that by (auto simp: accounts_ok_def dest!: dict_set_mem)
  then show ?case using Cons by (auto split: account_data.split option.split)
qed simp

lemma execute_accounts: "accounts (snd (execute_reallocation ok rr c dry r)) = accounts r"
  by (auto simp: execute_reallocation_def split: prod.split bool.split)

lemma router_step_ok: "accounts_ok r \<Longrightarrow> accounts_ok (router_step x r)"
proof (induction x)
  case (Execute ok rr c dry)
  then show ?case using execute_accounts[of ok rr c dry r] by (simp add: accounts_ok_def)
next
  case (Initialize get utc syms)
  then show ?case using init_loop_ok[of r get utc syms] by (simp add: initialize_accounts_def)
next
  case (Allocate ns utc syms)
  then show ?case by (simp add: accounts_ok_def calculate_optimal_allocation_def case_prod_unfold Let_def)
qed

interpretation routing: op_machine router_step accounts_ok
  by unfold_locales (rule router_step_ok)

lemma first_pass_gives:
  fixes xs :: "(string \<times> MarginAccount) list"
  assumes "(s, a) \<in> set xs" "distinct (map (account_id \<circ> snd) xs)"
  shows "dict_get (fst (foldl (\<lambda>(al, rest) (s, a). (dict_set (account_id a) (min_required a) al, dsub rest (min_required a))) (al, rest) xs)) (account_id a)
     = Some (min_required a)"
proof -
  have keep: "k \<notin> account_id ` snd ` set xs \<Longrightarrow>
      dict_get (fst (foldl (\<lambda>(al, rest) (s, a). (dict_set (account_id a) (min_required a) al, dsub rest (min_required a))) (al, rest) xs)) k
        = dict_get al k" for k al rest and xs :: "(string \<times> MarginAccount) list"
    by (induction xs arbitrary: al rest) (auto simp: dict_get_set)
  show ?thesis using assms
  proof (induction xs arbitrary: al rest)
    case (Cons x xs)
    show ?case
    proof (cases "x = (s, a)")
      case True
      then have "account_id a \<notin> account_id ` snd ` set xs" using Cons.prems(2) by (auto simp: image_comp)
      then show ?thesis using True keep[of "account_id a" xs] by (simp add: dict_get_set)
    next
      case False
      then show ?thesis using Cons by (cases x) auto
    qed
  qed simp
qed

lemma base_score_pos: "0 < base_score s"
  by (simp add: base_score_def)

lemma second_pass_grows:
  assumes "dict_get al k = Some x" "is_decimal x"
  shows "\<exists>y. dict_get (second_pass syms r rest al) k = Some y \<and> x \<le> y"
proof (cases "0 < foldl dadd 0 (dict_values (calculate_opportunity_scores syms)) \<and> 0 < rest")
  case True
  let ?tot = "foldl dadd 0 (dict_values (calculate_opportunity_scores syms))"
  let ?f = "\<lambda>al (s, sc). case dict_get (accounts r) s of None \<Rightarrow> al
      | Some a \<Rightarrow> dict_set (account_id a) (dadd (case dict_get al (account_id a) of None \<Rightarrow> 0 | Some x \<Rightarrow> x) (dmul (ddiv sc ?tot) rest)) al"
  have grow: "\<forall>(s, sc) \<in> set scs. 0 \<le> sc \<Longrightarrow> dict_get al k = Some x \<Longrightarrow> is_decimal x \<Longrightarrow>
      \<exists>y. dict_get (foldl ?f al scs) k = Some y \<and> x \<le> y" for scs al x
  proof (induction scs arbitrary: al x)
    case (Cons p scs)
    obtain s sc where p: "p = (s, sc)" by (cases p)
    show ?case
    proof (cases "dict_get (accounts r) s")
      case None
      then show ?thesis using Cons.IH[of al x] Cons.prems by (simp add: p)
    next
      case (Some a)
      define z where "z = dmul (ddiv sc ?tot) rest"
      have z: "0 \<le> z" unfolding z_def using True Cons.prems(1) by (intro dmul_nonneg) (auto simp: p ddiv_def)
      have rest: "\<forall>(s, sc) \<in> set scs. 0 \<le> sc" using Cons.prems(1) by simp
      show ?thesis
      proof (cases "account_id a = k")
        case True
        then have f: "?f al p = dict_set k (dadd x z) al" using Some Cons.prems(2) by (simp add: p z_def)
        have "is_decimal (dadd x z)" by (simp add: dadd_def is_decimal_def)
        then obtain y where "dict_get (foldl ?f (dict_set k (dadd x z) al) scs) k = Some y" "dadd x z \<le> y"
          using Cons.IH[OF rest, of "dict_set k (dadd x z) al" "dadd x z"] by (auto simp: dict_get_set)
        then have "dict_get (foldl ?f (?f al p) scs) k = Some y" "x \<le> y" using dadd_ge[OF Cons.prems(3) z] by (simp_all only: f)
        then show ?thesis by auto
      next
        case False
        then have "dict_get (?f al p) k = Some x" using Some Cons.prems(2) by (simp add: p dict_get_set)
        then show ?thesis using Cons.IH[OF rest _ Cons.prems(3)] by (simp only: foldl_Cons)
      qed
    qed
  qed simp
  have "\<forall>(s, sc) \<in> set (calculate_opportunity_scores syms). 0 \<le> sc"
    using base_score_pos less_imp_le by (auto simp: calculate_opportunity_scores_def)
  then show ?thesis using grow[OF _ assms] True by (simp add: second_pass_def Let_def)
next
  case False
  then have "second_pass syms r rest al = al" by (auto simp: second_pass_def Let_def)
  then show ?thesis using assms by simp
qed

text \<open>An allocation gives every account at least its maintenance margin with the buffer on top, in every state the router can reach.\<close>

theorem allocation_covers_minimum:
  assumes "r = fold router_step xs (router_init cap)" "(s, a) \<in> set (accounts r)"
  shows "\<exists>x. dict_get (allocations (fst (calculate_optimal_allocation ns utc syms r))) (account_id a) = Some x \<and> min_required a \<le> x"
proof -
  have ok: "accounts_ok r" unfolding assms(1) by (rule routing.run_inv) (simp add: accounts_ok_def router_init_def)
  have "map (account_id \<circ> snd) (accounts r) = map (\<lambda>s. ''MARGIN-'' @ s) (dict_keys (accounts r))"
    using ok by (auto simp: accounts_ok_def)
  moreover have "distinct (dict_keys (accounts r))" using ok by (simp add: accounts_ok_def wf_dict_def)
  ultimately have "distinct (map (account_id \<circ> snd) (accounts r))" by (simp add: distinct_map inj_on_def)
  then have "dict_get (fst (first_pass r)) (account_id a) = Some (min_required a)"
    unfolding first_pass_def by (rule first_pass_gives[OF assms(2)])
  moreover have "is_decimal (min_required a)" by (simp add: min_required_def dmul_def is_decimal_def)
  ultimately show ?thesis
    using second_pass_grows by (auto simp: calculate_optimal_allocation_def case_prod_unfold Let_def)
qed

text \<open>When the minima exceed the capital the allocation promises them all the same: each account is allotted its full minimum although less
  than nothing is left, and only the expected capacity, which turns negative or 0, tells.\<close>

theorem overcommitted_allocation:
  assumes "r = fold router_step xs (router_init cap)" "snd (first_pass r) < 0"
  shows "allocations (fst (calculate_optimal_allocation ns utc syms r)) = fst (first_pass r) \<and>
    (\<forall>(s, a) \<in> set (accounts r). dict_get (fst (first_pass r)) (account_id a) = Some (min_required a)) \<and>
    expected_arb_capacity (fst (calculate_optimal_allocation ns utc syms r)) \<le> 0"
proof -
  have ok: "accounts_ok r" unfolding assms(1) by (rule routing.run_inv) (simp add: accounts_ok_def router_init_def)
  have "map (account_id \<circ> snd) (accounts r) = map (\<lambda>s. ''MARGIN-'' @ s) (dict_keys (accounts r))"
    using ok by (auto simp: accounts_ok_def)
  moreover have "distinct (dict_keys (accounts r))" using ok by (simp add: accounts_ok_def wf_dict_def)
  ultimately have d: "distinct (map (account_id \<circ> snd) (accounts r))" by (simp add: distinct_map inj_on_def)
  have "\<forall>(s, a) \<in> set (accounts r). dict_get (fst (first_pass r)) (account_id a) = Some (min_required a)"
    unfolding first_pass_def using first_pass_gives[OF _ d] by blast
  moreover have "dmul (snd (first_pass r)) (4 / 5) \<le> 0"
    unfolding dmul_def using dc_mono[of "snd (first_pass r) * (4 / 5)" 0] assms(2) by simp
  ultimately show ?thesis
    using assms(2) by (simp add: calculate_optimal_allocation_def second_pass_def case_prod_unfold Let_def)
qed

section \<open>Transfers\<close>

lemma transfers_accounts: "accounts r' = accounts r \<Longrightarrow> transfers ok r' al = transfers ok r al"
proof (induction al)
  case (Cons p al)
  then show ?case by (cases p) (simp cong: option.case_cong if_cong)
qed simp

text \<open>Executing an allocation does not change what the router knows of the balances: executing the same allocation again asks the exchange
  for exactly the same transfers once more.\<close>

theorem reallocation_repeats:
  assumes "execute_reallocation ok rr c False r = ((b, ts), r1)"
  shows "fst (execute_reallocation ok rr c False r1) = (b, ts)"
proof -
  have "transfers ok r1 (allocations c) = transfers ok r (allocations c)"
    using execute_accounts[of ok rr c False r] assms by (intro transfers_accounts) simp
  then show ?thesis using assms by (cases "transfers ok r (allocations c)") (auto simp: execute_reallocation_def split: bool.splits)
qed

section \<open>Witnesses\<close>

definition demo_data :: "string \<Rightarrow> account_data" where
  "demo_data s = Data (Some 50) (Some 0) (Some 0) (Some 100) (Some 200) 3"

definition demo_router :: "decimal \<Rightarrow> router" where
  "demo_router cap = fold router_step [Initialize demo_data (\<lambda>_. 0) [''BTC'']] (router_init cap)"

definition demo_account :: MarginAccount where
  "demo_account = \<lparr>account_id = ''MARGIN-BTC'', symbol = ''BTC'', margin_type = ISOLATED, balance = 50, locked = 0, unrealized_pnl = 0,
     maintenance_margin = 100, initial_margin_required = 200, leverage = 3, last_update = 0\<rparr>"

lemma demo_accounts: "accounts (demo_router cap) = [(''BTC'', demo_account)]" "total_capital (demo_router cap) = cap"
  by (simp_all add: demo_router_def initialize_accounts_def demo_data_def router_init_def demo_account_def)

lemma demo_minimum: "min_required demo_account = 110"
proof -
  have "dc (11 / 10) = 11 / 10" "dc 110 = 110" by code_simp+
  moreover have "min_required demo_account = dc (100 * dc (11 / 10))"
    by (simp add: min_required_def demo_account_def MIN_BUFFER_PERCENT_def dadd_def dmul_def)
  ultimately show ?thesis by (simp only:) simp
qed

lemma allocation_covers_minimum_witness:
  "\<exists>x. dict_get (allocations (fst (calculate_optimal_allocation 1 0 [''BTC''] (demo_router 1000)))) (account_id demo_account) = Some x \<and>
    min_required demo_account \<le> x"
  by (rule allocation_covers_minimum[OF demo_router_def, of "''BTC''"]) (simp add: demo_accounts)

lemma overcommitted_allocation_witness:
  "allocations (fst (calculate_optimal_allocation 1 0 [''BTC''] (demo_router 30))) = fst (first_pass (demo_router 30)) \<and>
   (\<forall>(s, a) \<in> set (accounts (demo_router 30)). dict_get (fst (first_pass (demo_router 30))) (account_id a) = Some (min_required a)) \<and>
   expected_arb_capacity (fst (calculate_optimal_allocation 1 0 [''BTC''] (demo_router 30))) \<le> 0"
  by (rule overcommitted_allocation[OF demo_router_def]) (simp add: first_pass_def demo_accounts demo_minimum dsub_def dc_minus)

definition demo_target :: CapitalAllocation where
  "demo_target = \<lparr>allocation_id = ''A'', timestamp = 0, allocations = [(''MARGIN-BTC'', 110)], a_total = 1000, efficiency_score = 0,
     expected_arb_capacity = 0\<rparr>"

lemma reallocation_repeats_witness:
  "fst (execute_reallocation (\<lambda>_. True) (\<lambda>x. x) demo_target False (snd (execute_reallocation (\<lambda>_. True) (\<lambda>x. x) demo_target False (demo_router 1000)))) =
   (True, [ToMargin ''BTC'' 60])"
proof (rule reallocation_repeats)
  have "fst (execute_reallocation (\<lambda>_. True) (\<lambda>x. x) demo_target False (demo_router 1000)) = (True, [ToMargin ''BTC'' 60])"
    by (simp add: execute_reallocation_def demo_target_def demo_accounts demo_account_def dsub_def dabs_def)
  then show "execute_reallocation (\<lambda>_. True) (\<lambda>x. x) demo_target False (demo_router 1000) =
      ((True, [ToMargin ''BTC'' 60]), snd (execute_reallocation (\<lambda>_. True) (\<lambda>x. x) demo_target False (demo_router 1000)))"
    by (metis prod.collapse)
qed

end
