(* ===== verification/Consensus.thy ===== *)
theory Consensus
  imports Prelude
begin

text \<open>
  \<open>marl/consensus_protocol.py\<close>: the vote of several agents on a trade proposal.

  The field \<open>metadata\<close> of a proposal is never read and left out. \<open>ord\<close> is the order in which the set of voters is enumerated.
\<close>

section \<open>Proposals and votes\<close>

datatype VoteType = STRONG_APPROVE | APPROVE | NEUTRAL | DISAPPROVE | STRONG_DISAPPROVE | VETO
datatype RiskTier = LOW | MEDIUM | HIGH | EXTREME | CATASTROPHIC

fun tier_name :: "RiskTier \<Rightarrow> string" where
  "tier_name LOW = ''LOW''" | "tier_name MEDIUM = ''MEDIUM''" | "tier_name HIGH = ''HIGH''"
| "tier_name EXTREME = ''EXTREME''" | "tier_name CATASTROPHIC = ''CATASTROPHIC''"

record TradeProposal =
  proposal_id :: string
  proposer :: int
  action :: string
  pair :: string
  size_of :: pyfloat
  entry_price :: pyfloat
  stop_loss :: "pyfloat option"
  take_profit :: "pyfloat option"
  p_confidence :: pyfloat
  p_timestamp :: int

definition risk_estimate :: "TradeProposal \<Rightarrow> exn + pyfloat" where
  "risk_estimate p =
     (case stop_loss p of
        None \<Rightarrow> Inr 1
      | Some x \<Rightarrow>
          if entry_price p = 0 then Inl ZeroDivisionError
          else Inr (min 1 (fdiv (fmul (fdiv \<bar>fsub (entry_price p) x\<bar> (entry_price p)) (size_of p)) 10000)))"

record AgentVote =
  agent_id :: int
  vote_type :: VoteType
  confidence :: pyfloat
  reasoning :: string
  v_timestamp :: int

fun base_weight :: "VoteType \<Rightarrow> pyfloat" where
  "base_weight STRONG_APPROVE = 1"
| "base_weight APPROVE = 1 / 2"
| "base_weight NEUTRAL = 0"
| "base_weight DISAPPROVE = - 1 / 2"
| "base_weight STRONG_DISAPPROVE = - 1"
| "base_weight VETO = - 10"

definition weight :: "AgentVote \<Rightarrow> pyfloat" where
  "weight v = fmul (base_weight (vote_type v)) (confidence v)"

record ConsensusResult =
  approved :: bool
  total_score :: pyfloat
  approve_count :: int
  disapprove_count :: int
  veto_count :: int
  quorum_met :: bool
  risk_tier :: RiskTier
  reasons :: "string list"

record protocol =
  quorum_threshold :: pyfloat
  veto_threshold :: pyfloat
  min_agents :: int
  proposals :: "(string, TradeProposal) dict"
  votes :: "(string, (int, AgentVote) dict) dict"
  agent_weights :: "(int, pyfloat) dict"
  agent_risk_tolerance :: "(int, pyfloat) dict"
  agent_history :: "(int, bool list) dict"

definition protocol_init :: "pyfloat \<Rightarrow> pyfloat \<Rightarrow> int \<Rightarrow> protocol" where
  "protocol_init q v n = \<lparr>quorum_threshold = q, veto_threshold = v, min_agents = n, proposals = [], votes = [], agent_weights = [],
     agent_risk_tolerance = [], agent_history = []\<rparr>"

definition register_agent :: "int \<Rightarrow> pyfloat \<Rightarrow> pyfloat \<Rightarrow> protocol \<Rightarrow> protocol" where
  "register_agent a w t s =
     s\<lparr>agent_weights := dict_set a w (agent_weights s), agent_risk_tolerance := dict_set a t (agent_risk_tolerance s),
       agent_history := dict_set a [] (agent_history s)\<rparr>"

definition submit_proposal :: "TradeProposal \<Rightarrow> protocol \<Rightarrow> string \<times> protocol" where
  "submit_proposal p s =
     (proposal_id p, s\<lparr>proposals := dict_set (proposal_id p) p (proposals s), votes := dict_set (proposal_id p) [] (votes s)\<rparr>)"

definition cast_vote :: "string \<Rightarrow> int \<Rightarrow> VoteType \<Rightarrow> pyfloat \<Rightarrow> string \<Rightarrow> protocol \<Rightarrow> (exn + bool) \<times> protocol" where
  "cast_vote i a ty c why s =
     (case dict_get (proposals s) i of
        None \<Rightarrow> (Inr False, s)
      | Some p \<Rightarrow>
          if dict_get (agent_weights s) a = None then (Inr False, s)
          else
            (case dict_get (votes s) i of
               None \<Rightarrow> (Inl KeyError, s)
             | Some vs \<Rightarrow>
                 (Inr True, s\<lparr>votes := dict_set i
                    (dict_set a \<lparr>agent_id = a, vote_type = ty, confidence = c, reasoning = why, v_timestamp = p_timestamp p\<rparr> vs) (votes s)\<rparr>)))"

section \<open>The decision\<close>

definition classify_risk :: "TradeProposal \<Rightarrow> exn + RiskTier" where
  "classify_risk p =
     bind (risk_estimate p) (\<lambda>r.
       Inr (if r < fl (1 / 100) then LOW else if r < fl (1 / 20) then MEDIUM else if r < fl (3 / 20) then HIGH
            else if r < fl (3 / 10) then EXTREME else CATASTROPHIC))"

fun threshold_of :: "RiskTier \<Rightarrow> pyfloat" where
  "threshold_of LOW = 0"
| "threshold_of MEDIUM = fl (1 / 5)"
| "threshold_of HIGH = fl (2 / 5)"
| "threshold_of EXTREME = fl (7 / 10)"
| "threshold_of CATASTROPHIC = 1"

definition determine_approval :: "pyfloat \<Rightarrow> int \<Rightarrow> RiskTier \<Rightarrow> bool" where
  "determine_approval score vetoes tier =
     (if 0 < vetoes \<and> score < (if tier = EXTREME then fl (9 / 10) else fl (4 / 5)) then False else threshold_of tier \<le> score)"

record tally =
  weighted :: pyfloat
  total_weight :: pyfloat
  n_approve :: int
  n_disapprove :: int
  n_veto :: int
  said :: "string list"

definition vote_weight :: "protocol \<Rightarrow> int \<times> AgentVote \<Rightarrow> pyfloat" where
  "vote_weight s = (\<lambda>(a, v). fmul (weight v) (case dict_get (agent_weights s) a of None \<Rightarrow> 1 | Some w \<Rightarrow> w))"

definition count_vote :: "protocol \<Rightarrow> int \<times> AgentVote \<Rightarrow> tally \<Rightarrow> tally" where
  "count_vote s x t =
     (let w = vote_weight s x; ty = vote_type (snd x)
      in \<lparr>weighted = fadd (weighted t) w, total_weight = fadd (total_weight t) \<bar>w\<bar>,
          n_approve = (if ty = STRONG_APPROVE \<or> ty = APPROVE then n_approve t + 1 else n_approve t),
          n_disapprove = (if ty = DISAPPROVE \<or> ty = STRONG_DISAPPROVE then n_disapprove t + 1 else n_disapprove t),
          n_veto = (if ty = VETO then n_veto t + 1 else n_veto t),
          said = (if ty = VETO then said t @ [''Agent '' @ int_str (fst x) @ '' vetoed: '' @ reasoning (snd x)] else said t)\<rparr>)"

definition count_votes :: "protocol \<Rightarrow> (int, AgentVote) dict \<Rightarrow> tally" where
  "count_votes s vs =
     fold (count_vote s) vs \<lparr>weighted = 0, total_weight = 0, n_approve = 0, n_disapprove = 0, n_veto = 0, said = []\<rparr>"

definition score_of :: "tally \<Rightarrow> pyfloat" where
  "score_of t = fdiv (weighted t) (max (total_weight t) (fl (1 / 10 ^ 10)))"

definition votes_for :: "string \<Rightarrow> protocol \<Rightarrow> (int, AgentVote) dict" where
  "votes_for i s = (case dict_get (votes s) i of None \<Rightarrow> [] | Some vs \<Rightarrow> vs)"

definition compute_consensus :: "string \<Rightarrow> protocol \<Rightarrow> exn + ConsensusResult option" where
  "compute_consensus i s =
     (case dict_get (proposals s) i of
        None \<Rightarrow> Inr None
      | Some p \<Rightarrow>
          (let vs = votes_for i s
           in if int (length vs) < min_agents s
              then bind (classify_risk p) (\<lambda>tier.
                     Inr (Some \<lparr>approved = False, total_score = 0, approve_count = 0, disapprove_count = 0, veto_count = 0,
                                quorum_met = False, risk_tier = tier, reasons = [''Insufficient participation'']\<rparr>))
              else
                (let t = count_votes s vs; sc = score_of t
                 in bind (classify_risk p) (\<lambda>tier.
                      if min_agents s = 0 then Inl ZeroDivisionError
                      else
                        Inr (Some \<lparr>approved = determine_approval sc (n_veto t) tier, total_score = sc, approve_count = n_approve t,
                                   disapprove_count = n_disapprove t, veto_count = n_veto t,
                                   quorum_met = (quorum_threshold s \<le> idiv (int (length vs)) (min_agents s)), risk_tier = tier,
                                   reasons = said t
                                     @ (if 0 < n_veto t then [''Veto count ('' @ int_str (n_veto t) @ '') exceeded threshold''] else [])
                                     @ (if tier = EXTREME then ''Trade classified as extreme risk''
                                          # (if sc < 1 / 2 then [''Insufficient support for extreme risk trade''] else []) else [])\<rparr>)))))"

section \<open>Agents and housekeeping\<close>

definition update_agent_weight :: "int \<Rightarrow> bool \<Rightarrow> protocol \<Rightarrow> protocol" where
  "update_agent_weight a ok s =
     (case dict_get (agent_history s) a of
        None \<Rightarrow> s
      | Some h \<Rightarrow>
          (let h' = h @ [ok]; recent = slice_from (- 20) h'; s1 = s\<lparr>agent_history := dict_set a h' (agent_history s)\<rparr>
           in if 5 \<le> length recent
              then s1\<lparr>agent_weights := dict_set a
                     (fadd (1 / 2) (fmul (3 / 2) (idiv (int (length (filter id recent))) (int (length recent))))) (agent_weights s1)\<rparr>
              else s1))"

record status =
  st_proposal :: string
  st_approved :: bool
  st_score :: pyfloat
  st_tier :: string
  st_votes :: int
  st_quorum :: bool
  st_reasons :: "string list"

definition get_proposal_status :: "string \<Rightarrow> protocol \<Rightarrow> exn + status option" where
  "get_proposal_status i s =
     (if dict_get (proposals s) i = None then Inr None
      else bind (compute_consensus i s) (\<lambda>x.
             Inr (map_option (\<lambda>r. \<lparr>st_proposal = i, st_approved = approved r, st_score = total_score r, st_tier = tier_name (risk_tier r),
                                  st_votes = int (length (votes_for i s)), st_quorum = quorum_met r, st_reasons = reasons r\<rparr>) x)))"

definition clear_resolved :: "string \<Rightarrow> protocol \<Rightarrow> bool \<times> protocol" where
  "clear_resolved i s =
     (if dict_get (proposals s) i = None then (False, s)
      else (True, s\<lparr>proposals := dict_pop i (proposals s), votes := dict_pop i (votes s)\<rparr>))"

definition reset_protocol :: "protocol \<Rightarrow> protocol" where
  "reset_protocol s = s\<lparr>proposals := [], votes := []\<rparr>"

section \<open>A vote in one call\<close>

definition validate_trade_with_consensus ::
    "(int set \<Rightarrow> int list) \<Rightarrow> TradeProposal \<Rightarrow> (int \<times> VoteType \<times> pyfloat) list \<Rightarrow> (int, pyfloat) dict option \<Rightarrow> exn + ConsensusResult" where
  "validate_trade_with_consensus ord p bs ws =
     (let weight_of = (\<lambda>a. case ws of None \<Rightarrow> 1 | Some d \<Rightarrow> (case dict_get d a of None \<Rightarrow> 1 | Some w \<Rightarrow> w));
          s = fold (\<lambda>a. register_agent a (weight_of a) (1 / 2)) (ord (fst ` set bs)) (protocol_init (fl (3 / 5)) (fl (4 / 5)) 2);
          s1 = snd (submit_proposal p s);
          s2 = fold (\<lambda>(a, ty, c) s. snd (cast_vote (proposal_id p) a ty c [] s)) bs s1
      in bind (compute_consensus (proposal_id p) s2) (\<lambda>r.
           Inr (case r of
                  Some x \<Rightarrow> x
                | None \<Rightarrow> \<lparr>approved = False, total_score = 0, approve_count = 0, disapprove_count = 0, veto_count = 0, quorum_met = False,
                           risk_tier = CATASTROPHIC, reasons = [''Failed to compute consensus'']\<rparr>)))"


section \<open>The score\<close>

lemma abs_fl: "\<bar>fl x\<bar> = fl \<bar>x\<bar>"
  using fl_minus[of x] fl_nonneg[of x] fl_nonneg[of "- x"] by (cases "0 \<le> x") auto

lemma least_total: "0 < fl (1 / 10 ^ 10)"
  by code_simp

lemma count_vote_bound:
  assumes "\<bar>weighted t\<bar> \<le> total_weight t"
  shows "\<bar>weighted (count_vote s x t)\<bar> \<le> total_weight (count_vote s x t)"
proof -
  have "\<bar>weighted t + vote_weight s x\<bar> \<le> total_weight t + \<bar>vote_weight s x\<bar>" using assms by linarith
  then show ?thesis by (simp add: count_vote_def Let_def fadd_def abs_fl fl_mono)
qed

lemma count_votes_bound: "\<bar>weighted (count_votes s vs)\<bar> \<le> total_weight (count_votes s vs)"
proof -
  have "\<bar>weighted t\<bar> \<le> total_weight t \<Longrightarrow> \<bar>weighted (fold (count_vote s) vs t)\<bar> \<le> total_weight (fold (count_vote s) vs t)" for t
    by (induction vs arbitrary: t) (simp_all add: count_vote_bound)
  then show ?thesis by (simp add: count_votes_def)
qed

lemma score_bound: "\<bar>score_of (count_votes s vs)\<bar> \<le> 1"
proof -
  let ?t = "count_votes s vs" and ?m = "max (total_weight (count_votes s vs)) (fl (1 / 10 ^ 10))"
  have m: "0 < ?m" "\<bar>weighted ?t\<bar> \<le> ?m" using least_total count_votes_bound[of s vs] by linarith+
  then have "\<bar>weighted ?t / ?m\<bar> \<le> 1" by (simp add: abs_divide)
  then show ?thesis using fl_mono[of "\<bar>weighted ?t / ?m\<bar>" 1] by (simp add: score_of_def fdiv_def abs_fl)
qed

lemma unanimous_total:
  assumes "\<forall>x \<in> set vs. 0 \<le> vote_weight s x"
  shows "weighted (count_votes s vs) = total_weight (count_votes s vs)"
proof -
  have "weighted t = total_weight t \<Longrightarrow> weighted (fold (count_vote s) vs t) = total_weight (fold (count_vote s) vs t)" for t
    using assms by (induction vs arbitrary: t) (simp_all add: count_vote_def Let_def)
  then show ?thesis by (simp add: count_votes_def)
qed

lemma neutral_votes:
  assumes "\<forall>x \<in> set vs. vote_type (snd x) = NEUTRAL"
  shows "weighted (count_votes s vs) = 0 \<and> n_veto (count_votes s vs) = 0"
proof -
  have "weighted t = 0 \<and> n_veto t = 0 \<Longrightarrow> weighted (fold (count_vote s) vs t) = 0 \<and> n_veto (fold (count_vote s) vs t) = 0" for t
    using assms by (induction vs arbitrary: t) (auto simp: count_vote_def Let_def vote_weight_def weight_def fmul_def fadd_def split: prod.splits)
  then show ?thesis by (simp add: count_votes_def)
qed

lemma compute_enough:
  assumes "dict_get (proposals s) i = Some p" "min_agents s \<le> int (length (votes_for i s))" "min_agents s \<noteq> 0" "classify_risk p = Inr tier"
  obtains r where "compute_consensus i s = Inr (Some r)" "total_score r = score_of (count_votes s (votes_for i s))" "risk_tier r = tier"
    "approved r \<longleftrightarrow> determine_approval (score_of (count_votes s (votes_for i s))) (n_veto (count_votes s (votes_for i s))) tier"
  using assms by (auto simp: compute_consensus_def Let_def)

text \<open>The score of every consensus lies between -1 and 1, whatever confidences and weights the agents have, rounding included.\<close>

theorem consensus_score_bounded:
  assumes "compute_consensus i s = Inr (Some r)"
  shows "- 1 \<le> total_score r \<and> total_score r \<le> 1"
proof -
  have "total_score r = 0 \<or> total_score r = score_of (count_votes s (votes_for i s))"
    using assms by (auto simp: compute_consensus_def Let_def split: option.splits if_splits elim!: bind_InrE)
  then show ?thesis using score_bound[of s "votes_for i s"] by (auto simp: abs_le_iff)
qed

text \<open>A trade of any risk is approved when no vote weighs against it and the weights add up to more than nothing, also a catastrophic one,
  which is never to be approved, and also over a veto that was cast without confidence.\<close>

theorem unanimous_catastrophe_approved:
  assumes "dict_get (proposals s) i = Some p" "min_agents s \<le> int (length (votes_for i s))" "min_agents s \<noteq> 0" "classify_risk p = Inr tier"
    "\<forall>x \<in> set (votes_for i s). 0 \<le> vote_weight s x" "fl (1 / 10 ^ 10) \<le> total_weight (count_votes s (votes_for i s))"
  shows "\<exists>r. compute_consensus i s = Inr (Some r) \<and> approved r \<and> total_score r = 1 \<and> risk_tier r = tier"
proof -
  have "score_of (count_votes s (votes_for i s)) = 1"
    using unanimous_total[OF assms(5)] assms(6) least_total by (simp add: score_of_def fdiv_def max_absorb1)
  moreover have "threshold_of tier \<le> 1" "fl (9 / 10) \<le> 1" "fl (4 / 5) \<le> 1"
    using fl_mono[of "1 / 5" 1] fl_mono[of "2 / 5" 1] fl_mono[of "7 / 10" 1] fl_mono[of "9 / 10" 1] fl_mono[of "4 / 5" 1]
    by (cases tier; simp)+
  ultimately have "determine_approval (score_of (count_votes s (votes_for i s))) (n_veto (count_votes s (votes_for i s))) tier"
    by (simp add: determine_approval_def)
  with \<open>score_of _ = 1\<close> compute_enough[OF assms(1-4)] show ?thesis by metis
qed

text \<open>Agents that are all neutral approve a trade of low risk: the score is 0, and the threshold for low risk, meant to ask for any positive
  score, is reached.\<close>

theorem indifference_approves:
  assumes "dict_get (proposals s) i = Some p" "min_agents s \<le> int (length (votes_for i s))" "min_agents s \<noteq> 0" "classify_risk p = Inr LOW"
    "\<forall>x \<in> set (votes_for i s). vote_type (snd x) = NEUTRAL"
  shows "\<exists>r. compute_consensus i s = Inr (Some r) \<and> approved r \<and> total_score r = 0"
  using compute_enough[OF assms(1-4)] neutral_votes[OF assms(5), of s] by (auto simp: determine_approval_def score_of_def fdiv_def)

text \<open>The quorum and veto thresholds of the protocol decide nothing: with other thresholds the same proposals are approved, with the
  same exceptions.\<close>

theorem thresholds_are_idle:
  "map_sum id (map_option approved) (compute_consensus i (s\<lparr>quorum_threshold := q, veto_threshold := v\<rparr>)) =
   map_sum id (map_option approved) (compute_consensus i s)"
proof -
  have "count_vote (s\<lparr>quorum_threshold := q, veto_threshold := v\<rparr>) = count_vote s"
    by (intro ext) (simp add: count_vote_def vote_weight_def)
  then have "count_votes (s\<lparr>quorum_threshold := q, veto_threshold := v\<rparr>) vs = count_votes s vs" for vs by (simp add: count_votes_def)
  then show ?thesis
    by (cases "dict_get (proposals s) i") (auto simp: compute_consensus_def votes_for_def Let_def bind_def split: sum.split)
qed

text \<open>A consensus fails with an error exactly for a proposal with a stop and an entry price of 0, and for every proposal when the protocol asks for
  no minimal number of agents; the error is a division by zero.\<close>

theorem consensus_raises_iff:
  "compute_consensus i s = Inl e \<longleftrightarrow>
   e = ZeroDivisionError \<and> (\<exists>p. dict_get (proposals s) i = Some p \<and> (min_agents s = 0 \<or> (\<exists>x. stop_loss p = Some x \<and> entry_price p = 0)))"
  by (cases "dict_get (proposals s) i")
    (auto simp: compute_consensus_def classify_risk_def risk_estimate_def Let_def bind_def split: option.split)

section \<open>Runs of the protocol\<close>

definition votes_ok :: "protocol \<Rightarrow> (int, AgentVote) dict \<Rightarrow> bool" where
  "votes_ok s vs \<longleftrightarrow> wf_dict vs \<and> (\<forall>a v. dict_get vs a = Some v \<longrightarrow> agent_id v = a \<and> dict_get (agent_weights s) a \<noteq> None)"

definition protocol_inv :: "protocol \<Rightarrow> bool" where
  "protocol_inv s \<longleftrightarrow>
     (\<forall>i. dict_get (votes s) i = None \<longleftrightarrow> dict_get (proposals s) i = None) \<and>
     (\<forall>i p. dict_get (proposals s) i = Some p \<longrightarrow> proposal_id p = i) \<and>
     (\<forall>i vs. dict_get (votes s) i = Some vs \<longrightarrow> votes_ok s vs) \<and>
     (\<forall>a. dict_get (agent_weights s) a = None \<longleftrightarrow> dict_get (agent_history s) a = None) \<and>
     (\<forall>a h w. dict_get (agent_history s) a = Some h \<and> 5 \<le> length h \<and> dict_get (agent_weights s) a = Some w \<longrightarrow> 1 / 2 \<le> w \<and> w \<le> 2)"

datatype protocol_op =
    Register int pyfloat pyfloat
  | Submit TradeProposal
  | Vote string int VoteType pyfloat string
  | Outcome int bool
  | Clear string
  | Reset

fun protocol_step :: "protocol_op \<Rightarrow> protocol \<Rightarrow> protocol" where
  "protocol_step (Register a w t) s = register_agent a w t s"
| "protocol_step (Submit p) s = snd (submit_proposal p s)"
| "protocol_step (Vote i a ty c why) s = snd (cast_vote i a ty c why s)"
| "protocol_step (Outcome a ok) s = update_agent_weight a ok s"
| "protocol_step (Clear i) s = snd (clear_resolved i s)"
| "protocol_step Reset s = reset_protocol s"

lemma votes_ok_mono:
  "votes_ok s vs \<Longrightarrow> (\<And>a. dict_get (agent_weights s') a = None \<Longrightarrow> dict_get (agent_weights s) a = None) \<Longrightarrow> votes_ok s' vs"
  unfolding votes_ok_def by fast

lemma new_weight_range:
  assumes "0 \<le> k" "k \<le> n" "0 < n"
  shows "1 / 2 \<le> fadd (1 / 2) (fmul (3 / 2) (idiv k n)) \<and> fadd (1 / 2) (fmul (3 / 2) (idiv k n)) \<le> 2"
proof -
  have h: "fl (1 / 2) = 1 / 2" "fl (3 / 2) = 3 / 2" by code_simp+
  have q: "0 \<le> idiv k n" "idiv k n \<le> 1"
    using assms fl_mono[of "of_int k / of_int n" 1] by (simp_all add: idiv_def)
  have "0 \<le> fmul (3 / 2) (idiv k n)" "fmul (3 / 2) (idiv k n) \<le> 3 / 2"
    using q fl_mono[of "3 / 2 * idiv k n" "3 / 2"] h by (simp_all add: fmul_def)
  then have "fl (1 / 2) \<le> fadd (1 / 2) (fmul (3 / 2) (idiv k n))" "fadd (1 / 2) (fmul (3 / 2) (idiv k n)) \<le> fl 2"
    unfolding fadd_def by (intro fl_mono; simp)+
  then show ?thesis using h by simp
qed

lemma submit_keeps: "protocol_inv s \<Longrightarrow> protocol_inv (snd (submit_proposal p s))"
proof -
  have "votes_ok (snd (submit_proposal p s)) vs = votes_ok s vs" for vs by (simp add: votes_ok_def submit_proposal_def)
  moreover have "votes_ok s []" by (simp add: votes_ok_def)
  ultimately show "protocol_inv s \<Longrightarrow> protocol_inv (snd (submit_proposal p s))"
    by (auto simp: protocol_inv_def submit_proposal_def dict_get_set)
qed

lemma register_keeps: "protocol_inv s \<Longrightarrow> protocol_inv (register_agent a w t s)"
proof -
  assume inv: "protocol_inv s"
  have "votes_ok s vs \<Longrightarrow> votes_ok (register_agent a w t s) vs" for vs
    by (rule votes_ok_mono) (auto simp: register_agent_def dict_get_set split: if_splits)
  then show ?thesis using inv
    by (simp add: protocol_inv_def register_agent_def dict_get_set)
qed

lemma vote_keeps: "protocol_inv s \<Longrightarrow> protocol_inv (snd (cast_vote i a ty c why s))"
proof -
  assume inv: "protocol_inv s"
  have ok: "votes_ok s (dict_set a \<lparr>agent_id = a, vote_type = ty, confidence = c, reasoning = why, v_timestamp = n\<rparr> vs)"
    if "dict_get (votes s) i = Some vs" "dict_get (agent_weights s) a \<noteq> None" for vs n
  proof -
    have "votes_ok s vs" using inv that(1) by (simp add: protocol_inv_def)
    then show ?thesis using that(2) by (simp add: votes_ok_def dict_get_set)
  qed
  show ?thesis
  proof (cases "dict_get (proposals s) i")
    case (Some p)
    then obtain vs where vs: "dict_get (votes s) i = Some vs" using inv by (cases "dict_get (votes s) i") (auto simp: protocol_inv_def)
    show ?thesis
    proof (cases "dict_get (agent_weights s) a")
      case None
      then show ?thesis using inv Some by (simp add: cast_vote_def)
    next
      case (Some w)
      let ?vs = "dict_set a \<lparr>agent_id = a, vote_type = ty, confidence = c, reasoning = why, v_timestamp = p_timestamp p\<rparr> vs"
      have "snd (cast_vote i a ty c why s) = s\<lparr>votes := dict_set i ?vs (votes s)\<rparr>"
        using \<open>dict_get (proposals s) i = Some p\<close> Some vs by (simp add: cast_vote_def)
      moreover have "votes_ok (s\<lparr>votes := dict_set i ?vs (votes s)\<rparr>) xs = votes_ok s xs" for xs by (simp add: votes_ok_def)
      ultimately show ?thesis using inv ok[OF vs, of "p_timestamp p"] Some \<open>dict_get (proposals s) i = Some p\<close>
        by (simp add: protocol_inv_def dict_get_set)
    qed
  qed (use inv in \<open>simp add: cast_vote_def\<close>)
qed

lemma outcome_keeps: "protocol_inv s \<Longrightarrow> protocol_inv (update_agent_weight a ok s)"
proof -
  assume inv: "protocol_inv s"
  show ?thesis
  proof (cases "dict_get (agent_history s) a")
    case (Some h)
    let ?recent = "slice_from (- 20) (h @ [ok])"
    let ?w = "fadd (1 / 2) (fmul (3 / 2) (idiv (int (length (filter id ?recent))) (int (length ?recent))))"
    let ?s = "s\<lparr>agent_history := dict_set a (h @ [ok]) (agent_history s)\<rparr>"
    have w: "dict_get (agent_weights s) a \<noteq> None" using inv Some by (simp add: protocol_inv_def)
    have len: "length ?recent = min 20 (length h + 1)" using length_slice_last[of 20 "h @ [ok]"] by simp
    have "votes_ok s vs \<Longrightarrow> votes_ok (update_agent_weight a ok s) vs" for vs
      using Some by (cases "5 \<le> length ?recent") (auto simp: votes_ok_def update_agent_weight_def Let_def dict_get_set)
    moreover have "1 / 2 \<le> ?w \<and> ?w \<le> 2" if "5 \<le> length ?recent" using that by (intro new_weight_range) auto
    moreover have "update_agent_weight a ok s = (if 5 \<le> length ?recent then ?s\<lparr>agent_weights := dict_set a ?w (agent_weights ?s)\<rparr> else ?s)"
      using Some by (simp add: update_agent_weight_def Let_def)
    moreover have "5 \<le> length ?recent \<longleftrightarrow> 5 \<le> length (h @ [ok])" using len by simp
    ultimately show ?thesis using inv w Some
      by (cases "5 \<le> length ?recent") (simp_all add: protocol_inv_def dict_get_set)
  qed (use inv in \<open>simp add: update_agent_weight_def\<close>)
qed

lemma clear_keeps: "protocol_inv s \<Longrightarrow> protocol_inv (snd (clear_resolved i s))"
proof -
  have "votes_ok (snd (clear_resolved i s)) vs = votes_ok s vs" for vs by (simp add: votes_ok_def clear_resolved_def)
  then show "protocol_inv s \<Longrightarrow> protocol_inv (snd (clear_resolved i s))"
    by (simp add: protocol_inv_def) (simp add: clear_resolved_def dict_get_pop)
qed

lemma protocol_step_inv: "protocol_inv s \<Longrightarrow> protocol_inv (protocol_step x s)"
  by (cases x) (simp_all add: register_keeps submit_keeps vote_keeps outcome_keeps clear_keeps protocol_inv_def[of "reset_protocol s"],
    simp add: protocol_inv_def reset_protocol_def)

interpretation voting: op_machine protocol_step protocol_inv
  by unfold_locales (rule protocol_step_inv)

text \<open>In every run of calls there is one set of votes for each proposal, one vote per voter, cast by a registered agent under its own number,
  so no vote fails with an error; and the weight of an agent with five or more outcomes lies between 1/2 and 2.\<close>

theorem protocol_invariant:
  "protocol_inv (fold protocol_step xs (protocol_init q v n)) \<and>
   (\<exists>b. fst (cast_vote i a ty c why (fold protocol_step xs (protocol_init q v n))) = Inr b)"
proof -
  have inv: "protocol_inv (fold protocol_step xs (protocol_init q v n))"
    by (rule voting.run_inv) (simp add: protocol_inv_def protocol_init_def)
  have "\<exists>b. fst (cast_vote i a ty c why s) = Inr b" if "protocol_inv s" for s
  proof (cases "dict_get (votes s) i")
    case None
    then have "dict_get (proposals s) i = None" using that by (simp add: protocol_inv_def)
    then show ?thesis by (auto simp: cast_vote_def)
  qed (auto simp add: cast_vote_def split: option.split)
  with inv show ?thesis by blast
qed

section \<open>A vote in one call\<close>

definition ballot :: "TradeProposal \<Rightarrow> int \<times> VoteType \<times> pyfloat \<Rightarrow> int \<times> AgentVote" where
  "ballot p = (\<lambda>(a, ty, c). (a, \<lparr>agent_id = a, vote_type = ty, confidence = c, reasoning = [], v_timestamp = p_timestamp p\<rparr>))"

definition last_ballots :: "(int \<times> VoteType \<times> pyfloat) list \<Rightarrow> (int \<times> VoteType \<times> pyfloat) list" where
  "last_ballots bs = fold (\<lambda>(a, b). dict_set a b) bs []"

lemma ballot_set: "dict_set a (snd (ballot p (a, b))) (map (ballot p) d) = map (ballot p) (dict_set a b d)"
  by (induction d) (auto simp: ballot_def split: prod.splits)

lemma cast_loop:
  assumes "dict_get (proposals s) (proposal_id p) = Some p" "\<forall>(a, b) \<in> set bs. dict_get (agent_weights s) a \<noteq> None"
    "votes s = [(proposal_id p, map (ballot p) d)]"
  shows "fold (\<lambda>(a, ty, c) s. snd (cast_vote (proposal_id p) a ty c [] s)) bs s =
    s\<lparr>votes := [(proposal_id p, map (ballot p) (fold (\<lambda>(a, b). dict_set a b) bs d))]\<rparr>"
  using assms
proof (induction bs arbitrary: s d)
  case (Cons b bs)
  obtain a ty c where b: "b = (a, ty, c)" by (cases b)
  have "snd (cast_vote (proposal_id p) a ty c [] s) = s\<lparr>votes := [(proposal_id p, map (ballot p) (dict_set a (ty, c) d))]\<rparr>"
    using Cons.prems ballot_set[of a p "(ty, c)" d] by (auto simp: cast_vote_def b ballot_def)
  then show ?case using Cons.prems Cons.IH[of "s\<lparr>votes := [(proposal_id p, map (ballot p) (dict_set a (ty, c) d))]\<rparr>" "dict_set a (ty, c) d"]
    by (simp add: b)
qed simp

lemma register_loop:
  "let s' = fold (\<lambda>a. register_agent a (w a) t) as0 s
   in proposals s' = proposals s \<and> votes s' = votes s \<and> min_agents s' = min_agents s \<and> quorum_threshold s' = quorum_threshold s \<and>
      dict_get (agent_weights s') = (\<lambda>a. if a \<in> set as0 then Some (w a) else dict_get (agent_weights s) a)"
  by (induction as0 arbitrary: s) (auto simp: Let_def register_agent_def dict_get_set fun_eq_iff)

lemma init_fields: "proposals (protocol_init q v n) = []" "votes (protocol_init q v n) = []" "min_agents (protocol_init q v n) = n"
  "quorum_threshold (protocol_init q v n) = q" "agent_weights (protocol_init q v n) = []"
  by (simp_all add: protocol_init_def)

lemma compute_cong:
  assumes "proposals s' = proposals s" "votes s' = votes s" "min_agents s' = min_agents s" "quorum_threshold s' = quorum_threshold s"
    "dict_get (agent_weights s') = dict_get (agent_weights s)"
  shows "compute_consensus i s' = compute_consensus i s"
proof -
  have "count_vote s' = count_vote s" by (intro ext) (simp add: count_vote_def vote_weight_def assms(5))
  then have c: "count_votes s' vs = count_votes s vs" for vs by (simp add: count_votes_def)
  have v: "votes_for i s' = votes_for i s" by (simp add: votes_for_def assms(2))
  show ?thesis unfolding compute_consensus_def assms c v ..
qed

lemma last_ballots_wf: "wf_dict (last_ballots bs)"
proof -
  have "wf_dict d \<Longrightarrow> wf_dict (fold (\<lambda>(a, b). dict_set a b) bs d)" for d :: "(int, VoteType \<times> pyfloat) dict"
    by (induction bs arbitrary: d) auto
  then show ?thesis by (simp add: last_ballots_def)
qed

lemma last_ballots_voters: "fst ` set (last_ballots bs) = fst ` set bs"
proof -
  have "fst ` set (fold (\<lambda>(a, b). dict_set a b) bs d) = fst ` set bs \<union> fst ` set d" for d :: "(int, VoteType \<times> pyfloat) dict"
    by (induction bs arbitrary: d) (simp_all add: dom_update case_prod_unfold)
  then show ?thesis by (simp add: last_ballots_def)
qed

lemma last_ballots_idem: "last_ballots (last_ballots bs) = last_ballots bs"
proof -
  have "distinct (map fst (d @ e)) \<Longrightarrow> fold (\<lambda>(a, b). dict_set a b) e d = d @ e" for d e :: "(int, VoteType \<times> pyfloat) dict"
    by (induction e arbitrary: d) (auto simp: dict_set_new)
  from this[of "[]"] show ?thesis using last_ballots_wf[of bs] by (simp add: last_ballots_def wf_dict_def)
qed

text \<open>In a vote that is held in one call each agent counts once, with the last vote it cast, in the place of its first one; the order in
  which the voters are registered makes no difference.\<close>

theorem only_last_vote_counts:
  assumes "lists_sets ord" "lists_sets ord'"
  shows "validate_trade_with_consensus ord p bs ws = validate_trade_with_consensus ord' p (last_ballots bs) ws"
proof -
  define w where "w = (\<lambda>a. case ws of None \<Rightarrow> 1 | Some d \<Rightarrow> (case dict_get d a of None \<Rightarrow> 1 | Some w \<Rightarrow> w))"
  define s1 where "s1 = (\<lambda>f. snd (submit_proposal p (fold (\<lambda>a. register_agent a (w a) (1 / 2)) (f (fst ` set bs))
    (protocol_init (fl (3 / 5)) (fl (4 / 5)) 2))))"
  define s2 where "s2 = (\<lambda>f. (s1 f)\<lparr>votes := [(proposal_id p, map (ballot p) (last_ballots bs))]\<rparr>)"
  have s1: "proposals (s1 o') = [(proposal_id p, p)]" "votes (s1 o') = [(proposal_id p, map (ballot p) [])]" "min_agents (s1 o') = 2"
    "quorum_threshold (s1 o') = fl (3 / 5)" "dict_get (agent_weights (s1 o')) = (\<lambda>a. if a \<in> fst ` set bs then Some (w a) else None)"
    if "lists_sets o'" for o'
    using register_loop[of w "1 / 2" "o' (fst ` set bs)" "protocol_init (fl (3 / 5)) (fl (4 / 5)) 2"] lists_setsD[OF that, of "fst ` set bs"]
    by (simp_all add: s1_def submit_proposal_def Let_def init_fields cong: if_cong)
  have loop: "fold (\<lambda>(a, ty, c) s. snd (cast_vote (proposal_id p) a ty c [] s)) cs (s1 o') = s2 o'"
    if "fst ` set cs = fst ` set bs" "last_ballots cs = last_ballots bs" "lists_sets o'" for cs o'
  proof -
    have "\<forall>(a, b) \<in> set cs. dict_get (agent_weights (s1 o')) a \<noteq> None" using s1(5)[OF that(3)] imageI[of _ "set cs" fst] that(1) by fastforce
    from cast_loop[OF _ this s1(2)[OF that(3)]] show ?thesis using that(2) s1(1)[OF that(3)] by (simp add: last_ballots_def s2_def)
  qed
  have same: "compute_consensus (proposal_id p) (s2 ord) = compute_consensus (proposal_id p) (s2 ord')"
    using s1[OF assms(1)] s1[OF assms(2)] by (intro compute_cong) (simp_all add: s2_def)
  show ?thesis
    using same loop[OF refl refl assms(1)] loop[OF last_ballots_voters last_ballots_idem assms(2)]
    by (simp add: validate_trade_with_consensus_def Let_def last_ballots_voters s1_def w_def)
qed

section \<open>Witnesses\<close>

definition demo_proposal :: "pyfloat option \<Rightarrow> TradeProposal" where
  "demo_proposal sl = \<lparr>proposal_id = ''T'', proposer = 0, action = ''BUY'', pair = ''BTC/USDT'', size_of = 1, entry_price = 100, stop_loss = sl,
     take_profit = None, p_confidence = 1, p_timestamp = 0\<rparr>"

definition demo_protocol :: "VoteType \<Rightarrow> pyfloat \<Rightarrow> VoteType \<Rightarrow> pyfloat \<Rightarrow> pyfloat option \<Rightarrow> protocol" where
  "demo_protocol t1 c1 t2 c2 sl =
     fold protocol_step [Register 1 1 (1 / 2), Register 2 1 (1 / 2), Submit (demo_proposal sl), Vote ''T'' 1 t1 c1 [], Vote ''T'' 2 t2 c2 []]
       (protocol_init (3 / 5) (4 / 5) 2)"

lemma demo_fields:
  "dict_get (proposals (demo_protocol t1 c1 t2 c2 sl)) ''T'' = Some (demo_proposal sl)"
  "votes_for ''T'' (demo_protocol t1 c1 t2 c2 sl) =
     [(1, \<lparr>agent_id = 1, vote_type = t1, confidence = c1, reasoning = [], v_timestamp = 0\<rparr>),
      (2, \<lparr>agent_id = 2, vote_type = t2, confidence = c2, reasoning = [], v_timestamp = 0\<rparr>)]"
  "min_agents (demo_protocol t1 c1 t2 c2 sl) = 2"
  "agent_weights (demo_protocol t1 c1 t2 c2 sl) = [(1, 1), (2, 1)]"
  by (simp_all add: demo_protocol_def register_agent_def submit_proposal_def cast_vote_def init_fields demo_proposal_def votes_for_def)

lemma demo_catastrophic: "classify_risk (demo_proposal None) = Inr CATASTROPHIC"
proof -
  have "fl (1 / 100) \<le> 1" "fl (1 / 20) \<le> 1" "fl (3 / 20) \<le> 1" "fl (3 / 10) \<le> 1" by code_simp+
  then show ?thesis by (simp add: classify_risk_def risk_estimate_def demo_proposal_def not_less)
qed

lemma demo_low: "classify_risk (demo_proposal (Some 100)) = Inr LOW"
proof -
  have "0 < fl (1 / 100)" by code_simp
  then show ?thesis by (simp add: classify_risk_def risk_estimate_def demo_proposal_def fdiv_def fmul_def)
qed

text \<open>A catastrophic trade is approved over a veto without confidence.\<close>

theorem unanimous_catastrophe_approved_witness:
  "\<exists>r. compute_consensus ''T'' (demo_protocol STRONG_APPROVE 1 VETO 0 None) = Inr (Some r) \<and> approved r \<and> total_score r = 1 \<and>
     risk_tier r = CATASTROPHIC"
proof (rule unanimous_catastrophe_approved[OF demo_fields(1) _ _ demo_catastrophic])
  have "fl (1 / 10 ^ 10) \<le> 1" by code_simp
  then show "fl (1 / 10 ^ 10) \<le> total_weight (count_votes (demo_protocol STRONG_APPROVE 1 VETO 0 None)
      (votes_for ''T'' (demo_protocol STRONG_APPROVE 1 VETO 0 None)))"
    by (simp add: demo_fields count_votes_def count_vote_def vote_weight_def weight_def fmul_def fadd_def)
qed (simp_all add: demo_fields vote_weight_def weight_def fmul_def)

theorem indifference_approves_witness:
  "\<exists>r. compute_consensus ''T'' (demo_protocol NEUTRAL 1 NEUTRAL 1 (Some 100)) = Inr (Some r) \<and> approved r \<and> total_score r = 0"
  by (rule indifference_approves[OF demo_fields(1) _ _ demo_low]) (simp_all add: demo_fields)

theorem consensus_score_bounded_witness:
  "\<exists>r. compute_consensus ''T'' (demo_protocol NEUTRAL 1 NEUTRAL 1 (Some 100)) = Inr (Some r) \<and> - 1 \<le> total_score r \<and> total_score r \<le> 1"
proof -
  obtain r where r: "compute_consensus ''T'' (demo_protocol NEUTRAL 1 NEUTRAL 1 (Some 100)) = Inr (Some r)"
    by (rule compute_enough[OF demo_fields(1) _ _ demo_low]) (simp_all add: demo_fields)
  then show ?thesis using consensus_score_bounded[OF r] by blast
qed

theorem only_last_vote_counts_witness:
  "validate_trade_with_consensus sorted_list_of_set (demo_proposal None) [(1, VETO, 1), (2, APPROVE, 1), (1, APPROVE, 1)] None =
   validate_trade_with_consensus sorted_list_of_set (demo_proposal None) [(1, APPROVE, 1), (2, APPROVE, 1)] None"
  using only_last_vote_counts[OF lists_sets_sorted lists_sets_sorted, of "demo_proposal None" "[(1, VETO, 1), (2, APPROVE, 1), (1, APPROVE, 1)]" None]
  by (simp add: last_ballots_def)

end
