(* ===== verification/CrossVenue.thy ===== *)
theory CrossVenue
  imports Prelude
begin

text \<open>
  \<open>venues/cross_reconciler.py\<close>: comparison of the balances and positions the bot believes in with those the venues report, alerts, and the halt of
  trading.

  The dictionaries by venue are keyed by \<open>venue.value\<close>, a different text for each venue; here they are keyed by the venue. \<open>fmt2\<close> is the
  format \<open>:.2f\<close> and \<open>clk n\<close> the n-th reading of the clock in a call.
\<close>

section \<open>Data\<close>

datatype Venue = BINANCE | COINBASE | KRAKEN | BYBIT | OKX

fun venue_value :: "Venue \<Rightarrow> string" where
  "venue_value BINANCE = ''binance''" | "venue_value COINBASE = ''coinbase''" | "venue_value KRAKEN = ''kraken''"
| "venue_value BYBIT = ''bybit''" | "venue_value OKX = ''okx''"

datatype ReconciliationStatus = MATCHED | MINOR_DRIFT | MAJOR_DRIFT | FATAL_DESYNC | MISSING_DATA

record PositionRecord =
  p_venue :: Venue
  p_symbol :: string
  quantity :: pyfloat
  avg_entry_price :: pyfloat
  unrealized_pnl :: pyfloat
  p_time :: int

record BalanceRecord =
  b_venue :: Venue
  b_asset :: string
  free :: pyfloat
  locked :: pyfloat
  total_of :: pyfloat
  b_time :: int

record ReconciliationResult =
  status :: ReconciliationStatus
  r_venue :: Venue
  asset_or_symbol :: string
  internal_value :: pyfloat
  external_value :: pyfloat
  drift_absolute :: pyfloat
  drift_pct :: pyfloat
  r_time :: int
  action_required :: "string option"

record DriftAlert =
  alert_id :: int
  severity :: string
  a_venue :: Venue
  a_name :: string
  a_drift :: pyfloat
  a_internal :: pyfloat
  a_external :: pyfloat
  detected_at :: int
  resolved :: bool
  resolution_note :: string

type_synonym 'r book = "(Venue, (string, 'r) dict) dict"

record reconciler =
  internal_positions :: "PositionRecord book"
  internal_balances :: "BalanceRecord book"
  external_positions :: "PositionRecord book"
  external_balances :: "BalanceRecord book"
  drift_threshold_pct :: pyfloat
  major_drift_threshold_pct :: pyfloat
  fatal_desync_threshold_pct :: pyfloat
  alerts :: "DriftAlert list"
  alert_counter :: int
  trading_halted :: bool
  halt_reason :: "string option"
  halt_timestamp :: "int option"
  reconciliation_count :: int
  drifts_detected :: int
  last_reconciliation :: int

definition reconciler_init :: "pyfloat \<Rightarrow> reconciler" where
  "reconciler_init t = \<lparr>internal_positions = [], internal_balances = [], external_positions = [], external_balances = [],
     drift_threshold_pct = t, major_drift_threshold_pct = fmul t 10, fatal_desync_threshold_pct = fmul t 100, alerts = [], alert_counter = 0,
     trading_halted = False, halt_reason = None, halt_timestamp = None, reconciliation_count = 0, drifts_detected = 0, last_reconciliation = 0\<rparr>"

section \<open>Records\<close>

definition book_get :: "'r book \<Rightarrow> Venue \<Rightarrow> string \<Rightarrow> 'r option" where
  "book_get b v a = (case dict_get b v of None \<Rightarrow> None | Some d \<Rightarrow> dict_get d a)"

definition book_set :: "Venue \<Rightarrow> string \<Rightarrow> 'r \<Rightarrow> 'r book \<Rightarrow> 'r book" where
  "book_set v a r b = dict_set v (dict_set a r (case dict_get b v of None \<Rightarrow> [] | Some d \<Rightarrow> d)) b"

definition new_position :: "int \<Rightarrow> Venue \<Rightarrow> string \<Rightarrow> pyfloat \<Rightarrow> pyfloat \<Rightarrow> pyfloat \<Rightarrow> PositionRecord" where
  "new_position now v sy q p u = \<lparr>p_venue = v, p_symbol = sy, quantity = q, avg_entry_price = p, unrealized_pnl = u, p_time = now\<rparr>"

definition new_balance :: "int \<Rightarrow> Venue \<Rightarrow> string \<Rightarrow> pyfloat \<Rightarrow> pyfloat \<Rightarrow> BalanceRecord" where
  "new_balance now v a f l = \<lparr>b_venue = v, b_asset = a, free = f, locked = l, total_of = fadd f l, b_time = now\<rparr>"

definition update_internal_position :: "int \<Rightarrow> Venue \<Rightarrow> string \<Rightarrow> pyfloat \<Rightarrow> pyfloat \<Rightarrow> pyfloat \<Rightarrow> reconciler \<Rightarrow> reconciler" where
  "update_internal_position now v sy q p u s =
     s\<lparr>internal_positions := book_set v sy (new_position now v sy q p u) (internal_positions s)\<rparr>"

definition update_internal_balance :: "int \<Rightarrow> Venue \<Rightarrow> string \<Rightarrow> pyfloat \<Rightarrow> pyfloat \<Rightarrow> reconciler \<Rightarrow> reconciler" where
  "update_internal_balance now v a f l s = s\<lparr>internal_balances := book_set v a (new_balance now v a f l) (internal_balances s)\<rparr>"

definition update_external_position :: "int \<Rightarrow> Venue \<Rightarrow> string \<Rightarrow> pyfloat \<Rightarrow> pyfloat \<Rightarrow> pyfloat \<Rightarrow> reconciler \<Rightarrow> reconciler" where
  "update_external_position now v sy q p u s =
     s\<lparr>external_positions := book_set v sy (new_position now v sy q p u) (external_positions s)\<rparr>"

definition update_external_balance :: "int \<Rightarrow> Venue \<Rightarrow> string \<Rightarrow> pyfloat \<Rightarrow> pyfloat \<Rightarrow> reconciler \<Rightarrow> reconciler" where
  "update_external_balance now v a f l s = s\<lparr>external_balances := book_set v a (new_balance now v a f l) (external_balances s)\<rparr>"

section \<open>Comparison\<close>

definition classify_drift :: "pyfloat \<Rightarrow> reconciler \<Rightarrow> ReconciliationStatus" where
  "classify_drift d s =
     (if d < drift_threshold_pct s then MATCHED
      else if d < major_drift_threshold_pct s then MINOR_DRIFT
      else if d < fatal_desync_threshold_pct s then MAJOR_DRIFT
      else FATAL_DESYNC)"

definition get_action :: "(pyfloat \<Rightarrow> string) \<Rightarrow> ReconciliationStatus \<Rightarrow> pyfloat \<Rightarrow> string" where
  "get_action fmt2 st d =
     (if st = MINOR_DRIFT then ''Monitor drift ('' @ fmt2 d @ ''%). Log for investigation.''
      else if st = MAJOR_DRIFT then ''Reduce position size. Investigate immediately. Drift: '' @ fmt2 d @ ''%''
      else if st = FATAL_DESYNC then ''HALT TRADING. Critical desync detected. Drift: '' @ fmt2 d @ ''%''
      else ''No action required'')"

definition create_alert :: "int \<Rightarrow> Venue \<Rightarrow> string \<Rightarrow> pyfloat \<Rightarrow> pyfloat \<Rightarrow> pyfloat \<Rightarrow> reconciler \<Rightarrow> reconciler" where
  "create_alert now v a d i e s =
     (let n = alert_counter s + 1;
          sev = (if fatal_desync_threshold_pct s \<le> d then ''critical'' else if major_drift_threshold_pct s \<le> d then ''high''
                 else if drift_threshold_pct s \<le> d then ''medium'' else ''low'');
          x = \<lparr>alert_id = n, severity = sev, a_venue = v, a_name = a, a_drift = d, a_internal = i, a_external = e, detected_at = now,
               resolved = False, resolution_note = []\<rparr>
      in s\<lparr>alert_counter := n, alerts := slice_from (- 1000) (alerts s @ [x])\<rparr>)"

definition abs_drift :: "pyfloat \<Rightarrow> pyfloat \<Rightarrow> pyfloat" where "abs_drift i e = \<bar>fsub i e\<bar>"

definition pct_drift :: "pyfloat \<Rightarrow> pyfloat \<Rightarrow> pyfloat" where
  "pct_drift d m = fmul (fdiv d (max m (fl (1 / 10 ^ 10)))) 100"

definition balance_drift :: "BalanceRecord \<Rightarrow> BalanceRecord \<Rightarrow> pyfloat" where
  "balance_drift i e = pct_drift (abs_drift (total_of i) (total_of e)) (max (total_of i) (total_of e))"

definition position_drift :: "PositionRecord \<Rightarrow> PositionRecord \<Rightarrow> pyfloat" where
  "position_drift i e = pct_drift (abs_drift (quantity i) (quantity e)) (max \<bar>quantity i\<bar> \<bar>quantity e\<bar>)"

definition missing_result :: "int \<Rightarrow> Venue \<Rightarrow> string \<Rightarrow> pyfloat \<Rightarrow> string \<Rightarrow> ReconciliationResult" where
  "missing_result now v a x what = \<lparr>status = MISSING_DATA, r_venue = v, asset_or_symbol = a, internal_value = 0, external_value = x,
     drift_absolute = x, drift_pct = 100, r_time = now, action_required = Some (''Investigate missing internal '' @ what @ '' record'')\<rparr>"

definition drift_result ::
    "(pyfloat \<Rightarrow> string) \<Rightarrow> int \<Rightarrow> ReconciliationStatus \<Rightarrow> Venue \<Rightarrow> string \<Rightarrow> pyfloat \<Rightarrow> pyfloat \<Rightarrow> pyfloat \<Rightarrow> ReconciliationResult" where
  "drift_result fmt2 now st v a i e d = \<lparr>status = st, r_venue = v, asset_or_symbol = a, internal_value = i, external_value = e,
     drift_absolute = abs_drift i e, drift_pct = d, r_time = now, action_required = Some (get_action fmt2 st d)\<rparr>"

text \<open>All records of a book with their venue and name, in the order of the two loops.\<close>

definition book_items :: "'r book \<Rightarrow> (Venue \<times> string \<times> 'r) list" where
  "book_items b = concat (map (\<lambda>(v, d). map (\<lambda>(a, r). (v, a, r)) d) b)"

text \<open>The bodies of the loops work on the results so far, the number of clock readings and the reconciler.\<close>

type_synonym run = "ReconciliationResult list \<times> nat \<times> reconciler"

definition reconcile_balance :: "(nat \<Rightarrow> int) \<Rightarrow> (pyfloat \<Rightarrow> string) \<Rightarrow> Venue \<times> string \<times> BalanceRecord \<Rightarrow> run \<Rightarrow> run" where
  "reconcile_balance clk fmt2 = (\<lambda>(v, a, e) (rs, n, s).
     case book_get (internal_balances s) v a of
       None \<Rightarrow> (rs @ [missing_result (clk n) v a (total_of e) ''balance''], n + 1, s)
     | Some i \<Rightarrow>
         (let d = balance_drift i e; st = classify_drift d s
          in if st \<noteq> MATCHED
             then (rs @ [drift_result fmt2 (clk n) st v a (total_of i) (total_of e) d], n + 2,
                   create_alert (clk (n + 1)) v a d (total_of i) (total_of e) (s\<lparr>drifts_detected := drifts_detected s + 1\<rparr>))
             else (rs, n, s)))"

definition reconcile_position :: "(nat \<Rightarrow> int) \<Rightarrow> (pyfloat \<Rightarrow> string) \<Rightarrow> Venue \<times> string \<times> PositionRecord \<Rightarrow> run \<Rightarrow> run" where
  "reconcile_position clk fmt2 = (\<lambda>(v, a, e) (rs, n, s).
     case book_get (internal_positions s) v a of
       None \<Rightarrow> (rs @ [missing_result (clk n) v a (quantity e) ''position''], n + 1, s)
     | Some i \<Rightarrow>
         (let d = position_drift i e; st = classify_drift d s
          in if st \<noteq> MATCHED
             then (rs @ [drift_result fmt2 (clk n) st v a (quantity i) (quantity e) d], n + 1, s\<lparr>drifts_detected := drifts_detected s + 1\<rparr>)
             else (rs, n, s)))"

definition reconcile_balances :: "(nat \<Rightarrow> int) \<Rightarrow> (pyfloat \<Rightarrow> string) \<Rightarrow> nat \<Rightarrow> reconciler \<Rightarrow> run" where
  "reconcile_balances clk fmt2 n s = fold (reconcile_balance clk fmt2) (book_items (external_balances s)) ([], n, s)"

definition reconcile_positions :: "(nat \<Rightarrow> int) \<Rightarrow> (pyfloat \<Rightarrow> string) \<Rightarrow> nat \<Rightarrow> reconciler \<Rightarrow> run" where
  "reconcile_positions clk fmt2 n s = fold (reconcile_position clk fmt2) (book_items (external_positions s)) ([], n, s)"

fun join :: "string \<Rightarrow> string list \<Rightarrow> string" where
  "join sep [] = []"
| "join sep [x] = x"
| "join sep (x # y # xs) = x @ sep @ join sep (y # xs)"

definition trigger_trading_halt :: "(pyfloat \<Rightarrow> string) \<Rightarrow> int \<Rightarrow> ReconciliationResult list \<Rightarrow> reconciler \<Rightarrow> reconciler" where
  "trigger_trading_halt fmt2 now rs s =
     s\<lparr>trading_halted := True, halt_timestamp := Some now,
       halt_reason := Some (''Fatal reconciliation desync: '' @
         join ''; '' (map (\<lambda>r. venue_value (r_venue r) @ ''/'' @ asset_or_symbol r @ '': '' @ fmt2 (drift_pct r) @ ''% drift'') (take 5 rs)))\<rparr>"

definition reconcile_all :: "(nat \<Rightarrow> int) \<Rightarrow> (pyfloat \<Rightarrow> string) \<Rightarrow> reconciler \<Rightarrow> ReconciliationResult list \<times> reconciler" where
  "reconcile_all clk fmt2 s =
     (let (rs1, n1, s1) = reconcile_balances clk fmt2 1 (s\<lparr>reconciliation_count := reconciliation_count s + 1, last_reconciliation := clk 0\<rparr>);
          (rs2, n2, s2) = reconcile_positions clk fmt2 n1 s1;
          rs = rs1 @ rs2;
          fatal = filter (\<lambda>r. status r = FATAL_DESYNC) rs
      in (rs, if fatal \<noteq> [] then trigger_trading_halt fmt2 (clk n2) fatal s2 else s2))"

section \<open>Halt, alerts and statistics\<close>

definition resume_trading :: "string \<Rightarrow> reconciler \<Rightarrow> reconciler" where
  "resume_trading why s = s\<lparr>trading_halted := False, halt_reason := None, halt_timestamp := None\<rparr>"

definition is_trading_halted :: "reconciler \<Rightarrow> bool" where
  "is_trading_halted s = trading_halted s"

definition get_halt_info :: "reconciler \<Rightarrow> bool \<times> string option \<times> int option" where
  "get_halt_info s = (trading_halted s, halt_reason s, halt_timestamp s)"

definition get_unresolved_alerts :: "reconciler \<Rightarrow> DriftAlert list" where
  "get_unresolved_alerts s = filter (\<lambda>a. \<not> resolved a) (alerts s)"

fun mark_first :: "int \<Rightarrow> string \<Rightarrow> DriftAlert list \<Rightarrow> DriftAlert list option" where
  "mark_first i note [] = None"
| "mark_first i note (a # as) =
     (if alert_id a = i then Some (a\<lparr>resolved := True, resolution_note := note\<rparr> # as) else map_option (Cons a) (mark_first i note as))"

definition resolve_alert :: "int \<Rightarrow> string \<Rightarrow> reconciler \<Rightarrow> bool \<times> reconciler" where
  "resolve_alert i note s = (case mark_first i note (alerts s) of None \<Rightarrow> (False, s) | Some as \<Rightarrow> (True, s\<lparr>alerts := as\<rparr>))"

record stats =
  s_count :: int
  s_drifts :: int
  s_alerts :: int
  s_unresolved :: int
  s_halted :: bool
  s_last :: int

definition get_statistics :: "reconciler \<Rightarrow> stats" where
  "get_statistics s = \<lparr>s_count = reconciliation_count s, s_drifts = drifts_detected s, s_alerts = int (length (alerts s)),
     s_unresolved = int (length (get_unresolved_alerts s)), s_halted = trading_halted s, s_last = last_reconciliation s\<rparr>"


section \<open>What a reconciliation looks at and what it changes\<close>

definition balance_status :: "reconciler \<Rightarrow> Venue \<times> string \<times> BalanceRecord \<Rightarrow> ReconciliationStatus" where
  "balance_status s = (\<lambda>(v, a, e). case book_get (internal_balances s) v a of None \<Rightarrow> MISSING_DATA | Some i \<Rightarrow> classify_drift (balance_drift i e) s)"

definition position_status :: "reconciler \<Rightarrow> Venue \<times> string \<times> PositionRecord \<Rightarrow> ReconciliationStatus" where
  "position_status s = (\<lambda>(v, a, e). case book_get (internal_positions s) v a of None \<Rightarrow> MISSING_DATA | Some i \<Rightarrow> classify_drift (position_drift i e) s)"

text \<open>The loops only touch the alerts and the counters.\<close>

definition frame :: "reconciler \<Rightarrow> reconciler \<Rightarrow> bool" where
  "frame s t \<longleftrightarrow>
     internal_positions t = internal_positions s \<and> internal_balances t = internal_balances s \<and> external_positions t = external_positions s \<and>
     external_balances t = external_balances s \<and> drift_threshold_pct t = drift_threshold_pct s \<and> major_drift_threshold_pct t = major_drift_threshold_pct s \<and>
     fatal_desync_threshold_pct t = fatal_desync_threshold_pct s \<and> trading_halted t = trading_halted s \<and> halt_reason t = halt_reason s \<and>
     halt_timestamp t = halt_timestamp s \<and> reconciliation_count t = reconciliation_count s \<and> last_reconciliation t = last_reconciliation s"

lemma frame_refl [simp]: "frame s s" by (simp add: frame_def)

lemma frame_trans: "frame s t \<Longrightarrow> frame t u \<Longrightarrow> frame s u"
  by (simp add: frame_def)

lemma frame_fields:
  assumes "frame s t"
  shows "internal_balances t = internal_balances s" "internal_positions t = internal_positions s" "external_balances t = external_balances s"
    "external_positions t = external_positions s" "trading_halted t = trading_halted s" "classify_drift d t = classify_drift d s"
    "halt_reason t = halt_reason s" "halt_timestamp t = halt_timestamp s"
  using assms by (simp_all add: frame_def classify_drift_def)

lemma frame_status: "frame s t \<Longrightarrow> balance_status t = balance_status s" "frame s t \<Longrightarrow> position_status t = position_status s"
  by (auto simp: balance_status_def position_status_def frame_fields fun_eq_iff split: option.split)

lemma frame_alert: "frame s (create_alert now v a d i e (s\<lparr>drifts_detected := m\<rparr>))"
  by (simp add: frame_def create_alert_def Let_def)

lemma balance_step:
  assumes "reconcile_balance clk fmt2 x (rs, n, s) = (rs', n', s')"
  shows "frame s s' \<and> map status rs' = map status rs @ filter (\<lambda>st. st \<noteq> MATCHED) [balance_status s x]"
  using assms frame_alert[of s] by (cases x) (auto simp: reconcile_balance_def balance_status_def missing_result_def drift_result_def Let_def
      split: option.splits if_splits)

lemma position_step:
  assumes "reconcile_position clk fmt2 x (rs, n, s) = (rs', n', s')"
  shows "frame s s' \<and> alerts s' = alerts s \<and> map status rs' = map status rs @ filter (\<lambda>st. st \<noteq> MATCHED) [position_status s x]"
  using assms by (cases x) (auto simp: reconcile_position_def position_status_def missing_result_def drift_result_def Let_def frame_def
      split: option.splits if_splits)

lemma balances_run:
  assumes "fold (reconcile_balance clk fmt2) xs (rs, n, s) = (rs', n', s')"
  shows "frame s s' \<and> map status rs' = map status rs @ filter (\<lambda>st. st \<noteq> MATCHED) (map (balance_status s) xs)"
  using assms
proof (induction xs arbitrary: rs n s)
  case (Cons x xs)
  obtain rs1 n1 s1 where x: "reconcile_balance clk fmt2 x (rs, n, s) = (rs1, n1, s1)" by (metis prod_cases3)
  note one = balance_step[OF x]
  with Cons.IH[of rs1 n1 s1] Cons.prems x have "frame s1 s'" "map status rs' = map status rs1 @ filter (\<lambda>st. st \<noteq> MATCHED) (map (balance_status s) xs)"
    by (auto simp: frame_status)
  then show ?case using one frame_trans by auto
qed simp

lemma positions_run:
  assumes "fold (reconcile_position clk fmt2) xs (rs, n, s) = (rs', n', s')"
  shows "frame s s' \<and> alerts s' = alerts s \<and> map status rs' = map status rs @ filter (\<lambda>st. st \<noteq> MATCHED) (map (position_status s) xs)"
  using assms
proof (induction xs arbitrary: rs n s)
  case (Cons x xs)
  obtain rs1 n1 s1 where x: "reconcile_position clk fmt2 x (rs, n, s) = (rs1, n1, s1)" by (metis prod_cases3)
  note one = position_step[OF x]
  with Cons.IH[of rs1 n1 s1] Cons.prems x have "frame s1 s'" "alerts s' = alerts s1"
    "map status rs' = map status rs1 @ filter (\<lambda>st. st \<noteq> MATCHED) (map (position_status s) xs)"
    by (auto simp: frame_status)
  then show ?case using one frame_trans by auto
qed simp

definition all_statuses :: "reconciler \<Rightarrow> ReconciliationStatus list" where
  "all_statuses s = map (balance_status s) (book_items (external_balances s)) @ map (position_status s) (book_items (external_positions s))"

definition started :: "(nat \<Rightarrow> int) \<Rightarrow> reconciler \<Rightarrow> reconciler" where
  "started clk s = s\<lparr>reconciliation_count := reconciliation_count s + 1, last_reconciliation := clk 0\<rparr>"

lemma started_status [simp]: "balance_status (started clk s) = balance_status s" "position_status (started clk s) = position_status s"
  by (auto simp: started_def balance_status_def position_status_def classify_drift_def fun_eq_iff split: option.split)

lemma filter_status: "filter (\<lambda>r. status r = x) rs \<noteq> [] \<longleftrightarrow> x \<in> set (map status rs)"
  by (induction rs) auto

lemma reconcile_all_run:
  obtains rs1 n1 s1 rs2 n2 s2 where
    "reconcile_balances clk fmt2 1 (started clk s) = (rs1, n1, s1)" "reconcile_positions clk fmt2 n1 s1 = (rs2, n2, s2)"
    "fst (reconcile_all clk fmt2 s) = rs1 @ rs2" "map status (rs1 @ rs2) = filter (\<lambda>st. st \<noteq> MATCHED) (all_statuses s)"
    "frame (started clk s) s2" "alerts s2 = alerts s1"
    "snd (reconcile_all clk fmt2 s) = (if FATAL_DESYNC \<in> set (all_statuses s)
       then trigger_trading_halt fmt2 (clk n2) (filter (\<lambda>r. status r = FATAL_DESYNC) (rs1 @ rs2)) s2 else s2)"
proof -
  obtain rs1 n1 s1 where a: "reconcile_balances clk fmt2 1 (started clk s) = (rs1, n1, s1)" by (metis prod_cases3)
  obtain rs2 n2 s2 where b: "reconcile_positions clk fmt2 n1 s1 = (rs2, n2, s2)" by (metis prod_cases3)
  note fa = balances_run[OF a[unfolded reconcile_balances_def]] and fb = positions_run[OF b[unfolded reconcile_positions_def]]
  have "external_balances (started clk s) = external_balances s" "external_positions s1 = external_positions s"
    using fa by (simp_all add: started_def frame_fields(4)[of "started clk s" s1])
  then have st: "map status (rs1 @ rs2) = filter (\<lambda>st. st \<noteq> MATCHED) (all_statuses s)"
    using fa fb frame_status[of "started clk s" s1] by (simp add: all_statuses_def)
  have "filter (\<lambda>r. status r = FATAL_DESYNC) (rs1 @ rs2) \<noteq> [] \<longleftrightarrow> FATAL_DESYNC \<in> set (map status (rs1 @ rs2))"
    by (rule filter_status)
  then have f: "filter (\<lambda>r. status r = FATAL_DESYNC) (rs1 @ rs2) \<noteq> [] \<longleftrightarrow> FATAL_DESYNC \<in> set (all_statuses s)"
    unfolding st by simp
  have all: "reconcile_all clk fmt2 s = (rs1 @ rs2, if filter (\<lambda>r. status r = FATAL_DESYNC) (rs1 @ rs2) \<noteq> []
      then trigger_trading_halt fmt2 (clk n2) (filter (\<lambda>r. status r = FATAL_DESYNC) (rs1 @ rs2)) s2 else s2)"
    using a b unfolding reconcile_all_def started_def by (simp only: Let_def prod.case)
  show ?thesis
    by (rule that[OF a b _ st]) (use all f fa fb frame_trans in auto)
qed

lemma matched_iff:
  "balance_status s x = MATCHED \<longleftrightarrow>
     (case x of (v, a, e) \<Rightarrow> \<exists>i. book_get (internal_balances s) v a = Some i \<and> balance_drift i e < drift_threshold_pct s)"
  "position_status s y = MATCHED \<longleftrightarrow>
     (case y of (v, a, e) \<Rightarrow> \<exists>i. book_get (internal_positions s) v a = Some i \<and> position_drift i e < drift_threshold_pct s)"
  by (auto simp: balance_status_def position_status_def classify_drift_def split: option.splits if_splits)

text \<open>A reconciliation finds nothing exactly when the bot has a record of every balance and position the venues report and each of them is within the
  drift threshold.\<close>

theorem silent_iff_all_within:
  "fst (reconcile_all clk fmt2 s) = [] \<longleftrightarrow>
   (\<forall>(v, a, e) \<in> set (book_items (external_balances s)).
      \<exists>i. book_get (internal_balances s) v a = Some i \<and> balance_drift i e < drift_threshold_pct s) \<and>
   (\<forall>(v, a, e) \<in> set (book_items (external_positions s)).
      \<exists>i. book_get (internal_positions s) v a = Some i \<and> position_drift i e < drift_threshold_pct s)"
proof -
  obtain rs where rs: "fst (reconcile_all clk fmt2 s) = rs" "map status rs = filter (\<lambda>st. st \<noteq> MATCHED) (all_statuses s)"
    by (rule reconcile_all_run[of clk fmt2 s]) blast
  have "rs = [] \<longleftrightarrow> (\<forall>st \<in> set (all_statuses s). st = MATCHED)" using arg_cong[OF rs(2), of length] by (auto simp: filter_empty_conv)
  also have "\<dots> \<longleftrightarrow> (\<forall>x \<in> set (book_items (external_balances s)). balance_status s x = MATCHED) \<and>
      (\<forall>x \<in> set (book_items (external_positions s)). position_status s x = MATCHED)"
    unfolding all_statuses_def by (simp only: set_append set_map ball_Un ball_simps)
  finally show ?thesis unfolding rs(1) matched_iff .
qed

section \<open>Funds only the bot knows of\<close>

lemma fold_commutes:
  assumes "\<And>x rs n s. x \<in> set xs \<Longrightarrow> P s \<Longrightarrow> f x (rs, n, u s) = apsnd (apsnd u) (f x (rs, n, s))"
    "\<And>x rs n s. P s \<Longrightarrow> P (snd (snd (f x (rs, n, s))))" "P s"
  shows "fold f xs (rs, n, u s) = apsnd (apsnd u) (fold f xs (rs, n, s))"
  using assms(1,3)
proof (induction xs arbitrary: rs n s)
  case (Cons x xs)
  obtain rs1 n1 s1 where x: "f x (rs, n, s) = (rs1, n1, s1)" by (metis prod_cases3)
  have "P s1" using assms(2)[OF Cons.prems(2), of x rs n] x by simp
  then show ?case using Cons.IH[of s1 rs1 n1] Cons.prems(1)[OF _ Cons.prems(2), of x rs n] Cons.prems(1) x by simp
qed simp

lemma book_get_set: "book_get (book_set v a r b) v' a' = (if v' = v \<and> a' = a then Some r else book_get b v' a')"
  by (auto simp: book_get_def book_set_def dict_get_set split: option.split)

lemma book_items_get:
  assumes "(v, a, r) \<in> set (book_items b)" "wf_dict b"
  shows "book_get b v a \<noteq> None"
proof -
  obtain d where d: "(v, d) \<in> set b" "(a, r) \<in> set d" using assms(1) by (auto simp: book_items_def)
  then have "dict_get d a \<noteq> None" by (metis domI domIff map_of_eq_None_iff image_eqI fst_conv)
  then show ?thesis using d(1) assms(2) by (simp add: book_get_def wf_dict_mem)
qed

lemma classify_other [simp]:
  "classify_drift d (s\<lparr>internal_balances := b\<rparr>) = classify_drift d s"
  "classify_drift d (s\<lparr>external_positions := p\<rparr>) = classify_drift d s"
  by (simp_all add: classify_drift_def)

lemma balance_step_unseen:
  assumes "(w, b) \<noteq> (v, a)"
  shows "reconcile_balance clk fmt2 (w, b, e) (rs, n, s\<lparr>internal_balances := book_set v a r (internal_balances s)\<rparr>) =
    apsnd (apsnd (\<lambda>s. s\<lparr>internal_balances := book_set v a r (internal_balances s)\<rparr>)) (reconcile_balance clk fmt2 (w, b, e) (rs, n, s))"
proof -
  have "book_get (book_set v a r (internal_balances s)) w b = book_get (internal_balances s) w b" using assms by (auto simp: book_get_set)
  then show ?thesis
    by (cases "book_get (internal_balances s) w b") (simp_all add: reconcile_balance_def create_alert_def Let_def)
qed

lemma balance_loop_unseen:
  assumes "\<forall>(w, b, e) \<in> set xs. (w, b) \<noteq> (v, a)"
  shows "fold (reconcile_balance clk fmt2) xs (rs, n, s\<lparr>internal_balances := book_set v a r (internal_balances s)\<rparr>) =
    apsnd (apsnd (\<lambda>s. s\<lparr>internal_balances := book_set v a r (internal_balances s)\<rparr>)) (fold (reconcile_balance clk fmt2) xs (rs, n, s))"
proof (rule fold_commutes[where P = "\<lambda>s. True"])
  fix x rs n s assume x: "x \<in> set xs"
  obtain w b e where e: "x = (w, b, e)" by (cases x)
  have "(w, b) \<noteq> (v, a)" using assms x unfolding e by auto
  then show "reconcile_balance clk fmt2 x (rs, n, s\<lparr>internal_balances := book_set v a r (internal_balances s)\<rparr>) =
    apsnd (apsnd (\<lambda>s. s\<lparr>internal_balances := book_set v a r (internal_balances s)\<rparr>)) (reconcile_balance clk fmt2 x (rs, n, s))"
    unfolding e by (rule balance_step_unseen)
qed simp_all

lemma position_loop_balances:
  "fold (reconcile_position clk fmt2) xs (rs, n, s\<lparr>internal_balances := book_set v a r (internal_balances s)\<rparr>) =
    apsnd (apsnd (\<lambda>s. s\<lparr>internal_balances := book_set v a r (internal_balances s)\<rparr>)) (fold (reconcile_position clk fmt2) xs (rs, n, s))"
  by (rule fold_commutes[where P = "\<lambda>s. True"])
    (auto simp: reconcile_position_def Let_def split: option.split)

text \<open>Funds that a venue no longer reports are never missed: a balance the bot believes in, of whatever size, changes neither the findings of a
  reconciliation nor the halt of trading as long as the venue reports no balance of that asset.\<close>

theorem unreported_funds_unseen:
  assumes "book_get (external_balances s) v a = None" "wf_dict (external_balances s)"
  shows "let s' = update_internal_balance now v a f l s
    in fst (reconcile_all clk fmt2 s') = fst (reconcile_all clk fmt2 s) \<and>
       trading_halted (snd (reconcile_all clk fmt2 s')) = trading_halted (snd (reconcile_all clk fmt2 s))"
proof -
  let ?u = "\<lambda>s. s\<lparr>internal_balances := book_set v a (new_balance now v a f l) (internal_balances s)\<rparr>"
  obtain rs1 n1 s1 where a: "reconcile_balances clk fmt2 1 (started clk s) = (rs1, n1, s1)" by (metis prod_cases3)
  obtain rs2 n2 s2 where b: "reconcile_positions clk fmt2 n1 s1 = (rs2, n2, s2)" by (metis prod_cases3)
  have u: "started clk (?u s) = ?u (started clk s)" and external_started: "external_balances (started clk s) = external_balances s"
    by (simp_all add: started_def)
  have "\<forall>(w, b, e) \<in> set (book_items (external_balances s)). (w, b) \<noteq> (v, a)"
    using assms book_items_get[of v a _ "external_balances s"] by auto
  from balance_loop_unseen[OF this, where clk = clk and rs = "[]" and n = 1 and s = "started clk s"]
  have a': "reconcile_balances clk fmt2 1 (started clk (?u s)) = (rs1, n1, ?u s1)"
    using a u by (simp add: reconcile_balances_def external_started)
  from position_loop_balances[where xs = "book_items (external_positions s1)" and rs = "[]" and n = n1 and s = s1]
  have b': "reconcile_positions clk fmt2 n1 (?u s1) = (rs2, n2, ?u s2)" using b by (simp add: reconcile_positions_def)
  have all: "reconcile_all clk fmt2 t = (rs1 @ rs2, if filter (\<lambda>r. status r = FATAL_DESYNC) (rs1 @ rs2) \<noteq> []
      then trigger_trading_halt fmt2 (clk n2) (filter (\<lambda>r. status r = FATAL_DESYNC) (rs1 @ rs2)) t2 else t2)"
    if "reconcile_balances clk fmt2 1 (started clk t) = (rs1, n1, t1)" "reconcile_positions clk fmt2 n1 t1 = (rs2, n2, t2)" for t t1 t2
    using that unfolding reconcile_all_def started_def by (simp only: Let_def prod.case)
  show ?thesis using all[OF a b] all[OF a' b'] by (simp add: update_internal_balance_def Let_def trigger_trading_halt_def)
qed

text \<open>A drift of a position, however large, never raises an alert: with and without the positions the venues report a reconciliation leaves the same
  alerts.\<close>

theorem positions_never_alert:
  "alerts (snd (reconcile_all clk fmt2 s)) = alerts (snd (reconcile_all clk fmt2 (s\<lparr>external_positions := []\<rparr>)))"
proof -
  let ?u = "\<lambda>s::reconciler. s\<lparr>external_positions := []\<rparr>"
  have "alerts (snd (reconcile_all clk fmt2 s)) = alerts (snd (snd (reconcile_balances clk fmt2 1 (started clk s))))" for s
    by (rule reconcile_all_run[of clk fmt2 s]) (simp add: trigger_trading_halt_def)
  moreover have "reconcile_balances clk fmt2 1 (?u (started clk s)) = apsnd (apsnd ?u) (reconcile_balances clk fmt2 1 (started clk s))"
    unfolding reconcile_balances_def
    by (simp, rule fold_commutes[where P = "\<lambda>s. True"])
      (auto simp: reconcile_balance_def create_alert_def Let_def split: option.split)
  moreover have "started clk (?u s) = ?u (started clk s)" by (simp add: started_def)
  ultimately show ?thesis by (simp add: case_prod_unfold apsnd_def)
qed

section \<open>Runs\<close>

datatype reconciler_op =
    InternalPosition int Venue string pyfloat pyfloat pyfloat
  | InternalBalance int Venue string pyfloat pyfloat
  | ExternalPosition int Venue string pyfloat pyfloat pyfloat
  | ExternalBalance int Venue string pyfloat pyfloat
  | ReconcileAll "nat \<Rightarrow> int" "pyfloat \<Rightarrow> string"
  | Resume string
  | Resolve int string

fun reconciler_step :: "reconciler_op \<Rightarrow> reconciler \<Rightarrow> reconciler" where
  "reconciler_step (InternalPosition now v sy q p u) s = update_internal_position now v sy q p u s"
| "reconciler_step (InternalBalance now v a f l) s = update_internal_balance now v a f l s"
| "reconciler_step (ExternalPosition now v sy q p u) s = update_external_position now v sy q p u s"
| "reconciler_step (ExternalBalance now v a f l) s = update_external_balance now v a f l s"
| "reconciler_step (ReconcileAll clk fmt2) s = snd (reconcile_all clk fmt2 s)"
| "reconciler_step (Resume why) s = resume_trading why s"
| "reconciler_step (Resolve i note) s = snd (resolve_alert i note s)"

definition alerts_ok :: "reconciler \<Rightarrow> bool" where
  "alerts_ok s \<longleftrightarrow> sorted_wrt (<) (map alert_id (alerts s)) \<and> (\<forall>a \<in> set (alerts s). alert_id a \<le> alert_counter s) \<and>
     length (alerts s) \<le> 1000 \<and> alert_counter s \<le> drifts_detected s"

definition reconciler_inv :: "pyfloat \<Rightarrow> reconciler \<Rightarrow> bool" where
  "reconciler_inv t s \<longleftrightarrow> alerts_ok s \<and> drift_threshold_pct s = t \<and> major_drift_threshold_pct s = fmul t 10 \<and>
     fatal_desync_threshold_pct s = fmul t 100 \<and> wf_dict (external_balances s) \<and>
     (trading_halted s \<longleftrightarrow> halt_reason s \<noteq> None) \<and> (trading_halted s \<longleftrightarrow> halt_timestamp s \<noteq> None)"

lemma create_alert_ok:
  assumes "alerts_ok s"
  shows "alerts_ok (create_alert now v a d i e (s\<lparr>drifts_detected := drifts_detected s + 1\<rparr>))"
proof -
  define x where "x = \<lparr>alert_id = alert_counter s + 1,
      severity = (if fatal_desync_threshold_pct s \<le> d then ''critical'' else if major_drift_threshold_pct s \<le> d then ''high''
                 else if drift_threshold_pct s \<le> d then ''medium'' else ''low''),
      a_venue = v, a_name = a, a_drift = d, a_internal = i, a_external = e, detected_at = now, resolved = False, resolution_note = []\<rparr>"
  define ys where "ys = alerts s @ [x]"
  have ys: "sorted_wrt (<) (map alert_id ys)" "\<forall>a \<in> set ys. alert_id a \<le> alert_counter s + 1"
    using assms by (force simp: alerts_ok_def x_def ys_def sorted_wrt_append)+
  define zs where "zs = slice_from (- 1000) ys"
  have "\<exists>k. zs = drop k ys" by (auto simp: slice_from_def zs_def)
  then have "sorted_wrt (<) (map alert_id zs)" using sorted_wrt_drop[OF ys(1)] by (auto simp: drop_map)
  moreover have "\<forall>a \<in> set zs. alert_id a \<le> alert_counter s + 1" using ys(2) set_slice_from[of "- 1000" ys] by (auto simp: zs_def)
  moreover have "length zs \<le> 1000" using length_slice_le[of 1000 ys] by (simp add: zs_def)
  moreover have "create_alert now v a d i e (s\<lparr>drifts_detected := drifts_detected s + 1\<rparr>) =
      s\<lparr>drifts_detected := drifts_detected s + 1, alert_counter := alert_counter s + 1, alerts := zs\<rparr>"
    by (simp add: create_alert_def x_def ys_def zs_def Let_def)
  ultimately show ?thesis using assms by (simp add: alerts_ok_def)
qed

lemma balance_loop_alerts:
  "alerts_ok s \<Longrightarrow> alerts_ok (snd (snd (fold (reconcile_balance clk fmt2) xs (rs, n, s))))"
proof (induction xs arbitrary: rs n s)
  case (Cons x xs)
  obtain rs1 n1 s1 where x: "reconcile_balance clk fmt2 x (rs, n, s) = (rs1, n1, s1)" by (metis prod_cases3)
  have "alerts_ok s1" using x Cons.prems create_alert_ok[OF Cons.prems]
    by (cases x) (auto simp: reconcile_balance_def Let_def split: option.splits if_splits)
  then show ?case using x Cons.IH by simp
qed simp

lemma position_loop_alerts:
  "alerts_ok s \<Longrightarrow> alerts_ok (snd (snd (fold (reconcile_position clk fmt2) xs (rs, n, s))))"
proof (induction xs arbitrary: rs n s)
  case (Cons x xs)
  obtain rs1 n1 s1 where x: "reconcile_position clk fmt2 x (rs, n, s) = (rs1, n1, s1)" by (metis prod_cases3)
  have "alerts_ok s1" using x Cons.prems
    by (cases x) (auto simp: reconcile_position_def Let_def alerts_ok_def split: option.splits if_splits)
  then show ?case using x Cons.IH by simp
qed simp

lemma mark_first_ids: "mark_first i note xs = Some ys \<Longrightarrow> map alert_id ys = map alert_id xs"
  by (induction xs arbitrary: ys) (auto split: if_splits)

lemma resolve_inv: "reconciler_inv t s \<Longrightarrow> reconciler_inv t (snd (resolve_alert i note s))"
proof (cases "mark_first i note (alerts s)")
  case (Some ys)
  have "map alert_id ys = map alert_id (alerts s)" by (rule mark_first_ids[OF Some])
  moreover from this have "length ys = length (alerts s)" by (metis length_map)
  moreover from calculation have "\<forall>a \<in> set ys. alert_id a \<in> alert_id ` set (alerts s)" by (metis imageI list.set_map)
  ultimately show "reconciler_inv t s \<Longrightarrow> reconciler_inv t (snd (resolve_alert i note s))"
    using Some by (auto simp: resolve_alert_def reconciler_inv_def alerts_ok_def)
qed (simp add: resolve_alert_def)

lemma reconcile_all_inv:
  assumes "reconciler_inv t s"
  shows "reconciler_inv t (snd (reconcile_all clk fmt2 s))"
proof -
  obtain rs1 n1 s1 rs2 n2 s2 where r: "reconcile_balances clk fmt2 1 (started clk s) = (rs1, n1, s1)"
    "reconcile_positions clk fmt2 n1 s1 = (rs2, n2, s2)" "frame (started clk s) s2"
    "snd (reconcile_all clk fmt2 s) = (if FATAL_DESYNC \<in> set (all_statuses s)
       then trigger_trading_halt fmt2 (clk n2) (filter (\<lambda>r. status r = FATAL_DESYNC) (rs1 @ rs2)) s2 else s2)"
    by (rule reconcile_all_run[of clk fmt2 s]) blast
  have "alerts_ok (started clk s)" using assms by (simp add: reconciler_inv_def alerts_ok_def started_def)
  then have "alerts_ok s1" using r(1) balance_loop_alerts by (metis reconcile_balances_def snd_conv)
  then have "alerts_ok s2" using r(2) position_loop_alerts by (metis reconcile_positions_def snd_conv)
  moreover have "reconciler_inv t s2 \<longleftrightarrow> alerts_ok s2"
    using assms r(3) by (auto simp: reconciler_inv_def frame_def started_def)
  ultimately show ?thesis using r(4) by (auto simp: reconciler_inv_def trigger_trading_halt_def alerts_ok_def)
qed

lemma reconciler_step_inv:
  assumes "reconciler_inv t s"
  shows "reconciler_inv t (reconciler_step x s)"
proof (cases x)
  case (ReconcileAll clk fmt2)
  then show ?thesis using assms by (simp add: reconcile_all_inv)
next
  case (Resolve i why)
  then show ?thesis using assms by (simp add: resolve_inv)
qed (use assms in \<open>auto simp: reconciler_inv_def alerts_ok_def update_internal_position_def update_internal_balance_def
    update_external_position_def update_external_balance_def resume_trading_def book_set_def\<close>)

interpretation reconciling: op_machine reconciler_step "reconciler_inv t"
  by unfold_locales (rule reconciler_step_inv)

lemma reconciler_init_inv: "reconciler_inv t (reconciler_init t)"
  by (simp add: reconciler_inv_def reconciler_init_def alerts_ok_def)

lemma alerts_and_halt_inv: "reconciler_inv t (fold reconciler_step xs (reconciler_init t))"
  by (rule reconciling.run_inv) (rule reconciler_init_inv)

text \<open>In every run of calls the alerts have increasing numbers up to the counter and are at most a thousand, every alert was counted as a drift, and
  trading is halted exactly when a reason and a time of the halt are recorded.\<close>

theorem alerts_and_halt_recorded:
  "reconciler_inv t (fold reconciler_step xs (reconciler_init t))"
  by (rule alerts_and_halt_inv)

lemma drift_nonneg: "0 \<le> pct_drift (abs_drift i e) m"
proof -
  have "0 < fl (1 / 10 ^ 10)" by code_simp
  then have "0 \<le> abs_drift i e / max m (fl (1 / 10 ^ 10))" by (simp add: abs_drift_def)
  then show ?thesis by (simp add: pct_drift_def fdiv_def fmul_def)
qed

lemma fatal_status:
  assumes "reconciler_inv t s" "is_float t" "0 \<le> d"
  shows "classify_drift d s = FATAL_DESYNC \<longleftrightarrow> fatal_desync_threshold_pct s \<le> d"
proof (cases "0 \<le> t")
  case True
  have "t \<le> fmul t 10" using True assms(2) fl_mono[of t "t * 10"] by (simp add: fmul_def is_float_def)
  moreover have "fmul t 10 \<le> fmul t 100" using True by (auto simp: fmul_def intro!: fl_mono)
  ultimately show ?thesis using assms(1) by (auto simp: classify_drift_def reconciler_inv_def)
next
  case False
  then have "fmul t 10 \<le> 0" "fmul t 100 \<le> 0" using fl_mono[of "t * 10" 0] fl_mono[of "t * 100" 0] by (simp_all add: fmul_def)
  then show ?thesis using assms(1,3) False by (auto simp: classify_drift_def reconciler_inv_def)
qed

text \<open>C36: In every reachable state a reconciliation halts trading exactly when a balance or position the venues report differs from the bot's record by at
  least the fatal threshold, which is a hundred times the drift threshold; a record the bot lacks never halts it.\<close>

theorem halts_iff_fatal_drift:
  assumes "s = fold reconciler_step xs (reconciler_init t)" "is_float t"
  shows "trading_halted (snd (reconcile_all clk fmt2 s)) \<longleftrightarrow>
    trading_halted s \<or>
    (\<exists>(v, a, e) \<in> set (book_items (external_balances s)).
       \<exists>i. book_get (internal_balances s) v a = Some i \<and> fmul t 100 \<le> balance_drift i e) \<or>
    (\<exists>(v, a, e) \<in> set (book_items (external_positions s)).
       \<exists>i. book_get (internal_positions s) v a = Some i \<and> fmul t 100 \<le> position_drift i e)"
proof -
  have inv: "reconciler_inv t s" unfolding assms(1) by (rule alerts_and_halt_inv)
  have f: "classify_drift d s = FATAL_DESYNC \<longleftrightarrow> fmul t 100 \<le> d" if "0 \<le> d" for d
    using fatal_status[OF inv assms(2) that] inv by (simp add: reconciler_inv_def)
  have b: "balance_status s x = FATAL_DESYNC \<longleftrightarrow>
      (case x of (v, a, e) \<Rightarrow> \<exists>i. book_get (internal_balances s) v a = Some i \<and> fmul t 100 \<le> balance_drift i e)" for x
    by (auto simp: balance_status_def balance_drift_def f[OF drift_nonneg] split: option.splits)
  have p: "position_status s x = FATAL_DESYNC \<longleftrightarrow>
      (case x of (v, a, e) \<Rightarrow> \<exists>i. book_get (internal_positions s) v a = Some i \<and> fmul t 100 \<le> position_drift i e)" for x
    by (auto simp: position_status_def position_drift_def f[OF drift_nonneg] split: option.splits)
  have "trading_halted (snd (reconcile_all clk fmt2 s)) \<longleftrightarrow> trading_halted s \<or> FATAL_DESYNC \<in> set (all_statuses s)"
    by (rule reconcile_all_run[of clk fmt2 s]) (auto simp: frame_fields trigger_trading_halt_def started_def)
  also have "FATAL_DESYNC \<in> set (all_statuses s) \<longleftrightarrow>
      (\<exists>x \<in> set (book_items (external_balances s)). balance_status s x = FATAL_DESYNC) \<or>
      (\<exists>x \<in> set (book_items (external_positions s)). position_status s x = FATAL_DESYNC)"
    unfolding all_statuses_def set_append set_map Un_iff image_iff by (simp only: eq_commute)
  finally show ?thesis unfolding b p .
qed

text \<open>Once trading is halted it stays halted, with the reason recorded, whatever is updated, reconciled or resolved, until somebody resumes it.\<close>

theorem halt_persists:
  assumes "reconciler_inv t s" "trading_halted s" "\<forall>x \<in> set xs. \<forall>why. x \<noteq> Resume why"
  shows "trading_halted (fold reconciler_step xs s) \<and> halt_reason (fold reconciler_step xs s) \<noteq> None"
proof -
  have "trading_halted s \<longrightarrow> trading_halted (fold reconciler_step xs s)"
  proof (rule reconciling.run_rel[OF assms(1,3)])
    fix x s assume "\<forall>why. x \<noteq> Resume why"
    then show "trading_halted s \<longrightarrow> trading_halted (reconciler_step x s)"
    proof (cases x)
      case (ReconcileAll clk fmt2)
      then show ?thesis
        by simp (rule reconcile_all_run[of clk fmt2 s], auto simp: frame_fields trigger_trading_halt_def started_def)
    qed (auto simp: update_internal_position_def update_internal_balance_def update_external_position_def
        update_external_balance_def resolve_alert_def split: option.split)
  qed simp_all
  moreover have "reconciler_inv t (fold reconciler_step xs s)" by (rule reconciling.run_inv[OF assms(1)])
  ultimately show ?thesis using assms(2) by (simp add: reconciler_inv_def)
qed

section \<open>Wide thresholds\<close>

definition normal_record :: "reconciler_op \<Rightarrow> bool" where
  "normal_record x \<longleftrightarrow>
     (case x of
        InternalBalance now v a f l \<Rightarrow> 0 \<le> f \<and> 0 \<le> l
      | ExternalBalance now v a f l \<Rightarrow> 0 \<le> f \<and> 0 \<le> l
      | InternalPosition now v sy q p u \<Rightarrow> 0 \<le> q \<and> is_float q
      | ExternalPosition now v sy q p u \<Rightarrow> 0 \<le> q \<and> is_float q
      | _ \<Rightarrow> True)"

definition amounts_ok :: "('r \<Rightarrow> pyfloat) \<Rightarrow> 'r book \<Rightarrow> bool" where
  "amounts_ok amount b \<longleftrightarrow> (\<forall>(v, a, r) \<in> set (book_items b). 0 \<le> amount r \<and> is_float (amount r))"

definition normal_books :: "reconciler \<Rightarrow> bool" where
  "normal_books s \<longleftrightarrow> amounts_ok total_of (internal_balances s) \<and> amounts_ok total_of (external_balances s) \<and>
     amounts_ok quantity (internal_positions s) \<and> amounts_ok quantity (external_positions s)"

lemma mem_dict_set: "x \<in> set (dict_set k v d) \<Longrightarrow> x = (k, v) \<or> x \<in> set d"
  by (induction d) (auto split: if_splits)

lemma items_mem: "(v, a, r) \<in> set (book_items b) \<longleftrightarrow> (\<exists>d. (v, d) \<in> set b \<and> (a, r) \<in> set d)"
  unfolding book_items_def by fastforce

lemma items_get: "book_get b v a = Some r \<Longrightarrow> (v, a, r) \<in> set (book_items b)"
  unfolding items_mem book_get_def by (cases "dict_get b v") (auto dest!: map_of_SomeD)

lemma items_book_set:
  assumes "(w, b, q) \<in> set (book_items (book_set v a r bk))"
  shows "q = r \<or> (w, b, q) \<in> set (book_items bk)"
proof -
  let ?d = "case dict_get bk v of None \<Rightarrow> [] | Some d \<Rightarrow> d"
  obtain d where d: "(w, d) \<in> set (book_set v a r bk)" "(b, q) \<in> set d" using assms by (auto simp: items_mem)
  from mem_dict_set[OF d(1)[unfolded book_set_def]] show ?thesis
  proof
    assume "(w, d) = (v, dict_set a r ?d)"
    then have "w = v" "(b, q) = (a, r) \<or> (b, q) \<in> set ?d" using d(2) mem_dict_set[of "(b, q)" a r ?d] by simp_all
    then show ?thesis by (cases "dict_get bk v") (auto simp: items_mem dest: map_of_SomeD)
  qed (use d(2) in \<open>auto simp: items_mem\<close>)
qed

lemma amounts_ok_set: "amounts_ok f b \<Longrightarrow> 0 \<le> f r \<Longrightarrow> is_float (f r) \<Longrightarrow> amounts_ok f (book_set v a r b)"
  unfolding amounts_ok_def using items_book_set by fastforce

lemma amounts_ok_get: "amounts_ok f b \<Longrightarrow> book_get b v a = Some r \<Longrightarrow> 0 \<le> f r \<and> is_float (f r)"
  unfolding amounts_ok_def using items_get by fastforce

lemma drift_at_most_100:
  assumes "0 \<le> i" "is_float i" "0 \<le> e" "is_float e"
  shows "pct_drift (abs_drift i e) (max i e) \<le> 100"
proof -
  let ?m = "max (max i e) (fl (1 / 10 ^ 10))"
  have "0 < fl (1 / 10 ^ 10)" by code_simp
  then have m: "0 < ?m" by (simp add: less_max_iff_disj)
  have "\<bar>i - e\<bar> \<le> max i e" using assms by auto
  moreover have "fl (max i e) = max i e" using assms by (simp add: is_float_def max_def)
  moreover have "fl i - e \<le> fl i" using assms(3) by simp
  ultimately have "abs_drift i e \<le> max i e"
    using fl_mono[of "i - e" "max i e"] fl_mono[of "- (i - e)" "max i e"] fl_minus[of "i - e"]
    by (simp add: abs_drift_def fsub_def abs_le_iff)
  then have "abs_drift i e / ?m \<le> 1" using m by (simp add: pos_divide_le_eq max.coboundedI1)
  then have "fdiv (abs_drift i e) ?m \<le> 1" using fl_mono[of "abs_drift i e / ?m" 1] by (simp add: fdiv_def)
  then show ?thesis using fl_mono[of "fdiv (abs_drift i e) ?m * 100" 100] by (simp add: pct_drift_def fmul_def)
qed

text \<open>A reconciler with a drift threshold above one percent never halts trading: with amounts that are not negative no drift exceeds 100 percent, so
  the fatal threshold cannot be reached, also when all funds are gone.\<close>

theorem wide_threshold_never_halts:
  assumes "is_float t" "100 < fmul t 100" "\<forall>x \<in> set xs. normal_record x"
  shows "\<not> trading_halted (fold reconciler_step xs (reconciler_init t))"
proof -
  define P where "P = (\<lambda>s. reconciler_inv t s \<and> normal_books s \<and> \<not> trading_halted s)"
  have step: "P (reconciler_step x s)" if x: "normal_record x" and p: "P s" for x s
  proof -
    have inv: "reconciler_inv t (reconciler_step x s)" using p reconciler_step_inv by (simp add: P_def)
    have nb: "normal_books s" and nh: "\<not> trading_halted s" using p by (simp_all add: P_def)
    show ?thesis
    proof (cases x)
      case (ReconcileAll clk fmt2)
      have f: "classify_drift d s \<noteq> FATAL_DESYNC" if "0 \<le> d" "d \<le> 100" for d
        using fatal_status[OF _ assms(1) that(1)] p that(2) assms(2) by (auto simp: P_def reconciler_inv_def)
      have "balance_status s (v, a, e) \<noteq> FATAL_DESYNC" if "(v, a, e) \<in> set (book_items (external_balances s))" for v a e
      proof -
        have "balance_drift i e \<le> 100" if "book_get (internal_balances s) v a = Some i" for i
          using that \<open>(v, a, e) \<in> _\<close> nb amounts_ok_get[of total_of "internal_balances s" v a i] drift_at_most_100[of "total_of i" "total_of e"]
          by (auto simp: normal_books_def amounts_ok_def[of _ "external_balances s"] balance_drift_def)
        then show ?thesis using f drift_nonneg by (auto simp: balance_status_def balance_drift_def split: option.split)
      qed
      moreover have "position_status s (v, a, e) \<noteq> FATAL_DESYNC" if "(v, a, e) \<in> set (book_items (external_positions s))" for v a e
      proof -
        have "position_drift i e \<le> 100" if "book_get (internal_positions s) v a = Some i" for i
          using that \<open>(v, a, e) \<in> _\<close> nb amounts_ok_get[of quantity "internal_positions s" v a i] drift_at_most_100[of "quantity i" "quantity e"]
          by (auto simp: normal_books_def amounts_ok_def[of _ "external_positions s"] position_drift_def)
        then show ?thesis using f drift_nonneg by (auto simp: position_status_def position_drift_def split: option.split)
      qed
      ultimately have "FATAL_DESYNC \<notin> set (all_statuses s)" unfolding all_statuses_def by force
      then have "frame (started clk s) (snd (reconcile_all clk fmt2 s))" by (rule_tac reconcile_all_run[of clk fmt2 s]) simp
      then show ?thesis using inv nb nh unfolding ReconcileAll
        by (simp add: P_def normal_books_def frame_fields) (simp add: started_def)
    next
      case (Resolve i why)
      have "normal_books (s\<lparr>alerts := as0\<rparr>)" for as0 using nb by (simp add: normal_books_def)
      then show ?thesis using inv nb nh unfolding Resolve by (auto simp: P_def resolve_alert_def split: option.splits)
    qed (use nb nh x inv in \<open>auto simp: P_def normal_books_def normal_record_def amounts_ok_set update_internal_position_def update_internal_balance_def
        update_external_position_def update_external_balance_def resume_trading_def new_balance_def new_position_def fadd_nonneg fadd_def\<close>)
  qed
  have "P (reconciler_init t)"
    by (simp add: P_def reconciler_init_inv) (simp add: normal_books_def reconciler_init_def amounts_ok_def book_items_def)
  then have "P (fold reconciler_step xs (reconciler_init t))"
    using assms(3) by (induction xs rule: rev_induct) (auto simp: step)
  then show ?thesis by (simp add: P_def)
qed

section \<open>Witnesses\<close>

definition demo_reconciler :: "pyfloat \<Rightarrow> pyfloat \<Rightarrow> reconciler" where
  "demo_reconciler t x = fold reconciler_step [InternalBalance 0 BINANCE ''BTC'' 1 0, ExternalBalance 0 BINANCE ''BTC'' x 0] (reconciler_init t)"

lemma demo_reconciler_books:
  "internal_balances (demo_reconciler t x) = [(BINANCE, [(''BTC'', new_balance 0 BINANCE ''BTC'' 1 0)])]"
  "external_balances (demo_reconciler t x) = [(BINANCE, [(''BTC'', new_balance 0 BINANCE ''BTC'' x 0)])]"
  "external_positions (demo_reconciler t x) = []" "trading_halted (demo_reconciler t x) = False"
  by (simp_all add: demo_reconciler_def update_internal_balance_def update_external_balance_def book_set_def reconciler_init_def)

text \<open>All funds of an asset are gone: with the threshold at half a percent trading is halted.\<close>

lemma demo_drift: "balance_drift (new_balance 0 BINANCE ''BTC'' 1 0) (new_balance 0 BINANCE ''BTC'' 0 0) = 100"
proof -
  have "max (1::rat) (fl (1 / 10 ^ 10)) = 1" using fl_mono[of "1 / 10 ^ 10" 1] by (simp add: max_absorb1)
  then show ?thesis
    by (simp add: balance_drift_def pct_drift_def abs_drift_def new_balance_def fadd_def fsub_def fdiv_def fmul_def)
qed

lemma demo_fatal: "is_float (1 / 2)" "fmul (1 / 2) 100 \<le> 100"
  by code_simp+

theorem halts_iff_fatal_drift_witness:
  "trading_halted (snd (reconcile_all (\<lambda>_. 0) (\<lambda>_. []) (demo_reconciler (1 / 2) 0)))"
proof -
  show ?thesis
    using demo_fatal halts_iff_fatal_drift[OF demo_reconciler_def, of "1 / 2" "\<lambda>_. 0" "\<lambda>_. []" 0] demo_drift
    by (simp add: demo_reconciler_books book_items_def book_get_def)
qed

theorem unreported_funds_unseen_witness:
  "fst (reconcile_all (\<lambda>_. 0) (\<lambda>_. []) (update_internal_balance 0 BINANCE ''USDT'' 1000000 0 (demo_reconciler (1 / 2) 1))) =
   fst (reconcile_all (\<lambda>_. 0) (\<lambda>_. []) (demo_reconciler (1 / 2) 1))"
  using unreported_funds_unseen[of "demo_reconciler (1 / 2) 1" BINANCE "''USDT''" 0 1000000 0 "\<lambda>_. 0" "\<lambda>_. []"]
  by (simp add: demo_reconciler_books book_get_def wf_dict_def Let_def)

theorem halt_persists_witness:
  "trading_halted (fold reconciler_step [ExternalBalance 1 BINANCE ''BTC'' 1 0, ReconcileAll (\<lambda>_. 0) (\<lambda>_. [])]
     (snd (reconcile_all (\<lambda>_. 0) (\<lambda>_. []) (demo_reconciler (1 / 2) 0))))"
proof -
  have "reconciler_inv (1 / 2) (demo_reconciler (1 / 2) 0)" unfolding demo_reconciler_def by (rule alerts_and_halt_inv)
  moreover have "FATAL_DESYNC \<in> set (all_statuses (demo_reconciler (1 / 2) 0))"
    using fatal_status[OF calculation demo_fatal(1), of 100] demo_fatal(2) calculation demo_drift
    by (simp add: all_statuses_def demo_reconciler_books book_items_def balance_status_def book_get_def reconciler_inv_def)
  then have "trading_halted (snd (reconcile_all (\<lambda>_. 0) (\<lambda>_. []) (demo_reconciler (1 / 2) 0)))"
    by (rule_tac reconcile_all_run[of "\<lambda>_. 0" "\<lambda>_. []" "demo_reconciler (1 / 2) 0"]) (simp add: trigger_trading_halt_def)
  ultimately show ?thesis
    using halt_persists[OF reconcile_all_inv, of "1 / 2" "demo_reconciler (1 / 2) 0" "\<lambda>_. 0" "\<lambda>_. []"
        "[ExternalBalance 1 BINANCE ''BTC'' 1 0, ReconcileAll (\<lambda>_. 0) (\<lambda>_. [])]"] by simp
qed

theorem wide_threshold_never_halts_witness:
  "\<not> trading_halted (fold reconciler_step [InternalBalance 0 BINANCE ''BTC'' 1 0, ExternalBalance 0 BINANCE ''BTC'' 0 0,
     ReconcileAll (\<lambda>_. 0) (\<lambda>_. [])] (reconciler_init 2))"
proof (rule wide_threshold_never_halts)
  show "is_float 2" "100 < fmul 2 100" by code_simp+
qed (simp add: normal_record_def)

end
