(* ===== verification/CapitalReserve.thy ===== *)
theory CapitalReserve
  imports Prelude
begin

text \<open>
  \<open>portfolio/capital_reserver.py\<close>: the stablecoin reserve, its target by market regime, and its deployment.

  \<open>numpy\<close> is a parameter: \<open>std\<close> (with \<open>ddof = 1\<close>), \<open>mean\<close> and the constant \<open>np.sqrt(252)\<close>. A sum of floats goes from left to right (CPython up to
  3.11).
\<close>

section \<open>Data\<close>

datatype MarketRegime = CALM | VOLATILE | CRASH | RALLY | UNCERTAIN

fun regime_value :: "MarketRegime \<Rightarrow> string" where
  "regime_value CALM = ''calm''" | "regime_value VOLATILE = ''volatile''" | "regime_value CRASH = ''crash''"
| "regime_value RALLY = ''rally''" | "regime_value UNCERTAIN = ''uncertain''"

record ReserveConfig =
  min_reserve_pct :: pyfloat
  max_reserve_pct :: pyfloat
  target_calm_reserve :: pyfloat
  target_volatile_reserve :: pyfloat
  crash_reserve :: pyfloat
  vol_threshold_low :: pyfloat
  vol_threshold_high :: pyfloat
  opportunity_threshold :: pyfloat
  max_deployment_pct :: pyfloat

definition default_config :: ReserveConfig where
  "default_config = \<lparr>min_reserve_pct = fl (1 / 10), max_reserve_pct = 1 / 2, target_calm_reserve = fl (1 / 5), target_volatile_reserve = fl (7 / 20),
     crash_reserve = fl (9 / 20), vol_threshold_low = fl (1 / 50), vol_threshold_high = fl (1 / 20), opportunity_threshold = fl (1 / 20),
     max_deployment_pct = fl (3 / 20)\<rparr>"

record ReserveState =
  st_total :: pyfloat
  reserve_amount :: pyfloat
  reserve_pct :: pyfloat
  invested_amount :: pyfloat
  available_for_deployment :: pyfloat
  market_regime :: MarketRegime
  current_volatility :: pyfloat
  st_pending :: pyfloat

record DeploymentResult =
  deployed_amount :: pyfloat
  remaining_reserve :: pyfloat
  dep_asset :: string
  was_capped :: bool
  cap_reason :: "string option"

text \<open>Deployments and detected opportunities go into one list of dictionaries.\<close>

datatype opportunity =
    Deployed string pyfloat pyfloat pyfloat string
  | Detected string pyfloat pyfloat pyfloat pyfloat

record manager =
  config :: ReserveConfig
  total_value :: pyfloat
  reserve_balance :: pyfloat
  pending_deployments :: pyfloat
  recent_returns :: "pyfloat list"
  detected_opportunities :: "opportunity list"

definition manager_init :: "ReserveConfig option \<Rightarrow> manager" where
  "manager_init c =
     (let cf = (case c of None \<Rightarrow> default_config | Some x \<Rightarrow> x)
      in \<lparr>config = cf, total_value = 100000, reserve_balance = fmul (target_calm_reserve cf) 100000, pending_deployments = 0,
          recent_returns = [], detected_opportunities = []\<rparr>)"

record numpy =
  std :: "pyfloat list \<Rightarrow> pyfloat"
  mean :: "pyfloat list \<Rightarrow> pyfloat"
  sqrt252 :: pyfloat

section \<open>Value and volatility\<close>

definition update_portfolio_value :: "pyfloat \<Rightarrow> manager \<Rightarrow> (exn + unit) \<times> manager" where
  "update_portfolio_value v m =
     (if v \<le> 0 then (Inl ValueError, m)
      else
        (let m1 = m\<lparr>total_value := v\<rparr>
         in (Inr (), if 0 < total_value m then m1\<lparr>reserve_balance := fmul (reserve_balance m) (fdiv v (total_value m))\<rparr> else m1)))"

definition update_volatility :: "pyfloat list \<Rightarrow> manager \<Rightarrow> manager" where
  "update_volatility rs m =
     (let xs = recent_returns m @ rs in m\<lparr>recent_returns := (if 252 < length xs then slice_from (- 252) xs else xs)\<rparr>)"

definition compute_volatility :: "numpy \<Rightarrow> manager \<Rightarrow> pyfloat" where
  "compute_volatility np m =
     (if length (recent_returns m) < 10 then fl (1 / 50) else fmul (std np (recent_returns m)) (sqrt252 np))"

definition determine_regime :: "numpy \<Rightarrow> pyfloat \<Rightarrow> manager \<Rightarrow> MarketRegime" where
  "determine_regime np v m =
     (if v < vol_threshold_low (config m) then CALM
      else if v < vol_threshold_high (config m) then VOLATILE
      else if 5 \<le> length (recent_returns m)
      then (let x = mean np (slice_from (- 5) (recent_returns m))
            in if x < - fl (3 / 100) then CRASH else if fl (3 / 100) < x then RALLY else UNCERTAIN)
      else UNCERTAIN)"

definition get_target_reserve :: "MarketRegime \<Rightarrow> manager \<Rightarrow> pyfloat" where
  "get_target_reserve r m =
     (case r of
        CALM \<Rightarrow> target_calm_reserve (config m)
      | VOLATILE \<Rightarrow> target_volatile_reserve (config m)
      | CRASH \<Rightarrow> crash_reserve (config m)
      | RALLY \<Rightarrow> target_calm_reserve (config m)
      | UNCERTAIN \<Rightarrow> target_volatile_reserve (config m))"

definition get_state :: "numpy \<Rightarrow> manager \<Rightarrow> ReserveState" where
  "get_state np m =
     (let v = compute_volatility np m
      in \<lparr>st_total = total_value m, reserve_amount = reserve_balance m,
          reserve_pct = (if 0 < total_value m then fdiv (reserve_balance m) (total_value m) else 0),
          invested_amount = fsub (total_value m) (reserve_balance m),
          available_for_deployment = max 0 (fsub (reserve_balance m) (pending_deployments m)),
          market_regime = determine_regime np v m, current_volatility = v, st_pending = pending_deployments m\<rparr>)"

record target_allocation =
  target_reserve :: pyfloat
  target_invested :: pyfloat
  target_reserve_pct :: pyfloat
  current_reserve_pct :: pyfloat
  rebalance_needed :: bool
  rebalance_amount :: pyfloat

definition compute_target_allocation :: "numpy \<Rightarrow> manager \<Rightarrow> target_allocation" where
  "compute_target_allocation np m =
     (let st = get_state np m;
          p = max (min_reserve_pct (config m)) (min (max_reserve_pct (config m)) (get_target_reserve (market_regime st) m));
          t = fmul p (total_value m)
      in \<lparr>target_reserve = t, target_invested = fsub (total_value m) t, target_reserve_pct = p, current_reserve_pct = reserve_pct st,
          rebalance_needed = (fl (1 / 50) < \<bar>fsub (reserve_pct st) p\<bar>), rebalance_amount = fsub t (reserve_balance m)\<rparr>)"

section \<open>Deployment\<close>

definition reserve_floor :: "manager \<Rightarrow> pyfloat" where
  "reserve_floor m = fmul (min_reserve_pct (config m)) (total_value m)"

definition max_deployable :: "manager \<Rightarrow> pyfloat" where
  "max_deployable m = max 0 (fsub (fsub (reserve_balance m) (reserve_floor m)) (pending_deployments m))"

definition max_single :: "manager \<Rightarrow> pyfloat" where
  "max_single m = fmul (max_deployment_pct (config m)) (total_value m)"

definition deploy_reserves :: "numpy \<Rightarrow> string \<Rightarrow> pyfloat \<Rightarrow> pyfloat \<Rightarrow> manager \<Rightarrow> DeploymentResult \<times> manager" where
  "deploy_reserves np a amount prio m =
     (let st = get_state np m; x = min (min amount (max_deployable m)) (max_single m);
          m1 = m\<lparr>pending_deployments := fadd (pending_deployments m) x, reserve_balance := fsub (reserve_balance m) x,
                detected_opportunities := detected_opportunities m @ [Deployed a amount x prio (regime_value (market_regime st))]\<rparr>
      in (\<lparr>deployed_amount = x, remaining_reserve = reserve_balance m1, dep_asset = a, was_capped = (x < amount),
           cap_reason = (if x < amount
             then (if max_deployable m \<le> x then Some ''Minimum reserve floor reached''
                   else if max_single m \<le> x then Some ''Single deployment limit reached'' else None) else None)\<rparr>, m1))"

definition confirm_deployment :: "int \<Rightarrow> manager \<Rightarrow> manager" where
  "confirm_deployment i m =
     (if 0 < pending_deployments m then m\<lparr>pending_deployments := max 0 (fsub (pending_deployments m) 1000)\<rparr> else m)"

definition replenish_reserves :: "pyfloat \<Rightarrow> manager \<Rightarrow> (exn + unit) \<times> manager" where
  "replenish_reserves x m =
     (if x < 0 then (Inl ValueError, m)
      else (Inr (), m\<lparr>reserve_balance := fadd (reserve_balance m) x, total_value := fadd (total_value m) x\<rparr>))"

definition detect_opportunity :: "string \<Rightarrow> pyfloat \<Rightarrow> pyfloat \<Rightarrow> manager \<Rightarrow> opportunity option \<times> manager" where
  "detect_opportunity a fall spike m =
     (if fall < opportunity_threshold (config m) then (None, m)
      else
        (let o1 = Detected a fall spike (fmul fall spike) (min (fmul (fmul fall (total_value m)) (1 / 2)) (max_single m))
         in (Some o1, m\<lparr>detected_opportunities := detected_opportunities m @ [o1]\<rparr>)))"

section \<open>Metrics\<close>

fun deployed_of :: "opportunity \<Rightarrow> pyfloat" where
  "deployed_of (Deployed a r d p g) = d"
| "deployed_of (Detected a d s c r) = 0"

fun is_deployment :: "opportunity \<Rightarrow> bool" where
  "is_deployment (Deployed a r d p g) = True"
| "is_deployment (Detected a d s c r) = False"

record efficiency =
  e_reserve_pct :: pyfloat
  e_target_pct :: pyfloat
  e_available :: pyfloat
  total_opportunities :: int
  opportunities_executed :: int
  total_deployed :: pyfloat
  average_deployment :: pyfloat
  reserve_turnover :: pyfloat
  e_regime :: string

definition get_reserve_efficiency_metrics :: "numpy \<Rightarrow> manager \<Rightarrow> efficiency" where
  "get_reserve_efficiency_metrics np m =
     (let st = get_state np m; ops = detected_opportunities m; d = foldl fadd 0 (map deployed_of ops);
          n = int (length (filter is_deployment ops))
      in \<lparr>e_reserve_pct = reserve_pct st, e_target_pct = get_target_reserve (market_regime st) m, e_available = available_for_deployment st,
          total_opportunities = int (length ops), opportunities_executed = n, total_deployed = d,
          average_deployment = (if 0 < n then fdiv d (of_int n) else 0),
          reserve_turnover = (if 0 < reserve_balance m then fdiv d (reserve_balance m) else 0), e_regime = regime_value (market_regime st)\<rparr>)"


section \<open>Properties\<close>

text \<open>The target for the reserve lies between the configured minimum and maximum, whatever regime the returns suggest and whatever the target configured
  for it.\<close>

theorem target_within_bounds:
  assumes "min_reserve_pct (config m) \<le> max_reserve_pct (config m)"
  shows "min_reserve_pct (config m) \<le> target_reserve_pct (compute_target_allocation np m) \<and>
    target_reserve_pct (compute_target_allocation np m) \<le> max_reserve_pct (config m)"
  using assms by (simp add: compute_target_allocation_def Let_def)

definition sane :: "manager \<Rightarrow> bool" where
  "sane m \<longleftrightarrow> 0 < total_value m \<and> is_float (total_value m) \<and> 0 \<le> reserve_balance m \<and> is_float (reserve_balance m) \<and>
     0 \<le> pending_deployments m \<and> length (recent_returns m) \<le> 252"

datatype reserve_op =
    Value pyfloat
  | Returns "pyfloat list"
  | Deploy numpy string pyfloat pyfloat
  | Confirm int
  | Replenish pyfloat
  | Detect string pyfloat pyfloat

fun reserve_step :: "reserve_op \<Rightarrow> manager \<Rightarrow> manager" where
  "reserve_step (Value v) m = snd (update_portfolio_value v m)"
| "reserve_step (Returns rs) m = update_volatility rs m"
| "reserve_step (Deploy np a x p) m = snd (deploy_reserves np a x p m)"
| "reserve_step (Confirm i) m = confirm_deployment i m"
| "reserve_step (Replenish x) m = snd (replenish_reserves x m)"
| "reserve_step (Detect a f v) m = snd (detect_opportunity a f v m)"

text \<open>What callers are expected to pass: floats, and no negative amount to deploy.\<close>

definition fair_op :: "reserve_op \<Rightarrow> bool" where
  "fair_op x \<longleftrightarrow> (case x of Value v \<Rightarrow> is_float v | Deploy np a y p \<Rightarrow> 0 \<le> y | Replenish y \<Rightarrow> is_float y | _ \<Rightarrow> True)"

definition fair_config :: "ReserveConfig \<Rightarrow> bool" where
  "fair_config c \<longleftrightarrow> 0 \<le> min_reserve_pct c \<and> 0 \<le> max_deployment_pct c"

lemma deployed_bounds:
  assumes "sane m" "fair_config (config m)" "0 \<le> amount"
  defines "x \<equiv> min (min amount (max_deployable m)) (max_single m)"
  shows "0 \<le> x" "x = 0 \<or> x \<le> fsub (reserve_balance m) (reserve_floor m)" "x \<le> reserve_balance m"
proof -
  have t: "0 \<le> reserve_floor m" "0 \<le> max_single m" using assms by (simp_all add: sane_def fair_config_def reserve_floor_def max_single_def fmul_nonneg)
  show "0 \<le> x" using t assms(3) by (simp add: x_def max_deployable_def)
  have "fsub (fsub (reserve_balance m) (reserve_floor m)) (pending_deployments m) \<le> fsub (reserve_balance m) (reserve_floor m)"
    using assms(1) fl_mono[of "fsub (reserve_balance m) (reserve_floor m) - pending_deployments m" "fsub (reserve_balance m) (reserve_floor m)"]
    by (simp add: sane_def fsub_def)
  then show d: "x = 0 \<or> x \<le> fsub (reserve_balance m) (reserve_floor m)"
    using \<open>0 \<le> x\<close> by (auto simp: x_def max_deployable_def min_def max_def split: if_splits)
  have "fsub (reserve_balance m) (reserve_floor m) \<le> reserve_balance m"
    using assms(1) t(1) fl_mono[of "reserve_balance m - reserve_floor m" "reserve_balance m"] by (simp add: fsub_def sane_def is_float_def)
  then show "x \<le> reserve_balance m" using d assms(1) by (auto simp: sane_def)
qed

lemma deploy_fields:
  "deployed_amount (fst (deploy_reserves np a x p m)) = min (min x (max_deployable m)) (max_single m)"
  "reserve_balance (snd (deploy_reserves np a x p m)) = fsub (reserve_balance m) (min (min x (max_deployable m)) (max_single m))"
  "pending_deployments (snd (deploy_reserves np a x p m)) = fadd (pending_deployments m) (min (min x (max_deployable m)) (max_single m))"
  "total_value (snd (deploy_reserves np a x p m)) = total_value m" "config (snd (deploy_reserves np a x p m)) = config m"
  "recent_returns (snd (deploy_reserves np a x p m)) = recent_returns m"
  "was_capped (fst (deploy_reserves np a x p m)) \<longleftrightarrow> min (min x (max_deployable m)) (max_single m) < x"
  "remaining_reserve (fst (deploy_reserves np a x p m)) = reserve_balance (snd (deploy_reserves np a x p m))"
  by (simp_all add: deploy_reserves_def Let_def)

lemma reserve_step_sane:
  assumes "sane m" "fair_config (config m)" "fair_op x"
  shows "sane (reserve_step x m) \<and> config (reserve_step x m) = config m"
proof (cases x)
  case (Value v)
  then show ?thesis using assms fmul_nonneg[of "reserve_balance m" "fdiv v (total_value m)"]
    by (auto simp: sane_def fair_op_def update_portfolio_value_def Let_def fdiv_def is_float_def fmul_def)
next
  case (Returns rs)
  have "length (slice_from (- 252) (recent_returns m @ rs)) \<le> 252" using length_slice_le[of 252 "recent_returns m @ rs"] by simp
  then show ?thesis using assms Returns by (simp add: sane_def update_volatility_def Let_def)
next
  case (Deploy np a y p)
  let ?x = "min (min y (max_deployable m)) (max_single m)"
  have y: "0 \<le> y" using assms(3) Deploy by (simp add: fair_op_def)
  note b = deployed_bounds[OF assms(1,2) y]
  have "0 \<le> fsub (reserve_balance m) ?x" using b(3) by (rule fsub_nonneg)
  moreover have "0 \<le> fadd (pending_deployments m) ?x" using b(1) assms(1) by (intro fadd_nonneg) (simp_all add: sane_def)
  ultimately show ?thesis using assms(1) Deploy by (simp add: sane_def deploy_fields) (simp add: fsub_def)
next
  case (Confirm i)
  then show ?thesis using assms by (simp add: sane_def confirm_deployment_def)
next
  case (Replenish y)
  have "total_value m \<le> fadd (total_value m) y" if "0 \<le> y" using assms(1) that by (intro fadd_ge) (simp_all add: sane_def)
  then show ?thesis using assms Replenish
    by (auto simp: sane_def replenish_reserves_def fadd_nonneg not_less) (simp_all add: fadd_def)
next
  case (Detect a f v)
  then show ?thesis using assms by (simp add: sane_def detect_opportunity_def Let_def)
qed

text \<open>As long as nobody deploys a negative amount, the reserve and the pending deployments are never negative, the portfolio keeps a positive value,
  and at most 252 returns are kept, in every run of calls on a new manager.\<close>

theorem reserve_never_negative:
  assumes "fair_config c" "0 \<le> target_calm_reserve c" "\<forall>x \<in> set xs. fair_op x"
  shows "sane (fold reserve_step xs (manager_init (Some c)))"
proof -
  have "sane (manager_init (Some c)) \<and> config (manager_init (Some c)) = c"
    using assms(2) by (simp add: sane_def manager_init_def Let_def fmul_nonneg is_float_def) (simp add: fmul_def)
  then have "sane (fold reserve_step xs (manager_init (Some c))) \<and> config (fold reserve_step xs (manager_init (Some c))) = c"
    using assms(3) by (induction xs rule: rev_induct) (auto simp: reserve_step_sane assms(1))
  then show ?thesis ..
qed

text \<open>C40: A deployment that deploys anything leaves the minimal reserve in place, up to the rounding of three floats of the size of the reserve, and is never
  more than was asked for.\<close>

theorem deployment_keeps_floor:
  assumes "sane m" "fair_config (config m)" "0 \<le> amount" "deploy_reserves np a amount prio m = (r, m1)" "deployed_amount r \<noteq> 0"
  shows "0 < deployed_amount r \<and> deployed_amount r \<le> amount \<and>
    reserve_floor m - 3 * (reserve_balance m / 2 ^ 53 + tiny) \<le> reserve_balance m1"
proof -
  let ?x = "deployed_amount r"
  let ?e = "reserve_balance m / 2 ^ 53 + tiny"
  have x: "?x = min (min amount (max_deployable m)) (max_single m)" using deploy_fields(1)[of np a amount prio m] assms(4) by simp
  have r1: "reserve_balance m1 = fsub (reserve_balance m) ?x" using deploy_fields(2)[of np a amount prio m] assms(4) x by simp
  note b = deployed_bounds[OF assms(1-3), folded x]
  have pos: "0 < ?x" using b(1) assms(5) by simp
  have fl0: "0 \<le> reserve_floor m" using assms(1,2) by (simp add: reserve_floor_def fmul_nonneg sane_def fair_config_def)
  have le: "?x \<le> fsub (reserve_balance m) (reserve_floor m)" using b(2) assms(5) by simp
  then have "0 < reserve_balance m - reserve_floor m"
    using pos fl_mono[of "reserve_balance m - reserve_floor m" 0] by (force simp: fsub_def not_less)
  then have "?x \<le> reserve_balance m - reserve_floor m + ((reserve_balance m - reserve_floor m) / 2 ^ 53 + tiny)"
    using le fl_le[of "reserve_balance m - reserve_floor m"] by (simp add: fsub_def)
  also have "(reserve_balance m - reserve_floor m) / 2 ^ 53 \<le> reserve_balance m / 2 ^ 53" using fl0 by (simp add: divide_right_mono)
  finally have lo: "reserve_floor m - ?e \<le> reserve_balance m - ?x" by simp
  have "reserve_balance m - ?x - (reserve_balance m - ?x) / 2 ^ 53 - tiny \<le> fsub (reserve_balance m) ?x"
    unfolding fsub_def by (rule fl_ge) (use b(3) in simp)
  moreover have "(reserve_balance m - ?x) / 2 ^ 53 \<le> reserve_balance m / 2 ^ 53" using pos by (simp add: divide_right_mono)
  moreover have "0 \<le> ?e" using assms(1) tiny_pos by (simp add: sane_def)
  moreover have "f - 3 * e \<le> y" if "v - b - t \<le> y" "b \<le> a" "e = a + t" "0 \<le> e" "f - e \<le> v" for a b e f t v y :: rat
    using that by simp
  ultimately have "reserve_floor m - 3 * ?e \<le> fsub (reserve_balance m) ?x" using lo by blast
  moreover have "?x \<le> amount" unfolding x by simp
  ultimately show ?thesis using pos unfolding r1 by simp
qed

text \<open>A negative amount is deployed in full: it raises the reserve and lowers the pending deployments, is not reported as capped, and the value of the
  portfolio stays the same.\<close>

theorem negative_deployment_mints:
  assumes "amount < 0" "fair_config (config m)" "sane m" "deploy_reserves np a amount prio m = (r, m1)"
  shows "deployed_amount r = amount \<and> \<not> was_capped r \<and> reserve_balance m \<le> reserve_balance m1 \<and>
    pending_deployments m1 = fadd (pending_deployments m) amount \<and> total_value m1 = total_value m"
proof -
  have "0 \<le> max_single m" "0 \<le> max_deployable m"
    using assms(2,3) by (simp_all add: max_single_def max_deployable_def fmul_nonneg sane_def fair_config_def)
  then have x: "min (min amount (max_deployable m)) (max_single m) = amount" using assms(1) by simp
  have "reserve_balance m \<le> fsub (reserve_balance m) amount"
    using assms(1,3) fl_mono[of "reserve_balance m" "reserve_balance m - amount"] by (simp add: fsub_def sane_def is_float_def)
  then show ?thesis using deploy_fields[of np a amount prio m, unfolded x] assms(4) by simp
qed

text \<open>What was deployed counts twice against the next deployment, once because the reserve is lower and once as pending: in whole amounts, after half
  of what exceeds the floor is deployed, nothing more can be deployed, although the other half is still there.\<close>

theorem half_deployed_blocks_rest:
  assumes "reserve_balance m = of_int r" "reserve_floor m = of_int f" "pending_deployments m = 0" "0 < d" "2 * d = r - f" "0 \<le> f" "r < 2 ^ 53"
    "of_int d \<le> max_single m" "0 \<le> amount"
  shows "let (x, m1) = deploy_reserves np a (of_int d) prio m; (y, m2) = deploy_reserves np b amount prio' m1
    in deployed_amount x = of_int d \<and> reserve_balance m1 = reserve_floor m1 + of_int d \<and> deployed_amount y = 0"
proof -
  have e: "fsub (of_int u) (of_int v) = of_int (u - v)" if "\<bar>u - v\<bar> < 2 ^ 53" for u v using fl_of_int[OF that] by (simp add: fsub_def)
  have "fsub (of_int r) (of_int f) = of_int (2 * d)" using assms(4-7) e[of r f] by simp
  moreover have "fsub (of_int (2 * d)) 0 = of_int (2 * d)" using assms(4-7) e[of "2 * d" 0] by simp
  ultimately have "max_deployable m = of_int (2 * d)" using assms(4) unfolding max_deployable_def assms(1-3) by simp
  then have x: "min (min (of_int d) (max_deployable m)) (max_single m) = of_int d" using assms(4,8) by simp
  obtain p m1 where p: "deploy_reserves np a (of_int d) prio m = (p, m1)" by (cases "deploy_reserves np a (of_int d) prio m")
  obtain q m2 where q: "deploy_reserves np b amount prio' m1 = (q, m2)" by (cases "deploy_reserves np b amount prio' m1")
  have m1: "deployed_amount p = of_int d" "reserve_balance m1 = of_int (r - d)" "pending_deployments m1 = of_int d" "reserve_floor m1 = of_int f"
    "max_single m1 = max_single m"
    using deploy_fields[of np a "of_int d" prio m, unfolded x] p assms(1-7) e[of r d] fl_of_int[of d]
    by (simp_all add: reserve_floor_def max_single_def fadd_def)
  have "fsub (of_int (r - d)) (of_int f) = of_int d" "fsub (of_int d) (of_int d) = 0" using assms(4-7) e[of "r - d" f] by simp_all
  then have "max_deployable m1 = 0" unfolding max_deployable_def m1 by simp
  then have "deployed_amount q = 0" using deploy_fields(1)[of np b amount prio' m1] q assms(4,8,9) m1(5) by simp
  then show ?thesis using p q m1 assms(5) by (simp add: algebra_simps)
qed

section \<open>Witnesses\<close>

definition demo_numpy :: numpy where "demo_numpy = \<lparr>std = (\<lambda>_. 0), mean = (\<lambda>_. 0), sqrt252 = 15\<rparr>"

definition demo_cfg :: ReserveConfig where
  "demo_cfg = \<lparr>min_reserve_pct = 1 / 8, max_reserve_pct = 1 / 2, target_calm_reserve = 1 / 4, target_volatile_reserve = 3 / 8,
     crash_reserve = 1 / 2, vol_threshold_low = 1 / 64, vol_threshold_high = 1 / 16, opportunity_threshold = 1 / 16, max_deployment_pct = 1 / 8\<rparr>"

definition demo_manager :: manager where
  "demo_manager = \<lparr>config = demo_cfg, total_value = 80000, reserve_balance = 20000, pending_deployments = 0, recent_returns = [],
     detected_opportunities = []\<rparr>"

lemma demo_reserve_facts: "sane demo_manager" "fair_config demo_cfg" "config demo_manager = demo_cfg" "reserve_floor demo_manager = 10000"
  "max_single demo_manager = 10000"
  by (simp_all add: sane_def demo_manager_def demo_cfg_def fair_config_def is_float_def reserve_floor_def max_single_def fmul_def)

theorem target_within_bounds_witness:
  "1 / 8 \<le> target_reserve_pct (compute_target_allocation demo_numpy demo_manager)"
  using target_within_bounds[of demo_manager demo_numpy] by (simp add: demo_reserve_facts demo_cfg_def)

theorem reserve_never_negative_witness:
  "sane (fold reserve_step [Deploy demo_numpy ''BTC'' 5000 1, Confirm 1, Value 90000] (manager_init (Some demo_cfg)))"
  by (rule reserve_never_negative[OF demo_reserve_facts(2)]) (simp_all add: fair_op_def demo_cfg_def is_float_def)

lemma demo_deploy: "deployed_amount (fst (deploy_reserves demo_numpy ''BTC'' 5000 1 demo_manager)) = 5000"
  unfolding deploy_fields max_deployable_def demo_reserve_facts by (simp add: demo_manager_def fsub_def)

theorem deployment_keeps_floor_witness:
  "10000 - 3 * (20000 / 2 ^ 53 + tiny) \<le> reserve_balance (snd (deploy_reserves demo_numpy ''BTC'' 5000 1 demo_manager))"
proof -
  have "reserve_balance demo_manager = 20000" by (simp add: demo_manager_def)
  then show ?thesis
    using deployment_keeps_floor[of demo_manager 5000 demo_numpy "''BTC''" 1, OF demo_reserve_facts(1) _ _ prod.collapse[symmetric]] demo_reserve_facts demo_deploy by simp
qed

theorem negative_deployment_mints_witness:
  "deployed_amount (fst (deploy_reserves demo_numpy ''BTC'' (- 5000) 1 demo_manager)) = - 5000"
  using negative_deployment_mints[of "- 5000" demo_manager demo_numpy "''BTC''" 1, OF _ _ demo_reserve_facts(1) prod.collapse[symmetric]] demo_reserve_facts by simp

theorem half_deployed_blocks_rest_witness:
  "let (x, m1) = deploy_reserves demo_numpy ''BTC'' 5000 1 demo_manager; (y, m2) = deploy_reserves demo_numpy ''ETH'' 5000 1 m1
   in deployed_amount x = 5000 \<and> reserve_balance m1 = reserve_floor m1 + 5000 \<and> deployed_amount y = 0"
  using half_deployed_blocks_rest[of demo_manager 20000 10000 5000 5000 demo_numpy "''BTC''" 1 "''ETH''" 1] demo_reserve_facts by (simp add: demo_manager_def)

end
