(* ===== verification/SnapshotManager.thy ===== *)
theory SnapshotManager
  imports Encoding "HOL-Library.List_Lexorder" "HOL-Library.Char_ord"
begin

text \<open>
  \<open>recovery/snapshot_manager.py\<close>: full and delta snapshots of the trading state as files, and their restoration.

  JSON text (\<open>dumps\<close> in the order of the dictionary, \<open>dumps_sorted\<close> by key), \<open>zlib\<close>, CRC and SHA-256 are the functions of a \<open>codec\<close>. The snapshot
  directory is a dict from file names to contents; it may hold other files. A write may fail after some bytes (\<open>fails\<close>). Texts in a header are
  lists of code points. \<open>ord\<close> is the order in which a set of keys is enumerated.
\<close>

section \<open>Equality of JSON values\<close>

definition num_of :: "json \<Rightarrow> rat option" where
  "num_of j = (case j of JBool b \<Rightarrow> Some (if b then 1 else 0) | JInt i \<Rightarrow> Some (of_int i) | JFloat x \<Rightarrow> Some x | _ \<Rightarrow> None)"

fun py_eq :: "json \<Rightarrow> json \<Rightarrow> bool" where
  "py_eq (JList xs) (JList ys) = list_all2 py_eq xs ys"
| "py_eq (JDict d) (JDict e) =
     (length d = length e \<and> (\<forall>(k, v) \<in> set d. case dict_get e k of None \<Rightarrow> False | Some w \<Rightarrow> py_eq v w))"
| "py_eq (JStr s) (JStr t) = (s = t)"
| "py_eq JNull JNull = True"
| "py_eq a b = (num_of a \<noteq> None \<and> num_of a = num_of b)"

section \<open>Headers\<close>

datatype SnapshotType = FULL | DELTA | INCREMENTAL

fun type_value :: "SnapshotType \<Rightarrow> string" where
  "type_value FULL = ''full''" | "type_value DELTA = ''delta''" | "type_value INCREMENTAL = ''incremental''"

definition codes :: "string \<Rightarrow> nat list" where
  "codes s = map of_char s"

definition type_of :: "nat list \<Rightarrow> SnapshotType option" where
  "type_of t = (if t = codes ''full'' then Some FULL else if t = codes ''delta'' then Some DELTA
     else if t = codes ''incremental'' then Some INCREMENTAL else None)"

record SnapshotHeader =
  version :: int
  snapshot_type :: SnapshotType
  timestamp_ns :: int
  base_snapshot_id :: "int option"
  data_hash :: "nat list"
  compressed_size :: int
  uncompressed_size :: int
  checksum :: int

definition HEADER_SIZE :: nat where "HEADER_SIZE = 64"

definition encode_text :: "nat list \<Rightarrow> exn + bytes" where
  "encode_text cs = (case utf8_encode cs of None \<Rightarrow> Inl (OtherError ''UnicodeEncodeError'') | Some bs \<Rightarrow> Inr (map of_nat bs))"

text \<open>\<open>b[:n].ljust(n, b'\0')\<close> and \<open>b.rstrip(b'\0')\<close>.\<close>

definition fixed :: "nat \<Rightarrow> bytes \<Rightarrow> bytes" where
  "fixed n bs = take n bs @ replicate (n - length bs) 0"

definition rstrip0 :: "bytes \<Rightarrow> bytes" where
  "rstrip0 bs = rev (dropWhile (\<lambda>b. b = 0) (rev bs))"

definition in_range :: "nat \<Rightarrow> int \<Rightarrow> bool" where
  "in_range k n \<longleftrightarrow> 0 \<le> n \<and> n < 256 ^ k"

text \<open>The format \<open><I8sQ?32sIII\<close>: 65 bytes.\<close>

definition serialize_header :: "SnapshotHeader \<Rightarrow> exn + bytes" where
  "serialize_header h =
     bind (encode_text (codes (type_value (snapshot_type h)))) (\<lambda>t.
     bind (encode_text (data_hash h)) (\<lambda>hs.
       if in_range 4 (version h) \<and> in_range 8 (timestamp_ns h) \<and> in_range 4 (compressed_size h) \<and> in_range 4 (uncompressed_size h) \<and>
          in_range 4 (checksum h)
       then Inr (le_bytes 4 (version h) @ fixed 8 t @ le_bytes 8 (timestamp_ns h) @ [if base_snapshot_id h = None then 0 else 1] @
              fixed 32 hs @ le_bytes 4 (compressed_size h) @ le_bytes 4 (uncompressed_size h) @ le_bytes 4 (checksum h))
       else Inl (OtherError ''struct.error'')))"

definition part :: "nat \<Rightarrow> nat \<Rightarrow> bytes \<Rightarrow> bytes" where
  "part i n bs = take n (drop i bs)"

definition decode_text :: "bytes \<Rightarrow> nat list option" where
  "decode_text bs = utf8_decode (map unat (rstrip0 bs))"

text \<open>Every exception in \<open>deserialize\<close> becomes None. A base id comes back as True.\<close>

definition unpack_header :: "bytes \<Rightarrow> SnapshotHeader option" where
  "unpack_header bs =
     (if length bs \<noteq> 65 then None
      else
        (case (decode_text (part 4 8 bs), decode_text (part 21 32 bs)) of
           (Some t, Some hs) \<Rightarrow>
             (case type_of t of
                None \<Rightarrow> None
              | Some ty \<Rightarrow>
                  Some \<lparr>version = le_int (part 0 4 bs), snapshot_type = ty, timestamp_ns = le_int (part 12 8 bs),
                        base_snapshot_id = (if part 20 1 bs = [0] then None else Some 1), data_hash = hs,
                        compressed_size = le_int (part 53 4 bs), uncompressed_size = le_int (part 57 4 bs), checksum = le_int (part 61 4 bs)\<rparr>)
         | _ \<Rightarrow> None))"

definition deserialize_header :: "bytes \<Rightarrow> SnapshotHeader option" where
  "deserialize_header data = (if length data < HEADER_SIZE then None else unpack_header (take HEADER_SIZE data))"

section \<open>Deltas\<close>

type_synonym state = "(string, json) dict"

record DeltaChange =
  key :: string
  old_value :: json
  new_value :: json
  change_type :: string
  d_time :: int

definition get_or_none :: "state \<Rightarrow> string \<Rightarrow> json" where
  "get_or_none d k = (case dict_get d k of None \<Rightarrow> JNull | Some v \<Rightarrow> v)"

definition change_of :: "int \<Rightarrow> state \<Rightarrow> state \<Rightarrow> string \<Rightarrow> DeltaChange" where
  "change_of ns old new k =
     \<lparr>key = k, old_value = get_or_none old k, new_value = get_or_none new k,
      change_type = (if dict_get old k = None then ''create'' else if dict_get new k = None then ''delete'' else ''update''), d_time = ns\<rparr>"

definition compute_delta :: "(string set \<Rightarrow> string list) \<Rightarrow> int \<Rightarrow> state \<Rightarrow> state \<Rightarrow> DeltaChange list" where
  "compute_delta ord ns old new =
     map (change_of ns old new)
       (filter (\<lambda>k. \<not> py_eq (get_or_none old k) (get_or_none new k)) (ord (fst ` set old \<union> fst ` set new)))"

definition delta_json :: "DeltaChange \<Rightarrow> json" where
  "delta_json c = JDict [(''key'', JStr (key c)), (''old'', old_value c), (''new'', new_value c), (''type'', JStr (change_type c)),
     (''ts'', JInt (d_time c))]"

fun subscript :: "json \<Rightarrow> string \<Rightarrow> exn + json" where
  "subscript (JDict d) k = (case dict_get d k of None \<Rightarrow> Inl KeyError | Some v \<Rightarrow> Inr v)"
| "subscript j k = Inl (OtherError ''TypeError'')"

fun iterate :: "json \<Rightarrow> exn + json list" where
  "iterate (JList xs) = Inr xs"
| "iterate (JDict d) = Inr (map (\<lambda>(k, v). JStr k) d)"
| "iterate (JStr s) = Inr (map (\<lambda>c. JStr [c]) s)"
| "iterate j = Inl (OtherError ''TypeError'')"

text \<open>A delta whose key is no text, which this code never writes, counts as an error.\<close>

definition apply_delta :: "json \<Rightarrow> state \<Rightarrow> exn + state" where
  "apply_delta j st =
     bind (subscript j ''key'') (\<lambda>k. bind (subscript j ''type'') (\<lambda>t.
       case k of
         JStr s \<Rightarrow>
           (if t = JStr ''create'' \<or> t = JStr ''update'' then bind (subscript j ''new'') (\<lambda>v. Inr (dict_set s v st))
            else if t = JStr ''delete'' then Inr (dict_pop s st) else Inr st)
       | _ \<Rightarrow> Inl (OtherError ''TypeError'')))"

fun apply_each :: "json list \<Rightarrow> state \<Rightarrow> exn + state" where
  "apply_each [] st = Inr st"
| "apply_each (j # js) st = bind (apply_delta j st) (apply_each js)"

section \<open>The manager\<close>

record codec =
  dumps :: "json \<Rightarrow> exn + bytes"
  dumps_sorted :: "json \<Rightarrow> exn + bytes"
  loads :: "bytes \<Rightarrow> exn + json"
  compress :: "int \<Rightarrow> bytes \<Rightarrow> bytes"
  decompress :: "bytes \<Rightarrow> exn + bytes"
  crc32 :: "bytes \<Rightarrow> int"
  sha256 :: "bytes \<Rightarrow> string"

text \<open>
  \<open>last_snapshot_state\<close> is what the dictionary kept by \<open>state.copy()\<close> reads at the moment. The copy is shallow: a list or dictionary in it is
  the caller's own object, and when the caller changes that object in place the kept copy reads the new value too. \<open>change_in_place k w\<close> is this
  effect on the manager of the caller turning the shared object under \<open>k\<close> into \<open>w\<close>; numbers, texts, truth values and None cannot change so.
\<close>

record manager =
  max_snapshots :: int
  files :: "(string, bytes) dict"
  current_state :: json
  last_snapshot_state :: state
  snapshot_counter :: int
  last_snapshot_time :: pyfloat

definition manager_init :: "(string, bytes) dict \<Rightarrow> int \<Rightarrow> manager" where
  "manager_init fs n = \<lparr>max_snapshots = n, files = fs, current_state = JDict [], last_snapshot_state = [], snapshot_counter = 0,
     last_snapshot_time = 0\<rparr>"

fun mutable :: "json \<Rightarrow> bool" where
  "mutable (JList xs) = True"
| "mutable (JDict d) = True"
| "mutable j = False"

definition change_in_place :: "string \<Rightarrow> json \<Rightarrow> manager \<Rightarrow> manager" where
  "change_in_place k w s =
     s\<lparr>last_snapshot_state := map (\<lambda>(k', v). (k', if k' = k \<and> mutable v then w else v)) (last_snapshot_state s)\<rparr>"

definition VERSION :: int where "VERSION = 1"

definition compute_state_hash :: "codec \<Rightarrow> json \<Rightarrow> exn + nat list" where
  "compute_state_hash cd j = bind (dumps_sorted cd j) (\<lambda>b. Inr (codes (sha256 cd b)))"

definition pad8 :: "int \<Rightarrow> string" where
  "pad8 i = (let s = int_str i in replicate (8 - length s) (CHR ''0'') @ s)"

definition stem :: "int \<Rightarrow> int \<Rightarrow> string" where
  "stem i ns = ''snapshot_'' @ pad8 i @ ''_'' @ int_str ns"

definition snap_name :: "int \<Rightarrow> int \<Rightarrow> string" where "snap_name i ns = stem i ns @ ''.snap''"
definition temp_name :: "int \<Rightarrow> int \<Rightarrow> string" where "temp_name i ns = stem i ns @ ''.tmp''"

definition put_file :: "string \<Rightarrow> bytes \<Rightarrow> manager \<Rightarrow> manager" where
  "put_file f b s = s\<lparr>files := dict_set f b (files s)\<rparr>"

text \<open>\<open>glob('snapshot_*.snap')\<close>, in the order of the directory, and sorted by name from the last to the first.\<close>

definition is_snapshot :: "string \<Rightarrow> bool" where
  "is_snapshot f \<longleftrightarrow> 14 \<le> length f \<and> take 9 f = ''snapshot_'' \<and> drop (length f - 5) f = ''.snap''"

definition snapshots :: "manager \<Rightarrow> string list" where
  "snapshots s = filter is_snapshot (dict_keys (files s))"

definition newest_first :: "string list \<Rightarrow> string list" where
  "newest_first fs = rev (sort fs)"

definition cleanup_old_snapshots :: "manager \<Rightarrow> int \<times> manager" where
  "cleanup_old_snapshots s =
     (let fs = snapshots s
      in if int (length fs) \<le> max_snapshots s then (0, s)
         else (let old = slice_from (max_snapshots s) (newest_first fs)
               in (int (length old), s\<lparr>files := fold dict_pop old (files s)\<rparr>)))"

text \<open>\<open>ns1\<close> is the clock when the delta is computed, \<open>ns\<close> for the header, \<open>t\<close> at the end. What the copy kept at the end reads later is this
  state with the changes the caller makes in place (\<open>change_in_place\<close>) in between.\<close>

definition raw_data :: "codec \<Rightarrow> (string set \<Rightarrow> string list) \<Rightarrow> int \<Rightarrow> SnapshotType \<Rightarrow> state \<Rightarrow> manager \<Rightarrow> exn + bytes" where
  "raw_data cd ord ns1 ty st s =
     (if ty = FULL then dumps cd (JDict st)
      else dumps cd (JList (map delta_json (compute_delta ord ns1 (last_snapshot_state s) st))))"

definition capture_snapshot ::
    "codec \<Rightarrow> (string set \<Rightarrow> string list) \<Rightarrow> nat option \<Rightarrow> int \<Rightarrow> int \<Rightarrow> pyfloat \<Rightarrow> state \<Rightarrow> bool \<Rightarrow> manager \<Rightarrow> (exn + string) \<times> manager" where
  "capture_snapshot cd ord fails ns1 ns t st force_full s =
     (let ty = (if force_full \<or> last_snapshot_state s = [] then FULL else DELTA)
      in case raw_data cd ord ns1 ty st s of
           Inl e \<Rightarrow> (Inl e, s)
         | Inr raw \<Rightarrow>
             (let packed = compress cd 6 raw;
                  h = \<lparr>version = VERSION, snapshot_type = ty, timestamp_ns = ns,
                       base_snapshot_id = (if ty = FULL then None else Some (snapshot_counter s)), data_hash = codes (sha256 cd raw),
                       compressed_size = int (length packed), uncompressed_size = int (length raw), checksum = crc32 cd packed mod 2 ^ 32\<rparr>
              in case serialize_header h of
                   Inl e \<Rightarrow> (Inl e, s)
                 | Inr hb \<Rightarrow>
                     (let data = hb @ packed; i = snapshot_counter s
                      in case fails of
                           Some n \<Rightarrow> (Inl (OtherError ''OSError''), put_file (temp_name i ns) (take n data) s)
                         | None \<Rightarrow>
                             (Inr (snap_name i ns),
                              snd (cleanup_old_snapshots
                                (s\<lparr>files := dict_set (snap_name i ns) data (dict_pop (temp_name i ns) (files s)),
                                   last_snapshot_state := st, snapshot_counter := i + 1, last_snapshot_time := t\<rparr>))))))"

definition get_latest_snapshot :: "manager \<Rightarrow> string option" where
  "get_latest_snapshot s = (case newest_first (snapshots s) of [] \<Rightarrow> None | f # _ \<Rightarrow> Some f)"

definition restored_state :: "codec \<Rightarrow> SnapshotHeader \<Rightarrow> bytes \<Rightarrow> manager \<Rightarrow> exn + json" where
  "restored_state cd h packed s =
     bind (decompress cd packed) (\<lambda>raw.
     bind (loads cd raw) (\<lambda>j.
       if snapshot_type h = FULL then Inr j
       else bind (iterate j) (\<lambda>js. bind (apply_each js (last_snapshot_state s)) (\<lambda>st. Inr (JDict st)))))"

definition restore_from_snapshot :: "codec \<Rightarrow> string option \<Rightarrow> manager \<Rightarrow> json option \<times> manager" where
  "restore_from_snapshot cd path s =
     (case (case path of None \<Rightarrow> get_latest_snapshot s | Some f \<Rightarrow> Some f) of
        None \<Rightarrow> (None, s)
      | Some f \<Rightarrow>
          (case dict_get (files s) f of
             None \<Rightarrow> (None, s)
           | Some data \<Rightarrow>
               (case deserialize_header data of
                  None \<Rightarrow> (None, s)
                | Some h \<Rightarrow>
                    (let packed = py_slice 64 (64 + compressed_size h) data
                     in if crc32 cd packed mod 2 ^ 32 \<noteq> checksum h then (None, s)
                        else
                          (case restored_state cd h packed s of
                             Inl e \<Rightarrow> (None, s)
                           | Inr j \<Rightarrow>
                               (case compute_state_hash cd j of
                                  Inl e \<Rightarrow> (None, s)
                                | Inr x \<Rightarrow> if x \<noteq> data_hash h then (None, s) else (Some j, s\<lparr>current_state := j\<rparr>)))))))"

section \<open>Statistics\<close>

fun split_at :: "char \<Rightarrow> string \<Rightarrow> string list" where
  "split_at c [] = [[]]"
| "split_at c (x # xs) =
     (if x = c then [] # split_at c xs else case split_at c xs of [] \<Rightarrow> [[x]] | w # ws \<Rightarrow> (x # w) # ws)"

text \<open>The third part of the stem; a name with two parts only is an \<open>IndexError\<close>, a part that is no number is skipped.\<close>

definition stamp_of :: "string \<Rightarrow> exn + int list" where
  "stamp_of f =
     (case split_at (CHR ''_'') (take (length f - 5) f) of
        a # b # c # _ \<Rightarrow> (case py_int c of Inl e \<Rightarrow> Inr [] | Inr n \<Rightarrow> Inr [n])
      | [a, b] \<Rightarrow> Inl IndexError
      | _ \<Rightarrow> Inr [])"

fun stamps :: "string list \<Rightarrow> exn + int list" where
  "stamps [] = Inr []"
| "stamps (f # fs) = bind (stamp_of f) (\<lambda>x. bind (stamps fs) (\<lambda>xs. Inr (x @ xs)))"

datatype snapshot_stats =
    No_Snapshots
  | Stats int int int "int option" "int option" int

definition get_snapshot_stats :: "manager \<Rightarrow> exn + snapshot_stats" where
  "get_snapshot_stats s =
     (let fs = snapshots s; sizes = map (\<lambda>f. case dict_get (files s) f of None \<Rightarrow> 0 | Some b \<Rightarrow> int (length b)) fs
      in if fs = [] then Inr No_Snapshots
         else bind (stamps fs) (\<lambda>ts.
                Inr (Stats (int (length fs)) (sum_list sizes) (sum_list sizes div int (length sizes))
                  (if ts = [] then None else Some (Max (set ts))) (if ts = [] then None else Some (Min (set ts))) (max_snapshots s))))"

definition create_memory_mapped_snapshot :: "codec \<Rightarrow> state \<Rightarrow> exn + bytes" where
  "create_memory_mapped_snapshot cd st = bind (dumps cd (JDict st)) (\<lambda>raw. Inr (compress cd 3 raw))"


section \<open>Restoration\<close>

text \<open>C39: No snapshot can ever be restored: the header occupies 65 bytes and its reader takes 64 of them, so every file, also one that was just
  written, is refused, and the state stays as it was.\<close>

theorem nothing_is_restored: "restore_from_snapshot cd path s = (None, s)"
proof -
  have "deserialize_header data = None" for data by (simp add: deserialize_header_def unpack_header_def HEADER_SIZE_def)
  then show ?thesis by (simp add: restore_from_snapshot_def split: option.split)
qed

lemma apply_change:
  assumes "k \<in> fst ` set old \<union> fst ` set new"
  shows "\<exists>st'. apply_delta (delta_json (change_of ns old new k)) st = Inr st' \<and>
    (\<forall>k'. dict_get st' k' = (if k' = k then dict_get new k else dict_get st k'))"
proof (cases "dict_get new k")
  case None
  then have "dict_get old k \<noteq> None" using assms by (auto simp: map_of_eq_None_iff)
  then show ?thesis using None by (auto simp: apply_delta_def delta_json_def change_of_def dict_get_pop)
next
  case (Some v)
  then show ?thesis by (auto simp: apply_delta_def delta_json_def change_of_def get_or_none_def dict_get_set)
qed

lemma apply_changes:
  assumes "set ks \<subseteq> fst ` set old \<union> fst ` set new"
  shows "\<exists>st'. apply_each (map delta_json (map (change_of ns old new) ks)) st = Inr st' \<and>
    (\<forall>k. dict_get st' k = (if k \<in> set ks then dict_get new k else dict_get st k))"
  using assms
proof (induction ks arbitrary: st)
  case (Cons k ks)
  have "set ks \<subseteq> fst ` set old \<union> fst ` set new" "k \<in> fst ` set old \<union> fst ` set new" using Cons.prems by auto
  note IH = Cons.IH[OF this(1)] and mem = this(2)
  obtain st1 where st1: "apply_delta (delta_json (change_of ns old new k)) st = Inr st1"
    "\<forall>k'. dict_get st1 k' = (if k' = k then dict_get new k else dict_get st k')"
    using apply_change[OF mem] by blast
  moreover obtain st2 where "apply_each (map delta_json (map (change_of ns old new) ks)) st1 = Inr st2"
    "\<forall>k'. dict_get st2 k' = (if k' \<in> set ks then dict_get new k' else dict_get st1 k')"
    using IH by blast
  ultimately show ?case by (intro exI[of _ st2]) simp
qed simp

lemma py_eq_null: "py_eq JNull v \<longleftrightarrow> v = JNull" "py_eq v JNull \<longleftrightarrow> v = JNull"
  by (cases v; simp add: num_of_def)+

text \<open>C32: Applying a delta to the state it starts from gives the state it leads to, key by key up to what Python calls equal, except for a key
  that is absent on one side and has the value None on the other: such a key is neither added nor removed, it stays as it was.\<close>

theorem delta_roundtrip:
  assumes "lists_sets ord"
  shows "\<exists>st. apply_each (map delta_json (compute_delta ord ns old new)) old = Inr st \<and>
    (\<forall>k. if dict_get old k \<noteq> dict_get new k \<and> get_or_none old k = JNull \<and> get_or_none new k = JNull
      then dict_get st k = dict_get old k
      else dict_get st k = dict_get new k \<or> rel_option py_eq (dict_get st k) (dict_get new k))"
proof -
  let ?all = "fst ` set old \<union> fst ` set new"
  let ?ks = "filter (\<lambda>k. \<not> py_eq (get_or_none old k) (get_or_none new k)) (ord ?all)"
  have all: "set (ord ?all) = ?all" by (rule lists_setsD[OF assms]) simp
  then have "set ?ks \<subseteq> ?all" by auto
  from apply_changes[OF this, of ns old] obtain st where st:
    "apply_each (map delta_json (compute_delta ord ns old new)) old = Inr st"
    "\<forall>k. dict_get st k = (if k \<in> set ?ks then dict_get new k else dict_get old k)"
    unfolding compute_delta_def by blast
  have "if dict_get old k \<noteq> dict_get new k \<and> get_or_none old k = JNull \<and> get_or_none new k = JNull then dict_get st k = dict_get old k
      else dict_get st k = dict_get new k \<or> rel_option py_eq (dict_get st k) (dict_get new k)" for k
  proof (cases "k \<in> ?all \<and> k \<notin> set ?ks")
    case True
    then have eq: "py_eq (get_or_none old k) (get_or_none new k)" "dict_get st k = dict_get old k" using all st(2) by auto
    then show ?thesis
      using py_eq_null by (cases "dict_get old k"; cases "dict_get new k") (auto simp: get_or_none_def)
  next
    case False
    have "dict_get st k = dict_get new k" using False st(2) by (auto simp: map_of_eq_None_iff[symmetric] split: if_splits)
    moreover have "dict_get old k = dict_get new k \<or> \<not> py_eq (get_or_none old k) (get_or_none new k)"
      using False by (auto simp: map_of_eq_None_iff[symmetric] split: if_splits)
    then have "\<not> (dict_get old k \<noteq> dict_get new k \<and> get_or_none old k = JNull \<and> get_or_none new k = JNull)"
      by (metis py_eq.simps(4))
    ultimately show ?thesis by argo
  qed
  then show ?thesis using st(1) by blast
qed

lemma cleanup_keeps_state: "last_snapshot_state (snd (cleanup_old_snapshots z)) = last_snapshot_state z"
  by (simp add: cleanup_old_snapshots_def Let_def)

lemma captured_state:
  "capture_snapshot cd ord fails ns1 ns t st ff s = (Inr f, s1) \<Longrightarrow> last_snapshot_state s1 = st"
  by (auto simp: capture_snapshot_def Let_def cleanup_keeps_state split: sum.splits option.splits)

lemma get_changed_in_place:
  "dict_get (last_snapshot_state (change_in_place k w s)) k =
     map_option (\<lambda>v. if mutable v then w else v) (dict_get (last_snapshot_state s) k)"
proof -
  have "dict_get (map (\<lambda>(k', v). (k', if k' = k \<and> mutable v then w else v)) d) k = map_option (\<lambda>v. if mutable v then w else v) (dict_get d k)"
    for d :: state by (induction d) auto
  then show ?thesis by (simp add: change_in_place_def)
qed

text \<open>A change in place is lost: after a capture, when the caller changes a nested list or dictionary in place, the next delta has no entry
  for its key, because the copy kept for comparison has changed with it; the module's own example does this with its balances.\<close>

theorem nested_change_missed:
  assumes "capture_snapshot cd ord fails ns1 ns t st ff s = (Inr f, s1)" "dict_get st k = Some v" "mutable v"
    "dict_get st' k = Some w" "py_eq w w"
  shows "\<forall>c \<in> set (compute_delta ord' ns2 (last_snapshot_state (change_in_place k w s1)) st'). key c \<noteq> k"
proof -
  have "dict_get (last_snapshot_state (change_in_place k w s1)) k = Some w"
    using get_changed_in_place[of k w s1] captured_state[OF assms(1)] assms(2,3) by simp
  then show ?thesis using assms(4,5) by (auto simp: compute_delta_def change_of_def get_or_none_def)
qed

section \<open>Retention\<close>

lemma set_newest [simp]: "set (newest_first fs) = set fs" and length_newest [simp]: "length (newest_first fs) = length fs"
  by (simp_all add: newest_first_def)

lemma snapshots_mem: "f \<in> set (snapshots s) \<longleftrightarrow> is_snapshot f \<and> dict_get (files s) f \<noteq> None"
  by (force simp: snapshots_def map_of_eq_None_iff)

lemma distinct_snapshots: "wf_dict (files s) \<Longrightarrow> distinct (snapshots s)"
  by (simp add: snapshots_def wf_dict_def)

lemma cleanup_keys:
  "dict_get (files (snd (cleanup_old_snapshots s))) f =
     (if max_snapshots s < int (length (snapshots s)) \<and> f \<in> set (slice_from (max_snapshots s) (newest_first (snapshots s)))
      then None else dict_get (files s) f)"
  by (simp add: cleanup_old_snapshots_def Let_def fold_dict_pop_get)

lemma late_in_order:
  assumes "x \<in> set fs" "n \<le> length (filter (\<lambda>y. x < y) fs)"
  shows "x \<in> set (drop n (newest_first fs))"
proof -
  let ?ys = "newest_first fs"
  have sorted: "sorted_wrt (\<ge>) ?ys" by (simp add: newest_first_def sorted_wrt_rev)
  have len: "length (filter (\<lambda>y. x < y) ?ys) = length (filter (\<lambda>y. x < y) fs)"
    by (simp add: newest_first_def rev_filter[symmetric] filter_sort)
  show ?thesis
  proof (rule ccontr)
    assume no: "x \<notin> set (drop n ?ys)"
    obtain i where i: "i < length ?ys" "?ys ! i = x" using assms(1) by (metis set_newest in_set_conv_nth)
    have "i < n"
    proof (rule ccontr)
      assume "\<not> i < n"
      then have "drop n ?ys ! (i - n) = x" "i - n < length (drop n ?ys)" using i by auto
      then show False using no nth_mem by metis
    qed
    have "filter (\<lambda>y. x < y) (drop i ?ys) = []"
    proof (rule filter_False, rule ballI)
      fix y assume "y \<in> set (drop i ?ys)"
      then obtain j where "j < length (drop i ?ys)" "y = drop i ?ys ! j" by (metis in_set_conv_nth)
      then have "i + j < length ?ys" "y = ?ys ! (i + j)" using i by auto
      then have "y \<le> x" using sorted_wrt_nth_less[OF sorted, of i "i + j"] i by (cases j) auto
      then show "\<not> x < y" by simp
    qed
    then have "filter (\<lambda>y. x < y) ?ys = filter (\<lambda>y. x < y) (take i ?ys)"
      by (metis append_Nil2 append_take_drop_id filter_append)
    then have "length (filter (\<lambda>y. x < y) ?ys) \<le> i" using i(1) length_filter_le[of "\<lambda>y. x < y" "take i ?ys"] by simp
    then show False using len assms(2) \<open>i < n\<close> by simp
  qed
qed

lemma snap_is_snapshot: "is_snapshot (snap_name i ns)"
  by (simp add: is_snapshot_def snap_name_def stem_def)

lemma temp_no_snapshot: "\<not> is_snapshot (temp_name i ns)"
proof
  assume "is_snapshot (temp_name i ns)"
  then have "take 5 (rev (temp_name i ns)) = rev ''.snap''" by (simp add: is_snapshot_def take_rev)
  then show False by (simp add: temp_name_def eval_nat_numeral)
qed

lemma captureE:
  assumes "capture_snapshot cd ord fails ns1 ns t st ff s = (Inr f, s1)"
  obtains d ls where "f = snap_name (snapshot_counter s) ns"
    "s1 = snd (cleanup_old_snapshots (s\<lparr>files := dict_set f d (dict_pop (temp_name (snapshot_counter s) ns) (files s)),
        last_snapshot_state := ls, snapshot_counter := snapshot_counter s + 1, last_snapshot_time := t\<rparr>))"
  using assms by (auto simp: capture_snapshot_def Let_def split: sum.splits option.splits)

text \<open>A new manager, whose counter starts at 0 again, deletes its snapshots as it takes them: when the directory holds as many snapshots of an earlier
  run with later names as may be kept, the file whose path a capture returns is gone when it returns.\<close>

theorem restart_deletes_new_snapshots:
  assumes "capture_snapshot cd ord fails ns1 ns t st ff s = (Inr f, s1)" "0 \<le> max_snapshots s" "wf_dict (files s)"
    "max_snapshots s \<le> int (length (filter (\<lambda>g. snap_name (snapshot_counter s) ns < g) (snapshots s)))"
  shows "f = snap_name (snapshot_counter s) ns \<and> dict_get (files s1) f = None"
proof -
  obtain d ls where f: "f = snap_name (snapshot_counter s) ns"
    and s1: "s1 = snd (cleanup_old_snapshots (s\<lparr>files := dict_set f d (dict_pop (temp_name (snapshot_counter s) ns) (files s)),
        last_snapshot_state := ls, snapshot_counter := snapshot_counter s + 1, last_snapshot_time := t\<rparr>))"
    by (rule captureE[OF assms(1)])
  define s0 where "s0 = s\<lparr>files := dict_set f d (dict_pop (temp_name (snapshot_counter s) ns) (files s)),
      last_snapshot_state := ls, snapshot_counter := snapshot_counter s + 1, last_snapshot_time := t\<rparr>"
  have sub: "set (snapshots s) \<subseteq> set (snapshots s0)"
    using temp_no_snapshot by (auto simp: snapshots_mem s0_def dict_get_set dict_get_pop)
  have mem: "f \<in> set (snapshots s0)" using snap_is_snapshot f by (simp add: snapshots_mem s0_def dict_get_set)
  have dist: "distinct (snapshots s)" "distinct (snapshots s0)"
    using assms(3) by (auto intro!: distinct_snapshots simp: s0_def)
  have "length (filter (\<lambda>g. f < g) (snapshots s)) = card {g \<in> set (snapshots s). f < g}"
    using dist(1) by (metis distinct_card distinct_filter set_filter)
  also have "\<dots> \<le> card {g \<in> set (snapshots s0). f < g}" using sub by (intro card_mono) auto
  also have "\<dots> = length (filter (\<lambda>g. f < g) (snapshots s0))" using dist(2) by (metis distinct_card distinct_filter set_filter)
  finally have len: "max_snapshots s \<le> int (length (filter (\<lambda>g. f < g) (snapshots s0)))" using assms(4) f by simp
  have "f \<in> set (drop (nat (max_snapshots s)) (newest_first (snapshots s0)))"
    by (rule late_in_order[OF mem]) (use len assms(2) in simp)
  moreover have "max_snapshots s < int (length (snapshots s0))"
    using len mem length_filter_less[of f "snapshots s0" "\<lambda>g. f < g"] by simp
  ultimately have "dict_get (files s1) f = None"
    using assms(2) unfolding s1 s0_def[symmetric] cleanup_keys by (simp add: s0_def slice_from_def)
  then show ?thesis using f by simp
qed

lemma wf_fold_pop: "wf_dict d \<Longrightarrow> wf_dict (fold dict_pop ks d)"
  by (induction ks arbitrary: d) auto

lemma cleanup_count:
  assumes "wf_dict (files s)" "0 \<le> max_snapshots s"
  shows "int (length (snapshots (snd (cleanup_old_snapshots s)))) \<le> max_snapshots s"
proof (cases "int (length (snapshots s)) \<le> max_snapshots s")
  case False
  let ?s = "snd (cleanup_old_snapshots s)" and ?n = "nat (max_snapshots s)" and ?ys = "newest_first (snapshots s)"
  have "wf_dict (files ?s)" using assms(1) by (auto simp: cleanup_old_snapshots_def Let_def wf_fold_pop)
  then have "length (snapshots ?s) = card (set (snapshots ?s))" by (simp add: distinct_card distinct_snapshots)
  moreover have "set (snapshots ?s) \<subseteq> set (take ?n ?ys)"
  proof
    fix f assume "f \<in> set (snapshots ?s)"
    then have f: "f \<in> set ?ys" "f \<notin> set (drop ?n ?ys)"
      using False assms(2) by (auto simp: snapshots_mem cleanup_keys slice_from_def split: if_splits)
    then show "f \<in> set (take ?n ?ys)" by (metis append_take_drop_id in_set_conv_decomp set_append Un_iff)
  qed
  then have "card (set (snapshots ?s)) \<le> ?n"
    using card_mono[OF finite_set, of "set (snapshots ?s)" "take ?n ?ys"] card_length[of "take ?n ?ys"] by simp
  ultimately show ?thesis using assms(2) by simp
qed (simp add: cleanup_old_snapshots_def)

text \<open>After a capture the directory holds at most \<open>max_snapshots\<close> snapshots, however many it held before, and the counter has gone up by one.\<close>

theorem capture_keeps_at_most:
  assumes "capture_snapshot cd ord fails ns1 ns t st ff s = (Inr f, s1)" "0 \<le> max_snapshots s" "wf_dict (files s)"
  shows "int (length (snapshots s1)) \<le> max_snapshots s1 \<and> snapshot_counter s1 = snapshot_counter s + 1"
proof -
  obtain d ls where s1: "s1 = snd (cleanup_old_snapshots (s\<lparr>files := dict_set f d (dict_pop (temp_name (snapshot_counter s) ns) (files s)),
        last_snapshot_state := ls, snapshot_counter := snapshot_counter s + 1, last_snapshot_time := t\<rparr>))"
    by (rule captureE[OF assms(1)])
  have same: "max_snapshots (snd (cleanup_old_snapshots z)) = max_snapshots z \<and>
      snapshot_counter (snd (cleanup_old_snapshots z)) = snapshot_counter z" for z
    by (simp add: cleanup_old_snapshots_def Let_def)
  show ?thesis unfolding s1
    using same[of "s\<lparr>files := dict_set f d (dict_pop (temp_name (snapshot_counter s) ns) (files s)),
        last_snapshot_state := ls, snapshot_counter := snapshot_counter s + 1, last_snapshot_time := t\<rparr>"]
      cleanup_count[of "s\<lparr>files := dict_set f d (dict_pop (temp_name (snapshot_counter s) ns) (files s)),
        last_snapshot_state := ls, snapshot_counter := snapshot_counter s + 1, last_snapshot_time := t\<rparr>"] assms(2,3)
    by simp
qed

section \<open>Witnesses\<close>

definition demo_codec :: codec where
  "demo_codec = \<lparr>dumps = (\<lambda>j. Inr [1, 2, 3]), dumps_sorted = (\<lambda>j. Inr [1, 2, 3]), loads = (\<lambda>b. Inr JNull), compress = (\<lambda>l b. rev b),
     decompress = (\<lambda>b. Inr (rev b)), crc32 = (\<lambda>b. 77), sha256 = (\<lambda>b. ''ab'')\<rparr>"

definition demo_manager :: manager where
  "demo_manager = manager_init [(''snapshot_00000009_5.snap'', [9])] 1"

definition no_list :: "string set \<Rightarrow> string list" where "no_list S = []"

definition demo_capture where
  "demo_capture = capture_snapshot demo_codec no_list None 6 7 0 [(''a'', JInt 1)] False demo_manager"

lemma demo_captures: "demo_capture = (Inr (snap_name 0 7), snd demo_capture)"
  by code_simp

lemma demo_later: "filter (\<lambda>g. snap_name (snapshot_counter demo_manager) 7 < g) (snapshots demo_manager) = [''snapshot_00000009_5.snap'']"
  by code_simp

lemma demo_snap_wf: "snapshot_counter demo_manager = 0" "0 \<le> max_snapshots demo_manager" "wf_dict (files demo_manager)" "max_snapshots demo_manager = 1"
  by (simp_all add: demo_manager_def manager_init_def wf_dict_def)

theorem restart_deletes_new_snapshots_witness:
  "dict_get (files (snd demo_capture)) ''snapshot_00000000_7.snap'' = None"
proof -
  have n: "snap_name 0 7 = ''snapshot_00000000_7.snap''" by code_simp
  show ?thesis
    using restart_deletes_new_snapshots[OF demo_captures[unfolded demo_capture_def] demo_snap_wf(2,3)] demo_later demo_snap_wf(1,4)
    by (simp add: demo_capture_def n[symmetric])
qed

theorem capture_keeps_at_most_witness: "int (length (snapshots (snd demo_capture))) \<le> max_snapshots (snd demo_capture)"
  using capture_keeps_at_most[OF demo_captures[unfolded demo_capture_def] demo_snap_wf(2,3)] by (simp add: demo_capture_def)

theorem delta_roundtrip_witness:
  "\<exists>st. apply_each (map delta_json (compute_delta sorted_list_of_set 3
      [(''a'', JInt 1), (''c'', JNull)] [(''b'', JInt 2)])) [(''a'', JInt 1), (''c'', JNull)] = Inr st \<and>
    dict_get st ''c'' = Some JNull"
proof -
  obtain st where st: "apply_each (map delta_json (compute_delta sorted_list_of_set 3
      [(''a'', JInt 1), (''c'', JNull)] [(''b'', JInt 2)])) [(''a'', JInt 1), (''c'', JNull)] = Inr st"
    and r: "\<forall>k. if dict_get [(''a'', JInt 1), (''c'', JNull)] k \<noteq> dict_get [(''b'', JInt 2)] k \<and>
        get_or_none [(''a'', JInt 1), (''c'', JNull)] k = JNull \<and> get_or_none [(''b'', JInt 2)] k = JNull
      then dict_get st k = dict_get [(''a'', JInt 1), (''c'', JNull)] k
      else dict_get st k = dict_get [(''b'', JInt 2)] k \<or> rel_option py_eq (dict_get st k) (dict_get [(''b'', JInt 2)] k)"
    using delta_roundtrip[OF lists_sets_sorted, of 3 "[(''a'', JInt 1), (''c'', JNull)]" "[(''b'', JInt 2)]"] by blast
  from r[THEN spec, of "''c''"] have "dict_get st ''c'' = Some JNull" by (simp add: get_or_none_def)
  then show ?thesis using st by blast
qed

end
