(* ===== verification/IcebergManager.thy ===== *)
theory IcebergManager
  imports Prelude
begin

text \<open>
  \<open>execution/iceberg_manager.py\<close>: iceberg orders that show only part of their size, and the detection of sweeps.

  Every method takes the lock for its whole body, so it is one step. An argument \<open>now\<close> is what \<open>time.time_ns()\<close> returns. The mean and the standard
  deviation of \<open>numpy\<close> are the functions of a \<open>numpy\<close> record.
\<close>

section \<open>Data\<close>

datatype OrderSide = BUY | SELL

fun side_value :: "OrderSide \<Rightarrow> string" where
  "side_value BUY = ''buy''" | "side_value SELL = ''sell''"

record IcebergOrder =
  order_id :: string
  side :: OrderSide
  total_quantity :: pyfloat
  visible_quantity :: pyfloat
  filled_quantity :: pyfloat
  price :: pyfloat
  venue :: string
  created_at_ns :: int
  last_refresh_ns :: int
  is_active :: bool
  detection_risk_score :: pyfloat

record LiquiditySweepEvent =
  ev_time :: int
  ev_venue :: string
  ev_side :: OrderSide
  swept_volume :: pyfloat
  price_impact_bps :: pyfloat
  duration_us :: int
  is_spoofing :: bool

record numpy =
  mean :: "pyfloat list \<Rightarrow> pyfloat"
  std :: "pyfloat list \<Rightarrow> pyfloat"

record manager =
  default_visible_pct :: pyfloat
  min_visible_quantity :: pyfloat
  max_visible_quantity :: pyfloat
  refresh_interval_ms :: int
  sweep_detection_threshold :: pyfloat
  spoofing_time_threshold_us :: int
  iceberg_orders :: "(string, IcebergOrder) dict"
  volume_history :: "(int \<times> pyfloat) list"
  volume_baseline_mean :: pyfloat
  volume_baseline_std :: pyfloat
  sweep_events :: "LiquiditySweepEvent list"
  threat_detected :: bool
  last_threat_time_ns :: int

definition manager_init :: "pyfloat \<Rightarrow> pyfloat \<Rightarrow> pyfloat \<Rightarrow> int \<Rightarrow> pyfloat \<Rightarrow> int \<Rightarrow> manager" where
  "manager_init dp mn mx ri st sp =
     \<lparr>default_visible_pct = dp, min_visible_quantity = mn, max_visible_quantity = mx, refresh_interval_ms = ri, sweep_detection_threshold = st,
      spoofing_time_threshold_us = sp, iceberg_orders = [], volume_history = [], volume_baseline_mean = 0, volume_baseline_std = 0,
      sweep_events = [], threat_detected = False, last_threat_time_ns = 0\<rparr>"

definition default_manager :: manager where
  "default_manager = manager_init (fl (1 / 10)) 100 10000 5000 5 100000"

section \<open>Orders\<close>

definition put_order :: "string \<Rightarrow> IcebergOrder \<Rightarrow> manager \<Rightarrow> manager" where
  "put_order i q m = m\<lparr>iceberg_orders := dict_set i q (iceberg_orders m)\<rparr>"

text \<open>\<open>visible_pct or default\<close>: a share of 0.0 counts as not given.\<close>

definition share_of :: "pyfloat option \<Rightarrow> manager \<Rightarrow> pyfloat" where
  "share_of p m = (case p of None \<Rightarrow> default_visible_pct m | Some x \<Rightarrow> if x = 0 then default_visible_pct m else x)"

definition initial_visible :: "pyfloat \<Rightarrow> pyfloat \<Rightarrow> manager \<Rightarrow> pyfloat" where
  "initial_visible q p m = max (min_visible_quantity m) (min (max_visible_quantity m) (fmul q p))"

definition create_iceberg_order ::
    "int \<Rightarrow> int \<Rightarrow> string \<Rightarrow> OrderSide \<Rightarrow> pyfloat \<Rightarrow> pyfloat \<Rightarrow> string \<Rightarrow> pyfloat option \<Rightarrow> manager \<Rightarrow> IcebergOrder \<times> manager" where
  "create_iceberg_order now now' i sd q p v pct m =
     (let x = \<lparr>order_id = i, side = sd, total_quantity = q, visible_quantity = initial_visible q (share_of pct m) m, filled_quantity = 0,
               price = p, venue = v, created_at_ns = now, last_refresh_ns = now', is_active = True, detection_risk_score = 0\<rparr>
      in (x, put_order i x m))"

definition remaining :: "IcebergOrder \<Rightarrow> pyfloat" where
  "remaining x = fsub (total_quantity x) (filled_quantity x)"

definition fill_rate :: "IcebergOrder \<Rightarrow> pyfloat" where
  "fill_rate x = (if 0 < total_quantity x then fdiv (filled_quantity x) (total_quantity x) else 0)"

definition update_detection_risk :: "int \<Rightarrow> IcebergOrder \<Rightarrow> IcebergOrder" where
  "update_detection_risk now x =
     x\<lparr>detection_risk_score :=
        fdiv (fadd (min 1 (fdiv (idiv (now - created_at_ns x) 1000000) 60000)) (fmul (fill_rate x) (1 / 2))) 2\<rparr>"

definition fill_order :: "int \<Rightarrow> int \<Rightarrow> pyfloat \<Rightarrow> IcebergOrder \<Rightarrow> IcebergOrder" where
  "fill_order now now' f x =
     (let x1 = x\<lparr>filled_quantity := fadd (filled_quantity x) f\<rparr>
      in if total_quantity x1 \<le> filled_quantity x1 then x1\<lparr>is_active := False\<rparr>
         else
           (let r = remaining x1; x2 = (if r < visible_quantity x1 then x1\<lparr>visible_quantity := r\<rparr> else x1)
            in update_detection_risk now' (x2\<lparr>last_refresh_ns := now\<rparr>)))"

definition record_fill :: "int \<Rightarrow> int \<Rightarrow> string \<Rightarrow> pyfloat \<Rightarrow> manager \<Rightarrow> IcebergOrder option \<times> manager" where
  "record_fill now now' i f m =
     (case dict_get (iceberg_orders m) i of
        None \<Rightarrow> (None, m)
      | Some x \<Rightarrow> (let y = fill_order now now' f x in (Some y, put_order i y m)))"

definition wanted_visible :: "pyfloat option \<Rightarrow> IcebergOrder \<Rightarrow> manager \<Rightarrow> pyfloat" where
  "wanted_visible pct x m =
     (case pct of
        Some p \<Rightarrow> max (min_visible_quantity m) (min (max_visible_quantity m) (fmul (remaining x) p))
      | None \<Rightarrow>
          (if threat_detected m then max (min_visible_quantity m) (fmul (remaining x) (fmul (default_visible_pct m) (1 / 2)))
           else if fl (7 / 10) < detection_risk_score x
           then max (min_visible_quantity m) (fmul (remaining x) (fmul (default_visible_pct m) (fl (7 / 10))))
           else visible_quantity x))"

definition adjust_visible_quantity :: "int \<Rightarrow> string \<Rightarrow> pyfloat option \<Rightarrow> manager \<Rightarrow> pyfloat option \<times> manager" where
  "adjust_visible_quantity now i pct m =
     (case dict_get (iceberg_orders m) i of
        None \<Rightarrow> (None, m)
      | Some x \<Rightarrow>
          (let v = min (wanted_visible pct x m) (remaining x)
           in (Some v, put_order i (x\<lparr>visible_quantity := v, last_refresh_ns := now\<rparr>) m)))"

section \<open>Sweeps and threats\<close>

definition add_volume_sample :: "numpy \<Rightarrow> int \<Rightarrow> pyfloat \<Rightarrow> manager \<Rightarrow> manager" where
  "add_volume_sample np now v m =
     (let h = volume_history m @ [(now, v)]; h1 = (if 1000 < length h then tl h else h); m1 = m\<lparr>volume_history := h1\<rparr>
      in if 10 \<le> length h1 then m1\<lparr>volume_baseline_mean := mean np (map snd h1), volume_baseline_std := std np (map snd h1)\<rparr> else m1)"

definition z_score :: "pyfloat \<Rightarrow> manager \<Rightarrow> pyfloat" where
  "z_score v m = fdiv (fsub v (volume_baseline_mean m)) (volume_baseline_std m)"

definition detect_liquidity_sweep ::
    "int \<Rightarrow> pyfloat \<Rightarrow> OrderSide \<Rightarrow> string \<Rightarrow> pyfloat \<Rightarrow> int \<Rightarrow> manager \<Rightarrow> LiquiditySweepEvent option \<times> manager" where
  "detect_liquidity_sweep now v sd ven imp dur m =
     (if volume_baseline_std m = 0 then (None, m)
      else if sweep_detection_threshold m < z_score v m
      then
        (let e = \<lparr>ev_time = now, ev_venue = ven, ev_side = sd, swept_volume = v, price_impact_bps = imp, duration_us = dur,
                  is_spoofing = (dur < spoofing_time_threshold_us m \<and> 50 < imp)\<rparr>;
             es = sweep_events m @ [e]
         in (Some e, m\<lparr>sweep_events := (if 100 < length es then tl es else es), threat_detected := True, last_threat_time_ns := now\<rparr>))
      else (None, m))"

definition deactivate :: "(IcebergOrder \<Rightarrow> bool) \<Rightarrow> (string, IcebergOrder) dict \<Rightarrow> (string, IcebergOrder) dict" where
  "deactivate p d = map (\<lambda>(i, x). (i, if is_active x \<and> p x then x\<lparr>is_active := False\<rparr> else x)) d"

definition pulled :: "(IcebergOrder \<Rightarrow> bool) \<Rightarrow> (string, IcebergOrder) dict \<Rightarrow> string list" where
  "pulled p d = map fst (filter (\<lambda>(i, x). is_active x \<and> p x) d)"

definition pull_all_icebergs :: "int \<Rightarrow> manager \<Rightarrow> string list \<times> manager" where
  "pull_all_icebergs now m =
     (pulled (\<lambda>_. True) (iceberg_orders m),
      m\<lparr>iceberg_orders := deactivate (\<lambda>_. True) (iceberg_orders m), threat_detected := True, last_threat_time_ns := now\<rparr>)"

definition pull_iceberg_for_venue :: "string \<Rightarrow> manager \<Rightarrow> string list \<times> manager" where
  "pull_iceberg_for_venue v m =
     (pulled (\<lambda>x. venue x = v) (iceberg_orders m), m\<lparr>iceberg_orders := deactivate (\<lambda>x. venue x = v) (iceberg_orders m)\<rparr>)"

definition is_threat_detected :: "int \<Rightarrow> manager \<Rightarrow> bool \<times> manager" where
  "is_threat_detected now m =
     (if \<not> threat_detected m then (False, m)
      else if 5000 < idiv (now - last_threat_time_ns m) 1000000 then (False, m\<lparr>threat_detected := False\<rparr>)
      else (True, m))"

definition get_recent_sweeps :: "int \<Rightarrow> manager \<Rightarrow> LiquiditySweepEvent list" where
  "get_recent_sweeps limit m = slice_from (- limit) (sweep_events m)"

record iceberg_status =
  s_order_id :: string
  s_side :: string
  s_total :: pyfloat
  s_visible :: pyfloat
  s_filled :: pyfloat
  s_remaining :: pyfloat
  fill_progress :: pyfloat
  detection_risk :: pyfloat
  s_active :: bool
  s_venue :: string

definition get_iceberg_status :: "string \<Rightarrow> manager \<Rightarrow> iceberg_status option" where
  "get_iceberg_status i m =
     map_option (\<lambda>x. \<lparr>s_order_id = order_id x, s_side = side_value (side x), s_total = total_quantity x, s_visible = visible_quantity x,
        s_filled = filled_quantity x, s_remaining = remaining x, fill_progress = fill_rate x, detection_risk = detection_risk_score x,
        s_active = is_active x, s_venue = venue x\<rparr>) (dict_get (iceberg_orders m) i)"

definition reset :: "manager \<Rightarrow> manager" where
  "reset m = m\<lparr>iceberg_orders := [], volume_history := [], sweep_events := [], threat_detected := False, last_threat_time_ns := 0,
     volume_baseline_mean := 0, volume_baseline_std := 0\<rparr>"


section \<open>Runs\<close>

datatype iceberg_op =
    Create int int string OrderSide pyfloat pyfloat string "pyfloat option"
  | Fill int int string pyfloat
  | Adjust int string "pyfloat option"
  | Sample numpy int pyfloat
  | Detect int pyfloat OrderSide string pyfloat int
  | Pull_All int
  | Pull_Venue string
  | Ask int
  | Reset

fun iceberg_step :: "iceberg_op \<Rightarrow> manager \<Rightarrow> manager" where
  "iceberg_step (Create n n' i sd q p v pct) m = snd (create_iceberg_order n n' i sd q p v pct m)"
| "iceberg_step (Fill n n' i f) m = snd (record_fill n n' i f m)"
| "iceberg_step (Adjust n i pct) m = snd (adjust_visible_quantity n i pct m)"
| "iceberg_step (Sample np n v) m = add_volume_sample np n v m"
| "iceberg_step (Detect n v sd ven imp dur) m = snd (detect_liquidity_sweep n v sd ven imp dur m)"
| "iceberg_step (Pull_All n) m = snd (pull_all_icebergs n m)"
| "iceberg_step (Pull_Venue v) m = snd (pull_iceberg_for_venue v m)"
| "iceberg_step (Ask n) m = snd (is_threat_detected n m)"
| "iceberg_step Reset m = reset m"

lemma put_iceberg_fields [simp]:
  "iceberg_orders (put_order i x m) = dict_set i x (iceberg_orders m)" "volume_history (put_order i x m) = volume_history m"
  "sweep_events (put_order i x m) = sweep_events m" "threat_detected (put_order i x m) = threat_detected m"
  "last_threat_time_ns (put_order i x m) = last_threat_time_ns m" "min_visible_quantity (put_order i x m) = min_visible_quantity m"
  "max_visible_quantity (put_order i x m) = max_visible_quantity m" "default_visible_pct (put_order i x m) = default_visible_pct m"
  by (simp_all add: put_order_def)

lemma deactivate_get:
  "dict_get (deactivate p d) i = map_option (\<lambda>x. if is_active x \<and> p x then x\<lparr>is_active := False\<rparr> else x) (dict_get d i)"
  by (induction d) (auto simp: deactivate_def)

text \<open>An active order shows no more than what is left of it.\<close>

definition shows_less :: "IcebergOrder \<Rightarrow> bool" where
  "shows_less x \<longleftrightarrow> (is_active x \<longrightarrow> visible_quantity x \<le> remaining x)"

definition bounded :: "manager \<Rightarrow> bool" where
  "bounded m \<longleftrightarrow> (\<forall>i x. dict_get (iceberg_orders m) i = Some x \<longrightarrow> shows_less x) \<and> length (volume_history m) \<le> 1000 \<and>
     length (sweep_events m) \<le> 100"

text \<open>An order is large enough for the minimum that is shown of any, and its share is a share.\<close>

definition fair_op :: "pyfloat \<Rightarrow> pyfloat \<Rightarrow> iceberg_op \<Rightarrow> bool" where
  "fair_op mn dp op \<longleftrightarrow> (case op of
      Create n n' i sd q p v pct \<Rightarrow> is_float q \<and> 0 \<le> q \<and> mn \<le> q \<and> (case pct of None \<Rightarrow> True | Some x \<Rightarrow> x \<le> 1)
    | _ \<Rightarrow> True)"

lemma fill_shows_less: "shows_less (fill_order now now' f x)"
  by (simp add: shows_less_def fill_order_def Let_def update_detection_risk_def remaining_def)

lemma create_shows_less:
  assumes "is_float q" "0 \<le> q" "min_visible_quantity m \<le> q" "p \<le> 1"
  shows "initial_visible q p m \<le> q"
proof -
  have "fmul q p \<le> q" using assms fl_mono[of "q * p" q] by (simp add: fmul_def is_float_def mult_left_le)
  then show ?thesis using assms(3) by (simp add: initial_visible_def)
qed

lemma iceberg_step_config:
  "min_visible_quantity (iceberg_step op m) = min_visible_quantity m" "default_visible_pct (iceberg_step op m) = default_visible_pct m"
  by (cases op; simp add: create_iceberg_order_def record_fill_def adjust_visible_quantity_def add_volume_sample_def detect_liquidity_sweep_def
      pull_all_icebergs_def pull_iceberg_for_venue_def is_threat_detected_def reset_def Let_def split: option.split)+

lemma bounded_put: "bounded m \<Longrightarrow> shows_less x \<Longrightarrow> bounded (put_order i x m)"
  by (auto simp: bounded_def dict_get_set split: if_splits)

lemma iceberg_step_bounded:
  assumes "bounded m" "fair_op (min_visible_quantity m) (default_visible_pct m) op" "default_visible_pct m \<le> 1"
  shows "bounded (iceberg_step op m)"
proof (cases op)
  case (Create n n' i sd q p v pct)
  then have "share_of pct m \<le> 1" using assms(2,3) by (auto simp: share_of_def fair_op_def split: option.splits)
  then have "initial_visible q (share_of pct m) m \<le> fsub q 0"
    using create_shows_less[of q m "share_of pct m"] assms(2) Create by (simp add: fair_op_def fsub_def is_float_def)
  then show ?thesis unfolding Create by (auto simp: create_iceberg_order_def Let_def shows_less_def remaining_def intro!: bounded_put assms(1))
next
  case (Fill n n' i f)
  then show ?thesis using assms(1)
    by (auto simp: record_fill_def Let_def intro!: bounded_put fill_shows_less split: option.split)
next
  case (Adjust n i pct)
  then show ?thesis using assms(1)
    by (auto simp: adjust_visible_quantity_def Let_def shows_less_def remaining_def intro!: bounded_put split: option.split)
next
  case (Sample np n v)
  then show ?thesis using assms(1) by (simp add: bounded_def add_volume_sample_def Let_def)
next
  case (Detect n v sd ven imp dur)
  then show ?thesis using assms(1) by (simp add: bounded_def detect_liquidity_sweep_def Let_def)
next
  case (Pull_All n)
  then show ?thesis using assms(1) by (auto simp: bounded_def pull_all_icebergs_def deactivate_get shows_less_def)
next
  case (Pull_Venue v)
  then show ?thesis using assms(1) by (auto simp: bounded_def pull_iceberg_for_venue_def deactivate_get shows_less_def remaining_def)
next
  case (Ask n)
  then show ?thesis using assms(1) by (simp add: bounded_def is_threat_detected_def)
next
  case Reset
  then show ?thesis using assms(1) by (simp add: bounded_def reset_def)
qed

text \<open>In every run of calls whose orders are at least the minimal visible quantity, an active order never shows more than what is left of it, whatever is
  filled, adjusted or pulled in between, and the histories keep their bounds.\<close>

theorem active_orders_show_less:
  assumes "default_visible_pct m0 \<le> 1" "bounded m0" "\<forall>op \<in> set ops. fair_op (min_visible_quantity m0) (default_visible_pct m0) op"
  shows "bounded (fold iceberg_step ops m0)"
proof -
  have "bounded (fold iceberg_step ops m0) \<and> min_visible_quantity (fold iceberg_step ops m0) = min_visible_quantity m0 \<and>
      default_visible_pct (fold iceberg_step ops m0) = default_visible_pct m0"
    using assms(3) by (induction ops rule: rev_induct) (auto simp: iceberg_step_config assms(1,2) intro!: iceberg_step_bounded)
  then show ?thesis ..
qed

section \<open>Pulling\<close>

definition alive :: "string \<Rightarrow> manager \<Rightarrow> bool" where
  "alive i m \<longleftrightarrow> (\<exists>x. dict_get (iceberg_orders m) i = Some x \<and> is_active x)"

text \<open>An emergency pull returns the ids of the orders that were active, each once, leaves none active, and for five
  seconds afterwards a threat is reported.\<close>

theorem pull_all_pulls_all:
  assumes "wf_dict (iceberg_orders m)" "pull_all_icebergs now m = (ids, m1)"
  shows "(\<forall>i. i \<in> set ids \<longleftrightarrow> alive i m) \<and> distinct ids \<and> (\<forall>i. \<not> alive i m1) \<and>
    (\<forall>t. now \<le> t \<and> t \<le> now + 5000000000 \<longrightarrow> is_threat_detected t m1 = (True, m1))"
proof -
  have ids: "ids = pulled (\<lambda>_. True) (iceberg_orders m)"
    and m1: "m1 = m\<lparr>iceberg_orders := deactivate (\<lambda>_. True) (iceberg_orders m), threat_detected := True, last_threat_time_ns := now\<rparr>"
    using assms(2) by (simp_all add: pull_all_icebergs_def)
  have "i \<in> set ids \<longleftrightarrow> alive i m" for i
    using assms(1) by (force simp: ids pulled_def alive_def wf_dict_mem)
  moreover have "distinct ids" using assms(1) by (simp add: ids pulled_def wf_dict_def distinct_map_filter)
  moreover have "\<not> alive i m1" for i by (auto simp: m1 alive_def deactivate_get split: if_splits)
  moreover have "idiv (t - now) 1000000 \<le> 5000" if "t \<le> now + 5000000000" for t
  proof -
    have "(of_int (t - now) :: rat) \<le> 5000000000" using that by (simp add: of_int_le_iff[symmetric, where 'a = rat] del: of_int_le_iff)
    then show ?thesis using fl_mono[of "of_int (t - now) / 1000000" 5000] by (simp add: idiv_def)
  qed
  then have "is_threat_detected t m1 = (True, m1)" if "t \<le> now + 5000000000" for t
    using that by (fastforce simp: is_threat_detected_def m1 not_less)
  ultimately show ?thesis by blast
qed

text \<open>Once pulled or filled, an order is active again only if its id is used for a new order.\<close>

theorem pulled_stays_pulled:
  assumes "\<not> alive i m" "\<forall>op \<in> set ops. \<forall>n n' sd q p v pct. op \<noteq> Create n n' i sd q p v pct"
  shows "\<not> alive i (fold iceberg_step ops m)"
  using assms
proof (induction ops arbitrary: m)
  case (Cons op ops)
  have "\<not> alive i (iceberg_step op m)"
    using Cons.prems
    by (cases op) (auto simp: alive_def create_iceberg_order_def record_fill_def adjust_visible_quantity_def add_volume_sample_def
      detect_liquidity_sweep_def pull_all_icebergs_def pull_iceberg_for_venue_def is_threat_detected_def reset_def deactivate_get dict_get_set
      Let_def fill_order_def update_detection_risk_def split: option.splits if_splits)
  then show ?case using Cons by simp
qed simp

text \<open>A threat ends only when somebody asks for it: without a call of \<open>is_threat_detected\<close> or \<open>reset\<close> the orders are adjusted for a threat for ever.\<close>

theorem threat_ends_only_when_asked:
  assumes "threat_detected m" "Reset \<notin> set ops" "\<forall>t. Ask t \<notin> set ops"
  shows "threat_detected (fold iceberg_step ops m)"
  using assms
proof (induction ops arbitrary: m)
  case (Cons op ops)
  have "threat_detected (iceberg_step op m)"
    using Cons.prems
    by (cases op) (auto simp: create_iceberg_order_def record_fill_def adjust_visible_quantity_def add_volume_sample_def
      detect_liquidity_sweep_def pull_all_icebergs_def pull_iceberg_for_venue_def Let_def split: option.splits)
  then show ?case using Cons by auto
qed simp

text \<open>The adjustment for a threat, meant to show less, is not cut to the maximum: an order that shows its maximum shows more once a threat is detected, when
  half of the default share of what is left exceeds the maximum.\<close>

theorem threat_shows_more:
  assumes "dict_get (iceberg_orders m) i = Some x" "threat_detected m" "visible_quantity x \<le> max_visible_quantity m"
    "max_visible_quantity m < fmul (remaining x) (fmul (default_visible_pct m) (1 / 2))" "max_visible_quantity m < remaining x"
  shows "\<exists>v m1. adjust_visible_quantity now i None m = (Some v, m1) \<and> visible_quantity x < v"
  using assms by (simp add: adjust_visible_quantity_def wanted_visible_def Let_def min_def max_def)

text \<open>A fill beyond the rest, or after the order was pulled, is counted, and the next adjustment then returns a negative quantity to show.\<close>

theorem overfill_shows_negative:
  assumes "dict_get (iceberg_orders m) i = Some x" "fsub (total_quantity x) (fadd (filled_quantity x) f) < 0"
  shows "\<exists>v m1. adjust_visible_quantity now i pct (snd (record_fill t t' i f m)) = (Some v, m1) \<and> v < 0"
proof -
  let ?q = "fadd (filled_quantity x) f"
  have "total_quantity x \<le> ?q"
    using assms(2) fsub_nonneg[of ?q "total_quantity x"] by (cases "total_quantity x \<le> ?q") simp_all
  then have "fill_order t t' f x = x\<lparr>filled_quantity := ?q, is_active := False\<rparr>" by (simp add: fill_order_def Let_def)
  then show ?thesis using assms by (simp add: record_fill_def adjust_visible_quantity_def dict_get_set Let_def remaining_def)
qed

text \<open>An order smaller than the minimal visible quantity is shown as larger than it is.\<close>

theorem small_order_overshown:
  assumes "q < min_visible_quantity m"
  shows "q < visible_quantity (fst (create_iceberg_order n n' i sd q p v pct m))"
  using assms by (simp add: create_iceberg_order_def initial_visible_def Let_def)

section \<open>Witnesses\<close>

definition demo_order :: IcebergOrder where
  "demo_order = \<lparr>order_id = ''A'', side = BUY, total_quantity = 1000000, visible_quantity = 10000, filled_quantity = 0, price = 100,
     venue = ''X'', created_at_ns = 0, last_refresh_ns = 0, is_active = True, detection_risk_score = 0\<rparr>"

definition demo_icebergs :: manager where
  "demo_icebergs = (manager_init (1 / 8) 100 10000 5000 5 100000)\<lparr>iceberg_orders := [(''A'', demo_order)], threat_detected := True\<rparr>"

lemma demo_sixteenth: "fl (1 / 16) = 1 / 16" "fl 62500 = 62500"
  by code_simp+

lemmas demo_iceberg_simps = demo_icebergs_def demo_order_def manager_init_def

theorem active_orders_show_less_witness:
  "bounded (fold iceberg_step [Fill 1 2 ''A'' 500, Adjust 3 ''A'' None, Create 4 5 ''B'' SELL 100 1 ''X'' None] demo_icebergs)"
  by (rule active_orders_show_less)
    (auto simp: demo_iceberg_simps bounded_def shows_less_def remaining_def fsub_def fair_op_def is_float_def split: if_splits)

theorem pull_all_pulls_all_witness:
  "is_threat_detected 5 (snd (pull_all_icebergs 3 demo_icebergs)) = (True, snd (pull_all_icebergs 3 demo_icebergs)) \<and>
   \<not> alive ''A'' (snd (pull_all_icebergs 3 demo_icebergs))"
  using pull_all_pulls_all[of demo_icebergs 3] by (simp add: wf_dict_def demo_iceberg_simps pull_all_icebergs_def)

theorem pulled_stays_pulled_witness: "\<not> alive ''B'' (fold iceberg_step [Fill 1 2 ''B'' 3, Pull_All 4, Ask 5] demo_icebergs)"
  by (rule pulled_stays_pulled) (simp_all add: alive_def demo_iceberg_simps)

theorem threat_ends_only_when_asked_witness:
  "threat_detected (fold iceberg_step [Fill 1 2 ''A'' 3, Adjust 60000000000000 ''A'' None] demo_icebergs)"
  by (rule threat_ends_only_when_asked) (simp_all add: demo_iceberg_simps)

theorem threat_shows_more_witness: "\<exists>v m1. adjust_visible_quantity 7 ''A'' None demo_icebergs = (Some v, m1) \<and> 10000 < v"
  using threat_shows_more[of demo_icebergs "''A''" demo_order 7] by (simp add: demo_iceberg_simps remaining_def fsub_def fmul_def demo_sixteenth)

theorem overfill_shows_negative_witness:
  "\<exists>v m1. adjust_visible_quantity 7 ''A'' None (snd (record_fill 5 6 ''A'' 2000000 demo_icebergs)) = (Some v, m1) \<and> v < 0"
  using overfill_shows_negative[of demo_icebergs "''A''" demo_order 2000000 7 None 5 6]
  by (simp add: demo_iceberg_simps fsub_def fadd_def fl_minus)

theorem small_order_overshown_witness: "50 < visible_quantity (fst (create_iceberg_order 1 2 ''B'' BUY 50 1 ''X'' None demo_icebergs))"
  by (rule small_order_overshown) (simp add: demo_iceberg_simps)

end
