(* ===== verification/FundingHarvester.thy ===== *)
theory FundingHarvester
  imports Prelude
begin

text \<open>
  \<open>arbitrage/funding_rate_harvester.py\<close>: funding rates, their prediction, and the trades that collect a payment.

  The exchange client and the risk manager act on a world \<open>'w\<close> and are the functions of a \<open>client\<close> record; an exception of a call is a value. A moment is the
  number of microseconds since the epoch in UTC. Floating-point powers and their shortest text (\<open>Decimal(str(decay ** k))\<close>) and the decimal power are
  the functions of a \<open>mathlib\<close> record. The coroutines run one after the other here; what other tasks do while one of them waits is part of the world.
\<close>

section \<open>Data\<close>

datatype FundingPosition = LONG | SHORT | NONE

record FundingRateTick =
  tk_symbol :: string
  funding_rate :: decimal
  predicted_rate :: decimal
  tk_time :: int
  next_funding_time :: int
  time_to_funding_seconds :: pyfloat
  annualized_rate :: decimal

datatype trade_status = Open | Closed

record FundingTrade =
  trade_id :: string
  tr_symbol :: string
  position_side :: FundingPosition
  entry_time :: int
  entry_price :: decimal
  quantity :: decimal
  expected_funding_payment :: decimal
  actual_funding_payment :: decimal
  exit_time :: "int option"
  exit_price :: "decimal option"
  pnl_usdt :: decimal
  status :: trade_status

record mathlib =
  decay_weight :: "nat \<Rightarrow> decimal"
  power_1095 :: "decimal \<Rightarrow> exn + decimal"

section \<open>Prediction\<close>

record predictor =
  lookback_periods :: int
  rate_history :: "(string, decimal list) dict"

definition predictor_init :: "int \<Rightarrow> predictor" where
  "predictor_init n = \<lparr>lookback_periods = n, rate_history = []\<rparr>"

definition trim :: "int \<Rightarrow> 'a list \<Rightarrow> 'a list" where
  "trim n xs = (if n < int (length xs) then slice_from (- n) xs else xs)"

definition rates_of :: "string \<Rightarrow> predictor \<Rightarrow> decimal list" where
  "rates_of s p = (case dict_get (rate_history p) s of None \<Rightarrow> [] | Some rs \<Rightarrow> rs)"

definition add_rate_observation :: "string \<Rightarrow> decimal \<Rightarrow> predictor \<Rightarrow> predictor" where
  "add_rate_observation s r p =
     p\<lparr>rate_history := dict_set s (trim (lookback_periods p * 2) (rates_of s p @ [r])) (rate_history p)\<rparr>"

definition weights :: "mathlib \<Rightarrow> nat \<Rightarrow> decimal list" where
  "weights ml n = map (\<lambda>i. decay_weight ml (n - i - 1)) [0..<n]"

definition predict_rate :: "mathlib \<Rightarrow> string \<Rightarrow> predictor \<Rightarrow> decimal option" where
  "predict_rate ml s p =
     (let rs = slice_from (- lookback_periods p) (rates_of s p); ws = weights ml (length rs)
      in if length (rates_of s p) < 3 then None
         else Some (ddiv (foldl dadd 0 (map (\<lambda>(r, w). dmul r w) (zip rs ws))) (foldl dadd 0 ws)))"

definition get_annualized_rate :: "mathlib \<Rightarrow> decimal \<Rightarrow> exn + decimal" where
  "get_annualized_rate ml r = bind (power_1095 ml (dadd 1 r)) (\<lambda>x. Inr (dsub x 1))"

section \<open>The harvester\<close>

record harvester =
  pred :: predictor
  active_trades :: "(string, FundingTrade) dict"
  trade_counter :: int
  funding_history :: "(string, FundingRateTick list) dict"
  total_trades :: int
  successful_captures :: int
  total_funding_captured :: decimal
  total_pnl :: decimal

definition harvester_init :: harvester where
  "harvester_init = \<lparr>pred = predictor_init 10, active_trades = [], trade_counter = 0, funding_history = [], total_trades = 0,
     successful_captures = 0, total_funding_captured = 0, total_pnl = 0\<rparr>"

definition SUPPORTED_SYMBOLS :: "string set" where "SUPPORTED_SYMBOLS = {''BTC'', ''ETH'', ''SOL''}"
definition MIN_FUNDING_BPS :: decimal where "MIN_FUNDING_BPS = 5"
definition MAX_POSITION_SIZE_USDT :: decimal where "MAX_POSITION_SIZE_USDT = 100000"
definition ENTRY_BUFFER_SECONDS :: pyfloat where "ENTRY_BUFFER_SECONDS = 120"

definition pad6 :: "int \<Rightarrow> string" where
  "pad6 i = (let s = int_str i in replicate (6 - length s) (CHR ''0'') @ s)"

definition generate_trade_id :: "int \<Rightarrow> harvester \<Rightarrow> string \<times> harvester" where
  "generate_trade_id ns h =
     (''FR-'' @ int_str ns @ ''-'' @ pad6 (trade_counter h + 1), h\<lparr>trade_counter := trade_counter h + 1\<rparr>)"

definition history_of :: "string \<Rightarrow> harvester \<Rightarrow> FundingRateTick list" where
  "history_of s h = (case dict_get (funding_history h) s of None \<Rightarrow> [] | Some ts \<Rightarrow> ts)"

text \<open>A prediction of zero counts as none.\<close>

definition prediction_or :: "mathlib \<Rightarrow> string \<Rightarrow> decimal \<Rightarrow> predictor \<Rightarrow> decimal" where
  "prediction_or ml s r p = (case predict_rate ml s p of None \<Rightarrow> r | Some x \<Rightarrow> if x = 0 then r else x)"

definition update_funding_rate ::
    "mathlib \<Rightarrow> int \<Rightarrow> string \<Rightarrow> decimal \<Rightarrow> int \<Rightarrow> harvester \<Rightarrow> (exn + FundingRateTick) \<times> harvester" where
  "update_funding_rate ml now s r nxt h =
     (let p = add_rate_observation s r (pred h); h1 = h\<lparr>pred := p\<rparr>
      in case get_annualized_rate ml r of
           Inl e \<Rightarrow> (Inl e, h1)
         | Inr a \<Rightarrow>
             (let t = \<lparr>tk_symbol = s, funding_rate = r, predicted_rate = prediction_or ml s r p, tk_time = now, next_funding_time = nxt,
                       time_to_funding_seconds = idiv (nxt - now) 1000000, annualized_rate = a\<rparr>
              in (Inr t, h1\<lparr>funding_history := dict_set s (trim 100 (history_of s h1 @ [t])) (funding_history h1)\<rparr>)))"

section \<open>Trades\<close>

datatype order_kind = Limit decimal | Market

record 'w client =
  check_position_limit :: "string \<Rightarrow> decimal \<Rightarrow> 'w \<Rightarrow> (exn + bool) \<times> 'w"
  place_order :: "string \<Rightarrow> string \<Rightarrow> decimal \<Rightarrow> order_kind \<Rightarrow> 'w \<Rightarrow> (exn + string option) \<times> 'w"
  wait_for_fill :: "string \<Rightarrow> 'w \<Rightarrow> (exn + string \<times> decimal option \<times> decimal option) \<times> 'w"
  get_funding_payment :: "string \<Rightarrow> string \<Rightarrow> 'w \<Rightarrow> (exn + decimal option) \<times> 'w"

text \<open>\<open>ns\<close> is \<open>time.time_ns()\<close>, \<open>now\<close> the moment the trade is recorded. A price or quantity of the fill that is no number raises like any other
  failure, and every exception gives None.\<close>

definition execute_funding_trade ::
    "'w client \<Rightarrow> int \<Rightarrow> int \<Rightarrow> string \<Rightarrow> FundingPosition \<Rightarrow> decimal \<Rightarrow> decimal \<Rightarrow> decimal \<Rightarrow> harvester \<Rightarrow> 'w
      \<Rightarrow> FundingTrade option \<times> harvester \<times> 'w" where
  "execute_funding_trade cl ns now s side q price expected h w =
     (let (tid, h1) = generate_trade_id ns h;
          (r, w1) = place_order cl s (if side = SHORT then ''sell'' else ''buy'') q (Limit price) w
      in case r of
           Inr (Some oid) \<Rightarrow>
             (let (f, w2) = wait_for_fill cl oid w1
              in case f of
                   Inr (st, Some fp, Some fq) \<Rightarrow>
                     (if st \<noteq> ''filled'' then (None, h1, w2)
                      else
                        (Some \<lparr>trade_id = tid, tr_symbol = s, position_side = side, entry_time = now, entry_price = fp, quantity = fq,
                               expected_funding_payment = expected, actual_funding_payment = 0, exit_time = None, exit_price = None,
                               pnl_usdt = 0, status = Open\<rparr>, h1, w2))
                 | _ \<Rightarrow> (None, h1, w2))
         | _ \<Rightarrow> (None, h1, w1))"

definition enter_trade :: "FundingTrade \<Rightarrow> harvester \<Rightarrow> harvester" where
  "enter_trade t h = h\<lparr>active_trades := dict_set (trade_id t) t (active_trades h), total_trades := total_trades h + 1\<rparr>"

definition side_for :: "FundingRateTick \<Rightarrow> FundingPosition" where
  "side_for t = (if 0 < predicted_rate t then SHORT else LONG)"

definition worth_entering :: "FundingRateTick \<Rightarrow> bool" where
  "worth_entering t \<longleftrightarrow>
     \<not> dmul (dabs (predicted_rate t)) 10000 < MIN_FUNDING_BPS \<and> \<not> ENTRY_BUFFER_SECONDS < time_to_funding_seconds t"

definition check_and_execute_funding_arb ::
    "'w client \<Rightarrow> int \<Rightarrow> int \<Rightarrow> string \<Rightarrow> decimal \<Rightarrow> decimal \<Rightarrow> harvester \<Rightarrow> 'w \<Rightarrow> (exn + FundingTrade option) \<times> harvester \<times> 'w" where
  "check_and_execute_funding_arb cl ns now s price capital h w =
     (if s \<notin> SUPPORTED_SYMBOLS then (Inr None, h, w)
      else
        (case dict_get (funding_history h) s of
           None \<Rightarrow> (Inr None, h, w)
         | Some [] \<Rightarrow> (Inl IndexError, h, w)
         | Some ts \<Rightarrow>
             (let t = last ts; size = min capital MAX_POSITION_SIZE_USDT
              in if \<not> worth_entering t then (Inr None, h, w)
                 else
                   (let (ok, w1) = check_position_limit cl s size w
                    in case ok of
                         Inl e \<Rightarrow> (Inl e, h, w1)
                       | Inr False \<Rightarrow> (Inr None, h, w1)
                       | Inr True \<Rightarrow>
                           (if price = 0 then (Inl (if size = 0 then OtherError ''InvalidOperation'' else ZeroDivisionError), h, w1)
                            else
                              (let q = ddiv size price;
                                   (tr, h1, w2) = execute_funding_trade cl ns now s (side_for t) q price
                                     (dmul (dmul q price) (dabs (predicted_rate t))) h w1
                               in (Inr tr, case tr of None \<Rightarrow> h1 | Some x \<Rightarrow> enter_trade x h1, w2)))))))"

section \<open>Snapshots\<close>

text \<open>The answer to the closing order is not looked at.\<close>

definition close_funding_position :: "'w client \<Rightarrow> int \<Rightarrow> FundingTrade \<Rightarrow> 'w \<Rightarrow> FundingTrade option \<times> 'w" where
  "close_funding_position cl now t w =
     (let (r, w1) = place_order cl (tr_symbol t) (if position_side t = SHORT then ''buy'' else ''sell'') (quantity t) Market w
      in case r of
           Inl e \<Rightarrow> (None, w1)
         | Inr _ \<Rightarrow> (Some (t\<lparr>exit_time := Some now, pnl_usdt := actual_funding_payment t\<rparr>), w1))"

definition credit :: "decimal \<Rightarrow> FundingTrade \<Rightarrow> harvester \<Rightarrow> FundingTrade \<times> harvester" where
  "credit x t h =
     (t\<lparr>actual_funding_payment := x\<rparr>,
      h\<lparr>active_trades := dict_set (trade_id t) (t\<lparr>actual_funding_payment := x\<rparr>) (active_trades h),
        total_funding_captured := dadd (total_funding_captured h) x, successful_captures := successful_captures h + 1\<rparr>)"

definition finish_trade :: "'w client \<Rightarrow> int \<Rightarrow> FundingTrade \<Rightarrow> harvester \<Rightarrow> 'w \<Rightarrow> bool \<times> harvester \<times> 'w" where
  "finish_trade cl now t h w =
     (let (c, w1) = close_funding_position cl now t w
      in case c of
           None \<Rightarrow> (False, h, w1)
         | Some x \<Rightarrow> (True, h\<lparr>total_pnl := dadd (total_pnl h) (pnl_usdt x), active_trades := dict_pop (trade_id t) (active_trades h)\<rparr>, w1))"

fun snapshot_loop :: "'w client \<Rightarrow> int \<Rightarrow> string \<Rightarrow> FundingTrade list \<Rightarrow> int \<Rightarrow> harvester \<Rightarrow> 'w \<Rightarrow> (exn + int) \<times> harvester \<times> 'w" where
  "snapshot_loop cl now s [] n h w = (Inr n, h, w)"
| "snapshot_loop cl now s (t # ts) n h w =
     (if tr_symbol t \<noteq> s \<or> status t \<noteq> Open then snapshot_loop cl now s ts n h w
      else
        (let (r, w1) = get_funding_payment cl (tr_symbol t) (trade_id t) w
         in case r of
              Inl e \<Rightarrow> (Inl e, h, w1)
            | Inr pay \<Rightarrow>
                (let (t1, h1) = (case pay of None \<Rightarrow> (t, h) | Some x \<Rightarrow> credit x t h);
                     (ok, h2, w2) = finish_trade cl now t1 h1 w1
                 in snapshot_loop cl now s ts (if ok then n + 1 else n) h2 w2)))"

definition process_funding_snapshot :: "'w client \<Rightarrow> int \<Rightarrow> string \<Rightarrow> harvester \<Rightarrow> 'w \<Rightarrow> (exn + bool) \<times> harvester \<times> 'w" where
  "process_funding_snapshot cl now s h w =
     (let (r, h1, w1) = snapshot_loop cl now s (dict_values (active_trades h)) 0 h w
      in (case r of Inl e \<Rightarrow> Inl e | Inr n \<Rightarrow> Inr (0 < n), h1, w1))"

section \<open>Funding times and metrics\<close>

definition HOUR :: int where "HOUR = 3600000000"
definition DAY :: int where "DAY = 24 * HOUR"

definition next_funding_hour :: "int \<Rightarrow> int option" where
  "next_funding_hour hr = List.find (\<lambda>x. hr < x) [0, 8, 16]"

definition next_time :: "int \<Rightarrow> int" where
  "next_time now =
     (let day = now div DAY
      in case next_funding_hour (now mod DAY div HOUR) of None \<Rightarrow> (day + 1) * DAY | Some x \<Rightarrow> day * DAY + x * HOUR)"

definition get_next_funding_times :: "int \<Rightarrow> string list \<Rightarrow> (string, int) dict" where
  "get_next_funding_times now syms = fold (\<lambda>s. dict_set s (next_time now)) syms []"

record metrics =
  m_trades :: int
  m_captures :: int
  capture_rate :: pyfloat
  m_funding :: pyfloat
  m_pnl :: pyfloat
  m_active :: int

definition get_metrics :: "harvester \<Rightarrow> metrics" where
  "get_metrics h =
     \<lparr>m_trades = total_trades h, m_captures = successful_captures h, capture_rate = idiv (successful_captures h) (max 1 (total_trades h)),
      m_funding = fl (total_funding_captured h), m_pnl = fl (total_pnl h), m_active = int (length (active_trades h))\<rparr>"


section \<open>Funding times\<close>

lemma next_time_eq: "next_time now = (now div (8 * HOUR) + 1) * (8 * HOUR)"
proof -
  define d q where "d = now div DAY" and "q = now mod DAY div HOUR"
  have pos: "0 < HOUR" by (simp add: HOUR_def)
  have DAY: "DAY = HOUR * 24" by (simp add: DAY_def)
  have d: "d = now div HOUR div 24" unfolding d_def DAY using pos by (simp add: zdiv_zmult2_eq)
  have "now mod DAY = HOUR * (now div HOUR mod 24) + now mod HOUR" unfolding DAY using pos by (simp add: zmod_zmult2_eq)
  then have q: "q = now div HOUR mod 24" unfolding q_def using pos by simp
  have split24: "x div 8 = 3 * (x div 24) + x mod 24 div 8" for x :: int
  proof -
    have "x = x mod 24 + 8 * (3 * (x div 24))" using mult_div_mod_eq[of 24 x] by linarith
    then have "x div 8 = (x mod 24 + 8 * (3 * (x div 24))) div 8" by simp
    also have "\<dots> = 3 * (x div 24) + x mod 24 div 8" by (rule div_mult_self2) simp
    finally show ?thesis .
  qed
  have "now div (8 * HOUR) = now div HOUR div 8" using pos by (metis mult.commute zdiv_zmult2_eq zero_le_numeral)
  also have "\<dots> = 3 * d + q div 8" unfolding d q by (rule split24)
  finally have n: "now div (8 * HOUR) = 3 * d + q div 8" .
  have q24: "q < 24" "0 \<le> q" unfolding q by simp_all
  have nt: "next_time now = (case next_funding_hour q of None \<Rightarrow> (d + 1) * DAY | Some x \<Rightarrow> d * DAY + x * HOUR)"
    unfolding next_time_def d_def q_def Let_def ..
  consider "q < 8" | "8 \<le> q" "q < 16" | "16 \<le> q" by linarith
  then show ?thesis
  proof cases
    case 1
    then have "q div 8 = 0" "next_funding_hour q = Some 8" using q24 by (simp_all add: next_funding_hour_def)
    then show ?thesis using nt n by (simp add: DAY algebra_simps)
  next
    case 2
    then have "q div 8 = 1" "next_funding_hour q = Some 16" by (simp_all add: next_funding_hour_def)
    then show ?thesis using nt n by (simp add: DAY algebra_simps)
  next
    case 3
    then have "q div 8 = 2" "next_funding_hour q = None" using q24 by (simp_all add: next_funding_hour_def)
    then show ?thesis using nt n by (simp add: DAY algebra_simps)
  qed
qed

text \<open>The time given for every symbol is the first moment strictly after now at which an eight-hour period of the day starts.\<close>

theorem next_funding_time_is_least:
  assumes "s \<in> set syms" "dict_get (get_next_funding_times now syms) s = Some t"
  shows "now < t \<and> 8 * HOUR dvd t \<and> (\<forall>u. now < u \<longrightarrow> 8 * HOUR dvd u \<longrightarrow> t \<le> u)"
proof -
  have get: "dict_get (fold (\<lambda>s. dict_set s v) xs d) k = (if k \<in> set xs then Some v else dict_get d k)" for v :: int and k :: string and xs d
    by (induction xs arbitrary: d) (auto simp: dict_get_set)
  then have t: "t = next_time now" using assms by (simp add: get_next_funding_times_def)
  have "next_time now = (now div (8 * HOUR) + 1) * (8 * HOUR)" by (rule next_time_eq)
  then have n: "t = (now div (8 * HOUR) + 1) * (8 * HOUR)" using t by simp
  have pos: "0 < 8 * HOUR" by (simp add: HOUR_def)
  have "now < t" using n pos by (simp add: HOUR_def)
  moreover have "t \<le> u" if u: "now < u" "8 * HOUR dvd u" for u
  proof -
    let ?b = "8 * HOUR"
    obtain k where k: "u = k * ?b" using u(2) by (metis dvd_def mult.commute)
    have "now div ?b * ?b \<le> now" using pos by (metis minus_mod_eq_div_mult pos_mod_sign diff_le_eq le_add_same_cancel1)
    then have "now div ?b * ?b < k * ?b" using u(1) k by simp
    then have "now div ?b + 1 \<le> k" using pos mult_less_cancel_right_pos[OF pos] by simp
    then show ?thesis unfolding n k using pos by (intro mult_right_mono) simp_all
  qed
  ultimately show ?thesis using n by simp
qed

section \<open>Runs\<close>

datatype 'w funding_op =
    Update mathlib int string decimal int
  | Check "'w client" int int string decimal decimal
  | Snapshot "'w client" int string

fun funding_step :: "'w funding_op \<Rightarrow> harvester \<times> 'w \<Rightarrow> harvester \<times> 'w" where
  "funding_step (Update ml now s r nxt) (h, w) = (snd (update_funding_rate ml now s r nxt h), w)"
| "funding_step (Check cl ns now s p c) (h, w) = snd (check_and_execute_funding_arb cl ns now s p c h w)"
| "funding_step (Snapshot cl now s) (h, w) = snd (process_funding_snapshot cl now s h w)"

definition funding_inv :: "harvester \<Rightarrow> bool" where
  "funding_inv h \<longleftrightarrow> wf_dict (active_trades h) \<and>
     (\<forall>i t. dict_get (active_trades h) i = Some t \<longrightarrow> trade_id t = i \<and> status t = Open \<and> tr_symbol t \<in> SUPPORTED_SYMBOLS) \<and>
     (\<forall>s ts. dict_get (funding_history h) s = Some ts \<longrightarrow> ts \<noteq> [] \<and> length ts \<le> 100) \<and> lookback_periods (pred h) = 10 \<and>
     (\<forall>s rs. dict_get (rate_history (pred h)) s = Some rs \<longrightarrow> length rs \<le> 20)"

lemma length_trim [simp]: "0 < n \<Longrightarrow> length (trim (int n) xs) = min n (length xs)"
  by (auto simp: trim_def length_slice_last)

lemma trim_bounds [simp]:
  "length (trim 100 xs) \<le> 100" "length (trim 20 xs) \<le> 20" "trim 100 (xs @ [x]) \<noteq> []"
proof -
  show "length (trim 100 xs) \<le> 100" "length (trim 20 xs) \<le> 20" using length_trim[of 100 xs] length_trim[of 20 xs] by simp_all
  have "length (trim 100 (xs @ [x])) \<noteq> 0" using length_trim[of 100 "xs @ [x]"] by simp
  then show "trim 100 (xs @ [x]) \<noteq> []" by auto
qed

lemma update_inv: "funding_inv h \<Longrightarrow> funding_inv (snd (update_funding_rate ml now s r nxt h))"
  by (auto simp: funding_inv_def update_funding_rate_def Let_def add_rate_observation_def dict_get_set split: sum.split if_splits)

definition counted :: "harvester \<Rightarrow> harvester" where
  "counted h = h\<lparr>trade_counter := trade_counter h + 1\<rparr>"

lemma execute_result:
  assumes "execute_funding_trade cl ns now s sd q p e h w = (r, h1, w1)"
  shows "h1 = counted h \<and> (\<forall>t. r = Some t \<longrightarrow> tr_symbol t = s \<and> status t = Open \<and> position_side t = sd \<and> expected_funding_payment t = e)"
  using assms
  by (auto simp: execute_funding_trade_def generate_trade_id_def counted_def Let_def split: prod.splits sum.splits option.splits if_splits)

lemma funding_inv_counted [simp]: "funding_inv (counted h) \<longleftrightarrow> funding_inv h"
  by (simp add: funding_inv_def counted_def)

lemma check_result:
  assumes "check_and_execute_funding_arb cl ns now s p c h w = (r, h1, w1)" "funding_inv h"
  obtains "h1 = h" "r \<in> {Inr None} \<union> range Inl" | "h1 = counted h" "r = Inr None"
  | t ts where "r = Inr (Some t)" "h1 = enter_trade t (counted h)" "tr_symbol t = s" "status t = Open" "s \<in> SUPPORTED_SYMBOLS"
      "dict_get (funding_history h) s = Some ts" "ts \<noteq> []" "worth_entering (last ts)" "position_side t = side_for (last ts)"
      "fst (check_position_limit cl s (min c MAX_POSITION_SIZE_USDT) w) = Inr True"
proof (cases "s \<in> SUPPORTED_SYMBOLS")
  case False
  then show ?thesis using assms(1) that(1) by (simp add: check_and_execute_funding_arb_def)
next
  case sup: True
  show ?thesis
  proof (cases "dict_get (funding_history h) s")
    case None
    then show ?thesis using assms(1) sup that(1) by (simp add: check_and_execute_funding_arb_def)
  next
    case (Some ts)
    then obtain x xs where ts: "ts = x # xs" using assms(2) by (cases ts) (auto simp: funding_inv_def)
    obtain ok w2 where ok: "check_position_limit cl s (min c MAX_POSITION_SIZE_USDT) w = (ok, w2)" by fastforce
    note eq = assms(1)[unfolded check_and_execute_funding_arb_def Let_def, simplified sup Some ts ok, simplified]
    show ?thesis
    proof (cases "worth_entering (last ts) \<and> ok = Inr True \<and> p \<noteq> 0")
      case False
      then show ?thesis using eq that(1) ts by (auto split: if_splits sum.splits bool.splits)
    next
      case True
      let ?q = "ddiv (min c MAX_POSITION_SIZE_USDT) p"
      obtain tr h2 w3 where ex: "execute_funding_trade cl ns now s (side_for (last ts)) ?q p
          (dmul (dmul ?q p) (dabs (predicted_rate (last ts)))) h w2 = (tr, h2, w3)" by (metis prod_cases3)
      have res: "r = Inr tr" "h1 = (case tr of None \<Rightarrow> h2 | Some x \<Rightarrow> enter_trade x h2)" using eq True ex ts by (auto split: if_splits)
      note er = execute_result[OF ex]
      show ?thesis
      proof (cases tr)
        case None
        then show ?thesis using that(2) er res by simp
      next
        case (Some t)
        then show ?thesis using that(3)[of t ts] er res sup \<open>dict_get (funding_history h) s = Some ts\<close> ts True ok by simp
      qed
    qed
  qed
qed

text \<open>A trade is entered only for a supported symbol whose latest prediction is worth five basis points or more and whose payment was at most two
  minutes away when that tick was taken, after the risk manager agreed, on the side that receives the predicted payment.\<close>

theorem entries_are_justified:
  assumes "funding_inv h" "check_and_execute_funding_arb cl ns now s p c h w = (Inr (Some t), h1, w1)"
  shows "s \<in> SUPPORTED_SYMBOLS \<and> (\<exists>k. last (history_of s h) = k \<and> history_of s h \<noteq> [] \<and> 5 \<le> dmul (dabs (predicted_rate k)) 10000 \<and>
      time_to_funding_seconds k \<le> 120 \<and> (position_side t = SHORT \<longleftrightarrow> 0 < predicted_rate k)) \<and>
    fst (check_position_limit cl s (min c 100000) w) = Inr True \<and> dict_get (active_trades h1) (trade_id t) = Some t \<and>
    total_trades h1 = total_trades h + 1"
  using check_result[OF assms(2,1)]
proof cases
  case (3 t' ts)
  then show ?thesis
    by (auto simp: history_of_def worth_entering_def side_for_def MIN_FUNDING_BPS_def ENTRY_BUFFER_SECONDS_def MAX_POSITION_SIZE_USDT_def
      enter_trade_def counted_def dict_get_set not_less)
qed auto

lemma credit_inv:
  assumes "funding_inv h" "tr_symbol t \<in> SUPPORTED_SYMBOLS" "status t = Open"
  shows "funding_inv (snd (credit x t h))"
proof -
  have "wf_dict (dict_set (trade_id t) (t\<lparr>actual_funding_payment := x\<rparr>) (active_trades h))" using assms(1) by (simp add: funding_inv_def)
  then show ?thesis using assms unfolding funding_inv_def credit_def by (simp add: dict_get_set)
qed

lemma finish_inv: "funding_inv h \<Longrightarrow> funding_inv (fst (snd (finish_trade cl now t h w)))"
  by (auto simp: finish_trade_def Let_def funding_inv_def dict_get_pop split: prod.split option.split if_splits)

lemma snapshot_loop_inv:
  assumes "snapshot_loop cl now s ts n h w = (r, h1, w1)" "funding_inv h" "\<forall>t \<in> set ts. tr_symbol t \<in> SUPPORTED_SYMBOLS"
  shows "funding_inv h1"
  using assms
proof (induction ts arbitrary: n h w)
  case (Cons t ts)
  show ?case
  proof (cases "tr_symbol t \<noteq> s \<or> status t \<noteq> Open")
    case True
    then show ?thesis using Cons by simp
  next
    case False
    obtain p w2 where p: "get_funding_payment cl (tr_symbol t) (trade_id t) w = (p, w2)" by fastforce
    show ?thesis
    proof (cases p)
      case (Inl e)
      then show ?thesis using Cons False p by simp
    next
      case (Inr pay)
      obtain t2 h2 where c: "(case pay of None \<Rightarrow> (t, h) | Some x \<Rightarrow> credit x t h) = (t2, h2)" by fastforce
      obtain ok h3 w3 where f: "finish_trade cl now t2 h2 w2 = (ok, h3, w3)" by (metis prod_cases3)
      have "funding_inv h2" using c Cons.prems(2,3) False credit_inv[of h t]
        by (cases pay) (auto simp: credit_def)
      then have "funding_inv h3" using f finish_inv[of h2 cl now t2 w2] by simp
      moreover have "snapshot_loop cl now s ts (if ok then n + 1 else n) h3 w3 = (r, h1, w1)" using Cons.prems(1) False p Inr c f by auto
      ultimately show ?thesis using Cons.IH Cons.prems(3) by auto
    qed
  qed
qed simp

lemma enter_inv:
  assumes "funding_inv h" "tr_symbol t \<in> SUPPORTED_SYMBOLS" "status t = Open"
  shows "funding_inv (enter_trade t h)"
  using assms by (auto simp: funding_inv_def enter_trade_def dict_get_set)

lemma funding_step_inv:
  assumes "funding_inv (fst hw)"
  shows "funding_inv (fst (funding_step op hw))"
proof -
  obtain h v where hw: "hw = (h, v)" by fastforce
  then have h: "funding_inv h" using assms by simp
  show ?thesis
  proof (cases op)
    case (Update ml now s r nxt)
    then show ?thesis using update_inv[OF h] hw by simp
  next
    case (Check cl ns now s p c)
    obtain r h1 w1 where k: "check_and_execute_funding_arb cl ns now s p c h v = (r, h1, w1)" by (metis prod_cases3)
    have "funding_inv h1" using check_result[OF k h] h by cases (auto intro!: enter_inv)
    then show ?thesis using Check k hw by simp
  next
    case (Snapshot cl now s)
    obtain r h1 w1 where k: "snapshot_loop cl now s (dict_values (active_trades h)) 0 h v = (r, h1, w1)" by (metis prod_cases3)
    have "\<forall>t \<in> set (dict_values (active_trades h)). tr_symbol t \<in> SUPPORTED_SYMBOLS"
      using h by (auto simp: funding_inv_def wf_dict_mem)
    then have "funding_inv h1" by (rule snapshot_loop_inv[OF k h])
    then show ?thesis using Snapshot k hw by (simp add: process_funding_snapshot_def)
  qed
qed

interpretation funding: op_machine funding_step "\<lambda>hw. funding_inv (fst hw)"
  by unfold_locales (rule funding_step_inv)

text \<open>In every run the active trades are the open ones, each under its own id and for a supported symbol; the history of a symbol is never empty, so that
  its last tick exists, and has at most 100 ticks; the predictor keeps at most 20 rates.\<close>

theorem funding_run_invariant: "funding_inv (fst (fold funding_step ops (harvester_init, w)))"
proof -
  have "funding_inv harvester_init" by (simp add: funding_inv_def harvester_init_def predictor_init_def)
  then show ?thesis by (intro funding.run_inv) simp
qed

text \<open>Nothing looks at the clock when a trade is entered: the time to the payment is the one stored with the last tick, so that a check made at any later
  moment, also long after the payment, enters the trade if the tick was good and the client fills the order.\<close>

theorem stale_tick_enters:
  assumes "s \<in> SUPPORTED_SYMBOLS" "dict_get (funding_history h) s = Some ts" "ts \<noteq> []" "worth_entering (last ts)" "price \<noteq> 0"
    "\<And>size v. fst (check_position_limit cl s size v) = Inr True" "\<And>sd q k v. \<exists>oid. fst (place_order cl s sd q k v) = Inr (Some oid)"
    "\<And>oid v. \<exists>fp fq. fst (wait_for_fill cl oid v) = Inr (''filled'', Some fp, Some fq)"
  shows "\<exists>t h1 w1. check_and_execute_funding_arb cl ns now s price capital h w = (Inr (Some t), h1, w1) \<and> entry_time t = now"
proof -
  obtain x xs where ts: "ts = x # xs" using assms(3) by (cases ts) auto
  let ?c = "min capital MAX_POSITION_SIZE_USDT" and ?sd = "if side_for (last ts) = SHORT then ''sell'' else ''buy''"
  obtain w1 where c: "check_position_limit cl s ?c w = (Inr True, w1)" using assms(6)[of ?c w] by (metis prod.collapse)
  obtain oid w2 where p: "place_order cl s ?sd (ddiv ?c price) (Limit price) w1 = (Inr (Some oid), w2)"
    using assms(7)[of ?sd "ddiv ?c price" "Limit price" w1] by (metis prod.collapse)
  obtain fp fq w3 where f: "wait_for_fill cl oid w2 = (Inr (''filled'', Some fp, Some fq), w3)"
    using assms(8)[of oid w2] by (metis prod.collapse)
  show ?thesis
    using assms(1,2,4,5) ts c p f by (simp add: check_and_execute_funding_arb_def execute_funding_trade_def Let_def split: prod.split)
qed

text \<open>An order that is not confirmed as filled in time is forgotten: it was placed, nothing cancels it, and the harvester differs from before only in the
  counter for ids.\<close>

theorem unfilled_order_forgotten:
  assumes "place_order cl s (if side = SHORT then ''sell'' else ''buy'') q (Limit price) w = (Inr (Some oid), w1)" "wait_for_fill cl oid w1 = (Inl e, w2)"
  shows "execute_funding_trade cl ns now s side q price expected h w = (None, counted h, w2)"
  using assms by (simp add: execute_funding_trade_def generate_trade_id_def counted_def Let_def)

definition snapshots_of :: "'w client \<Rightarrow> int \<Rightarrow> string \<Rightarrow> nat \<Rightarrow> harvester \<times> 'w \<Rightarrow> harvester \<times> 'w" where
  "snapshots_of cl now s n = ((\<lambda>(h, w). snd (process_funding_snapshot cl now s h w)) ^^ n)"

text \<open>While closing fails, every snapshot books the payment of the same trade again: after \<open>n\<close> of them one trade counts as \<open>n\<close> captures.\<close>

theorem failed_close_counts_again:
  assumes "\<And>sy sd q k v. \<exists>e. fst (place_order cl sy sd q k v) = Inl e" "\<And>sy i v. fst (get_funding_payment cl sy i v) = Inr (Some x)"
    "active_trades h = [(trade_id t, t)]" "tr_symbol t = s" "status t = Open"
  shows "let h1 = fst (snapshots_of cl now s n (h, w))
    in successful_captures h1 = successful_captures h + int n \<and> total_funding_captured h1 = ((\<lambda>y. dadd y x) ^^ n) (total_funding_captured h) \<and>
      total_pnl h1 = total_pnl h \<and> dict_keys (active_trades h1) = [trade_id t]"
proof -
  have "\<exists>t1 w1 h1. snapshots_of cl now s n (h, w) = (h1, w1) \<and> active_trades h1 = [(trade_id t, t1)] \<and> trade_id t1 = trade_id t \<and>
      tr_symbol t1 = s \<and> status t1 = Open \<and> successful_captures h1 = successful_captures h + int n \<and>
      total_funding_captured h1 = ((\<lambda>y. dadd y x) ^^ n) (total_funding_captured h) \<and> total_pnl h1 = total_pnl h"
  proof (induction n)
    case 0
    then show ?case using assms(3-5) by (simp add: snapshots_of_def)
  next
    case (Suc n)
    then obtain t1 w1 h1 where IH: "snapshots_of cl now s n (h, w) = (h1, w1)" "active_trades h1 = [(trade_id t, t1)]" "trade_id t1 = trade_id t"
      "tr_symbol t1 = s" "status t1 = Open" "successful_captures h1 = successful_captures h + int n"
      "total_funding_captured h1 = ((\<lambda>y. dadd y x) ^^ n) (total_funding_captured h)" "total_pnl h1 = total_pnl h" by blast
    obtain w2 where p: "get_funding_payment cl s (trade_id t) w1 = (Inr (Some x), w2)" using assms(2) by (metis prod.collapse)
    let ?t = "t1\<lparr>actual_funding_payment := x\<rparr>" and ?sd = "if position_side t1 = SHORT then ''buy'' else ''sell''"
    obtain e w3 where c: "place_order cl s ?sd (quantity t1) Market w2 = (Inl e, w3)" using assms(1) by (metis prod.collapse)
    have "process_funding_snapshot cl now s h1 w1 = (Inr False, snd (credit x t1 h1), w3)"
      using IH(2-5) p c by (simp add: process_funding_snapshot_def credit_def finish_trade_def close_funding_position_def Let_def)
    then show ?case using IH
      by (auto simp: snapshots_of_def credit_def)
  qed
  then show ?thesis by (auto simp: Let_def)
qed

section \<open>Witnesses\<close>

definition demo_client :: "bool \<Rightarrow> unit client" where
  "demo_client ok = \<lparr>check_position_limit = (\<lambda>s q w. (Inr True, w)),
     place_order = (\<lambda>s sd q k w. (if ok then Inr (Some ''1'') else Inl TimeoutError, w)),
     wait_for_fill = (\<lambda>i w. (Inr (''filled'', Some 50000, Some 2), w)), get_funding_payment = (\<lambda>s i w. (Inr (Some 3), w))\<rparr>"

definition slow_client :: "unit client" where
  "slow_client = (demo_client True)\<lparr>wait_for_fill := (\<lambda>i w. (Inl TimeoutError, w))\<rparr>"

definition demo_tick :: FundingRateTick where
  "demo_tick = \<lparr>tk_symbol = ''BTC'', funding_rate = 1, predicted_rate = 1, tk_time = 0, next_funding_time = 60000000,
     time_to_funding_seconds = 60, annualized_rate = 1\<rparr>"

definition demo_trade :: FundingTrade where
  "demo_trade = \<lparr>trade_id = ''FR-1-000001'', tr_symbol = ''BTC'', position_side = SHORT, entry_time = 0, entry_price = 50000, quantity = 2,
     expected_funding_payment = 10, actual_funding_payment = 0, exit_time = None, exit_price = None, pnl_usdt = 0, status = Open\<rparr>"

definition demo_harvester :: harvester where
  "demo_harvester = harvester_init\<lparr>funding_history := [(''BTC'', [demo_tick])]\<rparr>"

lemma demo_worth: "worth_entering demo_tick"
  by (simp add: worth_entering_def demo_tick_def dmul_def dabs_def MIN_FUNDING_BPS_def ENTRY_BUFFER_SECONDS_def)

lemma demo_harvester_inv: "funding_inv demo_harvester"
  by (simp add: funding_inv_def demo_harvester_def harvester_init_def predictor_init_def)

theorem next_funding_time_is_least_witness: "0 < (28800000000 :: int) \<and> 8 * HOUR dvd 28800000000"
proof -
  have "dict_get (get_next_funding_times 0 [''BTC'']) ''BTC'' = Some 28800000000" by code_simp
  then show ?thesis using next_funding_time_is_least[of "''BTC''" "[''BTC'']" 0 28800000000] by simp
qed

definition demo_entry where
  "demo_entry = check_and_execute_funding_arb (demo_client True) 1 9000000000 ''BTC'' 50000 100000 demo_harvester ()"

lemma demo_entry_some: "\<exists>t h1 w1. demo_entry = (Inr (Some t), h1, w1)"
  by (simp add: demo_entry_def check_and_execute_funding_arb_def execute_funding_trade_def generate_trade_id_def demo_harvester_def
    SUPPORTED_SYMBOLS_def demo_client_def demo_worth Let_def)

lemma demo_total: "total_trades demo_harvester = 0"
  by (simp add: demo_harvester_def harvester_init_def)

theorem entries_are_justified_witness:
  "\<exists>t h1 w1. demo_entry = (Inr (Some t), h1, w1) \<and> total_trades h1 = 1 \<and> dict_get (active_trades h1) (trade_id t) = Some t"
proof -
  obtain t h1 w1 where e: "demo_entry = (Inr (Some t), h1, w1)" using demo_entry_some by blast
  have "dict_get (active_trades h1) (trade_id t) = Some t \<and> total_trades h1 = total_trades demo_harvester + 1"
    using entries_are_justified[OF demo_harvester_inv e[unfolded demo_entry_def]] by blast
  then show ?thesis using e demo_total by auto
qed

theorem stale_tick_enters_witness:
  "\<exists>t h1 w1. check_and_execute_funding_arb (demo_client True) 1 90000000000 ''BTC'' 50000 100000 demo_harvester () = (Inr (Some t), h1, w1) \<and>
    entry_time t = 90000000000"
  by (rule stale_tick_enters[where ts = "[demo_tick]"])
    (simp_all add: SUPPORTED_SYMBOLS_def demo_harvester_def demo_worth demo_client_def)

theorem unfilled_order_forgotten_witness:
  "execute_funding_trade slow_client 1 2 ''BTC'' SHORT 2 50000 10 harvester_init () = (None, counted harvester_init, ())"
  by (rule unfilled_order_forgotten) (simp_all add: slow_client_def demo_client_def)

theorem failed_close_counts_again_witness:
  "successful_captures (fst (snapshots_of (demo_client False) 1 ''BTC'' 7 (harvester_init\<lparr>active_trades := [(''FR-1-000001'', demo_trade)]\<rparr>, ()))) = 7"
  using failed_close_counts_again[of "demo_client False" 3 "harvester_init\<lparr>active_trades := [(''FR-1-000001'', demo_trade)]\<rparr>" demo_trade "''BTC''" 1 7 "()"]
  by (simp add: demo_client_def demo_trade_def harvester_init_def Let_def)

end
