(* ===== verification/BasisArb.thy ===== *)
theory BasisArb
  imports Prelude
begin

text \<open>
  \<open>derivatives/basis_arb.py\<close>: cash-and-carry trades with a spot leg and a perpetual leg.

  The exchange client acts on a world \<open>'w\<close> and is the functions of a \<open>client\<close> record; an exception of a call is a value, a key that is missing in an answer
  is None. Moments are microseconds; those one call of \<open>execute_arbitrage\<close> reads are the fields of a \<open>moments\<close> record. The coroutines run one after the
  other here; what other tasks do while one of them waits is part of the world.
\<close>

section \<open>Data\<close>

datatype LegStatus = PENDING | EXECUTING | FILLED | CANCELLED | FAILED

datatype ArbDirection = LONG_SPOT_SHORT_PERP | SHORT_SPOT_LONG_PERP

datatype market = Spot | Perp

datatype side = Buy | Sell

fun opposite :: "side \<Rightarrow> side" where
  "opposite Buy = Sell" | "opposite Sell = Buy"

record OrderLeg =
  leg_id :: string
  market_type :: market
  leg_side :: side
  leg_symbol :: string
  leg_quantity :: pyfloat
  leg_price :: "pyfloat option"
  status :: LegStatus
  fill_price :: "pyfloat option"
  fill_quantity :: pyfloat
  timestamp_us :: int
  error_message :: "string option"

record BasisArbitrage =
  arb_id :: string
  arb_symbol :: string
  direction :: ArbDirection
  spot_leg :: OrderLeg
  perp_leg :: OrderLeg
  entry_basis_bps :: pyfloat
  target_funding_rate :: pyfloat
  created_at :: int
  closed_at :: "int option"
  total_pnl :: pyfloat
  total_fees :: pyfloat

definition is_complete :: "BasisArbitrage \<Rightarrow> bool" where
  "is_complete a \<longleftrightarrow> status (spot_leg a) = FILLED \<and> status (perp_leg a) = FILLED"

definition is_failed :: "BasisArbitrage \<Rightarrow> bool" where
  "is_failed a \<longleftrightarrow> status (spot_leg a) = FAILED \<or> status (perp_leg a) = FAILED"

definition elapsed_seconds :: "int \<Rightarrow> BasisArbitrage \<Rightarrow> pyfloat" where
  "elapsed_seconds now a = idiv ((case closed_at a of None \<Rightarrow> now | Some c \<Rightarrow> c) - created_at a) 1000000"

record MarketSnapshot =
  symbol :: string
  spot_bid :: pyfloat
  spot_ask :: pyfloat
  perp_bid :: pyfloat
  perp_ask :: pyfloat
  mark_price :: pyfloat
  index_price :: pyfloat
  funding_rate :: pyfloat
  snap_us :: int

definition mid_spot :: "MarketSnapshot \<Rightarrow> pyfloat" where
  "mid_spot s = fdiv (fadd (spot_bid s) (spot_ask s)) 2"

definition mid_perp :: "MarketSnapshot \<Rightarrow> pyfloat" where
  "mid_perp s = fdiv (fadd (perp_bid s) (perp_ask s)) 2"

definition basis_bps :: "MarketSnapshot \<Rightarrow> pyfloat" where
  "basis_bps s = (if index_price s = 0 then 0 else fmul (fdiv (fsub (mid_perp s) (mid_spot s)) (index_price s)) 10000)"

definition spread_bps :: "MarketSnapshot \<Rightarrow> pyfloat" where
  "spread_bps s = (if mid_spot s = 0 then 0 else fmul (fdiv (fsub (spot_ask s) (spot_bid s)) (mid_spot s)) 10000)"

section \<open>Risk manager\<close>

record RiskManager =
  total_capital :: pyfloat
  allocated_capital :: pyfloat

definition risk_init :: "pyfloat \<Rightarrow> RiskManager" where
  "risk_init c = \<lparr>total_capital = c, allocated_capital = 0\<rparr>"

definition get_available_capital :: "RiskManager \<Rightarrow> pyfloat" where
  "get_available_capital r = fsub (total_capital r) (allocated_capital r)"

definition allocate_capital :: "pyfloat \<Rightarrow> RiskManager \<Rightarrow> bool \<times> RiskManager" where
  "allocate_capital x r =
     (if x \<le> get_available_capital r then (True, r\<lparr>allocated_capital := fadd (allocated_capital r) x\<rparr>) else (False, r))"

definition release_capital :: "pyfloat \<Rightarrow> RiskManager \<Rightarrow> RiskManager" where
  "release_capital x r = r\<lparr>allocated_capital := max 0 (fsub (allocated_capital r) x)\<rparr>"

section \<open>Decision and size\<close>

record engine =
  active_arbs :: "(string, BasisArbitrage) dict"
  completed_arbs :: "BasisArbitrage list"
  arb_counter :: int

definition engine_init :: engine where
  "engine_init = \<lparr>active_arbs = [], completed_arbs = [], arb_counter = 0\<rparr>"

definition MIN_BASIS_THRESHOLD_BPS :: pyfloat where "MIN_BASIS_THRESHOLD_BPS = 15"
definition MAX_LEG_DELAY_US :: int where "MAX_LEG_DELAY_US = 500000"

definition POSITION_LIMITS :: "(string, int) dict" where
  "POSITION_LIMITS = [(''BTC'', 50000), (''ETH'', 30000), (''SOL'', 10000)]"

definition generate_arb_id :: "int \<Rightarrow> engine \<Rightarrow> string \<times> engine" where
  "generate_arb_id secs g =
     (let n = arb_counter g + 1 in (''BASIS_'' @ int_str n @ ''_'' @ int_str secs, g\<lparr>arb_counter := n\<rparr>))"

definition calculate_basis :: "MarketSnapshot \<Rightarrow> pyfloat" where
  "calculate_basis s = basis_bps s"

definition should_execute_arb :: "MarketSnapshot \<Rightarrow> bool \<times> ArbDirection" where
  "should_execute_arb s =
     (if MIN_BASIS_THRESHOLD_BPS < basis_bps s
      then (if 0 < funding_rate s then (True, LONG_SPOT_SHORT_PERP) else (False, LONG_SPOT_SHORT_PERP))
      else if basis_bps s < - MIN_BASIS_THRESHOLD_BPS
      then (if funding_rate s < 0 then (True, SHORT_SPOT_LONG_PERP) else (False, LONG_SPOT_SHORT_PERP))
      else (False, LONG_SPOT_SHORT_PERP))"

text \<open>\<open>round(x, n)\<close> of a float.\<close>

definition round_digits :: "int \<Rightarrow> pyfloat \<Rightarrow> pyfloat" where
  "round_digits n x = fl (of_int (round_half_even (x * 10 powi n)) / 10 powi n)"

definition base_asset :: "string \<Rightarrow> string" where
  "base_asset s = delete_word ''USD'' (delete_word ''USDT'' s)"

definition notional_size :: "string \<Rightarrow> RiskManager \<Rightarrow> pyfloat" where
  "notional_size s r =
     min (of_int (case dict_get POSITION_LIMITS (base_asset s) of None \<Rightarrow> 5000 | Some n \<Rightarrow> n)) (fmul (get_available_capital r) (1 / 2))"

definition calculate_position_size :: "(string \<Rightarrow> int) \<Rightarrow> RiskManager \<Rightarrow> string \<Rightarrow> MarketSnapshot \<Rightarrow> pyfloat" where
  "calculate_position_size prec r s snap =
     (if mid_spot snap \<le> 0 then 0 else round_digits (prec s) (fdiv (notional_size s r) (mid_spot snap)))"

section \<open>Execution\<close>

datatype kind = Limit "pyfloat option" | Market

datatype answer = Success "pyfloat option" "pyfloat option" | Refused "string option"

record 'w client =
  execute_order :: "market \<Rightarrow> string \<Rightarrow> side \<Rightarrow> pyfloat \<Rightarrow> kind \<Rightarrow> 'w \<Rightarrow> (exn + answer) \<times> 'w"
  cancel_order :: "market \<Rightarrow> string \<Rightarrow> string \<Rightarrow> 'w \<Rightarrow> (exn + bool) \<times> 'w"

definition cancel_leg :: "'w client \<Rightarrow> OrderLeg \<Rightarrow> 'w \<Rightarrow> bool \<times> OrderLeg \<times> 'w" where
  "cancel_leg cl l w =
     (let (r, w1) = cancel_order cl (market_type l) (leg_symbol l) (leg_id l) w
      in if r = Inr True then (True, l\<lparr>status := CANCELLED\<rparr>, w1) else (False, l, w1))"

text \<open>One leg: it counts as filled before price and quantity are read from the answer. \<open>Inl\<close> is an exception, \<open>Inr\<close> whether it was filled.\<close>

definition run_leg :: "'w client \<Rightarrow> OrderLeg \<Rightarrow> 'w \<Rightarrow> (exn + bool) \<times> OrderLeg \<times> 'w" where
  "run_leg cl l0 w =
     (let l = l0\<lparr>status := EXECUTING\<rparr>;
          (r, w1) = execute_order cl (market_type l) (leg_symbol l) (leg_side l) (leg_quantity l) (Limit (leg_price l)) w
      in case r of
           Inl e \<Rightarrow> (Inl e, l, w1)
         | Inr (Refused msg) \<Rightarrow>
             (Inr False, l\<lparr>status := FAILED, error_message := Some (case msg of None \<Rightarrow> ''Unknown error'' | Some m \<Rightarrow> m)\<rparr>, w1)
         | Inr (Success None q) \<Rightarrow> (Inl KeyError, l\<lparr>status := FILLED\<rparr>, w1)
         | Inr (Success (Some p) None) \<Rightarrow> (Inl KeyError, l\<lparr>status := FILLED, fill_price := Some p\<rparr>, w1)
         | Inr (Success (Some p) (Some q)) \<Rightarrow> (Inr True, l\<lparr>status := FILLED, fill_price := Some p, fill_quantity := q\<rparr>, w1))"

definition reverse_leg :: "'w client \<Rightarrow> OrderLeg \<Rightarrow> 'w \<Rightarrow> (exn + answer) \<times> 'w" where
  "reverse_leg cl l w = execute_order cl (market_type l) (leg_symbol l) (opposite (leg_side l)) (fill_quantity l) Market w"

text \<open>The emergency close answers None, or the exception that ends it.\<close>

definition emergency_close :: "'w client \<Rightarrow> BasisArbitrage \<Rightarrow> 'w \<Rightarrow> exn option \<times> 'w" where
  "emergency_close cl a w =
     (let (e, w1) = (if status (spot_leg a) = FILLED
        then (let (r, v) = reverse_leg cl (spot_leg a) w in (case r of Inl e \<Rightarrow> Some e | Inr _ \<Rightarrow> None, v)) else (None, w))
      in case e of
           Some x \<Rightarrow> (Some x, w1)
         | None \<Rightarrow>
             (if status (perp_leg a) = FILLED
              then (let (r, v) = reverse_leg cl (perp_leg a) w1 in (case r of Inl e \<Rightarrow> Some e | Inr _ \<Rightarrow> None, v)) else (None, w1)))"

definition emergency :: "'w client \<Rightarrow> BasisArbitrage \<Rightarrow> 'w \<Rightarrow> (exn + bool) \<times> BasisArbitrage \<times> 'w" where
  "emergency cl a w = (let (e, w1) = emergency_close cl a w in (case e of None \<Rightarrow> Inr False | Some x \<Rightarrow> Inl x, a, w1))"

definition execute_dual_legs :: "'w client \<Rightarrow> int \<Rightarrow> int \<Rightarrow> BasisArbitrage \<Rightarrow> 'w \<Rightarrow> (exn + bool) \<times> BasisArbitrage \<times> 'w" where
  "execute_dual_legs cl start cur a w =
     (let (r, l, w1) = run_leg cl (spot_leg a) w; a1 = a\<lparr>spot_leg := l\<rparr>
      in case r of
           Inl e \<Rightarrow> emergency cl a1 w1
         | Inr False \<Rightarrow> (Inr False, a1, w1)
         | Inr True \<Rightarrow>
             (if MAX_LEG_DELAY_US < cur - start
              then (let (c, l1, w2) = cancel_leg cl l w1 in (Inr False, a1\<lparr>spot_leg := l1\<rparr>, w2))
              else
                (let (r2, p, w2) = run_leg cl (perp_leg a1) w1; a2 = a1\<lparr>perp_leg := p\<rparr>
                 in case r2 of
                      Inl e \<Rightarrow> emergency cl a2 w2
                    | Inr False \<Rightarrow> (let (c, l1, w3) = cancel_leg cl l w2 in (Inr False, a2\<lparr>spot_leg := l1\<rparr>, w3))
                    | Inr True \<Rightarrow> (Inr True, a2, w2))))"

record moments =
  at_secs :: int
  at_spot :: int
  at_perp :: int
  at_created :: int
  at_start :: int
  at_check :: int

definition new_leg :: "string \<Rightarrow> market \<Rightarrow> side \<Rightarrow> string \<Rightarrow> pyfloat \<Rightarrow> pyfloat \<Rightarrow> int \<Rightarrow> OrderLeg" where
  "new_leg i m sd s q p us = \<lparr>leg_id = i, market_type = m, leg_side = sd, leg_symbol = s, leg_quantity = q, leg_price = Some p, status = PENDING,
     fill_price = None, fill_quantity = 0, timestamp_us = us, error_message = None\<rparr>"

definition new_arb :: "moments \<Rightarrow> string \<Rightarrow> ArbDirection \<Rightarrow> pyfloat \<Rightarrow> MarketSnapshot \<Rightarrow> BasisArbitrage" where
  "new_arb t i d q s =
     (let ss = (if d = LONG_SPOT_SHORT_PERP then Buy else Sell); ps = (if d = LONG_SPOT_SHORT_PERP then Sell else Buy)
      in \<lparr>arb_id = i, arb_symbol = symbol s, direction = d,
          spot_leg = new_leg (i @ ''_SPOT'') Spot ss (symbol s) q (if ss = Buy then spot_ask s else spot_bid s) (at_spot t),
          perp_leg = new_leg (i @ ''_PERP'') Perp ps (symbol s) q (if ps = Buy then perp_ask s else perp_bid s) (at_perp t),
          entry_basis_bps = basis_bps s, target_funding_rate = funding_rate s, created_at = at_created t, closed_at = None, total_pnl = 0,
          total_fees = 0\<rparr>)"

definition execute_arbitrage ::
    "'w client \<Rightarrow> (string \<Rightarrow> int) \<Rightarrow> RiskManager \<Rightarrow> moments \<Rightarrow> MarketSnapshot \<Rightarrow> engine \<Rightarrow> 'w \<Rightarrow> (exn + BasisArbitrage option) \<times> engine \<times> 'w" where
  "execute_arbitrage cl prec r t s g w =
     (let (go, d) = should_execute_arb s; q = calculate_position_size prec r (symbol s) s
      in if \<not> go then (Inr None, g, w)
         else if q \<le> 0 then (Inr None, g, w)
         else
           (let (i, g1) = generate_arb_id (at_secs t) g;
                (res, a, w1) = execute_dual_legs cl (at_start t) (at_check t) (new_arb t i d q s) w
            in case res of
                 Inl e \<Rightarrow> (Inl e, g1, w1)
               | Inr False \<Rightarrow> (Inr None, g1, w1)
               | Inr True \<Rightarrow> (Inr (Some a), g1\<lparr>active_arbs := dict_set i a (active_arbs g1)\<rparr>, w1)))"

section \<open>Profit and closing\<close>

definition leg_pnl :: "OrderLeg \<Rightarrow> pyfloat \<Rightarrow> pyfloat" where
  "leg_pnl l cur =
     (let entry = (case fill_price l of None \<Rightarrow> 0 | Some p \<Rightarrow> p)
      in fmul (if leg_side l = Buy then fsub cur entry else fsub entry cur) (fill_quantity l))"

definition funding_pnl :: "int \<Rightarrow> BasisArbitrage \<Rightarrow> pyfloat" where
  "funding_pnl now a =
     fmul (fmul (fmul (fill_quantity (perp_leg a)) (case fill_price (perp_leg a) of None \<Rightarrow> 0 | Some p \<Rightarrow> p)) (target_funding_rate a))
       (fdiv (fdiv (elapsed_seconds now a) 3600) 8)"

definition calculate_unrealized_pnl :: "int \<Rightarrow> BasisArbitrage \<Rightarrow> MarketSnapshot \<Rightarrow> pyfloat \<times> BasisArbitrage" where
  "calculate_unrealized_pnl now a s =
     (if \<not> is_complete a then (0, a)
      else
        (let x = fadd (fadd (leg_pnl (spot_leg a) (mid_spot s)) (leg_pnl (perp_leg a) (mid_perp s))) (funding_pnl now a)
         in (x, a\<lparr>total_pnl := x\<rparr>)))"

text \<open>The answers to the two closing orders are not looked at; an exception of one leaves the trade active.\<close>

definition close_arbitrage :: "'w client \<Rightarrow> int \<Rightarrow> int \<Rightarrow> string \<Rightarrow> MarketSnapshot \<Rightarrow> engine \<Rightarrow> 'w \<Rightarrow> (exn + pyfloat) \<times> engine \<times> 'w" where
  "close_arbitrage cl now now' i s g w =
     (case dict_get (active_arbs g) i of
        None \<Rightarrow> (Inr 0, g, w)
      | Some a0 \<Rightarrow>
          (let (x, a) = calculate_unrealized_pnl now a0 s; g1 = g\<lparr>active_arbs := dict_set i a (active_arbs g)\<rparr>;
               (r, w1) = reverse_leg cl (spot_leg a) w
           in case r of
                Inl e \<Rightarrow> (Inl e, g1, w1)
              | Inr _ \<Rightarrow>
                  (let (r2, w2) = reverse_leg cl (perp_leg a) w1
                   in case r2 of
                        Inl e \<Rightarrow> (Inl e, g1, w2)
                      | Inr _ \<Rightarrow>
                          (Inr x, g1\<lparr>active_arbs := dict_pop i (active_arbs g1),
                                     completed_arbs := completed_arbs g1 @ [a\<lparr>closed_at := Some now', total_pnl := x\<rparr>]\<rparr>, w2))))"


section \<open>Runs\<close>

datatype 'w arb_op =
    Execute "'w client" "string \<Rightarrow> int" RiskManager moments MarketSnapshot
  | Close "'w client" int int string MarketSnapshot

fun arb_step :: "'w arb_op \<Rightarrow> engine \<times> 'w \<Rightarrow> engine \<times> 'w" where
  "arb_step (Execute cl prec r t s) (g, w) = snd (execute_arbitrage cl prec r t s g w)"
| "arb_step (Close cl now now' i s) (g, w) = snd (close_arbitrage cl now now' i s g w)"

text \<open>Both legs filled, on opposite sides, in the direction in which the basis and the funding rate of the entry pay.\<close>

definition carries :: "BasisArbitrage \<Rightarrow> bool" where
  "carries a \<longleftrightarrow> is_complete a \<and> leg_side (perp_leg a) = opposite (leg_side (spot_leg a)) \<and>
     (direction a = LONG_SPOT_SHORT_PERP \<longrightarrow> leg_side (spot_leg a) = Buy \<and> 15 < entry_basis_bps a \<and> 0 < target_funding_rate a) \<and>
     (direction a = SHORT_SPOT_LONG_PERP \<longrightarrow> leg_side (spot_leg a) = Sell \<and> entry_basis_bps a < - 15 \<and> target_funding_rate a < 0)"

definition arb_inv :: "engine \<Rightarrow> bool" where
  "arb_inv g \<longleftrightarrow> (\<forall>i a. dict_get (active_arbs g) i = Some a \<longrightarrow> carries a \<and> closed_at a = None) \<and>
     (\<forall>a \<in> set (completed_arbs g). carries a \<and> closed_at a \<noteq> None)"

lemma should_execute_iff:
  "should_execute_arb s = (True, d) \<longleftrightarrow>
     (d = LONG_SPOT_SHORT_PERP \<and> 15 < basis_bps s \<and> 0 < funding_rate s) \<or> (d = SHORT_SPOT_LONG_PERP \<and> basis_bps s < - 15 \<and> funding_rate s < 0)"
  by (cases d) (auto simp: should_execute_arb_def MIN_BASIS_THRESHOLD_BPS_def)

lemma run_leg_filled:
  assumes "run_leg cl l w = (Inr True, l1, w1)"
  shows "status l1 = FILLED \<and> leg_side l1 = leg_side l"
  using assms by (auto simp: run_leg_def Let_def split: prod.splits sum.splits answer.splits option.splits)

lemma dual_legs_filled:
  assumes "execute_dual_legs cl st cu a w = (Inr True, a1, w1)"
  shows "is_complete a1 \<and> leg_side (spot_leg a1) = leg_side (spot_leg a) \<and> leg_side (perp_leg a1) = leg_side (perp_leg a) \<and>
    direction a1 = direction a \<and> entry_basis_bps a1 = entry_basis_bps a \<and> target_funding_rate a1 = target_funding_rate a \<and> closed_at a1 = closed_at a"
proof -
  obtain r l w2 where l: "run_leg cl (spot_leg a) w = (r, l, w2)" by (metis prod_cases3)
  obtain r2 p w3 where p: "run_leg cl (perp_leg a) w2 = (r2, p, w3)" by (metis prod_cases3)
  have no: "fst (emergency cl x v) \<noteq> Inr True" for x v by (simp add: emergency_def Let_def split: prod.split option.split)
  have "r = Inr True \<and> r2 = Inr True \<and> a1 = a\<lparr>spot_leg := l, perp_leg := p\<rparr>"
    using assms no[of "a\<lparr>spot_leg := l\<rparr>" w2] no[of "a\<lparr>spot_leg := l, perp_leg := p\<rparr>" w3]
    by (cases r; cases r2) (auto simp: execute_dual_legs_def l p Let_def split: bool.splits if_splits prod.splits)
  then show ?thesis using run_leg_filled[of cl "spot_leg a" w l w2] run_leg_filled[of cl "perp_leg a" w2 p w3] l p by (auto simp: is_complete_def)
qed

lemma execute_entry:
  assumes "execute_arbitrage cl prec r t s g w = (res, g1, w1)"
  obtains "active_arbs g1 = active_arbs g" "completed_arbs g1 = completed_arbs g" "\<forall>a. res \<noteq> Inr (Some a)"
  | a i where "res = Inr (Some a)" "active_arbs g1 = dict_set i a (active_arbs g)" "completed_arbs g1 = completed_arbs g" "carries a" "closed_at a = None"
proof -
  obtain go d where sh: "should_execute_arb s = (go, d)" by fastforce
  let ?q = "calculate_position_size prec r (symbol s) s"
  obtain i g2 where i: "generate_arb_id (at_secs t) g = (i, g2)" by fastforce
  then have g2: "active_arbs g2 = active_arbs g" "completed_arbs g2 = completed_arbs g" by (auto simp: generate_arb_id_def Let_def)
  obtain x a w2 where x: "execute_dual_legs cl (at_start t) (at_check t) (new_arb t i d ?q s) w = (x, a, w2)" by (metis prod_cases3)
  note eq = assms[unfolded execute_arbitrage_def Let_def, simplified sh i x, simplified]
  show thesis
  proof (cases "go \<and> \<not> ?q \<le> 0 \<and> x = Inr True")
    case True
    then have "carries a \<and> closed_at a = None"
      using dual_legs_filled[of cl "at_start t" "at_check t" "new_arb t i d ?q s" w a w2] x sh should_execute_iff[of s d]
      by (auto simp: carries_def new_arb_def new_leg_def Let_def)
    then show thesis using that(2)[of a i] eq True g2 x by auto
  next
    case False
    then show thesis using that(1) eq g2 x by (auto split: if_splits sum.splits bool.splits)
  qed
qed

lemma pnl_keeps: "carries a \<Longrightarrow> carries (snd (calculate_unrealized_pnl now a s)) \<and> closed_at (snd (calculate_unrealized_pnl now a s)) = closed_at a"
  by (simp add: calculate_unrealized_pnl_def carries_def is_complete_def Let_def)

lemma close_inv:
  assumes "arb_inv g" "close_arbitrage cl now now' i s g w = (r, g1, w1)"
  shows "arb_inv g1"
proof (cases "dict_get (active_arbs g) i")
  case None
  then show ?thesis using assms by (simp add: close_arbitrage_def)
next
  case (Some a0)
  obtain x a where a: "calculate_unrealized_pnl now a0 s = (x, a)" by fastforce
  have c: "carries a \<and> closed_at a = None" using assms(1) Some pnl_keeps[of a0 now s] a by (auto simp: arb_inv_def)
  have k: "carries (a\<lparr>closed_at := c', total_pnl := x\<rparr>)" for c' using c by (simp add: carries_def is_complete_def)
  have g1: "g1 \<in> {g\<lparr>active_arbs := dict_set i a (active_arbs g)\<rparr>,
      g\<lparr>active_arbs := dict_pop i (dict_set i a (active_arbs g)), completed_arbs := completed_arbs g @ [a\<lparr>closed_at := Some now', total_pnl := x\<rparr>]\<rparr>}"
    using assms(2) by (auto simp: close_arbitrage_def Some a Let_def split: prod.splits sum.splits)
  then show ?thesis using assms(1) c k by (auto simp: arb_inv_def dict_get_set dict_get_pop split: if_splits)
qed

lemma arb_step_inv:
  assumes "arb_inv (fst gw)"
  shows "arb_inv (fst (arb_step op gw))"
proof -
  obtain g w where gw: "gw = (g, w)" by fastforce
  show ?thesis
  proof (cases op)
    case (Execute cl prec r t s)
    obtain res g1 w1 where e: "execute_arbitrage cl prec r t s g w = (res, g1, w1)" by (metis prod_cases3)
    have "arb_inv g1" using execute_entry[OF e] assms gw by cases (auto simp: arb_inv_def dict_get_set)
    then show ?thesis using Execute e gw by simp
  next
    case (Close cl now now' i s)
    obtain res g1 w1 where e: "close_arbitrage cl now now' i s g w = (res, g1, w1)" by (metis prod_cases3)
    then show ?thesis using close_inv[of g] assms Close gw by simp
  qed
qed

interpretation basis: op_machine arb_step "\<lambda>gw. arb_inv (fst gw)"
  by unfold_locales (rule arb_step_inv)

text \<open>In every run, whatever the exchange answers, an active trade has both legs filled, on opposite sides, in the direction in which its basis (more than
  15 basis points) and its funding rate pay, and a completed trade had that and is closed.\<close>

theorem active_arbs_carry: "arb_inv (fst (fold arb_step ops (engine_init, w)))"
  by (rule basis.run_inv) (simp add: arb_inv_def engine_init_def)

section \<open>Legs\<close>

definition first_leg :: "ArbDirection \<Rightarrow> side" where
  "first_leg d = (if d = LONG_SPOT_SHORT_PERP then Buy else Sell)"

definition counted :: "engine \<Rightarrow> engine" where
  "counted g = g\<lparr>arb_counter := arb_counter g + 1\<rparr>"

definition new_id :: "moments \<Rightarrow> engine \<Rightarrow> string" where
  "new_id t g = fst (generate_arb_id (at_secs t) g)"

lemma generate_eq: "generate_arb_id (at_secs t) g = (new_id t g, counted g)"
  by (simp add: new_id_def generate_arb_id_def counted_def Let_def)

lemma new_arb_fields:
  "market_type (spot_leg (new_arb t i d q s)) = Spot" "market_type (perp_leg (new_arb t i d q s)) = Perp"
  "leg_symbol (spot_leg (new_arb t i d q s)) = symbol s" "leg_symbol (perp_leg (new_arb t i d q s)) = symbol s"
  "leg_side (spot_leg (new_arb t i d q s)) = first_leg d" "leg_side (perp_leg (new_arb t i d q s)) = opposite (first_leg d)"
  "leg_quantity (spot_leg (new_arb t i d q s)) = q" "leg_quantity (perp_leg (new_arb t i d q s)) = q"
  "leg_price (spot_leg (new_arb t i d q s)) = Some (if first_leg d = Buy then spot_ask s else spot_bid s)"
  "leg_price (perp_leg (new_arb t i d q s)) = Some (if first_leg d = Buy then perp_bid s else perp_ask s)"
  "leg_id (spot_leg (new_arb t i d q s)) = i @ ''_SPOT''"
  by (cases d; simp add: new_arb_def new_leg_def first_leg_def Let_def)+

text \<open>The two limit orders of an entry, answered by the world.\<close>

definition spot_order :: "'w client \<Rightarrow> ArbDirection \<Rightarrow> pyfloat \<Rightarrow> MarketSnapshot \<Rightarrow> 'w \<Rightarrow> (exn + answer) \<times> 'w" where
  "spot_order cl d q s =
     execute_order cl Spot (symbol s) (first_leg d) q (Limit (Some (if first_leg d = Buy then spot_ask s else spot_bid s)))"

definition perp_order :: "'w client \<Rightarrow> ArbDirection \<Rightarrow> pyfloat \<Rightarrow> MarketSnapshot \<Rightarrow> 'w \<Rightarrow> (exn + answer) \<times> 'w" where
  "perp_order cl d q s =
     execute_order cl Perp (symbol s) (opposite (first_leg d)) q (Limit (Some (if first_leg d = Buy then perp_bid s else perp_ask s)))"

text \<open>When the perpetual order is refused after the spot order was filled, the filled spot order is only asked to be cancelled: nothing sells what it
  bought, the caller gets None, and the engine keeps no record of the position.\<close>

theorem refused_perp_leaves_spot:
  assumes "should_execute_arb s = (True, d)" "q = calculate_position_size prec r (symbol s) s" "0 < q" "at_check t - at_start t \<le> 500000"
    "spot_order cl d q s w = (Inr (Success (Some p) (Some fq)), w1)" "perp_order cl d q s w1 = (Inr (Refused msg), w2)"
  shows "execute_arbitrage cl prec r t s g w = (Inr None, counted g, snd (cancel_order cl Spot (symbol s) (new_id t g @ ''_SPOT'') w2))"
  using assms
  by (simp add: execute_arbitrage_def execute_dual_legs_def generate_eq run_leg_def cancel_leg_def new_arb_fields spot_order_def perp_order_def
    MAX_LEG_DELAY_US_def Let_def split: prod.split)

text \<open>When the perpetual order raises instead, the spot position is closed: the last thing the exchange is asked for is a market order over the filled
  quantity on the other side.\<close>

theorem raised_perp_closes_spot:
  assumes "should_execute_arb s = (True, d)" "q = calculate_position_size prec r (symbol s) s" "0 < q" "at_check t - at_start t \<le> 500000"
    "spot_order cl d q s w = (Inr (Success (Some p) (Some fq)), w1)" "perp_order cl d q s w1 = (Inl e, w2)"
    "execute_order cl Spot (symbol s) (opposite (first_leg d)) fq Market w2 = (Inr ans, w3)"
  shows "execute_arbitrage cl prec r t s g w = (Inr None, counted g, w3)"
  using assms
  by (simp add: execute_arbitrage_def execute_dual_legs_def generate_eq run_leg_def new_arb_fields spot_order_def perp_order_def
    MAX_LEG_DELAY_US_def emergency_def emergency_close_def reverse_leg_def Let_def split: prod.split)

text \<open>A spot order that takes more than half a second to fill stays without its hedge: no perpetual order is sent, and the filled order is asked to be
  cancelled.\<close>

theorem slow_spot_unhedged:
  assumes "should_execute_arb s = (True, d)" "q = calculate_position_size prec r (symbol s) s" "0 < q" "500000 < at_check t - at_start t"
    "spot_order cl d q s w = (Inr (Success (Some p) (Some fq)), w1)"
  shows "execute_arbitrage cl prec r t s g w = (Inr None, counted g, snd (cancel_order cl Spot (symbol s) (new_id t g @ ''_SPOT'') w1))"
  using assms
  by (simp add: execute_arbitrage_def execute_dual_legs_def generate_eq run_leg_def cancel_leg_def new_arb_fields spot_order_def
    MAX_LEG_DELAY_US_def Let_def split: prod.split)

section \<open>Profit and closing\<close>

text \<open>The funding part of the profit has the wrong sign for a long perpetual: the trade is entered because the rate is negative and the long side receives,
  and what it receives is subtracted.\<close>

theorem received_funding_subtracted:
  assumes "carries a" "0 \<le> fill_quantity (perp_leg a)" "\<forall>p. fill_price (perp_leg a) = Some p \<longrightarrow> 0 \<le> p" "closed_at a = None" "created_at a \<le> now"
  shows "if direction a = SHORT_SPOT_LONG_PERP then funding_pnl now a \<le> 0 else 0 \<le> funding_pnl now a"
proof -
  let ?p = "case fill_price (perp_leg a) of None \<Rightarrow> 0 | Some p \<Rightarrow> p"
  have p: "0 \<le> fmul (fill_quantity (perp_leg a)) ?p" using assms(2,3) by (auto intro!: fmul_nonneg split: option.split)
  have e: "0 \<le> fdiv (fdiv (elapsed_seconds now a) 3600) 8"
    using assms(4,5) by (simp add: elapsed_seconds_def idiv_def fdiv_def)
  show ?thesis
  proof (cases "direction a")
    case LONG_SPOT_SHORT_PERP
    then have "0 \<le> target_funding_rate a" using assms(1) by (simp add: carries_def)
    then show ?thesis using LONG_SPOT_SHORT_PERP p e by (simp add: funding_pnl_def fmul_nonneg)
  next
    case SHORT_SPOT_LONG_PERP
    then have "target_funding_rate a \<le> 0" using assms(1) by (simp add: carries_def)
    then have "fmul (fmul (fill_quantity (perp_leg a)) ?p) (target_funding_rate a) \<le> 0"
      using p fl_mono[of "fmul (fill_quantity (perp_leg a)) ?p * target_funding_rate a" 0] by (simp add: fmul_def mult_nonneg_nonpos)
    then have "funding_pnl now a \<le> 0"
      using e fl_mono[of "fmul (fmul (fill_quantity (perp_leg a)) ?p) (target_funding_rate a) * fdiv (fdiv (elapsed_seconds now a) 3600) 8" 0]
      by (simp add: funding_pnl_def fmul_def mult_nonpos_nonneg)
    then show ?thesis using SHORT_SPOT_LONG_PERP by simp
  qed
qed

text \<open>A close whose two orders are both refused counts as done: the trade leaves the active ones, is recorded as completed with the profit of the moment,
  and its legs stay open at the exchange.\<close>

theorem refused_close_completes:
  assumes "dict_get (active_arbs g) i = Some a" "reverse_leg cl (spot_leg a) w = (Inr (Refused m), w1)"
    "reverse_leg cl (perp_leg a) w1 = (Inr (Refused m'), w2)"
  shows "\<exists>g1. close_arbitrage cl now now' i s g w = (Inr (fst (calculate_unrealized_pnl now a s)), g1, w2) \<and>
    dict_get (active_arbs g1) i = None \<and> length (completed_arbs g1) = length (completed_arbs g) + 1"
  using assms by (simp add: close_arbitrage_def calculate_unrealized_pnl_def Let_def dict_get_pop)

text \<open>A close whose perpetual order raises leaves the trade active although its spot leg has been sold, so that closing it again sells the spot leg again.\<close>

theorem interrupted_close_repeats:
  assumes "dict_get (active_arbs g) i = Some a" "reverse_leg cl (spot_leg a) w = (Inr ans, w1)" "reverse_leg cl (perp_leg a) w1 = (Inl e, w2)"
  shows "\<exists>g1 b. close_arbitrage cl now now' i s g w = (Inl e, g1, w2) \<and> dict_get (active_arbs g1) i = Some b \<and>
    spot_leg b = spot_leg a \<and> perp_leg b = perp_leg a"
  using assms by (simp add: close_arbitrage_def calculate_unrealized_pnl_def Let_def dict_get_set)

section \<open>Witnesses\<close>

text \<open>An exchange whose world lists what was filled: spot orders fill; a limit order for the perpetual is answered as given.\<close>

type_synonym blotter = "(market \<times> side \<times> pyfloat) list"

definition desk :: "exn + answer \<Rightarrow> blotter client" where
  "desk ans = \<lparr>execute_order = (\<lambda>m s sd q k w.
       if m = Perp then (ans, w) else (Inr (Success (Some 128) (Some q)), w @ [(m, sd, q)])), cancel_order = (\<lambda>m s i w. (Inr False, w))\<rparr>"

definition closed_desk :: "exn + answer \<Rightarrow> blotter client" where
  "closed_desk ans = \<lparr>execute_order = (\<lambda>m s sd q k w. (if m = Perp then ans else Inr (Refused None), w)), cancel_order = (\<lambda>m s i w. (Inr False, w))\<rparr>"

definition demo_snapshot :: MarketSnapshot where
  "demo_snapshot = \<lparr>symbol = ''BTCUSDT'', spot_bid = 128, spot_ask = 128, perp_bid = 129, perp_ask = 129, mark_price = 129, index_price = 128,
     funding_rate = 1, snap_us = 0\<rparr>"

definition demo_moments :: "int \<Rightarrow> moments" where
  "demo_moments d = \<lparr>at_secs = 1, at_spot = 2, at_perp = 3, at_created = 4, at_start = 5, at_check = 5 + d\<rparr>"

definition demo_size :: pyfloat where
  "demo_size = calculate_position_size (\<lambda>_. 0) (risk_init 200000) ''BTCUSDT'' demo_snapshot"

lemma demo_size: "demo_size = 391" "0 < calculate_position_size (\<lambda>_. 0) (risk_init 200000) (symbol demo_snapshot) demo_snapshot"
  by code_simp+

lemma demo_go: "should_execute_arb demo_snapshot = (True, LONG_SPOT_SHORT_PERP)"
  by code_simp

lemma demo_pair: "symbol demo_snapshot = ''BTCUSDT''"
  by (simp add: demo_snapshot_def)

theorem refused_perp_leaves_spot_witness:
  "snd (snd (execute_arbitrage (desk (Inr (Refused None))) (\<lambda>_. 0) (risk_init 200000) (demo_moments 9) demo_snapshot engine_init [])) = [(Spot, Buy, 391)]"
  using refused_perp_leaves_spot[OF demo_go refl demo_size(2), of "demo_moments 9" "desk (Inr (Refused None))" "[]" 128 391 "[(Spot, Buy, 391)]"
      None "[(Spot, Buy, 391)]" engine_init]
  by (simp add: demo_moments_def desk_def spot_order_def perp_order_def first_leg_def demo_size(1)[unfolded demo_size_def] demo_pair)

theorem raised_perp_closes_spot_witness:
  "snd (snd (execute_arbitrage (desk (Inl TimeoutError)) (\<lambda>_. 0) (risk_init 200000) (demo_moments 9) demo_snapshot engine_init [])) =
    [(Spot, Buy, 391), (Spot, Sell, 391)]"
  using raised_perp_closes_spot[OF demo_go refl demo_size(2), of "demo_moments 9" "desk (Inl TimeoutError)" "[]" 128 391 "[(Spot, Buy, 391)]"
      TimeoutError "[(Spot, Buy, 391)]" "Success (Some 128) (Some 391)" "[(Spot, Buy, 391), (Spot, Sell, 391)]" engine_init]
  by (simp add: demo_moments_def desk_def spot_order_def perp_order_def first_leg_def demo_size(1)[unfolded demo_size_def] demo_pair)

theorem slow_spot_unhedged_witness:
  "snd (snd (execute_arbitrage (desk (Inr (Refused None))) (\<lambda>_. 0) (risk_init 200000) (demo_moments 600000) demo_snapshot engine_init [])) =
    [(Spot, Buy, 391)]"
  using slow_spot_unhedged[OF demo_go refl demo_size(2), of "demo_moments 600000" "desk (Inr (Refused None))" "[]" 128 391 "[(Spot, Buy, 391)]" engine_init]
  by (simp add: demo_moments_def desk_def spot_order_def first_leg_def demo_size(1)[unfolded demo_size_def] demo_pair)

definition demo_leg :: "market \<Rightarrow> side \<Rightarrow> OrderLeg" where
  "demo_leg m sd = (new_leg ''L'' m sd ''BTCUSDT'' 2 128 0)\<lparr>status := FILLED, fill_price := Some 128, fill_quantity := 2\<rparr>"

definition demo_arb :: BasisArbitrage where
  "demo_arb = \<lparr>arb_id = ''A'', arb_symbol = ''BTCUSDT'', direction = SHORT_SPOT_LONG_PERP, spot_leg = demo_leg Spot Sell, perp_leg = demo_leg Perp Buy,
     entry_basis_bps = - 20, target_funding_rate = - 1, created_at = 0, closed_at = None, total_pnl = 0, total_fees = 0\<rparr>"

definition demo_engine :: engine where
  "demo_engine = engine_init\<lparr>active_arbs := [(''A'', demo_arb)]\<rparr>"

lemma demo_active: "dict_get (active_arbs demo_engine) ''A'' = Some demo_arb"
  by (simp add: demo_engine_def)

theorem received_funding_subtracted_witness: "funding_pnl 28800000000 demo_arb \<le> 0"
  using received_funding_subtracted[of demo_arb 28800000000]
  by (simp add: demo_arb_def demo_leg_def new_leg_def carries_def is_complete_def)

theorem refused_close_completes_witness:
  "\<exists>g1. close_arbitrage (closed_desk (Inr (Refused None))) 1 2 ''A'' demo_snapshot demo_engine [] =
      (Inr (fst (calculate_unrealized_pnl 1 demo_arb demo_snapshot)), g1, []) \<and>
    dict_get (active_arbs g1) ''A'' = None \<and> length (completed_arbs g1) = 1"
  using refused_close_completes[OF demo_active, of "closed_desk (Inr (Refused None))" "[]" None "[]" None "[]" 1 2 demo_snapshot]
  by (simp add: closed_desk_def reverse_leg_def demo_arb_def demo_leg_def new_leg_def demo_engine_def engine_init_def)

lemma demo_reversed:
  "reverse_leg (closed_desk ans) (spot_leg demo_arb) [] = (Inr (Refused None), [])" "reverse_leg (closed_desk ans) (perp_leg demo_arb) [] = (ans, [])"
  "spot_leg demo_arb = demo_leg Spot Sell"
  by (simp_all add: closed_desk_def reverse_leg_def demo_arb_def demo_leg_def new_leg_def)

theorem interrupted_close_repeats_witness:
  "\<exists>g1 b. close_arbitrage (closed_desk (Inl TimeoutError)) 1 2 ''A'' demo_snapshot demo_engine [] = (Inl TimeoutError, g1, []) \<and>
    dict_get (active_arbs g1) ''A'' = Some b \<and> spot_leg b = demo_leg Spot Sell"
  using interrupted_close_repeats[OF demo_active demo_reversed(1,2), of TimeoutError 1 2 demo_snapshot] demo_reversed(3) by metis

end
