(* ===== verification/ZScoreExecutor.thy ===== *)
theory ZScoreExecutor
  imports Prelude "HOL-Library.List_Lexorder" "HOL-Library.Char_ord"
begin

text \<open>
  \<open>stat_arb/zscore_executor.py\<close>: rolling z-scores of a spread and the pairs trades entered on them.

  The calculator is written over an \<open>arith\<close> record, whose instance \<open>floats\<close> is what the code computes with; the instance \<open>exact\<close> is there to state what the
  incremental formulas stand for. \<open>math.sqrt\<close>, the square \<open>x ** 2\<close> of a float and \<open>Decimal(str(x))\<close> are the functions of a \<open>mathlib\<close> record. The exchange
  client acts on a world \<open>'w\<close>. The two legs that \<open>asyncio.gather\<close> starts place their orders one after the other.
\<close>

section \<open>Calculator\<close>

record arith =
  plus :: "rat \<Rightarrow> rat \<Rightarrow> rat"
  minus :: "rat \<Rightarrow> rat \<Rightarrow> rat"
  times :: "rat \<Rightarrow> rat \<Rightarrow> rat"
  over :: "rat \<Rightarrow> rat \<Rightarrow> rat"

definition floats :: arith where
  "floats = \<lparr>plus = fadd, minus = fsub, times = fmul, over = fdiv\<rparr>"

record mathlib =
  sqrt :: "pyfloat \<Rightarrow> pyfloat"
  square :: "pyfloat \<Rightarrow> pyfloat"
  read_repr :: "pyfloat \<Rightarrow> decimal"

record ZScoreCalculator =
  window_size :: int
  vals :: "rat list"
  mean :: rat
  m2 :: rat
  count :: int

definition calculator_init :: "int \<Rightarrow> ZScoreCalculator" where
  "calculator_init n = \<lparr>window_size = n, vals = [], mean = 0, m2 = 0, count = 0\<rparr>"

text \<open>The oldest value is popped from the list, which raises when the window has size 0.\<close>

definition add_value :: "arith \<Rightarrow> rat \<Rightarrow> ZScoreCalculator \<Rightarrow> (exn + unit) \<times> ZScoreCalculator" where
  "add_value ar v c =
     (let c1 = c\<lparr>count := count c + 1\<rparr>
      in if window_size c \<le> int (length (vals c))
         then
           (case vals c of
              [] \<Rightarrow> (Inl IndexError, c1)
            | old # rest \<Rightarrow>
                (let m = over ar (plus ar (minus ar (times ar (mean c) (of_int (window_size c))) old) v) (of_int (window_size c))
                 in (Inr (), c1\<lparr>vals := rest @ [v], mean := m,
                      m2 := plus ar (m2 c) (times ar (minus ar v old) (plus ar (minus ar v m) (minus ar old (mean c))))\<rparr>)))
         else
           (let d = minus ar v (mean c); m = plus ar (mean c) (over ar d (of_int (count c1)))
            in (Inr (), c1\<lparr>vals := vals c @ [v], mean := m, m2 := plus ar (m2 c) (times ar d (minus ar v m))\<rparr>)))"

definition variance :: "arith \<Rightarrow> ZScoreCalculator \<Rightarrow> rat" where
  "variance ar c = (if length (vals c) < 2 then 0 else over ar (m2 c) (of_int (int (length (vals c)) - 1)))"

text \<open>\<open>math.sqrt\<close> raises for a negative number.\<close>

definition std :: "mathlib \<Rightarrow> ZScoreCalculator \<Rightarrow> exn + pyfloat" where
  "std ml c = (if variance floats c < 0 then Inl ValueError else Inr (sqrt ml (variance floats c)))"

definition z_score :: "mathlib \<Rightarrow> pyfloat \<Rightarrow> ZScoreCalculator \<Rightarrow> exn + pyfloat" where
  "z_score ml v c = bind (std ml c) (\<lambda>sd. Inr (if sd < fl (1 / 10 ^ 10) then 0 else fdiv (fsub v (mean c)) sd))"

definition is_ready :: "ZScoreCalculator \<Rightarrow> bool" where
  "is_ready c \<longleftrightarrow> min 30 (window_size c) \<le> int (length (vals c))"

definition reset :: "ZScoreCalculator \<Rightarrow> ZScoreCalculator" where
  "reset c = c\<lparr>vals := [], mean := 0, m2 := 0, count := 0\<rparr>"

section \<open>Executor\<close>

datatype TradeDirection = LONG_SPREAD | SHORT_SPREAD

datatype trade_status = Open | Closed

record SpreadObservation =
  ob_time :: int
  spread_value :: pyfloat
  ob_z_score :: pyfloat
  rolling_mean :: pyfloat
  rolling_std :: pyfloat

record PairsTrade =
  trade_id :: string
  symbol_a :: string
  symbol_b :: string
  direction :: TradeDirection
  quantity_a :: decimal
  quantity_b :: decimal
  entry_z_score :: pyfloat
  entry_spread :: pyfloat
  entry_price_a :: decimal
  entry_price_b :: decimal
  hedge_ratio :: decimal
  created_at :: int
  closed_at :: "int option"
  exit_z_score :: "pyfloat option"
  exit_spread :: "pyfloat option"
  pnl_usdt :: decimal
  status :: trade_status

text \<open>What the cointegration checker offers: nothing was given, one of the two methods the code looks for, or neither.\<close>

datatype checker =
    No_Checker
  | Can_Trade_Pair "string \<Rightarrow> string \<Rightarrow> exn + bool"
  | Trading_Allowed "exn + bool"
  | Other_Checker

record executor =
  cointegration_checker :: checker
  entry_threshold :: pyfloat
  exit_threshold :: pyfloat
  stop_loss_threshold :: pyfloat
  spread_calculators :: "(string \<times> string, ZScoreCalculator) dict"
  active_trades :: "(string, PairsTrade) dict"
  trade_counter :: int
  total_trades :: int
  winning_trades :: int
  total_pnl :: decimal
  halted_trades :: int

definition executor_init :: "checker \<Rightarrow> pyfloat \<Rightarrow> pyfloat \<Rightarrow> pyfloat \<Rightarrow> executor" where
  "executor_init ch en ex sl = \<lparr>cointegration_checker = ch, entry_threshold = en, exit_threshold = ex, stop_loss_threshold = sl,
     spread_calculators = [], active_trades = [], trade_counter = 0, total_trades = 0, winning_trades = 0, total_pnl = 0, halted_trades = 0\<rparr>"

definition pair_key :: "string \<Rightarrow> string \<Rightarrow> string \<times> string" where
  "pair_key a b = (if b < a then (b, a) else (a, b))"

definition pad6 :: "int \<Rightarrow> string" where
  "pad6 i = (let s = int_str i in replicate (6 - length s) (CHR ''0'') @ s)"

definition generate_trade_id :: "int \<Rightarrow> executor \<Rightarrow> string \<times> executor" where
  "generate_trade_id ns x = (''PS-'' @ int_str ns @ ''-'' @ pad6 (trade_counter x + 1), x\<lparr>trade_counter := trade_counter x + 1\<rparr>)"

definition calculator_of :: "string \<times> string \<Rightarrow> executor \<Rightarrow> ZScoreCalculator" where
  "calculator_of k x = (case dict_get (spread_calculators x) k of None \<Rightarrow> calculator_init 60 | Some c \<Rightarrow> c)"

definition spread_of :: "pyfloat \<Rightarrow> pyfloat \<Rightarrow> pyfloat \<Rightarrow> pyfloat" where
  "spread_of pa pb hr = fsub pa (fmul hr pb)"

definition update_spread ::
    "mathlib \<Rightarrow> int \<Rightarrow> string \<Rightarrow> string \<Rightarrow> pyfloat \<Rightarrow> pyfloat \<Rightarrow> pyfloat \<Rightarrow> executor \<Rightarrow> (exn + SpreadObservation option) \<times> executor" where
  "update_spread ml now a b pa pb hr x =
     (let k = pair_key a b; sp = spread_of pa pb hr; (r, c) = add_value floats sp (calculator_of k x);
          x1 = x\<lparr>spread_calculators := dict_set k c (spread_calculators x)\<rparr>
      in (bind r (\<lambda>_. if \<not> is_ready c then Inr None
            else bind (z_score ml sp c) (\<lambda>z. bind (std ml c) (\<lambda>sd. Inr (Some
                   \<lparr>ob_time = now, spread_value = sp, ob_z_score = z, rolling_mean = mean c, rolling_std = sd\<rparr>)))), x1))"

section \<open>Entering\<close>

record 'w client =
  place_order :: "string \<Rightarrow> string \<Rightarrow> decimal \<Rightarrow> decimal \<Rightarrow> 'w \<Rightarrow> exn option \<times> 'w"

text \<open>A leg never raises: an exception of the client becomes False.\<close>

definition execute_leg :: "'w client \<Rightarrow> string \<Rightarrow> string \<Rightarrow> decimal \<Rightarrow> decimal \<Rightarrow> 'w \<Rightarrow> bool \<times> 'w" where
  "execute_leg cl s sd q p w = (let (e, w1) = place_order cl s sd q p w in (e = None, w1))"

definition leg_sides :: "TradeDirection \<Rightarrow> string \<times> string" where
  "leg_sides d = (case d of LONG_SPREAD \<Rightarrow> (''buy'', ''sell'') | SHORT_SPREAD \<Rightarrow> (''sell'', ''buy''))"

text \<open>\<open>(leg_capital / price).quantize(Decimal('0.0001'), rounding=ROUND_DOWN)\<close>.\<close>

definition leg_quantity :: "decimal \<Rightarrow> decimal \<Rightarrow> exn + decimal" where
  "leg_quantity capital p = (if p = 0 then Inl ZeroDivisionError else quantize_down (1 / 10000) (ddiv (ddiv capital 2) p))"

definition execute_pairs_trade ::
    "'w client \<Rightarrow> int \<Rightarrow> int \<Rightarrow> string \<Rightarrow> string \<Rightarrow> TradeDirection \<Rightarrow> decimal \<Rightarrow> decimal \<Rightarrow> decimal \<Rightarrow> decimal \<Rightarrow> pyfloat \<Rightarrow> pyfloat \<Rightarrow> executor \<Rightarrow> 'w
      \<Rightarrow> PairsTrade option \<times> executor \<times> 'w" where
  "execute_pairs_trade cl ns now a b d pa pb hr capital z sp x w =
     (let (i, x1) = generate_trade_id ns x
      in case bind (leg_quantity capital pa) (\<lambda>qa. bind (leg_quantity capital pb) (\<lambda>qb. Inr (qa, qb))) of
           Inl e \<Rightarrow> (None, x1, w)
         | Inr (qa, qb) \<Rightarrow>
             (let (sa, sb) = leg_sides d; (ra, w1) = execute_leg cl a sa qa pa w; (rb, w2) = execute_leg cl b sb qb pb w1
              in (Some \<lparr>trade_id = i, symbol_a = a, symbol_b = b, direction = d, quantity_a = qa, quantity_b = qb, entry_z_score = z,
                        entry_spread = sp, entry_price_a = pa, entry_price_b = pb, hedge_ratio = hr, created_at = now, closed_at = None,
                        exit_z_score = None, exit_spread = None, pnl_usdt = 0, status = Open\<rparr>, x1, w2)))"

definition check_cointegration_status :: "string \<Rightarrow> string \<Rightarrow> executor \<Rightarrow> bool" where
  "check_cointegration_status a b x =
     (case cointegration_checker x of
        Can_Trade_Pair f \<Rightarrow> (case f a b of Inl e \<Rightarrow> True | Inr r \<Rightarrow> r)
      | Trading_Allowed v \<Rightarrow> (case v of Inl e \<Rightarrow> True | Inr r \<Rightarrow> r)
      | _ \<Rightarrow> True)"

definition enter_trade :: "PairsTrade \<Rightarrow> executor \<Rightarrow> executor" where
  "enter_trade t x = x\<lparr>active_trades := dict_set (trade_id t) t (active_trades x), total_trades := total_trades x + 1\<rparr>"

definition direction_for :: "pyfloat \<Rightarrow> TradeDirection" where
  "direction_for z = (if 0 < z then SHORT_SPREAD else LONG_SPREAD)"

text \<open>\<open>float(price_a) - float(hedge_ratio) * float(price_b)\<close>.\<close>

definition decimal_spread :: "decimal \<Rightarrow> decimal \<Rightarrow> decimal \<Rightarrow> pyfloat" where
  "decimal_spread pa pb hr = spread_of (fl pa) (fl pb) (fl hr)"

definition check_and_execute_trade ::
    "'w client \<Rightarrow> mathlib \<Rightarrow> int \<Rightarrow> int \<Rightarrow> string \<Rightarrow> string \<Rightarrow> decimal \<Rightarrow> decimal \<Rightarrow> decimal \<Rightarrow> decimal \<Rightarrow> executor \<Rightarrow> 'w
      \<Rightarrow> (exn + PairsTrade option) \<times> executor \<times> 'w" where
  "check_and_execute_trade cl ml ns now a b pa pb hr capital x w =
     (if \<not> check_cointegration_status a b x then (Inr None, x\<lparr>halted_trades := halted_trades x + 1\<rparr>, w)
      else
        (case dict_get (spread_calculators x) (pair_key a b) of
           None \<Rightarrow> (Inr None, x, w)
         | Some c \<Rightarrow>
             (if \<not> is_ready c then (Inr None, x, w)
              else
                (let sp = decimal_spread pa pb hr
                 in case z_score ml sp c of
                      Inl e \<Rightarrow> (Inl e, x, w)
                    | Inr z \<Rightarrow>
                        (if \<bar>z\<bar> < entry_threshold x then (Inr None, x, w)
                         else
                           (let (t, x1, w1) = execute_pairs_trade cl ns now a b (direction_for z) pa pb hr capital z sp x w
                            in (Inr t, case t of None \<Rightarrow> x1 | Some y \<Rightarrow> enter_trade y x1, w1)))))))"

section \<open>Exiting\<close>

definition exit_pnl :: "mathlib \<Rightarrow> PairsTrade \<Rightarrow> pyfloat \<Rightarrow> exn + decimal" where
  "exit_pnl ml t z =
     (let change = fsub \<bar>entry_z_score t\<bar> \<bar>z\<bar>; avg = fdiv (fadd (fl (entry_price_a t)) (fl (entry_price_b t))) 2;
          size = sqrt ml (fadd (square ml (fl (quantity_a t))) (square ml (fl (quantity_b t))))
      in quantize_down (1 / 100) (read_repr ml (fmul (fmul change avg) size)))"

text \<open>The answers of the two closing legs are not looked at. The trade is the object in the dictionary, so that what was set on it before an exception
  stays.\<close>

definition close_pairs_trade :: "'w client \<Rightarrow> mathlib \<Rightarrow> int \<Rightarrow> PairsTrade \<Rightarrow> pyfloat \<Rightarrow> pyfloat \<Rightarrow> executor \<Rightarrow> 'w \<Rightarrow> bool \<times> executor \<times> 'w" where
  "close_pairs_trade cl ml now t z sp x w =
     (let (sa, sb) = leg_sides (case direction t of LONG_SPREAD \<Rightarrow> SHORT_SPREAD | SHORT_SPREAD \<Rightarrow> LONG_SPREAD);
          (ra, w1) = execute_leg cl (symbol_a t) sa (quantity_a t) (entry_price_a t) w;
          (rb, w2) = execute_leg cl (symbol_b t) sb (quantity_b t) (entry_price_b t) w1;
          t1 = t\<lparr>closed_at := Some now, exit_z_score := Some z, exit_spread := Some sp\<rparr>
      in case exit_pnl ml t z of
           Inl e \<Rightarrow> (False, x\<lparr>active_trades := dict_set (trade_id t) t1 (active_trades x)\<rparr>, w2)
         | Inr p \<Rightarrow>
             (True, x\<lparr>active_trades := dict_set (trade_id t) (t1\<lparr>pnl_usdt := p, status := Closed\<rparr>) (active_trades x),
                      total_pnl := dadd (total_pnl x) p, winning_trades := (if 0 < p then winning_trades x + 1 else winning_trades x)\<rparr>, w2))"

definition should_exit :: "pyfloat \<Rightarrow> executor \<Rightarrow> bool" where
  "should_exit z x \<longleftrightarrow> \<bar>z\<bar> < exit_threshold x \<or> stop_loss_threshold x < \<bar>z\<bar>"

definition check_exit_conditions :: "'w client \<Rightarrow> mathlib \<Rightarrow> int \<Rightarrow> string \<Rightarrow> executor \<Rightarrow> 'w \<Rightarrow> (exn + bool) \<times> executor \<times> 'w" where
  "check_exit_conditions cl ml now i x w =
     (case dict_get (active_trades x) i of
        None \<Rightarrow> (Inr False, x, w)
      | Some t \<Rightarrow>
          (case dict_get (spread_calculators x) (pair_key (symbol_a t) (symbol_b t)) of
             None \<Rightarrow> (Inr False, x, w)
           | Some c \<Rightarrow>
               (let sp = decimal_spread (entry_price_a t) (entry_price_b t) (hedge_ratio t)
                in case z_score ml sp c of
                     Inl e \<Rightarrow> (Inl e, x, w)
                   | Inr z \<Rightarrow>
                       (if \<not> should_exit z x then (Inr False, x, w)
                        else
                          (let (ok, x1, w1) = close_pairs_trade cl ml now t z sp x w
                           in (Inr ok, if ok then x1\<lparr>active_trades := dict_pop i (active_trades x1)\<rparr> else x1, w1))))))"

definition get_active_trades :: "executor \<Rightarrow> PairsTrade list" where
  "get_active_trades x = dict_values (active_trades x)"

record metrics =
  m_trades :: int
  m_winning :: int
  win_rate :: pyfloat
  m_pnl :: pyfloat
  m_active :: int
  m_halted :: int
  pairs_monitored :: int

definition get_metrics :: "executor \<Rightarrow> metrics" where
  "get_metrics x = \<lparr>m_trades = total_trades x, m_winning = winning_trades x, win_rate = idiv (winning_trades x) (max 1 (total_trades x)),
     m_pnl = fl (total_pnl x), m_active = int (length (active_trades x)), m_halted = halted_trades x,
     pairs_monitored = int (length (spread_calculators x))\<rparr>"


section \<open>What the calculator computes\<close>

definition exact :: arith where
  "exact = \<lparr>plus = (+), minus = (-), times = (*), over = (/)\<rparr>"

definition feed :: "arith \<Rightarrow> rat list \<Rightarrow> ZScoreCalculator \<Rightarrow> ZScoreCalculator" where
  "feed ar xs c = fold (\<lambda>v c. snd (add_value ar v c)) xs c"

definition welford :: "ZScoreCalculator \<Rightarrow> bool" where
  "welford c \<longleftrightarrow> int (length (vals c)) \<le> window_size c \<and> (int (length (vals c)) < window_size c \<longrightarrow> count c = int (length (vals c))) \<and>
     of_nat (length (vals c)) * mean c = sum_list (vals c) \<and> m2 c = sum_list (map (\<lambda>x. x * x) (vals c)) - mean c * sum_list (vals c)"

lemma welford_fill:
  fixes m v m' k :: rat
  assumes "m' = m + (v - m) / (k + 1)" "k + 1 \<noteq> 0" "k * m = s"
  shows "(k + 1) * m' = s + v" "q - m * s + (v - m) * (v - m') = q + v * v - m' * (s + v)"
proof -
  have e: "(k + 1) * m' = k * m + v" using assms(1,2) by (simp add: field_simps)
  then show "(k + 1) * m' = s + v" using assms(3) by simp
  have "(v - m) * (v - m') - m * s - (v * v - m' * (s + v)) = m * ((k + 1) * m' - (k * m + v))"
    unfolding assms(3)[symmetric] by (simp add: algebra_simps)
  then show "q - m * s + (v - m) * (v - m') = q + v * v - m' * (s + v)" using e by simp
qed

lemma welford_roll:
  fixes m v m' k b :: rat
  assumes "m' = (m * k - b + v) / k" "k \<noteq> 0" "k * m = b + r"
  shows "k * m' = r + v" "(b * b + q) - m * (b + r) + (v - b) * ((v - m') + (b - m)) = (q + v * v) - m' * (r + v)"
proof -
  have e: "k * m' = k * m - b + v" using assms(1,2) by (simp add: field_simps)
  then show "k * m' = r + v" using assms(3) by simp
  have x: "(v - b) * ((v - m') + (b - m)) = v * v - b * b - (v - b) * (m' + m)" by (simp add: algebra_simps)
  have "v - b = k * m' - k * m" using e by simp
  then have "(v - b) * (m' + m) = (k * m' - k * m) * (m' + m)" by simp
  also have "\<dots> = k * m' * m' - k * m * m" by (simp add: algebra_simps)
  finally have y: "(v - b) * (m' + m) = k * m' * m' - k * m * m" .
  have s: "b + r = k * m" "r + v = k * m'" using assms(3) e by simp_all
  show "(b * b + q) - m * (b + r) + (v - b) * ((v - m') + (b - m)) = (q + v * v) - m' * (r + v)"
    unfolding x y s by (simp add: algebra_simps)
qed

lemma welford_add:
  assumes "welford c" "0 < window_size c"
  shows "welford (snd (add_value exact v c)) \<and> window_size (snd (add_value exact v c)) = window_size c \<and>
    vals (snd (add_value exact v c)) = (if window_size c \<le> int (length (vals c)) then tl (vals c) @ [v] else vals c @ [v])"
proof (cases "window_size c \<le> int (length (vals c))")
  case True
  then have len: "int (length (vals c)) = window_size c" using assms(1) by (simp add: welford_def)
  then obtain b rest where vals: "vals c = b # rest" using assms(2) by (cases "vals c") auto
  define k :: rat where "k = of_int (window_size c)"
  have k: "k = 1 + of_nat (length rest)" using len vals by (simp add: k_def)
  define m' where "m' = (mean c * k - b + v) / k"
  have h: "k * mean c = b + sum_list rest" "m2 c = b * b + sum_list (map (\<lambda>x. x * x) rest) - mean c * (b + sum_list rest)"
    using assms(1) vals k by (simp_all add: welford_def algebra_simps)
  have "k \<noteq> 0" using assms(2) by (simp add: k_def)
  note r = welford_roll(1)[OF m'_def this h(1)] welford_roll(2)[OF m'_def this h(1), of "sum_list (map (\<lambda>x. x * x) rest)"]
  have "snd (add_value exact v c) = c\<lparr>count := count c + 1, vals := rest @ [v], mean := m',
      m2 := m2 c + (v - b) * ((v - m') + (b - mean c))\<rparr>"
    using True vals by (simp add: add_value_def exact_def Let_def m'_def k_def)
  then show ?thesis using True vals r h(2) k len by (simp add: welford_def)
next
  case False
  define k :: rat where "k = of_nat (length (vals c))"
  have cnt: "of_int (count c + 1) = k + 1" using False assms(1) by (simp add: welford_def k_def)
  define m' where "m' = mean c + (v - mean c) / (k + 1)"
  have "k + 1 \<noteq> 0" unfolding k_def by (metis of_nat_Suc of_nat_eq_0_iff add.commute nat.distinct(1))
  have h: "k * mean c = sum_list (vals c)" "m2 c = sum_list (map (\<lambda>x. x * x) (vals c)) - mean c * sum_list (vals c)"
    using assms(1) by (simp_all add: welford_def k_def)
  note r = welford_fill(1)[OF m'_def \<open>k + 1 \<noteq> 0\<close> h(1)] welford_fill(2)[OF m'_def \<open>k + 1 \<noteq> 0\<close> h(1), of "sum_list (map (\<lambda>x. x * x) (vals c))"]
  have "snd (add_value exact v c) = c\<lparr>count := count c + 1, vals := vals c @ [v], mean := m', m2 := m2 c + (v - mean c) * (v - m')\<rparr>"
    using False cnt by (simp add: add_value_def exact_def Let_def m'_def)
  then show ?thesis using False r h assms(1) by (auto simp: welford_def k_def algebra_simps)
qed

text \<open>C25: Without rounding, the incremental formulas compute what they stand for: after any values, the calculator holds the last \<open>n\<close> of them, their mean, and
  their squared deviations from it.\<close>

theorem welford_is_mean_and_variance:
  fixes xs :: "rat list"
  assumes "0 < n"
  defines "c \<equiv> feed exact xs (calculator_init (int n))"
  shows "vals c = drop (length xs - n) xs \<and> of_nat (length (vals c)) * mean c = sum_list (vals c) \<and>
    m2 c = sum_list (map (\<lambda>x. (x - mean c) * (x - mean c)) (vals c))"
proof -
  have "welford c \<and> window_size c = int n \<and> vals c = drop (length xs - n) xs"
    unfolding c_def feed_def
  proof (induction xs rule: rev_induct)
    case Nil
    then show ?case by (simp add: welford_def calculator_init_def)
  next
    case (snoc v xs)
    let ?c = "fold (\<lambda>v c. snd (add_value exact v c)) xs (calculator_init (int n))"
    have IH: "welford ?c" "window_size ?c = int n" "vals ?c = drop (length xs - n) xs" using snoc by auto
    have "tl (drop (length xs - n) xs) @ [v] = drop (Suc (length xs) - n) (xs @ [v])" if "n \<le> length xs"
      using that assms(1) by (simp add: tl_drop drop_Suc[symmetric] Suc_diff_le)
    then show ?case using welford_add[OF IH(1), of v] IH(2,3) assms(1) by (auto simp: le_diff_conv)
  qed
  then have w: "welford c" "vals c = drop (length xs - n) xs" by auto
  have sq: "sum_list (map (\<lambda>x. (x - m) * (x - m)) ys) = sum_list (map (\<lambda>x. x * x) ys) - 2 * m * sum_list ys + of_nat (length ys) * m * m"
    for m :: rat and ys by (induction ys) (simp_all add: algebra_simps)
  have l: "of_nat (length (vals c)) * mean c = sum_list (vals c)"
    and m: "m2 c = sum_list (map (\<lambda>x. x * x) (vals c)) - mean c * sum_list (vals c)" using w(1) by (simp_all add: welford_def)
  have "m2 c = sum_list (map (\<lambda>x. (x - mean c) * (x - mean c)) (vals c))" unfolding sq l m by (simp add: algebra_simps)
  then show ?thesis using w(2) l by blast
qed

section \<open>Entries and exits\<close>

definition counted :: "executor \<Rightarrow> executor" where
  "counted x = x\<lparr>trade_counter := trade_counter x + 1\<rparr>"

lemma pairs_generate_eq: "\<exists>i. generate_trade_id ns x = (i, counted x)"
  by (simp add: generate_trade_id_def counted_def)

lemma pairs_execute_result:
  assumes "execute_pairs_trade cl ns now a b d pa pb hr capital z sp x w = (r, x1, w1)"
  shows "x1 = counted x \<and> (\<forall>t. r = Some t \<longrightarrow> symbol_a t = a \<and> symbol_b t = b \<and> direction t = d \<and> entry_z_score t = z \<and> entry_price_a t = pa \<and>
    entry_price_b t = pb \<and> hedge_ratio t = hr \<and> status t = Open \<and> closed_at t = None \<and>
    leg_quantity capital pa = Inr (quantity_a t) \<and> leg_quantity capital pb = Inr (quantity_b t))"
  using assms
  by (auto simp: execute_pairs_trade_def generate_trade_id_def counted_def bind_def Let_def split: prod.splits sum.splits)

lemma pairs_check_result:
  assumes "check_and_execute_trade cl ml ns now a b pa pb hr capital x w = (r, x1, w1)"
  obtains "x1 = x \<or> x1 = counted x \<or> x1 = x\<lparr>halted_trades := halted_trades x + 1\<rparr>" "\<forall>t. r \<noteq> Inr (Some t)"
  | t c z where "r = Inr (Some t)" "x1 = enter_trade t (counted x)" "check_cointegration_status a b x"
      "dict_get (spread_calculators x) (pair_key a b) = Some c" "is_ready c" "z_score ml (decimal_spread pa pb hr) c = Inr z"
      "entry_threshold x \<le> \<bar>z\<bar>" "symbol_a t = a" "symbol_b t = b" "direction t = direction_for z" "entry_z_score t = z"
      "entry_price_a t = pa" "entry_price_b t = pb" "hedge_ratio t = hr" "status t = Open" "closed_at t = None"
      "leg_quantity capital pa = Inr (quantity_a t)" "leg_quantity capital pb = Inr (quantity_b t)"
proof -
  let ?sp = "decimal_spread pa pb hr"
  note eq = assms[unfolded check_and_execute_trade_def Let_def]
  consider "\<not> check_cointegration_status a b x" | "check_cointegration_status a b x" "dict_get (spread_calculators x) (pair_key a b) = None"
    | c where "check_cointegration_status a b x" "dict_get (spread_calculators x) (pair_key a b) = Some c" by blast
  then show thesis
  proof cases
    case 3
    show thesis
    proof (cases "is_ready c \<and> (\<exists>z. z_score ml ?sp c = Inr z \<and> entry_threshold x \<le> \<bar>z\<bar>)")
      case True
      then obtain z where z: "is_ready c" "z_score ml ?sp c = Inr z" "entry_threshold x \<le> \<bar>z\<bar>" by blast
      obtain t x2 w2 where ex: "execute_pairs_trade cl ns now a b (direction_for z) pa pb hr capital z ?sp x w = (t, x2, w2)" by (metis prod_cases3)
      have res: "r = Inr t" "x1 = (case t of None \<Rightarrow> x2 | Some y \<Rightarrow> enter_trade y x2)" using eq 3 z ex by auto
      show thesis
      proof (cases t)
        case None
        then show thesis using that(1) res pairs_execute_result[OF ex] by simp
      next
        case (Some y)
        then show thesis using that(2)[of y c z] res pairs_execute_result[OF ex] 3 z by simp
      qed
    next
      case False
      then show thesis using that(1) eq 3 by (auto split: if_splits sum.splits)
    qed
  qed (use that(1) eq in auto)
qed

text \<open>A trade is entered only when the checker did not object, the window is filled far enough and the z-score of the spread of the given prices reaches the
  threshold, against the deviation, with legs worth at most half of the capital each.\<close>

theorem entries_follow_deviation:
  assumes "check_and_execute_trade cl ml ns now a b pa pb hr capital x w = (Inr (Some t), x1, w1)" "0 \<le> capital" "0 < pa" "0 < pb"
  shows "check_cointegration_status a b x \<and> entry_threshold x \<le> \<bar>entry_z_score t\<bar> \<and> (direction t = SHORT_SPREAD \<longleftrightarrow> 0 < entry_z_score t) \<and>
    (\<exists>c. dict_get (spread_calculators x) (pair_key a b) = Some c \<and> is_ready c \<and> z_score ml (decimal_spread pa pb hr) c = Inr (entry_z_score t)) \<and>
    0 \<le> quantity_a t \<and> quantity_a t \<le> ddiv (ddiv capital 2) pa \<and> 0 \<le> quantity_b t \<and> quantity_b t \<le> ddiv (ddiv capital 2) pb"
  using pairs_check_result[OF assms(1)]
proof cases
  case (2 t' c z)
  have q: "0 \<le> q \<and> q \<le> ddiv (ddiv capital 2) p" if "leg_quantity capital p = Inr q" "0 < p" for p q
  proof -
    have "0 \<le> ddiv (ddiv capital 2) p" using assms(2) that(2) by (simp add: ddiv_def)
    then show ?thesis using quantize_down_le[of "1 / 10000" "ddiv (ddiv capital 2) p" q] that by (simp add: leg_quantity_def split: if_splits)
  qed
  show ?thesis using 2 q[of pa "quantity_a t"] q[of pb "quantity_b t"] assms(3,4) by (auto simp: direction_for_def)
qed simp

text \<open>Whether the legs of a trade were accepted makes no difference: with a client that refuses every order the same trade is entered as with one that
  accepts them, and is active.\<close>

theorem refused_legs_entered:
  assumes "check_and_execute_trade cl ml ns now a b pa pb hr capital x w = (Inr (Some t), x1, w1)"
  shows "\<exists>w2. check_and_execute_trade \<lparr>place_order = \<lambda>s sd q p v. (Some (OtherError why), v)\<rparr> ml ns now a b pa pb hr capital x w = (Inr (Some t), x1, w2) \<and>
    dict_get (active_trades x1) (trade_id t) = Some t"
proof -
  let ?no = "\<lparr>place_order = \<lambda>s sd q p v. (Some (OtherError why), v)\<rparr>"
  have ex: "\<exists>w2. execute_pairs_trade ?no ns now a b d pa pb hr capital z sp x w = (r, x1, w2)"
    if "execute_pairs_trade cl ns now a b d pa pb hr capital z sp x w = (r, x1, w1)" for d z sp r x1 w1
    using that by (auto simp: execute_pairs_trade_def Let_def split: prod.splits sum.splits)
  show ?thesis using pairs_check_result[OF assms]
  proof cases
    case (2 t' c z)
    obtain t2 x2 w2 where e: "execute_pairs_trade cl ns now a b (direction_for z) pa pb hr capital z (decimal_spread pa pb hr) x w = (t2, x2, w2)"
      by (metis prod_cases3)
    obtain w3 where e': "execute_pairs_trade ?no ns now a b (direction_for z) pa pb hr capital z (decimal_spread pa pb hr) x w = (t2, x2, w3)"
      using ex[OF e] by blast
    have "(Inr t2 :: exn + PairsTrade option, case t2 of None \<Rightarrow> x2 | Some y \<Rightarrow> enter_trade y x2) = (Inr (Some t), x1)"
      using assms 2 e by (auto simp: check_and_execute_trade_def Let_def)
    then show ?thesis using 2 e' by (auto simp: check_and_execute_trade_def enter_trade_def dict_get_set Let_def)
  qed simp
qed

text \<open>An exit is decided on the prices of the entry: as long as no new spread arrives, the z-score is the one of the entry, so that the trade is never
  closed if that was between the thresholds, and is closed at the first check if it was beyond the stop loss.\<close>

theorem exit_replays_entry:
  assumes "check_and_execute_trade cl ml ns now a b pa pb hr capital x w = (Inr (Some t), x1, w1)" "exit_threshold x \<le> entry_threshold x"
  shows "if \<bar>entry_z_score t\<bar> \<le> stop_loss_threshold x
    then check_exit_conditions cl' ml now' (trade_id t) x1 v = (Inr False, x1, v)
    else \<exists>ok x2 v2. close_pairs_trade cl' ml now' t (entry_z_score t) (decimal_spread pa pb hr) x1 v = (ok, x2, v2) \<and>
      check_exit_conditions cl' ml now' (trade_id t) x1 v = (Inr ok, if ok then x2\<lparr>active_trades := dict_pop (trade_id t) (active_trades x2)\<rparr> else x2, v2)"
  using pairs_check_result[OF assms(1)]
proof cases
  case (2 t' c z)
  have f: "dict_get (active_trades x1) (trade_id t) = Some t" "spread_calculators x1 = spread_calculators x"
    "exit_threshold x1 = exit_threshold x" "stop_loss_threshold x1 = stop_loss_threshold x" "t' = t"
    using 2 by (simp_all add: enter_trade_def counted_def dict_get_set)
  obtain ok x2 v2 where k: "close_pairs_trade cl' ml now' t z (decimal_spread pa pb hr) x1 v = (ok, x2, v2)" by (metis prod_cases3)
  show ?thesis using 2 f k assms(2) by (auto simp: check_exit_conditions_def should_exit_def Let_def)
qed simp

section \<open>Runs\<close>

datatype 'w pairs_op =
    Spread mathlib int string string pyfloat pyfloat pyfloat
  | Check "'w client" mathlib int int string string decimal decimal decimal decimal
  | Exit "'w client" mathlib int string

fun pairs_step :: "'w pairs_op \<Rightarrow> executor \<times> 'w \<Rightarrow> executor \<times> 'w" where
  "pairs_step (Spread ml now a b pa pb hr) (x, w) = (snd (update_spread ml now a b pa pb hr x), w)"
| "pairs_step (Check cl ml ns now a b pa pb hr capital) (x, w) = snd (check_and_execute_trade cl ml ns now a b pa pb hr capital x w)"
| "pairs_step (Exit cl ml now i) (x, w) = snd (check_exit_conditions cl ml now i x w)"

definition pairs_inv :: "executor \<Rightarrow> bool" where
  "pairs_inv x \<longleftrightarrow> wf_dict (active_trades x) \<and> (\<forall>i t. dict_get (active_trades x) i = Some t \<longrightarrow> trade_id t = i \<and> status t = Open) \<and>
     (\<forall>k c. dict_get (spread_calculators x) k = Some c \<longrightarrow> window_size c = 60 \<and> length (vals c) \<le> 60) \<and>
     int (length (active_trades x)) \<le> total_trades x \<and>
     winning_trades x \<le> total_trades x - int (length (active_trades x))"

lemma add_value_window:
  assumes "window_size c = 60" "length (vals c) \<le> 60"
  shows "window_size (snd (add_value ar v c)) = 60 \<and> length (vals (snd (add_value ar v c))) \<le> 60"
  using assms by (auto simp: add_value_def Let_def split: list.split)

lemma enter_pairs_inv:
  assumes "pairs_inv x" "status t = Open"
  shows "pairs_inv (enter_trade t (counted x))"
proof -
  have "length (dict_set (trade_id t) t (active_trades x)) \<le> length (active_trades x) + 1"
    by (simp add: length_dict_set)
  then show ?thesis using assms by (auto simp: pairs_inv_def enter_trade_def counted_def dict_get_set split: if_splits)
qed

lemma close_pairs_inv:
  assumes "pairs_inv x" "dict_get (active_trades x) i = Some t" "close_pairs_trade cl ml now t z sp x w = (ok, x1, w1)"
  shows "pairs_inv (if ok then x1\<lparr>active_trades := dict_pop i (active_trades x1)\<rparr> else x1)"
proof -
  have i: "trade_id t = i" "status t = Open" "i \<in> fst ` set (active_trades x)" "wf_dict (active_trades x)"
    using assms(1,2) by (auto simp: pairs_inv_def map_of_eq_None_iff[symmetric] intro: rev_image_eqI dest: map_of_SomeD)
  have len: "length (dict_set i u (active_trades x)) = length (active_trades x)" for u using i(3) by (simp add: length_dict_set)
  have pos: "0 < length (active_trades x)" using i(3) by auto
  have pop: "int (length (dict_pop i (dict_set i u (active_trades x)))) = int (length (active_trades x)) - 1" for u
    using i(3,4) length_dict_pop[OF wf_dict_set[OF i(4)], of i i u] len[of u] pos by (simp add: dom_update of_nat_diff Suc_leI)
  show ?thesis
  proof (cases "exit_pnl ml t z")
    case (Inl e)
    then have "ok = False" "x1 = x\<lparr>active_trades := dict_set i (t\<lparr>closed_at := Some now, exit_z_score := Some z, exit_spread := Some sp\<rparr>) (active_trades x)\<rparr>"
      using assms(3) i(1) by (auto simp: close_pairs_trade_def Let_def split: prod.splits)
    then show ?thesis using assms(1) i len by (auto simp: pairs_inv_def dict_get_set)
  next
    case (Inr p)
    then obtain u where "ok = True" "active_trades x1 = dict_set i u (active_trades x)" "spread_calculators x1 = spread_calculators x"
      "total_trades x1 = total_trades x" "winning_trades x1 \<le> winning_trades x + 1"
      using assms(3) i(1) by (auto simp: close_pairs_trade_def Let_def split: prod.splits)
    then show ?thesis using assms(1) i(4) pop[of u] unfolding pairs_inv_def by (simp add: dict_get_set dict_get_pop)
  qed
qed

lemma exit_result:
  assumes "check_exit_conditions cl ml now i x w = (r, x1, w1)"
  shows "x1 = x \<or> (\<exists>t z sp ok x2. dict_get (active_trades x) i = Some t \<and> close_pairs_trade cl ml now t z sp x w = (ok, x2, w1) \<and>
    x1 = (if ok then x2\<lparr>active_trades := dict_pop i (active_trades x2)\<rparr> else x2))"
  using assms by (auto simp: check_exit_conditions_def Let_def split: option.splits sum.splits prod.splits if_splits)

lemma pairs_step_inv:
  assumes "pairs_inv (fst xw)"
  shows "pairs_inv (fst (pairs_step op xw))"
proof -
  obtain x w where xw: "xw = (x, w)" by fastforce
  then have x: "pairs_inv x" using assms by simp
  show ?thesis
  proof (cases op)
    case (Spread ml now a b pa pb hr)
    have "window_size (calculator_of k x) = 60 \<and> length (vals (calculator_of k x)) \<le> 60" for k
      using x unfolding pairs_inv_def by (cases k; cases "dict_get (spread_calculators x) k") (simp_all add: calculator_of_def calculator_init_def)
    then have "window_size (snd (add_value floats v (calculator_of k x))) = 60 \<and> length (vals (snd (add_value floats v (calculator_of k x)))) \<le> 60"
      for k v by (intro add_value_window) auto
    then show ?thesis using Spread x xw
      by (auto simp: update_spread_def Let_def pairs_inv_def dict_get_set split: prod.split if_splits) (metis snd_conv)+
  next
    case (Check cl ml ns now a b pa pb hr capital)
    obtain r x1 w1 where k: "check_and_execute_trade cl ml ns now a b pa pb hr capital x w = (r, x1, w1)" by (metis prod_cases3)
    have "pairs_inv x1" using pairs_check_result[OF k]
    proof cases
      case 1
      then show ?thesis using x by (auto simp: pairs_inv_def counted_def)
    qed (simp add: enter_pairs_inv x)
    then show ?thesis using Check k xw by simp
  next
    case (Exit cl ml now i)
    obtain r x1 w1 where k: "check_exit_conditions cl ml now i x w = (r, x1, w1)" by (metis prod_cases3)
    have "pairs_inv x1" using exit_result[OF k]
    proof (elim disjE exE conjE)
      fix t z sp ok x2
      assume "dict_get (active_trades x) i = Some t" "close_pairs_trade cl ml now t z sp x w = (ok, x2, w1)"
        and x1: "x1 = (if ok then x2\<lparr>active_trades := dict_pop i (active_trades x2)\<rparr> else x2)"
      then show ?thesis unfolding x1 by (intro close_pairs_inv[OF x])
    qed (simp add: x)
    then show ?thesis using Exit k xw by simp
  qed
qed

interpretation pairs: op_machine pairs_step "\<lambda>xw. pairs_inv (fst xw)"
  by unfold_locales (rule pairs_step_inv)

text \<open>In every run the active trades are open and stored under their own ids, windows hold at most 60 spreads, and the winning trades are among those that
  were entered and have left.\<close>

theorem pairs_run_invariant: "pairs_inv (fst (fold pairs_step ops (executor_init ch en ex sl, w)))"
  by (rule pairs.run_inv) (simp add: pairs_inv_def executor_init_def)

section \<open>Witnesses\<close>

definition demo_math :: mathlib where
  "demo_math = \<lparr>sqrt = (\<lambda>x. 1), square = (\<lambda>x. x), read_repr = (\<lambda>x. x)\<rparr>"

definition demo_calculator :: ZScoreCalculator where
  "demo_calculator = \<lparr>window_size = 60, vals = replicate 30 0, mean = 0, m2 = 29, count = 30\<rparr>"

definition demo_executor :: executor where
  "demo_executor = (executor_init No_Checker 2 (1 / 2) 4)\<lparr>spread_calculators := [((''A'', ''B''), demo_calculator)]\<rparr>"

definition accepting :: "unit client" where
  "accepting = \<lparr>place_order = \<lambda>s sd q p w. (None, w)\<rparr>"

definition demo_trade :: PairsTrade where
  "demo_trade = \<lparr>trade_id = ''PS-1-000001'', symbol_a = ''A'', symbol_b = ''B'', direction = SHORT_SPREAD, quantity_a = 25 / 2, quantity_b = 50,
     entry_z_score = 3, entry_spread = 3, entry_price_a = 4, entry_price_b = 1, hedge_ratio = 1, created_at = 2, closed_at = None,
     exit_z_score = None, exit_spread = None, pnl_usdt = 0, status = Open\<rparr>"

lemma demo_z: "z_score demo_math (decimal_spread 4 1 1) demo_calculator = Inr 3"
proof -
  have t: "fl (1 / 10 ^ 10) < 1" by code_simp
  have "variance floats demo_calculator = 1" by (simp add: variance_def demo_calculator_def floats_def fdiv_def)
  then show ?thesis using t
    by (simp add: z_score_def std_def demo_math_def demo_calculator_def decimal_spread_def spread_of_def fsub_def fmul_def fdiv_def)
qed

lemma demo_legs: "leg_quantity 100 4 = Inr (25 / 2)" "leg_quantity 100 1 = Inr 50"
  by code_simp+

lemma demo_id: "fst (generate_trade_id 1 demo_executor) = ''PS-1-000001''"
  by code_simp

lemma demo_ready: "is_ready demo_calculator" "spread_calculators demo_executor = [((''A'', ''B''), demo_calculator)]" "entry_threshold demo_executor = 2"
  "cointegration_checker demo_executor = No_Checker" "pair_key ''A'' ''B'' = (''A'', ''B'')"
  by (simp_all add: is_ready_def demo_calculator_def demo_executor_def executor_init_def pair_key_def)

lemma demo_spread: "decimal_spread 4 1 1 = 3"
  by (simp add: decimal_spread_def spread_of_def fsub_def fmul_def)

lemma demo_check: "fst (check_and_execute_trade accepting demo_math 1 2 ''A'' ''B'' 4 1 1 100 demo_executor ()) = Inr (Some demo_trade)"
proof -
  obtain x1 where g: "generate_trade_id 1 demo_executor = (''PS-1-000001'', x1)" using demo_id(1) by (cases "generate_trade_id 1 demo_executor") simp
  show ?thesis
    by (simp add: check_and_execute_trade_def check_cointegration_status_def demo_ready demo_z[unfolded demo_spread] demo_spread execute_pairs_trade_def g demo_legs
      direction_for_def leg_sides_def execute_leg_def accepting_def demo_trade_def Let_def)
qed

lemma demo_check_result:
  obtains x1 where "check_and_execute_trade accepting demo_math 1 2 ''A'' ''B'' 4 1 1 100 demo_executor () = (Inr (Some demo_trade), x1, ())"
  using demo_check by (cases "check_and_execute_trade accepting demo_math 1 2 ''A'' ''B'' 4 1 1 100 demo_executor ()") simp

lemma demo_thresholds: "exit_threshold demo_executor \<le> entry_threshold demo_executor" "stop_loss_threshold demo_executor = 4" "entry_threshold demo_executor = 2"
  "entry_z_score demo_trade = 3" "quantity_a demo_trade = 25 / 2" "trade_id demo_trade = ''PS-1-000001''"
  by (simp_all add: demo_executor_def executor_init_def demo_trade_def)

theorem welford_is_mean_and_variance_witness:
  "vals (feed exact [5, 1, 2, 3] (calculator_init 3)) = [1, 2, 3] \<and> 3 * mean (feed exact [5, 1, 2, 3] (calculator_init 3)) = 6"
proof -
  have p: "0 < (3 :: nat)" by simp
  note f = welford_is_mean_and_variance[OF p, of "[5, 1, 2, 3]", unfolded of_nat_numeral]
  have w: "vals (feed exact [5, 1, 2, 3] (calculator_init 3)) = [1, 2, 3]" using conjunct1[OF f] by simp
  show ?thesis using conjunct1[OF conjunct2[OF f]] unfolding w by simp
qed

theorem entries_follow_deviation_witness: "2 \<le> \<bar>entry_z_score demo_trade\<bar> \<and> 0 \<le> quantity_a demo_trade \<and> check_cointegration_status ''A'' ''B'' demo_executor"
proof -
  obtain x1 where "check_and_execute_trade accepting demo_math 1 2 ''A'' ''B'' 4 1 1 100 demo_executor () = (Inr (Some demo_trade), x1, ())"
    by (rule demo_check_result)
  from entries_follow_deviation[OF this] show ?thesis using demo_thresholds(3) by simp
qed

theorem refused_legs_entered_witness:
  "\<exists>x1. check_and_execute_trade \<lparr>place_order = \<lambda>s sd q p v. (Some (OtherError ''refused''), v)\<rparr> demo_math 1 2 ''A'' ''B'' 4 1 1 100 demo_executor () =
      (Inr (Some demo_trade), x1, ()) \<and> dict_get (active_trades x1) ''PS-1-000001'' = Some demo_trade"
proof -
  obtain x1 where "check_and_execute_trade accepting demo_math 1 2 ''A'' ''B'' 4 1 1 100 demo_executor () = (Inr (Some demo_trade), x1, ())"
    by (rule demo_check_result)
  from refused_legs_entered[OF this, of "''refused''"] show ?thesis using demo_thresholds(6) by auto
qed

theorem exit_replays_entry_witness:
  "\<exists>x1. fst (snd (check_and_execute_trade accepting demo_math 1 2 ''A'' ''B'' 4 1 1 100 demo_executor ())) = x1 \<and>
    check_exit_conditions accepting demo_math 900 ''PS-1-000001'' x1 () = (Inr False, x1, ())"
proof -
  obtain x1 where k: "check_and_execute_trade accepting demo_math 1 2 ''A'' ''B'' 4 1 1 100 demo_executor () = (Inr (Some demo_trade), x1, ())"
    by (rule demo_check_result)
  from exit_replays_entry[OF this demo_thresholds(1), of accepting 900 "()"] show ?thesis using k demo_thresholds by simp
qed

end
