(* ===== verification/DoCalculus.thy ===== *)
theory DoCalculus
  imports Prelude "HOL-Library.List_Lexorder" "HOL-Library.Char_ord"
begin

text \<open>
  \<open>causal/do_calculus.py\<close>: causal graphs, adjustment sets, and the do-calculus engine.

  A Python set is the list of its elements in the order in which it is enumerated, without repetitions; a set that is built keeps the order of the
  insertions, and what is proved is about the elements. The formulas and reasons the code formats as text are data types.
\<close>

section \<open>Sets\<close>

type_synonym names = "string list"

definition add :: "'a \<Rightarrow> 'a list \<Rightarrow> 'a list" where
  "add x xs = (if x \<in> set xs then xs else xs @ [x])"

definition join :: "'a list \<Rightarrow> 'a list \<Rightarrow> 'a list" where
  "join xs ys = fold add ys xs"

definition meet :: "'a list \<Rightarrow> 'a list \<Rightarrow> 'a list" where
  "meet xs ys = filter (\<lambda>x. x \<in> set ys) xs"

definition without :: "'a list \<Rightarrow> 'a list \<Rightarrow> 'a list" where
  "without xs ys = filter (\<lambda>x. x \<notin> set ys) xs"

lemma set_add [simp]: "set (add x xs) = insert x (set xs)"
  by (auto simp: add_def)

lemma set_join [simp]: "set (join xs ys) = set xs \<union> set ys"
  by (induction ys arbitrary: xs) (auto simp: join_def)

lemma set_meet [simp]: "set (meet xs ys) = set xs \<inter> set ys" and set_without [simp]: "set (without xs ys) = set xs - set ys"
  by (auto simp: meet_def without_def)

section \<open>Graph\<close>

datatype CausalGraphType = DIRECTED | BIDIRECTED | UNDIRECTED

datatype Edge = Edge (source: string) (target: string) (edge_type: CausalGraphType)

record graph =
  nodes :: names
  edges :: "Edge list"
  adjacency :: "(string, names) dict"
  reverse_adjacency :: "(string, names) dict"
  confounded_pairs :: "string set list"
  observed :: names
  unobserved :: names

definition graph_init :: graph where
  "graph_init = \<lparr>nodes = [], edges = [], adjacency = [], reverse_adjacency = [], confounded_pairs = [], observed = [], unobserved = []\<rparr>"

definition add_node :: "string \<Rightarrow> bool \<Rightarrow> graph \<Rightarrow> graph" where
  "add_node n ob g =
     (let g1 = g\<lparr>nodes := add n (nodes g)\<rparr>
      in if ob then g1\<lparr>observed := add n (observed g)\<rparr> else g1\<lparr>unobserved := add n (unobserved g)\<rparr>)"

definition neighbours :: "(string, names) dict \<Rightarrow> string \<Rightarrow> names" where
  "neighbours d n = (case dict_get d n of None \<Rightarrow> [] | Some xs \<Rightarrow> xs)"

definition add_directed_edge :: "string \<Rightarrow> string \<Rightarrow> graph \<Rightarrow> graph" where
  "add_directed_edge s t g =
     g\<lparr>nodes := add t (add s (nodes g)), edges := add (Edge s t DIRECTED) (edges g),
       adjacency := dict_set s (add t (neighbours (adjacency g) s)) (adjacency g),
       reverse_adjacency := dict_set t (add s (neighbours (reverse_adjacency g) t)) (reverse_adjacency g)\<rparr>"

definition add_bidirected_edge :: "string \<Rightarrow> string \<Rightarrow> graph \<Rightarrow> graph" where
  "add_bidirected_edge a b g =
     g\<lparr>nodes := add b (add a (nodes g)), edges := add (Edge a b BIDIRECTED) (edges g), confounded_pairs := add {a, b} (confounded_pairs g)\<rparr>"

definition get_parents :: "graph \<Rightarrow> string \<Rightarrow> names" where
  "get_parents g n = neighbours (reverse_adjacency g) n"

definition get_children :: "graph \<Rightarrow> string \<Rightarrow> names" where
  "get_children g n = neighbours (adjacency g) n"

text \<open>One round of the loop adds the neighbours of what was there when it began; it ends after a round that adds nothing.\<close>

definition grow :: "(string, names) dict \<Rightarrow> names \<Rightarrow> names" where
  "grow d ns = fold (\<lambda>n acc. join acc (neighbours d n)) ns ns"

lemma set_grow: "set (grow d ns) = set ns \<union> (\<Union>n \<in> set ns. set (neighbours d n))"
proof -
  have "set (fold (\<lambda>n acc. join acc (neighbours d n)) xs acc) = set acc \<union> (\<Union>n \<in> set xs. set (neighbours d n))" for xs acc
    by (induction xs arbitrary: acc) auto
  then show ?thesis by (simp add: grow_def)
qed

lemma grow_same: "set (grow d ns) = set ns \<Longrightarrow> grow d ns = ns"
proof -
  assume "set (grow d ns) = set ns"
  then have sub: "\<forall>n \<in> set ns. set (neighbours d n) \<subseteq> set ns" by (auto simp: set_grow)
  have j: "join acc ys = acc" if "set ys \<subseteq> set acc" for acc ys :: names
    using that by (induction ys) (auto simp: join_def add_def)
  have "fold (\<lambda>n acc. join acc (neighbours d n)) xs ns = ns" if "set xs \<subseteq> set ns" for xs
    using that sub j by (induction xs) auto
  then show ?thesis by (simp add: grow_def)
qed

lemma neighbours_values: "set (neighbours d n) \<subseteq> set (concat (dict_values d))"
  by (cases "dict_get d n") (force simp: neighbours_def dest: map_of_SomeD)+

function closure :: "(string, names) dict \<Rightarrow> names \<Rightarrow> names" where
  "closure d ns = (let ns1 = grow d ns in if ns1 = ns then ns else closure d ns1)"
  by auto
termination
proof (relation "measure (\<lambda>(d, ns). card (set (concat (dict_values d)) - set ns))")
  fix d :: "(string, names) dict" and ns x
  assume x: "x = grow d ns" "x \<noteq> ns"
  then have "set x \<noteq> set ns" using grow_same by blast
  then obtain y where y: "y \<in> set x" "y \<notin> set ns" using x(1) by (auto simp: set_grow)
  then have "y \<in> set (concat (dict_values d))" using x(1) neighbours_values[of d] by (auto simp: set_grow)
  moreover have "set ns \<subseteq> set x" using x(1) by (auto simp: set_grow)
  ultimately have "set (concat (dict_values d)) - set x \<subset> set (concat (dict_values d)) - set ns" using y by blast
  then show "((d, x), d, ns) \<in> measure (\<lambda>(d, ns). card (set (concat (dict_values d)) - set ns))"
    by (simp add: psubset_card_mono)
qed simp

declare closure.simps [simp del]

definition get_ancestors :: "graph \<Rightarrow> names \<Rightarrow> names" where
  "get_ancestors g ns = closure (reverse_adjacency g) ns"

definition get_descendants :: "graph \<Rightarrow> names \<Rightarrow> names" where
  "get_descendants g ns = closure (adjacency g) ns"

definition is_ancestor :: "graph \<Rightarrow> string \<Rightarrow> string \<Rightarrow> bool" where
  "is_ancestor g a d \<longleftrightarrow> a \<in> set (get_ancestors g [d])"

section \<open>Paths\<close>

definition index_of :: "string \<Rightarrow> names \<Rightarrow> nat" where
  "index_of n path = length (takeWhile (\<lambda>x. x \<noteq> n) path)"

definition is_collider :: "graph \<Rightarrow> string \<Rightarrow> names \<Rightarrow> bool" where
  "is_collider g n path =
     (let i = index_of n path
      in if n \<notin> set path \<or> length path < 3 then False
         else if i = 0 \<or> i = length path - 1 then False
         else n \<in> set (neighbours (adjacency g) (path ! (i - 1))) \<and> n \<in> set (neighbours (adjacency g) (path ! (i + 1))))"

definition is_collider_on_path :: "graph \<Rightarrow> string \<Rightarrow> names \<Rightarrow> bool" where
  "is_collider_on_path g n path =
     (let i = index_of n path
      in if n \<notin> set path \<or> length path < 3 then False
         else if i = 0 \<or> i = length path - 1 then False
         else n \<in> set (neighbours (adjacency g) (path ! (i - 1))) \<and> n \<in> set (neighbours (adjacency g) (path ! (i + 1))))"

definition around :: "graph \<Rightarrow> string \<Rightarrow> names" where
  "around g n = join (neighbours (adjacency g) n) (neighbours (reverse_adjacency g) n)"

text \<open>\<open>path\<close> and \<open>visited\<close> are extended before the recursive call and restored after it.\<close>

function dfs :: "graph \<Rightarrow> string \<Rightarrow> names \<Rightarrow> nat \<Rightarrow> string \<Rightarrow> names \<Rightarrow> names \<Rightarrow> names list" where
  "dfs g end_node ex max_length cur path visited =
     (if max_length < length path then []
      else if cur = end_node then [path]
      else concat (map (\<lambda>n. dfs g end_node ex max_length n (path @ [n]) (add n visited))
             (filter (\<lambda>n. n \<notin> set visited \<and> n \<notin> set ex) (around g cur))))"
  by auto
termination by (relation "measure (\<lambda>(g, e, ex, ml, cur, path, visited). Suc ml - length path)") auto

declare dfs.simps [simp del]

definition find_all_paths :: "graph \<Rightarrow> string \<Rightarrow> string \<Rightarrow> names \<Rightarrow> nat \<Rightarrow> names list" where
  "find_all_paths g s e ex max_length = dfs g e ex max_length s [s] [s]"

text \<open>The parent stands twice at the beginning of a backdoor path.\<close>

definition find_backdoor_paths :: "graph \<Rightarrow> string \<Rightarrow> string \<Rightarrow> names list" where
  "find_backdoor_paths g t y = concat (map (\<lambda>p. map (\<lambda>q. p # q) (find_all_paths g p y [t] 10)) (get_parents g t))"

definition blocks_at :: "graph \<Rightarrow> names \<Rightarrow> names \<Rightarrow> string \<Rightarrow> bool" where
  "blocks_at g path z n =
     (if is_collider_on_path g n path then \<not> (n \<in> set z \<or> meet z (get_descendants g [n]) \<noteq> []) else n \<in> set z)"

definition is_path_blocked :: "graph \<Rightarrow> names \<Rightarrow> names \<Rightarrow> string \<Rightarrow> bool" where
  "is_path_blocked g path z t = list_ex (\<lambda>n. n \<noteq> t \<and> blocks_at g path z n) path"

datatype reason = Descendant string | Open_Path names | Valid

definition is_valid_adjustment_set :: "graph \<Rightarrow> string \<Rightarrow> string \<Rightarrow> names \<Rightarrow> bool \<times> reason" where
  "is_valid_adjustment_set g t y z =
     (case List.find (\<lambda>n. n \<in> set (without (get_descendants g [t]) [t])) z of
        Some n \<Rightarrow> (False, Descendant n)
      | None \<Rightarrow>
          (case List.find (\<lambda>p. \<not> is_path_blocked g p z t) (find_backdoor_paths g t y) of
             Some p \<Rightarrow> (False, Open_Path p)
           | None \<Rightarrow> (True, Valid)))"

section \<open>Engine\<close>

fun comma_list :: "names \<Rightarrow> string" where
  "comma_list [] = []"
| "comma_list [n] = n"
| "comma_list (n # ns) = n @ '', '' @ comma_list ns"

datatype formula =
    Trivial
  | Sum_Given string string string string
  | Sum_Over string string string
  | Plain string string
  | Frontdoor string string string
  | Not_Identifiable

definition backdoor_formula :: "string \<Rightarrow> string \<Rightarrow> names \<Rightarrow> names \<Rightarrow> formula" where
  "backdoor_formula t y z ev =
     (let a = comma_list (sort z); e = comma_list (sort ev)
      in if a \<noteq> [] \<and> e \<noteq> [] then Sum_Given y t a e else if a \<noteq> [] then Sum_Over y t a else Plain y t)"

definition frontdoor_formula :: "string \<Rightarrow> string \<Rightarrow> names \<Rightarrow> formula" where
  "frontdoor_formula t y ms = Frontdoor y t (comma_list (sort ms))"

definition candidates :: "graph \<Rightarrow> string \<Rightarrow> string \<Rightarrow> names \<Rightarrow> names" where
  "candidates g t y ev = sort (without (without (without (observed g) [t, y]) ev) (get_descendants g [t]))"

definition find_backdoor_adjustment :: "graph \<Rightarrow> string \<Rightarrow> string \<Rightarrow> names \<Rightarrow> names option" where
  "find_backdoor_adjustment g t y ev =
     (let ps = meet (get_parents g t) (observed g)
      in if fst (is_valid_adjustment_set g t y ps) then Some (without ps ev)
         else map_option (\<lambda>c. add c ps) (List.find (\<lambda>c. fst (is_valid_adjustment_set g t y (add c ps))) (candidates g t y ev)))"

definition find_frontdoor_adjustment :: "graph \<Rightarrow> string \<Rightarrow> string \<Rightarrow> names option" where
  "find_frontdoor_adjustment g t y =
     map_option (\<lambda>m. [m]) (List.find (\<lambda>m. m \<noteq> y \<and> find_backdoor_paths g t m = []) (get_children g t))"

definition identify_causal_effect :: "graph \<Rightarrow> string \<Rightarrow> string \<Rightarrow> names \<Rightarrow> bool \<times> formula \<times> names option" where
  "identify_causal_effect g t y ev =
     (if t = y then (True, Trivial, Some [])
      else
        (case find_backdoor_adjustment g t y ev of
           Some z \<Rightarrow> (True, backdoor_formula t y z ev, Some z)
         | None \<Rightarrow>
             (case find_frontdoor_adjustment g t y of
                Some m \<Rightarrow> (True, frontdoor_formula t y m, Some m)
              | None \<Rightarrow> (False, Not_Identifiable, None))))"

definition copy_edge :: "names \<Rightarrow> names \<Rightarrow> Edge \<Rightarrow> graph \<Rightarrow> graph" where
  "copy_edge ins outs e g =
     (case edge_type e of
        DIRECTED \<Rightarrow> if target e \<in> set ins then g else if source e \<in> set outs then g else add_directed_edge (source e) (target e) g
      | BIDIRECTED \<Rightarrow> add_bidirected_edge (source e) (target e) g
      | UNDIRECTED \<Rightarrow> g)"

definition mutilate_graph :: "names \<Rightarrow> names \<Rightarrow> graph \<Rightarrow> graph" where
  "mutilate_graph ins outs g =
     fold (copy_edge ins outs) (edges g) (fold (\<lambda>n. add_node n (n \<in> set (observed g))) (nodes g) graph_init)"

text \<open>The method of the engine is a placeholder; the rules call a method of that name on the graph, which has none.\<close>

definition check_d_separation :: "names \<Rightarrow> names \<Rightarrow> names \<Rightarrow> bool" where
  "check_d_separation xs ys zs = True"

definition graph_check_d_separation :: "graph \<Rightarrow> names \<Rightarrow> names \<Rightarrow> names \<Rightarrow> exn + bool" where
  "graph_check_d_separation g xs ys zs = Inl (OtherError ''AttributeError'')"

definition apply_do_rule_1 :: "graph \<Rightarrow> names \<Rightarrow> string \<Rightarrow> names \<Rightarrow> names \<Rightarrow> exn + bool" where
  "apply_do_rule_1 g q t cond rm = graph_check_d_separation (mutilate_graph [t] [] g) q rm (join [t] (without cond rm))"

definition apply_do_rule_2 :: "graph \<Rightarrow> names \<Rightarrow> string \<Rightarrow> string \<Rightarrow> names \<Rightarrow> exn + bool" where
  "apply_do_rule_2 g q t v cond = graph_check_d_separation (mutilate_graph [t] [v] g) q [v] (join [t] cond)"

definition apply_do_rule_3 :: "graph \<Rightarrow> names \<Rightarrow> string \<Rightarrow> string \<Rightarrow> names \<Rightarrow> exn + bool" where
  "apply_do_rule_3 g q t v cond = graph_check_d_separation (mutilate_graph [t, v] [] g) q [v] (join [t] cond)"

text \<open>The node at which a collider would be opened, or None when the intervention is taken to be safe.\<close>

definition opens_collider :: "graph \<Rightarrow> string \<Rightarrow> string \<Rightarrow> string \<Rightarrow> bool" where
  "opens_collider g x y n \<longleftrightarrow>
     n \<noteq> x \<and> list_ex (\<lambda>p. is_collider_on_path g n p \<and> x \<in> set (get_descendants g [n])) (find_all_paths g x y [] 10)"

definition prevent_collider_intervention :: "graph \<Rightarrow> string \<Rightarrow> string \<Rightarrow> bool \<times> string option" where
  "prevent_collider_intervention g x y =
     (case List.find (opens_collider g x y) (nodes g) of None \<Rightarrow> (True, None) | Some n \<Rightarrow> (False, Some n))"


section \<open>Reachability\<close>

definition arrows :: "(string, names) dict \<Rightarrow> (string \<times> string) set" where
  "arrows d = {(a, b). b \<in> set (neighbours d a)}"

lemma set_closure: "set (closure d ns) = {y. \<exists>x \<in> set ns. (x, y) \<in> (arrows d)\<^sup>*}"
proof (induction d ns rule: closure.induct)
  case (1 d ns)
  show ?case
  proof (cases "grow d ns = ns")
    case True
    have "y \<in> set ns" if "x \<in> set ns" "(x, y) \<in> (arrows d)\<^sup>*" for x y
      using that(2,1)
    proof (induction rule: rtrancl_induct)
      case (step y z)
      then have "z \<in> set (grow d ns)" by (auto simp: set_grow arrows_def)
      then show ?case using True by simp
    qed
    then show ?thesis using True by (subst closure.simps) auto
  next
    case False
    then have "set (closure d ns) = set (closure d (grow d ns))" by (subst closure.simps) (simp add: Let_def)
    also have "\<dots> = {y. \<exists>x \<in> set (grow d ns). (x, y) \<in> (arrows d)\<^sup>*}" using 1 False by simp
    also have "\<dots> = {y. \<exists>x \<in> set ns. (x, y) \<in> (arrows d)\<^sup>*}"
      by (auto simp: set_grow arrows_def intro: converse_rtrancl_into_rtrancl)
    finally show ?thesis .
  qed
qed

definition causes :: "graph \<Rightarrow> (string \<times> string) set" where
  "causes g = arrows (adjacency g)"

text \<open>What the operations keep: the two adjacencies are each other's converse, and run between nodes of the graph.\<close>

definition graph_inv :: "graph \<Rightarrow> bool" where
  "graph_inv g \<longleftrightarrow> arrows (reverse_adjacency g) = (arrows (adjacency g))\<inverse> \<and> arrows (adjacency g) \<subseteq> set (nodes g) \<times> set (nodes g)"

datatype graph_op = Node string bool | Directed string string | Bidirected string string

fun graph_step :: "graph_op \<Rightarrow> graph \<Rightarrow> graph" where
  "graph_step (Node n ob) g = add_node n ob g"
| "graph_step (Directed s t) g = add_directed_edge s t g"
| "graph_step (Bidirected a b) g = add_bidirected_edge a b g"

lemma arrows_set: "arrows (dict_set s (add t (neighbours d s)) d) = insert (s, t) (arrows d)"
  by (auto simp: arrows_def neighbours_def dict_get_set split: option.splits if_splits)

lemma graph_step_inv: "graph_inv g \<Longrightarrow> graph_inv (graph_step op g)"
  by (cases op) (auto simp: graph_inv_def add_node_def add_directed_edge_def add_bidirected_edge_def arrows_set Let_def)

interpretation building: op_machine graph_step graph_inv
  by unfold_locales (rule graph_step_inv)

lemma built_inv: "graph_inv (fold graph_step ops graph_init)"
  by (rule building.run_inv) (simp add: graph_inv_def graph_init_def arrows_def neighbours_def)

text \<open>C24: In every graph that is built by its operations the loops end, and give what they are meant to: the descendants of a set are the nodes that can be reached
  from it, the ancestors those from which it can be reached, and the two are dual.\<close>

theorem closures_are_reachability:
  fixes ops :: "graph_op list"
  defines "g \<equiv> fold graph_step ops graph_init"
  shows "set (get_descendants g ns) = (causes g)\<^sup>* `` set ns \<and> set (get_ancestors g ns) = ((causes g)\<inverse>)\<^sup>* `` set ns \<and>
    (is_ancestor g a d \<longleftrightarrow> d \<in> set (get_descendants g [a]))"
proof -
  have inv: "arrows (reverse_adjacency g) = (causes g)\<inverse>" using built_inv[of ops] by (simp add: g_def graph_inv_def causes_def)
  show ?thesis
    by (auto simp: get_descendants_def get_ancestors_def is_ancestor_def set_closure inv causes_def[symmetric] rtrancl_converse)
qed

section \<open>Paths\<close>

text \<open>A path of the search: no node twice, neighbours next to each other, and it stops where it first meets its end.\<close>

definition chain :: "graph \<Rightarrow> names \<Rightarrow> bool" where
  "chain g p \<longleftrightarrow> successively (\<lambda>a b. b \<in> set (around g a)) p"

lemma dfs_paths:
  assumes "path \<noteq> []" "last path = cur"
  shows "q \<in> set (dfs g e ex ml cur path visited) \<longleftrightarrow>
    (\<exists>r. q = path @ r \<and> chain g (cur # r) \<and> last (cur # r) = e \<and> e \<notin> set (butlast (cur # r)) \<and> distinct r \<and>
      set r \<inter> (set visited \<union> set ex) = {} \<and> length q \<le> ml)"
  using assms
proof (induction g e ex ml cur path visited rule: dfs.induct)
  case (1 g e ex ml cur path visited)
  show ?case
  proof (cases "ml < length path")
    case True
    then show ?thesis by (subst dfs.simps) auto
  next
    case False
    show ?thesis
    proof (cases "cur = e")
      case True
      have dfs: "dfs g e ex ml cur path visited = [path]" using False True by (subst dfs.simps) simp
      show ?thesis
      proof
        assume "q \<in> set (dfs g e ex ml cur path visited)"
        then have "q = path" unfolding dfs by simp
        then show "\<exists>r. q = path @ r \<and> chain g (cur # r) \<and> last (cur # r) = e \<and> e \<notin> set (butlast (cur # r)) \<and> distinct r \<and>
            set r \<inter> (set visited \<union> set ex) = {} \<and> length q \<le> ml"
          using False True by (intro exI[of _ "[]"]) (simp add: chain_def)
      next
        assume "\<exists>r. q = path @ r \<and> chain g (cur # r) \<and> last (cur # r) = e \<and> e \<notin> set (butlast (cur # r)) \<and> distinct r \<and>
            set r \<inter> (set visited \<union> set ex) = {} \<and> length q \<le> ml"
        then obtain r where r: "q = path @ r" "e \<notin> set (butlast (cur # r))" by blast
        then have "r = []" using True by (cases r) simp_all
        then show "q \<in> set (dfs g e ex ml cur path visited)" unfolding dfs using r(1) by simp
      qed
    next
      case ne: False
      let ?next = "filter (\<lambda>n. n \<notin> set visited \<and> n \<notin> set ex) (around g cur)"
      have IH: "q \<in> set (dfs g e ex ml n (path @ [n]) (add n visited)) \<longleftrightarrow>
          (\<exists>r. q = (path @ [n]) @ r \<and> chain g (n # r) \<and> last (n # r) = e \<and> e \<notin> set (butlast (n # r)) \<and> distinct r \<and>
            set r \<inter> (set (add n visited) \<union> set ex) = {} \<and> length q \<le> ml)" if "n \<in> set ?next" for n
        using 1(1)[OF False ne that] by simp
      have "q \<in> set (dfs g e ex ml cur path visited) \<longleftrightarrow> (\<exists>n \<in> set ?next. q \<in> set (dfs g e ex ml n (path @ [n]) (add n visited)))"
        using False ne by (subst dfs.simps) simp
      also have "\<dots> \<longleftrightarrow> (\<exists>n r. n \<in> set ?next \<and> q = (path @ [n]) @ r \<and> chain g (n # r) \<and> last (n # r) = e \<and> e \<notin> set (butlast (n # r)) \<and>
          distinct r \<and> set r \<inter> (set (add n visited) \<union> set ex) = {} \<and> length q \<le> ml)"
        using IH by blast
      also have "\<dots> \<longleftrightarrow> (\<exists>r. q = path @ r \<and> chain g (cur # r) \<and> last (cur # r) = e \<and> e \<notin> set (butlast (cur # r)) \<and> distinct r \<and>
          set r \<inter> (set visited \<union> set ex) = {} \<and> length q \<le> ml)" (is "?l \<longleftrightarrow> ?r")
      proof
        assume ?l
        then obtain n r where "n \<in> set ?next" "q = (path @ [n]) @ r" "chain g (n # r)" "last (n # r) = e" "e \<notin> set (butlast (n # r))"
          "distinct r" "set r \<inter> (set (add n visited) \<union> set ex) = {}" "length q \<le> ml" by blast
        moreover have "n \<in> set (around g cur)" "n \<notin> set visited" "n \<notin> set ex" using calculation(1) by simp_all
        ultimately show ?r using ne by (intro exI[of _ "n # r"]) (simp add: chain_def)
      next
        assume ?r
        then obtain r where r: "q = path @ r" "chain g (cur # r)" "last (cur # r) = e" "e \<notin> set (butlast (cur # r))" "distinct r"
          "set r \<inter> (set visited \<union> set ex) = {}" "length q \<le> ml" by blast
        then obtain n r' where r': "r = n # r'" using ne by (cases r) auto
        have "n \<in> set ?next" using r unfolding r' by (simp add: chain_def)
        then show ?l using r unfolding r' by (intro exI[of _ n] exI[of _ r']) (simp add: chain_def)
      qed
      finally show ?thesis .
    qed
  qed
qed

text \<open>The search finds exactly the paths without repetition, along edges in either direction, of at most \<open>max_length\<close> nodes, which avoid the excluded nodes
  and reach the end at their end only.\<close>

lemma find_all_paths_complete:
  "p \<in> set (find_all_paths g s e ex ml) \<longleftrightarrow>
     p \<noteq> [] \<and> hd p = s \<and> last p = e \<and> e \<notin> set (butlast p) \<and> distinct p \<and> chain g p \<and> set (tl p) \<inter> set ex = {} \<and> length p \<le> ml"
proof -
  have "p \<in> set (find_all_paths g s e ex ml) \<longleftrightarrow>
      (\<exists>r. p = [s] @ r \<and> chain g (s # r) \<and> last (s # r) = e \<and> e \<notin> set (butlast (s # r)) \<and> distinct r \<and>
        set r \<inter> (set [s] \<union> set ex) = {} \<and> length p \<le> ml)"
    unfolding find_all_paths_def by (rule dfs_paths) simp_all
  then show ?thesis by (cases p) auto
qed

text \<open>A set is accepted for adjustment exactly if no proper descendant of the treatment is in it and each path of at most ten nodes from a parent of the
  treatment to the outcome that avoids the treatment has a node that blocks it; a longer path does not matter.\<close>

lemma adjustment_valid_iff:
  "fst (is_valid_adjustment_set g t y z) \<longleftrightarrow>
     (\<forall>n \<in> set z. n \<noteq> t \<longrightarrow> (t, n) \<notin> (causes g)\<^sup>*) \<and>
     (\<forall>p \<in> set (get_parents g t). \<forall>q. hd q = p \<and> q \<noteq> [] \<and> last q = y \<and> y \<notin> set (butlast q) \<and> distinct q \<and> chain g q \<and> t \<notin> set (tl q) \<and>
        length q \<le> 10 \<longrightarrow> is_path_blocked g (p # q) z t)"
proof -
  have d: "n \<in> set (without (get_descendants g [t]) [t]) \<longleftrightarrow> n \<noteq> t \<and> (t, n) \<in> (causes g)\<^sup>*" for n
    by (auto simp: get_descendants_def set_closure causes_def)
  have f: "fst (is_valid_adjustment_set g t y z) \<longleftrightarrow>
      (\<forall>n \<in> set z. n \<notin> set (without (get_descendants g [t]) [t])) \<and> (\<forall>p \<in> set (find_backdoor_paths g t y). is_path_blocked g p z t)"
    by (auto simp: is_valid_adjustment_set_def find_None_iff find_Some_iff split: option.split)
  have b: "(\<forall>p \<in> set (find_backdoor_paths g t y). P p) \<longleftrightarrow>
      (\<forall>p \<in> set (get_parents g t). \<forall>q. q \<in> set (find_all_paths g p y [t] 10) \<longrightarrow> P (p # q))" for P
    by (auto simp: find_backdoor_paths_def)
  show ?thesis unfolding f b find_all_paths_complete d by auto
qed

section \<open>Identification\<close>

definition links :: "graph \<Rightarrow> string \<Rightarrow> (string \<times> string) set" where
  "links g t = {(a, b). b \<in> set (around g a) \<and> a \<noteq> t \<and> b \<noteq> t}"

lemma around_mem: "b \<in> set (around g a) \<longleftrightarrow> (a, b) \<in> arrows (adjacency g) \<or> (a, b) \<in> arrows (reverse_adjacency g)"
  by (simp add: around_def arrows_def)

lemma links_sym: "graph_inv g \<Longrightarrow> (a, b) \<in> links g t \<Longrightarrow> (b, a) \<in> links g t"
  by (auto simp: links_def around_mem graph_inv_def)

lemma chain_links:
  assumes "chain g p" "p \<noteq> []" "t \<notin> set p"
  shows "(hd p, last p) \<in> (links g t)\<^sup>*"
  using assms
proof (induction p)
  case (Cons a p)
  show ?case
  proof (cases p)
    case (Cons b q)
    then have "(a, b) \<in> links g t" "(hd p, last p) \<in> (links g t)\<^sup>*" using Cons.prems Cons.IH by (auto simp: chain_def links_def)
    then show ?thesis using Cons by (simp add: converse_rtrancl_into_rtrancl)
  qed simp
qed simp

text \<open>What is linked is joined by a path without repetition.\<close>

lemma links_path:
  assumes "(a, b) \<in> (links g t)\<^sup>*" "a \<noteq> t"
  shows "\<exists>p. p \<noteq> [] \<and> hd p = a \<and> last p = b \<and> distinct p \<and> chain g p \<and> t \<notin> set p"
  using assms(1)
proof (induction rule: rtrancl_induct)
  case base
  then show ?case using assms(2) by (intro exI[of _ "[a]"]) (simp add: chain_def)
next
  case (step y z)
  then obtain p where p: "p \<noteq> []" "hd p = a" "last p = y" "distinct p" "chain g p" "t \<notin> set p" by blast
  show ?case
  proof (cases "z \<in> set p")
    case True
    then obtain xs ys where s: "p = xs @ z # ys" using split_list by metis
    then have "chain g (xs @ [z])" using p(5) by (auto simp: chain_def successively_append_iff)
    moreover have "hd (xs @ [z]) = a" using p(2) s by (cases xs) auto
    ultimately show ?thesis using p s by (intro exI[of _ "xs @ [z]"]) auto
  next
    case False
    then have "chain g (p @ [z])" using p step(2) by (auto simp: chain_def successively_append_iff links_def)
    then show ?thesis using p False step(2) by (intro exI[of _ "p @ [z]"]) (auto simp: links_def)
  qed
qed

lemma linked_in_nodes:
  assumes "graph_inv g" "chain g p" "p \<noteq> []" "hd p \<in> set (nodes g)"
  shows "set p \<subseteq> set (nodes g)"
  using assms(2-4)
proof (induction p)
  case (Cons a p)
  show ?case
  proof (cases p)
    case (Cons b q)
    then have "b \<in> set (around g a)" "chain g p" using Cons.prems by (auto simp: chain_def)
    then show ?thesis using Cons Cons.IH Cons.prems(3) assms(1) by (auto simp: around_mem graph_inv_def)
  qed (use Cons.prems in simp)
qed simp

lemma links_found:
  assumes "graph_inv g" "card (set (nodes g)) \<le> 10" "(a, b) \<in> (links g t)\<^sup>*" "a \<noteq> t" "a \<in> set (nodes g)"
  shows "find_all_paths g a b [t] 10 \<noteq> []"
proof -
  obtain p where p: "p \<noteq> []" "hd p = a" "last p = b" "distinct p" "chain g p" "t \<notin> set p" using links_path[OF assms(3,4)] by blast
  have "card (set p) \<le> card (set (nodes g))" using linked_in_nodes[OF assms(1) p(5,1)] p(2) assms(5) by (intro card_mono) auto
  then have "length p \<le> 10" using p(4) assms(2) by (simp add: distinct_card)
  moreover have "b \<notin> set (butlast p)" using p(1,3,4) by (metis append_butlast_last_id distinct_append not_distinct_conv_prefix)
  moreover have "set (tl p) \<inter> set [t] = {}" using p(1,6) by (cases p) auto
  ultimately have "p \<in> set (find_all_paths g a b [t] 10)" using p unfolding find_all_paths_complete by blast
  then show ?thesis by auto
qed

text \<open>In an acyclic graph of at most ten nodes the front-door search accepts a mediator only if it mediates nothing: when backdoor adjustment has failed and a
  child of the treatment is accepted, no path leads from it to the outcome except through the treatment.\<close>

theorem accepted_mediator_is_cut_off:
  fixes ops :: "graph_op list"
  defines "g \<equiv> fold graph_step ops graph_init"
  assumes "acyclic (causes g)" "card (set (nodes g)) \<le> 10" "find_backdoor_adjustment g t y ev = None" "find_frontdoor_adjustment g t y = Some [m]"
  shows "(m, y) \<notin> (links g t)\<^sup>*"
proof
  assume my: "(m, y) \<in> (links g t)\<^sup>*"
  have inv: "graph_inv g" unfolding g_def by (rule built_inv)
  have par: "p \<in> set (get_parents g t) \<longleftrightarrow> (p, t) \<in> causes g" for p
    using inv by (auto simp: get_parents_def graph_inv_def causes_def arrows_def)
  have irr: "(a, a) \<notin> causes g" for a using assms(2) by (auto simp: acyclic_def)
  let ?z = "meet (get_parents g t) (observed g)"
  have "\<not> fst (is_valid_adjustment_set g t y ?z)" using assms(4) by (auto simp: find_backdoor_adjustment_def Let_def)
  moreover have "(t, n) \<notin> (causes g)\<^sup>*" if "n \<in> set ?z" for n
    using that par[of n] assms(2) by (auto simp: acyclic_def dest: rtrancl_into_trancl1)
  ultimately obtain p q where q: "p \<in> set (get_parents g t)" "hd q = p" "q \<noteq> []" "last q = y" "chain g q" "t \<notin> set (tl q)"
    unfolding adjustment_valid_iff by blast
  have pt: "p \<noteq> t" "p \<in> set (nodes g)" using q(1) irr par inv by (auto simp: graph_inv_def causes_def)
  have "t \<notin> set q" using q(2,3,6) pt by (cases q) auto
  then have "(p, y) \<in> (links g t)\<^sup>*" using chain_links[OF q(5,3)] q(2,4) by simp
  moreover have "(y, m) \<in> (links g t)\<^sup>*"
    using my by (induction rule: rtrancl_induct) (auto intro: converse_rtrancl_into_rtrancl links_sym[OF inv])
  ultimately have "(p, m) \<in> (links g t)\<^sup>*" by (rule rtrancl_trans)
  then have "find_all_paths g p m [t] 10 \<noteq> []" by (rule links_found[OF inv assms(3) _ pt])
  then have "find_backdoor_paths g t m \<noteq> []" using q(1) by (auto simp: find_backdoor_paths_def)
  then show False using assms(5) by (auto simp: find_frontdoor_adjustment_def find_Some_iff)
qed

text \<open>Nothing reads the confounded pairs, the edges or the nodes: what counts is the same for two graphs with the same adjacencies and observed nodes.\<close>

lemma dfs_same:
  assumes "adjacency g' = adjacency g" "reverse_adjacency g' = reverse_adjacency g"
  shows "dfs g' e ex ml cur path visited = dfs g e ex ml cur path visited"
  using assms
proof (induction g e ex ml cur path visited rule: dfs.induct)
  case (1 g e ex ml cur path visited)
  have ar: "around g' = around g" using 1(2,3) by (simp add: around_def fun_eq_iff)
  have "map (\<lambda>n. dfs g' e ex ml n (path @ [n]) (add n visited)) (filter (\<lambda>n. n \<notin> set visited \<and> n \<notin> set ex) (around g cur)) =
      map (\<lambda>n. dfs g e ex ml n (path @ [n]) (add n visited)) (filter (\<lambda>n. n \<notin> set visited \<and> n \<notin> set ex) (around g cur))"
    if "\<not> ml < length path" "cur \<noteq> e" using 1(1)[OF that _ 1(2,3)] by simp
  then show ?case
    unfolding dfs.simps[of g' e ex ml cur path visited] dfs.simps[of g e ex ml cur path visited] ar by (simp del: map_eq_conv)
qed

lemma same_graph:
  assumes "adjacency g' = adjacency g" "reverse_adjacency g' = reverse_adjacency g" "observed g' = observed g"
  shows "identify_causal_effect g' t y ev = identify_causal_effect g t y ev"
proof -
  have bp: "find_backdoor_paths g' = find_backdoor_paths g"
    by (simp add: fun_eq_iff find_backdoor_paths_def find_all_paths_def get_parents_def assms dfs_same[OF assms(1,2)])
  have pb: "is_path_blocked g' = is_path_blocked g"
    by (simp add: fun_eq_iff is_path_blocked_def blocks_at_def is_collider_on_path_def get_descendants_def assms(1))
  have va: "is_valid_adjustment_set g' = is_valid_adjustment_set g"
    unfolding fun_eq_iff is_valid_adjustment_set_def get_descendants_def bp pb assms(1) by simp
  show ?thesis
    unfolding identify_causal_effect_def find_backdoor_adjustment_def find_frontdoor_adjustment_def candidates_def get_parents_def get_children_def
      get_descendants_def va bp assms ..
qed

text \<open>An unobserved common cause that is declared as a bidirected edge changes nothing: every effect is identified as before, by the same formula and the same
  set, also the effect between the two confounded variables.\<close>

theorem confounding_ignored: "identify_causal_effect (add_bidirected_edge a b g) t y ev = identify_causal_effect g t y ev"
  by (rule same_graph) (simp_all add: add_bidirected_edge_def)

definition textbook_frontdoor :: graph where
  "textbook_frontdoor = fold graph_step
     [Node ''U'' False, Directed ''U'' ''X'', Directed ''U'' ''Y'', Node ''X'' True, Node ''M'' True, Node ''Y'' True,
      Directed ''X'' ''M'', Directed ''M'' ''Y''] graph_init"

text \<open>The textbook graph for front-door adjustment, a hidden common cause of treatment and outcome and one mediator between them, is reported as not
  identifiable.\<close>

theorem textbook_frontdoor_rejected: "identify_causal_effect textbook_frontdoor ''X'' ''Y'' [] = (False, Not_Identifiable, None)"
  by code_simp

text \<open>None of the three rules can be applied: each ends with an exception, because the method it calls belongs to the engine and not to the graph.\<close>

theorem do_rules_raise:
  "apply_do_rule_1 g q t cond rm = Inl (OtherError ''AttributeError'') \<and> apply_do_rule_2 g q t v cond = Inl (OtherError ''AttributeError'') \<and>
   apply_do_rule_3 g q t v cond = Inl (OtherError ''AttributeError'')"
  by (simp add: apply_do_rule_1_def apply_do_rule_2_def apply_do_rule_3_def graph_check_d_separation_def)

section \<open>Witness\<close>

definition cut_off :: "graph_op list" where
  "cut_off = [Node ''U'' False, Directed ''U'' ''X'', Directed ''U'' ''Y'', Node ''X'' True, Node ''M'' True, Node ''Y'' True, Directed ''X'' ''M'']"

lemma cut_off_facts:
  "find_backdoor_adjustment (fold graph_step cut_off graph_init) ''X'' ''Y'' [] = None"
  "find_frontdoor_adjustment (fold graph_step cut_off graph_init) ''X'' ''Y'' = Some [''M'']"
  "nodes (fold graph_step cut_off graph_init) = [''U'', ''X'', ''Y'', ''M'']"
  "adjacency (fold graph_step cut_off graph_init) = [(''U'', [''X'', ''Y'']), (''X'', [''M''])]"
  by code_simp+

lemma cut_off_acyclic: "acyclic (causes (fold graph_step cut_off graph_init))"
proof -
  have "causes (fold graph_step cut_off graph_init) \<subseteq> measure (\<lambda>n. if n = ''U'' then 0 else if n = ''X'' then 1 else (2 :: nat))"
    by (auto simp: causes_def cut_off_facts(4) arrows_def neighbours_def split: if_splits)
  then show ?thesis using acyclic_subset wf_acyclic[OF wf_measure] by blast
qed

theorem accepted_mediator_is_cut_off_witness: "(''M'', ''Y'') \<notin> (links (fold graph_step cut_off graph_init) ''X'')\<^sup>*"
  by (rule accepted_mediator_is_cut_off[OF cut_off_acyclic _ cut_off_facts(1,2)]) (simp add: cut_off_facts(3))

end
