(* ===== verification/ValueArea.thy ===== *)
theory ValueArea
  imports Prelude
begin

text \<open>
  \<open>volume_profile/value_area.py\<close>: the volume traded at each price, its point of control, and the value area around it.

  The clock is an argument. Observers are other code: their number is kept, and a calculation answers how often they are called, with what. The loop that
  widens the value area works on the list of volumes by ascending price.
\<close>

section \<open>Data\<close>

datatype MarketRegime = TRENDING_UP | TRENDING_DOWN | SIDEWAYS_CHOP | HIGH_VOLATILITY | LOW_LIQUIDITY

record VolumeNode =
  price :: pyfloat
  total_volume :: pyfloat
  bid_volume :: pyfloat
  ask_volume :: pyfloat
  trade_count :: int
  is_poc :: bool
  is_vah :: bool
  is_val :: bool
  timestamp_ns :: int

definition delta :: "VolumeNode \<Rightarrow> pyfloat" where "delta n = fsub (ask_volume n) (bid_volume n)"

definition imbalance_ratio :: "VolumeNode \<Rightarrow> pyfloat" where
  "imbalance_ratio n = (if total_volume n = 0 then 0 else fdiv (delta n) (total_volume n))"

record ValueAreaResult =
  vah :: pyfloat
  val_low :: pyfloat
  poc :: pyfloat
  all_volume :: pyfloat
  value_area_volume :: pyfloat
  percentage :: pyfloat
  node_count :: int
  result_ns :: int

type_synonym nodes = "(pyfloat, VolumeNode) dict"

section \<open>Strategies\<close>

text \<open>\<open>sum(\<dots>)\<close> of floats.\<close>

definition fsum :: "pyfloat list \<Rightarrow> pyfloat" where "fsum xs = foldl fadd 0 xs"

definition index_of :: "'a \<Rightarrow> 'a list \<Rightarrow> nat" where
  "index_of x xs = length (takeWhile (\<lambda>y. y \<noteq> x) xs)"

definition percentage_strategy :: "pyfloat \<Rightarrow> exn + pyfloat" where
  "percentage_strategy p = (if 0 < p \<and> p \<le> 1 then Inr p else Inl ValueError)"

text \<open>The loop: volumes by price, target, volume so far, and the two ends.\<close>

function expand :: "pyfloat list \<Rightarrow> pyfloat \<Rightarrow> pyfloat \<Rightarrow> nat \<Rightarrow> nat \<Rightarrow> pyfloat \<times> nat \<times> nat" where
  "expand vs target acc l r =
     (if acc < target
      then
        (let lv = (if 0 < l then vs ! (l - 1) else 0); rv = (if r + 1 < length vs then vs ! (r + 1) else 0)
         in if rv \<le> lv \<and> 0 < l then expand vs target (fadd acc lv) (l - 1) r
            else if r + 1 < length vs then expand vs target (fadd acc rv) l (r + 1)
            else (acc, l, r))
      else (acc, l, r))"
  by pat_completeness auto

termination by (relation "measure (\<lambda>(vs, target, acc, l, r). l + (length vs - r))") auto

declare expand.simps [simp del]

definition mark :: "pyfloat list \<Rightarrow> nat \<Rightarrow> nat \<Rightarrow> nat \<Rightarrow> nodes \<Rightarrow> nodes" where
  "mark ps l k r ns = map (\<lambda>(p, n). (p, n\<lparr>is_vah := p \<in> set (take (r + 1 - k) (drop k ps)), is_val := p \<in> set (take (k + 1 - l) (drop l ps))\<rparr>)) ns"

definition calculate :: "pyfloat \<Rightarrow> int \<Rightarrow> nodes \<Rightarrow> pyfloat \<Rightarrow> ValueAreaResult option \<times> nodes" where
  "calculate pct now ns x =
     (case dict_get ns x of
        None \<Rightarrow> (None, ns)
      | Some node \<Rightarrow>
          (let total = fsum (map total_volume (dict_values ns))
           in if total = 0 then (None, ns)
              else
                (let ps = sort (dict_keys ns); k = index_of x ps;
                     (acc, l, r) = expand (map (\<lambda>p. total_volume (the (dict_get ns p))) ps) (fmul total pct) (total_volume node) k k
                 in (Some \<lparr>vah = ps ! r, val_low = ps ! l, poc = x, all_volume = total, value_area_volume = acc, percentage = pct,
                      node_count = int r - int l + 1, result_ns = now\<rparr>, mark ps l k r ns))))"

definition base_percentage :: pyfloat where "base_percentage = fl (7 / 10)"

fun regime_adjustment :: "MarketRegime \<Rightarrow> pyfloat" where
  "regime_adjustment SIDEWAYS_CHOP = fl (1 / 10)"
| "regime_adjustment TRENDING_UP = - fl (1 / 10)"
| "regime_adjustment TRENDING_DOWN = - fl (1 / 10)"
| "regime_adjustment HIGH_VOLATILITY = fl (1 / 20)"
| "regime_adjustment LOW_LIQUIDITY = fl (3 / 20)"

definition adjusted_pct :: "MarketRegime \<Rightarrow> pyfloat" where
  "adjusted_pct g = max (fl (2 / 5)) (min (fl (9 / 10)) (fadd base_percentage (regime_adjustment g)))"

definition adaptive_calculate :: "MarketRegime \<Rightarrow> int \<Rightarrow> nodes \<Rightarrow> pyfloat \<Rightarrow> ValueAreaResult option \<times> nodes" where
  "adaptive_calculate g = calculate (adjusted_pct g)"

datatype strategy = Percentage pyfloat | Adaptive

fun strategy_calculate :: "strategy \<Rightarrow> int \<Rightarrow> nodes \<Rightarrow> pyfloat \<Rightarrow> ValueAreaResult option \<times> nodes" where
  "strategy_calculate (Percentage p) = calculate p"
| "strategy_calculate Adaptive = adaptive_calculate SIDEWAYS_CHOP"

section \<open>Tracker\<close>

record tracker =
  the_strategy :: strategy
  profile :: "(string, nodes) dict"
  poc_cache :: "(string, pyfloat) dict"
  observers :: nat
  regime_history :: "(string, MarketRegime list) dict"

definition tracker_init :: "strategy option \<Rightarrow> tracker" where
  "tracker_init s = \<lparr>the_strategy = (case s of None \<Rightarrow> Percentage (fl (7 / 10)) | Some x \<Rightarrow> x), profile = [], poc_cache = [], observers = 0,
     regime_history = []\<rparr>"

definition add_observer :: "tracker \<Rightarrow> tracker" where
  "add_observer t = t\<lparr>observers := observers t + 1\<rparr>"

definition nodes_of :: "string \<Rightarrow> tracker \<Rightarrow> nodes" where
  "nodes_of s t = (case dict_get (profile t) s of None \<Rightarrow> [] | Some ns \<Rightarrow> ns)"

definition new_node :: "pyfloat \<Rightarrow> VolumeNode" where
  "new_node x = \<lparr>price = x, total_volume = 0, bid_volume = 0, ask_volume = 0, trade_count = 0, is_poc = False, is_vah = False, is_val = False, timestamp_ns = 0\<rparr>"

definition traded :: "pyfloat \<Rightarrow> bool \<Rightarrow> int \<Rightarrow> VolumeNode \<Rightarrow> VolumeNode" where
  "traded v maker ts n =
     (let b = (if maker then fadd (bid_volume n) v else bid_volume n); a = (if maker then ask_volume n else fadd (ask_volume n) v)
      in n\<lparr>bid_volume := b, ask_volume := a, total_volume := fadd b a, trade_count := trade_count n + 1, timestamp_ns := ts\<rparr>)"

text \<open>An explicit time of zero counts as none. The old point of control loses its flag unless its price is zero.\<close>

definition add_trade :: "string \<Rightarrow> pyfloat \<Rightarrow> pyfloat \<Rightarrow> bool \<Rightarrow> int option \<Rightarrow> int \<Rightarrow> tracker \<Rightarrow> (exn + unit) \<times> tracker" where
  "add_trade s x v maker ts now t =
     (let stamp = (case ts of None \<Rightarrow> now | Some u \<Rightarrow> if u = 0 then now else u);
          ns = nodes_of s t; node = traded v maker stamp (case dict_get ns x of None \<Rightarrow> new_node x | Some n \<Rightarrow> n);
          ns1 = dict_set x node ns; t1 = t\<lparr>profile := dict_set s ns1 (profile t)\<rparr>
      in case dict_get (poc_cache t) s of
           None \<Rightarrow> (Inr (), t\<lparr>profile := dict_set s (dict_set x (node\<lparr>is_poc := True\<rparr>) ns1) (profile t), poc_cache := dict_set s x (poc_cache t)\<rparr>)
         | Some c \<Rightarrow>
             (case dict_get ns1 c of
                None \<Rightarrow> (Inl KeyError, t1)
              | Some cn \<Rightarrow>
                  (if total_volume cn < total_volume node
                   then
                     (let ns2 = (if c \<noteq> 0 then dict_set c (cn\<lparr>is_poc := False\<rparr>) ns1 else ns1)
                      in (Inr (), t\<lparr>profile := dict_set s (dict_set x (node\<lparr>is_poc := True\<rparr>) ns2) (profile t), poc_cache := dict_set s x (poc_cache t)\<rparr>))
                   else (Inr (), t1))))"

definition get_current_poc :: "string \<Rightarrow> tracker \<Rightarrow> pyfloat option" where
  "get_current_poc s t = dict_get (poc_cache t) s"

fun latest :: "VolumeNode \<Rightarrow> VolumeNode list \<Rightarrow> VolumeNode" where
  "latest n [] = n"
| "latest n (m # ms) = latest (if timestamp_ns n < timestamp_ns m then m else n) ms"

definition detect_regime :: "string \<Rightarrow> tracker \<Rightarrow> MarketRegime" where
  "detect_regime s t =
     (let ns = dict_values (nodes_of s t)
      in if ns = [] then SIDEWAYS_CHOP
         else if length ns < 5 then LOW_LIQUIDITY
         else
           (let prices = map price (filter (\<lambda>n. 0 < total_volume n) ns)
            in if prices = [] then LOW_LIQUIDITY
               else
                 (let range = fsub (Max (set prices)) (Min (set prices)); avg = fdiv (fsum (map total_volume ns)) (of_nat (length ns));
                      high = length (filter (\<lambda>n. fmul avg 2 < total_volume n) ns);
                      c = (case dict_get (poc_cache t) s of None \<Rightarrow> 0 | Some x \<Rightarrow> x)
                  in if high \<le> 2 \<and> 100 < range \<and> c \<noteq> 0
                     then (if c < price (latest (hd ns) (tl ns)) then TRENDING_UP else TRENDING_DOWN)
                     else if 5 \<le> high \<and> range < 50 then SIDEWAYS_CHOP
                     else if 200 < range then HIGH_VOLATILITY else SIDEWAYS_CHOP)))"

text \<open>The answer, and how often the observers are called with it.\<close>

definition calculate_value_area ::
    "string \<Rightarrow> bool \<Rightarrow> MarketRegime option \<Rightarrow> int \<Rightarrow> tracker \<Rightarrow> ValueAreaResult option \<times> nat \<times> tracker" where
  "calculate_value_area s adaptive g now t =
     (if nodes_of s t = [] then (None, 0, t)
      else
        (case dict_get (poc_cache t) s of
           None \<Rightarrow> (None, 0, t)
         | Some c \<Rightarrow>
             (let (res, ns) =
                (if adaptive then adaptive_calculate (case g of None \<Rightarrow> detect_regime s t | Some x \<Rightarrow> x) now (nodes_of s t) c
                 else strategy_calculate (the_strategy t) now (nodes_of s t) c)
              in (res, (if res = None then 0 else observers t), t\<lparr>profile := dict_set s ns (profile t)\<rparr>))))"

definition get_vah_val :: "string \<Rightarrow> int \<Rightarrow> tracker \<Rightarrow> (pyfloat \<times> pyfloat) option \<times> tracker" where
  "get_vah_val s now t = (let (res, k, t1) = calculate_value_area s False None now t in (map_option (\<lambda>r. (vah r, val_low r)) res, t1))"

text \<open>\<open>xs[i]\<close>, from the end for a negative index.\<close>

definition py_item :: "'a list \<Rightarrow> int \<Rightarrow> exn + 'a" where
  "py_item xs i =
     (if 0 \<le> i \<and> i < int (length xs) then Inr (xs ! nat i)
      else if i < 0 \<and> 0 \<le> int (length xs) + i then Inr (xs ! nat (int (length xs) + i)) else Inl IndexError)"

definition threshold_volume :: "nodes \<Rightarrow> pyfloat \<Rightarrow> exn + pyfloat" where
  "threshold_volume ns q =
     (let vs = sort (map total_volume (dict_values ns))
      in py_item vs (min (int_of_float (fmul (of_nat (length vs)) q)) (int (length vs) - 1)))"

definition identify_low_volume_nodes :: "string \<Rightarrow> pyfloat \<Rightarrow> tracker \<Rightarrow> exn + pyfloat list" where
  "identify_low_volume_nodes s q t =
     (let ns = nodes_of s t
      in if ns = [] then Inr []
         else bind (threshold_volume ns q) (\<lambda>x. Inr (map price (filter (\<lambda>n. total_volume n \<le> x \<and> 0 < total_volume n) (dict_values ns)))))"

definition identify_high_volume_nodes :: "string \<Rightarrow> pyfloat \<Rightarrow> tracker \<Rightarrow> exn + pyfloat list" where
  "identify_high_volume_nodes s q t =
     (let ns = nodes_of s t
      in if ns = [] then Inr []
         else bind (threshold_volume ns q) (\<lambda>x. Inr (map price (filter (\<lambda>n. x \<le> total_volume n) (dict_values ns)))))"

definition reset_profile :: "string \<Rightarrow> tracker \<Rightarrow> tracker" where
  "reset_profile s t =
     t\<lparr>profile := (if dict_get (profile t) s = None then profile t else dict_set s [] (profile t)), poc_cache := dict_pop s (poc_cache t)\<rparr>"


section \<open>Value area\<close>

text \<open>What holds at the start of the loop and is kept by both ways of widening holds at its end; and why it ended.\<close>

lemma expand_invariant:
  assumes "expand vs t acc l r = (acc1, l1, r1)" "P acc l r"
    "\<And>a l r. P a l r \<Longrightarrow> 0 < l \<Longrightarrow> P (fadd a (vs ! (l - 1))) (l - 1) r"
    "\<And>a l r. P a l r \<Longrightarrow> r + 1 < length vs \<Longrightarrow> P (fadd a (vs ! (r + 1))) l (r + 1)"
  shows "P acc1 l1 r1 \<and> (t \<le> acc1 \<or> (\<not> r1 + 1 < length vs \<and> (0 < l1 \<longrightarrow> vs ! (l1 - 1) < 0)))"
  using assms
proof (induction vs t acc l r rule: expand.induct)
  case (1 vs t acc l r)
  let ?lv = "if 0 < l then vs ! (l - 1) else 0" and ?rv = "if r + 1 < length vs then vs ! (r + 1) else 0"
  note e = "1.prems"(1)[unfolded expand.simps[of vs t acc l r] Let_def]
  consider "\<not> acc < t" | "acc < t" "?rv \<le> ?lv \<and> 0 < l" | "acc < t" "\<not> (?rv \<le> ?lv \<and> 0 < l)" "r + 1 < length vs"
    | "acc < t" "\<not> (?rv \<le> ?lv \<and> 0 < l)" "\<not> r + 1 < length vs" by blast
  then show ?case
  proof cases
    case 1
    then show ?thesis using e "1.prems"(2) by simp
  next
    case 2
    have "expand vs t (fadd acc ?lv) (l - 1) r = (acc1, l1, r1)" using e unfolding if_P[OF 2(1)] if_P[OF 2(2)] .
    then show ?thesis using "1.IH"(1)[OF 2(1) refl refl 2(2)] "1.prems"(2-4) 2(2) by simp
  next
    case 3
    have "expand vs t (fadd acc ?rv) l (r + 1) = (acc1, l1, r1)" using e unfolding if_P[OF 3(1)] if_not_P[OF 3(2)] by (simp only: 3(3) if_True)
    then show ?thesis using "1.IH"(2)[OF 3(1) refl refl 3(2,3)] "1.prems"(2-4) 3(3) by simp
  next
    case 4
    then have "acc1 = acc" "l1 = l" "r1 = r" using e by auto
    then show ?thesis using 4 "1.prems"(2) by auto
  qed
qed

lemma expand_area:
  assumes "expand vs t (vs ! k) k k = (acc, l, r)" "k < length vs" "\<forall>v \<in> set vs. 0 \<le> v"
  shows "l \<le> k \<and> k \<le> r \<and> r < length vs \<and> (t \<le> acc \<or> (l = 0 \<and> r + 1 = length vs))"
proof -
  have "(l \<le> k \<and> k \<le> r \<and> r < length vs) \<and> (t \<le> acc \<or> (\<not> r + 1 < length vs \<and> (0 < l \<longrightarrow> vs ! (l - 1) < 0)))"
    by (rule expand_invariant[OF assms(1), where P = "\<lambda>a l r. l \<le> k \<and> k \<le> r \<and> r < length vs"]) (use assms(2) in auto)
  moreover have "l - 1 < length vs \<Longrightarrow> \<not> vs ! (l - 1) < 0" using assms(3) by (simp add: not_less)
  ultimately show ?thesis by (cases l) auto
qed

lemma fl_whole: "n < 2 ^ 53 \<Longrightarrow> fl (of_nat n) = of_nat n"
proof -
  assume "n < 2 ^ 53"
  then have "int n < int (2 ^ 53)" by (simp only: of_nat_less_iff)
  then have "\<bar>int n\<bar> < 2 ^ 53" by (simp only: abs_of_nat of_nat_power of_nat_numeral)
  from fl_of_int[OF this] show ?thesis by (simp only: of_int_of_nat_eq)
qed

text \<open>On volumes that are whole numbers the sums are exact.\<close>

lemma expand_exact:
  fixes w :: "nat \<Rightarrow> nat"
  assumes "expand vs t (vs ! k) k k = (acc, l, r)" "k < length vs" "\<And>i. i < length vs \<Longrightarrow> vs ! i = of_nat (w i)" "(\<Sum>i < length vs. w i) < 2 ^ 53"
  shows "acc = of_nat (\<Sum>i \<in> {l..r}. w i)"
proof -
  have ex: "fadd (of_nat (\<Sum>i \<in> A. w i)) (of_nat (w j)) = of_nat (\<Sum>i \<in> insert j A. w i)" if "insert j A \<subseteq> {..<length vs}" "j \<notin> A" for A j
  proof -
    have "(\<Sum>i \<in> insert j A. w i) \<le> (\<Sum>i < length vs. w i)" using that by (intro sum_mono2) auto
    then have "(\<Sum>i \<in> insert j A. w i) < 2 ^ 53" using assms(4) by (rule le_less_trans)
    then have "fl (of_nat (\<Sum>i \<in> insert j A. w i)) = of_nat (\<Sum>i \<in> insert j A. w i)" by (rule fl_whole)
    moreover have fin: "finite A" by (rule finite_subset[of A "{..<length vs}"]) (use that(1) in simp_all)
    moreover have "(\<Sum>i \<in> insert j A. w i) = (\<Sum>i \<in> A. w i) + w j" unfolding sum.insert[OF fin that(2)] by (rule add.commute)
    ultimately show ?thesis unfolding fadd_def of_nat_add[symmetric] by (simp only:)
  qed
  have "(l \<le> r \<and> r < length vs \<and> acc = of_nat (\<Sum>i \<in> {l..r}. w i)) \<and> (t \<le> acc \<or> (\<not> r + 1 < length vs \<and> (0 < l \<longrightarrow> vs ! (l - 1) < 0)))"
  proof (rule expand_invariant[OF assms(1), where P = "\<lambda>a l r. l \<le> r \<and> r < length vs \<and> a = of_nat (\<Sum>i \<in> {l..r}. w i)"])
    show "k \<le> k \<and> k < length vs \<and> vs ! k = of_nat (\<Sum>i \<in> {k..k}. w i)" using assms(2,3) by simp
  next
    fix a :: pyfloat and l r :: nat
    assume p: "l \<le> r \<and> r < length vs \<and> a = of_nat (\<Sum>i \<in> {l..r}. w i)" "0 < l"
    then have e: "{l - 1..r} = insert (l - 1) {l..r}" by auto
    have "insert (l - 1) {l..r} \<subseteq> {..<length vs}" "l - 1 \<notin> {l..r}" using p by auto
    note x = ex[OF this]
    then show "l - 1 \<le> r \<and> r < length vs \<and> fadd a (vs ! (l - 1)) = of_nat (\<Sum>i \<in> {l - 1..r}. w i)"
      using p assms(3)[of "l - 1"] unfolding e x[symmetric] by auto
  next
    fix a :: pyfloat and l r :: nat
    assume p: "l \<le> r \<and> r < length vs \<and> a = of_nat (\<Sum>i \<in> {l..r}. w i)" "r + 1 < length vs"
    then have e: "{l..r + 1} = insert (r + 1) {l..r}" by auto
    have "insert (r + 1) {l..r} \<subseteq> {..<length vs}" "r + 1 \<notin> {l..r}" using p by auto
    note x = ex[OF this]
    then show "l \<le> r + 1 \<and> r + 1 < length vs \<and> fadd a (vs ! (r + 1)) = of_nat (\<Sum>i \<in> {l..r + 1}. w i)"
      using p assms(3)[of "r + 1"] unfolding e x[symmetric] by auto
  qed
  then show ?thesis by blast
qed

lemma index_of_nth:
  assumes "x \<in> set xs"
  shows "index_of x xs < length xs \<and> xs ! index_of x xs = x"
  using assms
proof (induction xs)
  case (Cons y ys)
  then show ?case by (cases "y = x") (auto simp: index_of_def)
qed simp

lemma sorted_keys:
  assumes "wf_dict (ns :: nodes)"
  shows "sorted (sort (dict_keys ns))" "distinct (sort (dict_keys ns))" "set (sort (dict_keys ns)) = fst ` set ns" "length (sort (dict_keys ns)) = length ns"
  using assms by (simp_all add: wf_dict_def)

text \<open>The prices of an interval of positions of a sorted list.\<close>

lemma sorted_interval:
  fixes ps :: "pyfloat list"
  assumes "sorted ps" "distinct ps" "l \<le> r" "r < length ps"
  shows "x \<in> (\<lambda>i. ps ! i) ` {l..r} \<longleftrightarrow> x \<in> set ps \<and> ps ! l \<le> x \<and> x \<le> ps ! r"
proof
  assume "x \<in> (\<lambda>i. ps ! i) ` {l..r}"
  then show "x \<in> set ps \<and> ps ! l \<le> x \<and> x \<le> ps ! r" using assms by (auto intro!: sorted_nth_mono)
next
  assume x: "x \<in> set ps \<and> ps ! l \<le> x \<and> x \<le> ps ! r"
  then obtain i where i: "i < length ps" "x = ps ! i" by (auto simp: in_set_conv_nth)
  have s: "sorted_wrt (<) ps" using assms(1,2) by (simp add: strict_sorted_iff)
  have "\<not> i < l" using x i assms(3,4) sorted_wrt_nth_less[OF s, of i l] by auto
  moreover have "\<not> r < i" using x i assms(3,4) sorted_wrt_nth_less[OF s, of r i] by auto
  ultimately show "x \<in> (\<lambda>i. ps ! i) ` {l..r}" using i by auto
qed

lemma take_drop_image:
  assumes "l \<le> r" "r < length ps"
  shows "set (take (r + 1 - l) (drop l ps)) = (\<lambda>i. ps ! i) ` {l..r}"
proof -
  have "take (r + 1 - l) (drop l ps) = map (\<lambda>i. ps ! i) [l..<r + 1]" using assms by (intro nth_equalityI) (auto simp del: upt_Suc)
  then show ?thesis by auto
qed

lemma calculate_eq:
  assumes "calculate pct now ns x = (Some res, ns1)"
  obtains node acc l r where "dict_get ns x = Some node" "fsum (map total_volume (dict_values ns)) \<noteq> 0"
    "expand (map (\<lambda>p. total_volume (the (dict_get ns p))) (sort (dict_keys ns))) (fmul (fsum (map total_volume (dict_values ns))) pct)
       (total_volume node) (index_of x (sort (dict_keys ns))) (index_of x (sort (dict_keys ns))) = (acc, l, r)"
    "res = \<lparr>vah = sort (dict_keys ns) ! r, val_low = sort (dict_keys ns) ! l, poc = x, all_volume = fsum (map total_volume (dict_values ns)),
       value_area_volume = acc, percentage = pct, node_count = int r - int l + 1, result_ns = now\<rparr>"
    "ns1 = mark (sort (dict_keys ns)) l (index_of x (sort (dict_keys ns))) r ns"
  using assms by (auto simp: calculate_def Let_def split: option.splits if_splits prod.splits)

text \<open>The volumes by price, and where the loop starts.\<close>

lemma area_start:
  fixes ns :: nodes
  assumes "wf_dict ns" "dict_get ns x = Some node"
  defines "ps \<equiv> sort (dict_keys ns)"
  defines "vs \<equiv> map (\<lambda>p. total_volume (the (dict_get ns p))) ps"
  shows "index_of x ps < length vs" "ps ! index_of x ps = x" "vs ! index_of x ps = total_volume node" "length vs = length ps"
    "set vs = total_volume ` set (dict_values ns)"
proof -
  have m: "x \<in> set ps" using assms(2) sorted_keys(3)[OF assms(1)] by (force simp: ps_def dest: map_of_SomeD)
  show "length vs = length ps" by (simp add: vs_def)
  show "index_of x ps < length vs" "ps ! index_of x ps = x" using index_of_nth[OF m] by (simp_all add: vs_def)
  then show "vs ! index_of x ps = total_volume node" using assms(2) by (simp add: vs_def)
  have "set vs = (\<lambda>p. total_volume (the (dict_get ns p))) ` fst ` set ns" using sorted_keys(3)[OF assms(1)] by (simp add: vs_def ps_def)
  also have "\<dots> = total_volume ` snd ` set ns"
    unfolding image_image using assms(1) by (intro image_cong refl) (auto simp: wf_dict_def)
  finally show "set vs = total_volume ` set (dict_values ns)" by simp
qed

lemma value_area_helper:
  assumes "wf_dict ns" "\<forall>n \<in> set (dict_values ns). 0 \<le> total_volume n" "calculate pct now ns x = (Some res, ns1)"
  shows "val_low res \<in> set (dict_keys ns) \<and> vah res \<in> set (dict_keys ns) \<and> val_low res \<le> poc res \<and> poc res \<le> vah res \<and> poc res = x \<and>
    node_count res = int (card {p \<in> set (dict_keys ns). val_low res \<le> p \<and> p \<le> vah res}) \<and>
    (fmul (all_volume res) pct \<le> value_area_volume res \<or> (\<forall>p \<in> set (dict_keys ns). val_low res \<le> p \<and> p \<le> vah res))"
proof -
  let ?ps = "sort (dict_keys ns)" and ?t = "fmul (fsum (map total_volume (dict_values ns))) pct"
  let ?vs = "map (\<lambda>p. total_volume (the (dict_get ns p))) ?ps"
  obtain node acc l r where c: "dict_get ns x = Some node" "expand ?vs ?t (total_volume node) (index_of x ?ps) (index_of x ?ps) = (acc, l, r)"
    "res = \<lparr>vah = ?ps ! r, val_low = ?ps ! l, poc = x, all_volume = fsum (map total_volume (dict_values ns)), value_area_volume = acc, percentage = pct,
       node_count = int r - int l + 1, result_ns = now\<rparr>"
    using calculate_eq[OF assms(3)] by metis
  note st = area_start[OF assms(1) c(1)]
  have nn: "\<forall>v \<in> set ?vs. 0 \<le> v" unfolding st(5) using assms(2) by auto
  have b: "l \<le> index_of x ?ps \<and> index_of x ?ps \<le> r \<and> r < length ?ps \<and> (?t \<le> acc \<or> (l = 0 \<and> r + 1 = length ?ps))"
    using expand_area[OF c(2)[folded st(3)] st(1) nn] st(4) by simp
  note so = sorted_keys(1,2,3)[OF assms(1)]
  have int: "p \<in> (\<lambda>i. ?ps ! i) ` {l..r} \<longleftrightarrow> p \<in> set (dict_keys ns) \<and> ?ps ! l \<le> p \<and> p \<le> ?ps ! r" for p
    using sorted_interval[OF so(1,2), of l r p] b by simp
  have "inj_on (\<lambda>i. ?ps ! i) {l..r}" using so(2) b by (auto simp: inj_on_def nth_eq_iff_index_eq)
  then have "card {p \<in> set (dict_keys ns). ?ps ! l \<le> p \<and> p \<le> ?ps ! r} = r + 1 - l"
  proof -
    assume inj: "inj_on (\<lambda>i. ?ps ! i) {l..r}"
    have "{p \<in> set (dict_keys ns). ?ps ! l \<le> p \<and> p \<le> ?ps ! r} = (\<lambda>i. ?ps ! i) ` {l..r}" using int by blast
    then show ?thesis using card_image[OF inj] by (simp only: card_atLeastAtMost)
  qed
  then have "int r - int l + 1 = int (card {p \<in> set (dict_keys ns). ?ps ! l \<le> p \<and> p \<le> ?ps ! r})" using b by simp
  moreover have "\<forall>p \<in> set (dict_keys ns). ?ps ! l \<le> p \<and> p \<le> ?ps ! r" if "l = 0 \<and> r + 1 = length ?ps"
  proof -
    have "(\<lambda>i. ?ps ! i) ` {l..r} = set ?ps" using that by (auto simp: in_set_conv_nth set_conv_nth)
    then show ?thesis using int by auto
  qed
  moreover have "?ps ! l \<le> x" "x \<le> ?ps ! r" using b sorted_nth_mono[OF so(1), of l "index_of x ?ps"] sorted_nth_mono[OF so(1), of "index_of x ?ps" r] st(1,2,4) by auto
  moreover have "?ps ! l \<in> set (dict_keys ns)" "?ps ! r \<in> set (dict_keys ns)" using b nth_mem[of l ?ps] nth_mem[of r ?ps] by (auto simp: less_le_trans)
  ultimately show ?thesis using b unfolding c(3) by auto
qed

text \<open>The value area of a profile without negative volumes is an interval of its prices around the point of control, and it stops only when the target share
  of the volume is reached or every price is in it.\<close>

theorem value_area_covers:
  assumes "wf_dict ns" "\<forall>n \<in> set (dict_values ns). 0 \<le> total_volume n" "calculate pct now ns x = (Some res, ns1)"
  shows "val_low res \<in> set (dict_keys ns) \<and> vah res \<in> set (dict_keys ns) \<and> val_low res \<le> poc res \<and> poc res \<le> vah res \<and> poc res = x \<and>
    node_count res = int (card {p \<in> set (dict_keys ns). val_low res \<le> p \<and> p \<le> vah res}) \<and>
    (fmul (all_volume res) pct \<le> value_area_volume res \<or> (\<forall>p \<in> set (dict_keys ns). val_low res \<le> p \<and> p \<le> vah res))"
  using value_area_helper[OF assms] .

lemma all_positions: "(\<lambda>i. xs ! i) ` {..<length xs} = set xs"
  by (auto simp: set_conv_nth)

text \<open>On volumes that are whole numbers with a total below 2^53 the volume reported for the value area is exactly the sum of the volumes at its prices.\<close>

theorem value_area_volume_is_sum:
  fixes ns :: nodes and w :: "pyfloat \<Rightarrow> nat"
  assumes "wf_dict ns" "\<forall>(p, n) \<in> set ns. total_volume n = of_nat (w p)" "(\<Sum>p \<in> set (dict_keys ns). w p) < 2 ^ 53"
    "calculate pct now ns x = (Some res, ns1)"
  shows "value_area_volume res = of_nat (\<Sum>p \<in> {p \<in> set (dict_keys ns). val_low res \<le> p \<and> p \<le> vah res}. w p)"
proof -
  let ?ps = "sort (dict_keys ns)" and ?t = "fmul (fsum (map total_volume (dict_values ns))) pct"
  let ?vs = "map (\<lambda>p. total_volume (the (dict_get ns p))) ?ps"
  obtain node acc l r where c: "dict_get ns x = Some node" "expand ?vs ?t (total_volume node) (index_of x ?ps) (index_of x ?ps) = (acc, l, r)"
    "vah res = ?ps ! r" "val_low res = ?ps ! l" "value_area_volume res = acc"
    using calculate_eq[OF assms(4)] by (metis ValueAreaResult.select_convs(1,2,5))
  note st = area_start[OF assms(1) c(1)] and so = sorted_keys(1,2,3)[OF assms(1)]
  have v: "?vs ! i = of_nat (w (?ps ! i))" if "i < length ?vs" for i
  proof -
    have "?ps ! i \<in> fst ` set ns" using that so(3) nth_mem[of i ?ps] by simp
    then obtain n where n: "(?ps ! i, n) \<in> set ns" by force
    then have "dict_get ns (?ps ! i) = Some n" using assms(1) by (simp add: wf_dict_mem)
    then show ?thesis using that n assms(2) by auto
  qed
  have nn: "\<forall>v \<in> set ?vs. 0 \<le> v" unfolding st(5) using assms(2) by force
  have b: "l \<le> index_of x ?ps \<and> index_of x ?ps \<le> r \<and> r < length ?ps"
    using expand_area[OF c(2)[folded st(3)] st(1) nn] st(4) by simp
  have ss: "{l..r} \<subseteq> {..<length ?ps}" using b by auto
  have inj: "inj_on (\<lambda>i. ?ps ! i) A" if "A \<subseteq> {..<length ?ps}" for A by (rule inj_on_nth) (use so(2) that in auto)
  have "(\<Sum>i < length ?vs. w (?ps ! i)) = (\<Sum>p \<in> (\<lambda>i. ?ps ! i) ` {..<length ?ps}. w p)" using sum.reindex[OF inj[of "{..<length ?ps}"], of w] by simp
  also have "(\<lambda>i. ?ps ! i) ` {..<length ?ps} = set (dict_keys ns)" using so(3) by (simp only: all_positions list.set_map)
  finally have "(\<Sum>i < length ?vs. w (?ps ! i)) < 2 ^ 53" using assms(3) by simp
  from expand_exact[OF c(2)[folded st(3)] st(1) v this] have "acc = of_nat (\<Sum>i \<in> {l..r}. w (?ps ! i))" by simp
  also have "(\<Sum>i \<in> {l..r}. w (?ps ! i)) = (\<Sum>p \<in> (\<lambda>i. ?ps ! i) ` {l..r}. w p)" using sum.reindex[OF inj[OF ss], of w] by simp
  also have "(\<lambda>i. ?ps ! i) ` {l..r} = {p \<in> set (dict_keys ns). ?ps ! l \<le> p \<and> p \<le> ?ps ! r}"
    using sorted_interval[OF so(1,2), of l r] b so(3) by auto
  finally show ?thesis unfolding c(3-5) .
qed

text \<open>The flags of the high and the low end of the value area mark not one price each but all prices from the point of control to that end.\<close>

theorem flags_mark_halves:
  assumes "wf_dict ns" "\<forall>n \<in> set (dict_values ns). 0 \<le> total_volume n" "calculate pct now ns x = (Some res, ns1)" "dict_get ns1 p = Some n"
  shows "is_vah n \<longleftrightarrow> x \<le> p \<and> p \<le> vah res" "is_val n \<longleftrightarrow> val_low res \<le> p \<and> p \<le> x"
proof -
  let ?ps = "sort (dict_keys ns)" and ?t = "fmul (fsum (map total_volume (dict_values ns))) pct"
  let ?vs = "map (\<lambda>p. total_volume (the (dict_get ns p))) ?ps" and ?k = "index_of x (sort (dict_keys ns))"
  obtain node acc l r where c: "dict_get ns x = Some node" "expand ?vs ?t (total_volume node) ?k ?k = (acc, l, r)"
    "vah res = ?ps ! r" "val_low res = ?ps ! l" "ns1 = mark ?ps l ?k r ns"
    using calculate_eq[OF assms(3)] by (metis ValueAreaResult.select_convs(1,2))
  note st = area_start[OF assms(1) c(1)] and so = sorted_keys(1,2,3)[OF assms(1)]
  have nn: "\<forall>v \<in> set ?vs. 0 \<le> v" unfolding st(5) using assms(2) by auto
  have b: "l \<le> ?k \<and> ?k \<le> r \<and> r < length ?ps" using expand_area[OF c(2)[folded st(3)] st(1) nn] st(4) by simp
  have m: "p \<in> set (dict_keys ns)" "is_vah n = (p \<in> set (take (r + 1 - ?k) (drop ?k ?ps)))" "is_val n = (p \<in> set (take (?k + 1 - l) (drop l ?ps)))"
    using assms(4) unfolding c(5) mark_def by (force dest!: map_of_SomeD)+
  show "is_vah n \<longleftrightarrow> x \<le> p \<and> p \<le> vah res"
    using m(1,2) sorted_interval[OF so(1,2), of ?k r p] take_drop_image[of ?k r ?ps] b so(3) st(2) c(3) by simp
  show "is_val n \<longleftrightarrow> val_low res \<le> p \<and> p \<le> x"
    using m(1,3) sorted_interval[OF so(1,2), of l ?k p] take_drop_image[of l ?k ?ps] b so(3) st(2) c(4) by simp
qed

section \<open>Point of control\<close>

datatype va_op = Trade string pyfloat pyfloat bool "int option" int | Area string bool "MarketRegime option" int | Reset string | Observe

fun va_step :: "va_op \<Rightarrow> tracker \<Rightarrow> tracker" where
  "va_step (Trade s x v m ts now) t = snd (add_trade s x v m ts now t)"
| "va_step (Area s a g now) t = snd (snd (calculate_value_area s a g now t))"
| "va_step (Reset s) t = reset_profile s t"
| "va_step Observe t = add_observer t"

text \<open>Trades have a volume that is not negative and a price that is not zero.\<close>

fun sane :: "va_op \<Rightarrow> bool" where
  "sane (Trade s x v m ts now) \<longleftrightarrow> x \<noteq> 0 \<and> 0 \<le> v"
| "sane op \<longleftrightarrow> True"

definition node_ok :: "pyfloat \<Rightarrow> VolumeNode \<Rightarrow> bool" where
  "node_ok p n \<longleftrightarrow> p \<noteq> 0 \<and> price n = p \<and> 0 \<le> bid_volume n \<and> 0 \<le> ask_volume n \<and> is_float (bid_volume n) \<and> is_float (ask_volume n) \<and>
     total_volume n = fadd (bid_volume n) (ask_volume n)"

lemma node_total: "node_ok p n \<Longrightarrow> 0 \<le> total_volume n"
  by (simp add: node_ok_def fadd_nonneg)

text \<open>What the nodes of a symbol and its point of control have to do with each other.\<close>

definition profile_ok :: "nodes \<Rightarrow> pyfloat option \<Rightarrow> bool" where
  "profile_ok ns c \<longleftrightarrow> wf_dict ns \<and> (\<forall>p n. dict_get ns p = Some n \<longrightarrow> node_ok p n) \<and>
     (case c of
        None \<Rightarrow> ns = []
      | Some q \<Rightarrow> \<exists>m. dict_get ns q = Some m \<and>
          (\<forall>p n. dict_get ns p = Some n \<longrightarrow> total_volume n \<le> total_volume m \<and> (is_poc n \<longleftrightarrow> p = q)))"

definition va_inv :: "tracker \<Rightarrow> bool" where
  "va_inv t \<longleftrightarrow> (\<forall>s. profile_ok (nodes_of s t) (dict_get (poc_cache t) s))"

lemma traded_ok:
  assumes "node_ok p n" "0 \<le> v"
  shows "node_ok p (traded v m ts n) \<and> total_volume n \<le> total_volume (traded v m ts n) \<and> is_poc (traded v m ts n) = is_poc n"
proof -
  have "bid_volume n \<le> fadd (bid_volume n) v" "ask_volume n \<le> fadd (ask_volume n) v"
    using assms by (simp_all add: node_ok_def fadd_ge)
  moreover have "is_float (fadd a b)" for a b by (simp add: fadd_def)
  ultimately show ?thesis using assms
    by (auto simp: node_ok_def traded_def Let_def intro!: fadd_nonneg fadd_mono)
qed

lemma node_of_trade:
  assumes "profile_ok ns c" "x \<noteq> 0" "0 \<le> v"
  defines "n0 \<equiv> case dict_get ns x of None \<Rightarrow> new_node x | Some n \<Rightarrow> n"
  shows "node_ok x n0" "node_ok x (traded v m ts n0)" "total_volume n0 \<le> total_volume (traded v m ts n0)" "is_poc (traded v m ts n0) = is_poc n0"
    "c = Some q \<Longrightarrow> q \<noteq> x \<Longrightarrow> \<not> is_poc n0"
proof -
  show n0: "node_ok x n0" using assms(1,2) by (auto simp: n0_def profile_ok_def node_ok_def new_node_def fadd_def split: option.split)
  show "node_ok x (traded v m ts n0)" "total_volume n0 \<le> total_volume (traded v m ts n0)" "is_poc (traded v m ts n0) = is_poc n0"
    using traded_ok[OF n0 assms(3)] by blast+
  show "c = Some q \<Longrightarrow> q \<noteq> x \<Longrightarrow> \<not> is_poc n0" using assms(1) by (auto simp: n0_def profile_ok_def new_node_def split: option.split)
qed

lemma nodes_of_set [simp]: "nodes_of s (t\<lparr>profile := dict_set u ns (profile t)\<rparr>) = (if s = u then ns else nodes_of s t)"
  "nodes_of s (t\<lparr>profile := dict_set u ns (profile t), poc_cache := c\<rparr>) = (if s = u then ns else nodes_of s t)"
  by (simp_all add: nodes_of_def dict_get_set)

text \<open>The three ways a trade ends.\<close>

lemma add_trade_cases:
  assumes "profile_ok (nodes_of s t) (dict_get (poc_cache t) s)" "x \<noteq> 0" "0 \<le> v"
  shows "\<exists>ns c. snd (add_trade s x v m ts now t) = t\<lparr>profile := dict_set s ns (profile t), poc_cache := c\<rparr> \<and>
    (\<forall>u. u \<noteq> s \<longrightarrow> dict_get c u = dict_get (poc_cache t) u) \<and> profile_ok ns (dict_get c s) \<and> fst (add_trade s x v m ts now t) = Inr ()"
proof -
  let ?ns = "nodes_of s t" and ?ts = "case ts of None \<Rightarrow> now | Some u \<Rightarrow> if u = 0 then now else u"
  let ?n = "traded v m ?ts (case dict_get ?ns x of None \<Rightarrow> new_node x | Some n \<Rightarrow> n)"
  let ?ns1 = "dict_set x ?n ?ns"
  note tr = node_of_trade[OF assms(1-3)]
  have ok: "wf_dict ?ns" "\<And>p n. dict_get ?ns p = Some n \<Longrightarrow> node_ok p n" using assms(1) by (auto simp: profile_ok_def)
  have flag: "node_ok p (n\<lparr>is_poc := b\<rparr>) = node_ok p n" for p n b by (simp add: node_ok_def)
  show ?thesis
  proof (cases "dict_get (poc_cache t) s")
    case None
    then have e: "?ns = []" using assms(1) by (simp add: profile_ok_def)
    then have "profile_ok (dict_set x (?n\<lparr>is_poc := True\<rparr>) ?ns1) (Some x)"
      using tr(2) by (auto simp: profile_ok_def flag wf_dict_def)
    then show ?thesis using None
      by (intro exI[of _ "dict_set x (?n\<lparr>is_poc := True\<rparr>) ?ns1"] exI[of _ "dict_set s x (poc_cache t)"]) (simp add: add_trade_def Let_def dict_get_set)
  next
    case (Some q)
    obtain k where k: "dict_get ?ns q = Some k" "\<And>p n. dict_get ?ns p = Some n \<Longrightarrow> total_volume n \<le> total_volume k \<and> (is_poc n \<longleftrightarrow> p = q)"
      using assms(1) unfolding profile_ok_def Some by auto
    have q0: "q \<noteq> 0" using ok(2)[OF k(1)] by (simp add: node_ok_def)
    show ?thesis
    proof (cases "q = x")
      case True
      then have n0: "(case dict_get ?ns x of None \<Rightarrow> new_node x | Some n \<Rightarrow> n) = k" using k(1) by simp
      have le: "total_volume k \<le> total_volume ?n" using tr(3)[of m ?ts] unfolding n0 .
      have fl: "is_poc ?n" using tr(4)[of m ?ts] k(2)[OF k(1)] unfolding n0 by simp
      have "profile_ok ?ns1 (Some q)"
        unfolding profile_ok_def option.case
      proof (intro conjI allI impI exI[of _ ?n])
        fix p n
        assume p: "dict_get ?ns1 p = Some n"
        show "node_ok p n" using p ok(2) tr(2) by (auto simp: dict_get_set split: if_splits)
        have c: "n = ?n \<and> p = x \<or> p \<noteq> x \<and> dict_get ?ns p = Some n" using p by (auto simp: dict_get_set split: if_splits)
        then show "total_volume n \<le> total_volume ?n" using k(2)[of p n] le by (meson order_refl order_trans)
        show "is_poc n = (p = q)" using c k(2)[of p n] fl True by blast
      qed (use True ok(1) in \<open>auto simp: dict_get_set\<close>)
      then show ?thesis using Some True
        by (intro exI[of _ ?ns1] exI[of _ "poc_cache t"]) (simp add: add_trade_def Let_def dict_get_set)
    next
      case no: False
      have q1: "dict_get ?ns1 q = Some k" using k(1) no by (simp add: dict_get_set)
      show ?thesis
      proof (cases "total_volume k < total_volume ?n")
        case True
        let ?ns3 = "dict_set x (?n\<lparr>is_poc := True\<rparr>) (dict_set q (k\<lparr>is_poc := False\<rparr>) ?ns1)"
        have "profile_ok ?ns3 (Some x)"
          unfolding profile_ok_def option.case
        proof (intro conjI allI impI exI[of _ "?n\<lparr>is_poc := True\<rparr>"])
          fix p n
          assume p: "dict_get ?ns3 p = Some n"
          show "node_ok p n" using p ok(2) tr(2) k(1) by (auto simp: dict_get_set flag split: if_splits)
          show "total_volume n \<le> total_volume (?n\<lparr>is_poc := True\<rparr>)"
            using p k(2)[of p n] True by (auto simp: dict_get_set split: if_splits)
          show "is_poc n = (p = x)" using p k(2)[of p n] by (auto simp: dict_get_set split: if_splits)
        qed (use ok(1) in \<open>auto simp: dict_get_set\<close>)
        then show ?thesis using Some True q1 q0
          by (intro exI[of _ ?ns3] exI[of _ "dict_set s x (poc_cache t)"]) (simp add: add_trade_def Let_def dict_get_set)
      next
        case False
        have "profile_ok ?ns1 (Some q)"
          unfolding profile_ok_def option.case
        proof (intro conjI allI impI exI[of _ k])
          fix p n
          assume p: "dict_get ?ns1 p = Some n"
          show "node_ok p n" using p ok(2) tr(2) by (auto simp: dict_get_set split: if_splits)
          show "total_volume n \<le> total_volume k" using p k(2)[of p n] False by (auto simp: dict_get_set split: if_splits)
          show "is_poc n = (p = q)" using p k(2)[of p n] tr(4) tr(5)[OF Some no] no by (auto simp: dict_get_set split: if_splits)
        qed (use ok(1) q1 in \<open>auto simp: dict_get_set\<close>)
        then show ?thesis using Some False q1
          by (intro exI[of _ ?ns1] exI[of _ "poc_cache t"]) (simp add: add_trade_def Let_def)
      qed
    qed
  qed
qed

lemma mark_get: "dict_get (mark ps l k r ns) p =
    map_option (\<lambda>n. n\<lparr>is_vah := p \<in> set (take (r + 1 - k) (drop k ps)), is_val := p \<in> set (take (k + 1 - l) (drop l ps))\<rparr>) (dict_get ns p)"
  by (induction ns) (auto simp: mark_def)

lemma mark_keys [simp]: "map fst (mark ps l k r ns) = map fst ns"
  by (simp add: mark_def comp_def case_prod_unfold)

lemma mark_wf [simp]: "wf_dict (mark ps l k r ns) = wf_dict ns" "mark ps l k r [] = []"
  by (simp_all add: wf_dict_def mark_def comp_def case_prod_unfold)

lemma mark_node [simp]: "node_ok p (n\<lparr>is_vah := a, is_val := b\<rparr>) = node_ok p n"
  by (simp add: node_ok_def)

lemma mark_ok: "profile_ok ns c \<Longrightarrow> profile_ok (mark ps l k r ns) c"
  by (cases c) (auto simp: profile_ok_def mark_get)

lemma calculate_ok:
  assumes "profile_ok ns c"
  shows "profile_ok (snd (calculate pct now ns x)) c"
  using assms mark_ok by (auto simp: calculate_def Let_def split: option.split prod.split)

lemma strategy_ok: "profile_ok ns c \<Longrightarrow> profile_ok (snd (strategy_calculate st now ns x)) c"
  by (cases st) (simp_all add: adaptive_calculate_def calculate_ok)

lemma va_step_inv:
  assumes "va_inv t" "sane x"
  shows "va_inv (va_step x t)"
proof (cases x)
  case (Trade s p v m ts now)
  have "p \<noteq> 0" "0 \<le> v" using assms(2) Trade by simp_all
  moreover have "profile_ok (nodes_of s t) (dict_get (poc_cache t) s)" using assms(1) by (simp add: va_inv_def)
  ultimately obtain ns c where c: "snd (add_trade s p v m ts now t) = t\<lparr>profile := dict_set s ns (profile t), poc_cache := c\<rparr>"
    "\<forall>u. u \<noteq> s \<longrightarrow> dict_get c u = dict_get (poc_cache t) u" "profile_ok ns (dict_get c s)"
    using add_trade_cases by blast
  then show ?thesis using assms(1) unfolding Trade va_step.simps c(1) by (simp add: va_inv_def)
next
  case (Area s a g now)
  have k: "profile_ok (nodes_of u t) (dict_get (poc_cache t) u)" for u using assms(1) by (simp add: va_inv_def)
  show ?thesis
  proof (cases "nodes_of s t = [] \<or> dict_get (poc_cache t) s = None")
    case True
    then show ?thesis using assms(1) Area by (auto simp: calculate_value_area_def split: option.split)
  next
    case False
    then obtain c where c: "dict_get (poc_cache t) s = Some c" by auto
    let ?r = "if a then adaptive_calculate (case g of None \<Rightarrow> detect_regime s t | Some x \<Rightarrow> x) now (nodes_of s t) c
       else strategy_calculate (the_strategy t) now (nodes_of s t) c"
    obtain res ns where r: "?r = (res, ns)" by fastforce
    have "profile_ok (snd ?r) (Some c)" using k[of s] c by (simp add: adaptive_calculate_def calculate_ok strategy_ok)
    then have ns: "profile_ok ns (Some c)" unfolding r by simp
    have "snd (snd (calculate_value_area s a g now t)) = t\<lparr>profile := dict_set s ns (profile t)\<rparr>"
      using False c unfolding calculate_value_area_def by (simp add: r Let_def)
    then show ?thesis using k c ns unfolding Area va_step.simps by (simp add: va_inv_def)
  qed
next
  case (Reset s)
  have "nodes_of u (reset_profile s t) = (if u = s then [] else nodes_of u t)" for u
    by (simp add: nodes_of_def reset_profile_def dict_get_set split: option.split)
  moreover have "dict_get (poc_cache (reset_profile s t)) u = (if u = s then None else dict_get (poc_cache t) u)" for u
    by (simp add: reset_profile_def dict_get_pop)
  ultimately show ?thesis using assms(1) Reset by (simp add: va_inv_def profile_ok_def)
next
  case Observe
  then show ?thesis using assms(1) by (simp add: va_inv_def add_observer_def nodes_of_def)
qed

lemma va_run_inv:
  assumes "\<forall>x \<in> set ops. sane x"
  shows "va_inv (fold va_step ops (tracker_init st))"
proof -
  have "va_inv t \<Longrightarrow> va_inv (fold va_step ops t)" for t
    using assms by (induction ops arbitrary: t) (auto intro: va_step_inv)
  moreover have "va_inv (tracker_init st)" by (simp add: va_inv_def tracker_init_def nodes_of_def profile_ok_def)
  ultimately show ?thesis by blast
qed

text \<open>In every run of trades, calculations and resets the point of control of a symbol is the price with the largest volume, its node is the only one that is
  flagged, and a symbol without point of control has no volume; trades never raise.\<close>

theorem poc_is_heaviest:
  assumes "\<forall>x \<in> set ops. sane x" "x \<noteq> 0" "0 \<le> v"
  shows "case get_current_poc s (fold va_step ops (tracker_init st)) of
      None \<Rightarrow> nodes_of s (fold va_step ops (tracker_init st)) = []
    | Some q \<Rightarrow> \<exists>m. dict_get (nodes_of s (fold va_step ops (tracker_init st))) q = Some m \<and>
        (\<forall>p n. dict_get (nodes_of s (fold va_step ops (tracker_init st))) p = Some n \<longrightarrow> total_volume n \<le> total_volume m \<and> (is_poc n \<longleftrightarrow> p = q))"
    "fst (add_trade s x v b ts now (fold va_step ops (tracker_init st))) = Inr ()"
proof -
  have k: "profile_ok (nodes_of s (fold va_step ops (tracker_init st))) (dict_get (poc_cache (fold va_step ops (tracker_init st))) s)"
    using va_run_inv[OF assms(1)] by (simp add: va_inv_def)
  then show "case get_current_poc s (fold va_step ops (tracker_init st)) of
      None \<Rightarrow> nodes_of s (fold va_step ops (tracker_init st)) = []
    | Some q \<Rightarrow> \<exists>m. dict_get (nodes_of s (fold va_step ops (tracker_init st))) q = Some m \<and>
        (\<forall>p n. dict_get (nodes_of s (fold va_step ops (tracker_init st))) p = Some n \<longrightarrow> total_volume n \<le> total_volume m \<and> (is_poc n \<longleftrightarrow> p = q))"
    unfolding get_current_poc_def profile_ok_def by (auto split: option.splits)
  show "fst (add_trade s x v b ts now (fold va_step ops (tracker_init st))) = Inr ()" using add_trade_cases[OF k assms(2,3)] by blast
qed

lemma sorted_item_le:
  fixes xs :: "pyfloat list"
  assumes "py_item (sort xs) i = Inr y" "m \<in> set xs" "\<forall>x \<in> set xs. x \<le> m"
  shows "y \<le> m"
proof -
  have "y \<in> set (sort xs)" using assms(1) unfolding py_item_def by (auto simp del: set_sort split: if_splits intro!: nth_mem)
  then have "y \<in> set xs" by simp
  then show ?thesis using assms(3) by blast
qed

text \<open>Whatever the threshold, when the high-volume prices of a symbol with trades are found, the point of control is among them.\<close>

theorem poc_is_high_volume:
  assumes "\<forall>x \<in> set ops. sane x" "get_current_poc s (fold va_step ops (tracker_init st)) = Some q"
    "identify_high_volume_nodes s thr (fold va_step ops (tracker_init st)) = Inr ps"
  shows "q \<in> set ps"
proof -
  let ?t = "fold va_step ops (tracker_init st)"
  have k: "profile_ok (nodes_of s ?t) (Some q)"
    using va_run_inv[OF assms(1), of st] assms(2) by (metis va_inv_def get_current_poc_def)
  then obtain m where m: "dict_get (nodes_of s ?t) q = Some m" "\<And>p n. dict_get (nodes_of s ?t) p = Some n \<Longrightarrow> total_volume n \<le> total_volume m"
    "price m = q" "wf_dict (nodes_of s ?t)"
    unfolding profile_ok_def by (auto simp: node_ok_def)
  have ne: "nodes_of s ?t \<noteq> []" using m(1) by auto
  obtain y where y: "threshold_volume (nodes_of s ?t) thr = Inr y" "ps = map price (filter (\<lambda>n. y \<le> total_volume n) (dict_values (nodes_of s ?t)))"
    using assms(3) ne by (auto simp: identify_high_volume_nodes_def Let_def elim!: bind_InrE)
  have mem: "m \<in> set (dict_values (nodes_of s ?t))" by (rule dict_get_values[OF m(1)])
  have "y \<le> total_volume m"
  proof (rule sorted_item_le)
    show "py_item (sort (map total_volume (dict_values (nodes_of s ?t))))
       (min (int_of_float (fmul (of_nat (length (sort (map total_volume (dict_values (nodes_of s ?t)))))) thr))
         (int (length (sort (map total_volume (dict_values (nodes_of s ?t))))) - 1)) = Inr y"
      using y(1) by (simp add: threshold_volume_def Let_def)
    show "total_volume m \<in> set (map total_volume (dict_values (nodes_of s ?t)))" using mem by auto
    show "\<forall>x \<in> set (map total_volume (dict_values (nodes_of s ?t))). x \<le> total_volume m" using m(2,4) by (auto simp: wf_dict_mem)
  qed
  then show ?thesis using mem m(3) unfolding y(2) by auto
qed

lemma strategy_run: "the_strategy (fold va_step ops t) = the_strategy t"
proof (induction ops arbitrary: t)
  case (Cons x xs)
  have "the_strategy (va_step x t) = the_strategy t"
    by (cases x) (auto simp: add_trade_def calculate_value_area_def reset_profile_def add_observer_def Let_def split: option.split prod.split)
  then show ?case using Cons by simp
qed simp

text \<open>In every run, a value area that is calculated for a symbol lies around its point of control, and reaches the target volume or spans all prices.\<close>

theorem calculated_area_surrounds_poc:
  assumes "\<forall>x \<in> set ops. sane x" "calculate_value_area s False None now (fold va_step ops (tracker_init (Some (Percentage pct)))) = (Some res, k, t1)"
  shows "get_current_poc s (fold va_step ops (tracker_init (Some (Percentage pct)))) = Some (poc res) \<and> val_low res \<le> poc res \<and> poc res \<le> vah res \<and>
    (fmul (all_volume res) pct \<le> value_area_volume res \<or>
      (\<forall>p \<in> set (dict_keys (nodes_of s (fold va_step ops (tracker_init (Some (Percentage pct)))))). val_low res \<le> p \<and> p \<le> vah res))"
proof -
  let ?t = "fold va_step ops (tracker_init (Some (Percentage pct)))"
  have st: "the_strategy ?t = Percentage pct" using strategy_run[of ops] by (simp add: tracker_init_def)
  obtain c where c: "dict_get (poc_cache ?t) s = Some c" "fst (calculate pct now (nodes_of s ?t) c) = Some res"
    using assms(2) st by (auto simp: calculate_value_area_def Let_def split: if_splits option.splits prod.splits)
  obtain ns1 where ns1: "calculate pct now (nodes_of s ?t) c = (Some res, ns1)" using c(2) by (metis prod.collapse)
  have k: "profile_ok (nodes_of s ?t) (Some c)" using va_run_inv[OF assms(1), of "Some (Percentage pct)"] c(1) by (metis va_inv_def)
  then have w: "wf_dict (nodes_of s ?t)" by (simp add: profile_ok_def)
  have "\<forall>n \<in> set (dict_values (nodes_of s ?t)). 0 \<le> total_volume n"
    using k node_total unfolding wf_dict_values[OF w] profile_ok_def Ball_def by blast
  from value_area_helper[OF w this ns1] show ?thesis using c(1) by (simp add: get_current_poc_def)
qed

section \<open>Witnesses\<close>

definition demo_node :: "pyfloat \<Rightarrow> pyfloat \<Rightarrow> VolumeNode" where
  "demo_node x v = (new_node x)\<lparr>total_volume := v, ask_volume := v, trade_count := 1\<rparr>"

definition demo_nodes :: nodes where
  "demo_nodes = [(101, demo_node 101 2), (100, demo_node 100 4), (99, demo_node 99 1)]"

definition demo_area :: "ValueAreaResult" where
  "demo_area = \<lparr>vah = 101, val_low = 100, poc = 100, all_volume = 7, value_area_volume = 6, percentage = 3 / 4, node_count = 2, result_ns = 9\<rparr>"

lemma demo_calculate: "fst (calculate (3 / 4) 9 demo_nodes 100) = Some demo_area"
  by code_simp

lemma demo_result: "calculate (3 / 4) 9 demo_nodes 100 = (Some demo_area, snd (calculate (3 / 4) 9 demo_nodes 100))"
  using demo_calculate by (metis prod.collapse)

lemma demo_nodes_wf: "wf_dict demo_nodes" "\<forall>n \<in> set (dict_values demo_nodes). 0 \<le> total_volume n"
  by (simp_all add: demo_nodes_def demo_node_def wf_dict_def)

theorem value_area_covers_witness:
  "val_low demo_area \<le> poc demo_area \<and> poc demo_area \<le> vah demo_area \<and>
    node_count demo_area = int (card {p \<in> set (dict_keys demo_nodes). val_low demo_area \<le> p \<and> p \<le> vah demo_area})"
  using value_area_covers[OF demo_nodes_wf demo_result] by blast

theorem value_area_volume_is_sum_witness:
  "value_area_volume demo_area = of_nat (\<Sum>p \<in> {p \<in> set (dict_keys demo_nodes). val_low demo_area \<le> p \<and> p \<le> vah demo_area}.
    (if p = 101 then 2 else if p = 100 then 4 else 1))"
  by (rule value_area_volume_is_sum[OF demo_nodes_wf(1) _ _ demo_result]) (auto simp: demo_nodes_def demo_node_def)

lemma demo_get: "\<exists>n. dict_get (snd (calculate (3 / 4) 9 demo_nodes 100)) 101 = Some n"
proof -
  have "dict_get (snd (calculate (3 / 4) 9 demo_nodes 100)) 101 \<noteq> None" by code_simp
  then show ?thesis by blast
qed

theorem flags_mark_halves_witness:
  "\<exists>n. dict_get (snd (calculate (3 / 4) 9 demo_nodes 100)) 101 = Some n \<and> (is_vah n \<longleftrightarrow> 100 \<le> (101::pyfloat) \<and> 101 \<le> vah demo_area)"
proof -
  obtain n where "dict_get (snd (calculate (3 / 4) 9 demo_nodes 100)) 101 = Some n" using demo_get by blast
  then show ?thesis using flags_mark_halves(1)[OF demo_nodes_wf demo_result] by blast
qed

definition demo_ops :: "va_op list" where
  "demo_ops = [Trade ''BTC'' 100 4 True None 1, Trade ''BTC'' 101 2 False None 2]"

lemma demo_sane: "\<forall>x \<in> set demo_ops. sane x"
  by (simp add: demo_ops_def)

theorem poc_is_heaviest_witness:
  "fst (add_trade ''BTC'' 102 1 True None 3 (fold va_step demo_ops (tracker_init None))) = Inr ()"
  by (rule poc_is_heaviest(2)[OF demo_sane]) simp_all

definition demo_tracker :: tracker where
  "demo_tracker = fold va_step demo_ops (tracker_init (Some (Percentage (3 / 4))))"

definition demo_traded :: nodes where
  "demo_traded = [(100, (new_node 100)\<lparr>total_volume := 4, bid_volume := 4, trade_count := 1, is_poc := True, timestamp_ns := 1\<rparr>),
     (101, (new_node 101)\<lparr>total_volume := 2, ask_volume := 2, trade_count := 1, timestamp_ns := 2\<rparr>)]"

lemma demo_state: "nodes_of ''BTC'' demo_tracker = demo_traded" "get_current_poc ''BTC'' demo_tracker = Some 100" "the_strategy demo_tracker = Percentage (3 / 4)"
proof -
  have f: "fadd 0 4 = 4" "fadd 4 0 = 4" "fadd 0 2 = 2" by code_simp+
  show "nodes_of ''BTC'' demo_tracker = demo_traded" "get_current_poc ''BTC'' demo_tracker = Some 100"
    by (simp_all add: get_current_poc_def demo_tracker_def demo_ops_def demo_traded_def add_trade_def traded_def new_node_def nodes_of_def tracker_init_def f Let_def)
  show "the_strategy demo_tracker = Percentage (3 / 4)" by (simp add: demo_tracker_def strategy_run tracker_init_def)
qed

lemmas demo_poc = demo_state(2)

lemma demo_high: "identify_high_volume_nodes ''BTC'' (1 / 2) demo_tracker = Inr [100]"
proof -
  have "fmul 2 (1 / 2) = 1" by code_simp
  then show ?thesis
    by (simp add: identify_high_volume_nodes_def threshold_volume_def demo_state(1) demo_traded_def new_node_def py_item_def bind_def Let_def)
qed

theorem poc_is_high_volume_witness: "(100::pyfloat) \<in> set [100]"
  by (rule poc_is_high_volume[OF demo_sane demo_poc[unfolded demo_tracker_def] demo_high[unfolded demo_tracker_def]])

lemma demo_tracked: "fst (calculate (3 / 4) 9 demo_traded 100) \<noteq> None"
proof -
  have "map_option val_low (fst (calculate (3 / 4) 9 demo_traded 100)) = Some 100" by code_simp
  then show ?thesis by auto
qed

theorem calculated_area_surrounds_poc_witness:
  "\<exists>res k t1. calculate_value_area ''BTC'' False None 9 demo_tracker = (Some res, k, t1) \<and> get_current_poc ''BTC'' demo_tracker = Some (poc res)"
proof -
  obtain res ns where c: "calculate (3 / 4) 9 demo_traded 100 = (Some res, ns)"
    using demo_tracked by (cases "calculate (3 / 4) 9 demo_traded 100") auto
  have ne: "demo_traded \<noteq> []" by (simp add: demo_traded_def)
  obtain res k t1 where r: "calculate_value_area ''BTC'' False None 9 demo_tracker = (Some res, k, t1)"
    using demo_poc by (simp add: calculate_value_area_def get_current_poc_def demo_state(1,3) c ne)
  then show ?thesis using calculated_area_surrounds_poc[OF demo_sane r[unfolded demo_tracker_def]] unfolding demo_tracker_def by blast
qed

end
