(* ===== verification/FeeOptimizer.thy ===== *)
theory FeeOptimizer
  imports Prelude
begin

text \<open>
  \<open>sor/fee_optimizer.py\<close>: fee tiers of the venues and the choice of the venue with the best profit after fees.
\<close>

section \<open>Data\<close>

datatype Venue = BINANCE | COINBASE | KRAKEN | BYBIT | OKX

text \<open>\<open>for venue in Venue\<close>.\<close>

definition venues :: "Venue list" where "venues = [BINANCE, COINBASE, KRAKEN, BYBIT, OKX]"

datatype FeeTier = FeeTier (tier_venue: Venue) (vip_level: int) (maker_fee_bps: pyfloat) (taker_fee_bps: pyfloat) (min_volume_30d: pyfloat)

definition maker_fee_pct :: "FeeTier \<Rightarrow> pyfloat" where "maker_fee_pct t = fdiv (maker_fee_bps t) 100"
definition taker_fee_pct :: "FeeTier \<Rightarrow> pyfloat" where "taker_fee_pct t = fdiv (taker_fee_bps t) 100"

record RoutingDecision =
  venue :: Venue
  is_maker :: bool
  gross_profit_bps :: pyfloat
  total_fees_bps :: pyfloat
  net_profit_bps :: pyfloat
  is_profitable :: bool
  recommended_size :: pyfloat

text \<open>None is infinity.\<close>

definition fee_ratio :: "RoutingDecision \<Rightarrow> pyfloat option" where
  "fee_ratio d = (if gross_profit_bps d \<le> 0 then None else Some (fdiv (total_fees_bps d) (gross_profit_bps d)))"

record optimizer =
  fee_tiers :: "(Venue, FeeTier list) dict"
  current_vip_levels :: "(Venue, int) dict"
  bnb_fee_discount :: pyfloat
  use_bnb_discount :: bool
  withdrawal_costs :: "(string, pyfloat) dict"

fun tiers_of :: "Venue \<Rightarrow> (pyfloat \<times> pyfloat \<times> pyfloat) list" where
  "tiers_of BINANCE = [(10, 10, 0), (9, 10, 50000), (8, 9, 500000), (6, 8, 1000000), (4, 6, 5000000), (2, 4, 10000000)]"
| "tiers_of COINBASE = [(40, 60, 0), (35, 50, 100000), (25, 40, 1000000), (15, 25, 10000000)]"
| "tiers_of KRAKEN = [(16, 26, 0), (14, 24, 50000), (12, 22, 100000), (10, 20, 500000)]"
| "tiers_of BYBIT = [(10, 10, 0), (8, 9, 100000), (6, 8, 500000)]"
| "tiers_of OKX = [(8, 10, 0), (7, 9, 100000), (6, 8, 500000)]"

definition init_fee_tiers :: "(Venue, FeeTier list) dict" where
  "init_fee_tiers = map (\<lambda>v. (v, map (\<lambda>(l, m, t, n). FeeTier v l m t n) (zip (map int [0..<length (tiers_of v)]) (tiers_of v)))) venues"

definition optimizer_init :: optimizer where
  "optimizer_init = \<lparr>fee_tiers = init_fee_tiers, current_vip_levels = map (\<lambda>v. (v, 0)) venues, bnb_fee_discount = 1 / 4, use_bnb_discount = True,
     withdrawal_costs = []\<rparr>"

section \<open>Tiers\<close>

definition set_vip_level :: "Venue \<Rightarrow> int \<Rightarrow> optimizer \<Rightarrow> (exn + unit) \<times> optimizer" where
  "set_vip_level v n s =
     (case dict_get (fee_tiers s) v of
        None \<Rightarrow> (Inr (), s)
      | Some ts \<Rightarrow>
          (if ts = [] then (Inl ValueError, s)
           else (Inr (), s\<lparr>current_vip_levels := dict_set v (min n (Max (vip_level ` set ts))) (current_vip_levels s)\<rparr>)))"

text \<open>The first tier, from the highest level down, that the level reaches; otherwise the first tier of the list.\<close>

definition get_current_fee_tier :: "Venue \<Rightarrow> optimizer \<Rightarrow> exn + FeeTier" where
  "get_current_fee_tier v s =
     (case dict_get (fee_tiers s) v of
        None \<Rightarrow> Inl ValueError
      | Some ts \<Rightarrow>
          (let n = (case dict_get (current_vip_levels s) v of None \<Rightarrow> 0 | Some n \<Rightarrow> n)
           in case filter (\<lambda>t. vip_level t \<le> n) (sort_key (\<lambda>t. - vip_level t) ts) of
                t # _ \<Rightarrow> Inr t
              | [] \<Rightarrow> (case ts of [] \<Rightarrow> Inl IndexError | t # _ \<Rightarrow> Inr t)))"

definition apply_bnb_discount :: "optimizer \<Rightarrow> pyfloat \<Rightarrow> pyfloat \<Rightarrow> pyfloat \<times> pyfloat" where
  "apply_bnb_discount s m t =
     (if \<not> use_bnb_discount s then (m, t) else (let k = fsub 1 (bnb_fee_discount s) in (fmul m k, fmul t k)))"

fun replace_tier :: "Venue \<Rightarrow> int \<Rightarrow> pyfloat \<Rightarrow> pyfloat \<Rightarrow> FeeTier list \<Rightarrow> FeeTier list" where
  "replace_tier v n m t [] = [FeeTier v n m t 0]"
| "replace_tier v n m t (x # xs) = (if vip_level x = n then FeeTier v n m t (min_volume_30d x) # xs else x # replace_tier v n m t xs)"

definition update_fee_tier :: "Venue \<Rightarrow> int \<Rightarrow> pyfloat \<Rightarrow> pyfloat \<Rightarrow> optimizer \<Rightarrow> optimizer" where
  "update_fee_tier v n m t s =
     s\<lparr>fee_tiers := dict_set v (replace_tier v n m t (case dict_get (fee_tiers s) v of None \<Rightarrow> [] | Some ts \<Rightarrow> ts)) (fee_tiers s)\<rparr>"

definition set_withdrawal_cost :: "string \<Rightarrow> pyfloat \<Rightarrow> optimizer \<Rightarrow> optimizer" where
  "set_withdrawal_cost x c s = s\<lparr>withdrawal_costs := dict_set (py_upper x) c (withdrawal_costs s)\<rparr>"

section \<open>Routing\<close>

definition fees :: "Venue \<Rightarrow> optimizer \<Rightarrow> FeeTier \<Rightarrow> pyfloat \<times> pyfloat" where
  "fees v s t = (if v = BINANCE then apply_bnb_discount s (maker_fee_bps t) (taker_fee_bps t) else (maker_fee_bps t, taker_fee_bps t))"

definition calculate_net_profit :: "Venue \<Rightarrow> pyfloat \<Rightarrow> bool \<Rightarrow> pyfloat \<Rightarrow> optimizer \<Rightarrow> exn + RoutingDecision" where
  "calculate_net_profit v gross maker sz s =
     bind (get_current_fee_tier v s) (\<lambda>t.
       let fee = (if maker then fst (fees v s t) else snd (fees v s t)); n = fsub gross fee
       in Inr \<lparr>venue = v, is_maker = maker, gross_profit_bps = gross, total_fees_bps = fee, net_profit_bps = n, is_profitable = 0 < n,
            recommended_size = (if 0 < n then sz else 0)\<rparr>)"

definition should_route_to_venue :: "Venue \<Rightarrow> pyfloat \<Rightarrow> pyfloat \<Rightarrow> optimizer \<Rightarrow> exn + bool" where
  "should_route_to_venue v gross least s = bind (calculate_net_profit v gross True 1000 s) (\<lambda>d. Inr (least \<le> net_profit_bps d))"

text \<open>What one venue adds to the list of decisions.\<close>

definition venue_decisions :: "pyfloat \<Rightarrow> bool \<Rightarrow> optimizer \<Rightarrow> Venue \<Rightarrow> exn + RoutingDecision list" where
  "venue_decisions gross pm s v =
     bind (if pm then calculate_net_profit v gross True 1000 s else calculate_net_profit v gross False 1000 s) (\<lambda>d.
       if is_profitable d then Inr [d]
       else if pm then bind (calculate_net_profit v gross False 1000 s) (\<lambda>d'. Inr (if is_profitable d' then [d'] else []))
       else Inr [])"

fun collect :: "('a \<Rightarrow> exn + 'b list) \<Rightarrow> 'a list \<Rightarrow> exn + 'b list" where
  "collect f [] = Inr []"
| "collect f (x # xs) = bind (f x) (\<lambda>ys. bind (collect f xs) (\<lambda>zs. Inr (ys @ zs)))"

text \<open>\<open>max(\<dots>, key=\<dots>)\<close>: the first of the largest.\<close>

fun best_of :: "RoutingDecision list \<Rightarrow> RoutingDecision option" where
  "best_of [] = None"
| "best_of (d # ds) = Some (foldl (\<lambda>b x. if net_profit_bps b < net_profit_bps x then x else b) d ds)"

definition find_best_venue :: "pyfloat \<Rightarrow> bool \<Rightarrow> optimizer \<Rightarrow> exn + RoutingDecision option" where
  "find_best_venue gross pm s = bind (collect (venue_decisions gross pm s) venues) (\<lambda>ds. Inr (best_of ds))"

definition calculate_cross_exchange_arb_profit :: "Venue \<Rightarrow> Venue \<Rightarrow> pyfloat \<Rightarrow> string \<Rightarrow> pyfloat \<Rightarrow> optimizer \<Rightarrow> exn + pyfloat" where
  "calculate_cross_exchange_arb_profit bv sv gross x sz s =
     bind (calculate_net_profit bv 0 False 1000 s) (\<lambda>b. bind (calculate_net_profit sv 0 False 1000 s) (\<lambda>d.
       let total = fadd (total_fees_bps b) (total_fees_bps d)
       in case dict_get (withdrawal_costs s) (py_upper x) of
            None \<Rightarrow> Inr (fsub (fsub gross total) 0)
          | Some c \<Rightarrow> if sz = 0 then Inl ZeroDivisionError else Inr (fsub (fsub gross total) (fmul (fdiv c sz) 10000))))"


section \<open>Tiers of a run\<close>

datatype fee_op = SetVip Venue int | UpdateTier Venue int pyfloat pyfloat | SetWithdrawal string pyfloat | UseBnb bool

fun fee_step :: "fee_op \<Rightarrow> optimizer \<Rightarrow> optimizer" where
  "fee_step (SetVip v n) s = snd (set_vip_level v n s)"
| "fee_step (UpdateTier v n m t) s = update_fee_tier v n m t s"
| "fee_step (SetWithdrawal x c) s = set_withdrawal_cost x c s"
| "fee_step (UseBnb b) s = s\<lparr>use_bnb_discount := b\<rparr>"

definition tiers_ok :: "optimizer \<Rightarrow> bool" where
  "tiers_ok s \<longleftrightarrow> (\<forall>v. \<exists>ts. dict_get (fee_tiers s) v = Some ts \<and> ts \<noteq> [] \<and> distinct (map vip_level ts))"

lemma replace_levels: "set (map vip_level (replace_tier v n m t ts)) = insert n (set (map vip_level ts))"
  by (induction ts) auto

lemma replace_ok: "distinct (map vip_level ts) \<Longrightarrow> distinct (map vip_level (replace_tier v n m t ts)) \<and> replace_tier v n m t ts \<noteq> []"
proof (induction ts)
  case (Cons x xs)
  then show ?case using replace_levels[of v n m t xs] by auto
qed simp

lemma tiers_step: "tiers_ok s \<Longrightarrow> tiers_ok (fee_step x s)"
proof (cases x)
  case (SetVip v n)
  moreover have "fee_tiers (snd (set_vip_level v n s)) = fee_tiers s" by (simp add: set_vip_level_def split: option.split)
  ultimately show "tiers_ok s \<Longrightarrow> tiers_ok (fee_step x s)" by (simp add: tiers_ok_def)
next
  case (UpdateTier v n m t)
  assume s: "tiers_ok s"
  then obtain ts where ts: "dict_get (fee_tiers s) v = Some ts" "distinct (map vip_level ts)" unfolding tiers_ok_def by blast
  have "\<exists>us. dict_get (fee_tiers (update_fee_tier v n m t s)) u = Some us \<and> us \<noteq> [] \<and> distinct (map vip_level us)" for u
    using s replace_ok[OF ts(2), of v n m t] ts(1) by (cases "u = v") (simp_all add: update_fee_tier_def dict_get_set tiers_ok_def)
  then show "tiers_ok (fee_step x s)" unfolding UpdateTier fee_step.simps tiers_ok_def by blast
qed (simp_all add: tiers_ok_def set_withdrawal_cost_def)

interpretation tiers: op_machine fee_step tiers_ok
  by unfold_locales (rule tiers_step)

lemma tiers_init: "tiers_ok optimizer_init"
proof -
  have "\<exists>ts. dict_get (fee_tiers optimizer_init) v = Some ts \<and> ts \<noteq> [] \<and> distinct (map vip_level ts)" for v
    by (cases v) (simp_all add: optimizer_init_def init_fee_tiers_def venues_def upt_rec)
  then show ?thesis by (simp add: tiers_ok_def)
qed

lemma first_sorted:
  fixes f :: "'a \<Rightarrow> int"
  assumes "filter P (sort_key f xs) = t # ys"
  shows "t \<in> set xs \<and> P t \<and> (\<forall>x \<in> set xs. P x \<longrightarrow> f t \<le> f x)"
proof -
  have e: "sort_key f (filter P xs) = t # ys" using assms by (simp add: filter_sort)
  then have s: "set (t # ys) = set (filter P xs)" using set_sort[of f "filter P xs"] by simp
  have "sorted (map f (t # ys))" using sorted_sort_key[of f "filter P xs"] e by simp
  then have "f t \<le> f x" if "x \<in> set (t # ys)" for x using that by auto
  then show ?thesis using s by auto
qed

text \<open>Whatever tiers are set or updated, a venue always has a current tier: the one with the highest level among those its level reaches, and the first of
  its list if it reaches none.\<close>

theorem tier_is_highest_reached:
  fixes ops v
  defines "s \<equiv> fold fee_step ops optimizer_init"
  shows "\<exists>ts t. dict_get (fee_tiers s) v = Some ts \<and> get_current_fee_tier v s = Inr t \<and> t \<in> set ts \<and>
    (let n = (case dict_get (current_vip_levels s) v of None \<Rightarrow> 0 | Some n \<Rightarrow> n)
     in if \<exists>x \<in> set ts. vip_level x \<le> n then vip_level t = Max {l \<in> vip_level ` set ts. l \<le> n} else t = hd ts)"
proof -
  have "tiers_ok s" unfolding s_def by (rule tiers.run_inv[OF tiers_init])
  then obtain ts where ts: "dict_get (fee_tiers s) v = Some ts" "ts \<noteq> []" unfolding tiers_ok_def by blast
  let ?n = "case dict_get (current_vip_levels s) v of None \<Rightarrow> 0 | Some n \<Rightarrow> n"
  let ?F = "filter (\<lambda>t. vip_level t \<le> ?n) (sort_key (\<lambda>t. - vip_level t) ts)"
  show ?thesis
  proof (cases ?F)
    case Nil
    then have no: "\<forall>x \<in> set ts. \<not> vip_level x \<le> ?n" by (simp add: filter_empty_conv)
    obtain t us where t: "ts = t # us" using ts(2) by (cases ts) auto
    have "get_current_fee_tier v s = Inr t" using ts(1) Nil t by (simp add: get_current_fee_tier_def Let_def)
    then show ?thesis using ts(1) t no by (intro exI[of _ ts] exI[of _ t]) (simp add: Let_def)
  next
    case (Cons t us)
    have t: "t \<in> set ts" "vip_level t \<le> ?n" "\<forall>x \<in> set ts. vip_level x \<le> ?n \<longrightarrow> vip_level x \<le> vip_level t"
      using first_sorted[OF Cons] by auto
    have "Max {l \<in> vip_level ` set ts. l \<le> ?n} = vip_level t" by (rule Max_eqI) (use t in auto)
    moreover have "get_current_fee_tier v s = Inr t" using ts(1) Cons by (simp add: get_current_fee_tier_def Let_def)
    ultimately show ?thesis using ts(1) t by (intro exI[of _ ts] exI[of _ t]) (auto simp: Let_def)
  qed
qed

section \<open>Best venue\<close>

lemma venues_all: "v \<in> set venues"
  by (cases v) (simp_all add: venues_def)

lemma venues_UNIV: "set venues = UNIV"
  using venues_all by auto

lemma net_profit_result:
  assumes "calculate_net_profit v g m sz s = Inr d"
  shows "is_profitable d = (0 < net_profit_bps d)"
    "\<exists>t. get_current_fee_tier v s = Inr t \<and> net_profit_bps d = fsub g (if m then fst (fees v s t) else snd (fees v s t))"
  using assms by (auto simp: calculate_net_profit_def Let_def elim!: bind_InrE)

lemma collect_set:
  assumes "collect f xs = Inr ys"
  shows "y \<in> set ys \<longleftrightarrow> (\<exists>x \<in> set xs. \<exists>zs. f x = Inr zs \<and> y \<in> set zs)" "x \<in> set xs \<Longrightarrow> \<exists>zs. f x = Inr zs"
  using assms by (induction xs arbitrary: ys) (auto elim!: bind_InrE)

lemma best_fold:
  fixes d :: RoutingDecision
  shows "let b = foldl (\<lambda>b x. if net_profit_bps b < net_profit_bps x then x else b) d ds
    in b \<in> set (d # ds) \<and> (\<forall>x \<in> set (d # ds). net_profit_bps x \<le> net_profit_bps b)"
proof (induction ds arbitrary: d)
  case (Cons x xs)
  show ?case
  proof (cases "net_profit_bps d < net_profit_bps x")
    case True
    then show ?thesis using Cons[of x] by (auto simp: Let_def)
  next
    case False
    then show ?thesis using Cons[of d] by (auto simp: Let_def)
  qed
qed simp

lemma best_of_best: "best_of ds = Some b \<Longrightarrow> b \<in> set ds \<and> (\<forall>x \<in> set ds. net_profit_bps x \<le> net_profit_bps b)"
  using best_fold by (cases ds) (auto simp: Let_def)

lemma best_of_None [simp]: "best_of ds = None \<longleftrightarrow> ds = []"
  by (cases ds) auto

lemma venue_decisions_in:
  assumes "venue_decisions g pm s v = Inr ds"
  shows "\<forall>d \<in> set ds. is_profitable d" "pm \<Longrightarrow> calculate_net_profit v g True 1000 s = Inr d \<Longrightarrow> is_profitable d \<Longrightarrow> d \<in> set ds"
    "pm \<Longrightarrow> calculate_net_profit v g True 1000 s = Inr d \<Longrightarrow> \<not> is_profitable d \<Longrightarrow> calculate_net_profit v g False 1000 s = Inr e \<Longrightarrow> is_profitable e \<Longrightarrow> e \<in> set ds"
    "\<not> pm \<Longrightarrow> calculate_net_profit v g False 1000 s = Inr e \<Longrightarrow> is_profitable e \<Longrightarrow> e \<in> set ds"
  using assms by (auto simp: venue_decisions_def split: if_splits elim!: bind_InrE)

lemma venue_decisions_from:
  assumes "venue_decisions g pm s v = Inr ds" "d \<in> set ds"
  shows "\<exists>m. calculate_net_profit v g m 1000 s = Inr d"
  using assms by (auto simp: venue_decisions_def split: if_splits elim!: bind_InrE) blast+

lemma fees_ordered:
  assumes "maker_fee_bps t \<le> taker_fee_bps t" "bnb_fee_discount s \<le> 1"
  shows "fst (fees v s t) \<le> snd (fees v s t)"
proof -
  have "0 \<le> fsub 1 (bnb_fee_discount s)" using assms(2) by (rule fsub_nonneg)
  then have "fmul (maker_fee_bps t) (fsub 1 (bnb_fee_discount s)) \<le> fmul (taker_fee_bps t) (fsub 1 (bnb_fee_discount s))"
    unfolding fmul_def by (intro fl_mono mult_right_mono assms(1))
  then show ?thesis using assms(1) by (simp add: fees_def apply_bnb_discount_def Let_def)
qed

text \<open>The chosen venue is the best one: its decision is profitable, it is what one of the venues offers, and no venue has a better net profit, neither as taker
  nor, when maker orders are preferred, as maker, as long as no tier has a maker fee above its taker fee.\<close>

theorem best_venue_is_best:
  assumes "find_best_venue g pm s = Inr (Some d)" "bnb_fee_discount s \<le> 1"
    "\<forall>v t. get_current_fee_tier v s = Inr t \<longrightarrow> maker_fee_bps t \<le> taker_fee_bps t"
  shows "0 < net_profit_bps d \<and> (\<exists>v m. calculate_net_profit v g m 1000 s = Inr d) \<and>
    (\<forall>v m e. calculate_net_profit v g m 1000 s = Inr e \<and> (m \<longrightarrow> pm) \<longrightarrow> net_profit_bps e \<le> net_profit_bps d)"
proof -
  obtain ds where ds: "collect (venue_decisions g pm s) venues = Inr ds" "best_of ds = Some d"
    using assms(1) by (auto simp: find_best_venue_def elim!: bind_InrE)
  note best = best_of_best[OF ds(2)]
  obtain v0 zs where v0: "venue_decisions g pm s v0 = Inr zs" "d \<in> set zs" using best collect_set(1)[OF ds(1), of d] by blast
  have from_v: "\<exists>m. calculate_net_profit v0 g m 1000 s = Inr d" by (rule venue_decisions_from[OF v0])
  then have pos: "0 < net_profit_bps d" using venue_decisions_in(1)[OF v0(1)] v0(2) net_profit_result(1) by blast
  have le: "net_profit_bps e \<le> net_profit_bps d" if e: "calculate_net_profit v g m 1000 s = Inr e" "m \<longrightarrow> pm" for v m e
  proof (cases "is_profitable e")
    case False
    then show ?thesis using net_profit_result(1)[OF e(1)] pos by simp
  next
    case True
    obtain us where us: "venue_decisions g pm s v = Inr us" using collect_set(2)[OF ds(1) venues_all] by blast
    have in_ds: "x \<in> set us \<Longrightarrow> net_profit_bps x \<le> net_profit_bps d" for x
      using best collect_set(1)[OF ds(1), of x] us venues_all by blast
    consider "m" | "\<not> m" "\<not> pm" | "\<not> m" "pm" by blast
    then show ?thesis
    proof cases
      case 1
      then show ?thesis using in_ds venue_decisions_in(2)[OF us] e True by simp
    next
      case 2
      then show ?thesis using in_ds venue_decisions_in(4)[OF us] e True by simp
    next
      case 3
      obtain f where f: "calculate_net_profit v g True 1000 s = Inr f" using us 3 by (auto simp: venue_decisions_def elim!: bind_InrE)
      have "net_profit_bps e \<le> net_profit_bps f"
        using net_profit_result(2)[OF f] net_profit_result(2)[OF e(1)] 3(1) fees_ordered[of _ s v] assms(2,3) by (auto simp: fsub_def intro!: fl_mono)
      then show ?thesis
        using in_ds venue_decisions_in(2)[OF us 3(2) f] net_profit_result(1)[OF f] net_profit_result(1)[OF e(1)] True by (meson less_le_trans order_trans)
    qed
  qed
  show ?thesis using pos from_v le by blast
qed

text \<open>No venue is found exactly when no venue has a profit after its taker fee nor, when maker orders are preferred, after its maker fee.\<close>

theorem no_venue_iff:
  fixes ops
  defines "s \<equiv> fold fee_step ops optimizer_init"
  shows "find_best_venue g pm s = Inr None \<longleftrightarrow>
    (\<forall>v t. get_current_fee_tier v s = Inr t \<longrightarrow> fsub g (snd (fees v s t)) \<le> 0 \<and> (pm \<longrightarrow> fsub g (fst (fees v s t)) \<le> 0))"
proof -
  have ok: "tiers_ok s" unfolding s_def by (rule tiers.run_inv[OF tiers_init])
  have get: "\<exists>t. get_current_fee_tier v s = Inr t" for v
  proof -
    obtain ts where "dict_get (fee_tiers s) v = Some ts" "ts \<noteq> []" using ok unfolding tiers_ok_def by blast
    then show ?thesis by (auto simp: get_current_fee_tier_def Let_def split: list.split)
  qed
  define profit where "profit v m t = fsub g (if m then fst (fees v s t) else snd (fees v s t))" for v m t
  have one: "venue_decisions g pm s v =
      Inr (if pm \<and> 0 < profit v True t then [\<lparr>venue = v, is_maker = True, gross_profit_bps = g, total_fees_bps = fst (fees v s t),
             net_profit_bps = profit v True t, is_profitable = True, recommended_size = 1000\<rparr>]
         else if 0 < profit v False t then [\<lparr>venue = v, is_maker = False, gross_profit_bps = g, total_fees_bps = snd (fees v s t),
             net_profit_bps = profit v False t, is_profitable = True, recommended_size = 1000\<rparr>] else [])" if "get_current_fee_tier v s = Inr t" for v t
    using that by (auto simp: venue_decisions_def calculate_net_profit_def profit_def Let_def)
  have coll: "(\<forall>x \<in> set xs. \<exists>zs. f x = Inr zs) \<Longrightarrow> (\<exists>ys. collect f xs = Inr ys \<and> (ys = [] \<longleftrightarrow> (\<forall>x \<in> set xs. f x = Inr [])))"
    for f :: "Venue \<Rightarrow> exn + RoutingDecision list" and xs
    by (induction xs) fastforce+
  have "\<forall>x \<in> set venues. \<exists>zs. venue_decisions g pm s x = Inr zs" using get one by blast
  from coll[OF this] obtain ds where ds: "collect (venue_decisions g pm s) venues = Inr ds"
    "ds = [] \<longleftrightarrow> (\<forall>x \<in> set venues. venue_decisions g pm s x = Inr [])" by blast
  have none: "venue_decisions g pm s v = Inr [] \<longleftrightarrow> profit v False t \<le> 0 \<and> (pm \<longrightarrow> profit v True t \<le> 0)" if "get_current_fee_tier v s = Inr t" for v t
    using one[OF that] by auto
  have "find_best_venue g pm s = Inr None \<longleftrightarrow> (\<forall>v. venue_decisions g pm s v = Inr [])"
    using ds by (simp add: find_best_venue_def venues_UNIV)
  also have "\<dots> \<longleftrightarrow> (\<forall>v t. get_current_fee_tier v s = Inr t \<longrightarrow> profit v False t \<le> 0 \<and> (pm \<longrightarrow> profit v True t \<le> 0))"
    using none get by metis
  finally show ?thesis by (simp add: profit_def)
qed

section \<open>New optimizer\<close>

lemma fresh_tier: "get_current_fee_tier v optimizer_init =
    Inr (FeeTier v 0 (case v of BINANCE \<Rightarrow> 10 | COINBASE \<Rightarrow> 40 | KRAKEN \<Rightarrow> 16 | BYBIT \<Rightarrow> 10 | OKX \<Rightarrow> 8)
      (case v of BINANCE \<Rightarrow> 10 | COINBASE \<Rightarrow> 60 | KRAKEN \<Rightarrow> 26 | BYBIT \<Rightarrow> 10 | OKX \<Rightarrow> 10) 0)"
  by (induct v; code_simp)

lemma fresh_fees: "fees BINANCE optimizer_init (FeeTier BINANCE 0 10 10 0) = (15 / 2, 15 / 2)" "v \<noteq> BINANCE \<Longrightarrow> fees v optimizer_init (FeeTier v n m t x) = (m, t)"
proof -
  show "fees BINANCE optimizer_init (FeeTier BINANCE 0 10 10 0) = (15 / 2, 15 / 2)" by code_simp
qed (simp add: fees_def)

lemma fresh_profit: "calculate_net_profit v g m sz optimizer_init =
   (let fee = (if m then (case v of BINANCE \<Rightarrow> 15 / 2 | COINBASE \<Rightarrow> 40 | KRAKEN \<Rightarrow> 16 | BYBIT \<Rightarrow> 10 | OKX \<Rightarrow> 8)
      else (case v of BINANCE \<Rightarrow> 15 / 2 | COINBASE \<Rightarrow> 60 | KRAKEN \<Rightarrow> 26 | BYBIT \<Rightarrow> 10 | OKX \<Rightarrow> 10)); n = fsub g fee
    in Inr \<lparr>venue = v, is_maker = m, gross_profit_bps = g, total_fees_bps = fee, net_profit_bps = n, is_profitable = 0 < n,
      recommended_size = (if 0 < n then sz else 0)\<rparr>)"
  by (cases v) (simp_all add: calculate_net_profit_def fresh_tier fresh_fees Let_def)

text \<open>With the fee tables as they are built in and the discount on, every profitable order goes to Binance: its fee of seven and a half basis points is below
  all others, for makers and takers.\<close>

theorem fresh_optimizer_picks_binance:
  assumes "0 < fsub g (15 / 2)"
  shows "find_best_venue g pm optimizer_init = Inr (Some \<lparr>venue = BINANCE, is_maker = pm, gross_profit_bps = g, total_fees_bps = 15 / 2,
    net_profit_bps = fsub g (15 / 2), is_profitable = True, recommended_size = 1000\<rparr>)"
proof -
  let ?b = "\<lparr>venue = BINANCE, is_maker = pm, gross_profit_bps = g, total_fees_bps = 15 / 2, net_profit_bps = fsub g (15 / 2), is_profitable = True,
    recommended_size = 1000\<rparr>"
  have b: "venue_decisions g pm optimizer_init BINANCE = Inr [?b]"
    using assms by (cases pm) (simp_all add: venue_decisions_def fresh_profit Let_def)
  have worse: "\<exists>ds. venue_decisions g pm optimizer_init v = Inr ds \<and> (\<forall>d \<in> set ds. net_profit_bps d \<le> fsub g (15 / 2))" for v
    by (cases v) (auto simp: venue_decisions_def fresh_profit Let_def fsub_def intro!: fl_mono)
  have coll: "\<exists>ds. collect (venue_decisions g pm optimizer_init) xs = Inr ds \<and> (\<forall>d \<in> set ds. net_profit_bps d \<le> fsub g (15 / 2))" for xs
  proof (induction xs)
    case (Cons x xs)
    then show ?case using worse[of x] by auto
  qed simp
  obtain ds where ds: "collect (venue_decisions g pm optimizer_init) [COINBASE, KRAKEN, BYBIT, OKX] = Inr ds" "\<forall>d \<in> set ds. net_profit_bps d \<le> fsub g (15 / 2)"
    using coll by blast
  have "foldl (\<lambda>b x. if net_profit_bps b < net_profit_bps x then x else b) ?b ds = ?b"
    using ds(2) by (induction ds) (auto simp: not_less)
  moreover have "collect (venue_decisions g pm optimizer_init) venues = Inr (?b # ds)"
    using b ds(1) unfolding venues_def collect.simps(2)[of _ BINANCE] by (simp only: bind_simps append_Cons append_Nil)
  ultimately show ?thesis by (simp add: find_best_venue_def)
qed

section \<open>Witnesses\<close>

lemma demo_profit: "(0::rat) < fsub 15 (15 / 2)"
  by code_simp

theorem fresh_optimizer_picks_binance_witness:
  "find_best_venue 15 True optimizer_init = Inr (Some \<lparr>venue = BINANCE, is_maker = True, gross_profit_bps = 15, total_fees_bps = 15 / 2,
    net_profit_bps = fsub 15 (15 / 2), is_profitable = True, recommended_size = 1000\<rparr>)"
  by (rule fresh_optimizer_picks_binance[OF demo_profit])

definition demo_optimizer :: optimizer where
  "demo_optimizer = optimizer_init\<lparr>use_bnb_discount := False, fee_tiers := [(COINBASE, [FeeTier COINBASE 0 60 60 0]), (BINANCE, [FeeTier BINANCE 0 90 90 0]),
         (KRAKEN, [FeeTier KRAKEN 0 90 90 0]), (BYBIT, [FeeTier BYBIT 0 90 90 0]), (OKX, [FeeTier OKX 0 90 90 0])]\<rparr>"

definition demo_decision :: RoutingDecision where
  "demo_decision = \<lparr>venue = COINBASE, is_maker = False, gross_profit_bps = 61, total_fees_bps = 60, net_profit_bps = 1, is_profitable = True,
     recommended_size = 1000\<rparr>"

lemma demo_tier: "get_current_fee_tier v demo_optimizer = Inr (FeeTier v 0 (if v = COINBASE then 60 else 90) (if v = COINBASE then 60 else 90) 0)"
  by (induct v) (simp_all add: get_current_fee_tier_def demo_optimizer_def optimizer_init_def venues_def)

lemma demo_best: "find_best_venue 61 False demo_optimizer = Inr (Some demo_decision)"
proof -
  have f: "fsub 61 60 = 1" "fsub 61 90 = - 29" by code_simp+
  have d: "\<not> use_bnb_discount demo_optimizer" by (simp add: demo_optimizer_def)
  show ?thesis
    by (simp add: find_best_venue_def venues_def venue_decisions_def calculate_net_profit_def demo_tier fees_def apply_bnb_discount_def f d Let_def
        demo_decision_def)
qed

theorem best_venue_is_best_witness:
  "\<forall>v m e. calculate_net_profit v 61 m 1000 demo_optimizer = Inr e \<and> (m \<longrightarrow> False) \<longrightarrow> net_profit_bps e \<le> net_profit_bps demo_decision"
proof -
  have "bnb_fee_discount demo_optimizer \<le> 1" by (simp add: demo_optimizer_def optimizer_init_def)
  then show ?thesis using best_venue_is_best[OF demo_best] by (auto simp: demo_tier)
qed

end
