(* ===== verification/CashCarry.thy ===== *)
theory CashCarry
  imports Prelude
begin

text \<open>
  \<open>arbitrage/cash_carry_engine.py\<close>: a spot and a perpetual leg sent at the same time, and closed when the basis has moved.

  The exchange and the risk manager are the answers they give, as arguments; what the engine asks the exchange for is the list of requests it returns, in the
  order in which the coroutines ask. Closing has two parts with the wait for the exchange between them, so that overlapping calls can be written down. A
  position id is the pair of its time and its counter, which its text determines.
\<close>

section \<open>Data\<close>

datatype LegStatus = PENDING | SUBMITTED | FILLED | PARTIALLY_FILLED | CANCELLED | FAILED

datatype ArbDirection = LONG_SPOT_SHORT_PERP | SHORT_SPOT_LONG_PERP

datatype market = Spot | Perp

datatype side = Buy | Sell

fun opposite :: "side \<Rightarrow> side" where
  "opposite Buy = Sell" | "opposite Sell = Buy"

type_synonym position_id = "int \<times> int"

text \<open>The texts of error messages: the fixed one, or the text of an exception.\<close>

datatype message = FillTimeout | Text exn

record OrderLeg =
  leg_id :: "position_id \<times> market"
  leg_side :: side
  market_type :: market
  leg_symbol :: string
  quantity :: decimal
  price :: "decimal option"
  status :: LegStatus
  fill_price :: "decimal option"
  fill_quantity :: decimal
  order_id :: "string option"
  submission_time_ns :: int
  fill_time_ns :: int
  error_message :: "message option"

record ArbPosition =
  pos_id :: position_id
  direction :: ArbDirection
  symbol :: string
  spot_leg :: OrderLeg
  perp_leg :: OrderLeg
  entry_basis_bps :: decimal
  target_exit_bps :: decimal
  stop_loss_bps :: decimal
  created_at :: int
  closed_at :: "int option"
  pnl_usdt :: decimal
  realized_bps :: decimal

record engine =
  active_positions :: "(position_id, ArbPosition) dict"
  position_counter :: int
  total_arbs_executed :: int
  successful_arbs :: int
  failed_arbs :: int
  total_pnl_usdt :: decimal

definition engine_init :: engine where
  "engine_init = \<lparr>active_positions = [], position_counter = 0, total_arbs_executed = 0, successful_arbs = 0, failed_arbs = 0, total_pnl_usdt = 0\<rparr>"

definition SUPPORTED_SYMBOLS :: "string list" where "SUPPORTED_SYMBOLS = [''BTC'', ''ETH'', ''SOL'']"
definition MIN_SPREAD_BPS :: decimal where "MIN_SPREAD_BPS = 15"

definition generate_position_id :: "int \<Rightarrow> engine \<Rightarrow> position_id \<times> engine" where
  "generate_position_id ns g = (let n = position_counter g + 1 in ((ns, n), g\<lparr>position_counter := n\<rparr>))"

definition generate_leg_id :: "position_id \<Rightarrow> market \<Rightarrow> position_id \<times> market" where
  "generate_leg_id i m = (i, m)"

section \<open>Legs\<close>

datatype request =
    LimitOrder market string side decimal "decimal option"
  | MarketOrder market string side decimal
  | CancelOrder market string string

text \<open>What \<open>wait_for_fill\<close> answers: whether its status is \<open>filled\<close>, and what \<open>Decimal(str(\<dots>))\<close> makes of its two numbers.\<close>

record fill_reply =
  is_filled :: bool
  reply_price :: "exn + decimal"
  reply_quantity :: "exn + decimal"

record answers =
  placed :: "exn + string option"
  waited :: "exn + fill_reply"
  at_fill :: int

definition limit_order :: "OrderLeg \<Rightarrow> request" where
  "limit_order l = LimitOrder (market_type l) (leg_symbol l) (leg_side l) (quantity l) (price l)"

definition leg_fails :: "exn \<Rightarrow> OrderLeg \<Rightarrow> (exn + bool) \<times> OrderLeg" where
  "leg_fails e l = (Inl e, l\<lparr>status := FAILED, error_message := Some (if e = TimeoutError then FillTimeout else Text e)\<rparr>)"

definition submit_leg :: "answers \<Rightarrow> OrderLeg \<Rightarrow> (exn + bool) \<times> OrderLeg" where
  "submit_leg ans l0 =
     (case placed ans of
        Inl e \<Rightarrow> leg_fails e l0
      | Inr i \<Rightarrow>
          (let l = l0\<lparr>order_id := i, status := SUBMITTED\<rparr>
           in case waited ans of
                Inl e \<Rightarrow> leg_fails e l
              | Inr f \<Rightarrow>
                  (if \<not> is_filled f then (Inr False, l\<lparr>status := PARTIALLY_FILLED\<rparr>)
                   else
                     (case reply_price f of
                        Inl e \<Rightarrow> leg_fails e l
                      | Inr p \<Rightarrow>
                          (case reply_quantity f of
                             Inl e \<Rightarrow> leg_fails e (l\<lparr>fill_price := Some p\<rparr>)
                           | Inr q \<Rightarrow> (Inr True, l\<lparr>status := FILLED, fill_price := Some p, fill_quantity := q, fill_time_ns := at_fill ans\<rparr>))))))"

text \<open>The request and the leg after it; \<open>ok\<close> tells whether \<open>cancel_order\<close> returns.\<close>

definition cancel_leg :: "bool \<Rightarrow> OrderLeg \<Rightarrow> bool \<times> OrderLeg \<times> request list" where
  "cancel_leg ok l =
     (case order_id l of
        None \<Rightarrow> (False, l, [])
      | Some i \<Rightarrow>
          (if ok then (True, l\<lparr>status := CANCELLED\<rparr>, [CancelOrder (market_type l) (leg_symbol l) i])
           else (False, l, [CancelOrder (market_type l) (leg_symbol l) i])))"

definition raised :: "exn \<Rightarrow> OrderLeg \<Rightarrow> OrderLeg" where
  "raised e l = l\<lparr>status := FAILED, error_message := Some (Text e)\<rparr>"

definition execute_legs_atomic ::
    "answers \<Rightarrow> answers \<Rightarrow> bool \<Rightarrow> int \<Rightarrow> int \<Rightarrow> ArbPosition \<Rightarrow> bool \<times> ArbPosition \<times> request list" where
  "execute_legs_atomic sa pa ok sub now p0 =
     (let s0 = (spot_leg p0)\<lparr>submission_time_ns := sub\<rparr>; q0 = (perp_leg p0)\<lparr>submission_time_ns := sub\<rparr>;
          (r1, s) = submit_leg sa s0; (r2, q) = submit_leg pa q0; sent = [limit_order s0, limit_order q0]
      in case (r1, r2) of
           (Inr _, Inr _) \<Rightarrow>
             (True, p0\<lparr>spot_leg := s\<lparr>status := FILLED, fill_time_ns := now\<rparr>, perp_leg := q\<lparr>status := FILLED, fill_time_ns := now\<rparr>\<rparr>, sent)
         | (Inr _, Inl e) \<Rightarrow>
             (let (c, s1, reqs) = cancel_leg ok s in (False, p0\<lparr>spot_leg := s1\<lparr>status := CANCELLED\<rparr>, perp_leg := raised e q\<rparr>, sent @ reqs))
         | (Inl e, Inr _) \<Rightarrow>
             (let (c, q1, reqs) = cancel_leg ok q in (False, p0\<lparr>spot_leg := raised e s, perp_leg := q1\<lparr>status := CANCELLED\<rparr>\<rparr>, sent @ reqs))
         | (Inl e, Inl e') \<Rightarrow> (False, p0\<lparr>spot_leg := raised e s, perp_leg := raised e' q\<rparr>, sent))"

section \<open>Opening\<close>

definition new_leg :: "position_id \<Rightarrow> market \<Rightarrow> side \<Rightarrow> string \<Rightarrow> decimal \<Rightarrow> decimal \<Rightarrow> OrderLeg" where
  "new_leg i m sd s q x = \<lparr>leg_id = generate_leg_id i m, leg_side = sd, market_type = m, leg_symbol = s, quantity = q, price = Some x, status = PENDING,
     fill_price = None, fill_quantity = 0, order_id = None, submission_time_ns = 0, fill_time_ns = 0, error_message = None\<rparr>"

definition spot_side :: "ArbDirection \<Rightarrow> side" where
  "spot_side d = (if d = LONG_SPOT_SHORT_PERP then Buy else Sell)"

definition new_position :: "position_id \<Rightarrow> int \<Rightarrow> string \<Rightarrow> ArbDirection \<Rightarrow> decimal \<Rightarrow> decimal \<Rightarrow> decimal \<Rightarrow> decimal \<Rightarrow> ArbPosition" where
  "new_position i now s d q sp pp basis =
     \<lparr>pos_id = i, direction = d, symbol = s, spot_leg = new_leg i Spot (spot_side d) s q sp, perp_leg = new_leg i Perp (opposite (spot_side d)) s q pp,
      entry_basis_bps = basis, target_exit_bps = dmul basis (3 / 10), stop_loss_bps = dmul basis 2, created_at = now, closed_at = None, pnl_usdt = 0,
      realized_bps = 0\<rparr>"

definition dec_div :: "decimal \<Rightarrow> decimal \<Rightarrow> exn + decimal" where
  "dec_div x y = (if y = 0 then Inl (if x = 0 then OtherError ''InvalidOperation'' else ZeroDivisionError) else Inr (ddiv x y))"

record arb_request =
  r_symbol :: string
  r_direction :: ArbDirection
  r_quantity :: decimal
  r_spot :: decimal
  r_perp :: decimal
  r_basis :: decimal

record venue =
  limit_ok :: "exn + bool"
  spot_answers :: answers
  perp_answers :: answers
  cancel_ok :: bool
  at_id :: int
  at_created :: int
  at_submit :: int
  at_filled :: int

text \<open>\<open>MIN_SPRED_BPS\<close> is no attribute of the engine.\<close>

definition execute_arb :: "venue \<Rightarrow> arb_request \<Rightarrow> engine \<Rightarrow> (exn + ArbPosition option) \<times> engine \<times> request list" where
  "execute_arb v r g =
     (if r_symbol r \<notin> set SUPPORTED_SYMBOLS then (Inr None, g, [])
      else if r_basis r < MIN_SPREAD_BPS then (Inl (OtherError ''AttributeError''), g, [])
      else
        (case limit_ok v of
           Inl e \<Rightarrow> (Inl e, g, [])
         | Inr False \<Rightarrow> (Inr None, g, [])
         | Inr True \<Rightarrow>
             (let (i, g1) = generate_position_id (at_id v) g
              in case dec_div (r_quantity r) (r_spot r) of
                   Inl e \<Rightarrow> (Inl e, g1, [])
                 | Inr q \<Rightarrow>
                     (let (done, p, reqs) = execute_legs_atomic (spot_answers v) (perp_answers v) (cancel_ok v) (at_submit v) (at_filled v)
                            (new_position i (at_created v) (r_symbol r) (r_direction r) q (r_spot r) (r_perp r) (r_basis r))
                      in if done
                         then (Inr (Some p), g1\<lparr>active_positions := dict_set i p (active_positions g1), total_arbs_executed := total_arbs_executed g1 + 1,
                                 successful_arbs := successful_arbs g1 + 1\<rparr>, reqs)
                         else (Inr None, g1\<lparr>failed_arbs := failed_arbs g1 + 1\<rparr>, reqs)))))"

section \<open>Closing\<close>

definition should_exit :: "ArbPosition \<Rightarrow> decimal \<Rightarrow> bool" where
  "should_exit p cur \<longleftrightarrow> dabs cur \<le> dabs (target_exit_bps p) \<or> dabs (stop_loss_bps p) \<le> dabs cur"

definition closing_order :: "OrderLeg \<Rightarrow> side \<Rightarrow> string \<Rightarrow> request" where
  "closing_order l sd s = MarketOrder (market_type l) s sd (fill_quantity l)"

text \<open>An exception of the exchange makes it answer False.\<close>

definition submit_closing_leg :: "exn + unit \<Rightarrow> OrderLeg \<Rightarrow> side \<Rightarrow> string \<Rightarrow> (exn + bool) \<times> request list" where
  "submit_closing_leg ans l sd s = (Inr (case ans of Inl _ \<Rightarrow> False | Inr _ \<Rightarrow> True), [closing_order l sd s])"

text \<open>A position without fill price cannot be multiplied.\<close>

definition calculate_pnl :: "ArbPosition \<Rightarrow> decimal \<Rightarrow> exn + decimal" where
  "calculate_pnl p cur =
     (case fill_price (spot_leg p) of
        None \<Rightarrow> Inl (OtherError ''TypeError'')
      | Some x \<Rightarrow> quantize_down (1 / 100) (dmul (dmul (fill_quantity (spot_leg p)) x) (ddiv (dsub (entry_basis_bps p) cur) 10000)))"

text \<open>Until the orders are sent: the position to close, if any, and the two orders.\<close>

definition begin_close :: "position_id \<Rightarrow> decimal \<Rightarrow> engine \<Rightarrow> (ArbPosition \<times> side) option" where
  "begin_close i cur g =
     (case dict_get (active_positions g) i of
        None \<Rightarrow> None
      | Some p \<Rightarrow> if should_exit p cur then Some (p, opposite (spot_side (direction p))) else None)"

text \<open>After the answers. The position is the object the table holds, while it holds it.\<close>

definition update_position :: "position_id \<Rightarrow> ArbPosition \<Rightarrow> engine \<Rightarrow> engine" where
  "update_position i p g = (if dict_get (active_positions g) i = None then g else g\<lparr>active_positions := dict_set i p (active_positions g)\<rparr>)"

definition end_close :: "int \<Rightarrow> position_id \<Rightarrow> ArbPosition \<Rightarrow> decimal \<Rightarrow> (exn + bool) list \<Rightarrow> engine \<Rightarrow> (exn + bool) \<times> engine" where
  "end_close now i p cur results g =
     (if list_all (\<lambda>r. \<not> isl r) results
      then
        (case calculate_pnl p cur of
           Inl e \<Rightarrow> (Inl e, update_position i (p\<lparr>closed_at := Some now\<rparr>) g)
         | Inr x \<Rightarrow>
             (let g1 = g\<lparr>total_pnl_usdt := dadd (total_pnl_usdt g) x\<rparr>
              in if dict_get (active_positions g) i = None then (Inl KeyError, g1)
                 else (Inr True, g1\<lparr>active_positions := dict_pop i (active_positions g1)\<rparr>)))
      else (Inr False, g))"

definition close_position ::
    "exn + unit \<Rightarrow> exn + unit \<Rightarrow> int \<Rightarrow> position_id \<Rightarrow> decimal \<Rightarrow> engine \<Rightarrow> (exn + bool) \<times> engine \<times> request list" where
  "close_position sa pa now i cur g =
     (case begin_close i cur g of
        None \<Rightarrow> (Inr False, g, [])
      | Some (p, sd) \<Rightarrow>
          (let (r1, q1) = submit_closing_leg sa (spot_leg p) sd (symbol p); (r2, q2) = submit_closing_leg pa (perp_leg p) (opposite sd) (symbol p);
               (r, g1) = end_close now i p cur [r1, r2] g
           in (r, g1, q1 @ q2)))"

definition get_active_positions :: "engine \<Rightarrow> ArbPosition list" where
  "get_active_positions g = dict_values (active_positions g)"

record metrics =
  m_total :: int
  m_successful :: int
  m_failed :: int
  success_rate :: pyfloat
  m_pnl :: pyfloat
  active_count :: int

definition get_metrics :: "engine \<Rightarrow> metrics" where
  "get_metrics g = \<lparr>m_total = total_arbs_executed g, m_successful = successful_arbs g, m_failed = failed_arbs g,
     success_rate = idiv (successful_arbs g) (max 1 (total_arbs_executed g)), m_pnl = fl (total_pnl_usdt g),
     active_count = int (length (active_positions g))\<rparr>"


section \<open>What the positions are\<close>

datatype arb_op = Execute venue arb_request | Close "exn + unit" "exn + unit" int position_id decimal

fun arb_step :: "arb_op \<Rightarrow> engine \<Rightarrow> engine" where
  "arb_step (Execute v r) g = fst (snd (execute_arb v r g))"
| "arb_step (Close sa pa now i cur) g = fst (snd (close_position sa pa now i cur g))"

definition hedged :: "ArbPosition \<Rightarrow> bool" where
  "hedged p \<longleftrightarrow> status (spot_leg p) = FILLED \<and> status (perp_leg p) = FILLED \<and> leg_side (spot_leg p) = spot_side (direction p) \<and>
     leg_side (perp_leg p) = opposite (leg_side (spot_leg p)) \<and> quantity (perp_leg p) = quantity (spot_leg p) \<and> symbol p \<in> set SUPPORTED_SYMBOLS \<and>
     MIN_SPREAD_BPS \<le> entry_basis_bps p \<and> target_exit_bps p = dmul (entry_basis_bps p) (3 / 10) \<and> stop_loss_bps p = dmul (entry_basis_bps p) 2"

definition engine_inv :: "engine \<Rightarrow> bool" where
  "engine_inv g \<longleftrightarrow> wf_dict (active_positions g) \<and> 0 \<le> failed_arbs g \<and> successful_arbs g = total_arbs_executed g \<and>
     int (length (active_positions g)) \<le> successful_arbs g \<and> successful_arbs g + failed_arbs g \<le> position_counter g \<and>
     (\<forall>i p. dict_get (active_positions g) i = Some p \<longrightarrow> pos_id p = i \<and> snd i \<le> position_counter g \<and> hedged p)"

lemma engine_active:
  assumes "engine_inv g" "dict_get (active_positions g) i = Some p"
  shows "pos_id p = i \<and> snd i \<le> position_counter g \<and> hedged p"
  using assms unfolding engine_inv_def by blast

lemma opposite_twice [simp]: "opposite (opposite s) = s" "opposite s \<noteq> s"
  by (cases s; simp)+

text \<open>What a submission leaves alone.\<close>

lemma carry_submit_keeps:
  assumes "submit_leg ans l = (r, l1)"
  shows "leg_side l1 = leg_side l \<and> quantity l1 = quantity l \<and> market_type l1 = market_type l \<and> leg_symbol l1 = leg_symbol l"
  using assms by (auto simp: submit_leg_def leg_fails_def Let_def split: sum.splits if_splits)

lemma legs_done:
  assumes "execute_legs_atomic sa pa ok sub now p0 = (True, p, reqs)"
  obtains b s c q where "submit_leg sa ((spot_leg p0)\<lparr>submission_time_ns := sub\<rparr>) = (Inr b, s)"
    "submit_leg pa ((perp_leg p0)\<lparr>submission_time_ns := sub\<rparr>) = (Inr c, q)"
    "p = p0\<lparr>spot_leg := s\<lparr>status := FILLED, fill_time_ns := now\<rparr>, perp_leg := q\<lparr>status := FILLED, fill_time_ns := now\<rparr>\<rparr>"
proof -
  obtain r1 s where s: "submit_leg sa ((spot_leg p0)\<lparr>submission_time_ns := sub\<rparr>) = (r1, s)" by fastforce
  obtain r2 q where q: "submit_leg pa ((perp_leg p0)\<lparr>submission_time_ns := sub\<rparr>) = (r2, q)" by fastforce
  show thesis using assms s q that by (cases r1; cases r2) (auto simp: execute_legs_atomic_def Let_def split: prod.splits)
qed

lemma legs_hedged:
  assumes "execute_legs_atomic sa pa ok sub now (new_position i cr s d q sp pp basis) = (True, p, reqs)" "s \<in> set SUPPORTED_SYMBOLS" "MIN_SPREAD_BPS \<le> basis"
  shows "hedged p \<and> pos_id p = i"
proof -
  let ?p0 = "new_position i cr s d q sp pp basis"
  obtain b l c m where l: "submit_leg sa ((spot_leg ?p0)\<lparr>submission_time_ns := sub\<rparr>) = (Inr b, l)"
    "submit_leg pa ((perp_leg ?p0)\<lparr>submission_time_ns := sub\<rparr>) = (Inr c, m)"
    "p = ?p0\<lparr>spot_leg := l\<lparr>status := FILLED, fill_time_ns := now\<rparr>, perp_leg := m\<lparr>status := FILLED, fill_time_ns := now\<rparr>\<rparr>"
    using legs_done[OF assms(1)] .
  show ?thesis using carry_submit_keeps[OF l(1)] carry_submit_keeps[OF l(2)] assms(2,3)
    unfolding l(3) by (simp add: hedged_def new_position_def new_leg_def)
qed

lemma execute_cases:
  assumes "execute_arb v r g = (res, g1, reqs)"
  obtains "g1 = g" "\<forall>p. res \<noteq> Inr (Some p)"
  | "g1 = g\<lparr>position_counter := position_counter g + 1\<rparr>" "\<forall>p. res \<noteq> Inr (Some p)"
  | "g1 = g\<lparr>position_counter := position_counter g + 1, failed_arbs := failed_arbs g + 1\<rparr>" "res = Inr None"
  | p where "res = Inr (Some p)" "hedged p" "pos_id p = (at_id v, position_counter g + 1)"
    "g1 = g\<lparr>position_counter := position_counter g + 1, active_positions := dict_set (pos_id p) p (active_positions g),
       total_arbs_executed := total_arbs_executed g + 1, successful_arbs := successful_arbs g + 1\<rparr>"
proof -
  consider "r_symbol r \<notin> set SUPPORTED_SYMBOLS \<or> r_basis r < MIN_SPREAD_BPS \<or> limit_ok v \<noteq> Inr True"
    | e where "r_symbol r \<in> set SUPPORTED_SYMBOLS" "MIN_SPREAD_BPS \<le> r_basis r" "limit_ok v = Inr True" "dec_div (r_quantity r) (r_spot r) = Inl e"
    | q where "r_symbol r \<in> set SUPPORTED_SYMBOLS" "MIN_SPREAD_BPS \<le> r_basis r" "limit_ok v = Inr True" "dec_div (r_quantity r) (r_spot r) = Inr q"
    by (cases "dec_div (r_quantity r) (r_spot r)"; cases "r_basis r < MIN_SPREAD_BPS"; cases "limit_ok v = Inr True"; cases "r_symbol r \<in> set SUPPORTED_SYMBOLS")
      (simp_all add: not_less)
  then show thesis
  proof cases
    case 1
    then show thesis using assms that(1) by (auto simp: execute_arb_def split: sum.splits bool.splits if_splits)
  next
    case 2
    then show thesis using assms that(2) by (auto simp: execute_arb_def generate_position_id_def Let_def)
  next
    case (3 q)
    let ?i = "(at_id v, position_counter g + 1)"
    let ?p0 = "new_position ?i (at_created v) (r_symbol r) (r_direction r) q (r_spot r) (r_perp r) (r_basis r)"
    obtain fin p rs where x: "execute_legs_atomic (spot_answers v) (perp_answers v) (cancel_ok v) (at_submit v) (at_filled v) ?p0 = (fin, p, rs)"
      by (metis prod_cases3)
    show thesis
    proof (cases fin)
      case True
      have "hedged p \<and> pos_id p = ?i" by (rule legs_hedged[OF x[unfolded eqTrueI[OF True]] 3(1,2)])
      then show thesis using assms 3 x True that(4)[of p] by (simp add: execute_arb_def generate_position_id_def Let_def)
    next
      case False
      then show thesis using assms 3 x that(3) by (simp add: execute_arb_def generate_position_id_def Let_def)
    qed
  qed
qed

lemma carry_execute_inv:
  assumes "engine_inv g" "execute_arb v r g = (res, g1, reqs)"
  shows "engine_inv g1"
proof -
  have le: "snd i \<le> position_counter g + 1" if "dict_get (active_positions g) i = Some x" for i x
    using engine_active[OF assms(1) that] by simp
  show ?thesis
    using assms(2)
  proof (cases rule: execute_cases)
    case (4 p)
    have "dict_get (active_positions g) (pos_id p) = None"
      using engine_active[OF assms(1), of "pos_id p"] 4(3) by (cases "dict_get (active_positions g) (pos_id p)") auto
    then have "length (dict_set (pos_id p) p (active_positions g)) = length (active_positions g) + 1"
      by (simp add: length_dict_set map_of_eq_None_iff)
    then show ?thesis using assms(1) 4 le by (simp add: engine_inv_def dict_get_set del: split_paired_All)
  next
    case 2
    then show ?thesis using assms(1) le by (simp add: engine_inv_def del: split_paired_All)
  next
    case 3
    then show ?thesis using assms(1) le by (simp add: engine_inv_def del: split_paired_All)
  qed (use assms(1) in simp)
qed

lemma end_close_inv:
  assumes "engine_inv g" "end_close now i p cur rs g = (r, g1)" "dict_get (active_positions g) i = Some p"
  shows "engine_inv g1"
proof -
  have h: "hedged p \<and> pos_id p = i \<and> snd i \<le> position_counter g" using engine_active[OF assms(1,3)] by blast
  have l: "i \<in> fst ` set (active_positions g)" using assms(3) by (force dest: map_of_SomeD)
  consider x where "g1 = g\<lparr>total_pnl_usdt := x, active_positions := dict_pop i (active_positions g)\<rparr>"
    | "g1 = g\<lparr>active_positions := dict_set i (p\<lparr>closed_at := Some now\<rparr>) (active_positions g)\<rparr>" | "g1 = g"
    using assms(2,3) by (auto simp: end_close_def update_position_def Let_def split: if_splits sum.splits)
  then show ?thesis
  proof cases
    case 1
    then show ?thesis using assms(1) length_dict_pop_le[of i "active_positions g"] by (simp add: engine_inv_def dict_get_pop del: split_paired_All)
  next
    case 2
    have "hedged (p\<lparr>closed_at := Some now\<rparr>)" using h by (simp add: hedged_def)
    then show ?thesis using 2 assms(1) h l by (simp add: engine_inv_def dict_get_set length_dict_set del: split_paired_All)
  qed (use assms(1) in simp)
qed

lemma carry_close_inv:
  assumes "engine_inv g" "close_position sa pa now i cur g = (r, g1, reqs)"
  shows "engine_inv g1"
proof (cases "begin_close i cur g")
  case None
  then show ?thesis using assms by (simp add: close_position_def)
next
  case (Some ps)
  obtain p sd where ps: "ps = (p, sd)" by fastforce
  have "dict_get (active_positions g) i = Some p" using Some ps by (auto simp: begin_close_def split: option.splits if_splits)
  moreover have "\<exists>rs. end_close now i p cur rs g = (r, g1)"
    using assms(2) Some ps by (auto simp: close_position_def submit_closing_leg_def Let_def split: prod.splits)
  ultimately show ?thesis using end_close_inv assms(1) by blast
qed

lemma carry_step_inv:
  assumes "engine_inv g"
  shows "engine_inv (arb_step x g)"
proof (cases x)
  case (Execute v r)
  then show ?thesis using carry_execute_inv[OF assms, of v r "fst (execute_arb v r g)" _ "snd (snd (execute_arb v r g))"] by simp
next
  case (Close sa pa now i cur)
  then show ?thesis
    using carry_close_inv[OF assms, of sa pa now i cur "fst (close_position sa pa now i cur g)" _ "snd (snd (close_position sa pa now i cur g))"] by simp
qed

interpretation carry: op_machine arb_step engine_inv
  by unfold_locales (rule carry_step_inv)

text \<open>In every run, whatever the exchange answers, an active position is stored under its own id, was opened for a supported symbol at fifteen basis points or
  more, has legs of the same size on opposite sides that are marked as filled, and its exits are the products of the entry basis; every execution counts as
  successful, and ids are used once.\<close>

theorem active_positions_hedged: "engine_inv (fold arb_step ops engine_init)"
  by (rule carry.run_inv) (simp add: engine_inv_def engine_init_def)

text \<open>The reported success rate is always one, or zero before the first execution: failed executions are counted beside it and never in it.\<close>

theorem success_rate_is_one:
  "let g = fold arb_step ops engine_init in success_rate (get_metrics g) = (if total_arbs_executed g = 0 then 0 else 1)"
proof -
  have "engine_inv (fold arb_step ops engine_init)" by (rule carry.run_inv) (simp add: engine_inv_def engine_init_def)
  then show ?thesis by (auto simp: Let_def engine_inv_def get_metrics_def idiv_def max_def)
qed

section \<open>Legs that do not fill\<close>

text \<open>A request that passes the checks of the engine.\<close>

definition admitted :: "venue \<Rightarrow> arb_request \<Rightarrow> bool" where
  "admitted v r \<longleftrightarrow> r_symbol r \<in> set SUPPORTED_SYMBOLS \<and> MIN_SPREAD_BPS \<le> r_basis r \<and> limit_ok v = Inr True \<and> r_spot r \<noteq> 0"

definition leg_order :: "arb_request \<Rightarrow> market \<Rightarrow> request" where
  "leg_order r m = LimitOrder m (r_symbol r) (if m = Spot then spot_side (r_direction r) else opposite (spot_side (r_direction r)))
     (ddiv (r_quantity r) (r_spot r)) (Some (if m = Spot then r_spot r else r_perp r))"

text \<open>The orders of an entry, and the position between the answers and the table.\<close>

lemma execute_admitted:
  assumes "admitted v r"
  shows "execute_arb v r g =
    (let i = (at_id v, position_counter g + 1);
         (fin, p, reqs) = execute_legs_atomic (spot_answers v) (perp_answers v) (cancel_ok v) (at_submit v) (at_filled v)
           (new_position i (at_created v) (r_symbol r) (r_direction r) (ddiv (r_quantity r) (r_spot r)) (r_spot r) (r_perp r) (r_basis r))
     in if fin then (Inr (Some p), g\<lparr>position_counter := position_counter g + 1, active_positions := dict_set i p (active_positions g),
               total_arbs_executed := total_arbs_executed g + 1, successful_arbs := successful_arbs g + 1\<rparr>, reqs)
        else (Inr None, g\<lparr>position_counter := position_counter g + 1, failed_arbs := failed_arbs g + 1\<rparr>, reqs))"
  using assms by (auto simp: admitted_def execute_arb_def dec_div_def generate_position_id_def Let_def split: prod.split)

text \<open>A position whose two orders were placed and not filled is opened as if they were: both legs are marked as filled, with nothing in them.\<close>

theorem unfilled_position_opens:
  assumes "admitted v r" "placed (spot_answers v) = Inr i" "waited (spot_answers v) = Inr f" "\<not> is_filled f"
    "placed (perp_answers v) = Inr j" "waited (perp_answers v) = Inr f'" "\<not> is_filled f'"
  shows "\<exists>p g1. execute_arb v r g = (Inr (Some p), g1, [leg_order r Spot, leg_order r Perp]) \<and> dict_get (active_positions g1) (pos_id p) = Some p \<and>
    status (spot_leg p) = FILLED \<and> status (perp_leg p) = FILLED \<and> fill_quantity (spot_leg p) = 0 \<and> fill_quantity (perp_leg p) = 0 \<and>
    fill_price (spot_leg p) = None"
  using assms(2-)
  by (simp add: execute_admitted[OF assms(1)] execute_legs_atomic_def submit_leg_def new_position_def new_leg_def leg_order_def limit_order_def Let_def
      dict_get_set)

text \<open>A position without fill price never closes: a close sends its two orders, over the quantities recorded, raises TypeError, and leaves it open for the
  next close to do the same.\<close>

theorem unpriced_position_never_closes:
  assumes "dict_get (active_positions g) i = Some p" "fill_price (spot_leg p) = None" "should_exit p cur"
  shows "\<exists>g1 b sd. close_position sa pa now i cur g = (Inl (OtherError ''TypeError''), g1,
      [closing_order (spot_leg p) sd (symbol p), closing_order (perp_leg p) (opposite sd) (symbol p)]) \<and>
    dict_get (active_positions g1) i = Some b \<and> fill_price (spot_leg b) = None \<and> should_exit b cur"
  using assms
  by (auto simp: close_position_def begin_close_def submit_closing_leg_def end_close_def calculate_pnl_def update_position_def should_exit_def dict_get_set
      Let_def)

text \<open>When the perpetual order is placed and its fill is not confirmed in time, the spot order is asked to be cancelled although it was filled, and the
  perpetual order is left at the exchange: the two limit orders and that one cancellation are all that is sent, and no position is recorded.\<close>

theorem timed_out_order_stays:
  assumes "admitted v r" "placed (spot_answers v) = Inr (Some i)" "waited (spot_answers v) = Inr f" "is_filled f" "reply_price f = Inr x"
    "reply_quantity f = Inr q" "placed (perp_answers v) = Inr (Some j)" "waited (perp_answers v) = Inl TimeoutError"
  shows "\<exists>g1. execute_arb v r g = (Inr None, g1, [leg_order r Spot, leg_order r Perp, CancelOrder Spot (r_symbol r) i]) \<and>
    active_positions g1 = active_positions g"
  using assms(2-)
  by (simp add: execute_admitted[OF assms(1)] execute_legs_atomic_def submit_leg_def leg_fails_def cancel_leg_def new_position_def new_leg_def leg_order_def
      limit_order_def Let_def)

section \<open>Closing\<close>

text \<open>A close whose two orders both raise counts as done: the position leaves the table with its profit booked, and its legs stay open at the exchange.\<close>

theorem failed_close_completes:
  assumes "dict_get (active_positions g) i = Some p" "should_exit p cur" "calculate_pnl p cur = Inr x"
  shows "\<exists>g1. close_position (Inl e) (Inl e') now i cur g = (Inr True, g1, snd (snd (close_position (Inr ()) (Inr ()) now i cur g))) \<and>
    dict_get (active_positions g1) i = None \<and> total_pnl_usdt g1 = dadd (total_pnl_usdt g) x"
  using assms by (simp add: close_position_def begin_close_def submit_closing_leg_def end_close_def Let_def dict_get_pop)

text \<open>Two closes of one position that overlap both send its closing orders and both book its profit, before the second fails with KeyError.\<close>

theorem overlapping_closes_double:
  assumes "begin_close i cur g = Some (p, sd)" "calculate_pnl p cur = Inr x"
  shows "\<exists>g1 g2. end_close now i p cur [Inr a, Inr b] g = (Inr True, g1) \<and> begin_close i cur g1 = None \<and>
    end_close now' i p cur [Inr c, Inr d] g1 = (Inl KeyError, g2) \<and> total_pnl_usdt g2 = dadd (dadd (total_pnl_usdt g) x) x"
  using assms by (auto simp: begin_close_def end_close_def Let_def dict_get_pop split: option.splits if_splits)

text \<open>What a leg gains when it is closed at a price.\<close>

definition leg_gain :: "OrderLeg \<Rightarrow> decimal \<Rightarrow> rat" where
  "leg_gain l x = (case fill_price l of None \<Rightarrow> 0 | Some y \<Rightarrow> (if leg_side l = Buy then x - y else y - x) * fill_quantity l)"

lemma pnl_at_target:
  assumes "hedged p" "is_decimal (entry_basis_bps p)" "is_decimal cur" "dabs cur \<le> dabs (target_exit_bps p)" "0 \<le> fill_quantity (spot_leg p)"
    "fill_price (spot_leg p) = Some s0" "0 \<le> s0" "calculate_pnl p cur = Inr x"
  shows "0 \<le> x"
proof -
  let ?e = "entry_basis_bps p"
  have e: "0 \<le> ?e" "target_exit_bps p = dmul ?e (3 / 10)" using assms(1) by (simp_all add: hedged_def MIN_SPREAD_BPS_def)
  then have t: "0 \<le> target_exit_bps p" by (simp add: dmul_nonneg)
  have "dc (?e * (3 / 10)) \<le> dc ?e" using e(1) by (intro dc_mono) simp
  then have "target_exit_bps p \<le> ?e" using assms(2) e(2) by (simp add: dmul_def is_decimal_def)
  moreover have "is_decimal (target_exit_bps p)" by (simp add: e(2) dmul_def is_decimal_def)
  ultimately have "\<bar>cur\<bar> \<le> ?e" using assms(3,4) t by (simp add: dabs_decimal)
  then have "0 \<le> dsub ?e cur" by (simp add: dsub_def)
  then have "0 \<le> dmul (dmul (fill_quantity (spot_leg p)) s0) (ddiv (dsub ?e cur) 10000)" using assms(5,7) by (intro dmul_nonneg) (simp_all add: ddiv_def)
  then show ?thesis using assms(6,8) quantize_down_le[of "1 / 100" _ x] by (simp add: calculate_pnl_def)
qed

text \<open>The booked profit does not know the direction of the trade: a short spot and long perpetual position that is closed at its target after the basis has
  narrowed is booked with a profit (or nothing), though its two legs together lose.\<close>

theorem narrowing_loss_booked_as_profit:
  assumes "hedged p" "direction p = SHORT_SPOT_LONG_PERP" "is_decimal (entry_basis_bps p)" "is_decimal cur" "dabs cur \<le> dabs (target_exit_bps p)"
    "fill_price (spot_leg p) = Some sp" "fill_price (perp_leg p) = Some qp" "0 \<le> sp" "fill_quantity (perp_leg p) = fill_quantity (spot_leg p)"
    "0 < fill_quantity (spot_leg p)" "q1 - s1 < qp - sp" "calculate_pnl p cur = Inr x"
  shows "0 \<le> x \<and> leg_gain (spot_leg p) s1 + leg_gain (perp_leg p) q1 < 0"
proof -
  let ?n = "fill_quantity (spot_leg p)"
  have "leg_side (spot_leg p) = Sell" "leg_side (perp_leg p) = Buy" using assms(1,2) by (simp_all add: hedged_def spot_side_def)
  then have "leg_gain (spot_leg p) s1 + leg_gain (perp_leg p) q1 = ?n * ((q1 - s1) - (qp - sp))"
    using assms(6,7,9) by (simp add: leg_gain_def algebra_simps)
  also have "\<dots> < 0" using assms(10,11) by (simp add: mult_pos_neg)
  finally show ?thesis using pnl_at_target[OF assms(1,3-5) _ assms(6,8,12)] assms(10) by simp
qed

section \<open>Witnesses\<close>

definition demo_answers :: "exn + fill_reply \<Rightarrow> string \<Rightarrow> answers" where
  "demo_answers w i = \<lparr>placed = Inr (Some i), waited = w, at_fill = 7\<rparr>"

definition demo_fill :: "bool \<Rightarrow> fill_reply" where
  "demo_fill b = \<lparr>is_filled = b, reply_price = Inr 500, reply_quantity = Inr 2\<rparr>"

definition demo_venue :: "exn + fill_reply \<Rightarrow> exn + fill_reply \<Rightarrow> venue" where
  "demo_venue sw pw = \<lparr>limit_ok = Inr True, spot_answers = demo_answers sw ''S'', perp_answers = demo_answers pw ''P'', cancel_ok = True, at_id = 1,
     at_created = 2, at_submit = 3, at_filled = 4\<rparr>"

definition demo_request :: arb_request where
  "demo_request = \<lparr>r_symbol = ''BTC'', r_direction = LONG_SPOT_SHORT_PERP, r_quantity = 1000, r_spot = 500, r_perp = 501, r_basis = 20\<rparr>"

lemma demo_admitted: "admitted (demo_venue sw pw) demo_request"
  by (simp add: admitted_def demo_venue_def demo_request_def SUPPORTED_SYMBOLS_def MIN_SPREAD_BPS_def)

theorem unfilled_position_opens_witness:
  "\<exists>p g1. execute_arb (demo_venue (Inr (demo_fill False)) (Inr (demo_fill False))) demo_request engine_init =
      (Inr (Some p), g1, [leg_order demo_request Spot, leg_order demo_request Perp]) \<and> dict_get (active_positions g1) (pos_id p) = Some p \<and>
    status (spot_leg p) = FILLED \<and> status (perp_leg p) = FILLED \<and> fill_quantity (spot_leg p) = 0 \<and> fill_quantity (perp_leg p) = 0 \<and>
    fill_price (spot_leg p) = None"
  by (rule unfilled_position_opens[OF demo_admitted]) (auto simp: demo_venue_def demo_answers_def demo_fill_def)

theorem timed_out_order_stays_witness:
  "\<exists>g1. execute_arb (demo_venue (Inr (demo_fill True)) (Inl TimeoutError)) demo_request engine_init =
      (Inr None, g1, [leg_order demo_request Spot, leg_order demo_request Perp, CancelOrder Spot ''BTC'' ''S'']) \<and> active_positions g1 = []"
  using timed_out_order_stays[OF demo_admitted, of "Inr (demo_fill True)" "Inl TimeoutError" "''S''" "demo_fill True" 500 2 "''P''" engine_init]
  by (simp add: demo_venue_def demo_answers_def demo_fill_def demo_request_def engine_init_def)

definition demo_position :: "ArbDirection \<Rightarrow> decimal option \<Rightarrow> ArbPosition" where
  "demo_position d x =
     (let p = new_position (1, 1) 2 ''BTC'' d 2 500 501 20
      in p\<lparr>spot_leg := (spot_leg p)\<lparr>status := FILLED, fill_price := x, fill_quantity := 2\<rparr>,
           perp_leg := (perp_leg p)\<lparr>status := FILLED, fill_price := Some 501, fill_quantity := 2\<rparr>\<rparr>)"

definition demo_engine :: "ArbPosition \<Rightarrow> engine" where
  "demo_engine p = engine_init\<lparr>active_positions := [((1, 1), p)], position_counter := 1, total_arbs_executed := 1, successful_arbs := 1\<rparr>"

lemma demo_exit: "should_exit (demo_position d x) 4"
proof -
  have "dabs 4 \<le> dabs (dmul 20 (3 / 10))" by code_simp
  then show ?thesis by (simp add: should_exit_def demo_position_def new_position_def Let_def)
qed

lemma carry_demo_active: "dict_get (active_positions (demo_engine p)) (1, 1) = Some p"
  by (simp add: demo_engine_def)

lemma demo_pnl: "calculate_pnl (demo_position d (Some 500)) 4 = Inr (8 / 5)"
proof -
  have "quantize_down (1 / 100) (dmul (dmul 2 500) (ddiv (dsub 20 4) 10000)) = Inr (8 / 5)" by code_simp
  then show ?thesis by (simp add: calculate_pnl_def demo_position_def new_position_def Let_def)
qed

theorem unpriced_position_never_closes_witness:
  "\<exists>g1 b sd. close_position (Inr ()) (Inr ()) 9 (1, 1) 4 (demo_engine (demo_position LONG_SPOT_SHORT_PERP None)) = (Inl (OtherError ''TypeError''), g1,
      [closing_order (spot_leg (demo_position LONG_SPOT_SHORT_PERP None)) sd (symbol (demo_position LONG_SPOT_SHORT_PERP None)),
       closing_order (perp_leg (demo_position LONG_SPOT_SHORT_PERP None)) (opposite sd) (symbol (demo_position LONG_SPOT_SHORT_PERP None))]) \<and>
    dict_get (active_positions g1) (1, 1) = Some b \<and> fill_price (spot_leg b) = None \<and> should_exit b 4"
  by (rule unpriced_position_never_closes[OF carry_demo_active _ demo_exit]) (simp add: demo_position_def Let_def)

theorem failed_close_completes_witness:
  "\<exists>g1. close_position (Inl TimeoutError) (Inl TimeoutError) 9 (1, 1) 4 (demo_engine (demo_position LONG_SPOT_SHORT_PERP (Some 500))) =
      (Inr True, g1, snd (snd (close_position (Inr ()) (Inr ()) 9 (1, 1) 4 (demo_engine (demo_position LONG_SPOT_SHORT_PERP (Some 500)))))) \<and>
    dict_get (active_positions g1) (1, 1) = None \<and>
    total_pnl_usdt g1 = dadd (total_pnl_usdt (demo_engine (demo_position LONG_SPOT_SHORT_PERP (Some 500)))) (8 / 5)"
  by (rule failed_close_completes[OF carry_demo_active demo_exit demo_pnl])

theorem overlapping_closes_double_witness:
  "\<exists>g1 g2. end_close 9 (1, 1) (demo_position LONG_SPOT_SHORT_PERP (Some 500)) 4 [Inr True, Inr True] (demo_engine (demo_position LONG_SPOT_SHORT_PERP (Some 500))) =
      (Inr True, g1) \<and> begin_close (1, 1) 4 g1 = None \<and>
    end_close 9 (1, 1) (demo_position LONG_SPOT_SHORT_PERP (Some 500)) 4 [Inr True, Inr True] g1 = (Inl KeyError, g2) \<and>
    total_pnl_usdt g2 = dadd (dadd (total_pnl_usdt (demo_engine (demo_position LONG_SPOT_SHORT_PERP (Some 500)))) (8 / 5)) (8 / 5)"
  by (rule overlapping_closes_double[OF _ demo_pnl, where sd = Sell]) (simp add: begin_close_def carry_demo_active demo_exit, simp add: demo_position_def new_position_def spot_side_def Let_def)

theorem narrowing_loss_booked_as_profit_witness:
  "(0::rat) \<le> 8 / 5 \<and> leg_gain (spot_leg (demo_position SHORT_SPOT_LONG_PERP (Some 500))) 500 +
     leg_gain (perp_leg (demo_position SHORT_SPOT_LONG_PERP (Some 500))) (5001 / 10) < 0"
proof (rule narrowing_loss_booked_as_profit[OF _ _ _ _ _ _ _ _ _ _ _ demo_pnl, where sp = 500 and qp = 501])
  let ?p = "demo_position SHORT_SPOT_LONG_PERP (Some 500)"
  show "hedged ?p" by (simp add: hedged_def demo_position_def new_position_def new_leg_def SUPPORTED_SYMBOLS_def MIN_SPREAD_BPS_def Let_def)
  have "dabs 4 \<le> dabs (dmul 20 (3 / 10))" by code_simp
  then show "dabs 4 \<le> dabs (target_exit_bps ?p)" by (simp add: demo_position_def new_position_def Let_def)
qed (simp_all add: demo_position_def new_position_def is_decimal_def Let_def)

end
