(* ===== verification/MinimaxTree.thy ===== *)
theory MinimaxTree
  imports Prelude
begin

text \<open>
  \<open>game_theory/minimax_tree.py\<close>: depth-limited minimax search with alpha-beta pruning and a table of visited states.

  The two recursive methods are one function with the player as an argument. The module imports \<open>time\<close> only inside \<open>search\<close>, so that the methods that ask for
  the time at every hundredth node find no such name: the clock is no part of the model.
\<close>

section \<open>Values\<close>

text \<open>The floats of the search, with the two infinities it starts from.\<close>

datatype xfloat = NegInf | Val pyfloat | PosInf

instantiation xfloat :: linorder
begin

fun less_eq_xfloat :: "xfloat \<Rightarrow> xfloat \<Rightarrow> bool" where
  "less_eq_xfloat NegInf y = True"
| "less_eq_xfloat (Val x) NegInf = False"
| "less_eq_xfloat (Val x) (Val y) = (x \<le> y)"
| "less_eq_xfloat (Val x) PosInf = True"
| "less_eq_xfloat PosInf y = (y = PosInf)"

definition less_xfloat :: "xfloat \<Rightarrow> xfloat \<Rightarrow> bool" where
  "less_xfloat x y = (x \<le> y \<and> \<not> y \<le> x)"

instance
proof
  fix x y z :: xfloat
  show "(x < y) = (x \<le> y \<and> \<not> y \<le> x)" by (rule less_xfloat_def)
  show "x \<le> x" by (cases x) simp_all
  show "x \<le> z" if "x \<le> y" "y \<le> z" using that by (cases x; cases y; cases z) simp_all
  show "x = y" if "x \<le> y" "y \<le> x" using that by (cases x; cases y) simp_all
  show "x \<le> y \<or> y \<le> x" by (cases x; cases y) auto
qed

end

section \<open>States and moves\<close>

datatype PlayerType = MAXIMIZER | MINIMIZER

datatype MarketAction = BUY | SELL | HOLD | HEDGE | SCALE_IN | SCALE_OUT

record GameState =
  position_size :: pyfloat
  unrealized_pnl :: pyfloat
  market_trend :: pyfloat
  volatility :: pyfloat
  liquidity_score :: pyfloat
  opponent_pressure :: pyfloat
  timestamp :: int
  depth :: int

definition is_terminal :: "int \<Rightarrow> GameState \<Rightarrow> bool" where
  "is_terminal max_d st \<longleftrightarrow> max_d \<le> depth st \<or> 1 / 2 < \<bar>unrealized_pnl st\<bar>"

datatype Move = Move (action: MarketAction) (move_size: pyfloat) (expected_impact: pyfloat) (confidence: pyfloat)

section \<open>Transposition table\<close>

text \<open>\<open>f"{x:.4f}"\<close>: the sign and the number of ten-thousandths.\<close>

type_synonym text4 = "bool \<times> int"

definition fmt4 :: "pyfloat \<Rightarrow> text4" where
  "fmt4 x = (x < 0, round_half_even (\<bar>x\<bar> * 10000))"

type_synonym state_key = "text4 \<times> text4 \<times> text4 \<times> text4"

type_synonym entry = "xfloat \<times> int \<times> Move option"

definition hash_state :: "GameState \<Rightarrow> state_key" where
  "hash_state st = (fmt4 (position_size st), fmt4 (unrealized_pnl st), fmt4 (market_trend st), fmt4 (volatility st))"

record cache =
  max_size :: int
  entries :: "(state_key, entry) dict"

definition cache_get :: "GameState \<Rightarrow> cache \<Rightarrow> entry option \<times> cache" where
  "cache_get st c =
     (let k = hash_state st
      in case dict_get (entries c) k of
           None \<Rightarrow> (None, c)
         | Some e \<Rightarrow> (Some e, c\<lparr>entries := dict_pop k (entries c) @ [(k, e)]\<rparr>))"

text \<open>The oldest entries go until one more fits; \<open>popitem\<close> raises on an empty table.\<close>

fun evict :: "int \<Rightarrow> (state_key, entry) dict \<Rightarrow> exn + (state_key, entry) dict" where
  "evict n [] = (if n \<le> 0 then Inl KeyError else Inr [])"
| "evict n (x # xs) = (if n \<le> int (length (x # xs)) then evict n xs else Inr (x # xs))"

definition cache_store :: "GameState \<Rightarrow> entry \<Rightarrow> cache \<Rightarrow> exn + cache" where
  "cache_store st e c = bind (evict (max_size c) (entries c)) (\<lambda>d. Inr (c\<lparr>entries := dict_set (hash_state st) e d\<rparr>))"

definition cache_clear :: "cache \<Rightarrow> cache" where
  "cache_clear c = c\<lparr>entries := []\<rparr>"

section \<open>Tree\<close>

record config =
  max_depth :: int
  branching_factor :: int
  weights :: "(string, pyfloat) dict"

record tree =
  table :: cache
  nodes_evaluated :: int
  pruning_count :: int

definition default_weights :: "(string, pyfloat) dict" where
  "default_weights = [(''pnl'', 1), (''trend'', 1 / 2), (''volatility'', - fl (3 / 10)), (''liquidity'', fl (1 / 5)), (''pressure'', - fl (2 / 5))]"

definition tree_init :: "int \<Rightarrow> int \<Rightarrow> int \<Rightarrow> config \<times> tree" where
  "tree_init md bf n =
     (\<lparr>max_depth = md, branching_factor = bf, weights = default_weights\<rparr>,
      \<lparr>table = \<lparr>max_size = n, entries = []\<rparr>, nodes_evaluated = 0, pruning_count = 0\<rparr>)"

definition set_weights :: "(string, pyfloat) dict \<Rightarrow> config \<Rightarrow> config" where
  "set_weights ws c = c\<lparr>weights := fold (\<lambda>(k, w). dict_set k w) ws (weights c)\<rparr>"

definition weight :: "config \<Rightarrow> string \<Rightarrow> pyfloat" where
  "weight c k = (case dict_get (weights c) k of None \<Rightarrow> 0 | Some w \<Rightarrow> w)"

definition evaluate :: "config \<Rightarrow> GameState \<Rightarrow> pyfloat" where
  "evaluate c st =
     (let s1 = fadd 0 (fmul (weight c ''pnl'') (unrealized_pnl st));
          s2 = fadd s1 (fmul (weight c ''trend'') (fmul (sgn (position_size st)) (market_trend st)));
          s3 = fadd s2 (fmul (weight c ''volatility'') (volatility st));
          s4 = fadd s3 (fmul (weight c ''liquidity'') (liquidity_score st));
          s5 = fadd s4 (fmul (weight c ''pressure'') (fmul (sgn (position_size st)) (opponent_pressure st)))
      in fsub s5 (fmul (fl (1 / 100)) (of_int (depth st))))"

definition slice_to :: "int \<Rightarrow> 'a list \<Rightarrow> 'a list" where
  "slice_to n xs = (if 0 \<le> n then take (nat n) xs else take (length xs - nat (- n)) xs)"

definition generate_moves :: "config \<Rightarrow> GameState \<Rightarrow> Move list" where
  "generate_moves c st =
     (let base = (if position_size st \<noteq> 0 then fmul \<bar>position_size st\<bar> (1 / 4) else 1000);
          trend = (if fl (3 / 10) < market_trend st
                   then [Move BUY base (fl (1 / 50)) (fl (7 / 10)), Move SCALE_IN (fmul base (1 / 2)) (fl (3 / 200)) (fl (3 / 5))]
                   else if market_trend st < - fl (3 / 10)
                   then [Move SELL base (- fl (1 / 50)) (fl (7 / 10)), Move SCALE_OUT (fmul base (1 / 2)) (- fl (3 / 200)) (fl (3 / 5))] else []);
          hedge = (if 0 < \<bar>position_size st\<bar> then [Move HEDGE (fmul \<bar>position_size st\<bar> (1 / 2)) 0 (fl (4 / 5))] else [])
      in slice_to (branching_factor c) (trend @ [Move HOLD 0 0 (1 / 2)] @ hedge))"

definition generate_adversarial_moves :: "config \<Rightarrow> GameState \<Rightarrow> Move list" where
  "generate_adversarial_moves c st =
     (let base = fmul (volatility st) (1 / 2);
          push = (if 1 / 2 < opponent_pressure st then [Move SELL 0 (- base) (fl (4 / 5))]
                  else if opponent_pressure st < - (1 / 2) then [Move BUY 0 (fmul base (1 / 2)) (fl (3 / 5))] else []);
          drain = (if liquidity_score st < fl (3 / 10) then [Move HOLD 0 (fmul (- base) (fl (3 / 10))) (fl (9 / 10))] else [])
      in slice_to (branching_factor c) (push @ drain @ [Move HOLD 0 0 (1 / 2)]))"

definition clamp :: "pyfloat \<Rightarrow> pyfloat" where
  "clamp x = max (- 1) (min 1 x)"

definition apply_move :: "GameState \<Rightarrow> Move \<Rightarrow> PlayerType \<Rightarrow> GameState" where
  "apply_move st m p =
     (let s = st\<lparr>depth := depth st + 1\<rparr>;
          x = fmul (fmul (move_size m) (expected_impact m)) (1 / 2);
          s1 = (if p = MAXIMIZER
                then
                  (case action m of
                     BUY \<Rightarrow> s\<lparr>position_size := fadd (position_size s) (move_size m), unrealized_pnl := fsub (unrealized_pnl s) x\<rparr>
                   | SELL \<Rightarrow> s\<lparr>position_size := fsub (position_size s) (move_size m), unrealized_pnl := fadd (unrealized_pnl s) x\<rparr>
                   | HEDGE \<Rightarrow> s\<lparr>unrealized_pnl := fmul (unrealized_pnl s) (fsub 1 (fdiv (move_size m) (max \<bar>position_size st\<bar> 1)))\<rparr>
                   | _ \<Rightarrow> s)
                else
                  s\<lparr>market_trend := fadd (market_trend s) (fmul (expected_impact m) (fl (1 / 10))),
                    opponent_pressure := fadd (opponent_pressure s) (fmul (expected_impact m) (fl (1 / 5))),
                    unrealized_pnl := fadd (unrealized_pnl s) (fmul (expected_impact m) \<bar>position_size st\<bar>)\<rparr>)
      in s1\<lparr>market_trend := clamp (market_trend s1), opponent_pressure := clamp (opponent_pressure s1)\<rparr>)"

section \<open>Search\<close>

lemma depth_apply [simp]: "depth (apply_move st m p) = depth st + 1"
  by (simp add: apply_move_def Let_def split: MarketAction.split)

fun other :: "PlayerType \<Rightarrow> PlayerType" where
  "other MAXIMIZER = MINIMIZER" | "other MINIMIZER = MAXIMIZER"

definition moves_of :: "config \<Rightarrow> PlayerType \<Rightarrow> GameState \<Rightarrow> Move list" where
  "moves_of c p st = (if p = MAXIMIZER then generate_moves c st else generate_adversarial_moves c st)"

definition worst :: "PlayerType \<Rightarrow> xfloat" where
  "worst p = (if p = MAXIMIZER then NegInf else PosInf)"

definition better :: "PlayerType \<Rightarrow> xfloat \<Rightarrow> xfloat \<Rightarrow> bool" where
  "better p v best = (if p = MAXIMIZER then best < v else v < best)"

type_synonym outcome = "(exn + xfloat \<times> Move option) \<times> tree"

definition finish :: "GameState \<Rightarrow> outcome \<Rightarrow> outcome" where
  "finish st r =
     (case r of
        (Inl e, t) \<Rightarrow> (Inl e, t)
      | (Inr (v, m), t) \<Rightarrow>
          (case cache_store st (v, depth st, m) (table t) of
             Inl e \<Rightarrow> (Inl e, t\<lparr>table := (table t)\<lparr>entries := []\<rparr>\<rparr>)
           | Inr c \<Rightarrow> (Inr (v, m), t\<lparr>table := c\<rparr>)))"

text \<open>\<open>visit\<close> is \<open>_maximize\<close> or \<open>_minimize\<close>, \<open>try_moves\<close> their loop over the moves.\<close>

function visit :: "config \<Rightarrow> PlayerType \<Rightarrow> GameState \<Rightarrow> xfloat \<Rightarrow> xfloat \<Rightarrow> tree \<Rightarrow> outcome"
  and try_moves :: "config \<Rightarrow> PlayerType \<Rightarrow> GameState \<Rightarrow> Move list \<Rightarrow> xfloat \<Rightarrow> xfloat \<Rightarrow> xfloat \<Rightarrow> Move option \<Rightarrow> tree \<Rightarrow> outcome" where
  "visit c p st a b t =
     (let t1 = t\<lparr>nodes_evaluated := nodes_evaluated t + 1\<rparr>
      in if nodes_evaluated t1 mod 100 = 0 then (Inl (OtherError ''NameError''), t1)
         else if is_terminal (max_depth c) st then (Inr (Val (evaluate c st), None), t1)
         else
           (case cache_get st (table t1) of
              (Some (v, d, m), tb) \<Rightarrow>
                (if depth st \<le> d then (Inr (v, m), t1\<lparr>table := tb\<rparr>)
                 else finish st (try_moves c p st (moves_of c p st) a b (worst p) None (t1\<lparr>table := tb\<rparr>)))
            | (None, tb) \<Rightarrow> finish st (try_moves c p st (moves_of c p st) a b (worst p) None (t1\<lparr>table := tb\<rparr>))))"
| "try_moves c p st [] a b best bm t = (Inr (best, bm), t)"
| "try_moves c p st (m # ms) a b best bm t =
     (case visit c (other p) (apply_move st m p) a b t of
        (Inl e, t1) \<Rightarrow> (Inl e, t1)
      | (Inr (v, x), t1) \<Rightarrow>
          (let best1 = (if better p v best then v else best); bm1 = (if better p v best then Some m else bm);
               a1 = (if p = MAXIMIZER then max a best1 else a); b1 = (if p = MAXIMIZER then b else min b best1)
           in if b1 \<le> a1 then (Inr (best1, bm1), t1\<lparr>pruning_count := pruning_count t1 + 1\<rparr>)
              else try_moves c p st ms a1 b1 best1 bm1 t1))"
  by pat_completeness auto

termination
  by (relation "measures [\<lambda>x. case x of Inl (c, p, st, a, b, t) \<Rightarrow> nat (max_depth c + 1 - depth st) | Inr (c, p, st, ms, a, b, bs, bm, t) \<Rightarrow> nat (max_depth c - depth st),
      \<lambda>x. case x of Inl _ \<Rightarrow> 0 | Inr _ \<Rightarrow> 1, \<lambda>x. case x of Inl _ \<Rightarrow> 0 | Inr (c, p, st, ms, a, b, bs, bm, t) \<Rightarrow> length ms]")
    (auto simp: is_terminal_def)

declare visit.simps [simp del] try_moves.simps [simp del]

record SearchResult =
  best_move :: "Move option"
  best_value :: xfloat
  r_nodes :: int
  depth_reached :: int
  r_pruned :: int

definition search :: "config \<Rightarrow> GameState \<Rightarrow> tree \<Rightarrow> (exn + SearchResult) \<times> tree" where
  "search c st t =
     (case visit c MAXIMIZER st NegInf PosInf (t\<lparr>nodes_evaluated := 0, pruning_count := 0\<rparr>) of
        (Inl e, t1) \<Rightarrow> (Inl e, t1)
      | (Inr (v, m), t1) \<Rightarrow>
          (Inr \<lparr>best_move = m, best_value = v, r_nodes = nodes_evaluated t1, depth_reached = min (max_depth c) (depth st + max_depth c),
                r_pruned = pruning_count t1\<rparr>, t1))"

definition clear_cache :: "tree \<Rightarrow> tree" where
  "clear_cache t = t\<lparr>table := cache_clear (table t)\<rparr>"

definition evaluate_market_scenario :: "pyfloat \<Rightarrow> pyfloat \<Rightarrow> pyfloat \<Rightarrow> pyfloat \<Rightarrow> exn + SearchResult" where
  "evaluate_market_scenario pos pnl tr vol =
     (let (c, t) = tree_init 6 5 10000
      in fst (search c \<lparr>position_size = pos, unrealized_pnl = pnl, market_trend = tr, volatility = vol, liquidity_score = fl (7 / 10),
           opponent_pressure = 0, timestamp = 0, depth = 0\<rparr> t))"


section \<open>Outcome of a search\<close>

text \<open>What one call may do to the counters and the table, and how it may end.\<close>

definition fair_run :: "tree \<Rightarrow> outcome \<Rightarrow> bool" where
  "fair_run t r \<longleftrightarrow> max_size (table (snd r)) = max_size (table t) \<and> nodes_evaluated t \<le> nodes_evaluated (snd r) \<and>
     (case fst r of
        Inl e \<Rightarrow> (e = OtherError ''NameError'' \<and> nodes_evaluated (snd r) = 100) \<or> (e = KeyError \<and> max_size (table t) \<le> 0)
      | Inr _ \<Rightarrow> nodes_evaluated (snd r) < 100)"

lemma evict_result:
  "evict n xs = Inl e \<Longrightarrow> e = KeyError \<and> n \<le> 0"
  "evict n xs = Inr ys \<Longrightarrow> 0 < n \<and> int (length ys) < n \<and> (\<exists>k. ys = drop k xs)"
proof (induction xs)
  case (Cons x xs)
  {
    case 1
    then show ?case using Cons by (simp split: if_splits)
  next
    case 2
    then show ?case using Cons
      by (simp split: if_splits) (metis drop_Suc_Cons, metis drop0 length_Cons of_nat_Suc of_nat_0_le_iff add.commute le_less_trans not_le)
  }
qed (auto split: if_splits)

lemma fair_finish: "fair_run t r \<Longrightarrow> fair_run t (finish st r)"
  using evict_result(1)
  by (auto simp: fair_run_def finish_def cache_store_def bind_def split: sum.splits prod.splits)

lemma fair_trans: "fair_run t1 r \<Longrightarrow> max_size (table t1) = max_size (table t) \<Longrightarrow> nodes_evaluated t \<le> nodes_evaluated t1 \<Longrightarrow> fair_run t r"
  by (auto simp: fair_run_def split: sum.splits)

lemma cache_get_size: "cache_get st c = (x, c1) \<Longrightarrow> max_size c1 = max_size c"
  by (auto simp: cache_get_def Let_def split: option.splits)

lemma search_fair:
  "0 \<le> nodes_evaluated t \<Longrightarrow> nodes_evaluated t < 100 \<Longrightarrow> fair_run t (visit c p st a b t)"
  "0 \<le> nodes_evaluated t \<Longrightarrow> nodes_evaluated t < 100 \<Longrightarrow> fair_run t (try_moves c p st ms a b best bm t)"
proof (induction c p st a b t and c p st ms a b best bm t rule: visit_try_moves.induct)
  case (1 c p st a b t)
  let ?t = "t\<lparr>nodes_evaluated := nodes_evaluated t + 1\<rparr>"
  show ?case
  proof (cases "nodes_evaluated ?t mod 100 = 0")
    case True
    then have "nodes_evaluated t + 1 = 100" using "1.prems" by (simp add: mod_eq_0_iff_dvd) presburger
    then show ?thesis using True by (simp add: visit.simps fair_run_def)
  next
    case no: False
    then have lt: "nodes_evaluated t + 1 < 100" using "1.prems" by (cases "nodes_evaluated t + 1 = 100") auto
    show ?thesis
    proof (cases "is_terminal (max_depth c) st")
      case True
      then show ?thesis using no lt by (simp add: visit.simps fair_run_def)
    next
      case False
      obtain e tb where g: "cache_get st (table ?t) = (e, tb)" by fastforce
      have size: "max_size tb = max_size (table t)" using cache_get_size[OF g] by simp
      let ?u = "t\<lparr>nodes_evaluated := nodes_evaluated t + 1, table := tb\<rparr>"
      have rest: "fair_run ?u (try_moves c p st (moves_of c p st) a b (worst p) None ?u)"
        if "e = None \<or> (\<exists>v d m. e = Some (v, d, m) \<and> \<not> depth st \<le> d)"
        using that "1.IH" no False g lt "1.prems"(1) by (cases e) (auto simp: Let_def)
      show ?thesis
      proof (cases "\<exists>v d m. e = Some (v, d, m) \<and> depth st \<le> d")
        case True
        then show ?thesis using no False g size lt by (auto simp: visit.simps fair_run_def)
      next
        case miss: False
        then have "e = None \<or> (\<exists>v d m. e = Some (v, d, m) \<and> \<not> depth st \<le> d)" by (cases e) auto
        then have "fair_run t (finish st (try_moves c p st (moves_of c p st) a b (worst p) None ?u))"
          using fair_trans[OF fair_finish[OF rest]] size by simp
        then show ?thesis using no False g miss by (cases e) (auto simp: visit.simps)
      qed
    qed
  qed
next
  case (2 c p st a b best bm t)
  then show ?case by (simp add: try_moves.simps fair_run_def)
next
  case (3 c p st m ms a b best bm t)
  obtain r t1 where r: "visit c (other p) (apply_move st m p) a b t = (r, t1)" by fastforce
  have w: "fair_run t (r, t1)" using "3.IH"(1) "3.prems" r by simp
  show ?case
  proof (cases r)
    case (Inl e)
    then show ?thesis using w r by (simp add: try_moves.simps)
  next
    case (Inr vx)
    obtain v x where vx: "vx = (v, x)" by fastforce
    let ?best = "if better p v best then v else best" and ?bm = "if better p v best then Some m else bm"
    let ?a = "if p = MAXIMIZER then max a ?best else a" and ?b = "if p = MAXIMIZER then b else min b ?best"
    have lt: "nodes_evaluated t1 < 100" "0 \<le> nodes_evaluated t1" "max_size (table t1) = max_size (table t)" "nodes_evaluated t \<le> nodes_evaluated t1"
      using w Inr "3.prems"(1) by (auto simp: fair_run_def)
    show ?thesis
    proof (cases "?b \<le> ?a")
      case True
      then show ?thesis using r Inr vx lt by (simp add: try_moves.simps fair_run_def Let_def)
    next
      case False
      have "fair_run t1 (try_moves c p st ms ?a ?b ?best ?bm t1)"
        using "3.IH"(2)[OF r[symmetric] Inr vx[symmetric] refl refl refl refl False] lt by blast
      then have "fair_run t (try_moves c p st ms ?a ?b ?best ?bm t1)" by (rule fair_trans) (use lt in simp_all)
      then show ?thesis using r Inr vx False by (simp add: try_moves.simps Let_def)
    qed
  qed
qed

text \<open>A search one move deep of a state in which nothing happens.\<close>

abbreviation quiet :: GameState where
  "quiet \<equiv> \<lparr>position_size = 0, unrealized_pnl = 0, market_trend = 0, volatility = 0,
     liquidity_score = 1, opponent_pressure = 0, timestamp = 0, depth = 0\<rparr>"

abbreviation shallow :: config where
  "shallow \<equiv> \<lparr>max_depth = 1, branching_factor = 5, weights = default_weights\<rparr>"

abbreviation fresh :: tree where
  "fresh \<equiv> \<lparr>table = \<lparr>max_size = 2, entries = []\<rparr>, nodes_evaluated = 0, pruning_count = 0\<rparr>"

text \<open>A search returns only if it looks at fewer than a hundred nodes; the hundredth ends it with an exception, because the name \<open>time\<close> is not known where it is
  used, whatever time limit was given. Nothing else goes wrong with a table that may hold an entry.\<close>

theorem search_ends_before_hundredth_node:
  assumes "0 < max_size (table t)"
  shows "case search c st t of
      (Inl e, t1) \<Rightarrow> e = OtherError ''NameError'' \<and> nodes_evaluated t1 = 100
    | (Inr r, t1) \<Rightarrow> r_nodes r < 100 \<and> r_nodes r = nodes_evaluated t1"
proof -
  let ?t = "t\<lparr>nodes_evaluated := 0, pruning_count := 0\<rparr>"
  have w: "fair_run ?t (visit c MAXIMIZER st NegInf PosInf ?t)" by (rule search_fair) simp_all
  show ?thesis using w assms by (auto simp: search_def fair_run_def split: prod.split sum.split)
qed

lemma search_ends_before_hundredth_node_witness:
  "case search shallow quiet fresh of
      (Inl e, t1) \<Rightarrow> e = OtherError ''NameError'' \<and> nodes_evaluated t1 = 100
    | (Inr r, t1) \<Rightarrow> r_nodes r < 100 \<and> r_nodes r = nodes_evaluated t1"
  by (rule search_ends_before_hundredth_node) simp


section \<open>Table\<close>

definition small :: "cache \<Rightarrow> bool" where
  "small c \<longleftrightarrow> wf_dict (entries c) \<and> int (length (entries c)) \<le> max_size c"

lemma wf_drop: "wf_dict d \<Longrightarrow> wf_dict (drop k d)"
  by (auto simp: wf_dict_def drop_map[symmetric])

lemma small_store:
  assumes "small c" "cache_store st e c = Inr c1"
  shows "small c1"
proof -
  obtain d where d: "evict (max_size c) (entries c) = Inr d" "c1 = c\<lparr>entries := dict_set (hash_state st) e d\<rparr>"
    using assms(2) by (auto simp: cache_store_def elim!: bind_InrE)
  obtain k where k: "int (length d) < max_size c" "d = drop k (entries c)" using evict_result(2)[OF d(1)] by blast
  have "wf_dict d" unfolding k(2) using assms(1) by (intro wf_drop) (simp add: small_def)
  moreover have "length (dict_set (hash_state st) e d) \<le> length d + 1" unfolding length_dict_set by simp
  ultimately show ?thesis using k(1) unfolding d(2) by (simp add: small_def)
qed

lemma small_get:
  assumes "small c" "cache_get st c = (x, c1)"
  shows "small c1"
proof (cases "dict_get (entries c) (hash_state st)")
  case None
  then show ?thesis using assms by (simp add: cache_get_def)
next
  case (Some e)
  let ?k = "hash_state st"
  have mem: "?k \<in> fst ` set (entries c)" using Some by (force dest: map_of_SomeD)
  then have "length (dict_pop ?k (entries c)) = length (entries c) - 1" "0 < length (entries c)"
    using assms(1) length_dict_pop[of "entries c" ?k] by (auto simp: small_def)
  moreover have "?k \<notin> fst ` set (dict_pop ?k (entries c))" by (simp add: map_of_eq_None_iff[symmetric] dict_get_pop)
  then have "wf_dict (dict_pop ?k (entries c) @ [(?k, e)])"
    using assms(1) wf_dict_pop[of "entries c" ?k] unfolding small_def wf_dict_def by simp
  moreover have "c1 = c\<lparr>entries := dict_pop ?k (entries c) @ [(?k, e)]\<rparr>" using assms(2) Some by (simp add: cache_get_def Let_def)
  ultimately show ?thesis using assms(1) by (simp add: small_def)
qed

lemma small_finish:
  assumes "small (table (snd r))"
  shows "small (table (snd (finish st r)))"
proof (cases r)
  case (Pair o1 t)
  show ?thesis
  proof (cases o1)
    case (Inr vm)
    obtain v m where vm: "vm = (v, m)" by fastforce
    show ?thesis
    proof (cases "cache_store st (v, depth st, m) (table t)")
      case (Inl e)
      then show ?thesis using assms Pair Inr vm by (simp add: finish_def small_def)
    next
      case st: (Inr c)
      then have "small c" using assms Pair by (intro small_store[OF _ st]) simp
      then show ?thesis using Pair Inr vm st by (simp add: finish_def)
    qed
  qed (use assms Pair in \<open>simp add: finish_def\<close>)
qed

lemma search_small:
  "small (table t) \<Longrightarrow> small (table (snd (visit c p st a b t)))"
  "small (table t) \<Longrightarrow> small (table (snd (try_moves c p st ms a b best bm t)))"
proof (induction c p st a b t and c p st ms a b best bm t rule: visit_try_moves.induct)
  case (1 c p st a b t)
  let ?t = "t\<lparr>nodes_evaluated := nodes_evaluated t + 1\<rparr>"
  obtain e tb where g: "cache_get st (table ?t) = (e, tb)" by fastforce
  let ?u = "t\<lparr>nodes_evaluated := nodes_evaluated t + 1, table := tb\<rparr>"
  have tb: "small tb" using small_get[OF _ g] "1.prems" by simp
  consider "nodes_evaluated ?t mod 100 = 0" | "nodes_evaluated ?t mod 100 \<noteq> 0" "is_terminal (max_depth c) st"
    | "nodes_evaluated ?t mod 100 \<noteq> 0" "\<not> is_terminal (max_depth c) st" "\<exists>v d m. e = Some (v, d, m) \<and> depth st \<le> d"
    | "nodes_evaluated ?t mod 100 \<noteq> 0" "\<not> is_terminal (max_depth c) st" "\<not> (\<exists>v d m. e = Some (v, d, m) \<and> depth st \<le> d)"
    by blast
  then show ?case
  proof cases
    case 4
    then have "small (table (snd (try_moves c p st (moves_of c p st) a b (worst p) None ?u)))"
      using "1.IH" g tb by (cases e) (auto simp: Let_def)
    from small_finish[OF this, of st] show ?thesis using 4 g by (cases e) (auto simp: visit.simps Let_def)
  qed (use g tb "1.prems" in \<open>auto simp: visit.simps Let_def\<close>)
next
  case (3 c p st m ms a b best bm t)
  then show ?case by (auto simp: try_moves.simps(2) Let_def split: prod.split sum.split)
qed (simp add: try_moves.simps)

text \<open>A search keeps the table within its size, with one entry per key, also when it ends with an exception.\<close>

theorem search_keeps_table_small:
  assumes "small (table t)"
  shows "small (table (snd (search c st t)))"
proof -
  let ?t = "t\<lparr>nodes_evaluated := 0, pruning_count := 0\<rparr>"
  obtain o1 t2 where v: "visit c MAXIMIZER st NegInf PosInf ?t = (o1, t2)" by fastforce
  have "small (table t2)" using search_small(1)[of ?t c MAXIMIZER st NegInf PosInf] v assms by simp
  then show ?thesis using v by (cases o1) (auto simp: search_def)
qed

lemma search_keeps_table_small_witness: "small (table (snd (search shallow quiet fresh)))"
  by (rule search_keeps_table_small) (simp add: small_def wf_dict_def)

text \<open>The key of the table has neither the player nor the liquidity nor the pressure of the opponent: what was stored for one state is the value of every
  state with the same other numbers to four digits, of either player, at the same depth or above.\<close>

theorem colliding_states_share_value:
  assumes "cache_store st (v, d, m) (table t0) = Inr c1" "hash_state st' = hash_state st" "depth st' \<le> d" "\<not> is_terminal (max_depth c) st'"
    "(nodes_evaluated t0 + 1) mod 100 \<noteq> 0"
  shows "fst (visit c p st' a b (t0\<lparr>table := c1\<rparr>)) = Inr (v, m)"
proof -
  have "dict_get (entries c1) (hash_state st') = Some (v, d, m)"
    using assms(1,2) by (auto simp: cache_store_def dict_get_set elim!: bind_InrE)
  then show ?thesis using assms(3-5) by (simp add: visit.simps cache_get_def Let_def)
qed

lemma colliding_states_share_value_witness:
  "fst (visit shallow MINIMIZER (quiet\<lparr>opponent_pressure := 1\<rparr>) NegInf PosInf (fresh\<lparr>table := \<lparr>max_size = 2, entries = [(hash_state quiet, (Val 7, 0, None))]\<rparr>\<rparr>)) =
     Inr (Val 7, None)"
  by (rule colliding_states_share_value[of quiet "Val 7" 0 None fresh]) (simp_all add: cache_store_def bind_def hash_state_def is_terminal_def)

text \<open>Scaling in or out is no move: the state after it is the one after holding.\<close>

theorem scaling_is_holding:
  "apply_move st (Move SCALE_IN x y z) MAXIMIZER = apply_move st (Move HOLD x' y' z') MAXIMIZER \<and>
   apply_move st (Move SCALE_OUT x y z) MAXIMIZER = apply_move st (Move HOLD x' y' z') MAXIMIZER"
  by (simp add: apply_move_def)

lemma try_moves_from:
  assumes "fst (try_moves c p st ms a b best bm t) = Inr (v, Some m)"
  shows "m \<in> set ms \<or> bm = Some m"
  using assms
proof (induction ms arbitrary: a b best bm t)
  case Nil
  then show ?case by (simp add: try_moves.simps)
next
  case (Cons x ms)
  obtain r t1 where r: "visit c (other p) (apply_move st x p) a b t = (r, t1)" by fastforce
  then obtain u y where u: "r = Inr (u, y)" using Cons.prems by (cases r) (auto simp: try_moves.simps)
  show ?case
    using Cons.prems Cons.IH r u by (fastforce simp: try_moves.simps Let_def split: if_splits)
qed

text \<open>With an empty table, the move a search recommends is one of the moves generated for the state.\<close>

theorem recommended_move_is_legal:
  assumes "entries (table t) = []" "search c st t = (Inr r, t1)" "best_move r = Some m"
  shows "m \<in> set (generate_moves c st)"
proof -
  let ?u = "t\<lparr>pruning_count := 0, nodes_evaluated := 1\<rparr>"
  obtain o1 t2 where v: "visit c MAXIMIZER st NegInf PosInf (t\<lparr>nodes_evaluated := 0, pruning_count := 0\<rparr>) = (o1, t2)" by fastforce
  obtain x where x: "o1 = Inr (x, Some m)" using assms(2,3) v by (auto simp: search_def split: sum.splits)
  have nt: "\<not> is_terminal (max_depth c) st" using v x by (auto simp: visit.simps Let_def)
  have "(o1, t2) = finish st (try_moves c MAXIMIZER st (generate_moves c st) NegInf PosInf NegInf None ?u)"
    using v nt assms(1) by (auto simp: visit.simps Let_def cache_get_def moves_of_def worst_def)
  then have "fst (try_moves c MAXIMIZER st (generate_moves c st) NegInf PosInf NegInf None ?u) = Inr (x, Some m)"
    using x by (auto simp: finish_def split: prod.splits sum.splits)
  then show ?thesis using try_moves_from by fastforce
qed

lemma recommended_move_is_legal_witness:
  "\<exists>r t1. search shallow quiet fresh = (Inr r, t1) \<and> best_move r = Some (Move HOLD 0 0 (1 / 2)) \<and> Move HOLD 0 0 (1 / 2) \<in> set (generate_moves shallow quiet)"
proof -
  have g: "generate_moves shallow quiet = [Move HOLD 0 0 (1 / 2)]"
  proof -
    have "(0::pyfloat) < fl (3 / 10)" by code_simp
    then show ?thesis by (simp add: generate_moves_def slice_to_def)
  qed
  let ?n = "apply_move quiet (Move HOLD 0 0 (1 / 2)) MAXIMIZER"
  have e: "search shallow quiet fresh =
     (Inr \<lparr>best_move = Some (Move HOLD 0 0 (1 / 2)), best_value = Val (evaluate shallow ?n), r_nodes = 2, depth_reached = 1, r_pruned = 0\<rparr>,
      fresh\<lparr>nodes_evaluated := 2, table := \<lparr>max_size = 2, entries = [(hash_state quiet, (Val (evaluate shallow ?n), 0, Some (Move HOLD 0 0 (1 / 2))))]\<rparr>\<rparr>)"
    using g
    by (simp add: search_def visit.simps try_moves.simps is_terminal_def cache_get_def Let_def moves_of_def worst_def better_def finish_def cache_store_def
        bind_def less_xfloat_def max_def)
  show ?thesis using e recommended_move_is_legal[OF _ e] by simp
qed

end
