(* ===== verification/Spec2Isabelle.thy ===== *)
theory Spec2Isabelle
  imports OrderManager RingBuffer OCO RWLocks Reconciliation CommandBus AuditTrail RateLimit OrderBook
    CircuitBreaker BellmanFord Endianness ReadModel MessageBroker ProcessSupervisor
    TokenBucket PeggedOrder StateSerializer MemoryCache ThresholdMonitor DynamicStopLoss OrphanResolver
    LiquiditySeeker SmartRouter SpreadCapture PerpHedger InventoryManager LiquidationShield CrossMargin
    Consensus CrossVenue CapitalReserve SnapshotManager IcebergManager FundingHarvester BasisArb ZScoreExecutor
    DoCalculus
    ValueArea
    FeeOptimizer
    CashCarry
    MinimaxTree
begin

text \<open>
  A verification development for the Python core of the trading bot under \<open>src/backend/\<close>.

  The bot takes market data in over web sockets, keeps local order books, turns signals into
  commands, and sends orders to exchanges under rate limits and risk limits, while audit, recovery and
  reconciliation code watches over it. This development covers the parts that carry state whose corruption
  costs money: each is a class (or a few) with a lock around its methods, so a component is modelled as
  a record for its fields, one definition per method, and a run as a sequence of method calls.

  \<^bold>\<open>Theories and the code they model\<close>

  \<^item> \<open>PyNum\<close>, \<open>Prelude\<close>: what the Python language and its standard library give the components. Floats and
    decimals are rationals that are rounded after every operation (\<open>fl\<close>, binary64 with its 53-bit
    significand; \<open>dc\<close>, a decimal context of 28 digits); exceptions are values of \<open>exn\<close>, a call
    that may wait for ever is a \<open>call\<close>; a dict is an association list in insertion order; the order in which
    a set is enumerated is a parameter. Two locales carry the inductions every component needs:
    \<open>op_machine\<close> (an invariant kept by each operation holds after any sequence, and so does any
    reflexive-transitive relation between the states before and after) and \<open>step_system\<close> (the same for the
    reachable states of an interleaving).
  \<^item> \<open>OrderManager\<close>: \<open>execution/order_manager.py\<close>, the order lifecycle (\<open>Order\<close>, \<open>Fill\<close>, \<open>osm\<close> for
    \<open>OrderStateMachine\<close>, \<open>mgr\<close> for \<open>OrderManager\<close>). The \<open>asyncio.Lock\<close> is the field \<open>sm_locked\<close>: a call that waits for
    a lock nobody will release is the value \<open>Blocks\<close>.
  \<^item> \<open>RingBuffer\<close>: \<open>ipc/ring_buffer.py\<close>, the byte ring between processes (\<open>ring\<close>) and its multi-producer
    variant (\<open>mring\<close>). Counters are 64-bit words, storage is a list of bytes. The locale
    \<open>bounded_fifo\<close> is the contract of a bounded queue; the ring is its instance.
  \<^item> \<open>OCO\<close>: \<open>oms/oco_manager.py\<close>, one-cancels-other groups (\<open>OCOGroup\<close> with two \<open>OCOLeg\<close>s, \<open>oco_mgr\<close>).
  \<^item> \<open>RWLocks\<close>: \<open>concurrency/rw_locks.py\<close>. The critical sections of \<open>RWLock\<close> are functions on \<open>rwlock\<close>; threads
    interleave between them as the inductive relation \<open>rw_step\<close> over \<open>rw_sys\<close>, which also has the waiters of the
    condition variable. The reentrant lock and \<open>RWLockedCache\<close> are built on the same functions.
  \<^item> \<open>Reconciliation\<close>: \<open>oms/reconciliation_engine.py\<close>, the comparison of the order manager's state with the
    exchange's and the automatic flattening. The abstract \<open>ExchangeAdapter\<close> is a record of functions;
    \<open>exchange_contract\<close> is what the engine relies on, and the mock exchange of the file is its instance.
  \<^item> \<open>CommandBus\<close>: \<open>cqrs/command_bus.py\<close>, validation, hooks, handlers, metrics and history of commands. Handlers,
    validators and hooks act on a world \<open>'w\<close> that belongs to whoever registered them; the risk limits of the file
    are an instance of \<open>guarded_command\<close>.
  \<^item> \<open>AuditTrail\<close>: \<open>cqrs/audit_trail.py\<close>, the hash chain and its Merkle trees. Digests, HMAC and JSON text are
    the functions of a \<open>crypto\<close> record: nothing is assumed of them except where a theorem says so.
  \<^item> \<open>RateLimit\<close>: \<open>venues/rate_limit_aggregator.py\<close>, request windows and throttling of the five venues.
  \<^item> \<open>OrderBook\<close>: \<open>websockets/orderbook_manager.py\<close>, local books kept by snapshots and updates. The third-party
    \<open>SortedDict\<close> is a record of its operations whose documented laws are the locale \<open>sorted_dict\<close>; a sorted
    association list is proved to be one.
  \<^item> \<open>CircuitBreaker\<close>: \<open>alerts/circuit_breaker_telemetry.py\<close>, breakers with their transition record and the registry.
  \<^item> \<open>BellmanFord\<close>: \<open>arbitrage/bellman_ford_solver.py\<close>, the search for negative cycles in the graph of exchange rates
    and the detector that repeats it. Logarithm and exponential are the functions of a \<open>mathlib\<close> record.
  \<^item> \<open>Encoding\<close>, \<open>Endianness\<close>: \<open>protocols/endianness_handler.py\<close>, numbers and strings in byte buffers. \<open>Encoding\<close> has
    what \<open>struct\<close> and \<open>str.encode\<close> give: bytes of integers, IEEE patterns (the locale \<open>binary_format\<close> with binary64
    and binary32 as instances) and UTF-8.
  \<^item> \<open>ReadModel\<close>: \<open>cqrs/read_model_builder.py\<close>, the positions and orders views that events are projected to, and their
    rebuild from the event store.
  \<^item> \<open>MessageBroker\<close>: \<open>events/message_broker.py\<close>, topics, queue, dead letters and the processing tasks, of
    which there can be several: \<open>loop_step\<close> is one step of one of them.
  \<^item> \<open>ProcessSupervisor\<close>: \<open>orchestration/process_supervisor.py\<close>, child processes, monitor rounds and restart threads,
    with the processes ending whenever they like.
  \<^item> \<open>TokenBucket\<close>: \<open>exchanges/rate_limiter.py\<close>, token buckets and the limiters of one exchange. The clock is a
    function of the round and the reading; what others do while \<open>acquire\<close> sleeps is a function on the state.
  \<^item> \<open>PeggedOrder\<close>: \<open>oms/pegged_order.py\<close>, orders whose price follows the book. \<open>create_check\<close> and \<open>create_register\<close>
    are the two critical sections of a creation.
  \<^item> \<open>StateSerializer\<close>: \<open>persistence/state_serializer.py\<close>, the trading state as dictionaries, as bytes and as files of a
    checkpoint directory. JSON text, zlib and CRC are the functions of a \<open>codec\<close> record.
  \<^item> \<open>MemoryCache\<close>: \<open>database/memory_cache.py\<close>, the cache of arrays and its tick index. The eviction loop may run for ever,
    so \<open>put\<close> is an option.
  \<^item> \<open>ThresholdMonitor\<close>: \<open>alerts/threshold_monitor.py\<close>, sliding windows, thresholds, cooldowns and callbacks.
  \<^item> \<open>DynamicStopLoss\<close>: \<open>risk/dynamic_stop_loss.py\<close>, true range, volatility, and the trailing stops of open positions.
  \<^item> \<open>OrphanResolver\<close>: \<open>recovery/orphan_trade_resolver.py\<close>, orders that only one side knows, and their cancellation.
  \<^item> \<open>LiquiditySeeker\<close>: \<open>oms/liquidity_seeker.py\<close>, iceberg detection, probe orders and the router that uses them.
  \<^item> \<open>SmartRouter\<close>: \<open>execution/smart_router.py\<close>, slicing strategies; the task of a parent order is a state machine (\<open>task\<close>)
    that stops wherever the coroutine awaits.
  \<^item> \<open>SpreadCapture\<close>: \<open>execution/spread_capture_engine.py\<close>, the quotes of a market maker and their fills.
  \<^item> \<open>PerpHedger\<close>: \<open>hedging/perp_hedger.py\<close>, hedging strategies, observers and the hedger.
  \<^item> \<open>InventoryManager\<close>, \<open>CrossMargin\<close>: \<open>arbitrage/inventory_manager.py\<close> and \<open>arbitrage/cross_margin_router.py\<close>, what the
    arbitrage holds and how capital is spread over margin accounts.
  \<^item> \<open>Consensus\<close>: \<open>marl/consensus_protocol.py\<close>, the vote of several agents on a trade.
  \<^item> \<open>CrossVenue\<close>: \<open>venues/cross_reconciler.py\<close>, balances and positions of the bot against those of the venues.
  \<^item> \<open>CapitalReserve\<close>: \<open>portfolio/capital_reserver.py\<close>, the cash reserve, its target by regime and its deployment.
  \<^item> \<open>SnapshotManager\<close>: \<open>recovery/snapshot_manager.py\<close>, full and delta snapshots of the state in a directory. JSON text,
    compression and hashes are the functions of a \<open>codec\<close> record.
  \<^item> \<open>IcebergManager\<close>: \<open>execution/iceberg_manager.py\<close>, orders that show part of their size, and the answer to sweeps.
  \<^item> \<open>FundingHarvester\<close>: \<open>arbitrage/funding_rate_harvester.py\<close>, trades that collect funding payments.
  \<^item> \<open>BasisArb\<close>: \<open>derivatives/basis_arb.py\<close>, cash-and-carry trades with a spot and a perpetual leg.
  \<^item> \<open>ZScoreExecutor\<close>: \<open>stat_arb/zscore_executor.py\<close>, rolling z-scores and the pairs trades entered on them.
  \<^item> \<open>DoCalculus\<close>: \<open>causal/do_calculus.py\<close>, causal graphs and the identification of effects.
  \<^item> \<open>CashCarry\<close>: \<open>arbitrage/cash_carry_engine.py\<close>, the cash-and-carry engine that sends both legs at once.
  \<^item> \<open>FeeOptimizer\<close>: \<open>sor/fee_optimizer.py\<close>, fee tiers and the venue with the best profit after fees.
  \<^item> \<open>ValueArea\<close>: \<open>volume_profile/value_area.py\<close>, volume by price, its point of control and the value area around it.
  \<^item> \<open>MinimaxTree\<close>: \<open>game_theory/minimax_tree.py\<close>, the alpha-beta search and its table of visited states.
  \<^item> \<open>LiquidationShield\<close>: \<open>margin/liquidation_shield.py\<close>, liquidation prices, risk levels and deleveraging.

  The components do not call each other in the code (each file is a module of its own that a caller wires up), so
  the theories share the prelude and no state.

  \<^bold>\<open>What the theorems show\<close>

  \<^item> Orders: state changes follow the lifecycle; fill totals, average price and indexes agree with the
    fills; a fill that must change the state waits for the lock its own caller holds, so no order is ever
    filled and the manager stands still after the first such fill.
  \<^item> Ring: it is the bounded FIFO queue over any sequence of calls; batches come back in order; \<open>is_full\<close> never
    answers yes; the shutdown flag is ignored; the multi-producer variant accepts one item in all.
  \<^item> OCO: the indexes and group invariants hold after any calls; a full fill marks the counterpart for
    cancellation; what the groups do not prevent (a second execution, hidden legs, a permanent limit).
  \<^item> Locks: mutual exclusion for any interleaving; what writer preference and re-entrance do not give; the
    cache's bound and its time to live.
  \<^item> Reconciliation: exactly when a round reports a match; what a fatal round closes; the history's bound.
  \<^item> Commands: risk limits hold back what is beyond them, and what escapes them; metrics and history.
  \<^item> Audit: built chains verify; two different valid chains with one final hash, event hashes of the digest's
    length and full verification exhibit a digest collision; what stays undetected; Merkle proofs fold to the root for a power of two, not for an odd number.
  \<^item> Rates: a client that records one request, no heavier than allowed, for each answer keeps within 90% of the limit;
    questions asked together are all allowed and exceed it; a throttled venue is never let through again.
  \<^item> Books: an update is the update of a plain map cut to the best levels; best prices are extreme; a gap in
    the update ids leaves no trace.
  \<^item> Breakers: the recorded transitions follow the state diagram; an open breaker blocks until its timeout; which
    configurations trip at once or never close again.
  \<^item> Arbitrage: a scan ends, and leaving the rounds early changes nothing; what is reported runs against the edges.
  \<^item> Buffers: messages and bytes survive the round trip; network order is big-endian; float32 rounds once.
  \<^item> Read models: a rebuild gives what live projection gives; a batch may arrive in any order; indexes agree with
    what is stored; short positions are not shown, and a refused event is counted again.
  \<^item> Broker: every message reaches its subscribers once and in order if filters do not raise; JSON round trip; accounting
    of all messages; what a raising filter and a repeated subscription do.
  \<^item> Buckets: a bucket keeps its rate up to the rounding of floats; a request that fits gets through if nobody
    else takes tokens and may starve otherwise; one that does not fit waits for ever; response headers change no decision.
  \<^item> Pegged orders: prices follow the recorded references; an update reprices exactly what is due; cancelling is not final.
  \<^item> Checkpoints: the documented layout gives the state back and every file is complete, but the reader of the code
    accepts none of them.
  \<^item> Cache: exactly when \<open>put\<close> returns; it evicts the oldest entries, as few as needed, and stays within its limit; overwriting
    leaks bytes.
  \<^item> Thresholds: the drawdown is the deepest fall of the window; the window is the last readings; cooldowns hold; which
    thresholds alert too early or never.
  \<^item> Stops: a stop opens within its bounds and only tightens afterwards; the widening for news ends with the first price.
  \<^item> Orphans: exactly what is reported as an orphan; one pass settles exactly what the exchange answers with 200 or 400; a failed request
    reports every live order.
  \<^item> Liquidity: routing conserves the size up to rounding; detection counts trades; probes stay within their limit.
  \<^item> Execution: fills add up; a profile uses up the order; a TWAP order is not spread over time; a slice that fails keeps
    the task polling for ever.
  \<^item> Quotes: an update leaves only the new quotes; the inventory is what the fills add up to; reported profit is 0.
  \<^item> Hedging: a negative delta is neutralised to less than a lot, a positive one is doubled; slippage stays within its cap.
  \<^item> Inventory and margin: rebalancing orders only reduce; every account is allotted its minimum, also beyond the capital;
    a short position is never deleveraged and looks the safer the more it loses.
  \<^item> Consensus: scores stay between -1 and 1; only the last vote of an agent counts; what the thresholds let through.
  \<^item> Venues: exactly when a reconciliation is silent and when it halts trading; a halt persists; funds a venue does not
    report are never missed.
  \<^item> Reserve: a deployment leaves the floor and never more than was there; what a second or a negative deployment does.
  \<^item> Snapshots: deltas lead from one state to the next, but for absent keys and None; what the caller changes in place
    inside nested values is missed; a directory holds at most the allowed number; none of the files
    can be read back, and after a restart it is the new ones that are deleted.
  \<^item> Icebergs: an active order shows no more than what is left of it; a pulled order stays pulled; a threat can make an
    order show more.
  \<^item> Funding: the next funding time is the first boundary after now; what justifies an entry, and that the clock does not; a
    close that fails books the payment again.
  \<^item> Basis: active trades have both legs, on opposite sides, in the direction that pays; which failures leave a leg alone.
  \<^item> Pairs: without rounding the rolling formulas are mean and squared deviations of the window; entries follow the
    deviation; refused legs count as executed, and exits look at the entry prices.
  \<^item> Causality: ancestors and descendants are reachability; the search finds every simple path of at most ten nodes; declared
    confounding is ignored, and the front-door search accepts only mediators that mediate nothing.
  \<^item> Supervisor: handles and restart limits in every history; a crash is repaired where the configuration asks for it; a stopped
    process may be revived, and one started again by hand is not watched.

  \<^bold>\<open>Bounds\<close>

  Ring theorems ask for a requested capacity of at most \<open>2 ^ 62\<close>, where the difference of the
  64-bit counters is exact; no machine has room for more. Loops that drain a ring or build a tree terminate
  by a measure on what is left; \<open>trim_loop\<close> of the books runs the number of excess levels, as each round removes
  one. Deques and histories keep the lengths the code gives them (10000 requests, 1000 commands).

  \<^bold>\<open>What is not modelled\<close>

  Log messages; infinite and not-a-number floats, which no modelled operation makes from finite input in the
  ranges the theorems use; cancellation of a waiting task; the wall clock, whose readings
  are arguments; the scheduling of threads inside a locked method (methods run one after
  the other, except in \<open>RWLocks\<close>, whose subject it is). The rest of the repository - signal and
  machine-learning code, analytics, exchange connectors, the Rust mirrors of the Python files - is not part of
  this development.
\<close>

end
